(* ===== verification/Prelude.thy ===== *)
theory Prelude
  imports Main "HOL-Library.Char_ord" "HOL-Library.List_Lexorder"
begin

text \<open>
  Shared vocabulary of the development: the result type of the stateful operations, the types
  that name the program's quantities, and generic facts on lists that several components use.

  An operation of the C++ code that may throw is a function into \<open>outcome\<close>. \<open>Done\<close> is a normal
  return with its value and the final state. \<open>Throw\<close> is a C++ exception, with the state the
  program is left in (the code mutates its state before some of its throws, so the state is part
  of the result). \<open>Undef\<close> is a call without a result: undefined behaviour, where the code
  dereferences an iterator that the program does not check against \<open>end()\<close>, or a loop that spins
  for ever.
\<close>

section \<open>Names of the program's quantities\<close>

text \<open>
  Lots, ticks, costs and identifiers are 64-bit signed integers in the code
  (\<open>fin/BasicTypes.hpp\<close>, \<open>util/BasicTypes.hpp\<close>). Signed overflow is undefined in C++, so the
  model computes with the mathematical values.
\<close>

type_synonym lots = int
type_synonym ticks = int
type_synonym cost = int
type_synonym id32 = int
type_synonym id64 = int
type_synonym jday = int
type_synonym iso_date = int
type_synonym nanos = int
type_synonym symbol = string
type_synonym mkt_state = nat

section \<open>Outcomes\<close>

datatype ('e, 's, 'a) outcome = Done 'a 's | Throw 'e 's | Undef

definition obind :: "('e, 's, 'a) outcome \<Rightarrow> ('a \<Rightarrow> 's \<Rightarrow> ('e, 's, 'b) outcome) \<Rightarrow> ('e, 's, 'b) outcome"
  where "obind m f = (case m of Done a s \<Rightarrow> f a s | Throw e s \<Rightarrow> Throw e s | Undef \<Rightarrow> Undef)"

lemma obind_simps [simp]:
  "obind (Done a s) f = f a s"
  "obind (Throw e s) f = Throw e s"
  "obind Undef f = Undef"
  by (simp_all add: obind_def)

lemma obind_Done_iff: "obind m f = Done b t \<longleftrightarrow> (\<exists>a s. m = Done a s \<and> f a s = Done b t)"
  by (cases m) auto

lemma obind_Undef_iff: "obind m f = Undef \<longleftrightarrow> m = Undef \<or> (\<exists>a s. m = Done a s \<and> f a s = Undef)"
  by (cases m) auto

lemma obind_Throw_iff:
  "obind m f = Throw e t \<longleftrightarrow> m = Throw e t \<or> (\<exists>a s. m = Done a s \<and> f a s = Throw e t)"
  by (cases m) auto

section \<open>Lists\<close>

lemma filter_takeWhile_id: "(\<And>x. x \<in> set xs \<Longrightarrow> P x \<Longrightarrow> Q x) \<Longrightarrow>
    (\<And>x. x \<in> set (dropWhile Q xs) \<Longrightarrow> \<not> P x) \<Longrightarrow> filter P (takeWhile Q xs) = filter P xs"
proof -
  assume "\<And>x. x \<in> set (dropWhile Q xs) \<Longrightarrow> \<not> P x"
  then have "filter P (dropWhile Q xs) = []" by (simp add: filter_empty_conv)
  then show ?thesis
    by (metis append_Nil2 filter_append takeWhile_dropWhile_id)
qed

lemma sorted_dropWhile_ge:
  fixes f :: "'a \<Rightarrow> 'b::linorder"
  assumes "sorted (map f xs)" and "x \<in> set (dropWhile (\<lambda>y. f y \<le> k) xs)"
  shows "k < f x"
  using assms by (induction xs) (fastforce split: if_splits)+

lemma sorted_dropWhile_gt:
  fixes f :: "'a \<Rightarrow> 'b::linorder"
  assumes "sorted (map f xs)" and "x \<in> set (dropWhile (\<lambda>y. f y < k) xs)"
  shows "k \<le> f x"
  using assms by (induction xs) (fastforce split: if_splits)+

lemma takeWhile_all: "x \<in> set (takeWhile P xs) \<Longrightarrow> P x"
  by (induction xs) (auto split: if_splits)

lemma set_take_drop_While: "set (takeWhile P xs) \<union> set (dropWhile P xs) = set xs"
  by (metis set_append takeWhile_dropWhile_id)

lemma sum_list_map_cong: "(\<And>x. x \<in> set xs \<Longrightarrow> f x = g x) \<Longrightarrow> sum_list (map f xs) = sum_list (map g xs)"
  by (simp cong: map_cong)

lemma sum_list_nonneg_int: "(\<And>x. x \<in> set xs \<Longrightarrow> (0::int) \<le> f x) \<Longrightarrow> 0 \<le> sum_list (map f xs)"
  by (induction xs) auto

lemma sum_list_pos_int:
  "xs \<noteq> [] \<Longrightarrow> (\<And>x. x \<in> set xs \<Longrightarrow> (0::int) < f x) \<Longrightarrow> 0 < sum_list (map f xs)"
  by (induction xs) (auto simp: add_pos_nonneg sum_list_nonneg_int less_imp_le)

lemma sum_list_remove1:
  fixes f :: "'a \<Rightarrow> int"
  assumes "x \<in> set xs"
  shows "sum_list (map f (remove1 x xs)) = sum_list (map f xs) - f x"
  using assms by (induction xs) auto

end
