(* ===== verification/Basic_Types.thy ===== *)
theory Basic_Types
  imports Prelude
begin

text \<open>
  The enumerations of \<open>fin/BasicTypes.hpp\<close> (declared in the flatbuffers schema and used through
  the aliases of that header), the three-way comparison of \<open>util/Compare.hpp\<close>, the cost function
  of \<open>fin/Conv.hpp\<close> and the error codes and exception classes of \<open>fin/Error.hpp\<close> and
  \<open>fin/Exception.hpp\<close>.
\<close>

section \<open>Enumerations\<close>

datatype direct = NoDirect | Paid | Given

datatype liq_ind = NoLiq | Maker | Taker

datatype side = NoSide | Buy | Sell

datatype ord_state = NoState | New | Revise | Cancel | Trade

definition opposite_liq :: "liq_ind \<Rightarrow> liq_ind" where
  "opposite_liq li = (case li of NoLiq \<Rightarrow> NoLiq | Maker \<Rightarrow> Taker | Taker \<Rightarrow> Maker)"

definition opposite_side :: "side \<Rightarrow> side" where
  "opposite_side s = (case s of NoSide \<Rightarrow> NoSide | Buy \<Rightarrow> Sell | Sell \<Rightarrow> Buy)"

lemma opposite_side_simps [simp]:
  "opposite_side NoSide = NoSide" "opposite_side Buy = Sell" "opposite_side Sell = Buy"
  by (simp_all add: opposite_side_def)

lemma opposite_liq_simps [simp]:
  "opposite_liq NoLiq = NoLiq" "opposite_liq Maker = Taker" "opposite_liq Taker = Maker"
  by (simp_all add: opposite_liq_def)

lemma opposite_side_involutive [simp]: "opposite_side (opposite_side s) = s"
  by (cases s) simp_all

lemma opposite_liq_involutive [simp]: "opposite_liq (opposite_liq s) = s"
  by (cases s) simp_all

section \<open>Three-way comparison\<close>

definition compare :: "'a::linorder \<Rightarrow> 'a \<Rightarrow> int" where
  "compare lhs rhs = (if lhs < rhs then -1 else if lhs > rhs then 1 else 0)"

lemma compare_simps:
  "compare a b < 0 \<longleftrightarrow> a < b" "compare a b = 0 \<longleftrightarrow> a = b" "0 < compare a b \<longleftrightarrow> b < a"
  by (auto simp: compare_def)

lemma compare_antisym: "compare b a = - compare a b"
  by (auto simp: compare_def)

section \<open>Cost\<close>

definition cost :: "lots \<Rightarrow> ticks \<Rightarrow> cost" where
  "cost lots ticks = lots * ticks"

lemma cost_add_lots: "cost (a + b) t = cost a t + cost b t"
  by (simp add: cost_def algebra_simps)

lemma cost_zero [simp]: "cost 0 t = 0"
  by (simp add: cost_def)

section \<open>Errors\<close>

text \<open>
  The error codes of \<open>fin::Error\<close>, plus the one exception of the core that is not one of them:
  the \<open>std::runtime_error\<close> that \<open>MsgQueue\<close> throws when the queue has no capacity left.
\<close>

datatype err =
    BadRequest | AlreadyExists | RefAlreadyExists | Invalid | InvalidLots | InvalidTicks
  | ProtocolError | TooLate | Unauthorized | Forbidden | NotFound | AccntNotFound
  | MarketNotFound | OrderNotFound | MethodNotAllowed | InternalError | DatabaseError
  | ServiceUnavailable | MarketClosed | QueueFull

definition error_code :: "err \<Rightarrow> int option" where
  "error_code e = (case e of
     BadRequest \<Rightarrow> Some 40000 | AlreadyExists \<Rightarrow> Some 40001 | RefAlreadyExists \<Rightarrow> Some 40002
   | Invalid \<Rightarrow> Some 40003 | InvalidLots \<Rightarrow> Some 40004 | InvalidTicks \<Rightarrow> Some 40005
   | ProtocolError \<Rightarrow> Some 40006 | TooLate \<Rightarrow> Some 40007 | Unauthorized \<Rightarrow> Some 40100
   | Forbidden \<Rightarrow> Some 40300 | NotFound \<Rightarrow> Some 40400 | AccntNotFound \<Rightarrow> Some 40401
   | MarketNotFound \<Rightarrow> Some 40402 | OrderNotFound \<Rightarrow> Some 40403
   | MethodNotAllowed \<Rightarrow> Some 40500 | InternalError \<Rightarrow> Some 50000
   | DatabaseError \<Rightarrow> Some 50001 | ServiceUnavailable \<Rightarrow> Some 50300
   | MarketClosed \<Rightarrow> Some 50301 | QueueFull \<Rightarrow> None)"

text \<open>\<open>ErrorCategory::message\<close>, the misspelt message of \<open>TooLate\<close> included.\<close>

definition error_message :: "int \<Rightarrow> string" where
  "error_message c =
    (if c = 40000 then ''bad request''
     else if c = 40001 then ''already exists''
     else if c = 40002 then ''reference already exists''
     else if c = 40003 then ''invalid''
     else if c = 40004 then ''invalid lots''
     else if c = 40005 then ''invalid ticks''
     else if c = 40006 then ''protocol error''
     else if c = 40007 then ''tool late''
     else if c = 40100 then ''unauthorized''
     else if c = 40300 then ''forbidden''
     else if c = 40400 then ''not found''
     else if c = 40401 then ''account not found''
     else if c = 40402 then ''market not found''
     else if c = 40403 then ''order not found''
     else if c = 40500 then ''method not allowed''
     else if c = 50000 then ''internal error''
     else if c = 50001 then ''database error''
     else if c = 50300 then ''service unavailable''
     else if c = 50301 then ''market closed''
     else ''unknown error'')"

text \<open>
  \<open>http_status\<close> of \<open>web/Types.cpp\<close>: the status of an error of the program's own category, and
  500 for any other error category (such as that of the queue's \<open>std::runtime_error\<close>).
\<close>

definition http_status :: "err \<Rightarrow> nat" where
  "http_status e = (case e of
     BadRequest \<Rightarrow> 400 | AlreadyExists \<Rightarrow> 400 | RefAlreadyExists \<Rightarrow> 400 | Invalid \<Rightarrow> 400
   | InvalidLots \<Rightarrow> 400 | InvalidTicks \<Rightarrow> 400 | ProtocolError \<Rightarrow> 400 | TooLate \<Rightarrow> 400
   | Unauthorized \<Rightarrow> 401
   | Forbidden \<Rightarrow> 403
   | NotFound \<Rightarrow> 404 | AccntNotFound \<Rightarrow> 404 | MarketNotFound \<Rightarrow> 404 | OrderNotFound \<Rightarrow> 404
   | MethodNotAllowed \<Rightarrow> 405
   | InternalError \<Rightarrow> 500 | DatabaseError \<Rightarrow> 500
   | ServiceUnavailable \<Rightarrow> 503 | MarketClosed \<Rightarrow> 503
   | QueueFull \<Rightarrow> 500)"

text \<open>
  The base class of each exception class of \<open>fin/Exception.hpp\<close>, named by the error its default
  constructor carries; \<open>None\<close> for a class derived from \<open>Exception\<close> itself.
\<close>

definition exn_base :: "err \<Rightarrow> err option" where
  "exn_base e = (case e of
     AlreadyExists \<Rightarrow> Some BadRequest | RefAlreadyExists \<Rightarrow> Some AlreadyExists
   | Invalid \<Rightarrow> Some BadRequest | InvalidLots \<Rightarrow> Some Invalid | InvalidTicks \<Rightarrow> Some Invalid
   | ProtocolError \<Rightarrow> Some BadRequest | TooLate \<Rightarrow> Some BadRequest
   | AccntNotFound \<Rightarrow> Some NotFound | MarketNotFound \<Rightarrow> Some NotFound
   | OrderNotFound \<Rightarrow> Some NotFound | DatabaseError \<Rightarrow> Some InternalError
   | MarketClosed \<Rightarrow> Some ServiceUnavailable | _ \<Rightarrow> None)"

end
