(* ===== verification/Order_Exec.thy ===== *)
theory Order_Exec
  imports Basic_Types
begin

text \<open>
  \<open>Request\<close>, \<open>Order\<close> and \<open>Exec\<close> (\<open>fin/Request.hpp\<close>, \<open>fin/Order.hpp\<close>, \<open>fin/Exec.hpp\<close>). The two
  classes derive from \<open>Request\<close>, as the two records extend the record \<open>request\<close>. The methods of
  the classes are functions on the records. The theory proves the quantity invariant of an
  order and that every method called within its assertions keeps it.

  Addresses of orders, executions and positions (\<open>OrderPtr\<close>, \<open>ExecPtr\<close>, \<open>PosnPtr\<close>) are numbers.
\<close>

type_synonym optr = nat
type_synonym eptr = nat
type_synonym pptr = nat

section \<open>Requests\<close>

record request =
  r_accnt :: symbol
  r_market_id :: id64
  r_instr :: symbol
  r_settl_day :: jday
  r_id :: id64
  r_ref :: string
  r_side :: side
  r_lots :: lots
  r_created :: nanos

text \<open>The key of \<open>RequestIdSet\<close>.\<close>

definition request_key :: "'a request_scheme \<Rightarrow> id64 \<times> id64" where
  "request_key r = (r_market_id r, r_id r)"

text \<open>\<open>RequestIdSet::ValueCompare::compare\<close>: by market, then by identifier.\<close>

definition request_compare :: "'a request_scheme \<Rightarrow> 'a request_scheme \<Rightarrow> int" where
  "request_compare lhs rhs =
     (let result = compare (r_market_id lhs) (r_market_id rhs)
      in if result = 0 then compare (r_id lhs) (r_id rhs) else result)"

text \<open>The reference is a \<open>StringBuf<MaxRef>\<close>: it keeps the first 64 characters.\<close>

definition max_ref :: nat where
  "max_ref = 64"

definition make_ref :: "string \<Rightarrow> string" where
  "make_ref ref = take max_ref ref"

section \<open>Orders\<close>

text \<open>
  The level pointer of an order is the key of the level in its market side: the keys of a side's
  levels are unique, and \<open>None\<close> is the null pointer.
\<close>

record order = request +
  o_level :: "int option"
  o_state :: ord_state
  o_ticks :: ticks
  o_resd_lots :: lots
  o_exec_lots :: lots
  o_exec_cost :: cost
  o_last_lots :: lots
  o_last_ticks :: ticks
  o_min_lots :: lots
  o_modified :: nanos

text \<open>The constructor for a new order.\<close>

definition make_order ::
    "symbol \<Rightarrow> id64 \<Rightarrow> symbol \<Rightarrow> jday \<Rightarrow> id64 \<Rightarrow> string \<Rightarrow> side \<Rightarrow> lots \<Rightarrow> ticks \<Rightarrow> lots \<Rightarrow> nanos \<Rightarrow> order"
  where "make_order accnt market_id instr settl_day oid ref sd lots ticks min_lots created =
    \<lparr>r_accnt = accnt, r_market_id = market_id, r_instr = instr, r_settl_day = settl_day, r_id = oid,
     r_ref = make_ref ref, r_side = sd, r_lots = lots, r_created = created,
     o_level = None, o_state = New, o_ticks = ticks, o_resd_lots = lots, o_exec_lots = 0,
     o_exec_cost = 0, o_last_lots = 0, o_last_ticks = 0, o_min_lots = min_lots,
     o_modified = created\<rparr>"

definition order_done :: "order \<Rightarrow> bool" where
  "order_done ord \<longleftrightarrow> o_resd_lots ord = 0"

definition order_create :: "nanos \<Rightarrow> order \<Rightarrow> order" where
  "order_create now ord = ord\<lparr>o_state := New, o_resd_lots := r_lots ord, o_exec_lots := 0,
     o_exec_cost := 0, o_modified := now\<rparr>"

definition order_revise :: "lots \<Rightarrow> nanos \<Rightarrow> order \<Rightarrow> order" where
  "order_revise lots now ord =
     (let delta = r_lots ord - lots
      in ord\<lparr>o_state := Revise, r_lots := lots, o_resd_lots := o_resd_lots ord - delta,
          o_modified := now\<rparr>)"

definition order_cancel :: "nanos \<Rightarrow> order \<Rightarrow> order" where
  "order_cancel now ord = ord\<lparr>o_state := Cancel, o_resd_lots := 0, o_modified := now\<rparr>"

definition order_trade :: "lots \<Rightarrow> cost \<Rightarrow> lots \<Rightarrow> ticks \<Rightarrow> nanos \<Rightarrow> order \<Rightarrow> order" where
  "order_trade taken_lots taken_cost last_lots last_ticks now ord =
     ord\<lparr>o_state := Trade, o_resd_lots := o_resd_lots ord - taken_lots,
       o_exec_lots := o_exec_lots ord + taken_lots, o_exec_cost := o_exec_cost ord + taken_cost,
       o_last_lots := last_lots, o_last_ticks := last_ticks, o_modified := now\<rparr>"

text \<open>The overload for a single fill.\<close>

definition order_fill :: "lots \<Rightarrow> ticks \<Rightarrow> nanos \<Rightarrow> order \<Rightarrow> order" where
  "order_fill last_lots last_ticks now ord =
     order_trade last_lots (cost last_lots last_ticks) last_lots last_ticks now ord"

definition set_level :: "int option \<Rightarrow> order \<Rightarrow> order" where
  "set_level lvl ord = ord\<lparr>o_level := lvl\<rparr>"

text \<open>
  The quantities of an order that is live in the market: what is open and what is executed add up
  to the order's lots.
\<close>

definition order_ok :: "order \<Rightarrow> bool" where
  "order_ok ord \<longleftrightarrow> 0 < o_resd_lots ord \<and> 0 \<le> o_exec_lots ord
     \<and> r_lots ord = o_resd_lots ord + o_exec_lots ord
     \<and> o_min_lots ord \<le> r_lots ord"

text \<open>The same for an order in any state: a cancelled order keeps its lots and loses the residual.\<close>

definition order_bounds :: "order \<Rightarrow> bool" where
  "order_bounds ord \<longleftrightarrow> 0 \<le> o_resd_lots ord \<and> 0 \<le> o_exec_lots ord
     \<and> o_resd_lots ord + o_exec_lots ord \<le> r_lots ord"

lemmas order_defs = order_create_def order_revise_def order_cancel_def order_trade_def
  order_fill_def set_level_def Let_def

lemma order_ok_bounds: "order_ok ord \<Longrightarrow> order_bounds ord"
  by (simp add: order_ok_def order_bounds_def)

lemma make_order_ok: "0 < lots \<Longrightarrow> min_lots \<le> lots \<Longrightarrow>
    order_ok (make_order accnt market_id instr settl_day oid ref sd lots ticks min_lots created)"
  by (simp add: order_ok_def make_order_def)

lemma order_fill_ok: "order_ok ord \<Longrightarrow> 0 \<le> n \<Longrightarrow> n < o_resd_lots ord \<Longrightarrow> order_ok (order_fill n t now ord)"
  by (simp add: order_ok_def order_defs)

lemma order_fill_bounds: "order_ok ord \<Longrightarrow> 0 \<le> n \<Longrightarrow> n \<le> o_resd_lots ord \<Longrightarrow> order_bounds (order_fill n t now ord)"
  by (simp add: order_ok_def order_bounds_def order_defs)

lemma order_revise_ok: "order_ok ord \<Longrightarrow> o_exec_lots ord < lots \<Longrightarrow> o_min_lots ord \<le> lots \<Longrightarrow>
    order_ok (order_revise lots now ord)"
  by (simp add: order_ok_def order_defs)

lemma order_cancel_bounds: "order_ok ord \<Longrightarrow> order_bounds (order_cancel now ord)"
  by (simp add: order_ok_def order_bounds_def order_defs)

text \<open>The methods do not touch what identifies the order or its place in the market.\<close>

lemma order_frame [simp]:
  "request_key (order_fill n t now ord) = request_key ord"
  "request_key (order_trade n c l t now ord) = request_key ord"
  "request_key (order_revise lots now ord) = request_key ord"
  "request_key (order_cancel now ord) = request_key ord"
  "request_key (order_create now ord) = request_key ord"
  "request_key (set_level lvl ord) = request_key ord"
  by (simp_all add: request_key_def order_defs)

section \<open>Executions\<close>

record exec = request +
  e_order_id :: id64
  e_state :: ord_state
  e_ticks :: ticks
  e_resd_lots :: lots
  e_exec_lots :: lots
  e_exec_cost :: cost
  e_last_lots :: lots
  e_last_ticks :: ticks
  e_min_lots :: lots
  e_match_id :: id64
  e_posn_lots :: lots
  e_posn_cost :: cost
  e_liq_ind :: liq_ind
  e_cpty :: symbol

definition make_exec ::
    "symbol \<Rightarrow> id64 \<Rightarrow> symbol \<Rightarrow> jday \<Rightarrow> id64 \<Rightarrow> id64 \<Rightarrow> string \<Rightarrow> ord_state \<Rightarrow> side \<Rightarrow> lots \<Rightarrow> ticks
      \<Rightarrow> lots \<Rightarrow> lots \<Rightarrow> cost \<Rightarrow> lots \<Rightarrow> ticks \<Rightarrow> lots \<Rightarrow> id64 \<Rightarrow> lots \<Rightarrow> cost \<Rightarrow> liq_ind \<Rightarrow> symbol \<Rightarrow> nanos
      \<Rightarrow> exec"
  where "make_exec accnt market_id instr settl_day eid order_id ref state sd lots ticks resd_lots
      exec_lots exec_cost last_lots last_ticks min_lots match_id posn_lots posn_cost li cpty created =
    \<lparr>r_accnt = accnt, r_market_id = market_id, r_instr = instr, r_settl_day = settl_day, r_id = eid,
     r_ref = make_ref ref, r_side = sd, r_lots = lots, r_created = created,
     e_order_id = order_id, e_state = state, e_ticks = ticks, e_resd_lots = resd_lots,
     e_exec_lots = exec_lots, e_exec_cost = exec_cost, e_last_lots = last_lots,
     e_last_ticks = last_ticks, e_min_lots = min_lots, e_match_id = match_id,
     e_posn_lots = posn_lots, e_posn_cost = posn_cost, e_liq_ind = li, e_cpty = cpty\<rparr>"

definition exec_revise :: "lots \<Rightarrow> exec \<Rightarrow> exec" where
  "exec_revise lots ex =
     (let delta = r_lots ex - lots
      in ex\<lparr>e_state := Revise, r_lots := lots, e_resd_lots := e_resd_lots ex - delta\<rparr>)"

definition exec_cancel :: "exec \<Rightarrow> exec" where
  "exec_cancel ex = ex\<lparr>e_state := Cancel, e_resd_lots := 0\<rparr>"

definition exec_posn :: "lots \<Rightarrow> cost \<Rightarrow> exec \<Rightarrow> exec" where
  "exec_posn posn_lots posn_cost ex = ex\<lparr>e_posn_lots := posn_lots, e_posn_cost := posn_cost\<rparr>"

definition exec_trade ::
    "lots \<Rightarrow> cost \<Rightarrow> lots \<Rightarrow> ticks \<Rightarrow> id64 \<Rightarrow> liq_ind \<Rightarrow> symbol \<Rightarrow> exec \<Rightarrow> exec"
  where "exec_trade sum_lots sum_cost last_lots last_ticks match_id li cpty ex =
    ex\<lparr>e_state := Trade, e_resd_lots := e_resd_lots ex - sum_lots,
      e_exec_lots := e_exec_lots ex + sum_lots, e_exec_cost := e_exec_cost ex + sum_cost,
      e_last_lots := last_lots, e_last_ticks := last_ticks, e_match_id := match_id,
      e_liq_ind := li, e_cpty := cpty\<rparr>"

definition exec_fill :: "lots \<Rightarrow> ticks \<Rightarrow> id64 \<Rightarrow> liq_ind \<Rightarrow> symbol \<Rightarrow> exec \<Rightarrow> exec" where
  "exec_fill last_lots last_ticks match_id li cpty ex =
     exec_trade last_lots (cost last_lots last_ticks) last_lots last_ticks match_id li cpty ex"

text \<open>\<open>Exec::opposite\<close>: the counter-party's side of a manual trade.\<close>

definition exec_opposite :: "id64 \<Rightarrow> exec \<Rightarrow> exec" where
  "exec_opposite eid ex =
     make_exec (e_cpty ex) (r_market_id ex) (r_instr ex) (r_settl_day ex) eid (e_order_id ex)
       (r_ref ex) (e_state ex) (opposite_side (r_side ex)) (r_lots ex) (e_ticks ex)
       (e_resd_lots ex) (e_exec_lots ex) (e_exec_cost ex) (e_last_lots ex) (e_last_ticks ex)
       (e_min_lots ex) (e_match_id ex) (e_posn_lots ex) (e_posn_cost ex)
       (opposite_liq (e_liq_ind ex)) (r_accnt ex) (r_created ex)"

text \<open>\<open>App::Impl::new_exec\<close>: the snapshot of an order.\<close>

definition new_exec :: "order \<Rightarrow> id64 \<Rightarrow> nanos \<Rightarrow> exec" where
  "new_exec ord eid created =
     make_exec (r_accnt ord) (r_market_id ord) (r_instr ord) (r_settl_day ord) eid (r_id ord)
       (r_ref ord) (o_state ord) (r_side ord) (r_lots ord) (o_ticks ord) (o_resd_lots ord)
       (o_exec_lots ord) (o_exec_cost ord) (o_last_lots ord) (o_last_ticks ord) (o_min_lots ord)
       0 0 0 NoLiq [] created"

lemmas exec_defs = make_exec_def exec_revise_def exec_cancel_def exec_posn_def exec_trade_def
  exec_fill_def exec_opposite_def new_exec_def Let_def

text \<open>
  The execution of an event carries the quantities the order has after the event: \<open>exec_sync\<close>
  relates the two records.
\<close>

definition exec_sync :: "order \<Rightarrow> exec \<Rightarrow> bool" where
  "exec_sync ord ex \<longleftrightarrow> r_accnt ex = r_accnt ord \<and> r_market_id ex = r_market_id ord
     \<and> e_order_id ex = r_id ord \<and> r_side ex = r_side ord \<and> r_lots ex = r_lots ord
     \<and> e_ticks ex = o_ticks ord \<and> e_state ex = o_state ord
     \<and> e_resd_lots ex = o_resd_lots ord \<and> e_exec_lots ex = o_exec_lots ord
     \<and> e_exec_cost ex = o_exec_cost ord \<and> e_min_lots ex = o_min_lots ord"

lemma exec_sync_new: "exec_sync ord (new_exec ord eid created)"
  by (simp add: exec_sync_def exec_defs)

lemma exec_sync_revise: "exec_sync (order_revise lots now ord) (exec_revise lots (new_exec ord eid created))"
  by (simp add: exec_sync_def exec_defs order_defs)

lemma exec_sync_cancel: "exec_sync (order_cancel now ord) (exec_cancel (new_exec ord eid created))"
  by (simp add: exec_sync_def exec_defs order_defs)

lemma exec_sync_fill:
  "exec_sync (order_fill n t now ord) (exec_fill n t match_id li cpty (new_exec ord eid created))"
  by (simp add: exec_sync_def exec_defs order_defs)

lemma exec_sync_trade:
  "exec_sync (order_trade n c l t now ord)
     (exec_trade n c l t match_id li cpty (new_exec ord eid created))"
  by (simp add: exec_sync_def exec_defs order_defs)

lemma exec_opposite_twice:
  "e_cpty ex \<noteq> [] \<Longrightarrow> length (r_ref ex) \<le> max_ref \<Longrightarrow>
     exec_opposite (r_id ex) (exec_opposite eid ex) = ex"
  by (simp add: exec_defs make_ref_def)

end
