(* ===== verification/Keyed_Set.thy ===== *)
theory Keyed_Set
  imports Prelude
begin

text \<open>
  The intrusive containers of the program. \<open>IdSet\<close>, \<open>SymbolSet\<close> (\<open>util/Set.hpp\<close>), \<open>RequestIdSet\<close>
  (\<open>fin/Request.hpp\<close>), \<open>OrderRefSet\<close> (\<open>fin/Order.hpp\<close>), \<open>PosnSet\<close> (\<open>fin/Posn.hpp\<close>) and \<open>LevelSet\<close>
  (\<open>fin/Level.hpp\<close>) are the same class over different traits: an ordered set with unique keys,
  in which the key of an element is computed from the element. The model has one definition per
  operation, with the trait as the argument \<open>key\<close>. The elements are kept as the list an
  iteration from \<open>begin()\<close> to \<open>end()\<close> visits; an iterator is the suffix of that list that starts
  at its position, and \<open>end()\<close> is the empty suffix.

  The locale \<open>keyed_set\<close> states what the users of a set rely on; it is interpreted here for
  every key function, and the components use the interpretation at their own keys.
\<close>

section \<open>Operations\<close>

definition lower_bound :: "('v \<Rightarrow> 'k::linorder) \<Rightarrow> 'k \<Rightarrow> 'v list \<Rightarrow> 'v list" where
  "lower_bound key k s = dropWhile (\<lambda>v. key v < k) s"

definition set_find :: "('v \<Rightarrow> 'k::linorder) \<Rightarrow> 'k \<Rightarrow> 'v list \<Rightarrow> 'v option" where
  "set_find key k s = (case lower_bound key k s of
       [] \<Rightarrow> None
     | v # _ \<Rightarrow> if k < key v then None else Some v)"

definition find_hint :: "('v \<Rightarrow> 'k::linorder) \<Rightarrow> 'k \<Rightarrow> 'v list \<Rightarrow> 'v list \<times> bool" where
  "find_hint key k s =
     (let it = lower_bound key k s in (it, it \<noteq> [] \<and> \<not> k < key (hd it)))"

definition set_insert :: "('v \<Rightarrow> 'k::linorder) \<Rightarrow> 'v \<Rightarrow> 'v list \<Rightarrow> 'v list" where
  "set_insert key v s =
     (if snd (find_hint key (key v) s) then s
      else takeWhile (\<lambda>w. key w < key v) s @ v # lower_bound key (key v) s)"

definition set_insert_or_replace :: "('v \<Rightarrow> 'k::linorder) \<Rightarrow> 'v \<Rightarrow> 'v list \<Rightarrow> 'v list" where
  "set_insert_or_replace key v s =
     (if snd (find_hint key (key v) s)
      then takeWhile (\<lambda>w. key w < key v) s @ v # tl (lower_bound key (key v) s)
      else set_insert key v s)"

definition set_remove :: "('v \<Rightarrow> 'k::linorder) \<Rightarrow> 'v \<Rightarrow> 'v list \<Rightarrow> 'v list" where
  "set_remove key v s = filter (\<lambda>w. key w \<noteq> key v) s"

text \<open>
  Mutation of an element through a reference into the set. The program only mutates members that
  the key is not computed from.
\<close>

definition set_modify :: "('v \<Rightarrow> 'k::linorder) \<Rightarrow> 'k \<Rightarrow> ('v \<Rightarrow> 'v) \<Rightarrow> 'v list \<Rightarrow> 'v list" where
  "set_modify key k f s = map (\<lambda>v. if key v = k then f v else v) s"

definition set_ok :: "('v \<Rightarrow> 'k::linorder) \<Rightarrow> 'v list \<Rightarrow> bool" where
  "set_ok key s = sorted_wrt (<) (map key s)"

section \<open>Lookup in a sorted list\<close>

lemma set_ok_Nil [simp]: "set_ok key []"
  by (simp add: set_ok_def)

lemma set_ok_Cons: "set_ok key (v # s) \<longleftrightarrow> (\<forall>w\<in>set s. key v < key w) \<and> set_ok key s"
  by (auto simp: set_ok_def)

lemma set_ok_distinct: "set_ok key s \<Longrightarrow> distinct (map key s)"
  by (simp add: set_ok_def strict_sorted_iff)

lemma set_ok_inj: "set_ok key s \<Longrightarrow> v \<in> set s \<Longrightarrow> w \<in> set s \<Longrightarrow> key v = key w \<Longrightarrow> v = w"
  by (meson distinct_map inj_onD set_ok_distinct)

lemma set_find_Nil [simp]: "set_find key k [] = None"
  by (simp add: set_find_def lower_bound_def)

lemma set_find_Cons:
  "set_ok key (v # s) \<Longrightarrow>
     set_find key k (v # s) = (if k = key v then Some v else set_find key k s)"
  by (cases s) (auto simp: set_find_def lower_bound_def set_ok_Cons)

lemma set_find_Some_iff:
  "set_ok key s \<Longrightarrow> set_find key k s = Some v \<longleftrightarrow> v \<in> set s \<and> key v = k"
  by (induction s) (auto simp: set_find_Cons set_ok_Cons)

lemma set_find_None_iff: "set_ok key s \<Longrightarrow> set_find key k s = None \<longleftrightarrow> k \<notin> key ` set s"
  by (induction s) (auto simp: set_find_Cons set_ok_Cons)

lemma find_hint_found: "snd (find_hint key k s) \<longleftrightarrow> set_find key k s \<noteq> None"
  by (auto simp: find_hint_def set_find_def Let_def split: list.split)

lemma find_hint_it: "fst (find_hint key k s) = lower_bound key k s"
  by (simp add: find_hint_def Let_def)

lemma set_insert_Cons:
  "set_insert key v (w # s) =
     (if key w < key v then w # set_insert key v s
      else if key v < key w then v # w # s else w # s)"
  by (auto simp: set_insert_def find_hint_def lower_bound_def Let_def)

lemma set_insert_Nil [simp]: "set_insert key v [] = [v]"
  by (simp add: set_insert_def find_hint_def lower_bound_def)

lemma set_find_cong:
  assumes "set_ok key s" and "set_ok key t"
    and "\<And>v. key v = k \<Longrightarrow> v \<in> set s \<longleftrightarrow> v \<in> set t"
  shows "set_find key k s = set_find key k t"
proof (cases "set_find key k s")
  case None
  then have "k \<notin> key ` set t"
    using assms by (auto simp: set_find_None_iff)
  then have "set_find key k t = None"
    using assms(2) by (simp add: set_find_None_iff)
  with None show ?thesis by simp
next
  case (Some v)
  with assms have "v \<in> set t \<and> key v = k"
    by (auto simp: set_find_Some_iff)
  then have "set_find key k t = Some v"
    using assms(2) by (simp add: set_find_Some_iff)
  with Some show ?thesis by simp
qed

lemma set_set_insert:
  "set_ok key s \<Longrightarrow>
     set (set_insert key v s) = (if key v \<in> key ` set s then set s else insert v (set s))"
  by (induction s) (auto simp: set_insert_Cons set_ok_Cons)

lemma set_ok_insert: "set_ok key s \<Longrightarrow> set_ok key (set_insert key v s)"
  by (induction s) (auto simp: set_insert_Cons set_ok_Cons set_set_insert split: if_splits)

lemma set_find_insert:
  assumes "set_ok key s"
  shows "set_find key k (set_insert key v s) =
    (if k = key v \<and> set_find key k s = None then Some v else set_find key k s)"
proof (cases "k = key v \<and> set_find key k s = None")
  case True
  with assms show ?thesis
    by (auto simp: set_find_Some_iff set_ok_insert set_set_insert set_find_None_iff)
next
  case False
  with assms show ?thesis
    by (auto intro!: set_find_cong simp: set_ok_insert set_set_insert set_find_None_iff
        split: if_splits)
qed

lemma set_replace_Cons:
  "set_insert_or_replace key v (w # s) =
     (if key w < key v then w # set_insert_or_replace key v s
      else if key v < key w then v # w # s else v # s)"
  by (auto simp: set_insert_or_replace_def set_insert_def find_hint_def lower_bound_def Let_def)

lemma set_replace_Nil [simp]: "set_insert_or_replace key v [] = [v]"
  by (simp add: set_insert_or_replace_def find_hint_def lower_bound_def)

lemma set_set_replace:
  "set_ok key s \<Longrightarrow>
     set (set_insert_or_replace key v s) = insert v {w \<in> set s. key w \<noteq> key v}"
  by (induction s) (auto simp: set_replace_Cons set_ok_Cons)

lemma set_ok_replace: "set_ok key s \<Longrightarrow> set_ok key (set_insert_or_replace key v s)"
  by (induction s) (auto simp: set_replace_Cons set_ok_Cons set_set_replace)

lemma set_find_replace:
  assumes "set_ok key s"
  shows "set_find key k (set_insert_or_replace key v s) =
    (if k = key v then Some v else set_find key k s)"
proof (cases "k = key v")
  case True
  with assms show ?thesis
    by (simp add: set_find_Some_iff set_ok_replace set_set_replace)
next
  case False
  with assms show ?thesis
    by (auto intro!: set_find_cong simp: set_ok_replace set_set_replace)
qed

lemma set_set_remove: "set (set_remove key v s) = {w \<in> set s. key w \<noteq> key v}"
  by (auto simp: set_remove_def)

lemma set_ok_filter: "set_ok key s \<Longrightarrow> set_ok key (filter P s)"
  by (induction s) (auto simp: set_ok_Cons)

lemma set_ok_remove: "set_ok key s \<Longrightarrow> set_ok key (set_remove key v s)"
  by (simp add: set_remove_def set_ok_filter)

lemma set_find_remove:
  assumes "set_ok key s"
  shows "set_find key k (set_remove key v s) = (if k = key v then None else set_find key k s)"
proof (cases "k = key v")
  case True
  with assms show ?thesis
    by (auto simp: set_find_None_iff set_ok_remove set_set_remove)
next
  case False
  with assms show ?thesis
    by (auto intro!: set_find_cong simp: set_ok_remove set_set_remove)
qed

lemma set_ok_modify:
  assumes "set_ok key s" and "\<And>v. key v = k \<Longrightarrow> key (f v) = k"
  shows "set_ok key (set_modify key k f s)"
proof -
  have "map key (set_modify key k f s) = map key s" using assms(2) by (simp add: set_modify_def)
  then show ?thesis using assms(1) by (simp only: set_ok_def)
qed

lemma set_find_modify:
  assumes "set_ok key s" and f: "\<And>v. key v = k \<Longrightarrow> key (f v) = k"
  shows "set_find key k' (set_modify key k f s) =
    (if k' = k then map_option f (set_find key k s) else set_find key k' s)"
  using assms(1)
proof (induction s)
  case (Cons v s)
  then have "set_ok key (set_modify key k f (v # s))"
    using f by (intro set_ok_modify) auto
  with Cons show ?case
    by (auto simp: set_modify_def set_find_Cons set_ok_Cons f)
qed (simp add: set_modify_def)

lemma set_modify_miss: "set_ok key s \<Longrightarrow> set_find key k s = None \<Longrightarrow> set_modify key k f s = s"
  by (induction s) (auto simp: set_modify_def set_find_Cons set_ok_Cons split: if_splits)

text \<open>What an iterator at the element with key \<open>k\<close> sees: the element, then the larger keys.\<close>

lemma lower_bound_found:
  assumes "set_ok key s" and "set_find key k s = Some v"
  obtains rest where "lower_bound key k s = v # rest"
    and "set rest = {w \<in> set s. k < key w}" and "set_ok key rest"
proof -
  have "\<exists>rest. lower_bound key k s = v # rest \<and> set rest = {w \<in> set s. k < key w} \<and> set_ok key rest"
    using assms
  proof (induction s)
    case (Cons w s)
    show ?case
    proof (cases "k = key w")
      case True
      with Cons.prems show ?thesis
        by (auto simp: set_find_Cons lower_bound_def set_ok_Cons)
    next
      case False
      with Cons.prems have "set_find key k s = Some v" "set_ok key s" "key w < k"
        by (auto simp: set_find_Cons set_ok_Cons set_find_Some_iff)
      with Cons.IH False show ?thesis by (auto simp: lower_bound_def)
    qed
  qed simp
  then show thesis using that by blast
qed

section \<open>The interface of an ordered set\<close>

locale keyed_set =
  fixes key :: "'v \<Rightarrow> 'k"
    and find :: "'k \<Rightarrow> 's \<Rightarrow> 'v option"
    and insert :: "'v \<Rightarrow> 's \<Rightarrow> 's"
    and replace :: "'v \<Rightarrow> 's \<Rightarrow> 's"
    and remove :: "'v \<Rightarrow> 's \<Rightarrow> 's"
    and empty :: 's
    and inv :: "'s \<Rightarrow> bool"
  assumes inv_empty: "inv empty"
    and find_empty: "find k empty = None"
    and inv_insert: "inv s \<Longrightarrow> inv (insert v s)"
    and inv_replace: "inv s \<Longrightarrow> inv (replace v s)"
    and inv_remove: "inv s \<Longrightarrow> inv (remove v s)"
    and find_key: "inv s \<Longrightarrow> find k s = Some v \<Longrightarrow> key v = k"
    and find_insert: "inv s \<Longrightarrow> find k (insert v s) =
          (if k = key v \<and> find k s = None then Some v else find k s)"
    and find_replace: "inv s \<Longrightarrow> find k (replace v s) = (if k = key v then Some v else find k s)"
    and find_remove: "inv s \<Longrightarrow> find k (remove v s) = (if k = key v then None else find k s)"
begin

lemma insert_new: "inv s \<Longrightarrow> find (key v) s = None \<Longrightarrow> find k (insert v s) = (if k = key v then Some v else find k s)"
  by (simp add: find_insert)

lemma insert_dup: "inv s \<Longrightarrow> find (key v) s = Some w \<Longrightarrow> find k (insert v s) = find k s"
  by (auto simp: find_insert)

lemma remove_insert:
  "inv s \<Longrightarrow> find (key v) s = None \<Longrightarrow> find k (remove v (insert v s)) = find k s"
  by (simp add: find_remove inv_insert find_insert)

lemma insert_remove:
  "inv s \<Longrightarrow> find (key v) s = Some v \<Longrightarrow> find k (insert v (remove v s)) = find k s"
  by (auto simp: find_remove inv_remove find_insert)

lemma replace_keeps_others: "inv s \<Longrightarrow> k \<noteq> key v \<Longrightarrow> find k (replace v s) = find k s"
  by (simp add: find_replace)

end

interpretation ks: keyed_set key "set_find key" "set_insert key" "set_insert_or_replace key"
    "set_remove key" "[]" "set_ok key"
  for key :: "'v \<Rightarrow> 'k::linorder"
  by unfold_locales
    (auto simp: set_ok_insert set_ok_replace set_ok_remove set_find_Some_iff set_find_insert
       set_find_replace set_find_remove)

lemmas keyed_set_simps =
  set_find_insert set_find_replace set_find_remove set_find_modify
  set_ok_insert set_ok_replace set_ok_remove set_ok_modify

end
