(* ===== verification/Market_Side.thy ===== *)
theory Market_Side
  imports Order_Exec Keyed_Set
begin

text \<open>
  One side of an order book: the price level \<open>Level\<close> and the set of levels (\<open>fin/Level.hpp\<close>,
  \<open>fin/Level.cpp\<close>), the list of orders (\<open>OrderList\<close> of \<open>fin/Order.hpp\<close>) and \<open>MarketSide\<close>
  (\<open>fin/MarketSide.hpp\<close>, \<open>fin/MarketSide.cpp\<close>).

  Orders live in a heap \<open>oheap\<close>, because the code shares them by pointer between the book and the
  session of the account that owns them. The invariant \<open>side_inv\<close> says that the list of orders is
  in price-time order and that the levels are exactly the aggregates of the listed orders. The
  theory proves that every operation keeps it and gives each operation's effect on the list.
\<close>

type_synonym oheap = "optr \<Rightarrow> order"

section \<open>Levels\<close>

text \<open>Synthetic level key: the better the price, the smaller the key.\<close>

definition compose_key :: "side \<Rightarrow> ticks \<Rightarrow> int" where
  "compose_key sd ticks = (if sd = Buy then - ticks else ticks)"

record level =
  l_first_order :: optr
  l_key :: int
  l_ticks :: ticks
  l_lots :: lots
  l_count :: int

definition make_level :: "optr \<Rightarrow> order \<Rightarrow> level" where
  "make_level p ord = \<lparr>l_first_order = p, l_key = compose_key (r_side ord) (o_ticks ord),
     l_ticks = o_ticks ord, l_lots = o_resd_lots ord, l_count = 1\<rparr>"

definition add_order :: "order \<Rightarrow> level \<Rightarrow> level" where
  "add_order ord l = l\<lparr>l_lots := l_lots l + o_resd_lots ord, l_count := l_count l + 1\<rparr>"

definition sub_order :: "order \<Rightarrow> level \<Rightarrow> level" where
  "sub_order ord l = l\<lparr>l_lots := l_lots l - o_resd_lots ord, l_count := l_count l - 1\<rparr>"

definition reduce :: "lots \<Rightarrow> level \<Rightarrow> level" where
  "reduce delta l = l\<lparr>l_lots := l_lots l - delta\<rparr>"

definition set_first_order :: "optr \<Rightarrow> level \<Rightarrow> level" where
  "set_first_order p l = l\<lparr>l_first_order := p\<rparr>"

lemmas level_defs = make_level_def add_order_def sub_order_def reduce_def set_first_order_def

lemma level_key_frame [simp]:
  "l_key (make_level p ord) = compose_key (r_side ord) (o_ticks ord)"
  "l_key (add_order ord l) = l_key l" "l_key (sub_order ord l) = l_key l"
  "l_key (reduce d l) = l_key l" "l_key (set_first_order p l) = l_key l"
  by (simp_all add: level_defs)

section \<open>The list of orders\<close>

text \<open>
  \<open>OrderList::insert_before\<close>, \<open>insert_back\<close> and \<open>remove\<close>, and the increment of an iterator
  obtained by \<open>to_iterator\<close> (\<open>None\<close> at the end of the list).
\<close>

definition insert_before :: "optr \<Rightarrow> optr \<Rightarrow> optr list \<Rightarrow> optr list" where
  "insert_before p q xs = takeWhile (\<lambda>x. x \<noteq> q) xs @ p # dropWhile (\<lambda>x. x \<noteq> q) xs"

definition insert_back :: "optr \<Rightarrow> optr list \<Rightarrow> optr list" where
  "insert_back p xs = xs @ [p]"

definition next_order :: "optr \<Rightarrow> optr list \<Rightarrow> optr option" where
  "next_order p xs = (case tl (dropWhile (\<lambda>x. x \<noteq> p) xs) of [] \<Rightarrow> None | q # _ \<Rightarrow> Some q)"

definition list_remove :: "optr \<Rightarrow> optr list \<Rightarrow> optr list" where
  "list_remove p xs = remove1 p xs"

section \<open>The side\<close>

record market_side =
  ms_levels :: "level list"
  ms_orders :: "optr list"

definition empty_side :: market_side where
  "empty_side = \<lparr>ms_levels = [], ms_orders = []\<rparr>"

text \<open>\<open>insert_level\<close> returns the iterator at the order's level: the suffix that starts there.\<close>

definition insert_level :: "optr \<Rightarrow> oheap \<times> market_side \<Rightarrow> level list \<times> oheap \<times> market_side" where
  "insert_level p = (\<lambda>(h, ms).
     let ord = h p; k = compose_key (r_side ord) (o_ticks ord);
         found = snd (find_hint l_key k (ms_levels ms));
         ls = (if \<not> found then set_insert l_key (make_level p ord) (ms_levels ms)
               else set_modify l_key k (add_order ord) (ms_levels ms))
     in (lower_bound l_key k ls, h(p := set_level (Some k) ord), ms\<lparr>ms_levels := ls\<rparr>))"

definition insert_order :: "optr \<Rightarrow> oheap \<times> market_side \<Rightarrow> oheap \<times> market_side" where
  "insert_order p hs =
     (let (it, h, ms) = insert_level p hs
      in case tl it of
           lev # _ \<Rightarrow> (h, ms\<lparr>ms_orders := insert_before p (l_first_order lev) (ms_orders ms)\<rparr>)
         | [] \<Rightarrow> (h, ms\<lparr>ms_orders := insert_back p (ms_orders ms)\<rparr>))"

text \<open>
  The private overload of \<open>remove_order\<close>, at the level with key \<open>k\<close>. Its two reads cannot fail
  where the invariant holds: the level exists, and a level that keeps orders after its first one
  goes has a next order.
\<close>

definition remove_order_at :: "int \<Rightarrow> optr \<Rightarrow> oheap \<times> market_side \<Rightarrow> oheap \<times> market_side" where
  "remove_order_at k p = (\<lambda>(h, ms).
     case set_find l_key k (ms_levels ms) of
       None \<Rightarrow> (h, ms)
     | Some lev0 \<Rightarrow>
         let lev = sub_order (h p) lev0;
             ls = (if l_count lev = 0 then set_remove l_key lev (ms_levels ms)
                   else if l_first_order lev = p then
                     (case next_order p (ms_orders ms) of
                        Some q \<Rightarrow> set_modify l_key k (\<lambda>_. set_first_order q lev) (ms_levels ms)
                      | None \<Rightarrow> set_modify l_key k (\<lambda>_. lev) (ms_levels ms))
                   else set_modify l_key k (\<lambda>_. lev) (ms_levels ms))
         in (h(p := set_level None (h p)),
             ms\<lparr>ms_levels := ls, ms_orders := list_remove p (ms_orders ms)\<rparr>))"

definition remove_order :: "optr \<Rightarrow> oheap \<times> market_side \<Rightarrow> oheap \<times> market_side" where
  "remove_order p = (\<lambda>(h, ms).
     case o_level (h p) of None \<Rightarrow> (h, ms) | Some k \<Rightarrow> remove_order_at k p (h, ms))"

definition reduce_level :: "int \<Rightarrow> optr \<Rightarrow> lots \<Rightarrow> oheap \<times> market_side \<Rightarrow> oheap \<times> market_side" where
  "reduce_level k p delta = (\<lambda>(h, ms).
     if delta < o_resd_lots (h p)
     then (h, ms\<lparr>ms_levels := set_modify l_key k (reduce delta) (ms_levels ms)\<rparr>)
     else remove_order_at k p (h, ms))"

definition side_create_order :: "optr \<Rightarrow> nanos \<Rightarrow> oheap \<times> market_side \<Rightarrow> oheap \<times> market_side" where
  "side_create_order p now = (\<lambda>(h, ms). insert_order p (h(p := order_create now (h p)), ms))"

definition side_revise_order ::
    "optr \<Rightarrow> lots \<Rightarrow> nanos \<Rightarrow> oheap \<times> market_side \<Rightarrow> oheap \<times> market_side" where
  "side_revise_order p lots now = (\<lambda>(h, ms).
     let (h1, ms1) = (case o_level (h p) of
           None \<Rightarrow> (h, ms)
         | Some k \<Rightarrow> reduce_level k p (r_lots (h p) - lots) (h, ms))
     in (h1(p := order_revise lots now (h1 p)), ms1))"

definition side_cancel_order :: "optr \<Rightarrow> nanos \<Rightarrow> oheap \<times> market_side \<Rightarrow> oheap \<times> market_side" where
  "side_cancel_order p now = (\<lambda>(h, ms).
     let (h1, ms1) = (case o_level (h p) of
           None \<Rightarrow> (h, ms) | Some k \<Rightarrow> remove_order_at k p (h, ms))
     in (h1(p := order_cancel now (h1 p)), ms1))"

definition side_take_order ::
    "optr \<Rightarrow> lots \<Rightarrow> nanos \<Rightarrow> oheap \<times> market_side \<Rightarrow> oheap \<times> market_side" where
  "side_take_order p lots now = (\<lambda>(h, ms).
     let (h1, ms1) = (case o_level (h p) of
           None \<Rightarrow> (h, ms) | Some k \<Rightarrow> reduce_level k p lots (h, ms))
     in (h1(p := order_fill lots (o_ticks (h1 p)) now (h1 p)), ms1))"

section \<open>Invariant\<close>

definition okey :: "oheap \<Rightarrow> optr \<Rightarrow> int" where
  "okey h p = compose_key (r_side (h p)) (o_ticks (h p))"

text \<open>The aggregate of the listed orders at one key.\<close>

definition at_key :: "oheap \<Rightarrow> int \<Rightarrow> optr list \<Rightarrow> optr list" where
  "at_key h k ps = filter (\<lambda>p. okey h p = k) ps"

definition level_of :: "side \<Rightarrow> oheap \<Rightarrow> optr list \<Rightarrow> int \<Rightarrow> level" where
  "level_of sd h ps k =
     \<lparr>l_first_order = hd (at_key h k ps), l_key = k, l_ticks = (if sd = Buy then - k else k),
      l_lots = (\<Sum>p\<leftarrow>at_key h k ps. o_resd_lots (h p)), l_count = int (length (at_key h k ps))\<rparr>"

definition levels_ok :: "side \<Rightarrow> oheap \<Rightarrow> optr list \<Rightarrow> level list \<Rightarrow> bool" where
  "levels_ok sd h ps ls \<longleftrightarrow> set_ok l_key ls \<and> l_key ` set ls = okey h ` set ps
     \<and> (\<forall>l\<in>set ls. l = level_of sd h ps (l_key l))"

definition listed_ok :: "side \<Rightarrow> oheap \<Rightarrow> optr \<Rightarrow> bool" where
  "listed_ok sd h p \<longleftrightarrow> r_side (h p) = sd \<and> o_level (h p) = Some (okey h p) \<and> order_ok (h p)"

definition orders_ok :: "side \<Rightarrow> oheap \<Rightarrow> optr list \<Rightarrow> bool" where
  "orders_ok sd h ps \<longleftrightarrow> distinct ps \<and> sorted (map (okey h) ps) \<and> (\<forall>p\<in>set ps. listed_ok sd h p)"

definition side_inv :: "side \<Rightarrow> oheap \<Rightarrow> market_side \<Rightarrow> bool" where
  "side_inv sd h ms \<longleftrightarrow> orders_ok sd h (ms_orders ms) \<and> levels_ok sd h (ms_orders ms) (ms_levels ms)"

text \<open>Where an order belongs in the list: after the orders at the same or a better price.\<close>

definition book_insert :: "(optr \<Rightarrow> int) \<Rightarrow> optr \<Rightarrow> optr list \<Rightarrow> optr list" where
  "book_insert key p xs =
     takeWhile (\<lambda>q. key q \<le> key p) xs @ p # dropWhile (\<lambda>q. key q \<le> key p) xs"

section \<open>Aggregates of a list of orders\<close>

lemma at_key_append [simp]: "at_key h k (xs @ ys) = at_key h k xs @ at_key h k ys"
  by (simp add: at_key_def)

lemma at_key_Cons: "at_key h k (p # ps) = (if okey h p = k then p # at_key h k ps else at_key h k ps)"
  by (simp add: at_key_def)

lemma at_key_eq_Nil_iff: "at_key h k ps = [] \<longleftrightarrow> k \<notin> okey h ` set ps"
  by (auto simp: at_key_def filter_empty_conv)

lemma set_at_key: "set (at_key h k ps) = {p \<in> set ps. okey h p = k}"
  by (auto simp: at_key_def)

lemma at_key_remove1: "at_key h k (remove1 p ps) = (if okey h p = k then remove1 p (at_key h k ps) else at_key h k ps)"
  by (induction ps) (auto simp: at_key_def)

lemma at_key_cong: "(\<And>p. p \<in> set ps \<Longrightarrow> okey h' p = okey h p) \<Longrightarrow> at_key h' k ps = at_key h k ps"
  by (auto simp: at_key_def intro: filter_cong)

lemma level_of_cong:
  assumes "at_key h' k qs = at_key h k ps"
    and "\<And>p. p \<in> set (at_key h k ps) \<Longrightarrow> o_resd_lots (h' p) = o_resd_lots (h p)"
  shows "level_of sd h' qs k = level_of sd h ps k"
  using assms by (simp add: level_of_def cong: map_cong)

lemma level_of_key [simp]: "l_key (level_of sd h ps k) = k"
  by (simp add: level_of_def)

text \<open>The levels as a map from keys: the form in which the set's lookup lemmas apply.\<close>

lemma levels_ok_iff:
  "levels_ok sd h ps ls \<longleftrightarrow> set_ok l_key ls \<and>
     (\<forall>k. set_find l_key k ls = (if k \<in> okey h ` set ps then Some (level_of sd h ps k) else None))"
  (is "?L \<longleftrightarrow> ?R")
proof
  assume L: ?L
  then have ok: "set_ok l_key ls" and keys: "l_key ` set ls = okey h ` set ps"
    and lv: "\<And>l. l \<in> set ls \<Longrightarrow> l = level_of sd h ps (l_key l)"
    by (auto simp: levels_ok_def)
  show ?R
  proof (intro conjI allI ok)
    fix k
    show "set_find l_key k ls = (if k \<in> okey h ` set ps then Some (level_of sd h ps k) else None)"
    proof (cases "k \<in> okey h ` set ps")
      case True
      then obtain l where "l \<in> set ls" "l_key l = k" using keys by force
      moreover from this lv have "l = level_of sd h ps k" by blast
      ultimately show ?thesis using True ok by (simp add: set_find_Some_iff)
    next
      case False
      with keys ok show ?thesis by (auto simp: set_find_None_iff)
    qed
  qed
next
  assume R: ?R
  then have ok: "set_ok l_key ls" by simp
  have lv: "l = level_of sd h ps (l_key l) \<and> l_key l \<in> okey h ` set ps" if "l \<in> set ls" for l
  proof -
    from that ok have "set_find l_key (l_key l) ls = Some l" by (simp add: set_find_Some_iff)
    with R show ?thesis by (metis option.distinct(1) option.inject)
  qed
  have "k \<in> l_key ` set ls" if "k \<in> okey h ` set ps" for k
  proof -
    from R that have "set_find l_key k ls = Some (level_of sd h ps k)" by simp
    with ok show ?thesis by (metis image_eqI level_of_key set_find_Some_iff)
  qed
  with lv ok show ?L by (auto simp: levels_ok_def)
qed

lemma levels_ok_find: "levels_ok sd h ps ls \<Longrightarrow>
    set_find l_key k ls = (if k \<in> okey h ` set ps then Some (level_of sd h ps k) else None)"
  by (simp add: levels_ok_iff)

section \<open>Positions in the list of orders\<close>

lemma orders_ok_key: "orders_ok sd h ps \<Longrightarrow> p \<in> set ps \<Longrightarrow> okey h p = compose_key sd (o_ticks (h p))"
  by (auto simp: orders_ok_def listed_ok_def okey_def)

lemma takeWhile_neq_hd_dropWhile:
  assumes "distinct xs" and "dropWhile P xs = q # ys"
  shows "takeWhile (\<lambda>x. x \<noteq> q) xs = takeWhile P xs" and "dropWhile (\<lambda>x. x \<noteq> q) xs = q # ys"
proof -
  have xs: "xs = takeWhile P xs @ q # ys"
    using assms(2) by (metis takeWhile_dropWhile_id)
  then have "q \<notin> set (takeWhile P xs)"
    using assms(1) by (metis disjoint_insert(1) distinct_append list.simps(15))
  then have "\<And>x. x \<in> set (takeWhile P xs) \<Longrightarrow> x \<noteq> q" by blast
  then show "takeWhile (\<lambda>x. x \<noteq> q) xs = takeWhile P xs" "dropWhile (\<lambda>x. x \<noteq> q) xs = q # ys"
    by (subst xs, simp add: takeWhile_append2 dropWhile_append2)+
qed

text \<open>
  Inserting before the first order of the next level is inserting behind the orders at the same
  or a better price.
\<close>

lemma insert_before_next_level:
  assumes ok: "orders_ok sd h ps" and k': "k' \<in> okey h ` set ps" "k < k'"
    and next_key: "\<And>q. q \<in> set ps \<Longrightarrow> k < okey h q \<Longrightarrow> k' \<le> okey h q"
  shows "insert_before p (hd (at_key h k' ps)) ps =
    takeWhile (\<lambda>q. okey h q \<le> k) ps @ p # dropWhile (\<lambda>q. okey h q \<le> k) ps"
proof -
  let ?D = "dropWhile (\<lambda>q. okey h q \<le> k) ps"
  have sorted: "sorted (map (okey h) ps)" and dist: "distinct ps"
    using ok by (auto simp: orders_ok_def)
  have "at_key h k' (takeWhile (\<lambda>q. okey h q \<le> k) ps) = []"
    using k'(2) takeWhile_all by (fastforce simp: at_key_eq_Nil_iff)
  then have at: "at_key h k' ps = at_key h k' ?D"
    by (metis append_Nil at_key_append takeWhile_dropWhile_id)
  with k'(1) obtain z zs where D: "?D = z # zs"
    by (metis at_key_eq_Nil_iff list.exhaust list.set(1) image_empty empty_iff)
  have "k < okey h z"
    using sorted_dropWhile_ge[OF sorted] D by (metis list.set_intros(1))
  moreover have "z \<in> set ps" using D by (metis list.set_intros(1) set_dropWhileD)
  ultimately have ge: "k' \<le> okey h z" using next_key by blast
  have "sorted (map (okey h) ?D)" using sorted by (metis sorted_append map_append takeWhile_dropWhile_id)
  then have le: "okey h z \<le> okey h q" if "q \<in> set ?D" for q
    using that by (auto simp: D)
  obtain q where "q \<in> set ?D" "okey h q = k'"
    using k'(1) at by (metis at_key_eq_Nil_iff imageE)
  with le ge have "okey h z = k'" by fastforce
  then have "hd (at_key h k' ps) = z" by (simp add: at D at_key_Cons)
  then show ?thesis
    using takeWhile_neq_hd_dropWhile[OF dist D] by (simp add: insert_before_def D)
qed

lemma sorted_book_insert:
  assumes "sorted (map key xs)"
  shows "sorted (map key (book_insert key p xs))"
proof -
  let ?T = "takeWhile (\<lambda>q. key q \<le> key p) xs" and ?D = "dropWhile (\<lambda>q. key q \<le> key p) xs"
  have "sorted (map key (?T @ ?D))" using assms by simp
  then have "sorted (map key ?T)" "sorted (map key ?D)"
    unfolding map_append sorted_append by blast+
  moreover have "key x \<le> key p" if "x \<in> set ?T" for x using that takeWhile_all by fast
  moreover have "key p < key x" if "x \<in> set ?D" for x using that sorted_dropWhile_ge assms by fast
  ultimately show ?thesis unfolding book_insert_def
    by (force simp: sorted_append)
qed

lemma set_book_insert [simp]: "set (book_insert key p xs) = insert p (set xs)"
  using set_take_drop_While[of "\<lambda>q. key q \<le> key p" xs] by (auto simp: book_insert_def)

lemma distinct_book_insert:
  assumes "distinct xs" and "p \<notin> set xs"
  shows "distinct (book_insert key p xs)"
proof -
  have "distinct (takeWhile P xs @ dropWhile P xs)" for P using assms(1) by simp
  then show ?thesis
    using assms(2) unfolding book_insert_def distinct_append
    by (auto dest: set_takeWhileD set_dropWhileD)
qed

lemma at_key_book_insert:
  assumes "sorted (map (okey h) xs)"
  shows "at_key h k (book_insert (okey h) p xs) = (if k = okey h p then at_key h k xs @ [p] else at_key h k xs)"
proof -
  let ?T = "takeWhile (\<lambda>q. okey h q \<le> okey h p) xs" and ?D = "dropWhile (\<lambda>q. okey h q \<le> okey h p) xs"
  have split: "at_key h k xs = at_key h k ?T @ at_key h k ?D"
    by (metis at_key_append takeWhile_dropWhile_id)
  have "at_key h (okey h p) ?D = []"
    using sorted_dropWhile_ge[OF assms] by (fastforce simp: at_key_eq_Nil_iff)
  with split show ?thesis
    by (auto simp: book_insert_def at_key_Cons)
qed

lemma book_insert_cong:
  "(\<And>q. q \<in> insert p (set xs) \<Longrightarrow> key q = key' q) \<Longrightarrow> book_insert key p xs = book_insert key' p xs"
  unfolding book_insert_def by (simp cong: takeWhile_cong dropWhile_cong)

text \<open>The order behind the first order of a level is the level's next order.\<close>

lemma next_order_at_key:
  assumes ok: "orders_ok sd h ps" and at: "at_key h k ps = p # q # qs"
  shows "next_order p ps = Some q"
proof -
  have "p \<in> set ps" using at set_at_key by (metis (mono_tags, lifting) list.set_intros(1) mem_Collect_eq)
  then obtain ys zs where ps: "ps = ys @ p # zs" and ys: "p \<notin> set ys"
    by (meson split_list_first)
  have p: "okey h p = k" using at set_at_key by (metis (mono_tags, lifting) list.set_intros(1) mem_Collect_eq)
  have "at_key h k ys = []"
  proof (rule ccontr)
    assume "at_key h k ys \<noteq> []"
    then have "hd (at_key h k ys) = p" using at by (cases "at_key h k ys") (auto simp: ps)
    then show False using ys \<open>at_key h k ys \<noteq> []\<close> by (metis hd_in_set mem_Collect_eq set_at_key)
  qed
  then have zs: "at_key h k zs = q # qs" using at p by (simp add: ps at_key_Cons)
  then have q: "q \<in> set zs" "okey h q = k"
    using set_at_key by (metis (mono_tags, lifting) list.set_intros(1) mem_Collect_eq)+
  then obtain z zs' where z: "zs = z # zs'" by (cases zs) auto
  have "sorted (map (okey h) ps)" using ok by (simp add: orders_ok_def)
  then have "okey h p \<le> okey h z" "okey h z \<le> okey h q"
    using q by (auto simp: ps z sorted_append)
  then have "z = q" using zs p q by (simp add: z at_key_Cons)
  moreover have "dropWhile (\<lambda>x. x \<noteq> p) (ys @ p # zs) = p # zs"
    using ys by (induction ys) auto
  ultimately show ?thesis by (simp add: next_order_def ps z)
qed

section \<open>Insertion\<close>

lemma side_inv_orders: "side_inv sd h ms \<Longrightarrow> orders_ok sd h (ms_orders ms)"
  by (simp add: side_inv_def)

lemma side_inv_levels: "side_inv sd h ms \<Longrightarrow> levels_ok sd h (ms_orders ms) (ms_levels ms)"
  by (simp add: side_inv_def)

lemma side_inv_listed: "side_inv sd h ms \<Longrightarrow> p \<in> set (ms_orders ms) \<Longrightarrow> listed_ok sd h p"
  by (simp add: side_inv_def orders_ok_def)

lemma side_inv_empty [simp]: "side_inv sd h empty_side"
  by (simp add: side_inv_def orders_ok_def levels_ok_def empty_side_def)

lemma orders_ok_cong:
  "(\<And>q. q \<in> set ps \<Longrightarrow> h' q = h q) \<Longrightarrow> orders_ok sd h' ps = orders_ok sd h ps"
  by (simp add: orders_ok_def listed_ok_def okey_def cong: map_cong)

lemma levels_ok_cong:
  assumes "\<And>q. q \<in> set ps \<Longrightarrow> okey h' q = okey h q"
    and "\<And>q. q \<in> set ps \<Longrightarrow> o_resd_lots (h' q) = o_resd_lots (h q)"
  shows "levels_ok sd h' ps ls = levels_ok sd h ps ls"
proof -
  have "level_of sd h' ps k = level_of sd h ps k" for k
    using assms by (intro level_of_cong at_key_cong) (auto simp: set_at_key)
  moreover have "okey h' ` set ps = okey h ` set ps" using assms(1) by (simp cong: image_cong)
  ultimately show ?thesis by (simp add: levels_ok_def)
qed

lemma side_inv_cong:
  "(\<And>q. q \<in> set (ms_orders ms) \<Longrightarrow> h' q = h q) \<Longrightarrow> side_inv sd h' ms = side_inv sd h ms"
  unfolding side_inv_def by (intro arg_cong2[of _ _ _ _ "(\<and>)"] orders_ok_cong levels_ok_cong) (auto simp: okey_def)

lemma okey_set_level [simp]: "okey (h(p := set_level lv (h p))) q = okey h q"
  by (simp add: okey_def set_level_def)

lemma set_level_simps [simp]:
  "o_resd_lots (set_level lv ord) = o_resd_lots ord" "r_side (set_level lv ord) = r_side ord"
  "o_ticks (set_level lv ord) = o_ticks ord" "o_level (set_level lv ord) = lv"
  "order_ok (set_level lv ord) = order_ok ord"
  by (simp_all add: set_level_def order_ok_def)

lemma level_of_set_level [simp]: "level_of sd (h(p := set_level lv (h p))) ps k = level_of sd h ps k"
  by (rule level_of_cong) (auto intro: at_key_cong)

lemma level_of_singleton:
  assumes "at_key h (okey h p) ps = [p]" "r_side (h p) = sd"
  shows "make_level p (h p) = level_of sd h ps (okey h p)"
  using assms by (simp add: level_of_def make_level_def okey_def compose_key_def)

lemma add_order_level_of:
  "at_key h k qs = at_key h k ps @ [p] \<Longrightarrow> at_key h k ps \<noteq> [] \<Longrightarrow>
     add_order (h p) (level_of sd h ps k) = level_of sd h qs k"
  by (simp add: level_of_def add_order_def)

definition insert_levels :: "optr \<Rightarrow> order \<Rightarrow> level list \<Rightarrow> level list" where
  "insert_levels p ord ls = (let k = compose_key (r_side ord) (o_ticks ord) in
     if set_find l_key k ls = None then set_insert l_key (make_level p ord) ls
     else set_modify l_key k (add_order ord) ls)"

lemma insert_levels_ok:
  assumes ok: "orders_ok sd h ps" and lv: "levels_ok sd h ps ls" and side: "r_side (h p) = sd"
  shows "levels_ok sd h (book_insert (okey h) p ps) (insert_levels p (h p) ls)"
proof -
  let ?k = "okey h p" and ?qs = "book_insert (okey h) p ps"
  have at: "at_key h k ?qs = (if k = ?k then at_key h k ps @ [p] else at_key h k ps)" for k
    using ok by (simp add: orders_ok_def at_key_book_insert)
  have s: "set_ok l_key ls" using lv by (simp add: levels_ok_def)
  have other: "level_of sd h ?qs k = level_of sd h ps k" if "k \<noteq> ?k" for k
    using that at by (intro level_of_cong) auto
  show ?thesis
  proof (cases "?k \<in> okey h ` set ps")
    case True
    then have "insert_levels p (h p) ls = set_modify l_key ?k (add_order (h p)) ls"
      using levels_ok_find[OF lv] by (simp add: insert_levels_def okey_def)
    moreover have "add_order (h p) (level_of sd h ps ?k) = level_of sd h ?qs ?k"
      using True at by (intro add_order_level_of) (auto simp: at_key_eq_Nil_iff)
    ultimately show ?thesis
      using True other s levels_ok_find[OF lv]
      by (auto simp: levels_ok_iff set_find_modify set_ok_modify)
  next
    case False
    then have "insert_levels p (h p) ls = set_insert l_key (make_level p (h p)) ls"
      using levels_ok_find[OF lv] by (simp add: insert_levels_def okey_def)
    moreover have "make_level p (h p) = level_of sd h ?qs ?k"
      using False at side by (intro level_of_singleton) (auto simp: at_key_eq_Nil_iff)
    ultimately show ?thesis
      using False other s levels_ok_find[OF lv]
      by (auto simp: levels_ok_iff set_find_insert set_ok_insert) (metis imageI)
  qed
qed

lemma insert_level_eq:
  "insert_level p (h, ms) = (lower_bound l_key (okey h p) (insert_levels p (h p) (ms_levels ms)),
     h(p := set_level (Some (okey h p)) (h p)), ms\<lparr>ms_levels := insert_levels p (h p) (ms_levels ms)\<rparr>)"
  by (simp add: insert_level_def insert_levels_def Let_def find_hint_found okey_def)

text \<open>The effect of an insertion: the order goes behind its equals and betters.\<close>

definition side_inserted :: "optr \<Rightarrow> oheap \<Rightarrow> market_side \<Rightarrow> market_side" where
  "side_inserted p h ms = \<lparr>ms_levels = insert_levels p (h p) (ms_levels ms),
     ms_orders = book_insert (okey h) p (ms_orders ms)\<rparr>"

lemma insert_order_eq:
  assumes inv: "side_inv sd h ms" and side: "r_side (h p) = sd"
  shows "insert_order p (h, ms) = (h(p := set_level (Some (okey h p)) (h p)), side_inserted p h ms)"
proof -
  let ?k = "okey h p" and ?ps = "ms_orders ms" and ?ls = "insert_levels p (h p) (ms_levels ms)"
  have lv: "levels_ok sd h (book_insert (okey h) p ?ps) ?ls"
    using inv side by (intro insert_levels_ok) (auto simp: side_inv_def)
  have ok: "orders_ok sd h ?ps" using inv by (rule side_inv_orders)
  have s: "set_ok l_key ?ls" using lv by (simp add: levels_ok_def)
  have "set_find l_key ?k ?ls \<noteq> None" using levels_ok_find[OF lv] by simp
  then obtain l where l: "set_find l_key ?k ?ls = Some l" by blast
  obtain rest where rest: "lower_bound l_key ?k ?ls = l # rest" "set_ok l_key rest"
      and set_rest: "set rest = {w \<in> set ?ls. ?k < l_key w}"
    by (rule lower_bound_found[OF s l])
  have keys: "l_key ` set ?ls = insert ?k (okey h ` set ?ps)"
    using lv by (simp add: levels_ok_def)
  show ?thesis
  proof (cases rest)
    case Nil
    have "okey h q \<le> ?k" if "q \<in> set ?ps" for q
    proof -
      from that obtain w where "w \<in> set ?ls" "l_key w = okey h q"
        using keys by (metis imageE image_eqI insertI2)
      then show ?thesis using set_rest Nil by force
    qed
    then have "book_insert (okey h) p ?ps = insert_back p ?ps"
      by (simp add: book_insert_def insert_back_def)
    then show ?thesis
      using rest Nil by (simp add: insert_order_def insert_level_eq side_inserted_def)
  next
    case (Cons n rest')
    then have n: "n \<in> set ?ls" "?k < l_key n" using set_rest by auto
    have first: "l_key n \<le> okey h q" if "q \<in> set ?ps" "?k < okey h q" for q
    proof -
      from that obtain w where "w \<in> set ?ls" "l_key w = okey h q"
        using keys by (metis imageE image_eqI insertI2)
      with that have "w \<in> set rest" using set_rest by simp
      with \<open>l_key w = okey h q\<close> show ?thesis using rest(2) Cons by (auto simp: set_ok_Cons)
    qed
    have "l_key n \<in> okey h ` set ?ps" using n keys by force
    moreover have "n = level_of sd h (book_insert (okey h) p ?ps) (l_key n)"
      using n lv by (simp add: levels_ok_def)
    then have "l_first_order n = hd (at_key h (l_key n) ?ps)"
      using n ok by (metis (no_types, lifting) at_key_book_insert level.select_convs(1) level_of_def
          order_less_irrefl orders_ok_def)
    ultimately have "insert_before p (l_first_order n) ?ps = book_insert (okey h) p ?ps"
      using insert_before_next_level[OF ok _ n(2) first] by (simp add: book_insert_def)
    then show ?thesis
      using rest Cons by (simp add: insert_order_def insert_level_eq side_inserted_def)
  qed
qed

lemma side_inserted_inv:
  assumes inv: "side_inv sd h ms" and "p \<notin> set (ms_orders ms)" and "r_side (h p) = sd"
    and "order_ok (h p)"
  shows "side_inv sd (h(p := set_level (Some (okey h p)) (h p))) (side_inserted p h ms)"
proof -
  let ?h = "h(p := set_level (Some (okey h p)) (h p))" and ?qs = "book_insert (okey h) p (ms_orders ms)"
  have "levels_ok sd h ?qs (insert_levels p (h p) (ms_levels ms))"
    using assms by (intro insert_levels_ok) (auto simp: side_inv_def)
  then have "levels_ok sd ?h ?qs (insert_levels p (h p) (ms_levels ms))"
    by (subst levels_ok_cong) auto
  moreover have "listed_ok sd ?h q" if "q \<in> set ?qs" for q
    using that assms by (auto simp: listed_ok_def side_inv_def orders_ok_def okey_def order_ok_def set_level_def)
  moreover have "map (okey ?h) ?qs = map (okey h) ?qs" by simp
  ultimately show ?thesis
    using assms by (simp add: side_inv_def orders_ok_def side_inserted_def distinct_book_insert
        sorted_book_insert del: map_eq_conv)
qed

section \<open>Removal\<close>

lemma listed_level: "side_inv sd h ms \<Longrightarrow> p \<in> set (ms_orders ms) \<Longrightarrow> o_level (h p) = Some (okey h p)"
  by (auto dest: side_inv_listed simp: listed_ok_def)

lemma at_key_mem: "p \<in> set ps \<Longrightarrow> p \<in> set (at_key h (okey h p) ps)"
  by (simp add: set_at_key)

text \<open>\<open>sub_order\<close> and, where it is needed, \<open>set_first_order\<close> give the aggregate without the order.\<close>

lemma sub_order_level_of:
  assumes ok: "orders_ok sd h ps" and p: "p \<in> set ps" and more: "at_key h (okey h p) ps \<noteq> [p]"
  defines "lev \<equiv> sub_order (h p) (level_of sd h ps (okey h p))"
  shows "level_of sd h (remove1 p ps) (okey h p) =
    (if l_first_order lev = p then set_first_order (the (next_order p ps)) lev else lev)"
proof -
  let ?k = "okey h p"
  obtain q qs where at: "at_key h ?k ps = q # qs"
    using at_key_mem[OF p] by (metis empty_iff list.exhaust list.set(1))
  have mem: "p \<in> set (q # qs)" using at_key_mem[OF p] at by metis
  have first: "l_first_order lev = q" by (simp add: lev_def sub_order_def level_of_def at)
  have count: "length (remove1 p (q # qs)) = length qs"
    using mem length_pos_if_in_set[OF mem] by (simp only: length_remove1 if_True) simp
  have lots: "(\<Sum>x\<leftarrow>remove1 p (q # qs). o_resd_lots (h x)) = (\<Sum>x\<leftarrow>q # qs. o_resd_lots (h x)) - o_resd_lots (h p)"
    using mem by (rule sum_list_remove1)
  show ?thesis
  proof (cases "q = p")
    case True
    then obtain r rs where "qs = r # rs" using at more by (cases qs) auto
    moreover from this have "next_order p ps = Some r"
      using next_order_at_key[OF ok] at True by simp
    ultimately show ?thesis
      using True at first
      by (simp add: level_of_def at_key_remove1 lev_def sub_order_def set_first_order_def)
  next
    case False
    then show ?thesis
      using at first count lots
      by (simp add: level_of_def at_key_remove1 lev_def sub_order_def)
  qed
qed

lemma count_one_iff:
  "p \<in> set ps \<Longrightarrow> l_count (sub_order ord (level_of sd h ps (okey h p))) = 0 \<longleftrightarrow> at_key h (okey h p) ps = [p]"
  using at_key_mem[of p ps h]
  by (cases "at_key h (okey h p) ps") (auto simp: level_of_def sub_order_def)

definition remove_levels :: "optr \<Rightarrow> oheap \<Rightarrow> side \<Rightarrow> optr list \<Rightarrow> level list \<Rightarrow> level list" where
  "remove_levels p h sd ps ls = (let k = okey h p; lev = level_of sd h (remove1 p ps) k in
     if at_key h k ps = [p] then set_remove l_key lev ls else set_modify l_key k (\<lambda>_. lev) ls)"

lemma distinct_singleton_iff:
  "distinct xs \<Longrightarrow> x \<in> set xs \<Longrightarrow> xs = [x] \<longleftrightarrow> (\<forall>y\<in>set xs. y = x)"
proof (cases xs)
  case (Cons y ys)
  assume "distinct xs" "x \<in> set xs"
  with Cons show ?thesis by (cases ys) auto
qed auto

lemma image_remove1_key:
  assumes "distinct ps" and "p \<in> set ps"
  shows "okey h ` set (remove1 p ps) =
    (if at_key h (okey h p) ps = [p] then okey h ` set ps - {okey h p} else okey h ` set ps)"
proof -
  have "distinct (at_key h (okey h p) ps)" using assms(1) by (simp add: at_key_def)
  then have one: "at_key h (okey h p) ps = [p] \<longleftrightarrow> (\<forall>q\<in>set ps. okey h q = okey h p \<longrightarrow> q = p)"
    by (subst distinct_singleton_iff[OF _ at_key_mem[OF assms(2)]]) (auto simp: set_at_key)
  have rem: "set (remove1 p ps) = set ps - {p}" using assms(1) by simp
  show ?thesis
  proof (cases "at_key h (okey h p) ps = [p]")
    case True
    with one rem show ?thesis by auto
  next
    case False
    with one obtain q where q: "q \<in> set ps" "okey h q = okey h p" "q \<noteq> p" by blast
    have "okey h x \<in> okey h ` (set ps - {p})" if "x \<in> set ps" for x
      by (rule image_eqI[of _ _ "if x = p then q else x"]) (use q that in auto)
    then have "okey h ` set ps \<subseteq> okey h ` (set ps - {p})" by (rule image_subsetI)
    with False rem show ?thesis by auto
  qed
qed

lemma remove_levels_ok:
  assumes ok: "orders_ok sd h ps" and lv: "levels_ok sd h ps ls" and p: "p \<in> set ps"
  shows "levels_ok sd h (remove1 p ps) (remove_levels p h sd ps ls)"
proof -
  let ?k = "okey h p" and ?qs = "remove1 p ps"
  have s: "set_ok l_key ls" using lv by (simp add: levels_ok_def)
  have dist: "distinct ps" using ok by (simp add: orders_ok_def)
  have other: "level_of sd h ?qs k = level_of sd h ps k" if "k \<noteq> ?k" for k
    using that by (intro level_of_cong) (auto simp: at_key_remove1)
  note img = image_remove1_key[OF dist p, of h]
  show ?thesis
  proof (cases "at_key h ?k ps = [p]")
    case True
    with img s other levels_ok_find[OF lv] show ?thesis
      by (auto simp: levels_ok_iff remove_levels_def Let_def set_find_remove set_ok_remove)
  next
    case False
    with p have "?k \<in> okey h ` set ps" by blast
    with False img s other levels_ok_find[OF lv] show ?thesis
      by (auto simp: levels_ok_iff remove_levels_def Let_def set_find_modify set_ok_modify)
  qed
qed

definition side_removed :: "optr \<Rightarrow> oheap \<Rightarrow> side \<Rightarrow> market_side \<Rightarrow> market_side" where
  "side_removed p h sd ms = \<lparr>ms_levels = remove_levels p h sd (ms_orders ms) (ms_levels ms),
     ms_orders = remove1 p (ms_orders ms)\<rparr>"

lemma remove_order_at_eq:
  assumes inv: "side_inv sd h ms" and p: "p \<in> set (ms_orders ms)"
  shows "remove_order_at (okey h p) p (h, ms) = (h(p := set_level None (h p)), side_removed p h sd ms)"
proof -
  let ?k = "okey h p" and ?ps = "ms_orders ms"
  let ?lev = "sub_order (h p) (level_of sd h ?ps ?k)"
  have ok: "orders_ok sd h ?ps" and lv: "levels_ok sd h ?ps (ms_levels ms)"
    using inv by (auto simp: side_inv_def)
  have f: "set_find l_key ?k (ms_levels ms) = Some (level_of sd h ?ps ?k)"
    using levels_ok_find[OF lv] p by simp
  show ?thesis
  proof (cases "at_key h ?k ?ps = [p]")
    case True
    then have "l_count ?lev = 0" using count_one_iff[OF p] by blast
    moreover have "set_remove l_key ?lev (ms_levels ms) =
        set_remove l_key (level_of sd h (remove1 p ?ps) ?k) (ms_levels ms)"
      by (simp add: set_remove_def)
    ultimately show ?thesis
      using f True by (simp add: remove_order_at_def side_removed_def remove_levels_def list_remove_def Let_def)
  next
    case False
    then have c: "l_count ?lev \<noteq> 0" using count_one_iff[OF p] by blast
    note sub = sub_order_level_of[OF ok p False]
    show ?thesis
    proof (cases "l_first_order ?lev = p")
      case True
      obtain q r qs where at: "at_key h ?k ?ps = q # r # qs"
        using False at_key_mem[OF p]
        by (metis empty_iff list.exhaust list.set(1) set_ConsD)
      then have "q = p" using True by (simp add: sub_order_def level_of_def)
      then have "next_order p ?ps = Some r" using next_order_at_key[OF ok] at by simp
      with sub True f c False show ?thesis
        by (simp add: remove_order_at_def side_removed_def remove_levels_def list_remove_def Let_def)
    next
      case F: False
      with sub f c False show ?thesis
        by (simp add: remove_order_at_def side_removed_def remove_levels_def list_remove_def Let_def)
    qed
  qed
qed

lemma sorted_map_remove1: "sorted (map f xs) \<Longrightarrow> sorted (map f (remove1 x xs))"
  by (induction xs) (auto dest: notin_set_remove1 in_set_remove1[THEN iffD1] set_remove1_subset[THEN subsetD])

lemma side_removed_inv:
  assumes inv: "side_inv sd h ms" and p: "p \<in> set (ms_orders ms)"
    and frame: "\<And>q. q \<noteq> p \<Longrightarrow> h' q = h q"
  shows "side_inv sd h' (side_removed p h sd ms)"
proof -
  let ?qs = "remove1 p (ms_orders ms)"
  have ok: "orders_ok sd h (ms_orders ms)" using inv by (rule side_inv_orders)
  then have qs: "q \<in> set ?qs \<Longrightarrow> q \<noteq> p" for q by (simp add: orders_ok_def)
  have "orders_ok sd h ?qs"
    using ok by (auto simp: orders_ok_def sorted_map_remove1 distinct_remove1 dest: set_remove1_subset[THEN subsetD])
  moreover have "levels_ok sd h ?qs (remove_levels p h sd (ms_orders ms) (ms_levels ms))"
    using ok inv p by (intro remove_levels_ok) (simp_all add: side_inv_def)
  ultimately have "side_inv sd h (side_removed p h sd ms)" by (simp add: side_inv_def side_removed_def)
  moreover have "side_inv sd h' (side_removed p h sd ms) = side_inv sd h (side_removed p h sd ms)"
    using qs frame by (intro side_inv_cong) (simp add: side_removed_def)
  ultimately show ?thesis by simp
qed

text \<open>The orders of a side determine its levels, so an insertion can be undone without a trace.\<close>

lemma levels_ok_unique:
  assumes "levels_ok sd h ps ls" and "levels_ok sd h ps ls'"
  shows "ls = ls'"
proof -
  have s: "sorted_wrt (<) (map l_key ls)" "sorted_wrt (<) (map l_key ls')"
    and keys: "set (map l_key ls) = set (map l_key ls')"
    using assms by (auto simp: levels_ok_def set_ok_def)
  have "map l_key ls = map l_key ls'" using strict_sorted_equal[OF s keys[symmetric]] by simp
  moreover have "ls = map (level_of sd h ps) (map l_key ls)" "ls' = map (level_of sd h ps) (map l_key ls')"
    using assms by (auto simp: levels_ok_def intro!: map_idI[symmetric])
  ultimately show ?thesis by metis
qed

lemma side_inv_unique:
  assumes "side_inv sd h ms" and "side_inv sd h ms'" and "ms_orders ms = ms_orders ms'"
  shows "ms = ms'"
  using assms levels_ok_unique[of sd h "ms_orders ms" "ms_levels ms" "ms_levels ms'"]
  by (cases ms; cases ms') (simp add: side_inv_def)

lemma remove_order_eq:
  assumes "side_inv sd h ms" and "p \<in> set (ms_orders ms)"
  shows "remove_order p (h, ms) = (h(p := set_level None (h p)), side_removed p h sd ms)"
  using remove_order_at_eq[OF assms] listed_level[OF assms] by (simp add: remove_order_def)

lemma remove1_book_insert: "p \<notin> set xs \<Longrightarrow> remove1 p (book_insert key p xs) = xs"
  by (auto simp: book_insert_def remove1_append dest: set_takeWhileD)

lemma side_insert_remove:
  assumes inv: "side_inv sd h ms" and p: "p \<notin> set (ms_orders ms)" and side: "r_side (h p) = sd" and ok: "order_ok (h p)"
  defines "h1 \<equiv> h(p := set_level (Some (okey h p)) (h p))"
  shows "side_removed p h1 sd (side_inserted p h ms) = ms"
proof (rule side_inv_unique)
  let ?ms1 = "side_inserted p h ms"
  have mem: "p \<in> set (ms_orders ?ms1)" by (simp add: side_inserted_def)
  show "side_inv sd h (side_removed p h1 sd ?ms1)"
    by (rule side_removed_inv[OF _ mem]) (use side_inserted_inv[OF inv p side ok] in \<open>simp_all add: h1_def\<close>)
  show "side_inv sd h ms" by (rule inv)
  show "ms_orders (side_removed p h1 sd ?ms1) = ms_orders ms"
    using p by (simp add: side_removed_def side_inserted_def remove1_book_insert)
qed

section \<open>Reduction of an order that stays in the book\<close>

definition side_reduced :: "optr \<Rightarrow> lots \<Rightarrow> oheap \<Rightarrow> market_side \<Rightarrow> market_side" where
  "side_reduced p delta h ms = ms\<lparr>ms_levels := set_modify l_key (okey h p) (reduce delta) (ms_levels ms)\<rparr>"

text \<open>
  The level is reduced by the lots that the order loses: the invariant holds again once the order
  has lost them.
\<close>

lemma side_reduced_inv:
  assumes inv: "side_inv sd h ms" and p: "p \<in> set (ms_orders ms)"
    and frame: "\<And>q. q \<noteq> p \<Longrightarrow> h' q = h q"
    and same: "r_side (h' p) = r_side (h p)" "o_ticks (h' p) = o_ticks (h p)"
      "o_level (h' p) = o_level (h p)"
    and lots: "o_resd_lots (h' p) = o_resd_lots (h p) - delta" and ok': "order_ok (h' p)"
  shows "side_inv sd h' (side_reduced p delta h ms)"
proof -
  let ?ps = "ms_orders ms" and ?k = "okey h p"
  have ok: "orders_ok sd h ?ps" and lv: "levels_ok sd h ?ps (ms_levels ms)"
    using inv by (auto simp: side_inv_def)
  have key: "okey h' q = okey h q" for q
    using frame same by (cases "q = p") (simp_all add: okey_def)
  then have keys: "okey h' = okey h" by (rule ext)
  have "listed_ok sd h' q" if "q \<in> set ?ps" for q
    using that ok frame same ok' key by (cases "q = p") (auto simp: orders_ok_def listed_ok_def)
  with ok keys have "orders_ok sd h' ?ps" by (simp add: orders_ok_def)
  moreover have "levels_ok sd h' ?ps (set_modify l_key ?k (reduce delta) (ms_levels ms))"
  proof -
    have at: "at_key h' k ?ps = at_key h k ?ps" for k using key by (rule at_key_cong)
    have other: "level_of sd h' ?ps k = level_of sd h ?ps k" if "k \<noteq> ?k" for k
    proof (rule level_of_cong[OF at])
      fix q assume "q \<in> set (at_key h k ?ps)"
      with that have "q \<noteq> p" by (auto simp: set_at_key)
      then show "o_resd_lots (h' q) = o_resd_lots (h q)" by (simp add: frame)
    qed
    let ?ats = "at_key h ?k ?ps"
    have mem: "p \<in> set ?ats" and dist: "distinct ?ats"
      using at_key_mem[OF p] ok by (auto simp: orders_ok_def at_key_def)
    have "(\<Sum>q\<leftarrow>?ats. o_resd_lots (h' q)) = o_resd_lots (h' p) + (\<Sum>q\<leftarrow>remove1 p ?ats. o_resd_lots (h' q))"
      using sum_list_remove1[OF mem, of "\<lambda>q. o_resd_lots (h' q)"] by simp
    moreover have "(\<Sum>q\<leftarrow>remove1 p ?ats. o_resd_lots (h' q)) = (\<Sum>q\<leftarrow>remove1 p ?ats. o_resd_lots (h q))"
      using dist frame by (intro sum_list_map_cong) (auto simp: set_remove1_eq)
    ultimately have "(\<Sum>q\<leftarrow>?ats. o_resd_lots (h' q)) = (\<Sum>q\<leftarrow>?ats. o_resd_lots (h q)) - delta"
      using sum_list_remove1[OF mem, of "\<lambda>q. o_resd_lots (h q)"] lots by simp
    then have this_level: "level_of sd h' ?ps ?k = reduce delta (level_of sd h ?ps ?k)"
      using at by (simp add: level_of_def reduce_def)
    have "set_ok l_key (ms_levels ms)" using lv by (simp add: levels_ok_def)
    with other this_level levels_ok_find[OF lv] key show ?thesis
      by (auto simp: levels_ok_iff set_find_modify set_ok_modify)
  qed
  ultimately show ?thesis by (simp add: side_inv_def side_reduced_def)
qed

lemma reduce_level_eq:
  assumes "side_inv sd h ms" and "p \<in> set (ms_orders ms)"
  shows "reduce_level (okey h p) p delta (h, ms) =
    (if delta < o_resd_lots (h p) then (h, side_reduced p delta h ms)
     else (h(p := set_level None (h p)), side_removed p h sd ms))"
  using remove_order_at_eq[OF assms] by (simp add: reduce_level_def side_reduced_def)

section \<open>The operations of a side\<close>

lemma side_create_order_eq:
  assumes inv: "side_inv sd h ms" and new: "p \<notin> set (ms_orders ms)"
    and ord: "r_side (h p) = sd" "order_ok (order_create now (h p))"
  defines "h1 \<equiv> h(p := order_create now (h p))"
  shows "side_create_order p now (h, ms) =
      (h1(p := set_level (Some (okey h p)) (h1 p)), side_inserted p h1 ms)"
    and "side_inv sd (h1(p := set_level (Some (okey h p)) (h1 p))) (side_inserted p h1 ms)"
    and "ms_orders (side_inserted p h1 ms) = book_insert (okey h) p (ms_orders ms)"
proof -
  have inv1: "side_inv sd h1 ms"
    using inv new by (subst side_inv_cong) (auto simp: h1_def)
  have side: "r_side (h1 p) = sd" "order_ok (h1 p)" using ord by (auto simp: h1_def order_create_def)
  have key: "okey h1 q = okey h q" for q by (simp add: h1_def okey_def order_create_def)
  show "side_create_order p now (h, ms) =
      (h1(p := set_level (Some (okey h p)) (h1 p)), side_inserted p h1 ms)"
    using insert_order_eq[OF inv1 side(1)]
    unfolding side_create_order_def prod.case h1_def[symmetric] key .
  show "side_inv sd (h1(p := set_level (Some (okey h p)) (h1 p))) (side_inserted p h1 ms)"
    using side_inserted_inv[OF inv1 new side] key by simp
  show "ms_orders (side_inserted p h1 ms) = book_insert (okey h) p (ms_orders ms)"
    using ext[of "okey h1" "okey h", OF key] by (simp add: side_inserted_def)
qed

text \<open>A fill: the filled order stays, with its place, or leaves the book.\<close>

definition side_taken :: "optr \<Rightarrow> lots \<Rightarrow> oheap \<Rightarrow> side \<Rightarrow> market_side \<Rightarrow> market_side" where
  "side_taken p lots h sd ms =
     (if lots < o_resd_lots (h p) then side_reduced p lots h ms else side_removed p h sd ms)"

lemma side_taken_orders: "ms_orders (side_taken p lots h sd ms) =
    (if lots < o_resd_lots (h p) then ms_orders ms else remove1 p (ms_orders ms))"
  by (simp add: side_taken_def side_reduced_def side_removed_def)

definition taken_order :: "lots \<Rightarrow> nanos \<Rightarrow> order \<Rightarrow> order" where
  "taken_order lots now ord =
     order_fill lots (o_ticks ord) now
       (if lots < o_resd_lots ord then ord else set_level None ord)"

lemma side_take_order_eq:
  assumes inv: "side_inv sd h ms" and p: "p \<in> set (ms_orders ms)"
  shows "side_take_order p lots now (h, ms) = (h(p := taken_order lots now (h p)), side_taken p lots h sd ms)"
  using listed_level[OF assms] reduce_level_eq[OF assms, of lots]
  by (simp add: side_take_order_def taken_order_def side_taken_def)

lemma side_taken_inv:
  assumes inv: "side_inv sd h ms" and p: "p \<in> set (ms_orders ms)"
    and lots: "0 \<le> lots" "lots \<le> o_resd_lots (h p)"
  shows "side_inv sd (h(p := taken_order lots now (h p))) (side_taken p lots h sd ms)"
proof (cases "lots < o_resd_lots (h p)")
  case True
  have "order_ok (h p)" using side_inv_listed[OF inv p] by (simp add: listed_ok_def)
  with True lots have "order_ok (taken_order lots now (h p))"
    by (simp add: taken_order_def order_fill_ok)
  with True show ?thesis
    using inv p by (auto simp: side_taken_def taken_order_def order_defs intro!: side_reduced_inv)
next
  case False
  then show ?thesis
    using inv p by (auto simp: side_taken_def intro!: side_removed_inv)
qed

definition cancelled_order :: "nanos \<Rightarrow> order \<Rightarrow> order" where
  "cancelled_order now ord = order_cancel now (set_level None ord)"

lemma side_cancel_order_eq:
  assumes inv: "side_inv sd h ms" and p: "p \<in> set (ms_orders ms)"
  shows "side_cancel_order p now (h, ms) = (h(p := cancelled_order now (h p)), side_removed p h sd ms)"
  using listed_level[OF assms] remove_order_at_eq[OF assms]
  by (simp add: side_cancel_order_def cancelled_order_def)

lemma side_cancelled_inv:
  "side_inv sd h ms \<Longrightarrow> p \<in> set (ms_orders ms) \<Longrightarrow>
     side_inv sd (h(p := cancelled_order now (h p))) (side_removed p h sd ms)"
  by (auto intro!: side_removed_inv)

text \<open>A revision down to the executed lots takes the order out of the book.\<close>

definition side_revised :: "optr \<Rightarrow> lots \<Rightarrow> oheap \<Rightarrow> side \<Rightarrow> market_side \<Rightarrow> market_side" where
  "side_revised p lots h sd ms =
     (if o_exec_lots (h p) < lots then side_reduced p (r_lots (h p) - lots) h ms else side_removed p h sd ms)"

definition revised_order :: "lots \<Rightarrow> nanos \<Rightarrow> order \<Rightarrow> order" where
  "revised_order lots now ord =
     order_revise lots now (if o_exec_lots ord < lots then ord else set_level None ord)"

lemma side_revised_orders: "ms_orders (side_revised p lots h sd ms) =
    (if o_exec_lots (h p) < lots then ms_orders ms else remove1 p (ms_orders ms))"
  by (simp add: side_revised_def side_reduced_def side_removed_def)

lemma side_revise_order_eq:
  assumes inv: "side_inv sd h ms" and p: "p \<in> set (ms_orders ms)"
  shows "side_revise_order p lots now (h, ms) = (h(p := revised_order lots now (h p)), side_revised p lots h sd ms)"
proof -
  have "order_ok (h p)" using side_inv_listed[OF inv p] by (simp add: listed_ok_def)
  then have "r_lots (h p) - lots < o_resd_lots (h p) \<longleftrightarrow> o_exec_lots (h p) < lots"
    by (auto simp: order_ok_def)
  then show ?thesis
    using listed_level[OF inv p] reduce_level_eq[OF inv p, of "r_lots (h p) - lots"]
    by (simp add: side_revise_order_def side_revised_def revised_order_def)
qed

lemma side_revised_inv:
  assumes inv: "side_inv sd h ms" and p: "p \<in> set (ms_orders ms)" and lots: "o_min_lots (h p) \<le> lots"
  shows "side_inv sd (h(p := revised_order lots now (h p))) (side_revised p lots h sd ms)"
proof (cases "o_exec_lots (h p) < lots")
  case True
  have "order_ok (h p)" using side_inv_listed[OF inv p] by (simp add: listed_ok_def)
  with True lots have "order_ok (order_revise lots now (h p))" by (simp add: order_revise_ok)
  with True inv p show ?thesis
    by (auto intro!: side_reduced_inv simp: side_revised_def revised_order_def order_defs)
next
  case False
  with inv p show ?thesis by (auto intro!: side_removed_inv simp: side_revised_def)
qed

section \<open>Properties\<close>

text \<open>A bid side with three orders at two prices, and an order that is not in it yet.\<close>

definition wit_order :: "id64 \<Rightarrow> lots \<Rightarrow> ticks \<Rightarrow> order" where
  "wit_order oid lots ticks = make_order ''MARAYL'' 1 ''EURUSD'' 0 oid [] Buy lots ticks 1 0"

definition wit_heap :: oheap where
  "wit_heap p = (if p = 0 then set_level (Some (- 12)) (wit_order 1 10 12)
     else if p = 1 then set_level (Some (- 12)) (wit_order 2 5 12)
     else if p = 2 then set_level (Some (- 11)) (wit_order 3 7 11)
     else wit_order 4 3 12)"

definition wit_side :: market_side where
  "wit_side = \<lparr>ms_levels =
       [\<lparr>l_first_order = 0, l_key = - 12, l_ticks = 12, l_lots = 15, l_count = 2\<rparr>,
        \<lparr>l_first_order = 2, l_key = - 11, l_ticks = 11, l_lots = 7, l_count = 1\<rparr>],
     ms_orders = [0, 1, 2]\<rparr>"

lemmas wit_defs = wit_order_def wit_heap_def wit_side_def make_order_def make_ref_def max_ref_def

lemma wit_side_inv: "side_inv Buy wit_heap wit_side"
  by (simp add: wit_defs side_inv_def orders_ok_def listed_ok_def okey_def compose_key_def
      set_level_def order_ok_def levels_ok_def set_ok_def level_of_def at_key_def)

text \<open>
  C6. \<open>MarketSide::create_order\<close> keeps the side consistent and gives the new order its place in
  price-time priority: behind every order at the same or a better price and before every order at
  a worse price. The orders that were there keep their relative order and their contents.
\<close>

theorem create_order_priority:
  assumes "side_inv sd h ms" and "p \<notin> set (ms_orders ms)" and "r_side (h p) = sd"
    and "order_ok (order_create now (h p))"
  shows "\<exists>h' ms' before behind. side_create_order p now (h, ms) = (h', ms') \<and> side_inv sd h' ms'
    \<and> ms_orders ms = before @ behind \<and> ms_orders ms' = before @ p # behind
    \<and> (\<forall>q\<in>set before. okey h q \<le> okey h p) \<and> (\<forall>q\<in>set behind. okey h p < okey h q)
    \<and> (\<forall>q. q \<noteq> p \<longrightarrow> h' q = h q)"
proof -
  note r = side_create_order_eq[OF assms]
  have s: "sorted (map (okey h) (ms_orders ms))"
    using assms(1) by (simp add: side_inv_def orders_ok_def)
  show ?thesis
    by (intro exI conjI, rule r(1), rule r(2), rule takeWhile_dropWhile_id[symmetric],
        rule r(3)[unfolded book_insert_def])
      (use takeWhile_all[of _ "\<lambda>q. okey h q \<le> okey h p" "ms_orders ms"] sorted_dropWhile_ge[OF s] in auto)
qed

theorem create_order_priority_witness:
  "\<exists>h' ms' before behind. side_create_order 3 9 (wit_heap, wit_side) = (h', ms') \<and> side_inv Buy h' ms'
    \<and> ms_orders wit_side = before @ behind \<and> ms_orders ms' = before @ 3 # behind
    \<and> (\<forall>q\<in>set before. okey wit_heap q \<le> okey wit_heap 3)
    \<and> (\<forall>q\<in>set behind. okey wit_heap 3 < okey wit_heap q)
    \<and> (\<forall>q. q \<noteq> 3 \<longrightarrow> h' q = wit_heap q)"
  by (rule create_order_priority[OF wit_side_inv])
    (simp_all add: wit_defs order_create_def order_ok_def)

text \<open>
  \<open>MarketSide::take_order\<close> by at most what is open keeps the side consistent. The order loses
  the lots and gains them as executed, at its own price; it keeps its place while lots are left and
  leaves the book when none are; every other order stays.
\<close>

lemma take_order_effect:
  assumes "side_inv sd h ms" and "p \<in> set (ms_orders ms)" and "0 \<le> lots" and "lots \<le> o_resd_lots (h p)"
  shows "\<exists>h' ms'. side_take_order p lots now (h, ms) = (h', ms') \<and> side_inv sd h' ms'
    \<and> o_resd_lots (h' p) = o_resd_lots (h p) - lots \<and> o_exec_lots (h' p) = o_exec_lots (h p) + lots
    \<and> o_exec_cost (h' p) = o_exec_cost (h p) + cost lots (o_ticks (h p)) \<and> r_lots (h' p) = r_lots (h p)
    \<and> ms_orders ms' = (if lots < o_resd_lots (h p) then ms_orders ms else remove1 p (ms_orders ms))
    \<and> (\<forall>q. q \<noteq> p \<longrightarrow> h' q = h q)"
  using side_take_order_eq[OF assms(1,2)] side_taken_inv[OF assms]
  by (auto simp: side_taken_orders taken_order_def order_defs)

lemma take_order_effect_witness:
  "\<exists>h' ms'. side_take_order 0 10 9 (wit_heap, wit_side) = (h', ms') \<and> side_inv Buy h' ms'
    \<and> o_resd_lots (h' 0) = o_resd_lots (wit_heap 0) - 10 \<and> o_exec_lots (h' 0) = o_exec_lots (wit_heap 0) + 10
    \<and> o_exec_cost (h' 0) = o_exec_cost (wit_heap 0) + cost 10 (o_ticks (wit_heap 0))
    \<and> r_lots (h' 0) = r_lots (wit_heap 0)
    \<and> ms_orders ms' = (if 10 < o_resd_lots (wit_heap 0) then ms_orders wit_side else remove1 0 (ms_orders wit_side))
    \<and> (\<forall>q. q \<noteq> 0 \<longrightarrow> h' q = wit_heap q)"
  by (rule take_order_effect[OF wit_side_inv]) (simp_all add: wit_defs set_level_def)

text \<open>
  \<open>MarketSide::revise_order\<close> to lots that are not below the minimum or the executed lots keeps
  the side consistent. The order keeps its place in the queue and its executed lots; it leaves the
  book exactly when the new lots are the executed lots.
\<close>

lemma revise_keeps_priority:
  assumes "side_inv sd h ms" and "p \<in> set (ms_orders ms)"
    and "o_min_lots (h p) \<le> lots" and "o_exec_lots (h p) \<le> lots"
  shows "\<exists>h' ms'. side_revise_order p lots now (h, ms) = (h', ms') \<and> side_inv sd h' ms'
    \<and> r_lots (h' p) = lots \<and> o_exec_lots (h' p) = o_exec_lots (h p)
    \<and> o_resd_lots (h' p) = lots - o_exec_lots (h p)
    \<and> ms_orders ms' = (if o_exec_lots (h p) = lots then remove1 p (ms_orders ms) else ms_orders ms)
    \<and> (\<forall>q. q \<noteq> p \<longrightarrow> h' q = h q)"
  using side_revise_order_eq[OF assms(1,2)] side_revised_inv[OF assms(1-3)] assms(4)
    side_inv_listed[OF assms(1,2)]
  by (auto simp: side_revised_orders revised_order_def order_defs listed_ok_def order_ok_def)

lemma revise_keeps_priority_witness:
  "\<exists>h' ms'. side_revise_order 1 2 9 (wit_heap, wit_side) = (h', ms') \<and> side_inv Buy h' ms'
    \<and> r_lots (h' 1) = 2 \<and> o_exec_lots (h' 1) = o_exec_lots (wit_heap 1)
    \<and> o_resd_lots (h' 1) = 2 - o_exec_lots (wit_heap 1)
    \<and> ms_orders ms' = (if o_exec_lots (wit_heap 1) = 2 then remove1 1 (ms_orders wit_side) else ms_orders wit_side)
    \<and> (\<forall>q. q \<noteq> 1 \<longrightarrow> h' q = wit_heap q)"
  by (rule revise_keeps_priority[OF wit_side_inv]) (simp_all add: wit_defs set_level_def)

text \<open>
  \<open>MarketSide::cancel_order\<close> keeps the side consistent, takes exactly that order out of the
  book and leaves it with no open lots and no level.
\<close>

lemma cancel_order_removes:
  assumes "side_inv sd h ms" and "p \<in> set (ms_orders ms)"
  shows "\<exists>h' ms'. side_cancel_order p now (h, ms) = (h', ms') \<and> side_inv sd h' ms'
    \<and> ms_orders ms' = remove1 p (ms_orders ms) \<and> p \<notin> set (ms_orders ms')
    \<and> o_resd_lots (h' p) = 0 \<and> o_level (h' p) = None \<and> o_state (h' p) = Cancel
    \<and> r_lots (h' p) = r_lots (h p) \<and> o_exec_lots (h' p) = o_exec_lots (h p)
    \<and> (\<forall>q. q \<noteq> p \<longrightarrow> h' q = h q)"
proof -
  have "distinct (ms_orders ms)" using assms(1) by (simp add: side_inv_def orders_ok_def)
  then show ?thesis
    using side_cancel_order_eq[OF assms] side_cancelled_inv[OF assms]
    by (auto simp: side_removed_def cancelled_order_def order_defs)
qed

lemma cancel_order_removes_witness:
  "\<exists>h' ms'. side_cancel_order 2 9 (wit_heap, wit_side) = (h', ms') \<and> side_inv Buy h' ms'
    \<and> ms_orders ms' = remove1 2 (ms_orders wit_side) \<and> 2 \<notin> set (ms_orders ms')
    \<and> o_resd_lots (h' 2) = 0 \<and> o_level (h' 2) = None \<and> o_state (h' 2) = Cancel
    \<and> r_lots (h' 2) = r_lots (wit_heap 2) \<and> o_exec_lots (h' 2) = o_exec_lots (wit_heap 2)
    \<and> (\<forall>q. q \<noteq> 2 \<longrightarrow> h' q = wit_heap q)"
  by (rule cancel_order_removes[OF wit_side_inv]) (simp add: wit_defs)

end
