(* ===== verification/Market.thy ===== *)
theory Market
  imports Market_Side
begin

text \<open>
  \<open>Market\<close> (\<open>fin/Market.hpp\<close>): the two sides of a book and the last trade. A market works on its
  sides through the heap of orders, so its operations are functions on pairs of a heap and a
  market. The theory lifts the invariant of the sides to the market, for an order that is listed
  in it.
\<close>

section \<open>State and operations\<close>

record market =
  m_id :: id64
  m_instr :: symbol
  m_settl_day :: jday
  m_state :: mkt_state
  m_last_lots :: lots
  m_last_ticks :: ticks
  m_last_time :: nanos
  m_bid_side :: market_side
  m_offer_side :: market_side
  m_max_id :: id64

definition make_market :: "id64 \<Rightarrow> symbol \<Rightarrow> jday \<Rightarrow> mkt_state \<Rightarrow> market" where
  "make_market mid instr settl_day state =
     \<lparr>m_id = mid, m_instr = instr, m_settl_day = settl_day, m_state = state, m_last_lots = 0,
      m_last_ticks = 0, m_last_time = 0, m_bid_side = empty_side, m_offer_side = empty_side,
      m_max_id = 0\<rparr>"

definition set_state :: "mkt_state \<Rightarrow> market \<Rightarrow> market" where
  "set_state state m = m\<lparr>m_state := state\<rparr>"

text \<open>The private member \<open>side\<close>, as a getter and a setter.\<close>

definition get_side :: "side \<Rightarrow> market \<Rightarrow> market_side" where
  "get_side sd m = (if sd = Buy then m_bid_side m else m_offer_side m)"

definition put_side :: "side \<Rightarrow> market_side \<Rightarrow> market \<Rightarrow> market" where
  "put_side sd ms m = (if sd = Buy then m\<lparr>m_bid_side := ms\<rparr> else m\<lparr>m_offer_side := ms\<rparr>)"

definition on_side ::
    "(oheap \<times> market_side \<Rightarrow> oheap \<times> market_side) \<Rightarrow> side \<Rightarrow> oheap \<times> market \<Rightarrow> oheap \<times> market" where
  "on_side f sd = (\<lambda>(h, m). let (h', ms) = f (h, get_side sd m) in (h', put_side sd ms m))"

definition market_insert_order :: "optr \<Rightarrow> oheap \<times> market \<Rightarrow> oheap \<times> market" where
  "market_insert_order p = (\<lambda>(h, m). on_side (insert_order p) (r_side (h p)) (h, m))"

definition market_remove_order :: "optr \<Rightarrow> oheap \<times> market \<Rightarrow> oheap \<times> market" where
  "market_remove_order p = (\<lambda>(h, m). on_side (remove_order p) (r_side (h p)) (h, m))"

definition market_create_order :: "optr \<Rightarrow> nanos \<Rightarrow> oheap \<times> market \<Rightarrow> oheap \<times> market" where
  "market_create_order p now = (\<lambda>(h, m). on_side (side_create_order p now) (r_side (h p)) (h, m))"

definition market_revise_order :: "optr \<Rightarrow> lots \<Rightarrow> nanos \<Rightarrow> oheap \<times> market \<Rightarrow> oheap \<times> market" where
  "market_revise_order p lots now =
     (\<lambda>(h, m). on_side (side_revise_order p lots now) (r_side (h p)) (h, m))"

definition market_cancel_order :: "optr \<Rightarrow> nanos \<Rightarrow> oheap \<times> market \<Rightarrow> oheap \<times> market" where
  "market_cancel_order p now = (\<lambda>(h, m). on_side (side_cancel_order p now) (r_side (h p)) (h, m))"

definition market_take_order :: "optr \<Rightarrow> lots \<Rightarrow> nanos \<Rightarrow> oheap \<times> market \<Rightarrow> oheap \<times> market" where
  "market_take_order p lots now = (\<lambda>(h, m).
     let (h', m') = on_side (side_take_order p lots now) (r_side (h p)) (h, m)
     in (h', m'\<lparr>m_last_lots := lots, m_last_ticks := o_ticks (h' p), m_last_time := now\<rparr>))"

definition alloc_id :: "market \<Rightarrow> id64 \<times> market" where
  "alloc_id m = (m_max_id m + 1, m\<lparr>m_max_id := m_max_id m + 1\<rparr>)"

section \<open>Invariant\<close>

text \<open>The orders of a book, bids first.\<close>

definition listed :: "market \<Rightarrow> optr set" where
  "listed m = set (ms_orders (m_bid_side m)) \<union> set (ms_orders (m_offer_side m))"

text \<open>
  Both sides are consistent, and the orders they list belong to this market, have identifiers it
  has handed out, and have an identifier each.
\<close>

definition market_inv :: "oheap \<Rightarrow> market \<Rightarrow> bool" where
  "market_inv h m \<longleftrightarrow> side_inv Buy h (m_bid_side m) \<and> side_inv Sell h (m_offer_side m)
     \<and> (\<forall>p\<in>listed m. r_market_id (h p) = m_id m \<and> r_id (h p) \<le> m_max_id m)"

lemma put_get_side [simp]:
  "get_side sd (put_side sd ms m) = ms"
  "(sd = Buy \<longleftrightarrow> sd' \<noteq> Buy) \<Longrightarrow> get_side sd' (put_side sd ms m) = get_side sd' m"
  "m_id (put_side sd ms m) = m_id m" "m_instr (put_side sd ms m) = m_instr m"
  "m_settl_day (put_side sd ms m) = m_settl_day m" "m_max_id (put_side sd ms m) = m_max_id m"
  "m_state (put_side sd ms m) = m_state m"
  by (auto simp: get_side_def put_side_def)

lemma market_inv_side: "market_inv h m \<Longrightarrow> sd = Buy \<or> sd = Sell \<Longrightarrow> side_inv sd h (get_side sd m)"
  by (auto simp: market_inv_def get_side_def)

text \<open>A listed order is on the side that its own side names.\<close>

lemma listed_side:
  assumes "market_inv h m" and "p \<in> listed m"
  shows "p \<in> set (ms_orders (get_side (r_side (h p)) m))" and "r_side (h p) = Buy \<or> r_side (h p) = Sell"
    and "side_inv (r_side (h p)) h (get_side (r_side (h p)) m)"
proof -
  have bid: "side_inv Buy h (m_bid_side m)" and offer: "side_inv Sell h (m_offer_side m)"
    using assms(1) by (auto simp: market_inv_def)
  have "p \<in> set (ms_orders (m_bid_side m)) \<and> r_side (h p) = Buy \<or>
      p \<in> set (ms_orders (m_offer_side m)) \<and> r_side (h p) = Sell"
    using assms(2) side_inv_listed[OF bid, of p] side_inv_listed[OF offer, of p]
    unfolding listed_def listed_ok_def by blast
  then show "p \<in> set (ms_orders (get_side (r_side (h p)) m))" "r_side (h p) = Buy \<or> r_side (h p) = Sell"
    "side_inv (r_side (h p)) h (get_side (r_side (h p)) m)"
    using bid offer by (auto simp: get_side_def)
qed

lemma listed_order_ok:
  assumes "market_inv h m" and "p \<in> listed m"
  shows "order_ok (h p)"
  using side_inv_listed[OF listed_side(3,1)[OF assms]] by (simp add: listed_ok_def)

lemma listed_put_side: "p \<in> listed (put_side sd ms m) \<longleftrightarrow>
    p \<in> set (ms_orders ms) \<or> p \<in> set (ms_orders (get_side (opposite_side (if sd = Buy then Buy else Sell)) m))"
  by (auto simp: listed_def put_side_def get_side_def)

lemma listed_get_side: "sd = Buy \<or> sd = Sell \<Longrightarrow> p \<in> listed m \<longleftrightarrow>
    p \<in> set (ms_orders (get_side sd m)) \<or> p \<in> set (ms_orders (get_side (opposite_side sd) m))"
  by (auto simp: listed_def get_side_def)

text \<open>
  An operation on the side of one order: the other side keeps its invariant because it does not
  list that order.
\<close>

lemma market_inv_on_side:
  assumes inv: "market_inv h m" and sd: "sd = Buy \<or> sd = Sell" and side: "r_side (h p) = sd"
    and inv': "side_inv sd h' ms'" and frame: "\<And>q. q \<noteq> p \<Longrightarrow> h' q = h q"
    and sub: "set (ms_orders ms') \<subseteq> insert p (set (ms_orders (get_side sd m)))"
    and ids: "p \<in> set (ms_orders ms') \<Longrightarrow> r_market_id (h' p) = m_id m \<and> r_id (h' p) \<le> m_max_id m"
  shows "market_inv h' (put_side sd ms' m)"
proof -
  let ?os = "opposite_side sd"
  have os: "?os = Buy \<or> ?os = Sell" "?os \<noteq> sd" using sd by auto
  then have other: "side_inv ?os h (get_side ?os m)" using inv by (simp add: market_inv_side)
  have notin: "p \<notin> set (ms_orders (get_side ?os m))"
    using side_inv_listed[OF other] side os by (auto simp: listed_ok_def)
  have "side_inv ?os h' (get_side ?os m) = side_inv ?os h (get_side ?os m)"
    by (rule side_inv_cong, rule frame) (use notin in blast)
  with other have "side_inv ?os h' (get_side ?os m)" by simp
  moreover have "r_market_id (h' q) = m_id m \<and> r_id (h' q) \<le> m_max_id m"
    if "q \<in> listed (put_side sd ms' m)" for q
  proof (cases "q = p")
    case True
    with that notin sd ids show ?thesis by (auto simp: listed_put_side)
  next
    case False
    have "q \<in> set (ms_orders ms') \<or> q \<in> set (ms_orders (get_side ?os m))"
      using that sd by (auto simp: listed_put_side get_side_def)
    with False sub have "q \<in> listed m" unfolding listed_get_side[OF sd] by blast
    with False frame inv show ?thesis by (simp add: market_inv_def)
  qed
  ultimately show ?thesis
    using inv' sd by (auto simp: market_inv_def put_side_def get_side_def)
qed

lemma market_inv_empty: "market_inv h (make_market mid instr settl_day state)"
  by (simp add: market_inv_def make_market_def listed_def empty_side_def side_inv_def orders_ok_def
      levels_ok_def)

lemma market_inv_cong:
  assumes "market_inv h m" and "\<And>p. p \<in> listed m \<Longrightarrow> h' p = h p"
  shows "market_inv h' m"
proof -
  have "side_inv Buy h' (m_bid_side m) = side_inv Buy h (m_bid_side m)"
    by (rule side_inv_cong, rule assms(2)) (simp add: listed_def)
  moreover have "side_inv Sell h' (m_offer_side m) = side_inv Sell h (m_offer_side m)"
    by (rule side_inv_cong, rule assms(2)) (simp add: listed_def)
  ultimately show ?thesis using assms by (simp add: market_inv_def)
qed

text \<open>Members that the invariant does not depend on, but for the identifiers going up.\<close>

lemma market_inv_frame:
  assumes "market_inv h m" and "m_bid_side m' = m_bid_side m" "m_offer_side m' = m_offer_side m"
    and "m_id m' = m_id m" "m_max_id m \<le> m_max_id m'"
  shows "market_inv h m'"
proof -
  have "listed m' = listed m" using assms by (simp add: listed_def)
  with assms show ?thesis unfolding market_inv_def by (metis order_trans)
qed

section \<open>Effect of the operations on a listed order\<close>

lemma market_insert_order_ok:
  assumes inv: "market_inv h m" and sd: "r_side (h p) = Buy \<or> r_side (h p) = Sell"
    and new: "p \<notin> listed m" and ok: "order_ok (h p)"
    and ids: "r_market_id (h p) = m_id m" "r_id (h p) \<le> m_max_id m"
  defines "sd \<equiv> r_side (h p)"
  defines "h' \<equiv> h(p := set_level (Some (okey h p)) (h p))"
    and "m' \<equiv> put_side sd (side_inserted p h (get_side sd m)) m"
  shows "market_insert_order p (h, m) = (h', m')" and "market_inv h' m'"
    and "listed m' = insert p (listed m)"
proof -
  have s: "side_inv sd h (get_side sd m)" using inv sd by (simp add: market_inv_side sd_def)
  have notin: "p \<notin> set (ms_orders (get_side sd m))" using new sd by (auto simp: listed_def get_side_def)
  show "market_insert_order p (h, m) = (h', m')"
    using insert_order_eq[OF s, of p]
    by (simp add: market_insert_order_def on_side_def h'_def m'_def sd_def)
  have "side_inv sd h' (side_inserted p h (get_side sd m))"
    unfolding h'_def using s notin ok by (intro side_inserted_inv) (auto simp: sd_def)
  then show "market_inv h' m'"
    unfolding m'_def using inv sd ids
    by (intro market_inv_on_side[of h m sd p]) (auto simp: sd_def h'_def side_inserted_def set_level_def)
  show "listed m' = insert p (listed m)"
    using sd by (auto simp: m'_def sd_def listed_def put_side_def get_side_def side_inserted_def)
qed

definition market_taken :: "optr \<Rightarrow> lots \<Rightarrow> nanos \<Rightarrow> oheap \<Rightarrow> market \<Rightarrow> market" where
  "market_taken p lots now h m =
     (put_side (r_side (h p)) (side_taken p lots h (r_side (h p)) (get_side (r_side (h p)) m)) m)
       \<lparr>m_last_lots := lots, m_last_ticks := o_ticks (h p), m_last_time := now\<rparr>"

lemma market_take_order_ok:
  assumes inv: "market_inv h m" and p: "p \<in> listed m"
    and lots: "0 \<le> lots" "lots \<le> o_resd_lots (h p)"
  shows "market_take_order p lots now (h, m) = (h(p := taken_order lots now (h p)), market_taken p lots now h m)"
    and "market_inv (h(p := taken_order lots now (h p))) (market_taken p lots now h m)"
proof -
  note s = listed_side[OF inv p]
  show "market_take_order p lots now (h, m) = (h(p := taken_order lots now (h p)), market_taken p lots now h m)"
    using side_take_order_eq[OF s(3,1), of lots now]
    by (simp add: market_take_order_def on_side_def market_taken_def taken_order_def order_defs)
  have "market_inv (h(p := taken_order lots now (h p)))
      (put_side (r_side (h p)) (side_taken p lots h (r_side (h p)) (get_side (r_side (h p)) m)) m)"
    using inv s p side_taken_inv[OF s(3,1) lots, of now]
    by (intro market_inv_on_side[of h m _ p])
      (auto simp: side_taken_orders taken_order_def order_defs market_inv_def dest: set_remove1_subset[THEN subsetD])
  then show "market_inv (h(p := taken_order lots now (h p))) (market_taken p lots now h m)"
    by (rule market_inv_frame) (simp_all add: market_taken_def)
qed

definition market_revised :: "optr \<Rightarrow> lots \<Rightarrow> oheap \<Rightarrow> market \<Rightarrow> market" where
  "market_revised p lots h m =
     put_side (r_side (h p)) (side_revised p lots h (r_side (h p)) (get_side (r_side (h p)) m)) m"

lemma market_revise_order_ok:
  assumes inv: "market_inv h m" and p: "p \<in> listed m" and lots: "o_min_lots (h p) \<le> lots"
  shows "market_revise_order p lots now (h, m) = (h(p := revised_order lots now (h p)), market_revised p lots h m)"
    and "market_inv (h(p := revised_order lots now (h p))) (market_revised p lots h m)"
proof -
  note s = listed_side[OF inv p]
  show "market_revise_order p lots now (h, m) = (h(p := revised_order lots now (h p)), market_revised p lots h m)"
    using side_revise_order_eq[OF s(3,1), of lots now]
    by (simp add: market_revise_order_def on_side_def market_revised_def)
  show "market_inv (h(p := revised_order lots now (h p))) (market_revised p lots h m)"
    unfolding market_revised_def using inv s p side_revised_inv[OF s(3,1) lots, of now]
    by (intro market_inv_on_side[of h m _ p])
      (auto simp: side_revised_orders revised_order_def order_defs market_inv_def dest: set_remove1_subset[THEN subsetD])
qed

definition market_cancelled :: "optr \<Rightarrow> oheap \<Rightarrow> market \<Rightarrow> market" where
  "market_cancelled p h m =
     put_side (r_side (h p)) (side_removed p h (r_side (h p)) (get_side (r_side (h p)) m)) m"

lemma market_cancel_order_ok:
  assumes inv: "market_inv h m" and p: "p \<in> listed m"
  shows "market_cancel_order p now (h, m) = (h(p := cancelled_order now (h p)), market_cancelled p h m)"
    and "market_inv (h(p := cancelled_order now (h p))) (market_cancelled p h m)"
proof -
  note s = listed_side[OF inv p]
  show "market_cancel_order p now (h, m) = (h(p := cancelled_order now (h p)), market_cancelled p h m)"
    using side_cancel_order_eq[OF s(3,1), of now]
    by (simp add: market_cancel_order_def on_side_def market_cancelled_def)
  show "market_inv (h(p := cancelled_order now (h p))) (market_cancelled p h m)"
    unfolding market_cancelled_def using inv s p side_cancelled_inv[OF s(3,1), of now]
    by (intro market_inv_on_side[of h m _ p])
      (auto simp: side_removed_def cancelled_order_def order_defs market_inv_def dest: set_remove1_subset[THEN subsetD])
qed

lemma market_remove_order_ok:
  assumes inv: "market_inv h m" and p: "p \<in> listed m"
  shows "market_remove_order p (h, m) = (h(p := set_level None (h p)), market_cancelled p h m)"
proof -
  note s = listed_side[OF inv p]
  show ?thesis
    using remove_order_eq[OF s(3,1)] by (simp add: market_remove_order_def on_side_def market_cancelled_def)
qed

text \<open>The order leaves the book when its side lets go of it, because the other side does not list it.\<close>

lemma listed_put_own_side:
  assumes inv: "market_inv h m" and p: "p \<in> listed m"
    and ms: "ms_orders ms' = (if gone then remove1 p (ms_orders (get_side (r_side (h p)) m))
        else ms_orders (get_side (r_side (h p)) m))"
  shows "x \<in> listed (put_side (r_side (h p)) ms' m) \<longleftrightarrow> x \<in> listed m \<and> (x = p \<longrightarrow> \<not> gone)"
proof -
  note l = listed_side[OF inv p]
  let ?sd = "r_side (h p)"
  have d: "distinct (ms_orders (get_side ?sd m))" using l(3) by (simp add: side_inv_def orders_ok_def)
  have os: "opposite_side ?sd = Buy \<or> opposite_side ?sd = Sell" "opposite_side ?sd \<noteq> ?sd" using l(2) by auto
  have "p \<notin> set (ms_orders (get_side (opposite_side ?sd) m))"
    using side_inv_listed[OF market_inv_side[OF inv os(1)], of p] os(2) by (auto simp: listed_ok_def)
  then show ?thesis
    using l(1,2) d ms by (auto simp: listed_put_side listed_get_side[OF l(2)])
qed

lemma market_cancelled_listed:
  "market_inv h m \<Longrightarrow> p \<in> listed m \<Longrightarrow> x \<in> listed (market_cancelled p h m) \<longleftrightarrow> x \<in> listed m \<and> x \<noteq> p"
  using listed_put_own_side[of h m p "side_removed p h (r_side (h p)) (get_side (r_side (h p)) m)" True x]
  by (simp add: market_cancelled_def side_removed_def)

lemma market_revised_listed:
  "market_inv h m \<Longrightarrow> p \<in> listed m \<Longrightarrow> o_exec_lots (h p) \<le> lots \<Longrightarrow>
     x \<in> listed (market_revised p lots h m) \<longleftrightarrow> x \<in> listed m \<and> (x = p \<longrightarrow> o_exec_lots (h p) \<noteq> lots)"
  using listed_put_own_side[of h m p "side_revised p lots h (r_side (h p)) (get_side (r_side (h p)) m)"
      "o_exec_lots (h p) = lots" x] listed_order_ok[of h m p]
  by (auto simp: market_revised_def side_revised_orders order_ok_def)

lemma market_cancelled_frame [simp]:
  "m_id (market_cancelled p h m) = m_id m" "m_max_id (market_cancelled p h m) = m_max_id m"
  "m_id (market_revised p lots h m) = m_id m" "m_max_id (market_revised p lots h m) = m_max_id m"
  by (simp_all add: market_cancelled_def market_revised_def)

lemma put_side_put_side [simp]: "put_side sd ms (put_side sd ms' m) = put_side sd ms m"
  "put_side sd (get_side sd m) m = m"
  by (simp_all add: put_side_def get_side_def)

text \<open>The undo of \<open>create_order\<close>: removing the order that was just inserted restores the market.\<close>

lemma market_insert_remove:
  assumes inv: "market_inv h m" and sd: "r_side (h p) = Buy \<or> r_side (h p) = Sell"
    and new: "p \<notin> listed m" and ok: "order_ok (h p)"
    and ids: "r_market_id (h p) = m_id m" "r_id (h p) \<le> m_max_id m"
  shows "market_remove_order p (market_insert_order p (h, m)) = (h(p := set_level None (h p)), m)"
proof -
  note i = market_insert_order_ok[OF assms]
  let ?h1 = "h(p := set_level (Some (okey h p)) (h p))" and ?ms = "get_side (r_side (h p)) m"
  let ?m1 = "put_side (r_side (h p)) (side_inserted p h ?ms) m"
  have s: "side_inv (r_side (h p)) h ?ms" using inv sd by (simp add: market_inv_side)
  have p: "p \<notin> set (ms_orders ?ms)" using new sd by (auto simp: listed_def get_side_def)
  have "market_remove_order p (?h1, ?m1) = (?h1(p := set_level None (?h1 p)), market_cancelled p ?h1 ?m1)"
    by (rule market_remove_order_ok[OF i(2)]) (simp add: i(3))
  moreover have "market_cancelled p ?h1 ?m1 = m"
    using side_insert_remove[OF s p refl ok] by (simp add: market_cancelled_def)
  ultimately show ?thesis using i(1) by (simp add: set_level_def)
qed

end
