(* ===== verification/Posn.thy ===== *)
theory Posn
  imports Basic_Types
begin

text \<open>
  \<open>Posn\<close> (\<open>fin/Posn.hpp\<close>, \<open>fin/Posn.cpp\<close>): what an account has bought and sold in a market. The
  theory gives the effect of a trade on the gross and net quantities and the invariant of the net
  cost: a flat position has none.
\<close>

section \<open>State and operations\<close>

record posn =
  p_accnt :: symbol
  p_market_id :: id64
  p_instr :: symbol
  p_settl_day :: jday
  p_buy_lots :: lots
  p_buy_cost :: cost
  p_sell_lots :: lots
  p_sell_cost :: cost
  p_net_cost :: cost

definition make_posn ::
    "symbol \<Rightarrow> id64 \<Rightarrow> symbol \<Rightarrow> jday \<Rightarrow> lots \<Rightarrow> cost \<Rightarrow> lots \<Rightarrow> cost \<Rightarrow> posn" where
  "make_posn accnt market_id instr settl_day buy_lots buy_cost sell_lots sell_cost =
     \<lparr>p_accnt = accnt, p_market_id = market_id, p_instr = instr, p_settl_day = settl_day,
      p_buy_lots = buy_lots, p_buy_cost = buy_cost, p_sell_lots = sell_lots,
      p_sell_cost = sell_cost, p_net_cost = buy_cost - sell_cost\<rparr>"

definition new_posn :: "symbol \<Rightarrow> id64 \<Rightarrow> symbol \<Rightarrow> jday \<Rightarrow> posn" where
  "new_posn accnt market_id instr settl_day = make_posn accnt market_id instr settl_day 0 0 0 0"

definition net_lots :: "posn \<Rightarrow> lots" where
  "net_lots p = p_buy_lots p - p_sell_lots p"

text \<open>The overloads that add lots at a cost.\<close>

definition add_buy_cost :: "lots \<Rightarrow> cost \<Rightarrow> posn \<Rightarrow> posn" where
  "add_buy_cost lots c p =
     (let p = p\<lparr>p_buy_lots := p_buy_lots p + lots, p_buy_cost := p_buy_cost p + c\<rparr>
      in p\<lparr>p_net_cost := p_buy_cost p - p_sell_cost p\<rparr>)"

definition add_sell_cost :: "lots \<Rightarrow> cost \<Rightarrow> posn \<Rightarrow> posn" where
  "add_sell_cost lots c p =
     (let p = p\<lparr>p_sell_lots := p_sell_lots p + lots, p_sell_cost := p_sell_cost p + c\<rparr>
      in p\<lparr>p_net_cost := p_buy_cost p - p_sell_cost p\<rparr>)"

definition add_posn :: "posn \<Rightarrow> posn \<Rightarrow> posn" where
  "add_posn rhs p =
     add_sell_cost (p_sell_lots rhs) (p_sell_cost rhs)
       (add_buy_cost (p_buy_lots rhs) (p_buy_cost rhs) p)"

text \<open>The overloads that add lots at a price.\<close>

definition add_buy :: "lots \<Rightarrow> ticks \<Rightarrow> posn \<Rightarrow> posn" where
  "add_buy lots ticks p =
     (let c = cost lots ticks;
          net = net_lots p + lots;
          p = p\<lparr>p_buy_lots := p_buy_lots p + lots, p_buy_cost := p_buy_cost p + c\<rparr>
      in if net < 0 \<or> net \<ge> lots then p\<lparr>p_net_cost := p_net_cost p + c\<rparr>
         else if net > 0 then p\<lparr>p_net_cost := cost net ticks\<rparr>
         else p\<lparr>p_net_cost := 0\<rparr>)"

definition add_sell :: "lots \<Rightarrow> ticks \<Rightarrow> posn \<Rightarrow> posn" where
  "add_sell lots ticks p =
     (let c = cost lots ticks;
          net = net_lots p - lots;
          p = p\<lparr>p_sell_lots := p_sell_lots p + lots, p_sell_cost := p_sell_cost p + c\<rparr>
      in if net > 0 \<or> net \<le> - lots then p\<lparr>p_net_cost := p_net_cost p - c\<rparr>
         else if net < 0 then p\<lparr>p_net_cost := cost net ticks\<rparr>
         else p\<lparr>p_net_cost := 0\<rparr>)"

definition add_trade :: "side \<Rightarrow> lots \<Rightarrow> ticks \<Rightarrow> posn \<Rightarrow> posn" where
  "add_trade sd lots ticks p = (if sd = Buy then add_buy lots ticks p else add_sell lots ticks p)"

lemmas posn_defs = make_posn_def new_posn_def net_lots_def add_buy_cost_def add_sell_cost_def
  add_posn_def add_buy_def add_sell_def add_trade_def Let_def

section \<open>Gross and net quantities\<close>

text \<open>The signed lots of a trade.\<close>

definition signed_lots :: "side \<Rightarrow> lots \<Rightarrow> lots" where
  "signed_lots sd lots = (if sd = Buy then lots else - lots)"

lemma net_lots_new [simp]: "net_lots (new_posn a m i s) = 0"
  by (simp add: posn_defs)

lemma net_lots_add_trade [simp]:
  "net_lots (add_trade sd lots ticks p) = net_lots p + signed_lots sd lots"
  by (simp add: posn_defs signed_lots_def)

lemma add_trade_frame [simp]:
  "p_accnt (add_trade sd lots ticks p) = p_accnt p"
  "p_market_id (add_trade sd lots ticks p) = p_market_id p"
  "p_instr (add_trade sd lots ticks p) = p_instr p"
  "p_settl_day (add_trade sd lots ticks p) = p_settl_day p"
  by (simp_all add: posn_defs)

lemma add_trade_gross:
  "p_buy_lots (add_trade sd lots ticks p) = p_buy_lots p + (if sd = Buy then lots else 0)"
  "p_buy_cost (add_trade sd lots ticks p) = p_buy_cost p + (if sd = Buy then cost lots ticks else 0)"
  "p_sell_lots (add_trade sd lots ticks p) = p_sell_lots p + (if sd = Buy then 0 else lots)"
  "p_sell_cost (add_trade sd lots ticks p) = p_sell_cost p + (if sd = Buy then 0 else cost lots ticks)"
  by (simp_all add: posn_defs)

text \<open>
  The net cost as a function of the signed position \<open>n\<close> before a trade of \<open>d\<close> signed lots: a trade
  that opens or extends a position, or closes a part of it, adds its cost; a trade that crosses
  zero leaves the cost of the lots on the new side; a trade that closes the position leaves none.
\<close>

definition net_cost_after :: "lots \<Rightarrow> cost \<Rightarrow> lots \<Rightarrow> ticks \<Rightarrow> cost" where
  "net_cost_after n c d ticks =
     (if n + d = 0 then 0
      else if sgn n * sgn (n + d) = -1 then cost (n + d) ticks
      else c + cost d ticks)"

lemma add_trade_net_cost:
  assumes "0 < lots" and "net_lots p = 0 \<Longrightarrow> p_net_cost p = 0"
  shows "p_net_cost (add_trade sd lots ticks p) =
    net_cost_after (net_lots p) (p_net_cost p) (signed_lots sd lots) ticks"
  using assms by (auto simp: posn_defs signed_lots_def net_cost_after_def sgn_if cost_def algebra_simps)

text \<open>The invariant.\<close>

definition posn_ok :: "posn \<Rightarrow> bool" where
  "posn_ok p \<longleftrightarrow> (net_lots p = 0 \<longrightarrow> p_net_cost p = 0)"

lemma posn_ok_new [simp]: "posn_ok (new_posn a m i s)"
  by (simp add: posn_ok_def posn_defs)

lemma posn_ok_add_trade: "0 < lots \<Longrightarrow> posn_ok (add_trade sd lots ticks p)"
  by (auto simp: posn_ok_def posn_defs)

lemma net_lots_add_posn: "net_lots (add_posn q p) = net_lots p + net_lots q"
  by (simp add: posn_defs)

end
