(* ===== verification/Sess.thy ===== *)
theory Sess
  imports Market Posn "HOL-Library.Product_Lexorder"
begin

text \<open>
  \<open>Sess\<close> (\<open>lob/Sess.hpp\<close>, \<open>lob/Sess.cpp\<close>): what an account owns, that is its live orders with the index
  by reference, its recent executions, its open trades and its positions; and \<open>Response\<close>
  (\<open>lob/Response.hpp\<close>, \<open>lob/Response.cpp\<close>). The sets hold addresses; the key of an element is read
  from the heap it lives in.
\<close>

type_synonym eheap = "eptr \<Rightarrow> exec"
type_synonym pheap = "pptr \<Rightarrow> posn"

section \<open>Sessions\<close>

record sess =
  s_accnt :: symbol
  s_orders :: "optr list"
  s_execs :: "eptr list"
  s_max_execs :: nat
  s_trades :: "eptr list"
  s_posns :: "pptr list"
  s_ref_idx :: "optr list"

definition make_sess :: "symbol \<Rightarrow> nat \<Rightarrow> sess" where
  "make_sess accnt max_execs = \<lparr>s_accnt = accnt, s_orders = [], s_execs = [], s_max_execs = max_execs,
     s_trades = [], s_posns = [], s_ref_idx = []\<rparr>"

text \<open>The keys of the sets.\<close>

definition order_id_key :: "oheap \<Rightarrow> optr \<Rightarrow> id64 \<times> id64" where
  "order_id_key h p = request_key (h p)"

definition order_ref_key :: "oheap \<Rightarrow> optr \<Rightarrow> string" where
  "order_ref_key h p = r_ref (h p)"

definition exec_id_key :: "eheap \<Rightarrow> eptr \<Rightarrow> id64 \<times> id64" where
  "exec_id_key h p = request_key (h p)"

definition posn_key :: "pheap \<Rightarrow> pptr \<Rightarrow> id64" where
  "posn_key h p = p_market_id (h p)"

definition sess_exists :: "oheap \<Rightarrow> string \<Rightarrow> sess \<Rightarrow> bool" where
  "sess_exists h ref s \<longleftrightarrow> set_find (order_ref_key h) ref (s_ref_idx s) \<noteq> None"

definition sess_trade :: "eheap \<Rightarrow> id64 \<Rightarrow> id64 \<Rightarrow> sess \<Rightarrow> eptr option" where
  "sess_trade h market_id tid s = set_find (exec_id_key h) (market_id, tid) (s_trades s)"

definition sess_order :: "oheap \<Rightarrow> id64 \<Rightarrow> id64 \<Rightarrow> sess \<Rightarrow> optr option" where
  "sess_order h market_id oid s = set_find (order_id_key h) (market_id, oid) (s_orders s)"

definition sess_order_ref :: "oheap \<Rightarrow> string \<Rightarrow> sess \<Rightarrow> optr option" where
  "sess_order_ref h ref s = set_find (order_ref_key h) ref (s_ref_idx s)"

definition sess_insert_order :: "oheap \<Rightarrow> optr \<Rightarrow> sess \<Rightarrow> sess" where
  "sess_insert_order h p s =
     (let s = s\<lparr>s_orders := set_insert (order_id_key h) p (s_orders s)\<rparr>
      in if r_ref (h p) \<noteq> [] then s\<lparr>s_ref_idx := set_insert (order_ref_key h) p (s_ref_idx s)\<rparr>
         else s)"

definition sess_remove_order :: "oheap \<Rightarrow> optr \<Rightarrow> sess \<Rightarrow> sess" where
  "sess_remove_order h p s =
     (let s = (if r_ref (h p) \<noteq> [] then s\<lparr>s_ref_idx := set_remove (order_ref_key h) p (s_ref_idx s)\<rparr>
               else s)
      in s\<lparr>s_orders := set_remove (order_id_key h) p (s_orders s)\<rparr>)"

text \<open>
  \<open>boost::circular_buffer\<close>: a push onto a full buffer overwrites the element at the other end, and
  a buffer of capacity 0 stays empty.
\<close>

definition circ_push_back :: "nat \<Rightarrow> 'a \<Rightarrow> 'a list \<Rightarrow> 'a list" where
  "circ_push_back cap x xs = (let ys = xs @ [x] in drop (length ys - cap) ys)"

definition circ_push_front :: "nat \<Rightarrow> 'a \<Rightarrow> 'a list \<Rightarrow> 'a list" where
  "circ_push_front cap x xs = take cap (x # xs)"

definition push_exec_back :: "eptr \<Rightarrow> sess \<Rightarrow> sess" where
  "push_exec_back e s = s\<lparr>s_execs := circ_push_back (s_max_execs s) e (s_execs s)\<rparr>"

definition push_exec_front :: "eptr \<Rightarrow> sess \<Rightarrow> sess" where
  "push_exec_front e s = s\<lparr>s_execs := circ_push_front (s_max_execs s) e (s_execs s)\<rparr>"

definition insert_trade :: "eheap \<Rightarrow> eptr \<Rightarrow> sess \<Rightarrow> sess" where
  "insert_trade h e s = s\<lparr>s_trades := set_insert (exec_id_key h) e (s_trades s)\<rparr>"

definition remove_trade :: "eheap \<Rightarrow> eptr \<Rightarrow> sess \<Rightarrow> sess" where
  "remove_trade h e s = s\<lparr>s_trades := set_remove (exec_id_key h) e (s_trades s)\<rparr>"

definition insert_posn :: "pheap \<Rightarrow> pptr \<Rightarrow> sess \<Rightarrow> sess" where
  "insert_posn h p s = s\<lparr>s_posns := set_insert (posn_key h) p (s_posns s)\<rparr>"

text \<open>\<open>Sess::posn\<close>: the position in a market, allocated at the address \<open>n\<close> if there is none.\<close>

definition sess_posn ::
    "id64 \<Rightarrow> symbol \<Rightarrow> jday \<Rightarrow> pheap \<times> pptr \<times> sess \<Rightarrow> pptr \<times> pheap \<times> pptr \<times> sess" where
  "sess_posn market_id instr settl_day = (\<lambda>(h, n, s).
     case set_find (posn_key h) market_id (s_posns s) of
       Some p \<Rightarrow> (p, h, n, s)
     | None \<Rightarrow>
         let h = h(n := new_posn (s_accnt s) market_id instr settl_day)
         in (n, h, n + 1, s\<lparr>s_posns := set_insert (posn_key h) n (s_posns s)\<rparr>))"

section \<open>Responses\<close>

record response =
  resp_market :: "id64 option"
  resp_orders :: "optr list"
  resp_execs :: "eptr list"
  resp_posn :: "pptr option"

definition resp_clear :: "response \<Rightarrow> response" where
  "resp_clear r = \<lparr>resp_market = None, resp_orders = [], resp_execs = [], resp_posn = None\<rparr>"

text \<open>\<open>resize(1)\<close> of a vector that is not empty keeps its first element.\<close>

definition clear_matches :: "response \<Rightarrow> response" where
  "clear_matches r = r\<lparr>resp_orders := take 1 (resp_orders r), resp_execs := take 1 (resp_execs r),
     resp_posn := None\<rparr>"

definition resp_set_market :: "id64 \<Rightarrow> response \<Rightarrow> response" where
  "resp_set_market mid r = r\<lparr>resp_market := Some mid\<rparr>"

definition resp_insert_order :: "optr \<Rightarrow> response \<Rightarrow> response" where
  "resp_insert_order p r = r\<lparr>resp_orders := resp_orders r @ [p]\<rparr>"

definition resp_insert_exec :: "eptr \<Rightarrow> response \<Rightarrow> response" where
  "resp_insert_exec e r = r\<lparr>resp_execs := resp_execs r @ [e]\<rparr>"

definition resp_set_posn :: "pptr \<Rightarrow> response \<Rightarrow> response" where
  "resp_set_posn p r = r\<lparr>resp_posn := Some p\<rparr>"

lemmas resp_defs = resp_set_market_def resp_insert_order_def resp_insert_exec_def resp_set_posn_def

lemmas sess_defs = make_sess_def push_exec_front_def push_exec_back_def insert_trade_def
  remove_trade_def insert_posn_def sess_insert_order_def sess_remove_order_def Let_def

section \<open>Lemmas on sets of addresses\<close>

lemma set_find_key_cong:
  "(\<And>x. x \<in> set s \<Longrightarrow> key x = key' x) \<Longrightarrow> set_find key k s = set_find key' k s"
proof (induction s)
  case (Cons v s)
  then have "lower_bound key k (v # s) = lower_bound key' k (v # s)"
    unfolding lower_bound_def by (intro dropWhile_cong) auto
  moreover have "x \<in> set (lower_bound key' k (v # s)) \<Longrightarrow> key x = key' x" for x
    using Cons.prems set_dropWhileD unfolding lower_bound_def by fast
  ultimately show ?case by (auto simp: set_find_def split: list.split)
qed simp

lemma set_ok_key_cong: "(\<And>x. x \<in> set s \<Longrightarrow> key x = key' x) \<Longrightarrow> set_ok key s = set_ok key' s"
  by (simp add: set_ok_def cong: map_cong)

lemma circ_push_front_subset: "set (circ_push_front cap x xs) \<subseteq> insert x (set xs)"
  by (auto simp: circ_push_front_def dest: in_set_takeD)

lemma circ_push_front_length: "length (circ_push_front cap x xs) \<le> cap"
  by (simp add: circ_push_front_def)

lemma circ_push_back_length: "length xs \<le> cap \<Longrightarrow> length (circ_push_back cap x xs) \<le> cap"
  by (simp add: circ_push_back_def)

text \<open>The most recent execution is at the front of a buffer that can hold one.\<close>

lemma circ_push_front_hd: "0 < cap \<Longrightarrow> circ_push_front cap x xs = x # take (cap - 1) xs"
  by (cases cap) (auto simp: circ_push_front_def)

end
