(* ===== verification/Mem_Queue.thy ===== *)
theory Mem_Queue
  imports Basic_Types "HOL-Library.Word"
begin

unbundle bit_operations_syntax

text \<open>
  \<open>MemQueue\<close> (\<open>app/MemQueue.hpp\<close>): a bounded queue in an array of elements with sequence numbers,
  with the power-of-two helpers of \<open>util/Math.hpp\<close>. The operations are those of one thread that is
  not interrupted: a compare-and-exchange succeeds. \<open>None\<close> is the loop that spins for ever, which
  happens where a sequence number is ahead of the position and no other thread moves it.

  The locale \<open>bounded_queue\<close> states the contract of a bounded FIFO queue and derives what a series
  of posts does; the array implements it where it was initialised with a power of two.
\<close>

section \<open>Powers of two\<close>

definition is_pow2 :: "nat \<Rightarrow> bool" where
  "is_pow2 n \<longleftrightarrow> 0 < n \<and> n AND (n - 1) = 0"

text \<open>The number of bits of a number: the width less the number of leading zeros.\<close>

fun bit_length :: "nat \<Rightarrow> nat" where
  "bit_length n = (if n = 0 then 0 else Suc (bit_length (n div 2)))"

declare bit_length.simps [simp del]

definition next_pow2 :: "nat \<Rightarrow> nat" where
  "next_pow2 n = (if n \<le> 1 then 1 else push_bit (bit_length (n - 1)) 1)"

lemma bit_length_bounds: "n < 2 ^ bit_length n \<and> (0 < n \<longrightarrow> 2 ^ bit_length n \<le> 2 * n)"
proof (induction n rule: bit_length.induct)
  case (1 n)
  show ?case
  proof (cases "n = 0")
    case False
    with 1 have "n div 2 < 2 ^ bit_length (n div 2)"
      and "0 < n div 2 \<longrightarrow> 2 ^ bit_length (n div 2) \<le> 2 * (n div 2)" by auto
    with False show ?thesis by (cases "n = 1") (auto simp: bit_length.simps[of n] bit_length.simps[of 0] bit_length.simps[of "Suc 0"])
  qed (simp add: bit_length.simps)
qed

lemma and_mask_mod: "n AND (2 ^ k - 1) = n mod (2 ^ k :: nat)"
  using take_bit_eq_mask[of k n] by (simp add: mask_eq_exp_minus_1 take_bit_eq_mod)

lemma is_pow2_iff: "is_pow2 n \<longleftrightarrow> (\<exists>k. n = 2 ^ k)"
proof
  assume n: "is_pow2 n"
  then have pos: "0 < n" by (simp add: is_pow2_def)
  define k where "k = bit_length n - 1"
  have "bit_length n = Suc k" using pos by (simp add: k_def bit_length.simps[of n])
  then have k: "2 ^ k \<le> n" "n < 2 * 2 ^ k" using bit_length_bounds[of n] pos by auto
  show "\<exists>k. n = 2 ^ k"
  proof (rule ccontr)
    assume "\<not> ?thesis"
    with k have "2 ^ k \<le> n - 1" "n - 1 < 2 * 2 ^ k" by (auto simp: le_less)
    with k have "n div 2 ^ k = 1" "(n - 1) div 2 ^ k = 1"
      by (auto intro!: div_nat_eqI)
    then have "bit n k" "bit (n - 1) k" by (simp_all add: bit_iff_odd)
    then have "bit (n AND (n - 1)) k" by (simp add: bit_and_iff)
    with n show False by (simp add: is_pow2_def)
  qed
next
  assume "\<exists>k. n = 2 ^ k"
  then obtain k where "n = 2 ^ k" by blast
  then show "is_pow2 n" using and_mask_mod[of n k] by (simp add: is_pow2_def)
qed

lemma next_pow2_eq: "\<exists>k. next_pow2 n = 2 ^ k"
  by (auto simp: next_pow2_def push_bit_eq_mult intro: exI[of _ 0])

lemma next_pow2_bounds: "0 < n \<Longrightarrow> n \<le> next_pow2 n \<and> next_pow2 n < 2 * n"
proof (cases "n \<le> 1")
  case False
  then have "n - 1 < 2 ^ bit_length (n - 1)" "2 ^ bit_length (n - 1) \<le> 2 * (n - 1)"
    using bit_length_bounds[of "n - 1"] by auto
  with False show ?thesis by (auto simp: next_pow2_def push_bit_eq_mult)
qed (auto simp: next_pow2_def)

section \<open>The array\<close>

record 'v ring =
  q_rpos :: nat
  q_wpos :: nat
  q_capacity :: nat
  q_mask :: nat
  q_elems :: "(nat \<times> 'v) list"

text \<open>
  The constructor: the memory is zeroed and the sequence numbers of the first \<open>capacity\<close> elements
  are set, of the \<open>next_pow2 capacity\<close> that there are. The value \<open>zero\<close> is the zeroed element.
\<close>

definition make_ring :: "'v \<Rightarrow> nat \<Rightarrow> 'v ring" where
  "make_ring zero capacity =
     \<lparr>q_rpos = 0, q_wpos = 0, q_capacity = next_pow2 capacity, q_mask = next_pow2 capacity - 1,
      q_elems = map (\<lambda>i. (if i < capacity then i else 0, zero)) [0..<next_pow2 capacity]\<rparr>"

definition ring_empty :: "'v ring \<Rightarrow> bool" where
  "ring_empty q \<longleftrightarrow> q_rpos q = q_wpos q"

definition ring_size :: "'v ring \<Rightarrow> nat" where
  "ring_size q = q_wpos q - q_rpos q"

definition ring_reserve :: "'v ring \<Rightarrow> nat" where
  "ring_reserve q = q_capacity q - ring_size q"

definition ring_fetch :: "'v ring \<Rightarrow> ('v option \<times> 'v ring) option" where
  "ring_fetch q =
     (let rpos = q_rpos q; i = rpos AND q_mask q; (seq, v) = q_elems q ! i;
          diff = int seq - (int rpos + 1)
      in if diff = 0
         then Some (Some v, q\<lparr>q_rpos := rpos + 1, q_elems := (q_elems q)[i := (rpos + q_capacity q, v)]\<rparr>)
         else if diff < 0 then Some (None, q)
         else None)"

definition ring_post :: "'v \<Rightarrow> 'v ring \<Rightarrow> (bool \<times> 'v ring) option" where
  "ring_post v q =
     (let wpos = q_wpos q; i = wpos AND q_mask q; seq = fst (q_elems q ! i);
          diff = int seq - int wpos
      in if diff = 0
         then Some (True, q\<lparr>q_wpos := wpos + 1, q_elems := (q_elems q)[i := (wpos + 1, v)]\<rparr>)
         else if diff < 0 then Some (False, q)
         else None)"

section \<open>The contract of a bounded queue\<close>

definition send :: "('v \<Rightarrow> 'q \<Rightarrow> (bool \<times> 'q) option) \<Rightarrow> 'v \<Rightarrow> 'q \<Rightarrow> (err, 'q, unit) outcome" where
  "send post v q = (case post v q of
       Some (True, q') \<Rightarrow> Done () q' | Some (False, q') \<Rightarrow> Throw QueueFull q' | None \<Rightarrow> Undef)"

fun send_all ::
    "('v \<Rightarrow> 'q \<Rightarrow> (bool \<times> 'q) option) \<Rightarrow> 'v list \<Rightarrow> 'q \<Rightarrow> (err, 'q, unit) outcome" where
  "send_all post [] q = Done () q"
| "send_all post (v # vs) q = obind (send post v q) (\<lambda>_ q. send_all post vs q)"

locale bounded_queue =
  fixes post :: "'v \<Rightarrow> 'q \<Rightarrow> (bool \<times> 'q) option"
    and fetch :: "'q \<Rightarrow> ('v option \<times> 'q) option"
    and contents :: "'q \<Rightarrow> 'v list"
    and room :: "'q \<Rightarrow> nat"
    and inv :: "'q \<Rightarrow> bool"
  assumes post_room: "inv q \<Longrightarrow> 0 < room q \<Longrightarrow>
      \<exists>q'. post v q = Some (True, q') \<and> inv q' \<and> contents q' = contents q @ [v] \<and> room q' = room q - 1"
    and post_full: "inv q \<Longrightarrow> room q = 0 \<Longrightarrow> post v q = Some (False, q)"
    and fetch_some: "inv q \<Longrightarrow> contents q = v # vs \<Longrightarrow>
      \<exists>q'. fetch q = Some (Some v, q') \<and> inv q' \<and> contents q' = vs \<and> room q' = room q + 1"
    and fetch_none: "inv q \<Longrightarrow> contents q = [] \<Longrightarrow> fetch q = Some (None, q)"
begin

lemma send_room: "inv q \<Longrightarrow> 0 < room q \<Longrightarrow>
    \<exists>q'. send post v q = Done () q' \<and> inv q' \<and> contents q' = contents q @ [v] \<and> room q' = room q - 1"
  using post_room[of q v] by (auto simp: send_def)

lemma send_full: "inv q \<Longrightarrow> room q = 0 \<Longrightarrow> send post v q = Throw QueueFull q"
  using post_full[of q v] by (simp add: send_def)

lemma send_all_room: "inv q \<Longrightarrow> length vs \<le> room q \<Longrightarrow>
    \<exists>q'. send_all post vs q = Done () q' \<and> inv q' \<and> contents q' = contents q @ vs
      \<and> room q' = room q - length vs"
proof (induction vs arbitrary: q)
  case (Cons v vs)
  then obtain q1 where q1: "send post v q = Done () q1" "inv q1" "contents q1 = contents q @ [v]"
      "room q1 = room q - 1"
    using send_room[of q v] by auto
  with Cons.prems Cons.IH[of q1] show ?case by auto
qed auto

text \<open>A queue never reorders: what was sent comes out in the order it went in.\<close>

lemma send_then_fetch: "inv q \<Longrightarrow> contents q = [] \<Longrightarrow> 0 < room q \<Longrightarrow>
    \<exists>q1 q2. send post v q = Done () q1 \<and> fetch q1 = Some (Some v, q2) \<and> contents q2 = []
      \<and> room q2 = room q"
proof -
  assume a: "inv q" "contents q = []" "0 < room q"
  then obtain q1 where q1: "send post v q = Done () q1" "inv q1" "contents q1 = [v]" "room q1 = room q - 1"
    using send_room[of q v] by auto
  then show ?thesis using fetch_some[of q1 v "[]"] a(3) by auto
qed

end

section \<open>The array implements the contract\<close>

definition ring_ok :: "'v ring \<Rightarrow> bool" where
  "ring_ok q \<longleftrightarrow> is_pow2 (q_capacity q) \<and> 2 \<le> q_capacity q \<and> q_mask q = q_capacity q - 1
     \<and> length (q_elems q) = q_capacity q
     \<and> q_rpos q \<le> q_wpos q \<and> q_wpos q \<le> q_rpos q + q_capacity q
     \<and> (\<forall>i\<in>{q_rpos q..<q_wpos q}. fst (q_elems q ! (i mod q_capacity q)) = i + 1)
     \<and> (\<forall>i\<in>{q_wpos q..<q_rpos q + q_capacity q}. fst (q_elems q ! (i mod q_capacity q)) = i)"

definition ring_contents :: "'v ring \<Rightarrow> 'v list" where
  "ring_contents q = map (\<lambda>i. snd (q_elems q ! (i mod q_capacity q))) [q_rpos q..<q_wpos q]"

lemma mod_window_inj:
  fixes i j n :: nat
  assumes "i mod n = j mod n" and "a \<le> i" "i < a + n" and "a \<le> j" "j < a + n"
  shows "i = j"
proof -
  have "x = y" if "x mod n = y mod n" "x \<le> y" "y < x + n" for x y :: nat
  proof -
    from that have "n dvd y - x" by (metis mod_eq_dvd_iff_nat)
    with that show ?thesis by (auto dest: dvd_imp_le)
  qed
  then show ?thesis using assms by (metis nle_le add_le_mono1 le_trans not_le order_less_le_trans)
qed

lemma ring_index: "ring_ok q \<Longrightarrow> i AND q_mask q = i mod q_capacity q"
  using and_mask_mod by (auto simp: ring_ok_def is_pow2_iff)

lemma ring_capacity_pos: "ring_ok q \<Longrightarrow> 2 \<le> q_capacity q"
  by (auto simp: ring_ok_def)

lemma ring_seq_read: "ring_ok q \<Longrightarrow> q_rpos q \<le> i \<Longrightarrow> i < q_wpos q \<Longrightarrow>
    fst (q_elems q ! (i mod q_capacity q)) = i + 1"
  by (simp add: ring_ok_def)

lemma ring_seq_write: "ring_ok q \<Longrightarrow> q_wpos q \<le> i \<Longrightarrow> i < q_rpos q + q_capacity q \<Longrightarrow>
    fst (q_elems q ! (i mod q_capacity q)) = i"
  by (simp add: ring_ok_def)

text \<open>
  At the write position of a full queue is the element at the read position, which has not been
  read; at the read position of an empty queue is an element that has not been written.
\<close>

lemma ring_post_full:
  assumes ok: "ring_ok q" and full: "ring_reserve q = 0"
  shows "ring_post v q = Some (False, q)"
proof -
  have w: "q_wpos q = q_rpos q + q_capacity q" and pos: "q_rpos q < q_wpos q"
    using ok full ring_capacity_pos[OF ok] by (auto simp: ring_ok_def ring_reserve_def ring_size_def)
  then have "fst (q_elems q ! (q_wpos q mod q_capacity q)) = q_rpos q + 1"
    using ring_seq_read[OF ok, of "q_rpos q"] by simp
  then show ?thesis
    using w ring_capacity_pos[OF ok] by (simp add: ring_post_def ring_index[OF ok] Let_def)
qed

lemma ring_fetch_none:
  assumes ok: "ring_ok q" and empty: "ring_contents q = []"
  shows "ring_fetch q = Some (None, q)"
proof -
  have r: "q_rpos q = q_wpos q" using ok empty by (auto simp: ring_contents_def ring_ok_def)
  then have "fst (q_elems q ! (q_rpos q mod q_capacity q)) = q_rpos q"
    using ring_seq_write[OF ok, of "q_rpos q"] ring_capacity_pos[OF ok] by simp
  then show ?thesis
    by (auto simp: ring_fetch_def ring_index[OF ok] Let_def split: prod.split)
qed

lemma ring_post_room:
  fixes q :: "'v ring" and v :: 'v
  assumes ok: "ring_ok q" and room: "0 < ring_reserve q"
  defines "w \<equiv> q_wpos q" and "n \<equiv> q_capacity q"
  defines "q' \<equiv> q\<lparr>q_wpos := w + 1, q_elems := (q_elems q)[w mod n := (w + 1, v)]\<rparr>"
  shows "ring_post v q = Some (True, q')" and "ring_ok q'"
    and "ring_contents q' = ring_contents q @ [v]" and "ring_reserve q' = ring_reserve q - 1"
proof -
  have lt: "w < q_rpos q + n" and le: "q_rpos q \<le> w" and n: "0 < n" and len: "length (q_elems q) = n"
    using ok room ring_capacity_pos[OF ok]
    by (auto simp: ring_ok_def ring_reserve_def ring_size_def w_def n_def)
  have "fst (q_elems q ! (w mod n)) = w"
    using ring_seq_write[OF ok, of w] lt by (simp add: w_def n_def)
  then show "ring_post v q = Some (True, q')"
    by (simp add: ring_post_def ring_index[OF ok] Let_def q'_def w_def n_def)
  have other: "q_elems q' ! (i mod n) = q_elems q ! (i mod n)"
    if "i \<noteq> w" "q_rpos q \<le> i" "i < q_rpos q + n" for i
  proof -
    have "w mod n \<noteq> i mod n" using mod_window_inj[of i n w "q_rpos q"] that lt le by auto
    then show ?thesis by (simp add: q'_def)
  qed
  have here: "q_elems q' ! (w mod n) = (w + 1, v)" using len n by (simp add: q'_def)
  have q': "q_rpos q' = q_rpos q" "q_wpos q' = w + 1" "q_capacity q' = n" "q_mask q' = q_mask q"
    by (simp_all add: q'_def n_def)
  show "ring_ok q'"
    unfolding ring_ok_def q'
  proof (intro conjI ballI)
    fix i assume i: "i \<in> {q_rpos q..<w + 1}"
    show "fst (q_elems q' ! (i mod n)) = i + 1"
    proof (cases "i = w")
      case False
      with i lt show ?thesis using other[of i] ring_seq_read[OF ok, of i] by (simp add: w_def n_def)
    qed (simp add: here)
  next
    fix i assume i: "i \<in> {w + 1..<q_rpos q + n}"
    with le show "fst (q_elems q' ! (i mod n)) = i"
      using other[of i] ring_seq_write[OF ok, of i] by (simp add: w_def n_def)
  qed (use ok lt le len in \<open>auto simp: ring_ok_def n_def w_def q'_def\<close>)
  have "map (\<lambda>i. snd (q_elems q' ! (i mod n))) [q_rpos q..<w] = map (\<lambda>i. snd (q_elems q ! (i mod n))) [q_rpos q..<w]"
    using other lt by (intro map_cong) auto
  then show "ring_contents q' = ring_contents q @ [v]"
    using le here by (simp add: ring_contents_def q' w_def[symmetric] n_def[symmetric])
  show "ring_reserve q' = ring_reserve q - 1"
    using le by (simp add: ring_reserve_def ring_size_def q' w_def n_def)
qed

lemma ring_fetch_some:
  assumes ok: "ring_ok q" and contents: "ring_contents q = v # vs"
  defines "r \<equiv> q_rpos q" and "n \<equiv> q_capacity q"
  defines "q' \<equiv> q\<lparr>q_rpos := r + 1, q_elems := (q_elems q)[r mod n := (r + n, v)]\<rparr>"
  shows "ring_fetch q = Some (Some v, q')" and "ring_ok q'"
    and "ring_contents q' = vs" and "ring_reserve q' = ring_reserve q + 1"
proof -
  have lt: "r < q_wpos q" using contents by (auto simp: ring_contents_def r_def intro: ccontr)
  have w: "q_wpos q \<le> r + n" and n: "0 < n" and len: "length (q_elems q) = n"
    using ok ring_capacity_pos[OF ok] by (auto simp: ring_ok_def r_def n_def)
  have c: "ring_contents q = snd (q_elems q ! (r mod n)) # map (\<lambda>i. snd (q_elems q ! (i mod n))) [r + 1..<q_wpos q]"
    using lt by (simp add: ring_contents_def r_def n_def upt_conv_Cons)
  have v: "snd (q_elems q ! (r mod n)) = v" using c contents by simp
  have "fst (q_elems q ! (r mod n)) = r + 1"
    using ring_seq_read[OF ok, of r] lt by (simp add: r_def n_def)
  then show "ring_fetch q = Some (Some v, q')"
    using v by (auto simp: ring_fetch_def ring_index[OF ok] Let_def q'_def r_def n_def split: prod.split)
  have other: "q_elems q' ! (i mod n) = q_elems q ! (i mod n)" if "i \<noteq> r" "r \<le> i" "i < r + n" for i
  proof -
    have "r mod n \<noteq> i mod n" using mod_window_inj[of i n r r] that n by auto
    then show ?thesis by (simp add: q'_def)
  qed
  have here: "q_elems q' ! (r mod n) = (r + n, v)" using len n by (simp add: q'_def)
  have q': "q_rpos q' = r + 1" "q_wpos q' = q_wpos q" "q_capacity q' = n" "q_mask q' = q_mask q"
    by (simp_all add: q'_def n_def)
  show "ring_ok q'"
    unfolding ring_ok_def q'
  proof (intro conjI ballI)
    fix i assume i: "i \<in> {r + 1..<q_wpos q}"
    with w show "fst (q_elems q' ! (i mod n)) = i + 1"
      using other[of i] ring_seq_read[OF ok, of i] by (simp add: r_def n_def)
  next
    fix i assume i: "i \<in> {q_wpos q..<r + 1 + n}"
    show "fst (q_elems q' ! (i mod n)) = i"
    proof (cases "i = r + n")
      case False
      with i lt show ?thesis using other[of i] ring_seq_write[OF ok, of i] by (simp add: r_def n_def)
    qed (simp add: here)
  qed (use ok lt w len in \<open>auto simp: ring_ok_def n_def r_def q'_def\<close>)
  have "map (\<lambda>i. snd (q_elems q' ! (i mod n))) [r + 1..<q_wpos q] = map (\<lambda>i. snd (q_elems q ! (i mod n))) [r + 1..<q_wpos q]"
    using other w by (intro map_cong) auto
  then have "ring_contents q' = map (\<lambda>i. snd (q_elems q ! (i mod n))) [r + 1..<q_wpos q]"
    by (simp add: ring_contents_def q' del: map_eq_conv)
  then show "ring_contents q' = vs" using c contents by simp
  show "ring_reserve q' = ring_reserve q + 1"
    using lt w by (simp add: ring_reserve_def ring_size_def q' r_def n_def)
qed

interpretation rq: bounded_queue ring_post ring_fetch ring_contents ring_reserve ring_ok
proof
  fix q :: "'a ring" and v vs
  show "ring_ok q \<Longrightarrow> 0 < ring_reserve q \<Longrightarrow> \<exists>q'. ring_post v q = Some (True, q') \<and> ring_ok q'
      \<and> ring_contents q' = ring_contents q @ [v] \<and> ring_reserve q' = ring_reserve q - 1"
    using ring_post_room[of q v] by (intro exI conjI) assumption+
  show "ring_ok q \<Longrightarrow> ring_contents q = v # vs \<Longrightarrow> \<exists>q'. ring_fetch q = Some (Some v, q') \<and> ring_ok q'
      \<and> ring_contents q' = vs \<and> ring_reserve q' = ring_reserve q + 1"
    using ring_fetch_some[of q v vs] by (intro exI conjI) assumption+
qed (simp_all add: ring_post_full ring_fetch_none)

lemma make_ring_ok:
  assumes "is_pow2 capacity" and "2 \<le> capacity"
  shows "ring_ok (make_ring zero capacity)" and "ring_contents (make_ring zero capacity) = []"
    and "ring_reserve (make_ring zero capacity) = capacity"
proof -
  obtain k where k: "capacity = 2 ^ k" using assms(1) is_pow2_iff by blast
  obtain j where j: "next_pow2 capacity = 2 ^ j" using next_pow2_eq by blast
  have b: "capacity \<le> next_pow2 capacity" "next_pow2 capacity < 2 * capacity"
    using next_pow2_bounds[of capacity] assms(2) by auto
  then have "(2::nat) ^ k \<le> 2 ^ j" "(2::nat) ^ j < 2 ^ Suc k" using j k by auto
  then have "k \<le> j" "j < Suc k"
    by (meson one_less_numeral_iff power_le_imp_le_exp semiring_norm(76) power_less_imp_less_exp)+
  then have n: "next_pow2 capacity = capacity" using j k by simp
  then show "ring_ok (make_ring zero capacity)"
    using assms by (simp add: ring_ok_def make_ring_def)
  show "ring_contents (make_ring zero capacity) = []" "ring_reserve (make_ring zero capacity) = capacity"
    using n by (simp_all add: ring_contents_def make_ring_def ring_reserve_def ring_size_def)
qed

text \<open>
  A capacity that is not a power of two: the elements past it keep the sequence number 0. Once as
  many messages as the requested capacity have passed through the queue, a post reports a full
  queue though the queue is empty.
\<close>

fun pass_through :: "'v list \<Rightarrow> 'v ring \<Rightarrow> 'v ring option" where
  "pass_through [] q = Some q"
| "pass_through (v # vs) q = (case ring_post v q of
     Some (True, q1) \<Rightarrow> (case ring_fetch q1 of
       Some (Some _, q2) \<Rightarrow> pass_through vs q2 | _ \<Rightarrow> None)
   | _ \<Rightarrow> None)"

definition passed :: "nat \<Rightarrow> nat \<Rightarrow> 'v ring \<Rightarrow> bool" where
  "passed capacity k q \<longleftrightarrow> q_rpos q = k \<and> q_wpos q = k \<and> q_capacity q = next_pow2 capacity
     \<and> q_mask q = next_pow2 capacity - 1 \<and> length (q_elems q) = next_pow2 capacity
     \<and> (\<forall>i\<in>{k..<next_pow2 capacity}. fst (q_elems q ! i) = (if i < capacity then i else 0))"

lemma passed_index: "i < next_pow2 capacity \<Longrightarrow> i AND (next_pow2 capacity - Suc 0) = i"
  using next_pow2_eq[of capacity] and_mask_mod[of i] by auto

lemma passed_step:
  assumes "passed capacity k q" and "k < capacity"
  shows "\<exists>q1 q2. ring_post v q = Some (True, q1) \<and> ring_fetch q1 = Some (Some v, q2)
    \<and> passed capacity (Suc k) q2"
proof -
  have "k < next_pow2 capacity" using assms(2) next_pow2_bounds[of capacity] by simp
  with assms passed_index[of k capacity] show ?thesis
    by (auto simp: passed_def ring_post_def ring_fetch_def Let_def)
qed

lemma pass_through_passed:
  "passed capacity k q \<Longrightarrow> k + length vs \<le> capacity \<Longrightarrow>
     \<exists>q'. pass_through vs q = Some q' \<and> passed capacity (k + length vs) q'"
proof (induction vs arbitrary: k q)
  case (Cons v vs)
  then obtain q1 q2 where "ring_post v q = Some (True, q1)" "ring_fetch q1 = Some (Some v, q2)"
      "passed capacity (Suc k) q2"
    using passed_step[of capacity k q v] by auto
  with Cons.IH[of "Suc k" q2] Cons.prems show ?case by auto
qed auto

lemma make_ring_passed: "passed capacity 0 (make_ring zero capacity)"
  by (simp add: passed_def make_ring_def)

lemma passed_stuck:
  assumes "passed capacity capacity q" and "0 < capacity" "capacity < next_pow2 capacity"
  shows "ring_post v q = Some (False, q)" and "ring_reserve q = next_pow2 capacity"
  using assms passed_index[OF assms(3)]
  by (auto simp: passed_def ring_post_def Let_def ring_reserve_def ring_size_def)

end
