(* ===== verification/Date_Time.thy ===== *)
theory Date_Time
  imports Prelude "HOL-Library.Signed_Division" "HOL-Library.Word"
begin

unbundle bit_operations_syntax

text \<open>
  Calendar arithmetic of \<open>util/Date.hpp\<close>, the market identifier of \<open>fin/MarketId.hpp\<close> and the
  business-day cache of \<open>fin/Date.hpp\<close> and \<open>fin/Date.cpp\<close>.

  The division of C++ truncates towards zero: it is \<open>sdiv\<close> here. The time-zone database of Boost
  is not part of the repository: the local day of a Unix time is the parameter \<open>local_jd\<close>.
\<close>

section \<open>Division\<close>

lemma sdiv_nonneg [simp]: "0 \<le> a \<Longrightarrow> 0 \<le> b \<Longrightarrow> a sdiv b = a div (b::int)"
  by (cases "a = 0 \<or> b = 0") (auto simp: signed_divide_int_def)

lemma smod_nonneg [simp]: "0 \<le> a \<Longrightarrow> 0 \<le> b \<Longrightarrow> a smod b = a mod (b::int)"
  by (cases "a = 0") (auto simp: signed_modulo_int_def)

lemma div_bounds:
  fixes a b q :: int
  assumes "0 < b" and "q = a div b"
  shows "b * q \<le> a" and "a < b * q + b"
proof -
  have "b * q + a mod b = a" using assms(2) by simp
  then show "b * q \<le> a" "a < b * q + b"
    using pos_mod_sign[of b a] pos_mod_bound[of b a] assms(1) by linarith+
qed

lemma one_to_twelve:
  fixes j :: int
  assumes "1 \<le> j" and "j \<le> 12"
  shows "j \<in> {1, 2, 3, 4, 5, 6, 7, 8, 9, 10, 11, 12}"
  using assms by simp presburger

text \<open>The value of an expression of type \<open>int\<close>.\<close>

definition int32 :: "int \<Rightarrow> int" where
  "int32 x = signed_take_bit 31 x"

lemma int32_id: "- (2 ^ 31) \<le> x \<Longrightarrow> x < 2 ^ 31 \<Longrightarrow> int32 x = x"
  by (simp add: int32_def signed_take_bit_int_eq_self)

section \<open>Gregorian dates and Julian days\<close>

definition ymd_to_iso :: "int \<Rightarrow> int \<Rightarrow> int \<Rightarrow> iso_date" where
  "ymd_to_iso year mon mday = year * 10000 + mon * 100 + mday"

definition ymd_to_jd :: "int \<Rightarrow> int \<Rightarrow> int \<Rightarrow> jday" where
  "ymd_to_jd year mon mday =
     (let i = year; j = mon; k = mday
      in k - 32075 + (1461 * (i + 4800 + (j - 14) sdiv 12)) sdiv 4
         + (367 * (j - 2 - (j - 14) sdiv 12 * 12)) sdiv 12
         - (3 * ((i + 4900 + (j - 14) sdiv 12) sdiv 100)) sdiv 4)"

definition iso_to_jd :: "iso_date \<Rightarrow> jday" where
  "iso_to_jd d =
     (let n = d; year = n sdiv 10000; mon = (n sdiv 100) smod 100; mday = n smod 100
      in ymd_to_jd year mon mday)"

definition jd_to_iso :: "jday \<Rightarrow> iso_date" where
  "jd_to_iso jd =
     (let l = jd + 68569;
          n = (4 * l) sdiv 146097;
          l = l - (146097 * n + 3) sdiv 4;
          i = (4000 * (l + 1)) sdiv 1461001;
          l = l - (1461 * i) sdiv 4 + 31;
          j = (80 * l) sdiv 2447;
          k = l - (2447 * j) sdiv 80;
          l = j sdiv 11;
          j = j + 2 - 12 * l;
          i = 100 * (n - 49) + i + l
      in i * 10000 + j * 100 + k)"

definition jd_to_mjd :: "jday \<Rightarrow> int" where "jd_to_mjd jd = jd - 2400000"

definition mjd_to_jd :: "int \<Rightarrow> jday" where "mjd_to_jd mjd = mjd + 2400000"

definition jd_to_tjd :: "jday \<Rightarrow> int" where "jd_to_tjd jd = jd - 2440000"

definition tjd_to_jd :: "int \<Rightarrow> jday" where "tjd_to_jd tjd = tjd + 2440000"

text \<open>Noon of the day, in nanoseconds since the epoch.\<close>

definition jd_to_time :: "jday \<Rightarrow> nanos" where
  "jd_to_time jd =
     (let ms_in_day = 24 * 60 * 60 * 1000
      in ((jd - 2440588) * ms_in_day + ms_in_day div 2) * 1000000)"

definition maybe_jd_to_iso :: "jday \<Rightarrow> iso_date" where
  "maybe_jd_to_iso jd = (if jd \<noteq> 0 then jd_to_iso jd else 0)"

definition maybe_iso_to_jd :: "iso_date \<Rightarrow> jday" where
  "maybe_iso_to_jd d = (if d \<noteq> 0 then iso_to_jd d else 0)"

definition is_week_day :: "jday \<Rightarrow> bool" where
  "is_week_day jd \<longleftrightarrow> jd smod 7 < 5"

definition is_week_end_day :: "jday \<Rightarrow> bool" where
  "is_week_end_day jd \<longleftrightarrow> \<not> is_week_day jd"

section \<open>The parts of a date\<close>

text \<open>
  The intermediate values of \<open>jd_to_iso\<close>: the century \<open>n\<close>, the day \<open>l1\<close> in it, the year \<open>i\<close> of
  the century, the day \<open>l2\<close> in the year from March, the month \<open>j\<close> from March and the day \<open>k\<close>.
\<close>

lemma century_day:
  fixes l :: int
  assumes "0 \<le> l" and n: "n = 4 * l div 146097" and l1: "l1 = l - (146097 * n + 3) div 4"
  shows "0 \<le> n" and "0 \<le> l1" and "l1 \<le> 36524"
proof -
  have "l - l1 = (146097 * n + 3) div 4" by (simp add: l1)
  note t = div_bounds[OF _ this, simplified] and n' = div_bounds[OF _ n, simplified]
  show "0 \<le> n" using n' assms(1) by linarith
  show "0 \<le> l1" using n' t by linarith
  show "l1 \<le> 36524" using n' t by linarith
qed

lemma year_of_century:
  fixes l1 :: int
  assumes "0 \<le> l1" and "l1 \<le> 36524" and i: "i = 4000 * (l1 + 1) div 1461001"
    and l2: "l2 = l1 - 1461 * i div 4 + 31"
  shows "0 \<le> i" and "i \<le> 99" and "31 \<le> l2" and "l2 \<le> 396"
proof -
  have "l1 + 31 - l2 = 1461 * i div 4" by (simp add: l2)
  note t = div_bounds[OF _ this, simplified] and i' = div_bounds[OF _ i, simplified]
  show "0 \<le> i" using i' assms(1) by linarith
  show le: "i \<le> 99" using i' assms(2) by linarith
  show "31 \<le> l2" using t i' assms(1) by linarith
  show "l2 \<le> 396" using t i' le by linarith
qed

lemma month_of_year:
  fixes l2 :: int
  assumes "31 \<le> l2" and "l2 \<le> 396" and j: "j = 80 * l2 div 2447" and k: "k = l2 - 2447 * j div 80"
  shows "1 \<le> j" and "j \<le> 12" and "1 \<le> k" and "k \<le> 31"
proof -
  have "l2 - k = 2447 * j div 80" by (simp add: k)
  note t = div_bounds[OF _ this, simplified] and j' = div_bounds[OF _ j, simplified]
  show ge: "1 \<le> j" using j' assms(1) by linarith
  show le: "j \<le> 12" using j' assms(2) by linarith
  have "(2447 * j) mod 80 \<noteq> 0" using one_to_twelve[OF ge le] by (elim insertE) simp_all
  then have "80 * l2 \<noteq> 2447 * j" by (metis mod_mult_self1_is_0)
  then show "1 \<le> k" using t(1) j'(1) by linarith
  show "k \<le> 31" using t j' by linarith
qed

section \<open>Round trip\<close>

text \<open>Julian days from 1 March of the year 0 on: earlier years are negative numbers.\<close>

definition jd_min :: jday where "jd_min = 1721120"

lemma jd_to_iso_parts:
  fixes jd :: int
  assumes "jd_min \<le> jd" and n: "n = 4 * (jd + 68569) div 146097"
    and l1: "l1 = (jd + 68569) - (146097 * n + 3) div 4"
    and i: "i = 4000 * (l1 + 1) div 1461001" and l2: "l2 = l1 - 1461 * i div 4 + 31"
    and j: "j = 80 * l2 div 2447" and k: "k = l2 - 2447 * j div 80"
  shows "jd_to_iso jd =
      (100 * (n - 49) + i + j div 11) * 10000 + (j + 2 - 12 * (j div 11)) * 100 + k"
proof -
  have l: "0 \<le> jd + 68569" using assms(1) by (simp add: jd_min_def)
  note c = century_day[OF l n l1]
  note y = year_of_century[OF c(2,3) i l2]
  note m = month_of_year[OF y(3,4) j k]
  have "(4 * (jd + 68569)) sdiv 146097 = n" using l n by simp
  moreover have "(jd + 68569) - (146097 * n + 3) sdiv 4 = l1" using c l1 by simp
  moreover have "(4000 * (l1 + 1)) sdiv 1461001 = i" using c i by simp
  moreover have "l1 - (1461 * i) sdiv 4 + 31 = l2" using y l2 by simp
  moreover have "(80 * l2) sdiv 2447 = j" using y j by simp
  moreover have "l2 - (2447 * j) sdiv 80 = k" using m k by simp
  moreover have "j sdiv 11 = j div 11" using m by simp
  ultimately show ?thesis by (simp only: jd_to_iso_def Let_def)
qed

lemma month_days:
  fixes j :: int
  assumes "1 \<le> j" and "j \<le> 12"
  shows "367 * j div 12 = 2447 * j div 80" and "(j + 2 - 12 * (j div 11) - 14) sdiv 12 = - (j div 11)"
    and "1 \<le> j + 2 - 12 * (j div 11)" and "j + 2 - 12 * (j div 11) \<le> 12" and "0 \<le> j div 11"
  using one_to_twelve[OF assms] by (auto simp: signed_divide_int_def)

lemma iso_fields:
  assumes "0 \<le> year" and "1 \<le> mon" "mon \<le> 12" and "1 \<le> mday" "mday \<le> 31"
  shows "iso_to_jd (ymd_to_iso year mon mday) = ymd_to_jd year mon mday"
proof -
  let ?n = "ymd_to_iso year mon mday"
  have "?n div 10000 = year"
    by (rule int_div_pos_eq[where r = "mon * 100 + mday"]) (use assms in \<open>simp_all add: ymd_to_iso_def\<close>)
  moreover have d: "?n div 100 = year * 100 + mon"
    by (rule int_div_pos_eq[where r = mday]) (use assms in \<open>simp_all add: ymd_to_iso_def\<close>)
  have "?n div 100 mod 100 = mon"
    unfolding d by (rule int_mod_pos_eq[where q = year]) (use assms in simp_all)
  moreover have "?n mod 100 = mday"
    by (rule int_mod_pos_eq[where q = "year * 100 + mon"]) (use assms in \<open>simp_all add: ymd_to_iso_def\<close>)
  moreover have "0 \<le> ?n" "0 \<le> ?n div 100" using assms d by (simp_all add: ymd_to_iso_def)
  ultimately show ?thesis by (simp add: iso_to_jd_def Let_def)
qed

lemma ymd_to_jd_march:
  assumes "0 \<le> y" and "1 \<le> j" and "j \<le> 12"
  shows "ymd_to_jd (y - 4800 + j div 11) (j + 2 - 12 * (j div 11)) k =
    k - 32075 + 1461 * y div 4 + 367 * j div 12 - 3 * ((y + 100) div 100) div 4"
  using assms month_days[OF assms(2,3)] by (simp add: ymd_to_jd_def Let_def add.commute[of y])

lemma jd_of_parts:
  fixes l :: int
  assumes "0 \<le> n" and "0 \<le> i" "i \<le> 99" and "l1 = l - (146097 * n + 3) div 4"
    and "l2 = l1 - 1461 * i div 4 + 31" and "k = l2 - d"
  shows "k - 32075 + 1461 * (100 * (n - 1) + i) div 4 + d - 3 * ((100 * (n - 1) + i + 100) div 100) div 4
    = l - 68569"
proof -
  have 1: "(100 * (n - 1) + i + 100) div 100 = n"
    by (rule int_div_pos_eq[where r = i]) (use assms in simp_all)
  have "1461 * (100 * (n - 1) + i) = 1461 * i + (36525 * (n - 1)) * 4" by simp
  then have 2: "1461 * (100 * (n - 1) + i) div 4 = 36525 * (n - 1) + 1461 * i div 4"
    by (simp only: div_mult_self1)
  have "146097 * n + 3 = (3 - 3 * n) + (36525 * n) * 4" by simp
  then have "(146097 * n + 3) div 4 = 36525 * n + (3 - 3 * n) div 4" by (simp only: div_mult_self1)
  moreover have "(3 - 3 * n) div 4 = - (3 * n div 4)" by presburger
  moreover have "k - 32075 + (36525 * (n - 1) + D) + d - C = l - 68569"
    if "A = 36525 * n + B" "B = - C" "l1 = l - A" "l2 = l1 - D + 31" "k = l2 - d" for A B C D
    using that by simp
  ultimately show ?thesis unfolding 1 2 using assms(4-6) by blast
qed

lemma iso_to_jd_inverse:
  assumes jd: "jd_min \<le> jd"
  shows "iso_to_jd (jd_to_iso jd) = jd"
proof -
  define n l1 where n: "n = 4 * (jd + 68569) div 146097" and l1: "l1 = (jd + 68569) - (146097 * n + 3) div 4"
  define i l2 where i: "i = 4000 * (l1 + 1) div 1461001" and l2: "l2 = l1 - 1461 * i div 4 + 31"
  define j k where j: "j = 80 * l2 div 2447" and k: "k = l2 - 2447 * j div 80"
  have l: "0 \<le> jd + 68569" using jd by (simp add: jd_min_def)
  note c = century_day[OF l n l1]
  note y = year_of_century[OF c(2,3) i l2]
  note m = month_of_year[OF y(3,4) j k]
  note md = month_days[OF m(1,2)]
  let ?mon = "j + 2 - 12 * (j div 11)" and ?year = "100 * (n - 49) + i + j div 11"
  have n49: "n \<ge> 49" using div_bounds[OF _ n] jd by (simp add: jd_min_def)
  then have year: "0 \<le> ?year" using y md(5) by simp
  have "jd_to_iso jd = ymd_to_iso ?year ?mon k"
    by (simp only: jd_to_iso_parts[OF jd n l1 i l2 j k] ymd_to_iso_def)
  then have "iso_to_jd (jd_to_iso jd) = ymd_to_jd ?year ?mon k"
    using iso_fields[OF year md(3,4) m(3,4)] by simp
  also have "?year = (100 * (n - 1) + i) - 4800 + j div 11" by simp
  also have "ymd_to_jd \<dots> ?mon k = k - 32075 + 1461 * (100 * (n - 1) + i) div 4 + 367 * j div 12
      - 3 * ((100 * (n - 1) + i + 100) div 100) div 4"
    using n49 y m by (intro ymd_to_jd_march) auto
  also have "\<dots> = (jd + 68569) - 68569"
    using jd_of_parts[OF c(1) y(1,2) l1 l2 k] md(1) by simp
  finally show ?thesis by simp
qed

section \<open>Market identifiers\<close>

text \<open>
  The identifier of an instrument and its settlement day in one integer. The shift and the
  disjunction are computed on 32-bit integers before the result is widened to \<open>Id64\<close>.
\<close>

definition to_market_id :: "id32 \<Rightarrow> jday \<Rightarrow> id64" where
  "to_market_id instr_id settl_day =
     int32 (int32 (push_bit 16 instr_id) OR (int32 (jd_to_tjd settl_day) AND 0xffff))"

definition to_market_id_iso :: "id32 \<Rightarrow> iso_date \<Rightarrow> id64" where
  "to_market_id_iso instr_id settl_date = to_market_id instr_id (maybe_iso_to_jd settl_date)"

lemma and_ffff: "(x::int) AND 0xffff = x mod 65536"
proof -
  have "x AND mask 16 = take_bit 16 x" by (simp add: take_bit_eq_mask)
  then show ?thesis by (simp add: mask_eq_exp_minus_1 take_bit_eq_mod)
qed

lemma to_market_id_eq:
  assumes "0 \<le> i" and "i < 2 ^ 15" and "- (2 ^ 31) \<le> jd_to_tjd d" and "jd_to_tjd d < 2 ^ 31"
  shows "to_market_id i d = i * 65536 + jd_to_tjd d mod 65536"
proof -
  have p: "push_bit 16 i = i * 65536" by (simp add: push_bit_eq_mult)
  then have "int32 (push_bit 16 i) = push_bit 16 i" using assms by (intro int32_id) auto
  moreover have "int32 (jd_to_tjd d) = jd_to_tjd d" using assms by (intro int32_id) auto
  moreover have "push_bit 16 i OR take_bit 16 (jd_to_tjd d) = i * 65536 + jd_to_tjd d mod 65536"
    using concat_bit_eq[of 16 "jd_to_tjd d" i] p
    by (simp add: concat_bit_def or.commute take_bit_eq_mod)
  moreover have "int32 (i * 65536 + jd_to_tjd d mod 65536) = i * 65536 + jd_to_tjd d mod 65536"
  proof (rule int32_id)
    have r: "0 \<le> jd_to_tjd d mod 65536" "jd_to_tjd d mod 65536 < 65536" by simp_all
    have "i \<le> 32767" using assms(2) by simp
    with r assms(1) have "0 \<le> i * 65536 + jd_to_tjd d mod 65536"
      "i * 65536 + jd_to_tjd d mod 65536 < 2147483648" by linarith+
    then show "- (2 ^ 31) \<le> i * 65536 + jd_to_tjd d mod 65536"
      "i * 65536 + jd_to_tjd d mod 65536 < 2 ^ 31" by simp_all
  qed
  ultimately show ?thesis
    by (simp add: to_market_id_def and_ffff take_bit_eq_mod)
qed

section \<open>Business days\<close>

text \<open>\<open>duration_cast<seconds>\<close> of the time since the epoch.\<close>

definition to_time_t :: "nanos \<Rightarrow> int" where
  "to_time_t t = t sdiv 1000000000"

text \<open>One cache entry for even and one for odd times, both zero-initialised.\<close>

record bus_day_cache =
  c_even :: "int \<times> jday"
  c_odd :: "int \<times> jday"

definition empty_cache :: bus_day_cache where
  "empty_cache = \<lparr>c_even = (0, 0), c_odd = (0, 0)\<rparr>"

definition cache_get :: "int \<Rightarrow> bus_day_cache \<Rightarrow> int \<times> jday" where
  "cache_get i c = (if i = 0 then c_even c else c_odd c)"

definition cache_put :: "int \<Rightarrow> int \<times> jday \<Rightarrow> bus_day_cache \<Rightarrow> bus_day_cache" where
  "cache_put i e c = (if i = 0 then c\<lparr>c_even := e\<rparr> else c\<lparr>c_odd := e\<rparr>)"

definition bus_day :: "(int \<Rightarrow> jday) \<Rightarrow> nanos \<Rightarrow> bus_day_cache \<Rightarrow> jday \<times> bus_day_cache" where
  "bus_day local_jd now c =
     (let t = to_time_t now; i = t AND 1
      in if fst (cache_get i c) = t then (snd (cache_get i c), c)
         else let jd = local_jd t in (jd, cache_put i (t, jd) c))"

text \<open>What the cache holds: computed days, or the zeros it was initialised with.\<close>

definition cache_ok :: "(int \<Rightarrow> jday) \<Rightarrow> bus_day_cache \<Rightarrow> bool" where
  "cache_ok local_jd c \<longleftrightarrow>
     (c_even c = (0, 0) \<or> snd (c_even c) = local_jd (fst (c_even c))) \<and>
     (c_odd c = (0, 0) \<or> snd (c_odd c) = local_jd (fst (c_odd c)))"

lemma cache_ok_empty: "cache_ok local_jd empty_cache"
  by (simp add: cache_ok_def empty_cache_def)

lemma bus_day_ok:
  assumes "cache_ok local_jd c"
  shows "cache_ok local_jd (snd (bus_day local_jd now c))"
    and "to_time_t now \<noteq> 0 \<Longrightarrow> fst (bus_day local_jd now c) = local_jd (to_time_t now)"
  using assms by (auto simp: bus_day_def Let_def cache_ok_def cache_get_def cache_put_def)

end
