(* ===== verification/Msg_Queue.thy ===== *)
theory Msg_Queue
  imports Order_Exec Mem_Queue Date_Time
begin

text \<open>
  The messages of the journal (\<open>fin/Msg.hpp\<close>) and \<open>MsgQueue\<close> (\<open>fin/MsgQueue.hpp\<close>,
  \<open>fin/MsgQueue.cpp\<close>), the writer of the \<open>MemQueue\<close>. The fixed-size character arrays of a message
  hold the strings of the execution padded with zeros; the model keeps the strings.

  A group of messages is sent whole or not at all: the queue is asked for its reserve first. This
  is proved over the contract \<open>bounded_queue\<close>, whose interpretation for the array gives it here.
\<close>

section \<open>Messages\<close>

definition ms_since_epoch :: "nanos \<Rightarrow> int" where
  "ms_since_epoch t = t sdiv 1000000"

text \<open>\<open>MaxIds\<close>: what fits into the bytes of \<open>CreateExec\<close>.\<close>

definition max_ids :: nat where
  "max_ids = (248 - 8 - 8) div 8"

datatype msg =
    MsgCreateMarket id64 symbol jday mkt_state
  | MsgUpdateMarket id64 mkt_state
  | MsgCreateExec exec int
  | MsgArchiveTrade id64 "id64 list" int

definition archive_msg :: "id64 \<Rightarrow> id64 list \<Rightarrow> nanos \<Rightarrow> msg" where
  "archive_msg market_id ids modified =
     MsgArchiveTrade market_id (ids @ replicate (max_ids - length ids) 0) (ms_since_epoch modified)"

definition exec_msg :: "exec \<Rightarrow> msg" where
  "exec_msg ex = MsgCreateExec ex (ms_since_epoch (r_created ex))"

section \<open>The queue\<close>

type_synonym msg_queue = "msg ring"

definition mq_create_market ::
    "id64 \<Rightarrow> symbol \<Rightarrow> jday \<Rightarrow> mkt_state \<Rightarrow> msg_queue \<Rightarrow> (err, msg_queue, unit) outcome" where
  "mq_create_market mid instr settl_day state =
     send ring_post (MsgCreateMarket mid instr settl_day state)"

definition mq_update_market :: "id64 \<Rightarrow> mkt_state \<Rightarrow> msg_queue \<Rightarrow> (err, msg_queue, unit) outcome" where
  "mq_update_market mid state = send ring_post (MsgUpdateMarket mid state)"

definition mq_create_exec :: "exec \<Rightarrow> msg_queue \<Rightarrow> (err, msg_queue, unit) outcome" where
  "mq_create_exec ex = send ring_post (exec_msg ex)"

text \<open>The overload for several executions.\<close>

fun mq_create_exec_loop :: "exec list \<Rightarrow> msg_queue \<Rightarrow> (err, msg_queue, unit) outcome" where
  "mq_create_exec_loop [] q = Done () q"
| "mq_create_exec_loop (ex # exs) q = obind (mq_create_exec ex q) (\<lambda>_ q. mq_create_exec_loop exs q)"

definition mq_create_execs :: "exec list \<Rightarrow> msg_queue \<Rightarrow> (err, msg_queue, unit) outcome" where
  "mq_create_execs exs q =
     (if ring_reserve q < length exs then Throw QueueFull q else mq_create_exec_loop exs q)"

text \<open>\<open>detail::Range<MaxIds>\<close>: a walk over a size in steps.\<close>

record id_range =
  rg_size :: nat
  rg_offset :: nat

definition make_range :: "nat \<Rightarrow> id_range" where
  "make_range sz = \<lparr>rg_size = sz, rg_offset = 0\<rparr>"

definition step_size :: "id_range \<Rightarrow> nat" where
  "step_size r = min (rg_size r - rg_offset r) max_ids"

definition steps :: "id_range \<Rightarrow> nat" where
  "steps r = (rg_size r + max_ids - 1) div max_ids"

definition range_done :: "id_range \<Rightarrow> bool" where
  "range_done r \<longleftrightarrow> rg_offset r \<ge> rg_size r"

definition range_next :: "id_range \<Rightarrow> id_range" where
  "range_next r = r\<lparr>rg_offset := rg_offset r + max_ids\<rparr>"

definition mq_do_archive_trade ::
    "id64 \<Rightarrow> id64 list \<Rightarrow> nanos \<Rightarrow> msg_queue \<Rightarrow> (err, msg_queue, unit) outcome" where
  "mq_do_archive_trade market_id ids modified = send ring_post (archive_msg market_id ids modified)"

lemma max_ids_pos [simp]: "0 < max_ids"
  by (simp add: max_ids_def)

function mq_archive_loop ::
    "id64 \<Rightarrow> id64 list \<Rightarrow> nanos \<Rightarrow> id_range \<Rightarrow> msg_queue \<Rightarrow> (err, msg_queue, unit) outcome" where
  "mq_archive_loop market_id ids modified r q =
     obind (mq_do_archive_trade market_id (take (step_size r) (drop (rg_offset r) ids)) modified q)
       (\<lambda>_ q. let r = range_next r
              in if range_done r then Done () q else mq_archive_loop market_id ids modified r q)"
  by pat_completeness auto

termination
  by (relation "measure (\<lambda>(_, _, _, r, _). rg_size r - rg_offset r)")
    (auto simp: range_done_def range_next_def intro!: diff_less_mono2)

declare mq_archive_loop.simps [simp del]

definition mq_archive_trades ::
    "id64 \<Rightarrow> id64 list \<Rightarrow> nanos \<Rightarrow> msg_queue \<Rightarrow> (err, msg_queue, unit) outcome" where
  "mq_archive_trades market_id ids modified q =
     (let r = make_range (length ids)
      in if ring_reserve q < steps r then Throw QueueFull q
         else mq_archive_loop market_id ids modified r q)"

definition mq_archive_trade :: "id64 \<Rightarrow> id64 \<Rightarrow> nanos \<Rightarrow> msg_queue \<Rightarrow> (err, msg_queue, unit) outcome" where
  "mq_archive_trade market_id tid modified = mq_do_archive_trade market_id [tid] modified"

section \<open>All or nothing\<close>

lemma mq_create_exec_loop_eq: "mq_create_exec_loop exs q = send_all ring_post (map exec_msg exs) q"
  by (induction exs arbitrary: q) (auto simp: mq_create_exec_def intro!: arg_cong[of _ _ "obind _"])

lemma mq_create_execs_ok:
  assumes "ring_ok q" and "length exs \<le> ring_reserve q"
  shows "\<exists>q'. mq_create_execs exs q = Done () q' \<and> ring_ok q'
    \<and> ring_contents q' = ring_contents q @ map exec_msg exs
    \<and> ring_reserve q' = ring_reserve q - length exs"
  using rq.send_all_room[OF assms(1), of "map exec_msg exs"] assms(2)
  by (simp add: mq_create_execs_def mq_create_exec_loop_eq)

lemma mq_create_execs_full: "ring_reserve q < length exs \<Longrightarrow> mq_create_execs exs q = Throw QueueFull q"
  by (simp add: mq_create_execs_def)

lemma mq_create_exec_ok:
  "ring_ok q \<Longrightarrow> 0 < ring_reserve q \<Longrightarrow> \<exists>q'. mq_create_exec ex q = Done () q' \<and> ring_ok q'
     \<and> ring_contents q' = ring_contents q @ [exec_msg ex] \<and> ring_reserve q' = ring_reserve q - 1"
  unfolding mq_create_exec_def by (rule rq.send_room)

lemma mq_create_exec_full: "ring_ok q \<Longrightarrow> ring_reserve q = 0 \<Longrightarrow> mq_create_exec ex q = Throw QueueFull q"
  unfolding mq_create_exec_def by (rule rq.send_full)

text \<open>With a queue that is intact no call is without a result.\<close>

lemma mq_create_exec_cases:
  assumes "ring_ok q"
  shows "mq_create_exec ex q = Throw QueueFull q \<or> (\<exists>q'. mq_create_exec ex q = Done () q' \<and> ring_ok q')"
  using mq_create_exec_ok[OF assms] mq_create_exec_full[OF assms] by blast

lemma mq_create_execs_cases:
  assumes "ring_ok q"
  shows "mq_create_execs exs q = Throw QueueFull q \<or> (\<exists>q'. mq_create_execs exs q = Done () q' \<and> ring_ok q')"
  using mq_create_execs_ok[OF assms] mq_create_execs_full[of q exs] by (meson not_le_imp_less)

text \<open>The chunks that an archive request is sent in.\<close>

function chunks :: "id64 list \<Rightarrow> id64 list list" where
  "chunks ids = take max_ids ids # (if length ids \<le> max_ids then [] else chunks (drop max_ids ids))"
  by pat_completeness auto

termination
  by (relation "measure length") (auto intro: diff_less)

declare chunks.simps [simp del]

lemma concat_chunks: "concat (chunks ids) = ids"
proof (induction ids rule: chunks.induct)
  case (1 ids)
  then show ?case by (subst chunks.simps) auto
qed

lemma length_chunks: "length (chunks ids) = max 1 ((length ids + max_ids - 1) div max_ids)"
proof (induction ids rule: chunks.induct)
  case (1 ids)
  show ?case
  proof (cases "length ids \<le> max_ids")
    case True
    then have "(length ids + max_ids - 1) div max_ids \<le> 1"
      by (simp add: max_ids_def)
    with True show ?thesis by (subst chunks.simps) (simp add: max_def)
  next
    case False
    then have "(length ids + max_ids - 1) div max_ids = Suc ((length ids - 1) div max_ids)"
      using div_add_self2[of max_ids "length ids - 1"] by (cases "length ids") (simp_all add: add.commute)
    moreover have "(length ids - max_ids + max_ids - 1) div max_ids = (length ids - 1) div max_ids"
      using False by simp
    moreover have "1 \<le> (length ids - 1) div max_ids"
      using False by (simp add: div_greater_zero_iff Suc_le_eq)
    ultimately show ?thesis using False 1 by (subst chunks.simps) (simp add: max_def)
  qed
qed

lemma mq_archive_loop_eq:
  "rg_size r = length ids \<Longrightarrow> mq_archive_loop market_id ids modified r q =
     send_all ring_post (map (\<lambda>c. archive_msg market_id c modified) (chunks (drop (rg_offset r) ids))) q"
proof (induction market_id ids modified r q rule: mq_archive_loop.induct)
  case (1 market_id ids modified r q)
  have "range_done (range_next r) \<longleftrightarrow> length (drop (rg_offset r) ids) \<le> max_ids"
    using 1(2) by (auto simp: range_done_def range_next_def)
  moreover have "take (step_size r) (drop (rg_offset r) ids) = take max_ids (drop (rg_offset r) ids)"
    using 1(2) by (simp add: step_size_def min_def)
  moreover have "drop (rg_offset (range_next r)) ids = drop max_ids (drop (rg_offset r) ids)"
    by (simp add: range_next_def add.commute)
  moreover have "rg_size (range_next r) = length ids" using 1(2) by (simp add: range_next_def)
  ultimately show ?case
    by (subst mq_archive_loop.simps, subst chunks.simps)
      (auto simp: mq_do_archive_trade_def Let_def 1(1) intro!: arg_cong[of _ _ "obind _"] ext)
qed

lemma mq_archive_trades_ok:
  assumes "ring_ok q" and "max 1 ((length ids + max_ids - 1) div max_ids) \<le> ring_reserve q"
  shows "\<exists>q'. mq_archive_trades market_id ids modified q = Done () q' \<and> ring_ok q'
    \<and> ring_contents q' = ring_contents q @ map (\<lambda>c. archive_msg market_id c modified) (chunks ids)"
  using rq.send_all_room[OF assms(1), of "map (\<lambda>c. archive_msg market_id c modified) (chunks ids)"]
    assms(2)
  by (auto simp: mq_archive_trades_def mq_archive_loop_eq make_range_def steps_def Let_def
      length_chunks)

text \<open>An empty list of identifiers is one message with no identifier: it needs one slot as well.\<close>

lemma mq_archive_trades_full:
  assumes "ring_ok q" and "ring_reserve q < max 1 ((length ids + max_ids - 1) div max_ids)"
  shows "mq_archive_trades market_id ids modified q = Throw QueueFull q"
proof (cases "ring_reserve q < (length ids + max_ids - 1) div max_ids")
  case False
  with assms(2) have r: "ring_reserve q = 0" "(length ids + max_ids - 1) div max_ids = 0" by auto
  obtain c cs where "chunks ids = c # cs" by (metis chunks.elims)
  with r show ?thesis
    using rq.send_full[OF assms(1) r(1)]
    by (simp add: mq_archive_trades_def mq_archive_loop_eq make_range_def steps_def Let_def)
qed (simp add: mq_archive_trades_def steps_def make_range_def)

lemma mq_archive_trades_cases:
  assumes "ring_ok q"
  shows "mq_archive_trades market_id ids modified q = Throw QueueFull q \<or>
    (\<exists>q'. mq_archive_trades market_id ids modified q = Done () q' \<and> ring_ok q')"
  using mq_archive_trades_ok[OF assms, of ids market_id modified]
    mq_archive_trades_full[OF assms, of ids market_id modified] by (meson not_le_imp_less)

lemma send_cases:
  assumes "ring_ok q"
  shows "send ring_post v q = Throw QueueFull q \<or> (\<exists>q'. send ring_post v q = Done () q' \<and> ring_ok q')"
  using rq.send_room[OF assms, of v] rq.send_full[OF assms, of v] by blast

end
