(* ===== verification/App_State.thy ===== *)
theory App_State
  imports Sess Msg_Queue
begin

text \<open>
  The state of the matching engine, \<open>App::Impl\<close> of \<open>lob/App.cpp\<close>: the reference data, the markets,
  the sessions, the journal's queue and the business-day cache. Markets and sessions are values in
  sets ordered by identifier and account; the code passes references to them, the model their
  keys. Orders, executions and positions are in heaps, with the next free address of each.

  The theory has the access functions, and the invariant of the whole state.
\<close>

section \<open>Reference data\<close>

text \<open>\<open>Asset\<close> and \<open>Instr\<close>, without the members that cache a floating-point conversion.\<close>

record asset =
  as_id :: id32
  as_symbol :: symbol
  as_display :: string
  as_type :: nat

record instr =
  i_id :: id32
  i_symbol :: symbol
  i_display :: string
  i_base_asset :: symbol
  i_term_ccy :: symbol
  i_lot_numer :: int
  i_lot_denom :: int
  i_tick_numer :: int
  i_tick_denom :: int
  i_pip_dp :: int
  i_min_lots :: lots
  i_max_lots :: lots

section \<open>The state\<close>

record app =
  a_orders :: oheap
  a_next_order :: optr
  a_execs :: eheap
  a_next_exec :: eptr
  a_posns :: pheap
  a_next_posn :: pptr
  a_mq :: msg_queue
  a_bus_day :: bus_day_cache
  a_max_execs :: nat
  a_assets :: "asset list"
  a_instrs :: "instr list"
  a_markets :: "market list"
  a_sesss :: "sess list"

text \<open>The constructor. What an unused address holds is arbitrary: the arguments \<open>o0\<close>, \<open>e0\<close>, \<open>p0\<close>.\<close>

definition make_app :: "order \<Rightarrow> exec \<Rightarrow> posn \<Rightarrow> msg_queue \<Rightarrow> nat \<Rightarrow> app" where
  "make_app o0 e0 p0 mq max_execs =
     \<lparr>a_orders = (\<lambda>_. o0), a_next_order = 0, a_execs = (\<lambda>_. e0), a_next_exec = 0,
      a_posns = (\<lambda>_. p0), a_next_posn = 0, a_mq = mq, a_bus_day = empty_cache,
      a_max_execs = max_execs, a_assets = [], a_instrs = [], a_markets = [], a_sesss = []\<rparr>"

type_synonym 'a app_result = "(err, app, 'a) outcome"
type_synonym 'a resp_result = "(err, app \<times> response, 'a) outcome"

subsection \<open>Markets and sessions\<close>

definition get_market :: "app \<Rightarrow> id64 \<Rightarrow> market option" where
  "get_market st mid = set_find m_id mid (a_markets st)"

definition put_market :: "market \<Rightarrow> app \<Rightarrow> app" where
  "put_market m st = st\<lparr>a_markets := set_modify m_id (m_id m) (\<lambda>_. m) (a_markets st)\<rparr>"

definition get_sess :: "app \<Rightarrow> symbol \<Rightarrow> sess option" where
  "get_sess st accnt = set_find s_accnt accnt (a_sesss st)"

definition put_sess :: "sess \<Rightarrow> app \<Rightarrow> app" where
  "put_sess s st = st\<lparr>a_sesss := set_modify s_accnt (s_accnt s) (\<lambda>_. s) (a_sesss st)\<rparr>"

text \<open>\<open>App::Impl::sess\<close>: the session of an account, made on its first use.\<close>

definition app_sess :: "symbol \<Rightarrow> app \<Rightarrow> sess \<times> app" where
  "app_sess accnt st =
     (let (it, found) = find_hint s_accnt accnt (a_sesss st)
      in if \<not> found
         then let s = make_sess accnt (a_max_execs st)
              in (s, st\<lparr>a_sesss := set_insert s_accnt s (a_sesss st)\<rparr>)
         else (hd it, st))"

text \<open>\<open>App::Impl::market\<close> and \<open>App::Impl::instr\<close>.\<close>

definition app_market :: "id64 \<Rightarrow> app \<Rightarrow> market app_result" where
  "app_market mid st = (case get_market st mid of Some m \<Rightarrow> Done m st | None \<Rightarrow> Throw MarketNotFound st)"

definition app_instr :: "symbol \<Rightarrow> app \<Rightarrow> instr app_result" where
  "app_instr name st = (case set_find i_symbol name (a_instrs st) of
     Some i \<Rightarrow> Done i st | None \<Rightarrow> Throw MarketNotFound st)"

subsection \<open>Heaps\<close>

definition put_order :: "optr \<Rightarrow> order \<Rightarrow> app \<Rightarrow> app" where
  "put_order p ord st = st\<lparr>a_orders := (a_orders st)(p := ord)\<rparr>"

definition put_exec :: "eptr \<Rightarrow> exec \<Rightarrow> app \<Rightarrow> app" where
  "put_exec e ex st = st\<lparr>a_execs := (a_execs st)(e := ex)\<rparr>"

definition put_posn :: "pptr \<Rightarrow> posn \<Rightarrow> app \<Rightarrow> app" where
  "put_posn q po st = st\<lparr>a_posns := (a_posns st)(q := po)\<rparr>"

definition alloc_order :: "order \<Rightarrow> app \<Rightarrow> optr \<times> app" where
  "alloc_order ord st = (a_next_order st,
     st\<lparr>a_orders := (a_orders st)(a_next_order st := ord), a_next_order := a_next_order st + 1\<rparr>)"

definition alloc_exec :: "exec \<Rightarrow> app \<Rightarrow> eptr \<times> app" where
  "alloc_exec ex st = (a_next_exec st,
     st\<lparr>a_execs := (a_execs st)(a_next_exec st := ex), a_next_exec := a_next_exec st + 1\<rparr>)"

text \<open>\<open>Sess::posn\<close> on the state.\<close>

definition app_posn :: "sess \<Rightarrow> market \<Rightarrow> app \<Rightarrow> pptr \<times> app" where
  "app_posn s m st =
     (let (q, h, n, s) = sess_posn (m_id m) (m_instr m) (m_settl_day m) (a_posns st, a_next_posn st, s)
      in (q, put_sess s (st\<lparr>a_posns := h, a_next_posn := n\<rparr>)))"

text \<open>An operation of a market on the state's orders.\<close>

definition on_market :: "(oheap \<times> market \<Rightarrow> oheap \<times> market) \<Rightarrow> market \<Rightarrow> app \<Rightarrow> app" where
  "on_market f m st = (let (h, m) = f (a_orders st, m) in put_market m (st\<lparr>a_orders := h\<rparr>))"

text \<open>A call of the journal's queue.\<close>

definition on_mq :: "(msg_queue \<Rightarrow> (err, msg_queue, unit) outcome) \<Rightarrow> app \<Rightarrow> unit app_result" where
  "on_mq f st = (case f (a_mq st) of
     Done u q \<Rightarrow> Done u (st\<lparr>a_mq := q\<rparr>) | Throw e q \<Rightarrow> Throw e (st\<lparr>a_mq := q\<rparr>) | Undef \<Rightarrow> Undef)"

section \<open>Access lemmas\<close>

lemma get_market_id: "set_ok m_id (a_markets st) \<Longrightarrow> get_market st mid = Some m \<Longrightarrow> m_id m = mid"
  by (simp add: get_market_def set_find_Some_iff)

lemma get_sess_accnt: "set_ok s_accnt (a_sesss st) \<Longrightarrow> get_sess st a = Some s \<Longrightarrow> s_accnt s = a"
  by (simp add: get_sess_def set_find_Some_iff)

lemma get_market_put_market:
  "set_ok m_id (a_markets st) \<Longrightarrow> get_market (put_market m st) mid =
     (if mid = m_id m \<and> get_market st mid \<noteq> None then Some m else get_market st mid)"
  by (auto simp: get_market_def put_market_def set_find_modify)

lemma get_sess_put_sess:
  "set_ok s_accnt (a_sesss st) \<Longrightarrow> get_sess (put_sess s st) a =
     (if a = s_accnt s \<and> get_sess st a \<noteq> None then Some s else get_sess st a)"
  by (auto simp: get_sess_def put_sess_def set_find_modify)

lemma set_ok_put_market [simp]: "set_ok m_id (a_markets st) \<Longrightarrow> set_ok m_id (a_markets (put_market m st))"
  by (simp add: put_market_def set_ok_modify)

lemma set_ok_put_sess [simp]: "set_ok s_accnt (a_sesss st) \<Longrightarrow> set_ok s_accnt (a_sesss (put_sess s st))"
  by (simp add: put_sess_def set_ok_modify)

lemma app_sess_eq:
  "app_sess a st = (case get_sess st a of
     Some s \<Rightarrow> (s, st)
   | None \<Rightarrow> (make_sess a (a_max_execs st),
       st\<lparr>a_sesss := set_insert s_accnt (make_sess a (a_max_execs st)) (a_sesss st)\<rparr>))"
  by (auto simp: app_sess_def get_sess_def set_find_def find_hint_def Let_def split: list.split)

text \<open>What each access leaves alone.\<close>

lemma put_market_frame [simp]:
  "a_orders (put_market m st) = a_orders st" "a_next_order (put_market m st) = a_next_order st"
  "a_execs (put_market m st) = a_execs st" "a_next_exec (put_market m st) = a_next_exec st"
  "a_posns (put_market m st) = a_posns st" "a_next_posn (put_market m st) = a_next_posn st"
  "a_mq (put_market m st) = a_mq st" "a_bus_day (put_market m st) = a_bus_day st"
  "a_max_execs (put_market m st) = a_max_execs st" "a_assets (put_market m st) = a_assets st"
  "a_instrs (put_market m st) = a_instrs st" "a_sesss (put_market m st) = a_sesss st"
  "get_sess (put_market m st) a = get_sess st a"
  by (simp_all add: put_market_def get_sess_def)

lemma put_sess_frame [simp]:
  "a_orders (put_sess s st) = a_orders st" "a_next_order (put_sess s st) = a_next_order st"
  "a_execs (put_sess s st) = a_execs st" "a_next_exec (put_sess s st) = a_next_exec st"
  "a_posns (put_sess s st) = a_posns st" "a_next_posn (put_sess s st) = a_next_posn st"
  "a_mq (put_sess s st) = a_mq st" "a_bus_day (put_sess s st) = a_bus_day st"
  "a_max_execs (put_sess s st) = a_max_execs st" "a_assets (put_sess s st) = a_assets st"
  "a_instrs (put_sess s st) = a_instrs st" "a_markets (put_sess s st) = a_markets st"
  "get_market (put_sess s st) mid = get_market st mid"
  by (simp_all add: put_sess_def get_market_def)

text \<open>The lookups only depend on the member they look in.\<close>

lemma get_market_cong: "a_markets st' = a_markets st \<Longrightarrow> get_market st' mid = get_market st mid"
  by (simp add: get_market_def)

lemma get_sess_cong: "a_sesss st' = a_sesss st \<Longrightarrow> get_sess st' a = get_sess st a"
  by (simp add: get_sess_def)

lemma get_update [simp]:
  "get_market (st\<lparr>a_orders := h\<rparr>) mid = get_market st mid"
  "get_market (st\<lparr>a_next_order := n\<rparr>) mid = get_market st mid"
  "get_market (st\<lparr>a_execs := eh\<rparr>) mid = get_market st mid"
  "get_market (st\<lparr>a_next_exec := n\<rparr>) mid = get_market st mid"
  "get_market (st\<lparr>a_posns := ph\<rparr>) mid = get_market st mid"
  "get_market (st\<lparr>a_next_posn := n\<rparr>) mid = get_market st mid"
  "get_market (st\<lparr>a_mq := q\<rparr>) mid = get_market st mid"
  "get_market (st\<lparr>a_bus_day := c\<rparr>) mid = get_market st mid"
  "get_market (st\<lparr>a_sesss := ss\<rparr>) mid = get_market st mid"
  "get_sess (st\<lparr>a_orders := h\<rparr>) a = get_sess st a"
  "get_sess (st\<lparr>a_next_order := n\<rparr>) a = get_sess st a"
  "get_sess (st\<lparr>a_execs := eh\<rparr>) a = get_sess st a"
  "get_sess (st\<lparr>a_next_exec := n\<rparr>) a = get_sess st a"
  "get_sess (st\<lparr>a_posns := ph\<rparr>) a = get_sess st a"
  "get_sess (st\<lparr>a_next_posn := n\<rparr>) a = get_sess st a"
  "get_sess (st\<lparr>a_mq := q\<rparr>) a = get_sess st a"
  "get_sess (st\<lparr>a_bus_day := c\<rparr>) a = get_sess st a"
  "get_sess (st\<lparr>a_markets := ms\<rparr>) a = get_sess st a"
  by (simp_all add: get_market_def get_sess_def)

end
