(* ===== verification/App_Ops.thy ===== *)
theory App_Ops
  imports App_State
begin

text \<open>
  The operations of the matching engine, \<open>App::Impl\<close> of \<open>lob/App.cpp\<close>, in the order of the source.
  An operation that has a \<open>Response\<close> argument works on the pair of the state and the response.
  A session, market or order that the caller passes by reference is its account, identifier or
  address; without a session or market behind it there is no such reference, and the result is
  \<open>Undef\<close>. The vectors \<open>matches_\<close> and \<open>execs_\<close>, which the code clears when \<open>create_order\<close> returns,
  are local values.
\<close>

section \<open>Markets\<close>

definition app_create_market ::
    "(int \<Rightarrow> jday) \<Rightarrow> instr \<Rightarrow> jday \<Rightarrow> mkt_state \<Rightarrow> nanos \<Rightarrow> app \<Rightarrow> id64 app_result" where
  "app_create_market local_jd i settl_day state now st =
     (let (early, st) =
            (if settl_day \<noteq> 0
             then (let (bus_day, c) = bus_day local_jd now (a_bus_day st)
                   in (settl_day < bus_day, st\<lparr>a_bus_day := c\<rparr>))
             else (False, st))
      in if early then Throw Invalid st
         else
           let mid = to_market_id (i_id i) settl_day
           in if snd (find_hint m_id mid (a_markets st)) then Throw AlreadyExists st
              else obind (on_mq (mq_create_market mid (i_symbol i) settl_day state) st) (\<lambda>_ st.
                let m = make_market mid (i_symbol i) settl_day state
                in Done mid (st\<lparr>a_markets := set_insert m_id m (a_markets st)\<rparr>)))"

definition app_update_market :: "id64 \<Rightarrow> mkt_state \<Rightarrow> app \<Rightarrow> unit app_result" where
  "app_update_market mid state st = (case get_market st mid of
     None \<Rightarrow> Undef
   | Some m \<Rightarrow> obind (on_mq (mq_update_market (m_id m) state) st) (\<lambda>_ st.
       Done () (put_market (set_state state m) st)))"

section \<open>Matching\<close>

text \<open>\<open>Match\<close> of \<open>lob/Match.hxx\<close>.\<close>

record match =
  mt_lots :: lots
  mt_maker_order :: optr
  mt_maker_trade :: eptr
  mt_maker_posn :: pptr
  mt_taker_trade :: eptr

definition spread :: "order \<Rightarrow> order \<Rightarrow> direct \<Rightarrow> ticks" where
  "spread taker_order maker_order direct =
     (if direct = Paid then o_ticks maker_order - o_ticks taker_order
      else o_ticks taker_order - o_ticks maker_order)"

definition new_match ::
    "id64 \<Rightarrow> optr \<Rightarrow> optr \<Rightarrow> lots \<Rightarrow> lots \<Rightarrow> cost \<Rightarrow> nanos \<Rightarrow> app \<Rightarrow> (match \<times> app) option" where
  "new_match mid taker maker lots sum_lots sum_cost created st =
     (let taker_order = a_orders st taker; maker_order = a_orders st maker
      in case get_market st mid of None \<Rightarrow> None | Some m \<Rightarrow>
        let (maker_id, m) = alloc_id m;
            (taker_id, m) = alloc_id m;
            st = put_market m st
        in case get_sess st (r_accnt maker_order) of None \<Rightarrow> None | Some maker_sess \<Rightarrow>
          let (maker_posn, st) = app_posn maker_sess m st;
              ticks = o_ticks maker_order;
              (maker_trade, st) = alloc_exec
                 (exec_fill lots ticks taker_id Maker (r_accnt taker_order)
                    (new_exec maker_order maker_id created)) st;
              (taker_trade, st) = alloc_exec
                 (exec_trade sum_lots sum_cost lots ticks maker_id Taker (r_accnt maker_order)
                    (new_exec taker_order taker_id created)) st
          in Some (\<lparr>mt_lots = lots, mt_maker_order = maker, mt_maker_trade = maker_trade,
                mt_maker_posn = maker_posn, mt_taker_trade = taker_trade\<rparr>, st))"

text \<open>The variables of the matching loop, and the vectors it fills.\<close>

record matching =
  x_sum_lots :: lots
  x_sum_cost :: cost
  x_last_lots :: lots
  x_last_ticks :: ticks
  x_matches :: "match list"
  x_execs :: "eptr list"

text \<open>The loop of \<open>match_orders\<close> over the orders of the opposite side.\<close>

fun match_loop ::
    "symbol \<Rightarrow> id64 \<Rightarrow> optr \<Rightarrow> direct \<Rightarrow> nanos \<Rightarrow> optr list \<Rightarrow> matching \<Rightarrow> app \<times> response
      \<Rightarrow> matching resp_result" where
  "match_loop accnt mid taker direct now [] x (st, resp) = Done x (st, resp)"
| "match_loop accnt mid taker direct now (maker # makers) x (st, resp) =
     (let taker_order = a_orders st taker; maker_order = a_orders st maker
      in if x_sum_lots x = o_resd_lots taker_order then Done x (st, resp)
         else if spread taker_order maker_order direct > 0 then Done x (st, resp)
         else
           let lots = min (o_resd_lots taker_order - x_sum_lots x) (o_resd_lots maker_order);
               ticks = o_ticks maker_order;
               x = x\<lparr>x_sum_lots := x_sum_lots x + lots, x_sum_cost := x_sum_cost x + cost lots ticks,
                     x_last_lots := lots, x_last_ticks := ticks\<rparr>
           in case new_match mid taker maker lots (x_sum_lots x) (x_sum_cost x) now st of
                None \<Rightarrow> Undef
              | Some (mt, st) \<Rightarrow>
                  let resp = (if r_accnt maker_order = accnt
                              then resp_insert_exec (mt_maker_trade mt) (resp_insert_order maker resp)
                              else resp);
                      resp = resp_insert_exec (mt_taker_trade mt) resp;
                      x = x\<lparr>x_execs := x_execs x @ [mt_maker_trade mt, mt_taker_trade mt],
                            x_matches := x_matches x @ [mt]\<rparr>
                  in match_loop accnt mid taker direct now makers x (st, resp))"

definition match_side :: "order \<Rightarrow> market \<Rightarrow> market_side \<times> direct" where
  "match_side taker_order m =
     (if r_side taker_order = Buy then (m_offer_side m, Paid) else (m_bid_side m, Given))"

text \<open>Both overloads of \<open>match_orders\<close>; \<open>exec\<close> is what \<open>execs_\<close> holds on entry.\<close>

definition match_orders ::
    "symbol \<Rightarrow> id64 \<Rightarrow> optr \<Rightarrow> nanos \<Rightarrow> eptr \<Rightarrow> app \<times> response \<Rightarrow> matching resp_result" where
  "match_orders accnt mid taker now ex = (\<lambda>(st, resp).
     case get_market st mid of None \<Rightarrow> Undef | Some m \<Rightarrow>
       let (side, direct) = match_side (a_orders st taker) m;
           x0 = \<lparr>x_sum_lots = 0, x_sum_cost = 0, x_last_lots = 0, x_last_ticks = 0,
                 x_matches = [], x_execs = [ex]\<rparr>
       in obind (match_loop accnt mid taker direct now (ms_orders side) x0 (st, resp)) (\<lambda>x (st, resp).
            if x_matches x \<noteq> []
            then Done x (put_order taker
                   (order_trade (x_sum_lots x) (x_sum_cost x) (x_last_lots x) (x_last_ticks x) now
                     (a_orders st taker)) st, resp)
            else Done x (st, resp)))"

text \<open>The body of the loop of \<open>commit_matches\<close>.\<close>

definition commit_match :: "symbol \<Rightarrow> id64 \<Rightarrow> pptr \<Rightarrow> nanos \<Rightarrow> match \<Rightarrow> app \<Rightarrow> app option" where
  "commit_match accnt mid taker_posn now mt st =
     (let maker = mt_maker_order mt
      in case get_market st mid of None \<Rightarrow> None | Some m \<Rightarrow>
        let st = on_market (market_take_order maker (mt_lots mt) now) m st
        in case get_sess st (r_accnt (a_orders st maker)) of None \<Rightarrow> None | Some maker_sess \<Rightarrow>
          let maker_trade = mt_maker_trade mt; maker_posn = mt_maker_posn mt;
              st = put_exec maker_trade
                     (exec_posn (net_lots (a_posns st maker_posn)) (p_net_cost (a_posns st maker_posn))
                        (a_execs st maker_trade)) st;
              st = put_posn maker_posn
                     (add_trade (r_side (a_execs st maker_trade)) (e_last_lots (a_execs st maker_trade))
                        (e_last_ticks (a_execs st maker_trade)) (a_posns st maker_posn)) st;
              maker_sess = insert_trade (a_execs st) maker_trade (push_exec_front maker_trade maker_sess);
              maker_sess = (if order_done (a_orders st maker)
                            then sess_remove_order (a_orders st) maker maker_sess else maker_sess);
              st = put_sess maker_sess st;
              taker_trade = mt_taker_trade mt;
              st = put_exec taker_trade
                     (exec_posn (net_lots (a_posns st taker_posn)) (p_net_cost (a_posns st taker_posn))
                        (a_execs st taker_trade)) st;
              st = put_posn taker_posn
                     (add_trade (r_side (a_execs st taker_trade)) (e_last_lots (a_execs st taker_trade))
                        (e_last_ticks (a_execs st taker_trade)) (a_posns st taker_posn)) st
          in case get_sess st accnt of None \<Rightarrow> None | Some taker_sess \<Rightarrow>
            Some (put_sess (insert_trade (a_execs st) taker_trade
                    (push_exec_front taker_trade taker_sess)) st))"

fun commit_matches :: "symbol \<Rightarrow> id64 \<Rightarrow> pptr \<Rightarrow> nanos \<Rightarrow> match list \<Rightarrow> app \<Rightarrow> app option" where
  "commit_matches accnt mid taker_posn now [] st = Some st"
| "commit_matches accnt mid taker_posn now (mt # mts) st =
     (case commit_match accnt mid taker_posn now mt st of
        None \<Rightarrow> None | Some st \<Rightarrow> commit_matches accnt mid taker_posn now mts st)"

section \<open>Creating an order\<close>

text \<open>
  The part of \<open>create_order\<close> behind the matching: the position of the taker, the insertion into the
  market, the journal, the commit. \<open>market.remove_order\<close> undoes the insertion where the queue has
  no capacity left.
\<close>

definition finish_order ::
    "symbol \<Rightarrow> id64 \<Rightarrow> optr \<Rightarrow> eptr \<Rightarrow> nanos \<Rightarrow> matching \<Rightarrow> app \<times> response \<Rightarrow> unit resp_result" where
  "finish_order accnt mid p ex now x = (\<lambda>(st, resp).
     let resp = resp_set_market mid resp;
         have_matches = (x_matches x \<noteq> [])
     in case (get_sess st accnt, get_market st mid) of
          (Some s, Some m) \<Rightarrow>
            let (posn, st) = (if have_matches then app_posn s m st else (0, st));
                resp = (if have_matches then resp_set_posn posn resp else resp);
                is_done = order_done (a_orders st p);
                st = (if \<not> is_done then on_market (market_insert_order p) m st else st)
            in (case mq_create_execs (map (a_execs st) (x_execs x)) (a_mq st) of
                  Undef \<Rightarrow> Undef
                | Throw e q \<Rightarrow>
                    let st = st\<lparr>a_mq := q\<rparr>
                    in if \<not> is_done
                       then (case get_market st mid of
                               Some m \<Rightarrow> Throw e (on_market (market_remove_order p) m st, resp)
                             | None \<Rightarrow> Undef)
                       else Throw e (st, resp)
                | Done _ q \<Rightarrow>
                    let st = st\<lparr>a_mq := q\<rparr>
                    in case get_sess st accnt of None \<Rightarrow> Undef | Some s \<Rightarrow>
                      let s = (if \<not> is_done then sess_insert_order (a_orders st) p s else s);
                          st = put_sess (push_exec_front ex s) st
                      in if have_matches
                         then (case commit_matches accnt mid posn now (x_matches x) st of
                                 Some st \<Rightarrow> Done () (st, resp) | None \<Rightarrow> Undef)
                         else Done () (st, resp))
        | _ \<Rightarrow> Undef)"

definition app_create_order ::
    "(int \<Rightarrow> jday) \<Rightarrow> symbol \<Rightarrow> id64 \<Rightarrow> string \<Rightarrow> side \<Rightarrow> lots \<Rightarrow> ticks \<Rightarrow> lots \<Rightarrow> nanos
      \<Rightarrow> app \<times> response \<Rightarrow> unit resp_result" where
  "app_create_order local_jd accnt mid ref sd lots ticks min_lots now = (\<lambda>(st, resp).
     case (get_sess st accnt, get_market st mid) of
       (Some s, Some m) \<Rightarrow>
         if ref \<noteq> [] \<and> sess_exists (a_orders st) ref s then Throw RefAlreadyExists (st, resp)
         else
           let (bd, c) = bus_day local_jd now (a_bus_day st); st = st\<lparr>a_bus_day := c\<rparr>
           in if m_settl_day m \<noteq> 0 \<and> m_settl_day m < bd then Throw MarketClosed (st, resp)
              else if lots = 0 \<or> lots < min_lots then Throw InvalidLots (st, resp)
              else
                let (oid, m) = alloc_id m; st = put_market m st;
                    (p, st) = alloc_order (make_order (s_accnt s) (m_id m) (m_instr m) (m_settl_day m)
                                 oid ref sd lots ticks min_lots now) st;
                    (ex, st) = alloc_exec (new_exec (a_orders st p) oid now) st;
                    resp = resp_insert_exec ex (resp_insert_order p resp)
                in obind (match_orders accnt mid p now ex (st, resp)) (\<lambda>x.
                     finish_order accnt mid p ex now x)
     | _ \<Rightarrow> Undef)"

section \<open>Revising and cancelling orders\<close>

text \<open>
  An order is revised or cancelled in a market that the caller passes along with it. Where that is
  not the order's market the code works on the level of one market and the containers of another;
  the model gives no result.
\<close>

definition invalid_revision :: "lots \<Rightarrow> order \<Rightarrow> bool" where
  "invalid_revision lots ord \<longleftrightarrow>
     lots = 0 \<or> lots > r_lots ord \<or> lots < o_exec_lots ord \<or> lots < o_min_lots ord"

definition commit_revise :: "symbol \<Rightarrow> id64 \<Rightarrow> optr \<Rightarrow> lots \<Rightarrow> nanos \<Rightarrow> eptr \<Rightarrow> app \<Rightarrow> app option" where
  "commit_revise accnt mid p lots now ex st =
     (case get_market st mid of None \<Rightarrow> None | Some m \<Rightarrow>
        if r_market_id (a_orders st p) \<noteq> m_id m then None
        else let st = on_market (market_revise_order p lots now) m st
             in case get_sess st accnt of None \<Rightarrow> None | Some s \<Rightarrow>
               let s = (if order_done (a_orders st p) then sess_remove_order (a_orders st) p s else s)
               in Some (put_sess (push_exec_front ex s) st))"

definition commit_cancel :: "symbol \<Rightarrow> id64 \<Rightarrow> optr \<Rightarrow> nanos \<Rightarrow> eptr \<Rightarrow> app \<Rightarrow> app option" where
  "commit_cancel accnt mid p now ex st =
     (case get_market st mid of None \<Rightarrow> None | Some m \<Rightarrow>
        if r_market_id (a_orders st p) \<noteq> m_id m then None
        else let st = on_market (market_cancel_order p now) m st
             in case get_sess st accnt of None \<Rightarrow> None | Some s \<Rightarrow>
               Some (put_sess (push_exec_front ex (sess_remove_order (a_orders st) p s)) st))"

definition do_revise_order ::
    "symbol \<Rightarrow> id64 \<Rightarrow> optr \<Rightarrow> lots \<Rightarrow> nanos \<Rightarrow> app \<times> response \<Rightarrow> unit resp_result" where
  "do_revise_order accnt mid p lots now = (\<lambda>(st, resp).
     let ord = a_orders st p
     in if invalid_revision lots ord then Throw InvalidLots (st, resp)
        else case get_market st mid of None \<Rightarrow> Undef | Some m \<Rightarrow>
          let (eid, m) = alloc_id m; st = put_market m st;
              (ex, st) = alloc_exec (exec_revise lots (new_exec ord eid now)) st;
              resp = resp_insert_exec ex (resp_insert_order p (resp_set_market mid resp))
          in case on_mq (mq_create_exec (a_execs st ex)) st of
               Undef \<Rightarrow> Undef
             | Throw e st \<Rightarrow> Throw e (st, resp)
             | Done _ st \<Rightarrow> (case commit_revise accnt mid p lots now ex st of
                 Some st \<Rightarrow> Done () (st, resp) | None \<Rightarrow> Undef))"

definition do_cancel_order ::
    "symbol \<Rightarrow> id64 \<Rightarrow> optr \<Rightarrow> nanos \<Rightarrow> app \<times> response \<Rightarrow> unit resp_result" where
  "do_cancel_order accnt mid p now = (\<lambda>(st, resp).
     let ord = a_orders st p
     in case get_market st mid of None \<Rightarrow> Undef | Some m \<Rightarrow>
          let (eid, m) = alloc_id m; st = put_market m st;
              (ex, st) = alloc_exec (exec_cancel (new_exec ord eid now)) st;
              resp = resp_insert_exec ex (resp_insert_order p (resp_set_market mid resp))
          in case on_mq (mq_create_exec (a_execs st ex)) st of
               Undef \<Rightarrow> Undef
             | Throw e st \<Rightarrow> Throw e (st, resp)
             | Done _ st \<Rightarrow> (case commit_cancel accnt mid p now ex st of
                 Some st \<Rightarrow> Done () (st, resp) | None \<Rightarrow> Undef))"

text \<open>The overloads for an order, for an identifier and for a reference.\<close>

definition revise_order ::
    "symbol \<Rightarrow> id64 \<Rightarrow> optr \<Rightarrow> lots \<Rightarrow> nanos \<Rightarrow> app \<times> response \<Rightarrow> unit resp_result" where
  "revise_order accnt mid p lots now = (\<lambda>(st, resp).
     if order_done (a_orders st p) then Throw TooLate (st, resp)
     else do_revise_order accnt mid p lots now (st, resp))"

definition revise_order_id ::
    "symbol \<Rightarrow> id64 \<Rightarrow> id64 \<Rightarrow> lots \<Rightarrow> nanos \<Rightarrow> app \<times> response \<Rightarrow> unit resp_result" where
  "revise_order_id accnt mid oid lots now = (\<lambda>(st, resp).
     case get_sess st accnt of None \<Rightarrow> Undef | Some s \<Rightarrow>
       (case sess_order (a_orders st) mid oid s of
          None \<Rightarrow> Throw OrderNotFound (st, resp)
        | Some p \<Rightarrow>
            if order_done (a_orders st p) then Throw TooLate (st, resp)
            else do_revise_order accnt mid p lots now (st, resp)))"

definition revise_order_ref ::
    "symbol \<Rightarrow> id64 \<Rightarrow> string \<Rightarrow> lots \<Rightarrow> nanos \<Rightarrow> app \<times> response \<Rightarrow> unit resp_result" where
  "revise_order_ref accnt mid ref lots now = (\<lambda>(st, resp).
     case get_sess st accnt of None \<Rightarrow> Undef | Some s \<Rightarrow>
       (case sess_order_ref (a_orders st) ref s of
          None \<Rightarrow> Throw OrderNotFound (st, resp)
        | Some p \<Rightarrow>
            if order_done (a_orders st p) then Throw TooLate (st, resp)
            else do_revise_order accnt mid p lots now (st, resp)))"

definition cancel_order ::
    "symbol \<Rightarrow> id64 \<Rightarrow> optr \<Rightarrow> nanos \<Rightarrow> app \<times> response \<Rightarrow> unit resp_result" where
  "cancel_order accnt mid p now = (\<lambda>(st, resp).
     if order_done (a_orders st p) then Throw TooLate (st, resp)
     else do_cancel_order accnt mid p now (st, resp))"

definition cancel_order_id ::
    "symbol \<Rightarrow> id64 \<Rightarrow> id64 \<Rightarrow> nanos \<Rightarrow> app \<times> response \<Rightarrow> unit resp_result" where
  "cancel_order_id accnt mid oid now = (\<lambda>(st, resp).
     case get_sess st accnt of None \<Rightarrow> Undef | Some s \<Rightarrow>
       (case sess_order (a_orders st) mid oid s of
          None \<Rightarrow> Throw OrderNotFound (st, resp)
        | Some p \<Rightarrow>
            if order_done (a_orders st p) then Throw TooLate (st, resp)
            else do_cancel_order accnt mid p now (st, resp)))"

definition cancel_order_ref ::
    "symbol \<Rightarrow> id64 \<Rightarrow> string \<Rightarrow> nanos \<Rightarrow> app \<times> response \<Rightarrow> unit resp_result" where
  "cancel_order_ref accnt mid ref now = (\<lambda>(st, resp).
     case get_sess st accnt of None \<Rightarrow> Undef | Some s \<Rightarrow>
       (case sess_order_ref (a_orders st) ref s of
          None \<Rightarrow> Throw OrderNotFound (st, resp)
        | Some p \<Rightarrow>
            if order_done (a_orders st p) then Throw TooLate (st, resp)
            else do_cancel_order accnt mid p now (st, resp)))"

text \<open>The overloads for several identifiers: a loop that validates, and a loop that commits.\<close>

fun revise_validate ::
    "symbol \<Rightarrow> id64 \<Rightarrow> id64 list \<Rightarrow> lots \<Rightarrow> nanos \<Rightarrow> app \<times> response \<Rightarrow> unit resp_result" where
  "revise_validate accnt mid [] lots now (st, resp) = Done () (st, resp)"
| "revise_validate accnt mid (oid # ids) lots now (st, resp) =
     (case (get_sess st accnt, get_market st mid) of
        (Some s, Some m) \<Rightarrow>
          (case sess_order (a_orders st) mid oid s of
             None \<Rightarrow> Throw OrderNotFound (st, resp)
           | Some p \<Rightarrow>
               if order_done (a_orders st p) then Throw TooLate (st, resp)
               else if invalid_revision lots (a_orders st p) then Throw InvalidLots (st, resp)
               else let (eid, m) = alloc_id m; st = put_market m st;
                        (ex, st) = alloc_exec (exec_revise lots (new_exec (a_orders st p) eid now)) st
                    in revise_validate accnt mid ids lots now
                         (st, resp_insert_exec ex (resp_insert_order p resp)))
      | _ \<Rightarrow> Undef)"

fun revise_commit :: "symbol \<Rightarrow> id64 \<Rightarrow> lots \<Rightarrow> nanos \<Rightarrow> eptr list \<Rightarrow> app \<Rightarrow> app option" where
  "revise_commit accnt mid lots now [] st = Some st"
| "revise_commit accnt mid lots now (ex # exs) st =
     (case get_sess st accnt of None \<Rightarrow> None | Some s \<Rightarrow>
       (case sess_order (a_orders st) mid (e_order_id (a_execs st ex)) s of
          None \<Rightarrow> None
        | Some p \<Rightarrow> (case commit_revise accnt mid p lots now ex st of
            None \<Rightarrow> None | Some st \<Rightarrow> revise_commit accnt mid lots now exs st)))"

definition revise_order_ids ::
    "symbol \<Rightarrow> id64 \<Rightarrow> id64 list \<Rightarrow> lots \<Rightarrow> nanos \<Rightarrow> app \<times> response \<Rightarrow> unit resp_result" where
  "revise_order_ids accnt mid ids lots now = (\<lambda>(st, resp).
     obind (revise_validate accnt mid ids lots now (st, resp_set_market mid resp)) (\<lambda>_ (st, resp).
       case on_mq (mq_create_execs (map (a_execs st) (resp_execs resp))) st of
         Undef \<Rightarrow> Undef
       | Throw e st \<Rightarrow> Throw e (st, resp)
       | Done _ st \<Rightarrow> (case revise_commit accnt mid lots now (resp_execs resp) st of
           Some st \<Rightarrow> Done () (st, resp) | None \<Rightarrow> Undef)))"

fun cancel_validate ::
    "symbol \<Rightarrow> id64 \<Rightarrow> id64 list \<Rightarrow> nanos \<Rightarrow> app \<times> response \<Rightarrow> unit resp_result" where
  "cancel_validate accnt mid [] now (st, resp) = Done () (st, resp)"
| "cancel_validate accnt mid (oid # ids) now (st, resp) =
     (case (get_sess st accnt, get_market st mid) of
        (Some s, Some m) \<Rightarrow>
          (case sess_order (a_orders st) mid oid s of
             None \<Rightarrow> Throw OrderNotFound (st, resp)
           | Some p \<Rightarrow>
               if order_done (a_orders st p) then Throw TooLate (st, resp)
               else let (eid, m) = alloc_id m; st = put_market m st;
                        (ex, st) = alloc_exec (exec_cancel (new_exec (a_orders st p) eid now)) st
                    in cancel_validate accnt mid ids now
                         (st, resp_insert_exec ex (resp_insert_order p resp)))
      | _ \<Rightarrow> Undef)"

fun cancel_commit :: "symbol \<Rightarrow> id64 \<Rightarrow> nanos \<Rightarrow> eptr list \<Rightarrow> app \<Rightarrow> app option" where
  "cancel_commit accnt mid now [] st = Some st"
| "cancel_commit accnt mid now (ex # exs) st =
     (case get_sess st accnt of None \<Rightarrow> None | Some s \<Rightarrow>
       (case sess_order (a_orders st) mid (e_order_id (a_execs st ex)) s of
          None \<Rightarrow> None
        | Some p \<Rightarrow> (case commit_cancel accnt mid p now ex st of
            None \<Rightarrow> None | Some st \<Rightarrow> cancel_commit accnt mid now exs st)))"

definition cancel_order_ids ::
    "symbol \<Rightarrow> id64 \<Rightarrow> id64 list \<Rightarrow> nanos \<Rightarrow> app \<times> response \<Rightarrow> unit resp_result" where
  "cancel_order_ids accnt mid ids now = (\<lambda>(st, resp).
     obind (cancel_validate accnt mid ids now (st, resp_set_market mid resp)) (\<lambda>_ (st, resp).
       case on_mq (mq_create_execs (map (a_execs st) (resp_execs resp))) st of
         Undef \<Rightarrow> Undef
       | Throw e st \<Rightarrow> Throw e (st, resp)
       | Done _ st \<Rightarrow> (case cancel_commit accnt mid now (resp_execs resp) st of
           Some st \<Rightarrow> Done () (st, resp) | None \<Rightarrow> Undef)))"

text \<open>Not implemented in the code: cancelling by session and by market, and the end-of-day runs.\<close>

definition cancel_order_sess :: "symbol \<Rightarrow> nanos \<Rightarrow> app \<Rightarrow> unit app_result" where
  "cancel_order_sess accnt now st = Done () st"

definition cancel_order_market :: "id64 \<Rightarrow> nanos \<Rightarrow> app \<Rightarrow> unit app_result" where
  "cancel_order_market mid now st = Done () st"

definition expire_end_of_day :: "nanos \<Rightarrow> app \<Rightarrow> unit app_result" where
  "expire_end_of_day now st = Done () st"

definition settl_end_of_day :: "nanos \<Rightarrow> app \<Rightarrow> unit app_result" where
  "settl_end_of_day now st = Done () st"

section \<open>Trades\<close>

definition new_manual ::
    "id64 \<Rightarrow> symbol \<Rightarrow> jday \<Rightarrow> id64 \<Rightarrow> symbol \<Rightarrow> string \<Rightarrow> side \<Rightarrow> lots \<Rightarrow> ticks \<Rightarrow> lots \<Rightarrow> cost
      \<Rightarrow> liq_ind \<Rightarrow> symbol \<Rightarrow> nanos \<Rightarrow> exec" where
  "new_manual market_id ins settl_day eid accnt ref sd lots ticks posn_lots posn_cost li cpty created =
     make_exec accnt market_id ins settl_day eid 0 ref Trade sd lots ticks 0 lots (cost lots ticks)
       lots ticks 1 0 posn_lots posn_cost li cpty created"

text \<open>Booking a trade: the session keeps it and the position takes it.\<close>

definition book_trade :: "symbol \<Rightarrow> eptr \<Rightarrow> pptr \<Rightarrow> app \<Rightarrow> app option" where
  "book_trade accnt trade posn st =
     (case get_sess st accnt of None \<Rightarrow> None | Some s \<Rightarrow>
        let ex = a_execs st trade
        in Some (put_posn posn (add_trade (r_side ex) (e_last_lots ex) (e_last_ticks ex) (a_posns st posn))
             (put_sess (insert_trade (a_execs st) trade (push_exec_front trade s)) st)))"

definition app_create_trade ::
    "symbol \<Rightarrow> id64 \<Rightarrow> string \<Rightarrow> side \<Rightarrow> lots \<Rightarrow> ticks \<Rightarrow> liq_ind \<Rightarrow> symbol \<Rightarrow> nanos \<Rightarrow> app
      \<Rightarrow> (eptr \<times> eptr option) app_result" where
  "app_create_trade accnt mid ref sd lots ticks li cpty created st =
     (case (get_sess st accnt, get_market st mid) of
        (Some s, Some m) \<Rightarrow>
          let (posn, st) = app_posn s m st;
              (eid, m) = alloc_id m; st = put_market m st;
              (trade, st) = alloc_exec (new_manual (m_id m) (m_instr m) (m_settl_day m) eid accnt ref sd
                 lots ticks (net_lots (a_posns st posn)) (p_net_cost (a_posns st posn)) li cpty created) st
          in if cpty \<noteq> [] then
               let (cpty_sess, st) = app_sess cpty st;
                   (cpty_posn, st) = app_posn cpty_sess m st;
                   (cid, m) = alloc_id m; st = put_market m st;
                   (cpty_trade, st) = alloc_exec (exec_opposite cid (a_execs st trade)) st
               in obind (on_mq (mq_create_execs [a_execs st trade, a_execs st cpty_trade]) st) (\<lambda>_ st.
                    case book_trade cpty cpty_trade cpty_posn st of None \<Rightarrow> Undef | Some st \<Rightarrow>
                      (case book_trade accnt trade posn st of None \<Rightarrow> Undef | Some st \<Rightarrow>
                         Done (trade, Some cpty_trade) st))
             else obind (on_mq (mq_create_exec (a_execs st trade)) st) (\<lambda>_ st.
                    case book_trade accnt trade posn st of None \<Rightarrow> Undef | Some st \<Rightarrow>
                      Done (trade, None) st)
      | _ \<Rightarrow> Undef)"

definition do_archive_trade :: "symbol \<Rightarrow> eptr \<Rightarrow> nanos \<Rightarrow> app \<Rightarrow> unit app_result" where
  "do_archive_trade accnt trade now st =
     (let ex = a_execs st trade
      in obind (on_mq (mq_archive_trade (r_market_id ex) (r_id ex) now) st) (\<lambda>_ st.
           case get_sess st accnt of None \<Rightarrow> Undef | Some s \<Rightarrow>
             Done () (put_sess (remove_trade (a_execs st) trade s) st)))"

definition archive_trade :: "symbol \<Rightarrow> eptr \<Rightarrow> nanos \<Rightarrow> app \<Rightarrow> unit app_result" where
  "archive_trade accnt trade now st =
     (if e_state (a_execs st trade) \<noteq> Trade then Throw Invalid st
      else do_archive_trade accnt trade now st)"

definition archive_trade_id :: "symbol \<Rightarrow> id64 \<Rightarrow> id64 \<Rightarrow> nanos \<Rightarrow> app \<Rightarrow> unit app_result" where
  "archive_trade_id accnt mid tid now st =
     (case get_sess st accnt of None \<Rightarrow> Undef | Some s \<Rightarrow>
        (case sess_trade (a_execs st) mid tid s of
           None \<Rightarrow> Throw NotFound st | Some trade \<Rightarrow> do_archive_trade accnt trade now st))"

fun archive_commit :: "symbol \<Rightarrow> id64 \<Rightarrow> id64 list \<Rightarrow> app \<Rightarrow> app option" where
  "archive_commit accnt mid [] st = Some st"
| "archive_commit accnt mid (tid # ids) st =
     (case get_sess st accnt of None \<Rightarrow> None | Some s \<Rightarrow>
        (case sess_trade (a_execs st) mid tid s of
           None \<Rightarrow> None
         | Some trade \<Rightarrow> archive_commit accnt mid ids (put_sess (remove_trade (a_execs st) trade s) st)))"

definition archive_trade_ids :: "symbol \<Rightarrow> id64 \<Rightarrow> id64 list \<Rightarrow> nanos \<Rightarrow> app \<Rightarrow> unit app_result" where
  "archive_trade_ids accnt mid ids now st =
     (case get_sess st accnt of None \<Rightarrow> Undef | Some s \<Rightarrow>
        if \<exists>tid\<in>set ids. sess_trade (a_execs st) mid tid s = None then Throw NotFound st
        else obind (on_mq (mq_archive_trades mid ids now) st) (\<lambda>_ st.
               case archive_commit accnt mid ids st of None \<Rightarrow> Undef | Some st \<Rightarrow> Done () st))"

section \<open>Loading\<close>

text \<open>
  What a \<open>Model\<close> (\<open>fin/Model.hpp\<close>) reads, in the order in which it calls back: the executions since
  a time, latest first, and the positions of a business day.
\<close>

record model =
  mod_assets :: "asset list"
  mod_instrs :: "instr list"
  mod_markets :: "market list"
  mod_orders :: "order list"
  mod_execs :: "nanos \<Rightarrow> exec list"
  mod_trades :: "exec list"
  mod_posns :: "jday \<Rightarrow> posn list"

text \<open>Access to the session of an account, as a function on the session.\<close>

definition on_sess :: "symbol \<Rightarrow> (sess \<Rightarrow> sess) \<Rightarrow> app \<Rightarrow> app" where
  "on_sess accnt f st = (let (s, st) = app_sess accnt st in put_sess (f s) st)"

definition load_order :: "order \<Rightarrow> app \<Rightarrow> app option" where
  "load_order ord st =
     (let (p, st) = alloc_order ord st;
          st = on_sess (r_accnt ord) (sess_insert_order (a_orders st) p) st
      in case get_market st (r_market_id ord) of
           None \<Rightarrow> None
         | Some m \<Rightarrow> Some (on_market (market_insert_order p) m st))"

fun load_orders :: "order list \<Rightarrow> app \<Rightarrow> app option" where
  "load_orders [] st = Some st"
| "load_orders (ord # ords) st =
     (case load_order ord st of None \<Rightarrow> None | Some st \<Rightarrow> load_orders ords st)"

definition load_exec :: "exec \<Rightarrow> app \<Rightarrow> app" where
  "load_exec ex st = (let (e, st) = alloc_exec ex st in on_sess (r_accnt ex) (push_exec_back e) st)"

definition load_trade :: "exec \<Rightarrow> app \<Rightarrow> app" where
  "load_trade ex st =
     (let (e, st) = alloc_exec ex st in on_sess (r_accnt ex) (insert_trade (a_execs st) e) st)"

definition load_posn :: "posn \<Rightarrow> app \<Rightarrow> app" where
  "load_posn po st =
     (let q = a_next_posn st;
          st = st\<lparr>a_posns := (a_posns st)(q := po), a_next_posn := q + 1\<rparr>
      in on_sess (p_accnt po) (insert_posn (a_posns st) q) st)"

definition app_load :: "(int \<Rightarrow> jday) \<Rightarrow> model \<Rightarrow> nanos \<Rightarrow> app \<Rightarrow> unit app_result" where
  "app_load local_jd md now st =
     (let (bd, c) = bus_day local_jd now (a_bus_day st);
          st = st\<lparr>a_bus_day := c\<rparr>;
          st = st\<lparr>a_assets := fold (set_insert as_symbol) (mod_assets md) (a_assets st)\<rparr>;
          st = st\<lparr>a_instrs := fold (set_insert i_symbol) (mod_instrs md) (a_instrs st)\<rparr>;
          st = st\<lparr>a_markets := fold (set_insert m_id) (mod_markets md) (a_markets st)\<rparr>
      in case load_orders (mod_orders md) st of
           None \<Rightarrow> Undef
         | Some st \<Rightarrow>
             let st = fold load_exec (mod_execs md (now - 604800000 * 1000000)) st;
                 st = fold load_trade (mod_trades md) st;
                 st = fold load_posn (mod_posns md bd) st
             in Done () st)"

end
