(* ===== verification/App_Inv.thy ===== *)
theory App_Inv
  imports App_Ops
begin

text \<open>
  The invariant of the engine's state, in four parts that read different members: the books, the
  ownership of live orders by sessions, the executions that sessions keep, and their positions.
  Each part has a lemma for the members it does not read, so that an operation is looked at once
  per part.
\<close>

section \<open>The parts of the invariant\<close>

text \<open>An order is live while a book lists it.\<close>

definition live :: "app \<Rightarrow> optr \<Rightarrow> bool" where
  "live st p \<longleftrightarrow> (\<exists>mid m. get_market st mid = Some m \<and> p \<in> listed m)"

definition book_inv :: "app \<Rightarrow> bool" where
  "book_inv st \<longleftrightarrow> set_ok m_id (a_markets st) \<and>
     (\<forall>mid m. get_market st mid = Some m \<longrightarrow>
        market_inv (a_orders st) m \<and> (\<forall>p\<in>listed m. p < a_next_order st))"

text \<open>A session owns the live orders of its account, and its index is over them.\<close>

definition own_ok :: "oheap \<Rightarrow> (optr \<Rightarrow> bool) \<Rightarrow> sess \<Rightarrow> bool" where
  "own_ok h L s \<longleftrightarrow> set_ok (order_id_key h) (s_orders s)
     \<and> (\<forall>p. p \<in> set (s_orders s) \<longleftrightarrow> L p \<and> r_accnt (h p) = s_accnt s)
     \<and> set_ok (order_ref_key h) (s_ref_idx s)
     \<and> (\<forall>p\<in>set (s_ref_idx s). L p \<and> r_accnt (h p) = s_accnt s \<and> r_ref (h p) \<noteq> [])"

definition own_inv :: "app \<Rightarrow> bool" where
  "own_inv st \<longleftrightarrow> set_ok s_accnt (a_sesss st)
     \<and> (\<forall>p. live st p \<longrightarrow> get_sess st (r_accnt (a_orders st p)) \<noteq> None)
     \<and> (\<forall>a s. get_sess st a = Some s \<longrightarrow> own_ok (a_orders st) (live st) s)"

definition trade_ok :: "app \<Rightarrow> eptr \<Rightarrow> bool" where
  "trade_ok st e \<longleftrightarrow> e_state (a_execs st e) = Trade \<and>
     (\<exists>m. get_market st (r_market_id (a_execs st e)) = Some m \<and> r_id (a_execs st e) \<le> m_max_id m)"

definition exec_ok :: "app \<Rightarrow> sess \<Rightarrow> bool" where
  "exec_ok st s \<longleftrightarrow> (\<forall>e\<in>set (s_execs s) \<union> set (s_trades s).
        e < a_next_exec st \<and> r_accnt (a_execs st e) = s_accnt s)
     \<and> set_ok (exec_id_key (a_execs st)) (s_trades s) \<and> (\<forall>e\<in>set (s_trades s). trade_ok st e)"

definition exec_inv :: "app \<Rightarrow> bool" where
  "exec_inv st \<longleftrightarrow> (\<forall>a s. get_sess st a = Some s \<longrightarrow> exec_ok st s)"

definition posn_inv :: "app \<Rightarrow> bool" where
  "posn_inv st \<longleftrightarrow> (\<forall>a s. get_sess st a = Some s \<longrightarrow>
     set_ok (posn_key (a_posns st)) (s_posns s) \<and>
     (\<forall>q\<in>set (s_posns s). q < a_next_posn st \<and> p_accnt (a_posns st q) = s_accnt s))"

definition app_inv :: "(int \<Rightarrow> jday) \<Rightarrow> app \<Rightarrow> bool" where
  "app_inv local_jd st \<longleftrightarrow> book_inv st \<and> own_inv st \<and> exec_inv st \<and> posn_inv st
     \<and> ring_ok (a_mq st) \<and> cache_ok local_jd (a_bus_day st)"

section \<open>Consequences\<close>

lemma app_inv_parts:
  assumes "app_inv local_jd st"
  shows "book_inv st" "own_inv st" "exec_inv st" "posn_inv st" "ring_ok (a_mq st)"
    "cache_ok local_jd (a_bus_day st)" "set_ok m_id (a_markets st)" "set_ok s_accnt (a_sesss st)"
  using assms by (simp_all add: app_inv_def book_inv_def own_inv_def)

lemma book_market: "book_inv st \<Longrightarrow> get_market st mid = Some m \<Longrightarrow> market_inv (a_orders st) m"
  by (simp add: book_inv_def)

lemma book_id: "book_inv st \<Longrightarrow> get_market st mid = Some m \<Longrightarrow> m_id m = mid"
  using get_market_id[of st mid m] by (simp add: book_inv_def)

lemma own_id: "own_inv st \<Longrightarrow> get_sess st a = Some s \<Longrightarrow> s_accnt s = a"
  using get_sess_accnt[of st a s] by (simp add: own_inv_def)

lemma listed_market_id: "book_inv st \<Longrightarrow> get_market st mid = Some m \<Longrightarrow> p \<in> listed m \<Longrightarrow>
    r_market_id (a_orders st p) = mid"
  using book_market[of st mid m] book_id[of st mid m] by (simp add: market_inv_def)

lemma live_market:
  assumes "book_inv st" and "live st p"
  obtains m where "get_market st (r_market_id (a_orders st p)) = Some m" and "p \<in> listed m"
proof -
  from assms(2) obtain mid m where "get_market st mid = Some m" "p \<in> listed m" by (auto simp: live_def)
  with listed_market_id[OF assms(1) this] that show thesis by simp
qed

lemma live_in_market:
  assumes "book_inv st" and "get_market st mid = Some m"
  shows "p \<in> listed m \<longleftrightarrow> live st p \<and> r_market_id (a_orders st p) = mid"
proof
  assume "p \<in> listed m"
  with assms listed_market_id[OF assms] show "live st p \<and> r_market_id (a_orders st p) = mid"
    by (auto simp: live_def)
next
  assume r: "live st p \<and> r_market_id (a_orders st p) = mid"
  then obtain m' where "get_market st (r_market_id (a_orders st p)) = Some m'" "p \<in> listed m'"
    using live_market[OF assms(1)] by blast
  with r assms(2) show "p \<in> listed m" by simp
qed

lemma own_live:
  "own_inv st \<Longrightarrow> get_sess st a = Some s \<Longrightarrow> p \<in> set (s_orders s) \<longleftrightarrow> live st p \<and> r_accnt (a_orders st p) = a"
  using own_id[of st a s] by (auto simp: own_inv_def own_ok_def)

lemma live_order_ok:
  assumes "book_inv st" and "live st p"
  shows "order_ok (a_orders st p)" and "p < a_next_order st"
proof -
  obtain m where m: "get_market st (r_market_id (a_orders st p)) = Some m" "p \<in> listed m"
    using assms by (rule live_market)
  then show "order_ok (a_orders st p)" "p < a_next_order st"
    using listed_order_ok[OF book_market[OF assms(1) m(1)] m(2)] assms(1) by (auto simp: book_inv_def)
qed

text \<open>What a lookup by identifier in a session finds.\<close>

lemma sess_order_Some:
  assumes "own_inv st" and "get_sess st a = Some s" and "sess_order (a_orders st) mid oid s = Some p"
  shows "live st p" and "r_accnt (a_orders st p) = a" and "r_market_id (a_orders st p) = mid"
    and "r_id (a_orders st p) = oid" and "p \<in> set (s_orders s)"
proof -
  have "set_ok (order_id_key (a_orders st)) (s_orders s)"
    using assms(1,2) by (simp add: own_inv_def own_ok_def)
  then show "p \<in> set (s_orders s)" "r_market_id (a_orders st p) = mid" "r_id (a_orders st p) = oid"
    using assms(3) by (auto simp: sess_order_def set_find_Some_iff order_id_key_def request_key_def)
  then show "live st p" "r_accnt (a_orders st p) = a" using own_live[OF assms(1,2)] by auto
qed

lemma sess_order_ref_Some:
  assumes "own_inv st" and "get_sess st a = Some s" and "sess_order_ref (a_orders st) ref s = Some p"
  shows "live st p" and "r_accnt (a_orders st p) = a" and "r_ref (a_orders st p) = ref"
    and "p \<in> set (s_orders s)"
proof -
  have ok: "set_ok (order_ref_key (a_orders st)) (s_ref_idx s)"
    "\<And>p. p \<in> set (s_ref_idx s) \<Longrightarrow> p \<in> set (s_orders s)"
    using assms(1,2) unfolding own_inv_def own_ok_def by blast+
  then show "r_ref (a_orders st p) = ref" "p \<in> set (s_orders s)"
    using assms(3) by (auto simp: sess_order_ref_def set_find_Some_iff order_ref_key_def)
  then show "live st p" "r_accnt (a_orders st p) = a" using own_live[OF assms(1,2)] by auto
qed

section \<open>Members that a part does not read\<close>

lemma live_cong: "a_markets st' = a_markets st \<Longrightarrow> live st' p = live st p"
  by (simp add: live_def get_market_def)

lemma own_ok_frame:
  "own_ok h L s \<Longrightarrow> s_accnt s' = s_accnt s \<Longrightarrow> s_orders s' = s_orders s \<Longrightarrow> s_ref_idx s' = s_ref_idx s \<Longrightarrow>
     own_ok h L s'"
  by (simp add: own_ok_def)

lemma own_ok_heap:
  assumes "own_ok h L s" and "\<And>p. L p \<Longrightarrow> request_key (h' p) = request_key (h p)"
    and "\<And>p. L p \<Longrightarrow> r_ref (h' p) = r_ref (h p)" and "\<And>p. L p \<Longrightarrow> r_accnt (h' p) = r_accnt (h p)"
  shows "own_ok h' L s"
proof -
  have l: "L p" if "p \<in> set (s_orders s)" for p using assms(1) that by (simp add: own_ok_def)
  have "set_ok (order_id_key h') (s_orders s) = set_ok (order_id_key h) (s_orders s)"
    using l assms(2) by (intro set_ok_key_cong) (simp add: order_id_key_def)
  moreover have "set_ok (order_ref_key h') (s_ref_idx s) = set_ok (order_ref_key h) (s_ref_idx s)"
    using l assms(1,3) by (intro set_ok_key_cong) (auto simp: order_ref_key_def own_ok_def)
  ultimately show ?thesis using assms by (auto simp: own_ok_def)
qed

text \<open>
  A state in which every session has the same orders, up to the other members: the relation
  \<open>same_own\<close> is what an operation that leaves the ownership alone has to show.
\<close>

definition same_own :: "sess \<Rightarrow> sess \<Rightarrow> bool" where
  "same_own s s' \<longleftrightarrow> s_accnt s' = s_accnt s \<and> s_orders s' = s_orders s \<and> s_ref_idx s' = s_ref_idx s"

definition same_exec :: "sess \<Rightarrow> sess \<Rightarrow> bool" where
  "same_exec s s' \<longleftrightarrow> s_accnt s' = s_accnt s \<and> s_execs s' = s_execs s \<and> s_trades s' = s_trades s"

definition same_posn :: "sess \<Rightarrow> sess \<Rightarrow> bool" where
  "same_posn s s' \<longleftrightarrow> s_accnt s' = s_accnt s \<and> s_posns s' = s_posns s"

lemmas same_defs = same_own_def same_exec_def same_posn_def

text \<open>A relation between the sessions of two states, account by account.\<close>

definition sess_rel :: "(sess \<Rightarrow> sess \<Rightarrow> bool) \<Rightarrow> app \<Rightarrow> app \<Rightarrow> bool" where
  "sess_rel R st st' \<longleftrightarrow> (\<forall>a. case get_sess st a of
     None \<Rightarrow> get_sess st' a = None | Some s \<Rightarrow> \<exists>s'. get_sess st' a = Some s' \<and> R s s')"

lemma sess_relD: "sess_rel R st st' \<Longrightarrow> get_sess st' a = Some s' \<Longrightarrow> \<exists>s. get_sess st a = Some s \<and> R s s'"
  unfolding sess_rel_def by (drule spec[of _ a]) (auto split: option.splits)

lemma sess_relE: "sess_rel R st st' \<Longrightarrow> get_sess st a = Some s \<Longrightarrow> \<exists>s'. get_sess st' a = Some s' \<and> R s s'"
  unfolding sess_rel_def by (drule spec[of _ a]) auto

lemma sess_rel_None: "sess_rel R st st' \<Longrightarrow> get_sess st' a = None \<longleftrightarrow> get_sess st a = None"
  unfolding sess_rel_def by (drule spec[of _ a]) (auto split: option.splits)

lemma sess_rel_mono: "sess_rel R st st' \<Longrightarrow> (\<And>s s'. R s s' \<Longrightarrow> R' s s') \<Longrightarrow> sess_rel R' st st'"
  unfolding sess_rel_def by (rule allI, drule spec) (auto split: option.splits)

lemma sess_rel_refl: "(\<And>s. R s s) \<Longrightarrow> a_sesss st' = a_sesss st \<Longrightarrow> sess_rel R st st'"
  by (auto simp: sess_rel_def get_sess_def split: option.split)

lemma sess_rel_put:
  assumes "set_ok s_accnt (a_sesss st)" and "get_sess st (s_accnt s') = Some s" and "R s s'"
    and "\<And>s. R s s" and "a_sesss st' = a_sesss (put_sess s' st)"
  shows "sess_rel R st st'"
proof -
  have "get_sess st' a = get_sess (put_sess s' st) a" for a using assms(5) by (rule get_sess_cong)
  then show ?thesis
    using assms by (auto simp: sess_rel_def get_sess_put_sess split: option.split)
qed

lemma sess_rel_trans:
  assumes "sess_rel R st1 st2" and "sess_rel R st2 st3"
    and "\<And>s1 s2 s3. R s1 s2 \<Longrightarrow> R s2 s3 \<Longrightarrow> R s1 s3"
  shows "sess_rel R st1 st3"
  unfolding sess_rel_def
proof
  fix a
  show "case get_sess st1 a of None \<Rightarrow> get_sess st3 a = None
    | Some s \<Rightarrow> \<exists>s'. get_sess st3 a = Some s' \<and> R s s'"
  proof (cases "get_sess st1 a")
    case None
    then show ?thesis using sess_rel_None[OF assms(1), of a] sess_rel_None[OF assms(2), of a] by simp
  next
    case (Some s)
    then obtain s2 where s2: "get_sess st2 a = Some s2" "R s s2" using sess_relE[OF assms(1)] by blast
    then obtain s3 where "get_sess st3 a = Some s3" "R s2 s3" using sess_relE[OF assms(2)] by blast
    with Some s2(2) assms(3) show ?thesis by auto
  qed
qed

section \<open>Preservation of the parts\<close>

lemma own_inv_frame:
  assumes inv: "own_inv st" and s: "set_ok s_accnt (a_sesss st')" and rel: "sess_rel same_own st st'"
    and live: "live st' = live st"
    and heap: "\<And>p. live st p \<Longrightarrow> request_key (a_orders st' p) = request_key (a_orders st p)"
      "\<And>p. live st p \<Longrightarrow> r_ref (a_orders st' p) = r_ref (a_orders st p)"
      "\<And>p. live st p \<Longrightarrow> r_accnt (a_orders st' p) = r_accnt (a_orders st p)"
  shows "own_inv st'"
  unfolding own_inv_def
proof (intro conjI allI impI)
  show "set_ok s_accnt (a_sesss st')" by (rule s)
next
  fix p assume "live st' p"
  then show "get_sess st' (r_accnt (a_orders st' p)) \<noteq> None"
    using inv heap(3) sess_rel_None[OF rel] by (simp add: live own_inv_def)
next
  fix a s' assume "get_sess st' a = Some s'"
  then obtain s0 where s0: "get_sess st a = Some s0" "same_own s0 s'" using sess_relD[OF rel] by blast
  then have "own_ok (a_orders st) (live st) s0" using inv by (simp add: own_inv_def)
  then have "own_ok (a_orders st') (live st) s0" using heap by (rule own_ok_heap)
  with s0(2) show "own_ok (a_orders st') (live st') s'"
    unfolding live same_own_def by (metis own_ok_frame)
qed

lemma exec_inv_frame:
  assumes inv: "exec_inv st" and rel: "sess_rel same_exec st st'" and le: "a_next_exec st \<le> a_next_exec st'"
    and heap: "\<And>e. e < a_next_exec st \<Longrightarrow> request_key (a_execs st' e) = request_key (a_execs st e)
        \<and> r_accnt (a_execs st' e) = r_accnt (a_execs st e) \<and> e_state (a_execs st' e) = e_state (a_execs st e)"
    and ids: "\<And>mid m. get_market st mid = Some m \<Longrightarrow> \<exists>m'. get_market st' mid = Some m' \<and> m_max_id m \<le> m_max_id m'"
  shows "exec_inv st'"
  unfolding exec_inv_def
proof (intro allI impI)
  fix a s' assume "get_sess st' a = Some s'"
  then obtain s where s: "get_sess st a = Some s" "same_exec s s'" using sess_relD[OF rel] by blast
  then have ok: "exec_ok st s" using inv by (simp add: exec_inv_def)
  have key: "exec_id_key (a_execs st') e = exec_id_key (a_execs st) e" if "e < a_next_exec st" for e
    using heap[OF that] by (simp add: exec_id_key_def)
  have "set_ok (exec_id_key (a_execs st')) (s_trades s) = set_ok (exec_id_key (a_execs st)) (s_trades s)"
    using ok key by (intro set_ok_key_cong) (auto simp: exec_ok_def)
  moreover have "trade_ok st' e" if "e \<in> set (s_trades s)" for e
  proof -
    have e: "e < a_next_exec st" "trade_ok st e" using that ok by (auto simp: exec_ok_def)
    have eq: "r_market_id (a_execs st' e) = r_market_id (a_execs st e)" "r_id (a_execs st' e) = r_id (a_execs st e)"
      "e_state (a_execs st' e) = e_state (a_execs st e)"
      using heap[OF e(1)] by (simp_all add: request_key_def)
    obtain m where m: "get_market st (r_market_id (a_execs st e)) = Some m" "r_id (a_execs st e) \<le> m_max_id m"
      using e(2) by (auto simp: trade_ok_def)
    obtain m' where m': "get_market st' (r_market_id (a_execs st e)) = Some m'" "m_max_id m \<le> m_max_id m'"
      using ids[OF m(1)] by blast
    then show ?thesis using e(2) m(2) by (simp add: trade_ok_def eq)
  qed
  moreover have "e < a_next_exec st' \<and> r_accnt (a_execs st' e) = s_accnt s"
    if "e \<in> set (s_execs s) \<union> set (s_trades s)" for e
  proof -
    have "e < a_next_exec st" "r_accnt (a_execs st e) = s_accnt s"
      using that ok unfolding exec_ok_def by blast+
    then show ?thesis using heap[of e] le by simp
  qed
  moreover have "s_accnt s' = s_accnt s" "s_execs s' = s_execs s" "s_trades s' = s_trades s"
    using s(2) by (simp_all add: same_exec_def)
  ultimately show "exec_ok st' s'" using ok by (simp add: exec_ok_def)
qed

lemma posn_inv_frame:
  assumes inv: "posn_inv st" and rel: "sess_rel same_posn st st'" and le: "a_next_posn st \<le> a_next_posn st'"
    and heap: "\<And>q. q < a_next_posn st \<Longrightarrow> p_market_id (a_posns st' q) = p_market_id (a_posns st q)
        \<and> p_accnt (a_posns st' q) = p_accnt (a_posns st q)"
  shows "posn_inv st'"
  unfolding posn_inv_def
proof (intro allI impI)
  fix a s' assume "get_sess st' a = Some s'"
  then obtain s where s: "get_sess st a = Some s" "same_posn s s'" using sess_relD[OF rel] by blast
  then have ok: "set_ok (posn_key (a_posns st)) (s_posns s)"
    "\<forall>q\<in>set (s_posns s). q < a_next_posn st \<and> p_accnt (a_posns st q) = s_accnt s"
    using inv by (simp_all add: posn_inv_def)
  have "set_ok (posn_key (a_posns st')) (s_posns s) = set_ok (posn_key (a_posns st)) (s_posns s)"
    using ok(2) heap by (intro set_ok_key_cong) (auto simp: posn_key_def)
  then show "set_ok (posn_key (a_posns st')) (s_posns s') \<and>
      (\<forall>q\<in>set (s_posns s'). q < a_next_posn st' \<and> p_accnt (a_posns st' q) = s_accnt s')"
    using ok s(2) heap le by (fastforce simp: same_posn_def)
qed

text \<open>The books, where markets keep their sides and their orders are unchanged.\<close>

definition same_book :: "market \<Rightarrow> market \<Rightarrow> bool" where
  "same_book m m' \<longleftrightarrow> m_id m' = m_id m \<and> m_bid_side m' = m_bid_side m \<and> m_offer_side m' = m_offer_side m
     \<and> m_max_id m \<le> m_max_id m'"

lemma same_book_listed: "same_book m m' \<Longrightarrow> listed m' = listed m"
  by (simp add: same_book_def listed_def)

definition market_rel :: "app \<Rightarrow> app \<Rightarrow> bool" where
  "market_rel st st' \<longleftrightarrow> (\<forall>mid. case get_market st mid of
     None \<Rightarrow> get_market st' mid = None | Some m \<Rightarrow> \<exists>m'. get_market st' mid = Some m' \<and> same_book m m')"

lemma market_relD:
  "market_rel st st' \<Longrightarrow> get_market st' mid = Some m' \<Longrightarrow> \<exists>m. get_market st mid = Some m \<and> same_book m m'"
  unfolding market_rel_def by (drule spec[of _ mid]) (auto split: option.splits)

lemma market_relE:
  "market_rel st st' \<Longrightarrow> get_market st mid = Some m \<Longrightarrow> \<exists>m'. get_market st' mid = Some m' \<and> same_book m m'"
  unfolding market_rel_def by (drule spec[of _ mid]) auto

lemma market_rel_live: "market_rel st st' \<Longrightarrow> live st' = live st"
  unfolding live_def by (rule ext) (metis market_relD market_relE same_book_listed)

lemma market_rel_refl: "a_markets st' = a_markets st \<Longrightarrow> market_rel st st'"
  by (auto simp: market_rel_def get_market_def same_book_def split: option.split)

lemma market_rel_put:
  assumes "set_ok m_id (a_markets st)" and "get_market st (m_id m') = Some m" and "same_book m m'"
    and "a_markets st' = a_markets (put_market m' st)"
  shows "market_rel st st'"
proof -
  have "get_market st' mid = get_market (put_market m' st) mid" for mid using assms(4) by (rule get_market_cong)
  then show ?thesis
    using assms by (auto simp: market_rel_def get_market_put_market same_book_def split: option.split)
qed

lemma book_inv_frame:
  assumes inv: "book_inv st" and s: "set_ok m_id (a_markets st')" and rel: "market_rel st st'"
    and heap: "\<And>p. live st p \<Longrightarrow> a_orders st' p = a_orders st p" and le: "a_next_order st \<le> a_next_order st'"
  shows "book_inv st'"
  unfolding book_inv_def
proof (intro conjI allI impI s)
  fix mid m' assume "get_market st' mid = Some m'"
  then obtain m where m: "get_market st mid = Some m" "same_book m m'" using market_relD[OF rel] by blast
  then have l: "\<And>p. p \<in> listed m \<Longrightarrow> live st p" by (auto simp: live_def)
  have "market_inv (a_orders st) m" using inv m(1) by (rule book_market)
  then have "market_inv (a_orders st') m" by (rule market_inv_cong) (use l heap in simp)
  then show "market_inv (a_orders st') m'"
    by (rule market_inv_frame) (use m(2) in \<open>simp_all add: same_book_def\<close>)
  show "\<forall>p\<in>listed m'. p < a_next_order st'"
    using inv m le by (fastforce simp: book_inv_def same_book_listed)
qed

section \<open>Operations on one order\<close>

text \<open>The book of one market changes in one order, which no other market lists.\<close>

lemma book_inv_market:
  assumes inv: "book_inv st" and m: "get_market st mid = Some m" and id: "m_id m' = mid"
    and inv': "market_inv (a_orders st') m'" and frame: "\<And>q. q \<noteq> p \<Longrightarrow> a_orders st' q = a_orders st q"
    and p: "\<not> live st p \<or> r_market_id (a_orders st p) = mid" "p < a_next_order st'"
    and sub: "listed m' \<subseteq> insert p (listed m)" and le: "a_next_order st \<le> a_next_order st'"
    and markets: "a_markets st' = a_markets (put_market m' st)"
  shows "book_inv st'" and "live st' q \<longleftrightarrow> q \<in> listed m' \<or> live st q \<and> q \<notin> listed m"
proof -
  have ok: "set_ok m_id (a_markets st)" using inv by (simp add: book_inv_def)
  have get: "get_market st' k = (if k = mid then Some m' else get_market st k)" for k
    using get_market_cong[OF markets, of k] m id ok by (simp add: get_market_put_market)
  have other: "p \<notin> listed m2" if "get_market st k = Some m2" "k \<noteq> mid" for k m2
    using that p(1) listed_market_id[OF inv that(1)] by (auto simp: live_def)
  show "book_inv st'"
    unfolding book_inv_def
  proof (intro conjI allI impI)
    show "set_ok m_id (a_markets st')" using ok markets by simp
  next
    fix k m2 assume k: "get_market st' k = Some m2"
    show "market_inv (a_orders st') m2"
    proof (cases "k = mid")
      case False
      with k get have m2: "get_market st k = Some m2" by simp
      show ?thesis
        by (rule market_inv_cong[OF book_market[OF inv m2]], rule frame) (use other[OF m2 False] in blast)
    qed (use k get inv' in simp)
    show "\<forall>q\<in>listed m2. q < a_next_order st'"
    proof (cases "k = mid")
      case True
      with k get have m2: "m2 = m'" by simp
      have "q < a_next_order st" if "q \<in> listed m" for q using that inv m by (simp add: book_inv_def)
      with m2 sub p(2) le show ?thesis by (metis insertE less_le_trans subsetD)
    next
      case False
      with k get have "get_market st k = Some m2" by simp
      with inv le show ?thesis by (auto simp: book_inv_def intro: less_le_trans)
    qed
  qed
  show "live st' q \<longleftrightarrow> q \<in> listed m' \<or> live st q \<and> q \<notin> listed m"
  proof
    assume "live st' q"
    then obtain k m2 where k: "get_market st' k = Some m2" "q \<in> listed m2" by (auto simp: live_def)
    show "q \<in> listed m' \<or> live st q \<and> q \<notin> listed m"
    proof (cases "k = mid")
      case False
      with k get have m2: "get_market st k = Some m2" by simp
      then have "r_market_id (a_orders st q) = k" using listed_market_id[OF inv m2 k(2)] by simp
      with False have "q \<notin> listed m" using listed_market_id[OF inv m, of q] by auto
      then show ?thesis using m2 k(2) by (auto simp: live_def)
    qed (use k get in simp)
  next
    assume "q \<in> listed m' \<or> live st q \<and> q \<notin> listed m"
    then show "live st' q"
    proof
      assume "q \<in> listed m'" then show ?thesis using get by (auto simp: live_def)
    next
      assume q: "live st q \<and> q \<notin> listed m"
      then obtain k m2 where k: "get_market st k = Some m2" "q \<in> listed m2" by (auto simp: live_def)
      with q m have "k \<noteq> mid" by auto
      with k get have "get_market st' k = Some m2" by simp
      with k(2) show ?thesis by (auto simp: live_def)
    qed
  qed
qed

lemma own_ok_remove:
  assumes ok: "own_ok h L s" and L': "\<And>q. L' q \<longleftrightarrow> L q \<and> q \<noteq> p" and p: "L p"
    and key: "\<And>q. L q \<Longrightarrow> request_key (h' q) = request_key (h q) \<and> r_ref (h' q) = r_ref (h q)
        \<and> r_accnt (h' q) = r_accnt (h q)"
    and s': "same_own (if r_accnt (h p) = s_accnt s then sess_remove_order h' p s else s) s'"
  shows "own_ok h' L' s'"
proof -
  have ok': "own_ok h' L s" by (rule own_ok_heap[OF ok]) (use key in auto)
  show ?thesis
  proof (cases "r_accnt (h p) = s_accnt s")
    case True
    then have mem: "p \<in> set (s_orders s)" using ok p by (simp add: own_ok_def)
    let ?t = "sess_remove_order h' p s"
    have acc: "s_accnt ?t = s_accnt s" by (simp add: sess_remove_order_def Let_def)
    have o: "s_orders ?t = set_remove (order_id_key h') p (s_orders s)" by (simp add: sess_remove_order_def Let_def)
    have r: "s_ref_idx ?t = (if r_ref (h' p) \<noteq> [] then set_remove (order_ref_key h') p (s_ref_idx s) else s_ref_idx s)"
      by (simp add: sess_remove_order_def Let_def)
    have orders: "set (s_orders ?t) = set (s_orders s) - {p}"
      using ok' mem set_ok_inj[of "order_id_key h'" "s_orders s" _ p]
      by (auto simp: o set_set_remove own_ok_def)
    have refs: "L' q \<and> r_accnt (h' q) = s_accnt s \<and> r_ref (h' q) \<noteq> []" if "q \<in> set (s_ref_idx ?t)" for q
    proof -
      have "L q \<and> r_accnt (h' q) = s_accnt s \<and> r_ref (h' q) \<noteq> []" if "q \<in> set (s_ref_idx s)" for q
        using that ok' unfolding own_ok_def by blast
      moreover have "q \<in> set (s_ref_idx s) \<and> order_ref_key h' q \<noteq> order_ref_key h' p \<or>
          q \<in> set (s_ref_idx s) \<and> r_ref (h' p) = []"
        using that by (auto simp: r set_set_remove split: if_splits)
      ultimately show ?thesis using L' by (auto simp: order_ref_key_def)
    qed
    have "own_ok h' L' ?t"
      unfolding own_ok_def orders
    proof (intro conjI allI)
      show "set_ok (order_id_key h') (s_orders ?t)" using ok' by (simp add: o set_ok_remove own_ok_def)
      show "set_ok (order_ref_key h') (s_ref_idx ?t)" using ok' by (simp add: r set_ok_remove own_ok_def)
      show "q \<in> set (s_orders s) - {p} \<longleftrightarrow> L' q \<and> r_accnt (h' q) = s_accnt ?t" for q
        using ok' L' by (auto simp: own_ok_def sess_remove_order_def Let_def)
      show "\<forall>q\<in>set (s_ref_idx ?t). L' q \<and> r_accnt (h' q) = s_accnt ?t \<and> r_ref (h' q) \<noteq> []"
        using refs unfolding acc by blast
    qed
    moreover have "same_own ?t s'" using s' True by simp
    ultimately show ?thesis unfolding same_own_def by (metis own_ok_frame)
  next
    case False
    then have "p \<notin> set (s_orders s)" using ok by (simp add: own_ok_def)
    with ok' L' have "own_ok h' L' s" by (auto simp: own_ok_def)
    moreover have "same_own s s'" using s' False by simp
    ultimately show ?thesis unfolding same_own_def by (metis own_ok_frame)
  qed
qed

lemma own_ok_insert:
  assumes ok: "own_ok h L s" and L': "\<And>q. L' q \<longleftrightarrow> L q \<or> q = p" and p: "\<not> L p"
    and key: "\<And>q. L q \<Longrightarrow> request_key (h' q) = request_key (h q) \<and> r_ref (h' q) = r_ref (h q)
        \<and> r_accnt (h' q) = r_accnt (h q)"
    and fresh: "\<And>q. L q \<Longrightarrow> request_key (h q) \<noteq> request_key (h' p)"
    and s': "same_own (if r_accnt (h' p) = s_accnt s then sess_insert_order h' p s else s) s'"
  shows "own_ok h' L' s'"
proof -
  have ok': "own_ok h' L s" by (rule own_ok_heap[OF ok]) (use key in auto)
  show ?thesis
  proof (cases "r_accnt (h' p) = s_accnt s")
    case True
    let ?t = "sess_insert_order h' p s"
    have acc: "s_accnt ?t = s_accnt s" by (simp add: sess_insert_order_def Let_def)
    have o: "s_orders ?t = set_insert (order_id_key h') p (s_orders s)"
      by (simp add: sess_insert_order_def Let_def)
    have r: "s_ref_idx ?t = (if r_ref (h' p) \<noteq> [] then set_insert (order_ref_key h') p (s_ref_idx s) else s_ref_idx s)"
      by (simp add: sess_insert_order_def Let_def)
    have "order_id_key h' p \<notin> order_id_key h' ` set (s_orders s)"
      using ok fresh key by (auto simp: order_id_key_def own_ok_def) (metis key)
    then have orders: "set (s_orders ?t) = insert p (set (s_orders s))"
      using ok' by (simp add: o set_set_insert own_ok_def)
    have refs: "L' q \<and> r_accnt (h' q) = s_accnt s \<and> r_ref (h' q) \<noteq> []" if "q \<in> set (s_ref_idx ?t)" for q
    proof -
      have "L q \<and> r_accnt (h' q) = s_accnt s \<and> r_ref (h' q) \<noteq> []" if "q \<in> set (s_ref_idx s)" for q
        using that ok' unfolding own_ok_def by blast
      moreover have "set_ok (order_ref_key h') (s_ref_idx s)" using ok' by (simp add: own_ok_def)
      then have "q \<in> set (s_ref_idx s) \<or> q = p \<and> r_ref (h' p) \<noteq> []"
        using that by (auto simp: r set_set_insert split: if_splits)
      ultimately show ?thesis using L' True by auto
    qed
    have "own_ok h' L' ?t"
      unfolding own_ok_def orders
    proof (intro conjI allI)
      show "set_ok (order_id_key h') (s_orders ?t)" using ok' by (simp add: o set_ok_insert own_ok_def)
      show "set_ok (order_ref_key h') (s_ref_idx ?t)" using ok' by (simp add: r set_ok_insert own_ok_def)
      show "q \<in> insert p (set (s_orders s)) \<longleftrightarrow> L' q \<and> r_accnt (h' q) = s_accnt ?t" for q
        using ok' L' True by (auto simp: own_ok_def sess_insert_order_def Let_def)
      show "\<forall>q\<in>set (s_ref_idx ?t). L' q \<and> r_accnt (h' q) = s_accnt ?t \<and> r_ref (h' q) \<noteq> []"
        using refs unfolding acc by blast
    qed
    moreover have "same_own ?t s'" using s' True by simp
    ultimately show ?thesis unfolding same_own_def by (metis own_ok_frame)
  next
    case False
    with ok' L' p have "own_ok h' L' s" by (auto simp: own_ok_def)
    moreover have "same_own s s'" using s' False by simp
    ultimately show ?thesis unfolding same_own_def by (metis own_ok_frame)
  qed
qed

section \<open>Booking executions\<close>

lemma exec_inv_put:
  assumes inv: "exec_inv st" and s: "set_ok s_accnt (a_sesss st)" "exec_ok st s'"
  shows "exec_inv (put_sess s' st)"
  unfolding exec_inv_def
proof (intro allI impI)
  fix a t assume "get_sess (put_sess s' st) a = Some t"
  then have "get_sess st a = Some t \<or> t = s'" using s(1) by (auto simp: get_sess_put_sess split: if_splits)
  then have "exec_ok st t" using inv s(2) by (auto simp: exec_inv_def)
  then show "exec_ok (put_sess s' st) t" by (simp add: exec_ok_def trade_ok_def)
qed

lemma exec_ok_push:
  assumes "exec_ok st s" and "e < a_next_exec st" and "r_accnt (a_execs st e) = s_accnt s"
    and "same_exec (push_exec_front e s) s'"
  shows "exec_ok st s'"
proof -
  have "set (s_execs s') \<subseteq> insert e (set (s_execs s))"
    using assms(4) circ_push_front_subset[of "s_max_execs s" e "s_execs s"]
    by (auto simp: same_exec_def push_exec_front_def)
  then show ?thesis
    using assms by (auto simp: exec_ok_def same_exec_def push_exec_front_def)
qed

lemma exec_ok_trade:
  assumes "exec_ok st s" and "e < a_next_exec st" and "r_accnt (a_execs st e) = s_accnt s"
    and "trade_ok st e" and "same_exec (insert_trade (a_execs st) e (push_exec_front e s)) s'"
  shows "exec_ok st s'"
proof -
  have ok: "exec_ok st (push_exec_front e s)"
    using assms(1-3) by (rule exec_ok_push) (simp add: same_exec_def)
  have "set (s_trades s') \<subseteq> insert e (set (s_trades s))" "set_ok (exec_id_key (a_execs st)) (s_trades s')"
    using assms(1,5) set_set_insert[of "exec_id_key (a_execs st)" "s_trades s" e]
    by (auto simp: same_exec_def insert_trade_def push_exec_front_def exec_ok_def set_ok_insert split: if_splits)
  moreover have "s_accnt s' = s_accnt s" "s_execs s' = s_execs (push_exec_front e s)"
    using assms(5) by (simp_all add: same_exec_def insert_trade_def push_exec_front_def)
  ultimately show ?thesis
    using ok assms(1-4) unfolding exec_ok_def by (auto simp: push_exec_front_def)
qed

end
