(* ===== verification/App_Match.thy ===== *)
theory App_Match
  imports App_Inv
begin

text \<open>
  Matching: what \<open>match_orders\<close> and \<open>commit_matches\<close> of \<open>lob/App.cpp\<close> do. The specification \<open>fills\<close>
  says which lots of which orders an incoming order takes. The loop of the code, with its
  allocations of identifiers, executions and positions, computes it (\<open>match_loop_ok\<close>) and changes
  nothing that another component can see but fresh objects (\<open>stage\<close>); committing the matches makes
  the fills on the book (\<open>commit_matches_ok\<close>).
\<close>

section \<open>Allocation\<close>

text \<open>What a phase that only allocates leaves alone.\<close>

definition same_sess :: "sess \<Rightarrow> sess \<Rightarrow> bool" where
  "same_sess s s' \<longleftrightarrow> same_own s s' \<and> same_exec s s' \<and> set (s_posns s) \<subseteq> set (s_posns s')"

definition stage :: "app \<Rightarrow> app \<Rightarrow> bool" where
  "stage st st' \<longleftrightarrow> a_orders st' = a_orders st \<and> a_next_order st' = a_next_order st
     \<and> a_mq st' = a_mq st \<and> a_bus_day st' = a_bus_day st
     \<and> a_next_exec st \<le> a_next_exec st' \<and> (\<forall>e<a_next_exec st. a_execs st' e = a_execs st e)
     \<and> a_next_posn st \<le> a_next_posn st' \<and> (\<forall>q<a_next_posn st. a_posns st' q = a_posns st q)
     \<and> market_rel st st' \<and> sess_rel same_sess st st'"

lemma same_sess_refl [simp]: "same_sess s s"
  by (simp add: same_sess_def same_defs)

lemma same_book_refl [simp]: "same_book m m"
  by (simp add: same_book_def)

lemma market_rel_trans:
  assumes "market_rel st1 st2" and "market_rel st2 st3"
  shows "market_rel st1 st3"
  unfolding market_rel_def
proof
  fix mid
  show "case get_market st1 mid of None \<Rightarrow> get_market st3 mid = None
    | Some m \<Rightarrow> \<exists>m'. get_market st3 mid = Some m' \<and> same_book m m'"
  proof (cases "get_market st1 mid")
    case None
    then have "get_market st2 mid = None"
      using market_relD[OF assms(1), of mid] by (cases "get_market st2 mid") auto
    then have "get_market st3 mid = None"
      using market_relD[OF assms(2), of mid] by (cases "get_market st3 mid") auto
    with None show ?thesis by simp
  next
    case (Some m)
    then obtain m2 where m2: "get_market st2 mid = Some m2" "same_book m m2" using market_relE[OF assms(1)] by blast
    then obtain m3 where "get_market st3 mid = Some m3" "same_book m2 m3" using market_relE[OF assms(2)] by blast
    with Some m2(2) show ?thesis by (auto simp: same_book_def)
  qed
qed

lemma stage_refl: "stage st st"
  unfolding stage_def by (auto intro: market_rel_refl sess_rel_refl)

lemma same_sess_trans: "same_sess s1 s2 \<Longrightarrow> same_sess s2 s3 \<Longrightarrow> same_sess s1 s3"
  by (auto simp: same_sess_def same_defs)

lemma stage_trans:
  assumes "stage st1 st2" and "stage st2 st3"
  shows "stage st1 st3"
proof -
  have "sess_rel same_sess st1 st3"
    using assms sess_rel_trans[of same_sess st1 st2 st3] same_sess_trans by (auto simp: stage_def)
  moreover have "market_rel st1 st3" using assms market_rel_trans by (auto simp: stage_def)
  ultimately show ?thesis using assms by (simp add: stage_def)
qed

lemma stage_sess:
  assumes "stage st st'"
  shows "sess_rel same_own st st'" and "sess_rel same_exec st st'"
  using assms by (auto simp: stage_def same_sess_def intro: sess_rel_mono)

lemma stage_live: "stage st st' \<Longrightarrow> live st' = live st"
  by (rule market_rel_live) (simp add: stage_def)

text \<open>The invariant of a staged state, but for the positions, which the phase adds to.\<close>

lemma app_inv_stage:
  assumes inv: "app_inv local_jd st" and stage: "stage st st'" and posn: "posn_inv st'"
    and s: "set_ok m_id (a_markets st')" "set_ok s_accnt (a_sesss st')"
  shows "app_inv local_jd st'"
proof -
  note parts = app_inv_parts[OF inv]
  have rel: "market_rel st st'" using stage by (simp add: stage_def)
  have "book_inv st'"
    using stage by (intro book_inv_frame[OF parts(1) s(1) rel]) (auto simp: stage_def)
  moreover have "own_inv st'"
    using stage by (intro own_inv_frame[OF parts(2) s(2) stage_sess(1)[OF stage] stage_live[OF stage]])
      (auto simp: stage_def)
  moreover have "exec_inv st'"
  proof (rule exec_inv_frame[OF parts(3) stage_sess(2)[OF stage]])
    fix mid m assume "get_market st mid = Some m"
    then show "\<exists>m'. get_market st' mid = Some m' \<and> m_max_id m \<le> m_max_id m'"
      using market_relE[OF rel] by (auto simp: same_book_def)
  qed (use stage in \<open>auto simp: stage_def\<close>)
  ultimately show ?thesis
    using posn parts stage by (simp add: app_inv_def stage_def)
qed

lemma alloc_exec_ok:
  assumes inv: "app_inv local_jd st" and eq: "alloc_exec ex st = (e, st')"
  shows "stage st st'" and "app_inv local_jd st'" and "a_execs st' e = ex" and "e = a_next_exec st"
    and "a_next_exec st' = a_next_exec st + 1" and "a_posns st' = a_posns st"
    and "a_sesss st' = a_sesss st" and "a_markets st' = a_markets st"
proof -
  have st': "st' = st\<lparr>a_execs := (a_execs st)(a_next_exec st := ex), a_next_exec := a_next_exec st + 1\<rparr>"
    and e: "e = a_next_exec st"
    using eq by (auto simp: alloc_exec_def)
  show "e = a_next_exec st" by (rule e)
  show s: "stage st st'"
    unfolding stage_def by (auto simp: st' intro: market_rel_refl sess_rel_refl)
  show "app_inv local_jd st'"
  proof (rule app_inv_stage[OF inv s])
    show "posn_inv st'" using app_inv_parts(4)[OF inv] by (simp add: posn_inv_def st')
  qed (use app_inv_parts(7,8)[OF inv] in \<open>simp_all add: st'\<close>)
  show "a_execs st' e = ex" "a_next_exec st' = a_next_exec st + 1" "a_posns st' = a_posns st"
    "a_sesss st' = a_sesss st" "a_markets st' = a_markets st"
    by (simp_all add: st' e)
qed

lemma put_market_stage:
  assumes inv: "app_inv local_jd st" and m: "get_market st mid = Some m" and same: "same_book m m'"
  shows "stage st (put_market m' st)" and "app_inv local_jd (put_market m' st)"
    and "get_market (put_market m' st) mid = Some m'"
proof -
  note parts = app_inv_parts[OF inv]
  have id: "m_id m' = mid" using book_id[OF parts(1) m] same by (simp add: same_book_def)
  then have "market_rel st (put_market m' st)"
    using m same by (intro market_rel_put[OF parts(7)]) auto
  then show s: "stage st (put_market m' st)"
    unfolding stage_def by (auto intro: sess_rel_refl)
  show "app_inv local_jd (put_market m' st)"
    by (rule app_inv_stage[OF inv s]) (use parts in \<open>auto simp: posn_inv_def\<close>)
  show "get_market (put_market m' st) mid = Some m'"
    using m id parts(7) by (simp add: get_market_put_market)
qed

text \<open>The two ways \<open>Sess::posn\<close> goes, as one lemma on the session that results.\<close>

lemma sess_posn_ok:
  assumes ok: "set_ok (posn_key h) (s_posns s)"
    and own: "\<And>q. q \<in> set (s_posns s) \<Longrightarrow> q < n \<and> p_accnt (h q) = s_accnt s"
    and eq: "sess_posn mid ins day (h, n, s) = (q, h', n', s')"
  shows "same_sess s s' \<and> n \<le> n' \<and> (\<forall>q<n. h' q = h q) \<and> set_ok (posn_key h') (s_posns s')
    \<and> (\<forall>q\<in>set (s_posns s'). q < n' \<and> p_accnt (h' q) = s_accnt s')
    \<and> q \<in> set (s_posns s') \<and> p_market_id (h' q) = mid"
proof (cases "set_find (posn_key h) mid (s_posns s)")
  case (Some r)
  with eq have "r = q" "h' = h" "n' = n" "s' = s" by (auto simp: sess_posn_def)
  with Some ok own show ?thesis by (simp add: set_find_Some_iff posn_key_def)
next
  case None
  let ?h = "h(n := new_posn (s_accnt s) mid ins day)"
  let ?s = "s\<lparr>s_posns := set_insert (posn_key ?h) n (s_posns s)\<rparr>"
  have r: "q = n" "h' = ?h" "n' = n + 1" "s' = ?s"
    using eq None by (auto simp: sess_posn_def Let_def)
  have key: "posn_key ?h q = posn_key h q" if "q \<in> set (s_posns s)" for q
    using own[OF that] by (auto simp: posn_key_def)
  have ok': "set_ok (posn_key ?h) (s_posns s)"
    using ok set_ok_key_cong[of "s_posns s" "posn_key ?h" "posn_key h"] key by simp
  have n: "posn_key ?h n = mid" by (simp add: posn_key_def posn_defs)
  have "mid \<notin> posn_key h ` set (s_posns s)" using None ok by (simp add: set_find_None_iff)
  then have "mid \<notin> posn_key ?h ` set (s_posns s)" using key by (simp add: image_iff)
  then have set: "set (s_posns ?s) = insert n (set (s_posns s))"
    using ok' n by (simp add: set_set_insert)
  have "set_ok (posn_key ?h) (s_posns ?s)" using ok' by (simp add: set_ok_insert)
  moreover have "q < n + 1 \<and> p_accnt (?h q) = s_accnt s" if "q \<in> set (s_posns ?s)" for q
    using that own unfolding set by (auto simp: posn_defs less_Suc_eq)
  ultimately show ?thesis
    using r set n by (auto simp: same_sess_def same_defs posn_key_def)
qed

lemma app_posn_ok:
  assumes inv: "app_inv local_jd st" and s: "get_sess st a = Some s" and eq: "app_posn s m st = (q, st')"
  shows "stage st st'" and "app_inv local_jd st'"
    and "\<exists>s'. get_sess st' a = Some s' \<and> q \<in> set (s_posns s')"
    and "p_market_id (a_posns st' q) = m_id m"
    and "a_markets st' = a_markets st"
    and "a_execs st' = a_execs st" and "a_next_exec st' = a_next_exec st"
proof -
  note parts = app_inv_parts[OF inv]
  have id: "s_accnt s = a" using own_id[OF parts(2) s] .
  have ok: "set_ok (posn_key (a_posns st)) (s_posns s)"
    and own: "\<And>q. q \<in> set (s_posns s) \<Longrightarrow> q < a_next_posn st \<and> p_accnt (a_posns st q) = s_accnt s"
    using parts(4) s by (auto simp: posn_inv_def)
  obtain h n s' where r: "sess_posn (m_id m) (m_instr m) (m_settl_day m) (a_posns st, a_next_posn st, s) = (q, h, n, s')"
    and st': "st' = put_sess s' (st\<lparr>a_posns := h, a_next_posn := n\<rparr>)"
    using eq by (auto simp: app_posn_def split: prod.splits)
  note P = sess_posn_ok[OF ok own r]
  have id': "s_accnt s' = a" using P id by (simp add: same_sess_def same_defs)
  have get: "get_sess st' b = (if b = a then Some s' else get_sess st b)" for b
    using parts(8) s id' by (auto simp: st' get_sess_put_sess)
  have rel: "sess_rel same_sess st st'"
    using s P by (auto simp: sess_rel_def get split: option.split)
  show stage: "stage st st'"
    unfolding stage_def using P rel by (auto simp: st' intro: market_rel_refl)
  have "posn_inv st'"
    unfolding posn_inv_def
  proof (intro allI impI)
    fix b t assume t: "get_sess st' b = Some t"
    show "set_ok (posn_key (a_posns st')) (s_posns t) \<and>
      (\<forall>q\<in>set (s_posns t). q < a_next_posn st' \<and> p_accnt (a_posns st' q) = s_accnt t)"
    proof (cases "b = a")
      case True
      then have "t = s'" using t by (simp add: get)
      then show ?thesis using P by (simp add: st')
    next
      case False
      with t have "get_sess st b = Some t" by (simp add: get)
      then have B: "set_ok (posn_key (a_posns st)) (s_posns t)"
        "\<forall>q\<in>set (s_posns t). q < a_next_posn st \<and> p_accnt (a_posns st q) = s_accnt t"
        using parts(4) by (simp_all add: posn_inv_def)
      then have "set_ok (posn_key h) (s_posns t)"
        using P set_ok_key_cong[of "s_posns t" "posn_key h" "posn_key (a_posns st)"]
        by (simp add: posn_key_def)
      then show ?thesis using B P by (auto simp: st' intro: less_le_trans)
    qed
  qed
  then show "app_inv local_jd st'"
    using parts by (intro app_inv_stage[OF inv stage]) (simp_all add: st')
  show "\<exists>s'. get_sess st' a = Some s' \<and> q \<in> set (s_posns s')" using P by (simp add: get)
  show "p_market_id (a_posns st' q) = m_id m" "a_markets st' = a_markets st"
    "a_execs st' = a_execs st" "a_next_exec st' = a_next_exec st"
    using P by (simp_all add: st')
qed

section \<open>The specification of matching\<close>

text \<open>
  What an incoming order \<open>t\<close> with \<open>rem\<close> lots to go takes from a queue: from each order in turn all
  that both have, while the prices cross.
\<close>

fun fills :: "oheap \<Rightarrow> order \<Rightarrow> direct \<Rightarrow> lots \<Rightarrow> optr list \<Rightarrow> (optr \<times> lots) list" where
  "fills h t d rem [] = []"
| "fills h t d rem (p # ps) =
     (if rem = 0 \<or> spread t (h p) d > 0 then []
      else let n = min rem (o_resd_lots (h p)) in (p, n) # fills h t d (rem - n) ps)"

definition fill_lots :: "(optr \<times> lots) list \<Rightarrow> lots" where
  "fill_lots fs = (\<Sum>(p, n)\<leftarrow>fs. n)"

definition fill_cost :: "oheap \<Rightarrow> (optr \<times> lots) list \<Rightarrow> cost" where
  "fill_cost h fs = (\<Sum>(p, n)\<leftarrow>fs. cost n (o_ticks (h p)))"

text \<open>The last fill, as its lots and price.\<close>

fun last_fill :: "oheap \<Rightarrow> lots \<times> ticks \<Rightarrow> (optr \<times> lots) list \<Rightarrow> lots \<times> ticks" where
  "last_fill h z [] = z"
| "last_fill h z ((p, n) # fs) = last_fill h (n, o_ticks (h p)) fs"

lemma fill_lots_simps [simp]:
  "fill_lots [] = 0" "fill_lots ((p, n) # fs) = n + fill_lots fs"
  by (simp_all add: fill_lots_def)

lemma fill_cost_simps [simp]:
  "fill_cost h [] = 0" "fill_cost h ((p, n) # fs) = cost n (o_ticks (h p)) + fill_cost h fs"
  by (simp_all add: fill_cost_def)

text \<open>The queue is taken from the front, and only its last fill can be partial.\<close>

lemma fills_prefix: "map fst (fills h t d rem ps) = take (length (fills h t d rem ps)) ps"
  by (induction h t d rem ps rule: fills.induct) (auto simp: Let_def)

lemma fills_bounds:
  "0 \<le> rem \<Longrightarrow> (\<And>p. p \<in> set ps \<Longrightarrow> 0 < o_resd_lots (h p)) \<Longrightarrow> (q, n) \<in> set (fills h t d rem ps) \<Longrightarrow>
     q \<in> set ps \<and> 0 < n \<and> n \<le> o_resd_lots (h q) \<and> spread t (h q) d \<le> 0"
proof (induction h t d rem ps rule: fills.induct)
  case (2 h t d rem p ps)
  show ?case
  proof (cases "rem = 0 \<or> spread t (h p) d > 0")
    case False
    have "0 < o_resd_lots (h p)" using 2(3) by simp
    moreover have "(q, n) = (p, min rem (o_resd_lots (h p))) \<or>
        (q, n) \<in> set (fills h t d (rem - min rem (o_resd_lots (h p))) ps)"
      using 2(4) False by (simp add: Let_def)
    ultimately show ?thesis using 2(1)[OF False refl] 2(2,3) False by auto
  qed (use 2(4) in auto)
qed simp

lemma fills_total:
  "0 \<le> rem \<Longrightarrow> (\<And>p. p \<in> set ps \<Longrightarrow> 0 < o_resd_lots (h p)) \<Longrightarrow>
     0 \<le> fill_lots (fills h t d rem ps) \<and> fill_lots (fills h t d rem ps) \<le> rem"
proof (induction h t d rem ps rule: fills.induct)
  case (2 h t d rem p ps)
  show ?case
  proof (cases "rem = 0 \<or> spread t (h p) d > 0")
    case False
    have "0 < o_resd_lots (h p)" using 2(3) by simp
    then have n: "0 \<le> min rem (o_resd_lots (h p))" "min rem (o_resd_lots (h p)) \<le> rem" using 2(2) by auto
    with 2(1)[OF False refl] 2(3) False show ?thesis by (simp add: Let_def)
  qed (use 2(2) in auto)
qed simp

lemma fills_distinct: "distinct ps \<Longrightarrow> distinct (map fst (fills h t d rem ps))"
  by (simp add: fills_prefix distinct_take)

text \<open>Where lots are left over, the whole queue at a crossing price is taken.\<close>

lemma fills_maximal:
  assumes "0 \<le> rem" and "\<And>p. p \<in> set ps \<Longrightarrow> 0 < o_resd_lots (h p)"
    and "fill_lots (fills h t d rem ps) < rem"
  shows "fills h t d rem ps = map (\<lambda>p. (p, o_resd_lots (h p))) (takeWhile (\<lambda>p. spread t (h p) d \<le> 0) ps)"
  using assms
proof (induction h t d rem ps rule: fills.induct)
  case (2 h t d rem p ps)
  show ?case
  proof (cases "rem = 0 \<or> spread t (h p) d > 0")
    case False
    have pos: "0 < o_resd_lots (h p)" using 2(3) by simp
    let ?n = "min rem (o_resd_lots (h p))"
    have "0 \<le> fill_lots (fills h t d (rem - ?n) ps)"
      using fills_total[of "rem - ?n" ps h t d] 2(3) by auto
    with False 2(4) have "?n = o_resd_lots (h p)" by (auto simp: Let_def min_def split: if_splits)
    with False 2(1)[OF False refl] 2(2-4) pos show ?thesis by (auto simp: Let_def)
  qed (use 2(2,4) in auto)
qed simp

section \<open>Matches\<close>

text \<open>
  What a match must be for its commit: the maker is live in the market with the lots to take, and
  the two trades are fills of the maker and of the taker of account \<open>accnt\<close> on side \<open>sd\<close>.
\<close>

definition match_ok :: "symbol \<Rightarrow> id64 \<Rightarrow> side \<Rightarrow> app \<Rightarrow> match \<Rightarrow> bool" where
  "match_ok accnt mid sd st mt \<longleftrightarrow>
     (let p = mt_maker_order mt; e1 = mt_maker_trade mt; e2 = mt_taker_trade mt; q = mt_maker_posn mt
      in live st p \<and> r_market_id (a_orders st p) = mid
       \<and> 0 < mt_lots mt \<and> mt_lots mt \<le> o_resd_lots (a_orders st p)
       \<and> e1 < e2 \<and> e2 < a_next_exec st
       \<and> r_accnt (a_execs st e1) = r_accnt (a_orders st p) \<and> r_accnt (a_execs st e2) = accnt
       \<and> trade_ok st e1 \<and> trade_ok st e2
       \<and> r_side (a_execs st e1) = r_side (a_orders st p) \<and> r_side (a_execs st e2) = sd
       \<and> e_last_lots (a_execs st e1) = mt_lots mt \<and> e_last_lots (a_execs st e2) = mt_lots mt
       \<and> e_last_ticks (a_execs st e1) = o_ticks (a_orders st p)
       \<and> e_last_ticks (a_execs st e2) = o_ticks (a_orders st p)
       \<and> (\<exists>s. get_sess st (r_accnt (a_orders st p)) = Some s \<and> q \<in> set (s_posns s))
       \<and> p_market_id (a_posns st q) = mid)"

text \<open>
  What else the two executions of a match have when they are made: they name each other, and their
  position members are still zero.
\<close>

definition twins :: "exec \<Rightarrow> exec \<Rightarrow> bool" where
  "twins a b \<longleftrightarrow> e_match_id a = r_id b \<and> e_match_id b = r_id a \<and> e_cpty a = r_accnt b \<and> e_cpty b = r_accnt a
     \<and> e_liq_ind a = Maker \<and> e_liq_ind b = Taker
     \<and> e_posn_lots a = 0 \<and> e_posn_cost a = 0 \<and> e_posn_lots b = 0 \<and> e_posn_cost b = 0"

definition match_twins :: "app \<Rightarrow> match \<Rightarrow> bool" where
  "match_twins st mt \<longleftrightarrow> mt_maker_trade mt < a_next_exec st \<and> mt_taker_trade mt < a_next_exec st
     \<and> twins (a_execs st (mt_maker_trade mt)) (a_execs st (mt_taker_trade mt))"

lemma match_twins_stage: "stage st st' \<Longrightarrow> match_twins st mt \<Longrightarrow> match_twins st' mt"
  by (auto simp: match_twins_def stage_def)

lemma trade_ok_stage:
  assumes "stage st st'" and "e < a_next_exec st" and "trade_ok st e"
  shows "trade_ok st' e"
proof -
  have e: "a_execs st' e = a_execs st e" using assms by (simp add: stage_def)
  have rel: "market_rel st st'" using assms by (simp add: stage_def)
  show ?thesis
    using assms(3) market_relE[OF rel] unfolding trade_ok_def e same_book_def
    by (metis order_trans)
qed

lemma match_ok_stage:
  assumes inv: "app_inv local_jd st" and stage: "stage st st'" and ok: "match_ok accnt mid sd st mt"
  shows "match_ok accnt mid sd st' mt"
proof -
  have o: "a_orders st' = a_orders st" and l: "live st' = live st"
    using stage stage_live[OF stage] by (auto simp: stage_def)
  have e: "mt_maker_trade mt < a_next_exec st" "mt_taker_trade mt < a_next_exec st"
    using ok by (auto simp: match_ok_def Let_def)
  then have ex: "a_execs st' (mt_maker_trade mt) = a_execs st (mt_maker_trade mt)"
    "a_execs st' (mt_taker_trade mt) = a_execs st (mt_taker_trade mt)"
    using stage by (simp_all add: stage_def)
  have le: "mt_taker_trade mt < a_next_exec st'" using e(2) stage by (simp add: stage_def)
  obtain s where s: "get_sess st (r_accnt (a_orders st (mt_maker_order mt))) = Some s"
      "mt_maker_posn mt \<in> set (s_posns s)"
    using ok by (auto simp: match_ok_def Let_def)
  then have "mt_maker_posn mt < a_next_posn st" using app_inv_parts(4)[OF inv] by (auto simp: posn_inv_def)
  then have q: "a_posns st' (mt_maker_posn mt) = a_posns st (mt_maker_posn mt)"
    using stage by (simp add: stage_def)
  have "sess_rel same_sess st st'" using stage by (simp add: stage_def)
  from sess_relE[OF this s(1)] s(2) obtain s' where
    "get_sess st' (r_accnt (a_orders st (mt_maker_order mt))) = Some s'" "mt_maker_posn mt \<in> set (s_posns s')"
    by (auto simp: same_sess_def)
  moreover have "trade_ok st' (mt_maker_trade mt)" "trade_ok st' (mt_taker_trade mt)"
    using ok e by (auto simp: match_ok_def Let_def intro!: trade_ok_stage[OF stage])
  ultimately show ?thesis
    using ok le unfolding match_ok_def Let_def o l ex q by blast
qed

lemma new_match_ok:
  assumes inv: "app_inv local_jd st" and m: "get_market st mid = Some m"
    and maker: "live st p" "r_market_id (a_orders st p) = mid"
    and lots: "0 < lots" "lots \<le> o_resd_lots (a_orders st p)"
    and taker: "r_accnt (a_orders st t) = accnt" "r_side (a_orders st t) = sd" "r_market_id (a_orders st t) = mid"
  shows "\<exists>mt st'. new_match mid t p lots sum_lots sum_cost now st = Some (mt, st') \<and> stage st st'
    \<and> app_inv local_jd st' \<and> match_ok accnt mid sd st' mt \<and> match_twins st' mt
    \<and> mt_lots mt = lots \<and> mt_maker_order mt = p"
proof -
  note parts = app_inv_parts[OF inv]
  let ?po = "a_orders st p" and ?to = "a_orders st t"
  let ?m = "m\<lparr>m_max_id := m_max_id m + 2\<rparr>"
  let ?st1 = "put_market ?m st"
  have sb: "same_book m ?m" by (simp add: same_book_def)
  note s1 = put_market_stage[OF inv m sb]
  have "get_sess st (r_accnt ?po) \<noteq> None" using parts(2) maker(1) by (simp add: own_inv_def)
  then obtain s where s: "get_sess st (r_accnt ?po) = Some s" by blast
  then have s': "get_sess ?st1 (r_accnt ?po) = Some s" by simp
  obtain q st2 where q: "app_posn s ?m ?st1 = (q, st2)" by fastforce
  note s2 = app_posn_ok[OF s1(2) s' q]
  define ex1 where "ex1 = exec_fill lots (o_ticks ?po) (m_max_id m + 2) Maker (r_accnt ?to)
      (new_exec ?po (m_max_id m + 1) now)"
  define ex2 where "ex2 = exec_trade sum_lots sum_cost lots (o_ticks ?po) (m_max_id m + 1) Taker (r_accnt ?po)
      (new_exec ?to (m_max_id m + 2) now)"
  obtain e1 st3 where e1: "alloc_exec ex1 st2 = (e1, st3)" by fastforce
  note s3 = alloc_exec_ok[OF s2(2) e1]
  obtain e2 st4 where e2: "alloc_exec ex2 st3 = (e2, st4)" by fastforce
  note s4 = alloc_exec_ok[OF s3(2) e2]
  let ?mt = "\<lparr>mt_lots = lots, mt_maker_order = p, mt_maker_trade = e1, mt_maker_posn = q, mt_taker_trade = e2\<rparr>"
  have stage: "stage st st4" using s1(1) s2(1) s3(1) s4(1) by (blast intro: stage_trans)
  have mid: "m_id m = mid" using book_id[OF parts(1) m] .
  have id2: "m_max_id m + 1 + 1 = m_max_id m + 2" "\<And>x. m_max_id (m\<lparr>m_max_id := x\<rparr>) = x"
    "\<And>x y. m\<lparr>m_max_id := x, m_max_id := y\<rparr> = m\<lparr>m_max_id := y\<rparr>" by simp_all
  have new: "new_match mid t p lots sum_lots sum_cost now st = Some (?mt, st4)"
    using m s q e1 e2
    unfolding new_match_def alloc_id_def Let_def ex1_def ex2_def
    by (simp only: option.case prod.case id2 put_market_frame)
  have o: "a_orders st4 = a_orders st" and l: "live st4 = live st"
    using stage stage_live[OF stage] by (auto simp: stage_def)
  have ex: "a_execs st4 e1 = ex1" "a_execs st4 e2 = ex2" "e1 < e2" "e2 < a_next_exec st4"
    using s3(3,4,5) s4(1,3,4,5) by (auto simp: stage_def)
  have gm: "get_market st4 mid = Some ?m"
    using s1(3) s2(5) s3(8) s4(8) by (simp add: get_market_def)
  have "\<exists>s. get_sess st4 (r_accnt ?po) = Some s \<and> q \<in> set (s_posns s)"
    using s2(3) s3(7) s4(7) by (simp add: get_sess_def)
  moreover have "p_market_id (a_posns st4 q) = mid" using s2(4) s3(6) s4(6) mid by simp
  moreover have "trade_ok st4 e1" "trade_ok st4 e2"
    using gm maker(2) taker(3) by (simp_all add: trade_ok_def ex ex1_def ex2_def exec_defs)
  moreover have "r_accnt ex1 = r_accnt ?po" "r_accnt ex2 = accnt" "r_side ex1 = r_side ?po" "r_side ex2 = sd"
    "e_last_lots ex1 = lots" "e_last_lots ex2 = lots" "e_last_ticks ex1 = o_ticks ?po" "e_last_ticks ex2 = o_ticks ?po"
    using taker by (simp_all add: ex1_def ex2_def exec_defs)
  ultimately have "match_ok accnt mid sd st4 ?mt"
    using maker lots ex by (simp add: match_ok_def Let_def o l)
  moreover have "match_twins st4 ?mt"
    using ex taker(1) by (simp add: match_twins_def twins_def ex1_def ex2_def exec_defs)
  ultimately show ?thesis using new stage s4(2) by auto
qed

section \<open>The matching loop computes the specification\<close>

definition match_fill :: "match \<Rightarrow> optr \<times> lots" where
  "match_fill mt = (mt_maker_order mt, mt_lots mt)"

definition match_trades :: "match \<Rightarrow> eptr list" where
  "match_trades mt = [mt_maker_trade mt, mt_taker_trade mt]"

lemma match_loop_ok:
  assumes inv: "app_inv local_jd st" and m: "get_market st mid \<noteq> None"
    and makers: "\<And>p. p \<in> set makers \<Longrightarrow> live st p \<and> r_market_id (a_orders st p) = mid"
    and taker: "r_accnt (a_orders st t) = accnt" "r_side (a_orders st t) = sd" "r_market_id (a_orders st t) = mid"
    and sum: "x_sum_lots x \<le> o_resd_lots (a_orders st t)"
  shows "\<exists>x' st' resp' new. match_loop accnt mid t d now makers x (st, resp) = Done x' (st', resp')
    \<and> stage st st' \<and> app_inv local_jd st' \<and> x_matches x' = x_matches x @ new
    \<and> (\<forall>mt\<in>set new. match_ok accnt mid sd st' mt \<and> match_twins st' mt)
    \<and> map match_fill new = fills (a_orders st) (a_orders st t) d (o_resd_lots (a_orders st t) - x_sum_lots x) makers
    \<and> x_sum_lots x' = x_sum_lots x + fill_lots (map match_fill new)
    \<and> x_sum_cost x' = x_sum_cost x + fill_cost (a_orders st) (map match_fill new)
    \<and> x_execs x' = x_execs x @ concat (map match_trades new)
    \<and> (x_last_lots x', x_last_ticks x') =
        last_fill (a_orders st) (x_last_lots x, x_last_ticks x) (map match_fill new)"
  using assms
proof (induction makers arbitrary: x st resp)
  case Nil
  then show ?case by (auto intro: stage_refl)
next
  case (Cons p makers)
  note inv = Cons.prems(1)
  let ?h = "a_orders st"
  let ?rem = "o_resd_lots (?h t) - x_sum_lots x"
  show ?case
  proof (cases "x_sum_lots x = o_resd_lots (?h t) \<or> spread (?h t) (?h p) d > 0")
    case True
    then have "match_loop accnt mid t d now (p # makers) x (st, resp) = Done x (st, resp)"
      by (auto simp: Let_def)
    moreover have "fills ?h (?h t) d ?rem (p # makers) = []" using True by auto
    ultimately show ?thesis using inv by (auto intro: stage_refl)
  next
    case False
    let ?n = "min ?rem (o_resd_lots (?h p))" and ?ticks = "o_ticks (?h p)"
    let ?x = "x\<lparr>x_sum_lots := x_sum_lots x + ?n, x_sum_cost := x_sum_cost x + cost ?n ?ticks,
                 x_last_lots := ?n, x_last_ticks := ?ticks\<rparr>"
    obtain m where m: "get_market st mid = Some m" using Cons.prems(2) by auto
    have p: "live st p" "r_market_id (?h p) = mid" using Cons.prems(3) by auto
    have "0 < o_resd_lots (?h p)"
      using live_order_ok(1)[OF app_inv_parts(1)[OF inv] p(1)] by (simp add: order_ok_def)
    with False Cons.prems(7) have n: "0 < ?n" "?n \<le> o_resd_lots (?h p)" by auto
    obtain mt st1 where mt: "new_match mid t p ?n (x_sum_lots ?x) (x_sum_cost ?x) now st = Some (mt, st1)"
      and s1: "stage st st1" "app_inv local_jd st1" and ok: "match_ok accnt mid sd st1 mt" and tw: "match_twins st1 mt"
      and f: "mt_lots mt = ?n" "mt_maker_order mt = p"
      using new_match_ok[OF inv m p n Cons.prems(4-6), of "x_sum_lots ?x" "x_sum_cost ?x" now] by blast
    have o: "a_orders st1 = ?h" and l: "live st1 = live st"
      using s1 stage_live by (auto simp: stage_def)
    let ?x1 = "?x\<lparr>x_execs := x_execs x @ [mt_maker_trade mt, mt_taker_trade mt],
                  x_matches := x_matches x @ [mt]\<rparr>"
    define resp1 where "resp1 = resp_insert_exec (mt_taker_trade mt)
      (if r_accnt (?h p) = accnt then resp_insert_exec (mt_maker_trade mt) (resp_insert_order p resp) else resp)"
    have step: "match_loop accnt mid t d now (p # makers) x (st, resp) =
        match_loop accnt mid t d now makers ?x1 (st1, resp1)"
      using False mt by (simp add: Let_def resp1_def)
    have "get_market st1 mid \<noteq> None"
      using s1(1) market_relE[of st st1 mid m] m by (auto simp: stage_def)
    moreover have "x_sum_lots ?x1 \<le> o_resd_lots (a_orders st1 t)" by (simp add: o)
    ultimately obtain x' st' resp' new where IH:
      "match_loop accnt mid t d now makers ?x1 (st1, resp1) = Done x' (st', resp')"
      "stage st1 st'" "app_inv local_jd st'" "x_matches x' = x_matches ?x1 @ new"
      "\<forall>mt\<in>set new. match_ok accnt mid sd st' mt \<and> match_twins st' mt"
      "map match_fill new = fills ?h (?h t) d (o_resd_lots (?h t) - x_sum_lots ?x1) makers"
      "x_sum_lots x' = x_sum_lots ?x1 + fill_lots (map match_fill new)"
      "x_sum_cost x' = x_sum_cost ?x1 + fill_cost ?h (map match_fill new)"
      "x_execs x' = x_execs ?x1 @ concat (map match_trades new)"
      "(x_last_lots x', x_last_ticks x') = last_fill ?h (x_last_lots ?x1, x_last_ticks ?x1) (map match_fill new)"
      using Cons.IH[OF s1(2), of ?x1 resp1] Cons.prems(3-6) by (auto simp: o l)
    have "stage st st'" using s1(1) IH(2) by (rule stage_trans)
    moreover have "match_ok accnt mid sd st' mt" using s1(2) IH(2) ok by (rule match_ok_stage)
    moreover have "map match_fill (mt # new) = fills ?h (?h t) d ?rem (p # makers)"
      using False IH(6) f by (simp add: match_fill_def Let_def algebra_simps)
    moreover have "x_sum_lots x' = x_sum_lots x + fill_lots (map match_fill (mt # new))"
      using IH(7) f by (simp add: match_fill_def)
    moreover have "x_sum_cost x' = x_sum_cost x + fill_cost ?h (map match_fill (mt # new))"
      using IH(8) f by (simp add: match_fill_def)
    moreover have "x_execs x' = x_execs x @ concat (map match_trades (mt # new))"
      using IH(9) by (simp add: match_trades_def)
    moreover have "(x_last_lots x', x_last_ticks x') =
        last_fill ?h (x_last_lots x, x_last_ticks x) (map match_fill (mt # new))"
      using IH(10) f by (simp add: match_fill_def)
    moreover have "x_matches x' = x_matches x @ (mt # new)" using IH(4) by simp
    moreover have "\<forall>mt\<in>set (mt # new). match_ok accnt mid sd st' mt \<and> match_twins st' mt"
      using IH(5) \<open>match_ok accnt mid sd st' mt\<close> match_twins_stage[OF IH(2) tw] by simp
    ultimately show ?thesis using step IH(1,3) by metis
  qed
qed

section \<open>Committing a match\<close>

lemma put_exec_frame [simp]:
  "a_orders (put_exec e ex st) = a_orders st" "a_next_order (put_exec e ex st) = a_next_order st"
  "a_execs (put_exec e ex st) = (a_execs st)(e := ex)" "a_next_exec (put_exec e ex st) = a_next_exec st"
  "a_posns (put_exec e ex st) = a_posns st" "a_next_posn (put_exec e ex st) = a_next_posn st"
  "a_mq (put_exec e ex st) = a_mq st" "a_bus_day (put_exec e ex st) = a_bus_day st"
  "a_markets (put_exec e ex st) = a_markets st" "a_sesss (put_exec e ex st) = a_sesss st"
  "get_market (put_exec e ex st) mid = get_market st mid" "get_sess (put_exec e ex st) a = get_sess st a"
  by (simp_all add: put_exec_def)

lemma put_posn_frame [simp]:
  "a_orders (put_posn q po st) = a_orders st" "a_next_order (put_posn q po st) = a_next_order st"
  "a_execs (put_posn q po st) = a_execs st" "a_next_exec (put_posn q po st) = a_next_exec st"
  "a_posns (put_posn q po st) = (a_posns st)(q := po)" "a_next_posn (put_posn q po st) = a_next_posn st"
  "a_mq (put_posn q po st) = a_mq st" "a_bus_day (put_posn q po st) = a_bus_day st"
  "a_markets (put_posn q po st) = a_markets st" "a_sesss (put_posn q po st) = a_sesss st"
  "get_market (put_posn q po st) mid = get_market st mid" "get_sess (put_posn q po st) a = get_sess st a"
  by (simp_all add: put_posn_def)

lemma exec_posn_frame [simp]:
  "request_key (exec_posn a b ex) = request_key ex" "r_accnt (exec_posn a b ex) = r_accnt ex"
  "r_market_id (exec_posn a b ex) = r_market_id ex" "r_id (exec_posn a b ex) = r_id ex"
  "r_side (exec_posn a b ex) = r_side ex" "e_state (exec_posn a b ex) = e_state ex"
  "e_last_lots (exec_posn a b ex) = e_last_lots ex" "e_last_ticks (exec_posn a b ex) = e_last_ticks ex"
  by (simp_all add: exec_posn_def request_key_def)

lemma taken_order_frame [simp]:
  "request_key (taken_order n now ord) = request_key ord" "r_accnt (taken_order n now ord) = r_accnt ord"
  "r_ref (taken_order n now ord) = r_ref ord" "r_market_id (taken_order n now ord) = r_market_id ord"
  "r_id (taken_order n now ord) = r_id ord" "r_side (taken_order n now ord) = r_side ord"
  "o_ticks (taken_order n now ord) = o_ticks ord"
  "o_resd_lots (taken_order n now ord) = o_resd_lots ord - n"
  by (simp_all add: taken_order_def order_defs request_key_def)

text \<open>The second half of a commit: an account takes a trade, with the position before and after.\<close>

definition take_trade :: "eptr \<Rightarrow> pptr \<Rightarrow> app \<Rightarrow> app" where
  "take_trade e q st =
     (let st = put_exec e (exec_posn (net_lots (a_posns st q)) (p_net_cost (a_posns st q)) (a_execs st e)) st
      in put_posn q (add_trade (r_side (a_execs st e)) (e_last_lots (a_execs st e))
           (e_last_ticks (a_execs st e)) (a_posns st q)) st)"

lemma take_trade_frame [simp]:
  "a_orders (take_trade e q st) = a_orders st" "a_next_order (take_trade e q st) = a_next_order st"
  "a_next_exec (take_trade e q st) = a_next_exec st" "a_next_posn (take_trade e q st) = a_next_posn st"
  "a_mq (take_trade e q st) = a_mq st" "a_bus_day (take_trade e q st) = a_bus_day st"
  "a_markets (take_trade e q st) = a_markets st" "a_sesss (take_trade e q st) = a_sesss st"
  "get_market (take_trade e q st) mid = get_market st mid" "get_sess (take_trade e q st) a = get_sess st a"
  by (simp_all add: take_trade_def Let_def)

lemma take_trade_execs: "a_execs (take_trade e q st) =
    (a_execs st)(e := exec_posn (net_lots (a_posns st q)) (p_net_cost (a_posns st q)) (a_execs st e))"
  by (simp add: take_trade_def Let_def)

lemma take_trade_posns: "a_posns (take_trade e q st) =
    (a_posns st)(q := add_trade (r_side (a_execs st e)) (e_last_lots (a_execs st e))
       (e_last_ticks (a_execs st e)) (a_posns st q))"
  by (simp add: take_trade_def Let_def)

text \<open>What an execution keeps when its position is filled in.\<close>

definition same_trade :: "exec \<Rightarrow> exec \<Rightarrow> bool" where
  "same_trade ex ex' \<longleftrightarrow> request_key ex' = request_key ex \<and> r_accnt ex' = r_accnt ex
     \<and> r_side ex' = r_side ex \<and> e_state ex' = e_state ex \<and> e_last_lots ex' = e_last_lots ex
     \<and> e_last_ticks ex' = e_last_ticks ex"

lemma take_trade_same: "same_trade (a_execs st x) (a_execs (take_trade e q st) x)"
  by (simp add: take_trade_execs same_trade_def)

lemma trade_ok_same:
  assumes "trade_ok st e" and "same_trade (a_execs st e) (a_execs st' e)"
    and "\<And>mid m. get_market st mid = Some m \<Longrightarrow> \<exists>m'. get_market st' mid = Some m' \<and> m_max_id m \<le> m_max_id m'"
  shows "trade_ok st' e"
proof -
  have "r_market_id (a_execs st' e) = r_market_id (a_execs st e)" "r_id (a_execs st' e) = r_id (a_execs st e)"
    "e_state (a_execs st' e) = e_state (a_execs st e)"
    using assms(2) by (simp_all add: same_trade_def request_key_def)
  then show ?thesis using assms(1,3) unfolding trade_ok_def by (metis order_trans)
qed

lemma commit_match_eq:
  assumes "get_market st mid = Some m" and "p = mt_maker_order mt" "n = mt_lots mt"
    and "market_take_order p n now (a_orders st, m) = (h, m')"
    and "get_sess st (r_accnt (h p)) = Some s1"
  shows "commit_match accnt mid q2 now mt st =
    (let st = take_trade (mt_maker_trade mt) (mt_maker_posn mt) (put_market m' (st\<lparr>a_orders := h\<rparr>));
         s1 = insert_trade (a_execs st) (mt_maker_trade mt) (push_exec_front (mt_maker_trade mt) s1);
         st = put_sess (if order_done (h p) then sess_remove_order h p s1 else s1) st;
         st = take_trade (mt_taker_trade mt) q2 st
     in case get_sess st accnt of None \<Rightarrow> None | Some s2 \<Rightarrow>
       Some (put_sess (insert_trade (a_execs st) (mt_taker_trade mt)
         (push_exec_front (mt_taker_trade mt) s2)) st))"
  using assms
  by (simp add: commit_match_def on_market_def take_trade_def Let_def cong: option.case_cong)

lemma take_trade_exec_inv:
  assumes "exec_inv st"
  shows "exec_inv (take_trade e q st)"
proof (rule exec_inv_frame[OF assms])
  show "sess_rel same_exec st (take_trade e q st)" by (rule sess_rel_refl) (simp_all add: same_exec_def)
  show "request_key (a_execs (take_trade e q st) x) = request_key (a_execs st x)
      \<and> r_accnt (a_execs (take_trade e q st) x) = r_accnt (a_execs st x)
      \<and> e_state (a_execs (take_trade e q st) x) = e_state (a_execs st x)" for x
    using take_trade_same[of st x e q] by (simp add: same_trade_def)
qed simp_all

lemma take_trade_posn_inv:
  assumes "posn_inv st"
  shows "posn_inv (take_trade e q st)"
proof (rule posn_inv_frame[OF assms])
  show "sess_rel same_posn st (take_trade e q st)" by (rule sess_rel_refl) (simp_all add: same_posn_def)
qed (simp_all add: take_trade_posns)

lemma posn_inv_put:
  assumes "posn_inv st" and "set_ok s_accnt (a_sesss st)" and "get_sess st (s_accnt s') = Some s" and "same_posn s s'"
  shows "posn_inv (put_sess s' st)"
  by (rule posn_inv_frame[OF assms(1)], rule sess_rel_put[where R = same_posn and s = s])
    (use assms(2-4) in \<open>simp_all add: same_posn_def\<close>)

text \<open>A session that books a trade.\<close>

definition booked :: "eheap \<Rightarrow> eptr \<Rightarrow> sess \<Rightarrow> sess" where
  "booked h e s = insert_trade h e (push_exec_front e s)"

lemma booked_frame [simp]:
  "s_accnt (booked h e s) = s_accnt s" "s_orders (booked h e s) = s_orders s"
  "s_ref_idx (booked h e s) = s_ref_idx s" "s_posns (booked h e s) = s_posns s"
  by (simp_all add: booked_def insert_trade_def push_exec_front_def)

lemma remove_order_frame [simp]:
  "s_accnt (sess_remove_order h p s) = s_accnt s" "s_posns (sess_remove_order h p s) = s_posns s"
  "s_execs (sess_remove_order h p s) = s_execs s" "s_trades (sess_remove_order h p s) = s_trades s"
  by (simp_all add: sess_remove_order_def Let_def)

lemma sess_remove_order_cong:
  "s_orders s' = s_orders s \<Longrightarrow> s_ref_idx s' = s_ref_idx s \<Longrightarrow>
     s_orders (sess_remove_order h p s') = s_orders (sess_remove_order h p s) \<and>
     s_ref_idx (sess_remove_order h p s') = s_ref_idx (sess_remove_order h p s)"
  by (simp add: sess_remove_order_def Let_def)

lemma sess_rel_comp:
  assumes "sess_rel R st1 st2" and "sess_rel S st2 st3" and "\<And>a b c. R a b \<Longrightarrow> S b c \<Longrightarrow> T a c"
  shows "sess_rel T st1 st3"
  unfolding sess_rel_def
proof
  fix a show "case get_sess st1 a of None \<Rightarrow> get_sess st3 a = None | Some s \<Rightarrow> \<exists>s'. get_sess st3 a = Some s' \<and> T s s'"
  proof (cases "get_sess st1 a")
    case None
    then show ?thesis using sess_rel_None[OF assms(1), of a] sess_rel_None[OF assms(2), of a] by simp
  next
    case (Some s)
    then obtain s2 where s2: "get_sess st2 a = Some s2" "R s s2" using sess_relE[OF assms(1)] by blast
    then obtain s3 where "get_sess st3 a = Some s3" "S s2 s3" using sess_relE[OF assms(2)] by blast
    with Some s2(2) assms(3) show ?thesis by auto
  qed
qed

text \<open>The ownership after a commit: the maker leaves its session when it is filled.\<close>

lemma own_inv_take:
  assumes inv: "own_inv st" and s: "set_ok s_accnt (a_sesss st')"
    and live: "\<And>x. live st' x \<longleftrightarrow> live st x \<and> (x = p \<longrightarrow> \<not> gone)" and p: "live st p"
    and key: "\<And>x. request_key (a_orders st' x) = request_key (a_orders st x)
        \<and> r_ref (a_orders st' x) = r_ref (a_orders st x) \<and> r_accnt (a_orders st' x) = r_accnt (a_orders st x)"
    and rel: "sess_rel (\<lambda>s s'. same_own (if gone \<and> r_accnt (a_orders st p) = s_accnt s
        then sess_remove_order (a_orders st') p s else s) s') st st'"
  shows "own_inv st'"
  unfolding own_inv_def
proof (intro conjI allI impI s)
  fix x assume "live st' x"
  then show "get_sess st' (r_accnt (a_orders st' x)) \<noteq> None"
    using inv key live sess_rel_None[OF rel] by (simp add: own_inv_def)
next
  fix a s' assume "get_sess st' a = Some s'"
  then obtain s0 where s0: "get_sess st a = Some s0"
      and r: "same_own (if gone \<and> r_accnt (a_orders st p) = s_accnt s0
        then sess_remove_order (a_orders st') p s0 else s0) s'"
    using sess_relD[OF rel] by blast
  then have ok: "own_ok (a_orders st) (live st) s0" using inv by (simp add: own_inv_def)
  show "own_ok (a_orders st') (live st') s'"
  proof (cases gone)
    case True
    with r show ?thesis
      using p key live by (intro own_ok_remove[OF ok, of _ p]) auto
  next
    case False
    then have "live st' = live st" using live by (simp add: fun_eq_iff)
    moreover have "own_ok (a_orders st') (live st) s0" by (rule own_ok_heap[OF ok]) (use key in auto)
    moreover have "same_own s0 s'" using r False by simp
    ultimately show ?thesis unfolding same_own_def by (metis own_ok_frame)
  qed
qed

lemma market_taken_frame [simp]:
  "m_id (market_taken p n now h m) = m_id m" "m_max_id (market_taken p n now h m) = m_max_id m"
  by (simp_all add: market_taken_def)

lemma market_taken_listed:
  assumes "market_inv h m" and "p \<in> listed m"
  shows "x \<in> listed (market_taken p n now h m) \<longleftrightarrow> x \<in> listed m \<and> (x = p \<longrightarrow> n < o_resd_lots (h p))"
proof -
  note l = listed_side[OF assms]
  let ?sd = "r_side (h p)"
  have d: "distinct (ms_orders (get_side ?sd m))" using l(3) by (simp add: side_inv_def orders_ok_def)
  have os: "opposite_side ?sd = Buy \<or> opposite_side ?sd = Sell" "opposite_side ?sd \<noteq> ?sd" using l(2) by auto
  have "p \<notin> set (ms_orders (get_side (opposite_side ?sd) m))"
    using side_inv_listed[OF market_inv_side[OF assms(1) os(1)], of p] os(2) by (auto simp: listed_ok_def)
  moreover have "listed (market_taken p n now h m) =
      listed (put_side ?sd (side_taken p n h ?sd (get_side ?sd m)) m)"
    by (simp add: market_taken_def listed_def)
  ultimately show ?thesis
    using l(1,2) d by (auto simp: listed_put_side listed_get_side[OF l(2)] side_taken_orders)
qed

text \<open>What the commit of a match changes, seen from the other matches and from the session.\<close>

definition commit_rel :: "nanos \<Rightarrow> match \<Rightarrow> app \<Rightarrow> app \<Rightarrow> bool" where
  "commit_rel now mt st st' \<longleftrightarrow>
     (let p = mt_maker_order mt; n = mt_lots mt
      in a_orders st' = (a_orders st)(p := taken_order n now (a_orders st p))
       \<and> (\<forall>x. live st' x \<longleftrightarrow> live st x \<and> (x = p \<longrightarrow> n < o_resd_lots (a_orders st p)))
       \<and> a_next_order st' = a_next_order st \<and> a_next_exec st' = a_next_exec st
       \<and> a_next_posn st' = a_next_posn st \<and> a_mq st' = a_mq st
       \<and> (\<forall>e. same_trade (a_execs st e) (a_execs st' e))
       \<and> (\<forall>q. p_market_id (a_posns st' q) = p_market_id (a_posns st q))
       \<and> (\<forall>mid. rel_option (\<lambda>m m'. m_max_id m' = m_max_id m) (get_market st mid) (get_market st' mid))
       \<and> sess_rel same_posn st st')"

lemma commit_match_ok:
  assumes inv: "app_inv local_jd st" and ok: "match_ok accnt mid sd st mt"
    and m: "get_market st mid = Some m" and taker: "get_sess st accnt \<noteq> None"
  shows "\<exists>st'. commit_match accnt mid q2 now mt st = Some st' \<and> app_inv local_jd st'
    \<and> commit_rel now mt st st'
    \<and> get_market st' mid = Some (market_taken (mt_maker_order mt) (mt_lots mt) now (a_orders st) m)
    \<and> (\<forall>k. k \<noteq> mid \<longrightarrow> get_market st' k = get_market st k)"
proof -
  note parts = app_inv_parts[OF inv]
  define p n e1 e2 q1 where d: "p = mt_maker_order mt" "n = mt_lots mt" "e1 = mt_maker_trade mt"
    "e2 = mt_taker_trade mt" "q1 = mt_maker_posn mt"
  let ?h = "a_orders st" and ?a1 = "r_accnt (a_orders st p)"
  note ok' = ok[unfolded match_ok_def Let_def d[symmetric]]
  have p: "live st p" "r_market_id (?h p) = mid" and n: "0 < n" "n \<le> o_resd_lots (?h p)"
    and e: "e1 < a_next_exec st" "e2 < a_next_exec st"
    and acc: "r_accnt (a_execs st e1) = ?a1" "r_accnt (a_execs st e2) = accnt"
    and tr: "trade_ok st e1" "trade_ok st e2"
    using ok' by auto
  have mi: "market_inv ?h m" and mid: "m_id m = mid" using book_market[OF parts(1) m] book_id[OF parts(1) m] .
  have pm: "p \<in> listed m" using live_in_market[OF parts(1) m] p by blast
  define h m' where h: "h = ?h(p := taken_order n now (?h p))" and m': "m' = market_taken p n now ?h m"
  have take: "market_take_order p n now (?h, m) = (h, m')" and mi': "market_inv h m'"
    using market_take_order_ok[OF mi pm, of n now] n by (simp_all add: h m')
  obtain s1 where s1: "get_sess st ?a1 = Some s1" using parts(2) p(1) by (auto simp: own_inv_def)
  have a1: "s_accnt s1 = ?a1" using own_id[OF parts(2) s1] .
  define stA where stA: "stA = put_market m' (st\<lparr>a_orders := h\<rparr>)"
  define stC where stC: "stC = take_trade e1 q1 stA"
  define s1' where s1': "s1' = (if order_done (h p) then sess_remove_order h p (booked (a_execs stC) e1 s1)
      else booked (a_execs stC) e1 s1)"
  define stD where stD: "stD = put_sess s1' stC"
  define stF where stF: "stF = take_trade e2 q2 stD"
  have sC: "set_ok s_accnt (a_sesss stC)" using parts(8) by (simp add: stC stA)
  have sD: "set_ok s_accnt (a_sesss stD)" using sC by (simp add: stD)
  have s1'a: "s_accnt s1' = ?a1" by (simp add: s1' a1)
  have getC: "get_sess stC a = get_sess st a" for a by (simp add: stC stA)
  have getD: "get_sess stD a = (if a = ?a1 then Some s1' else get_sess st a)" for a
    using sC s1 by (simp add: stD get_sess_put_sess s1'a getC)
  have "get_sess stF accnt \<noteq> None" using taker by (auto simp: stF getD)
  then obtain s2 where s2: "get_sess stF accnt = Some s2" by blast
  have a2: "s_accnt s2 = accnt"
    using s2 get_sess_accnt[of stF accnt s2] sD by (simp add: stF)
  define s2' where s2': "s2' = booked (a_execs stF) e2 s2"
  define st' where st': "st' = put_sess s2' stF"
  have s1h: "get_sess st (r_accnt (h p)) = Some s1" using s1 by (simp add: h)
  have commit: "commit_match accnt mid q2 now mt st = Some st'"
  proof -
    have "commit_match accnt mid q2 now mt st =
        (case get_sess stF accnt of None \<Rightarrow> None | Some s2 \<Rightarrow> Some (put_sess (booked (a_execs stF) e2 s2) stF))"
      unfolding commit_match_eq[OF m d(1,2) take s1h]
      by (simp only: Let_def booked_def stF stD s1' stC stA d)
    then show ?thesis using s2 by (simp only: st' s2' option.case)
  qed
  have heap: "a_orders st' = h" "a_next_order st' = a_next_order st" "a_next_exec st' = a_next_exec st"
    "a_next_posn st' = a_next_posn st" "a_mq st' = a_mq st" "a_bus_day st' = a_bus_day st"
    "a_markets st' = a_markets (put_market m' st)"
    by (simp_all add: st' stF stD stC stA put_market_def)
  have plt: "p < a_next_order st" using live_order_ok[OF parts(1) p(1)] by simp
  have sub: "listed m' \<subseteq> insert p (listed m)" using market_taken_listed[OF mi pm] by (auto simp: m')
  note book = book_inv_market[OF parts(1) m, of m' st' p]
  have gone: "order_done (h p) \<longleftrightarrow> \<not> n < o_resd_lots (?h p)"
    using n by (auto simp: h order_done_def)
  have "book_inv st'"
    by (rule book(1)) (use mi' mid p plt sub heap in \<open>simp_all add: h m'\<close>)
  have live: "live st' x \<longleftrightarrow> live st x \<and> (x = p \<longrightarrow> n < o_resd_lots (?h p))" for x
  proof -
    have "live st' x \<longleftrightarrow> x \<in> listed m' \<or> live st x \<and> x \<notin> listed m"
      by (rule book(2)) (use mi' mid p plt sub heap in \<open>simp_all add: h m'\<close>)
    moreover have "x \<in> listed m \<Longrightarrow> live st x" using m by (auto simp: live_def)
    ultimately show ?thesis using market_taken_listed[OF mi pm, of x n now] pm by (auto simp: m')
  qed
  have getF: "get_sess stF a = get_sess stD a" for a by (simp add: stF)
  have get': "get_sess st' a = (if a = accnt then Some s2' else get_sess stD a)" for a
    using sD s2 by (auto simp: st' get_sess_put_sess s2' a2 getF stF)
  let ?R = "\<lambda>s s'. same_own (if order_done (h p) \<and> ?a1 = s_accnt s then sess_remove_order h p s else s) s'"
  have id: "s_accnt s = a" if "get_sess st a = Some s" for a s using own_id[OF parts(2) that] .
  have relD: "sess_rel ?R st stD"
  proof -
    have "?R s1 s1'"
      using a1 sess_remove_order_cong[of "booked (a_execs stC) e1 s1" s1 h p]
      by (simp add: s1' same_own_def)
    then show ?thesis
      using s1 id by (auto simp: sess_rel_def getD same_own_def split: option.split)
  qed
  have relF: "sess_rel same_own stD st'"
  proof -
    have "same_own s2 s2'" by (simp add: s2' same_own_def)
    then show ?thesis
      using s2 by (auto simp: sess_rel_def get' getF same_own_def split: option.split)
  qed
  have rel: "sess_rel ?R st st'"
    by (rule sess_rel_comp[OF relD relF]) (simp add: same_own_def)
  have own: "own_inv st'"
  proof (rule own_inv_take[OF parts(2) _ _ p(1), where gone = "order_done (h p)"])
    show "set_ok s_accnt (a_sesss st')" using sD by (simp add: st' stF)
    show "live st' x \<longleftrightarrow> live st x \<and> (x = p \<longrightarrow> \<not> order_done (h p))" for x using live gone by simp
    show "request_key (a_orders st' x) = request_key (?h x) \<and> r_ref (a_orders st' x) = r_ref (?h x)
        \<and> r_accnt (a_orders st' x) = r_accnt (?h x)" for x
      by (simp only: heap(1)) (simp add: h)
    show "sess_rel (\<lambda>s s'. same_own (if order_done (h p) \<and> ?a1 = s_accnt s
        then sess_remove_order (a_orders st') p s else s) s') st st'"
      using rel by (simp only: heap(1))
  qed
  have grow: "\<exists>m1. get_market (put_market m' (st\<lparr>a_orders := h\<rparr>)) k = Some m1 \<and> m_max_id m0 = m_max_id m1"
    if "get_market st k = Some m0" for k m0
    using that parts(7) m mid by (auto simp: get_market_put_market m' split: if_splits)
  have max: "\<exists>m1. get_market stA k = Some m1 \<and> m_max_id m0 \<le> m_max_id m1" if "get_market st k = Some m0" for k m0
    using grow[of k m0] that by (auto simp: stA)
  have "exec_inv stA"
  proof (rule exec_inv_frame[OF parts(3)])
    show "sess_rel same_exec st stA" by (rule sess_rel_refl) (simp_all add: stA same_exec_def)
    show "\<exists>m1. get_market stA k = Some m1 \<and> m_max_id m0 \<le> m_max_id m1" if "get_market st k = Some m0" for k m0
      using max[OF that] .
  qed (simp_all add: stA)
  then have exC: "exec_inv stC" unfolding stC by (rule take_trade_exec_inv)
  have st_same: "same_trade (a_execs st x) (a_execs stC x)" "same_trade (a_execs st x) (a_execs stF x)" for x
    using take_trade_same[of stA x e1 q1] take_trade_same[of stD x e2 q2]
    by (auto simp: stC stA stF stD same_trade_def)
  have "exec_ok stC s1'"
  proof (rule exec_ok_trade)
    show "exec_ok stC s1" using exC s1 getC by (simp add: exec_inv_def)
    show "e1 < a_next_exec stC" using e by (simp add: stC stA)
    show "r_accnt (a_execs stC e1) = s_accnt s1" using acc st_same(1)[of e1] a1 by (simp add: same_trade_def)
    show "trade_ok stC e1" using tr(1) st_same(1) by (rule trade_ok_same) (use max in \<open>simp add: stC\<close>)
    show "same_exec (insert_trade (a_execs stC) e1 (push_exec_front e1 s1)) s1'"
      by (simp add: s1' same_exec_def booked_def)
  qed
  then have "exec_inv stD" unfolding stD by (rule exec_inv_put[OF exC sC])
  then have exF: "exec_inv stF" unfolding stF by (rule take_trade_exec_inv)
  have sF: "set_ok s_accnt (a_sesss stF)" using sD by (simp add: stF)
  have "exec_ok stF s2'"
  proof (rule exec_ok_trade)
    show "exec_ok stF s2" using exF s2 by (simp add: exec_inv_def)
    show "e2 < a_next_exec stF" using e by (simp add: stF stD stC stA)
    show "r_accnt (a_execs stF e2) = s_accnt s2" using acc st_same(2)[of e2] a2 by (simp add: same_trade_def)
    show "trade_ok stF e2" using tr(2) st_same(2) by (rule trade_ok_same) (use max in \<open>simp add: stF stD stC\<close>)
    show "same_exec (insert_trade (a_execs stF) e2 (push_exec_front e2 s2)) s2'"
      by (simp add: s2' same_exec_def booked_def)
  qed
  then have exec: "exec_inv st'" unfolding st' by (rule exec_inv_put[OF exF sF])
  have posn_rel: "sess_rel same_posn st st'"
  proof -
    have "sess_rel same_posn st stD"
      using s1 id by (auto simp: sess_rel_def getD same_posn_def s1' split: option.split)
    moreover have "sess_rel same_posn stD st'"
      using s2 by (auto simp: sess_rel_def get' getF same_posn_def s2' split: option.split)
    ultimately show ?thesis by (rule sess_rel_trans) (simp add: same_posn_def)
  qed
  have posns: "p_market_id (a_posns st' q) = p_market_id (a_posns st q)"
    "p_accnt (a_posns st' q) = p_accnt (a_posns st q)" for q
    by (simp_all add: st' stF stD stC stA take_trade_posns)
  have posn: "posn_inv st'"
    by (rule posn_inv_frame[OF parts(4) posn_rel]) (use posns heap in simp_all)
  have "app_inv local_jd st'"
    using \<open>book_inv st'\<close> own exec posn parts heap by (simp add: app_inv_def)
  moreover have gm: "get_market st' k = (if k = mid then Some m' else get_market st k)" for k
    using parts(7) m mid get_market_cong[OF heap(7), of k] by (simp add: get_market_put_market m')
  moreover have "commit_rel now mt st st'"
    unfolding commit_rel_def Let_def d[symmetric]
    using heap live posn_rel posns st_same(2) gm m
    by (auto simp: h st' m' option.rel_refl_strong)
  ultimately show ?thesis using commit by (auto simp: m' d)
qed

section \<open>Committing all matches\<close>

text \<open>The lots that a list of fills takes from an order, if it is one of the makers.\<close>

definition filled_order :: "nanos \<Rightarrow> (optr \<times> lots) list \<Rightarrow> optr \<Rightarrow> order \<Rightarrow> order" where
  "filled_order now fs p ord = (case map_of fs p of None \<Rightarrow> ord | Some n \<Rightarrow> taken_order n now ord)"

definition still_open :: "oheap \<Rightarrow> (optr \<times> lots) list \<Rightarrow> optr \<Rightarrow> bool" where
  "still_open h fs p \<longleftrightarrow> (case map_of fs p of None \<Rightarrow> True | Some n \<Rightarrow> n < o_resd_lots (h p))"

lemma filled_order_Nil [simp]: "filled_order now [] p ord = ord"
  by (simp add: filled_order_def)

lemma still_open_Nil [simp]: "still_open h [] p"
  by (simp add: still_open_def)

lemma filled_order_Cons:
  "p \<notin> fst ` set fs \<Longrightarrow> filled_order now ((p, n) # fs) x ord =
     (if x = p then taken_order n now ord else filled_order now fs x ord)"
  by (simp add: filled_order_def)

lemma still_open_Cons:
  "p \<notin> fst ` set fs \<Longrightarrow> still_open h ((p, n) # fs) x \<longleftrightarrow>
     (if x = p then n < o_resd_lots (h p) else still_open h fs x)"
  by (simp add: still_open_def)

lemma match_ok_commit:
  assumes rel: "commit_rel now mt st st'" and ok: "match_ok accnt mid sd st mt2"
    and ne: "mt_maker_order mt2 \<noteq> mt_maker_order mt"
  shows "match_ok accnt mid sd st' mt2"
proof -
  let ?p = "mt_maker_order mt2" and ?q = "mt_maker_posn mt2"
  note r = rel[unfolded commit_rel_def Let_def]
  have o: "a_orders st' ?p = a_orders st ?p" using r ne by simp
  have l: "live st' ?p = live st ?p" using r ne by simp
  have n: "a_next_exec st' = a_next_exec st" using r by simp
  have same: "same_trade (a_execs st e) (a_execs st' e)" for e using r by simp
  have q: "p_market_id (a_posns st' ?q) = p_market_id (a_posns st ?q)" using r by simp
  have max: "\<exists>m'. get_market st' k = Some m' \<and> m_max_id m \<le> m_max_id m'" if "get_market st k = Some m" for k m
  proof -
    have "rel_option (\<lambda>m m'. m_max_id m' = m_max_id m) (get_market st k) (get_market st' k)" using r by blast
    with that show ?thesis by (cases "get_market st' k") auto
  qed
  have tr: "trade_ok st' e" if "trade_ok st e" for e using that same max by (rule trade_ok_same)
  have "sess_rel same_posn st st'" using r by simp
  then have sess: "\<exists>s'. get_sess st' a = Some s' \<and> q \<in> set (s_posns s')"
    if "get_sess st a = Some s" "q \<in> set (s_posns s)" for a s q
    using sess_relE[of same_posn st st' a s] that by (auto simp: same_posn_def)
  show ?thesis
    using ok same[of "mt_maker_trade mt2"] same[of "mt_taker_trade mt2"] sess tr
    unfolding match_ok_def Let_def o l n q same_trade_def by metis
qed

definition same_ids :: "app \<Rightarrow> app \<Rightarrow> bool" where
  "same_ids st st' \<longleftrightarrow> a_next_order st' = a_next_order st \<and> a_next_exec st' = a_next_exec st
     \<and> a_next_posn st' = a_next_posn st \<and> a_mq st' = a_mq st"

lemma commit_matches_ok:
  assumes "app_inv local_jd st" and "\<And>mt. mt \<in> set mts \<Longrightarrow> match_ok accnt mid sd st mt"
    and "distinct (map mt_maker_order mts)" and "get_market st mid \<noteq> None" and "get_sess st accnt \<noteq> None"
  shows "\<exists>st'. commit_matches accnt mid q2 now mts st = Some st' \<and> app_inv local_jd st'
    \<and> (\<forall>x. a_orders st' x = filled_order now (map match_fill mts) x (a_orders st x))
    \<and> (\<forall>x. live st' x \<longleftrightarrow> live st x \<and> still_open (a_orders st) (map match_fill mts) x)
    \<and> same_ids st st' \<and> (\<forall>k. k \<noteq> mid \<longrightarrow> get_market st' k = get_market st k)"
  using assms
proof (induction mts arbitrary: st)
  case Nil
  then show ?case by (simp add: same_ids_def)
next
  case (Cons mt mts)
  let ?p = "mt_maker_order mt" and ?n = "mt_lots mt" and ?fs = "map match_fill mts"
  obtain m where m: "get_market st mid = Some m" using Cons.prems(4) by auto
  obtain st1 where st1: "commit_match accnt mid q2 now mt st = Some st1" "app_inv local_jd st1"
      "commit_rel now mt st st1" "get_market st1 mid \<noteq> None"
      "\<And>k. k \<noteq> mid \<Longrightarrow> get_market st1 k = get_market st k"
    using commit_match_ok[OF Cons.prems(1) Cons.prems(2) m Cons.prems(5), of mt q2 now] by auto
  note r = st1(3)[unfolded commit_rel_def Let_def]
  have p: "?p \<notin> fst ` set ?fs" using Cons.prems(3) by (auto simp: match_fill_def)
  have ok: "match_ok accnt mid sd st1 mt2" if "mt2 \<in> set mts" for mt2
  proof (rule match_ok_commit[OF st1(3)])
    show "match_ok accnt mid sd st mt2" using that Cons.prems(2) by simp
    show "mt_maker_order mt2 \<noteq> ?p" using that Cons.prems(3) by (metis distinct.simps(2) image_eqI list.simps(9) set_map)
  qed
  have "sess_rel same_posn st st1" using r by simp
  then have "get_sess st1 accnt \<noteq> None" using Cons.prems(5) sess_rel_None[of same_posn st st1 accnt] by simp
  then obtain st2 where st2: "commit_matches accnt mid q2 now mts st1 = Some st2" "app_inv local_jd st2"
      "\<And>x. a_orders st2 x = filled_order now ?fs x (a_orders st1 x)"
      "\<And>x. live st2 x \<longleftrightarrow> live st1 x \<and> still_open (a_orders st1) ?fs x" "same_ids st1 st2"
      "\<And>k. k \<noteq> mid \<Longrightarrow> get_market st2 k = get_market st1 k"
    using Cons.IH[OF st1(2) ok _ st1(4)] Cons.prems(3) by auto
  have f: "map match_fill (mt # mts) = (?p, ?n) # ?fs" by (simp add: match_fill_def)
  have np: "map_of ?fs ?p = None" using p by (simp add: map_of_eq_None_iff)
  have "a_orders st2 x = filled_order now (map match_fill (mt # mts)) x (a_orders st x)" for x
    unfolding f filled_order_Cons[OF p] using r np by (auto simp: st2(3) filled_order_def)
  moreover have "live st2 x \<longleftrightarrow> live st x \<and> still_open (a_orders st) (map match_fill (mt # mts)) x" for x
    unfolding f still_open_Cons[OF p] st2(4) using r np
    by (cases "x = ?p") (auto simp: still_open_def split: option.splits)
  moreover have "same_ids st st2" using r st2(5) by (simp add: same_ids_def)
  ultimately show ?case using st1(1,5) st2(1,2,6) by simp
qed

end
