(* ===== verification/App_Create.thy ===== *)
theory App_Create
  imports App_Match
begin

text \<open>
  The creation of an order: what a call does in each of its outcomes, and that it keeps the
  invariant of the state in all of them (\<open>app_create_order_cases\<close>).
\<close>

section \<open>The taker before it is in the book\<close>

lemma put_order_frame [simp]:
  "a_orders (put_order p ord st) = (a_orders st)(p := ord)" "a_next_order (put_order p ord st) = a_next_order st"
  "a_execs (put_order p ord st) = a_execs st" "a_next_exec (put_order p ord st) = a_next_exec st"
  "a_posns (put_order p ord st) = a_posns st" "a_next_posn (put_order p ord st) = a_next_posn st"
  "a_mq (put_order p ord st) = a_mq st" "a_bus_day (put_order p ord st) = a_bus_day st"
  "a_markets (put_order p ord st) = a_markets st" "a_sesss (put_order p ord st) = a_sesss st"
  "get_market (put_order p ord st) mid = get_market st mid" "get_sess (put_order p ord st) a = get_sess st a"
  by (simp_all add: put_order_def)

text \<open>Of the orders the invariant only reads those that are live.\<close>

lemma app_inv_orders:
  assumes inv: "app_inv local_jd st"
    and same: "a_execs st' = a_execs st" "a_next_exec st' = a_next_exec st" "a_posns st' = a_posns st"
      "a_next_posn st' = a_next_posn st" "a_markets st' = a_markets st" "a_sesss st' = a_sesss st"
    and mq: "ring_ok (a_mq st')" and bd: "cache_ok local_jd (a_bus_day st')"
    and nxt: "a_next_order st \<le> a_next_order st'"
    and heap: "\<And>p. live st p \<Longrightarrow> a_orders st' p = a_orders st p"
  shows "app_inv local_jd st'" and "live st' = live st"
proof -
  note parts = app_inv_parts[OF inv]
  show l: "live st' = live st" by (rule ext) (rule live_cong[OF same(5)])
  have gm: "get_market st' k = get_market st k" for k by (rule get_market_cong[OF same(5)])
  have rel: "sess_rel R st st'" if "\<And>s. R s s" for R using that same(6) by (rule sess_rel_refl)
  have "book_inv st'"
    by (rule book_inv_frame[OF parts(1) _ market_rel_refl[OF same(5)] heap nxt]) (use parts(7) same(5) in simp_all)
  moreover have "own_inv st'"
    by (rule own_inv_frame[OF parts(2) _ rel l]) (use parts(8) same(6) heap in \<open>simp_all add: same_own_def\<close>)
  moreover have "exec_inv st'"
    by (rule exec_inv_frame[OF parts(3) rel]) (use same gm in \<open>simp_all add: same_exec_def\<close>)
  moreover have "posn_inv st'"
    by (rule posn_inv_frame[OF parts(4) rel]) (use same in \<open>simp_all add: same_posn_def\<close>)
  ultimately show "app_inv local_jd st'" using mq bd by (simp add: app_inv_def)
qed

lemma app_inv_put_order:
  assumes "app_inv local_jd st" and "\<not> live st p"
  shows "app_inv local_jd (put_order p ord st)" and "live (put_order p ord st) = live st"
  by (rule app_inv_orders[OF assms(1)], use assms app_inv_parts[OF assms(1)] in auto)+

lemma app_inv_mq:
  assumes "app_inv local_jd st" and "ring_ok q"
  shows "app_inv local_jd (st\<lparr>a_mq := q\<rparr>)" and "live (st\<lparr>a_mq := q\<rparr>) = live st"
  by (rule app_inv_orders[OF assms(1)], use assms app_inv_parts[OF assms(1)] in auto)+

lemma app_inv_bus_day:
  assumes "app_inv local_jd st" and "cache_ok local_jd c"
  shows "app_inv local_jd (st\<lparr>a_bus_day := c\<rparr>)" and "live (st\<lparr>a_bus_day := c\<rparr>) = live st"
  by (rule app_inv_orders[OF assms(1)], use assms app_inv_parts[OF assms(1)] in auto)+

lemma alloc_order_ok:
  assumes inv: "app_inv local_jd st" and eq: "alloc_order ord st = (p, st')"
  shows "app_inv local_jd st'" and "live st' = live st" and "\<not> live st' p" and "a_orders st' p = ord"
    and "p = a_next_order st" and "a_next_order st' = a_next_order st + 1"
    and "a_orders st' = (a_orders st)(p := ord)"
    and "a_execs st' = a_execs st" "a_next_exec st' = a_next_exec st" "a_markets st' = a_markets st"
      "a_sesss st' = a_sesss st" "a_mq st' = a_mq st"
proof -
  have p: "p = a_next_order st"
    and st': "st' = st\<lparr>a_orders := (a_orders st)(p := ord), a_next_order := a_next_order st + 1\<rparr>"
    using eq by (auto simp: alloc_order_def)
  have n: "\<not> live st p" using live_order_ok(2)[OF app_inv_parts(1)[OF inv], of p] p by auto
  show i: "app_inv local_jd st'" "live st' = live st"
    by (rule app_inv_orders[OF inv], use app_inv_parts[OF inv] n in \<open>auto simp: st'\<close>)+
  show "\<not> live st' p" using n i(2) by simp
  show "p = a_next_order st" by (rule p)
qed (use eq in \<open>auto simp: alloc_order_def\<close>)

section \<open>Matching an order\<close>

text \<open>The fills of an order against a market.\<close>

definition match_fills :: "oheap \<Rightarrow> market \<Rightarrow> order \<Rightarrow> (optr \<times> lots) list" where
  "match_fills h m ord = (let (ms, d) = match_side ord m in fills h ord d (o_resd_lots ord) (ms_orders ms))"

text \<open>The incoming order after its fills.\<close>

definition traded :: "nanos \<Rightarrow> oheap \<Rightarrow> (optr \<times> lots) list \<Rightarrow> order \<Rightarrow> order" where
  "traded now h fs ord = (if fs = [] then ord else
     order_trade (fill_lots fs) (fill_cost h fs) (fst (last_fill h (0, 0) fs)) (snd (last_fill h (0, 0) fs)) now ord)"

lemma traded_frame [simp]:
  "r_accnt (traded now h fs ord) = r_accnt ord" "r_market_id (traded now h fs ord) = r_market_id ord"
  "r_id (traded now h fs ord) = r_id ord" "r_ref (traded now h fs ord) = r_ref ord"
  "r_side (traded now h fs ord) = r_side ord" "r_lots (traded now h fs ord) = r_lots ord"
  "o_ticks (traded now h fs ord) = o_ticks ord" "o_min_lots (traded now h fs ord) = o_min_lots ord"
  "o_level (traded now h fs ord) = o_level ord"
  "request_key (traded now h fs ord) = request_key ord"
  by (simp_all add: traded_def order_defs request_key_def)

lemma traded_lots:
  "o_resd_lots (traded now h fs ord) = o_resd_lots ord - fill_lots fs"
  "o_exec_lots (traded now h fs ord) = o_exec_lots ord + fill_lots fs"
  "o_exec_cost (traded now h fs ord) = o_exec_cost ord + fill_cost h fs"
  by (simp_all add: traded_def order_defs)

lemma match_orders_ok:
  assumes inv: "app_inv local_jd st" and m: "get_market st mid = Some m"
    and taker: "r_accnt (a_orders st t) = accnt" "r_market_id (a_orders st t) = mid"
    and lots: "0 \<le> o_resd_lots (a_orders st t)"
  defines "fs \<equiv> match_fills (a_orders st) m (a_orders st t)"
  shows "\<exists>x st1 resp'. match_orders accnt mid t now ex (st, resp) =
        Done x (put_order t (traded now (a_orders st) fs (a_orders st t)) st1, resp')
    \<and> stage st st1 \<and> app_inv local_jd st1 \<and> map match_fill (x_matches x) = fs
    \<and> (\<forall>mt\<in>set (x_matches x). match_ok accnt mid (r_side (a_orders st t)) st1 mt \<and> match_twins st1 mt)
    \<and> x_execs x = ex # concat (map match_trades (x_matches x))"
proof -
  note parts = app_inv_parts[OF inv]
  obtain ms d where sd: "match_side (a_orders st t) m = (ms, d)" by fastforce
  have sub: "set (ms_orders ms) \<subseteq> listed m"
    using sd by (auto simp: match_side_def listed_def split: if_splits)
  have makers: "live st p \<and> r_market_id (a_orders st p) = mid" if "p \<in> set (ms_orders ms)" for p
    using live_in_market[OF parts(1) m] sub that by blast
  let ?x0 = "\<lparr>x_sum_lots = 0, x_sum_cost = 0, x_last_lots = 0, x_last_ticks = 0, x_matches = [], x_execs = [ex]\<rparr>"
  have "get_market st mid \<noteq> None" and "x_sum_lots ?x0 \<le> o_resd_lots (a_orders st t)" using m lots by simp_all
  from match_loop_ok[OF inv this(1) makers taker(1) refl taker(2) this(2), where d = d and now = now and resp = resp]
  obtain x st1 resp' where loop:
      "match_loop accnt mid t d now (ms_orders ms) ?x0 (st, resp) = Done x (st1, resp')"
      "stage st st1" "app_inv local_jd st1" "map match_fill (x_matches x) = fs"
      "\<forall>mt\<in>set (x_matches x). match_ok accnt mid (r_side (a_orders st t)) st1 mt \<and> match_twins st1 mt"
      "x_sum_lots x = fill_lots fs" "x_sum_cost x = fill_cost (a_orders st) fs"
      "x_execs x = ex # concat (map match_trades (x_matches x))"
      "(x_last_lots x, x_last_ticks x) = last_fill (a_orders st) (0, 0) fs"
    by (force simp: fs_def match_fills_def sd)
  have o: "a_orders st1 = a_orders st" using loop(2) by (simp add: stage_def)
  have l: "x_last_lots x = fst (last_fill (a_orders st) (0, 0) fs)"
    "x_last_ticks x = snd (last_fill (a_orders st) (0, 0) fs)"
    using loop(9) by (metis fst_conv, metis snd_conv)
  have e: "x_matches x = [] \<longleftrightarrow> fs = []" using loop(4) by auto
  have "match_orders accnt mid t now ex (st, resp) =
      Done x (put_order t (traded now (a_orders st) fs (a_orders st t)) st1, resp')"
  proof (cases "fs = []")
    case True
    then have "put_order t (traded now (a_orders st) fs (a_orders st t)) st1 = st1"
      by (simp add: traded_def put_order_def flip: o)
    with True e show ?thesis by (simp add: match_orders_def m sd loop(1) obind_def)
  next
    case False
    with e show ?thesis
      by (simp add: match_orders_def m sd loop(1,6,7) obind_def traded_def l o)
  qed
  with loop show ?thesis by blast
qed

section \<open>Into the book, and out of it again\<close>

lemma set_modify_undo:
  assumes "set_ok key xs" and "set_find key k xs = Some v" and "key w = k"
  shows "set_modify key k (\<lambda>_. v) (set_modify key k (\<lambda>_. w) xs) = xs"
proof -
  have "key v = k" using assms by (simp add: set_find_Some_iff)
  moreover have "x = v" if "x \<in> set xs" "key x = k" for x
    using that assms set_ok_inj[of key xs x v] by (auto simp: set_find_Some_iff)
  ultimately have "(if key x = k then v else x) = x" if "x \<in> set xs" for x using that by auto
  moreover have "set_modify key k (\<lambda>_. v) (set_modify key k (\<lambda>_. w) xs) = map (\<lambda>x. if key x = k then v else x) xs"
    using assms(3) by (simp add: set_modify_def)
  ultimately show ?thesis by (simp add: map_idI)
qed

text \<open>The undo of a failed journal leaves nothing of the insertion but a dead order.\<close>

lemma insert_undo:
  assumes inv: "app_inv local_jd st" and m: "get_market st mid = Some m"
    and p: "\<not> live st p" and sd: "r_side (a_orders st p) = Buy \<or> r_side (a_orders st p) = Sell"
    and ok: "order_ok (a_orders st p)" and ids: "r_market_id (a_orders st p) = mid" "r_id (a_orders st p) \<le> m_max_id m"
  defines "st2 \<equiv> on_market (market_insert_order p) m st"
  shows "\<exists>m2. get_market st2 mid = Some m2 \<and>
    on_market (market_remove_order p) m2 (st2\<lparr>a_mq := q\<rparr>) =
      put_order p (set_level None (a_orders st p)) (st\<lparr>a_mq := q\<rparr>)"
proof -
  note parts = app_inv_parts[OF inv]
  have mi: "market_inv (a_orders st) m" and mid: "m_id m = mid" using book_market[OF parts(1) m] book_id[OF parts(1) m] .
  have new: "p \<notin> listed m" using p m by (auto simp: live_def)
  obtain h1 m1 where i: "market_insert_order p (a_orders st, m) = (h1, m1)" by fastforce
  have r: "market_remove_order p (h1, m1) = ((a_orders st)(p := set_level None (a_orders st p)), m)"
    using market_insert_remove[OF mi sd new ok] ids mid i by simp
  have id1: "m_id m1 = mid" using market_insert_order_ok(1)[OF mi sd new ok] ids mid i by auto
  have st2: "st2 = put_market m1 (st\<lparr>a_orders := h1\<rparr>)" by (simp add: st2_def on_market_def i)
  have g: "get_market st2 mid = Some m1"
    using m id1 parts(7) by (simp add: st2 get_market_put_market)
  have u: "set_modify m_id mid (\<lambda>_. m) (set_modify m_id mid (\<lambda>_. m1) (a_markets st)) = a_markets st"
    by (rule set_modify_undo[OF parts(7)]) (use m id1 in \<open>simp_all add: get_market_def\<close>)
  have "on_market (market_remove_order p) m1 (st2\<lparr>a_mq := q\<rparr>) =
      put_order p (set_level None (a_orders st p)) (st\<lparr>a_mq := q\<rparr>)"
    by (simp add: on_market_def r st2 put_order_def put_market_def mid id1 u)
  with g show ?thesis by blast
qed

text \<open>The order enters the book and the session, its execution the journal and the session.\<close>

definition inserted :: "optr \<Rightarrow> oheap \<Rightarrow> market \<Rightarrow> market" where
  "inserted p h m = put_side (r_side (h p)) (side_inserted p h (get_side (r_side (h p)) m)) m"

lemma inserted_frame [simp]: "m_id (inserted p h m) = m_id m" "m_max_id (inserted p h m) = m_max_id m"
  by (simp_all add: inserted_def)

lemma push_exec_front_frame [simp]:
  "s_accnt (push_exec_front e s) = s_accnt s" "s_orders (push_exec_front e s) = s_orders s"
  "s_ref_idx (push_exec_front e s) = s_ref_idx s" "s_posns (push_exec_front e s) = s_posns s"
  "s_trades (push_exec_front e s) = s_trades s"
  by (simp_all add: push_exec_front_def)

lemma insert_order_frame [simp]:
  "s_accnt (sess_insert_order h p s) = s_accnt s" "s_posns (sess_insert_order h p s) = s_posns s"
  "s_execs (sess_insert_order h p s) = s_execs s" "s_trades (sess_insert_order h p s) = s_trades s"
  "s_max_execs (sess_insert_order h p s) = s_max_execs s"
  by (simp_all add: sess_insert_order_def Let_def)

lemma enter_book_ok:
  assumes inv: "app_inv local_jd st" and m: "get_market st mid = Some m" and s: "get_sess st accnt = Some s"
    and p: "\<not> live st p" "p < a_next_order st" "r_accnt (a_orders st p) = accnt"
    and sd: "r_side (a_orders st p) = Buy \<or> r_side (a_orders st p) = Sell"
    and ok: "order_ok (a_orders st p)"
    and ids: "r_market_id (a_orders st p) = mid" "r_id (a_orders st p) \<le> m_max_id m"
    and fresh: "\<And>x. live st x \<Longrightarrow> request_key (a_orders st x) \<noteq> request_key (a_orders st p)"
    and ex: "ex < a_next_exec st" "r_accnt (a_execs st ex) = accnt" and q: "ring_ok q"
  defines "h' \<equiv> (a_orders st)(p := set_level (Some (okey (a_orders st) p)) (a_orders st p))"
  defines "st1 \<equiv> (on_market (market_insert_order p) m st)\<lparr>a_mq := q\<rparr>"
  defines "st' \<equiv> put_sess (push_exec_front ex (sess_insert_order (a_orders st1) p s)) st1"
  shows "app_inv local_jd st'" and "live st' x \<longleftrightarrow> live st x \<or> x = p" and "a_orders st' = h'"
    and "a_execs st' = a_execs st" "a_next_exec st' = a_next_exec st" "a_posns st' = a_posns st" "a_mq st' = q"
    and "a_next_order st' = a_next_order st" and "a_next_posn st' = a_next_posn st"
    and "get_market st' k = (if k = mid then Some (inserted p (a_orders st) m) else get_market st k)"
    and "sess_rel same_posn st st'" and "get_sess st1 accnt = Some s"
proof -
  note parts = app_inv_parts[OF inv]
  have mi: "market_inv (a_orders st) m" and mid: "m_id m = mid" using book_market[OF parts(1) m] book_id[OF parts(1) m] .
  have new: "p \<notin> listed m" using p m by (auto simp: live_def)
  have acc: "s_accnt s = accnt" using own_id[OF parts(2) s] .
  let ?m' = "inserted p (a_orders st) m"
  have I: "market_insert_order p (a_orders st, m) = (h', ?m')" "market_inv h' ?m'" "listed ?m' = insert p (listed m)"
    using market_insert_order_ok[OF mi sd new ok] ids mid by (simp_all add: h'_def inserted_def)
  have st1: "st1 = put_market ?m' (st\<lparr>a_orders := h', a_mq := q\<rparr>)"
    by (simp add: st1_def on_market_def I(1) put_market_def)
  define s' where "s' = push_exec_front ex (sess_insert_order h' p s)"
  have st': "st' = put_sess s' st1" by (simp add: st'_def s'_def st1)
  have acc': "s_accnt s' = accnt" by (simp add: s'_def acc)
  show heap: "a_orders st' = h'" "a_execs st' = a_execs st" "a_next_exec st' = a_next_exec st"
    "a_posns st' = a_posns st" "a_mq st' = q" "a_next_order st' = a_next_order st" "a_next_posn st' = a_next_posn st"
    by (simp_all add: st' st1)
  have markets: "a_markets st' = a_markets (put_market ?m' st)" by (simp add: st' st1 put_market_def)
  have key: "request_key (h' y) = request_key (a_orders st y) \<and> r_ref (h' y) = r_ref (a_orders st y)
      \<and> r_accnt (h' y) = r_accnt (a_orders st y)" for y
    by (simp add: h'_def set_level_def request_key_def)
  have other: "h' y = a_orders st y" if "y \<noteq> p" for y using that by (simp add: h'_def)
  note book = book_inv_market[OF parts(1) m, where p = p and m' = ?m']
  have B1: "book_inv st'"
    by (rule book(1)) (use p mid I markets heap other in \<open>simp_all\<close>)
  have B2: "live st' y \<longleftrightarrow> y \<in> listed ?m' \<or> live st y \<and> y \<notin> listed m" for y
    by (rule book(2)) (use p mid I markets heap other in \<open>simp_all\<close>)
  show live: "live st' x \<longleftrightarrow> live st x \<or> x = p" for x
    using B2[of x] I(3) m by (auto simp: live_def)
  show gm: "get_market st' k = (if k = mid then Some ?m' else get_market st k)" for k
    using get_market_cong[OF markets, of k] parts(7) m mid by (simp add: get_market_put_market)
  have get1: "get_sess st1 a = get_sess st a" for a by (simp add: st1)
  then show s1: "get_sess st1 accnt = Some s" using s by simp
  have ok1: "set_ok s_accnt (a_sesss st1)" using parts(8) by (simp add: st1)
  have get': "get_sess st' a = (if a = accnt then Some s' else get_sess st a)" for a
    using ok1 s by (auto simp: st' get_sess_put_sess acc' get1)
  have rel: "sess_rel R st st'" if "R s s'" "\<And>t. R t t" for R
    using that s by (auto simp: sess_rel_def get' split: option.split)
  show P: "sess_rel same_posn st st'" by (rule rel) (simp_all add: same_posn_def s'_def)
  have "own_inv st'"
    unfolding own_inv_def
  proof (intro conjI allI impI)
    show "set_ok s_accnt (a_sesss st')" using ok1 by (simp add: st')
  next
    fix y assume "live st' y"
    then have "live st y \<or> y = p" using live by simp
    then show "get_sess st' (r_accnt (a_orders st' y)) \<noteq> None"
      using parts(2) p(3) key[of y] by (auto simp: heap get' own_inv_def)
  next
    fix a t' assume t': "get_sess st' a = Some t'"
    define t where "t = (if a = accnt then s else t')"
    have t: "get_sess st a = Some t" using t' s by (auto simp: get' t_def split: if_splits)
    then have ok: "own_ok (a_orders st) (live st) t" using parts(2) by (simp add: own_inv_def)
    have at: "s_accnt t = a" using own_id[OF parts(2) t] .
    show "own_ok (a_orders st') (live st') t'"
      unfolding heap
    proof (rule own_ok_insert[OF ok live p(1) key])
      show "request_key (a_orders st y) \<noteq> request_key (h' p)" if "live st y" for y
        using fresh[OF that] key[of p] by simp
      show "same_own (if r_accnt (h' p) = s_accnt t then sess_insert_order h' p t else t) t'"
        using t' key[of p] p(3) at by (auto simp: get' t_def same_own_def s'_def split: if_splits)
    qed
  qed
  moreover have "exec_inv st'"
  proof -
    have "exec_inv st1"
      by (rule exec_inv_frame[OF parts(3) sess_rel_refl])
        (use m mid parts(7) in \<open>auto simp: st1 same_exec_def get_market_put_market split: if_splits\<close>)
    moreover have "exec_ok st1 s'"
    proof (rule exec_ok_push)
      show "exec_ok st1 s" using \<open>exec_inv st1\<close> s1 by (simp add: exec_inv_def)
    qed (use ex acc in \<open>simp_all add: st1 s'_def same_exec_def push_exec_front_def\<close>)
    ultimately show ?thesis unfolding st' by (intro exec_inv_put[OF _ ok1])
  qed
  moreover have "posn_inv st'" by (rule posn_inv_frame[OF parts(4) P]) (simp_all add: heap)
  ultimately show "app_inv local_jd st'"
    using B1 q parts(6) by (simp add: app_inv_def heap) (simp add: st' st1)
qed

lemma push_exec_ok:
  assumes inv: "app_inv local_jd st" and s: "get_sess st accnt = Some s"
    and ex: "ex < a_next_exec st" "r_accnt (a_execs st ex) = accnt"
  defines "st' \<equiv> put_sess (push_exec_front ex s) st"
  shows "app_inv local_jd st'" and "live st' = live st" and "sess_rel same_posn st st'"
proof -
  note parts = app_inv_parts[OF inv]
  have acc: "s_accnt s = accnt" using own_id[OF parts(2) s] .
  have rel: "sess_rel R st st'" if "R s (push_exec_front ex s)" "\<And>t. R t t" for R
    using that s parts(8) by (intro sess_rel_put[where s = s]) (auto simp: st'_def acc)
  show l: "live st' = live st" by (rule ext) (simp add: live_def st'_def)
  show P: "sess_rel same_posn st st'" by (rule rel) (simp_all add: same_posn_def)
  have "book_inv st'"
    by (rule book_inv_frame[OF parts(1) _ market_rel_refl]) (use parts(7) in \<open>simp_all add: st'_def\<close>)
  moreover have "own_inv st'"
    by (rule own_inv_frame[OF parts(2) _ rel l]) (use parts(8) in \<open>simp_all add: st'_def same_own_def\<close>)
  moreover have "exec_inv st'"
  proof -
    have "exec_ok st s" using parts(3) s by (simp add: exec_inv_def)
    then have "exec_ok st (push_exec_front ex s)"
      by (rule exec_ok_push[OF _ ex(1)]) (use ex acc in \<open>simp_all add: same_exec_def\<close>)
    then show ?thesis unfolding st'_def by (rule exec_inv_put[OF parts(3,8)])
  qed
  moreover have "posn_inv st'" by (rule posn_inv_frame[OF parts(4) P]) (simp_all add: st'_def)
  ultimately show "app_inv local_jd st'" using parts by (simp add: app_inv_def) (simp add: st'_def)
qed

text \<open>A match stays good while its maker, its trades and its position do.\<close>

lemma match_ok_frame:
  assumes ok: "match_ok accnt mid sd st mt"
    and maker: "live st (mt_maker_order mt) \<Longrightarrow> live st' (mt_maker_order mt) \<and>
        a_orders st' (mt_maker_order mt) = a_orders st (mt_maker_order mt)"
    and same: "a_execs st' = a_execs st" "a_next_exec st' = a_next_exec st" "a_posns st' = a_posns st"
    and rel: "sess_rel same_posn st st'"
    and max: "\<And>k m. get_market st k = Some m \<Longrightarrow> \<exists>m'. get_market st' k = Some m' \<and> m_max_id m \<le> m_max_id m'"
  shows "match_ok accnt mid sd st' mt"
proof -
  have m: "live st' (mt_maker_order mt)" "a_orders st' (mt_maker_order mt) = a_orders st (mt_maker_order mt)"
    using ok maker by (auto simp: match_ok_def Let_def)
  have tr: "trade_ok st' e" if "trade_ok st e" for e
    using that by (rule trade_ok_same) (use max same in \<open>simp_all add: same_trade_def\<close>)
  have sess: "\<exists>s'. get_sess st' a = Some s' \<and> q \<in> set (s_posns s')"
    if "get_sess st a = Some s" "q \<in> set (s_posns s)" for a s q
    using sess_relE[OF rel that(1)] that(2) by (auto simp: same_posn_def)
  show ?thesis using ok m(1) tr sess unfolding match_ok_def Let_def m(2) same by blast
qed

section \<open>The end of \<open>create_order\<close>\<close>

lemma maybe_posn_ok:
  assumes inv: "app_inv local_jd st" and s: "get_sess st a = Some s"
    and eq: "(if b then app_posn s m st else (0, st)) = (q, st1)"
  shows "stage st st1" "app_inv local_jd st1" "a_markets st1 = a_markets st" "a_execs st1 = a_execs st"
    "a_next_exec st1 = a_next_exec st" "a_orders st1 = a_orders st" "a_mq st1 = a_mq st"
    "get_market st1 k = get_market st k" "live st1 = live st" "get_sess st1 a \<noteq> None"
proof -
  have r: "stage st st1 \<and> app_inv local_jd st1 \<and> a_markets st1 = a_markets st \<and> a_execs st1 = a_execs st
      \<and> a_next_exec st1 = a_next_exec st"
    using eq inv app_posn_ok[OF inv s, of m q st1] by (cases b) (auto intro: stage_refl)
  then show "stage st st1" "app_inv local_jd st1" "a_markets st1 = a_markets st" "a_execs st1 = a_execs st"
    "a_next_exec st1 = a_next_exec st" "a_orders st1 = a_orders st" "a_mq st1 = a_mq st"
    "get_market st1 k = get_market st k" "live st1 = live st"
    using stage_live[of st st1] get_market_cong[of st1 st k] by (auto simp: stage_def)
  have "sess_rel same_sess st st1" using r by (simp add: stage_def)
  then show "get_sess st1 a \<noteq> None" using s sess_rel_None[of same_sess st st1 a] by simp
qed

text \<open>The journal has no room: the order stays out of the book, and nothing is committed.\<close>

lemma finish_order_full:
  assumes inv: "app_inv local_jd st" and m: "get_market st mid = Some m" and s: "get_sess st accnt = Some s"
    and p: "\<not> live st p" "o_level (a_orders st p) = None"
    and sd: "r_side (a_orders st p) = Buy \<or> r_side (a_orders st p) = Sell"
    and ok: "order_done (a_orders st p) \<or> order_ok (a_orders st p)"
    and ids: "r_market_id (a_orders st p) = mid" "r_id (a_orders st p) \<le> m_max_id m"
    and full: "ring_reserve (a_mq st) < length (x_execs x)"
  shows "\<exists>st' resp'. finish_order accnt mid p ex now x (st, resp) = Throw QueueFull (st', resp')
    \<and> stage st st' \<and> app_inv local_jd st'"
proof -
  obtain posn st1 where b: "(if x_matches x \<noteq> [] then app_posn s m st else (0, st)) = (posn, st1)" by fastforce
  note B = maybe_posn_ok[OF inv s b]
  have f: "mq_create_execs exs (a_mq st) = Throw QueueFull (a_mq st)" if "length exs = length (x_execs x)" for exs
    using mq_create_execs_full[of "a_mq st" exs] full that by simp
  define resp1 where "resp1 = (if x_matches x \<noteq> [] then resp_set_posn posn (resp_set_market mid resp) else resp_set_market mid resp)"
  have mq: "st1\<lparr>a_mq := a_mq st\<rparr> = st1" using B(7) by (metis app.surjective app.update_convs(7))
  have "finish_order accnt mid p ex now x (st, resp) = Throw QueueFull (st1, resp1)"
  proof (cases "order_done (a_orders st p)")
    case True
    then show ?thesis using b B mq
      by (simp add: finish_order_def s m f Let_def resp1_def split: prod.split)
  next
    case False
    then have ok: "order_ok (a_orders st1 p)" using ok B(6) by simp
    define st2 where "st2 = on_market (market_insert_order p) m st1"
    have m1: "get_market st1 mid = Some m" using m B(8) by simp
    obtain m2 where m2: "get_market st2 mid = Some m2"
        "on_market (market_remove_order p) m2 (st2\<lparr>a_mq := a_mq st\<rparr>) =
          put_order p (set_level None (a_orders st1 p)) (st1\<lparr>a_mq := a_mq st\<rparr>)"
      using insert_undo[OF B(2) m1 _ _ ok, of "a_mq st"] p sd ids B unfolding st2_def by auto
    have "put_order p (set_level None (a_orders st1 p)) (st1\<lparr>a_mq := a_mq st\<rparr>) = st1"
    proof -
      have "set_level None (a_orders st1 p) = a_orders st1 p" using p(2) B(6) by (simp add: set_level_def)
      then show ?thesis by (simp add: mq put_order_def)
    qed
    moreover have "a_mq st2 = a_mq st" using B(7) by (simp add: st2_def on_market_def split: prod.split)
    ultimately show ?thesis using b m2 False B(6)
      by (simp add: finish_order_def s m f Let_def resp1_def flip: st2_def split: prod.split)
  qed
  then show ?thesis using B by blast
qed

text \<open>The journal takes the executions: the order enters the book unless it is filled.\<close>

lemma settle_order_ok:
  assumes inv: "app_inv local_jd st" and m: "get_market st mid = Some m" and s: "get_sess st accnt = Some s"
    and p: "\<not> live st p" "p < a_next_order st" "r_accnt (a_orders st p) = accnt"
    and sd: "r_side (a_orders st p) = Buy \<or> r_side (a_orders st p) = Sell"
    and ok: "order_done (a_orders st p) \<or> order_ok (a_orders st p)"
    and ids: "r_market_id (a_orders st p) = mid" "r_id (a_orders st p) \<le> m_max_id m"
    and fresh: "\<And>x. live st x \<Longrightarrow> request_key (a_orders st x) \<noteq> request_key (a_orders st p)"
    and ex: "ex < a_next_exec st" "r_accnt (a_execs st ex) = accnt" and q: "ring_ok q"
    and matches: "\<And>mt. mt \<in> set mts \<Longrightarrow> match_ok accnt mid tsd st mt"
  defines "done \<equiv> order_done (a_orders st p)"
  defines "st1 \<equiv> (if \<not> done then on_market (market_insert_order p) m st else st)\<lparr>a_mq := q\<rparr>"
  shows "\<exists>s1 st'. get_sess st1 accnt = Some s1 \<and>
      st' = put_sess (push_exec_front ex (if \<not> done then sess_insert_order (a_orders st1) p s1 else s1)) st1
      \<and> app_inv local_jd st' \<and> (\<forall>y. live st' y \<longleftrightarrow> live st y \<or> y = p \<and> \<not> done)
      \<and> a_orders st' = (if done then a_orders st else
            (a_orders st)(p := set_level (Some (okey (a_orders st) p)) (a_orders st p)))
      \<and> a_mq st' = q \<and> a_next_order st' = a_next_order st \<and> (\<forall>mt\<in>set mts. match_ok accnt mid tsd st' mt)
      \<and> (\<forall>k. get_market st' k = (if k = mid \<and> \<not> done then Some (inserted p (a_orders st) m) else get_market st k))
      \<and> get_sess st' accnt \<noteq> None"
proof -
  have notp: "mt_maker_order mt \<noteq> p" if "mt \<in> set mts" for mt
    using matches[OF that] p(1) by (auto simp: match_ok_def Let_def)
  show ?thesis
  proof (cases "done")
    case False
    then have ok': "order_ok (a_orders st p)" using ok by (simp add: done_def)
    note E = enter_book_ok[OF inv m s p sd ok' ids fresh ex q]
    let ?st1 = "(on_market (market_insert_order p) m st)\<lparr>a_mq := q\<rparr>"
    define st' where "st' = put_sess (push_exec_front ex (sess_insert_order (a_orders ?st1) p s)) ?st1"
    note E' = E[folded st'_def]
    have mo: "match_ok accnt mid tsd st' mt" if "mt \<in> set mts" for mt
    proof (rule match_ok_frame[OF matches[OF that]])
      show "live st (mt_maker_order mt) \<Longrightarrow> live st' (mt_maker_order mt) \<and>
          a_orders st' (mt_maker_order mt) = a_orders st (mt_maker_order mt)"
        using E'(2,3) notp[OF that] by simp
      show "\<exists>m'. get_market st' k = Some m' \<and> m_max_id m \<le> m_max_id m'" if "get_market st k = Some m" for k m
        using that m E'(10)[of k] by (auto split: if_splits)
    qed (use E(4-6,11) in \<open>simp_all add: st'_def\<close>)
    have "get_sess st' accnt \<noteq> None" using s sess_rel_None[OF E'(11), of accnt] by simp
    then show ?thesis
      using False E'(1-3,7,8,10,12) mo unfolding st1_def
      by (intro exI[of _ s] exI[of _ st']) (simp add: st'_def)
  next
    case True
    let ?st1 = "st\<lparr>a_mq := q\<rparr>"
    note I = app_inv_mq[OF inv q]
    have s1: "get_sess ?st1 accnt = Some s" using s by simp
    have ex1: "ex < a_next_exec ?st1" "r_accnt (a_execs ?st1 ex) = accnt" using ex by simp_all
    note E = push_exec_ok[OF I(1) s1 ex1]
    define st' where "st' = put_sess (push_exec_front ex s) ?st1"
    note E' = E[folded st'_def]
    have rel: "sess_rel same_posn st st'"
      using E'(3) by (simp add: sess_rel_def)
    have mo: "match_ok accnt mid tsd st' mt" if "mt \<in> set mts" for mt
      by (rule match_ok_frame[OF matches[OF that] _ _ _ _ rel])
        (use E'(2) I(2) in \<open>auto simp: st'_def\<close>)
    have "get_sess st' accnt \<noteq> None" using s sess_rel_None[OF rel, of accnt] by simp
    then show ?thesis
      using True E'(1,2) I(2) s mo unfolding st1_def
      by (intro exI[of _ s] exI[of _ st']) (simp add: st'_def)
  qed
qed

lemma filled_order_other: "p \<notin> fst ` set fs \<Longrightarrow> filled_order now fs p ord = ord \<and> still_open h fs p"
  by (metis filled_order_def still_open_def map_of_eq_None_iff option.case(1))

lemma commit_rel_matches:
  assumes "app_inv local_jd st" and "\<And>mt. mt \<in> set mts \<Longrightarrow> match_ok accnt mid sd st mt"
    and "distinct (map mt_maker_order mts)" and "get_market st mid \<noteq> None" and "get_sess st accnt \<noteq> None"
  obtains st' where "(if mts \<noteq> [] then commit_matches accnt mid q2 now mts st else Some st) = Some st'"
    and "app_inv local_jd st'" and "same_ids st st'"
    and "\<And>x. a_orders st' x = filled_order now (map match_fill mts) x (a_orders st x)"
    and "\<And>x. live st' x \<longleftrightarrow> live st x \<and> still_open (a_orders st) (map match_fill mts) x"
    and "\<And>k. k \<noteq> mid \<Longrightarrow> get_market st' k = get_market st k"
proof -
  obtain st' where st': "commit_matches accnt mid q2 now mts st = Some st'" "app_inv local_jd st'" "same_ids st st'"
    "\<And>x. a_orders st' x = filled_order now (map match_fill mts) x (a_orders st x)"
    "\<And>x. live st' x \<longleftrightarrow> live st x \<and> still_open (a_orders st) (map match_fill mts) x"
    "\<And>k. k \<noteq> mid \<Longrightarrow> get_market st' k = get_market st k"
    using commit_matches_ok[OF assms, of q2 now] by blast
  then have "(if mts \<noteq> [] then commit_matches accnt mid q2 now mts st else Some st) = Some st'" by auto
  with that st'(2-6) show thesis by blast
qed

text \<open>The branch of \<open>finish_order\<close> that ends well, with its states named.\<close>

lemma finish_order_eq:
  assumes "get_sess st accnt = Some s" and "get_market st mid = Some m"
    and "(if x_matches x \<noteq> [] then app_posn s m st else (0, st)) = (posn, st1)"
    and st2: "st2 = (if \<not> order_done (a_orders st1 p) then on_market (market_insert_order p) m st1 else st1)"
    and q: "mq_create_execs (map (a_execs st2) (x_execs x)) (a_mq st2) = Done () q"
    and s2: "get_sess (st2\<lparr>a_mq := q\<rparr>) accnt = Some s2"
    and commit: "(if x_matches x \<noteq> [] then commit_matches accnt mid posn now (x_matches x) st3 else Some st3) = Some st'"
    and st3: "st3 = put_sess (push_exec_front ex (if \<not> order_done (a_orders st1 p)
        then sess_insert_order (a_orders (st2\<lparr>a_mq := q\<rparr>)) p s2 else s2)) (st2\<lparr>a_mq := q\<rparr>)"
  shows "\<exists>resp'. finish_order accnt mid p ex now x (st, resp) = Done () (st', resp')"
proof -
  define resp1 where "resp1 = (if x_matches x \<noteq> [] then resp_set_posn posn (resp_set_market mid resp) else resp_set_market mid resp)"
  have "finish_order accnt mid p ex now x (st, resp) =
      (if x_matches x \<noteq> []
       then (case commit_matches accnt mid posn now (x_matches x) st3 of Some st \<Rightarrow> Done () (st, resp1) | None \<Rightarrow> Undef)
       else Done () (st3, resp1))"
    unfolding finish_order_def Let_def prod.case assms(1,2) option.case assms(3) st2[symmetric]
      q outcome.case s2 st3[symmetric] resp1_def[symmetric] ..
  with commit show ?thesis by (auto split: if_splits)
qed

lemma finish_order_room:
  assumes inv: "app_inv local_jd st" and m: "get_market st mid = Some m" and s: "get_sess st accnt = Some s"
    and p: "\<not> live st p" "p < a_next_order st" "r_accnt (a_orders st p) = accnt"
    and sd: "r_side (a_orders st p) = Buy \<or> r_side (a_orders st p) = Sell"
    and ok: "order_done (a_orders st p) \<or> order_ok (a_orders st p)"
    and ids: "r_market_id (a_orders st p) = mid" "r_id (a_orders st p) \<le> m_max_id m"
    and fresh: "\<And>x. live st x \<Longrightarrow> request_key (a_orders st x) \<noteq> request_key (a_orders st p)"
    and ex: "ex < a_next_exec st" "r_accnt (a_execs st ex) = accnt"
    and matches: "\<And>mt. mt \<in> set (x_matches x) \<Longrightarrow> match_ok accnt mid tsd st mt"
    and dist: "distinct (map mt_maker_order (x_matches x))"
    and room: "length (x_execs x) \<le> ring_reserve (a_mq st)"
  defines "fs \<equiv> map match_fill (x_matches x)" and "done \<equiv> order_done (a_orders st p)"
  shows "\<exists>st' resp'. finish_order accnt mid p ex now x (st, resp) = Done () (st', resp') \<and> app_inv local_jd st'
    \<and> ring_contents (a_mq st') = ring_contents (a_mq st) @ map (\<lambda>e. exec_msg (a_execs st e)) (x_execs x)
    \<and> (\<forall>y. y \<noteq> p \<longrightarrow> a_orders st' y = filled_order now fs y (a_orders st y))
    \<and> a_orders st' p = (if done then a_orders st p else
          set_level (Some (okey (a_orders st) p)) (a_orders st p))
    \<and> (\<forall>y. live st' y \<longleftrightarrow> live st y \<and> still_open (a_orders st) fs y \<or> y = p \<and> \<not> done)
    \<and> a_next_order st' = a_next_order st \<and> (\<forall>k. k \<noteq> mid \<longrightarrow> get_market st' k = get_market st k)"
proof -
  obtain posn st1 where b: "(if x_matches x \<noteq> [] then app_posn s m st else (0, st)) = (posn, st1)" by fastforce
  note B = maybe_posn_ok[OF inv s b]
  obtain s1 where s1: "get_sess st1 accnt = Some s1" using B(10) by blast
  have m1: "get_market st1 mid = Some m" using m B(8) by simp
  have n1: "a_next_order st1 = a_next_order st" using B(1) by (simp add: stage_def)
  let ?exs = "map (a_execs st) (x_execs x)"
  obtain q where q: "mq_create_execs ?exs (a_mq st) = Done () q" "ring_ok q"
      "ring_contents q = ring_contents (a_mq st) @ map exec_msg ?exs"
    using mq_create_execs_ok[OF app_inv_parts(5)[OF inv], of ?exs] room by auto
  have matches1: "match_ok accnt mid tsd st1 mt" if "mt \<in> set (x_matches x)" for mt
    using inv B(1) matches[OF that] by (rule match_ok_stage)
  define st2 where "st2 = (if \<not> done then on_market (market_insert_order p) m st1 else st1)\<lparr>a_mq := q\<rparr>"
  note S = settle_order_ok[OF B(2) m1 s1, where p = p and ex = ex and q = q and mts = "x_matches x" and tsd = tsd,
      unfolded B(4-6,8,9) n1, OF p sd ok ids fresh ex q(2) matches1]
  obtain s2 st3 where st3: "get_sess st2 accnt = Some s2"
      "st3 = put_sess (push_exec_front ex (if \<not> done then sess_insert_order (a_orders st2) p s2 else s2)) st2"
      "app_inv local_jd st3" "\<And>y. live st3 y \<longleftrightarrow> live st y \<or> y = p \<and> \<not> done"
      "a_orders st3 = (if done then a_orders st else
            (a_orders st)(p := set_level (Some (okey (a_orders st) p)) (a_orders st p)))"
      "a_mq st3 = q" "a_next_order st3 = a_next_order st"
      "\<And>mt. mt \<in> set (x_matches x) \<Longrightarrow> match_ok accnt mid tsd st3 mt"
      "\<And>k. get_market st3 k = (if k = mid \<and> \<not> done then Some (inserted p (a_orders st) m) else get_market st k)"
      "get_sess st3 accnt \<noteq> None"
    using S[folded done_def, folded st2_def] by blast
  have "get_market st3 mid \<noteq> None" using st3(9)[of mid] m by simp
  then obtain st' where st': "(if x_matches x \<noteq> [] then commit_matches accnt mid posn now (x_matches x) st3 else Some st3) = Some st'"
      "app_inv local_jd st'" "same_ids st3 st'" "\<And>y. a_orders st' y = filled_order now fs y (a_orders st3 y)"
      "\<And>y. live st' y \<longleftrightarrow> live st3 y \<and> still_open (a_orders st3) fs y"
      "\<And>k. k \<noteq> mid \<Longrightarrow> get_market st' k = get_market st3 k"
    using commit_rel_matches[OF st3(3,8) dist _ st3(10), of posn now] unfolding fs_def by metis
  have mq1: "a_mq (if \<not> done then on_market (market_insert_order p) m st1 else st1) = a_mq st"
    "a_execs (if \<not> done then on_market (market_insert_order p) m st1 else st1) = a_execs st"
    using B(4,7) by (simp_all add: on_market_def split: prod.split)
  define st2a where "st2a = (if \<not> done then on_market (market_insert_order p) m st1 else st1)"
  have d: "order_done (a_orders st1 p) = done" by (simp add: B(6) done_def)
  have q1: "mq_create_execs (map (a_execs st2a) (x_execs x)) (a_mq st2a) = Done () q"
    using q(1) by (simp add: st2a_def mq1)
  have st2: "st2 = st2a\<lparr>a_mq := q\<rparr>" by (simp add: st2_def st2a_def)
  have "\<exists>resp'. finish_order accnt mid p ex now x (st, resp) = Done () (st', resp')"
    by (rule finish_order_eq[OF s m b st2a_def[folded d] q1 st3(1)[unfolded st2] st'(1)])
      (simp only: st3(2) st2 d)
  moreover have np: "p \<notin> fst ` set fs"
    using matches p(1) by (auto simp: fs_def match_fill_def match_ok_def Let_def)
  moreover have "still_open (a_orders st3) fs y \<longleftrightarrow> still_open (a_orders st) fs y" for y
    using filled_order_other[OF np] st3(5) by (cases "y = p") (auto simp: still_open_def split: option.split)
  moreover have "ring_contents (a_mq st') = ring_contents (a_mq st) @ map (\<lambda>e. exec_msg (a_execs st e)) (x_execs x)"
    using st'(3) st3(6) q(3) by (simp add: same_ids_def comp_def)
  ultimately show ?thesis
    using st' st3(4,5,7,9) filled_order_other[OF np] by (auto simp: same_ids_def)
qed

section \<open>The outcomes of \<open>create_order\<close>\<close>

text \<open>The order that a call creates, before it is matched.\<close>

definition created_order :: "sess \<Rightarrow> market \<Rightarrow> string \<Rightarrow> side \<Rightarrow> lots \<Rightarrow> ticks \<Rightarrow> lots \<Rightarrow> nanos \<Rightarrow> order" where
  "created_order s m ref sd lots ticks min_lots now =
     make_order (s_accnt s) (m_id m) (m_instr m) (m_settl_day m) (m_max_id m + 1) ref sd lots ticks min_lots now"

lemma created_order_fields [simp]:
  "r_accnt (created_order s m ref sd lots ticks min_lots now) = s_accnt s"
  "r_market_id (created_order s m ref sd lots ticks min_lots now) = m_id m"
  "r_id (created_order s m ref sd lots ticks min_lots now) = m_max_id m + 1"
  "r_side (created_order s m ref sd lots ticks min_lots now) = sd"
  "r_lots (created_order s m ref sd lots ticks min_lots now) = lots"
  "o_ticks (created_order s m ref sd lots ticks min_lots now) = ticks"
  "o_resd_lots (created_order s m ref sd lots ticks min_lots now) = lots"
  "o_exec_lots (created_order s m ref sd lots ticks min_lots now) = 0"
  "o_exec_cost (created_order s m ref sd lots ticks min_lots now) = 0"
  "o_min_lots (created_order s m ref sd lots ticks min_lots now) = min_lots"
  "o_level (created_order s m ref sd lots ticks min_lots now) = None"
  by (simp_all add: created_order_def make_order_def)

text \<open>The states up to the matching, in one step.\<close>

lemma fills_cong:
  "(\<And>p. p \<in> set ps \<Longrightarrow> h' p = h p) \<Longrightarrow> fills h' t d rem ps = fills h t d rem ps"
  by (induction h t d rem ps rule: fills.induct) (auto simp: Let_def)

lemma match_fills_cong:
  "(\<And>p. p \<in> listed m \<Longrightarrow> h' p = h p) \<Longrightarrow> m_bid_side m' = m_bid_side m \<Longrightarrow> m_offer_side m' = m_offer_side m \<Longrightarrow>
     match_fills h' m' t = match_fills h m t"
  by (auto simp: match_fills_def match_side_def listed_def intro!: fills_cong)

lemma prepare_order_ok:
  assumes inv: "app_inv local_jd st" and m: "get_market st mid = Some m" and s: "get_sess st accnt = Some s"
    and ord: "ord = created_order s m ref sd lots ticks min_lots now"
    and p: "alloc_order ord (put_market (m\<lparr>m_max_id := m_max_id m + 1\<rparr>) st) = (p, st1)"
    and ex: "alloc_exec (new_exec (a_orders st1 p) (m_max_id m + 1) now) st1 = (ex, st2)"
  shows "app_inv local_jd st2" and "get_market st2 mid = Some (m\<lparr>m_max_id := m_max_id m + 1\<rparr>)"
    and "live st2 = live st" and "\<not> live st2 p" and "p < a_next_order st2" and "p = a_next_order st"
    and "a_orders st2 = (a_orders st)(p := ord)" and "a_execs st2 ex = new_exec ord (m_max_id m + 1) now"
    and "ex < a_next_exec st2" and "a_mq st2 = a_mq st" and "market_rel st st2"
    and "live st2 x \<Longrightarrow> request_key (a_orders st2 x) \<noteq> request_key ord" and "get_sess st2 a = get_sess st a"
    and "a_next_order st2 = a_next_order st + 1" and "k \<noteq> mid \<Longrightarrow> get_market st2 k = get_market st k"
proof -
  note parts = app_inv_parts[OF inv]
  let ?m = "m\<lparr>m_max_id := m_max_id m + 1\<rparr>"
  have mid: "m_id m = mid" using book_id[OF parts(1) m] .
  have sb: "same_book m ?m" by (simp add: same_book_def)
  note s1 = put_market_stage[OF inv m sb]
  note s2 = alloc_order_ok[OF s1(2) p]
  note s3 = alloc_exec_ok[OF s2(1) ex]
  have o: "a_orders st2 = a_orders st1" "a_next_order st2 = a_next_order st1" "a_mq st2 = a_mq st1"
    using s3(1) by (simp_all add: stage_def)
  have l1: "live (put_market ?m st) = live st" using stage_live[OF s1(1)] .
  have l: "live st2 = live st" using stage_live[OF s3(1)] s2(2) l1 by simp
  show "app_inv local_jd st2" by (rule s3(2))
  have mk: "a_markets st2 = a_markets (put_market ?m st)" using s3(8) s2(10) by simp
  show g: "get_market st2 mid = Some ?m" using get_market_cong[OF mk, of mid] s1(3) by simp
  show "live st2 = live st" by (rule l)
  show np: "\<not> live st2 p" using s2(3) stage_live[OF s3(1)] by simp
  show "p = a_next_order st" using s2(5) by simp
  show "p < a_next_order st2" "a_next_order st2 = a_next_order st + 1" using s2(5,6) o by simp_all
  show heap: "a_orders st2 = (a_orders st)(p := ord)" using s2(7) o by simp
  show "a_execs st2 ex = new_exec ord (m_max_id m + 1) now" using s3(3) s2(4) by simp
  show "ex < a_next_exec st2" using s3(4,5) by simp
  show "a_mq st2 = a_mq st" using o s2(12) by simp
  show "market_rel st st2" by (rule market_rel_put[OF parts(7) _ sb mk]) (use m mid in simp)
  show "get_sess st2 a = get_sess st a" using s3(7) s2(11) by (simp add: get_sess_def)
  show "get_market st2 k = get_market st k" if "k \<noteq> mid" for k
    using that get_market_cong[OF mk, of k] parts(7) mid by (simp add: get_market_put_market)
  show "request_key (a_orders st2 x) \<noteq> request_key ord" if x: "live st2 x" for x
  proof
    assume eq: "request_key (a_orders st2 x) = request_key ord"
    have "x \<noteq> p" using x np by auto
    then have ox: "a_orders st2 x = a_orders st x" using heap by simp
    then have k: "r_market_id (a_orders st x) = mid" "r_id (a_orders st x) = m_max_id m + 1"
      using eq mid by (simp_all add: request_key_def ord)
    then have "x \<in> listed m" using x l live_in_market[OF parts(1) m] by simp
    then have "r_id (a_orders st x) \<le> m_max_id m" using book_market[OF parts(1) m] by (simp add: market_inv_def)
    with k show False by simp
  qed
qed

text \<open>A call whose arguments pass the checks: the three guards of \<open>create_order\<close>.\<close>

definition ref_taken :: "app \<Rightarrow> sess \<Rightarrow> string \<Rightarrow> bool" where
  "ref_taken st s ref \<longleftrightarrow> ref \<noteq> [] \<and> sess_exists (a_orders st) ref s"

definition closed :: "(int \<Rightarrow> jday) \<Rightarrow> app \<Rightarrow> market \<Rightarrow> nanos \<Rightarrow> bool" where
  "closed local_jd st m now \<longleftrightarrow> m_settl_day m \<noteq> 0 \<and> m_settl_day m < fst (bus_day local_jd now (a_bus_day st))"

text \<open>The executions of a fill, as they are journalled.\<close>

definition fill_execs :: "oheap \<Rightarrow> order \<Rightarrow> optr \<times> lots \<Rightarrow> exec \<times> exec \<Rightarrow> bool" where
  "fill_execs h ord = (\<lambda>(q, n) (a, b). twins a b \<and> e_state a = Trade \<and> e_state b = Trade
     \<and> r_accnt a = r_accnt (h q) \<and> r_accnt b = r_accnt ord \<and> r_side a = r_side (h q) \<and> r_side b = r_side ord
     \<and> e_last_lots a = n \<and> e_last_lots b = n \<and> e_last_ticks a = o_ticks (h q) \<and> e_last_ticks b = o_ticks (h q))"

lemma fill_execs_matches:
  assumes "\<And>mt. mt \<in> set mts \<Longrightarrow> match_ok (r_accnt ord) mid (r_side ord) st mt \<and> match_twins st mt"
  shows "list_all2 (fill_execs (a_orders st) ord) (map match_fill mts)
    (map (\<lambda>mt. (a_execs st (mt_maker_trade mt), a_execs st (mt_taker_trade mt))) mts)"
  using assms
  by (auto simp: list_all2_map1 list_all2_map2 list.rel_refl_strong fill_execs_def match_fill_def match_ok_def
      match_twins_def trade_ok_def Let_def intro!: list.rel_refl_strong)

lemma fill_execs_cong:
  "list_all2 (fill_execs h ord) fs es \<Longrightarrow> (\<And>q. q \<in> fst ` set fs \<Longrightarrow> h' q = h q) \<Longrightarrow> list_all2 (fill_execs h' ord) fs es"
proof (induction rule: list_all2_induct)
  case (Cons f fs e es)
  then show ?case by (cases f; cases e) (simp add: fill_execs_def)
qed simp

lemma match_fills_eq: "match_fills h m ord =
    fills h ord (snd (match_side ord m)) (o_resd_lots ord) (ms_orders (fst (match_side ord m)))"
  by (simp add: match_fills_def split: prod.split)

lemma match_side_listed: "set (ms_orders (fst (match_side ord m))) \<subseteq> listed m"
  by (simp add: match_side_def listed_def)

lemma match_fills_listed: "fst ` set (match_fills h m ord) \<subseteq> listed m"
proof -
  have "set (map fst (match_fills h m ord)) \<subseteq> set (ms_orders (fst (match_side ord m)))"
    unfolding match_fills_eq fills_prefix by (rule set_take_subset)
  with match_side_listed[of ord m] show ?thesis by auto
qed

lemma match_side_distinct: "market_inv h m \<Longrightarrow> distinct (ms_orders (fst (match_side ord m)))"
  by (auto simp: match_side_def market_inv_def side_inv_def orders_ok_def)

lemma match_fills_distinct: "market_inv h m \<Longrightarrow> distinct (map fst (match_fills h m ord))"
  unfolding match_fills_eq by (intro fills_distinct match_side_distinct)

lemma match_side_open:
  assumes "market_inv h m" and "p \<in> set (ms_orders (fst (match_side ord m)))"
  shows "0 < o_resd_lots (h p)"
  using listed_order_ok[OF assms(1), of p] match_side_listed[of ord m] assms(2) by (auto simp: order_ok_def)

lemma match_fills_total:
  assumes "market_inv h m" and "0 \<le> o_resd_lots ord"
  shows "0 \<le> fill_lots (match_fills h m ord)" and "fill_lots (match_fills h m ord) \<le> o_resd_lots ord"
proof -
  have "0 \<le> fill_lots (match_fills h m ord) \<and> fill_lots (match_fills h m ord) \<le> o_resd_lots ord"
    unfolding match_fills_eq by (rule fills_total[OF assms(2)]) (rule match_side_open[OF assms(1)])
  then show "0 \<le> fill_lots (match_fills h m ord)" "fill_lots (match_fills h m ord) \<le> o_resd_lots ord" by auto
qed

lemma fill_cost_cong: "(\<And>q. q \<in> fst ` set fs \<Longrightarrow> h' q = h q) \<Longrightarrow> fill_cost h' fs = fill_cost h fs"
  by (induction fs) auto

lemma last_fill_cong: "(\<And>q. q \<in> fst ` set fs \<Longrightarrow> h' q = h q) \<Longrightarrow> last_fill h' z fs = last_fill h z fs"
  by (induction h z fs rule: last_fill.induct) auto

lemma traded_cong: "(\<And>q. q \<in> fst ` set fs \<Longrightarrow> h' q = h q) \<Longrightarrow> traded now h' fs ord = traded now h fs ord"
  using fill_cost_cong[of fs h' h] last_fill_cong[of fs h' h] by (simp add: traded_def)

lemma market_rel_cong: "a_markets st' = a_markets st1 \<Longrightarrow> market_rel st st' = market_rel st st1"
  unfolding market_rel_def by (simp only: get_market_cong[of st' st1])

lemma sess_rel_cong: "a_sesss st' = a_sesss st1 \<Longrightarrow> sess_rel R st st' = sess_rel R st st1"
  unfolding sess_rel_def by (simp only: get_sess_cong[of st' st1])

text \<open>The state that the matching leaves behind, ready for \<open>finish_order\<close>.\<close>

definition matched :: "symbol \<Rightarrow> id64 \<Rightarrow> optr \<Rightarrow> order \<Rightarrow> eptr \<Rightarrow> (optr \<times> lots) list \<Rightarrow> matching \<Rightarrow> app \<Rightarrow> app \<Rightarrow> bool" where
  "matched accnt mid p t ex fs x st st' \<longleftrightarrow>
     map match_fill (x_matches x) = fs \<and> x_execs x = ex # concat (map match_trades (x_matches x))
     \<and> (\<forall>mt\<in>set (x_matches x). match_ok accnt mid (r_side t) st' mt \<and> match_twins st' mt)
     \<and> a_orders st' = (a_orders st)(p := t) \<and> live st' = live st \<and> a_mq st' = a_mq st \<and> market_rel st st'
     \<and> a_next_order st' = a_next_order st \<and> a_next_exec st \<le> a_next_exec st' \<and> a_execs st' ex = a_execs st ex
     \<and> sess_rel same_sess st st'"

lemma match_new_order:
  assumes inv: "app_inv local_jd st" and m: "get_market st mid = Some m" and p: "\<not> live st p"
    and t: "a_orders st p = t" "r_accnt t = accnt" "r_market_id t = mid" "0 \<le> o_resd_lots t"
    and ex: "ex < a_next_exec st"
  defines "fs \<equiv> match_fills (a_orders st) m t"
  shows "\<exists>x st' resp'. match_orders accnt mid p now ex (st, resp) = Done x (st', resp')
    \<and> app_inv local_jd st' \<and> matched accnt mid p (traded now (a_orders st) fs t) ex fs x st st'"
proof -
  obtain x st1 resp' where r: "match_orders accnt mid p now ex (st, resp) =
        Done x (put_order p (traded now (a_orders st) fs t) st1, resp')"
      "stage st st1" "app_inv local_jd st1" "map match_fill (x_matches x) = fs"
      "\<And>mt. mt \<in> set (x_matches x) \<Longrightarrow> match_ok accnt mid (r_side t) st1 mt \<and> match_twins st1 mt"
      "x_execs x = ex # concat (map match_trades (x_matches x))"
    using match_orders_ok[OF inv m, of p accnt now ex resp] t unfolding fs_def by auto
  have l1: "live st1 = live st" using stage_live[OF r(2)] .
  then have np: "\<not> live st1 p" using p by simp
  note st2 = app_inv_put_order[OF r(3) np, of "traded now (a_orders st) fs t"]
  let ?st2 = "put_order p (traded now (a_orders st) fs t) st1"
  have mo: "match_ok accnt mid (r_side t) ?st2 mt \<and> match_twins ?st2 mt" if mt: "mt \<in> set (x_matches x)" for mt
  proof
    have ne: "mt_maker_order mt \<noteq> p" using r(5)[OF mt] np by (auto simp: match_ok_def Let_def)
    show "match_ok accnt mid (r_side t) ?st2 mt"
    proof (rule match_ok_frame)
      show "match_ok accnt mid (r_side t) st1 mt" using r(5)[OF mt] by simp
      show "sess_rel same_posn st1 ?st2" by (rule sess_rel_refl) (simp_all add: same_posn_def)
    qed (use ne st2(2) in auto)
    show "match_twins ?st2 mt" using r(5)[OF mt] by (simp add: match_twins_def)
  qed
  have rel: "market_rel st ?st2" "sess_rel same_sess st ?st2"
  proof -
    have "market_rel st st1" "sess_rel same_sess st st1" using r(2) by (simp_all add: stage_def)
    then show "market_rel st ?st2" "sess_rel same_sess st ?st2"
      using market_rel_cong[of ?st2 st1 st] sess_rel_cong[of ?st2 st1 same_sess st] by simp_all
  qed
  have "a_orders ?st2 = (a_orders st)(p := traded now (a_orders st) fs t)" "a_mq ?st2 = a_mq st"
    "a_next_order ?st2 = a_next_order st" "a_next_exec st \<le> a_next_exec ?st2" "a_execs ?st2 ex = a_execs st ex"
    using r(2) ex by (simp_all add: stage_def)
  then have "matched accnt mid p (traded now (a_orders st) fs t) ex fs x st ?st2"
    unfolding matched_def using r(4,6) mo rel st2(2) l1 by simp
  with r(1) st2(1) show ?thesis by blast
qed

lemma matched_execs_length: "matched accnt mid p t ex fs x st st' \<Longrightarrow> length (x_execs x) = 1 + 2 * length fs"
proof -
  assume "matched accnt mid p t ex fs x st st'"
  then have "length (x_matches x) = length fs" "x_execs x = ex # concat (map match_trades (x_matches x))"
    by (auto simp: matched_def)
  moreover have "length (concat (map match_trades mts)) = 2 * length mts" for mts
    by (induction mts) (simp_all add: match_trades_def)
  ultimately show ?thesis by simp
qed

lemma app_create_order_eq:
  assumes "get_sess st accnt = Some s" and "get_market st mid = Some m"
    and "\<not> ref_taken st s ref" and "\<not> closed local_jd st m now" and "lots \<noteq> 0" and "min_lots \<le> lots"
    and st0: "st0 = st\<lparr>a_bus_day := snd (bus_day local_jd now (a_bus_day st))\<rparr>"
    and p: "alloc_order (created_order s m ref sd lots ticks min_lots now)
        (put_market (m\<lparr>m_max_id := m_max_id m + 1\<rparr>) st0) = (p, st1)"
    and ex: "alloc_exec (new_exec (a_orders st1 p) (m_max_id m + 1) now) st1 = (ex, st2)"
  shows "app_create_order local_jd accnt mid ref sd lots ticks min_lots now (st, resp) =
    obind (match_orders accnt mid p now ex (st2, resp_insert_exec ex (resp_insert_order p resp)))
      (\<lambda>x. finish_order accnt mid p ex now x)"
proof -
  obtain bd c where bd: "bus_day local_jd now (a_bus_day st) = (bd, c)" by fastforce
  have ord: "make_order (s_accnt s) (m_id (m\<lparr>m_max_id := m_max_id m + 1\<rparr>)) (m_instr (m\<lparr>m_max_id := m_max_id m + 1\<rparr>))
      (m_settl_day (m\<lparr>m_max_id := m_max_id m + 1\<rparr>)) (m_max_id m + 1) ref sd lots ticks min_lots now =
      created_order s m ref sd lots ticks min_lots now"
    by (simp add: created_order_def)
  have g: "\<not> (ref \<noteq> [] \<and> sess_exists (a_orders st) ref s)" "\<not> (m_settl_day m \<noteq> 0 \<and> m_settl_day m < bd)"
    "\<not> (lots = 0 \<or> lots < min_lots)"
    using assms(3-6) by (auto simp: ref_taken_def closed_def bd)
  have c: "st\<lparr>a_bus_day := c\<rparr> = st0" by (simp add: st0 bd)
  show ?thesis
    unfolding app_create_order_def prod.case assms(1,2) option.case if_not_P[OF g(1)] bd Let_def if_not_P[OF g(2)]
      if_not_P[OF g(3)] alloc_id_def ord c p ex ..
qed

lemma traded_order:
  assumes "market_inv h m" and "0 < lots" and "min_lots \<le> lots"
    and ord_def: "ord = created_order s m ref sd lots ticks min_lots now"
    and t_def: "t = traded now h (match_fills h m ord) ord"
  shows "order_done t \<or> order_ok t" and "order_done t \<longleftrightarrow> fill_lots (match_fills h m ord) = lots"
    and "o_resd_lots t + o_exec_lots t = lots" and "order_bounds t"
proof -
  have r: "0 \<le> o_resd_lots ord" using assms(2) by (simp add: ord_def)
  have f: "0 \<le> fill_lots (match_fills h m ord)" "fill_lots (match_fills h m ord) \<le> lots"
    using match_fills_total[OF assms(1) r] by (simp_all add: ord_def)
  have l: "o_resd_lots t = lots - fill_lots (match_fills h m ord)" "o_exec_lots t = fill_lots (match_fills h m ord)"
    "r_lots t = lots" "o_min_lots t = min_lots"
    by (simp_all add: t_def traded_lots ord_def)
  show "order_done t \<longleftrightarrow> fill_lots (match_fills h m ord) = lots" by (auto simp: order_done_def l)
  show "order_done t \<or> order_ok t" using f assms(2,3) by (auto simp: order_done_def order_ok_def l)
  show "o_resd_lots t + o_exec_lots t = lots" "order_bounds t" using f by (auto simp: l order_bounds_def)
qed

lemma market_rel_option: "market_rel st st' \<Longrightarrow> rel_option same_book (get_market st k) (get_market st' k)"
  unfolding market_rel_def by (drule spec[of _ k]) (auto split: option.splits)

lemma app_create_order_run:
  assumes inv: "app_inv local_jd st" and s: "get_sess st accnt = Some s" and m: "get_market st mid = Some m"
    and sd: "sd = Buy \<or> sd = Sell" and lots: "0 < lots" "min_lots \<le> lots"
    and guards: "\<not> ref_taken st s ref" "\<not> closed local_jd st m now"
    and ord: "ord = created_order s m ref sd lots ticks min_lots now"
    and fs: "fs = match_fills (a_orders st) m ord" and t: "t = traded now (a_orders st) fs ord"
    and p: "p = a_next_order st"
  shows "ring_reserve (a_mq st) < 1 + 2 * length fs \<Longrightarrow>
      \<exists>st' resp'. app_create_order local_jd accnt mid ref sd lots ticks min_lots now (st, resp) =
          Throw QueueFull (st', resp')
        \<and> app_inv local_jd st' \<and> market_rel st st' \<and> (\<forall>y. y \<noteq> p \<longrightarrow> a_orders st' y = a_orders st y)
        \<and> a_mq st' = a_mq st" (is "_ \<Longrightarrow> ?full")
    and "1 + 2 * length fs \<le> ring_reserve (a_mq st) \<Longrightarrow>
      \<exists>st' resp' es. app_create_order local_jd accnt mid ref sd lots ticks min_lots now (st, resp) = Done () (st', resp')
        \<and> app_inv local_jd st' \<and> list_all2 (fill_execs (a_orders st) ord) fs es
        \<and> ring_contents (a_mq st') = ring_contents (a_mq st) @ map exec_msg
            (new_exec ord (m_max_id m + 1) now # concat (map (\<lambda>(a, b). [a, b]) es))
        \<and> (\<forall>y. y \<noteq> p \<longrightarrow> a_orders st' y = filled_order now fs y (a_orders st y))
        \<and> a_orders st' p = (if order_done t then t else set_level (Some (compose_key sd ticks)) t)
        \<and> (\<forall>y. live st' y \<longleftrightarrow> live st y \<and> still_open (a_orders st) fs y \<or> y = p \<and> fill_lots fs < lots)
        \<and> (\<forall>k. k \<noteq> mid \<longrightarrow> rel_option same_book (get_market st k) (get_market st' k))" (is "_ \<Longrightarrow> ?room")
proof -
  define st0 where st0: "st0 = st\<lparr>a_bus_day := snd (bus_day local_jd now (a_bus_day st))\<rparr>"
  have inv0: "app_inv local_jd st0" and l0: "live st0 = live st"
    unfolding st0 by (rule app_inv_bus_day[OF inv bus_day_ok(1)[OF app_inv_parts(6)[OF inv]]])+
  have f0: "a_orders st0 = a_orders st" "get_market st0 k = get_market st k" "get_sess st0 a = get_sess st a"
    "a_mq st0 = a_mq st" "a_next_order st0 = a_next_order st" "a_markets st0 = a_markets st" for k a
    by (simp_all add: st0)
  have mi: "market_inv (a_orders st) m" and mid: "m_id m = mid"
    using book_market[OF app_inv_parts(1)[OF inv] m] book_id[OF app_inv_parts(1)[OF inv] m] .
  have acc: "s_accnt s = accnt" using own_id[OF app_inv_parts(2)[OF inv] s] .
  obtain p' st1 where a: "alloc_order ord (put_market (m\<lparr>m_max_id := m_max_id m + 1\<rparr>) st0) = (p', st1)" by fastforce
  obtain ex st2 where e: "alloc_exec (new_exec (a_orders st1 p') (m_max_id m + 1) now) st1 = (ex, st2)" by fastforce
  have m0: "get_market st0 mid = Some m" and s0: "get_sess st0 accnt = Some s" using m s f0 by simp_all
  note P = prepare_order_ok[OF inv0 m0 s0 ord a e]
  have pp: "p' = p" using P(6) f0 p by simp
  have np: "\<not> live st p" using P(3,4) l0 pp by simp
  let ?m2 = "m\<lparr>m_max_id := m_max_id m + 1\<rparr>"
  have h2: "a_orders st2 = (a_orders st)(p := ord)" using P(7) f0 pp by simp
  have makers: "q \<noteq> p" if "q \<in> listed m" for q using that np m by (auto simp: live_def)
  have fs2: "match_fills (a_orders st2) ?m2 ord = fs"
    unfolding fs by (rule match_fills_cong) (use makers h2 in auto)
  have fsm: "q \<noteq> p" if "q \<in> fst ` set fs" for q
    using that makers match_fills_listed[of "a_orders st" m ord] by (auto simp: fs)
  have t2: "traded now (a_orders st2) fs ord = t"
    unfolding t by (rule traded_cong) (use fsm h2 in auto)
  obtain x st3 resp3 where x: "match_orders accnt mid p now ex (st2, resp_insert_exec ex (resp_insert_order p resp)) = Done x (st3, resp3)"
      "app_inv local_jd st3" "matched accnt mid p t ex fs x st2 st3"
    using match_new_order[OF P(1,2), of p ord accnt ex now "resp_insert_exec ex (resp_insert_order p resp)"] P(4,9) h2 pp acc lots mid
    unfolding fs2 t2 by (auto simp: ord)
  note X = x(3)[unfolded matched_def]
  have run: "app_create_order local_jd accnt mid ref sd lots ticks min_lots now (st, resp) =
      finish_order accnt mid p ex now x (st3, resp3)"
    using app_create_order_eq[OF s m guards _ lots(2) st0 a[unfolded ord] e] lots x(1) pp by (simp add: obind_def)
  have rel2: "market_rel st st2"
    using P(11) market_rel_refl[OF f0(6)] by (blast intro: market_rel_trans)
  have rel3: "market_rel st st3" using rel2 X by (blast intro: market_rel_trans)
  obtain m3 where m3: "get_market st3 mid = Some m3" "same_book ?m2 m3"
    using market_relE[OF _ P(2), of st3] X by blast
  have "get_sess st2 accnt = Some s" using P(13) s0 by simp
  then obtain s3 where s3: "get_sess st3 accnt = Some s3" using sess_relE[of same_sess st2 st3 accnt s] X by blast
  have l3: "live st3 = live st" using X P(3) l0 by simp
  have h3: "a_orders st3 = (a_orders st)(p := t)" using X h2 by simp
  have tp: "a_orders st3 p = t" by (simp add: h3)
  have tf: "r_accnt t = accnt" "r_side t = sd" "r_market_id t = mid" "r_id t = m_max_id m + 1" "o_level t = None"
    "request_key t = request_key ord" "o_ticks t = ticks"
    using acc mid by (simp_all add: t ord)
  note T = traded_order[OF mi lots ord t[unfolded fs]]
  have id3: "r_id t \<le> m_max_id m3" using m3(2) by (simp add: same_book_def tf)
  have fresh: "request_key (a_orders st3 y) \<noteq> request_key t" if "live st3 y" for y
    using that P(3) P(12)[of y] l3 l0 h3 h2 np tf(6) by (cases "y = p") auto
  have ex3: "ex < a_next_exec st3" "r_accnt (a_execs st3 ex) = accnt"
    using X P(8,9) acc by (simp_all add: new_exec_def make_exec_def ord)
  have mo: "match_ok accnt mid sd st3 mt" if "mt \<in> set (x_matches x)" for mt using X that tf(2) by simp
  have dist: "distinct (map mt_maker_order (x_matches x))"
  proof -
    have "map mt_maker_order (x_matches x) = map fst (map match_fill (x_matches x))" by (simp add: match_fill_def)
    then show ?thesis using X match_fills_distinct[OF mi, of ord] by (simp add: fs)
  qed
  have len: "length (x_execs x) = 1 + 2 * length fs" using x(3) by (rule matched_execs_length)
  have mq3: "a_mq st3 = a_mq st" using X P(10) f0 by simp
  have np3: "\<not> live st3 p" using np l3 by simp
  have lt: "p < a_next_order st3" using X P(5) pp by simp
  show ?full if full: "ring_reserve (a_mq st) < 1 + 2 * length fs"
  proof -
    obtain st' resp' where r: "finish_order accnt mid p ex now x (st3, resp3) = Throw QueueFull (st', resp')"
        "stage st3 st'" "app_inv local_jd st'"
      using finish_order_full[OF x(2) m3(1) s3 np3, of x ex now resp3] tf sd T(1) id3 full len mq3
      unfolding tp by auto
    have "market_rel st st'" using rel3 r(2) unfolding stage_def by (blast intro: market_rel_trans)
    moreover have "a_orders st' = a_orders st3" "a_mq st' = a_mq st3" using r(2) by (simp_all add: stage_def)
    ultimately show ?thesis using r run h3 mq3 by (intro exI[of _ st'] exI[of _ resp']) simp
  qed
  show ?room if room: "1 + 2 * length fs \<le> ring_reserve (a_mq st)"
  proof -
    have room3: "length (x_execs x) \<le> ring_reserve (a_mq st3)" using room len mq3 by simp
    have R: "map match_fill (x_matches x) = fs" using X by simp
    note F = finish_order_room[OF x(2) m3(1) s3 np3 lt, unfolded tp, OF tf(1) _ T(1) tf(3) id3 fresh ex3 mo dist room3,
        unfolded tf(2) R, OF sd, of now resp3]
    obtain st' resp' where r: "finish_order accnt mid p ex now x (st3, resp3) = Done () (st', resp')"
        "app_inv local_jd st'"
        "ring_contents (a_mq st') = ring_contents (a_mq st3) @ map (\<lambda>e. exec_msg (a_execs st3 e)) (x_execs x)"
        "\<And>y. y \<noteq> p \<Longrightarrow> a_orders st' y = filled_order now fs y (a_orders st3 y)"
        "a_orders st' p = (if order_done t then t else set_level (Some (okey (a_orders st3) p)) t)"
        "\<And>y. live st' y \<longleftrightarrow> live st3 y \<and> still_open (a_orders st3) fs y \<or> y = p \<and> \<not> order_done t"
        "\<And>k. k \<noteq> mid \<Longrightarrow> get_market st' k = get_market st3 k"
      using F by blast
    let ?es = "map (\<lambda>mt. (a_execs st3 (mt_maker_trade mt), a_execs st3 (mt_taker_trade mt))) (x_matches x)"
    have h3q: "a_orders st3 q = a_orders st q" if "q \<noteq> p" for q using that h3 by simp
    have "list_all2 (fill_execs (a_orders st3) t) (map match_fill (x_matches x)) ?es"
      using X tf by (intro fill_execs_matches[where mid = mid]) simp
    then have "list_all2 (fill_execs (a_orders st) t) fs ?es"
      unfolding R by (rule fill_execs_cong) (use fsm h3q in auto)
    then have es: "list_all2 (fill_execs (a_orders st) ord) fs ?es"
      by (simp add: fill_execs_def t cong: list.rel_cong)
    have cc: "map (\<lambda>e. exec_msg (a_execs st3 e)) (concat (map match_trades mts)) =
        map exec_msg (concat (map (\<lambda>(a, b). [a, b])
          (map (\<lambda>mt. (a_execs st3 (mt_maker_trade mt), a_execs st3 (mt_taker_trade mt))) mts)))" for mts
      by (induction mts) (simp_all add: match_trades_def)
    have xe: "x_execs x = ex # concat (map match_trades (x_matches x))" "a_execs st3 ex = new_exec ord (m_max_id m + 1) now"
      using X P(8) by simp_all
    have journal: "ring_contents (a_mq st') = ring_contents (a_mq st) @ map exec_msg
        (new_exec ord (m_max_id m + 1) now # concat (map (\<lambda>(a, b). [a, b]) ?es))"
      unfolding r(3) mq3 xe(1) list.map(2) xe(2) cc ..
    have "still_open (a_orders st3) fs y \<longleftrightarrow> still_open (a_orders st) fs y" if "y \<noteq> p" for y
      using h3q[OF that] by (simp add: still_open_def split: option.split)
    then have lv: "live st' y \<longleftrightarrow> live st y \<and> still_open (a_orders st) fs y \<or> y = p \<and> fill_lots fs < lots" for y
      using r(6)[of y] l3 np T(2) match_fills_total(2)[OF mi, of ord] lots(1) by (cases "y = p") (auto simp: fs ord)
    have oth: "rel_option same_book (get_market st k) (get_market st' k)" if "k \<noteq> mid" for k
      using r(7)[OF that] market_rel_option[OF rel3, of k] by simp
    have ok3: "okey (a_orders st3) p = compose_key sd ticks" by (simp add: okey_def tp tf)
    show ?thesis
      using r(1,2,4,5) run es journal lv oth h3q
      by (intro exI[of _ st'] exI[of _ resp'] exI[of _ ?es]) (simp add: ok3)
  qed
qed

end
