(* ===== verification/App_Revise.thy ===== *)
theory App_Revise
  imports App_Create
begin

text \<open>
  Revising and cancelling orders: one lemma for a live order that an operation of its market updates
  (\<open>update_order_ok\<close>), and from it the outcomes of the calls for one order and for a list of
  identifiers.
\<close>

section \<open>One order\<close>

lemma update_order_ok:
  assumes inv: "app_inv local_jd st" and m: "get_market st mid = Some m" and s: "get_sess st accnt = Some s"
    and p: "p \<in> listed m" "r_accnt (a_orders st p) = accnt"
    and f: "f (a_orders st, m) = ((a_orders st)(p := ord), m')" "market_inv ((a_orders st)(p := ord)) m'"
      "m_id m' = m_id m" "m_max_id m' = m_max_id m"
      "\<And>x. x \<in> listed m' \<longleftrightarrow> x \<in> listed m \<and> (x = p \<longrightarrow> \<not> gone)"
    and key: "request_key ord = request_key (a_orders st p)" "r_ref ord = r_ref (a_orders st p)"
      "r_accnt ord = r_accnt (a_orders st p)"
    and ex: "ex < a_next_exec st" "r_accnt (a_execs st ex) = accnt"
  defines "st1 \<equiv> on_market f m st"
  defines "st' \<equiv> put_sess (push_exec_front ex (if gone then sess_remove_order (a_orders st1) p s else s)) st1"
  shows "app_inv local_jd st'" and "get_sess st1 accnt = Some s" and "a_orders st1 = (a_orders st)(p := ord)"
    and "a_orders st' = (a_orders st)(p := ord)" and "live st' x \<longleftrightarrow> live st x \<and> (x = p \<longrightarrow> \<not> gone)"
    and "a_mq st' = a_mq st" and "get_market st' k = (if k = mid then Some m' else get_market st k)"
    and "a_execs st' = a_execs st" and "a_next_exec st' = a_next_exec st" and "get_sess st' accnt \<noteq> None"
proof -
  note parts = app_inv_parts[OF inv]
  have mid: "m_id m = mid" using book_id[OF parts(1) m] .
  have acc: "s_accnt s = accnt" using own_id[OF parts(2) s] .
  have pl: "live st p" "r_market_id (a_orders st p) = mid" using live_in_market[OF parts(1) m] p by auto
  let ?h = "(a_orders st)(p := ord)"
  have st1: "st1 = put_market m' (st\<lparr>a_orders := ?h\<rparr>)" by (simp add: st1_def on_market_def f(1))
  define s' where "s' = push_exec_front ex (if gone then sess_remove_order ?h p s else s)"
  have st': "st' = put_sess s' st1" by (simp add: st'_def s'_def st1)
  have acc': "s_accnt s' = accnt" by (simp add: s'_def acc)
  show heap1: "a_orders st1 = ?h" by (simp add: st1)
  show heap: "a_orders st' = ?h" "a_mq st' = a_mq st" "a_execs st' = a_execs st" "a_next_exec st' = a_next_exec st"
    by (simp_all add: st' st1)
  have heap2: "a_next_order st' = a_next_order st" "a_next_posn st' = a_next_posn st" "a_posns st' = a_posns st"
    by (simp_all add: st' st1)
  have markets: "a_markets st' = a_markets (put_market m' st)" by (simp add: st' st1 put_market_def)
  have id': "m_id m' = mid" using f(3) mid by simp
  show gm: "get_market st' k = (if k = mid then Some m' else get_market st k)" for k
    using get_market_cong[OF markets, of k] parts(7) m id' by (simp add: get_market_put_market)
  have plt: "p < a_next_order st'" using live_order_ok(2)[OF parts(1) pl(1)] heap2 by simp
  have sub: "listed m' \<subseteq> insert p (listed m)" using f(5) by auto
  have other: "a_orders st' q = a_orders st q" if "q \<noteq> p" for q using that by (simp add: heap)
  note book = book_inv_market[OF parts(1) m id', of st' p]
  have B1: "book_inv st'"
    by (rule book(1)) (use f(2) pl plt sub other heap heap2 markets in simp_all)
  have B2: "live st' x \<longleftrightarrow> x \<in> listed m' \<or> live st x \<and> x \<notin> listed m" for x
    by (rule book(2)) (use f(2) pl plt sub other heap heap2 markets in simp_all)
  show lv: "live st' x \<longleftrightarrow> live st x \<and> (x = p \<longrightarrow> \<not> gone)" for x
    using B2[of x] f(5)[of x] p(1) m by (auto simp: live_def)
  have get1: "get_sess st1 a = get_sess st a" for a by (simp add: st1)
  then show s1: "get_sess st1 accnt = Some s" using s by simp
  have ok1: "set_ok s_accnt (a_sesss st1)" using parts(8) by (simp add: st1)
  have get': "get_sess st' a = (if a = accnt then Some s' else get_sess st a)" for a
    using ok1 s by (auto simp: st' get_sess_put_sess acc' get1)
  then show "get_sess st' accnt \<noteq> None" by simp
  have rel: "sess_rel R st st'" if "R s s'" "\<And>a t. get_sess st a = Some t \<Longrightarrow> a \<noteq> accnt \<Longrightarrow> R t t" for R
    using that s by (auto simp: sess_rel_def get' split: option.split)
  have own: "own_inv st'"
  proof (rule own_inv_take[OF parts(2) _ _ pl(1), where gone = gone])
    show "set_ok s_accnt (a_sesss st')" using ok1 by (simp add: st')
    show "live st' x \<longleftrightarrow> live st x \<and> (x = p \<longrightarrow> \<not> gone)" for x by (rule lv)
    show "request_key (a_orders st' x) = request_key (a_orders st x) \<and> r_ref (a_orders st' x) = r_ref (a_orders st x)
        \<and> r_accnt (a_orders st' x) = r_accnt (a_orders st x)" for x
      using key by (simp add: heap)
    show "sess_rel (\<lambda>s s'. same_own (if gone \<and> r_accnt (a_orders st p) = s_accnt s
        then sess_remove_order (a_orders st') p s else s) s') st st'"
    proof (rule rel)
      show "same_own (if gone \<and> r_accnt (a_orders st p) = s_accnt s then sess_remove_order (a_orders st') p s else s) s'"
        using p(2) acc by (simp add: s'_def same_own_def heap)
      show "same_own (if gone \<and> r_accnt (a_orders st p) = s_accnt t then sess_remove_order (a_orders st') p t else t) t"
        if "get_sess st a = Some t" "a \<noteq> accnt" for a t
        using own_id[OF parts(2) that(1)] that(2) p(2) by (simp add: same_own_def)
    qed
  qed
  have P: "sess_rel same_posn st st'" by (rule rel) (simp_all add: same_posn_def s'_def)
  have "exec_inv st'"
  proof -
    have "exec_inv st1"
    proof (rule exec_inv_frame[OF parts(3) sess_rel_refl])
      show "\<exists>m1. get_market st1 k = Some m1 \<and> m_max_id m0 \<le> m_max_id m1" if "get_market st k = Some m0" for k m0
      proof -
        have "get_market st1 k = (if k = mid then Some m' else get_market st k)" using gm[of k] by (simp add: st')
        then show ?thesis using m f(4) that by auto
      qed
    qed (simp_all add: st1 same_exec_def)
    moreover have "exec_ok st1 s'"
    proof (rule exec_ok_push)
      show "exec_ok st1 s" using \<open>exec_inv st1\<close> s1 by (simp add: exec_inv_def)
    qed (use ex acc in \<open>auto simp: st1 s'_def same_exec_def push_exec_front_def sess_remove_order_def Let_def\<close>)
    ultimately show ?thesis unfolding st' by (intro exec_inv_put[OF _ ok1])
  qed
  moreover have "posn_inv st'" by (rule posn_inv_frame[OF parts(4) P]) (simp_all add: heap2)
  ultimately show "app_inv local_jd st'"
    using B1 own parts by (simp add: app_inv_def heap) (simp add: st' st1)
qed

section \<open>The execution of a request\<close>

text \<open>The identifier and the execution that a revision or a cancellation starts with.\<close>

lemma request_exec_ok:
  assumes inv: "app_inv local_jd st" and m: "get_market st mid = Some m"
    and e: "alloc_exec ex (put_market (m\<lparr>m_max_id := m_max_id m + 1\<rparr>) st) = (e, st')"
  shows "stage st st'" and "app_inv local_jd st'"
    and "get_market st' mid = Some (m\<lparr>m_max_id := m_max_id m + 1\<rparr>)"
    and "a_execs st' e = ex" and "e < a_next_exec st'" and "get_sess st' a = get_sess st a"
    and "k \<noteq> mid \<Longrightarrow> get_market st' k = get_market st k" and "e = a_next_exec st"
    and "a_next_exec st' = a_next_exec st + 1"
proof -
  note parts = app_inv_parts[OF inv]
  let ?m = "m\<lparr>m_max_id := m_max_id m + 1\<rparr>"
  have sb: "same_book m ?m" by (simp add: same_book_def)
  note s1 = put_market_stage[OF inv m sb]
  note s2 = alloc_exec_ok[OF s1(2) e]
  show "stage st st'" using s1(1) s2(1) by (rule stage_trans)
  show "app_inv local_jd st'" by (rule s2(2))
  show "get_market st' mid = Some ?m" using get_market_cong[OF s2(8), of mid] s1(3) by simp
  show "a_execs st' e = ex" "e < a_next_exec st'" "e = a_next_exec st" "a_next_exec st' = a_next_exec st + 1"
    using s2(3-5) by simp_all
  show "get_sess st' a = get_sess st a" using s2(7) by (simp add: get_sess_def)
  show "get_market st' k = get_market st k" if "k \<noteq> mid"
    using that get_market_cong[OF s2(8), of k] parts(7) book_id[OF parts(1) m] by (simp add: get_market_put_market)
qed

lemma listed_max_id [simp]: "listed (m\<lparr>m_max_id := i\<rparr>) = listed m"
  by (simp add: listed_def)

lemma on_market_ids [simp]:
  "a_execs (on_market f m st) = a_execs st" "a_next_exec (on_market f m st) = a_next_exec st"
  "a_mq (on_market f m st) = a_mq st"
  by (simp_all add: on_market_def split: prod.split)

text \<open>The two commits, on a live order of the session in this market.\<close>

lemma commit_revise_ok:
  assumes inv: "app_inv local_jd st" and m: "get_market st mid = Some m" and s: "get_sess st accnt = Some s"
    and p: "p \<in> listed m" "r_accnt (a_orders st p) = accnt"
    and lots: "o_min_lots (a_orders st p) \<le> lots" "o_exec_lots (a_orders st p) \<le> lots"
    and ex: "ex < a_next_exec st" "r_accnt (a_execs st ex) = accnt"
  shows "\<exists>st'. commit_revise accnt mid p lots now ex st = Some st' \<and> app_inv local_jd st'
    \<and> a_orders st' = (a_orders st)(p := revised_order lots now (a_orders st p))
    \<and> (\<forall>x. live st' x \<longleftrightarrow> live st x \<and> (x = p \<longrightarrow> o_exec_lots (a_orders st p) \<noteq> lots))
    \<and> a_mq st' = a_mq st \<and> a_execs st' = a_execs st \<and> a_next_exec st' = a_next_exec st
    \<and> (\<forall>k. get_market st' k = (if k = mid then Some (market_revised p lots (a_orders st) m) else get_market st k))
    \<and> get_sess st' accnt \<noteq> None"
proof -
  note parts = app_inv_parts[OF inv]
  have mi: "market_inv (a_orders st) m" and mid: "m_id m = mid" using book_market[OF parts(1) m] book_id[OF parts(1) m] .
  note r = market_revise_order_ok[OF mi p(1) lots(1), of now]
  let ?gone = "o_exec_lots (a_orders st p) = lots" and ?ord = "revised_order lots now (a_orders st p)"
  have ok: "order_ok (a_orders st p)" using listed_order_ok[OF mi p(1)] .
  have key: "request_key ?ord = request_key (a_orders st p)" "r_ref ?ord = r_ref (a_orders st p)"
    "r_accnt ?ord = r_accnt (a_orders st p)"
    by (simp_all add: revised_order_def order_defs request_key_def)
  have dn: "order_done ?ord \<longleftrightarrow> ?gone"
    using ok by (auto simp: order_done_def revised_order_def order_defs order_ok_def)
  have l: "x \<in> listed (market_revised p lots (a_orders st) m) \<longleftrightarrow> x \<in> listed m \<and> (x = p \<longrightarrow> \<not> ?gone)" for x
    using market_revised_listed[OF mi p(1) lots(2)] by simp
  note U = update_order_ok[where f = "market_revise_order p lots now" and gone = ?gone,
      OF inv m s p r(1,2) market_cancelled_frame(3,4) l key ex]
  let ?st1 = "on_market (market_revise_order p lots now) m st"
  let ?s = "if ?gone then sess_remove_order (a_orders ?st1) p s else s"
  have "r_market_id (a_orders st p) = m_id m" using live_in_market[OF parts(1) m, of p] p(1) mid by simp
  then have "commit_revise accnt mid p lots now ex st = Some (put_sess (push_exec_front ex ?s) ?st1)"
    using m U(2,3) dn by (simp add: commit_revise_def Let_def)
  then show ?thesis using U(1,4-) by simp
qed

lemma commit_cancel_ok:
  assumes inv: "app_inv local_jd st" and m: "get_market st mid = Some m" and s: "get_sess st accnt = Some s"
    and p: "p \<in> listed m" "r_accnt (a_orders st p) = accnt"
    and ex: "ex < a_next_exec st" "r_accnt (a_execs st ex) = accnt"
  shows "\<exists>st'. commit_cancel accnt mid p now ex st = Some st' \<and> app_inv local_jd st'
    \<and> a_orders st' = (a_orders st)(p := cancelled_order now (a_orders st p))
    \<and> (\<forall>x. live st' x \<longleftrightarrow> live st x \<and> x \<noteq> p)
    \<and> a_mq st' = a_mq st \<and> a_execs st' = a_execs st \<and> a_next_exec st' = a_next_exec st
    \<and> (\<forall>k. get_market st' k = (if k = mid then Some (market_cancelled p (a_orders st) m) else get_market st k))
    \<and> get_sess st' accnt \<noteq> None"
proof -
  note parts = app_inv_parts[OF inv]
  have mi: "market_inv (a_orders st) m" and mid: "m_id m = mid" using book_market[OF parts(1) m] book_id[OF parts(1) m] .
  note r = market_cancel_order_ok[OF mi p(1), of now]
  let ?ord = "cancelled_order now (a_orders st p)"
  have key: "request_key ?ord = request_key (a_orders st p)" "r_ref ?ord = r_ref (a_orders st p)"
    "r_accnt ?ord = r_accnt (a_orders st p)"
    by (simp_all add: cancelled_order_def order_defs request_key_def)
  have l: "x \<in> listed (market_cancelled p (a_orders st) m) \<longleftrightarrow> x \<in> listed m \<and> (x = p \<longrightarrow> \<not> True)" for x
    using market_cancelled_listed[OF mi p(1)] by simp
  note U = update_order_ok[where f = "market_cancel_order p now" and gone = True,
      OF inv m s p r(1,2) market_cancelled_frame(1,2) l key ex]
  let ?st1 = "on_market (market_cancel_order p now) m st"
  have "r_market_id (a_orders st p) = m_id m" using live_in_market[OF parts(1) m, of p] p(1) mid by simp
  then have "commit_cancel accnt mid p now ex st =
      Some (put_sess (push_exec_front ex (sess_remove_order (a_orders ?st1) p s)) ?st1)"
    using m U(2) by (simp add: commit_cancel_def Let_def)
  then show ?thesis using U(1,4-) by simp
qed

section \<open>The calls for one order\<close>

lemma on_mq_exec_full: "ring_ok (a_mq st) \<Longrightarrow> ring_reserve (a_mq st) = 0 \<Longrightarrow>
    on_mq (mq_create_exec ex) st = Throw QueueFull st"
  using mq_create_exec_full[of "a_mq st" ex] by (simp add: on_mq_def)

lemma on_mq_exec_room:
  assumes "ring_ok (a_mq st)" and "0 < ring_reserve (a_mq st)"
  obtains q where "on_mq (mq_create_exec ex) st = Done () (st\<lparr>a_mq := q\<rparr>)" and "ring_ok q"
    and "ring_contents q = ring_contents (a_mq st) @ [exec_msg ex]"
  using mq_create_exec_ok[OF assms, of ex] that by (auto simp: on_mq_def)

text \<open>
  What a request on one order has done when it returns: \<open>ord\<close> is the order afterwards, \<open>gone\<close> says
  whether it has left the book, \<open>ex\<close> is the execution in the journal.
\<close>

definition order_updated :: "id64 \<Rightarrow> optr \<Rightarrow> order \<Rightarrow> bool \<Rightarrow> exec \<Rightarrow> app \<Rightarrow> app \<Rightarrow> bool" where
  "order_updated mid p ord gone ex st st' \<longleftrightarrow>
     a_orders st' = (a_orders st)(p := ord) \<and> (\<forall>x. live st' x \<longleftrightarrow> live st x \<and> (x = p \<longrightarrow> \<not> gone))
     \<and> ring_contents (a_mq st') = ring_contents (a_mq st) @ [exec_msg ex]
     \<and> (\<forall>k. k \<noteq> mid \<longrightarrow> get_market st' k = get_market st k)"

lemma revised_max_id [simp]: "market_revised p lots h (m\<lparr>m_max_id := i\<rparr>) = (market_revised p lots h m)\<lparr>m_max_id := i\<rparr>"
  by (simp add: market_revised_def put_side_def get_side_def)

lemma new_exec_accnt [simp]:
  "r_accnt (exec_revise lots (new_exec ord eid now)) = r_accnt ord"
  "r_accnt (exec_cancel (new_exec ord eid now)) = r_accnt ord"
  "e_order_id (exec_revise lots (new_exec ord eid now)) = r_id ord"
  "e_order_id (exec_cancel (new_exec ord eid now)) = r_id ord"
  by (simp_all add: exec_revise_def exec_cancel_def new_exec_def make_exec_def Let_def)

lemma stage_facts:
  "stage st st' \<Longrightarrow> a_orders st' = a_orders st" "stage st st' \<Longrightarrow> a_mq st' = a_mq st"
  "stage st st' \<Longrightarrow> live st' = live st" "stage st st' \<Longrightarrow> market_rel st st'"
  "stage st st' \<Longrightarrow> sess_rel same_sess st st'"
  using stage_live[of st st'] by (simp_all add: stage_def)

lemma do_revise_order_cases:
  assumes inv: "app_inv local_jd st" and m: "get_market st mid = Some m" and s: "get_sess st accnt = Some s"
    and p: "p \<in> listed m" "r_accnt (a_orders st p) = accnt"
  shows "invalid_revision lots (a_orders st p) \<Longrightarrow>
      do_revise_order accnt mid p lots now (st, resp) = Throw InvalidLots (st, resp)"
    and "\<not> invalid_revision lots (a_orders st p) \<Longrightarrow> ring_reserve (a_mq st) = 0 \<Longrightarrow>
      \<exists>st' resp'. do_revise_order accnt mid p lots now (st, resp) = Throw QueueFull (st', resp')
        \<and> stage st st' \<and> app_inv local_jd st'"
    and "\<not> invalid_revision lots (a_orders st p) \<Longrightarrow> 0 < ring_reserve (a_mq st) \<Longrightarrow>
      \<exists>st' resp'. do_revise_order accnt mid p lots now (st, resp) = Done () (st', resp') \<and> app_inv local_jd st'
        \<and> order_updated mid p (revised_order lots now (a_orders st p)) (o_exec_lots (a_orders st p) = lots)
            (exec_revise lots (new_exec (a_orders st p) (m_max_id m + 1) now)) st st'"
proof -
  let ?ord = "a_orders st p" and ?m = "m\<lparr>m_max_id := m_max_id m + 1\<rparr>"
  let ?ex = "exec_revise lots (new_exec ?ord (m_max_id m + 1) now)"
  obtain e st1 where e: "alloc_exec ?ex (put_market ?m st) = (e, st1)" by fastforce
  note E = request_exec_ok[OF inv m e]
  note F = stage_facts[OF E(1)]
  have q: "ring_ok (a_mq st1)" using app_inv_parts(5)[OF E(2)] .
  define resp1 where "resp1 = resp_insert_exec e (resp_insert_order p (resp_set_market mid resp))"
  have run: "do_revise_order accnt mid p lots now (st, resp) =
      (case on_mq (mq_create_exec ?ex) st1 of Undef \<Rightarrow> Undef | Throw e st \<Rightarrow> Throw e (st, resp1)
       | Done _ st \<Rightarrow> (case commit_revise accnt mid p lots now e st of
           Some st \<Rightarrow> Done () (st, resp1) | None \<Rightarrow> Undef))" if "\<not> invalid_revision lots ?ord"
    unfolding resp1_def using that by (simp add: do_revise_order_def Let_def m alloc_id_def e E(4))
  show "do_revise_order accnt mid p lots now (st, resp) = Throw InvalidLots (st, resp)"
    if "invalid_revision lots ?ord"
    using that by (simp add: do_revise_order_def Let_def)
  show "\<exists>st' resp'. do_revise_order accnt mid p lots now (st, resp) = Throw QueueFull (st', resp')
      \<and> stage st st' \<and> app_inv local_jd st'" if v: "\<not> invalid_revision lots ?ord" and full: "ring_reserve (a_mq st) = 0"
    using on_mq_exec_full[OF q, of ?ex] full F(2) run[OF v] E(1,2) by auto
  show "\<exists>st' resp'. do_revise_order accnt mid p lots now (st, resp) = Done () (st', resp') \<and> app_inv local_jd st'
      \<and> order_updated mid p (revised_order lots now ?ord) (o_exec_lots ?ord = lots) ?ex st st'"
    if v: "\<not> invalid_revision lots ?ord" and room: "0 < ring_reserve (a_mq st)"
  proof -
    obtain q1 where q1: "on_mq (mq_create_exec ?ex) st1 = Done () (st1\<lparr>a_mq := q1\<rparr>)" "ring_ok q1"
        "ring_contents q1 = ring_contents (a_mq st1) @ [exec_msg ?ex]"
      using on_mq_exec_room[OF q] room F(2) by metis
    let ?st2 = "st1\<lparr>a_mq := q1\<rparr>"
    note I = app_inv_mq[OF E(2) q1(2)]
    have lots: "o_min_lots (a_orders ?st2 p) \<le> lots" "o_exec_lots (a_orders ?st2 p) \<le> lots"
      using v F(1) by (auto simp: invalid_revision_def)
    have m2: "get_market ?st2 mid = Some ?m" and s2: "get_sess ?st2 accnt = Some s"
      and p2: "p \<in> listed ?m" "r_accnt (a_orders ?st2 p) = accnt"
      and ex2: "e < a_next_exec ?st2" "r_accnt (a_execs ?st2 e) = accnt"
      using E F s p by simp_all
    obtain st' where st': "commit_revise accnt mid p lots now e ?st2 = Some st'" "app_inv local_jd st'"
        "a_orders st' = (a_orders ?st2)(p := revised_order lots now (a_orders ?st2 p))"
        "\<And>x. live st' x \<longleftrightarrow> live ?st2 x \<and> (x = p \<longrightarrow> o_exec_lots (a_orders ?st2 p) \<noteq> lots)"
        "a_mq st' = a_mq ?st2"
        "\<And>k. get_market st' k = (if k = mid then Some (market_revised p lots (a_orders ?st2) ?m) else get_market ?st2 k)"
      using commit_revise_ok[OF I(1) m2 s2 p2 lots ex2, of now] by blast
    have "order_updated mid p (revised_order lots now ?ord) (o_exec_lots ?ord = lots) ?ex st st'"
      unfolding order_updated_def using st'(3-6) F I(2) q1(3) E(7) by simp
    then show ?thesis using run[OF v] q1(1) st'(1,2) by simp
  qed
qed

lemma do_cancel_order_cases:
  assumes inv: "app_inv local_jd st" and m: "get_market st mid = Some m" and s: "get_sess st accnt = Some s"
    and p: "p \<in> listed m" "r_accnt (a_orders st p) = accnt"
  shows "ring_reserve (a_mq st) = 0 \<Longrightarrow>
      \<exists>st' resp'. do_cancel_order accnt mid p now (st, resp) = Throw QueueFull (st', resp')
        \<and> stage st st' \<and> app_inv local_jd st'"
    and "0 < ring_reserve (a_mq st) \<Longrightarrow>
      \<exists>st' resp'. do_cancel_order accnt mid p now (st, resp) = Done () (st', resp') \<and> app_inv local_jd st'
        \<and> order_updated mid p (cancelled_order now (a_orders st p)) True
            (exec_cancel (new_exec (a_orders st p) (m_max_id m + 1) now)) st st'"
proof -
  let ?ord = "a_orders st p" and ?m = "m\<lparr>m_max_id := m_max_id m + 1\<rparr>"
  let ?ex = "exec_cancel (new_exec ?ord (m_max_id m + 1) now)"
  obtain e st1 where e: "alloc_exec ?ex (put_market ?m st) = (e, st1)" by fastforce
  note E = request_exec_ok[OF inv m e]
  note F = stage_facts[OF E(1)]
  have q: "ring_ok (a_mq st1)" using app_inv_parts(5)[OF E(2)] .
  define resp1 where "resp1 = resp_insert_exec e (resp_insert_order p (resp_set_market mid resp))"
  have run: "do_cancel_order accnt mid p now (st, resp) =
      (case on_mq (mq_create_exec ?ex) st1 of Undef \<Rightarrow> Undef | Throw e st \<Rightarrow> Throw e (st, resp1)
       | Done _ st \<Rightarrow> (case commit_cancel accnt mid p now e st of
           Some st \<Rightarrow> Done () (st, resp1) | None \<Rightarrow> Undef))"
    unfolding resp1_def by (simp add: do_cancel_order_def Let_def m alloc_id_def e E(4))
  show "\<exists>st' resp'. do_cancel_order accnt mid p now (st, resp) = Throw QueueFull (st', resp')
      \<and> stage st st' \<and> app_inv local_jd st'" if full: "ring_reserve (a_mq st) = 0"
    using on_mq_exec_full[OF q, of ?ex] full F(2) run E(1,2) by auto
  show "\<exists>st' resp'. do_cancel_order accnt mid p now (st, resp) = Done () (st', resp') \<and> app_inv local_jd st'
      \<and> order_updated mid p (cancelled_order now ?ord) True ?ex st st'"
    if room: "0 < ring_reserve (a_mq st)"
  proof -
    obtain q1 where q1: "on_mq (mq_create_exec ?ex) st1 = Done () (st1\<lparr>a_mq := q1\<rparr>)" "ring_ok q1"
        "ring_contents q1 = ring_contents (a_mq st1) @ [exec_msg ?ex]"
      using on_mq_exec_room[OF q] room F(2) by metis
    let ?st2 = "st1\<lparr>a_mq := q1\<rparr>"
    note I = app_inv_mq[OF E(2) q1(2)]
    have m2: "get_market ?st2 mid = Some ?m" and s2: "get_sess ?st2 accnt = Some s"
      and p2: "p \<in> listed ?m" "r_accnt (a_orders ?st2 p) = accnt"
      and ex2: "e < a_next_exec ?st2" "r_accnt (a_execs ?st2 e) = accnt"
      using E F s p by simp_all
    obtain st' where st': "commit_cancel accnt mid p now e ?st2 = Some st'" "app_inv local_jd st'"
        "a_orders st' = (a_orders ?st2)(p := cancelled_order now (a_orders ?st2 p))"
        "\<And>x. live st' x \<longleftrightarrow> live ?st2 x \<and> x \<noteq> p"
        "a_mq st' = a_mq ?st2"
        "\<And>k. get_market st' k = (if k = mid then Some (market_cancelled p (a_orders ?st2) ?m) else get_market ?st2 k)"
      using commit_cancel_ok[OF I(1) m2 s2 p2 ex2, of now] by blast
    have "order_updated mid p (cancelled_order now ?ord) True ?ex st st'"
      unfolding order_updated_def using st'(3-6) F I(2) q1(3) E(7) by simp
    then show ?thesis using run q1(1) st'(1,2) by simp
  qed
qed

end
