(* ===== verification/App_Batch.thy ===== *)
theory App_Batch
  imports App_Revise
begin

text \<open>
  Revising and cancelling a list of orders by identifier: a first pass that validates and allocates,
  the journal, and a second pass that commits. A list without repetitions is committed as a whole or
  not at all (\<open>cancel_order_ids_cases\<close>, \<open>revise_order_ids_cases\<close>).
\<close>

lemma sess_order_live:
  assumes "own_inv st" and "get_sess st a = Some s" and "live st p" and "r_accnt (a_orders st p) = a"
  shows "sess_order (a_orders st) (r_market_id (a_orders st p)) (r_id (a_orders st p)) s = Some p"
proof -
  have "p \<in> set (s_orders s)" using own_live[OF assms(1,2)] assms(3,4) by simp
  moreover have "set_ok (order_id_key (a_orders st)) (s_orders s)" using assms(1,2) by (simp add: own_inv_def own_ok_def)
  ultimately show ?thesis by (simp add: sess_order_def set_find_Some_iff order_id_key_def request_key_def)
qed

lemma live_not_done: "app_inv local_jd st \<Longrightarrow> live st p \<Longrightarrow> \<not> order_done (a_orders st p)"
  using live_order_ok(1)[OF app_inv_parts(1), of local_jd st p] by (simp add: order_ok_def order_done_def)

text \<open>The order that an identifier names in a market and an account.\<close>

definition named :: "symbol \<Rightarrow> id64 \<Rightarrow> id64 \<Rightarrow> app \<Rightarrow> optr \<Rightarrow> bool" where
  "named accnt mid oid st p \<longleftrightarrow> live st p \<and> r_accnt (a_orders st p) = accnt
     \<and> r_market_id (a_orders st p) = mid \<and> r_id (a_orders st p) = oid"

lemma named_sess_order:
  assumes "own_inv st" and "get_sess st accnt = Some s"
  shows "sess_order (a_orders st) mid oid s = Some p \<longleftrightarrow> named accnt mid oid st p"
  using sess_order_Some[OF assms, of mid oid p] sess_order_live[OF assms, of p] by (auto simp: named_def)

lemma named_unique:
  "own_inv st \<Longrightarrow> named accnt mid oid st p \<Longrightarrow> named accnt mid oid st p' \<Longrightarrow> p = p'"
  using sess_order_live[of st accnt _ p] sess_order_live[of st accnt _ p']
  by (fastforce simp: named_def own_inv_def)

lemma stage_named: "stage st st' \<Longrightarrow> named accnt mid oid st' = named accnt mid oid st"
  by (intro ext) (simp add: named_def stage_facts)

section \<open>The first pass\<close>

text \<open>The executions that the first pass leaves, one per identifier.\<close>

definition requests :: "ord_state \<Rightarrow> symbol \<Rightarrow> id64 list \<Rightarrow> eptr list \<Rightarrow> app \<Rightarrow> bool" where
  "requests k accnt ids exs st \<longleftrightarrow> map (\<lambda>e. e_order_id (a_execs st e)) exs = ids
     \<and> (\<forall>e\<in>set exs. e < a_next_exec st \<and> r_accnt (a_execs st e) = accnt \<and> e_state (a_execs st e) = k)"

lemma requests_stage: "stage st st' \<Longrightarrow> requests k accnt ids exs st \<Longrightarrow> requests k accnt ids exs st'"
  unfolding requests_def stage_def by (metis (no_types, lifting) map_cong order_less_le_trans)

text \<open>What one identifier adds when it is good.\<close>

definition request_added :: "ord_state \<Rightarrow> (int \<Rightarrow> jday) \<Rightarrow> symbol \<Rightarrow> id64 \<Rightarrow> id64 \<Rightarrow> app \<times> response \<Rightarrow> app \<times> response \<Rightarrow> bool" where
  "request_added k local_jd accnt mid oid = (\<lambda>(st, resp) (st', resp').
     stage st st' \<and> app_inv local_jd st' \<and> get_market st' mid \<noteq> None \<and> get_sess st' accnt \<noteq> None
     \<and> (\<exists>e. resp_execs resp' = resp_execs resp @ [e] \<and> requests k accnt [oid] [e] st'))"

lemma request_added:
  assumes inv: "app_inv local_jd st" and m: "get_market st mid = Some m" and s: "get_sess st accnt = Some s"
    and e: "alloc_exec ex (put_market (m\<lparr>m_max_id := m_max_id m + 1\<rparr>) st) = (e, st1)"
    and ex: "r_accnt ex = accnt" "e_order_id ex = oid" "e_state ex = k"
  shows "request_added k local_jd accnt mid oid (st, resp) (st1, resp_insert_exec e (resp_insert_order p resp))"
  using request_exec_ok[OF inv m e] s ex
  by (auto simp: request_added_def requests_def resp_insert_exec_def resp_insert_order_def)

lemma cancel_validate_step:
  assumes inv: "app_inv local_jd st" and "get_market st mid \<noteq> None" and "get_sess st accnt \<noteq> None"
  shows "\<nexists>p. named accnt mid oid st p \<Longrightarrow>
      cancel_validate accnt mid (oid # ids) now (st, resp) = Throw OrderNotFound (st, resp)"
    and "named accnt mid oid st p \<Longrightarrow> \<exists>z. request_added Cancel local_jd accnt mid oid (st, resp) z \<and>
      cancel_validate accnt mid (oid # ids) now (st, resp) = cancel_validate accnt mid ids now z"
proof -
  obtain m s where m: "get_market st mid = Some m" and s: "get_sess st accnt = Some s" using assms(2,3) by auto
  note N = named_sess_order[OF app_inv_parts(2)[OF inv] s, of mid oid]
  show "cancel_validate accnt mid (oid # ids) now (st, resp) = Throw OrderNotFound (st, resp)"
    if "\<nexists>p. named accnt mid oid st p"
  proof -
    have "sess_order (a_orders st) mid oid s = None" using N that by (metis not_None_eq)
    then show ?thesis using m s by simp
  qed
  show "\<exists>z. request_added Cancel local_jd accnt mid oid (st, resp) z \<and>
      cancel_validate accnt mid (oid # ids) now (st, resp) = cancel_validate accnt mid ids now z"
    if p: "named accnt mid oid st p"
  proof -
    let ?ord = "a_orders st p"
    obtain e st1 where e: "alloc_exec (exec_cancel (new_exec ?ord (m_max_id m + 1) now))
        (put_market (m\<lparr>m_max_id := m_max_id m + 1\<rparr>) st) = (e, st1)"
      by fastforce
    have nd: "\<not> order_done ?ord" using live_not_done[OF inv, of p] p by (simp add: named_def)
    have "cancel_validate accnt mid (oid # ids) now (st, resp) =
        cancel_validate accnt mid ids now (st1, resp_insert_exec e (resp_insert_order p resp))"
      using m s iffD2[OF N p] nd e by (simp add: alloc_id_def Let_def)
    moreover have "request_added Cancel local_jd accnt mid oid (st, resp) (st1, resp_insert_exec e (resp_insert_order p resp))"
      by (rule request_added[OF inv m s e]) (use p in \<open>simp_all add: named_def exec_cancel_def new_exec_def make_exec_def\<close>)
    ultimately show ?thesis by blast
  qed
qed

lemma revise_validate_step:
  assumes inv: "app_inv local_jd st" and "get_market st mid \<noteq> None" and "get_sess st accnt \<noteq> None"
  shows "\<nexists>p. named accnt mid oid st p \<Longrightarrow>
      revise_validate accnt mid (oid # ids) lots now (st, resp) = Throw OrderNotFound (st, resp)"
    and "named accnt mid oid st p \<Longrightarrow> invalid_revision lots (a_orders st p) \<Longrightarrow>
      revise_validate accnt mid (oid # ids) lots now (st, resp) = Throw InvalidLots (st, resp)"
    and "named accnt mid oid st p \<Longrightarrow> \<not> invalid_revision lots (a_orders st p) \<Longrightarrow>
      \<exists>z. request_added Revise local_jd accnt mid oid (st, resp) z \<and>
        revise_validate accnt mid (oid # ids) lots now (st, resp) = revise_validate accnt mid ids lots now z"
proof -
  obtain m s where m: "get_market st mid = Some m" and s: "get_sess st accnt = Some s" using assms(2,3) by auto
  note N = named_sess_order[OF app_inv_parts(2)[OF inv] s, of mid oid]
  show "revise_validate accnt mid (oid # ids) lots now (st, resp) = Throw OrderNotFound (st, resp)"
    if "\<nexists>p. named accnt mid oid st p"
  proof -
    have "sess_order (a_orders st) mid oid s = None" using N that by (metis not_None_eq)
    then show ?thesis using m s by simp
  qed
  have nd: "\<not> order_done (a_orders st p)" if "named accnt mid oid st p" for p
    using live_not_done[OF inv, of p] that by (simp add: named_def)
  show "revise_validate accnt mid (oid # ids) lots now (st, resp) = Throw InvalidLots (st, resp)"
    if "named accnt mid oid st p" "invalid_revision lots (a_orders st p)"
    using that iffD2[OF N that(1)] m s nd[OF that(1)] by simp
  show "\<exists>z. request_added Revise local_jd accnt mid oid (st, resp) z \<and>
      revise_validate accnt mid (oid # ids) lots now (st, resp) = revise_validate accnt mid ids lots now z"
    if p: "named accnt mid oid st p" and v: "\<not> invalid_revision lots (a_orders st p)"
  proof -
    let ?ord = "a_orders st p"
    obtain e st1 where e: "alloc_exec (exec_revise lots (new_exec ?ord (m_max_id m + 1) now))
        (put_market (m\<lparr>m_max_id := m_max_id m + 1\<rparr>) st) = (e, st1)"
      by fastforce
    have "revise_validate accnt mid (oid # ids) lots now (st, resp) =
        revise_validate accnt mid ids lots now (st1, resp_insert_exec e (resp_insert_order p resp))"
      using m s iffD2[OF N p] nd[OF p] v e by (simp add: alloc_id_def Let_def)
    moreover have "request_added Revise local_jd accnt mid oid (st, resp) (st1, resp_insert_exec e (resp_insert_order p resp))"
      by (rule request_added[OF inv m s e]) (use p in \<open>simp_all add: named_def exec_revise_def new_exec_def make_exec_def\<close>)
    ultimately show ?thesis by blast
  qed
qed

text \<open>
  Both passes run over the identifiers until one is bad. Here \<open>run\<close> is the pass, \<open>good\<close> says of an
  identifier that it passes and \<open>err\<close> which error it gives otherwise, none of which the allocations
  can change.
\<close>

lemma validate_cases:
  fixes run :: "id64 list \<Rightarrow> app \<times> response \<Rightarrow> unit resp_result"
  assumes nil: "\<And>z. run [] z = Done () z"
    and bad: "\<And>st resp oid ids. app_inv local_jd st \<Longrightarrow> get_market st mid \<noteq> None \<Longrightarrow> get_sess st accnt \<noteq> None \<Longrightarrow>
        \<not> good st oid \<Longrightarrow> run (oid # ids) (st, resp) = Throw (err st oid) (st, resp)"
    and ok: "\<And>st resp oid ids. app_inv local_jd st \<Longrightarrow> get_market st mid \<noteq> None \<Longrightarrow> get_sess st accnt \<noteq> None \<Longrightarrow>
        good st oid \<Longrightarrow> \<exists>z. request_added k local_jd accnt mid oid (st, resp) z \<and> run (oid # ids) (st, resp) = run ids z"
    and frame: "\<And>st st'. stage st st' \<Longrightarrow> good st' = good st \<and> err st' = err st"
    and inv: "app_inv local_jd st" "get_market st mid \<noteq> None" "get_sess st accnt \<noteq> None"
  shows "case find (\<lambda>oid. \<not> good st oid) ids of
      Some oid \<Rightarrow> \<exists>st' resp'. run ids (st, resp) = Throw (err st oid) (st', resp') \<and> stage st st' \<and> app_inv local_jd st'
    | None \<Rightarrow> \<exists>st' resp' exs. run ids (st, resp) = Done () (st', resp') \<and> stage st st' \<and> app_inv local_jd st'
        \<and> resp_execs resp' = resp_execs resp @ exs \<and> requests k accnt ids exs st'"
  using inv
proof (induction ids arbitrary: st resp)
  case Nil
  then show ?case using nil by (auto simp: requests_def intro: stage_refl)
next
  case (Cons oid ids)
  show ?case
  proof (cases "good st oid")
    case False
    then show ?thesis using bad[OF Cons.prems False, of ids resp] Cons.prems by (auto intro: stage_refl)
  next
    case True
    then obtain z where z: "request_added k local_jd accnt mid oid (st, resp) z" "run (oid # ids) (st, resp) = run ids z"
      using ok[OF Cons.prems True] by blast
    obtain st1 resp1 e where r: "z = (st1, resp1)" "stage st st1" "app_inv local_jd st1" "get_market st1 mid \<noteq> None"
        "get_sess st1 accnt \<noteq> None" "resp_execs resp1 = resp_execs resp @ [e]" "requests k accnt [oid] [e] st1"
      using z(1) by (cases z) (auto simp: request_added_def)
    note IH = Cons.IH[OF r(3-5), of resp1, unfolded conjunct1[OF frame[OF r(2)]] conjunct2[OF frame[OF r(2)]]]
    show ?thesis
    proof (cases "find (\<lambda>oid. \<not> good st oid) ids")
      case (Some oid')
      then show ?thesis using IH True z(2) r(1,2) by (auto intro: stage_trans)
    next
      case None
      then obtain st' resp' exs where q: "run ids (st1, resp1) = Done () (st', resp')" "stage st1 st'" "app_inv local_jd st'"
          "resp_execs resp' = resp_execs resp1 @ exs" "requests k accnt ids exs st'"
        using IH by auto
      have "requests k accnt (oid # ids) (e # exs) st'"
        using requests_stage[OF q(2) r(7)] q(5) by (simp add: requests_def)
      moreover have "stage st st'" using r(2) q(2) by (rule stage_trans)
      moreover have "resp_execs resp' = resp_execs resp @ e # exs" using q(4) r(6) by simp
      ultimately show ?thesis using None True z(2) r(1) q(1,3) by auto
    qed
  qed
qed

section \<open>The second pass\<close>

text \<open>The orders that a list of identifiers names, and the effect of a pass over them.\<close>

definition named_in :: "symbol \<Rightarrow> id64 \<Rightarrow> id64 list \<Rightarrow> app \<Rightarrow> optr \<Rightarrow> bool" where
  "named_in accnt mid ids st p \<longleftrightarrow> (\<exists>oid\<in>set ids. named accnt mid oid st p)"

definition pass_done ::
    "symbol \<Rightarrow> id64 \<Rightarrow> id64 list \<Rightarrow> (order \<Rightarrow> order) \<Rightarrow> (order \<Rightarrow> bool) \<Rightarrow> app \<Rightarrow> app \<Rightarrow> bool" where
  "pass_done accnt mid ids f gone st st' \<longleftrightarrow>
     (\<forall>x. a_orders st' x = (if named_in accnt mid ids st x then f (a_orders st x) else a_orders st x))
     \<and> (\<forall>x. live st' x \<longleftrightarrow> live st x \<and> \<not> (named_in accnt mid ids st x \<and> gone (a_orders st x)))
     \<and> a_mq st' = a_mq st \<and> (\<forall>k. k \<noteq> mid \<longrightarrow> get_market st' k = get_market st k)"

lemma named_market: "app_inv local_jd st \<Longrightarrow> named accnt mid oid st p \<Longrightarrow> get_market st mid = Some m \<Longrightarrow> p \<in> listed m"
  using live_in_market[OF app_inv_parts(1), of local_jd st mid m p] by (simp add: named_def)

text \<open>One commit of a pass, where \<open>f\<close> keeps the identity of the order.\<close>

lemma named_other:
  assumes p: "named accnt mid oid st p" and ne: "oid' \<noteq> oid"
    and heap: "a_orders st1 = (a_orders st)(p := ord)"
    and live: "\<And>x. live st1 x \<longleftrightarrow> live st x \<and> (x = p \<longrightarrow> \<not> gone)"
    and key: "request_key ord = request_key (a_orders st p)" "r_accnt ord = r_accnt (a_orders st p)"
  shows "named accnt mid oid' st1 x \<longleftrightarrow> named accnt mid oid' st x"
proof (cases "x = p")
  case True
  have "r_id ord = oid" "r_id (a_orders st p) = oid" using key(1) p by (simp_all add: request_key_def named_def)
  with True ne show ?thesis by (simp add: named_def heap)
qed (simp add: named_def heap live)

lemma pass_step:
  assumes inv: "app_inv local_jd st" and p: "named accnt mid oid st p"
    and heap: "a_orders st1 = (a_orders st)(p := f (a_orders st p))"
    and live: "\<And>x. live st1 x \<longleftrightarrow> live st x \<and> (x = p \<longrightarrow> \<not> gone (a_orders st p))"
    and key: "request_key (f (a_orders st p)) = request_key (a_orders st p)" "r_accnt (f (a_orders st p)) = r_accnt (a_orders st p)"
    and mq: "a_mq st1 = a_mq st" and mk: "\<forall>k. k \<noteq> mid \<longrightarrow> get_market st1 k = get_market st k"
    and rest: "pass_done accnt mid ids f gone st1 st'" and new: "oid \<notin> set ids"
  shows "pass_done accnt mid (oid # ids) f gone st st'"
proof -
  note other = named_other[OF p _ heap live key]
  have ids: "named_in accnt mid ids st1 x \<longleftrightarrow> named_in accnt mid ids st x" for x
    using other new unfolding named_in_def by metis
  have np: "\<not> named_in accnt mid ids st p" using p new by (auto simp: named_in_def named_def)
  have all: "named_in accnt mid (oid # ids) st x \<longleftrightarrow> x = p \<or> named_in accnt mid ids st x" for x
    using p named_unique[OF app_inv_parts(2)[OF inv] p, of x] by (auto simp: named_in_def)
  show ?thesis
    using rest live mq mk unfolding pass_done_def ids all heap using np by (auto split: if_splits)
qed

lemma cancel_commit_ok:
  assumes "app_inv local_jd st" and "get_market st mid \<noteq> None" and "get_sess st accnt \<noteq> None"
    and "requests k accnt ids exs st" and "\<And>oid. oid \<in> set ids \<Longrightarrow> \<exists>p. named accnt mid oid st p" and "distinct ids"
  shows "\<exists>st'. cancel_commit accnt mid now exs st = Some st' \<and> app_inv local_jd st'
    \<and> pass_done accnt mid ids (cancelled_order now) (\<lambda>_. True) st st'"
  using assms
proof (induction exs arbitrary: ids st)
  case Nil
  then show ?case by (simp add: requests_def pass_done_def named_in_def)
next
  case (Cons e exs)
  note inv = Cons.prems(1)
  obtain oid ids' where ids: "ids = oid # ids'" and oid: "e_order_id (a_execs st e) = oid"
    using Cons.prems(4) by (auto simp: requests_def)
  obtain m s where m: "get_market st mid = Some m" and s: "get_sess st accnt = Some s" using Cons.prems(2,3) by auto
  obtain p where p: "named accnt mid oid st p" using Cons.prems(5) ids by auto
  have ex: "e < a_next_exec st" "r_accnt (a_execs st e) = accnt" using Cons.prems(4) by (auto simp: requests_def)
  have acc: "r_accnt (a_orders st p) = accnt" using p by (simp add: named_def)
  obtain st1 where st1: "commit_cancel accnt mid p now e st = Some st1" "app_inv local_jd st1"
      "a_orders st1 = (a_orders st)(p := cancelled_order now (a_orders st p))" "\<And>x. live st1 x \<longleftrightarrow> live st x \<and> x \<noteq> p"
      "a_mq st1 = a_mq st" "a_execs st1 = a_execs st" "a_next_exec st1 = a_next_exec st"
      "\<And>k. get_market st1 k = (if k = mid then Some (market_cancelled p (a_orders st) m) else get_market st k)"
      "get_sess st1 accnt \<noteq> None"
    using commit_cancel_ok[OF inv m s named_market[OF inv p m] acc ex, of now] by blast
  have run: "cancel_commit accnt mid now (e # exs) st = cancel_commit accnt mid now exs st1"
    using s oid iffD2[OF named_sess_order[OF app_inv_parts(2)[OF inv] s] p] st1(1) by simp
  have l: "live st1 x \<longleftrightarrow> live st x \<and> (x = p \<longrightarrow> \<not> True)" for x using st1(4) by simp
  have key: "request_key (cancelled_order now (a_orders st p)) = request_key (a_orders st p)"
    "r_accnt (cancelled_order now (a_orders st p)) = r_accnt (a_orders st p)"
    by (simp_all add: cancelled_order_def order_defs request_key_def)
  have mk: "\<forall>k. k \<noteq> mid \<longrightarrow> get_market st1 k = get_market st k" using st1(8) by simp
  note step = pass_step[where f = "cancelled_order now" and gone = "\<lambda>_. True", OF inv p st1(3) l key st1(5) mk]
  note other = named_other[OF p _ st1(3) l key]
  have new: "oid \<notin> set ids'" and dist: "distinct ids'" using Cons.prems(6) ids by auto
  have "\<exists>p. named accnt mid oid' st1 p" if "oid' \<in> set ids'" for oid'
    using other[of oid'] that new Cons.prems(5)[of oid'] ids by auto
  moreover have "requests k accnt ids' exs st1" using Cons.prems(4) ids st1(6,7) by (simp add: requests_def)
  ultimately obtain st' where st': "cancel_commit accnt mid now exs st1 = Some st'" "app_inv local_jd st'"
      "pass_done accnt mid ids' (cancelled_order now) (\<lambda>_. True) st1 st'"
    using Cons.IH[OF st1(2) _ st1(9), of ids'] st1(8)[of mid] dist by auto
  then show ?case using run step[OF st'(3) new] ids by auto
qed

lemma revise_commit_ok:
  assumes "app_inv local_jd st" and "get_market st mid \<noteq> None" and "get_sess st accnt \<noteq> None"
    and "requests k accnt ids exs st"
    and "\<And>oid. oid \<in> set ids \<Longrightarrow> \<exists>p. named accnt mid oid st p \<and> \<not> invalid_revision lots (a_orders st p)" and "distinct ids"
  shows "\<exists>st'. revise_commit accnt mid lots now exs st = Some st' \<and> app_inv local_jd st'
    \<and> pass_done accnt mid ids (revised_order lots now) (\<lambda>ord. o_exec_lots ord = lots) st st'"
  using assms
proof (induction exs arbitrary: ids st)
  case Nil
  then show ?case by (simp add: requests_def pass_done_def named_in_def)
next
  case (Cons e exs)
  note inv = Cons.prems(1)
  obtain oid ids' where ids: "ids = oid # ids'" and oid: "e_order_id (a_execs st e) = oid"
    using Cons.prems(4) by (auto simp: requests_def)
  obtain m s where m: "get_market st mid = Some m" and s: "get_sess st accnt = Some s" using Cons.prems(2,3) by auto
  obtain p where p: "named accnt mid oid st p" and v: "\<not> invalid_revision lots (a_orders st p)"
    using Cons.prems(5) ids by auto
  have ex: "e < a_next_exec st" "r_accnt (a_execs st e) = accnt" using Cons.prems(4) by (auto simp: requests_def)
  have acc: "r_accnt (a_orders st p) = accnt" using p by (simp add: named_def)
  have lots: "o_min_lots (a_orders st p) \<le> lots" "o_exec_lots (a_orders st p) \<le> lots"
    using v by (auto simp: invalid_revision_def)
  obtain st1 where st1: "commit_revise accnt mid p lots now e st = Some st1" "app_inv local_jd st1"
      "a_orders st1 = (a_orders st)(p := revised_order lots now (a_orders st p))"
      "\<And>x. live st1 x \<longleftrightarrow> live st x \<and> (x = p \<longrightarrow> o_exec_lots (a_orders st p) \<noteq> lots)"
      "a_mq st1 = a_mq st" "a_execs st1 = a_execs st" "a_next_exec st1 = a_next_exec st"
      "\<And>k. get_market st1 k = (if k = mid then Some (market_revised p lots (a_orders st) m) else get_market st k)"
      "get_sess st1 accnt \<noteq> None"
    using commit_revise_ok[OF inv m s named_market[OF inv p m] acc lots ex, of now] by blast
  have run: "revise_commit accnt mid lots now (e # exs) st = revise_commit accnt mid lots now exs st1"
    using s oid iffD2[OF named_sess_order[OF app_inv_parts(2)[OF inv] s] p] st1(1) by simp
  have key: "request_key (revised_order lots now (a_orders st p)) = request_key (a_orders st p)"
    "r_accnt (revised_order lots now (a_orders st p)) = r_accnt (a_orders st p)"
    by (simp_all add: revised_order_def order_defs request_key_def)
  have mk: "\<forall>k. k \<noteq> mid \<longrightarrow> get_market st1 k = get_market st k" using st1(8) by simp
  note step = pass_step[where f = "revised_order lots now" and gone = "\<lambda>ord. o_exec_lots ord = lots",
      OF inv p st1(3,4) key st1(5) mk]
  note other = named_other[OF p _ st1(3,4) key]
  have new: "oid \<notin> set ids'" and dist: "distinct ids'" using Cons.prems(6) ids by auto
  have "\<exists>p. named accnt mid oid' st1 p \<and> \<not> invalid_revision lots (a_orders st1 p)" if o': "oid' \<in> set ids'" for oid'
  proof -
    obtain p' where p': "named accnt mid oid' st p'" "\<not> invalid_revision lots (a_orders st p')"
      using Cons.prems(5)[of oid'] o' ids by auto
    have "p' \<noteq> p" using p p'(1) o' new by (auto simp: named_def)
    then show ?thesis using p' other[of oid' p'] o' new st1(3) by auto
  qed
  moreover have "requests k accnt ids' exs st1" using Cons.prems(4) ids st1(6,7) by (simp add: requests_def)
  ultimately obtain st' where st': "revise_commit accnt mid lots now exs st1 = Some st'" "app_inv local_jd st'"
      "pass_done accnt mid ids' (revised_order lots now) (\<lambda>ord. o_exec_lots ord = lots) st1 st'"
    using Cons.IH[OF st1(2) _ st1(9), of ids'] st1(8)[of mid] dist by auto
  then show ?case using run step[OF st'(3) new] ids by auto
qed

section \<open>The operations\<close>

text \<open>
  The whole operation in its three outcomes. \<open>good\<close> and \<open>err\<close> are those of the first pass; the second
  pass is any \<open>commit\<close> that succeeds on the executions of the first.
\<close>

definition batch_done ::
    "ord_state \<Rightarrow> symbol \<Rightarrow> id64 \<Rightarrow> id64 list \<Rightarrow> (order \<Rightarrow> order) \<Rightarrow> (order \<Rightarrow> bool) \<Rightarrow> app \<Rightarrow> app \<Rightarrow> bool" where
  "batch_done k accnt mid ids f gone st st' \<longleftrightarrow>
     (\<forall>x. a_orders st' x = (if named_in accnt mid ids st x then f (a_orders st x) else a_orders st x))
     \<and> (\<forall>x. live st' x \<longleftrightarrow> live st x \<and> \<not> (named_in accnt mid ids st x \<and> gone (a_orders st x)))
     \<and> (\<exists>es. ring_contents (a_mq st') = ring_contents (a_mq st) @ map exec_msg es
          \<and> map e_order_id es = ids \<and> (\<forall>e\<in>set es. r_accnt e = accnt \<and> e_state e = k))
     \<and> (\<forall>j. j \<noteq> mid \<longrightarrow> rel_option same_book (get_market st j) (get_market st' j))"

lemma batch_known:
  assumes "stage st st1" and "get_market st mid \<noteq> None" and "get_sess st accnt \<noteq> None"
  shows "get_market st1 mid \<noteq> None" and "get_sess st1 accnt \<noteq> None"
  using market_relE[OF stage_facts(4)[OF assms(1)], of mid] sess_relE[OF stage_facts(5)[OF assms(1)], of accnt] assms(2,3)
  by auto

lemma batch_run:
  assumes run: "validate (st, resp_set_market mid resp) = Done () (st1, resp1)"
    and st1: "stage st st1" "app_inv local_jd st1" "requests k accnt ids (resp_execs resp1) st1"
    and commit: "\<forall>q. ring_ok q \<longrightarrow> (\<exists>st'. commit (resp_execs resp1) (st1\<lparr>a_mq := q\<rparr>) = Some st' \<and> app_inv local_jd st'
        \<and> pass_done accnt mid ids f gone (st1\<lparr>a_mq := q\<rparr>) st')"
    and op: "op = obind (validate (st, resp_set_market mid resp)) (\<lambda>_ (st, resp).
       case on_mq (mq_create_execs (map (a_execs st) (resp_execs resp))) st of
         Undef \<Rightarrow> Undef
       | Throw e st \<Rightarrow> Throw e (st, resp)
       | Done _ st \<Rightarrow> (case commit (resp_execs resp) st of Some st \<Rightarrow> Done () (st, resp) | None \<Rightarrow> Undef))"
  shows "ring_reserve (a_mq st) < length ids \<Longrightarrow>
      \<exists>st' resp'. op = Throw QueueFull (st', resp') \<and> stage st st' \<and> app_inv local_jd st'"
    and "length ids \<le> ring_reserve (a_mq st) \<Longrightarrow>
      \<exists>st' resp'. op = Done () (st', resp') \<and> app_inv local_jd st' \<and> batch_done k accnt mid ids f gone st st'"
proof -
  let ?es = "map (a_execs st1) (resp_execs resp1)"
  have len: "length (resp_execs resp1) = length ids" using st1(3) unfolding requests_def by (metis length_map)
  note F = stage_facts[OF st1(1)]
  show "\<exists>st' resp'. op = Throw QueueFull (st', resp') \<and> stage st st' \<and> app_inv local_jd st'"
    if "ring_reserve (a_mq st) < length ids"
  proof -
    have "mq_create_execs ?es (a_mq st1) = Throw QueueFull (a_mq st1)"
      by (rule mq_create_execs_full) (use that len F in simp)
    then show ?thesis using st1 by (simp add: op run on_mq_def)
  qed
  show "\<exists>st' resp'. op = Done () (st', resp') \<and> app_inv local_jd st' \<and> batch_done k accnt mid ids f gone st st'"
    if room: "length ids \<le> ring_reserve (a_mq st)"
  proof -
    obtain q where q: "mq_create_execs ?es (a_mq st1) = Done () q" "ring_ok q"
        "ring_contents q = ring_contents (a_mq st1) @ map exec_msg ?es"
      using mq_create_execs_ok[OF app_inv_parts(5)[OF st1(2)], of ?es] room len F by auto
    obtain st' where st': "commit (resp_execs resp1) (st1\<lparr>a_mq := q\<rparr>) = Some st'" "app_inv local_jd st'"
        "pass_done accnt mid ids f gone (st1\<lparr>a_mq := q\<rparr>) st'"
      using commit q(2) by blast
    have nm: "named_in accnt mid ids (st1\<lparr>a_mq := q\<rparr>) x = named_in accnt mid ids st x" for x
      unfolding named_in_def named_def using F live_cong[of "st1\<lparr>a_mq := q\<rparr>" st1] by simp
    have lv: "live (st1\<lparr>a_mq := q\<rparr>) x = live st x" for x using F live_cong[of "st1\<lparr>a_mq := q\<rparr>" st1 x] by simp
    note P = st'(3)[unfolded pass_done_def nm lv]
    have "rel_option same_book (get_market st j) (get_market st' j)" if "j \<noteq> mid" for j
      using P that market_rel_option[of st st1 j] st1(1) by (simp add: stage_def)
    moreover have "map e_order_id ?es = ids" "\<forall>e\<in>set ?es. r_accnt e = accnt \<and> e_state e = k"
      using st1(3) by (auto simp: requests_def o_def)
    moreover have "ring_contents (a_mq st') = ring_contents (a_mq st) @ map exec_msg ?es" using P q(3) F by simp
    ultimately have "batch_done k accnt mid ids f gone st st'"
      unfolding batch_done_def using P F by (intro conjI exI[of _ ?es]) simp_all
    then show ?thesis using st'(1,2) q(1) by (simp add: op run on_mq_def)
  qed
qed

text \<open>The first pass of a cancellation: it stops at the first identifier that names no order.\<close>

lemma cancel_validated:
  assumes inv: "app_inv local_jd st" and m: "get_market st mid \<noteq> None" and s: "get_sess st accnt \<noteq> None"
  shows "case find (\<lambda>oid. \<not> (\<exists>p. named accnt mid oid st p)) ids of
      Some oid \<Rightarrow> \<exists>st' resp'. cancel_validate accnt mid ids now (st, resp_set_market mid resp) = Throw OrderNotFound (st', resp') \<and> stage st st' \<and> app_inv local_jd st'
    | None \<Rightarrow> \<exists>st' resp' exs. cancel_validate accnt mid ids now (st, resp_set_market mid resp) = Done () (st', resp') \<and> stage st st' \<and> app_inv local_jd st'
        \<and> resp_execs resp' = resp_execs (resp_set_market mid resp) @ exs \<and> requests Cancel accnt ids exs st'"
proof -
  let ?good = "\<lambda>st oid. \<exists>p. named accnt mid oid st p" and ?run = "\<lambda>ids z. cancel_validate accnt mid ids now z"
  have frame: "stage st st' \<Longrightarrow> ?good st' = ?good st \<and> (\<lambda>_ :: id64. OrderNotFound) = (\<lambda>_. OrderNotFound)" for st st'
    by (simp add: stage_named)
  show ?thesis
  proof (rule validate_cases[where run = ?run and good = ?good and err = "\<lambda>_ _. OrderNotFound" and k = Cancel])
    show "?run [] z = Done () z" for z by (cases z) simp
    show "\<exists>z. request_added Cancel local_jd accnt mid oid (st, resp) z \<and> ?run (oid # ids) (st, resp) = ?run ids z"
      if "app_inv local_jd st" "get_market st mid \<noteq> None" "get_sess st accnt \<noteq> None" "?good st oid" for st resp oid ids
      using that(4) cancel_validate_step(2)[OF that(1-3)] by blast
  qed (rule cancel_validate_step(1) frame inv m s | assumption)+
qed

lemma cancel_order_ids_cases:
  assumes inv: "app_inv local_jd st" and m: "get_market st mid \<noteq> None" and s: "get_sess st accnt \<noteq> None"
    and resp: "resp_execs resp = []" and dist: "distinct ids"
  shows "\<exists>oid\<in>set ids. \<nexists>p. named accnt mid oid st p \<Longrightarrow>
      \<exists>st' resp'. cancel_order_ids accnt mid ids now (st, resp) = Throw OrderNotFound (st', resp')
        \<and> stage st st' \<and> app_inv local_jd st'"
    and "\<forall>oid\<in>set ids. \<exists>p. named accnt mid oid st p \<Longrightarrow> ring_reserve (a_mq st) < length ids \<Longrightarrow>
      \<exists>st' resp'. cancel_order_ids accnt mid ids now (st, resp) = Throw QueueFull (st', resp')
        \<and> stage st st' \<and> app_inv local_jd st'"
    and "\<forall>oid\<in>set ids. \<exists>p. named accnt mid oid st p \<Longrightarrow> length ids \<le> ring_reserve (a_mq st) \<Longrightarrow>
      \<exists>st' resp'. cancel_order_ids accnt mid ids now (st, resp) = Done () (st', resp') \<and> app_inv local_jd st'
        \<and> batch_done Cancel accnt mid ids (cancelled_order now) (\<lambda>_. True) st st'"
proof -
  let ?good = "\<lambda>st oid. \<exists>p. named accnt mid oid st p" and ?run = "\<lambda>ids z. cancel_validate accnt mid ids now z"
  note V = cancel_validated[OF inv m s, of ids now resp]
  show "\<exists>st' resp'. cancel_order_ids accnt mid ids now (st, resp) = Throw OrderNotFound (st', resp')
      \<and> stage st st' \<and> app_inv local_jd st'" if "\<exists>oid\<in>set ids. \<nexists>p. named accnt mid oid st p"
  proof -
    have "find (\<lambda>oid. \<not> ?good st oid) ids \<noteq> None" using that by (auto simp: find_None_iff)
    then show ?thesis using V by (auto simp: cancel_order_ids_def)
  qed
  assume all: "\<forall>oid\<in>set ids. \<exists>p. named accnt mid oid st p"
  then have "find (\<lambda>oid. \<not> ?good st oid) ids = None" by (auto simp: find_None_iff)
  then obtain st1 resp1 where r: "cancel_validate accnt mid ids now (st, resp_set_market mid resp) = Done () (st1, resp1)"
      "stage st st1" "app_inv local_jd st1" "requests Cancel accnt ids (resp_execs resp1) st1"
    using V resp by (auto simp: resp_set_market_def)
  have commit: "\<exists>st'. cancel_commit accnt mid now (resp_execs resp1) (st1\<lparr>a_mq := q\<rparr>) = Some st' \<and> app_inv local_jd st'
      \<and> pass_done accnt mid ids (cancelled_order now) (\<lambda>_. True) (st1\<lparr>a_mq := q\<rparr>) st'" if "ring_ok q" for q
  proof (rule cancel_commit_ok)
    note I = app_inv_mq[OF r(3) that]
    show "app_inv local_jd (st1\<lparr>a_mq := q\<rparr>)" by (rule I(1))
    show "get_market (st1\<lparr>a_mq := q\<rparr>) mid \<noteq> None" "get_sess (st1\<lparr>a_mq := q\<rparr>) accnt \<noteq> None"
      using batch_known[OF r(2) m s] by simp_all
    show "requests Cancel accnt ids (resp_execs resp1) (st1\<lparr>a_mq := q\<rparr>)" using r(4) by (simp add: requests_def)
    show "\<exists>p. named accnt mid oid (st1\<lparr>a_mq := q\<rparr>) p" if "oid \<in> set ids" for oid
      using all that I(2) stage_facts[OF r(2)] by (simp add: named_def)
  qed (rule dist)
  note R = batch_run[where validate = "?run ids" and commit = "cancel_commit accnt mid now" and resp = resp, OF r allI[OF impI[OF commit]]]
  show "\<exists>st' resp'. cancel_order_ids accnt mid ids now (st, resp) = Throw QueueFull (st', resp')
      \<and> stage st st' \<and> app_inv local_jd st'" if "ring_reserve (a_mq st) < length ids"
    by (rule R(1)[OF _ _ that]) (simp_all add: cancel_order_ids_def)
  show "\<exists>st' resp'. cancel_order_ids accnt mid ids now (st, resp) = Done () (st', resp') \<and> app_inv local_jd st'
      \<and> batch_done Cancel accnt mid ids (cancelled_order now) (\<lambda>_. True) st st'" if "length ids \<le> ring_reserve (a_mq st)"
    by (rule R(2)[OF _ _ that]) (simp_all add: cancel_order_ids_def)
qed

text \<open>A revision also looks at the lots.\<close>

definition revisable :: "lots \<Rightarrow> symbol \<Rightarrow> id64 \<Rightarrow> app \<Rightarrow> id64 \<Rightarrow> bool" where
  "revisable lots accnt mid st oid \<longleftrightarrow> (\<exists>p. named accnt mid oid st p \<and> \<not> invalid_revision lots (a_orders st p))"

definition revise_error :: "symbol \<Rightarrow> id64 \<Rightarrow> app \<Rightarrow> id64 \<Rightarrow> err" where
  "revise_error accnt mid st oid = (if \<exists>p. named accnt mid oid st p then InvalidLots else OrderNotFound)"

lemma revisable_frame:
  "stage st st' \<Longrightarrow> revisable lots accnt mid st' = revisable lots accnt mid st \<and> revise_error accnt mid st' = revise_error accnt mid st"
  by (intro conjI ext) (simp_all add: revisable_def revise_error_def stage_named stage_facts)

lemma revise_validate_bad:
  assumes "app_inv local_jd st" and "get_market st mid \<noteq> None" and "get_sess st accnt \<noteq> None" and "\<not> revisable lots accnt mid st oid"
  shows "revise_validate accnt mid (oid # ids) lots now (st, resp) = Throw (revise_error accnt mid st oid) (st, resp)"
proof (cases "\<exists>p. named accnt mid oid st p")
  case True
  then obtain p where "named accnt mid oid st p" "invalid_revision lots (a_orders st p)" using assms(4) by (auto simp: revisable_def)
  then show ?thesis using True revise_validate_step(2)[OF assms(1-3)] by (simp add: revise_error_def)
next
  case False
  then show ?thesis using revise_validate_step(1)[OF assms(1-3) False] by (simp add: revise_error_def)
qed

lemma revise_order_ids_cases:
  assumes inv: "app_inv local_jd st" and m: "get_market st mid \<noteq> None" and s: "get_sess st accnt \<noteq> None"
    and resp: "resp_execs resp = []" and dist: "distinct ids"
  shows "find (\<lambda>oid. \<not> revisable lots accnt mid st oid) ids = Some oid \<Longrightarrow>
      \<exists>st' resp'. revise_order_ids accnt mid ids lots now (st, resp) = Throw (revise_error accnt mid st oid) (st', resp')
        \<and> stage st st' \<and> app_inv local_jd st'"
    and "\<forall>oid\<in>set ids. revisable lots accnt mid st oid \<Longrightarrow> ring_reserve (a_mq st) < length ids \<Longrightarrow>
      \<exists>st' resp'. revise_order_ids accnt mid ids lots now (st, resp) = Throw QueueFull (st', resp')
        \<and> stage st st' \<and> app_inv local_jd st'"
    and "\<forall>oid\<in>set ids. revisable lots accnt mid st oid \<Longrightarrow> length ids \<le> ring_reserve (a_mq st) \<Longrightarrow>
      \<exists>st' resp'. revise_order_ids accnt mid ids lots now (st, resp) = Done () (st', resp') \<and> app_inv local_jd st'
        \<and> batch_done Revise accnt mid ids (revised_order lots now) (\<lambda>ord. o_exec_lots ord = lots) st st'"
proof -
  let ?good = "\<lambda>st oid. revisable lots accnt mid st oid" and ?run = "\<lambda>ids z. revise_validate accnt mid ids lots now z"
  have V: "case find (\<lambda>oid. \<not> ?good st oid) ids of
      Some oid \<Rightarrow> \<exists>st' resp'. ?run ids (st, resp_set_market mid resp) = Throw (revise_error accnt mid st oid) (st', resp')
        \<and> stage st st' \<and> app_inv local_jd st'
    | None \<Rightarrow> \<exists>st' resp' exs. ?run ids (st, resp_set_market mid resp) = Done () (st', resp') \<and> stage st st' \<and> app_inv local_jd st'
        \<and> resp_execs resp' = resp_execs (resp_set_market mid resp) @ exs \<and> requests Revise accnt ids exs st'"
  proof (rule validate_cases[where run = ?run and good = ?good and err = "revise_error accnt mid" and k = Revise])
    show "?run [] z = Done () z" for z by (cases z) simp
    show "\<exists>z. request_added Revise local_jd accnt mid oid (st, resp) z \<and> ?run (oid # ids) (st, resp) = ?run ids z"
      if "app_inv local_jd st" "get_market st mid \<noteq> None" "get_sess st accnt \<noteq> None" "?good st oid" for st resp oid ids
      using that(4) revise_validate_step(3)[OF that(1-3)] unfolding revisable_def by blast
  qed (rule revise_validate_bad revisable_frame inv m s | assumption)+
  show "\<exists>st' resp'. revise_order_ids accnt mid ids lots now (st, resp) = Throw (revise_error accnt mid st oid) (st', resp')
      \<and> stage st st' \<and> app_inv local_jd st'" if "find (\<lambda>oid. \<not> ?good st oid) ids = Some oid"
    using V that by (auto simp: revise_order_ids_def)
  assume all: "\<forall>oid\<in>set ids. ?good st oid"
  then have "find (\<lambda>oid. \<not> ?good st oid) ids = None" by (auto simp: find_None_iff)
  then obtain st1 resp1 where r: "revise_validate accnt mid ids lots now (st, resp_set_market mid resp) = Done () (st1, resp1)"
      "stage st st1" "app_inv local_jd st1" "requests Revise accnt ids (resp_execs resp1) st1"
    using V resp by (auto simp: resp_set_market_def)
  let ?f = "revised_order lots now" and ?gone = "\<lambda>ord. o_exec_lots ord = lots"
  have commit: "\<exists>st'. revise_commit accnt mid lots now (resp_execs resp1) (st1\<lparr>a_mq := q\<rparr>) = Some st' \<and> app_inv local_jd st'
      \<and> pass_done accnt mid ids ?f ?gone (st1\<lparr>a_mq := q\<rparr>) st'" if "ring_ok q" for q
  proof (rule revise_commit_ok)
    note I = app_inv_mq[OF r(3) that]
    show "app_inv local_jd (st1\<lparr>a_mq := q\<rparr>)" by (rule I(1))
    show "get_market (st1\<lparr>a_mq := q\<rparr>) mid \<noteq> None" "get_sess (st1\<lparr>a_mq := q\<rparr>) accnt \<noteq> None"
      using batch_known[OF r(2) m s] by simp_all
    show "requests Revise accnt ids (resp_execs resp1) (st1\<lparr>a_mq := q\<rparr>)" using r(4) by (simp add: requests_def)
    show "\<exists>p. named accnt mid oid (st1\<lparr>a_mq := q\<rparr>) p \<and> \<not> invalid_revision lots (a_orders (st1\<lparr>a_mq := q\<rparr>) p)"
      if "oid \<in> set ids" for oid
      using all that I(2) stage_facts[OF r(2)] by (simp add: named_def revisable_def)
  qed (rule dist)
  note R = batch_run[where validate = "?run ids" and commit = "revise_commit accnt mid lots now" and resp = resp, OF r allI[OF impI[OF commit]]]
  show "\<exists>st' resp'. revise_order_ids accnt mid ids lots now (st, resp) = Throw QueueFull (st', resp')
      \<and> stage st st' \<and> app_inv local_jd st'" if "ring_reserve (a_mq st) < length ids"
    by (rule R(1)[OF _ _ that]) (simp_all add: revise_order_ids_def)
  show "\<exists>st' resp'. revise_order_ids accnt mid ids lots now (st, resp) = Done () (st', resp') \<and> app_inv local_jd st'
      \<and> batch_done Revise accnt mid ids ?f ?gone st st'" if "length ids \<le> ring_reserve (a_mq st)"
    by (rule R(2)[OF _ _ that]) (simp_all add: revise_order_ids_def)
qed

section \<open>An identifier that is named twice\<close>

text \<open>
  The commit of a cancellation looks each identifier up again, and does not find the order that an
  earlier turn of the loop has cancelled.
\<close>

lemma cancel_commit_step:
  assumes inv: "app_inv local_jd st" and m: "get_market st mid \<noteq> None" and s: "get_sess st accnt \<noteq> None"
    and req: "requests k accnt (oid # ids) (e # exs) st" and p: "named accnt mid oid st p"
  shows "\<exists>st1. cancel_commit accnt mid now (e # exs) st = cancel_commit accnt mid now exs st1 \<and> app_inv local_jd st1
    \<and> get_market st1 mid \<noteq> None \<and> get_sess st1 accnt \<noteq> None \<and> requests k accnt ids exs st1
    \<and> (\<forall>x. \<not> named accnt mid oid st1 x) \<and> (\<forall>oid' x. oid' \<noteq> oid \<longrightarrow> named accnt mid oid' st1 x = named accnt mid oid' st x)"
proof -
  obtain mk sx where mk: "get_market st mid = Some mk" and sx: "get_sess st accnt = Some sx" using m s by auto
  have ex: "e < a_next_exec st" "r_accnt (a_execs st e) = accnt" and oid: "e_order_id (a_execs st e) = oid"
    using req by (auto simp: requests_def)
  have acc: "r_accnt (a_orders st p) = accnt" using p by (simp add: named_def)
  obtain st1 where st1: "commit_cancel accnt mid p now e st = Some st1" "app_inv local_jd st1"
      "a_orders st1 = (a_orders st)(p := cancelled_order now (a_orders st p))" "\<And>x. live st1 x \<longleftrightarrow> live st x \<and> x \<noteq> p"
      "a_execs st1 = a_execs st" "a_next_exec st1 = a_next_exec st"
      "get_market st1 mid = Some (market_cancelled p (a_orders st) mk)" "get_sess st1 accnt \<noteq> None"
    using commit_cancel_ok[OF inv mk sx named_market[OF inv p mk] acc ex, of now] by auto
  have run: "cancel_commit accnt mid now (e # exs) st = cancel_commit accnt mid now exs st1"
    using sx oid iffD2[OF named_sess_order[OF app_inv_parts(2)[OF inv] sx] p] st1(1) by simp
  have l: "live st1 x \<longleftrightarrow> live st x \<and> (x = p \<longrightarrow> \<not> True)" for x using st1(4) by simp
  have key: "request_key (cancelled_order now (a_orders st p)) = request_key (a_orders st p)"
    "r_accnt (cancelled_order now (a_orders st p)) = r_accnt (a_orders st p)"
    by (simp_all add: cancelled_order_def order_defs request_key_def)
  note other = named_other[OF p _ st1(3) l key]
  have "\<not> named accnt mid oid st1 x" for x
  proof
    assume n: "named accnt mid oid st1 x"
    then have ne: "x \<noteq> p" using st1(4) by (simp add: named_def)
    then have "named accnt mid oid st x" using n ne unfolding named_def st1(3,4) by (simp only: fun_upd_other)
    with ne named_unique[OF app_inv_parts(2)[OF inv] p] show False by blast
  qed
  moreover have "requests k accnt ids exs st1" using req st1(5,6) by (simp add: requests_def)
  moreover have "get_market st1 mid \<noteq> None" using st1(7) by simp
  ultimately show ?thesis using run st1(2,8) other by (intro exI[of _ st1] conjI allI impI)
qed

lemma cancel_commit_unnamed:
  assumes "app_inv local_jd st" and "get_market st mid \<noteq> None" and "get_sess st accnt \<noteq> None"
    and "requests k accnt ids exs st" and "oid \<in> set ids" and "\<nexists>p. named accnt mid oid st p"
  shows "cancel_commit accnt mid now exs st = None"
  using assms
proof (induction exs arbitrary: ids st)
  case (Cons e exs)
  obtain o1 ids' where ids: "ids = o1 # ids'" using Cons.prems(4) by (auto simp: requests_def)
  obtain sx where sx: "get_sess st accnt = Some sx" using Cons.prems(3) by auto
  show ?case
  proof (cases "\<exists>p. named accnt mid o1 st p")
    case False
    then have "sess_order (a_orders st) mid o1 sx = None"
      using named_sess_order[OF app_inv_parts(2)[OF Cons.prems(1)] sx] by (metis option.exhaust)
    then show ?thesis using sx Cons.prems(4) ids by (auto simp: requests_def)
  next
    case True
    then obtain p where p: "named accnt mid o1 st p" by blast
    then have ne: "oid \<noteq> o1" using Cons.prems(6) by blast
    from cancel_commit_step[OF Cons.prems(1-3) Cons.prems(4)[unfolded ids] p, of now] obtain st1 where
      st1: "cancel_commit accnt mid now (e # exs) st = cancel_commit accnt mid now exs st1" "app_inv local_jd st1"
        "get_market st1 mid \<noteq> None" "get_sess st1 accnt \<noteq> None" "requests k accnt ids' exs st1"
        "\<forall>oid' x. oid' \<noteq> o1 \<longrightarrow> named accnt mid oid' st1 x = named accnt mid oid' st x" by blast
    show ?thesis unfolding st1(1)
      by (rule Cons.IH[OF st1(2-5)]) (use Cons.prems(5,6) ids ne st1(6) in auto)
  qed
qed (simp add: requests_def)

lemma cancel_commit_twice:
  assumes "app_inv local_jd st" and "get_market st mid \<noteq> None" and "get_sess st accnt \<noteq> None"
    and "requests k accnt ids exs st" and "\<not> distinct ids"
  shows "cancel_commit accnt mid now exs st = None"
  using assms
proof (induction exs arbitrary: ids st)
  case (Cons e exs)
  obtain o1 ids' where ids: "ids = o1 # ids'" using Cons.prems(4) by (auto simp: requests_def)
  show ?case
  proof (cases "\<exists>p. named accnt mid o1 st p")
    case False
    then show ?thesis using cancel_commit_unnamed[OF Cons.prems(1-4), of o1 now] ids by simp
  next
    case True
    then obtain p where p: "named accnt mid o1 st p" by blast
    from cancel_commit_step[OF Cons.prems(1-3) Cons.prems(4)[unfolded ids] p, of now] obtain st1 where
      st1: "cancel_commit accnt mid now (e # exs) st = cancel_commit accnt mid now exs st1" "app_inv local_jd st1"
        "get_market st1 mid \<noteq> None" "get_sess st1 accnt \<noteq> None" "requests k accnt ids' exs st1"
        "\<forall>x. \<not> named accnt mid o1 st1 x" by blast
    show ?thesis
    proof (cases "o1 \<in> set ids'")
      case True
      then show ?thesis unfolding st1(1) using cancel_commit_unnamed[OF st1(2-5) True] st1(6) by blast
    next
      case False
      then show ?thesis unfolding st1(1) using Cons.IH[OF st1(2-5)] Cons.prems(5) ids by simp
    qed
  qed
qed (simp add: requests_def)

text \<open>
  A list that names an order twice passes the checks and the journal, and then the commit dereferences
  an iterator that is at the end: there is no result.
\<close>

lemma cancel_order_ids_twice:
  assumes inv: "app_inv local_jd st" and m: "get_market st mid \<noteq> None" and s: "get_sess st accnt \<noteq> None"
    and resp: "resp_execs resp = []" and all: "\<forall>oid\<in>set ids. \<exists>p. named accnt mid oid st p"
    and twice: "\<not> distinct ids" and room: "length ids \<le> ring_reserve (a_mq st)"
  shows "cancel_order_ids accnt mid ids now (st, resp) = Undef"
proof -
  have "find (\<lambda>oid. \<not> (\<exists>p. named accnt mid oid st p)) ids = None" using all by (auto simp: find_None_iff)
  with cancel_validated[OF inv m s, of ids now resp] obtain st1 resp1 where
    r: "cancel_validate accnt mid ids now (st, resp_set_market mid resp) = Done () (st1, resp1)" "stage st st1"
      "app_inv local_jd st1" "requests Cancel accnt ids (resp_execs resp1) st1"
    using resp by (auto simp: resp_set_market_def)
  let ?es = "map (a_execs st1) (resp_execs resp1)"
  have len: "length ?es = length ids" using r(4) by (metis length_map requests_def)
  obtain q where q: "mq_create_execs ?es (a_mq st1) = Done () q" "ring_ok q"
    using mq_create_execs_ok[OF app_inv_parts(5)[OF r(3)], of ?es] room len stage_facts[OF r(2)] by auto
  have k: "get_market (st1\<lparr>a_mq := q\<rparr>) mid \<noteq> None" "get_sess (st1\<lparr>a_mq := q\<rparr>) accnt \<noteq> None"
    using batch_known[OF r(2) m s] by simp_all
  have "requests Cancel accnt ids (resp_execs resp1) (st1\<lparr>a_mq := q\<rparr>)" using r(4) by (simp add: requests_def)
  from cancel_commit_twice[OF app_inv_mq(1)[OF r(3) q(2)] k this twice, of now] show ?thesis
    using r(1) q(1) by (simp add: cancel_order_ids_def on_mq_def)
qed

end
