(* ===== verification/App_Ledger.thy ===== *)
theory App_Ledger
  imports App_Revise
begin

text \<open>
  The accounts as a reader of the engine sees them: the trades and the recent executions of each
  account and its position in each market. A position that does not exist yet reads as an empty one, and so
  does the session of an account that has none. The steps before an operation posts to the queue keep
  all of it (\<open>same_ledger\<close>); booking a trade changes it for the account of the trade only
  (\<open>ledger_booked\<close>).
\<close>

definition trades_of :: "app \<Rightarrow> symbol \<Rightarrow> eptr list" where
  "trades_of st a = (case get_sess st a of None \<Rightarrow> [] | Some s \<Rightarrow> s_trades s)"

definition execs_of :: "app \<Rightarrow> symbol \<Rightarrow> eptr list" where
  "execs_of st a = (case get_sess st a of None \<Rightarrow> [] | Some s \<Rightarrow> s_execs s)"

definition max_execs_of :: "app \<Rightarrow> symbol \<Rightarrow> nat" where
  "max_execs_of st a = (case get_sess st a of None \<Rightarrow> a_max_execs st | Some s \<Rightarrow> s_max_execs s)"

text \<open>A position, less the description of its market.\<close>

definition plain_posn :: "posn \<Rightarrow> posn" where
  "plain_posn p = p\<lparr>p_instr := [], p_settl_day := 0\<rparr>"

definition posn_of :: "app \<Rightarrow> symbol \<Rightarrow> id64 \<Rightarrow> posn" where
  "posn_of st a k = (case get_sess st a of None \<Rightarrow> new_posn a k [] 0
     | Some s \<Rightarrow> (case set_find (posn_key (a_posns st)) k (s_posns s) of
         None \<Rightarrow> new_posn a k [] 0 | Some q \<Rightarrow> plain_posn (a_posns st q)))"

definition same_ledger :: "app \<Rightarrow> app \<Rightarrow> bool" where
  "same_ledger st st' \<longleftrightarrow> trades_of st' = trades_of st \<and> execs_of st' = execs_of st
     \<and> max_execs_of st' = max_execs_of st \<and> posn_of st' = posn_of st"

lemma same_ledger_refl [simp]: "same_ledger st st"
  by (simp add: same_ledger_def)

lemma same_ledger_trans: "same_ledger st1 st2 \<Longrightarrow> same_ledger st2 st3 \<Longrightarrow> same_ledger st1 st3"
  by (simp add: same_ledger_def)

lemmas ledger_defs = trades_of_def execs_of_def max_execs_of_def posn_of_def

lemma same_ledgerI:
  assumes "\<And>b. trades_of st' b = trades_of st b" "\<And>b. execs_of st' b = execs_of st b"
    and "\<And>b. max_execs_of st' b = max_execs_of st b" "\<And>b k. posn_of st' b k = posn_of st b k"
  shows "same_ledger st st'"
  unfolding same_ledger_def using assms by (intro conjI ext)

lemma same_ledger_sess:
  assumes "\<And>b. get_sess st' b = get_sess st b" and "a_posns st' = a_posns st" and "a_max_execs st' = a_max_execs st"
  shows "same_ledger st st'"
  by (rule same_ledgerI) (simp_all add: ledger_defs assms split: option.split)

lemma same_ledger_frame:
  "a_sesss st' = a_sesss st \<Longrightarrow> a_posns st' = a_posns st \<Longrightarrow> a_max_execs st' = a_max_execs st \<Longrightarrow> same_ledger st st'"
  by (rule same_ledger_sess) (simp_all add: get_sess_def)

lemma posn_of_found:
  assumes "app_inv local_jd st" and "get_sess st a = Some s" and "q \<in> set (s_posns s)"
  shows "posn_of st a (p_market_id (a_posns st q)) = plain_posn (a_posns st q)"
proof -
  have "set_ok (posn_key (a_posns st)) (s_posns s)" using assms(1,2) by (auto simp: app_inv_def posn_inv_def)
  then have "set_find (posn_key (a_posns st)) (p_market_id (a_posns st q)) (s_posns s) = Some q"
    using assms(3) by (simp add: set_find_Some_iff posn_key_def)
  then show ?thesis by (simp add: posn_of_def assms(2))
qed

lemma posn_of_none:
  assumes "app_inv local_jd st" and "\<And>s q. get_sess st a = Some s \<Longrightarrow> q \<in> set (s_posns s) \<Longrightarrow> p_market_id (a_posns st q) \<noteq> k"
  shows "posn_of st a k = new_posn a k [] 0"
proof (cases "get_sess st a")
  case (Some s)
  have "set_ok (posn_key (a_posns st)) (s_posns s)" using assms(1) Some by (auto simp: app_inv_def posn_inv_def)
  then have "set_find (posn_key (a_posns st)) k (s_posns s) = None"
    using assms(2)[OF Some] by (auto simp: set_find_None_iff posn_key_def)
  then show ?thesis by (simp add: posn_of_def Some)
qed (simp add: posn_of_def)

lemma app_sess_ledger: "app_inv local_jd st \<Longrightarrow> app_sess a st = (s, st') \<Longrightarrow> same_ledger st st'"
proof -
  assume inv: "app_inv local_jd st" and eq: "app_sess a st = (s, st')"
  show "same_ledger st st'"
  proof (cases "get_sess st a")
    case (Some t)
    then show ?thesis using eq by (simp add: app_sess_eq)
  next
    case None
    let ?s = "make_sess a (a_max_execs st)"
    have st': "st' = st\<lparr>a_sesss := set_insert s_accnt ?s (a_sesss st)\<rparr>" using None eq by (auto simp: app_sess_eq)
    have get: "get_sess st' b = (if b = a then Some ?s else get_sess st b)" for b
      using None app_inv_parts(8)[OF inv] by (auto simp: get_sess_def st' set_find_insert make_sess_def)
    have f: "a_posns st' = a_posns st" "a_max_execs st' = a_max_execs st" by (simp_all add: st')
    have e: "s_trades ?s = []" "s_execs ?s = []" "s_max_execs ?s = a_max_execs st" "s_posns ?s = []"
      by (simp_all add: make_sess_def)
    show ?thesis using None
      by (intro same_ledgerI) (simp_all add: ledger_defs get f e set_find_def lower_bound_def split: option.split)
  qed
qed

lemma plain_new: "plain_posn (new_posn a k ins day) = new_posn a k [] 0"
  by (simp add: plain_posn_def new_posn_def make_posn_def)

text \<open>The part of the invariant that the positions rest on.\<close>

definition ledger_inv :: "app \<Rightarrow> bool" where
  "ledger_inv st \<longleftrightarrow> set_ok s_accnt (a_sesss st) \<and> posn_inv st"

lemma ledger_inv_id: "ledger_inv st \<Longrightarrow> get_sess st a = Some s \<Longrightarrow> s_accnt s = a"
  by (simp add: ledger_inv_def get_sess_def set_find_Some_iff)

lemma app_inv_ledger: "app_inv local_jd st \<Longrightarrow> ledger_inv st"
  by (simp add: ledger_inv_def app_inv_def own_inv_def)

lemma app_posn_ledger_inv:
  assumes inv: "ledger_inv st" and s: "get_sess st a = Some s" and eq: "app_posn s m st = (q, st')"
  shows "ledger_inv st'"
proof -
  have acc: "s_accnt s = a" using ledger_inv_id[OF inv s] .
  have all: "set_ok s_accnt (a_sesss st)" and pi: "posn_inv st" using inv by (simp_all add: ledger_inv_def)
  have ok: "set_ok (posn_key (a_posns st)) (s_posns s)"
    and own: "\<And>r. r \<in> set (s_posns s) \<Longrightarrow> r < a_next_posn st \<and> p_accnt (a_posns st r) = s_accnt s"
    using pi s by (auto simp: posn_inv_def)
  obtain h n s' where r: "sess_posn (m_id m) (m_instr m) (m_settl_day m) (a_posns st, a_next_posn st, s) = (q, h, n, s')"
    and st': "st' = put_sess s' (st\<lparr>a_posns := h, a_next_posn := n\<rparr>)"
    using eq by (auto simp: app_posn_def split: prod.splits)
  note P = sess_posn_ok[OF ok own r]
  have id': "s_accnt s' = a" using P acc by (simp add: same_sess_def same_defs)
  have get: "get_sess st' b = (if b = a then Some s' else get_sess st b)" for b
    using all s id' by (auto simp: st' get_sess_put_sess)
  have "posn_inv st'"
    unfolding posn_inv_def
  proof (intro allI impI)
    fix b t assume t: "get_sess st' b = Some t"
    show "set_ok (posn_key (a_posns st')) (s_posns t) \<and>
      (\<forall>q\<in>set (s_posns t). q < a_next_posn st' \<and> p_accnt (a_posns st' q) = s_accnt t)"
    proof (cases "b = a")
      case True
      then have "t = s'" using t by (simp add: get)
      then show ?thesis using P by (simp add: st')
    next
      case False
      with t have "get_sess st b = Some t" by (simp add: get)
      then have B: "set_ok (posn_key (a_posns st)) (s_posns t)"
        "\<forall>q\<in>set (s_posns t). q < a_next_posn st \<and> p_accnt (a_posns st q) = s_accnt t"
        using pi by (simp_all add: posn_inv_def)
      then have "set_ok (posn_key h) (s_posns t)"
        using P set_ok_key_cong[of "s_posns t" "posn_key h" "posn_key (a_posns st)"] by (simp add: posn_key_def)
      then show ?thesis using B P by (auto simp: st' intro: less_le_trans)
    qed
  qed
  then show ?thesis using all by (simp add: ledger_inv_def st')
qed

lemma app_posn_ledger:
  assumes inv: "ledger_inv st" and s: "get_sess st a = Some s" and eq: "app_posn s m st = (q, st')"
  shows "same_ledger st st'"
proof -
  have acc: "s_accnt s = a" using ledger_inv_id[OF inv s] .
  have parts: "set_ok s_accnt (a_sesss st)" "posn_inv st" using inv by (simp_all add: ledger_inv_def)
  have ok: "set_ok (posn_key (a_posns st)) (s_posns s)" using parts(2) s by (auto simp: posn_inv_def)
  show ?thesis
  proof (cases "set_find (posn_key (a_posns st)) (m_id m) (s_posns s)")
    case (Some p)
    then have st': "st' = put_sess s (st\<lparr>a_posns := a_posns st, a_next_posn := a_next_posn st\<rparr>)"
      using eq by (auto simp: app_posn_def sess_posn_def)
    have "get_sess st' b = get_sess st b" for b
      using s acc parts(1) by (auto simp: st' get_sess_put_sess)
    then show ?thesis by (rule same_ledger_sess) (simp_all add: st')
  next
    case None
    let ?n = "a_next_posn st"
    let ?h = "(a_posns st)(?n := new_posn (s_accnt s) (m_id m) (m_instr m) (m_settl_day m))"
    let ?s = "s\<lparr>s_posns := set_insert (posn_key ?h) ?n (s_posns s)\<rparr>"
    have st': "st' = put_sess ?s (st\<lparr>a_posns := ?h, a_next_posn := ?n + 1\<rparr>)"
      using eq None by (auto simp: app_posn_def sess_posn_def Let_def)
    have get: "get_sess st' b = (if b = a then Some ?s else get_sess st b)" for b
      using s acc parts(1) by (auto simp: st' get_sess_put_sess)
    have h: "a_posns st' = ?h" by (simp add: st')
    have old: "r < ?n" if "get_sess st b = Some t" "r \<in> set (s_posns t)" for b t r
      using parts(2) that by (auto simp: posn_inv_def)
    have find: "set_find (posn_key ?h) k (s_posns t) = set_find (posn_key (a_posns st)) k (s_posns t)"
      if t: "get_sess st b = Some t" for b t k
    proof -
      have t_ok: "set_ok (posn_key (a_posns st)) (s_posns t)" using parts(2) t by (auto simp: posn_inv_def)
      have key: "posn_key ?h r = posn_key (a_posns st) r" if "r \<in> set (s_posns t)" for r
        using old[OF t that] by (auto simp: posn_key_def)
      have t_ok': "set_ok (posn_key ?h) (s_posns t)"
        using t_ok set_ok_key_cong[of "s_posns t" "posn_key ?h" "posn_key (a_posns st)"] key by simp
      show ?thesis
        using set_find_Some_iff[OF t_ok', of k] set_find_Some_iff[OF t_ok, of k] key by (metis option.exhaust)
    qed
    have ok': "set_ok (posn_key ?h) (s_posns s)"
      using ok set_ok_key_cong[of "s_posns s" "posn_key ?h" "posn_key (a_posns st)"] old[OF s]
      by (fastforce simp: posn_key_def)
    have key: "posn_key ?h ?n = m_id m" by (simp add: posn_key_def posn_defs)
    have "posn_of st' b k = posn_of st b k" for b k
    proof (cases "b = a")
      case True
      have "set_find (posn_key ?h) k (s_posns ?s) =
          (if k = m_id m then Some ?n else set_find (posn_key (a_posns st)) k (s_posns s))"
        using set_find_insert[OF ok', of k ?n] key None find[OF s] by auto
      moreover have "r \<noteq> ?n" if "set_find (posn_key (a_posns st)) k (s_posns s) = Some r" for r
        using that ok old[OF s, of r] by (auto simp: set_find_Some_iff)
      ultimately show ?thesis
        using None acc by (auto simp: posn_of_def get h s True plain_new split: option.split)
    next
      case False
      have "?h r = a_posns st r" if "get_sess st b = Some t" "set_find (posn_key (a_posns st)) k (s_posns t) = Some r" for t r
      proof -
        have "set_ok (posn_key (a_posns st)) (s_posns t)" using parts(2) that(1) by (auto simp: posn_inv_def)
        then have "r < ?n" using old[OF that(1), of r] that(2) by (simp add: set_find_Some_iff)
        then show ?thesis by simp
      qed
      then show ?thesis using False by (auto simp: posn_of_def get h find split: option.split)
    qed
    moreover have "s_trades ?s = s_trades s" "s_execs ?s = s_execs s" "s_max_execs ?s = s_max_execs s" by simp_all
    moreover have "a_max_execs st' = a_max_execs st" by (simp add: st')
    ultimately show ?thesis
      using s by (intro same_ledgerI) (simp_all add: trades_of_def execs_of_def max_execs_of_def get split: option.split)
  qed
qed

section \<open>What booking changes\<close>

text \<open>The positions after a trade, as a function of those before.\<close>

definition posns_after :: "exec \<Rightarrow> (symbol \<Rightarrow> id64 \<Rightarrow> posn) \<Rightarrow> symbol \<Rightarrow> id64 \<Rightarrow> posn" where
  "posns_after ex f a k =
     (if a = r_accnt ex \<and> k = r_market_id ex then add_trade (r_side ex) (e_last_lots ex) (e_last_ticks ex) (f a k) else f a k)"

definition execs_after :: "app \<Rightarrow> symbol \<Rightarrow> eptr \<Rightarrow> (symbol \<Rightarrow> eptr list) \<Rightarrow> symbol \<Rightarrow> eptr list" where
  "execs_after st a e f = f(a := circ_push_front (max_execs_of st a) e (f a))"

definition ledger_booked :: "symbol \<Rightarrow> eptr \<Rightarrow> exec \<Rightarrow> app \<Rightarrow> app \<Rightarrow> bool" where
  "ledger_booked a e ex st st' \<longleftrightarrow>
     (\<forall>b. set (trades_of st' b) = set (trades_of st b) \<union> (if b = a then {e} else {}))
     \<and> execs_of st' = execs_after st a e (execs_of st) \<and> max_execs_of st' = max_execs_of st
     \<and> posn_of st' = posns_after ex (posn_of st)"

text \<open>A trade and, with a counterparty, the opposite trade, which is booked first.\<close>

definition ledger_dealt :: "symbol \<Rightarrow> eptr \<Rightarrow> symbol \<Rightarrow> eptr option \<Rightarrow> app \<Rightarrow> app \<Rightarrow> bool" where
  "ledger_dealt a t b ct st st' \<longleftrightarrow>
     (\<forall>x. set (trades_of st' x) = set (trades_of st x) \<union> (if x = a then {t} else {}) \<union> (if x = b then set_option ct else {}))
     \<and> execs_of st' = execs_after st a t (case ct of None \<Rightarrow> execs_of st | Some c \<Rightarrow> execs_after st b c (execs_of st))
     \<and> posn_of st' = posns_after (a_execs st' t)
          (case ct of None \<Rightarrow> posn_of st | Some c \<Rightarrow> posns_after (a_execs st' c) (posn_of st))"

lemma ledger_booked_same: "same_ledger st st' \<Longrightarrow> ledger_booked a e ex st' st'' \<Longrightarrow> ledger_booked a e ex st st''"
  by (simp add: same_ledger_def ledger_booked_def execs_after_def)

lemma ledger_dealt_single: "ledger_booked a t (a_execs st' t) st st' \<Longrightarrow> ledger_dealt a t b None st st'"
  by (simp add: ledger_booked_def ledger_dealt_def)

lemma ledger_dealt_pair:
  "ledger_booked b c (a_execs st' c) st st1 \<Longrightarrow> ledger_booked a t (a_execs st' t) st1 st' \<Longrightarrow> ledger_dealt a t b (Some c) st st'"
  by (auto simp: ledger_booked_def ledger_dealt_def execs_after_def)

lemma plain_add_trade: "plain_posn (add_trade sd lots ticks p) = add_trade sd lots ticks (plain_posn p)"
  by (simp add: plain_posn_def posn_defs)

lemma add_trade_key: "p_market_id (add_trade sd lots ticks p) = p_market_id p"
  by (simp add: posn_defs)

lemma booked_ledger:
  assumes inv: "app_inv local_jd st" and s: "get_sess st a = Some s"
    and q: "q \<in> set (s_posns s)" "p_market_id (a_posns st q) = r_market_id (a_execs st e)" and acc: "r_accnt (a_execs st e) = a"
    and fresh: "\<forall>t\<in>set (s_trades s). request_key (a_execs st t) \<noteq> request_key (a_execs st e)"
    and st': "a_posns st' = (a_posns st)(q := add_trade (r_side (a_execs st e)) (e_last_lots (a_execs st e))
         (e_last_ticks (a_execs st e)) (a_posns st q))" "a_max_execs st' = a_max_execs st"
      "\<forall>b. get_sess st' b = (if b = a then Some (booked (a_execs st) e s) else get_sess st b)"
  shows "ledger_booked a e (a_execs st e) st st'"
proof -
  note parts = app_inv_parts[OF inv]
  have tok: "set_ok (exec_id_key (a_execs st)) (s_trades s)"
    using parts(3) s by (auto simp: exec_inv_def exec_ok_def)
  have tr: "set (s_trades (booked (a_execs st) e s)) = insert e (set (s_trades s))"
    using tok fresh by (auto simp: booked_def insert_trade_def push_exec_front_def set_set_insert exec_id_key_def image_iff)
  have ex: "s_execs (booked (a_execs st) e s) = circ_push_front (s_max_execs s) e (s_execs s)"
    "s_max_execs (booked (a_execs st) e s) = s_max_execs s"
    by (simp_all add: booked_def insert_trade_def push_exec_front_def)
  have pkey: "posn_key ((a_posns st)(q := add_trade sd n t (a_posns st q))) = posn_key (a_posns st)" for sd n t
    by (rule ext) (simp add: posn_key_def add_trade_key)
  have "posn_of st' b k = posns_after (a_execs st e) (posn_of st) b k" for b k
  proof (cases "b = a")
    case True
    have ok: "set_ok (posn_key (a_posns st)) (s_posns s)" using parts(4) s by (auto simp: posn_inv_def)
    have "set_find (posn_key (a_posns st)) k (s_posns s) = Some q" if "k = r_market_id (a_execs st e)"
      using set_find_Some_iff[OF ok, of k q] q that by (simp add: posn_key_def)
    moreover have "r \<noteq> q" if "k \<noteq> r_market_id (a_execs st e)" "set_find (posn_key (a_posns st)) k (s_posns s) = Some r" for r
      using set_find_Some_iff[OF ok, of k r] q that by (auto simp: posn_key_def)
    ultimately show ?thesis
      using True acc by (auto simp: posn_of_def st'(3) pkey s st'(1) posns_after_def plain_add_trade split: option.split)
  next
    case False
    have "r \<noteq> q" if "get_sess st b = Some t" "set_find (posn_key (a_posns st)) k (s_posns t) = Some r" for t r
    proof
      assume rq: "r = q"
      have "set_ok (posn_key (a_posns st)) (s_posns t)" using parts(4) that(1) by (auto simp: posn_inv_def)
      then have "q \<in> set (s_posns t)" using that(2) rq by (simp add: set_find_Some_iff)
      then have "p_accnt (a_posns st q) = s_accnt t" using parts(4) that(1) unfolding posn_inv_def by blast
      moreover have "p_accnt (a_posns st q) = s_accnt s" using parts(4) s q(1) unfolding posn_inv_def by blast
      ultimately have "s_accnt t = s_accnt s" by simp
      then show False using False own_id[OF parts(2) that(1)] own_id[OF parts(2) s] by simp
    qed
    then show ?thesis
      using False acc by (auto simp: posn_of_def st'(3) pkey st'(1) posns_after_def split: option.split)
  qed
  moreover have "execs_of st' b = execs_after st a e (execs_of st) b" "max_execs_of st' b = max_execs_of st b" for b
    using s ex st'(2) by (simp_all add: execs_of_def max_execs_of_def st'(3) execs_after_def split: option.split)
  moreover have "set (trades_of st' b) = set (trades_of st b) \<union> (if b = a then {e} else {})" for b
    using s tr by (cases "b = a") (simp_all add: trades_of_def st'(3))
  ultimately show ?thesis by (simp add: ledger_booked_def fun_eq_iff)
qed

section \<open>The address of a position\<close>

definition posn_at :: "app \<Rightarrow> symbol \<Rightarrow> id64 \<Rightarrow> pptr \<Rightarrow> bool" where
  "posn_at st a k q \<longleftrightarrow> (\<exists>s. get_sess st a = Some s \<and> q \<in> set (s_posns s) \<and> p_market_id (a_posns st q) = k)"

lemma posn_at_frame: "a_sesss st' = a_sesss st \<Longrightarrow> a_posns st' = a_posns st \<Longrightarrow> posn_at st a k q \<Longrightarrow> posn_at st' a k q"
  by (simp add: posn_at_def get_sess_def)

lemma posn_at_sess:
  assumes "app_sess b st = (s, st')" and "app_inv local_jd st" and "posn_at st a k q"
  shows "posn_at st' a k q"
proof (cases "get_sess st b")
  case (Some t)
  then show ?thesis using assms by (simp add: app_sess_eq)
next
  case None
  have st': "st' = st\<lparr>a_sesss := set_insert s_accnt (make_sess b (a_max_execs st)) (a_sesss st)\<rparr>"
    using None assms(1) by (auto simp: app_sess_eq)
  have "get_sess st' a = get_sess st a"
    using None assms(3) app_inv_parts(8)[OF assms(2)] by (auto simp: get_sess_def st' set_find_insert make_sess_def posn_at_def)
  then show ?thesis using assms(3) by (simp add: posn_at_def st')
qed

lemma posn_at_posn:
  assumes inv: "app_inv local_jd st" and s: "get_sess st b = Some s" and eq: "app_posn s m st = (r, st')" and at: "posn_at st a k q"
  shows "posn_at st' a k q"
proof -
  note parts = app_inv_parts[OF inv]
  have acc: "s_accnt s = b" using own_id[OF parts(2) s] .
  have ok: "set_ok (posn_key (a_posns st)) (s_posns s)"
    and own: "p \<in> set (s_posns s) \<Longrightarrow> p < a_next_posn st \<and> p_accnt (a_posns st p) = s_accnt s" for p
    using parts(4) s by (auto simp: posn_inv_def)
  obtain h n s' where e: "sess_posn (m_id m) (m_instr m) (m_settl_day m) (a_posns st, a_next_posn st, s) = (r, h, n, s')"
    and st': "st' = put_sess s' (st\<lparr>a_posns := h, a_next_posn := n\<rparr>)"
    using eq by (auto simp: app_posn_def split: prod.splits)
  note P = sess_posn_ok[OF ok own e]
  have sub: "set (s_posns s) \<subseteq> set (s_posns s')"
  proof (cases "set_find (posn_key (a_posns st)) (m_id m) (s_posns s)")
    case None
    let ?h = "(a_posns st)(a_next_posn st := new_posn (s_accnt s) (m_id m) (m_instr m) (m_settl_day m))"
    have "s' = s\<lparr>s_posns := set_insert (posn_key ?h) (a_next_posn st) (s_posns s)\<rparr>"
      using e None by (auto simp: sess_posn_def Let_def)
    moreover have "set_ok (posn_key ?h) (s_posns s)"
      using ok set_ok_key_cong[of "s_posns s" "posn_key ?h" "posn_key (a_posns st)"] own by (fastforce simp: posn_key_def)
    ultimately show ?thesis by (auto simp: set_set_insert)
  qed (use e in \<open>auto simp: sess_posn_def\<close>)
  have id': "s_accnt s' = b" using P acc by (simp add: same_sess_def same_defs)
  have get: "get_sess st' c = (if c = b then Some s' else get_sess st c)" for c
    using parts(8) s id' by (auto simp: st' get_sess_put_sess)
  obtain t where t: "get_sess st a = Some t" "q \<in> set (s_posns t)" "p_market_id (a_posns st q) = k" using at by (auto simp: posn_at_def)
  have "q < a_next_posn st" using parts(4) t(1,2) by (auto simp: posn_inv_def)
  then have "a_posns st' q = a_posns st q" using P by (simp add: st')
  then show ?thesis using t sub s by (auto simp: posn_at_def get)
qed

lemma posn_at_book:
  assumes "posn_at st a k q" and "get_sess st b = Some s"
    and "a_posns st' = (a_posns st)(r := add_trade sd n t (a_posns st r))"
    and "\<forall>c. get_sess st' c = (if c = b then Some (booked (a_execs st) e s) else get_sess st c)"
  shows "posn_at st' a k q"
  using assms by (auto simp: posn_at_def add_trade_key)

end
