(* ===== verification/App_Trade.thy ===== *)
theory App_Trade
  imports App_Ledger
begin

text \<open>
  Manual trades, and the archiving of trades. Neither touches an order or a book
  (\<open>app_create_trade_cases\<close>, \<open>archive_trade_ids_cases\<close>).
\<close>

section \<open>Sessions on first use\<close>

text \<open>What an operation on trades leaves alone: orders and books. It may add a session.\<close>

definition quiet :: "app \<Rightarrow> app \<Rightarrow> bool" where
  "quiet st st' \<longleftrightarrow> a_orders st' = a_orders st \<and> a_next_order st' = a_next_order st
     \<and> live st' = live st \<and> market_rel st st' \<and> a_next_exec st \<le> a_next_exec st'
     \<and> (\<forall>e<a_next_exec st. a_execs st' e = a_execs st e)
     \<and> (\<forall>a s. get_sess st a = Some s \<longrightarrow> (\<exists>s'. get_sess st' a = Some s' \<and> same_own s s'))"

lemma quiet_refl: "quiet st st"
  by (auto simp: quiet_def same_own_def intro: market_rel_refl)

lemma quiet_trans: "quiet st1 st2 \<Longrightarrow> quiet st2 st3 \<Longrightarrow> quiet st1 st3"
  unfolding quiet_def same_own_def by (auto intro: market_rel_trans) (metis)

lemma stage_quiet: "stage st st' \<Longrightarrow> quiet st st'"
  using sess_relE[OF stage_sess(1)[of st st']] by (auto simp: quiet_def stage_live stage_facts) (auto simp: stage_def)

lemma quiet_sess: "quiet st st' \<Longrightarrow> get_sess st a = Some s \<Longrightarrow> \<exists>s'. get_sess st' a = Some s' \<and> same_own s s'"
  by (simp add: quiet_def)

lemma app_sess_ok:
  assumes inv: "app_inv local_jd st" and eq: "app_sess a st = (s, st')"
  shows "app_inv local_jd st'" and "get_sess st' a = Some s" and "quiet st st'"
    and "a_mq st' = a_mq st" and "get_sess st' b = (if b = a then Some s else get_sess st b)"
    and "get_sess st a = None \<or> get_sess st a = Some s" and "get_sess st a = None \<Longrightarrow> s_trades s = []"
    and "a_markets st' = a_markets st"
    and "a_execs st' = a_execs st" "a_next_exec st' = a_next_exec st" "a_posns st' = a_posns st"
proof -
  note parts = app_inv_parts[OF inv]
  have "app_inv local_jd st' \<and> get_sess st' a = Some s \<and> quiet st st' \<and> get_sess st' b = (if b = a then Some s else get_sess st b)
    \<and> (get_sess st a = None \<or> get_sess st a = Some s) \<and> (get_sess st a = None \<longrightarrow> s_trades s = []) \<and> (\<exists>ss. st' = st\<lparr>a_sesss := ss\<rparr>)"
  proof (cases "get_sess st a")
    case (Some t)
    then have st': "s = t" "st' = st" using eq by (simp_all add: app_sess_eq)
    have "st = st\<lparr>a_sesss := a_sesss st\<rparr>" by simp
    then have "\<exists>ss. st = st\<lparr>a_sesss := ss\<rparr>" by blast
    with Some inv show ?thesis by (simp add: st' quiet_refl)
  next
    case None
    let ?s = "make_sess a (a_max_execs st)"
    have s: "s = ?s" and st': "st' = st\<lparr>a_sesss := set_insert s_accnt ?s (a_sesss st)\<rparr>"
      using None eq by (auto simp: app_sess_eq)
    have acc: "s_accnt ?s = a" by (simp add: make_sess_def)
    have get: "get_sess st' b = (if b = a then Some ?s else get_sess st b)" for b
      using None parts(8) acc by (auto simp: get_sess_def st' set_find_insert)
    have lv: "live st' = live st" by (intro ext live_cong) (simp add: st')
    have none: "r_accnt (a_orders st p) \<noteq> a" if "live st p" for p
      using parts(2) that None by (auto simp: own_inv_def)
    have book: "book_inv st'"
      by (rule book_inv_frame[OF parts(1) _ market_rel_refl]) (use parts(7) in \<open>simp_all add: st'\<close>)
    have own: "own_ok (a_orders st) (live st) t" if "get_sess st' b = Some t" for b t
      using that parts(2) none unfolding get own_inv_def by (auto simp: own_ok_def make_sess_def split: if_splits)
    have "own_inv st'"
      unfolding own_inv_def lv
    proof (intro conjI allI impI)
      show "set_ok s_accnt (a_sesss st')" using parts(8) by (simp add: st' set_ok_insert)
      show "get_sess st' (r_accnt (a_orders st' p)) \<noteq> None" if "live st p" for p
        unfolding get using parts(2) that by (simp add: own_inv_def st')
      show "own_ok (a_orders st') (live st) t" if "get_sess st' b = Some t" for b t
        using own[OF that] by (simp add: st')
    qed
    moreover have "exec_inv st'"
      using parts(3) unfolding exec_inv_def get
      by (auto simp: exec_ok_def trade_ok_def make_sess_def st' split: if_splits)
    moreover have "posn_inv st'"
      using parts(4) unfolding posn_inv_def get by (auto simp: make_sess_def st' split: if_splits)
    ultimately have "app_inv local_jd st'" using book parts by (simp add: app_inv_def st')
    moreover have "quiet st st'"
      unfolding quiet_def using None by (auto simp: get lv same_own_def) (auto simp: st' intro: market_rel_refl)
    moreover have "get_sess st' a = Some s" "get_sess st' b = (if b = a then Some s else get_sess st b)" "s_trades s = []"
      by (simp_all add: get s make_sess_def)
    ultimately show ?thesis using st' None by blast
  qed
  then show "app_inv local_jd st'" "get_sess st' a = Some s" "quiet st st'" "get_sess st' b = (if b = a then Some s else get_sess st b)"
    "get_sess st a = None \<or> get_sess st a = Some s" "get_sess st a = None \<Longrightarrow> s_trades s = []"
    and "a_mq st' = a_mq st" "a_markets st' = a_markets st"
    "a_execs st' = a_execs st" "a_next_exec st' = a_next_exec st" "a_posns st' = a_posns st"
    by auto
qed

section \<open>Booking\<close>

lemma book_trade_ok:
  assumes inv: "app_inv local_jd st" and s: "get_sess st a = Some s"
    and e: "e < a_next_exec st" "r_accnt (a_execs st e) = a" "trade_ok st e"
  shows "\<exists>st'. book_trade a e q st = Some st' \<and> app_inv local_jd st' \<and> quiet st st' \<and> a_mq st' = a_mq st
    \<and> a_execs st' = a_execs st \<and> a_next_exec st' = a_next_exec st \<and> a_markets st' = a_markets st
    \<and> a_max_execs st' = a_max_execs st \<and> a_posns st' = (a_posns st)(q := add_trade (r_side (a_execs st e)) (e_last_lots (a_execs st e))
         (e_last_ticks (a_execs st e)) (a_posns st q))
    \<and> (\<forall>b. get_sess st' b = (if b = a then Some (booked (a_execs st) e s) else get_sess st b))"
proof -
  note parts = app_inv_parts[OF inv]
  have acc: "s_accnt s = a" using own_id[OF parts(2) s] .
  define po where "po = add_trade (r_side (a_execs st e)) (e_last_lots (a_execs st e)) (e_last_ticks (a_execs st e)) (a_posns st q)"
  define st1 where "st1 = put_sess (booked (a_execs st) e s) st"
  define st' where "st' = put_posn q po st1"
  have run: "book_trade a e q st = Some st'"
    using s by (simp add: book_trade_def st'_def st1_def po_def booked_def Let_def)
  have get1: "get_sess st1 b = (if b = a then Some (booked (a_execs st) e s) else get_sess st b)" for b
    using s acc parts(8) by (auto simp: st1_def get_sess_put_sess)
  have get: "get_sess st' b = (if b = a then Some (booked (a_execs st) e s) else get_sess st b)" for b
    using get1 by (simp add: st'_def)
  have rel: "sess_rel R st st'" if "\<And>s. R s s" "R s (booked (a_execs st) e s)" for R
    using that s by (auto simp: sess_rel_def get split: option.split)
  have f: "a_orders st' = a_orders st" "a_next_order st' = a_next_order st" "a_markets st' = a_markets st"
    "a_mq st' = a_mq st" "a_execs st' = a_execs st" "a_next_exec st' = a_next_exec st" "a_next_posn st' = a_next_posn st"
    "a_bus_day st' = a_bus_day st" "a_posns st' = (a_posns st)(q := po)" "a_max_execs st' = a_max_execs st"
    by (simp_all add: st'_def st1_def put_posn_def)
  have lv: "live st' = live st" by (rule ext) (rule live_cong[OF f(3)])
  have same: "same_own t t" "same_posn t t" for t by (simp_all add: same_defs)
  have "book_inv st'"
    by (rule book_inv_frame[OF parts(1) _ market_rel_refl[OF f(3)]]) (use parts(7) f in simp_all)
  moreover have own: "sess_rel same_own st st'" by (rule rel) (simp_all add: same_own_def)
  have "own_inv st'"
    by (rule own_inv_frame[OF parts(2) _ own lv]) (use parts(8) f in \<open>simp_all add: st'_def st1_def\<close>)
  moreover have "exec_inv st1"
    unfolding st1_def
    by (rule exec_inv_put[OF parts(3,8)], rule exec_ok_trade[OF _ e(1) _ e(3)])
      (use parts(3) s acc e(2) in \<open>simp_all add: exec_inv_def same_exec_def booked_def\<close>)
  then have "exec_inv st'" by (simp add: exec_inv_def st'_def exec_ok_def trade_ok_def)
  moreover have "posn_inv st'"
    by (rule posn_inv_frame[OF parts(4) rel]) (auto simp: same_posn_def f po_def)
  ultimately have "app_inv local_jd st'" using parts f by (simp add: app_inv_def)
  moreover have "quiet st st'"
    unfolding quiet_def using sess_relE[OF own] by (simp add: f lv market_rel_refl)
  ultimately show ?thesis using run f get by (simp add: po_def)
qed

section \<open>Creating a trade\<close>

lemma trade_ok_cong:
  "a_execs st' = a_execs st \<Longrightarrow> a_markets st' = a_markets st \<Longrightarrow> trade_ok st' e = trade_ok st e"
  by (simp add: trade_ok_def get_market_def)

text \<open>The position, the identifier and the execution of one side of a trade.\<close>

lemma new_trade_ok:
  assumes inv: "app_inv local_jd st" and s: "get_sess st a = Some s" and m: "get_market st mid = Some m"
    and q: "app_posn s m' st = (q, st1)"
    and e: "alloc_exec ex (put_market (m\<lparr>m_max_id := m_max_id m + 1\<rparr>) st1) = (e, st2)"
    and ex: "e_state ex = Trade" "r_market_id ex = mid" "r_id ex = m_max_id m + 1"
  shows "stage st st2" and "app_inv local_jd st2" and "get_market st2 mid = Some (m\<lparr>m_max_id := m_max_id m + 1\<rparr>)"
    and "a_execs st2 e = ex" and "e < a_next_exec st2" and "a_next_exec st \<le> e" and "trade_ok st2 e"
    and "\<exists>s'. get_sess st2 a = Some s'" and "same_ledger st st2" and "posn_at st2 a (m_id m') q"
    and "\<And>b k r. posn_at st b k r \<Longrightarrow> posn_at st2 b k r"
proof -
  note Q = app_posn_ok[OF inv s q]
  have m1: "get_market st1 mid = Some m" using m Q(5) by (simp add: get_market_def)
  have same: "same_book m (m\<lparr>m_max_id := m_max_id m + 1\<rparr>)" by (simp add: same_book_def)
  note M = put_market_stage[OF Q(2) m1 same]
  note E = alloc_exec_ok[OF M(2) e]
  show "stage st st2" using Q(1) M(1) E(1) stage_trans by blast
  show "app_inv local_jd st2" "a_execs st2 e = ex" "e < a_next_exec st2" using E by simp_all
  show "a_next_exec st \<le> e" using E(4) Q(7) by simp
  show g: "get_market st2 mid = Some (m\<lparr>m_max_id := m_max_id m + 1\<rparr>)" using M(3) E(8) by (simp add: get_market_def)
  show "trade_ok st2 e" using g E(3) ex by (simp add: trade_ok_def)
  show "\<exists>s'. get_sess st2 a = Some s'" using Q(3) E(7) by (auto simp: get_sess_def)
  have f: "a_sesss st2 = a_sesss st1" "a_posns st2 = a_posns st1" "a_max_execs st2 = a_max_execs st1"
    using e by (auto simp: alloc_exec_def)
  show "same_ledger st st2" using app_posn_ledger[OF app_inv_ledger[OF inv] s q] same_ledger_frame[OF f] by (rule same_ledger_trans)
  have "posn_at st1 a (m_id m') q" using Q(3,4) by (auto simp: posn_at_def)
  then show "posn_at st2 a (m_id m') q" by (rule posn_at_frame[OF f(1,2)])
  show "posn_at st2 b k r" if "posn_at st b k r" for b k r
    by (rule posn_at_frame[OF f(1,2) posn_at_posn[OF inv s q that]])
qed

text \<open>An identifier that no trade of the session has, and what keeps it so.\<close>

definition fresh_id :: "app \<Rightarrow> symbol \<Rightarrow> id64 \<times> id64 \<Rightarrow> bool" where
  "fresh_id st a k \<longleftrightarrow> (\<forall>s e. get_sess st a = Some s \<longrightarrow> e \<in> set (s_trades s) \<longrightarrow> request_key (a_execs st e) \<noteq> k)"

text \<open>Booking, as the accounts see it.\<close>

lemma book_trade_ledger:
  assumes inv: "app_inv local_jd st" and s: "get_sess st a = Some s" and at: "posn_at st a (r_market_id (a_execs st e)) q"
    and acc: "r_accnt (a_execs st e) = a" and fresh: "fresh_id st a (request_key (a_execs st e))"
    and st': "a_posns st' = (a_posns st)(q := add_trade (r_side (a_execs st e)) (e_last_lots (a_execs st e))
         (e_last_ticks (a_execs st e)) (a_posns st q))" "a_max_execs st' = a_max_execs st"
      "\<forall>b. get_sess st' b = (if b = a then Some (booked (a_execs st) e s) else get_sess st b)"
  shows "ledger_booked a e (a_execs st e) st st'"
proof (rule booked_ledger[OF inv s _ _ acc _ st'])
  show "q \<in> set (s_posns s)" "p_market_id (a_posns st q) = r_market_id (a_execs st e)" using at s by (auto simp: posn_at_def)
  show "\<forall>t\<in>set (s_trades s). request_key (a_execs st t) \<noteq> request_key (a_execs st e)"
    using fresh s by (auto simp: fresh_id_def)
qed

lemma on_mq_execs_room:
  assumes "ring_ok (a_mq st)" and "length exs \<le> ring_reserve (a_mq st)"
  obtains q where "on_mq (mq_create_execs exs) st = Done () (st\<lparr>a_mq := q\<rparr>)" and "ring_ok q"
    and "ring_contents q = ring_contents (a_mq st) @ map exec_msg exs"
  using mq_create_execs_ok[OF assms] that by (auto simp: on_mq_def)

text \<open>What the two executions of a trade have.\<close>

definition manual_trade :: "symbol \<Rightarrow> id64 \<Rightarrow> string \<Rightarrow> side \<Rightarrow> lots \<Rightarrow> ticks \<Rightarrow> liq_ind \<Rightarrow> symbol \<Rightarrow> nanos \<Rightarrow> exec \<Rightarrow> bool" where
  "manual_trade accnt mid ref sd lots ticks li cpty created ex \<longleftrightarrow> e_state ex = Trade \<and> r_accnt ex = accnt
     \<and> r_market_id ex = mid \<and> r_side ex = sd \<and> r_lots ex = lots \<and> e_last_lots ex = lots \<and> e_last_ticks ex = ticks
     \<and> e_exec_cost ex = cost lots ticks \<and> e_liq_ind ex = li \<and> e_cpty ex = cpty \<and> r_created ex = created"

definition trade_booked :: "app \<Rightarrow> symbol \<Rightarrow> eptr \<Rightarrow> bool" where
  "trade_booked st a e \<longleftrightarrow> (\<exists>s. get_sess st a = Some s \<and> sess_trade (a_execs st) (r_market_id (a_execs st e)) (r_id (a_execs st e)) s = Some e)"

lemma sess_exec_ok: "app_inv local_jd st \<Longrightarrow> get_sess st a = Some s \<Longrightarrow> exec_ok st s"
  by (simp add: app_inv_def exec_inv_def)

lemma fresh_new:
  assumes "app_inv local_jd st" and "get_market st mid = Some m" and "m_max_id m < i"
  shows "fresh_id st a (mid, i)"
  unfolding fresh_id_def
proof (intro allI impI notI)
  fix s e assume s: "get_sess st a = Some s" "e \<in> set (s_trades s)" and k: "request_key (a_execs st e) = (mid, i)"
  have "trade_ok st e" using sess_exec_ok[OF assms(1) s(1)] s(2) by (simp add: exec_ok_def)
  then show False using k assms(2,3) by (auto simp: trade_ok_def request_key_def)
qed

lemma fresh_stage:
  assumes "stage st st'" and "app_inv local_jd st" and "fresh_id st a k"
  shows "fresh_id st' a k"
  unfolding fresh_id_def
proof (intro allI impI)
  fix s' e assume s': "get_sess st' a = Some s'" "e \<in> set (s_trades s')"
  then obtain s where s: "get_sess st a = Some s" "same_exec s s'" using sess_relD[OF stage_sess(2)[OF assms(1)]] by blast
  with s'(2) have e: "e \<in> set (s_trades s)" by (simp add: same_exec_def)
  then have "e < a_next_exec st" using sess_exec_ok[OF assms(2) s(1)] by (simp add: exec_ok_def)
  then show "request_key (a_execs st' e) \<noteq> k" using assms(1,3) s(1) e by (auto simp: stage_def fresh_id_def)
qed

lemma fresh_sess:
  assumes "app_inv local_jd st" and "app_sess b st = (s, st')" and "fresh_id st a k"
  shows "fresh_id st' a k"
  using app_sess_ok(5)[OF assms(1,2), of a] app_sess_ok(6-8)[OF assms(1,2)] assms(3) app_sess_ok(9)[OF assms(1,2)]
  by (auto simp: fresh_id_def split: if_splits)

lemma fresh_book:
  assumes "app_inv local_jd st" and "get_sess st b = Some s" and "fresh_id st a k" and "request_key (a_execs st e) \<noteq> k"
    and "a_execs st' = a_execs st" and "\<forall>c. get_sess st' c = (if c = b then Some (booked (a_execs st) e s) else get_sess st c)"
  shows "fresh_id st' a k"
proof -
  have "set_ok (exec_id_key (a_execs st)) (s_trades s)" using sess_exec_ok[OF assms(1,2)] by (simp add: exec_ok_def)
  then have "set (s_trades (booked (a_execs st) e s)) \<subseteq> insert e (set (s_trades s))"
    by (auto simp: booked_def insert_trade_def push_exec_front_def set_set_insert split: if_splits)
  then show ?thesis using assms(2-6) by (fastforce simp: fresh_id_def)
qed

lemma book_booked:
  assumes "app_inv local_jd st" and "get_sess st a = Some s" and "fresh_id st a (request_key (a_execs st e))"
    and "a_execs st' = a_execs st" and "\<forall>c. get_sess st' c = (if c = a then Some (booked (a_execs st) e s) else get_sess st c)"
  shows "trade_booked st' a e"
proof -
  have ok: "set_ok (exec_id_key (a_execs st)) (s_trades s)" using sess_exec_ok[OF assms(1,2)] by (simp add: exec_ok_def)
  moreover have "set_find (exec_id_key (a_execs st)) (request_key (a_execs st e)) (s_trades s) = None"
    using assms(2,3) ok by (auto simp: set_find_None_iff fresh_id_def exec_id_key_def)
  ultimately have "set_find (exec_id_key (a_execs st)) (request_key (a_execs st e)) (s_trades (booked (a_execs st) e s)) = Some e"
    by (simp add: booked_def insert_trade_def push_exec_front_def set_find_insert) (simp add: exec_id_key_def)
  then show ?thesis using assms(4,5) by (simp add: trade_booked_def sess_trade_def request_key_def)
qed

lemma booked_stays:
  assumes "app_inv local_jd st" and "get_sess st b = Some s" and "trade_booked st a e"
    and "a_execs st' = a_execs st" and "\<forall>c. get_sess st' c = (if c = b then Some (booked (a_execs st) e' s) else get_sess st c)"
  shows "trade_booked st' a e"
proof -
  have "set_ok (exec_id_key (a_execs st)) (s_trades s)" using sess_exec_ok[OF assms(1,2)] by (simp add: exec_ok_def)
  then show ?thesis
    using assms(2-5) by (auto simp: trade_booked_def sess_trade_def booked_def insert_trade_def push_exec_front_def set_find_insert)
qed

text \<open>Both trades of a deal, or the one trade without a counterparty, as the journal gets them.\<close>

definition deal :: "app \<Rightarrow> symbol \<Rightarrow> symbol \<Rightarrow> eptr \<Rightarrow> eptr option \<Rightarrow> bool" where
  "deal st accnt cpty t ct \<longleftrightarrow> trade_booked st accnt t \<and>
     (case ct of None \<Rightarrow> cpty = []
      | Some c \<Rightarrow> cpty \<noteq> [] \<and> trade_booked st cpty c
          \<and> a_execs st c = exec_opposite (r_id (a_execs st c)) (a_execs st t) \<and> r_id (a_execs st c) = r_id (a_execs st t) + 1)"

definition deal_execs :: "app \<Rightarrow> eptr \<Rightarrow> eptr option \<Rightarrow> exec list" where
  "deal_execs st t ct = a_execs st t # (case ct of None \<Rightarrow> [] | Some c \<Rightarrow> [a_execs st c])"

lemma app_create_trade_single:
  assumes inv: "app_inv local_jd st" and s: "get_sess st accnt = Some s" and m: "get_market st mid = Some m" and c: "cpty = []"
  shows "ring_reserve (a_mq st) = 0 \<Longrightarrow> \<exists>st'. app_create_trade accnt mid ref sd lots ticks li cpty now st = Throw QueueFull st'
      \<and> app_inv local_jd st' \<and> quiet st st' \<and> same_ledger st st' \<and> a_mq st' = a_mq st"
    and "0 < ring_reserve (a_mq st) \<Longrightarrow> \<exists>st' t. app_create_trade accnt mid ref sd lots ticks li cpty now st = Done (t, None) st'
      \<and> app_inv local_jd st' \<and> quiet st st' \<and> deal st' accnt cpty t None \<and> ledger_dealt accnt t cpty None st st'
      \<and> manual_trade accnt mid ref sd lots ticks li cpty now (a_execs st' t)
      \<and> ring_contents (a_mq st') = ring_contents (a_mq st) @ map exec_msg (deal_execs st' t None)"
proof -
  have mid: "m_id m = mid" using book_id[OF app_inv_parts(1)[OF inv] m] .
  obtain q st1 where q: "app_posn s m st = (q, st1)" by fastforce
  define ex where "ex = new_manual mid (m_instr m) (m_settl_day m) (m_max_id m + 1) accnt ref sd
      lots ticks (net_lots (a_posns st1 q)) (p_net_cost (a_posns st1 q)) li cpty now"
  obtain e st2 where e: "alloc_exec ex (put_market (m\<lparr>m_max_id := m_max_id m + 1\<rparr>) st1) = (e, st2)" by fastforce
  have x: "e_state ex = Trade" "r_market_id ex = mid" "r_id ex = m_max_id m + 1" "r_accnt ex = accnt"
    by (simp_all add: ex_def new_manual_def make_exec_def)
  have man: "manual_trade accnt mid ref sd lots ticks li cpty now ex"
    by (simp add: ex_def new_manual_def make_exec_def manual_trade_def)
  note N = new_trade_ok[OF inv s m q e x(1-3)]
  note F = stage_facts[OF N(1)]
  have run: "app_create_trade accnt mid ref sd lots ticks li cpty now st =
      obind (on_mq (mq_create_exec (a_execs st2 e)) st2) (\<lambda>_ st. case book_trade accnt e q st of None \<Rightarrow> Undef | Some st \<Rightarrow> Done (e, None) st)"
    using e[unfolded ex_def c] by (simp add: app_create_trade_def s m c q alloc_id_def Let_def mid)
  have ring: "ring_ok (a_mq st2)" using app_inv_parts(5)[OF N(2)] .
  show "\<exists>st'. app_create_trade accnt mid ref sd lots ticks li cpty now st = Throw QueueFull st'
      \<and> app_inv local_jd st' \<and> quiet st st' \<and> same_ledger st st' \<and> a_mq st' = a_mq st" if "ring_reserve (a_mq st) = 0"
    using on_mq_exec_full[OF ring, of "a_execs st2 e"] that F(2) run N(2,9) stage_quiet[OF N(1)] by simp
  show "\<exists>st' t. app_create_trade accnt mid ref sd lots ticks li cpty now st = Done (t, None) st'
      \<and> app_inv local_jd st' \<and> quiet st st' \<and> deal st' accnt cpty t None \<and> ledger_dealt accnt t cpty None st st'
      \<and> manual_trade accnt mid ref sd lots ticks li cpty now (a_execs st' t)
      \<and> ring_contents (a_mq st') = ring_contents (a_mq st) @ map exec_msg (deal_execs st' t None)"
    if room: "0 < ring_reserve (a_mq st)"
  proof -
    obtain r where r: "on_mq (mq_create_exec (a_execs st2 e)) st2 = Done () (st2\<lparr>a_mq := r\<rparr>)" "ring_ok r"
        "ring_contents r = ring_contents (a_mq st2) @ [exec_msg (a_execs st2 e)]"
      using on_mq_exec_room[OF ring] room F(2) by metis
    let ?st3 = "st2\<lparr>a_mq := r\<rparr>"
    note I = app_inv_mq[OF N(2) r(2)]
    obtain s3 where s3: "get_sess ?st3 accnt = Some s3" using N(8) by auto
    have e3: "e < a_next_exec ?st3" "r_accnt (a_execs ?st3 e) = accnt" "trade_ok ?st3 e"
      using N(4,5,7) x by (simp_all add: trade_ok_cong[of ?st3 st2])
    obtain st' where st': "book_trade accnt e q ?st3 = Some st'" "app_inv local_jd st'" "quiet ?st3 st'" "a_mq st' = a_mq ?st3"
        "a_execs st' = a_execs ?st3" "a_max_execs st' = a_max_execs ?st3"
        "a_posns st' = (a_posns ?st3)(q := add_trade (r_side (a_execs ?st3 e)) (e_last_lots (a_execs ?st3 e))
           (e_last_ticks (a_execs ?st3 e)) (a_posns ?st3 q))"
        "\<forall>b. get_sess st' b = (if b = accnt then Some (booked (a_execs ?st3) e s3) else get_sess ?st3 b)"
      using book_trade_ok[OF I(1) s3 e3, of q] by blast
    have qq: "quiet st2 ?st3" using I(2) by (simp add: quiet_def market_rel_refl same_own_def)
    have "quiet st st'" using quiet_trans[OF quiet_trans[OF stage_quiet[OF N(1)] qq] st'(3)] .
    have k: "request_key (a_execs st2 e) = (mid, m_max_id m + 1)" using N(4) x by (simp add: request_key_def)
    have "fresh_id st2 accnt (request_key (a_execs st2 e))"
      unfolding k by (rule fresh_stage[OF N(1) inv fresh_new[OF inv m]]) simp
    then have "fresh_id ?st3 accnt (request_key (a_execs ?st3 e))" by (simp add: fresh_id_def)
    note fresh = this
    then have "trade_booked st' accnt e" by (rule book_booked[OF I(1) s3 _ st'(5,8)])
    then have deal: "deal st' accnt cpty e None" by (simp add: deal_def c)
    have mk: "r_market_id (a_execs ?st3 e) = m_id m" using N(4) x mid by simp
    have at: "posn_at ?st3 accnt (r_market_id (a_execs ?st3 e)) q"
      unfolding mk by (rule posn_at_frame[OF _ _ N(10)]) simp_all
    have "ledger_booked accnt e (a_execs ?st3 e) ?st3 st'"
      by (rule book_trade_ledger[OF I(1) s3 at e3(2) fresh st'(7,6,8)])
    moreover have "same_ledger st ?st3" by (rule same_ledger_trans[OF N(9) same_ledger_frame]) simp_all
    ultimately have "ledger_dealt accnt e cpty None st st'"
      using st'(5) by (intro ledger_dealt_single) (auto intro: ledger_booked_same)
    with deal show ?thesis
      using run r(1,3) st'(1,2,4,5) \<open>quiet st st'\<close> man N(4) F(2)
      by (intro exI[of _ st'] exI[of _ e]) (simp add: deal_execs_def)
  qed
qed

lemma app_create_trade_pair:
  assumes inv: "app_inv local_jd st" and s: "get_sess st accnt = Some s" and m: "get_market st mid = Some m" and c: "cpty \<noteq> []"
  shows "ring_reserve (a_mq st) < 2 \<Longrightarrow> \<exists>st'. app_create_trade accnt mid ref sd lots ticks li cpty now st = Throw QueueFull st'
      \<and> app_inv local_jd st' \<and> quiet st st' \<and> same_ledger st st' \<and> a_mq st' = a_mq st"
    and "2 \<le> ring_reserve (a_mq st) \<Longrightarrow> \<exists>st' t ct. app_create_trade accnt mid ref sd lots ticks li cpty now st = Done (t, Some ct) st'
      \<and> app_inv local_jd st' \<and> quiet st st' \<and> deal st' accnt cpty t (Some ct) \<and> ledger_dealt accnt t cpty (Some ct) st st'
      \<and> manual_trade accnt mid ref sd lots ticks li cpty now (a_execs st' t)
      \<and> ring_contents (a_mq st') = ring_contents (a_mq st) @ map exec_msg (deal_execs st' t (Some ct))"
proof -
  have mid: "m_id m = mid" using book_id[OF app_inv_parts(1)[OF inv] m] .
  obtain q st1 where q: "app_posn s m st = (q, st1)" by fastforce
  define ex where "ex = new_manual mid (m_instr m) (m_settl_day m) (m_max_id m + 1) accnt ref sd
      lots ticks (net_lots (a_posns st1 q)) (p_net_cost (a_posns st1 q)) li cpty now"
  let ?m1 = "m\<lparr>m_max_id := m_max_id m + 1\<rparr>"
  obtain e st2 where e: "alloc_exec ex (put_market ?m1 st1) = (e, st2)" by fastforce
  have x: "e_state ex = Trade" "r_market_id ex = mid" "r_id ex = m_max_id m + 1" "r_accnt ex = accnt" "e_cpty ex = cpty"
    by (simp_all add: ex_def new_manual_def make_exec_def)
  have man: "manual_trade accnt mid ref sd lots ticks li cpty now ex"
    by (simp add: ex_def new_manual_def make_exec_def manual_trade_def)
  note N = new_trade_ok[OF inv s m q e x(1-3)]
  obtain cs st3 where cs: "app_sess cpty st2 = (cs, st3)" by fastforce
  note S = app_sess_ok[OF N(2) cs]
  have m3: "get_market st3 mid = Some ?m1" using N(3) S(8) by (simp add: get_market_def)
  obtain q2 st4 where q2: "app_posn cs ?m1 st3 = (q2, st4)" by fastforce
  define cx where "cx = exec_opposite (m_max_id m + 2) ex"
  let ?m2 = "?m1\<lparr>m_max_id := m_max_id ?m1 + 1\<rparr>"
  obtain e2 st5 where e2: "alloc_exec cx (put_market ?m2 st4) = (e2, st5)" by fastforce
  have y: "e_state cx = Trade" "r_market_id cx = mid" "r_id cx = m_max_id ?m1 + 1" "r_accnt cx = cpty"
    using x by (simp_all add: cx_def exec_opposite_def make_exec_def)
  note M = new_trade_ok[OF S(1) S(2) m3 q2 e2 y(1-3)]
  have e4: "a_execs st4 e = ex" using app_posn_ok(6)[OF S(1,2) q2] S(9) N(4) by simp
  have n4: "e < a_next_exec st4" using app_posn_ok(7)[OF S(1,2) q2] S(10) N(5) by simp
  have e5: "a_execs st5 e = ex" "e \<noteq> e2" "e < a_next_exec st5"
    using M(1,6) N(4,5) S(9,10) e4 by (auto simp: stage_def)
  have Q: "quiet st st5" using quiet_trans[OF quiet_trans[OF stage_quiet[OF N(1)] S(3)] stage_quiet[OF M(1)]] .
  have mq: "a_mq st5 = a_mq st" using stage_facts(2)[OF N(1)] S(4) stage_facts(2)[OF M(1)] by simp
  have e2': "alloc_exec (exec_opposite (2 + m_max_id m) ex) (put_market (m\<lparr>m_max_id := 2 + m_max_id m\<rparr>) st4) = (e2, st5)"
    using e2 by (simp add: cx_def add.commute)
  have run: "app_create_trade accnt mid ref sd lots ticks li cpty now st =
      obind (on_mq (mq_create_execs [ex, cx]) st5) (\<lambda>_ st.
        case book_trade cpty e2 q2 st of None \<Rightarrow> Undef | Some st \<Rightarrow>
          (case book_trade accnt e q st of None \<Rightarrow> Undef | Some st \<Rightarrow> Done (e, Some e2) st))"
    using e[unfolded ex_def] e2' c cs q2 e5 M(4) N(4) e4
    by (simp add: app_create_trade_def s m q alloc_id_def Let_def mid)
  have L5: "same_ledger st st5"
    using same_ledger_trans[OF same_ledger_trans[OF N(9) app_sess_ledger[OF N(2) cs]] M(9)] .
  have ring: "ring_ok (a_mq st5)" using app_inv_parts(5)[OF M(2)] .
  show "\<exists>st'. app_create_trade accnt mid ref sd lots ticks li cpty now st = Throw QueueFull st'
      \<and> app_inv local_jd st' \<and> quiet st st' \<and> same_ledger st st' \<and> a_mq st' = a_mq st" if "ring_reserve (a_mq st) < 2"
  proof -
    have "on_mq (mq_create_execs [ex, cx]) st5 = Throw QueueFull st5"
      using mq_create_execs_full[of "a_mq st5" "[ex, cx]"] that unfolding mq[symmetric] by (simp add: on_mq_def)
    then show ?thesis using mq run M(2) Q L5 by simp
  qed
  show "\<exists>st' t ct. app_create_trade accnt mid ref sd lots ticks li cpty now st = Done (t, Some ct) st'
      \<and> app_inv local_jd st' \<and> quiet st st' \<and> deal st' accnt cpty t (Some ct) \<and> ledger_dealt accnt t cpty (Some ct) st st'
      \<and> manual_trade accnt mid ref sd lots ticks li cpty now (a_execs st' t)
      \<and> ring_contents (a_mq st') = ring_contents (a_mq st) @ map exec_msg (deal_execs st' t (Some ct))"
    if room: "2 \<le> ring_reserve (a_mq st)"
  proof -
    have "length [ex, cx] \<le> ring_reserve (a_mq st5)" using room mq by simp
    then obtain r where r: "on_mq (mq_create_execs [ex, cx]) st5 = Done () (st5\<lparr>a_mq := r\<rparr>)" "ring_ok r"
        "ring_contents r = ring_contents (a_mq st5) @ map exec_msg [ex, cx]"
      by (rule on_mq_execs_room[OF ring])
    let ?st6 = "st5\<lparr>a_mq := r\<rparr>"
    note I = app_inv_mq[OF M(2) r(2)]
    have Q6: "quiet st5 ?st6" using I(2) by (simp add: quiet_def market_rel_refl same_own_def)
    obtain s6 where s6: "get_sess ?st6 cpty = Some s6" using M(8) by auto
    have b6: "e2 < a_next_exec ?st6" "r_accnt (a_execs ?st6 e2) = cpty" "trade_ok ?st6 e2"
      using M(4,5,7) y by (simp_all add: trade_ok_cong[of ?st6 st5])
    obtain st7 where st7: "book_trade cpty e2 q2 ?st6 = Some st7" "app_inv local_jd st7" "quiet ?st6 st7" "a_mq st7 = a_mq ?st6"
        "a_execs st7 = a_execs ?st6" "a_next_exec st7 = a_next_exec ?st6" "a_markets st7 = a_markets ?st6"
        "a_max_execs st7 = a_max_execs ?st6"
        "a_posns st7 = (a_posns ?st6)(q2 := add_trade (r_side (a_execs ?st6 e2)) (e_last_lots (a_execs ?st6 e2))
           (e_last_ticks (a_execs ?st6 e2)) (a_posns ?st6 q2))"
        "\<forall>b. get_sess st7 b = (if b = cpty then Some (booked (a_execs ?st6) e2 s6) else get_sess ?st6 b)"
      using book_trade_ok[OF I(1) s6 b6, of q2] by blast
    have Q7: "quiet st st7" using quiet_trans[OF quiet_trans[OF Q Q6] st7(3)] .
    obtain s7 where s7: "get_sess st7 accnt = Some s7" using quiet_sess[OF Q7 s] by blast
    have "trade_ok st2 e" using N(7) .
    then have "trade_ok st5 e"
      using M(3) e5(1) N(4) x by (simp add: trade_ok_def)
    then have b7: "e < a_next_exec st7" "r_accnt (a_execs st7 e) = accnt" "trade_ok st7 e"
      using st7(5-7) e5 x by (simp_all add: trade_ok_cong[of st7 st5])
    obtain st8 where st8: "book_trade accnt e q st7 = Some st8" "app_inv local_jd st8" "quiet st7 st8" "a_mq st8 = a_mq st7"
        "a_execs st8 = a_execs st7" "a_max_execs st8 = a_max_execs st7"
        "a_posns st8 = (a_posns st7)(q := add_trade (r_side (a_execs st7 e)) (e_last_lots (a_execs st7 e))
           (e_last_ticks (a_execs st7 e)) (a_posns st7 q))"
        "\<forall>b. get_sess st8 b = (if b = accnt then Some (booked (a_execs st7) e s7) else get_sess st7 b)"
      using book_trade_ok[OF st7(2) s7 b7, of q] by blast
    have Q8: "quiet st st8" using quiet_trans[OF Q7 st8(3)] .
    have fresh: "fresh_id ?st6 a (mid, i)" if "m_max_id m < i" for a i
      using fresh_stage[OF M(1) S(1) fresh_sess[OF N(2) cs fresh_stage[OF N(1) inv fresh_new[OF inv m that]]]]
      by (simp add: fresh_id_def)
    have k: "request_key (a_execs ?st6 e) = (mid, m_max_id m + 1)" "request_key (a_execs ?st6 e2) = (mid, m_max_id m + 2)"
      using e5(1) M(4) x y by (simp_all add: request_key_def)
    have "trade_booked st7 cpty e2"
      by (rule book_booked[OF I(1) s6 _ st7(5,10)]) (use fresh k in simp)
    then have t2: "trade_booked st8 cpty e2" by (rule booked_stays[OF st7(2) s7 _ st8(5,8)])
    have "fresh_id st7 accnt (mid, m_max_id m + 1)"
      by (rule fresh_book[OF I(1) s6 fresh _ st7(5,10)]) (use k in simp_all)
    then have F1: "fresh_id st7 accnt (request_key (a_execs st7 e))" using k(1) st7(5) by simp
    then have t1: "trade_booked st8 accnt e" by (rule book_booked[OF st7(2) s7 _ st8(5,8)])
    have mk: "r_market_id (a_execs ?st6 e2) = m_id ?m1" "r_market_id (a_execs st7 e) = m_id m"
      using M(4) e5(1) x y mid st7(5) by simp_all
    have at2: "posn_at ?st6 cpty (r_market_id (a_execs ?st6 e2)) q2"
      unfolding mk by (rule posn_at_frame[OF _ _ M(10)]) simp_all
    have "posn_at st5 accnt (m_id m) q" by (rule M(11)[OF posn_at_sess[OF cs N(2) N(10)]])
    then have "posn_at ?st6 accnt (m_id m) q" by (rule posn_at_frame[rotated 2]) simp_all
    then have at: "posn_at st7 accnt (r_market_id (a_execs st7 e)) q"
      unfolding mk by (rule posn_at_book[OF _ s6 st7(9,10)])
    have f2: "fresh_id ?st6 cpty (request_key (a_execs ?st6 e2))" unfolding k(2) by (rule fresh) simp
    have "ledger_booked cpty e2 (a_execs ?st6 e2) ?st6 st7"
      by (rule book_trade_ledger[OF I(1) s6 at2 b6(2) f2 st7(9,8,10)])
    moreover have "same_ledger st ?st6" by (rule same_ledger_trans[OF L5 same_ledger_frame]) simp_all
    ultimately have l7: "ledger_booked cpty e2 (a_execs st8 e2) st st7"
      using st7(5) st8(5) by (auto intro: ledger_booked_same)
    have "ledger_booked accnt e (a_execs st8 e) st7 st8"
      using book_trade_ledger[OF st7(2) s7 at b7(2) F1 st8(7,6,8)] st8(5) by simp
    with l7 have L8: "ledger_dealt accnt e cpty (Some e2) st st8" by (rule ledger_dealt_pair)
    have E: "a_execs st8 e = ex" "a_execs st8 e2 = cx" using e5(1) M(4) st7(5) st8(5) by simp_all
    have "deal st8 accnt cpty e (Some e2)"
      unfolding deal_def using t1 t2 c E x y by (simp add: cx_def add.commute)
    then show ?thesis
      using run r(1,3) st7(1,4) st8(1,2,4) Q8 man E mq L8
      by (intro exI[of _ st8] exI[of _ e] exI[of _ e2]) (simp add: deal_execs_def)
  qed
qed

section \<open>Archiving\<close>

text \<open>What archiving leaves alone beside orders and books: all but the trades of one account.\<close>

definition only_trades :: "symbol \<Rightarrow> app \<Rightarrow> app \<Rightarrow> bool" where
  "only_trades a st st' \<longleftrightarrow> a_execs st' = a_execs st \<and> execs_of st' = execs_of st \<and> posn_of st' = posn_of st
     \<and> (\<forall>b. b \<noteq> a \<longrightarrow> trades_of st' b = trades_of st b)"

lemma only_trades_refl: "only_trades a st st"
  by (simp add: only_trades_def)

lemma only_trades_trans: "only_trades a st1 st2 \<Longrightarrow> only_trades a st2 st3 \<Longrightarrow> only_trades a st1 st3"
  by (simp add: only_trades_def)

lemma only_trades_mq: "only_trades a st (st\<lparr>a_mq := q\<rparr>)"
  using same_ledger_frame[of "st\<lparr>a_mq := q\<rparr>" st] by (simp add: only_trades_def same_ledger_def)

text \<open>A session without one of its trades.\<close>

lemma remove_trade_ok:
  assumes inv: "app_inv local_jd st" and s: "get_sess st a = Some s" and t: "t \<in> set (s_trades s)"
  defines "st' \<equiv> put_sess (remove_trade (a_execs st) t s) st"
  shows "app_inv local_jd st'" and "quiet st st'" and "a_mq st' = a_mq st" and "a_execs st' = a_execs st"
    and "get_sess st' b = (if b = a then Some (remove_trade (a_execs st) t s) else get_sess st b)"
    and "set (s_trades (remove_trade (a_execs st) t s)) = set (s_trades s) - {t}"
    and "only_trades a st st'"
proof -
  note parts = app_inv_parts[OF inv]
  have acc: "s_accnt s = a" using own_id[OF parts(2) s] .
  have ok: "exec_ok st s" using sess_exec_ok[OF inv s] .
  have f: "a_orders st' = a_orders st" "a_next_order st' = a_next_order st" "a_markets st' = a_markets st"
    "a_mq st' = a_mq st" "a_execs st' = a_execs st" "a_next_exec st' = a_next_exec st" "a_next_posn st' = a_next_posn st"
    "a_bus_day st' = a_bus_day st" "a_posns st' = a_posns st"
    by (simp_all add: st'_def)
  show get: "get_sess st' b = (if b = a then Some (remove_trade (a_execs st) t s) else get_sess st b)" for b
    using s acc parts(8) by (auto simp: st'_def get_sess_put_sess remove_trade_def)
  have rel: "sess_rel R st st'" if "\<And>s. R s s" "R s (remove_trade (a_execs st) t s)" for R
    using that s by (auto simp: sess_rel_def get split: option.split)
  have lv: "live st' = live st" by (rule ext) (rule live_cong[OF f(3)])
  show set: "set (s_trades (remove_trade (a_execs st) t s)) = set (s_trades s) - {t}"
    using ok t set_ok_inj[of "exec_id_key (a_execs st)" "s_trades s" _ t]
    by (auto simp: remove_trade_def set_set_remove exec_ok_def)
  have own: "sess_rel same_own st st'" by (rule rel) (simp_all add: same_own_def remove_trade_def)
  have "book_inv st'"
    by (rule book_inv_frame[OF parts(1) _ market_rel_refl[OF f(3)]]) (use parts(7) f in simp_all)
  moreover have "own_inv st'"
    by (rule own_inv_frame[OF parts(2) _ own lv]) (use parts(8) f in \<open>simp_all add: st'_def\<close>)
  moreover have "exec_ok st (remove_trade (a_execs st) t s)"
    using ok set unfolding exec_ok_def by (auto simp: remove_trade_def set_ok_remove)
  then have "exec_inv st'" unfolding st'_def by (rule exec_inv_put[OF parts(3,8)])
  moreover have "posn_inv st'"
    by (rule posn_inv_frame[OF parts(4) rel]) (simp_all add: same_posn_def f remove_trade_def)
  ultimately show "app_inv local_jd st'" using parts f by (simp add: app_inv_def)
  show "quiet st st'"
    unfolding quiet_def using sess_relE[OF own] by (simp add: f lv market_rel_refl)
  show "a_mq st' = a_mq st" "a_execs st' = a_execs st" by (rule f)+
  have "execs_of st' b = execs_of st b" "posn_of st' b k = posn_of st b k" for b k
    using s by (simp_all add: execs_of_def posn_of_def get f remove_trade_def split: option.split)
  moreover have "trades_of st' b = trades_of st b" if "b \<noteq> a" for b using that by (simp add: trades_of_def get)
  ultimately show "only_trades a st st'" by (simp add: only_trades_def f fun_eq_iff)
qed

lemma on_mq_archive_cases:
  assumes "ring_ok (a_mq st)"
  shows "ring_reserve (a_mq st) < length (chunks ids) \<Longrightarrow> on_mq (mq_archive_trades mid ids now) st = Throw QueueFull st"
    and "length (chunks ids) \<le> ring_reserve (a_mq st) \<Longrightarrow>
      \<exists>q. on_mq (mq_archive_trades mid ids now) st = Done () (st\<lparr>a_mq := q\<rparr>) \<and> ring_ok q
       \<and> ring_contents q = ring_contents (a_mq st) @ map (\<lambda>c. archive_msg mid c now) (chunks ids)"
proof -
  show "on_mq (mq_archive_trades mid ids now) st = Throw QueueFull st" if "ring_reserve (a_mq st) < length (chunks ids)"
    using mq_archive_trades_full[OF assms that[unfolded length_chunks]] by (simp add: on_mq_def)
  show "\<exists>q. on_mq (mq_archive_trades mid ids now) st = Done () (st\<lparr>a_mq := q\<rparr>) \<and> ring_ok q
       \<and> ring_contents q = ring_contents (a_mq st) @ map (\<lambda>c. archive_msg mid c now) (chunks ids)"
    if r: "length (chunks ids) \<le> ring_reserve (a_mq st)"
  proof -
    obtain q where "mq_archive_trades mid ids now (a_mq st) = Done () q" "ring_ok q"
        "ring_contents q = ring_contents (a_mq st) @ map (\<lambda>c. archive_msg mid c now) (chunks ids)"
      using mq_archive_trades_ok[OF assms r[unfolded length_chunks]] by blast
    then show ?thesis by (intro exI[of _ q]) (simp add: on_mq_def)
  qed
qed

lemma sess_trade_Some:
  assumes "app_inv local_jd st" and "get_sess st a = Some s"
  shows "sess_trade (a_execs st) mid tid s = Some t \<longleftrightarrow>
    t \<in> set (s_trades s) \<and> r_market_id (a_execs st t) = mid \<and> r_id (a_execs st t) = tid"
  using sess_exec_ok[OF assms] by (auto simp: exec_ok_def sess_trade_def set_find_Some_iff exec_id_key_def request_key_def)

lemma archive_commit_missing:
  assumes "app_inv local_jd st" and "get_sess st a = Some s" and "tid \<in> set ids" and "sess_trade (a_execs st) mid tid s = None"
  shows "archive_commit a mid ids st = None"
  using assms
proof (induction ids arbitrary: st s)
  case (Cons i ids)
  note inv = Cons.prems(1) and s = Cons.prems(2)
  show ?case
  proof (cases "sess_trade (a_execs st) mid i s")
    case (Some t)
    note T = Some[unfolded sess_trade_Some[OF inv s]]
    note R = remove_trade_ok[OF inv s conjunct1[OF T]]
    have s1: "get_sess (put_sess (remove_trade (a_execs st) t s) st) a = Some (remove_trade (a_execs st) t s)" using R(5)[of a] by simp
    have "sess_trade (a_execs (put_sess (remove_trade (a_execs st) t s) st)) mid tid (remove_trade (a_execs st) t s) = None"
    proof (rule ccontr)
      assume "sess_trade (a_execs (put_sess (remove_trade (a_execs st) t s) st)) mid tid (remove_trade (a_execs st) t s) \<noteq> None"
      then obtain u where "u \<in> set (s_trades s)" "r_market_id (a_execs st u) = mid" "r_id (a_execs st u) = tid"
        using R(4,6) sess_trade_Some[OF R(1) s1] by auto
      then have "sess_trade (a_execs st) mid tid s = Some u" using sess_trade_Some[OF inv s] by simp
      then show False using Cons.prems(4) by simp
    qed
    moreover have "tid \<in> set ids" using Cons.prems(3,4) Some by auto
    ultimately show ?thesis using Cons.IH[OF R(1) s1] s Some by simp
  qed (use s in simp)
qed simp

lemma archive_commit_ok:
  assumes "app_inv local_jd st" and "get_sess st a = Some s" and "distinct ids"
    and "\<forall>tid\<in>set ids. sess_trade (a_execs st) mid tid s \<noteq> None"
  shows "\<exists>st' s'. archive_commit a mid ids st = Some st' \<and> app_inv local_jd st' \<and> quiet st st' \<and> a_mq st' = a_mq st
    \<and> a_execs st' = a_execs st \<and> only_trades a st st' \<and> get_sess st' a = Some s'
    \<and> set (s_trades s') = {t \<in> set (s_trades s). \<not> (r_market_id (a_execs st t) = mid \<and> r_id (a_execs st t) \<in> set ids)}"
  using assms
proof (induction ids arbitrary: st s)
  case Nil
  then show ?case by (auto simp: quiet_refl only_trades_refl)
next
  case (Cons tid ids)
  note inv = Cons.prems(1) and s = Cons.prems(2)
  obtain t where t: "sess_trade (a_execs st) mid tid s = Some t" using Cons.prems(4) by auto
  note T = t[unfolded sess_trade_Some[OF inv s]]
  let ?s = "remove_trade (a_execs st) t s" and ?st = "put_sess (remove_trade (a_execs st) t s) st"
  note R = remove_trade_ok[OF inv s conjunct1[OF T]]
  have s1: "get_sess ?st a = Some ?s" using R(5)[of a] by simp
  have all: "\<forall>tid\<in>set ids. sess_trade (a_execs ?st) mid tid ?s \<noteq> None"
  proof
    fix i assume i: "i \<in> set ids"
    then obtain u where u: "sess_trade (a_execs st) mid i s = Some u" using Cons.prems(4) by auto
    note U = u[unfolded sess_trade_Some[OF inv s]]
    have "u \<noteq> t" using T U i Cons.prems(3) by auto
    then have "sess_trade (a_execs ?st) mid i ?s = Some u"
      using U R(4,6) sess_trade_Some[OF R(1) s1] by simp
    then show "sess_trade (a_execs ?st) mid i ?s \<noteq> None" by simp
  qed
  obtain st' s' where st': "archive_commit a mid ids ?st = Some st'" "app_inv local_jd st'" "quiet ?st st'" "a_mq st' = a_mq ?st"
      "a_execs st' = a_execs ?st" "get_sess st' a = Some s'" "only_trades a ?st st'"
      "set (s_trades s') = {t \<in> set (s_trades ?s). \<not> (r_market_id (a_execs ?st t) = mid \<and> r_id (a_execs ?st t) \<in> set ids)}"
    using Cons.IH[OF R(1) s1 _ all] Cons.prems(3) by auto
  have uniq: "u = t" if "u \<in> set (s_trades s)" "r_market_id (a_execs st u) = mid" "r_id (a_execs st u) = tid" for u
    using iffD2[OF sess_trade_Some[OF inv s, of mid tid u]] that t by simp
  have "set (s_trades s') = {u \<in> set (s_trades s). \<not> (r_market_id (a_execs st u) = mid \<and> r_id (a_execs st u) \<in> set (tid # ids))}"
    unfolding st'(8) R(6) R(4) using uniq T by auto
  then show ?case using st'(1-6) R(3,4) t s quiet_trans[OF R(2) st'(3)] only_trades_trans[OF R(7) st'(7)] by simp
qed

lemma archive_commit_twice:
  assumes "app_inv local_jd st" and "get_sess st a = Some s" and "\<not> distinct ids"
  shows "archive_commit a mid ids st = None"
  using assms
proof (induction ids arbitrary: st s)
  case (Cons tid ids)
  note inv = Cons.prems(1) and s = Cons.prems(2)
  show ?case
  proof (cases "sess_trade (a_execs st) mid tid s")
    case (Some t)
    note T = Some[unfolded sess_trade_Some[OF inv s]]
    let ?s = "remove_trade (a_execs st) t s" and ?st = "put_sess (remove_trade (a_execs st) t s) st"
    note R = remove_trade_ok[OF inv s conjunct1[OF T]]
    have s1: "get_sess ?st a = Some ?s" using R(5)[of a] by simp
    have "archive_commit a mid ids ?st = None"
    proof (cases "distinct ids")
      case False
      then show ?thesis by (rule Cons.IH[OF R(1) s1])
    next
      case True
      then have "tid \<in> set ids" using Cons.prems(3) by simp
      moreover have "sess_trade (a_execs ?st) mid tid ?s = None"
      proof (rule ccontr)
        assume "sess_trade (a_execs ?st) mid tid ?s \<noteq> None"
        then obtain u where "u \<in> set (s_trades s)" "u \<noteq> t" "r_market_id (a_execs st u) = mid" "r_id (a_execs st u) = tid"
          using R(4,6) sess_trade_Some[OF R(1) s1] by auto
        moreover from this have "sess_trade (a_execs st) mid tid s = Some u" using sess_trade_Some[OF inv s] by simp
        ultimately show False using Some by simp
      qed
      ultimately show ?thesis by (rule archive_commit_missing[OF R(1) s1])
    qed
    then show ?thesis using s Some by simp
  qed (use s in simp)
qed simp

text \<open>Any list of identifiers, with a repetition or not.\<close>

lemma quiet_mq: "quiet st (st\<lparr>a_mq := q\<rparr>)"
  using live_cong[of "st\<lparr>a_mq := q\<rparr>" st] by (auto simp: quiet_def market_rel_refl same_own_def fun_eq_iff)

lemma archive_trade_ids_cases:
  assumes inv: "app_inv local_jd st" and s: "get_sess st a = Some s"
  shows "\<exists>tid\<in>set ids. sess_trade (a_execs st) mid tid s = None \<Longrightarrow> archive_trade_ids a mid ids now st = Throw NotFound st"
    and "\<forall>tid\<in>set ids. sess_trade (a_execs st) mid tid s \<noteq> None \<Longrightarrow> ring_reserve (a_mq st) < length (chunks ids) \<Longrightarrow>
      archive_trade_ids a mid ids now st = Throw QueueFull st"
    and "\<forall>tid\<in>set ids. sess_trade (a_execs st) mid tid s \<noteq> None \<Longrightarrow> length (chunks ids) \<le> ring_reserve (a_mq st) \<Longrightarrow> \<not> distinct ids \<Longrightarrow>
      archive_trade_ids a mid ids now st = Undef"
    and "\<forall>tid\<in>set ids. sess_trade (a_execs st) mid tid s \<noteq> None \<Longrightarrow> length (chunks ids) \<le> ring_reserve (a_mq st) \<Longrightarrow> distinct ids \<Longrightarrow>
      \<exists>st' s'. archive_trade_ids a mid ids now st = Done () st' \<and> app_inv local_jd st' \<and> quiet st st' \<and> only_trades a st st'
         \<and> ring_contents (a_mq st') = ring_contents (a_mq st) @ map (\<lambda>c. archive_msg mid c now) (chunks ids)
         \<and> get_sess st' a = Some s'
         \<and> set (s_trades s') = {t \<in> set (s_trades s). \<not> (r_market_id (a_execs st t) = mid \<and> r_id (a_execs st t) \<in> set ids)}"
proof -
  show "archive_trade_ids a mid ids now st = Throw NotFound st" if "\<exists>tid\<in>set ids. sess_trade (a_execs st) mid tid s = None"
    using that s by (simp add: archive_trade_ids_def)
  assume all: "\<forall>tid\<in>set ids. sess_trade (a_execs st) mid tid s \<noteq> None"
  then have run: "archive_trade_ids a mid ids now st = obind (on_mq (mq_archive_trades mid ids now) st) (\<lambda>_ st.
       case archive_commit a mid ids st of None \<Rightarrow> Undef | Some st \<Rightarrow> Done () st)"
    using s by (auto simp: archive_trade_ids_def)
  note Q = on_mq_archive_cases[OF app_inv_parts(5)[OF inv], of ids mid now]
  show "archive_trade_ids a mid ids now st = Throw QueueFull st" if "ring_reserve (a_mq st) < length (chunks ids)"
    using Q(1)[OF that] by (simp add: run)
  assume room: "length (chunks ids) \<le> ring_reserve (a_mq st)"
  obtain q where q: "on_mq (mq_archive_trades mid ids now) st = Done () (st\<lparr>a_mq := q\<rparr>)" "ring_ok q"
      "ring_contents q = ring_contents (a_mq st) @ map (\<lambda>c. archive_msg mid c now) (chunks ids)"
    using Q(2)[OF room] by blast
  have s1: "get_sess (st\<lparr>a_mq := q\<rparr>) a = Some s" using s by simp
  show "archive_trade_ids a mid ids now st = Undef" if "\<not> distinct ids"
    using archive_commit_twice[OF app_inv_mq(1)[OF inv q(2)] s1 that, of mid] by (simp add: run q(1))
  show "\<exists>st' s'. archive_trade_ids a mid ids now st = Done () st' \<and> app_inv local_jd st' \<and> quiet st st' \<and> only_trades a st st'
         \<and> ring_contents (a_mq st') = ring_contents (a_mq st) @ map (\<lambda>c. archive_msg mid c now) (chunks ids)
         \<and> get_sess st' a = Some s'
         \<and> set (s_trades s') = {t \<in> set (s_trades s). \<not> (r_market_id (a_execs st t) = mid \<and> r_id (a_execs st t) \<in> set ids)}"
    if dist: "distinct ids"
  proof -
    obtain st' s' where st': "archive_commit a mid ids (st\<lparr>a_mq := q\<rparr>) = Some st'" "app_inv local_jd st'"
        "quiet (st\<lparr>a_mq := q\<rparr>) st'" "a_mq st' = q" "get_sess st' a = Some s'" "only_trades a (st\<lparr>a_mq := q\<rparr>) st'"
        "set (s_trades s') = {t \<in> set (s_trades s). \<not> (r_market_id (a_execs st t) = mid \<and> r_id (a_execs st t) \<in> set ids)}"
      using archive_commit_ok[OF app_inv_mq(1)[OF inv q(2)] s1 dist, of mid] all by auto
    then show ?thesis
      using q(1,3) quiet_trans[OF quiet_mq st'(3)] only_trades_trans[OF only_trades_mq st'(6)] by (simp add: run)
  qed
qed

text \<open>One trade, by reference or by identifier.\<close>

lemma do_archive_trade_cases:
  assumes inv: "app_inv local_jd st" and s: "get_sess st a = Some s" and t: "t \<in> set (s_trades s)"
  shows "do_archive_trade a t now st = Throw QueueFull st \<or>
    (\<exists>st' s'. do_archive_trade a t now st = Done () st' \<and> app_inv local_jd st' \<and> quiet st st'
       \<and> ring_contents (a_mq st') = ring_contents (a_mq st) @ [archive_msg (r_market_id (a_execs st t)) [r_id (a_execs st t)] now]
       \<and> get_sess st' a = Some s' \<and> set (s_trades s') = set (s_trades s) - {t})"
proof -
  let ?msg = "archive_msg (r_market_id (a_execs st t)) [r_id (a_execs st t)] now"
  note ring = app_inv_parts(5)[OF inv]
  show ?thesis
  proof (cases "ring_reserve (a_mq st) = 0")
    case True
    then show ?thesis using rq.send_full[OF ring, of ?msg]
      by (simp add: do_archive_trade_def Let_def on_mq_def mq_archive_trade_def mq_do_archive_trade_def)
  next
    case False
    then obtain q where q: "send ring_post ?msg (a_mq st) = Done () q" "ring_ok q" "ring_contents q = ring_contents (a_mq st) @ [?msg]"
      using rq.send_room[OF ring, of ?msg] by auto
    have s1: "get_sess (st\<lparr>a_mq := q\<rparr>) a = Some s" using s by simp
    note R = remove_trade_ok[OF app_inv_mq(1)[OF inv q(2)] s1 t]
    show ?thesis
      using q(1,3) s R quiet_trans[OF quiet_mq R(2)]
      by (simp add: do_archive_trade_def Let_def on_mq_def mq_archive_trade_def mq_do_archive_trade_def)
  qed
qed

end
