(* ===== verification/App_Cross.thy ===== *)
theory App_Cross
  imports App_Batch App_Trade
begin

text \<open>
  No market is left crossed: of two live orders of a market, one to buy and one to sell, the price
  to buy is below the price to sell. A call that adds no order cannot break this
  (\<open>uncrossed_shrink\<close>), and an order only enters the book when it has matched everything that
  crosses it (\<open>created_uncrossed\<close>).
\<close>

definition uncrossed :: "app \<Rightarrow> bool" where
  "uncrossed st \<longleftrightarrow> (\<forall>x y. live st x \<longrightarrow> live st y \<longrightarrow> r_market_id (a_orders st x) = r_market_id (a_orders st y) \<longrightarrow>
     r_side (a_orders st x) = Buy \<longrightarrow> r_side (a_orders st y) = Sell \<longrightarrow> o_ticks (a_orders st x) < o_ticks (a_orders st y))"

text \<open>What an order keeps as long as it is in the book.\<close>

definition same_terms :: "order \<Rightarrow> order \<Rightarrow> bool" where
  "same_terms a b \<longleftrightarrow> r_market_id b = r_market_id a \<and> r_side b = r_side a \<and> o_ticks b = o_ticks a"

definition shrinks :: "app \<Rightarrow> app \<Rightarrow> bool" where
  "shrinks st st' \<longleftrightarrow> (\<forall>x. live st' x \<longrightarrow> live st x \<and> same_terms (a_orders st x) (a_orders st' x))"

lemma uncrossed_shrink: "shrinks st st' \<Longrightarrow> uncrossed st \<Longrightarrow> uncrossed st'"
  unfolding uncrossed_def shrinks_def same_terms_def by metis

lemma same_terms_refl [simp]: "same_terms a a"
  by (simp add: same_terms_def)

lemma shrinks_refl: "shrinks st st"
  by (simp add: shrinks_def)

lemma shrinks_same: "live st' = live st \<Longrightarrow> (\<And>x. live st x \<Longrightarrow> a_orders st' x = a_orders st x) \<Longrightarrow> shrinks st st'"
  by (simp add: shrinks_def)

lemma shrinks_stage: "stage st st' \<Longrightarrow> shrinks st st'"
  by (rule shrinks_same) (simp_all add: stage_facts)

lemma shrinks_quiet: "quiet st st' \<Longrightarrow> shrinks st st'"
  by (rule shrinks_same) (simp_all add: quiet_def)

lemma shrinks_market: "market_rel st st' \<Longrightarrow> a_orders st' = a_orders st \<Longrightarrow> shrinks st st'"
  by (rule shrinks_same) (simp_all add: market_rel_live)

lemma updated_terms [simp]:
  "same_terms ord (revised_order lots now ord)" "same_terms ord (cancelled_order now ord)" "same_terms ord (taken_order n now ord)"
  "same_terms ord (filled_order now fs p ord)" "same_terms ord (set_level l ord)"
  by (simp_all add: same_terms_def revised_order_def cancelled_order_def taken_order_def order_defs filled_order_def set_level_def
      split: option.split)

lemma shrinks_updated:
  "order_updated mid p ord gone ex st st' \<Longrightarrow> same_terms (a_orders st p) ord \<Longrightarrow> shrinks st st'"
  by (simp add: shrinks_def order_updated_def)

lemma shrinks_batch:
  "batch_done k accnt mid ids f gone st st' \<Longrightarrow> (\<And>ord. same_terms ord (f ord)) \<Longrightarrow> shrinks st st'"
  by (simp add: shrinks_def batch_done_def)

section \<open>An order that enters the book\<close>

text \<open>On the side it matches, the distance of an order to the incoming one is its key, up to a constant.\<close>

lemma spread_key:
  assumes inv: "market_inv h m" and "p \<in> set (ms_orders (fst (match_side ord m)))"
  shows "spread ord (h p) (snd (match_side ord m)) = okey h p - (if r_side ord = Buy then o_ticks ord else - o_ticks ord)"
proof -
  have "listed_ok (if r_side ord = Buy then Sell else Buy) h p"
    using assms by (auto simp: match_side_def market_inv_def side_inv_def orders_ok_def split: if_splits)
  then show ?thesis by (auto simp: match_side_def spread_def okey_def listed_ok_def compose_key_def split: if_splits)
qed

lemma match_side_sorted: "market_inv h m \<Longrightarrow> sorted (map (okey h) (ms_orders (fst (match_side ord m))))"
  by (auto simp: match_side_def market_inv_def side_inv_def orders_ok_def)

text \<open>With lots left over, what is still open on the other side does not cross.\<close>

lemma leftover_apart:
  assumes inv: "market_inv h m" and rem: "0 \<le> o_resd_lots ord" and left: "fill_lots (match_fills h m ord) < o_resd_lots ord"
    and y: "y \<in> set (ms_orders (fst (match_side ord m)))" "still_open h (match_fills h m ord) y"
  shows "0 < spread ord (h y) (snd (match_side ord m))"
proof -
  let ?ps = "ms_orders (fst (match_side ord m))" and ?d = "snd (match_side ord m)"
  let ?P = "\<lambda>p. spread ord (h p) ?d \<le> 0"
  have fs: "match_fills h m ord = map (\<lambda>p. (p, o_resd_lots (h p))) (takeWhile ?P ?ps)"
    using left unfolding match_fills_eq by (intro fills_maximal[OF rem]) (use match_side_open[OF inv] in auto)
  have "y \<notin> set (takeWhile ?P ?ps)"
  proof
    assume "y \<in> set (takeWhile ?P ?ps)"
    then have "map_of (match_fills h m ord) y = Some (o_resd_lots (h y))"
      unfolding fs by (simp add: map_of_map_restrict)
    with y(2) show False by (simp add: still_open_def)
  qed
  then have "y \<in> set (dropWhile ?P ?ps)" using y(1) by (metis Un_iff set_append takeWhile_dropWhile_id)
  then obtain z zs where z: "dropWhile ?P ?ps = z # zs" by (cases "dropWhile ?P ?ps") auto
  have "\<not> ?P z" using hd_dropWhile[of ?P ?ps] z by simp
  moreover have mem: "z \<in> set ?ps" using z set_dropWhileD[of z ?P ?ps] by simp
  moreover have "sorted (map (okey h) (dropWhile ?P ?ps))"
    using match_side_sorted[OF inv, of ord] sorted_append[of "map (okey h) (takeWhile ?P ?ps)" "map (okey h) (dropWhile ?P ?ps)"]
    by (simp flip: map_append)
  then have "okey h z \<le> okey h y" using \<open>y \<in> set (dropWhile ?P ?ps)\<close> unfolding z by auto
  ultimately show ?thesis using spread_key[OF inv mem] spread_key[OF inv y(1)] by linarith
qed

lemma created_uncrossed:
  assumes inv: "app_inv local_jd st" and m: "get_market st mid = Some m" and un: "uncrossed st"
    and sd: "r_side ord = Buy \<or> r_side ord = Sell" and pos: "0 \<le> o_resd_lots ord" and lots: "o_resd_lots ord = lots"
    and fs: "fs = match_fills (a_orders st) m ord" and p: "\<not> live st p" and mid: "r_market_id ord = mid"
    and heap: "\<And>y. y \<noteq> p \<Longrightarrow> same_terms (a_orders st y) (a_orders st' y)" and new: "same_terms ord (a_orders st' p)"
    and live: "\<And>y. live st' y \<longleftrightarrow> live st y \<and> still_open (a_orders st) fs y \<or> y = p \<and> fill_lots fs < lots"
  shows "uncrossed st'"
proof -
  let ?h = "a_orders st" and ?h' = "a_orders st'"
  note mi = book_market[OF app_inv_parts(1)[OF inv] m]
  have old: "live st y \<and> still_open ?h fs y \<and> same_terms (?h y) (?h' y)" if "live st' y" "y \<noteq> p" for y
    using that live heap by auto
  have gap: "0 < spread ord (?h y) (snd (match_side ord m))"
    if y: "live st' y" "y \<noteq> p" "live st' p" "r_market_id (?h' y) = mid" "r_side (?h' y) = opposite_side (r_side ord)" for y
  proof -
    have o: "live st y" "still_open ?h fs y" "same_terms (?h y) (?h' y)" using old[OF y(1,2)] by simp_all
    have left: "fill_lots fs < lots" using live[of p] y(3) p by simp
    have "y \<in> listed m" using live_in_market[OF app_inv_parts(1)[OF inv] m, of y] o y(4) by (simp add: same_terms_def)
    moreover have "r_side (?h y) = opposite_side (r_side ord)" using o y(5) by (simp add: same_terms_def)
    ultimately have "y \<in> set (ms_orders (fst (match_side ord m)))"
      using mi sd by (auto simp: listed_def match_side_def market_inv_def side_inv_def orders_ok_def listed_ok_def)
    then show ?thesis using leftover_apart[OF mi pos] left o(2) unfolding fs lots by blast
  qed
  show ?thesis
    unfolding uncrossed_def
  proof (intro allI impI)
    fix x y
    assume l: "live st' x" "live st' y" and mk: "r_market_id (?h' x) = r_market_id (?h' y)"
      and xs: "r_side (?h' x) = Buy" and ys: "r_side (?h' y) = Sell"
    have pt: "r_market_id (?h' p) = mid" "r_side (?h' p) = r_side ord" "o_ticks (?h' p) = o_ticks ord"
      using new mid by (simp_all add: same_terms_def)
    consider "x \<noteq> p" "y \<noteq> p" | "x = p" "y \<noteq> p" | "x \<noteq> p" "y = p" using xs ys by (cases "x = p"; cases "y = p") auto
    then show "o_ticks (?h' x) < o_ticks (?h' y)"
    proof cases
      case 1
      then show ?thesis using old[OF l(1)] old[OF l(2)] un mk xs ys unfolding uncrossed_def same_terms_def by metis
    next
      case 2
      then have "0 < spread ord (?h y) (snd (match_side ord m))" using gap[of y] l mk xs ys pt by auto
      then show ?thesis using 2 old[OF l(2)] pt xs by (auto simp: spread_def match_side_def same_terms_def split: if_splits)
    next
      case 3
      then have "0 < spread ord (?h x) (snd (match_side ord m))" using gap[of x] l mk xs ys pt by auto
      then show ?thesis using 3 old[OF l(1)] pt ys by (auto simp: spread_def match_side_def same_terms_def split: if_splits)
    qed
  qed
qed

text \<open>The three outcomes of a creation that passes the checks.\<close>

lemma create_order_uncrossed:
  assumes inv: "app_inv local_jd st" and s: "get_sess st accnt = Some s" and m: "get_market st mid = Some m"
    and sd: "sd = Buy \<or> sd = Sell" and lots: "0 < lots" "min_lots \<le> lots"
    and guards: "\<not> ref_taken st s ref" "\<not> closed local_jd st m now" and un: "uncrossed st"
  shows "\<exists>st' resp'. (app_create_order local_jd accnt mid ref sd lots ticks min_lots now (st, resp) = Throw QueueFull (st', resp')
      \<or> app_create_order local_jd accnt mid ref sd lots ticks min_lots now (st, resp) = Done () (st', resp'))
      \<and> app_inv local_jd st' \<and> uncrossed st'"
proof -
  define ord where "ord = created_order s m ref sd lots ticks min_lots now"
  define p where "p = a_next_order st"
  define fs where "fs = match_fills (a_orders st) m ord"
  have np: "\<not> live st p" using live_order_ok(2)[OF app_inv_parts(1)[OF inv], of p] by (auto simp: p_def)
  have mid: "m_id m = mid" using book_id[OF app_inv_parts(1)[OF inv] m] .
  note R = app_create_order_run[where ticks = ticks and resp = resp and now = now and ref = ref,
    OF inv s m sd lots guards ord_def fs_def refl p_def]
  show ?thesis
  proof (cases "ring_reserve (a_mq st) < 1 + 2 * length fs")
    case True
    from R(1)[OF this] obtain st' resp' where
      r: "app_create_order local_jd accnt mid ref sd lots ticks min_lots now (st, resp) = Throw QueueFull (st', resp')"
        "app_inv local_jd st'" "market_rel st st'" "\<forall>y. y \<noteq> p \<longrightarrow> a_orders st' y = a_orders st y"
      by (elim exE conjE)
    have "a_orders st' y = a_orders st y" if "live st y" for y
      using r(4) that np by metis
    then have "shrinks st st'" by (rule shrinks_same[OF market_rel_live[OF r(3)]])
    from uncrossed_shrink[OF this un] r(1,2) show ?thesis by (intro exI conjI disjI1)
  next
    case False
    then have room: "1 + 2 * length fs \<le> ring_reserve (a_mq st)" by simp
    from R(2)[OF room] obtain st' resp' where
      r: "app_create_order local_jd accnt mid ref sd lots ticks min_lots now (st, resp) = Done () (st', resp')"
        "app_inv local_jd st'" "\<forall>y. y \<noteq> p \<longrightarrow> a_orders st' y = filled_order now fs y (a_orders st y)"
        "a_orders st' p = (if order_done (traded now (a_orders st) fs ord) then traded now (a_orders st) fs ord
           else set_level (Some (compose_key sd ticks)) (traded now (a_orders st) fs ord))"
        "\<forall>y. live st' y \<longleftrightarrow> live st y \<and> still_open (a_orders st) fs y \<or> y = p \<and> fill_lots fs < lots"
      by (elim exE conjE)
    have new: "same_terms ord (a_orders st' p)"
      unfolding r(4) by (simp add: same_terms_def set_level_def)
    have F: "r_side ord = Buy \<or> r_side ord = Sell" "o_resd_lots ord = lots" "r_market_id ord = mid" "0 \<le> o_resd_lots ord"
      using sd lots mid by (simp_all add: ord_def)
    have heap: "same_terms (a_orders st y) (a_orders st' y)" if "y \<noteq> p" for y using r(3) that by simp
    have "uncrossed st'"
      by (rule created_uncrossed[OF inv m un F(1,4,2) fs_def np F(3) heap new spec[OF r(5)]])
    from r(1,2) this show ?thesis by (intro exI conjI disjI2)
  qed
qed

section \<open>A step of the engine\<close>

text \<open>What every call leaves behind: a consistent state, and no market crossed that was not.\<close>

definition advances :: "(int \<Rightarrow> jday) \<Rightarrow> app \<Rightarrow> app \<Rightarrow> bool" where
  "advances local_jd st st' \<longleftrightarrow> app_inv local_jd st' \<and> (uncrossed st \<longrightarrow> uncrossed st')"

lemma advances_shrinks: "app_inv local_jd st' \<Longrightarrow> shrinks st st' \<Longrightarrow> advances local_jd st st'"
  by (simp add: advances_def uncrossed_shrink)

lemma advances_refl: "app_inv local_jd st \<Longrightarrow> advances local_jd st st"
  by (rule advances_shrinks[OF _ shrinks_refl])

lemma advances_stage: "app_inv local_jd st' \<Longrightarrow> stage st st' \<Longrightarrow> advances local_jd st st'"
  by (rule advances_shrinks[OF _ shrinks_stage])

lemma advances_quiet: "app_inv local_jd st' \<Longrightarrow> quiet st st' \<Longrightarrow> advances local_jd st st'"
  by (rule advances_shrinks[OF _ shrinks_quiet])

lemma advances_updated:
  "app_inv local_jd st' \<Longrightarrow> order_updated mid p ord gone ex st st' \<Longrightarrow> same_terms (a_orders st p) ord \<Longrightarrow> advances local_jd st st'"
  by (rule advances_shrinks[OF _ shrinks_updated])

lemma advances_batch:
  "app_inv local_jd st' \<Longrightarrow> batch_done k accnt mid ids f gone st st' \<Longrightarrow> \<forall>ord. same_terms ord (f ord) \<Longrightarrow> advances local_jd st st'"
  by (rule advances_shrinks[OF _ shrinks_batch]) (assumption | erule spec)+

lemma advances_same:
  "app_inv local_jd st' \<Longrightarrow> live st' = live st \<Longrightarrow> a_orders st' = a_orders st \<Longrightarrow> advances local_jd st st'"
  by (rule advances_shrinks[OF _ shrinks_same]) simp_all

lemmas advances_intros = advances_refl advances_stage advances_quiet advances_updated advances_batch

end
