(* ===== verification/App_Step.thy ===== *)
theory App_Step
  imports App_Cross
begin

text \<open>
  The engine as a transition system: one step is a call of its interface or the journal's thread
  taking a message. Every state that can be reached from an empty engine satisfies the invariant
  (\<open>reach_inv\<close>), no market in it is crossed (\<open>reach_uncrossed\<close>), and a call whose arguments exist always has a result (\<open>call_safe\<close>).
\<close>

section \<open>Markets\<close>

text \<open>The result of a call, whatever it is, is a step from where the call started.\<close>

definition safe :: "(int \<Rightarrow> jday) \<Rightarrow> app \<Rightarrow> 'a app_result \<Rightarrow> bool" where
  "safe local_jd st r = (case r of Done _ st' \<Rightarrow> advances local_jd st st' | Throw _ st' \<Rightarrow> advances local_jd st st' | Undef \<Rightarrow> False)"

lemma safe_simps [simp]:
  "safe local_jd st (Done x st') = advances local_jd st st'" "safe local_jd st (Throw e st') = advances local_jd st st'"
  "\<not> safe local_jd st Undef"
  by (simp_all add: safe_def)

lemma on_mq_send_cases:
  assumes "app_inv local_jd st"
  shows "on_mq (send ring_post v) st = Throw QueueFull st \<or>
    (\<exists>q. on_mq (send ring_post v) st = Done () (st\<lparr>a_mq := q\<rparr>) \<and> ring_ok q \<and> ring_contents q = ring_contents (a_mq st) @ [v])"
proof (cases "ring_reserve (a_mq st) = 0")
  case True
  then show ?thesis using rq.send_full[OF app_inv_parts(5)[OF assms]] by (simp add: on_mq_def)
next
  case False
  then obtain q where "send ring_post v (a_mq st) = Done () q" "ring_ok q" "ring_contents q = ring_contents (a_mq st) @ [v]"
    using rq.send_room[OF app_inv_parts(5)[OF assms], of v] by auto
  then show ?thesis by (intro disjI2 exI[of _ q]) (simp add: on_mq_def)
qed

lemma app_inv_new_market:
  assumes inv: "app_inv local_jd st" and none: "get_market st (m_id m) = None"
    and empty: "market_inv (a_orders st) m" "listed m = {}"
  defines "st' \<equiv> st\<lparr>a_markets := set_insert m_id m (a_markets st)\<rparr>"
  shows "app_inv local_jd st'" and "get_market st' k = (if k = m_id m then Some m else get_market st k)" and "live st' = live st"
proof -
  note parts = app_inv_parts[OF inv]
  show get: "get_market st' k = (if k = m_id m then Some m else get_market st k)" for k
    using none parts(7) by (auto simp: get_market_def st'_def set_find_insert)
  show lv: "live st' = live st"
    using none by (auto simp: live_def get empty(2) fun_eq_iff) (metis option.distinct(1))
  have "book_inv st'"
    using parts(1) empty unfolding book_inv_def get by (simp add: st'_def set_ok_insert)
  moreover have "own_inv st'" using parts(2) unfolding own_inv_def lv by (simp add: st'_def)
  moreover have "exec_inv st'"
    by (rule exec_inv_frame[OF parts(3) sess_rel_refl]) (use none in \<open>auto simp: get same_exec_def\<close>, simp_all add: st'_def)
  moreover have "posn_inv st'" using parts(4) by (simp add: posn_inv_def st'_def)
  ultimately show "app_inv local_jd st'" using parts by (simp add: app_inv_def st'_def)
qed

lemma make_market_listed: "listed (make_market mid ins day state) = {}"
  by (simp add: make_market_def listed_def empty_side_def)

text \<open>Whether a settlement day has passed, in the engine's time zone.\<close>

definition settled :: "(int \<Rightarrow> jday) \<Rightarrow> jday \<Rightarrow> nanos \<Rightarrow> app \<Rightarrow> bool" where
  "settled local_jd day now st \<longleftrightarrow> day \<noteq> 0 \<and> day < fst (bus_day local_jd now (a_bus_day st))"

text \<open>What a creation that throws leaves: all but the cache of the business day.\<close>

definition only_cache :: "app \<Rightarrow> app \<Rightarrow> bool" where
  "only_cache st st' \<longleftrightarrow> (\<exists>c. st' = st\<lparr>a_bus_day := c\<rparr>)"

lemma only_cache_facts:
  assumes "only_cache st st'"
  shows "a_markets st' = a_markets st" "a_mq st' = a_mq st" "a_orders st' = a_orders st" "live st' = live st"
  using assms live_cong[of st' st] by (auto simp: only_cache_def fun_eq_iff)

lemma app_create_market_cases:
  assumes inv: "app_inv local_jd st"
    and mid: "mid = to_market_id (i_id i) day"
  shows "settled local_jd day now st \<Longrightarrow> \<exists>st'. app_create_market local_jd i day state now st = Throw Invalid st' \<and> app_inv local_jd st'
      \<and> only_cache st st'"
    and "\<not> settled local_jd day now st \<Longrightarrow> get_market st mid \<noteq> None \<Longrightarrow>
      \<exists>st'. app_create_market local_jd i day state now st = Throw AlreadyExists st' \<and> app_inv local_jd st' \<and> only_cache st st'"
    and "\<not> settled local_jd day now st \<Longrightarrow> get_market st mid = None \<Longrightarrow> ring_reserve (a_mq st) = 0 \<Longrightarrow>
      \<exists>st'. app_create_market local_jd i day state now st = Throw QueueFull st' \<and> app_inv local_jd st' \<and> only_cache st st'"
    and "\<not> settled local_jd day now st \<Longrightarrow> get_market st mid = None \<Longrightarrow> 0 < ring_reserve (a_mq st) \<Longrightarrow>
      \<exists>st'. app_create_market local_jd i day state now st = Done mid st' \<and> app_inv local_jd st'
           \<and> live st' = live st \<and> a_orders st' = a_orders st
           \<and> (\<forall>k. get_market st' k = (if k = mid then Some (make_market mid (i_symbol i) day state) else get_market st k))
           \<and> ring_contents (a_mq st') = ring_contents (a_mq st) @ [MsgCreateMarket mid (i_symbol i) day state]"
proof -
  define st1 where st1: "st1 = (if day = 0 then st else st\<lparr>a_bus_day := snd (bus_day local_jd now (a_bus_day st))\<rparr>)"
  note B = app_inv_bus_day[OF inv bus_day_ok(1)[OF app_inv_parts(6)[OF inv]]]
  have I: "app_inv local_jd st1" using inv B(1) by (simp add: st1)
  have "st = st\<lparr>a_bus_day := a_bus_day st\<rparr>" by simp
  then have C: "only_cache st st1" unfolding only_cache_def st1 by (cases "day = 0") (metis, auto)
  have f: "live st1 = live st" "a_orders st1 = a_orders st" "a_mq st1 = a_mq st" "get_market st1 k = get_market st k" for k
    using B(2) by (simp_all add: st1)
  have run: "app_create_market local_jd i day state now st =
      (if settled local_jd day now st then Throw Invalid st1
       else if get_market st mid \<noteq> None then Throw AlreadyExists st1
       else obind (on_mq (send ring_post (MsgCreateMarket mid (i_symbol i) day state)) st1) (\<lambda>_ st.
              Done mid (st\<lparr>a_markets := set_insert m_id (make_market mid (i_symbol i) day state) (a_markets st)\<rparr>)))"
  proof -
    obtain bd c where "bus_day local_jd now (a_bus_day st) = (bd, c)" by fastforce
    then show ?thesis
      unfolding mid by (cases "day = 0")
        (simp_all add: st1 app_create_market_def settled_def Let_def find_hint_found get_market_def mq_create_market_def)
  qed
  show "\<exists>st'. app_create_market local_jd i day state now st = Throw Invalid st' \<and> app_inv local_jd st' \<and> only_cache st st'"
    if "settled local_jd day now st"
    unfolding run using that I C by (intro exI[of _ st1]) simp
  show "\<exists>st'. app_create_market local_jd i day state now st = Throw AlreadyExists st' \<and> app_inv local_jd st' \<and> only_cache st st'"
    if "\<not> settled local_jd day now st" "get_market st mid \<noteq> None"
    unfolding run if_not_P[OF that(1)] if_P[OF that(2)] using I C by blast
  assume new: "\<not> settled local_jd day now st" "get_market st mid = None"
  let ?m = "make_market mid (i_symbol i) day state" and ?v = "MsgCreateMarket mid (i_symbol i) day state"
  have run': "app_create_market local_jd i day state now st = obind (on_mq (send ring_post ?v) st1) (\<lambda>_ st.
      Done mid (st\<lparr>a_markets := set_insert m_id ?m (a_markets st)\<rparr>))"
    unfolding run if_not_P[OF new(1)] using new(2) by simp
  note ring = app_inv_parts(5)[OF I]
  show "\<exists>st'. app_create_market local_jd i day state now st = Throw QueueFull st' \<and> app_inv local_jd st' \<and> only_cache st st'"
    if "ring_reserve (a_mq st) = 0"
  proof -
    have "on_mq (send ring_post ?v) st1 = Throw QueueFull st1"
      using rq.send_full[OF ring, of ?v] that f(3) by (simp add: on_mq_def)
    then show ?thesis using I C by (simp add: run')
  qed
  show "\<exists>st'. app_create_market local_jd i day state now st = Done mid st' \<and> app_inv local_jd st'
           \<and> live st' = live st \<and> a_orders st' = a_orders st
           \<and> (\<forall>k. get_market st' k = (if k = mid then Some (make_market mid (i_symbol i) day state) else get_market st k))
           \<and> ring_contents (a_mq st') = ring_contents (a_mq st) @ [?v]" if "0 < ring_reserve (a_mq st)"
  proof -
    have "ring_reserve (a_mq st1) \<noteq> 0" using that f(3) by simp
    then obtain q where q: "on_mq (send ring_post ?v) st1 = Done () (st1\<lparr>a_mq := q\<rparr>)" "ring_ok q" "ring_contents q = ring_contents (a_mq st1) @ [?v]"
      using rq.send_room[OF ring, of ?v] by (auto simp: on_mq_def)
    have none: "get_market (st1\<lparr>a_mq := q\<rparr>) (m_id ?m) = None" using new(2) f(4) by (simp add: make_market_def)
    note N = app_inv_new_market[OF app_inv_mq(1)[OF I q(2)] none market_inv_empty make_market_listed]
    have id: "m_id ?m = mid" by (simp add: make_market_def)
    show ?thesis unfolding run' q(1) using N q(3) f app_inv_mq(2)[OF I q(2)] id
      by (intro exI[of _ "(st1\<lparr>a_mq := q\<rparr>)\<lparr>a_markets := set_insert m_id ?m (a_markets (st1\<lparr>a_mq := q\<rparr>))\<rparr>"]) simp
  qed
qed

lemma app_update_market_cases:
  assumes inv: "app_inv local_jd st" and m: "get_market st mid = Some m"
  shows "app_update_market mid state st = Throw QueueFull st \<or>
    (\<exists>st'. app_update_market mid state st = Done () st' \<and> app_inv local_jd st' \<and> market_rel st st' \<and> a_orders st' = a_orders st
       \<and> get_market st' mid = Some (m\<lparr>m_state := state\<rparr>)
       \<and> ring_contents (a_mq st') = ring_contents (a_mq st) @ [MsgUpdateMarket mid state])"
proof -
  have id: "m_id m = mid" using book_id[OF app_inv_parts(1)[OF inv] m] .
  have run: "app_update_market mid state st = obind (on_mq (send ring_post (MsgUpdateMarket mid state)) st) (\<lambda>_ st.
      Done () (put_market (m\<lparr>m_state := state\<rparr>) st))"
    by (simp add: app_update_market_def m id mq_update_market_def set_state_def)
  show ?thesis
    using on_mq_send_cases[OF inv, of "MsgUpdateMarket mid state"]
  proof (elim disjE exE conjE)
    fix q assume q: "on_mq (send ring_post (MsgUpdateMarket mid state)) st = Done () (st\<lparr>a_mq := q\<rparr>)" "ring_ok q"
      "ring_contents q = ring_contents (a_mq st) @ [MsgUpdateMarket mid state]"
    have m': "get_market (st\<lparr>a_mq := q\<rparr>) mid = Some m" "same_book m (m\<lparr>m_state := state\<rparr>)" using m by (simp_all add: same_book_def)
    note P = put_market_stage[OF app_inv_mq(1)[OF inv q(2)] m']
    have "market_rel (st\<lparr>a_mq := q\<rparr>) (put_market (m\<lparr>m_state := state\<rparr>) (st\<lparr>a_mq := q\<rparr>))" using stage_facts(4)[OF P(1)] .
    then have "market_rel st (put_market (m\<lparr>m_state := state\<rparr>) (st\<lparr>a_mq := q\<rparr>))" by (rule market_rel_trans[OF market_rel_refl, rotated]) simp
    then show ?thesis using P(2,3) q by (simp add: run)
  qed (simp add: run)
qed

section \<open>Orders\<close>

lemma app_create_order_errors:
  assumes s: "get_sess st accnt = Some s" and m: "get_market st mid = Some m"
  shows "ref_taken st s ref \<Longrightarrow>
      app_create_order local_jd accnt mid ref sd lots ticks min_lots now (st, resp) = Throw RefAlreadyExists (st, resp)"
    and "\<not> ref_taken st s ref \<Longrightarrow> closed local_jd st m now \<Longrightarrow>
      app_create_order local_jd accnt mid ref sd lots ticks min_lots now (st, resp) =
        Throw MarketClosed (st\<lparr>a_bus_day := snd (bus_day local_jd now (a_bus_day st))\<rparr>, resp)"
    and "\<not> ref_taken st s ref \<Longrightarrow> \<not> closed local_jd st m now \<Longrightarrow> lots = 0 \<or> lots < min_lots \<Longrightarrow>
      app_create_order local_jd accnt mid ref sd lots ticks min_lots now (st, resp) =
        Throw InvalidLots (st\<lparr>a_bus_day := snd (bus_day local_jd now (a_bus_day st))\<rparr>, resp)"
proof -
  obtain bd c where bd: "bus_day local_jd now (a_bus_day st) = (bd, c)" by fastforce
  note unf = app_create_order_def prod.case s m option.case bd Let_def snd_conv
  show "ref_taken st s ref \<Longrightarrow>
      app_create_order local_jd accnt mid ref sd lots ticks min_lots now (st, resp) = Throw RefAlreadyExists (st, resp)"
    unfolding unf ref_taken_def by (rule if_P)
  show "\<not> ref_taken st s ref \<Longrightarrow> closed local_jd st m now \<Longrightarrow>
      app_create_order local_jd accnt mid ref sd lots ticks min_lots now (st, resp) =
        Throw MarketClosed (st\<lparr>a_bus_day := snd (bus_day local_jd now (a_bus_day st))\<rparr>, resp)"
    unfolding unf ref_taken_def closed_def fst_conv by (rule trans[OF if_not_P if_P])
  show "\<not> ref_taken st s ref \<Longrightarrow> \<not> closed local_jd st m now \<Longrightarrow> lots = 0 \<or> lots < min_lots \<Longrightarrow>
      app_create_order local_jd accnt mid ref sd lots ticks min_lots now (st, resp) =
        Throw InvalidLots (st\<lparr>a_bus_day := snd (bus_day local_jd now (a_bus_day st))\<rparr>, resp)"
    unfolding unf ref_taken_def closed_def fst_conv by (rule trans[OF if_not_P trans[OF if_not_P if_P]])
qed

text \<open>The result of a call with a response.\<close>

definition rsafe :: "(int \<Rightarrow> jday) \<Rightarrow> app \<Rightarrow> 'a resp_result \<Rightarrow> bool" where
  "rsafe local_jd st r = (case r of Done _ z \<Rightarrow> advances local_jd st (fst z) | Throw _ z \<Rightarrow> advances local_jd st (fst z)
     | Undef \<Rightarrow> False)"

lemma rsafe_simps [simp]:
  "rsafe local_jd st (Done x (st', resp)) = advances local_jd st st'" "rsafe local_jd st (Throw e (st', resp)) = advances local_jd st st'"
  "\<not> rsafe local_jd st Undef"
  by (simp_all add: rsafe_def)

lemma app_create_order_safe:
  assumes inv: "app_inv local_jd st" and s: "get_sess st accnt = Some s" and m: "get_market st mid = Some m"
    and sd: "sd = Buy \<or> sd = Sell" and lots: "0 \<le> lots"
  shows "rsafe local_jd st (app_create_order local_jd accnt mid ref sd lots ticks min_lots now (st, resp))"
proof -
  note E = app_create_order_errors[OF s m]
  have I: "app_inv local_jd (st\<lparr>a_bus_day := snd (bus_day local_jd now (a_bus_day st))\<rparr>)"
    and l0: "live (st\<lparr>a_bus_day := snd (bus_day local_jd now (a_bus_day st))\<rparr>) = live st"
    by (rule app_inv_bus_day[OF inv bus_day_ok(1)[OF app_inv_parts(6)[OF inv]]])+
  consider "ref_taken st s ref" | "\<not> ref_taken st s ref" "closed local_jd st m now"
    | "\<not> ref_taken st s ref" "\<not> closed local_jd st m now" "lots = 0 \<or> lots < min_lots"
    | "\<not> ref_taken st s ref" "\<not> closed local_jd st m now" "0 < lots" "min_lots \<le> lots"
    using lots by linarith
  then show ?thesis
  proof cases
    case 4
    show ?thesis
    proof (cases "uncrossed st")
      case True
      from create_order_uncrossed[OF inv s m sd 4(3,4,1,2) True, of ticks resp] show ?thesis
        by (elim exE conjE disjE) (simp_all add: advances_def)
    next
      case False
      note R = app_create_order_run[where ticks = ticks and resp = resp, OF inv s m sd 4(3,4,1,2) refl refl refl refl]
      from R(1) R(2)[OF leI] False show ?thesis
        by (cases "ring_reserve (a_mq st) < 1 + 2 * length (match_fills (a_orders st) m (created_order s m ref sd lots ticks min_lots now))")
          (force simp: advances_def)+
    qed
  qed (use E inv I in \<open>auto intro: advances_refl advances_same simp: l0\<close>)
qed

text \<open>The order that a request names is in the session and the market it is named with.\<close>

lemma listed_live: "app_inv local_jd st \<Longrightarrow> get_market st mid = Some m \<Longrightarrow> p \<in> listed m \<longleftrightarrow> live st p \<and> r_market_id (a_orders st p) = mid"
  by (rule live_in_market[OF app_inv_parts(1)])

lemma do_revise_order_safe:
  assumes "app_inv local_jd st" and "get_market st mid \<noteq> None" and "get_sess st accnt \<noteq> None"
    and "live st p" and "r_market_id (a_orders st p) = mid" and "r_accnt (a_orders st p) = accnt"
  shows "rsafe local_jd st (do_revise_order accnt mid p lots now (st, resp))"
proof -
  obtain m s where m: "get_market st mid = Some m" and s: "get_sess st accnt = Some s" using assms(2,3) by auto
  have p: "p \<in> listed m" using listed_live[OF assms(1) m] assms(4,5) by simp
  note C = do_revise_order_cases[OF assms(1) m s p assms(6), of lots now resp]
  consider "invalid_revision lots (a_orders st p)"
    | "\<not> invalid_revision lots (a_orders st p)" "ring_reserve (a_mq st) = 0"
    | "\<not> invalid_revision lots (a_orders st p)" "0 < ring_reserve (a_mq st)" by auto
  then show ?thesis
  proof cases
    case 1
    from C(1)[OF this] show ?thesis using assms(1) by (simp add: advances_refl)
  next
    case 2
    from C(2)[OF this] show ?thesis by (elim exE conjE) (simp add: advances_stage)
  next
    case 3
    from C(3)[OF this] show ?thesis by (elim exE conjE) (simp add: advances_updated)
  qed
qed

lemma do_cancel_order_safe:
  assumes "app_inv local_jd st" and "get_market st mid \<noteq> None" and "get_sess st accnt \<noteq> None"
    and "live st p" and "r_market_id (a_orders st p) = mid" and "r_accnt (a_orders st p) = accnt"
  shows "rsafe local_jd st (do_cancel_order accnt mid p now (st, resp))"
proof -
  obtain m s where m: "get_market st mid = Some m" and s: "get_sess st accnt = Some s" using assms(2,3) by auto
  have p: "p \<in> listed m" using listed_live[OF assms(1) m] assms(4,5) by simp
  note C = do_cancel_order_cases[OF assms(1) m s p assms(6), of now resp]
  show ?thesis
  proof (cases "ring_reserve (a_mq st) = 0")
    case True
    from C(1)[OF this] show ?thesis by (elim exE conjE) (simp add: advances_stage)
  next
    case False
    then have room: "0 < ring_reserve (a_mq st)" by simp
    from C(2)[OF room] show ?thesis by (elim exE conjE) (simp add: advances_updated)
  qed
qed

section \<open>Calls\<close>

text \<open>The calls of the interface of \<open>App\<close> (\<open>lob/App.hpp\<close>), without \<open>load\<close>.\<close>

datatype call =
    CreateMarket instr jday mkt_state nanos
  | UpdateMarket id64 mkt_state
  | FindSess symbol
  | CreateOrder symbol id64 string side lots ticks lots nanos
  | ReviseOrder symbol id64 optr lots nanos
  | ReviseOrderId symbol id64 id64 lots nanos
  | ReviseOrderRef symbol id64 string lots nanos
  | ReviseOrderIds symbol id64 "id64 list" lots nanos
  | CancelOrder symbol id64 optr nanos
  | CancelOrderId symbol id64 id64 nanos
  | CancelOrderRef symbol id64 string nanos
  | CancelOrderIds symbol id64 "id64 list" nanos
  | CreateTrade symbol id64 string side lots ticks liq_ind symbol nanos
  | ArchiveTrade symbol eptr nanos
  | ArchiveTradeId symbol id64 id64 nanos
  | ArchiveTradeIds symbol id64 "id64 list" nanos

text \<open>The value that a call returns is dropped; a response starts empty.\<close>

definition plain :: "'a app_result \<Rightarrow> unit app_result" where
  "plain r = (case r of Done _ st \<Rightarrow> Done () st | Throw e st \<Rightarrow> Throw e st | Undef \<Rightarrow> Undef)"

definition no_resp :: response where
  "no_resp = \<lparr>resp_market = None, resp_orders = [], resp_execs = [], resp_posn = None\<rparr>"

definition with_resp :: "(app \<times> response \<Rightarrow> unit resp_result) \<Rightarrow> app \<Rightarrow> unit app_result" where
  "with_resp f st = (case f (st, no_resp) of
     Done _ z \<Rightarrow> Done () (fst z) | Throw e z \<Rightarrow> Throw e (fst z) | Undef \<Rightarrow> Undef)"

fun do_call :: "(int \<Rightarrow> jday) \<Rightarrow> call \<Rightarrow> app \<Rightarrow> unit app_result" where
  "do_call local_jd (CreateMarket i day state now) st = plain (app_create_market local_jd i day state now st)"
| "do_call local_jd (UpdateMarket mid state) st = app_update_market mid state st"
| "do_call local_jd (FindSess a) st = Done () (snd (app_sess a st))"
| "do_call local_jd (CreateOrder a mid ref sd lots ticks min_lots now) st =
     with_resp (app_create_order local_jd a mid ref sd lots ticks min_lots now) st"
| "do_call local_jd (ReviseOrder a mid p lots now) st = with_resp (revise_order a mid p lots now) st"
| "do_call local_jd (ReviseOrderId a mid oid lots now) st = with_resp (revise_order_id a mid oid lots now) st"
| "do_call local_jd (ReviseOrderRef a mid ref lots now) st = with_resp (revise_order_ref a mid ref lots now) st"
| "do_call local_jd (ReviseOrderIds a mid ids lots now) st = with_resp (revise_order_ids a mid ids lots now) st"
| "do_call local_jd (CancelOrder a mid p now) st = with_resp (cancel_order a mid p now) st"
| "do_call local_jd (CancelOrderId a mid oid now) st = with_resp (cancel_order_id a mid oid now) st"
| "do_call local_jd (CancelOrderRef a mid ref now) st = with_resp (cancel_order_ref a mid ref now) st"
| "do_call local_jd (CancelOrderIds a mid ids now) st = with_resp (cancel_order_ids a mid ids now) st"
| "do_call local_jd (CreateTrade a mid ref sd lots ticks li cpty now) st =
     plain (app_create_trade a mid ref sd lots ticks li cpty now st)"
| "do_call local_jd (ArchiveTrade a t now) st = archive_trade a t now st"
| "do_call local_jd (ArchiveTradeId a mid tid now) st = archive_trade_id a mid tid now st"
| "do_call local_jd (ArchiveTradeIds a mid ids now) st = archive_trade_ids a mid ids now st"

text \<open>
  What the caller owes: the session and the market it passes exist, an order or trade it passes is
  one of the session's (an order also may be done), an order named with a market is in that market,
  an order has a side and no negative lots, and a list of identifiers has no repetition.
\<close>

definition known :: "app \<Rightarrow> symbol \<Rightarrow> id64 \<Rightarrow> bool" where
  "known st a mid \<longleftrightarrow> get_sess st a \<noteq> None \<and> get_market st mid \<noteq> None"

definition own_order :: "app \<Rightarrow> symbol \<Rightarrow> id64 \<Rightarrow> optr \<Rightarrow> bool" where
  "own_order st a mid p \<longleftrightarrow> order_done (a_orders st p) \<or>
     live st p \<and> r_accnt (a_orders st p) = a \<and> r_market_id (a_orders st p) = mid"

definition ref_in_market :: "app \<Rightarrow> symbol \<Rightarrow> id64 \<Rightarrow> string \<Rightarrow> bool" where
  "ref_in_market st a mid ref \<longleftrightarrow> (case get_sess st a of None \<Rightarrow> False | Some s \<Rightarrow>
     (case sess_order_ref (a_orders st) ref s of None \<Rightarrow> True | Some p \<Rightarrow> r_market_id (a_orders st p) = mid))"

definition own_trade :: "app \<Rightarrow> symbol \<Rightarrow> eptr \<Rightarrow> bool" where
  "own_trade st a t \<longleftrightarrow> (case get_sess st a of None \<Rightarrow> False | Some s \<Rightarrow> e_state (a_execs st t) = Trade \<longrightarrow> t \<in> set (s_trades s))"

fun call_ok :: "app \<Rightarrow> call \<Rightarrow> bool" where
  "call_ok st (CreateMarket i day state now) = True"
| "call_ok st (UpdateMarket mid state) = (get_market st mid \<noteq> None)"
| "call_ok st (FindSess a) = True"
| "call_ok st (CreateOrder a mid ref sd lots ticks min_lots now) = (known st a mid \<and> sd \<noteq> NoSide \<and> 0 \<le> lots)"
| "call_ok st (ReviseOrder a mid p lots now) = (known st a mid \<and> own_order st a mid p)"
| "call_ok st (ReviseOrderId a mid oid lots now) = known st a mid"
| "call_ok st (ReviseOrderRef a mid ref lots now) = (known st a mid \<and> ref_in_market st a mid ref)"
| "call_ok st (ReviseOrderIds a mid ids lots now) = (known st a mid \<and> distinct ids)"
| "call_ok st (CancelOrder a mid p now) = (known st a mid \<and> own_order st a mid p)"
| "call_ok st (CancelOrderId a mid oid now) = known st a mid"
| "call_ok st (CancelOrderRef a mid ref now) = (known st a mid \<and> ref_in_market st a mid ref)"
| "call_ok st (CancelOrderIds a mid ids now) = (known st a mid \<and> distinct ids)"
| "call_ok st (CreateTrade a mid ref sd lots ticks li cpty now) = known st a mid"
| "call_ok st (ArchiveTrade a t now) = own_trade st a t"
| "call_ok st (ArchiveTradeId a mid tid now) = (get_sess st a \<noteq> None)"
| "call_ok st (ArchiveTradeIds a mid ids now) = (get_sess st a \<noteq> None \<and> distinct ids)"

lemma safe_plain [simp]: "safe local_jd st (plain r) = safe local_jd st r"
  by (cases r) (simp_all add: plain_def)

lemma safe_with_resp: "rsafe local_jd st (f (st, no_resp)) \<Longrightarrow> safe local_jd st (with_resp f st)"
  by (cases "f (st, no_resp)") (auto simp: with_resp_def rsafe_def)

lemma no_resp_execs [simp]: "resp_execs no_resp = []"
  by (simp add: no_resp_def)

lemma known_parts: "known st a mid \<Longrightarrow> get_sess st a \<noteq> None" "known st a mid \<Longrightarrow> get_market st mid \<noteq> None"
  by (simp_all add: known_def)

section \<open>Every call has a safe result\<close>

lemma order_id_safe:
  assumes inv: "app_inv local_jd st" and k: "known st a mid"
  shows "rsafe local_jd st (revise_order_id a mid oid lots now (st, resp))" and "rsafe local_jd st (cancel_order_id a mid oid now (st, resp))"
proof -
  obtain s where s: "get_sess st a = Some s" using k by (auto simp: known_def)
  have "rsafe local_jd st (revise_order_id a mid oid lots now (st, resp)) \<and> rsafe local_jd st (cancel_order_id a mid oid now (st, resp))"
  proof (cases "sess_order (a_orders st) mid oid s")
    case (Some p)
    note P = sess_order_Some[OF app_inv_parts(2)[OF inv] s Some]
    show ?thesis
      using Some s inv do_revise_order_safe[OF inv known_parts(2)[OF k] known_parts(1)[OF k] P(1,3,2)]
        do_cancel_order_safe[OF inv known_parts(2)[OF k] known_parts(1)[OF k] P(1,3,2)]
      by (simp add: revise_order_id_def cancel_order_id_def advances_refl)
  qed (use s inv in \<open>simp add: revise_order_id_def cancel_order_id_def advances_refl\<close>)
  then show "rsafe local_jd st (revise_order_id a mid oid lots now (st, resp))" "rsafe local_jd st (cancel_order_id a mid oid now (st, resp))"
    by simp_all
qed

lemma order_ref_safe:
  assumes inv: "app_inv local_jd st" and k: "known st a mid" and r: "ref_in_market st a mid ref"
  shows "rsafe local_jd st (revise_order_ref a mid ref lots now (st, resp))" and "rsafe local_jd st (cancel_order_ref a mid ref now (st, resp))"
proof -
  obtain s where s: "get_sess st a = Some s" using k by (auto simp: known_def)
  have "rsafe local_jd st (revise_order_ref a mid ref lots now (st, resp)) \<and> rsafe local_jd st (cancel_order_ref a mid ref now (st, resp))"
  proof (cases "sess_order_ref (a_orders st) ref s")
    case (Some p)
    note P = sess_order_ref_Some[OF app_inv_parts(2)[OF inv] s Some]
    have m: "r_market_id (a_orders st p) = mid" using r s Some by (simp add: ref_in_market_def)
    show ?thesis
      using Some s inv do_revise_order_safe[OF inv known_parts(2)[OF k] known_parts(1)[OF k] P(1) m P(2)]
        do_cancel_order_safe[OF inv known_parts(2)[OF k] known_parts(1)[OF k] P(1) m P(2)]
      by (simp add: revise_order_ref_def cancel_order_ref_def advances_refl)
  qed (use s inv in \<open>simp add: revise_order_ref_def cancel_order_ref_def advances_refl\<close>)
  then show "rsafe local_jd st (revise_order_ref a mid ref lots now (st, resp))" "rsafe local_jd st (cancel_order_ref a mid ref now (st, resp))"
    by simp_all
qed

lemma order_safe:
  assumes inv: "app_inv local_jd st" and k: "known st a mid" and p: "own_order st a mid p"
  shows "rsafe local_jd st (revise_order a mid p lots now (st, resp))" and "rsafe local_jd st (cancel_order a mid p now (st, resp))"
  using p inv advances_refl[OF inv] do_revise_order_safe[OF inv known_parts(2)[OF k] known_parts(1)[OF k], of p]
    do_cancel_order_safe[OF inv known_parts(2)[OF k] known_parts(1)[OF k], of p]
  by (auto simp: own_order_def revise_order_def cancel_order_def)

lemma order_ids_safe:
  assumes inv: "app_inv local_jd st" and k: "known st a mid" and d: "distinct ids" and resp: "resp_execs resp = []"
  shows "rsafe local_jd st (revise_order_ids a mid ids lots now (st, resp))" and "rsafe local_jd st (cancel_order_ids a mid ids now (st, resp))"
proof -
  note R = revise_order_ids_cases[OF inv known_parts(2)[OF k] known_parts(1)[OF k] resp d, of lots]
  have all: "find (\<lambda>oid. \<not> revisable lots a mid st oid) ids = None \<Longrightarrow> \<forall>oid\<in>set ids. revisable lots a mid st oid"
    by (simp add: find_None_iff)
  show "rsafe local_jd st (revise_order_ids a mid ids lots now (st, resp))"
  proof (cases "find (\<lambda>oid. \<not> revisable lots a mid st oid) ids")
    case None
    show ?thesis
    proof (cases "ring_reserve (a_mq st) < length ids")
      case True
      from R(2)[OF all[OF None] True, of now] show ?thesis by (elim exE conjE) (simp add: advances_stage)
    next
      case False
      from R(3)[OF all[OF None] leI[OF False], of now] show ?thesis by (elim exE conjE) (simp add: advances_batch)
    qed
  next
    case (Some oid)
    from R(1)[OF Some, of now] show ?thesis by (elim exE conjE) (simp add: advances_stage)
  qed
  note C = cancel_order_ids_cases[OF inv known_parts(2)[OF k] known_parts(1)[OF k] resp d, of now]
  show "rsafe local_jd st (cancel_order_ids a mid ids now (st, resp))"
  proof (cases "\<exists>oid\<in>set ids. \<nexists>p. named a mid oid st p")
    case True
    from C(1)[OF this] show ?thesis by (elim exE conjE) (simp add: advances_stage)
  next
    case False
    then have all: "\<forall>oid\<in>set ids. \<exists>p. named a mid oid st p" by simp
    show ?thesis
    proof (cases "ring_reserve (a_mq st) < length ids")
      case True
      from C(2)[OF all True] show ?thesis by (elim exE conjE) (simp add: advances_stage)
    next
      case False
      from C(3)[OF all leI[OF False]] show ?thesis by (elim exE conjE) (simp add: advances_batch)
    qed
  qed
qed

lemma create_trade_safe:
  assumes inv: "app_inv local_jd st" and k: "known st a mid"
  shows "safe local_jd st (app_create_trade a mid ref sd lots ticks li cpty now st)"
proof -
  obtain s m where s: "get_sess st a = Some s" and m: "get_market st mid = Some m" using k by (auto simp: known_def)
  note S = app_create_trade_single[where ref = ref and sd = sd and lots = lots and ticks = ticks and li = li and now = now, OF inv s m]
    and P = app_create_trade_pair[where ref = ref and sd = sd and lots = lots and ticks = ticks and li = li and now = now, OF inv s m]
  show ?thesis
  proof (cases "cpty = []")
    case True
    from S(1)[OF True] S(2)[OF True] show ?thesis
      by (cases "ring_reserve (a_mq st) = 0") (auto intro: advances_quiet)
  next
    case False
    from P(1)[OF False] P(2)[OF False leI] show ?thesis
      by (cases "ring_reserve (a_mq st) < 2") (auto intro: advances_quiet)
  qed
qed

lemma archive_safe:
  assumes inv: "app_inv local_jd st" and s: "get_sess st a = Some s"
  shows "own_trade st a t \<Longrightarrow> safe local_jd st (archive_trade a t now st)" and "safe local_jd st (archive_trade_id a mid tid now st)"
    and "distinct ids \<Longrightarrow> safe local_jd st (archive_trade_ids a mid ids now st)"
proof -
  have D: "safe local_jd st (do_archive_trade a t now st)" if "t \<in> set (s_trades s)" for t
    using do_archive_trade_cases[OF inv s that, of now] inv by (elim disjE exE conjE) (simp_all add: advances_refl advances_quiet)
  show "safe local_jd st (archive_trade a t now st)" if "own_trade st a t"
    using that s D[of t] inv by (auto simp: archive_trade_def own_trade_def advances_refl)
  show "safe local_jd st (archive_trade_id a mid tid now st)"
  proof (cases "sess_trade (a_execs st) mid tid s")
    case None
    then show ?thesis using s inv by (simp add: archive_trade_id_def advances_refl)
  next
    case (Some t)
    then have "t \<in> set (s_trades s)" using sess_trade_Some[OF inv s, of mid tid t] by simp
    then show ?thesis using Some s D by (simp add: archive_trade_id_def)
  qed
  show "safe local_jd st (archive_trade_ids a mid ids now st)" if "distinct ids"
  proof (cases "\<exists>tid\<in>set ids. sess_trade (a_execs st) mid tid s = None")
    case True
    then show ?thesis using archive_trade_ids_cases(1)[OF inv s True, of now] inv by (simp add: advances_refl)
  next
    case False
    then have all: "\<forall>tid\<in>set ids. sess_trade (a_execs st) mid tid s \<noteq> None" by simp
    note A = archive_trade_ids_cases(2,4)[OF inv s all, of now]
    show ?thesis
    proof (cases "ring_reserve (a_mq st) < length (chunks ids)")
      case True
      from A(1)[OF this] show ?thesis by (simp add: advances_refl[OF inv])
    next
      case False
      from A(2)[OF leI[OF False] that] show ?thesis by (elim exE conjE) (simp add: advances_quiet)
    qed
  qed
qed

lemma market_safe:
  assumes inv: "app_inv local_jd st"
  shows "safe local_jd st (app_create_market local_jd i day state now st)" and "get_market st mid \<noteq> None \<Longrightarrow> safe local_jd st (app_update_market mid state st)"
proof -
  note C = app_create_market_cases[where day = day and i = i and now = now and state = state, OF inv refl]
  show "safe local_jd st (app_create_market local_jd i day state now st)" using C
    by (cases "settled local_jd day now st"; cases "get_market st (to_market_id (i_id i) day) = None"; cases "ring_reserve (a_mq st) = 0")
      (auto intro!: advances_same simp: only_cache_facts)
  show "safe local_jd st (app_update_market mid state st)" if k: "get_market st mid \<noteq> None"
  proof -
    obtain m where m: "get_market st mid = Some m" using k by auto
    from app_update_market_cases[OF inv m, of state] show ?thesis
    proof (elim disjE exE conjE)
      assume "app_update_market mid state st = Throw QueueFull st"
      then show ?thesis by (simp add: advances_refl[OF inv])
    next
      fix st' assume "app_update_market mid state st = Done () st'" "app_inv local_jd st'" "market_rel st st'" "a_orders st' = a_orders st"
      then show ?thesis by (simp add: advances_shrinks[OF _ shrinks_market])
    qed
  qed
qed

lemma call_safe:
  assumes inv: "app_inv local_jd st" and ok: "call_ok st c"
  shows "safe local_jd st (do_call local_jd c st)"
proof (cases c)
  case (CreateOrder a mid ref sd lots ticks min_lots now)
  then obtain s m where "get_sess st a = Some s" "get_market st mid = Some m" "sd = Buy \<or> sd = Sell" "0 \<le> lots"
    using ok side.exhaust[of sd] by (auto simp: known_def)
  with CreateOrder show ?thesis by (simp add: safe_with_resp app_create_order_safe[OF inv])
next
  case (FindSess a)
  then show ?thesis using app_sess_ok(1,3)[OF inv surjective_pairing] by (simp add: advances_quiet)
qed (use ok in \<open>auto simp: safe_with_resp order_id_safe[OF inv] order_ref_safe[OF inv] order_safe[OF inv] order_ids_safe[OF inv]
  create_trade_safe[OF inv] archive_safe[OF inv] market_safe[OF inv] own_trade_def split: option.splits\<close>)

section \<open>Runs\<close>

text \<open>The state that a result leaves, with an exception or without.\<close>

definition left_by :: "'a app_result \<Rightarrow> app option" where
  "left_by r = (case r of Done _ st \<Rightarrow> Some st | Throw _ st \<Rightarrow> Some st | Undef \<Rightarrow> None)"

lemma safe_left: "safe local_jd st r \<Longrightarrow> \<exists>st'. left_by r = Some st' \<and> advances local_jd st st'"
  by (cases r) (simp_all add: left_by_def)

inductive step :: "(int \<Rightarrow> jday) \<Rightarrow> app \<Rightarrow> app \<Rightarrow> bool" for local_jd where
  step_call: "call_ok st c \<Longrightarrow> left_by (do_call local_jd c st) = Some st' \<Longrightarrow> step local_jd st st'"
| step_fetch: "ring_fetch (a_mq st) = Some (v, q) \<Longrightarrow> step local_jd st (st\<lparr>a_mq := q\<rparr>)"

inductive_cases stepE: "step local_jd st st'"

text \<open>What an engine is started with: nothing, or the reference data that a model has.\<close>

definition ref_data_model :: "asset list \<Rightarrow> instr list \<Rightarrow> model" where
  "ref_data_model assets instrs = \<lparr>mod_assets = assets, mod_instrs = instrs, mod_markets = [], mod_orders = [],
     mod_execs = (\<lambda>_. []), mod_trades = [], mod_posns = (\<lambda>_. [])\<rparr>"

inductive reach :: "(int \<Rightarrow> jday) \<Rightarrow> app \<Rightarrow> bool" for local_jd where
  reach_start: "is_pow2 capacity \<Longrightarrow> 2 \<le> capacity \<Longrightarrow> reach local_jd (make_app o0 e0 p0 (make_ring z capacity) max_execs)"
| reach_load: "is_pow2 capacity \<Longrightarrow> 2 \<le> capacity \<Longrightarrow>
    app_load local_jd (ref_data_model assets instrs) now (make_app o0 e0 p0 (make_ring z capacity) max_execs) = Done () st \<Longrightarrow>
    reach local_jd st"
| reach_step: "reach local_jd st \<Longrightarrow> step local_jd st st' \<Longrightarrow> reach local_jd st'"

lemma loaded_app_inv:
  "ring_ok q \<Longrightarrow> cache_ok local_jd c \<Longrightarrow>
     app_inv local_jd ((make_app o0 e0 p0 q max_execs)\<lparr>a_bus_day := c, a_assets := assets, a_instrs := instrs\<rparr>)"
  by (simp add: app_inv_def make_app_def book_inv_def own_inv_def exec_inv_def posn_inv_def live_def get_market_def get_sess_def)

lemma make_app_inv: "ring_ok q \<Longrightarrow> app_inv local_jd (make_app o0 e0 p0 q max_execs)"
  using loaded_app_inv[where c = empty_cache and assets = "[]" and instrs = "[]" and q = q, OF _ cache_ok_empty] by (simp add: make_app_def)

lemma load_ref_data:
  "app_load local_jd (ref_data_model assets instrs) now st = Done () (st\<lparr>a_bus_day := snd (bus_day local_jd now (a_bus_day st)),
     a_assets := fold (set_insert as_symbol) assets (a_assets st), a_instrs := fold (set_insert i_symbol) instrs (a_instrs st)\<rparr>)"
  by (simp add: app_load_def ref_data_model_def Let_def split: prod.split)

lemma step_fetch_inv:
  assumes inv: "app_inv local_jd st" and f: "ring_fetch (a_mq st) = Some (v, q)"
  shows "app_inv local_jd (st\<lparr>a_mq := q\<rparr>)"
proof (cases "ring_contents (a_mq st)")
  case Nil
  then have "q = a_mq st" using ring_fetch_none[OF app_inv_parts(5)[OF inv]] f by simp
  then show ?thesis using inv by simp
next
  case (Cons x xs)
  then have "ring_ok q" using ring_fetch_some(1,2)[OF app_inv_parts(5)[OF inv] Cons] f by simp
  then show ?thesis by (rule app_inv_mq(1)[OF inv])
qed

lemma step_advances: "step local_jd st st' \<Longrightarrow> app_inv local_jd st \<Longrightarrow> advances local_jd st st'"
proof (erule stepE)
  fix c assume "app_inv local_jd st" "call_ok st c" "left_by (do_call local_jd c st) = Some st'"
  then show "advances local_jd st st'" using safe_left[OF call_safe] by fastforce
next
  fix v q assume inv: "app_inv local_jd st" and q: "st' = st\<lparr>a_mq := q\<rparr>" "ring_fetch (a_mq st) = Some (v, q)"
  show "advances local_jd st st'"
    unfolding q(1) by (rule advances_quiet[OF step_fetch_inv[OF inv q(2)] quiet_mq])
qed

lemma step_inv: "step local_jd st st' \<Longrightarrow> app_inv local_jd st \<Longrightarrow> app_inv local_jd st'"
  using step_advances by (simp add: advances_def)

lemma reach_inv: "reach local_jd st \<Longrightarrow> app_inv local_jd st"
proof (induction rule: reach.induct)
  case (reach_start capacity o0 e0 p0 z max_execs)
  then show ?case by (intro make_app_inv make_ring_ok(1))
next
  case (reach_load capacity assets instrs now o0 e0 p0 z max_execs st)
  have "cache_ok local_jd (snd (bus_day local_jd now empty_cache))" by (rule bus_day_ok(1)[OF cache_ok_empty])
  from loaded_app_inv[OF make_ring_ok(1)[OF reach_load(1,2)] this] show ?case
    using reach_load(3) by (auto simp: load_ref_data make_app_def)
qed (rule step_inv)

lemma reach_uncrossed: "reach local_jd st \<Longrightarrow> uncrossed st"
proof (induction rule: reach.induct)
  case (reach_start capacity o0 e0 p0 z max_execs)
  then show ?case by (simp add: uncrossed_def make_app_def live_def get_market_def)
next
  case (reach_load capacity assets instrs now o0 e0 p0 z max_execs st)
  then show ?case by (auto simp: load_ref_data uncrossed_def make_app_def live_def get_market_def)
next
  case (reach_step st st')
  then show ?case using step_advances[OF reach_step(2) reach_inv[OF reach_step(1)]] by (simp add: advances_def)
qed

end
