(* ===== verification/App_Charter.thy ===== *)
theory App_Charter
  imports App_Step
begin

text \<open>
  The terms on which the engine trades: its reference data, and of each market the identifier, instrument,
  settlement day and state. The requests of a trader do not change them.
\<close>

type_synonym terms = "id64 \<times> symbol \<times> jday \<times> mkt_state"

definition market_terms :: "market \<Rightarrow> terms" where
  "market_terms m = (m_id m, m_instr m, m_settl_day m, m_state m)"

definition charter :: "app \<Rightarrow> asset list \<times> instr list \<times> terms list" where
  "charter st = (a_assets st, a_instrs st, map market_terms (a_markets st))"

text \<open>A state under a charter, whose identifiers increase as those of the markets do.\<close>

definition chartered :: "asset list \<times> instr list \<times> terms list \<Rightarrow> app \<Rightarrow> bool" where
  "chartered C st \<longleftrightarrow> charter st = C \<and> set_ok m_id (a_markets st)"

section \<open>Markets\<close>

lemma on_side_terms [simp]: "market_terms (snd (on_side f sd z)) = market_terms (snd z)"
  by (simp add: on_side_def put_side_def market_terms_def split: prod.split)

lemma market_op_terms [simp]:
  "market_terms (snd (market_insert_order p z)) = market_terms (snd z)"
  "market_terms (snd (market_remove_order p z)) = market_terms (snd z)"
  "market_terms (snd (market_revise_order p lots now z)) = market_terms (snd z)"
  "market_terms (snd (market_cancel_order p now z)) = market_terms (snd z)"
  by (simp_all add: market_insert_order_def market_remove_order_def market_revise_order_def market_cancel_order_def split: prod.split)

lemma market_take_terms [simp]: "market_terms (snd (market_take_order p lots now z)) = market_terms (snd z)"
proof -
  obtain h m h' m' where z: "z = (h, m)" and o: "on_side (side_take_order p lots now) (r_side (h p)) (h, m) = (h', m')"
    by (metis surj_pair)
  have "market_terms m' = market_terms m" using on_side_terms[of "side_take_order p lots now" "r_side (h p)" "(h, m)"] by (simp add: o)
  then show ?thesis by (simp add: z market_take_order_def o) (simp add: market_terms_def)
qed

lemma alloc_id_terms: "alloc_id m = (i, m') \<Longrightarrow> market_terms m' = market_terms m"
  by (auto simp: alloc_id_def market_terms_def)

section \<open>State\<close>

lemma put_market_under:
  assumes u: "chartered C st" and m: "get_market st mid = Some m" and t: "market_terms m' = market_terms m"
  shows "chartered C (put_market m' st)"
proof -
  have s: "set_ok m_id (a_markets st)" using u by (simp add: chartered_def)
  have "m \<in> set (a_markets st)" using m s by (simp add: get_market_def set_find_Some_iff)
  then have "market_terms x = market_terms m'" if "x \<in> set (a_markets st)" "m_id x = m_id m'" for x
    using set_ok_inj[OF s that(1)] that(2) t by (simp add: market_terms_def)
  then show ?thesis using u by (auto simp: chartered_def charter_def put_market_def set_modify_def set_ok_put_market[unfolded put_market_def set_modify_def, simplified])
qed

lemma under_frame [simp]:
  "chartered C (put_sess s st) = chartered C st" "chartered C (put_order p ord st) = chartered C st"
  "chartered C (put_exec e ex st) = chartered C st" "chartered C (put_posn pp po st) = chartered C st"
  "chartered C (st\<lparr>a_orders := h\<rparr>) = chartered C st" "chartered C (st\<lparr>a_mq := q\<rparr>) = chartered C st" "chartered C (st\<lparr>a_bus_day := c\<rparr>) = chartered C st"
  "chartered C (st\<lparr>a_posns := ph, a_next_posn := n\<rparr>) = chartered C st"
  by (simp_all add: chartered_def charter_def put_sess_def put_order_def put_exec_def put_posn_def)

lemma on_market_under:
  assumes "chartered C st" and "get_market st mid = Some m" and "market_terms (snd (f (a_orders st, m))) = market_terms m"
  shows "chartered C (on_market f m st)"
proof -
  obtain h m' where f: "f (a_orders st, m) = (h, m')" by fastforce
  show ?thesis using put_market_under[of C "st\<lparr>a_orders := h\<rparr>" mid m m'] assms by (simp add: on_market_def f)
qed

lemma under_alloc:
  "alloc_exec ex st = (e, st') \<Longrightarrow> chartered C st' = chartered C st" "alloc_order ord st = (p, st') \<Longrightarrow> chartered C st' = chartered C st"
  "app_posn s m st = (pp, st') \<Longrightarrow> chartered C st' = chartered C st" "app_sess a st = (s', st') \<Longrightarrow> chartered C st' = chartered C st"
  by (auto simp: chartered_def charter_def alloc_exec_def alloc_order_def app_posn_def app_sess_eq put_sess_def split: prod.splits option.splits)

lemma on_mq_under: "on_mq f st = Done x st' \<Longrightarrow> chartered C st' = chartered C st" "on_mq f st = Throw e st' \<Longrightarrow> chartered C st' = chartered C st"
  by (auto simp: on_mq_def split: outcome.splits)

section \<open>Results\<close>

text \<open>Results under a charter, with a response and without.\<close>

definition keeps :: "asset list \<times> instr list \<times> terms list \<Rightarrow> 'a app_result \<Rightarrow> bool" where
  "keeps C r \<longleftrightarrow> (case r of Done _ st \<Rightarrow> chartered C st | Throw _ st \<Rightarrow> chartered C st | Undef \<Rightarrow> True)"

definition rkeeps :: "asset list \<times> instr list \<times> terms list \<Rightarrow> 'a resp_result \<Rightarrow> bool" where
  "rkeeps C r \<longleftrightarrow> (case r of Done _ z \<Rightarrow> chartered C (fst z) | Throw _ z \<Rightarrow> chartered C (fst z) | Undef \<Rightarrow> True)"

lemma keeps_simps [simp]:
  "keeps C (Done x st) \<longleftrightarrow> chartered C st" "keeps C (Throw e st) \<longleftrightarrow> chartered C st" "keeps C Undef"
  "rkeeps C (Done x z) \<longleftrightarrow> chartered C (fst z)" "rkeeps C (Throw e z) \<longleftrightarrow> chartered C (fst z)" "rkeeps C Undef"
  by (simp_all add: keeps_def rkeeps_def)

lemma keeps_obind:
  "keeps C r \<Longrightarrow> (\<And>x st. chartered C st \<Longrightarrow> keeps C (f x st)) \<Longrightarrow> keeps C (obind r f)"
  by (cases r) simp_all

lemma rkeeps_obind:
  "rkeeps C r \<Longrightarrow> (\<And>x z. chartered C (fst z) \<Longrightarrow> rkeeps C (f x z)) \<Longrightarrow> rkeeps C (obind r f)"
  by (cases r) simp_all

text \<open>A journal call with a commit behind it.\<close>

lemma journal_rkeeps:
  assumes "chartered C st" and "\<And>st. chartered C st \<Longrightarrow> rkeeps C (g st)"
  shows "rkeeps C (case on_mq f st of Undef \<Rightarrow> Undef | Throw e st \<Rightarrow> Throw e (st, resp) | Done _ st \<Rightarrow> g st)"
  using assms by (auto simp: on_mq_under split: outcome.split)

section \<open>Revising and cancelling\<close>

lemma commit_revise_under: "commit_revise a mid p lots now ex st = Some st' \<Longrightarrow> chartered C st \<Longrightarrow> chartered C st'"
  by (auto simp: commit_revise_def Let_def intro!: on_market_under split: option.splits if_splits)

lemma commit_cancel_under: "commit_cancel a mid p now ex st = Some st' \<Longrightarrow> chartered C st \<Longrightarrow> chartered C st'"
  by (auto simp: commit_cancel_def Let_def intro!: on_market_under split: option.splits if_splits)

text \<open>A market's next identifier and a new execution.\<close>

lemma new_exec_under:
  assumes "chartered C st" and "get_market st mid = Some m" and "alloc_id m = (i, m')" and "alloc_exec ex (put_market m' st) = (e, st')"
  shows "chartered C st'"
  using under_alloc(1)[OF assms(4)] put_market_under[OF assms(1,2) alloc_id_terms[OF assms(3)]] by simp

lemma do_revise_keeps: "chartered C st \<Longrightarrow> rkeeps C (do_revise_order a mid p lots now (st, resp))"
  by (auto simp: do_revise_order_def Let_def intro!: journal_rkeeps dest: new_exec_under commit_revise_under split: option.split prod.split)

lemma do_cancel_keeps: "chartered C st \<Longrightarrow> rkeeps C (do_cancel_order a mid p now (st, resp))"
  by (auto simp: do_cancel_order_def Let_def intro!: journal_rkeeps dest: new_exec_under commit_cancel_under split: option.split prod.split)

lemma order_id_keeps:
  assumes "chartered C st"
  shows "rkeeps C (revise_order_id a mid oid lots now (st, resp))" and "rkeeps C (cancel_order_id a mid oid now (st, resp))"
  using do_revise_keeps[OF assms] do_cancel_keeps[OF assms] assms
  by (auto simp: revise_order_id_def cancel_order_id_def split: option.split)

lemma revise_validate_keeps: "chartered C st \<Longrightarrow> rkeeps C (revise_validate a mid ids lots now (st, resp))"
  by (induction a mid ids lots now "(st, resp)" arbitrary: st resp rule: revise_validate.induct)
    (auto simp: Let_def dest: new_exec_under split: option.split prod.split)

lemma cancel_validate_keeps: "chartered C st \<Longrightarrow> rkeeps C (cancel_validate a mid ids now (st, resp))"
  by (induction a mid ids now "(st, resp)" arbitrary: st resp rule: cancel_validate.induct)
    (auto simp: Let_def dest: new_exec_under split: option.split prod.split)

lemma revise_commit_under: "revise_commit a mid lots now exs st = Some st' \<Longrightarrow> chartered C st \<Longrightarrow> chartered C st'"
  by (induction exs arbitrary: st) (auto split: option.splits dest!: commit_revise_under)

lemma cancel_commit_under: "cancel_commit a mid now exs st = Some st' \<Longrightarrow> chartered C st \<Longrightarrow> chartered C st'"
  by (induction exs arbitrary: st) (auto split: option.splits dest!: commit_cancel_under)

lemma order_ids_keeps:
  assumes "chartered C st"
  shows "rkeeps C (revise_order_ids a mid ids lots now (st, resp))" and "rkeeps C (cancel_order_ids a mid ids now (st, resp))"
  unfolding revise_order_ids_def cancel_order_ids_def prod.case
  by (rule rkeeps_obind[OF revise_validate_keeps[OF assms]] rkeeps_obind[OF cancel_validate_keeps[OF assms]],
      auto intro!: journal_rkeeps dest: revise_commit_under cancel_commit_under split: option.split)+

section \<open>Creating an order\<close>

lemma new_match_under:
  "new_match mid taker maker lots sum_lots sum_cost now st = Some (mt, st') \<Longrightarrow> chartered C st \<Longrightarrow> chartered C st'"
  by (auto simp: new_match_def Let_def alloc_id_def under_alloc market_terms_def split: option.splits prod.splits
      intro!: put_market_under)

lemma match_loop_keeps: "chartered C st \<Longrightarrow> rkeeps C (match_loop a mid taker direct now makers x (st, resp))"
proof (induction makers arbitrary: a x st resp)
  case (Cons maker makers)
  show ?case using Cons.prems by (auto simp: Let_def intro!: Cons.IH dest: new_match_under split: option.split)
qed simp

lemma match_orders_keeps: "chartered C st \<Longrightarrow> rkeeps C (match_orders a mid taker now ex (st, resp))"
  by (auto simp: match_orders_def Let_def intro!: rkeeps_obind match_loop_keeps split: option.split prod.split)

lemma commit_match_under: "commit_match a mid pp now mt st = Some st' \<Longrightarrow> chartered C st \<Longrightarrow> chartered C st'"
  by (auto simp: commit_match_def Let_def split: option.splits intro!: on_market_under)

lemma commit_matches_under: "commit_matches a mid pp now mts st = Some st' \<Longrightarrow> chartered C st \<Longrightarrow> chartered C st'"
  by (induction mts arbitrary: st) (auto split: option.splits dest!: commit_match_under)

text \<open>The journal and the commit behind it, for an order that is done or not.\<close>

lemma finish_tail_keeps:
  assumes u: "chartered C st"
  shows "rkeeps C (case mq_create_execs es (a_mq st) of
             Undef \<Rightarrow> Undef
           | Throw e q \<Rightarrow>
               if \<not> is_done
               then (case get_market (st\<lparr>a_mq := q\<rparr>) mid of
                       Some m \<Rightarrow> Throw e (on_market (market_remove_order p) m (st\<lparr>a_mq := q\<rparr>), resp) | None \<Rightarrow> Undef)
               else Throw e (st\<lparr>a_mq := q\<rparr>, resp)
           | Done _ q \<Rightarrow>
               (case get_sess (st\<lparr>a_mq := q\<rparr>) a of None \<Rightarrow> Undef | Some s \<Rightarrow>
                 if b
                 then (case commit_matches a mid pp now mts (put_sess (push_exec_front ex (f q s)) (st\<lparr>a_mq := q\<rparr>)) of
                         Some st \<Rightarrow> Done () (st, resp) | None \<Rightarrow> Undef)
                 else Done () (put_sess (push_exec_front ex (f q s)) (st\<lparr>a_mq := q\<rparr>), resp)))"
  using u by (auto split: outcome.split option.split dest: commit_matches_under intro!: on_market_under)

lemma finish_order_keeps:
  assumes u: "chartered C st"
  shows "rkeeps C (finish_order a mid p ex now x (st, resp))"
proof (cases "get_sess st a = None \<or> get_market st mid = None")
  case False
  then obtain s m where s: "get_sess st a = Some s" and m: "get_market st mid = Some m" by auto
  have 1: "chartered C st'" "get_market st' mid = Some m" if "(if b then app_posn s m st else (0, st)) = (pp, st')" for b pp st'
    using that u m under_alloc(3) by (auto simp: app_posn_def split: if_splits prod.splits)
  have 2: "chartered C (if \<not> dn then on_market (market_insert_order p) m st' else st')"
    if "(if b then app_posn s m st else (0, st)) = (pp, st')" for b pp st' dn
    using 1[OF that] by (auto intro!: on_market_under)
  show ?thesis unfolding finish_order_def Let_def s m prod.case option.case
    by (clarsimp split del: if_split split: prod.split) (rule finish_tail_keeps, rule 2, assumption)
qed (auto simp: finish_order_def Let_def split: option.split)

lemma create_order_keeps:
  assumes u: "chartered C st"
  shows "rkeeps C (app_create_order local_jd a mid ref sd lots ticks min_lots now (st, resp))"
  using u by (auto simp: app_create_order_def Let_def under_alloc alloc_id_terms split: option.split prod.split
    intro!: rkeeps_obind match_orders_keeps finish_order_keeps put_market_under)

section \<open>Trades\<close>

lemma archive_commit_under: "archive_commit a mid ids st = Some st' \<Longrightarrow> chartered C st \<Longrightarrow> chartered C st'"
  by (induction ids arbitrary: st) (auto split: option.splits)

lemma archive_keeps: "chartered C st \<Longrightarrow> keeps C (archive_trade_ids a mid ids now st)"
  by (auto simp: archive_trade_ids_def on_mq_def dest: archive_commit_under split: option.split outcome.split)

lemma book_trade_under: "book_trade a e pp st = Some st' \<Longrightarrow> chartered C st' = chartered C st"
  by (auto simp: book_trade_def Let_def split: option.splits)

lemma market_frame:
  "app_posn s m st = (pp, st') \<Longrightarrow> get_market st' mid = get_market st mid"
  "app_sess a st = (s', st') \<Longrightarrow> get_market st' mid = get_market st mid"
  "alloc_exec ex st = (e, st') \<Longrightarrow> get_market st' mid = get_market st mid"
  by (auto simp: app_posn_def app_sess_eq alloc_exec_def get_market_def put_sess_def split: prod.splits option.splits)

lemma keeps_mq: "chartered C st \<Longrightarrow> (\<And>st. chartered C st \<Longrightarrow> keeps C (g st)) \<Longrightarrow> keeps C (obind (on_mq f st) (\<lambda>_ st. g st))"
  by (auto simp: on_mq_def split: outcome.split)

lemma book_keeps:
  "chartered C st \<Longrightarrow> keeps C (case book_trade a e pp st of None \<Rightarrow> Undef | Some st \<Rightarrow> Done r st)"
  "chartered C st \<Longrightarrow> keeps C (case book_trade a' e' pp' st of None \<Rightarrow> Undef | Some st \<Rightarrow>
     (case book_trade a e pp st of None \<Rightarrow> Undef | Some st \<Rightarrow> Done r st))"
  by (auto simp: book_trade_under split: option.split)

lemma create_trade_keeps:
  assumes u: "chartered C st"
  shows "keeps C (app_create_trade a mid ref sd lots ticks li cpty created st)"
proof (cases "get_sess st a = None \<or> get_market st mid = None")
  case False
  then obtain s m where s: "get_sess st a = Some s" and m: "get_market st mid = Some m" by auto
  obtain pp st1 where p: "app_posn s m st = (pp, st1)" by fastforce
  obtain i m1 where i: "alloc_id m = (i, m1)" by fastforce
  have m1: "market_terms m1 = market_terms m" by (rule alloc_id_terms[OF i])
  define ex where "ex = new_manual (m_id m1) (m_instr m1) (m_settl_day m1) i a ref sd lots ticks
    (net_lots (a_posns (put_market m1 st1) pp)) (p_net_cost (a_posns (put_market m1 st1) pp)) li cpty created"
  obtain e st2 where e: "alloc_exec ex (put_market m1 st1) = (e, st2)" by fastforce
  have 1: "chartered C st1" "get_market st1 mid = Some m" using u m by (simp_all add: under_alloc(3)[OF p] market_frame(1)[OF p])
  have 2: "chartered C st2" using new_exec_under[OF 1 i e] .
  have mk: "get_market st2 mid' = get_market (put_market m1 st1) mid'" for mid' by (rule market_frame(3)[OF e])
  obtain c st3 where c: "app_sess cpty st2 = (c, st3)" by fastforce
  obtain cp st4 where cp: "app_posn c m1 st3 = (cp, st4)" by fastforce
  obtain j m2 where j: "alloc_id m1 = (j, m2)" by fastforce
  obtain e2 st5 where e2: "alloc_exec (exec_opposite j (a_execs (put_market m2 st4) e)) (put_market m2 st4) = (e2, st5)" by fastforce
  have ok: "set_ok m_id (a_markets st1)" using 1 by (simp add: chartered_def)
  have mid: "m_id m1 = mid" using m1 get_market_id[OF ok 1(2)] by (simp add: market_terms_def)
  have 3: "get_market st2 mid = Some m1" using 1(2) ok mid by (simp add: mk get_market_put_market)
  have 4: "chartered C st4" "get_market st4 mid = Some m1"
    using 2 3 by (simp_all add: under_alloc(3)[OF cp] under_alloc(4)[OF c] market_frame(1)[OF cp] market_frame(2)[OF c])
  have 5: "chartered C st5" using new_exec_under[OF 4 j e2] .
  show ?thesis unfolding app_create_trade_def s m prod.case option.case Let_def p i
    unfolding ex_def[symmetric] e prod.case c cp j e2
    by (auto intro!: keeps_mq book_keeps 2 5)
qed (auto simp: app_create_trade_def split: option.split)

end
