(* ===== verification/App_Example.thy ===== *)
theory App_Example
  imports App_Step
begin

text \<open>
  Small engines to evaluate the properties on: one market, two sessions, one order to sell. They
  are the states behind lists of calls, so they can be reached (\<open>ex_reach\<close>, \<open>ex_tight_reach\<close>,
  \<open>ex_traded_reach\<close>).
\<close>

text \<open>\<open>live\<close> computed from the markets that there are.\<close>

lemma set_find_mem: "set_find key k s = Some v \<Longrightarrow> v \<in> set s \<and> key v = k"
  by (induction s) (auto simp: set_find_def lower_bound_def split: if_splits)

lemma live_code [code]: "live st p \<longleftrightarrow> (\<exists>m\<in>set (a_markets st). get_market st (m_id m) = Some m \<and> p \<in> listed m)"
  using set_find_mem[of m_id _ "a_markets st"] unfolding live_def get_market_def by blast

definition ex_jd :: "int \<Rightarrow> jday" where
  "ex_jd t = 0"

definition ex_order :: order where
  "ex_order = make_order [] 0 [] 0 0 [] NoSide 0 0 0 0"

definition ex_instr :: instr where
  "ex_instr = \<lparr>i_id = 1, i_symbol = ''EURUSD'', i_display = ''EURUSD'', i_base_asset = ''EUR'', i_term_ccy = ''USD'',
     i_lot_numer = 1, i_lot_denom = 1, i_tick_numer = 1, i_tick_denom = 1, i_pip_dp = 4, i_min_lots = 1, i_max_lots = 10\<rparr>"

text \<open>An empty engine with a queue of the capacity.\<close>

definition ex_start :: "nat \<Rightarrow> app" where
  "ex_start capacity = make_app ex_order (new_exec ex_order 0 0) (new_posn [] 0 [] 0) (make_ring (MsgUpdateMarket 0 0) capacity) 4"

definition ex_mid :: id64 where
  "ex_mid = 115904"

text \<open>The state behind a list of calls.\<close>

fun calls :: "call list \<Rightarrow> app \<Rightarrow> app option" where
  "calls [] st = Some st"
| "calls (c # cs) st = (if call_ok st c then (case left_by (do_call ex_jd c st) of
     None \<Rightarrow> None | Some st' \<Rightarrow> calls cs st') else None)"

lemma calls_reach: "calls cs st = Some st' \<Longrightarrow> reach ex_jd st \<Longrightarrow> reach ex_jd st'"
proof (induction cs arbitrary: st)
  case (Cons c cs)
  then show ?case using step_call reach_step by (fastforce split: if_splits option.splits)
qed simp

lemma start_reach: "capacity = 8 \<or> capacity = 4 \<Longrightarrow> reach ex_jd (ex_start capacity)"
  unfolding ex_start_def by (rule reach_start) (auto simp: is_pow2_def)

definition ex_setup :: "call list" where
  "ex_setup = [CreateMarket ex_instr 0 0 1, FindSess ''A'', FindSess ''B'', CreateOrder ''A'' ex_mid ''x'' Sell 10 100 1 2]"

section \<open>What the state holds\<close>

definition ex_sell :: order where
  "ex_sell = \<lparr>r_accnt = ''A'', r_market_id = ex_mid, r_instr = ''EURUSD'', r_settl_day = 0, r_id = 1, r_ref = ''x'', r_side = Sell,
     r_lots = 10, r_created = 2, o_level = Some 100, o_state = New, o_ticks = 100, o_resd_lots = 10, o_exec_lots = 0,
     o_exec_cost = 0, o_last_lots = 0, o_last_ticks = 0, o_min_lots = 1, o_modified = 2\<rparr>"

definition ex_market :: market where
  "ex_market = \<lparr>m_id = ex_mid, m_instr = ''EURUSD'', m_settl_day = 0, m_state = 0, m_last_lots = 0, m_last_ticks = 0,
     m_last_time = 0, m_bid_side = \<lparr>ms_levels = [], ms_orders = []\<rparr>,
     m_offer_side = \<lparr>ms_levels = [\<lparr>l_first_order = 0, l_key = 100, l_ticks = 100, l_lots = 10, l_count = 1\<rparr>], ms_orders = [0]\<rparr>,
     m_max_id = 1\<rparr>"

definition ex_A :: sess where
  "ex_A = \<lparr>s_accnt = ''A'', s_orders = [0], s_execs = [0], s_max_execs = 4, s_trades = [], s_posns = [], s_ref_idx = [0]\<rparr>"

definition ex_B :: sess where
  "ex_B = \<lparr>s_accnt = ''B'', s_orders = [], s_execs = [], s_max_execs = 4, s_trades = [], s_posns = [], s_ref_idx = []\<rparr>"

definition ex_holds :: "nat \<Rightarrow> app \<Rightarrow> bool" where
  "ex_holds room st \<longleftrightarrow> get_market st ex_mid = Some ex_market \<and> get_sess st ''A'' = Some ex_A \<and> get_sess st ''B'' = Some ex_B
     \<and> a_orders st 0 = ex_sell \<and> a_next_order st = 1 \<and> ring_reserve (a_mq st) = room \<and> a_bus_day st = empty_cache"

lemma ex_run: "case calls ex_setup (ex_start 8) of None \<Rightarrow> False | Some st \<Rightarrow> ex_holds 6 st"
  by code_simp

lemma ex_tight_run: "case calls ex_setup (ex_start 4) of None \<Rightarrow> False | Some st \<Rightarrow> ex_holds 2 st"
  by code_simp

text \<open>A queue with room for six messages, and one with room for two.\<close>

definition ex_app :: app where
  "ex_app = the (calls ex_setup (ex_start 8))"

definition ex_tight :: app where
  "ex_tight = the (calls ex_setup (ex_start 4))"

lemma ex_reach: "reach ex_jd ex_app"
  using ex_run calls_reach[OF _ start_reach, of ex_setup 8] unfolding ex_app_def by (auto split: option.splits)

lemma ex_tight_reach: "reach ex_jd ex_tight"
  using ex_tight_run calls_reach[OF _ start_reach, of ex_setup 4] unfolding ex_tight_def by (auto split: option.splits)

lemma ex_facts:
  "get_market ex_app ex_mid = Some ex_market" "get_sess ex_app ''A'' = Some ex_A" "get_sess ex_app ''B'' = Some ex_B"
  "a_orders ex_app 0 = ex_sell" "a_next_order ex_app = 1" "ring_reserve (a_mq ex_app) = 6" "a_bus_day ex_app = empty_cache"
  using ex_run unfolding ex_app_def ex_holds_def by (auto split: option.splits)

lemma ex_tight_facts:
  "get_market ex_tight ex_mid = Some ex_market" "get_sess ex_tight ''A'' = Some ex_A" "get_sess ex_tight ''B'' = Some ex_B"
  "a_orders ex_tight 0 = ex_sell" "a_next_order ex_tight = 1" "ring_reserve (a_mq ex_tight) = 2" "a_bus_day ex_tight = empty_cache"
  using ex_tight_run unfolding ex_tight_def ex_holds_def by (auto split: option.splits)

section \<open>After a trade\<close>

text \<open>A trade of the second account that no order made.\<close>

definition ex_trade_calls :: "call list" where
  "ex_trade_calls = ex_setup @ [CreateTrade ''B'' ex_mid ''t'' Buy 4 100 Taker [] 3]"

definition ex_traded :: app where
  "ex_traded = the (calls ex_trade_calls (ex_start 8))"

definition ex_trade_holds :: "app \<Rightarrow> bool" where
  "ex_trade_holds st \<longleftrightarrow> get_sess st ''B'' = Some (ex_B\<lparr>s_execs := [1], s_trades := [1], s_posns := [0]\<rparr>)
     \<and> r_market_id (a_execs st 1) = ex_mid \<and> r_id (a_execs st 1) = 2 \<and> 1 \<le> ring_reserve (a_mq st)"

lemma ex_traded_run: "case calls ex_trade_calls (ex_start 8) of None \<Rightarrow> False | Some st \<Rightarrow> ex_trade_holds st"
  by code_simp

lemma ex_traded_reach: "reach ex_jd ex_traded"
  using ex_traded_run calls_reach[OF _ start_reach, of ex_trade_calls 8] unfolding ex_traded_def by (auto split: option.splits)

lemma ex_traded_facts:
  "get_sess ex_traded ''B'' = Some (ex_B\<lparr>s_execs := [1], s_trades := [1], s_posns := [0]\<rparr>)"
  "r_market_id (a_execs ex_traded 1) = ex_mid" "r_id (a_execs ex_traded 1) = 2" "1 \<le> ring_reserve (a_mq ex_traded)"
  using ex_traded_run unfolding ex_traded_def ex_trade_holds_def by (auto split: option.splits)

section \<open>Two sides\<close>

definition ex_two_calls :: "call list" where
  "ex_two_calls = ex_setup @ [CreateOrder ''B'' ex_mid [] Buy 3 99 1 3]"

definition ex_two :: app where
  "ex_two = the (calls ex_two_calls (ex_start 8))"

definition ex_two_holds :: "app \<Rightarrow> bool" where
  "ex_two_holds st \<longleftrightarrow> live st 0 \<and> live st 1 \<and> r_market_id (a_orders st 0) = ex_mid \<and> r_market_id (a_orders st 1) = ex_mid
     \<and> r_side (a_orders st 0) = Sell \<and> r_side (a_orders st 1) = Buy"

lemma ex_two_run: "case calls ex_two_calls (ex_start 8) of None \<Rightarrow> False | Some st \<Rightarrow> ex_two_holds st"
  by code_simp

lemma ex_two_reach: "reach ex_jd ex_two"
  using ex_two_run calls_reach[OF _ start_reach, of ex_two_calls 8] unfolding ex_two_def by (auto split: option.splits)

lemma ex_two_facts: "ex_two_holds ex_two"
  using ex_two_run unfolding ex_two_def by (auto split: option.splits)

section \<open>With reference data\<close>

text \<open>An engine that has loaded its instrument, with the same calls behind it: what requests by the instrument's symbol find.\<close>

definition ex_loaded :: app where
  "ex_loaded = (case app_load ex_jd (ref_data_model [] [ex_instr]) 0 (ex_start 8) of Done _ st \<Rightarrow> st | _ \<Rightarrow> ex_start 8)"

definition ex_rest :: app where
  "ex_rest = the (calls ex_setup ex_loaded)"

lemma ex_loaded_reach: "reach ex_jd ex_loaded"
proof -
  have p: "is_pow2 8" "2 \<le> (8::nat)" by (simp_all add: is_pow2_def)
  note L = reach_load[where local_jd = ex_jd, OF p, of "[]" "[ex_instr]" 0 ex_order "new_exec ex_order 0 0" "new_posn [] 0 [] 0" "MsgUpdateMarket 0 0" 4]
  show ?thesis using L by (simp add: ex_loaded_def ex_start_def load_ref_data)
qed

definition ex_rest_holds :: "app \<Rightarrow> bool" where
  "ex_rest_holds st \<longleftrightarrow> get_market st ex_mid = Some ex_market \<and> get_sess st ''A'' = Some ex_A \<and> get_sess st ''B'' = Some ex_B
     \<and> a_orders st 0 = ex_sell \<and> ring_reserve (a_mq st) = 6 \<and> a_instrs st = [ex_instr]"

lemma ex_rest_run: "case calls ex_setup ex_loaded of None \<Rightarrow> False | Some st \<Rightarrow> ex_rest_holds st"
  by code_simp

lemma ex_rest_reach: "reach ex_jd ex_rest"
  using ex_rest_run calls_reach[OF _ ex_loaded_reach, of ex_setup] unfolding ex_rest_def by (auto split: option.splits)

lemma ex_rest_facts:
  "get_market ex_rest ex_mid = Some ex_market" "get_sess ex_rest ''A'' = Some ex_A" "get_sess ex_rest ''B'' = Some ex_B"
  "a_orders ex_rest 0 = ex_sell" "ring_reserve (a_mq ex_rest) = 6" "a_instrs ex_rest = [ex_instr]"
  using ex_rest_run unfolding ex_rest_def ex_rest_holds_def by (auto split: option.splits)

end
