(* ===== verification/App_Refuse.thy ===== *)
theory App_Refuse
  imports App_Ledger
begin

text \<open>
  The creation of an order up to the point where it posts to the queue: whatever it does to the state by then,
  the accounts read as before (\<open>refused_order_ledger\<close>).
\<close>

definition ledger_step :: "app \<Rightarrow> app \<Rightarrow> bool" where
  "ledger_step st st' \<longleftrightarrow> (ledger_inv st \<longrightarrow> ledger_inv st' \<and> same_ledger st st')
     \<and> a_next_exec st \<le> a_next_exec st' \<and> (\<forall>e<a_next_exec st. a_execs st' e = a_execs st e)"

lemma ledger_step_refl [simp]: "ledger_step st st"
  by (simp add: ledger_step_def)

lemma ledger_step_trans: "ledger_step st1 st2 \<Longrightarrow> ledger_step st2 st3 \<Longrightarrow> ledger_step st1 st3"
  by (auto simp: ledger_step_def intro: same_ledger_trans)

lemma ledger_step_frame:
  assumes "a_sesss st' = a_sesss st" "a_posns st' = a_posns st" "a_next_posn st' = a_next_posn st" "a_max_execs st' = a_max_execs st"
    and "a_next_exec st \<le> a_next_exec st'" "\<And>e. e < a_next_exec st \<Longrightarrow> a_execs st' e = a_execs st e"
  shows "ledger_step st st'"
  using assms same_ledger_frame[OF assms(1,2,4)] by (simp add: ledger_step_def ledger_inv_def posn_inv_def get_sess_def)

lemma ledger_steps:
  "ledger_step st (put_market m st)" "ledger_step st (put_order p ord st)" "ledger_step st (on_market f m st)"
  "ledger_step st (st\<lparr>a_mq := q\<rparr>)" "ledger_step st (st\<lparr>a_bus_day := c\<rparr>)"
  "alloc_order ord st = (p, st') \<Longrightarrow> ledger_step st st'" "alloc_exec ex st = (e, st') \<Longrightarrow> ledger_step st st'"
  by (rule ledger_step_frame, auto simp: put_order_def on_market_def alloc_order_def alloc_exec_def split: prod.split)+

lemma ledger_step_posn:
  assumes "ledger_inv st" and "get_sess st a = Some s" and "app_posn s m st = (q, st')"
  shows "ledger_step st st'"
proof -
  have "a_next_exec st' = a_next_exec st" "a_execs st' = a_execs st"
    using assms(3) by (auto simp: app_posn_def split: prod.splits)
  then show ?thesis using app_posn_ledger_inv[OF assms] app_posn_ledger[OF assms] by (simp add: ledger_step_def)
qed

lemma ledger_stepD: "ledger_step st st' \<Longrightarrow> ledger_inv st \<Longrightarrow> ledger_inv st'"
  by (simp add: ledger_step_def)

lemma new_match_ledger:
  assumes inv: "ledger_inv st" and run: "new_match mid t p lots sl sc now st = Some (mt, st')"
  shows "ledger_step st st'"
proof -
  obtain m where m: "get_market st mid = Some m" using run by (auto simp: new_match_def Let_def split: option.splits)
  let ?m = "m\<lparr>m_max_id := m_max_id m + 1 + 1\<rparr>"
  obtain s where s: "get_sess st (r_accnt (a_orders st p)) = Some s"
    using run m by (auto simp: new_match_def alloc_id_def Let_def split: option.splits)
  obtain q st2 where q: "app_posn s ?m (put_market ?m st) = (q, st2)" by fastforce
  have s': "get_sess (put_market ?m st) (r_accnt (a_orders st p)) = Some s" using s by simp
  note S1 = ledger_steps(1)[of st ?m]
  note S2 = ledger_step_trans[OF S1 ledger_step_posn[OF ledger_stepD[OF S1 inv] s' q]]
  obtain ex1 ex2 e1 e2 st3 where "alloc_exec ex1 st2 = (e1, st3)" "alloc_exec ex2 st3 = (e2, st')"
    using run m s q by (auto simp: new_match_def alloc_id_def Let_def split: prod.splits)
  then show ?thesis using ledger_step_trans[OF S2 ledger_step_trans[OF ledger_steps(7) ledger_steps(7)]] by blast
qed

lemma match_loop_ledger:
  assumes "ledger_inv st" and "match_loop accnt mid t d now makers x (st, resp) = Done x' (st', resp')"
  shows "ledger_step st st'"
  using assms
proof (induction makers arbitrary: x st resp)
  case (Cons p makers)
  show ?case
  proof (cases "x_sum_lots x = o_resd_lots (a_orders st t) \<or> spread (a_orders st t) (a_orders st p) d > 0")
    case True
    then show ?thesis using Cons.prems(2) by (auto simp: Let_def split: if_splits)
  next
    case False
    then obtain lots sl sc mt st1 x1 resp1 where n: "new_match mid t p lots sl sc now st = Some (mt, st1)"
        "match_loop accnt mid t d now makers x1 (st1, resp1) = Done x' (st', resp')"
      using Cons.prems(2) by (auto simp: Let_def split: option.splits prod.splits)
    note S = new_match_ledger[OF Cons.prems(1) n(1)]
    show ?thesis by (rule ledger_step_trans[OF S Cons.IH[OF ledger_stepD[OF S Cons.prems(1)] n(2)]])
  qed
qed simp

lemma match_loop_no_throw: "match_loop accnt mid t d now makers x z \<noteq> Throw e z'"
  by (induction accnt mid t d now makers x z rule: match_loop.induct) (auto simp: Let_def split: option.split)

lemma match_orders_ledger:
  assumes "ledger_inv st" and "match_orders accnt mid t now ex (st, resp) = Done x (st', resp')"
  shows "ledger_step st st'"
proof -
  obtain m where m: "get_market st mid = Some m" using assms(2) by (auto simp: match_orders_def split: option.splits)
  obtain sd d where sd: "match_side (a_orders st t) m = (sd, d)" by fastforce
  let ?run = "match_loop accnt mid t d now (ms_orders sd)
      \<lparr>x_sum_lots = 0, x_sum_cost = 0, x_last_lots = 0, x_last_ticks = 0, x_matches = [], x_execs = [ex]\<rparr> (st, resp)"
  obtain x0 z where r: "?run = Done x0 z"
    using assms(2) m sd by (cases ?run) (auto simp: match_orders_def Let_def obind_def)
  obtain st1 resp1 where z: "z = (st1, resp1)" by fastforce
  note l = r[unfolded z]
  have st': "st' = st1 \<or> (\<exists>ord. st' = put_order t ord st1)"
    using assms(2) m sd l by (cases "x_matches x0 = []") (auto simp: match_orders_def Let_def obind_def)
  from st' have "ledger_step st1 st'" using ledger_steps(2) by auto
  with match_loop_ledger[OF assms(1) l] show ?thesis by (rule ledger_step_trans)
qed

lemma finish_order_ledger:
  assumes inv: "ledger_inv st" and run: "finish_order accnt mid p ex now x (st, resp) = Throw e (st', resp')"
  shows "ledger_step st st'"
proof -
  obtain s m where s: "get_sess st accnt = Some s" and m: "get_market st mid = Some m"
    using run by (auto simp: finish_order_def Let_def split: option.splits)
  obtain posn st1 where b: "(if x_matches x \<noteq> [] then app_posn s m st else (0, st)) = (posn, st1)" by fastforce
  have S1: "ledger_step st st1"
    using b ledger_step_posn[OF inv s] by (auto split: if_splits)
  define st2 where "st2 = (if \<not> order_done (a_orders st1 p) then on_market (market_insert_order p) m st1 else st1)"
  have S2: "ledger_step st st2" using ledger_step_trans[OF S1] ledger_steps(3) by (auto simp: st2_def)
  have "\<exists>q f m'. st' = st2\<lparr>a_mq := q\<rparr> \<or> st' = on_market f m' (st2\<lparr>a_mq := q\<rparr>)"
    using run s m b unfolding finish_order_def st2_def
    by (auto simp: Let_def split: outcome.splits if_splits option.splits)
  then have "ledger_step st2 st'" using ledger_steps(3,4) ledger_step_trans by blast
  with S2 show ?thesis by (rule ledger_step_trans)
qed

lemma refused_order_ledger:
  assumes inv: "ledger_inv st"
    and run: "app_create_order local_jd accnt mid ref sd lots ticks min_lots now (st, resp) = Throw e (st', resp')"
  shows "ledger_step st st'"
proof -
  obtain s m where s: "get_sess st accnt = Some s" and m: "get_market st mid = Some m"
    using run by (auto simp: app_create_order_def split: option.splits)
  define st0 where "st0 = st\<lparr>a_bus_day := snd (bus_day local_jd now (a_bus_day st))\<rparr>"
  have S0: "ledger_step st st0" unfolding st0_def by (rule ledger_steps(5))
  show ?thesis
  proof (cases "ref_taken st s ref \<or> closed local_jd st m now \<or> lots = 0 \<or> lots < min_lots")
    case True
    then have "st' = st \<or> st' = st0" using run s m
      by (auto simp: app_create_order_def ref_taken_def closed_def st0_def Let_def split: prod.splits if_splits)
    then show ?thesis using S0 by auto
  next
    case False
    let ?m = "m\<lparr>m_max_id := m_max_id m + 1\<rparr>" and ?ord = "created_order s m ref sd lots ticks min_lots now"
    obtain p st1 where p: "alloc_order ?ord (put_market ?m st0) = (p, st1)" by fastforce
    obtain ex st2 where ex: "alloc_exec (new_exec (a_orders st1 p) (m_max_id m + 1) now) st1 = (ex, st2)" by fastforce
    have g: "\<not> ref_taken st s ref" "\<not> closed local_jd st m now" "lots \<noteq> 0" "min_lots \<le> lots" using False by auto
    have S2: "ledger_step st st2"
      by (rule ledger_step_trans[OF S0 ledger_step_trans[OF ledger_steps(1) ledger_step_trans[OF ledger_steps(6)[OF p] ledger_steps(7)[OF ex]]]])
    note inv2 = ledger_stepD[OF S2 inv]
    let ?resp = "resp_insert_exec ex (resp_insert_order p resp)"
    have r: "obind (match_orders accnt mid p now ex (st2, ?resp)) (\<lambda>x. finish_order accnt mid p ex now x) = Throw e (st', resp')"
      using run app_create_order_eq[OF s m g st0_def p ex] by simp
    show ?thesis
    proof (cases "match_orders accnt mid p now ex (st2, ?resp)")
      case (Done x z)
      obtain st3 resp3 where z: "z = (st3, resp3)" by fastforce
      note S3 = ledger_step_trans[OF S2 match_orders_ledger[OF inv2 Done[unfolded z]]]
      have "finish_order accnt mid p ex now x (st3, resp3) = Throw e (st', resp')" using r Done z by simp
      from ledger_step_trans[OF S3 finish_order_ledger[OF ledger_stepD[OF S3 inv] this]] show ?thesis .
    next
      case (Throw e' z)
      have False using Throw match_loop_no_throw
        by (auto simp: match_orders_def obind_def Let_def split: option.splits prod.splits outcome.splits if_splits)
      then show ?thesis ..
    next
      case Undef
      then show ?thesis using r by simp
    qed
  qed
qed

end
