(* ===== verification/Byte_Buffer.thy ===== *)
theory Byte_Buffer
  imports Prelude
begin

text \<open>
  \<open>Buffer\<close> (\<open>sys/Buffer.hpp\<close>, \<open>sys/Buffer.cpp\<close>): the bytes between a connection and its stream. A reader
  consumes at the front; a writer prepares space behind the bytes that are ready, writes into it and
  commits. The locale \<open>byte_buffer\<close> is what the streams of \<open>web/Stream.cpp\<close> and \<open>fix/Stream.cpp\<close> rely on; it is
  interpreted here on the buffer.
\<close>

section \<open>State and operations\<close>

record buffer =
  bf_rpos :: nat
  bf_wpos :: nat
  bf_bytes :: string

definition buf_new :: buffer where
  "buf_new = \<lparr>bf_rpos = 0, bf_wpos = 0, bf_bytes = []\<rparr>"

definition buf_size :: "buffer \<Rightarrow> nat" where
  "buf_size b = bf_wpos b - bf_rpos b"

definition buf_empty :: "buffer \<Rightarrow> bool" where
  "buf_empty b \<longleftrightarrow> buf_size b = 0"

definition buf_data :: "buffer \<Rightarrow> string" where
  "buf_data b = take (buf_size b) (drop (bf_rpos b) (bf_bytes b))"

definition buf_data_limit :: "nat \<Rightarrow> buffer \<Rightarrow> string" where
  "buf_data_limit limit b = take (min limit (buf_size b)) (drop (bf_rpos b) (bf_bytes b))"

definition buf_clear :: "buffer \<Rightarrow> buffer" where
  "buf_clear b = b\<lparr>bf_rpos := 0, bf_wpos := 0, bf_bytes := []\<rparr>"

definition buf_commit :: "nat \<Rightarrow> buffer \<Rightarrow> buffer" where
  "buf_commit count b = b\<lparr>bf_wpos := bf_wpos b + count\<rparr>"

definition shrink_threshold :: nat where
  "shrink_threshold = 1024"

text \<open>The bytes that are left move to the front once enough is unused there.\<close>

definition buf_consume :: "nat \<Rightarrow> buffer \<Rightarrow> buffer" where
  "buf_consume count b =
     (if count = 0 then b
      else let b = b\<lparr>bf_rpos := bf_rpos b + count\<rparr>
           in if shrink_threshold \<le> bf_rpos b \<and> length (bf_bytes b) div 2 \<le> bf_rpos b
              then let n = buf_size b
                   in b\<lparr>bf_bytes := buf_data b @ drop n (bf_bytes b), bf_rpos := 0, bf_wpos := n\<rparr>
              else b)"

definition buf_unused :: "buffer \<Rightarrow> nat" where
  "buf_unused b = length (bf_bytes b) - bf_wpos b"

text \<open>Space for a number of bytes: new ones are zero.\<close>

definition buf_prepare :: "nat \<Rightarrow> buffer \<Rightarrow> buffer" where
  "buf_prepare count b =
     (let n = buf_unused b
      in if count > n then b\<lparr>bf_bytes := bf_bytes b @ replicate (count - n) CHR 0x00\<rparr> else b)"

text \<open>A write of characters into the space, at an offset from its start.\<close>

definition buf_poke :: "nat \<Rightarrow> string \<Rightarrow> buffer \<Rightarrow> buffer" where
  "buf_poke off s b =
     b\<lparr>bf_bytes := take (bf_wpos b + off) (bf_bytes b) @ s @ drop (bf_wpos b + off + length s) (bf_bytes b)\<rparr>"

text \<open>\<open>advance\<close>: the rest of a view.\<close>

definition advance_view :: "string \<Rightarrow> nat \<Rightarrow> string" where
  "advance_view buf n = drop (min n (length buf)) buf"

section \<open>The interface\<close>

text \<open>What can be read is \<open>ready\<close>; the space behind it is \<open>space\<close>.\<close>

locale byte_buffer =
  fixes ok :: "'b \<Rightarrow> bool" and ready :: "'b \<Rightarrow> string" and space :: "'b \<Rightarrow> string"
    and prepare :: "nat \<Rightarrow> 'b \<Rightarrow> 'b" and poke :: "nat \<Rightarrow> string \<Rightarrow> 'b \<Rightarrow> 'b" and commit :: "nat \<Rightarrow> 'b \<Rightarrow> 'b" and consume :: "nat \<Rightarrow> 'b \<Rightarrow> 'b"
  assumes prepare: "ok b \<Longrightarrow> ok (prepare n b) \<and> ready (prepare n b) = ready b
      \<and> n \<le> length (space (prepare n b)) \<and> (\<exists>t. space (prepare n b) = space b @ t)"
    and poke: "ok b \<Longrightarrow> k + length s \<le> length (space b) \<Longrightarrow> ok (poke k s b) \<and> ready (poke k s b) = ready b
      \<and> space (poke k s b) = take k (space b) @ s @ drop (k + length s) (space b)"
    and commit: "ok b \<Longrightarrow> n \<le> length (space b) \<Longrightarrow> ok (commit n b) \<and> ready (commit n b) = ready b @ take n (space b)"
    and consume: "ok b \<Longrightarrow> n \<le> length (ready b) \<Longrightarrow> ok (consume n b) \<and> ready (consume n b) = drop n (ready b)"
begin

text \<open>A text that is written but not committed.\<close>

definition written :: "string \<Rightarrow> 'b \<Rightarrow> bool" where
  "written t b \<longleftrightarrow> ok b \<and> length t \<le> length (space b) \<and> take (length t) (space b) = t"

lemma written_Nil: "ok b \<Longrightarrow> written [] b"
  by (simp add: written_def)

lemma written_put:
  assumes "written t b" and "length t + length s \<le> n"
  shows "written (t @ s) (poke (length t) s (prepare n b))" and "ready (poke (length t) s (prepare n b)) = ready b"
    and "n \<le> length (space (poke (length t) s (prepare n b)))"
proof -
  have b: "ok b" "take (length t) (space b) = t" "length t \<le> length (space b)" using assms(1) by (simp_all add: written_def)
  from prepare[OF b(1), of n] obtain u where u: "ok (prepare n b)" "ready (prepare n b) = ready b"
      "n \<le> length (space (prepare n b))" "space (prepare n b) = space b @ u" by blast
  have t: "take (length t) (space (prepare n b)) = t" using b(2,3) by (simp add: u(4))
  have "length t + length s \<le> length (space (prepare n b))" using u(3) assms(2) by linarith
  from poke[OF u(1) this] t u(2,3) assms(2)
  show "written (t @ s) (poke (length t) s (prepare n b))" "ready (poke (length t) s (prepare n b)) = ready b"
    "n \<le> length (space (poke (length t) s (prepare n b)))"
    by (auto simp: written_def min_def)
qed

lemma written_patch:
  assumes "written (t @ old @ u) b" and "length s = length old"
  shows "written (t @ s @ u) (poke (length t) s b)" and "ready (poke (length t) s b) = ready b"
    and "length (space (poke (length t) s b)) = length (space b)"
proof -
  have b: "ok b" "take (length (t @ old @ u)) (space b) = t @ old @ u" "length (t @ old @ u) \<le> length (space b)"
    using assms(1) by (simp_all only: written_def)
  obtain r where r: "space b = t @ old @ u @ r"
    using b(2) append_take_drop_id[of "length (t @ old @ u)" "space b"] by (metis append_assoc)
  have "length t + length s \<le> length (space b)" using b(3) assms(2) by simp
  from poke[OF b(1) this] show "written (t @ s @ u) (poke (length t) s b)" "ready (poke (length t) s b) = ready b"
    "length (space (poke (length t) s b)) = length (space b)"
    using assms(2) by (simp_all add: written_def r)
qed

lemma written_commit:
  assumes "written t b"
  shows "ok (commit (length t) b)" and "ready (commit (length t) b) = ready b @ t"
  using assms commit[of b "length t"] by (simp_all add: written_def)

lemma consume_all: "ok b \<Longrightarrow> ready (consume (length (ready b)) b) = []"
  using consume[of b "length (ready b)"] by simp

end

section \<open>The buffer has the interface\<close>

definition buf_ok :: "buffer \<Rightarrow> bool" where
  "buf_ok b \<longleftrightarrow> bf_rpos b \<le> bf_wpos b \<and> bf_wpos b \<le> length (bf_bytes b)"

definition buf_space :: "buffer \<Rightarrow> string" where
  "buf_space b = drop (bf_wpos b) (bf_bytes b)"

lemmas buffer_defs = buf_size_def buf_data_def buf_space_def buf_ok_def buf_unused_def

lemma buf_new_ok: "buf_ok buf_new" "buf_data buf_new = []"
  by (simp_all add: buffer_defs buf_new_def)

lemma buf_consume_data:
  assumes "buf_ok b" and "n \<le> length (buf_data b)"
  shows "buf_ok (buf_consume n b)" and "buf_data (buf_consume n b) = drop n (buf_data b)"
  using assms by (auto simp: buf_consume_def buffer_defs Let_def drop_take add.commute)

lemma buf_data_alt: "buf_data b = drop (bf_rpos b) (take (bf_wpos b) (bf_bytes b))"
  by (simp add: buf_data_def buf_size_def drop_take)

lemma buf_poke_facts:
  assumes "buf_ok b" and "k + length s \<le> length (buf_space b)"
  shows "buf_ok (buf_poke k s b)" and "buf_data (buf_poke k s b) = buf_data b"
    and "buf_space (buf_poke k s b) = take k (buf_space b) @ s @ drop (k + length s) (buf_space b)"
proof -
  let ?bs = "bf_bytes b" and ?w = "bf_wpos b"
  let ?new = "take (?w + k) ?bs @ s @ drop (?w + k + length s) ?bs"
  have new: "buf_poke k s b = b\<lparr>bf_bytes := ?new\<rparr>" by (simp add: buf_poke_def)
  have len: "?w + k + length s \<le> length ?bs" using assms by (auto simp: buf_ok_def buf_space_def)
  have pre: "take ?w ?new = take ?w ?bs" using len by (simp add: min_def)
  have post: "drop ?w ?new = take k (drop ?w ?bs) @ s @ drop (k + length s) (drop ?w ?bs)"
    using len by (simp add: drop_take add.commute add.left_commute)
  have d: "buf_data (b\<lparr>bf_bytes := x\<rparr>) = drop (bf_rpos b) (take (bf_wpos b) x)" for x by (simp add: buf_data_alt)
  show "buf_ok (buf_poke k s b)" using assms(1) len by (auto simp: new buf_ok_def min_def)
  show "buf_data (buf_poke k s b) = buf_data b" unfolding new d pre by (simp only: buf_data_alt)
  show "buf_space (buf_poke k s b) = take k (buf_space b) @ s @ drop (k + length s) (buf_space b)"
    using post by (simp add: new buf_space_def)
qed

interpretation bb: byte_buffer buf_ok buf_data buf_space buf_prepare buf_poke buf_commit buf_consume
proof (unfold_locales, goal_cases)
  case (1 b n)
  then show ?case by (auto simp: buffer_defs buf_prepare_def Let_def)
next
  case (2 b k s)
  then show ?case using buf_poke_facts by simp
next
  case (3 b n)
  then show ?case by (auto simp: buf_ok_def buf_space_def buf_commit_def buf_data_alt take_add)
next
  case (4 b n)
  then show ?case using buf_consume_data by blast
qed

end
