(* ===== verification/Component_Props.thy ===== *)
theory Component_Props
  imports App_Trade
begin

text \<open>
  The properties of the components below the engine: the queue of the journal, its messages, dates and
  market identifiers, the business-day cache, positions, executions, ordered sets, errors.
\<close>

section \<open>The queue\<close>

datatype 'v qop = Post 'v | Fetch

datatype 'v qres = Posted bool | Fetched "'v option"

text \<open>What a list of operations answers, on the array and on a bounded list.\<close>

fun ring_run :: "'v qop list \<Rightarrow> 'v ring \<Rightarrow> 'v qres list option" where
  "ring_run [] q = Some []"
| "ring_run (Post v # ops) q = (case ring_post v q of
     None \<Rightarrow> None | Some (ok, q') \<Rightarrow> map_option ((#) (Posted ok)) (ring_run ops q'))"
| "ring_run (Fetch # ops) q = (case ring_fetch q of
     None \<Rightarrow> None | Some (v, q') \<Rightarrow> map_option ((#) (Fetched v)) (ring_run ops q'))"

fun list_run :: "nat \<Rightarrow> 'v qop list \<Rightarrow> 'v list \<Rightarrow> 'v qres list" where
  "list_run cap [] xs = []"
| "list_run cap (Post v # ops) xs =
     (if length xs < cap then Posted True # list_run cap ops (xs @ [v]) else Posted False # list_run cap ops xs)"
| "list_run cap (Fetch # ops) [] = Fetched None # list_run cap ops []"
| "list_run cap (Fetch # ops) (x # xs) = Fetched (Some x) # list_run cap ops xs"

lemma ring_run_list:
  "ring_ok q \<Longrightarrow> ring_reserve q + length (ring_contents q) = cap \<Longrightarrow> ring_run ops q = Some (list_run cap ops (ring_contents q))"
proof (induction ops arbitrary: q)
  case (Cons op ops)
  show ?case
  proof (cases op)
    case (Post v)
    show ?thesis
    proof (cases "ring_reserve q = 0")
      case True
      then show ?thesis using Post ring_post_full[OF Cons.prems(1) True, of v] Cons by simp
    next
      case False
      then obtain q' where "ring_post v q = Some (True, q')" "ring_ok q'" "ring_contents q' = ring_contents q @ [v]"
          "ring_reserve q' = ring_reserve q - 1"
        using rq.post_room[OF Cons.prems(1), of v] by auto
      then show ?thesis using Post False Cons.IH[of q'] Cons.prems(2) by simp
    qed
  next
    case Fetch
    show ?thesis
    proof (cases "ring_contents q")
      case Nil
      then show ?thesis using Fetch ring_fetch_none[OF Cons.prems(1) Nil] Cons by simp
    next
      case (Cons x xs)
      then obtain q' where "ring_fetch q = Some (Some x, q')" "ring_ok q'" "ring_contents q' = xs" "ring_reserve q' = ring_reserve q + 1"
        using rq.fetch_some[OF Cons.prems(1) Cons] by auto
      then show ?thesis using Fetch Cons Cons.IH[of q'] Cons.prems(2) by simp
    qed
  qed
qed simp

text \<open>
  A queue whose capacity is a power of two, at least two, is a bounded first-in-first-out list: every
  sequence of posts and fetches gets the answers that the list gives, a post fails when the
  list has as many values as the capacity and only then, and no call spins.
\<close>

lemma queue_is_fifo:
  "is_pow2 capacity \<Longrightarrow> 2 \<le> capacity \<Longrightarrow> ring_run ops (make_ring zero capacity) = Some (list_run capacity ops [])"
  using ring_run_list[OF make_ring_ok(1), of capacity zero capacity ops] by (simp add: make_ring_ok)

lemma queue_is_fifo_witness:
  "ring_run [Post 1, Post 2, Post (3 :: nat), Fetch, Fetch, Fetch] (make_ring 0 2) =
     Some [Posted True, Posted True, Posted False, Fetched (Some 1), Fetched (Some 2), Fetched None]"
  using queue_is_fifo[of 2 "[Post 1, Post 2, Post (3 :: nat), Fetch, Fetch, Fetch]" 0] by (simp add: is_pow2_def)

text \<open>
  With any other capacity the constructor leaves array elements without a sequence number. As many
  messages as the requested capacity pass through the queue, and then every post fails, though the
  queue is empty and reports room for all of its array.
\<close>

lemma queue_gets_stuck:
  assumes "0 < capacity" and "capacity < next_pow2 capacity" and "length vs = capacity"
  shows "\<exists>q. pass_through vs (make_ring zero capacity) = Some q \<and> ring_post v q = Some (False, q)
    \<and> ring_reserve q = next_pow2 capacity"
proof -
  obtain q where q: "pass_through vs (make_ring zero capacity) = Some q" "passed capacity (0 + length vs) q"
    using pass_through_passed[OF make_ring_passed, of vs capacity zero] assms(3) by auto
  then have "passed capacity capacity q" using assms(3) by simp
  with passed_stuck[OF this assms(1,2)] q(1) show ?thesis by blast
qed

lemma queue_gets_stuck_witness:
  "\<exists>q. pass_through [1, 2, 3] (make_ring 0 3) = Some q \<and> ring_post (4 :: nat) q = Some (False, q) \<and> ring_reserve q = 4"
proof -
  have n: "next_pow2 3 = 4" by code_simp
  show ?thesis using queue_gets_stuck[of 3 "[1, 2, 3 :: nat]" 0 4] by (simp add: n)
qed

section \<open>Messages\<close>

text \<open>A trade and a queue with room for two messages.\<close>

definition ex_trade :: exec where
  "ex_trade = new_manual 1 ''EURUSD'' 0 7 ''A'' ''t'' Buy 10 100 20 2000 Taker ''C'' 5"

definition ex_ring :: msg_queue where
  "ex_ring = make_ring (MsgUpdateMarket 0 0) 2"

lemma ex_ring: "ring_ok ex_ring" "ring_reserve ex_ring = 2"
  unfolding ex_ring_def by (rule make_ring_ok; simp add: is_pow2_def)+

text \<open>
  The executions of one call are journalled together or not at all: with room for all of them they
  follow what the queue has, in order; with less it throws and the queue is as it was.
\<close>

lemma execs_all_or_nothing:
  assumes "ring_ok q"
  shows "if length exs \<le> ring_reserve q
    then \<exists>q'. mq_create_execs exs q = Done () q' \<and> ring_ok q' \<and> ring_contents q' = ring_contents q @ map exec_msg exs
      \<and> ring_reserve q' = ring_reserve q - length exs
    else mq_create_execs exs q = Throw QueueFull q"
  using mq_create_execs_ok[OF assms, of exs] mq_create_execs_full[of q exs] by simp

lemma execs_all_or_nothing_witness:
  "mq_create_execs [ex_trade, ex_trade, ex_trade] ex_ring = Throw QueueFull ex_ring"
  using execs_all_or_nothing[OF ex_ring(1), of "[ex_trade, ex_trade, ex_trade]"] by (simp add: ex_ring(2))

lemma chunk_length: "c \<in> set (chunks ids) \<Longrightarrow> length c \<le> max_ids"
proof (induction ids rule: chunks.induct)
  case (1 ids)
  then show ?case by (subst (asm) (2) chunks.simps) (auto split: if_splits)
qed

text \<open>
  A request to archive trades is sent as messages of at most 29 identifiers, which together have
  all of them in their order. Their number is the quotient rounded up, and one for an empty list:
  there is room for all, and all are sent, or not, and none is.
\<close>

lemma archive_in_chunks:
  assumes "ring_ok q"
  shows "concat (chunks ids) = ids \<and> (\<forall>c\<in>set (chunks ids). length c \<le> 29)
    \<and> length (chunks ids) = max 1 ((28 + length ids) div 29)
    \<and> (if length (chunks ids) \<le> ring_reserve q
       then \<exists>q'. mq_archive_trades mid ids now q = Done () q' \<and> ring_ok q'
         \<and> ring_contents q' = ring_contents q @ map (\<lambda>c. archive_msg mid c now) (chunks ids)
       else mq_archive_trades mid ids now q = Throw QueueFull q)"
proof (intro conjI)
  show len: "length (chunks ids) = max 1 ((28 + length ids) div 29)" by (simp add: length_chunks max_ids_def)
  show "if length (chunks ids) \<le> ring_reserve q
       then \<exists>q'. mq_archive_trades mid ids now q = Done () q' \<and> ring_ok q'
         \<and> ring_contents q' = ring_contents q @ map (\<lambda>c. archive_msg mid c now) (chunks ids)
       else mq_archive_trades mid ids now q = Throw QueueFull q"
  proof (cases "length (chunks ids) \<le> ring_reserve q")
    case True
    then show ?thesis unfolding if_P[OF True] by (intro mq_archive_trades_ok[OF assms]) (simp add: length_chunks)
  next
    case False
    then show ?thesis unfolding if_not_P[OF False] by (intro mq_archive_trades_full[OF assms]) (simp only: length_chunks not_le)
  qed
qed (use chunk_length[of _ ids] in \<open>simp_all add: concat_chunks max_ids_def\<close>)

lemma archive_in_chunks_witness: "mq_archive_trades 1 [1..40] 0 ex_ring \<noteq> Throw QueueFull ex_ring"
proof -
  have "length (chunks [1..40]) \<le> 2" by (simp add: length_chunks max_ids_def)
  with archive_in_chunks[OF ex_ring(1), of "[1..40]" 1 0] ex_ring(2) show ?thesis by auto
qed

section \<open>Dates and market identifiers\<close>

text \<open>
  From the year nought on, the ISO date of a Julian day converts back to the day.
\<close>

lemma iso_round_trip: "jd_min \<le> jd \<Longrightarrow> iso_to_jd (jd_to_iso jd) = jd"
  by (rule iso_to_jd_inverse)

lemma iso_round_trip_witness: "iso_to_jd (jd_to_iso 2456731) = 2456731 \<and> jd_to_iso 2456731 = 20140314"
proof -
  have "jd_to_iso 2456731 = 20140314" by code_simp
  then show ?thesis using iso_round_trip[of 2456731] by (simp add: jd_min_def)
qed

text \<open>
  Two markets have the same identifier only if instrument and settlement day are the same, for
  instrument identifiers below 2^15 and days within the 65536 that start at truncated Julian day 0.
\<close>

lemma market_id_injective:
  assumes "0 \<le> i" "i < 2 ^ 15" "0 \<le> i'" "i' < 2 ^ 15" and "0 \<le> jd_to_tjd d" "jd_to_tjd d < 2 ^ 16" "0 \<le> jd_to_tjd d'" "jd_to_tjd d' < 2 ^ 16"
    and eq: "to_market_id i d = to_market_id i' d'"
  shows "i = i' \<and> d = d'"
proof -
  have m: "to_market_id j e = j * 65536 + jd_to_tjd e" if "0 \<le> j" "j < 2 ^ 15" "0 \<le> jd_to_tjd e" "jd_to_tjd e < 2 ^ 16" for j e
  proof -
    have "to_market_id j e = j * 65536 + jd_to_tjd e mod 65536" by (rule to_market_id_eq) (use that in simp_all)
    then show ?thesis using that(3,4) by simp
  qed
  note a = m[OF assms(1,2,5,6)] and b = m[OF assms(3,4,7,8)]
  have "jd_to_tjd d < 65536" "jd_to_tjd d' < 65536" using assms(6,8) by simp_all
  then have "(i * 65536 + jd_to_tjd d) div 65536 = i" "(i' * 65536 + jd_to_tjd d') div 65536 = i'"
    using assms(5,7) by simp_all
  then have "i = i'" using eq[unfolded a b] by metis
  with eq[unfolded a b] show ?thesis by (simp add: jd_to_tjd_def)
qed

lemma market_id_injective_witness: "(1 :: int) = 1 \<and> (2456731 :: int) = 2456731"
  by (rule market_id_injective[OF _ _ _ _ _ _ _ _ refl]) (simp_all add: jd_to_tjd_def)

text \<open>
  Outside that window it is not injective: days that are a multiple of 65536 apart have the
  same identifier.
\<close>

lemma market_id_collides:
  assumes "\<bar>jd_to_tjd d\<bar> < 2 ^ 30" and "\<bar>65536 * k\<bar> < 2 ^ 30"
  shows "to_market_id i (d + 65536 * k) = to_market_id i d"
proof -
  have t: "jd_to_tjd (d + 65536 * k) = jd_to_tjd d + 65536 * k" by (simp add: jd_to_tjd_def)
  have "\<bar>jd_to_tjd d\<bar> < 1073741824" "\<bar>65536 * k\<bar> < 1073741824" using assms by simp_all
  then have "- 2147483648 \<le> jd_to_tjd d + 65536 * k" "jd_to_tjd d + 65536 * k < 2147483648"
    "- 2147483648 \<le> jd_to_tjd d" "jd_to_tjd d < 2147483648" by linarith+
  then have "int32 (jd_to_tjd (d + 65536 * k)) = jd_to_tjd d + 65536 * k" "int32 (jd_to_tjd d) = jd_to_tjd d"
    unfolding t by (simp_all add: int32_id)
  then show ?thesis by (simp add: to_market_id_def and_ffff)
qed

lemma market_id_collides_witness: "to_market_id 1 (2456731 + 65536 * 1) = to_market_id 1 2456731"
  by (rule market_id_collides) (simp_all add: jd_to_tjd_def)

section \<open>The business-day cache\<close>

fun bus_days :: "(int \<Rightarrow> jday) \<Rightarrow> nanos list \<Rightarrow> bus_day_cache \<Rightarrow> jday list" where
  "bus_days local_jd [] c = []"
| "bus_days local_jd (t # ts) c = (let (d, c) = bus_day local_jd t c in d # bus_days local_jd ts c)"

lemma bus_days_ok: "cache_ok local_jd c \<Longrightarrow> \<forall>t\<in>set ts. to_time_t t \<noteq> 0 \<Longrightarrow> bus_days local_jd ts c = map (local_jd \<circ> to_time_t) ts"
proof (induction ts arbitrary: c)
  case (Cons t ts)
  then show ?case using bus_day_ok[OF Cons.prems(1), of t] by (simp add: split_beta)
qed simp

text \<open>
  The two-entry cache makes no difference: a sequence of calls from the empty cache returns the days
  that the time zone gives, as long as no time is in the first second of the epoch.
\<close>

lemma bus_day_cache_transparent:
  "\<forall>t\<in>set ts. to_time_t t \<noteq> 0 \<Longrightarrow> bus_days local_jd ts empty_cache = map (local_jd \<circ> to_time_t) ts"
  by (rule bus_days_ok[OF cache_ok_empty])

lemma bus_day_cache_transparent_witness:
  "bus_days (\<lambda>t. t + 7) [5000000000, 6000000000, 5000000000] empty_cache = [12, 13, 12]"
proof -
  have t: "to_time_t 5000000000 = 5" "to_time_t 6000000000 = 6" by code_simp+
  then show ?thesis using bus_day_cache_transparent[of "[5000000000, 6000000000, 5000000000]" "\<lambda>t. t + 7"] by simp
qed

text \<open>
  In that second the empty cache matches, because its entries are zero-initialised, and the day is 0
  whatever the time zone says.
\<close>

lemma bus_day_first_second: "to_time_t now = 0 \<Longrightarrow> bus_day local_jd now empty_cache = (0, empty_cache)"
  by (simp add: bus_day_def empty_cache_def cache_get_def Let_def)

lemma bus_day_first_second_witness: "fst (bus_day (\<lambda>t. 2440588) 999999999 empty_cache) = 0"
proof -
  have "to_time_t 999999999 = 0" by code_simp
  from bus_day_first_second[OF this] show ?thesis by simp
qed

section \<open>Positions and executions\<close>

text \<open>A trade of a position: its side, lots and price.\<close>

definition add_trades :: "(side \<times> lots \<times> ticks) list \<Rightarrow> posn \<Rightarrow> posn" where
  "add_trades ts p = fold (\<lambda>(sd, n, t). add_trade sd n t) ts p"

lemma add_trades_snoc: "add_trades (ts @ [(sd, n, t)]) p = add_trade sd n t (add_trades ts p)"
  by (simp add: add_trades_def)

text \<open>
  After any trades of positive lots a position that started empty has their signed lots as its net
  lots and the gross lots and costs of each side, its net cost is zero when it is flat, and a
  further trade changes the net cost as the signed position says: a trade that opens, extends or
  reduces adds its cost, one that turns the position leaves the cost of what is left, one that closes it none.
\<close>

lemma posn_after_trades:
  assumes pos: "\<forall>(sd, n, t)\<in>set ts. 0 < n" and n: "0 < n" and p: "p = add_trades ts (new_posn a m i s)"
  shows "net_lots p = (\<Sum>(sd, n, t)\<leftarrow>ts. signed_lots sd n)
    \<and> p_buy_cost p = (\<Sum>(sd, n, t)\<leftarrow>ts. if sd = Buy then cost n t else 0)
    \<and> p_sell_cost p = (\<Sum>(sd, n, t)\<leftarrow>ts. if sd = Buy then 0 else cost n t)
    \<and> (net_lots p = 0 \<longrightarrow> p_net_cost p = 0)
    \<and> p_net_cost (add_trade sd n t p) = net_cost_after (net_lots p) (p_net_cost p) (signed_lots sd n) t"
proof -
  have "net_lots p = (\<Sum>(sd, n, t)\<leftarrow>ts. signed_lots sd n)
    \<and> p_buy_cost p = (\<Sum>(sd, n, t)\<leftarrow>ts. if sd = Buy then cost n t else 0)
    \<and> p_sell_cost p = (\<Sum>(sd, n, t)\<leftarrow>ts. if sd = Buy then 0 else cost n t) \<and> posn_ok p"
    unfolding p using pos
  proof (induction ts rule: rev_induct)
    case Nil
    then show ?case by (simp add: add_trades_def posn_defs posn_ok_def)
  next
    case (snoc x ts)
    obtain sd n t where x: "x = (sd, n, t)" by (cases x)
    from snoc show ?case by (simp add: x add_trades_snoc add_trade_gross posn_ok_add_trade)
  qed
  then show ?thesis using add_trade_net_cost[OF n, of p sd t] by (auto simp: posn_ok_def)
qed

lemma posn_after_trades_witness:
  "p_net_cost (add_trade Sell 15 110 (add_trades [(Buy, 10, 100)] (new_posn ''A'' 1 ''EURUSD'' 0))) = - 550"
  using posn_after_trades[of "[(Buy, 10, 100)]" 15 _ "''A''" 1 "''EURUSD''" 0 Sell 110, OF _ _ refl]
  by (simp add: net_cost_after_def signed_lots_def cost_def add_trades_def posn_defs)

text \<open>
  The opposite of the opposite of a trade with a counterparty is the trade, if its reference has no
  more than 64 characters. The opposite keeps the position quantities of the side it is made
  from, though they are not those of the counterparty.
\<close>

lemma opposite_twice:
  assumes "e_cpty ex \<noteq> []" and "length (r_ref ex) \<le> max_ref"
  shows "exec_opposite (r_id ex) (exec_opposite eid ex) = ex
    \<and> r_side (exec_opposite eid ex) = opposite_side (r_side ex) \<and> r_accnt (exec_opposite eid ex) = e_cpty ex
    \<and> e_posn_lots (exec_opposite eid ex) = e_posn_lots ex \<and> e_posn_cost (exec_opposite eid ex) = e_posn_cost ex"
  using exec_opposite_twice[OF assms] by (simp add: exec_opposite_def make_exec_def)

lemma opposite_twice_witness: "exec_opposite 7 (exec_opposite 8 ex_trade) = ex_trade"
proof -
  have "e_cpty ex_trade \<noteq> []" "length (r_ref ex_trade) \<le> max_ref" "r_id ex_trade = 7"
    by (simp_all add: ex_trade_def new_manual_def make_exec_def make_ref_def max_ref_def)
  with opposite_twice[of ex_trade 8] show ?thesis by simp
qed

section \<open>Ordered sets\<close>

text \<open>
  The ordered sets implement a map from keys: an insertion keeps what is there, a replacement does
  not, a removal removes, and each leaves a set that is sorted and without duplicate keys.
\<close>

lemma sets_refine_maps:
  assumes "set_ok key s"
  shows "set_ok key (set_insert key v s) \<and> set_ok key (set_insert_or_replace key v s) \<and> set_ok key (set_remove key v s)
    \<and> (\<lambda>k. set_find key k (set_insert key v s)) = (\<lambda>k. set_find key k s)(key v := Some (case set_find key (key v) s of None \<Rightarrow> v | Some w \<Rightarrow> w))
    \<and> (\<lambda>k. set_find key k (set_insert_or_replace key v s)) = (\<lambda>k. set_find key k s)(key v \<mapsto> v)
    \<and> (\<lambda>k. set_find key k (set_remove key v s)) = (\<lambda>k. set_find key k s)(key v := None)
    \<and> set s = {v. set_find key (key v) s = Some v}"
proof (intro conjI ext)
  show "set_ok key (set_insert key v s)" by (rule ks.inv_insert[OF assms])
  show "set_ok key (set_insert_or_replace key v s)" by (rule ks.inv_replace[OF assms])
  show "set_ok key (set_remove key v s)" by (rule ks.inv_remove[OF assms])
  fix k
  show "set_find key k (set_insert key v s) = ((\<lambda>k. set_find key k s)(key v := Some (case set_find key (key v) s of None \<Rightarrow> v | Some w \<Rightarrow> w))) k"
    by (cases "k = key v"; cases "set_find key (key v) s") (simp_all add: ks.find_insert[OF assms])
  show "set_find key k (set_insert_or_replace key v s) = ((\<lambda>k. set_find key k s)(key v \<mapsto> v)) k"
    by (simp add: ks.find_replace[OF assms])
  show "set_find key k (set_remove key v s) = ((\<lambda>k. set_find key k s)(key v := None)) k"
    by (simp add: ks.find_remove[OF assms])
next
  show "set s = {v. set_find key (key v) s = Some v}" by (simp add: set_find_Some_iff[OF assms])
qed

lemma sets_refine_maps_witness:
  "(\<lambda>k. set_find fst k (set_insert fst (1 :: int, ''b'') [(1, ''a''), (2, ''c'')])) = (\<lambda>k. set_find fst k [(1, ''a''), (2, ''c'')])"
proof -
  have "set_ok fst [(1 :: int, ''a''), (2, ''c'')]" by (simp add: set_ok_Cons)
  from sets_refine_maps[OF this, of "(1, ''b'')"]
  have "(\<lambda>k. set_find fst k (set_insert fst (1 :: int, ''b'') [(1, ''a''), (2, ''c'')])) = (\<lambda>k. set_find fst k [(1, ''a''), (2, ''c'')])
      (1 := Some (case set_find fst 1 [(1, ''a''), (2, ''c'')] of None \<Rightarrow> (1, ''b'') | Some w \<Rightarrow> w))" by (simp only: fst_conv)
  moreover have "set_find fst 1 [(1 :: int, ''a''), (2, ''c'')] = Some (1, ''a'')" by code_simp
  ultimately show ?thesis by (simp add: fun_upd_idem)
qed

section \<open>Errors\<close>

text \<open>
  The HTTP status of an error is its code without the last two digits, and 500 for the one exception
  that has no code; the status of an exception class is that of its base class.
\<close>

lemma status_of_code:
  "http_status e = (case error_code e of Some c \<Rightarrow> nat (c div 100) | None \<Rightarrow> 500)
    \<and> (case exn_base e of Some b \<Rightarrow> http_status e = http_status b | None \<Rightarrow> True)"
  by (cases e) (simp_all add: http_status_def error_code_def exn_base_def)

end
