(* ===== verification/Strings.thy ===== *)
theory Strings
  imports Prelude "HOL-Library.Word"
begin

text \<open>
  Text: the conversions and trimming functions of \<open>util/String.cpp\<close>, \<open>Tokeniser\<close> (\<open>util/Tokeniser.hpp\<close>),
  the bounded strings \<open>StringBuf\<close> and \<open>Symbol\<close> (\<open>util/StringBuf.hpp\<close>, \<open>util/Symbol.hpp\<close>), and the decimal
  numbers and joined lists that the stream operators of the standard library write.

  A \<open>string_view\<close> is a string; what an iterator into it can still see is a suffix.
\<close>

section \<open>Characters\<close>

definition code_of :: "char \<Rightarrow> nat" where
  "code_of c = of_char c"

definition is_space :: "char \<Rightarrow> bool" where
  "is_space c \<longleftrightarrow> code_of c = 32 \<or> 9 \<le> code_of c \<and> code_of c \<le> 13"

definition is_digit :: "char \<Rightarrow> bool" where
  "is_digit c \<longleftrightarrow> 48 \<le> code_of c \<and> code_of c \<le> 57"

definition digit_char :: "nat \<Rightarrow> char" where
  "digit_char d = char_of (48 + d)"

lemma code_digit_char [simp]: "d < 10 \<Longrightarrow> code_of (digit_char d) = 48 + d"
  by (simp add: code_of_def digit_char_def)

lemma digit_not_space: "is_digit c \<Longrightarrow> \<not> is_space c"
  by (auto simp: is_digit_def is_space_def)

lemma is_digit_char [simp]: "d < 10 \<Longrightarrow> is_digit (digit_char d)"
  by (simp add: is_digit_def)

section \<open>Numbers from text\<close>

text \<open>\<open>stou\<close>: leading white space, then digits, modulo the width; anything else ends the number.\<close>

fun stou_digits :: "'a::len word \<Rightarrow> string \<Rightarrow> 'a word" where
  "stou_digits u [] = u"
| "stou_digits u (c # cs) = (if is_digit c then stou_digits (u * 10 + of_nat (code_of c - 48)) cs else u)"

definition stou :: "string \<Rightarrow> 'a::len word" where
  "stou sv = stou_digits 0 (dropWhile is_space sv)"

definition stou16 :: "string \<Rightarrow> 16 word" where
  "stou16 sv = stou sv"

definition stou32 :: "string \<Rightarrow> 32 word" where
  "stou32 sv = stou sv"

definition stou64 :: "string \<Rightarrow> 64 word" where
  "stou64 sv = stou sv"

text \<open>
  \<open>stoi\<close>: with a sign. The value is the mathematical one: a number that does not fit overflows a signed
  integer, but for \<open>stoi16\<close>, which computes in \<open>int\<close> and cuts each result.
\<close>

fun stoi_digits :: "int \<Rightarrow> string \<Rightarrow> int" where
  "stoi_digits i [] = i"
| "stoi_digits i (c # cs) = (if is_digit c then stoi_digits (i * 10 + int (code_of c - 48)) cs else i)"

definition stoi :: "string \<Rightarrow> int" where
  "stoi sv = (case dropWhile is_space sv of
     [] \<Rightarrow> 0
   | c # cs \<Rightarrow>
       if c = CHR ''-'' then - stoi_digits 0 cs
       else if c = CHR ''+'' then stoi_digits 0 cs
       else stoi_digits 0 (c # cs))"

definition stoi16 :: "string \<Rightarrow> int" where
  "stoi16 sv = signed_take_bit 15 (stoi sv)"

definition stoi32 :: "string \<Rightarrow> int" where
  "stoi32 sv = stoi sv"

definition stoi64 :: "string \<Rightarrow> int" where
  "stoi64 sv = stoi sv"

text \<open>\<open>stob\<close>: each character in either case.\<close>

definition is_word :: "string \<Rightarrow> string \<Rightarrow> string \<Rightarrow> bool" where
  "is_word upper lower sv \<longleftrightarrow> length sv = length upper
     \<and> list_all (\<lambda>i. sv ! i = upper ! i \<or> sv ! i = lower ! i) [0..<length sv]"

definition stob :: "string \<Rightarrow> bool \<Rightarrow> bool" where
  "stob sv dfl =
     (if length sv = 1 then
        if hd sv \<in> set ''0FNfn'' then False else if hd sv \<in> set ''1TYty'' then True else dfl
      else if length sv = 2 then
        if is_word ''NO'' ''no'' sv then False else if is_word ''ON'' ''on'' sv then True else dfl
      else if length sv = 3 then
        if is_word ''OFF'' ''off'' sv then False else if is_word ''YES'' ''yes'' sv then True else dfl
      else if length sv = 4 then if is_word ''TRUE'' ''true'' sv then True else dfl
      else if length sv = 5 then if is_word ''FALSE'' ''false'' sv then False else dfl
      else dfl)"

section \<open>Trimming and splitting\<close>

definition ltrim :: "string \<Rightarrow> string" where
  "ltrim s = dropWhile is_space s"

definition rtrim :: "string \<Rightarrow> string" where
  "rtrim s = rev (dropWhile is_space (rev s))"

definition trim :: "string \<Rightarrow> string" where
  "trim s = rtrim (ltrim s)"

definition split_pair :: "string \<Rightarrow> char \<Rightarrow> string \<times> string" where
  "split_pair s delim = (case dropWhile (\<lambda>c. c \<noteq> delim) s of
     [] \<Rightarrow> (s, []) | _ # val \<Rightarrow> (takeWhile (\<lambda>c. c \<noteq> delim) s, val))"

text \<open>
  \<open>Tokeniser\<close>: the text from the iterator \<open>i_\<close> on, and the delimiters. The iterator \<open>j_\<close> is always at the
  first delimiter behind \<open>i_\<close>.
\<close>

record tokeniser =
  tk_rest :: string
  tk_delims :: string

definition tok_reset :: "string \<Rightarrow> string \<Rightarrow> tokeniser" where
  "tok_reset buf delims = \<lparr>tk_rest = buf, tk_delims = delims\<rparr>"

definition tok_empty :: "tokeniser \<Rightarrow> bool" where
  "tok_empty t \<longleftrightarrow> tk_rest t = []"

definition tok_top :: "tokeniser \<Rightarrow> string" where
  "tok_top t = takeWhile (\<lambda>c. c \<notin> set (tk_delims t)) (tk_rest t)"

definition tok_pop :: "tokeniser \<Rightarrow> tokeniser" where
  "tok_pop t = t\<lparr>tk_rest := (case dropWhile (\<lambda>c. c \<notin> set (tk_delims t)) (tk_rest t) of [] \<Rightarrow> [] | _ # r \<Rightarrow> r)\<rparr>"

text \<open>The tokens that a loop of \<open>top\<close> and \<open>pop\<close> sees until the tokeniser is empty.\<close>

lemma tok_pop_less: "\<not> tok_empty t \<Longrightarrow> length (tk_rest (tok_pop t)) < length (tk_rest t)"
proof -
  assume t: "\<not> tok_empty t"
  have "length (dropWhile (\<lambda>c. c \<notin> set (tk_delims t)) (tk_rest t)) \<le> length (tk_rest t)" by (rule length_dropWhile_le)
  then show ?thesis using t by (auto simp: tok_pop_def tok_empty_def split: list.split)
qed

function tokens :: "tokeniser \<Rightarrow> string list" where
  "tokens t = (if tok_empty t then [] else tok_top t # tokens (tok_pop t))"
  by pat_completeness auto

termination
  by (relation "measure (\<lambda>t. length (tk_rest t))") (simp_all add: tok_pop_less)

declare tokens.simps [simp del]

section \<open>Bounded strings\<close>

text \<open>\<open>StringBuf\<close>: what does not fit is cut, without an error.\<close>

definition buf_assign :: "nat \<Rightarrow> string \<Rightarrow> string" where
  "buf_assign max_n rhs = take max_n rhs"

definition buf_append :: "nat \<Rightarrow> string \<Rightarrow> string \<Rightarrow> string" where
  "buf_append max_n s rhs = s @ take (max_n - length s) rhs"

text \<open>
  \<open>Symbol\<close>: sixteen characters with zeros behind them, compared as a whole. The model drops the zeros at
  the end; the text of a symbol ends at its first zero.
\<close>

definition make_symbol :: "string \<Rightarrow> symbol" where
  "make_symbol s = rev (dropWhile (\<lambda>c. c = CHR 0x00) (rev (take 16 s)))"

definition symbol_text :: "symbol \<Rightarrow> string" where
  "symbol_text s = takeWhile (\<lambda>c. c \<noteq> CHR 0x00) s"

section \<open>Text from numbers and lists\<close>

fun show_nat :: "nat \<Rightarrow> string" where
  "show_nat n = (if n < 10 then [digit_char n] else show_nat (n div 10) @ [digit_char (n mod 10)])"

declare show_nat.simps [simp del]

definition show_int :: "int \<Rightarrow> string" where
  "show_int i = (if i < 0 then CHR ''-'' # show_nat (nat (- i)) else show_nat (nat i))"

text \<open>\<open>OStreamJoiner\<close>, and a joined list in brackets.\<close>

fun join_with :: "char \<Rightarrow> string list \<Rightarrow> string" where
  "join_with d [] = []"
| "join_with d [x] = x"
| "join_with d (x # y # ys) = x @ d # join_with d (y # ys)"

definition json_array :: "string list \<Rightarrow> string" where
  "json_array xs = ''['' @ join_with CHR '','' xs @ '']''"

section \<open>Reading what was written\<close>

lemma show_nat_digits: "\<forall>c\<in>set (show_nat n). is_digit c"
proof (induction n rule: show_nat.induct)
  case (1 n)
  then show ?case by (subst show_nat.simps) auto
qed

lemma show_nat_not_Nil [simp]: "show_nat n \<noteq> []"
  by (subst show_nat.simps) simp

lemma show_int_not_Nil [simp]: "show_int i \<noteq> []"
  by (simp add: show_int_def)

lemma stou_digits_append:
  "\<forall>c\<in>set s. is_digit c \<Longrightarrow> stou_digits u (s @ t) = stou_digits (stou_digits u s) t"
  by (induction s arbitrary: u) auto

lemma stou_digits_show: "stou_digits 0 (show_nat n) = (of_nat n :: 'a::len word)"
proof (induction n rule: show_nat.induct)
  case (1 n)
  show ?case
  proof (cases "n < 10")
    case True
    then show ?thesis by (subst show_nat.simps) simp
  next
    case False
    have "stou_digits 0 (show_nat n) = stou_digits (of_nat (n div 10) :: 'a word) [digit_char (n mod 10)]"
      using False by (subst show_nat.simps) (simp add: stou_digits_append[OF show_nat_digits] 1)
    also have "\<dots> = of_nat (n div 10) * 10 + of_nat (n mod 10)" by simp
    also have "\<dots> = of_nat (n div 10 * 10 + n mod 10)" by (simp only: of_nat_add of_nat_mult of_nat_numeral)
    finally show ?thesis by simp
  qed
qed

lemma stou_show: "stou (show_nat n) = of_nat n"
proof -
  have "dropWhile is_space (show_nat n) = show_nat n"
    using show_nat_digits[of n] digit_not_space by (cases "show_nat n") auto
  then show ?thesis by (simp add: stou_def stou_digits_show)
qed

text \<open>An integer comes back from its text: a negative one through two's complement is not read, its sign ends the number.\<close>

lemma stou64_show: "stou64 (show_nat n) = of_nat n"
  by (simp add: stou64_def stou_show)

lemma stou_minus: "stou (CHR ''-'' # s) = 0"
  by (simp add: stou_def is_space_def is_digit_def code_of_def)

lemma stoi_digits_append:
  "\<forall>c\<in>set s. is_digit c \<Longrightarrow> stoi_digits u (s @ t) = stoi_digits (stoi_digits u s) t"
  by (induction s arbitrary: u) auto

lemma stoi_digits_show: "stoi_digits 0 (show_nat n) = int n"
proof (induction n rule: show_nat.induct)
  case (1 n)
  show ?case
  proof (cases "n < 10")
    case True
    then show ?thesis by (subst show_nat.simps) simp
  next
    case False
    have "stoi_digits 0 (show_nat n) = stoi_digits (int (n div 10)) [digit_char (n mod 10)]"
      using False by (subst show_nat.simps) (simp add: stoi_digits_append[OF show_nat_digits] 1)
    also have "\<dots> = int (n div 10) * 10 + int (n mod 10)" by simp
    also have "\<dots> = int (n div 10 * 10 + n mod 10)" by (simp only: of_nat_add of_nat_mult of_nat_numeral)
    finally show ?thesis by simp
  qed
qed

lemma stoi_show: "stoi (show_int i) = i"
proof -
  have nat: "dropWhile is_space (show_nat n) = show_nat n" "hd (show_nat n) \<noteq> CHR ''-''" "hd (show_nat n) \<noteq> CHR ''+''" for n
    using show_nat_digits[of n] digit_not_space by (cases "show_nat n"; force simp: is_digit_def code_of_def)+
  have "\<not> is_space CHR ''-''" by (simp add: is_space_def code_of_def)
  moreover obtain c cs where "show_nat (nat i) = c # cs" by (cases "show_nat (nat i)") simp_all
  ultimately show ?thesis
    using nat[of "nat i"] stoi_digits_show[of "nat i"] stoi_digits_show[of "nat (- i)"] by (auto simp: stoi_def show_int_def)
qed

section \<open>Tokens of a joined list\<close>

lemma tokens_Nil [simp]: "tokens (tok_reset [] ds) = []"
  by (subst tokens.simps) (simp add: tok_empty_def tok_reset_def)

lemma tokens_Cons:
  assumes "set x \<inter> set ds = {}" and "d \<in> set ds"
  shows "tokens (tok_reset (x @ d # r) ds) = x # tokens (tok_reset r ds)"
proof -
  have "takeWhile (\<lambda>c. c \<notin> set ds) (x @ d # r) = x" "dropWhile (\<lambda>c. c \<notin> set ds) (x @ d # r) = d # r"
    using assms by (subst takeWhile_append2 dropWhile_append2; auto)+
  then show ?thesis by (subst tokens.simps) (simp add: tok_empty_def tok_reset_def tok_top_def tok_pop_def)
qed

lemma tokens_last:
  assumes "set x \<inter> set ds = {}" and "x \<noteq> []"
  shows "tokens (tok_reset x ds) = [x]"
proof -
  have "takeWhile (\<lambda>c. c \<notin> set ds) x = x" "dropWhile (\<lambda>c. c \<notin> set ds) x = []"
    using assms(1) by (auto simp: takeWhile_eq_all_conv dropWhile_eq_Nil_conv)
  note w = this
  have "tok_pop (tok_reset x ds) = tok_reset [] ds" "tok_top (tok_reset x ds) = x" "\<not> tok_empty (tok_reset x ds)"
    using assms(2) by (simp_all add: w tok_empty_def tok_reset_def tok_top_def tok_pop_def del: dropWhile_eq_Nil_conv takeWhile_eq_all_conv)
  then show ?thesis by (subst tokens.simps) simp
qed

lemma tokens_join:
  assumes "\<forall>x\<in>set xs. d \<notin> set x" and "xs = [] \<or> last xs \<noteq> []"
  shows "tokens (tok_reset (join_with d xs) [d]) = xs"
  using assms
proof (induction d xs rule: join_with.induct)
  case (2 d x)
  then show ?case by (auto intro: tokens_last)
next
  case (3 d x y ys)
  then show ?case by (subst join_with.simps, subst tokens_Cons) auto
qed simp

text \<open>A tokeniser is the list of its tokens: \<open>top\<close> is the first, \<open>pop\<close> drops it.\<close>

lemma tokens_unfold: "\<not> tok_empty t \<Longrightarrow> tokens t = tok_top t # tokens (tok_pop t)"
  by (subst tokens.simps) simp

lemma tokens_empty_iff: "tokens t = [] \<longleftrightarrow> tok_empty t"
  by (subst tokens.simps) simp

lemma tok_top_tokens: "tokens t = x # xs \<Longrightarrow> tok_top t = x \<and> tokens (tok_pop t) = xs"
  by (subst (asm) tokens.simps) (auto split: if_splits)

lemma tok_empty_facts: "tok_empty t \<Longrightarrow> tok_top t = [] \<and> tok_empty (tok_pop t)"
  by (simp add: tok_empty_def tok_top_def tok_pop_def)

end
