(* ===== verification/Var_Sub.thy ===== *)
theory Var_Sub
  imports Strings
begin

text \<open>
  \<open>VarSub\<close> (\<open>util/VarSub.cpp\<close>): the substitution of environment variables in a text. The environment is a
  parameter. A substitution that does not end is the value \<open>None\<close>.

  The theory shows that references without a cycle are expanded in full, and what becomes of the others: a
  loop is detected only where the position does not move.
\<close>

section \<open>Substitution of variables\<close>

definition str_erase :: "nat \<Rightarrow> nat \<Rightarrow> string \<Rightarrow> string" where
  "str_erase i n s = take i s @ drop (i + n) s"

definition str_replace :: "nat \<Rightarrow> nat \<Rightarrow> string \<Rightarrow> string \<Rightarrow> string" where
  "str_replace i n r s = take i s @ r @ drop (i + n) s"

text \<open>
  The loop of \<open>VarSub::substitute\<close>: the position of the opening brace and of the search, the position of the
  last substitution with the names substituted there, the state, and the set of the caller, which is missing at
  the top level. The result is whether the closing brace was found, the text, and the set of the caller.
\<close>

partial_function (option) substitute :: "(string \<Rightarrow> string) \<Rightarrow> string \<Rightarrow> nat \<Rightarrow> nat \<Rightarrow> nat \<Rightarrow> string set \<Rightarrow> char option
    \<Rightarrow> string set option \<Rightarrow> (bool \<times> string \<times> string set) option" where
  [code]: "substitute fn s i j pos inner st outer =
     (if length s \<le> j then Some (False, s, case outer of None \<Rightarrow> {} | Some seen \<Rightarrow> seen)
      else if st = Some CHR 0x5C then substitute fn (str_erase (j - 1) 1 s) i (j + 1) pos inner None outer
      else if st = Some CHR ''$'' \<and> s ! j = CHR ''{'' then
        Option.bind (substitute fn s (j - 1) (j + 1) 0 {} None (Some (if pos < j then {} else inner)))
          (\<lambda>(found, s', inner'). if found then substitute fn s' i (j - 1) (if pos < j then j else pos) inner' None outer
             else Some (False, s', case outer of None \<Rightarrow> {} | Some seen \<Rightarrow> seen))
      else if s ! j = CHR ''$'' \<or> s ! j = CHR 0x5C then substitute fn s i (j + 1) pos inner (Some (s ! j)) outer
      else if s ! j = CHR ''}'' \<and> outer \<noteq> None then
        (let seen = the outer; name = take (j - i - 2) (drop (i + 2) s) in
         if name \<notin> seen then Some (True, str_replace i (j - i + 1) (fn name) s, insert name seen)
         else Some (True, str_erase i (j - i + 1) s, seen))
      else substitute fn s i (j + 1) pos inner None outer)"

definition var_sub :: "(string \<Rightarrow> string) \<Rightarrow> string \<Rightarrow> string option" where
  "var_sub fn s = map_option (\<lambda>(found, s', seen). s') (substitute fn s 0 0 0 {} None None)"

section \<open>References without a cycle\<close>

text \<open>A text is made of characters that stand for themselves and of references to variables.\<close>

datatype piece = Lit char | Ref string

definition special :: "char \<Rightarrow> bool" where
  "special c \<longleftrightarrow> c = CHR ''$'' \<or> c = CHR 0x5C"

fun piece_ok :: "piece \<Rightarrow> bool" where
  "piece_ok (Lit c) = (\<not> special c)"
| "piece_ok (Ref x) = (\<forall>c\<in>set x. \<not> special c \<and> c \<noteq> CHR ''}'')"

fun render :: "piece list \<Rightarrow> string" where
  "render [] = []"
| "render (Lit c # ps) = c # render ps"
| "render (Ref x # ps) = ''${'' @ x @ CHR ''}'' # render ps"

fun expand :: "(string \<Rightarrow> string) \<Rightarrow> piece list \<Rightarrow> string" where
  "expand E [] = []"
| "expand E (Lit c # ps) = c # expand E ps"
| "expand E (Ref x # ps) = E x @ expand E ps"

text \<open>Each variable has a text of its own, which refers only to variables of a lower rank.\<close>

definition acyclic_env :: "(string \<Rightarrow> nat) \<Rightarrow> (string \<Rightarrow> piece list) \<Rightarrow> bool" where
  "acyclic_env rank env \<longleftrightarrow>
     (\<forall>x. list_all piece_ok (env x) \<and> (\<forall>y. Ref y \<in> set (env x) \<longrightarrow> rank y < rank x))"

lemma at_mid [simp]: "(d @ c # r) ! length d = c" "(d @ c # r) ! Suc (length d) = r ! 0" if "r \<noteq> []"
  using that by (simp_all add: nth_append)

text \<open>The inner call, where the rest of the name is \<open>y\<close>.\<close>

lemma substitute_name:
  assumes "\<forall>c\<in>set y. \<not> special c \<and> c \<noteq> CHR ''}''"
  shows "substitute fn (d @ ''${'' @ x @ y @ CHR ''}'' # r) (length d) (length d + 2 + length x) 0 {} None (Some seen)
    = (if x @ y \<in> seen then Some (True, d @ r, seen) else Some (True, d @ fn (x @ y) @ r, insert (x @ y) seen))"
  using assms
proof (induction y arbitrary: x)
  case Nil
  show ?case
    by (subst substitute.simps) (auto simp: nth_append str_erase_def str_replace_def Let_def numeral_3_eq_3)
next
  case (Cons c y)
  have "(d @ ''${'' @ x @ (c # y) @ CHR ''}'' # r) ! (length d + 2 + length x) = c" by (simp add: nth_append)
  with Cons.prems Cons.IH[of "x @ [c]"] show ?case
    by (subst substitute.simps) (simp add: special_def)
qed

lemma substitute_lit:
  assumes "\<not> special c"
  shows "substitute fn (d @ c # r) i (length d) pos inner None None
    = substitute fn (d @ c # r) i (Suc (length d)) pos inner None None"
  using assms by (subst substitute.simps) (simp add: special_def)

lemma substitute_ref:
  fixes d :: string and inner :: "string set" and pos :: nat
  assumes "piece_ok (Ref x)"
  defines "seen \<equiv> (if pos < length d + 1 then {} else inner)"
  shows "substitute fn (d @ ''${'' @ x @ CHR ''}'' # r) i (length d) pos inner None None
    = substitute fn (d @ (if x \<in> seen then [] else fn x) @ r) i (length d) (max pos (length d + 1)) (insert x seen) None None"
proof -
  have "substitute fn (d @ ''${'' @ x @ CHR ''}'' # r) (length d) (Suc (Suc (length d))) 0 {} None (Some seen)
      = (if x \<in> seen then Some (True, d @ r, seen) else Some (True, d @ fn x @ r, insert x seen))"
    using substitute_name[of x fn d "[]" r seen] assms(1) by simp
  then show ?thesis
    unfolding seen_def
    by (subst substitute.simps, subst substitute.simps)
      (auto simp: insert_absorb max_def nth_append)
qed

text \<open>
  A name that was already substituted at a position has an empty text, or is one whose text is being
  scanned, which cannot refer to it.
\<close>

lemma substitute_pieces:
  assumes env: "acyclic_env rank env" and fn: "\<forall>x. fn x = render (env x)" and E: "\<forall>x. E x = expand E (env x)"
  shows "list_all piece_ok ps \<Longrightarrow> \<forall>y. Ref y \<in> set ps \<longrightarrow> rank y < n \<Longrightarrow> pos \<le> length d + 1 \<Longrightarrow>
    (pos = length d + 1 \<longrightarrow> (\<forall>y\<in>inner. E y = [] \<or> n \<le> rank y)) \<Longrightarrow>
    \<exists>pos' inner'. substitute fn (d @ render ps @ r) i (length d) pos inner None None
        = substitute fn (d @ expand E ps @ r) i (length d + length (expand E ps)) pos' inner' None None
      \<and> pos' \<le> length d + length (expand E ps) + 1
      \<and> (pos' = length d + length (expand E ps) + 1 \<longrightarrow>
           (\<forall>y\<in>inner'. E y = [] \<or> expand E ps = [] \<and> pos = length d + 1 \<and> y \<in> inner))"
proof (induction n arbitrary: ps d r pos inner rule: less_induct)
  case (less n)
  from less.prems show ?case
  proof (induction ps arbitrary: d pos inner)
    case Nil
    then show ?case by (intro exI[of _ pos] exI[of _ inner]) auto
  next
    case (Cons p ps)
    show ?case
    proof (cases p)
      case (Lit c)
      have "\<exists>pos' inner'. substitute fn ((d @ [c]) @ render ps @ r) i (length (d @ [c])) pos inner None None
          = substitute fn ((d @ [c]) @ expand E ps @ r) i (length (d @ [c]) + length (expand E ps)) pos' inner' None None
        \<and> pos' \<le> length (d @ [c]) + length (expand E ps) + 1
        \<and> (pos' = length (d @ [c]) + length (expand E ps) + 1 \<longrightarrow>
             (\<forall>y\<in>inner'. E y = [] \<or> expand E ps = [] \<and> pos = length (d @ [c]) + 1 \<and> y \<in> inner))"
        by (rule Cons.IH) (use Cons.prems in auto)
      then show ?thesis
        using Cons.prems Lit substitute_lit[of c fn d "render ps @ r" i pos inner] by auto
    next
      case (Ref x)
      define seen where "seen = (if pos < length d + 1 then {} else inner)"
      have x: "piece_ok (Ref x)" "rank x < n" using Cons.prems Ref by auto
      have seen: "E y = [] \<or> n \<le> rank y \<and> pos = length d + 1 \<and> y \<in> inner" if "y \<in> seen" for y
        using that Cons.prems(3,4) by (auto simp: seen_def split: if_splits)
      define d' where "d' = d @ E x"
      have step: "substitute fn (d @ render (p # ps) @ r) i (length d) pos inner None None
          = substitute fn (d @ (if x \<in> seen then [] else fn x) @ render ps @ r) i (length d) (length d + 1) (insert x seen) None None"
        using substitute_ref[OF x(1), of fn d "render ps @ r" i pos inner] Cons.prems(3) Ref
        by (simp add: seen_def max_def)
      have "\<exists>pos1 inner1. substitute fn (d @ render (p # ps) @ r) i (length d) pos inner None None
          = substitute fn (d' @ render ps @ r) i (length d') pos1 inner1 None None
        \<and> pos1 \<le> length d' + 1
        \<and> (pos1 = length d' + 1 \<longrightarrow> (\<forall>y\<in>inner1. E y = [] \<or> E x = [] \<and> pos = length d + 1 \<and> y \<in> inner \<and> n \<le> rank y))"
      proof (cases "x \<in> seen")
        case True
        then have "E x = []" using seen[of x] x(2) by auto
        then show ?thesis
          unfolding step d'_def using True seen by (intro exI[of _ "length d + 1"] exI[of _ "insert x seen"]) auto
      next
        case False
        have below: "\<forall>y\<in>insert x seen. E y = [] \<or> rank x \<le> rank y"
          using seen x(2) by fastforce
        have "\<exists>pos1 inner1. substitute fn (d @ render (env x) @ (render ps @ r)) i (length d) (length d + 1) (insert x seen) None None
            = substitute fn (d @ expand E (env x) @ (render ps @ r)) i (length d + length (expand E (env x))) pos1 inner1 None None
          \<and> pos1 \<le> length d + length (expand E (env x)) + 1
          \<and> (pos1 = length d + length (expand E (env x)) + 1 \<longrightarrow>
               (\<forall>y\<in>inner1. E y = [] \<or> expand E (env x) = [] \<and> length d + 1 = length d + 1 \<and> y \<in> insert x seen))"
          by (rule less.IH[OF x(2)]) (use env below in \<open>auto simp: acyclic_env_def\<close>)
        then obtain pos1 inner1 where
          one: "substitute fn (d @ render (env x) @ render ps @ r) i (length d) (length d + 1) (insert x seen) None None
            = substitute fn (d' @ render ps @ r) i (length d') pos1 inner1 None None" "pos1 \<le> length d' + 1"
            "pos1 = length d' + 1 \<Longrightarrow> y \<in> inner1 \<Longrightarrow> E y = [] \<or> E x = [] \<and> y \<in> insert x seen" for y
          using E[rule_format, of x] by (auto simp: d'_def)
        show ?thesis
          using False one seen unfolding step by (intro exI[of _ pos1] exI[of _ inner1]) (auto simp: fn)
      qed
      then obtain pos1 inner1 where
        one: "substitute fn (d @ render (p # ps) @ r) i (length d) pos inner None None
          = substitute fn (d' @ render ps @ r) i (length d') pos1 inner1 None None" "pos1 \<le> length d' + 1"
          "pos1 = length d' + 1 \<Longrightarrow> y \<in> inner1 \<Longrightarrow> E y = [] \<or> E x = [] \<and> pos = length d + 1 \<and> y \<in> inner \<and> n \<le> rank y" for y
        by blast
      have "\<exists>pos' inner'. substitute fn (d' @ render ps @ r) i (length d') pos1 inner1 None None
          = substitute fn (d' @ expand E ps @ r) i (length d' + length (expand E ps)) pos' inner' None None
        \<and> pos' \<le> length d' + length (expand E ps) + 1
        \<and> (pos' = length d' + length (expand E ps) + 1 \<longrightarrow>
             (\<forall>y\<in>inner'. E y = [] \<or> expand E ps = [] \<and> pos1 = length d' + 1 \<and> y \<in> inner1))"
        by (rule Cons.IH) (use Cons.prems one in auto)
      then obtain pos' inner' where
        two: "substitute fn (d' @ render ps @ r) i (length d') pos1 inner1 None None
          = substitute fn (d' @ expand E ps @ r) i (length d' + length (expand E ps)) pos' inner' None None"
          "pos' \<le> length d' + length (expand E ps) + 1"
          "pos' = length d' + length (expand E ps) + 1 \<Longrightarrow> y \<in> inner' \<Longrightarrow>
             E y = [] \<or> expand E ps = [] \<and> pos1 = length d' + 1 \<and> y \<in> inner1" for y
        by blast
      have ex: "d' @ expand E ps = d @ expand E (p # ps)" "length d' + length (expand E ps) = length d + length (expand E (p # ps))"
        using Ref by (simp_all add: d'_def)
      have "E y = [] \<or> expand E (p # ps) = [] \<and> pos = length d + 1 \<and> y \<in> inner"
        if "pos' = length d + length (expand E (p # ps)) + 1" "y \<in> inner'" for y
        using two(3)[of y] one(3)[of y] that Ref unfolding ex by auto
      then show ?thesis unfolding one(1) using two(1,2) unfolding ex append_assoc[symmetric]
        by (intro exI[of _ pos'] exI[of _ inner']) simp
    qed
  qed
qed

lemma substitute_end: "length s \<le> j \<Longrightarrow> substitute fn s i j pos inner st None = Some (False, s, {})"
  by (subst substitute.simps) simp


text \<open>
  A value whose variables have texts that refer to one another without a cycle is
  substituted, and every reference is replaced by the whole expansion of its variable.
\<close>

lemma substitution_expands:
  assumes "acyclic_env rank env" and "\<forall>x. fn x = render (env x)" and "\<forall>x. E x = expand E (env x)"
    and "list_all piece_ok ps"
  shows "var_sub fn (render ps) = Some (expand E ps)"
proof -
  define n where "n = Suc (Max (insert 0 (rank ` {y. Ref y \<in> set ps})))"
  have "finite {y. Ref y \<in> set ps}"
    by (rule finite_subset[OF _ finite_imageI[OF finite_set[of ps], of "case_piece (\<lambda>_. []) (\<lambda>y. y)"]]) force
  then have "\<forall>y. Ref y \<in> set ps \<longrightarrow> rank y < n" unfolding n_def by (auto simp: less_Suc_eq_le intro!: Max_ge)
  from substitute_pieces[OF assms(1-4) this, of 0 "[]" "{}" "[]"] show ?thesis
    by (auto simp: var_sub_def substitute_end)
qed

lemma substitution_expands_witness:
  "var_sub (\<lambda>x. if x = ''b'' then ''-${a}'' else if x = ''a'' then ''1'' else []) ''${b}/${b}'' = Some ''-1/-1''"
proof -
  let ?env = "\<lambda>x. if x = ''b'' then [Lit CHR ''-'', Ref ''a''] else if x = ''a'' then [Lit CHR ''1''] else []"
  let ?rank = "\<lambda>x. if x = ''b'' then 1 else (0 :: nat)"
  let ?E = "\<lambda>x. if x = ''b'' then ''-1'' else if x = ''a'' then ''1'' else []"
  have "acyclic_env ?rank ?env" by (auto simp: acyclic_env_def special_def)
  moreover have "\<forall>x. (if x = ''b'' then ''-${a}'' else if x = ''a'' then ''1'' else []) = render (?env x)" by simp
  moreover have "\<forall>x. ?E x = expand ?E (?env x)" by simp
  moreover have "list_all piece_ok [Ref ''b'', Lit CHR ''/'', Ref ''b'']" by (simp add: special_def)
  ultimately have "var_sub (\<lambda>x. if x = ''b'' then ''-${a}'' else if x = ''a'' then ''1'' else [])
      (render [Ref ''b'', Lit CHR ''/'', Ref ''b'']) = Some (expand ?E [Ref ''b'', Lit CHR ''/'', Ref ''b''])"
    by (rule substitution_expands)
  then show ?thesis by simp
qed

text \<open>
  A backslash takes the character after the escaped one with it: the position moves on although the text
  behind it has moved up.
\<close>

lemma escape_skips_one:
  "var_sub (\<lambda>x. ''1'') ([CHR 0x5C] @ ''a${v}'') = Some ''a${v}''" "var_sub (\<lambda>x. ''1'') ([CHR 0x5C] @ ''ab${v}'') = Some ''ab1''"
  by code_simp+

text \<open>
  Loops are found only where the position does not move. A variable that has a character before a reference
  to itself makes the text grow for ever.
\<close>

abbreviation growing :: "nat \<Rightarrow> string" where
  "growing k \<equiv> replicate k CHR ''x'' @ ''${a}''"

lemma growing_at: "growing k ! k = CHR ''$''" "growing k ! Suc k = CHR ''{''" "growing k ! Suc (Suc k) = CHR ''a''"
  "growing k ! Suc (Suc (Suc k)) = CHR ''}''" "growing (Suc k) ! k = CHR ''x''" "length (growing k) = k + 4"
  by (simp_all add: nth_append del: replicate_Suc)

lemma growing_name: "take (Suc 0) (drop (Suc (Suc k)) (growing k)) = ''a''"
  "str_replace k (Suc (Suc (Suc (Suc 0)))) ''x${a}'' (growing k) = growing (Suc k)"
  by (simp_all add: str_replace_def replicate_append_same[symmetric])

text \<open>What a call that returns would have to return: nothing, but for the inner calls.\<close>

definition growing_result :: "(string \<Rightarrow> string) \<Rightarrow> string \<Rightarrow> nat \<Rightarrow> nat \<Rightarrow> nat \<Rightarrow> string set \<Rightarrow> char option
    \<Rightarrow> string set option \<Rightarrow> bool \<times> string \<times> string set \<Rightarrow> bool" where
  "growing_result fn s i j pos inner st outer y \<longleftrightarrow> fn ''a'' = ''x${a}'' \<longrightarrow> (\<forall>k seen.
      \<not> (s = growing k \<and> st = None \<and> outer = None \<and> j = k \<and> pos \<le> k)
    \<and> \<not> (s = growing k \<and> st = Some CHR ''$'' \<and> outer = None \<and> j = Suc k \<and> pos \<le> k)
    \<and> \<not> (s = growing (Suc k) \<and> st = None \<and> outer = None \<and> j = k \<and> pos \<le> Suc k)
    \<and> (s = growing k \<and> st = None \<and> i = k \<and> outer = Some seen \<and> ''a'' \<notin> seen \<and> (j = k + 2 \<or> j = k + 3) \<longrightarrow>
         y = (True, growing (Suc k), insert ''a'' seen)))"

lemma growing_never_ends: "substitute fn s i j pos inner st outer = Some y \<Longrightarrow> growing_result fn s i j pos inner st outer y"
proof (erule substitute.raw_induct[where P = growing_result, rotated], goal_cases)
  case (1 f fn s i j pos inner st outer y)
  note ih = 1(1) and step = 1(2) and at = growing_at growing_name
  show ?case
    unfolding growing_result_def
  proof (intro impI allI conjI notI)
    fix k seen
    assume fn: "fn ''a'' = ''x${a}''"
    { assume a: "s = growing k \<and> st = None \<and> outer = None \<and> j = k \<and> pos \<le> k"
      then have "f fn (growing k) i (Suc k) pos inner (Some CHR ''$'') None = Some y" using step by (simp add: at)
      from ih[OF this] a fn show False unfolding growing_result_def by blast }
    { assume a: "s = growing k \<and> st = Some CHR ''$'' \<and> outer = None \<and> j = Suc k \<and> pos \<le> k"
      then obtain found s' inner' where
        r: "f fn (growing k) k (Suc (Suc k)) 0 {} None (Some {}) = Some (found, s', inner')"
           "(if found then f fn s' i k (Suc k) inner' None None else Some (False, s', {})) = Some y"
        using step by (auto simp: at bind_eq_Some_conv split: if_splits)
      have "(found, s', inner') = (True, growing (Suc k), {''a''})"
        using ih[OF r(1)] fn unfolding growing_result_def by (simp del: replicate_Suc)
      with r(2) have "f fn (growing (Suc k)) i k (Suc k) {''a''} None None = Some y" by simp
      from ih[OF this] fn show False unfolding growing_result_def by blast }
    { assume a: "s = growing (Suc k) \<and> st = None \<and> outer = None \<and> j = k \<and> pos \<le> Suc k"
      then have "f fn (growing (Suc k)) i (Suc k) pos inner None None = Some y"
        using step by (simp add: at del: replicate_Suc)
      from ih[OF this] a fn show False unfolding growing_result_def by blast }
    assume a: "s = growing k \<and> st = None \<and> i = k \<and> outer = Some seen \<and> ''a'' \<notin> seen \<and> (j = k + 2 \<or> j = k + 3)"
    show "y = (True, growing (Suc k), insert ''a'' seen)"
    proof (cases "j = k + 2")
      case True
      then have "f fn (growing k) k (k + 3) pos inner None (Some seen) = Some y"
        using step a by (simp add: at numeral_3_eq_3)
      from ih[OF this] a fn show ?thesis unfolding growing_result_def by blast
    next
      case False
      then show ?thesis using step a fn by (simp add: at numeral_3_eq_3 Let_def)
    qed
  qed
qed

text \<open>
  Loops are found only where the position does not move: a variable that has a character before a reference
  to itself makes the text grow for ever.
\<close>

lemma self_reference_never_ends: "fn ''a'' = ''x${a}'' \<Longrightarrow> var_sub fn ''${a}'' = None"
  using growing_never_ends[of fn "''${a}''" 0 0 0 "{}" None None]
  by (cases "substitute fn ''${a}'' 0 0 0 {} None None") (auto simp: var_sub_def growing_result_def)

end
