(* ===== verification/Journ.thy ===== *)
theory Journ
  imports Msg_Queue Strings
begin

text \<open>
  The journals: \<open>BasicMsgHandler::dispatch\<close> (\<open>fin/MsgHandler.hpp\<close>), \<open>BasicTransaction\<close>
  (\<open>fin/Transaction.hpp\<close>), \<open>SqliteJourn\<close> (\<open>db/SqliteJourn.cpp\<close>, \<open>db/Sqlite.hxx\<close>) and \<open>MySqlJourn\<close>
  (\<open>db/MySqlJourn.cpp\<close>, \<open>db/MySql.hxx\<close>).

  A journal binds values to the parameters of prepared statements and runs them. The database is a
  parameter: a function that runs a statement with its values on the state of the database and tells
  whether it succeeded. The theory compares the two journals and gives what a transaction guarantees
  over any database with transactions, an interface stated as a locale.
\<close>

section \<open>Values and statements\<close>

datatype sql_value = SqlNull | SqlInt int | SqlText string

datatype stmt =
    BeginStmt | CommitStmt | RollbackStmt
  | InsertMarketStmt | UpdateMarketStmt | InsertExecStmt | UpdateExecStmt

type_synonym 'd runner = "stmt \<Rightarrow> sql_value list \<Rightarrow> 'd \<Rightarrow> bool \<times> 'd"
type_synonym 'd db_result = "(err, 'd, unit) outcome"

text \<open>\<open>step_once\<close> and \<open>execute\<close>: a failure of the database is a \<open>DatabaseException\<close>.\<close>

definition step_once :: "'d runner \<Rightarrow> stmt \<Rightarrow> sql_value list \<Rightarrow> 'd \<Rightarrow> 'd db_result" where
  "step_once run stmt vals d = (let (ok, d) = run stmt vals d in if ok then Done () d else Throw DatabaseError d)"

text \<open>The numbers of the enumerators (\<open>etc/fbs/Types.fbs\<close>), as \<open>unbox\<close> gives them.\<close>

definition state_num :: "ord_state \<Rightarrow> int" where
  "state_num s = (case s of NoState \<Rightarrow> 0 | New \<Rightarrow> 1 | Revise \<Rightarrow> 2 | Cancel \<Rightarrow> 3 | Trade \<Rightarrow> 4)"

definition side_num :: "side \<Rightarrow> int" where
  "side_num s = (case s of Sell \<Rightarrow> -1 | NoSide \<Rightarrow> 0 | Buy \<Rightarrow> 1)"

definition liq_num :: "liq_ind \<Rightarrow> int" where
  "liq_num li = (case li of NoLiq \<Rightarrow> 0 | Maker \<Rightarrow> 1 | Taker \<Rightarrow> 2)"

text \<open>\<open>to_string_view\<close> of a character array: up to the first zero.\<close>

definition to_string_view :: "string \<Rightarrow> string" where
  "to_string_view s = takeWhile (\<lambda>c. c \<noteq> CHR 0x00) s"

section \<open>Transactions\<close>

text \<open>
  The constructor begins; a throw from it leaves no object behind. The destructor rolls back unless
  \<open>commit\<close> has returned, and \<open>do_rollback\<close> only logs its own failure.
\<close>

definition rollback :: "'d runner \<Rightarrow> 'd \<Rightarrow> 'd" where
  "rollback run d = snd (run RollbackStmt [] d)"

definition transaction :: "'d runner \<Rightarrow> ('d \<Rightarrow> 'd db_result) \<Rightarrow> 'd \<Rightarrow> 'd db_result" where
  "transaction run body d =
     obind (step_once run BeginStmt [] d) (\<lambda>_ d.
       case obind (body d) (\<lambda>_ d. step_once run CommitStmt [] d) of
         Done _ d \<Rightarrow> Done () d
       | Throw e d \<Rightarrow> Throw e (rollback run d)
       | Undef \<Rightarrow> Undef)"

section \<open>SQLite\<close>

text \<open>The overloads of \<open>bind\<close> with \<open>MaybeNull\<close>: a zero or an empty text is bound as NULL.\<close>

definition bind_int :: "int \<Rightarrow> sql_value" where
  "bind_int v = SqlInt v"

definition bind_int_null :: "int \<Rightarrow> sql_value" where
  "bind_int_null v = (if v \<noteq> 0 then SqlInt v else SqlNull)"

definition bind_text :: "string \<Rightarrow> sql_value" where
  "bind_text sv = SqlText sv"

definition bind_text_null :: "string \<Rightarrow> sql_value" where
  "bind_text_null sv = (if sv \<noteq> [] then SqlText sv else SqlNull)"

text \<open>The market state is an unsigned integer that is bound as a signed one.\<close>

definition sqlite_create_market ::
    "'d runner \<Rightarrow> id64 \<Rightarrow> symbol \<Rightarrow> jday \<Rightarrow> mkt_state \<Rightarrow> 'd \<Rightarrow> 'd db_result" where
  "sqlite_create_market run mid instr settl_day state =
     step_once run InsertMarketStmt
       [bind_int mid, bind_text (to_string_view instr), bind_int_null settl_day, bind_int (int32 (int state))]"

definition sqlite_update_market :: "'d runner \<Rightarrow> id64 \<Rightarrow> mkt_state \<Rightarrow> 'd \<Rightarrow> 'd db_result" where
  "sqlite_update_market run mid state =
     step_once run UpdateMarketStmt [bind_int (int32 (int state)), bind_int mid]"

definition sqlite_exec_values :: "exec \<Rightarrow> int \<Rightarrow> sql_value list" where
  "sqlite_exec_values ex created =
     [bind_text (to_string_view (r_accnt ex)), bind_int (r_market_id ex), bind_text (to_string_view (r_instr ex)),
      bind_int_null (r_settl_day ex), bind_int (r_id ex), bind_int_null (e_order_id ex),
      bind_text_null (to_string_view (r_ref ex)), bind_int (state_num (e_state ex)), bind_int (side_num (r_side ex)),
      bind_int (r_lots ex), bind_int (e_ticks ex), bind_int (e_resd_lots ex), bind_int (e_exec_lots ex),
      bind_int (e_exec_cost ex)]
     @ (if e_last_lots ex > 0 then [bind_int (e_last_lots ex), bind_int (e_last_ticks ex)]
        else [SqlNull, SqlNull])
     @ [bind_int (e_min_lots ex), bind_int_null (e_match_id ex), bind_int (e_posn_lots ex),
        bind_int (e_posn_cost ex), bind_int_null (liq_num (e_liq_ind ex)),
        bind_text_null (to_string_view (e_cpty ex)), bind_int created]"

definition sqlite_create_exec :: "'d runner \<Rightarrow> exec \<Rightarrow> int \<Rightarrow> 'd \<Rightarrow> 'd db_result" where
  "sqlite_create_exec run ex created = step_once run InsertExecStmt (sqlite_exec_values ex created)"

text \<open>The loop over the identifiers of an archive message, up to the first zero.\<close>

fun archive_loop :: "'d runner \<Rightarrow> int \<Rightarrow> id64 \<Rightarrow> id64 list \<Rightarrow> 'd \<Rightarrow> 'd db_result" where
  "archive_loop run modified market_id [] d = Done () d"
| "archive_loop run modified market_id (i # ids) d =
     (if i = 0 then Done () d
      else obind (step_once run UpdateExecStmt [bind_int modified, bind_int market_id, bind_int i] d)
             (\<lambda>_ d. archive_loop run modified market_id ids d))"

definition sqlite_archive_trade :: "'d runner \<Rightarrow> id64 \<Rightarrow> id64 list \<Rightarrow> int \<Rightarrow> 'd \<Rightarrow> 'd db_result" where
  "sqlite_archive_trade run market_id ids modified =
     transaction run (archive_loop run modified market_id (take max_ids ids))"

text \<open>\<open>do_write\<close>, which is \<open>dispatch\<close>.\<close>

definition sqlite_write :: "'d runner \<Rightarrow> msg \<Rightarrow> 'd \<Rightarrow> 'd db_result" where
  "sqlite_write run m = (case m of
     MsgCreateMarket mid instr settl_day state \<Rightarrow> sqlite_create_market run mid instr settl_day state
   | MsgUpdateMarket mid state \<Rightarrow> sqlite_update_market run mid state
   | MsgCreateExec ex created \<Rightarrow> sqlite_create_exec run ex created
   | MsgArchiveTrade market_id ids modified \<Rightarrow> sqlite_archive_trade run market_id ids modified)"

section \<open>MySQL\<close>

text \<open>
  A \<open>DbInt\<close> has the bound value and the flag that makes it NULL.
\<close>

record db_int =
  di_value :: int
  di_is_null :: bool

definition db_int :: "int \<Rightarrow> db_int" where
  "db_int val = \<lparr>di_value = val, di_is_null = False\<rparr>"

definition db_int_null :: "int \<Rightarrow> db_int" where
  "db_int_null val = \<lparr>di_value = val, di_is_null = val = 0\<rparr>"

definition set_value :: "int \<Rightarrow> db_int \<Rightarrow> db_int" where
  "set_value val f = f\<lparr>di_value := val, di_is_null := False\<rparr>"

definition set_null :: "db_int \<Rightarrow> db_int" where
  "set_null f = f\<lparr>di_is_null := True\<rparr>"

text \<open>What the library sends for a bound field when the statement is executed.\<close>

definition int_param :: "db_int \<Rightarrow> sql_value" where
  "int_param f = (if di_is_null f then SqlNull else SqlInt (di_value f))"

text \<open>\<open>DbString::bind\<close>, with the text and the flag.\<close>

definition text_param :: "string \<Rightarrow> bool \<Rightarrow> sql_value" where
  "text_param sv is_null = (if is_null then SqlNull else SqlText sv)"

text \<open>
  The reference is an array of 64 characters, and the field it is bound with takes arrays of 16, so it
  is converted to a \<open>string_view\<close> like a C string: to the first zero, past the end of the array where
  it is full. The state of the execution is behind it, four bytes from the lowest.
\<close>

definition c_str_ref :: "exec \<Rightarrow> string" where
  "c_str_ref ex =
     takeWhile (\<lambda>c. c \<noteq> CHR 0x00)
       (r_ref ex @ replicate (max_ref - length (r_ref ex)) (CHR 0x00)
        @ [char_of (nat (state_num (e_state ex))), CHR 0x00, CHR 0x00, CHR 0x00])"

definition mysql_create_market ::
    "'d runner \<Rightarrow> id64 \<Rightarrow> symbol \<Rightarrow> jday \<Rightarrow> mkt_state \<Rightarrow> 'd \<Rightarrow> 'd db_result" where
  "mysql_create_market run mid instr settl_day state =
     step_once run InsertMarketStmt
       [int_param (db_int mid), text_param (to_string_view instr) False, int_param (db_int_null settl_day),
        int_param (db_int (int32 (int state)))]"

definition mysql_update_market :: "'d runner \<Rightarrow> id64 \<Rightarrow> mkt_state \<Rightarrow> 'd \<Rightarrow> 'd db_result" where
  "mysql_update_market run mid state =
     step_once run UpdateMarketStmt [int_param (db_int (int32 (int state))), int_param (db_int mid)]"

definition mysql_exec_values :: "exec \<Rightarrow> int \<Rightarrow> sql_value list" where
  "mysql_exec_values ex created =
     (let last_lots = db_int (e_last_lots ex);
          last_ticks = db_int (e_last_ticks ex);
          (last_lots, last_ticks) =
            (if e_last_lots ex = 0 then (set_null last_lots, set_null last_ticks) else (last_lots, last_ticks))
      in [text_param (to_string_view (r_accnt ex)) False, int_param (db_int (r_market_id ex)),
          text_param (to_string_view (r_instr ex)) False, int_param (db_int_null (r_settl_day ex)),
          int_param (db_int (r_id ex)), int_param (db_int_null (e_order_id ex)),
          text_param (c_str_ref ex) (c_str_ref ex = []), int_param (db_int (state_num (e_state ex))),
          int_param (db_int (side_num (r_side ex))), int_param (db_int (r_lots ex)), int_param (db_int (e_ticks ex)),
          int_param (db_int (e_resd_lots ex)), int_param (db_int (e_exec_lots ex)), int_param (db_int (e_exec_cost ex)),
          int_param last_lots, int_param last_ticks, int_param (db_int (e_min_lots ex)),
          int_param (db_int_null (e_match_id ex)), int_param (db_int (e_posn_lots ex)),
          int_param (db_int (e_posn_cost ex)), int_param (db_int_null (liq_num (e_liq_ind ex))),
          text_param (to_string_view (e_cpty ex)) (to_string_view (e_cpty ex) = []), int_param (db_int created)])"

definition mysql_create_exec :: "'d runner \<Rightarrow> exec \<Rightarrow> int \<Rightarrow> 'd \<Rightarrow> 'd db_result" where
  "mysql_create_exec run ex created = step_once run InsertExecStmt (mysql_exec_values ex created)"

text \<open>The parameters are bound once; the loop sets the value of the third.\<close>

fun mysql_archive_loop :: "'d runner \<Rightarrow> db_int \<Rightarrow> db_int \<Rightarrow> db_int \<Rightarrow> id64 list \<Rightarrow> 'd \<Rightarrow> 'd db_result" where
  "mysql_archive_loop run archive market_id i [] d = Done () d"
| "mysql_archive_loop run archive market_id i (val # vals) d =
     (if val = 0 then Done () d
      else let i = set_value val i
           in obind (step_once run UpdateExecStmt [int_param archive, int_param market_id, int_param i] d)
                (\<lambda>_ d. mysql_archive_loop run archive market_id i vals d))"

definition mysql_archive_trade :: "'d runner \<Rightarrow> id64 \<Rightarrow> id64 list \<Rightarrow> int \<Rightarrow> 'd \<Rightarrow> 'd db_result" where
  "mysql_archive_trade run market_id ids modified =
     transaction run
       (mysql_archive_loop run (db_int modified) (db_int market_id) (db_int 0) (take max_ids ids))"

definition mysql_write :: "'d runner \<Rightarrow> msg \<Rightarrow> 'd \<Rightarrow> 'd db_result" where
  "mysql_write run m = (case m of
     MsgCreateMarket mid instr settl_day state \<Rightarrow> mysql_create_market run mid instr settl_day state
   | MsgUpdateMarket mid state \<Rightarrow> mysql_update_market run mid state
   | MsgCreateExec ex created \<Rightarrow> mysql_create_exec run ex created
   | MsgArchiveTrade market_id ids modified \<Rightarrow> mysql_archive_trade run market_id ids modified)"

lemmas bind_defs = bind_int_def bind_int_null_def bind_text_def bind_text_null_def
  int_param_def text_param_def db_int_def db_int_null_def set_value_def set_null_def

section \<open>What the two journals have in common\<close>

lemma mysql_archive_loop_eq:
  "mysql_archive_loop run (db_int modified) (db_int market_id) i ids d = archive_loop run modified market_id ids d"
proof (induction ids arbitrary: i d)
  case (Cons j ids)
  then have "mysql_archive_loop run (db_int modified) (db_int market_id) (set_value j i) ids
      = archive_loop run modified market_id ids" by (intro ext)
  then show ?case by (simp add: Let_def) (simp add: bind_defs)
qed simp

lemma char_one: "char_of (Suc 0) = CHR 0x01"
  by (simp add: char_of_def bit_Suc bit_0)

lemma takeWhile_at_stop: "\<not> P c \<Longrightarrow> takeWhile P (xs @ c # ys) = takeWhile P xs"
  by (induction xs) simp_all

lemma c_str_ref_short:
  assumes "length (r_ref ex) < max_ref"
  shows "c_str_ref ex = to_string_view (r_ref ex)"
proof -
  obtain n where "max_ref - length (r_ref ex) = Suc n" using assms by (metis Suc_diff_Suc)
  then show ?thesis by (simp add: c_str_ref_def to_string_view_def takeWhile_at_stop)
qed

lemma exec_values_agree:
  assumes "0 \<le> e_last_lots ex" and "length (r_ref ex) < max_ref"
  shows "mysql_exec_values ex created = sqlite_exec_values ex created"
  using assms by (simp add: mysql_exec_values_def sqlite_exec_values_def bind_defs c_str_ref_short Let_def)

text \<open>A reference of full length is bound by MySQL with one character more, the state.\<close>

lemma full_reference_overruns:
  assumes "length (r_ref ex) = max_ref" and "CHR 0x00 \<notin> set (r_ref ex)" and "e_state ex = New"
  shows "c_str_ref ex = r_ref ex @ [CHR 0x01]" and "to_string_view (r_ref ex) = r_ref ex"
proof -
  have all: "\<forall>c\<in>set (r_ref ex). c \<noteq> CHR 0x00" using assms(2) by blast
  then show "to_string_view (r_ref ex) = r_ref ex" by (simp add: to_string_view_def takeWhile_eq_all_conv)
  show "c_str_ref ex = r_ref ex @ [CHR 0x01]"
    using all assms(1,3) by (simp add: c_str_ref_def state_num_def takeWhile_append2 char_one)
qed

section \<open>Databases with transactions\<close>

text \<open>
  What a transaction relies on: the contents of the tables, and, while a transaction is open, the contents
  to which the database goes back when it does not commit. What the database keeps for good is the latter, or the
  former when no transaction is open. A statement that fails, be it the begin, the commit or the rollback,
  may end the transaction by going back, or leave it open; it never changes what is kept.
\<close>

definition is_control :: "stmt \<Rightarrow> bool" where
  "is_control s \<longleftrightarrow> s = BeginStmt \<or> s = CommitStmt \<or> s = RollbackStmt"

definition kept_by :: "('d \<Rightarrow> 't) \<Rightarrow> ('d \<Rightarrow> 't option) \<Rightarrow> 'd \<Rightarrow> 't" where
  "kept_by tables undo d = (case undo d of None \<Rightarrow> tables d | Some t \<Rightarrow> t)"

locale transactional =
  fixes run :: "'d runner" and tables :: "'d \<Rightarrow> 't" and undo :: "'d \<Rightarrow> 't option"
  assumes begin_ok: "run BeginStmt [] d = (True, d') \<Longrightarrow> undo d = None \<and> tables d' = tables d \<and> undo d' = Some (tables d)"
    and stmt_ok: "\<not> is_control s \<Longrightarrow> run s vals d = (True, d') \<Longrightarrow> undo d' = undo d"
    and commit_ok: "run CommitStmt [] d = (True, d') \<Longrightarrow> tables d' = tables d \<and> undo d' = None"
    and rollback_ok: "run RollbackStmt [] d = (True, d') \<Longrightarrow> kept_by tables undo d' = kept_by tables undo d \<and> undo d' = None"
    and failure: "run s vals d = (False, d') \<Longrightarrow> kept_by tables undo d' = kept_by tables undo d \<and> (undo d = None \<longrightarrow> undo d' = None)"
begin

lemma step_done: "\<not> is_control s \<Longrightarrow> step_once run s vals d = Done () d' \<Longrightarrow> undo d' = undo d"
  by (auto simp: step_once_def split: prod.splits if_splits intro: stmt_ok)

lemma step_throws:
  "step_once run s vals d = Throw e d' \<Longrightarrow>
     e = DatabaseError \<and> kept_by tables undo d' = kept_by tables undo d \<and> (undo d = None \<longrightarrow> undo d' = None)"
  using failure by (auto simp: step_once_def split: prod.splits if_splits)

lemma step_Undef [simp]: "step_once run s vals d \<noteq> Undef"
  by (simp add: step_once_def split: prod.split)

lemma data_stmt: "\<not> is_control UpdateExecStmt"
  by (simp add: is_control_def)

lemma archive_loop_done: "archive_loop run modified mid ids d = Done () d' \<Longrightarrow> undo d' = undo d"
proof (induction ids arbitrary: d)
  case (Cons i ids)
  then show ?case by (auto simp: obind_Done_iff split: if_splits dest!: step_done[OF data_stmt])
qed simp

lemma archive_loop_throws:
  "archive_loop run modified mid ids d = Throw e d' \<Longrightarrow> undo d = Some t \<Longrightarrow> e = DatabaseError \<and> kept_by tables undo d' = t"
proof (induction ids arbitrary: d)
  case (Cons i ids)
  have k: "kept_by tables undo d = t" using Cons.prems(2) by (simp add: kept_by_def)
  let ?step = "step_once run UpdateExecStmt [bind_int modified, bind_int mid, bind_int i] d"
  show ?case
  proof (cases ?step)
    case (Done u d1)
    then have "archive_loop run modified mid ids d1 = Throw e d'" "undo d1 = Some t"
      using Cons.prems step_done[OF data_stmt, of _ d d1] by (auto split: if_splits)
    then show ?thesis by (rule Cons.IH)
  next
    case (Throw e1 d1)
    then show ?thesis using Cons.prems(1) step_throws[OF Throw] k by (auto split: if_splits)
  qed simp
qed simp

lemma archive_loop_Undef [simp]: "archive_loop run modified mid ids d \<noteq> Undef"
  by (induction ids arbitrary: d) (auto simp: obind_Undef_iff)

lemma begun: "step_once run BeginStmt [] d = Done () d' \<Longrightarrow> undo d = None \<and> tables d' = tables d \<and> undo d' = Some (tables d)"
  by (auto simp: step_once_def split: prod.splits if_splits dest: begin_ok)

lemma committed: "step_once run CommitStmt [] d = Done () d' \<Longrightarrow> tables d' = tables d \<and> undo d' = None"
  by (auto simp: step_once_def split: prod.splits if_splits dest: commit_ok)

lemma rolled_back: "kept_by tables undo (rollback run d) = kept_by tables undo d"
proof (cases "run RollbackStmt [] d")
  case (Pair ok d')
  then show ?thesis using rollback_ok failure by (cases ok) (simp_all add: rollback_def)
qed

text \<open>A transaction that throws changes nothing that is kept, also if its rollback fails.\<close>

lemma transaction_throws:
  assumes body: "\<And>d e d' t. body d = Throw e d' \<Longrightarrow> undo d = Some t \<Longrightarrow> e = DatabaseError \<and> kept_by tables undo d' = t"
      "\<And>d d'. body d = Done () d' \<Longrightarrow> undo d' = undo d"
    and thrown: "transaction run body d = Throw e d'"
  shows "e = DatabaseError \<and> kept_by tables undo d' = kept_by tables undo d"
proof (cases "step_once run BeginStmt [] d")
  case (Done u d0)
  then have b: "undo d = None" "undo d0 = Some (tables d)" using begun by simp_all
  obtain d1 where d1: "obind (body d0) (\<lambda>_ d. step_once run CommitStmt [] d) = Throw e d1" "d' = rollback run d1"
    using thrown Done by (auto simp: transaction_def split: outcome.splits)
  have "e = DatabaseError \<and> kept_by tables undo d1 = tables d"
  proof (cases "body d0")
    case (Done u d2)
    then have u: "undo d2 = Some (tables d)" using body(2) b(2) by simp
    have "step_once run CommitStmt [] d2 = Throw e d1" using d1(1) Done by simp
    then show ?thesis using step_throws u by (simp add: kept_by_def)
  qed (use d1(1) body(1)[OF _ b(2)] in auto)
  then show ?thesis using d1(2) b(1) by (simp add: rolled_back) (simp add: kept_by_def)
next
  case (Throw e0 d0)
  then show ?thesis using thrown step_throws[OF Throw] by (simp add: transaction_def)
qed simp

text \<open>A transaction that returns has done the whole of its body.\<close>

lemma transaction_returns:
  assumes "transaction run body d = Done () d'"
  shows "\<exists>d0 d1. tables d0 = tables d \<and> body d0 = Done () d1 \<and> tables d' = tables d1 \<and> undo d = None \<and> undo d' = None"
proof -
  obtain d0 where d0: "step_once run BeginStmt [] d = Done () d0"
    using assms by (cases "step_once run BeginStmt [] d") (auto simp: transaction_def)
  then have r: "obind (body d0) (\<lambda>_ d. step_once run CommitStmt [] d) = Done () d'"
    using assms by (auto simp: transaction_def split: outcome.splits)
  then obtain d1 where d1: "body d0 = Done () d1" "step_once run CommitStmt [] d1 = Done () d'"
    by (auto simp: obind_Done_iff)
  with begun[OF d0] committed[OF d1(2)] show ?thesis by blast
qed

lemma archive_throws:
  "sqlite_archive_trade run mid ids modified d = Throw e d' \<Longrightarrow> e = DatabaseError \<and> kept_by tables undo d' = kept_by tables undo d"
  unfolding sqlite_archive_trade_def
  by (erule transaction_throws[rotated 2]) (erule (1) archive_loop_throws, erule archive_loop_done)

lemma archive_Undef: "sqlite_archive_trade run mid ids modified d \<noteq> Undef"
  by (simp add: sqlite_archive_trade_def transaction_def obind_Undef_iff split: outcome.split)

end

end
