(* ===== verification/Db_Model.thy ===== *)
theory Db_Model
  imports Journ App_Ops "HOL-Library.Monad_Syntax"
begin

text \<open>
  The models on a database: \<open>SqliteModel\<close> (\<open>db/SqliteModel.cpp\<close>, the columns of \<open>db/Sqlite.hxx\<close>) and
  \<open>MySqlModel\<close> (\<open>db/MySqlModel.cpp\<close>, the bound fields of \<open>db/MySql.hxx\<close>). What a query returns is a
  parameter: a list of rows, or a failure. A row is the list of its values, in the order of the columns.

  The result of a read is the list of the objects that the callback has received. A value that is
  undefined in C++, or that is no enumerator of the enumeration it is cast to, makes the read undefined.

  The theory compares the two models, and gives the positions that they make of the rows of trades.
\<close>

section \<open>Objects\<close>

definition max_display :: nat where
  "max_display = 64"

definition make_asset :: "id32 \<Rightarrow> symbol \<Rightarrow> string \<Rightarrow> nat \<Rightarrow> asset" where
  "make_asset aid sy display ty =
     \<lparr>as_id = aid, as_symbol = sy, as_display = take max_display display, as_type = ty\<rparr>"

definition make_instr ::
    "id32 \<Rightarrow> symbol \<Rightarrow> string \<Rightarrow> symbol \<Rightarrow> symbol \<Rightarrow> int \<Rightarrow> int \<Rightarrow> int \<Rightarrow> int \<Rightarrow> int \<Rightarrow> lots \<Rightarrow> lots \<Rightarrow> instr" where
  "make_instr iid sy display base term_ccy lot_numer lot_denom tick_numer tick_denom pip_dp min_lots max_lots =
     \<lparr>i_id = iid, i_symbol = sy, i_display = take max_display display, i_base_asset = base, i_term_ccy = term_ccy,
      i_lot_numer = lot_numer, i_lot_denom = lot_denom, i_tick_numer = tick_numer, i_tick_denom = tick_denom,
      i_pip_dp = pip_dp, i_min_lots = min_lots, i_max_lots = max_lots\<rparr>"

text \<open>The constructors with all the members.\<close>

definition load_market ::
    "id64 \<Rightarrow> symbol \<Rightarrow> jday \<Rightarrow> mkt_state \<Rightarrow> lots \<Rightarrow> ticks \<Rightarrow> nanos \<Rightarrow> id64 \<Rightarrow> market" where
  "load_market mid instr settl_day st last_lots last_ticks last_time max_id =
     (make_market mid instr settl_day st)\<lparr>m_last_lots := last_lots, m_last_ticks := last_ticks,
       m_last_time := last_time, m_max_id := max_id\<rparr>"

definition load_order_of ::
    "symbol \<Rightarrow> id64 \<Rightarrow> symbol \<Rightarrow> jday \<Rightarrow> id64 \<Rightarrow> string \<Rightarrow> ord_state \<Rightarrow> side \<Rightarrow> lots \<Rightarrow> ticks \<Rightarrow> lots \<Rightarrow> lots \<Rightarrow> cost
      \<Rightarrow> lots \<Rightarrow> ticks \<Rightarrow> lots \<Rightarrow> nanos \<Rightarrow> nanos \<Rightarrow> order" where
  "load_order_of accnt market_id instr settl_day oid ref st sd lots ticks resd_lots exec_lots exec_cost
      last_lots last_ticks min_lots created modified =
    \<lparr>r_accnt = accnt, r_market_id = market_id, r_instr = instr, r_settl_day = settl_day, r_id = oid,
     r_ref = make_ref ref, r_side = sd, r_lots = lots, r_created = created, o_level = None, o_state = st,
     o_ticks = ticks, o_resd_lots = resd_lots, o_exec_lots = exec_lots, o_exec_cost = exec_cost,
     o_last_lots = last_lots, o_last_ticks = last_ticks, o_min_lots = min_lots, o_modified = modified\<rparr>"

text \<open>The enumerator of a number.\<close>

definition num_state :: "int \<Rightarrow> ord_state option" where
  "num_state i = (if i = 0 then Some NoState else if i = 1 then Some New else if i = 2 then Some Revise
     else if i = 3 then Some Cancel else if i = 4 then Some Trade else None)"

definition num_side :: "int \<Rightarrow> side option" where
  "num_side i = (if i = -1 then Some Sell else if i = 0 then Some NoSide else if i = 1 then Some Buy else None)"

definition num_liq :: "int \<Rightarrow> liq_ind option" where
  "num_liq i = (if i = 0 then Some NoLiq else if i = 1 then Some Maker else if i = 2 then Some Taker else None)"

definition num_asset_type :: "int \<Rightarrow> nat option" where
  "num_asset_type i = (if 0 \<le> i \<and> i \<le> 6 then Some (nat i) else None)"

definition uint32 :: "int \<Rightarrow> nat" where
  "uint32 i = nat (i mod 2 ^ 32)"

lemma num_inverses [simp]:
  "num_state (state_num st) = Some st" "num_side (side_num sd) = Some sd" "num_liq (liq_num li) = Some li"
  by (simp_all add: num_state_def state_num_def num_side_def side_num_def num_liq_def liq_num_def
      split: ord_state.split side.split liq_ind.split)

text \<open>\<open>to_time\<close> of milliseconds.\<close>

definition to_time :: "int \<Rightarrow> nanos" where
  "to_time ms = ms * 1000000"

section \<open>Queries\<close>

text \<open>
  A query fails when it is prepared or executed; or it gives rows, and then ends or fails.
\<close>

datatype query = QueryFails | Rows "sql_value list list" bool

fun step_rows :: "(sql_value list \<Rightarrow> 'a option) \<Rightarrow> sql_value list list \<Rightarrow> bool \<Rightarrow> 'a list \<Rightarrow> (err, 'a list, unit) outcome"
  where
  "step_rows f [] ok acc = (if ok then Done () acc else Throw DatabaseError acc)"
| "step_rows f (r # rs) ok acc = (case f r of None \<Rightarrow> Undef | Some x \<Rightarrow> step_rows f rs ok (acc @ [x]))"

definition sqlite_read :: "(sql_value list \<Rightarrow> 'a option) \<Rightarrow> query \<Rightarrow> (err, 'a list, unit) outcome" where
  "sqlite_read f q = (case q of QueryFails \<Rightarrow> Throw DatabaseError [] | Rows rows ok \<Rightarrow> step_rows f rows ok [])"

section \<open>SQLite\<close>

text \<open>
  The columns of a row: NULL is zero for an integer. For a text it is a null pointer, from which a
  \<open>string_view\<close> is made: the parameter \<open>nv\<close> is what the standard library makes of it, \<open>None\<close> where that is
  undefined, as the language has it, and \<open>Some []\<close> in the implementations that test for it.
\<close>

definition col_int :: "sql_value \<Rightarrow> int" where
  "col_int v = (case v of SqlNull \<Rightarrow> 0 | SqlInt i \<Rightarrow> int32 i | SqlText s \<Rightarrow> int32 (stoi s))"

definition col_int64 :: "sql_value \<Rightarrow> int" where
  "col_int64 v = (case v of SqlNull \<Rightarrow> 0 | SqlInt i \<Rightarrow> i | SqlText s \<Rightarrow> stoi s)"

definition col_text :: "string option \<Rightarrow> sql_value \<Rightarrow> string option" where
  "col_text nv v = (case v of
     SqlNull \<Rightarrow> nv
   | SqlInt i \<Rightarrow> Some (show_int i)
   | SqlText s \<Rightarrow> Some (takeWhile (\<lambda>c. c \<noteq> CHR 0x00) s))"

type_synonym posn_row = "symbol \<times> id64 \<times> symbol \<times> jday \<times> side \<times> lots \<times> cost"

definition sqlite_asset :: "string option \<Rightarrow> sql_value list \<Rightarrow> asset option" where
  "sqlite_asset nv r = do {
      let aid = col_int (r ! 0);
      sy \<leftarrow> map_option make_symbol (col_text nv (r ! 1));
      display \<leftarrow> col_text nv (r ! 2);
      ty \<leftarrow> num_asset_type (col_int (r ! 3));
      Some (make_asset aid sy display ty)
    }"

definition sqlite_instr :: "string option \<Rightarrow> sql_value list \<Rightarrow> instr option" where
  "sqlite_instr nv r = do {
      let iid = col_int (r ! 0);
      sy \<leftarrow> map_option make_symbol (col_text nv (r ! 1));
      display \<leftarrow> col_text nv (r ! 2);
      base \<leftarrow> map_option make_symbol (col_text nv (r ! 3));
      term_ccy \<leftarrow> map_option make_symbol (col_text nv (r ! 4));
      let lot_numer = col_int (r ! 5);
      let lot_denom = col_int (r ! 6);
      let tick_numer = col_int (r ! 7);
      let tick_denom = col_int (r ! 8);
      let pip_dp = col_int (r ! 9);
      let min_lots = col_int64 (r ! 10);
      let max_lots = col_int64 (r ! 11);
      Some (make_instr iid sy display base term_ccy lot_numer lot_denom tick_numer tick_denom pip_dp min_lots max_lots)
    }"

definition sqlite_market :: "string option \<Rightarrow> sql_value list \<Rightarrow> market option" where
  "sqlite_market nv r = do {
      let mid = col_int64 (r ! 0);
      instr \<leftarrow> map_option make_symbol (col_text nv (r ! 1));
      let settl_day = col_int (r ! 2);
      let st = uint32 (col_int (r ! 3));
      let last_lots = col_int64 (r ! 4);
      let last_ticks = col_int64 (r ! 5);
      let last_time = to_time (col_int64 (r ! 6));
      let max_id = col_int64 (r ! 7);
      Some (load_market mid instr settl_day st last_lots last_ticks last_time max_id)
    }"

definition sqlite_order :: "string option \<Rightarrow> sql_value list \<Rightarrow> order option" where
  "sqlite_order nv r = do {
      accnt \<leftarrow> map_option make_symbol (col_text nv (r ! 0));
      let market_id = col_int64 (r ! 1);
      instr \<leftarrow> map_option make_symbol (col_text nv (r ! 2));
      let settl_day = col_int (r ! 3);
      let oid = col_int64 (r ! 4);
      ref \<leftarrow> col_text nv (r ! 5);
      st \<leftarrow> num_state (col_int (r ! 6));
      sd \<leftarrow> num_side (col_int (r ! 7));
      let lots = col_int64 (r ! 8);
      let ticks = col_int64 (r ! 9);
      let resd_lots = col_int64 (r ! 10);
      let exec_lots = col_int64 (r ! 11);
      let exec_cost = col_int64 (r ! 12);
      let last_lots = col_int64 (r ! 13);
      let last_ticks = col_int64 (r ! 14);
      let min_lots = col_int64 (r ! 15);
      let created = to_time (col_int64 (r ! 16));
      let modified = to_time (col_int64 (r ! 17));
      Some (load_order_of accnt market_id instr settl_day oid ref st sd lots ticks resd_lots exec_lots exec_cost last_lots
       last_ticks min_lots created modified)
    }"

definition sqlite_exec :: "string option \<Rightarrow> sql_value list \<Rightarrow> exec option" where
  "sqlite_exec nv r = do {
      accnt \<leftarrow> map_option make_symbol (col_text nv (r ! 0));
      let market_id = col_int64 (r ! 1);
      instr \<leftarrow> map_option make_symbol (col_text nv (r ! 2));
      let settl_day = col_int (r ! 3);
      let eid = col_int64 (r ! 4);
      let order_id = col_int64 (r ! 5);
      ref \<leftarrow> col_text nv (r ! 6);
      st \<leftarrow> num_state (col_int (r ! 7));
      sd \<leftarrow> num_side (col_int (r ! 8));
      let lots = col_int64 (r ! 9);
      let ticks = col_int64 (r ! 10);
      let resd_lots = col_int64 (r ! 11);
      let exec_lots = col_int64 (r ! 12);
      let exec_cost = col_int64 (r ! 13);
      let last_lots = col_int64 (r ! 14);
      let last_ticks = col_int64 (r ! 15);
      let min_lots = col_int64 (r ! 16);
      let match_id = col_int64 (r ! 17);
      let posn_lots = col_int64 (r ! 18);
      let posn_cost = col_int64 (r ! 19);
      li \<leftarrow> num_liq (col_int (r ! 20));
      cpty \<leftarrow> map_option make_symbol (col_text nv (r ! 21));
      let created = to_time (col_int64 (r ! 22));
      Some (make_exec accnt market_id instr settl_day eid order_id ref st sd lots ticks resd_lots exec_lots exec_cost
       last_lots last_ticks min_lots match_id posn_lots posn_cost li cpty created)
    }"

definition sqlite_trade :: "string option \<Rightarrow> sql_value list \<Rightarrow> exec option" where
  "sqlite_trade nv r = do {
      accnt \<leftarrow> map_option make_symbol (col_text nv (r ! 0));
      let market_id = col_int64 (r ! 1);
      instr \<leftarrow> map_option make_symbol (col_text nv (r ! 2));
      let settl_day = col_int (r ! 3);
      let eid = col_int64 (r ! 4);
      let order_id = col_int64 (r ! 5);
      ref \<leftarrow> col_text nv (r ! 6);
      sd \<leftarrow> num_side (col_int (r ! 7));
      let lots = col_int64 (r ! 8);
      let ticks = col_int64 (r ! 9);
      let resd_lots = col_int64 (r ! 10);
      let exec_lots = col_int64 (r ! 11);
      let exec_cost = col_int64 (r ! 12);
      let last_lots = col_int64 (r ! 13);
      let last_ticks = col_int64 (r ! 14);
      let min_lots = col_int64 (r ! 15);
      let match_id = col_int64 (r ! 16);
      let posn_lots = col_int64 (r ! 17);
      let posn_cost = col_int64 (r ! 18);
      li \<leftarrow> num_liq (col_int (r ! 19));
      cpty \<leftarrow> map_option make_symbol (col_text nv (r ! 20));
      let created = to_time (col_int64 (r ! 21));
      Some (make_exec accnt market_id instr settl_day eid order_id ref Trade sd lots ticks resd_lots exec_lots exec_cost
       last_lots last_ticks min_lots match_id posn_lots posn_cost li cpty created)
    }"

definition sqlite_posn :: "string option \<Rightarrow> sql_value list \<Rightarrow> posn_row option" where
  "sqlite_posn nv r = do {
      accnt \<leftarrow> map_option make_symbol (col_text nv (r ! 0));
      let market_id = col_int64 (r ! 1);
      instr \<leftarrow> map_option make_symbol (col_text nv (r ! 2));
      let settl_day = col_int (r ! 3);
      sd \<leftarrow> num_side (col_int (r ! 4));
      let lots = col_int64 (r ! 5);
      let cst = col_int64 (r ! 6);
      Some ((accnt, market_id, instr, settl_day, sd, lots, cst))
    }"

text \<open>
  The rows of the view of positions: those of settled markets go to one position without a settlement
  day, and the position of an account in a market is made when its first row comes.
\<close>

definition acc_posn_key :: "posn \<Rightarrow> symbol \<times> id64" where
  "acc_posn_key p = (p_accnt p, p_market_id p)"

definition settled :: "jday \<Rightarrow> jday \<Rightarrow> bool" where
  "settled bd settl_day \<longleftrightarrow> settl_day \<noteq> 0 \<and> settl_day \<le> bd"

definition roll_market :: "jday \<Rightarrow> jday \<Rightarrow> id64 \<Rightarrow> id64" where
  "roll_market bd settl_day mid = (if settled bd settl_day then mid AND NOT 0xffff else mid)"

definition roll_day :: "jday \<Rightarrow> jday \<Rightarrow> jday" where
  "roll_day bd settl_day = (if settled bd settl_day then 0 else settl_day)"

definition add_posn_row :: "jday \<Rightarrow> posn list \<Rightarrow> posn_row \<Rightarrow> posn list" where
  "add_posn_row bd ps = (\<lambda>(accnt, mid, instr, settl_day, sd, lots, cst).
     let key = (accnt, roll_market bd settl_day mid);
         ps = (if snd (find_hint acc_posn_key key ps) then ps
               else set_insert acc_posn_key
                      (new_posn accnt (roll_market bd settl_day mid) instr (roll_day bd settl_day)) ps)
     in set_modify acc_posn_key key (if sd = Buy then add_buy_cost lots cst else add_sell_cost lots cst) ps)"

definition sqlite_read_posn :: "string option \<Rightarrow> jday \<Rightarrow> query \<Rightarrow> (err, posn list, unit) outcome" where
  "sqlite_read_posn nv bd q =
     (case sqlite_read (sqlite_posn nv) q of
        Done _ rows \<Rightarrow> Done () (foldl (add_posn_row bd) [] rows)
      | Throw e _ \<Rightarrow> Throw e []
      | Undef \<Rightarrow> Undef)"

section \<open>MySQL\<close>

text \<open>
  A result is bound to fields: integers of 32 or of 64 bits, and buffers of so many characters for a text. They start
  with zero and with the empty text. A field keeps its value when a row has NULL in its column: the library sets
  only the flag, and the model does not look at the flags. A value that a field cannot hold, such as a text that is
  longer than its buffer, is \<open>MYSQL_DATA_TRUNCATED\<close>, for which \<open>fetch\<close> throws. The columns have types, so that an
  integer is never fetched to a buffer or a text to an integer.
\<close>

datatype db_field = IntField | BigIntField | TextField nat

definition field_start :: "db_field \<Rightarrow> sql_value" where
  "field_start k = (case k of TextField n \<Rightarrow> SqlText [] | _ \<Rightarrow> SqlInt 0)"

definition field_holds :: "db_field \<Rightarrow> sql_value \<Rightarrow> bool" where
  "field_holds k v = (case (k, v) of
     (IntField, SqlInt i) \<Rightarrow> - (2 ^ 31) \<le> i \<and> i < 2 ^ 31
   | (BigIntField, SqlInt i) \<Rightarrow> - (2 ^ 63) \<le> i \<and> i < 2 ^ 63
   | (TextField n, SqlText s) \<Rightarrow> length s \<le> n
   | _ \<Rightarrow> True)"

abbreviation symbol_field :: db_field where
  "symbol_field \<equiv> TextField 16"

abbreviation display_field :: db_field where
  "display_field \<equiv> TextField 64"

abbreviation ref_field :: db_field where
  "ref_field \<equiv> TextField 64"

text \<open>One fetch: the values of the fields, or \<open>None\<close> where one is truncated.\<close>

definition fetch_row :: "db_field list \<Rightarrow> sql_value list \<Rightarrow> sql_value list \<Rightarrow> sql_value list option" where
  "fetch_row ks b r =
     (if list_all (\<lambda>(k, v). field_holds k v) (zip ks r)
      then Some (map2 (\<lambda>old v. if v = SqlNull then old else v) b r)
      else None)"

definition int_value :: "sql_value \<Rightarrow> int" where
  "int_value v = (case v of SqlInt i \<Rightarrow> i | _ \<Rightarrow> 0)"

definition text_value :: "sql_value \<Rightarrow> string" where
  "text_value v = (case v of SqlText s \<Rightarrow> s | _ \<Rightarrow> [])"

fun fetch_rows ::
    "(sql_value list \<Rightarrow> 'a option) \<Rightarrow> db_field list \<Rightarrow> sql_value list \<Rightarrow> sql_value list list \<Rightarrow> bool \<Rightarrow> 'a list
      \<Rightarrow> (err, 'a list, unit) outcome"
  where
  "fetch_rows f ks b [] ok acc = (if ok then Done () acc else Throw DatabaseError acc)"
| "fetch_rows f ks b (r # rs) ok acc = (case fetch_row ks b r of
     None \<Rightarrow> Throw DatabaseError acc
   | Some b \<Rightarrow> (case f b of None \<Rightarrow> Undef | Some x \<Rightarrow> fetch_rows f ks b rs ok (acc @ [x])))"

definition mysql_read ::
    "(sql_value list \<Rightarrow> 'a option) \<Rightarrow> db_field list \<Rightarrow> query \<Rightarrow> (err, 'a list, unit) outcome" where
  "mysql_read f ks q = (case q of
     QueryFails \<Rightarrow> Throw DatabaseError []
   | Rows rows ok \<Rightarrow> fetch_rows f ks (map field_start ks) rows ok [])"

definition asset_fields :: "db_field list" where
  "asset_fields = [IntField, symbol_field, display_field, IntField]"

definition mysql_asset :: "sql_value list \<Rightarrow> asset option" where
  "mysql_asset b = do {
      let aid = int_value (b ! 0);
      let sy = make_symbol (text_value (b ! 1));
      let display = text_value (b ! 2);
      ty \<leftarrow> num_asset_type (int_value (b ! 3));
      Some (make_asset aid sy display ty)
    }"

definition instr_fields :: "db_field list" where
  "instr_fields = [IntField, symbol_field, display_field, symbol_field, symbol_field, IntField, IntField,
     IntField, IntField, IntField, BigIntField, BigIntField]"

definition mysql_instr :: "sql_value list \<Rightarrow> instr option" where
  "mysql_instr b = do {
      let iid = int_value (b ! 0);
      let sy = make_symbol (text_value (b ! 1));
      let display = text_value (b ! 2);
      let base = make_symbol (text_value (b ! 3));
      let term_ccy = make_symbol (text_value (b ! 4));
      let lot_numer = int_value (b ! 5);
      let lot_denom = int_value (b ! 6);
      let tick_numer = int_value (b ! 7);
      let tick_denom = int_value (b ! 8);
      let pip_dp = int_value (b ! 9);
      let min_lots = int_value (b ! 10);
      let max_lots = int_value (b ! 11);
      Some (make_instr iid sy display base term_ccy lot_numer lot_denom tick_numer tick_denom pip_dp min_lots max_lots)
    }"

definition market_fields :: "db_field list" where
  "market_fields = [BigIntField, symbol_field, IntField, IntField, BigIntField, BigIntField, BigIntField,
     BigIntField]"

definition mysql_market :: "sql_value list \<Rightarrow> market option" where
  "mysql_market b = do {
      let mid = int_value (b ! 0);
      let instr = make_symbol (text_value (b ! 1));
      let settl_day = int_value (b ! 2);
      let st = uint32 (int_value (b ! 3));
      let last_lots = int_value (b ! 4);
      let last_ticks = int_value (b ! 5);
      let last_time = to_time (int_value (b ! 6));
      let max_id = int_value (b ! 7);
      Some (load_market mid instr settl_day st last_lots last_ticks last_time max_id)
    }"

definition order_fields :: "db_field list" where
  "order_fields = [symbol_field, BigIntField, symbol_field, IntField, BigIntField, ref_field, IntField,
     IntField, BigIntField, BigIntField, BigIntField, BigIntField, BigIntField, BigIntField, BigIntField,
     BigIntField, BigIntField, BigIntField]"

definition mysql_order :: "sql_value list \<Rightarrow> order option" where
  "mysql_order b = do {
      let accnt = make_symbol (text_value (b ! 0));
      let market_id = int_value (b ! 1);
      let instr = make_symbol (text_value (b ! 2));
      let settl_day = int_value (b ! 3);
      let oid = int_value (b ! 4);
      let ref = text_value (b ! 5);
      st \<leftarrow> num_state (int_value (b ! 6));
      sd \<leftarrow> num_side (int_value (b ! 7));
      let lots = int_value (b ! 8);
      let ticks = int_value (b ! 9);
      let resd_lots = int_value (b ! 10);
      let exec_lots = int_value (b ! 11);
      let exec_cost = int_value (b ! 12);
      let last_lots = int_value (b ! 13);
      let last_ticks = int_value (b ! 14);
      let min_lots = int_value (b ! 15);
      let created = to_time (int_value (b ! 16));
      let modified = to_time (int_value (b ! 17));
      Some (load_order_of accnt market_id instr settl_day oid ref st sd lots ticks resd_lots exec_lots exec_cost last_lots
       last_ticks min_lots created modified)
    }"

definition exec_fields :: "db_field list" where
  "exec_fields = [symbol_field, BigIntField, symbol_field, IntField, BigIntField, BigIntField, ref_field,
     IntField, IntField, BigIntField, BigIntField, BigIntField, BigIntField, BigIntField, BigIntField,
     BigIntField, BigIntField, BigIntField, BigIntField, BigIntField, IntField, symbol_field, BigIntField]"

definition mysql_exec :: "sql_value list \<Rightarrow> exec option" where
  "mysql_exec b = do {
      let accnt = make_symbol (text_value (b ! 0));
      let market_id = int_value (b ! 1);
      let instr = make_symbol (text_value (b ! 2));
      let settl_day = int_value (b ! 3);
      let eid = int_value (b ! 4);
      let order_id = int_value (b ! 5);
      let ref = text_value (b ! 6);
      st \<leftarrow> num_state (int_value (b ! 7));
      sd \<leftarrow> num_side (int_value (b ! 8));
      let lots = int_value (b ! 9);
      let ticks = int_value (b ! 10);
      let resd_lots = int_value (b ! 11);
      let exec_lots = int_value (b ! 12);
      let exec_cost = int_value (b ! 13);
      let last_lots = int_value (b ! 14);
      let last_ticks = int_value (b ! 15);
      let min_lots = int_value (b ! 16);
      let match_id = int_value (b ! 17);
      let posn_lots = int_value (b ! 18);
      let posn_cost = int_value (b ! 19);
      li \<leftarrow> num_liq (int_value (b ! 20));
      let cpty = make_symbol (text_value (b ! 21));
      let created = to_time (int_value (b ! 22));
      Some (make_exec accnt market_id instr settl_day eid order_id ref st sd lots ticks resd_lots exec_lots exec_cost
       last_lots last_ticks min_lots match_id posn_lots posn_cost li cpty created)
    }"

definition trade_fields :: "db_field list" where
  "trade_fields = [symbol_field, BigIntField, symbol_field, IntField, BigIntField, BigIntField, ref_field,
     IntField, BigIntField, BigIntField, BigIntField, BigIntField, BigIntField, BigIntField, BigIntField,
     BigIntField, BigIntField, BigIntField, BigIntField, IntField, symbol_field, BigIntField]"

definition mysql_trade :: "sql_value list \<Rightarrow> exec option" where
  "mysql_trade b = do {
      let accnt = make_symbol (text_value (b ! 0));
      let market_id = int_value (b ! 1);
      let instr = make_symbol (text_value (b ! 2));
      let settl_day = int_value (b ! 3);
      let eid = int_value (b ! 4);
      let order_id = int_value (b ! 5);
      let ref = text_value (b ! 6);
      sd \<leftarrow> num_side (int_value (b ! 7));
      let lots = int_value (b ! 8);
      let ticks = int_value (b ! 9);
      let resd_lots = int_value (b ! 10);
      let exec_lots = int_value (b ! 11);
      let exec_cost = int_value (b ! 12);
      let last_lots = int_value (b ! 13);
      let last_ticks = int_value (b ! 14);
      let min_lots = int_value (b ! 15);
      let match_id = int_value (b ! 16);
      let posn_lots = int_value (b ! 17);
      let posn_cost = int_value (b ! 18);
      li \<leftarrow> num_liq (int_value (b ! 19));
      let cpty = make_symbol (text_value (b ! 20));
      let created = to_time (int_value (b ! 21));
      Some (make_exec accnt market_id instr settl_day eid order_id ref Trade sd lots ticks resd_lots exec_lots exec_cost
       last_lots last_ticks min_lots match_id posn_lots posn_cost li cpty created)
    }"

definition posn_fields :: "db_field list" where
  "posn_fields = [symbol_field, BigIntField, symbol_field, IntField, IntField, BigIntField, BigIntField]"

definition mysql_posn :: "sql_value list \<Rightarrow> posn_row option" where
  "mysql_posn b = do {
      let accnt = make_symbol (text_value (b ! 0));
      let market_id = int_value (b ! 1);
      let instr = make_symbol (text_value (b ! 2));
      let settl_day = int_value (b ! 3);
      sd \<leftarrow> num_side (int_value (b ! 4));
      let lots = int_value (b ! 5);
      let cst = int_value (b ! 6);
      Some ((accnt, market_id, instr, settl_day, sd, lots, cst))
    }"

definition mysql_read_posn :: "jday \<Rightarrow> query \<Rightarrow> (err, posn list, unit) outcome" where
  "mysql_read_posn bd q =
     (case mysql_read mysql_posn posn_fields q of
        Done _ rows \<Rightarrow> Done () (foldl (add_posn_row bd) [] rows)
      | Throw e _ \<Rightarrow> Throw e []
      | Undef \<Rightarrow> Undef)"

end
