(* ===== verification/Json_Text.thy ===== *)
theory Json_Text
  imports App_State Strings
begin

text \<open>
  The text of the program's objects: \<open>to_json\<close> of each, which the REST interface sends, and \<open>to_dsv\<close>, lines with a
  delimiter. Both write to a stream; the model gives the text that they write. Strings are written as
  they are, without escapes.
\<close>

section \<open>Names of enumerators\<close>

text \<open>As the schema \<open>etc/fbs/Types.fbs\<close> declares them.\<close>

definition asset_type_name :: "nat \<Rightarrow> string" where
  "asset_type_name t =
     (if t = 0 then ''None'' else if t = 1 then ''Cmdty'' else if t = 2 then ''Corp'' else if t = 3 then ''Ccy''
      else if t = 4 then ''Eqty'' else if t = 5 then ''Govt'' else if t = 6 then ''Index'' else [])"

definition direct_name :: "direct \<Rightarrow> string" where
  "direct_name d = (case d of Given \<Rightarrow> ''Given'' | NoDirect \<Rightarrow> ''None'' | Paid \<Rightarrow> ''Paid'')"

definition liq_ind_name :: "liq_ind \<Rightarrow> string" where
  "liq_ind_name li = (case li of NoLiq \<Rightarrow> ''None'' | Maker \<Rightarrow> ''Maker'' | Taker \<Rightarrow> ''Taker'')"

definition side_name :: "side \<Rightarrow> string" where
  "side_name s = (case s of Sell \<Rightarrow> ''Sell'' | NoSide \<Rightarrow> ''None'' | Buy \<Rightarrow> ''Buy'')"

definition state_name :: "ord_state \<Rightarrow> string" where
  "state_name s = (case s of NoState \<Rightarrow> ''None'' | New \<Rightarrow> ''New'' | Revise \<Rightarrow> ''Revise'' | Cancel \<Rightarrow> ''Cancel''
     | Trade \<Rightarrow> ''Trade'')"

text \<open>The overload that tells complete from partial trades.\<close>

definition state_name_resd :: "ord_state \<Rightarrow> lots \<Rightarrow> string" where
  "state_name_resd s resd = (if s = Trade then if resd = 0 then ''Complete'' else ''Partial'' else state_name s)"

text \<open>A time is written in milliseconds.\<close>

definition ms_since_epoch :: "nanos \<Rightarrow> int" where
  "ms_since_epoch t = t sdiv 1000000"

definition show_time :: "nanos \<Rightarrow> string" where
  "show_time t = show_int (ms_since_epoch t)"

section \<open>Assets and instruments\<close>

definition asset_dsv :: "char \<Rightarrow> asset \<Rightarrow> string" where
  "asset_dsv delim a = join_with delim
     [show_int (as_id a), symbol_text (as_symbol a), as_display a, show_nat (as_type a)]"

definition asset_json :: "asset \<Rightarrow> string" where
  "asset_json a = ''{\"symbol\":\"'' @ symbol_text (as_symbol a)
     @ ''\",\"display\":\"'' @ as_display a
     @ ''\",\"type\":\"'' @ asset_type_name (as_type a) @ ''\"}''"

definition instr_dsv :: "char \<Rightarrow> instr \<Rightarrow> string" where
  "instr_dsv delim i = join_with delim
     [show_int (i_id i), symbol_text (i_symbol i), i_display i, symbol_text (i_base_asset i), symbol_text (i_term_ccy i),
      show_int (i_lot_numer i), show_int (i_lot_denom i), show_int (i_tick_numer i), show_int (i_tick_denom i),
      show_int (i_pip_dp i), show_int (i_min_lots i), show_int (i_max_lots i)]"

definition instr_json :: "instr \<Rightarrow> string" where
  "instr_json i = ''{\"symbol\":\"'' @ symbol_text (i_symbol i)
     @ ''\",\"display\":\"'' @ i_display i
     @ ''\",\"base_asset\":\"'' @ symbol_text (i_base_asset i)
     @ ''\",\"term_ccy\":\"'' @ symbol_text (i_term_ccy i)
     @ ''\",\"lot_numer\":'' @ show_int (i_lot_numer i)
     @ '',\"lot_denom\":'' @ show_int (i_lot_denom i)
     @ '',\"tick_numer\":'' @ show_int (i_tick_numer i)
     @ '',\"tick_denom\":'' @ show_int (i_tick_denom i)
     @ '',\"pip_dp\":'' @ show_int (i_pip_dp i)
     @ '',\"min_lots\":'' @ show_int (i_min_lots i)
     @ '',\"max_lots\":'' @ show_int (i_max_lots i)
     @ ''}''"

section \<open>Markets\<close>

definition max_levels :: nat where
  "max_levels = 3"

text \<open>The loop of \<open>to_json_levels\<close> from its \<open>i\<close>-th step.\<close>

fun levels_from :: "(level \<Rightarrow> string) \<Rightarrow> nat \<Rightarrow> nat \<Rightarrow> level list \<Rightarrow> string" where
  "levels_from fn i 0 levels = []"
| "levels_from fn i (Suc n) levels =
     (if i > 0 then '','' else [])
     @ (case levels of
          lev # levels' \<Rightarrow> fn lev @ levels_from fn (i + 1) n levels'
        | [] \<Rightarrow> ''null'' @ levels_from fn (i + 1) n [])"

definition levels_json :: "(level \<Rightarrow> string) \<Rightarrow> level list \<Rightarrow> string" where
  "levels_json fn levels = levels_from fn 0 max_levels levels"

definition market_dsv :: "char \<Rightarrow> market \<Rightarrow> string" where
  "market_dsv delim m = join_with delim
     ([show_int (m_id m), symbol_text (m_instr m)]
      @ [if m_settl_day m \<noteq> 0 then show_int (jd_to_iso (m_settl_day m)) else []]
      @ [show_nat (m_state m)]
      @ (if m_last_lots m \<noteq> 0
         then [show_int (m_last_lots m), show_int (m_last_ticks m), show_time (m_last_time m)]
         else [[], [], []])
      @ [show_int (m_max_id m)])"

definition market_json :: "market \<Rightarrow> string" where
  "market_json m =
     (let bid_levels = ms_levels (m_bid_side m); offer_levels = ms_levels (m_offer_side m)
      in ''{\"id\":'' @ show_int (m_id m)
       @ '',\"instr\":\"'' @ symbol_text (m_instr m)
       @ ''\",\"settl_date\":''
       @ (if m_settl_day m \<noteq> 0 then show_int (jd_to_iso (m_settl_day m)) else ''null'')
       @ '',\"state\":'' @ show_nat (m_state m)
       @ (if m_last_lots m \<noteq> 0
          then '',\"last_lots\":'' @ show_int (m_last_lots m)
             @ '',\"last_ticks\":'' @ show_int (m_last_ticks m)
             @ '',\"last_time\":'' @ show_time (m_last_time m)
          else '',\"last_lots\":null,\"last_ticks\":null,\"last_time\":null'')
       @ '',\"bid_ticks\":['' @ levels_json (\<lambda>lev. show_int (l_ticks lev)) bid_levels
       @ ''],\"bid_lots\":['' @ levels_json (\<lambda>lev. show_int (l_lots lev)) bid_levels
       @ ''],\"bid_count\":['' @ levels_json (\<lambda>lev. show_int (l_count lev)) bid_levels
       @ ''],\"offer_ticks\":['' @ levels_json (\<lambda>lev. show_int (l_ticks lev)) offer_levels
       @ ''],\"offer_lots\":['' @ levels_json (\<lambda>lev. show_int (l_lots lev)) offer_levels
       @ ''],\"offer_count\":['' @ levels_json (\<lambda>lev. show_int (l_count lev)) offer_levels
       @ '']}'')"

section \<open>Orders and executions\<close>

definition order_dsv :: "char \<Rightarrow> order \<Rightarrow> string" where
  "order_dsv delim ord = join_with delim
     ([symbol_text (r_accnt ord), show_int (r_market_id ord), symbol_text (r_instr ord)]
      @ [if r_settl_day ord \<noteq> 0 then show_int (jd_to_iso (r_settl_day ord)) else []]
      @ [show_int (r_id ord)]
      @ [if r_ref ord \<noteq> [] then r_ref ord else []]
      @ [state_name (o_state ord), side_name (r_side ord), show_int (r_lots ord), show_int (o_ticks ord),
         show_int (o_resd_lots ord), show_int (o_exec_lots ord), show_int (o_exec_cost ord)]
      @ (if o_last_lots ord \<noteq> 0 then [show_int (o_last_lots ord), show_int (o_last_ticks ord)] else [[], []])
      @ [if o_min_lots ord \<noteq> 0 then show_int (o_min_lots ord) else []]
      @ [show_time (r_created ord), show_time (o_modified ord)])"

definition order_json :: "order \<Rightarrow> string" where
  "order_json ord = ''{\"accnt\":\"'' @ symbol_text (r_accnt ord)
     @ ''\",\"market_id\":'' @ show_int (r_market_id ord)
     @ '',\"instr\":\"'' @ symbol_text (r_instr ord)
     @ ''\",\"settl_date\":''
     @ (if r_settl_day ord \<noteq> 0 then show_int (jd_to_iso (r_settl_day ord)) else ''null'')
     @ '',\"id\":'' @ show_int (r_id ord)
     @ '',\"ref\":''
     @ (if r_ref ord \<noteq> [] then ''\"'' @ r_ref ord @ ''\"'' else ''null'')
     @ '',\"state\":\"'' @ state_name (o_state ord)
     @ ''\",\"side\":\"'' @ side_name (r_side ord)
     @ ''\",\"lots\":'' @ show_int (r_lots ord)
     @ '',\"ticks\":'' @ show_int (o_ticks ord)
     @ '',\"resd_lots\":'' @ show_int (o_resd_lots ord)
     @ '',\"exec_lots\":'' @ show_int (o_exec_lots ord)
     @ '',\"exec_cost\":'' @ show_int (o_exec_cost ord)
     @ (if o_last_lots ord \<noteq> 0
        then '',\"last_lots\":'' @ show_int (o_last_lots ord) @ '',\"last_ticks\":'' @ show_int (o_last_ticks ord)
        else '',\"last_lots\":null,\"last_ticks\":null'')
     @ '',\"min_lots\":''
     @ (if o_min_lots ord \<noteq> 0 then show_int (o_min_lots ord) else ''null'')
     @ '',\"created\":'' @ show_time (r_created ord)
     @ '',\"modified\":'' @ show_time (o_modified ord)
     @ ''}''"

definition exec_dsv :: "char \<Rightarrow> exec \<Rightarrow> string" where
  "exec_dsv delim ex = join_with delim
     ([symbol_text (r_accnt ex), show_int (r_market_id ex), symbol_text (r_instr ex)]
      @ [if r_settl_day ex \<noteq> 0 then show_int (jd_to_iso (r_settl_day ex)) else []]
      @ [show_int (r_id ex), show_int (e_order_id ex)]
      @ [if r_ref ex \<noteq> [] then r_ref ex else []]
      @ [state_name (e_state ex), side_name (r_side ex), show_int (r_lots ex), show_int (e_ticks ex),
         show_int (e_resd_lots ex), show_int (e_exec_lots ex), show_int (e_exec_cost ex)]
      @ (if e_last_lots ex \<noteq> 0 then [show_int (e_last_lots ex), show_int (e_last_ticks ex)] else [[], []])
      @ [if e_min_lots ex \<noteq> 0 then show_int (e_min_lots ex) else []]
      @ [if e_match_id ex \<noteq> 0 then show_int (e_match_id ex) else []]
      @ (if e_state ex = Trade then [show_int (e_posn_lots ex), show_int (e_posn_cost ex)] else [[], []])
      @ [if e_liq_ind ex \<noteq> NoLiq then liq_ind_name (e_liq_ind ex) else []]
      @ [symbol_text (e_cpty ex), show_time (r_created ex)])"

definition exec_json :: "exec \<Rightarrow> string" where
  "exec_json ex = ''{\"accnt\":\"'' @ symbol_text (r_accnt ex)
     @ ''\",\"market_id\":'' @ show_int (r_market_id ex)
     @ '',\"instr\":\"'' @ symbol_text (r_instr ex)
     @ ''\",\"settl_date\":''
     @ (if r_settl_day ex \<noteq> 0 then show_int (jd_to_iso (r_settl_day ex)) else ''null'')
     @ '',\"id\":'' @ show_int (r_id ex)
     @ '',\"order_id\":'' @ show_int (e_order_id ex)
     @ '',\"ref\":''
     @ (if r_ref ex \<noteq> [] then ''\"'' @ r_ref ex @ ''\"'' else ''null'')
     @ '',\"state\":\"'' @ state_name (e_state ex)
     @ ''\",\"side\":\"'' @ side_name (r_side ex)
     @ ''\",\"lots\":'' @ show_int (r_lots ex)
     @ '',\"ticks\":'' @ show_int (e_ticks ex)
     @ '',\"resd_lots\":'' @ show_int (e_resd_lots ex)
     @ '',\"exec_lots\":'' @ show_int (e_exec_lots ex)
     @ '',\"exec_cost\":'' @ show_int (e_exec_cost ex)
     @ (if e_last_lots ex \<noteq> 0
        then '',\"last_lots\":'' @ show_int (e_last_lots ex) @ '',\"last_ticks\":'' @ show_int (e_last_ticks ex)
        else '',\"last_lots\":null,\"last_ticks\":null'')
     @ '',\"min_lots\":''
     @ (if e_min_lots ex \<noteq> 0 then show_int (e_min_lots ex) else ''null'')
     @ '',\"match_id\":''
     @ (if e_match_id ex \<noteq> 0 then show_int (e_match_id ex) else ''null'')
     @ (if e_state ex = Trade
        then '',\"posn_lots\":'' @ show_int (e_posn_lots ex) @ '',\"posn_cost\":'' @ show_int (e_posn_cost ex)
        else '',\"posn_lots\":null,\"posn_cost\":null'')
     @ '',\"liq_ind\":''
     @ (if e_liq_ind ex \<noteq> NoLiq then ''\"'' @ liq_ind_name (e_liq_ind ex) @ ''\"'' else ''null'')
     @ '',\"cpty\":''
     @ (if e_cpty ex \<noteq> [] then ''\"'' @ symbol_text (e_cpty ex) @ ''\"'' else ''null'')
     @ '',\"created\":'' @ show_time (r_created ex)
     @ ''}''"

section \<open>Positions\<close>

definition posn_dsv :: "char \<Rightarrow> posn \<Rightarrow> string" where
  "posn_dsv delim p = join_with delim
     ([symbol_text (p_accnt p), show_int (p_market_id p), symbol_text (p_instr p)]
      @ [if p_settl_day p \<noteq> 0 then show_int (jd_to_iso (p_settl_day p)) else []]
      @ (if p_buy_lots p \<noteq> 0 then [show_int (p_buy_lots p), show_int (p_buy_cost p)] else [''0'', ''0''])
      @ (if p_sell_lots p \<noteq> 0 then [show_int (p_sell_lots p), show_int (p_sell_cost p)] else [''0'', ''0'']))"

definition posn_json :: "posn \<Rightarrow> string" where
  "posn_json p = ''{\"accnt\":\"'' @ symbol_text (p_accnt p)
     @ ''\",\"market_id\":'' @ show_int (p_market_id p)
     @ '',\"instr\":\"'' @ symbol_text (p_instr p)
     @ ''\",\"settl_date\":''
     @ (if p_settl_day p \<noteq> 0 then show_int (jd_to_iso (p_settl_day p)) else ''null'')
     @ (if p_buy_lots p \<noteq> 0
        then '',\"buy_lots\":'' @ show_int (p_buy_lots p) @ '',\"buy_cost\":'' @ show_int (p_buy_cost p)
        else '',\"buy_lots\":0,\"buy_cost\":0'')
     @ (if p_sell_lots p \<noteq> 0
        then '',\"sell_lots\":'' @ show_int (p_sell_lots p) @ '',\"sell_cost\":'' @ show_int (p_sell_cost p)
        else '',\"sell_lots\":0,\"sell_cost\":0'')
     @ ''}''"

section \<open>Responses and exceptions\<close>

text \<open>A response has the objects as they are when it is written; the latest execution comes first.\<close>

definition response_json :: "app \<Rightarrow> response \<Rightarrow> string" where
  "response_json st r =
     ''{\"market\":''
     @ (case resp_market r of
          Some mid \<Rightarrow> (case get_market st mid of Some m \<Rightarrow> market_json m | None \<Rightarrow> ''null'')
        | None \<Rightarrow> ''null'')
     @ '',\"orders\":'' @ json_array (map (\<lambda>p. order_json (a_orders st p)) (resp_orders r))
     @ '',\"execs\":'' @ json_array (map (\<lambda>e. exec_json (a_execs st e)) (rev (resp_execs r)))
     @ '',\"posn\":''
     @ (case resp_posn r of Some q \<Rightarrow> posn_json (a_posns st q) | None \<Rightarrow> ''null'')
     @ ''}''"

definition exception_json :: "nat \<Rightarrow> string \<Rightarrow> string \<Rightarrow> string" where
  "exception_json status reason detail =
     ''{\"status\":'' @ show_nat status
     @ '',\"reason\":\"'' @ reason
     @ ''\",\"detail\":\"'' @ detail
     @ ''\"}''"

end
