(* ===== verification/Dsv_Model.thy ===== *)
theory Dsv_Model
  imports Db_Model Json_Text
begin

text \<open>
  \<open>DsvModel\<close> (\<open>fin/DsvModel.cpp\<close>): objects from files of delimited values, with \<open>split\<close> of
  \<open>util/Tokeniser.hpp\<close> and the conversions of \<open>util/TypeTraits.hpp\<close>. The parameter of a read is the
  contents of the file; a file that cannot be opened has none.

  The theory gives what becomes of the assets and instruments that the program itself writes as
  delimited values: assets come back, instruments come back with lots and ticks exchanged.
\<close>

section \<open>Fields\<close>

text \<open>
  \<open>from_string\<close>. The conversion of a 64-bit integer is that of a 32-bit one; a number that does not fit
  into 32 bits overflows there, which is undefined.
\<close>

definition from_int32 :: "string \<Rightarrow> int option" where
  "from_int32 s = (let v = stoi32 s in if \<bar>v\<bar> < 2 ^ 31 then Some v else None)"

definition from_int64 :: "string \<Rightarrow> int option" where
  "from_int64 s = (let v = stoi32 s in if \<bar>v\<bar> < 2 ^ 31 then Some v else None)"

definition from_uint32 :: "string \<Rightarrow> nat" where
  "from_uint32 s = unat (stou32 s)"

definition from_enum :: "(int \<Rightarrow> 'a option) \<Rightarrow> string \<Rightarrow> 'a option" where
  "from_enum num s = do { i \<leftarrow> from_int32 s; num i }"

definition from_time :: "string \<Rightarrow> nanos" where
  "from_time s = to_time (stoi64 s)"

text \<open>\<open>split\<close>: as many columns as the row has; those that the line lacks are empty.\<close>

fun split_row :: "nat \<Rightarrow> tokeniser \<Rightarrow> string list" where
  "split_row 0 toks = []"
| "split_row (Suc n) toks =
     (if tok_empty toks then replicate (Suc n) [] else tok_top toks # split_row n (tok_pop toks))"

text \<open>The lines that \<open>getline\<close> gives.\<close>

definition file_lines :: "string \<Rightarrow> string list" where
  "file_lines contents = tokens (tok_reset contents [CHR 0x0A])"

fun dsv_lines :: "nat \<Rightarrow> (string list \<Rightarrow> 'a option) \<Rightarrow> string list \<Rightarrow> 'a list \<Rightarrow> (err, 'a list, unit) outcome" where
  "dsv_lines n f [] acc = Done () acc"
| "dsv_lines n f (line # rest) acc =
     (case f (split_row n (tok_reset line [CHR 0x09])) of
        None \<Rightarrow> Undef | Some x \<Rightarrow> dsv_lines n f rest (acc @ [x]))"

definition dsv_read :: "nat \<Rightarrow> (string list \<Rightarrow> 'a option) \<Rightarrow> string \<Rightarrow> (err, 'a list, unit) outcome" where
  "dsv_read n f contents = (case file_lines contents of [] \<Rightarrow> Done () [] | header # rest \<Rightarrow> dsv_lines n f rest [])"

section \<open>Objects\<close>

definition dsv_asset :: "string list \<Rightarrow> asset option" where
  "dsv_asset row = do {
      aid \<leftarrow> from_int32 (row ! 0);
      let sy = make_symbol (row ! 1);
      let display = row ! 2;
      ty \<leftarrow> from_enum num_asset_type (row ! 3);
      Some (make_asset aid sy display ty)
    }"

definition dsv_instr :: "string list \<Rightarrow> instr option" where
  "dsv_instr row = do {
      iid \<leftarrow> from_int32 (row ! 0);
      let sy = make_symbol (row ! 1);
      let display = row ! 2;
      let base = make_symbol (row ! 3);
      let term_ccy = make_symbol (row ! 4);
      lot_numer \<leftarrow> from_int32 (row ! 7);
      lot_denom \<leftarrow> from_int32 (row ! 8);
      tick_numer \<leftarrow> from_int32 (row ! 5);
      tick_denom \<leftarrow> from_int32 (row ! 6);
      pip_dp \<leftarrow> from_int32 (row ! 9);
      min_lots \<leftarrow> from_int64 (row ! 10);
      max_lots \<leftarrow> from_int64 (row ! 11);
      Some (make_instr iid sy display base term_ccy lot_numer lot_denom tick_numer tick_denom pip_dp min_lots max_lots)
    }"

definition dsv_market :: "string list \<Rightarrow> market option" where
  "dsv_market row = do {
      mid \<leftarrow> from_int64 (row ! 0);
      let instr = make_symbol (row ! 1);
      settl_day \<leftarrow> from_int32 (row ! 2);
      let st = from_uint32 (row ! 3);
      last_lots \<leftarrow> from_int64 (row ! 4);
      last_ticks \<leftarrow> from_int64 (row ! 5);
      let last_time = from_time (row ! 6);
      max_id \<leftarrow> from_int64 (row ! 7);
      Some (load_market mid instr settl_day st last_lots last_ticks last_time max_id)
    }"

definition dsv_order :: "string list \<Rightarrow> order option" where
  "dsv_order row = do {
      let accnt = make_symbol (row ! 0);
      market_id \<leftarrow> from_int64 (row ! 1);
      let instr = make_symbol (row ! 2);
      settl_day \<leftarrow> from_int32 (row ! 3);
      oid \<leftarrow> from_int64 (row ! 4);
      let ref = row ! 5;
      st \<leftarrow> from_enum num_state (row ! 6);
      sd \<leftarrow> from_enum num_side (row ! 7);
      lots \<leftarrow> from_int64 (row ! 8);
      ticks \<leftarrow> from_int64 (row ! 9);
      resd_lots \<leftarrow> from_int64 (row ! 10);
      exec_lots \<leftarrow> from_int64 (row ! 11);
      exec_cost \<leftarrow> from_int64 (row ! 12);
      last_lots \<leftarrow> from_int64 (row ! 13);
      last_ticks \<leftarrow> from_int64 (row ! 14);
      min_lots \<leftarrow> from_int64 (row ! 15);
      let created = from_time (row ! 16);
      let modified = from_time (row ! 17);
      Some (load_order_of accnt market_id instr settl_day oid ref st sd lots ticks resd_lots exec_lots exec_cost last_lots
       last_ticks min_lots created modified)
    }"

definition dsv_exec :: "string list \<Rightarrow> exec option" where
  "dsv_exec row = do {
      let accnt = make_symbol (row ! 0);
      market_id \<leftarrow> from_int64 (row ! 1);
      let instr = make_symbol (row ! 2);
      settl_day \<leftarrow> from_int32 (row ! 3);
      eid \<leftarrow> from_int64 (row ! 4);
      order_id \<leftarrow> from_int64 (row ! 5);
      let ref = row ! 6;
      st \<leftarrow> from_enum num_state (row ! 7);
      sd \<leftarrow> from_enum num_side (row ! 8);
      lots \<leftarrow> from_int64 (row ! 9);
      ticks \<leftarrow> from_int64 (row ! 10);
      resd_lots \<leftarrow> from_int64 (row ! 11);
      exec_lots \<leftarrow> from_int64 (row ! 12);
      exec_cost \<leftarrow> from_int64 (row ! 13);
      last_lots \<leftarrow> from_int64 (row ! 14);
      last_ticks \<leftarrow> from_int64 (row ! 15);
      min_lots \<leftarrow> from_int64 (row ! 16);
      match_id \<leftarrow> from_int64 (row ! 17);
      posn_lots \<leftarrow> from_int64 (row ! 18);
      posn_cost \<leftarrow> from_int64 (row ! 19);
      li \<leftarrow> from_enum num_liq (row ! 20);
      let cpty = make_symbol (row ! 21);
      let created = from_time (row ! 22);
      Some (make_exec accnt market_id instr settl_day eid order_id ref st sd lots ticks resd_lots exec_lots exec_cost
       last_lots last_ticks min_lots match_id posn_lots posn_cost li cpty created)
    }"

definition dsv_trade :: "string list \<Rightarrow> exec option" where
  "dsv_trade row = do {
      let accnt = make_symbol (row ! 0);
      market_id \<leftarrow> from_int64 (row ! 1);
      let instr = make_symbol (row ! 2);
      settl_day \<leftarrow> from_int32 (row ! 3);
      eid \<leftarrow> from_int64 (row ! 4);
      order_id \<leftarrow> from_int64 (row ! 5);
      let ref = row ! 6;
      sd \<leftarrow> from_enum num_side (row ! 7);
      lots \<leftarrow> from_int64 (row ! 8);
      ticks \<leftarrow> from_int64 (row ! 9);
      resd_lots \<leftarrow> from_int64 (row ! 10);
      exec_lots \<leftarrow> from_int64 (row ! 11);
      exec_cost \<leftarrow> from_int64 (row ! 12);
      last_lots \<leftarrow> from_int64 (row ! 13);
      last_ticks \<leftarrow> from_int64 (row ! 14);
      min_lots \<leftarrow> from_int64 (row ! 15);
      match_id \<leftarrow> from_int64 (row ! 16);
      posn_lots \<leftarrow> from_int64 (row ! 17);
      posn_cost \<leftarrow> from_int64 (row ! 18);
      li \<leftarrow> from_enum num_liq (row ! 19);
      let cpty = make_symbol (row ! 20);
      let created = from_time (row ! 21);
      Some (make_exec accnt market_id instr settl_day eid order_id ref Trade sd lots ticks resd_lots exec_lots exec_cost
       last_lots last_ticks min_lots match_id posn_lots posn_cost li cpty created)
    }"

definition dsv_posn :: "string list \<Rightarrow> posn option" where
  "dsv_posn row = do {
      let accnt = make_symbol (row ! 0);
      market_id \<leftarrow> from_int64 (row ! 1);
      let instr = make_symbol (row ! 2);
      settl_day \<leftarrow> from_int32 (row ! 3);
      buy_lots \<leftarrow> from_int64 (row ! 4);
      buy_cost \<leftarrow> from_int64 (row ! 5);
      sell_lots \<leftarrow> from_int64 (row ! 6);
      sell_cost \<leftarrow> from_int64 (row ! 7);
      Some (make_posn accnt market_id instr settl_day buy_lots buy_cost sell_lots sell_cost)
    }"

definition dsv_read_asset :: "string \<Rightarrow> (err, asset list, unit) outcome" where
  "dsv_read_asset = dsv_read 4 dsv_asset"

definition dsv_read_instr :: "string \<Rightarrow> (err, instr list, unit) outcome" where
  "dsv_read_instr = dsv_read 12 dsv_instr"

definition dsv_read_market :: "string \<Rightarrow> (err, market list, unit) outcome" where
  "dsv_read_market = dsv_read 8 dsv_market"

definition dsv_read_order :: "string \<Rightarrow> (err, order list, unit) outcome" where
  "dsv_read_order = dsv_read 18 dsv_order"

definition dsv_read_exec :: "string \<Rightarrow> (err, exec list, unit) outcome" where
  "dsv_read_exec = dsv_read 23 dsv_exec"

definition dsv_read_trade :: "string \<Rightarrow> (err, exec list, unit) outcome" where
  "dsv_read_trade = dsv_read 22 dsv_trade"

definition dsv_read_posn :: "string \<Rightarrow> (err, posn list, unit) outcome" where
  "dsv_read_posn = dsv_read 8 dsv_posn"

section \<open>What the program writes\<close>

text \<open>The files that \<open>tool/DbToDsv.cpp\<close> writes for a model: a header, and a line for each object.\<close>

definition tab :: char where
  "tab = CHR 0x09"

definition write_file :: "string \<Rightarrow> string list \<Rightarrow> string" where
  "write_file header ls = concat (map (\<lambda>l. l @ [CHR 0x0A]) (header # ls))"

definition asset_file :: "asset list \<Rightarrow> string" where
  "asset_file assets =
     write_file (join_with tab [''id'', ''symbol'', ''display'', ''type'']) (map (asset_dsv tab) assets)"

definition instr_file :: "instr list \<Rightarrow> string" where
  "instr_file instrs =
     write_file (join_with tab [''id'', ''symbol'', ''display'', ''base_asset'', ''term_ccy'', ''lot_numer'', ''lot_denom'',
       ''tick_numer'', ''tick_denom'', ''pip_dp'', ''min_lots'', ''max_lots'']) (map (instr_dsv tab) instrs)"

definition plain :: "string \<Rightarrow> bool" where
  "plain s \<longleftrightarrow> tab \<notin> set s \<and> CHR 0x0A \<notin> set s"

lemma plain_append [simp]: "plain (a @ b) \<longleftrightarrow> plain a \<and> plain b"
  by (auto simp: plain_def)

lemma plain_Nil [simp]: "plain []"
  by (simp add: plain_def)

lemma plain_digits: "\<forall>c\<in>set s. is_digit c \<Longrightarrow> plain s"
  by (auto simp: plain_def tab_def is_digit_def code_of_def)

lemma plain_show_nat [simp]: "plain (show_nat n)"
  by (rule plain_digits) (rule show_nat_digits)

lemma plain_show_int [simp]: "plain (show_int i)"
  using plain_show_nat by (auto simp: show_int_def plain_def tab_def)

lemma file_lines_write: "\<forall>l\<in>set ls. CHR 0x0A \<notin> set l \<Longrightarrow> file_lines (concat (map (\<lambda>l. l @ [CHR 0x0A]) ls)) = ls"
  by (induction ls) (simp_all add: file_lines_def tokens_Cons)

lemma split_row_tokens:
  "split_row n toks = take n (tokens toks) @ replicate (n - length (tokens toks)) []"
proof (induction n arbitrary: toks)
  case (Suc n)
  show ?case
  proof (cases "tok_empty toks")
    case True
    then have "tokens toks = []" using tokens_empty_iff by blast
    with True show ?thesis by simp
  next
    case False
    then show ?thesis by (simp add: Suc tokens_unfold[OF False])
  qed
qed simp

lemma split_row_written:
  assumes "\<forall>x\<in>set xs. plain x" and "length xs = n" and "last xs \<noteq> []"
  shows "split_row n (tok_reset (join_with tab xs) [CHR 0x09]) = xs"
  using assms tokens_join[of xs tab] by (simp add: split_row_tokens plain_def tab_def)

lemma join_no_newline: "\<forall>x\<in>set xs. plain x \<Longrightarrow> CHR 0x0A \<notin> set (join_with tab xs)"
  by (induction tab xs rule: join_with.induct) (auto simp: plain_def tab_def)

lemma dsv_lines_written:
  assumes "\<And>x. x \<in> set xs \<Longrightarrow> f (split_row n (tok_reset (w x) [CHR 0x09])) = Some (g x)"
  shows "dsv_lines n f (map w xs) acc = Done () (acc @ map g xs)"
  using assms by (induction xs arbitrary: acc) simp_all

lemma dsv_read_written:
  assumes "\<And>x. x \<in> set xs \<Longrightarrow> f (split_row n (tok_reset (w x) [CHR 0x09])) = Some (g x)"
    and "\<And>x. x \<in> set xs \<Longrightarrow> CHR 0x0A \<notin> set (w x)" and "CHR 0x0A \<notin> set header"
  shows "dsv_read n f (write_file header (map w xs)) = Done () (map g xs)"
proof -
  have "file_lines (write_file header (map w xs)) = header # map w xs"
    unfolding write_file_def using assms(2,3) by (intro file_lines_write) auto
  then show ?thesis using dsv_lines_written[of xs f n w g "[]"] assms(1) by (simp add: dsv_read_def)
qed

section \<open>Assets and instruments that come back\<close>

definition text_ok :: "symbol \<Rightarrow> bool" where
  "text_ok s \<longleftrightarrow> length s \<le> 16 \<and> CHR 0x00 \<notin> set s \<and> plain s"

definition asset_ok :: "asset \<Rightarrow> bool" where
  "asset_ok a \<longleftrightarrow> \<bar>as_id a\<bar> < 2 ^ 31 \<and> text_ok (as_symbol a) \<and> plain (as_display a)
     \<and> length (as_display a) \<le> max_display \<and> as_type a \<le> 6"

definition instr_ok :: "instr \<Rightarrow> bool" where
  "instr_ok i \<longleftrightarrow> text_ok (i_symbol i) \<and> text_ok (i_base_asset i) \<and> text_ok (i_term_ccy i)
     \<and> plain (i_display i) \<and> length (i_display i) \<le> max_display
     \<and> (\<forall>v\<in>{i_id i, i_lot_numer i, i_lot_denom i, i_tick_numer i, i_tick_denom i, i_pip_dp i, i_min_lots i,
            i_max_lots i}. \<bar>v\<bar> < 2 ^ 31)"

definition swap_lots_ticks :: "instr \<Rightarrow> instr" where
  "swap_lots_ticks i = i\<lparr>i_lot_numer := i_tick_numer i, i_lot_denom := i_tick_denom i,
     i_tick_numer := i_lot_numer i, i_tick_denom := i_lot_denom i\<rparr>"

lemma text_ok_facts:
  assumes "text_ok s"
  shows "symbol_text s = s" and "plain s" and "make_symbol s = s"
proof -
  show "symbol_text s = s" "plain s" using assms by (auto simp: text_ok_def symbol_text_def takeWhile_eq_all_conv)
  show "make_symbol s = s"
    using assms unfolding text_ok_def make_symbol_def
    by (cases s rule: rev_cases) (auto simp: dropWhile_eq_self_iff)
qed

lemma from_int32_show: "\<bar>i\<bar> < 2 ^ 31 \<Longrightarrow> from_int32 (show_int i) = Some i"
  by (simp add: from_int32_def stoi32_def stoi_show)

lemma from_int64_show: "\<bar>i\<bar> < 2 ^ 31 \<Longrightarrow> from_int64 (show_int i) = Some i"
  by (simp add: from_int64_def stoi32_def stoi_show)

lemma asset_line:
  assumes "asset_ok a"
  shows "dsv_asset (split_row 4 (tok_reset (asset_dsv tab a) [CHR 0x09])) = Some a"
    and "CHR 0x0A \<notin> set (asset_dsv tab a)"
proof -
  have a: "text_ok (as_symbol a)" "plain (as_display a)" "take max_display (as_display a) = as_display a"
    "\<bar>as_id a\<bar> < 2 ^ 31" "as_type a \<le> 6"
    using assms by (simp_all add: asset_ok_def)
  let ?xs = "[show_int (as_id a), symbol_text (as_symbol a), as_display a, show_nat (as_type a)]"
  have p: "\<forall>x\<in>set ?xs. plain x" using a text_ok_facts[OF a(1)] by simp
  then show "CHR 0x0A \<notin> set (asset_dsv tab a)" unfolding asset_dsv_def by (rule join_no_newline)
  have row: "split_row 4 (tok_reset (asset_dsv tab a) [CHR 0x09]) = ?xs"
    unfolding asset_dsv_def by (rule split_row_written[OF p]) simp_all
  have ty: "from_int32 (show_nat (as_type a)) = Some (int (as_type a))"
    using from_int32_show[of "int (as_type a)"] a(5) by (simp add: show_int_def)
  show "dsv_asset (split_row 4 (tok_reset (asset_dsv tab a) [CHR 0x09])) = Some a"
    unfolding row using a text_ok_facts[OF a(1)] ty
    by (simp add: dsv_asset_def from_int32_show from_enum_def num_asset_type_def make_asset_def)
qed

lemma instr_line:
  assumes "instr_ok i"
  shows "dsv_instr (split_row 12 (tok_reset (instr_dsv tab i) [CHR 0x09])) = Some (swap_lots_ticks i)"
    and "CHR 0x0A \<notin> set (instr_dsv tab i)"
proof -
  have t: "text_ok (i_symbol i)" "text_ok (i_base_asset i)" "text_ok (i_term_ccy i)" "plain (i_display i)"
      "take max_display (i_display i) = i_display i"
    using assms by (simp_all add: instr_ok_def)
  have v: "\<bar>v\<bar> < 2 ^ 31" if "v \<in> {i_id i, i_lot_numer i, i_lot_denom i, i_tick_numer i, i_tick_denom i, i_pip_dp i,
      i_min_lots i, i_max_lots i}" for v
    using assms that unfolding instr_ok_def by blast
  let ?xs = "[show_int (i_id i), symbol_text (i_symbol i), i_display i, symbol_text (i_base_asset i), symbol_text (i_term_ccy i),
      show_int (i_lot_numer i), show_int (i_lot_denom i), show_int (i_tick_numer i), show_int (i_tick_denom i),
      show_int (i_pip_dp i), show_int (i_min_lots i), show_int (i_max_lots i)]"
  have p: "\<forall>x\<in>set ?xs. plain x" using t text_ok_facts[OF t(1)] text_ok_facts[OF t(2)] text_ok_facts[OF t(3)] by simp
  then show "CHR 0x0A \<notin> set (instr_dsv tab i)" unfolding instr_dsv_def by (rule join_no_newline)
  have row: "split_row 12 (tok_reset (instr_dsv tab i) [CHR 0x09]) = ?xs"
    unfolding instr_dsv_def by (rule split_row_written[OF p]) simp_all
  show "dsv_instr (split_row 12 (tok_reset (instr_dsv tab i) [CHR 0x09])) = Some (swap_lots_ticks i)"
    unfolding row using t text_ok_facts[OF t(1)] text_ok_facts[OF t(2)] text_ok_facts[OF t(3)] v
    by (simp add: dsv_instr_def from_int32_show from_int64_show make_instr_def swap_lots_ticks_def)
qed

text \<open>
  C37. Of the files that the program itself writes, the assets come back as they were, and the instruments come
  back with the numerators and denominators of lots and ticks exchanged, because the file has the lots first and
  the model reads the ticks first. The numbers are in the 32-bit range that the model reads, also those of lots, and the
  texts have no separators and no line breaks.
\<close>

theorem reference_data_files:
  assumes "\<forall>a\<in>set assets. asset_ok a" and "\<forall>i\<in>set instrs. instr_ok i"
  shows "dsv_read_asset (asset_file assets) = Done () assets
    \<and> dsv_read_instr (instr_file instrs) = Done () (map swap_lots_ticks instrs)"
proof
  have h: "CHR 0x0A \<notin> set (join_with tab [''id'', ''symbol'', ''display'', ''type''])"
    "CHR 0x0A \<notin> set (join_with tab [''id'', ''symbol'', ''display'', ''base_asset'', ''term_ccy'', ''lot_numer'',
      ''lot_denom'', ''tick_numer'', ''tick_denom'', ''pip_dp'', ''min_lots'', ''max_lots''])"
    by (simp_all add: tab_def)
  have "dsv_read_asset (asset_file assets) = Done () (map id assets)"
    unfolding dsv_read_asset_def asset_file_def
    by (rule dsv_read_written[OF _ _ h(1)]) (use assms(1) asset_line in auto)
  then show "dsv_read_asset (asset_file assets) = Done () assets" by simp
  show "dsv_read_instr (instr_file instrs) = Done () (map swap_lots_ticks instrs)"
    unfolding dsv_read_instr_def instr_file_def
    by (rule dsv_read_written[OF _ _ h(2)]) (use assms(2) instr_line in auto)
qed

theorem reference_data_files_witness:
  "dsv_read_asset (asset_file [make_asset 1 ''EUR'' ''Euro'' 3]) = Done () [make_asset 1 ''EUR'' ''Euro'' 3]
   \<and> dsv_read_instr (instr_file [make_instr 1 ''EURUSD'' ''EURUSD'' ''EUR'' ''USD'' 1000000 1 1 10000 4 1 10])
     = Done () (map swap_lots_ticks [make_instr 1 ''EURUSD'' ''EURUSD'' ''EUR'' ''USD'' 1000000 1 1 10000 4 1 10])"
  by (rule reference_data_files)
    (simp_all add: asset_ok_def instr_ok_def make_asset_def make_instr_def text_ok_def plain_def tab_def max_display_def)

text \<open>A number of 32 bits or more is undefined, also for the identifiers and lots, which have 64.\<close>

lemma wide_number_undefined: "from_int64 ''2147483648'' = None"
  by code_simp

text \<open>A market writes its settlement day as a date, and the date is read as a Julian day.\<close>

lemma market_day_is_date:
  assumes "\<bar>mid\<bar> < 2 ^ 31" and "text_ok ins" and "d \<noteq> 0" and "\<bar>jd_to_iso d\<bar> < 2 ^ 31" and "st < 2 ^ 32"
  shows "dsv_market (split_row 8 (tok_reset (market_dsv tab (make_market mid ins d st)) [CHR 0x09]))
    = Some (make_market mid ins (jd_to_iso d) st)"
proof -
  let ?xs = "[show_int mid, ins, show_int (jd_to_iso d), show_nat st, [], [], [], show_int 0]"
  have "\<forall>x\<in>set ?xs. plain x" using text_ok_facts[OF assms(2)] by simp
  then have row: "split_row 8 (tok_reset (join_with tab ?xs) [CHR 0x09]) = ?xs"
    by (rule split_row_written) simp_all
  have dsv: "market_dsv tab (make_market mid ins d st) = join_with tab ?xs"
    using assms(3) text_ok_facts(1)[OF assms(2)] by (simp add: market_dsv_def make_market_def)
  have "unat (of_nat st :: 32 word) = st" using assms(5) by (simp add: unat_of_nat)
  moreover have "from_int64 [] = Some 0" "from_time [] = 0" by code_simp+
  moreover have "from_int64 (show_int 0) = Some 0" by (rule from_int64_show) simp
  ultimately show ?thesis
    unfolding dsv row using assms text_ok_facts[OF assms(2)]
    by (simp add: dsv_market_def from_int32_show from_int64_show from_uint32_def stou32_def stou_show load_market_def
        make_market_def)
qed

end
