(* ===== verification/Config_File.thy ===== *)
theory Config_File
  imports Var_Sub Dsv_Model
begin

text \<open>
  The configuration file: \<open>parse_pairs\<close> and \<open>Config\<close> (\<open>util/Config.hpp\<close>, \<open>util/Config.cpp\<close>), the choice of the
  database (\<open>db/DbCtx.cpp\<close>) and the file mode (\<open>swirlyd/Main.cpp\<close>) that are read from it.

  The theory shows that the entries of a file are found under their keys with their variables expanded, and
  that the mode in the files that come with the program is not the one they mean.
\<close>

section \<open>The file\<close>

definition parse_line :: "string \<Rightarrow> (string \<times> string) list" where
  "parse_line line = (let l = trim line in
     if l = [] \<or> hd l = CHR ''#'' then []
     else (let (key, val) = split_pair l CHR ''='' in [(rtrim key, ltrim val)]))"

definition parse_pairs :: "string \<Rightarrow> (string \<times> string) list" where
  "parse_pairs contents = concat (map parse_line (file_lines contents))"

type_synonym config = "string \<Rightarrow> string option"

text \<open>\<open>emplace\<close> keeps the value that is there.\<close>

definition config_set :: "string \<Rightarrow> string \<Rightarrow> config \<Rightarrow> config" where
  "config_set key val m = (case m key of None \<Rightarrow> m(key \<mapsto> val) | Some _ \<Rightarrow> m)"

fun read_pairs :: "(string \<Rightarrow> string) \<Rightarrow> (string \<times> string) list \<Rightarrow> config \<Rightarrow> config option" where
  "read_pairs fn [] m = Some m"
| "read_pairs fn ((key, val) # rest) m =
     (case var_sub fn val of None \<Rightarrow> None | Some val' \<Rightarrow> read_pairs fn rest (config_set key val' m))"

definition config_read :: "(string \<Rightarrow> string) \<Rightarrow> string \<Rightarrow> config \<Rightarrow> config option" where
  "config_read fn contents m = read_pairs fn (parse_pairs contents) m"

definition config_get :: "config \<Rightarrow> string \<Rightarrow> string \<Rightarrow> string" where
  "config_get m key dfl = (case m key of None \<Rightarrow> dfl | Some val \<Rightarrow> val)"

definition config_get_uint :: "config \<Rightarrow> string \<Rightarrow> nat \<Rightarrow> nat" where
  "config_get_uint m key dfl = (case m key of None \<Rightarrow> dfl | Some val \<Rightarrow> from_uint32 val)"

section \<open>What the daemon reads\<close>

text \<open>\<open>DbCtx\<close>: the database that is opened, or the text of the exception.\<close>

datatype db_choice = Sqlite_Db string | MySql_Db string string string string nat

definition make_impl :: "config \<Rightarrow> string + db_choice" where
  "make_impl m = (let db_type = config_get m ''db_type'' ''sqlite'' in
     if db_type = ''sqlite'' then Inr (Sqlite_Db (config_get m ''db_name'' ''swirly.db''))
     else if db_type = ''mariadb'' \<or> db_type = ''mysql'' then
       Inr (MySql_Db (config_get m ''db_host'' ''localhost'') (config_get m ''db_user'' ''swirlyuser'')
              (config_get m ''db_pass'' []) (config_get m ''db_name'' ''swirlydb'') (config_get_uint m ''db_port'' 3306))
     else Inl (''db_type '' @ [CHR 0x27] @ db_type @ [CHR 0x27] @ '' not supported''))"

text \<open>The mask that is set before files are created, where one is. Octal 027 is 23.\<close>

definition file_mask :: "config \<Rightarrow> bool \<Rightarrow> nat option" where
  "file_mask m daemon = (let file_mode = config_get m ''file_mode'' [] in
     if file_mode \<noteq> [] then Some (from_uint32 file_mode) else if daemon then Some 23 else None)"

section \<open>Entries\<close>

definition edges_ok :: "string \<Rightarrow> bool" where
  "edges_ok s \<longleftrightarrow> s \<noteq> [] \<longrightarrow> \<not> is_space (hd s) \<and> \<not> is_space (last s)"

definition key_ok :: "string \<Rightarrow> bool" where
  "key_ok k \<longleftrightarrow> k \<noteq> [] \<and> edges_ok k \<and> hd k \<noteq> CHR ''#'' \<and> CHR ''='' \<notin> set k \<and> CHR 0x0A \<notin> set k"

definition val_ok :: "string \<Rightarrow> bool" where
  "val_ok v \<longleftrightarrow> edges_ok v \<and> CHR 0x0A \<notin> set v"

definition entry_line :: "string \<Rightarrow> string \<Rightarrow> string" where
  "entry_line k v = k @ CHR ''='' # v"

lemma trim_ok:
  assumes "edges_ok s"
  shows "ltrim s = s" and "rtrim s = s" and "trim s = s"
proof -
  show l: "ltrim s = s" using assms by (cases s) (auto simp: ltrim_def edges_ok_def)
  show r: "rtrim s = s" using assms by (cases s rule: rev_cases) (auto simp: rtrim_def edges_ok_def)
  show "trim s = s" by (simp add: trim_def l r)
qed

lemma parse_entry:
  assumes "key_ok k" and "val_ok v"
  shows "parse_line (entry_line k v) = [(k, v)]"
proof -
  have "edges_ok (entry_line k v)"
    using assms by (auto simp: entry_line_def key_ok_def val_ok_def edges_ok_def is_space_def code_of_def)
  moreover have "split_pair (entry_line k v) CHR ''='' = (k, v)"
    using assms by (auto simp: split_pair_def entry_line_def key_ok_def takeWhile_append dropWhile_append)
  moreover have "entry_line k v \<noteq> []" "hd (entry_line k v) \<noteq> CHR ''#''"
    using assms by (auto simp: entry_line_def key_ok_def)
  ultimately show ?thesis
    using assms trim_ok by (simp add: parse_line_def key_ok_def val_ok_def)
qed

lemma parse_entries:
  assumes "\<forall>(k, v)\<in>set kvs. key_ok k \<and> val_ok v"
  shows "parse_pairs (concat (map (\<lambda>(k, v). entry_line k v @ [CHR 0x0A]) kvs)) = kvs"
proof -
  have "concat (map (\<lambda>(k, v). entry_line k v @ [CHR 0x0A]) kvs)
      = concat (map (\<lambda>l. l @ [CHR 0x0A]) (map (\<lambda>(k, v). entry_line k v) kvs))" by (simp add: case_prod_unfold comp_def)
  moreover have "\<forall>l\<in>set (map (\<lambda>(k, v). entry_line k v) kvs). CHR 0x0A \<notin> set l"
    using assms by (auto simp: entry_line_def key_ok_def val_ok_def)
  ultimately have "file_lines (concat (map (\<lambda>(k, v). entry_line k v @ [CHR 0x0A]) kvs)) = map (\<lambda>(k, v). entry_line k v) kvs"
    using file_lines_write by metis
  moreover have "concat (map parse_line (map (\<lambda>(k, v). entry_line k v) kvs)) = kvs"
    using assms by (induction kvs) (auto simp: parse_entry)
  ultimately show ?thesis by (simp add: parse_pairs_def)
qed

lemma config_set_add: "config_set k v m = [k \<mapsto> v] ++ m"
  by (rule ext) (simp add: config_set_def map_add_def split: option.split)

text \<open>
  C36. In a file of lines with a key and a value, whose references to the environment are without a cycle, each
  key is found with the expansion of the value of its first line, and no other key is found.
\<close>

theorem config_file_values:
  assumes env: "acyclic_env rank env" "\<forall>x. fn x = render (env x)" "\<forall>x. E x = expand E (env x)"
    and entries: "\<forall>(k, ps)\<in>set kvs. key_ok k \<and> list_all piece_ok ps \<and> val_ok (render ps)"
  shows "config_read fn (concat (map (\<lambda>(k, ps). entry_line k (render ps) @ [CHR 0x0A]) kvs)) Map.empty
    = Some (map_of (map (\<lambda>(k, ps). (k, expand E ps)) kvs))"
proof -
  let ?rs = "map (\<lambda>(k, ps). (k, render ps)) kvs"
  have "parse_pairs (concat (map (\<lambda>(k, v). entry_line k v @ [CHR 0x0A]) ?rs)) = ?rs"
    by (rule parse_entries) (use entries in auto)
  then have "parse_pairs (concat (map (\<lambda>(k, ps). entry_line k (render ps) @ [CHR 0x0A]) kvs)) = ?rs"
    by (simp add: case_prod_unfold comp_def)
  moreover have "read_pairs fn ?rs m = Some (map_of (map (\<lambda>(k, ps). (k, expand E ps)) kvs) ++ m)" for m
    using entries substitution_expands[OF env]
    by (induction kvs arbitrary: m) (auto simp: config_set_add map_add_upd_left)
  ultimately show ?thesis by (simp add: config_read_def)
qed

theorem config_file_values_witness:
  "map_option (\<lambda>m. (config_get m ''dir'' [], config_get m ''log'' ''-''))
     (config_read (\<lambda>x. if x = ''HOME'' then ''/home/'' @ ''${USER}'' else if x = ''USER'' then ''me'' else [])
        (''dir=${HOME}/run'' @ [CHR 0x0A] @ ''dir=/'' @ [CHR 0x0A]) Map.empty)
   = Some (''/home/me/run'', ''-'')"
proof -
  let ?env = "\<lambda>x. if x = ''HOME'' then map Lit ''/home/'' @ [Ref ''USER''] else if x = ''USER'' then map Lit ''me'' else []"
  let ?rank = "\<lambda>x. if x = ''HOME'' then 1 else (0 :: nat)"
  let ?E = "\<lambda>x. if x = ''HOME'' then ''/home/me'' else if x = ''USER'' then ''me'' else []"
  let ?fn = "\<lambda>x. if x = ''HOME'' then ''/home/'' @ ''${USER}'' else if x = ''USER'' then ''me'' else []"
  let ?kvs = "[(''dir'', Ref ''HOME'' # map Lit ''/run''), (''dir'', map Lit ''/'')]"
  have "acyclic_env ?rank ?env" by (auto simp: acyclic_env_def special_def)
  moreover have "\<forall>x. ?fn x = render (?env x)" by simp
  moreover have "\<forall>x. ?E x = expand ?E (?env x)" by simp
  moreover have "\<forall>(k, ps)\<in>set ?kvs. key_ok k \<and> list_all piece_ok ps \<and> val_ok (render ps)"
    by (simp add: key_ok_def val_ok_def edges_ok_def special_def is_space_def code_of_def)
  ultimately have "config_read ?fn (concat (map (\<lambda>(k, ps). entry_line k (render ps) @ [CHR 0x0A]) ?kvs)) Map.empty
    = Some (map_of (map (\<lambda>(k, ps). (k, expand ?E ps)) ?kvs))"
    by (rule config_file_values)
  then show ?thesis by (simp add: entry_line_def config_get_def)
qed

text \<open>
  The mode in the files that come with the program is \<open>0027\<close>, meant to be octal. It is read as decimal, and
  the mask is octal 033: files may be read by everyone.
\<close>

lemma file_mode_is_decimal: "file_mask [''file_mode'' \<mapsto> ''0027''] daemon = Some 27"
  by (simp add: file_mask_def config_get_def from_uint32_def stou32_def stou_def is_digit_def is_space_def code_of_def)

lemma default_database: "make_impl Map.empty = Inr (Sqlite_Db ''swirly.db'')"
  by (simp add: make_impl_def config_get_def)

end
