(* ===== verification/Db_Posn.thy ===== *)
theory Db_Posn
  imports Db_Model
begin

text \<open>
  The positions that a model makes of the rows of the view of positions (\<open>do_read_posn\<close> of
  \<open>db/SqliteModel.cpp\<close> and \<open>db/MySqlModel.cpp\<close>): one for each account and market, settled markets rolled
  into one, with the sums of the rows.
\<close>

section \<open>The sums of rows\<close>

definition posn_row_key :: "jday \<Rightarrow> posn_row \<Rightarrow> symbol \<times> id64" where
  "posn_row_key bd = (\<lambda>(accnt, mid, instr, settl_day, sd, lots, cst). (accnt, roll_market bd settl_day mid))"

definition row_lots :: "bool \<Rightarrow> posn_row \<Rightarrow> lots" where
  "row_lots buy = (\<lambda>(accnt, mid, instr, settl_day, sd, lots, cst). if (sd = Buy) = buy then lots else 0)"

definition row_cost :: "bool \<Rightarrow> posn_row \<Rightarrow> cost" where
  "row_cost buy = (\<lambda>(accnt, mid, instr, settl_day, sd, lots, cst). if (sd = Buy) = buy then cst else 0)"

text \<open>The position of rows with the same key: instrument and settlement day are those of the first.\<close>

definition rows_posn :: "jday \<Rightarrow> posn_row list \<Rightarrow> posn option" where
  "rows_posn bd rows = (case rows of
     [] \<Rightarrow> None
   | (accnt, mid, instr, settl_day, _) # _ \<Rightarrow>
       Some (make_posn accnt (roll_market bd settl_day mid) instr (roll_day bd settl_day)
         (sum_list (map (row_lots True) rows)) (sum_list (map (row_cost True) rows))
         (sum_list (map (row_lots False) rows)) (sum_list (map (row_cost False) rows))))"

lemma acc_key_simps [simp]:
  "acc_posn_key (add_buy_cost l c p) = acc_posn_key p" "acc_posn_key (add_sell_cost l c p) = acc_posn_key p"
  "acc_posn_key (new_posn accnt mid instr d) = (accnt, mid)"
  by (simp_all add: acc_posn_key_def posn_defs)

definition add_row :: "posn_row \<Rightarrow> posn \<Rightarrow> posn" where
  "add_row = (\<lambda>(accnt, mid, instr, settl_day, sd, lots, cst).
     if sd = Buy then add_buy_cost lots cst else add_sell_cost lots cst)"

lemma rows_posn_snoc:
  "rows_posn bd (rows @ [r]) = Some (add_row r (case rows_posn bd rows of
     Some p \<Rightarrow> p
   | None \<Rightarrow> (case r of (accnt, mid, instr, settl_day, _) \<Rightarrow>
       new_posn accnt (roll_market bd settl_day mid) instr (roll_day bd settl_day))))"
  by (cases r; cases rows)
    (auto simp: rows_posn_def add_row_def posn_defs row_lots_def row_cost_def)

lemma add_posn_row_step:
  assumes "set_ok acc_posn_key ps"
  shows "set_ok acc_posn_key (add_posn_row bd ps r)"
    and "set_find acc_posn_key k (add_posn_row bd ps r) =
      (if k = posn_row_key bd r
       then Some (add_row r (case set_find acc_posn_key k ps of
              Some p \<Rightarrow> p
            | None \<Rightarrow> (case r of (accnt, mid, instr, settl_day, _) \<Rightarrow>
                new_posn accnt (roll_market bd settl_day mid) instr (roll_day bd settl_day))))
       else set_find acc_posn_key k ps)"
proof -
  obtain accnt mid instr d sd l c where r: "r = (accnt, mid, instr, d, sd, l, c)" by (cases r)
  let ?k = "(accnt, roll_market bd d mid)"
  let ?ps = "if snd (find_hint acc_posn_key ?k ps) then ps
    else set_insert acc_posn_key (new_posn accnt (roll_market bd d mid) instr (roll_day bd d)) ps"
  have ok: "set_ok acc_posn_key ?ps" using assms by (simp add: set_ok_insert)
  have step: "add_posn_row bd ps r = set_modify acc_posn_key ?k (add_row r) ?ps"
    by (simp add: add_posn_row_def r add_row_def Let_def)
  have key: "acc_posn_key (add_row r p) = acc_posn_key p" for p by (simp add: add_row_def r)
  show "set_ok acc_posn_key (add_posn_row bd ps r)"
    unfolding step by (rule set_ok_modify[OF ok]) (simp add: key)
  have "set_find acc_posn_key k (add_posn_row bd ps r) =
      (if k = ?k then map_option (add_row r) (set_find acc_posn_key ?k ?ps) else set_find acc_posn_key k ?ps)"
    unfolding step by (rule set_find_modify[OF ok]) (simp add: key)
  then show "set_find acc_posn_key k (add_posn_row bd ps r) =
      (if k = posn_row_key bd r
       then Some (add_row r (case set_find acc_posn_key k ps of
              Some p \<Rightarrow> p
            | None \<Rightarrow> (case r of (accnt, mid, instr, settl_day, _) \<Rightarrow>
                new_posn accnt (roll_market bd settl_day mid) instr (roll_day bd settl_day))))
       else set_find acc_posn_key k ps)"
    using assms by (auto simp: find_hint_found set_find_insert posn_row_key_def r)
qed

lemma posn_rows_refine:
  "set_ok acc_posn_key (foldl (add_posn_row bd) [] rows)
   \<and> (\<forall>k. set_find acc_posn_key k (foldl (add_posn_row bd) [] rows) = rows_posn bd (filter (\<lambda>r. posn_row_key bd r = k) rows))"
proof (induction rows rule: rev_induct)
  case (snoc r rows)
  then show ?case by (simp add: add_posn_row_step rows_posn_snoc del: split_paired_All)
qed (simp add: rows_posn_def)

text \<open>
  C34. The positions that the model loads are a sorted set with one position for each account and market, markets
  that are settled taken together; its lots and costs are the sums of the rows with this key, bought and sold
  lots apart, and its net cost is the difference of the costs.
\<close>

theorem posns_are_sums:
  assumes "sqlite_read (sqlite_posn nv) q = Done () rows"
  shows "\<exists>ps. sqlite_read_posn nv bd q = Done () ps \<and> set_ok acc_posn_key ps
    \<and> (\<forall>k. set_find acc_posn_key k ps = rows_posn bd (filter (\<lambda>r. posn_row_key bd r = k) rows))"
  using assms posn_rows_refine by (simp add: sqlite_read_posn_def)

theorem posns_are_sums_witness:
  "\<exists>ps. sqlite_read_posn (Some []) 2458000 (Rows
       [[SqlText ''ALICE'', SqlInt 65537, SqlText ''EURUSD'', SqlInt 2457000, SqlInt 1, SqlInt 5, SqlInt 500],
        [SqlText ''ALICE'', SqlInt 65538, SqlText ''EURUSD'', SqlInt 2457001, SqlInt (-1), SqlInt 5, SqlInt 600]] True)
      = Done () ps
    \<and> set_ok acc_posn_key ps \<and> (\<forall>k. set_find acc_posn_key k ps = rows_posn 2458000 (filter (\<lambda>r. posn_row_key 2458000 r = k)
       [(''ALICE'', 65537, ''EURUSD'', 2457000, Buy, 5, 500), (''ALICE'', 65538, ''EURUSD'', 2457001, Sell, 5, 600)]))"
  by (rule posns_are_sums) code_simp

text \<open>
  Two settled markets of an instrument end in one position. Its net cost is what was paid less what was
  received, though the position is flat; the engine's own net cost of a flat position is zero.
\<close>

lemma flat_posn_has_cost:
  "foldl (add_posn_row 2458000) []
     [(''ALICE'', 65537, ''EURUSD'', 2457000, Buy, 5, 500), (''ALICE'', 65538, ''EURUSD'', 2457001, Sell, 5, 600)]
   = [make_posn ''ALICE'' 65536 ''EURUSD'' 0 5 500 5 600]"
  "p_net_cost (make_posn ''ALICE'' 65536 ''EURUSD'' 0 5 500 5 600) = -100"
  "p_net_cost (add_sell 5 120 (add_buy 5 100 (new_posn ''ALICE'' 65536 ''EURUSD'' 0))) = 0"
  by code_simp+

end
