(* ===== verification/Db_Schema.thy ===== *)
theory Db_Schema
  imports Journ
begin

text \<open>
  The database behind \<open>SqliteJourn\<close> and \<open>SqliteModel\<close>: the statements of \<open>db/Sql.hxx\<close> on the tables,
  triggers and views of \<open>etc/sql/schema.sqlite\<close>, as the documentation of SQL gives their effect. A row
  is a function from columns to values. Foreign keys are not enforced unless the configuration asks for
  it, so the model has only the primary keys.

  The theory interprets the interface of transactions on this database, whatever calls fail.
\<close>

section \<open>Rows and tables\<close>

datatype col =
    CAccnt | CMarketId | CInstr | CSettlDay | CId | COrderId | CRef | CSeqId | CStateId | CSideId
  | CLots | CTicks | CResdLots | CExecLots | CExecCost | CLastLots | CLastTicks | CMinLots | CMatchId
  | CPosnLots | CPosnCost | CLiqIndId | CCpty | CCreated | CArchive | CModified | CState | CLastTime
  | CMaxId | CSymbol

type_synonym row = "col \<Rightarrow> sql_value"

record tables =
  t_market :: "row list"
  t_order :: "row list"
  t_exec :: "row list"
  t_accnt :: "row list"

text \<open>The columns of the statements, in their order.\<close>

definition market_insert_cols :: "col list" where
  "market_insert_cols = [CId, CInstr, CSettlDay, CState]"

definition market_select_cols :: "col list" where
  "market_select_cols = [CId, CInstr, CSettlDay, CState, CLastLots, CLastTicks, CLastTime, CMaxId]"

definition order_select_cols :: "col list" where
  "order_select_cols = [CAccnt, CMarketId, CInstr, CSettlDay, CId, CRef, CStateId, CSideId, CLots, CTicks,
     CResdLots, CExecLots, CExecCost, CLastLots, CLastTicks, CMinLots, CCreated, CModified]"

definition exec_select_cols :: "col list" where
  "exec_select_cols = [CAccnt, CMarketId, CInstr, CSettlDay, CId, COrderId, CRef, CStateId, CSideId, CLots,
     CTicks, CResdLots, CExecLots, CExecCost, CLastLots, CLastTicks, CMinLots, CMatchId, CPosnLots, CPosnCost,
     CLiqIndId, CCpty, CCreated]"

definition exec_insert_cols :: "col list" where
  "exec_insert_cols = [CAccnt, CMarketId, CInstr, CSettlDay, CId, COrderId, CRef, CStateId, CSideId, CLots,
     CTicks, CResdLots, CExecLots, CExecCost, CLastLots, CLastTicks, CMinLots, CMatchId, CPosnLots, CPosnCost,
     CLiqIndId, CCpty, CCreated]"

definition trade_select_cols :: "col list" where
  "trade_select_cols = [CAccnt, CMarketId, CInstr, CSettlDay, CId, COrderId, CRef, CSideId, CLots, CTicks,
     CResdLots, CExecLots, CExecCost, CLastLots, CLastTicks, CMinLots, CMatchId, CPosnLots, CPosnCost,
     CLiqIndId, CCpty, CCreated]"

text \<open>A row from values for some columns; the other columns have their default, which is NULL.\<close>

definition row_of :: "col list \<Rightarrow> sql_value list \<Rightarrow> row" where
  "row_of cols vals = (\<lambda>c. case map_of (zip cols vals) c of Some v \<Rightarrow> v | None \<Rightarrow> SqlNull)"

definition select :: "col list \<Rightarrow> row list \<Rightarrow> sql_value list list" where
  "select cols rows = map (\<lambda>r. map r cols) rows"

text \<open>Comparisons: NULL compares with nothing.\<close>

definition sql_eq :: "sql_value \<Rightarrow> sql_value \<Rightarrow> bool" where
  "sql_eq a b \<longleftrightarrow> a \<noteq> SqlNull \<and> a = b"

definition sql_gt :: "sql_value \<Rightarrow> int \<Rightarrow> bool" where
  "sql_gt a n = (case a of SqlInt i \<Rightarrow> i > n | _ \<Rightarrow> False)"

definition update_rows :: "(row \<Rightarrow> bool) \<Rightarrow> (row \<Rightarrow> row) \<Rightarrow> row list \<Rightarrow> row list" where
  "update_rows P f rows = map (\<lambda>r. if P r then f r else r) rows"

definition insert_row :: "col list \<Rightarrow> row \<Rightarrow> row list \<Rightarrow> row list option" where
  "insert_row key r rows =
     (if list_ex (\<lambda>q. list_all (\<lambda>k. sql_eq (q k) (r k)) key) rows then None else Some (rows @ [r]))"

section \<open>The triggers of the executions\<close>

definition before_insert_on_exec1 :: "row \<Rightarrow> tables \<Rightarrow> tables" where
  "before_insert_on_exec1 new t =
     (if sql_eq (new CStateId) (SqlInt 4)
      then t\<lparr>t_market := update_rows (\<lambda>r. sql_eq (r CId) (new CMarketId))
               (\<lambda>r. r(CLastLots := new CLastLots, CLastTicks := new CLastTicks, CLastTime := new CCreated))
               (t_market t)\<rparr>
      else t)"

definition new_order_row :: "row \<Rightarrow> row" where
  "new_order_row new = row_of
     [CAccnt, CMarketId, CInstr, CSettlDay, CId, CRef, CStateId, CSideId, CLots, CTicks, CResdLots, CExecLots,
      CExecCost, CLastLots, CLastTicks, CMinLots, CCreated, CModified]
     [new CAccnt, new CMarketId, new CInstr, new CSettlDay, new COrderId, new CRef, new CStateId, new CSideId,
      new CLots, new CTicks, new CResdLots, new CExecLots, new CExecCost, new CLastLots, new CLastTicks,
      new CMinLots, new CCreated, new CCreated]"

definition before_insert_on_exec2 :: "row \<Rightarrow> tables \<Rightarrow> tables option" where
  "before_insert_on_exec2 new t =
     (if new COrderId \<noteq> SqlNull \<and> sql_eq (new CStateId) (SqlInt 1)
      then map_option (\<lambda>rows. t\<lparr>t_order := rows\<rparr>)
             (insert_row [CMarketId, CId] (new_order_row new) (t_order t))
      else Some t)"

definition update_order_row :: "row \<Rightarrow> row \<Rightarrow> row" where
  "update_order_row new r = r(CStateId := new CStateId, CLots := new CLots, CResdLots := new CResdLots,
     CExecLots := new CExecLots, CExecCost := new CExecCost, CLastLots := new CLastLots,
     CLastTicks := new CLastTicks, CModified := new CCreated)"

text \<open>The condition of the update is on the identifier of the order alone.\<close>

definition before_insert_on_exec3 :: "row \<Rightarrow> tables \<Rightarrow> tables" where
  "before_insert_on_exec3 new t =
     (if new COrderId \<noteq> SqlNull \<and> new CStateId \<noteq> SqlNull \<and> new CStateId \<noteq> SqlInt 1
      then t\<lparr>t_order := update_rows (\<lambda>r. sql_eq (r CId) (new COrderId)) (update_order_row new) (t_order t)\<rparr>
      else t)"

definition add_one :: "sql_value \<Rightarrow> sql_value" where
  "add_one v = (case v of SqlInt i \<Rightarrow> SqlInt (i + 1) | _ \<Rightarrow> SqlNull)"

definition accnt_max_id :: "row list \<Rightarrow> sql_value \<Rightarrow> sql_value" where
  "accnt_max_id accnts accnt =
     (case filter (\<lambda>r. sql_eq (r CSymbol) accnt) accnts of r # _ \<Rightarrow> r CMaxId | [] \<Rightarrow> SqlNull)"

definition after_insert_on_exec1 :: "row \<Rightarrow> tables \<Rightarrow> tables" where
  "after_insert_on_exec1 new t =
     (let accnts = (case insert_row [CSymbol]
              (row_of [CSymbol, CMaxId, CCreated, CModified] [new CAccnt, SqlInt 0, new CCreated, new CCreated])
              (t_accnt t) of Some rows \<Rightarrow> rows | None \<Rightarrow> t_accnt t);
          accnts = update_rows (\<lambda>r. sql_eq (r CSymbol) (new CAccnt))
              (\<lambda>r. r(CMaxId := add_one (r CMaxId), CModified := new CCreated)) accnts
      in t\<lparr>t_accnt := accnts,
           t_exec := update_rows (\<lambda>r. sql_eq (r CMarketId) (new CMarketId) \<and> sql_eq (r CId) (new CId))
             (\<lambda>r. r(CSeqId := accnt_max_id accnts (new CAccnt))) (t_exec t)\<rparr>)"

definition insert_exec :: "row \<Rightarrow> tables \<Rightarrow> tables option" where
  "insert_exec new t =
     (case before_insert_on_exec2 new (before_insert_on_exec1 new t) of
        None \<Rightarrow> None
      | Some t \<Rightarrow>
          let t = before_insert_on_exec3 new t
          in map_option (\<lambda>rows. after_insert_on_exec1 new (t\<lparr>t_exec := rows\<rparr>))
               (insert_row [CMarketId, CId] new (t_exec t)))"

section \<open>Statements\<close>

definition run_stmt :: "stmt \<Rightarrow> sql_value list \<Rightarrow> tables \<Rightarrow> tables option" where
  "run_stmt s vals t = (case s of
     InsertMarketStmt \<Rightarrow>
       map_option (\<lambda>rows. t\<lparr>t_market := rows\<rparr>) (insert_row [CId] (row_of market_insert_cols vals) (t_market t))
   | UpdateMarketStmt \<Rightarrow>
       (let p = row_of [CState, CId] vals
        in Some (t\<lparr>t_market := update_rows (\<lambda>r. sql_eq (r CId) (p CId)) (\<lambda>r. r(CState := p CState)) (t_market t)\<rparr>))
   | InsertExecStmt \<Rightarrow> insert_exec (row_of exec_insert_cols vals) t
   | UpdateExecStmt \<Rightarrow>
       (let p = row_of [CArchive, CMarketId, CId] vals
        in Some (t\<lparr>t_exec := update_rows (\<lambda>r. sql_eq (r CMarketId) (p CMarketId) \<and> sql_eq (r CId) (p CId))
                    (\<lambda>r. r(CArchive := p CArchive)) (t_exec t)\<rparr>))
   | _ \<Rightarrow> Some t)"

text \<open>
  The database with its transaction, if one is open, and the number of calls so far. The parameter
  \<open>fault\<close> tells which calls fail for a reason of their own, such as a full disk or a lock, the control statements
  among them. Some of these failures make the database go back and end the transaction by itself, so that the
  rollback that follows fails; after the others it is still open, and it stays open when the rollback fails.
\<close>

datatype failure = NoFailure | Fails | FailsAndUndoes

record db =
  db_tables :: tables
  db_saved :: "tables option"
  db_calls :: nat

definition go_back :: "db \<Rightarrow> db" where
  "go_back d = (case db_saved d of None \<Rightarrow> d | Some t \<Rightarrow> d\<lparr>db_tables := t, db_saved := None\<rparr>)"

definition sqlite_run :: "(nat \<Rightarrow> failure) \<Rightarrow> db runner" where
  "sqlite_run fault s vals d =
     (let f = fault (db_calls d); d = d\<lparr>db_calls := db_calls d + 1\<rparr>
      in if f = FailsAndUndoes then (False, go_back d)
         else if f = Fails then (False, d)
         else case s of
           BeginStmt \<Rightarrow> (if db_saved d \<noteq> None then (False, d) else (True, d\<lparr>db_saved := Some (db_tables d)\<rparr>))
         | CommitStmt \<Rightarrow> (if db_saved d = None then (False, d) else (True, d\<lparr>db_saved := None\<rparr>))
         | RollbackStmt \<Rightarrow> (if db_saved d = None then (False, d) else (True, go_back d))
         | _ \<Rightarrow> (case run_stmt s vals (db_tables d) of
               None \<Rightarrow> (False, d) | Some t \<Rightarrow> (True, d\<lparr>db_tables := t\<rparr>)))"

text \<open>What the database keeps: the contents to go back to, or the tables when no transaction is open.\<close>

definition kept :: "db \<Rightarrow> tables" where
  "kept d = (case db_saved d of None \<Rightarrow> db_tables d | Some t \<Rightarrow> t)"

lemma kept_by_kept [simp]: "kept_by db_tables db_saved d = kept d"
  by (simp add: kept_by_def kept_def)

lemma go_back_kept [simp]: "kept (go_back d) = kept d" "db_saved (go_back d) = None" "db_calls (go_back d) = db_calls d"
  by (simp_all add: kept_def go_back_def split: option.split)

interpretation sdb: transactional "sqlite_run fault" db_tables db_saved for fault
  by unfold_locales
    (auto simp: sqlite_run_def is_control_def Let_def kept_def go_back_def split: stmt.splits if_splits option.splits)

section \<open>Queries\<close>

definition select_orders :: "tables \<Rightarrow> sql_value list list" where
  "select_orders t = select order_select_cols (filter (\<lambda>r. sql_gt (r CResdLots) 0) (t_order t))"

definition seq_of :: "row \<Rightarrow> int" where
  "seq_of r = (case r CSeqId of SqlInt i \<Rightarrow> i | _ \<Rightarrow> 0)"

text \<open>Rows with the same number are in no specified order; here it is that of the table.\<close>

definition select_execs :: "int \<Rightarrow> tables \<Rightarrow> sql_value list list" where
  "select_execs since t =
     select exec_select_cols (sort_key (\<lambda>r. - seq_of r) (filter (\<lambda>r. sql_gt (r CCreated) since) (t_exec t)))"

definition select_trades :: "tables \<Rightarrow> sql_value list list" where
  "select_trades t =
     select trade_select_cols (filter (\<lambda>r. sql_eq (r CStateId) (SqlInt 4) \<and> r CArchive = SqlNull) (t_exec t))"

text \<open>The view \<open>market_v\<close>, with the greatest identifier of the executions of a market.\<close>

definition sql_max :: "sql_value list \<Rightarrow> sql_value" where
  "sql_max vs = foldr (\<lambda>v m. case (v, m) of (SqlInt i, SqlInt j) \<Rightarrow> SqlInt (max i j) | (SqlInt i, _) \<Rightarrow> v | _ \<Rightarrow> m)
     vs SqlNull"

definition market_v :: "tables \<Rightarrow> row list" where
  "market_v t = map (\<lambda>m. m(CMaxId :=
      sql_max (map (\<lambda>e. e CId) (filter (\<lambda>e. sql_eq (m CId) (e CMarketId)) (t_exec t))))) (t_market t)"

definition select_markets :: "tables \<Rightarrow> sql_value list list" where
  "select_markets t = select market_select_cols (market_v t)"

end
