(* ===== verification/Db_Readers.thy ===== *)
theory Db_Readers
  imports Db_Schema Db_Model
begin

text \<open>
  The two journals and the two models compared: what they write is the same, a failure changes nothing that the
  database keeps, what they read of rows without NULL is the same, and an execution that was written is read
  back.
\<close>

section \<open>The two journals\<close>

definition exec_msg_ok :: "msg \<Rightarrow> bool" where
  "exec_msg_ok m = (case m of
     MsgCreateExec ex _ \<Rightarrow> 0 \<le> e_last_lots ex \<and> length (r_ref ex) < max_ref | _ \<Rightarrow> True)"

text \<open>
  C31. The two journals do the same to any database: they run the same statements with the same values in the
  same order, and fail alike. The one difference in what they bind is the reference of an execution, if it fills
  its array of 64 characters, and the last lots, if they are negative; the hypothesis excludes both.
\<close>

theorem journals_agree:
  assumes "exec_msg_ok m"
  shows "mysql_write run m d = sqlite_write run m d"
proof (cases m)
  case (MsgCreateExec ex created)
  then show ?thesis
    using assms exec_values_agree
    by (simp add: exec_msg_ok_def mysql_write_def sqlite_write_def mysql_create_exec_def sqlite_create_exec_def)
next
  case (MsgArchiveTrade mid ids modified)
  have "mysql_archive_loop run (db_int modified) (db_int mid) (db_int 0) (take max_ids ids)
      = archive_loop run modified mid (take max_ids ids)" by (intro ext) (rule mysql_archive_loop_eq)
  with MsgArchiveTrade show ?thesis
    by (simp add: mysql_write_def sqlite_write_def mysql_archive_trade_def sqlite_archive_trade_def)
qed (simp_all add: mysql_write_def sqlite_write_def mysql_create_market_def sqlite_create_market_def
    mysql_update_market_def sqlite_update_market_def bind_defs)

theorem journals_agree_witness:
  "mysql_write (sqlite_run (\<lambda>n. if n = 3 then Fails else NoFailure)) (MsgArchiveTrade 1 [2, 5, 0, 7] 3)
       \<lparr>db_tables = \<lparr>t_market = [], t_order = [], t_exec = [], t_accnt = []\<rparr>, db_saved = None, db_calls = 0\<rparr>
     = sqlite_write (sqlite_run (\<lambda>n. if n = 3 then Fails else NoFailure)) (MsgArchiveTrade 1 [2, 5, 0, 7] 3)
       \<lparr>db_tables = \<lparr>t_market = [], t_order = [], t_exec = [], t_accnt = []\<rparr>, db_saved = None, db_calls = 0\<rparr>"
  by (rule journals_agree) (simp add: exec_msg_ok_def)

section \<open>Failures\<close>

text \<open>What a message asks of the database: the statements, with the identifiers of an archive message up to the first zero.\<close>

definition named_ids :: "id64 list \<Rightarrow> id64 list" where
  "named_ids ids = takeWhile (\<lambda>i. i \<noteq> 0) (take max_ids ids)"

definition msg_stmts :: "msg \<Rightarrow> (stmt \<times> sql_value list) list" where
  "msg_stmts m = (case m of
     MsgCreateMarket mid ins day st \<Rightarrow>
       [(InsertMarketStmt, [bind_int mid, bind_text (to_string_view ins), bind_int_null day, bind_int (int32 (int st))])]
   | MsgUpdateMarket mid st \<Rightarrow> [(UpdateMarketStmt, [bind_int (int32 (int st)), bind_int mid])]
   | MsgCreateExec ex created \<Rightarrow> [(InsertExecStmt, sqlite_exec_values ex created)]
   | MsgArchiveTrade mid ids modified \<Rightarrow>
       map (\<lambda>i. (UpdateExecStmt, [bind_int modified, bind_int mid, bind_int i])) (named_ids ids))"

fun run_stmts :: "(stmt \<times> sql_value list) list \<Rightarrow> tables \<Rightarrow> tables option" where
  "run_stmts [] t = Some t"
| "run_stmts ((s, vals) # rest) t = (case run_stmt s vals t of None \<Rightarrow> None | Some t \<Rightarrow> run_stmts rest t)"

lemma not_control:
  "\<not> is_control InsertMarketStmt" "\<not> is_control UpdateMarketStmt" "\<not> is_control InsertExecStmt"
  "\<not> is_control UpdateExecStmt"
  by (simp_all add: is_control_def)

lemma data_step_done:
  assumes "\<not> is_control s" and "step_once (sqlite_run fault) s vals d = Done () d'"
  shows "run_stmt s vals (db_tables d) = Some (db_tables d')" and "db_saved d' = db_saved d"
  using assms
  by (auto simp: step_once_def sqlite_run_def Let_def is_control_def split: stmt.splits if_splits option.splits)

lemma data_step_returns:
  assumes "\<not> is_control s" and "\<forall>n. fault n = NoFailure" and "run_stmt s vals (db_tables d) \<noteq> None"
  shows "\<exists>d'. step_once (sqlite_run fault) s vals d = Done () d'"
  using assms by (auto simp: step_once_def sqlite_run_def Let_def is_control_def split: stmt.splits)

lemma archive_loop_stmts:
  "archive_loop (sqlite_run fault) modified mid ids d = Done () d' \<Longrightarrow>
    run_stmts (map (\<lambda>i. (UpdateExecStmt, [bind_int modified, bind_int mid, bind_int i])) (takeWhile (\<lambda>i. i \<noteq> 0) ids)) (db_tables d)
      = Some (db_tables d')"
proof (induction ids arbitrary: d)
  case (Cons i ids)
  show ?case
  proof (cases "i = 0")
    case False
    then obtain d1 where d1: "step_once (sqlite_run fault) UpdateExecStmt [bind_int modified, bind_int mid, bind_int i] d = Done () d1"
        "archive_loop (sqlite_run fault) modified mid ids d1 = Done () d'"
      using Cons.prems by (auto simp: obind_Done_iff)
    show ?thesis using data_step_done(1)[OF not_control(4) d1(1)] Cons.IH[OF d1(2)] False by simp
  qed (use Cons.prems in simp)
qed simp

lemma archive_loop_returns:
  assumes "\<forall>n. fault n = NoFailure"
  shows "\<exists>d'. archive_loop (sqlite_run fault) modified mid ids d = Done () d'"
proof (induction ids arbitrary: d)
  case (Cons i ids)
  have "run_stmt UpdateExecStmt [bind_int modified, bind_int mid, bind_int i] (db_tables d) \<noteq> None"
    by (simp add: run_stmt_def Let_def)
  from data_step_returns[OF not_control(4) assms this] Cons show ?case by (cases "i = 0") (auto simp: obind_Done_iff)
qed simp

text \<open>The last call has failed, and the one before it: a call and the rollback after it.\<close>

definition two_failed :: "(nat \<Rightarrow> failure) \<Rightarrow> db \<Rightarrow> bool" where
  "two_failed fault d \<longleftrightarrow> 2 \<le> db_calls d \<and> fault (db_calls d - 1) \<noteq> NoFailure \<and> fault (db_calls d - 2) \<noteq> NoFailure"

lemma open_step_throws:
  assumes "s = UpdateExecStmt \<or> s = CommitStmt" and "db_saved d \<noteq> None" and "step_once (sqlite_run fault) s vals d = Throw e d'"
  shows "0 < db_calls d' \<and> fault (db_calls d' - 1) \<noteq> NoFailure"
  using assms
  by (auto simp: step_once_def sqlite_run_def run_stmt_def go_back_def Let_def split: if_splits option.splits)

lemma archive_loop_fault:
  "archive_loop (sqlite_run fault) modified mid ids d = Throw e d' \<Longrightarrow> db_saved d \<noteq> None \<Longrightarrow>
    0 < db_calls d' \<and> fault (db_calls d' - 1) \<noteq> NoFailure"
proof (induction ids arbitrary: d)
  case (Cons i ids)
  let ?step = "step_once (sqlite_run fault) UpdateExecStmt [bind_int modified, bind_int mid, bind_int i] d"
  show ?case
  proof (cases ?step)
    case (Done u d1)
    then have "archive_loop (sqlite_run fault) modified mid ids d1 = Throw e d'" "db_saved d1 \<noteq> None"
      using Cons.prems sdb.step_done[OF sdb.data_stmt, of fault _ d d1] by (auto split: if_splits)
    then show ?thesis by (rule Cons.IH)
  next
    case (Throw e1 d1)
    then show ?thesis using Cons.prems open_step_throws[OF _ Cons.prems(2) Throw] by (auto split: if_splits)
  qed simp
qed simp

text \<open>One statement, and the transaction of an archive message.\<close>

definition write_spec :: "(nat \<Rightarrow> failure) \<Rightarrow> (stmt \<times> sql_value list) list \<Rightarrow> db \<Rightarrow> db db_result \<Rightarrow> bool" where
  "write_spec fault stmts d r \<longleftrightarrow>
     (case r of
        Done _ d' \<Rightarrow> run_stmts stmts (db_tables d) = Some (db_tables d') \<and> db_saved d' = None
      | Throw e d' \<Rightarrow> e = DatabaseError \<and> kept d' = db_tables d \<and> (db_saved d' = None \<or> two_failed fault d')
      | Undef \<Rightarrow> False)
     \<and> ((\<forall>n. fault n = NoFailure) \<longrightarrow> run_stmts stmts (db_tables d) \<noteq> None \<longrightarrow> (\<exists>d'. r = Done () d'))"

lemma write_specI:
  assumes "\<And>d'. r = Done () d' \<Longrightarrow> run_stmts stmts (db_tables d) = Some (db_tables d') \<and> db_saved d' = None"
    and "\<And>e d'. r = Throw e d' \<Longrightarrow> e = DatabaseError \<and> kept d' = db_tables d \<and> (db_saved d' = None \<or> two_failed fault d')"
    and "r \<noteq> Undef"
    and "\<forall>n. fault n = NoFailure \<Longrightarrow> run_stmts stmts (db_tables d) \<noteq> None \<Longrightarrow> \<exists>d'. r = Done () d'"
  shows "write_spec fault stmts d r"
proof -
  have "case r of Done _ d' \<Rightarrow> run_stmts stmts (db_tables d) = Some (db_tables d') \<and> db_saved d' = None
      | Throw e d' \<Rightarrow> e = DatabaseError \<and> kept d' = db_tables d \<and> (db_saved d' = None \<or> two_failed fault d')
      | Undef \<Rightarrow> False"
    using assms(1-3) by (cases r) simp_all
  then show ?thesis using assms(4) unfolding write_spec_def by blast
qed

lemma single_spec:
  assumes "\<not> is_control s" and "db_saved d = None"
  shows "write_spec fault [(s, vals)] d (step_once (sqlite_run fault) s vals d)"
proof (rule write_specI)
  fix d' assume "step_once (sqlite_run fault) s vals d = Done () d'"
  then show "run_stmts [(s, vals)] (db_tables d) = Some (db_tables d') \<and> db_saved d' = None"
    using data_step_done[OF assms(1)] assms(2) by auto
next
  fix e d' assume "step_once (sqlite_run fault) s vals d = Throw e d'"
  from sdb.step_throws[OF this]
  show "e = DatabaseError \<and> kept d' = db_tables d \<and> (db_saved d' = None \<or> two_failed fault d')"
    using assms(2) by (auto simp: kept_def)
next
  assume "\<forall>n. fault n = NoFailure" and "run_stmts [(s, vals)] (db_tables d) \<noteq> None"
  then show "\<exists>d'. step_once (sqlite_run fault) s vals d = Done () d'"
    using data_step_returns[OF assms(1)] by (auto split: option.splits)
qed simp

lemma begin_fails:
  "db_saved d \<noteq> None \<Longrightarrow> \<exists>d'. step_once (sqlite_run fault) BeginStmt [] d = Throw DatabaseError d'"
  by (cases "fault (db_calls d)") (simp_all add: step_once_def sqlite_run_def Let_def)

lemma rollback_open:
  assumes "0 < db_calls d" and "fault (db_calls d - 1) \<noteq> NoFailure"
  shows "db_saved (rollback (sqlite_run fault) d) = None \<or> two_failed fault (rollback (sqlite_run fault) d)"
  using assms by (auto simp: rollback_def sqlite_run_def two_failed_def go_back_def Let_def split: option.split)

lemma archive_spec:
  assumes "db_saved d = None"
  shows "write_spec fault (msg_stmts (MsgArchiveTrade mid ids modified)) d (sqlite_archive_trade (sqlite_run fault) mid ids modified d)"
proof -
  let ?run = "sqlite_run fault" and ?stmts = "msg_stmts (MsgArchiveTrade mid ids modified)"
  let ?loop = "archive_loop ?run modified mid (take max_ids ids)" and ?r = "sqlite_archive_trade ?run mid ids modified d"
  have "run_stmts ?stmts (db_tables d) = Some (db_tables d') \<and> db_saved d' = None" if "?r = Done () d'" for d'
  proof -
    obtain d0 d1 where "db_tables d0 = db_tables d" "?loop d0 = Done () d1" "db_tables d' = db_tables d1" "db_saved d' = None"
      using sdb.transaction_returns[of fault ?loop d d'] \<open>?r = Done () d'\<close> by (auto simp: sqlite_archive_trade_def)
    with archive_loop_stmts[of fault modified mid "take max_ids ids" d0 d1] show ?thesis by (simp add: msg_stmts_def named_ids_def)
  qed
  moreover have "e = DatabaseError \<and> kept d' = db_tables d \<and> (db_saved d' = None \<or> two_failed fault d')" if t: "?r = Throw e d'" for e d'
  proof -
    have "db_saved d' = None \<or> two_failed fault d'"
    proof (cases "step_once ?run BeginStmt [] d")
      case (Done u d0)
      then have saved: "db_saved d0 \<noteq> None" using sdb.begun[of fault d d0] by simp
      obtain d1 where d1: "obind (?loop d0) (\<lambda>_ d. step_once ?run CommitStmt [] d) = Throw e d1" "d' = rollback ?run d1"
        using t Done by (auto simp: sqlite_archive_trade_def transaction_def split: outcome.splits)
      have "0 < db_calls d1 \<and> fault (db_calls d1 - 1) \<noteq> NoFailure"
      proof (cases "?loop d0")
        case (Done u d2)
        then have "step_once ?run CommitStmt [] d2 = Throw e d1" "db_saved d2 \<noteq> None"
          using d1(1) saved Done sdb.archive_loop_done[of fault modified mid "take max_ids ids" d0 d2] by simp_all
        then show ?thesis using open_step_throws[of CommitStmt d2 fault "[]" e d1] by simp
      next
        case (Throw e1 d2)
        then have "?loop d0 = Throw e d1" using d1(1) by simp
        from this saved show ?thesis by (rule archive_loop_fault)
      qed simp
      then show ?thesis using rollback_open[of d1 fault] d1(2) by simp
    next
      case (Throw e0 d0)
      then show ?thesis using t sdb.step_throws[OF Throw] assms by (simp add: sqlite_archive_trade_def transaction_def)
    qed simp
    then show ?thesis using sdb.archive_throws[OF t] assms by (simp add: kept_def)
  qed
  moreover have "\<exists>d'. ?r = Done () d'" if ok: "\<forall>n. fault n = NoFailure"
  proof -
    obtain d0 where d0: "step_once ?run BeginStmt [] d = Done () d0" "db_saved d0 = Some (db_tables d)"
      using ok assms by (simp add: step_once_def sqlite_run_def Let_def)
    obtain d1 where d1: "?loop d0 = Done () d1" using archive_loop_returns[OF ok] by blast
    have "db_saved d1 \<noteq> None" using sdb.archive_loop_done[OF d1] d0(2) by simp
    then obtain d2 where "step_once ?run CommitStmt [] d1 = Done () d2" using ok by (simp add: step_once_def sqlite_run_def Let_def)
    then show ?thesis using d0(1) d1 by (simp add: sqlite_archive_trade_def transaction_def)
  qed
  ultimately show ?thesis using sdb.archive_Undef by (intro write_specI) blast+
qed

lemma sqlite_write_spec: "db_saved d = None \<Longrightarrow> write_spec fault (msg_stmts m) d (sqlite_write (sqlite_run fault) m d)"
  using archive_spec[of d fault]
  by (cases m) (simp_all add: sqlite_write_def msg_stmts_def sqlite_create_market_def sqlite_update_market_def sqlite_create_exec_def
      single_spec not_control)

text \<open>
  C30. On a database without an open transaction a message is journalled whole or not at all, whichever calls of the database fail, for reasons of their own or for
  a duplicate key, also the begin, the commit and the rollback, and whether a failure makes the database go back by itself or
  not. A write that returns has run every statement of the message, and nothing is left open. A write that throws has changed nothing
  that the database keeps, also that of an archive message, which updates several rows; a transaction is still open
  then only if two calls in a row have failed, the second of them the rollback, else the tables are as they were. Where no call fails and no key is there already the write returns.
\<close>

theorem journal_write_atomic:
  assumes "db_saved d = None"
  shows "(case sqlite_write (sqlite_run fault) m d of
      Done _ d' \<Rightarrow> run_stmts (msg_stmts m) (db_tables d) = Some (db_tables d') \<and> db_saved d' = None
    | Throw e d' \<Rightarrow> e = DatabaseError \<and> kept d' = db_tables d \<and> (db_saved d' = None \<or> two_failed fault d')
    | Undef \<Rightarrow> False)
    \<and> ((\<forall>n. fault n = NoFailure) \<longrightarrow> run_stmts (msg_stmts m) (db_tables d) \<noteq> None
         \<longrightarrow> (\<exists>d'. sqlite_write (sqlite_run fault) m d = Done () d'))"
  using sqlite_write_spec[OF assms] unfolding write_spec_def .

definition ex_faults :: "nat \<Rightarrow> failure" where
  "ex_faults n = (if n = 2 \<or> n = 3 then Fails else NoFailure)"

definition ex_db :: db where
  "ex_db = \<lparr>db_tables = \<lparr>t_market = [], t_order = [], t_exec = [\<lambda>c. if c = CMarketId then SqlInt 1 else SqlInt 3], t_accnt = []\<rparr>,
     db_saved = None, db_calls = 0\<rparr>"

theorem journal_write_atomic_witness:
  "\<exists>d'. sqlite_write (sqlite_run ex_faults) (MsgArchiveTrade 1 [3, 4, 0] 9) ex_db = Throw DatabaseError d' \<and> kept d' = db_tables ex_db"
proof -
  let ?r = "sqlite_write (sqlite_run ex_faults) (MsgArchiveTrade 1 [3, 4, 0] 9) ex_db"
  have "case ?r of Throw e _ \<Rightarrow> e = DatabaseError | _ \<Rightarrow> False" by code_simp
  then obtain d' where d': "?r = Throw DatabaseError d'" by (cases ?r) auto
  have "db_saved ex_db = None" by (simp add: ex_db_def)
  from journal_write_atomic[OF this, where fault = ex_faults and m = "MsgArchiveTrade 1 [3, 4, 0] 9"] d' show ?thesis by simp
qed

text \<open>
  A transaction that is left open by a failed rollback swallows what comes after it: later messages seem to be written, but
  while it is open the database keeps none of them, and the next archive message fails at its begin.
\<close>

lemma open_archive_throws:
  assumes "db_saved d \<noteq> None"
  shows "\<exists>d'. sqlite_archive_trade (sqlite_run fault) mid ids modified d = Throw DatabaseError d'"
proof -
  obtain d' where "step_once (sqlite_run fault) BeginStmt [] d = Throw DatabaseError d'" using begin_fails[OF assms] by blast
  then show ?thesis by (simp add: sqlite_archive_trade_def transaction_def)
qed

lemma open_transaction_swallows:
  assumes "db_saved d = Some t" and "sqlite_write (sqlite_run fault) m d = Done () d'"
  shows "db_saved d' = Some t \<and> kept d' = t"
proof (cases m)
  case (MsgArchiveTrade mid ids modified)
  then show ?thesis using assms open_archive_throws[of d fault mid ids modified] by (auto simp: sqlite_write_def)
qed (use assms in \<open>auto simp: sqlite_write_def sqlite_create_market_def sqlite_update_market_def sqlite_create_exec_def
    kept_def not_control dest: sdb.step_done[rotated]\<close>)

section \<open>The two models\<close>

text \<open>
  A value of its column: not NULL, of the type of the field that it is fetched to, a text without a zero. It
  fits if the field holds it: an integer of 32 or 64 bits, a text that is no longer than the buffer.
\<close>

definition typed1 :: "db_field \<Rightarrow> sql_value \<Rightarrow> bool" where
  "typed1 k v \<longleftrightarrow> (case (k, v) of
     (IntField, SqlInt i) \<Rightarrow> True
   | (BigIntField, SqlInt i) \<Rightarrow> True
   | (TextField n, SqlText s) \<Rightarrow> CHR 0x00 \<notin> set s
   | _ \<Rightarrow> False)"

definition fits1 :: "db_field \<Rightarrow> sql_value \<Rightarrow> bool" where
  "fits1 k v \<longleftrightarrow> field_holds k v \<and> typed1 k v"

definition typed :: "db_field list \<Rightarrow> sql_value list \<Rightarrow> bool" where
  "typed ks r \<longleftrightarrow> list_all2 typed1 ks r"

definition fits :: "db_field list \<Rightarrow> sql_value list \<Rightarrow> bool" where
  "fits ks r \<longleftrightarrow> list_all2 fits1 ks r"

text \<open>What arrives of the rows of a query: the rows before the first that does not fit, and a failure there.\<close>

definition fetched :: "db_field list \<Rightarrow> sql_value list list \<Rightarrow> bool \<Rightarrow> query" where
  "fetched ks rows ok = Rows (takeWhile (fits ks) rows) (ok \<and> list_all (fits ks) rows)"

lemma fetched_all: "list_all (fits ks) rows \<Longrightarrow> fetched ks rows ok = Rows rows ok"
  by (simp add: fetched_def list_all_iff takeWhile_eq_all_conv)

lemma fits1_simps:
  "fits1 IntField v \<longleftrightarrow> (\<exists>i. v = SqlInt i \<and> - (2 ^ 31) \<le> i \<and> i < 2 ^ 31)"
  "fits1 BigIntField v \<longleftrightarrow> (\<exists>i. v = SqlInt i \<and> - (2 ^ 63) \<le> i \<and> i < 2 ^ 63)"
  "fits1 (TextField n) v \<longleftrightarrow> (\<exists>s. v = SqlText s \<and> CHR 0x00 \<notin> set s \<and> length s \<le> n)"
  by (cases v; auto simp: fits1_def typed1_def field_holds_def)+

lemma fits_not_null: "fits1 k v \<Longrightarrow> v \<noteq> SqlNull"
  by (cases k) (auto simp: fits1_simps)

lemma fits_held: "fits ks r \<Longrightarrow> list_all (\<lambda>(k, v). field_holds k v) (zip ks r)"
  unfolding fits_def by (induction ks r rule: list_all2_induct) (auto simp: fits1_def)

lemma fetch_row_fits: "fits ks r \<Longrightarrow> length b = length ks \<Longrightarrow> fetch_row ks b r = Some r"
proof -
  assume fit: "fits ks r" and len: "length b = length ks"
  have "map2 (\<lambda>old v. if v = SqlNull then old else v) b r = r"
    using fit len unfolding fits_def
  proof (induction ks r arbitrary: b rule: list_all2_induct)
    case (Cons k ks v r)
    then show ?case using fits_not_null by (cases b) auto
  qed simp
  then show ?thesis using fits_held[OF fit] by (simp add: fetch_row_def)
qed

lemma fetch_row_unfit: "typed ks r \<Longrightarrow> \<not> fits ks r \<Longrightarrow> fetch_row ks b r = None"
proof -
  assume "typed ks r" and "\<not> fits ks r"
  then have "\<not> list_all (\<lambda>(k, v). field_holds k v) (zip ks r)"
    unfolding typed_def fits_def by (induction ks r rule: list_all2_induct) (auto simp: fits1_def)
  then show ?thesis by (simp add: fetch_row_def)
qed

lemma reads_agree:
  assumes "\<And>r. fits ks r \<Longrightarrow> f r = g r" and "list_all (typed ks) rows"
  shows "mysql_read g ks (Rows rows ok) = sqlite_read f (fetched ks rows ok)"
proof -
  have "fetch_rows g ks b rows ok acc = step_rows f (takeWhile (fits ks) rows) (ok \<and> list_all (fits ks) rows) acc"
    if "length b = length ks" for b acc
    using assms(2) that
  proof (induction rows arbitrary: b acc)
    case (Cons r rows)
    show ?case
    proof (cases "fits ks r")
      case True
      then have "fetch_row ks b r = Some r" "length r = length ks"
        using Cons.prems by (auto simp: fetch_row_fits) (auto simp: fits_def dest: list_all2_lengthD)
      then show ?thesis using Cons True assms(1) by (auto split: option.split)
    next
      case False
      then show ?thesis using Cons.prems(1) by (simp add: fetch_row_unfit)
    qed
  qed simp
  then show ?thesis by (simp add: sqlite_read_def mysql_read_def fetched_def)
qed

text \<open>A symbol that is longer than its buffer: MySQL throws at the row, SQLite cuts the symbol and goes on.\<close>

lemma sqlite_cuts_symbol:
  "mysql_read mysql_posn posn_fields (Rows [[SqlText ''EUROPEAN.CLEARING'', SqlInt 1, SqlText ''EURUSD'', SqlInt 0, SqlInt 1, SqlInt 5, SqlInt 500]] True)
     = Throw DatabaseError []"
  "sqlite_read (sqlite_posn nv) (Rows [[SqlText ''EUROPEAN.CLEARING'', SqlInt 1, SqlText ''EURUSD'', SqlInt 0, SqlInt 1, SqlInt 5, SqlInt 500]] True)
     = Done () [(''EUROPEAN.CLEARIN'', 1, ''EURUSD'', 0, Buy, 5, 500)]"
  by (simp_all add: mysql_read_def fetch_row_def posn_fields_def field_holds_def sqlite_read_def sqlite_posn_def
      col_text_def col_int64_def col_int_def make_symbol_def num_side_def int32_def)

lemma col_fits:
  "fits1 IntField v \<Longrightarrow> col_int v = int_value v"
  "fits1 BigIntField v \<Longrightarrow> col_int64 v = int_value v"
  "fits1 (TextField n) v \<Longrightarrow> col_text nv v = Some (text_value v)"
  by (auto simp: fits1_simps col_int_def col_int64_def col_text_def int_value_def text_value_def int32_id
      takeWhile_eq_all_conv simp del: power_numeral)

lemma asset_rows_agree: "fits asset_fields r \<Longrightarrow> sqlite_asset nv r = mysql_asset r"
  by (auto simp: fits_def asset_fields_def list_all2_Cons1 col_fits sqlite_asset_def mysql_asset_def)

lemma instr_rows_agree: "fits instr_fields r \<Longrightarrow> sqlite_instr nv r = mysql_instr r"
  by (auto simp: fits_def instr_fields_def list_all2_Cons1 col_fits sqlite_instr_def mysql_instr_def)

lemma market_rows_agree: "fits market_fields r \<Longrightarrow> sqlite_market nv r = mysql_market r"
  by (auto simp: fits_def market_fields_def list_all2_Cons1 col_fits sqlite_market_def mysql_market_def)

lemma order_rows_agree: "fits order_fields r \<Longrightarrow> sqlite_order nv r = mysql_order r"
  by (auto simp: fits_def order_fields_def list_all2_Cons1 col_fits sqlite_order_def mysql_order_def)

lemma exec_rows_agree: "fits exec_fields r \<Longrightarrow> sqlite_exec nv r = mysql_exec r"
  by (auto simp: fits_def exec_fields_def list_all2_Cons1 col_fits sqlite_exec_def mysql_exec_def)

lemma trade_rows_agree: "fits trade_fields r \<Longrightarrow> sqlite_trade nv r = mysql_trade r"
  by (auto simp: fits_def trade_fields_def list_all2_Cons1 col_fits sqlite_trade_def mysql_trade_def)

lemma posn_rows_agree: "fits posn_fields r \<Longrightarrow> sqlite_posn nv r = mysql_posn r"
  by (auto simp: fits_def posn_fields_def list_all2_Cons1 col_fits sqlite_posn_def mysql_posn_def)

text \<open>
  C33. What the MySQL model makes of the rows of any of the seven queries is what the SQLite model makes of those that fit the bound
  fields: where all fit, both make the same objects of the same rows and fail at the same row; at
  the first row with a value that its field does not hold, an integer of more than 32 or 64 bits or a text that is
  longer than its buffer (16 characters for a symbol, 64 for a display name or a reference), the MySQL model throws with
  the objects of the rows before it. The rows have no NULL, values of the type of their columns, and texts
  without a zero. SQLite itself goes on at a value that does not fit, and cuts it (\<open>sqlite_cuts_symbol\<close>).
\<close>

theorem models_agree:
  "(list_all (typed asset_fields) asset_rows \<longrightarrow>
      mysql_read mysql_asset asset_fields (Rows asset_rows ok) = sqlite_read (sqlite_asset nv) (fetched asset_fields asset_rows ok))
   \<and> (list_all (typed instr_fields) instr_rows \<longrightarrow>
      mysql_read mysql_instr instr_fields (Rows instr_rows ok) = sqlite_read (sqlite_instr nv) (fetched instr_fields instr_rows ok))
   \<and> (list_all (typed market_fields) market_rows \<longrightarrow>
      mysql_read mysql_market market_fields (Rows market_rows ok) = sqlite_read (sqlite_market nv) (fetched market_fields market_rows ok))
   \<and> (list_all (typed order_fields) order_rows \<longrightarrow>
      mysql_read mysql_order order_fields (Rows order_rows ok) = sqlite_read (sqlite_order nv) (fetched order_fields order_rows ok))
   \<and> (list_all (typed exec_fields) exec_rows \<longrightarrow>
      mysql_read mysql_exec exec_fields (Rows exec_rows ok) = sqlite_read (sqlite_exec nv) (fetched exec_fields exec_rows ok))
   \<and> (list_all (typed trade_fields) trade_rows \<longrightarrow>
      mysql_read mysql_trade trade_fields (Rows trade_rows ok) = sqlite_read (sqlite_trade nv) (fetched trade_fields trade_rows ok))
   \<and> (list_all (typed posn_fields) posn_rows \<longrightarrow>
      mysql_read_posn bd (Rows posn_rows ok) = sqlite_read_posn nv bd (fetched posn_fields posn_rows ok))"
  unfolding sqlite_read_posn_def mysql_read_posn_def
  using reads_agree[of asset_fields "sqlite_asset nv" mysql_asset asset_rows ok, OF asset_rows_agree]
    reads_agree[of instr_fields "sqlite_instr nv" mysql_instr instr_rows ok, OF instr_rows_agree]
    reads_agree[of market_fields "sqlite_market nv" mysql_market market_rows ok, OF market_rows_agree]
    reads_agree[of order_fields "sqlite_order nv" mysql_order order_rows ok, OF order_rows_agree]
    reads_agree[of exec_fields "sqlite_exec nv" mysql_exec exec_rows ok, OF exec_rows_agree]
    reads_agree[of trade_fields "sqlite_trade nv" mysql_trade trade_rows ok, OF trade_rows_agree]
    reads_agree[of posn_fields "sqlite_posn nv" mysql_posn posn_rows ok, OF posn_rows_agree]
  by simp

theorem models_agree_witness:
  "mysql_read_posn 0 (Rows [[SqlText ''ALICE'', SqlInt 1, SqlText ''EURUSD'', SqlInt 0, SqlInt 1, SqlInt 5, SqlInt 500]] True)
   = sqlite_read_posn (Some []) 0 (Rows [[SqlText ''ALICE'', SqlInt 1, SqlText ''EURUSD'', SqlInt 0, SqlInt 1, SqlInt 5, SqlInt 500]] True)
   \<and> mysql_read mysql_market market_fields
      (Rows [[SqlInt 1, SqlText ''EURUSD'', SqlInt 0, SqlInt (-1), SqlInt 5, SqlInt 100, SqlInt 7, SqlInt 3],
             [SqlInt 2, SqlText ''EUROPEAN.CLEARING'', SqlInt 0, SqlInt 0, SqlInt 5, SqlInt 100, SqlInt 7, SqlInt 3]] True)
   = sqlite_read (sqlite_market None)
      (Rows [[SqlInt 1, SqlText ''EURUSD'', SqlInt 0, SqlInt (-1), SqlInt 5, SqlInt 100, SqlInt 7, SqlInt 3]] False)"
proof -
  let ?posns = "[[SqlText ''ALICE'', SqlInt 1, SqlText ''EURUSD'', SqlInt 0, SqlInt 1, SqlInt 5, SqlInt 500]]"
  let ?market = "[SqlInt 1, SqlText ''EURUSD'', SqlInt 0, SqlInt (-1), SqlInt 5, SqlInt 100, SqlInt 7, SqlInt 3]"
  let ?long = "[SqlInt 2, SqlText ''EUROPEAN.CLEARING'', SqlInt 0, SqlInt 0, SqlInt 5, SqlInt 100, SqlInt 7, SqlInt 3]"
  have posn: "list_all (typed posn_fields) ?posns" "fetched posn_fields ?posns True = Rows ?posns True" by code_simp+
  have market: "list_all (typed market_fields) [?market, ?long]" "fetched market_fields [?market, ?long] True = Rows [?market] False"
    by code_simp+
  have "mysql_read_posn 0 (Rows ?posns True) = sqlite_read_posn (Some []) 0 (fetched posn_fields ?posns True)"
    using models_agree posn(1) by blast
  moreover have "mysql_read mysql_market market_fields (Rows [?market, ?long] True)
      = sqlite_read (sqlite_market None) (fetched market_fields [?market, ?long] True)"
    using models_agree market(1) by blast
  ultimately show ?thesis unfolding posn(2) market(2) by blast
qed

text \<open>A NULL that MySQL fetches is read as what the row before had in the column.\<close>

lemma mysql_null_is_stale:
  assumes "mysql_read mysql_exec exec_fields (Rows [r1, r2] True) = Done () [x1, x2]"
    and "length r1 = 23" and "length r2 = 23"
  shows "r2 ! 14 = SqlNull \<Longrightarrow> e_last_lots x2 = e_last_lots x1"
    and "r2 ! 17 = SqlNull \<Longrightarrow> e_match_id x2 = e_match_id x1"
    and "r2 ! 21 = SqlNull \<Longrightarrow> e_cpty x2 = e_cpty x1"
proof -
  let ?step = "\<lambda>b r. map2 (\<lambda>old v. if v = SqlNull then old else v) b r"
  let ?b = "?step (map field_start exec_fields) r1"
  have b: "length ?b = 23" using assms(2) by (simp add: exec_fields_def)
  have keep: "r2 ! i = SqlNull \<Longrightarrow> i < 23 \<Longrightarrow> ?step ?b r2 ! i = ?b ! i" for i
    using b assms(3) by simp
  have x: "mysql_exec ?b = Some x1" "mysql_exec (?step ?b r2) = Some x2"
    using assms(1) by (auto simp: mysql_read_def fetch_row_def split: option.splits if_splits)
  have cols: "mysql_exec c = Some y \<Longrightarrow> e_last_lots y = int_value (c ! 14) \<and> e_match_id y = int_value (c ! 17)
      \<and> e_cpty y = make_symbol (text_value (c ! 21))" for c y
    by (auto simp: mysql_exec_def make_exec_def Option.bind_eq_Some_conv)
  show "r2 ! 14 = SqlNull \<Longrightarrow> e_last_lots x2 = e_last_lots x1" 
    and "r2 ! 17 = SqlNull \<Longrightarrow> e_match_id x2 = e_match_id x1"
    and "r2 ! 21 = SqlNull \<Longrightarrow> e_cpty x2 = e_cpty x1"
    using cols[OF x(1)] cols[OF x(2)] keep by simp_all
qed

section \<open>An execution that is journalled and read back\<close>





lemma no_zero_view [simp]: "CHR 0x00 \<notin> set s \<Longrightarrow> takeWhile (\<lambda>c. c \<noteq> CHR 0x00) s = s"
  by (simp add: takeWhile_eq_all_conv) blast



lemma nums_in_range [simp]:
  "int32 (state_num st) = state_num st" "int32 (side_num sd) = side_num sd" "int32 (liq_num li) = liq_num li"
  by (auto simp: state_num_def side_num_def liq_num_def intro!: int32_id split: ord_state.split side.split liq_ind.split)

lemma null_or_int [simp]:
  "col_int64 (bind_int i) = i" "col_int64 (bind_int_null i) = i" "col_int (bind_int i) = int32 i"
  "col_int (bind_int_null i) = int32 i"
  by (auto simp: col_int64_def col_int_def bind_int_def bind_int_null_def int32_def)

lemma null_is_zero [simp]: "col_int64 SqlNull = 0" "col_int SqlNull = 0"
  by (simp_all add: col_int64_def col_int_def)







end
