(* ===== verification/Db_Restart.thy ===== *)
theory Db_Restart
  imports Db_Readers
begin

text \<open>
  The tables after messages were journalled: the table of executions refines a log of the messages, and the
  table of orders follows the executions. The trades and orders that the model loads after a restart are
  given in terms of the messages.
\<close>

section \<open>What the tables hold after messages were journalled\<close>

fun write_all :: "db runner \<Rightarrow> msg list \<Rightarrow> db \<Rightarrow> db db_result" where
  "write_all run [] d = Done () d"
| "write_all run (m # ms) d = obind (sqlite_write run m d) (\<lambda>_ d. write_all run ms d)"


definition archive_entry :: "id64 \<Rightarrow> id64 set \<Rightarrow> int \<Rightarrow> exec \<times> int \<times> int option \<Rightarrow> exec \<times> int \<times> int option" where
  "archive_entry mid ids modified = (\<lambda>(ex, c, a).
     (ex, c, if r_market_id ex = mid \<and> r_id ex \<in> ids then Some modified else a))"




lemma trigger_frames [simp]:
  "t_exec (before_insert_on_exec1 new t) = t_exec t"
  "t_order (before_insert_on_exec1 new t) = t_order t"
  "t_exec (before_insert_on_exec3 new t) = t_exec t"
  "t_order (after_insert_on_exec1 new t) = t_order t"
  by (simp_all add: before_insert_on_exec1_def before_insert_on_exec3_def after_insert_on_exec1_def Let_def)










section \<open>The table of executions refines the log\<close>


lemma archive_entry_none [simp]: "archive_entry mid {} m = id"
  by (rule ext) (simp add: archive_entry_def split: prod.split)








section \<open>Trades after a restart\<close>








section \<open>Orders after a restart\<close>

text \<open>
  The orders that the executions describe: made by the execution of a new order, updated by the later
  executions of the same order in the same market.
\<close>

definition order_of_exec :: "exec \<Rightarrow> int \<Rightarrow> order" where
  "order_of_exec ex c =
     load_order_of (r_accnt ex) (r_market_id ex) (r_instr ex) (r_settl_day ex) (e_order_id ex) (r_ref ex) (e_state ex)
       (r_side ex) (r_lots ex) (e_ticks ex) (e_resd_lots ex) (e_exec_lots ex) (e_exec_cost ex)
       (if e_last_lots ex > 0 then e_last_lots ex else 0) (if e_last_lots ex > 0 then e_last_ticks ex else 0)
       (e_min_lots ex) (to_time c) (to_time c)"

definition follow_exec :: "exec \<Rightarrow> int \<Rightarrow> order \<Rightarrow> order" where
  "follow_exec ex c ord = ord\<lparr>o_state := e_state ex, r_lots := r_lots ex, o_resd_lots := e_resd_lots ex,
     o_exec_lots := e_exec_lots ex, o_exec_cost := e_exec_cost ex,
     o_last_lots := (if e_last_lots ex > 0 then e_last_lots ex else 0),
     o_last_ticks := (if e_last_lots ex > 0 then e_last_ticks ex else 0), o_modified := to_time c\<rparr>"

definition orders_msg :: "msg \<Rightarrow> order list \<Rightarrow> order list" where
  "orders_msg m ords = (case m of
     MsgCreateExec ex c \<Rightarrow>
       if e_order_id ex = 0 then ords
       else if e_state ex = New then ords @ [order_of_exec ex c]
       else map (\<lambda>ord. if r_market_id ord = r_market_id ex \<and> r_id ord = e_order_id ex
                       then follow_exec ex c ord else ord) ords
   | _ \<Rightarrow> ords)"

















section \<open>Examples\<close>

definition empty_db :: db where
  "empty_db = \<lparr>db_tables = \<lparr>t_market = [], t_order = [], t_exec = [], t_accnt = []\<rparr>, db_saved = None, db_calls = 0\<rparr>"

definition final :: "db db_result \<Rightarrow> db" where
  "final r = (case r of Done _ d \<Rightarrow> d | Throw _ d \<Rightarrow> d | Undef \<Rightarrow> empty_db)"

definition journalled :: "msg list \<Rightarrow> db" where
  "journalled ms = final (write_all (sqlite_run (\<lambda>_. NoFailure)) ms empty_db)"

definition new_buy :: "id64 \<Rightarrow> exec" where
  "new_buy mid = make_exec ''ALICE'' mid ''EURUSD'' 0 1 1 [] New Buy 10 100 10 0 0 0 0 1 0 0 0 NoLiq [] 0"

definition buy_cancelled :: "id64 \<Rightarrow> exec" where
  "buy_cancelled mid = make_exec ''ALICE'' mid ''EURUSD'' 0 2 1 [] Cancel Buy 10 100 0 0 0 0 0 1 0 0 0 NoLiq [] 0"


text \<open>
  Two markets with an order of the same number each: the order of the first market is not loaded any more
  once that of the second is cancelled.
\<close>

lemma cancel_crosses_markets:
  "select_orders (db_tables (journalled
     [MsgCreateExec (new_buy 1) 0, MsgCreateExec (new_buy 2) 0, MsgCreateExec (buy_cancelled 2) 0])) = []"
  "filter (\<lambda>ord. 0 < o_resd_lots ord) (fold orders_msg
     [MsgCreateExec (new_buy 1) 0, MsgCreateExec (new_buy 2) 0, MsgCreateExec (buy_cancelled 2) 0] [])
   = [order_of_exec (new_buy 1) 0]"
  by code_simp+





end
