(* ===== verification/Engine_Props.thy ===== *)
theory Engine_Props
  imports App_Example App_Refuse
begin

text \<open>
  The properties of the engine as a whole, over every state that it can reach: its invariant, that
  a call has a result, that no market is crossed, the quantities of the live orders. And what
  the creation of an order does: its errors, its fills, its messages, its effect on the book.
\<close>

section \<open>Every reachable state\<close>

text \<open>
  C1. In every state that calls of the interface and the journal's thread can reach from an empty
  engine: the sets are sorted and without duplicates, the levels of each side of each market agree
  with its orders, every live order is in the session of its account and in no other, the
  index of references is over live orders, the trades a session keeps are executions of its account,
  the queue is well formed and the business-day cache is right.
\<close>

theorem engine_invariant: "reach local_jd st \<Longrightarrow> app_inv local_jd st"
  by (rule reach_inv)

theorem engine_invariant_witness: "app_inv ex_jd ex_app"
  by (rule engine_invariant[OF ex_reach])

text \<open>
  C2. No reachable state has a crossed market: of two live orders of a market, one to buy and one to
  sell, the one to buy has the lower price.
\<close>

theorem never_crossed:
  assumes "reach local_jd st" and "live st x" and "live st y"
    and "r_market_id (a_orders st x) = r_market_id (a_orders st y)"
    and "r_side (a_orders st x) = Buy" and "r_side (a_orders st y) = Sell"
  shows "o_ticks (a_orders st x) < o_ticks (a_orders st y)"
  using reach_uncrossed[OF assms(1)] assms(2-) by (simp add: uncrossed_def)

lemma ex_two_live: "live ex_two 1" "live ex_two 0"
  using ex_two_facts by (simp_all add: ex_two_holds_def)

theorem never_crossed_witness: "o_ticks (a_orders ex_two 1) < o_ticks (a_orders ex_two 0)"
  by (rule never_crossed[OF ex_two_reach ex_two_live]) (use ex_two_facts in \<open>simp_all add: ex_two_holds_def\<close>)

text \<open>
  C3. From a reachable state every call whose arguments exist has a result, an exception included,
  and the state it leaves is reachable again: the code never dereferences an end iterator.
\<close>

theorem call_has_result:
  assumes "reach local_jd st" and "call_ok st c"
  shows "\<exists>st'. left_by (do_call local_jd c st) = Some st' \<and> reach local_jd st'"
proof -
  obtain st' where "left_by (do_call local_jd c st) = Some st'"
    using safe_left[OF call_safe[OF reach_inv[OF assms(1)] assms(2)]] by blast
  then show ?thesis using reach_step[OF assms(1) step_call[OF assms(2)]] by blast
qed

theorem call_has_result_witness:
  "\<exists>st'. left_by (do_call ex_jd (CancelOrderIds ''A'' ex_mid [1, 2] 5) ex_app) = Some st' \<and> reach ex_jd st'"
  by (rule call_has_result[OF ex_reach]) (simp add: known_def ex_facts)

text \<open>
  C9. The quantities of a live order of a reachable state: something is open, what is open and what is
  executed make up its lots, and its session and its market exist and have it.
\<close>

theorem live_order_quantities:
  assumes "reach local_jd st" and "live st x"
  shows "0 < o_resd_lots (a_orders st x) \<and> 0 \<le> o_exec_lots (a_orders st x)
    \<and> r_lots (a_orders st x) = o_resd_lots (a_orders st x) + o_exec_lots (a_orders st x)
    \<and> (\<exists>s m. get_sess st (r_accnt (a_orders st x)) = Some s \<and> x \<in> set (s_orders s)
         \<and> get_market st (r_market_id (a_orders st x)) = Some m \<and> x \<in> listed m)"
proof -
  note inv = reach_inv[OF assms(1)]
  note parts = app_inv_parts[OF inv]
  obtain m where m: "get_market st (r_market_id (a_orders st x)) = Some m" "x \<in> listed m"
    using live_market[OF parts(1) assms(2)] .
  obtain s where s: "get_sess st (r_accnt (a_orders st x)) = Some s" using parts(2) assms(2) by (auto simp: own_inv_def)
  have "x \<in> set (s_orders s)" using own_live[OF parts(2) s, of x] assms(2) by simp
  with m s live_order_ok(1)[OF parts(1) assms(2)] show ?thesis by (auto simp: order_ok_def)
qed

text \<open>What the witnesses use of the example.\<close>

lemma ex_live: "live ex_app 0"
  unfolding live_def by (intro exI[of _ ex_mid] exI[of _ ex_market]) (simp add: ex_facts, simp add: ex_market_def listed_def)

theorem live_order_quantities_witness: "0 < o_resd_lots (a_orders ex_app 0)"
  using live_order_quantities[OF ex_reach ex_live] by simp

section \<open>Matching\<close>

text \<open>Only the last fill can be partial.\<close>

lemma fills_partial: "(q, n) \<in> set (butlast (fills h t d rem ps)) \<Longrightarrow> n = o_resd_lots (h q)"
proof (induction h t d rem ps rule: fills.induct)
  case (2 h t d rem p ps)
  show ?case
  proof (cases "rem = 0 \<or> spread t (h p) d > 0")
    case False
    let ?n = "min rem (o_resd_lots (h p))"
    have ne: "fills h t d (rem - ?n) ps \<noteq> []" and "(q, n) = (p, ?n) \<or> (q, n) \<in> set (butlast (fills h t d (rem - ?n) ps))"
      using 2(2) False by (auto simp: Let_def split: if_splits)
    moreover have "rem - ?n \<noteq> 0" using ne by (cases ps) auto
    ultimately show ?thesis using 2(1)[OF False refl] by (auto simp: min_def split: if_splits)
  qed (use 2(2) in auto)
qed simp

text \<open>
  C4. The matching of an order takes the orders of the other side from the front of their queue, best
  price first and then in order of time. Each fill is at a price that crosses and of no more lots
  than are open on either order. All fills but the last take their maker whole, and where lots are
  left over the fills are all the orders that cross.
\<close>

theorem matching_priority:
  assumes inv: "app_inv local_jd st" and m: "get_market st mid = Some m"
    and taker: "r_accnt (a_orders st t) = accnt" "r_market_id (a_orders st t) = mid" and lots: "0 \<le> o_resd_lots (a_orders st t)"
    and ps: "(side, d) = match_side (a_orders st t) m" "ps = ms_orders side"
  shows "\<exists>x st' resp' fs. match_orders accnt mid t now ex (st, resp) = Done x (st', resp') \<and> fs = map match_fill (x_matches x)
    \<and> map fst fs = take (length fs) ps \<and> sorted (map (\<lambda>q. spread (a_orders st t) (a_orders st q) d) ps)
    \<and> (\<forall>(q, n)\<in>set fs. 0 < n \<and> n \<le> o_resd_lots (a_orders st q) \<and> spread (a_orders st t) (a_orders st q) d \<le> 0)
    \<and> (\<forall>(q, n)\<in>set (butlast fs). n = o_resd_lots (a_orders st q)) \<and> fill_lots fs \<le> o_resd_lots (a_orders st t)
    \<and> (fill_lots fs < o_resd_lots (a_orders st t) \<longrightarrow>
         fs = map (\<lambda>q. (q, o_resd_lots (a_orders st q))) (takeWhile (\<lambda>q. spread (a_orders st t) (a_orders st q) d \<le> 0) ps))
    \<and> o_exec_lots (a_orders st' t) = o_exec_lots (a_orders st t) + fill_lots fs
    \<and> o_exec_cost (a_orders st' t) = o_exec_cost (a_orders st t) + fill_cost (a_orders st) fs"
proof -
  let ?h = "a_orders st" and ?o = "a_orders st t"
  note mi = book_market[OF app_inv_parts(1)[OF inv] m]
  define fs where "fs = match_fills ?h m ?o"
  have sd: "match_side ?o m = (side, d)" using ps(1) by simp
  have fs: "fs = fills ?h ?o d (o_resd_lots ?o) ps" by (simp add: fs_def match_fills_def sd ps(2))
  have pos: "0 < o_resd_lots (?h q)" if "q \<in> set ps" for q using match_side_open[OF mi, of q ?o] that by (simp add: sd ps(2))
  have key: "spread ?o (?h q) d = okey ?h q - (if r_side ?o = Buy then o_ticks ?o else - o_ticks ?o)" if "q \<in> set ps" for q
    using spread_key[OF mi, of q ?o] that by (simp add: sd ps(2))
  have "sorted_wrt (\<lambda>a b. okey ?h a \<le> okey ?h b) ps"
    using match_side_sorted[OF mi, of ?o] by (simp add: sd ps(2) sorted_map)
  then have srt: "sorted (map (\<lambda>q. spread ?o (?h q) d) ps)"
    unfolding sorted_map by (rule sorted_wrt_mono_rel[rotated]) (simp add: key)
  have B: "0 < n \<and> n \<le> o_resd_lots (?h q) \<and> spread ?o (?h q) d \<le> 0" if "(q, n) \<in> set fs" for q n
    using fills_bounds[where h = ?h and t = ?o and d = d, OF lots pos] that unfolding fs by blast
  have T: "fill_lots fs \<le> o_resd_lots ?o"
    using fills_total[where h = ?h and t = ?o and d = d, OF lots pos] unfolding fs by blast
  have M: "fill_lots fs < o_resd_lots ?o \<Longrightarrow> fs = map (\<lambda>q. (q, o_resd_lots (?h q))) (takeWhile (\<lambda>q. spread ?o (?h q) d \<le> 0) ps)"
    unfolding fs by (rule fills_maximal[OF lots pos])
  from match_orders_ok[OF inv m taker lots, of now ex resp] obtain x st1 resp' where
    r: "match_orders accnt mid t now ex (st, resp) = Done x (put_order t (traded now ?h fs ?o) st1, resp')"
      "map match_fill (x_matches x) = fs"
    unfolding fs_def by blast
  show ?thesis
  proof (intro exI conjI)
    show "match_orders accnt mid t now ex (st, resp) = Done x (put_order t (traded now ?h fs ?o) st1, resp')" by (rule r(1))
    show "fs = map match_fill (x_matches x)" using r(2) by simp
    show "map fst fs = take (length fs) ps" unfolding fs by (rule fills_prefix)
    show "sorted (map (\<lambda>q. spread ?o (?h q) d) ps)" by (rule srt)
    show "\<forall>(q, n)\<in>set fs. 0 < n \<and> n \<le> o_resd_lots (?h q) \<and> spread ?o (?h q) d \<le> 0" using B by blast
    show "\<forall>(q, n)\<in>set (butlast fs). n = o_resd_lots (?h q)" unfolding fs using fills_partial by blast
    show "fill_lots fs \<le> o_resd_lots ?o" by (rule T)
    show "fill_lots fs < o_resd_lots ?o \<longrightarrow> fs = map (\<lambda>q. (q, o_resd_lots (?h q))) (takeWhile (\<lambda>q. spread ?o (?h q) d \<le> 0) ps)"
      using M by blast
  qed (simp_all add: traded_lots)
qed

definition ex_buy :: order where
  "ex_buy = ex_sell\<lparr>r_accnt := ''B'', r_id := 2, r_ref := [], r_side := Buy, r_lots := 4, o_resd_lots := 4, o_level := None\<rparr>"

lemma ex_not_live: "\<not> live ex_app 1"
  using live_order_ok(2)[OF app_inv_parts(1)[OF reach_inv[OF ex_reach]], of 1] by (auto simp: ex_facts)

theorem matching_priority_witness:
  "\<exists>x st' resp'. match_orders ''B'' ex_mid 1 3 0 (put_order 1 ex_buy ex_app, no_resp) = Done x (st', resp')
     \<and> map fst (map match_fill (x_matches x)) = take (length (x_matches x)) [0]"
proof -
  let ?st = "put_order 1 ex_buy ex_app"
  have inv: "app_inv ex_jd ?st" by (rule app_inv_put_order(1)[OF reach_inv[OF ex_reach] ex_not_live])
  have m: "get_market ?st ex_mid = Some ex_market" by (simp add: ex_facts)
  have t: "r_accnt (a_orders ?st 1) = ''B''" "r_market_id (a_orders ?st 1) = ex_mid" "0 \<le> o_resd_lots (a_orders ?st 1)"
    and sd: "(m_offer_side ex_market, Paid) = match_side (a_orders ?st 1) ex_market" "[0] = ms_orders (m_offer_side ex_market)"
    by (simp_all add: ex_buy_def ex_sell_def match_side_def ex_market_def)
  from matching_priority[OF inv m t sd, of 3 0 no_resp] show ?thesis
    by (elim exE conjE) (rule exI, rule exI, rule exI, rule conjI, assumption, simp only: length_map)
qed

section \<open>Creating an order\<close>

text \<open>
  C5. An order that passes the checks and finds room in the queue is created: its fills are
  those of the matching, both executions of each fill name each other and carry its lots and the
  maker's price, the journal gets the new order followed by the executions of the fills, the makers
  lose their lots and leave the book when nothing is left, and the order enters the book if it
  has lots left over. Other markets are as they were.
\<close>

theorem create_order_effect:
  assumes inv: "app_inv local_jd st" and s: "get_sess st accnt = Some s" and m: "get_market st mid = Some m"
    and sd: "sd = Buy \<or> sd = Sell" and lots: "0 < lots" "min_lots \<le> lots"
    and guards: "\<not> ref_taken st s ref" "\<not> closed local_jd st m now"
    and ord: "ord = created_order s m ref sd lots ticks min_lots now" and fs: "fs = match_fills (a_orders st) m ord"
    and p: "p = a_next_order st" and room: "1 + 2 * length fs \<le> ring_reserve (a_mq st)"
  shows "\<exists>st' resp' es. app_create_order local_jd accnt mid ref sd lots ticks min_lots now (st, resp) = Done () (st', resp')
    \<and> list_all2 (fill_execs (a_orders st) ord) fs es
    \<and> ring_contents (a_mq st') = ring_contents (a_mq st)
        @ map exec_msg (new_exec ord (m_max_id m + 1) now # concat (map (\<lambda>(a, b). [a, b]) es))
    \<and> (\<forall>y. y \<noteq> p \<longrightarrow> a_orders st' y = filled_order now fs y (a_orders st y))
    \<and> r_id (a_orders st' p) = m_max_id m + 1 \<and> o_resd_lots (a_orders st' p) = lots - fill_lots fs
    \<and> o_exec_lots (a_orders st' p) = fill_lots fs \<and> o_exec_cost (a_orders st' p) = fill_cost (a_orders st) fs
    \<and> (\<forall>y. live st' y \<longleftrightarrow> live st y \<and> still_open (a_orders st) fs y \<or> y = p \<and> fill_lots fs < lots)
    \<and> (\<forall>k. k \<noteq> mid \<longrightarrow> rel_option same_book (get_market st k) (get_market st' k))"
proof -
  from app_create_order_run(2)[where resp = resp and ticks = ticks, OF inv s m sd lots guards ord fs refl p room]
  obtain st' resp' es where r:
    "app_create_order local_jd accnt mid ref sd lots ticks min_lots now (st, resp) = Done () (st', resp')"
    "list_all2 (fill_execs (a_orders st) ord) fs es"
    "ring_contents (a_mq st') = ring_contents (a_mq st)
        @ map exec_msg (new_exec ord (m_max_id m + 1) now # concat (map (\<lambda>(a, b). [a, b]) es))"
    "\<forall>y. y \<noteq> p \<longrightarrow> a_orders st' y = filled_order now fs y (a_orders st y)"
    "a_orders st' p = (if order_done (traded now (a_orders st) fs ord) then traded now (a_orders st) fs ord
       else set_level (Some (compose_key sd ticks)) (traded now (a_orders st) fs ord))"
    "\<forall>y. live st' y \<longleftrightarrow> live st y \<and> still_open (a_orders st) fs y \<or> y = p \<and> fill_lots fs < lots"
    "\<forall>k. k \<noteq> mid \<longrightarrow> rel_option same_book (get_market st k) (get_market st' k)"
    by (elim exE conjE)
  have "r_id (a_orders st' p) = m_max_id m + 1 \<and> o_resd_lots (a_orders st' p) = lots - fill_lots fs
    \<and> o_exec_lots (a_orders st' p) = fill_lots fs \<and> o_exec_cost (a_orders st' p) = fill_cost (a_orders st) fs"
    unfolding r(5) by (simp add: set_level_def traded_lots ord)
  with r(1-4,6,7) show ?thesis by (intro exI conjI) simp_all
qed

text \<open>The example: four lots to buy against ten to sell.\<close>

lemma ex_guards:
  "\<not> ref_taken ex_app ex_B []" "\<not> closed ex_jd ex_app ex_market now"
  "\<not> ref_taken ex_tight ex_B []" "\<not> closed ex_jd ex_tight ex_market now"
  by (simp_all add: ref_taken_def closed_def ex_market_def)

lemma ex_fills:
  "match_fills (a_orders ex_app) ex_market (created_order ex_B ex_market [] Buy 4 100 1 3) = [(0, 4)]"
  "match_fills (a_orders ex_tight) ex_market (created_order ex_B ex_market [] Buy 4 100 1 3) = [(0, 4)]"
  using ex_facts(4) ex_tight_facts(4)
  by (simp_all add: match_fills_def match_side_def created_order_def make_order_def ex_B_def ex_market_def ex_sell_def spread_def)

theorem create_order_effect_witness:
  "\<exists>st' resp'. app_create_order ex_jd ''B'' ex_mid [] Buy 4 100 1 3 (ex_app, no_resp) = Done () (st', resp')
     \<and> o_exec_lots (a_orders st' 1) = 4 \<and> live st' 0 \<and> \<not> live st' 1"
proof -
  have room: "1 + 2 * length [(0 :: nat, 4 :: int)] \<le> ring_reserve (a_mq ex_app)" by (simp add: ex_facts)
  have sd: "Buy = Buy \<or> Buy = Sell" and lots: "(0::int) < 4" "(1::int) \<le> 4" by simp_all
  from create_order_effect[where resp = no_resp, OF reach_inv[OF ex_reach] ex_facts(3,1) sd lots ex_guards(1,2) refl ex_fills(1)[symmetric]
      ex_facts(5)[symmetric] room]
  obtain st' resp' where
    r: "app_create_order ex_jd ''B'' ex_mid [] Buy 4 100 1 3 (ex_app, no_resp) = Done () (st', resp')"
      "o_exec_lots (a_orders st' 1) = fill_lots [(0, 4)]"
      "\<forall>y. live st' y \<longleftrightarrow> live ex_app y \<and> still_open (a_orders ex_app) [(0, 4)] y \<or> y = 1 \<and> fill_lots [(0, 4)] < 4"
    by (elim exE conjE)
  have "live st' 0" "\<not> live st' 1"
    using ex_live ex_not_live ex_facts(4) unfolding spec[OF r(3)] by (simp_all add: still_open_def ex_sell_def)
  with r(1,2) show ?thesis by (intro exI conjI) simp_all
qed

text \<open>
  C7. Where the queue has no room for all messages of the call, nothing is journalled, no order
  leaves or changes, no order enters a book, and the caller gets the exception.
\<close>

theorem create_order_queue_full:
  assumes inv: "app_inv local_jd st" and s: "get_sess st accnt = Some s" and m: "get_market st mid = Some m"
    and sd: "sd = Buy \<or> sd = Sell" and lots: "0 < lots" "min_lots \<le> lots"
    and guards: "\<not> ref_taken st s ref" "\<not> closed local_jd st m now"
    and full: "ring_reserve (a_mq st) < 1 + 2 * length (match_fills (a_orders st) m (created_order s m ref sd lots ticks min_lots now))"
  shows "\<exists>st' resp'. app_create_order local_jd accnt mid ref sd lots ticks min_lots now (st, resp) = Throw QueueFull (st', resp')
    \<and> app_inv local_jd st' \<and> a_mq st' = a_mq st \<and> live st' = live st \<and> (\<forall>y. live st y \<longrightarrow> a_orders st' y = a_orders st y)"
proof -
  have new: "\<not> live st (a_next_order st)" using live_order_ok(2)[OF app_inv_parts(1)[OF inv], of "a_next_order st"] by auto
  from app_create_order_run(1)[where resp = resp and ticks = ticks, OF inv s m sd lots guards refl refl refl refl full]
  obtain st' resp' where r:
    "app_create_order local_jd accnt mid ref sd lots ticks min_lots now (st, resp) = Throw QueueFull (st', resp')" "app_inv local_jd st'"
    "market_rel st st'" "\<forall>y. y \<noteq> a_next_order st \<longrightarrow> a_orders st' y = a_orders st y" "a_mq st' = a_mq st"
    by (elim exE conjE)
  have "\<forall>y. live st y \<longrightarrow> a_orders st' y = a_orders st y" using r(4) new by metis
  with r(1,2,5) market_rel_live[OF r(3)] show ?thesis by (intro exI conjI)
qed

theorem create_order_queue_full_witness:
  "\<exists>st' resp'. app_create_order ex_jd ''B'' ex_mid [] Buy 4 100 1 3 (ex_tight, no_resp) = Throw QueueFull (st', resp')
     \<and> live st' = live ex_tight"
proof -
  have sd: "Buy = Buy \<or> Buy = Sell" and lots: "(0::int) < 4" "(1::int) \<le> 4" by simp_all
  have "ring_reserve (a_mq ex_tight) < 1 + 2 * length (match_fills (a_orders ex_tight) ex_market (created_order ex_B ex_market [] Buy 4 100 1 3))"
    by (simp add: ex_tight_facts ex_fills)
  from create_order_queue_full[where resp = no_resp, OF reach_inv[OF ex_tight_reach] ex_tight_facts(3,1) sd lots ex_guards(3,4) this]
  show ?thesis by (elim exE conjE) (intro exI conjI)
qed

text \<open>The ways a creation fails, and what it leaves.\<close>

lemma ref_taken_live:
  assumes inv: "app_inv local_jd st" and s: "get_sess st accnt = Some s" and taken: "ref_taken st s ref"
  shows "\<exists>p. live st p \<and> r_accnt (a_orders st p) = accnt \<and> r_ref (a_orders st p) = ref"
proof -
  have own: "own_ok (a_orders st) (live st) s" using app_inv_parts(2)[OF inv] s by (simp add: own_inv_def)
  then have ok: "set_ok (order_ref_key (a_orders st)) (s_ref_idx s)" by (simp add: own_ok_def)
  obtain p where "set_find (order_ref_key (a_orders st)) ref (s_ref_idx s) = Some p"
    using taken by (auto simp: ref_taken_def sess_exists_def)
  then have "p \<in> set (s_ref_idx s)" "r_ref (a_orders st p) = ref" using ok by (simp_all add: set_find_Some_iff order_ref_key_def)
  then show ?thesis using own own_id[OF app_inv_parts(2)[OF inv] s] by (auto simp: own_ok_def)
qed

lemma create_order_thrown:
  assumes inv: "app_inv local_jd st" and s: "get_sess st accnt = Some s" and m: "get_market st mid = Some m"
    and sd: "sd = Buy \<or> sd = Sell" and lots: "0 \<le> lots"
    and run: "app_create_order local_jd accnt mid ref sd lots ticks min_lots now (st, resp) = Throw e (st', resp')"
  shows "app_inv local_jd st' \<and> live st' = live st \<and> (\<forall>p. live st p \<longrightarrow> a_orders st' p = a_orders st p) \<and> a_mq st' = a_mq st
    \<and> (e = RefAlreadyExists \<and> ref_taken st s ref \<or> e = MarketClosed \<and> closed local_jd st m now
     \<or> e = InvalidLots \<and> (lots = 0 \<or> lots < min_lots)
     \<or> e = QueueFull \<and> ring_reserve (a_mq st) < 1 + 2 * length (match_fills (a_orders st) m (created_order s m ref sd lots ticks min_lots now)))"
proof -
  note E = app_create_order_errors[OF s m, where ref = ref and now = now and local_jd = local_jd and sd = sd and ticks = ticks and resp = resp]
  let ?st0 = "st\<lparr>a_bus_day := snd (bus_day local_jd now (a_bus_day st))\<rparr>"
  have I: "app_inv local_jd ?st0" and l0: "live ?st0 = live st"
    by (rule app_inv_bus_day[OF inv bus_day_ok(1)[OF app_inv_parts(6)[OF inv]]])+
  consider "ref_taken st s ref" | "\<not> ref_taken st s ref" "closed local_jd st m now"
    | "\<not> ref_taken st s ref" "\<not> closed local_jd st m now" "lots = 0 \<or> lots < min_lots"
    | "\<not> ref_taken st s ref" "\<not> closed local_jd st m now" "0 < lots" "min_lots \<le> lots"
    using lots by linarith
  then show ?thesis
  proof cases
    case 1
    then show ?thesis using E(1)[OF 1] run inv by simp
  next
    case 2
    then show ?thesis using E(2)[OF 2] run I l0 by auto
  next
    case 3
    then show ?thesis using E(3)[OF 3] run I l0 by auto
  next
    case 4
    let ?need = "1 + 2 * length (match_fills (a_orders st) m (created_order s m ref sd lots ticks min_lots now))"
    note R = app_create_order_run[where ticks = ticks and resp = resp, OF inv s m sd 4(3,4,1,2) refl refl refl refl]
    have new: "\<not> live st (a_next_order st)" using live_order_ok(2)[OF app_inv_parts(1)[OF inv], of "a_next_order st"] by auto
    show ?thesis
    proof (cases "ring_reserve (a_mq st) < ?need")
      case True
      from R(1)[OF True] obtain st1 resp1 where
        r: "app_create_order local_jd accnt mid ref sd lots ticks min_lots now (st, resp) = Throw QueueFull (st1, resp1)" "app_inv local_jd st1"
        "market_rel st st1" "\<forall>y. y \<noteq> a_next_order st \<longrightarrow> a_orders st1 y = a_orders st y" "a_mq st1 = a_mq st"
        by (elim exE conjE)
      have "e = QueueFull" "st' = st1" using r(1) run by simp_all
      moreover have "\<forall>p. live st p \<longrightarrow> a_orders st1 p = a_orders st p" using r(4) new by metis
      ultimately show ?thesis using r(2,5) market_rel_live[OF r(3)] True by blast
    next
      case False
      from R(2)[OF leI[OF False]] run show ?thesis by auto
    qed
  qed
qed

text \<open>
  C8. A creation that throws leaves no trace that a caller can see: the live orders and their data, the
  journal, the executions there were, and the trades, recent executions and positions of every account are as
  before, although the matching has run by the time the queue refuses. And it only throws where it has to:
  a live order of the account has the reference, the settlement day is before the business day, the lots
  are zero or below the minimum, or the queue has no room for the executions of the order and of its matches.
\<close>

theorem create_order_refused:
  assumes inv: "app_inv local_jd st" and s: "get_sess st accnt = Some s" and m: "get_market st mid = Some m"
    and sd: "sd = Buy \<or> sd = Sell" and lots: "0 \<le> lots"
    and run: "app_create_order local_jd accnt mid ref sd lots ticks min_lots now (st, resp) = Throw e (st', resp')"
  shows "app_inv local_jd st' \<and> live st' = live st \<and> (\<forall>p. live st p \<longrightarrow> a_orders st' p = a_orders st p) \<and> a_mq st' = a_mq st
    \<and> (\<forall>x<a_next_exec st. a_execs st' x = a_execs st x)
    \<and> trades_of st' = trades_of st \<and> execs_of st' = execs_of st \<and> posn_of st' = posn_of st
    \<and> (e = RefAlreadyExists \<and> ref \<noteq> [] \<and> (\<exists>p. live st p \<and> r_accnt (a_orders st p) = accnt \<and> r_ref (a_orders st p) = ref)
     \<or> e = MarketClosed \<and> m_settl_day m \<noteq> 0 \<and> (to_time_t now \<noteq> 0 \<longrightarrow> m_settl_day m < local_jd (to_time_t now))
     \<or> e = InvalidLots \<and> (lots = 0 \<or> lots < min_lots)
     \<or> e = QueueFull \<and> ring_reserve (a_mq st) < 1 + 2 * length (match_fills (a_orders st) m (created_order s m ref sd lots ticks min_lots now)))"
proof -
  have L: "(\<forall>x<a_next_exec st. a_execs st' x = a_execs st x)
      \<and> trades_of st' = trades_of st \<and> execs_of st' = execs_of st \<and> posn_of st' = posn_of st"
    using refused_order_ledger[OF app_inv_ledger[OF inv] run] app_inv_ledger[OF inv] by (simp add: ledger_step_def same_ledger_def)
  have S: "app_inv local_jd st' \<and> live st' = live st \<and> (\<forall>p. live st p \<longrightarrow> a_orders st' p = a_orders st p) \<and> a_mq st' = a_mq st
    \<and> (e = RefAlreadyExists \<and> ref_taken st s ref \<or> e = MarketClosed \<and> closed local_jd st m now
     \<or> e = InvalidLots \<and> (lots = 0 \<or> lots < min_lots)
     \<or> e = QueueFull \<and> ring_reserve (a_mq st) < 1 + 2 * length (match_fills (a_orders st) m (created_order s m ref sd lots ticks min_lots now)))"
    by (rule create_order_thrown[OF inv s m sd lots run])
  have "\<exists>p. live st p \<and> r_accnt (a_orders st p) = accnt \<and> r_ref (a_orders st p) = ref" if "ref_taken st s ref"
    by (rule ref_taken_live[OF inv s that])
  moreover have "to_time_t now \<noteq> 0 \<longrightarrow> m_settl_day m < local_jd (to_time_t now)" if "closed local_jd st m now"
    using that bus_day_ok(2)[OF app_inv_parts(6)[OF inv], of now] by (auto simp: closed_def)
  ultimately show ?thesis using L S by (auto simp: ref_taken_def closed_def)
qed

theorem create_order_refused_witness:
  "\<exists>st' resp'. app_create_order ex_jd ''B'' ex_mid [] Buy 4 100 1 3 (ex_tight, no_resp) = Throw QueueFull (st', resp')
     \<and> posn_of st' = posn_of ex_tight"
proof -
  have sd: "Buy = Buy \<or> Buy = Sell" and lots: "(0::int) \<le> 4" by simp_all
  have "ring_reserve (a_mq ex_tight) < 1 + 2 * length (match_fills (a_orders ex_tight) ex_market (created_order ex_B ex_market [] Buy 4 100 1 3))"
    by (simp add: ex_tight_facts ex_fills)
  from app_create_order_run(1)[where resp = no_resp, OF reach_inv[OF ex_tight_reach] ex_tight_facts(3,1) sd _ _ ex_guards(3,4) refl refl refl refl this]
  obtain st' resp' where run: "app_create_order ex_jd ''B'' ex_mid [] Buy 4 100 1 3 (ex_tight, no_resp) = Throw QueueFull (st', resp')"
    by auto
  from create_order_refused[OF reach_inv[OF ex_tight_reach] ex_tight_facts(3,1) sd lots run] have "posn_of st' = posn_of ex_tight" by blast
  with run show ?thesis by (intro exI conjI)
qed

text \<open>
  The executions that the creation of an order journals all have position quantities of zero, whatever
  the positions of the accounts are: the messages are sent before the matches are committed, and only
  the commit sets the members \<open>posn_lots\<close> and \<open>posn_cost\<close>.
\<close>

lemma journalled_position_is_zero:
  assumes inv: "app_inv local_jd st" and s: "get_sess st accnt = Some s" and m: "get_market st mid = Some m"
    and sd: "sd = Buy \<or> sd = Sell" and lots: "0 < lots" "min_lots \<le> lots"
    and guards: "\<not> ref_taken st s ref" "\<not> closed local_jd st m now"
    and room: "1 + 2 * length (match_fills (a_orders st) m (created_order s m ref sd lots ticks min_lots now)) \<le> ring_reserve (a_mq st)"
  shows "\<exists>st' resp' exs. app_create_order local_jd accnt mid ref sd lots ticks min_lots now (st, resp) = Done () (st', resp')
    \<and> ring_contents (a_mq st') = ring_contents (a_mq st) @ map exec_msg exs
    \<and> (\<forall>ex\<in>set exs. e_posn_lots ex = 0 \<and> e_posn_cost ex = 0)"
proof -
  define ord where "ord = created_order s m ref sd lots ticks min_lots now"
  define fs where "fs = match_fills (a_orders st) m ord"
  from app_create_order_run(2)[where resp = resp and ticks = ticks, OF inv s m sd lots guards ord_def fs_def refl refl room[folded ord_def fs_def]]
  obtain st' resp' es where r:
    "app_create_order local_jd accnt mid ref sd lots ticks min_lots now (st, resp) = Done () (st', resp')"
    "list_all2 (fill_execs (a_orders st) ord) fs es"
    "ring_contents (a_mq st') = ring_contents (a_mq st)
        @ map exec_msg (new_exec ord (m_max_id m + 1) now # concat (map (\<lambda>(a, b). [a, b]) es))"
    by (elim exE conjE)
  have "e_posn_lots a = 0 \<and> e_posn_cost a = 0 \<and> e_posn_lots b = 0 \<and> e_posn_cost b = 0" if "(a, b) \<in> set es" for a b
    using r(2) that by (induction rule: list_all2_induct) (auto simp: fill_execs_def twins_def)
  then have "\<forall>ex\<in>set (new_exec ord (m_max_id m + 1) now # concat (map (\<lambda>(a, b). [a, b]) es)). e_posn_lots ex = 0 \<and> e_posn_cost ex = 0"
    by (auto simp: new_exec_def make_exec_def)
  with r(1,3) show ?thesis by (intro exI conjI)
qed

lemma journalled_position_is_zero_witness:
  "\<exists>st' resp' exs. app_create_order ex_jd ''B'' ex_mid [] Buy 4 100 1 3 (ex_app, no_resp) = Done () (st', resp')
     \<and> ring_contents (a_mq st') = ring_contents (a_mq ex_app) @ map exec_msg exs
     \<and> (\<forall>ex\<in>set exs. e_posn_lots ex = 0 \<and> e_posn_cost ex = 0)"
proof -
  have room: "1 + 2 * length (match_fills (a_orders ex_app) ex_market (created_order ex_B ex_market [] Buy 4 100 1 3)) \<le> ring_reserve (a_mq ex_app)"
    by (simp add: ex_facts ex_fills)
  have sd: "Buy = Buy \<or> Buy = Sell" and lots: "(0::int) < 4" "(1::int) \<le> 4" by simp_all
  show ?thesis
    by (rule journalled_position_is_zero[OF reach_inv[OF ex_reach] ex_facts(3,1) sd lots ex_guards(1,2) room])
qed

end
