(* ===== verification/Http_Stream.thy ===== *)
theory Http_Stream
  imports Byte_Buffer Strings Basic_Types
begin

text \<open>
  \<open>HttpBuf\<close> and \<open>HttpStream\<close> (\<open>web/Stream.hpp\<close>, \<open>web/Stream.cpp\<close>): a response is written behind the bytes that
  are ready to be sent. Its header has room for the length of the content, which is filled in when the
  response is committed.
\<close>

section \<open>Writing\<close>

record http_stream =
  hs_buf :: buffer
  hs_count :: nat
  hs_cloff :: nat
  hs_hcount :: nat

definition make_http_stream :: "buffer \<Rightarrow> http_stream" where
  "make_http_stream b = \<lparr>hs_buf = b, hs_count = 0, hs_cloff = 0, hs_hcount = 0\<rparr>"

text \<open>\<open>xsputn\<close>; \<open>overflow\<close> is the same for one character.\<close>

definition http_xsputn :: "string \<Rightarrow> http_stream \<Rightarrow> http_stream" where
  "http_xsputn s h =
     (let b = buf_prepare (hs_count h + length s) (hs_buf h)
      in h\<lparr>hs_buf := buf_poke (hs_count h) s b, hs_count := hs_count h + length s\<rparr>)"

definition http_overflow :: "char \<Rightarrow> http_stream \<Rightarrow> http_stream" where
  "http_overflow c h =
     (let b = buf_prepare (hs_count h + 1) (hs_buf h)
      in h\<lparr>hs_buf := buf_poke (hs_count h) [c] b, hs_count := hs_count h + 1\<rparr>)"

text \<open>The digits of the content's length, from the last to the first.\<close>

function set_content_length :: "nat \<Rightarrow> nat \<Rightarrow> buffer \<Rightarrow> buffer" where
  "set_content_length pos len b =
     (let pos = pos - 1; b = buf_poke pos [digit_char (len mod 10)] b; len = len div 10
      in if len > 0 then set_content_length pos len b else b)"
  by pat_completeness auto

termination
  by (relation "measure (\<lambda>(pos, len, b). len)") auto

declare set_content_length.simps [simp del]

section \<open>Responses\<close>

text \<open>
  Statuses are their numbers. The reasons are those that \<open>HTTP_STATUS_MAP\<close> gives for the enumerators of
  \<open>HttpStatus\<close>.
\<close>

definition http_reason :: "nat \<Rightarrow> string" where
  "http_reason status =
     (if status = 200 then ''OK''
      else if status = 204 then ''No Content''
      else if status = 400 then ''Bad Request''
      else if status = 401 then ''Unauthorized''
      else if status = 403 then ''Forbidden''
      else if status = 404 then ''Not Found''
      else if status = 405 then ''Method Not Allowed''
      else if status = 500 then ''Internal Server Error''
      else if status = 503 then ''Service Unavailable''
      else [])"

definition with_body :: "nat \<Rightarrow> bool" where
  "with_body n \<longleftrightarrow> \<not> (n \<ge> 100 \<and> n < 200 \<or> n = 204 \<or> n = 304)"

definition crlf :: string where
  "crlf = [CHR 0x0D, CHR 0x0A]"

definition http_reset :: "nat \<Rightarrow> string \<Rightarrow> bool \<Rightarrow> http_stream \<Rightarrow> http_stream" where
  "http_reset status reason cache h =
     (let h = h\<lparr>hs_count := 0\<rparr>;
          h = http_xsputn (''HTTP/1.1 '' @ show_nat status @ '' '' @ reason) h;
          h = (if \<not> cache then http_xsputn (crlf @ ''Cache-Control: no-cache'') h else h);
          h = (if with_body status
               then let h = http_xsputn (crlf @ ''Content-Type: application/json''
                              @ crlf @ ''Content-Length:          0'') h
                    in h\<lparr>hs_cloff := hs_count h\<rparr>
               else h\<lparr>hs_cloff := 0\<rparr>);
          h = http_xsputn (crlf @ crlf) h
      in h\<lparr>hs_hcount := hs_count h\<rparr>)"

definition http_commit :: "http_stream \<Rightarrow> http_stream" where
  "http_commit h =
     (let b = (if hs_cloff h > 0 then set_content_length (hs_cloff h) (hs_count h - hs_hcount h) (hs_buf h) else hs_buf h)
      in h\<lparr>hs_buf := buf_commit (hs_count h) b\<rparr>)"

section \<open>What the stream holds\<close>

text \<open>The text that is written and not yet committed.\<close>

definition holds :: "string \<Rightarrow> http_stream \<Rightarrow> bool" where
  "holds t h \<longleftrightarrow> bb.written t (hs_buf h) \<and> hs_count h = length t"

lemma holds_xsputn:
  assumes "holds t h"
  shows "holds (t @ s) (http_xsputn s h)" and "buf_data (hs_buf (http_xsputn s h)) = buf_data (hs_buf h)"
    and "hs_cloff (http_xsputn s h) = hs_cloff h" and "hs_hcount (http_xsputn s h) = hs_hcount h"
proof -
  have "bb.written t (hs_buf h)" "hs_count h = length t" using assms by (simp_all add: holds_def)
  with bb.written_put[OF this(1), of s "length t + length s"]
  show "holds (t @ s) (http_xsputn s h)" "buf_data (hs_buf (http_xsputn s h)) = buf_data (hs_buf h)"
    "hs_cloff (http_xsputn s h) = hs_cloff h" "hs_hcount (http_xsputn s h) = hs_hcount h"
    by (simp_all add: holds_def http_xsputn_def Let_def)
qed

lemma overflow_xsputn: "http_overflow c h = http_xsputn [c] h"
  by (simp add: http_overflow_def http_xsputn_def)

lemma set_content_length_written:
  assumes "bb.written (t @ room @ u) b" and "length room = length (show_nat len)"
  shows "bb.written (t @ show_nat len @ u) (set_content_length (length t + length room) len b)
    \<and> buf_data (set_content_length (length t + length room) len b) = buf_data b
    \<and> length (buf_space (set_content_length (length t + length room) len b)) = length (buf_space b)"
  using assms
proof (induction len arbitrary: room u b rule: show_nat.induct)
  case (1 n)
  have show_n: "show_nat n = (if n < 10 then [] else show_nat (n div 10)) @ [digit_char (n mod 10)]"
    by (subst show_nat.simps) auto
  obtain r c where room: "room = r @ [c]" using 1(3) show_n by (cases room rule: rev_cases) auto
  have r: "length r = length (if n < 10 then [] else show_nat (n div 10))" using 1(3) room show_n by simp
  let ?b = "buf_poke (length (t @ r)) [digit_char (n mod 10)] b"
  have w: "bb.written ((t @ r) @ [digit_char (n mod 10)] @ u) ?b" "buf_data ?b = buf_data b"
      "length (buf_space ?b) = length (buf_space b)"
    using bb.written_patch[of "t @ r" "[c]" u b "[digit_char (n mod 10)]"] 1(2) room by simp_all
  have step: "set_content_length (length t + length room) n b =
      (if 10 \<le> n then set_content_length (length t + length r) (n div 10) ?b else ?b)"
    by (subst set_content_length.simps) (simp add: room Let_def)
  show ?case
  proof (cases "n < 10")
    case True
    then show ?thesis using w r step show_n by simp
  next
    case False
    then have "length r = length (show_nat (n div 10))" using r by simp
    with False have "bb.written (t @ show_nat (n div 10) @ [digit_char (n mod 10)] @ u) (set_content_length (length t + length r) (n div 10) ?b)
        \<and> buf_data (set_content_length (length t + length r) (n div 10) ?b) = buf_data ?b
        \<and> length (buf_space (set_content_length (length t + length r) (n div 10) ?b)) = length (buf_space ?b)"
      using 1(1)[of r "[digit_char (n mod 10)] @ u" ?b] w(1) by simp
    then show ?thesis using False w(2,3) step show_n by simp
  qed
qed

lemma show_nat_length: "0 < k \<Longrightarrow> n < 10 ^ k \<Longrightarrow> length (show_nat n) \<le> k"
proof (induction k arbitrary: n)
  case (Suc k)
  show ?case
  proof (cases "n < 10")
    case True
    then show ?thesis by (subst show_nat.simps) simp
  next
    case False
    then have "0 < k" using Suc.prems by (cases k) auto
    moreover have "n div 10 < 10 ^ k" using Suc.prems(2) by (simp add: less_mult_imp_div_less mult.commute)
    ultimately show ?thesis using Suc.IH[of "n div 10"] False by (subst show_nat.simps) simp
  qed
qed simp

text \<open>The head of a response up to the room for the length, or to its end where there is no content.\<close>

definition status_line :: "nat \<Rightarrow> string \<Rightarrow> bool \<Rightarrow> string" where
  "status_line status reason cache = ''HTTP/1.1 '' @ show_nat status @ '' '' @ reason
     @ (if cache then [] else crlf @ ''Cache-Control: no-cache'')"

definition content_head :: string where
  "content_head = crlf @ ''Content-Type: application/json'' @ crlf @ ''Content-Length:''"

lemma http_reset_holds:
  assumes "buf_ok (hs_buf h)"
  shows "with_body status \<Longrightarrow> holds (status_line status reason cache @ content_head @ ''          0'' @ crlf @ crlf) (http_reset status reason cache h)
      \<and> hs_cloff (http_reset status reason cache h) = length (status_line status reason cache @ content_head) + 11"
    and "\<not> with_body status \<Longrightarrow> holds (status_line status reason cache @ crlf @ crlf) (http_reset status reason cache h)
      \<and> hs_cloff (http_reset status reason cache h) = 0"
    and "buf_data (hs_buf (http_reset status reason cache h)) = buf_data (hs_buf h)"
    and "hs_hcount (http_reset status reason cache h) = hs_count (http_reset status reason cache h)"
proof -
  let ?h0 = "h\<lparr>hs_count := 0\<rparr>"
  have h0: "holds [] ?h0" using assms bb.written_Nil by (simp add: holds_def)
  define h1 where "h1 = http_xsputn (''HTTP/1.1 '' @ show_nat status @ '' '' @ reason) ?h0"
  note x1 = holds_xsputn[OF h0, of "''HTTP/1.1 '' @ show_nat status @ '' '' @ reason", folded h1_def]
  define h2 where "h2 = (if \<not> cache then http_xsputn (crlf @ ''Cache-Control: no-cache'') h1 else h1)"
  have x2: "holds (status_line status reason cache) h2" "buf_data (hs_buf h2) = buf_data (hs_buf h)"
    using x1 holds_xsputn[OF x1(1), of "crlf @ ''Cache-Control: no-cache''"] by (auto simp: h2_def status_line_def)
  define s where "s = crlf @ ''Content-Type: application/json'' @ crlf @ ''Content-Length:          0''"
  note x3 = holds_xsputn[OF x2(1), of s]
  define h3 where "h3 = (if with_body status then (http_xsputn s h2)\<lparr>hs_cloff := hs_count (http_xsputn s h2)\<rparr> else h2\<lparr>hs_cloff := 0\<rparr>)"
  have s: "s = content_head @ ''          0''" by (simp add: s_def content_head_def)
  have h3: "holds (status_line status reason cache @ (if with_body status then s else [])) h3" "buf_data (hs_buf h3) = buf_data (hs_buf h)"
    "hs_cloff h3 = (if with_body status then length (status_line status reason cache) + length s else 0)"
    using x2 x3 by (simp_all add: h3_def holds_def)
  note x4 = holds_xsputn[OF h3(1), of "crlf @ crlf"]
  have run: "http_reset status reason cache h = (http_xsputn (crlf @ crlf) h3)\<lparr>hs_hcount := hs_count (http_xsputn (crlf @ crlf) h3)\<rparr>"
    by (simp add: http_reset_def h1_def h2_def h3_def s_def Let_def)
  show "with_body status \<Longrightarrow> holds (status_line status reason cache @ content_head @ ''          0'' @ crlf @ crlf) (http_reset status reason cache h)
      \<and> hs_cloff (http_reset status reason cache h) = length (status_line status reason cache @ content_head) + 11"
    using x4 h3(3) by (simp add: run s holds_def)
  show "\<not> with_body status \<Longrightarrow> holds (status_line status reason cache @ crlf @ crlf) (http_reset status reason cache h)
      \<and> hs_cloff (http_reset status reason cache h) = 0"
    using x4 h3(3) by (simp add: run holds_def)
  show "buf_data (hs_buf (http_reset status reason cache h)) = buf_data (hs_buf h)" using x4 h3(2) by (simp add: run)
  show "hs_hcount (http_reset status reason cache h) = hs_count (http_reset status reason cache h)" by (simp add: run)
qed

section \<open>Whole responses\<close>

lemma holds_pieces:
  assumes "holds t h"
  shows "holds (t @ concat ss) (fold http_xsputn ss h) \<and> buf_data (hs_buf (fold http_xsputn ss h)) = buf_data (hs_buf h)
    \<and> hs_cloff (fold http_xsputn ss h) = hs_cloff h \<and> hs_hcount (fold http_xsputn ss h) = hs_hcount h"
  using assms
proof (induction ss arbitrary: t h)
  case (Cons s ss)
  show ?case using Cons.IH[OF holds_xsputn(1)[OF Cons.prems, of s]] holds_xsputn(2-4)[OF Cons.prems, of s] by simp
qed simp

lemma commit_content:
  assumes "holds (t @ room @ u) h" and "hs_cloff h = length t + length room" and "0 < length room"
    and "hs_hcount h \<le> hs_count h" and "hs_count h - hs_hcount h < 10 ^ length room"
    and room: "room = replicate m CHR '' '' @ ''0''"
  defines "n \<equiv> hs_count h - hs_hcount h"
  shows "buf_ok (hs_buf (http_commit h))"
    and "buf_data (hs_buf (http_commit h)) = buf_data (hs_buf h)
      @ t @ replicate (length room - length (show_nat n)) CHR '' '' @ show_nat n @ u"
proof -
  let ?k = "length room - length (show_nat n)" and ?ds = "show_nat n"
  have len: "length ?ds \<le> length room" using show_nat_length assms(3,5) by (simp add: n_def)
  have "?k \<le> m" by (cases ?ds) (simp_all add: room)
  then have pad: "take ?k room = replicate ?k CHR '' ''" by (simp add: room min_def)
  define r where "r = drop ?k room"
  have r: "room = replicate ?k CHR '' '' @ r" "length r = length ?ds"
    using pad append_take_drop_id[of ?k room] len by (simp_all add: r_def)
  have w: "bb.written ((t @ replicate ?k CHR '' '') @ r @ u) (hs_buf h)" "hs_count h = length (t @ room @ u)"
    using assms(1) append_assoc[of "t @ replicate ?k CHR '' ''" r u] append_assoc[of t "replicate ?k CHR '' ''" r]
    unfolding holds_def r(1)[symmetric] by (simp_all only: append_assoc r(1)[symmetric])
  have off: "hs_cloff h = length (t @ replicate ?k CHR '' '') + length r" using assms(2) r len by simp
  note S = set_content_length_written[OF w(1) r(2)]
  let ?t = "(t @ replicate ?k CHR '' '') @ ?ds @ u"
  have c: "hs_count h = length ?t" using w(2) r len by simp
  have b: "bb.written ?t (set_content_length (hs_cloff h) n (hs_buf h))"
    "buf_data (set_content_length (hs_cloff h) n (hs_buf h)) = buf_data (hs_buf h)" using S unfolding off by simp_all
  have run: "hs_buf (http_commit h) = buf_commit (hs_count h) (set_content_length (hs_cloff h) n (hs_buf h))"
    using assms(2,3) by (simp add: http_commit_def n_def)
  show "buf_ok (hs_buf (http_commit h))" unfolding run c using bb.written_commit(1)[OF b(1)] .
  show "buf_data (hs_buf (http_commit h)) = buf_data (hs_buf h)
      @ t @ replicate ?k CHR '' '' @ ?ds @ u" unfolding run c using bb.written_commit(2)[OF b(1)] b(2) by simp
qed

lemma commit_plain:
  assumes "holds t h" and "hs_cloff h = 0"
  shows "buf_ok (hs_buf (http_commit h))" and "buf_data (hs_buf (http_commit h)) = buf_data (hs_buf h) @ t"
  using assms bb.written_commit[of t "hs_buf h"] by (simp_all add: http_commit_def holds_def)

text \<open>The response with a content of less than 10^11 characters.\<close>

lemma response_content:
  assumes ok: "buf_ok (hs_buf h)" and wb: "with_body status" and len: "length (concat ss) < 10 ^ 11"
    and h'_def: "h' = http_commit (fold http_xsputn ss (http_reset status reason cache h))"
  shows "buf_ok (hs_buf h')"
    and "buf_data (hs_buf h') = buf_data (hs_buf h) @ status_line status reason cache @ content_head
      @ replicate (11 - length (show_nat (length (concat ss)))) CHR '' '' @ show_nat (length (concat ss)) @ crlf @ crlf @ concat ss"
proof -
  let ?h1 = "http_reset status reason cache h" and ?room = "''          0''"
  note R = http_reset_holds[OF ok, of status reason cache]
  have r1: "holds ((status_line status reason cache @ content_head) @ ?room @ crlf @ crlf) ?h1"
    "hs_cloff ?h1 = length (status_line status reason cache @ content_head) + length ?room"
    using R(1)[OF wb] by simp_all
  let ?h2 = "fold http_xsputn ss ?h1"
  have P: "holds ((status_line status reason cache @ content_head) @ ?room @ crlf @ crlf @ concat ss) ?h2"
    "hs_cloff ?h2 = length (status_line status reason cache @ content_head) + length ?room"
    "buf_data (hs_buf ?h2) = buf_data (hs_buf h)" "hs_hcount ?h2 = hs_count ?h1"
    using holds_pieces[OF r1(1), of ss] r1(2) R(3,4) by simp_all
  have n: "hs_hcount ?h2 \<le> hs_count ?h2" "hs_count ?h2 - hs_hcount ?h2 = length (concat ss)"
    using P(1,4) r1(1) by (simp_all add: holds_def)
  have room: "?room = replicate 10 CHR '' '' @ ''0''" by (simp add: numeral_eq_Suc)
  have lt: "hs_count ?h2 - hs_hcount ?h2 < 10 ^ length ?room" unfolding n(2) using len by simp
  note C = commit_content[OF P(1,2) _ n(1) lt room]
  show "buf_ok (hs_buf h')" unfolding h'_def by (rule C(1)) auto
  show "buf_data (hs_buf h') = buf_data (hs_buf h) @ status_line status reason cache @ content_head
      @ replicate (11 - length (show_nat (length (concat ss)))) CHR '' '' @ show_nat (length (concat ss)) @ crlf @ crlf @ concat ss"
    unfolding h'_def using C(2) n(2) P(3) by simp
qed

text \<open>The response without.\<close>

lemma response_plain:
  assumes ok: "buf_ok (hs_buf h)" and wb: "\<not> with_body status"
    and h'_def: "h' = http_commit (http_reset status reason cache h)"
  shows "buf_ok (hs_buf h')" and "buf_data (hs_buf h') = buf_data (hs_buf h) @ status_line status reason cache @ crlf @ crlf"
proof -
  note R = http_reset_holds(2)[OF ok wb, of reason cache] http_reset_holds(3)[OF ok, of status reason cache]
  note C = commit_plain[OF conjunct1[OF R(1)] conjunct2[OF R(1)]]
  show "buf_ok (hs_buf h')" "buf_data (hs_buf h') = buf_data (hs_buf h) @ status_line status reason cache @ crlf @ crlf"
    using C R(2) by (simp_all add: h'_def)
qed

end
