(* ===== verification/Fix_Stream.thy ===== *)
theory Fix_Stream
  imports Http_Stream
begin

text \<open>
  \<open>FixBuf\<close> and \<open>FixStream\<close> (\<open>fix/Stream.hpp\<close>, \<open>fix/Stream.cpp\<close>) with the fields that are streamed into them
  (\<open>fix/Field.hpp\<close>): a FIX message is written behind the bytes that are ready to be sent. Room for four
  digits of the length of the body is filled in when the message is committed, and the checksum, which
  is summed up while the message is written, goes behind it.
\<close>

section \<open>Writing\<close>

record fix_version =
  fv_major :: int
  fv_minor :: int

record fix_stream =
  fx_buf :: buffer
  fx_pcount :: nat
  fx_sum :: "64 word"
  fx_bloff :: nat

definition make_fix_stream :: "buffer \<Rightarrow> fix_stream" where
  "make_fix_stream b = \<lparr>fx_buf = b, fx_pcount = 0, fx_sum = 0, fx_bloff = 0\<rparr>"

definition soh :: char where
  "soh = CHR 0x01"

definition check_sum_len :: nat where
  "check_sum_len = length (''10=000'' @ [soh])"

text \<open>A character is a signed byte, and is extended when it is added.\<close>

definition char_val :: "char \<Rightarrow> 64 word" where
  "char_val c = scast (of_nat (code_of c) :: 8 word)"

definition put_check_sum :: "64 word \<Rightarrow> string" where
  "put_check_sum acc =
     (let n0 = unat acc mod 256; n1 = n0 div 10; n2 = n1 div 10
      in [CHR ''1'', CHR ''0'', CHR ''='', digit_char (n2 mod 10), digit_char (n1 mod 10), digit_char (n0 mod 10), soh])"

text \<open>\<open>FixBuf\<close>: characters, the digits of the length from the last to the first, and the end.\<close>

definition fix_xsputn :: "string \<Rightarrow> fix_stream \<Rightarrow> fix_stream" where
  "fix_xsputn s h =
     (let b = buf_poke (fx_pcount h) s (buf_prepare (fx_pcount h + length s + check_sum_len) (fx_buf h))
      in h\<lparr>fx_buf := b, fx_pcount := fx_pcount h + length s, fx_sum := foldl (\<lambda>acc c. acc + char_val c) (fx_sum h) s\<rparr>)"

definition fix_overflow :: "char \<Rightarrow> fix_stream \<Rightarrow> fix_stream" where
  "fix_overflow c h =
     (let b = buf_poke (fx_pcount h) [c] (buf_prepare (fx_pcount h + 1 + check_sum_len) (fx_buf h))
      in h\<lparr>fx_buf := b, fx_pcount := fx_pcount h + 1, fx_sum := fx_sum h + of_nat (code_of c)\<rparr>)"

function set_body_length :: "nat \<Rightarrow> nat \<Rightarrow> fix_stream \<Rightarrow> fix_stream" where
  "set_body_length pos len h =
     (let d = len mod 10; pos = pos - 1;
          h = h\<lparr>fx_sum := fx_sum h + of_nat d, fx_buf := buf_poke pos [digit_char d] (fx_buf h)\<rparr>;
          len = len div 10
      in if len > 0 then set_body_length pos len h else h)"
  by pat_completeness auto

termination
  by (relation "measure (\<lambda>(pos, len, h). len)") auto

declare set_body_length.simps [simp del]

definition fix_buf_commit :: "fix_stream \<Rightarrow> fix_stream" where
  "fix_buf_commit h =
     (if fx_pcount h > 0
      then h\<lparr>fx_buf := buf_commit (fx_pcount h + check_sum_len) (buf_poke (fx_pcount h) (put_check_sum (fx_sum h)) (fx_buf h))\<rparr>
      else h)"

definition fix_buf_reset :: "fix_stream \<Rightarrow> fix_stream" where
  "fix_buf_reset h = h\<lparr>fx_pcount := 0, fx_sum := 0\<rparr>"

text \<open>\<open>FixStream\<close>.\<close>

definition fix_commit :: "fix_stream \<Rightarrow> fix_stream" where
  "fix_commit h =
     fix_buf_commit (if fx_bloff h > 0 then set_body_length (fx_bloff h - 1) (fx_pcount h - fx_bloff h) h else h)"

definition fix_reset :: "fix_stream \<Rightarrow> fix_stream" where
  "fix_reset h = (fix_buf_reset h)\<lparr>fx_bloff := 0\<rparr>"

definition fix_reset_version :: "fix_version \<Rightarrow> fix_stream \<Rightarrow> fix_stream" where
  "fix_reset_version ver h =
     (let h = fix_buf_reset h;
          h = fix_xsputn ''8=FIX.'' h;
          h = fix_xsputn (show_int (fv_major ver)) h;
          h = fix_xsputn ''.'' h;
          h = fix_xsputn (show_int (fv_minor ver)) h;
          h = fix_xsputn ([soh] @ ''9=0000'' @ [soh]) h
      in h\<lparr>fx_bloff := fx_pcount h\<rparr>)"

text \<open>A field: its tag, its value as the operators of the standard library write it, and the end.\<close>

definition put_fix_field :: "int \<times> string \<Rightarrow> fix_stream \<Rightarrow> fix_stream" where
  "put_fix_field f h = fix_xsputn [soh] (fix_xsputn (snd f) (fix_xsputn ''='' (fix_xsputn (show_int (fst f)) h)))"

section \<open>The specification\<close>

text \<open>The checksum of FIX: the bytes modulo 256.\<close>

definition byte_sum :: "string \<Rightarrow> nat" where
  "byte_sum s = sum_list (map code_of s)"

definition zero_padded :: "nat \<Rightarrow> nat \<Rightarrow> string" where
  "zero_padded k n = replicate (k - length (show_nat n)) CHR ''0'' @ show_nat n"

definition fix_field :: "int \<times> string \<Rightarrow> string" where
  "fix_field f = show_int (fst f) @ ''='' @ snd f @ [soh]"

definition fix_fields :: "(int \<times> string) list \<Rightarrow> string" where
  "fix_fields fs = concat (map fix_field fs)"

definition begin_string :: "fix_version \<Rightarrow> string" where
  "begin_string ver = ''8=FIX.'' @ show_int (fv_major ver) @ ''.'' @ show_int (fv_minor ver) @ [soh]"

definition check_sum_field :: "string \<Rightarrow> string" where
  "check_sum_field s = ''10='' @ zero_padded 3 (byte_sum s mod 256) @ [soh]"

definition fix_message :: "fix_version \<Rightarrow> string \<Rightarrow> string" where
  "fix_message ver body =
     (let s = begin_string ver @ ''9='' @ zero_padded 4 (length body) @ [soh] @ body in s @ check_sum_field s)"

section \<open>The checksum\<close>

definition low_byte :: "64 word \<Rightarrow> nat" where
  "low_byte w = unat w mod 256"

lemma low_byte_add: "low_byte (v + w) = (low_byte v + low_byte w) mod 256"
  by (simp add: low_byte_def unat_word_ariths mod_mod_cancel mod_add_eq)

lemma low_byte_of_nat: "low_byte (of_nat n) = n mod 256"
  by (simp add: low_byte_def unat_of_nat mod_mod_cancel)

lemma low_byte_char: "low_byte (char_val c) = code_of c"
proof -
  let ?w = "of_nat (code_of c) :: 8 word"
  have c: "code_of c < 256" by (simp add: code_of_def)
  have "take_bit 8 (char_val c) = (ucast ?w :: 64 word)"
    by (rule bit_word_eqI) (auto simp: char_val_def bit_simps)
  then have "unat (take_bit 8 (char_val c)) = unat (ucast ?w :: 64 word)" by simp
  moreover have w: "unat ?w = code_of c" using c by (simp add: unat_of_nat)
  have "unat (ucast ?w :: 64 word) = code_of c" using c by (simp only: unsigned_ucast_eq w) (simp add: take_bit_eq_mod)
  ultimately show ?thesis using c by (simp add: low_byte_def take_bit_eq_mod unat_mod_distrib)
qed

lemma low_byte_foldl: "low_byte (foldl (\<lambda>acc c. acc + char_val c) w s) = (low_byte w + byte_sum s) mod 256"
proof (induction s arbitrary: w)
  case (Cons c s)
  then show ?case by (simp add: low_byte_add low_byte_char byte_sum_def mod_add_left_eq add.assoc)
qed (simp add: low_byte_def byte_sum_def)

section \<open>What the stream holds\<close>

lemma check_sum_len [simp]: "check_sum_len = 7"
  by (simp add: check_sum_len_def)

lemma byte_sum_simps [simp]:
  "byte_sum [] = 0" "byte_sum (c # s) = code_of c + byte_sum s" "byte_sum (s @ t) = byte_sum s + byte_sum t"
  "byte_sum (replicate n c) = n * code_of c"
  by (simp_all add: byte_sum_def sum_list_replicate)

text \<open>The text that is written, with its sum and with room for the checksum.\<close>

definition fx_holds :: "string \<Rightarrow> fix_stream \<Rightarrow> bool" where
  "fx_holds t h \<longleftrightarrow> bb.written t (fx_buf h) \<and> fx_pcount h = length t \<and> low_byte (fx_sum h) = byte_sum t mod 256
     \<and> (t \<noteq> [] \<longrightarrow> length t + 7 \<le> length (buf_space (fx_buf h)))"

lemma fx_holds_start: "buf_ok (fx_buf h) \<Longrightarrow> fx_holds [] (fix_buf_reset h)"
  by (simp add: fx_holds_def bb.written_Nil fix_buf_reset_def low_byte_def)

lemma fx_holds_xsputn:
  assumes "fx_holds t h"
  shows "fx_holds (t @ s) (fix_xsputn s h)" and "buf_data (fx_buf (fix_xsputn s h)) = buf_data (fx_buf h)"
    and "fx_bloff (fix_xsputn s h) = fx_bloff h"
proof -
  have h: "bb.written t (fx_buf h)" "fx_pcount h = length t" "low_byte (fx_sum h) = byte_sum t mod 256"
    using assms by (simp_all add: fx_holds_def)
  note W = bb.written_put[OF h(1), of s "length t + length s + 7"]
  show "fx_holds (t @ s) (fix_xsputn s h)"
    using W h(2,3) by (simp add: fx_holds_def fix_xsputn_def Let_def low_byte_foldl mod_add_left_eq)
  show "buf_data (fx_buf (fix_xsputn s h)) = buf_data (fx_buf h)" "fx_bloff (fix_xsputn s h) = fx_bloff h"
    using W h(2) by (simp_all add: fix_xsputn_def Let_def)
qed

lemma fix_overflow_holds:
  assumes "fx_holds t h"
  shows "fx_holds (t @ [c]) (fix_overflow c h)" and "buf_data (fx_buf (fix_overflow c h)) = buf_data (fx_buf h)"
proof -
  have h: "bb.written t (fx_buf h)" "fx_pcount h = length t" "low_byte (fx_sum h) = byte_sum t mod 256"
    using assms by (simp_all add: fx_holds_def)
  note W = bb.written_put[OF h(1), of "[c]" "length t + 1 + 7"]
  show "fx_holds (t @ [c]) (fix_overflow c h)" "buf_data (fx_buf (fix_overflow c h)) = buf_data (fx_buf h)"
    using W h(2,3) by (simp_all add: fx_holds_def fix_overflow_def Let_def low_byte_add low_byte_of_nat mod_add_eq)
qed

lemma fx_holds_field:
  assumes "fx_holds t h"
  shows "fx_holds (t @ fix_field f) (put_fix_field f h) \<and> buf_data (fx_buf (put_fix_field f h)) = buf_data (fx_buf h)
    \<and> fx_bloff (put_fix_field f h) = fx_bloff h"
proof -
  note a = fx_holds_xsputn[OF assms, of "show_int (fst f)"]
  note b = fx_holds_xsputn[OF a(1), of "''=''"]
  note c = fx_holds_xsputn[OF b(1), of "snd f"]
  note d = fx_holds_xsputn[OF c(1), of "[soh]"]
  from a b c d show ?thesis by (simp add: put_fix_field_def fix_field_def)
qed

lemma fx_holds_fields:
  assumes "fx_holds t h"
  shows "fx_holds (t @ fix_fields fs) (fold put_fix_field fs h)
    \<and> buf_data (fx_buf (fold put_fix_field fs h)) = buf_data (fx_buf h) \<and> fx_bloff (fold put_fix_field fs h) = fx_bloff h"
  using assms
proof (induction fs arbitrary: t h)
  case (Cons f fs)
  then show ?case using fx_holds_field[OF Cons.prems, of f] Cons.IH[of "t @ fix_field f" "put_fix_field f h"]
    by (simp add: fix_fields_def)
qed (simp add: fix_fields_def)

lemma set_body_length_buf:
  "fx_buf (set_body_length pos len h) = set_content_length pos len (fx_buf h) \<and> fx_pcount (set_body_length pos len h) = fx_pcount h
    \<and> fx_bloff (set_body_length pos len h) = fx_bloff h"
proof (induction len arbitrary: pos h rule: less_induct)
  case (less n)
  have run: "set_body_length pos n h = (let h' = h\<lparr>fx_sum := fx_sum h + of_nat (n mod 10), fx_buf := buf_poke (pos - 1) [digit_char (n mod 10)] (fx_buf h)\<rparr>
      in if 0 < n div 10 then set_body_length (pos - 1) (n div 10) h' else h')"
    by (subst set_body_length.simps) (simp only: Let_def)
  show ?case
    using less[of "n div 10"] by (subst set_content_length.simps) (simp add: run Let_def)
qed

lemma set_body_length_sum:
  "\<exists>e. byte_sum (show_nat n) = 48 * length (show_nat n) + e \<and> low_byte (fx_sum (set_body_length pos n h)) = (low_byte (fx_sum h) + e) mod 256"
proof (induction n arbitrary: pos h rule: less_induct)
  case (less n)
  show ?case
  proof (cases "0 < n div 10")
    case True
    then have lt: "n div 10 < n" and n: "\<not> n < 10" by simp_all
    let ?h = "h\<lparr>fx_sum := fx_sum h + of_nat (n mod 10), fx_buf := buf_poke (pos - 1) [digit_char (n mod 10)] (fx_buf h)\<rparr>"
    obtain e where e: "byte_sum (show_nat (n div 10)) = 48 * length (show_nat (n div 10)) + e"
        "low_byte (fx_sum (set_body_length (pos - 1) (n div 10) ?h)) = (low_byte (fx_sum ?h) + e) mod 256"
      using less[OF lt] by blast
    have run: "set_body_length pos n h = set_body_length (pos - 1) (n div 10) ?h"
      using True by (subst set_body_length.simps) (simp add: Let_def)
    have shows_n: "show_nat n = show_nat (n div 10) @ [digit_char (n mod 10)]" using n by (subst show_nat.simps) simp
    show ?thesis
      using e by (intro exI[of _ "e + n mod 10"])
        (simp add: run shows_n low_byte_add low_byte_of_nat mod_add_left_eq mod_add_right_eq ac_simps)
  next
    case False
    then have n: "n < 10" by simp
    then show ?thesis
      by (subst set_body_length.simps, subst (1 2) show_nat.simps)
        (simp add: Let_def low_byte_add low_byte_of_nat mod_add_right_eq)
  qed
qed

section \<open>A committed message\<close>

lemma zero_padded_3:
  assumes "m < 1000"
  shows "zero_padded 3 m = [digit_char (m div 10 div 10 mod 10), digit_char (m div 10 mod 10), digit_char (m mod 10)]"
proof -
  have z: "digit_char 0 = CHR ''0''" by (simp add: digit_char_def char_of_def bit_iff_odd)
  have one: "show_nat k = [digit_char k]" if "k < 10" for k using that by (subst show_nat.simps) simp
  have more_n: "show_nat k = show_nat (k div 10) @ [digit_char (k mod 10)]" if "\<not> k < 10" for k
    using that by (subst show_nat.simps) simp
  consider "m < 10" | "10 \<le> m" "m < 100" | "100 \<le> m" by linarith
  then show ?thesis
  proof cases
    case 1
    then show ?thesis by (simp add: zero_padded_def one z numeral_2_eq_2)
  next
    case 2
    then have "show_nat m = [digit_char (m div 10), digit_char (m mod 10)]" using one[of "m div 10"] more_n[of m] by simp
    with 2 show ?thesis by (simp add: zero_padded_def z)
  next
    case 3
    then have "show_nat m = [digit_char (m div 10 div 10), digit_char (m div 10 mod 10), digit_char (m mod 10)]"
      using one[of "m div 10 div 10"] more_n[of m] more_n[of "m div 10"] assms by simp
    with 3 assms show ?thesis by (simp add: zero_padded_def)
  qed
qed

lemma put_check_sum_eq: "put_check_sum n = ''10='' @ zero_padded 3 (low_byte n) @ [soh]" "length (put_check_sum n) = 7"
proof -
  have "low_byte n < 256" by (simp add: low_byte_def)
  then show "put_check_sum n = ''10='' @ zero_padded 3 (low_byte n) @ [soh]"
    by (simp add: zero_padded_3) (simp add: put_check_sum_def low_byte_def Let_def)
  show "length (put_check_sum n) = 7" by (simp add: put_check_sum_def Let_def)
qed

lemma length_check_sum_field: "length (check_sum_field s) = 7"
proof -
  have "byte_sum s mod 256 < 1000" using mod_less_divisor[of 256 "byte_sum s"] by linarith
  then show ?thesis by (simp add: check_sum_field_def zero_padded_3)
qed

lemma fix_commit_holds:
  assumes h: "fx_holds (t @ ''0000'' @ [soh] @ b) h" and off: "fx_bloff h = length t + 5" and len: "length b < 10 ^ 4"
  defines "s \<equiv> t @ zero_padded 4 (length b) @ [soh] @ b"
  shows "buf_ok (fx_buf (fix_commit h)) \<and> buf_data (fx_buf (fix_commit h)) = buf_data (fx_buf h) @ s @ check_sum_field s"
proof -
  define ds where "ds = show_nat (length b)"
  define k where "k = 4 - length ds"
  have l4: "length ds \<le> 4" using show_nat_length[of 4 "length b"] len by (simp add: ds_def)
  have room: "''0000'' = replicate k CHR ''0'' @ replicate (length ds) CHR ''0''"
    using l4 by (simp add: k_def replicate_add[symmetric] numeral_eq_Suc)
  define h2 where "h2 = set_body_length (fx_bloff h - 1) (fx_pcount h - fx_bloff h) h"
  have pos: "fx_bloff h - 1 = length (t @ replicate k CHR ''0'') + length (replicate (length ds) CHR ''0'')"
      "fx_pcount h - fx_bloff h = length b" "fx_bloff h > 0" "fx_pcount h = length s"
    using h off l4 by (simp_all add: fx_holds_def k_def s_def zero_padded_def ds_def)
  have w: "bb.written ((t @ replicate k CHR ''0'') @ replicate (length ds) CHR ''0'' @ [soh] @ b) (fx_buf h)"
    using h by (simp add: fx_holds_def room)
  have buf2: "fx_buf h2 = set_content_length (length (t @ replicate k CHR ''0'') + length (replicate (length ds) CHR ''0'')) (length b) (fx_buf h)"
      "fx_pcount h2 = length s" unfolding h2_def using set_body_length_buf pos by metis+
  have w2: "bb.written s (fx_buf h2)" "buf_data (fx_buf h2) = buf_data (fx_buf h)"
      "length (buf_space (fx_buf h2)) = length (buf_space (fx_buf h))"
    using set_content_length_written[OF w, of "length b"] by (simp_all add: buf2(1) s_def zero_padded_def ds_def k_def)
  have "byte_sum (t @ ''0000'' @ [soh] @ b) = byte_sum t + 48 * (k + length ds) + byte_sum ([soh] @ b)"
    unfolding room by (simp add: code_of_def)
  then have "(low_byte (fx_sum h) + e) mod 256 = byte_sum s mod 256" if "byte_sum ds = 48 * length ds + e" for e
    using h that by (simp add: fx_holds_def s_def zero_padded_def ds_def k_def code_of_def mod_add_left_eq mod_add_right_eq algebra_simps)
  then have sum: "low_byte (fx_sum h2) = byte_sum s mod 256"
    using set_body_length_sum[of "length b" "fx_bloff h - 1" h] pos(2) by (auto simp: h2_def ds_def)
  define h3 where "h3 = buf_poke (length s) (put_check_sum (fx_sum h2)) (fx_buf h2)"
  have cs: "put_check_sum (fx_sum h2) = check_sum_field s" "length (check_sum_field s) = 7"
    using put_check_sum_eq[of "fx_sum h2"] length_check_sum_field by (auto simp: sum check_sum_field_def)
  have "length s + 7 \<le> length (buf_space (fx_buf h2))" using w2(3) h l4 by (simp add: fx_holds_def s_def zero_padded_def ds_def[symmetric])
  then have "bb.written (s @ check_sum_field s) h3 \<and> buf_data h3 = buf_data (fx_buf h2)"
    using w2(1) buf_poke_facts[of "fx_buf h2" "length s" "check_sum_field s"] cs
    by (auto simp: bb.written_def h3_def min_def)
  then have "buf_ok (buf_commit (length (s @ check_sum_field s)) h3)
      \<and> buf_data (buf_commit (length (s @ check_sum_field s)) h3) = buf_data (fx_buf h2) @ s @ check_sum_field s"
    using bb.written_commit[of "s @ check_sum_field s" h3] by simp
  moreover have "fix_commit h = h2\<lparr>fx_buf := buf_commit (length s + 7) h3\<rparr>"
  proof -
    have "fix_commit h = fix_buf_commit h2" using pos(3) by (simp add: fix_commit_def h2_def)
    moreover have "0 < length s" by (simp add: s_def)
    ultimately show ?thesis using buf2(2) by (simp add: fix_buf_commit_def h3_def)
  qed
  ultimately show ?thesis using w2(2) cs(2) by simp
qed

lemma fix_reset_version_holds:
  assumes "buf_ok (fx_buf h)"
  shows "fx_holds ((begin_string ver @ ''9='') @ ''0000'' @ [soh]) (fix_reset_version ver h)"
    and "fx_bloff (fix_reset_version ver h) = length (begin_string ver @ ''9='') + 5"
    and "buf_data (fx_buf (fix_reset_version ver h)) = buf_data (fx_buf h)"
proof -
  define h0 where "h0 = fix_xsputn ([soh] @ ''9=0000'' @ [soh]) (fix_xsputn (show_int (fv_minor ver)) (fix_xsputn ''.''
      (fix_xsputn (show_int (fv_major ver)) (fix_xsputn ''8=FIX.'' (fix_buf_reset h)))))"
  have rv: "fix_reset_version ver h = h0\<lparr>fx_bloff := fx_pcount h0\<rparr>" by (simp add: fix_reset_version_def h0_def Let_def)
  note x1 = fx_holds_xsputn[OF fx_holds_start[OF assms(1)], of "''8=FIX.''"]
  note x2 = fx_holds_xsputn[OF x1(1), of "show_int (fv_major ver)"]
  note x3 = fx_holds_xsputn[OF x2(1), of "''.''"]
  note x4 = fx_holds_xsputn[OF x3(1), of "show_int (fv_minor ver)"]
  note x5 = fx_holds_xsputn[OF x4(1), of "[soh] @ ''9=0000'' @ [soh]"]
  have h0: "fx_holds ((begin_string ver @ ''9='') @ ''0000'' @ [soh]) h0" "buf_data (fx_buf h0) = buf_data (fx_buf h)"
    using x1 x2 x3 x4 x5 by (simp_all add: h0_def begin_string_def fix_buf_reset_def)
  then show "fx_holds ((begin_string ver @ ''9='') @ ''0000'' @ [soh]) (fix_reset_version ver h)"
    and "fx_bloff (fix_reset_version ver h) = length (begin_string ver @ ''9='') + 5"
    and "buf_data (fx_buf (fix_reset_version ver h)) = buf_data (fx_buf h)" by (simp_all add: rv fx_holds_def)
qed

text \<open>Every message that fits has the bytes that the specification gives, behind what was ready before.\<close>

lemma commit_fix_message:
  assumes "buf_ok (fx_buf h)" and len: "length (fix_fields fs) < 10 ^ 4"
    and h': "h' = fix_commit (fold put_fix_field fs (fix_reset_version ver h))"
  shows "buf_ok (fx_buf h')" and "buf_data (fx_buf h') = buf_data (fx_buf h) @ fix_message ver (fix_fields fs)"
proof -
  note r = fix_reset_version_holds[OF assms(1), of ver]
  define h1 where "h1 = fold put_fix_field fs (fix_reset_version ver h)"
  have h1: "fx_holds ((begin_string ver @ ''9='') @ ''0000'' @ [soh] @ fix_fields fs) h1"
      "fx_bloff h1 = length (begin_string ver @ ''9='') + 5" "buf_data (fx_buf h1) = buf_data (fx_buf h)"
    using fx_holds_fields[OF r(1), of fs] r(2,3) by (simp_all add: h1_def)
  show "buf_ok (fx_buf h')" and "buf_data (fx_buf h') = buf_data (fx_buf h) @ fix_message ver (fix_fields fs)"
    using fix_commit_holds[OF h1(1,2) len] h1(3) by (simp_all add: h' h1_def fix_message_def Let_def)
qed

text \<open>A message as a user of the stream writes it.\<close>

definition write_message :: "fix_version \<times> (int \<times> string) list \<Rightarrow> fix_stream \<Rightarrow> fix_stream" where
  "write_message m h = fix_commit (fold put_fix_field (snd m) (fix_reset_version (fst m) h))"

lemma write_messages:
  assumes "buf_ok (fx_buf h)" and "\<forall>(ver, fs)\<in>set ms. length (fix_fields fs) < 10 ^ 4"
  shows "buf_data (fx_buf (fold write_message ms h)) = buf_data (fx_buf h) @ concat (map (\<lambda>(ver, fs). fix_message ver (fix_fields fs)) ms)"
  using assms
proof (induction ms arbitrary: h)
  case (Cons m ms)
  obtain ver fs where m: "m = (ver, fs)" by (cases m)
  have len: "length (fix_fields fs) < 10 ^ 4" using Cons.prems(2) by (simp add: m)
  note C = commit_fix_message[OF Cons.prems(1) len refl, of ver]
  have "buf_ok (fx_buf (write_message m h))" "buf_data (fx_buf (write_message m h)) = buf_data (fx_buf h) @ fix_message ver (fix_fields fs)"
    using C by (simp_all add: write_message_def m)
  then show ?case using Cons.IH[of "write_message m h"] Cons.prems(2) by (simp add: m)
qed simp

end
