(* ===== verification/Fix_Parser.thy ===== *)
theory Fix_Parser
  imports Fix_Stream
begin

text \<open>
  \<open>BasicFixParser\<close> (\<open>fix/Parser.hpp\<close>): FIX messages in the bytes that a connection has received. The
  caller drops the bytes that a call has used, and calls again with the rest and what comes behind it.
  Messages are listed in the order in which \<open>on_message\<close> is called.
\<close>

section \<open>The parser\<close>

record fix_parser =
  fp_offset :: nat
  fp_body_len :: "64 word"

type_synonym fix_msg = "fix_version \<times> string"

definition fix_clear :: fix_parser where
  "fix_clear = \<lparr>fp_offset = 0, fp_body_len = 0\<rparr>"

definition body_len_start :: nat where
  "body_len_start = length (''8=FIX.x.y'' @ [soh] @ ''9='')"

definition char_int :: "char \<Rightarrow> int" where
  "char_int c = sint (of_nat (code_of c) :: 8 word)"

text \<open>The digits of the length, modulo 2^64, and how many they are; nothing where the bytes end in them.\<close>

fun body_len_digits :: "64 word \<Rightarrow> nat \<Rightarrow> string \<Rightarrow> (64 word \<times> nat \<times> char) option" where
  "body_len_digits n k [] = None"
| "body_len_digits n k (c # cs) =
     (if \<not> is_digit c then Some (n, k, c) else body_len_digits (n * 10 + of_nat (code_of c - 48)) (k + 1) cs)"

datatype fix_head = Head_Partial | Head_Invalid | Head fix_parser

definition parse_body_len :: "string \<Rightarrow> fix_head" where
  "parse_body_len buf =
     (if length buf \<le> body_len_start then Head_Partial
      else case body_len_digits 0 0 (drop body_len_start buf) of
        None \<Rightarrow> Head_Partial
      | Some (n, k, c) \<Rightarrow>
          if c \<noteq> soh then Head_Invalid
          else Head \<lparr>fp_offset = body_len_start + k + 1, fp_body_len = n\<rparr>)"

text \<open>
  How a call ends: with the number of bytes that it has used, with an exception, or without a result: a
  length for which the sum wraps gives a view that ends behind every buffer.
\<close>

datatype fix_end = Fix_Used nat | Fix_Invalid | Fix_Out_Of_Range

definition fix_total_len :: "fix_parser \<Rightarrow> nat" where
  "fix_total_len p = unat (of_nat (fp_offset p) + fp_body_len p + of_nat check_sum_len :: 64 word)"

definition fix_wraps :: "fix_parser \<Rightarrow> bool" where
  "fix_wraps p \<longleftrightarrow> 2 ^ 64 \<le> fp_offset p + unat (fp_body_len p) + check_sum_len"

definition fix_message_of :: "fix_parser \<Rightarrow> string \<Rightarrow> fix_msg" where
  "fix_message_of p buf =
     (\<lparr>fv_major = char_int (buf ! 6) - 48, fv_minor = char_int (buf ! 8) - 48\<rparr>,
      take (unat (fp_body_len p)) (drop (fp_offset p) buf))"

lemma fix_total_len_eq: "\<not> fix_wraps p \<Longrightarrow> fix_total_len p = fp_offset p + unat (fp_body_len p) + 7"
proof -
  define n where "n = fp_offset p + unat (fp_body_len p) + 7"
  assume "\<not> fix_wraps p"
  then have "n < 2 ^ 64" by (simp add: fix_wraps_def n_def)
  then have "unat (of_nat n :: 64 word) = n" by (simp add: unat_of_nat)
  moreover have "fix_total_len p = unat (of_nat n :: 64 word)" by (simp add: fix_total_len_def n_def)
  ultimately show ?thesis by (simp add: n_def)
qed

function parse_messages :: "fix_parser \<Rightarrow> string \<Rightarrow> nat \<Rightarrow> fix_msg list \<times> fix_parser \<times> fix_end" where
  "parse_messages p buf used =
     (let len = fix_total_len p
      in if length buf < len then ([], p, Fix_Used used)
         else if fix_wraps p then ([], p, Fix_Out_Of_Range)
         else let m = fix_message_of p buf; buf = drop len buf; used = used + len
              in case parse_body_len buf of
                   Head_Partial \<Rightarrow> ([m], fix_clear, Fix_Used used)
                 | Head_Invalid \<Rightarrow> ([m], fix_clear, Fix_Invalid)
                 | Head p \<Rightarrow> (case parse_messages p buf used of (ms, p, e) \<Rightarrow> (m # ms, p, e)))"
  by pat_completeness auto

termination
  by (relation "measure (\<lambda>(p, buf, used). length buf)") (auto simp: fix_total_len_eq)

declare parse_messages.simps [simp del]

definition fix_parse :: "string \<Rightarrow> fix_parser \<Rightarrow> fix_msg list \<times> fix_parser \<times> fix_end" where
  "fix_parse buf p =
     (if fp_offset p = 0
      then case parse_body_len buf of
             Head_Partial \<Rightarrow> ([], p, Fix_Used 0)
           | Head_Invalid \<Rightarrow> ([], p, Fix_Invalid)
           | Head p \<Rightarrow> parse_messages p buf 0
      else parse_messages p buf 0)"

section \<open>The caller\<close>

text \<open>What a caller sees who passes on the pieces that it receives, until one of them fails.\<close>

datatype feed_end = Waiting string | Failed fix_end

fun feed :: "fix_parser \<Rightarrow> string \<Rightarrow> string list \<Rightarrow> fix_msg list \<times> fix_parser \<times> feed_end" where
  "feed p pending [] = ([], p, Waiting pending)"
| "feed p pending (piece # pieces) =
     (case fix_parse (pending @ piece) p of (ms, p, e) \<Rightarrow>
        (case e of
           Fix_Used k \<Rightarrow> (case feed p (drop k (pending @ piece)) pieces of (ms', p, e) \<Rightarrow> (ms @ ms', p, e))
         | _ \<Rightarrow> (ms, p, Failed e)))"

section \<open>More bytes\<close>

lemma body_len_start [simp]: "body_len_start = 12"
  by (simp add: body_len_start_def)

lemma body_len_digits_append: "body_len_digits n k s = Some r \<Longrightarrow> body_len_digits n k (s @ t) = Some r"
  by (induction s arbitrary: n k) (auto split: if_splits)

lemma parse_body_len_append:
  "parse_body_len buf = Head p \<Longrightarrow> parse_body_len (buf @ t) = Head p"
  "parse_body_len buf = Head_Invalid \<Longrightarrow> parse_body_len (buf @ t) = Head_Invalid"
  using body_len_digits_append[of 0 0 "drop 12 buf" _ t]
  by (auto simp: parse_body_len_def split: option.splits if_splits)

lemma head_offset: "parse_body_len buf = Head p \<Longrightarrow> 12 < fp_offset p"
  by (auto simp: parse_body_len_def split: option.splits if_splits)

text \<open>What a fresh parser does with a text, as a recursion over its messages.\<close>

fun shift_end :: "nat \<Rightarrow> fix_end \<Rightarrow> fix_end" where
  "shift_end k (Fix_Used n) = Fix_Used (k + n)"
| "shift_end k e = e"

lemma shift_end_simps [simp]: "shift_end 0 e = e" "shift_end a (shift_end b e) = shift_end (a + b) e"
  by (cases e; simp)+

lemma parse_messages_stop:
  "length buf < fix_total_len p \<Longrightarrow> parse_messages p buf used = ([], p, Fix_Used used)"
  "\<not> length buf < fix_total_len p \<Longrightarrow> fix_wraps p \<Longrightarrow> parse_messages p buf used = ([], p, Fix_Out_Of_Range)"
  by (subst parse_messages.simps, simp)+

lemma parse_messages_next:
  assumes "\<not> length buf < fix_total_len p" and "\<not> fix_wraps p"
  shows "parse_messages p buf used = (let rest = drop (fix_total_len p) buf in case parse_body_len rest of
     Head_Partial \<Rightarrow> ([fix_message_of p buf], fix_clear, Fix_Used (used + fix_total_len p))
   | Head_Invalid \<Rightarrow> ([fix_message_of p buf], fix_clear, Fix_Invalid)
   | Head q \<Rightarrow> (case parse_messages q rest (used + fix_total_len p) of (ms, q, e) \<Rightarrow> (fix_message_of p buf # ms, q, e)))"
  using assms by (subst parse_messages.simps) (simp add: Let_def)

lemma parse_messages_used:
  "parse_messages p buf (k + used) = (case parse_messages p buf used of (ms, p, e) \<Rightarrow> (ms, p, shift_end k e))"
proof (induction "length buf" arbitrary: p buf used rule: less_induct)
  case less
  consider (short) "length buf < fix_total_len p" | (wrap) "\<not> length buf < fix_total_len p" "fix_wraps p"
    | (whole) "\<not> length buf < fix_total_len p" "\<not> fix_wraps p" by blast
  then show ?case
  proof cases
    case whole
    then have "length (drop (fix_total_len p) buf) < length buf" by (simp add: fix_total_len_eq)
    note IH = less[OF this, of _ "used + fix_total_len p"]
    show ?thesis using IH by (auto simp: parse_messages_next[OF whole] Let_def add.assoc split: fix_head.split prod.splits)
  qed (simp_all add: parse_messages_stop)
qed

lemma fresh_parse:
  "fix_parse buf fix_clear = (case parse_body_len buf of
     Head_Partial \<Rightarrow> ([], fix_clear, Fix_Used 0)
   | Head_Invalid \<Rightarrow> ([], fix_clear, Fix_Invalid)
   | Head p \<Rightarrow>
       if length buf < fix_total_len p then ([], p, Fix_Used 0)
       else if fix_wraps p then ([], p, Fix_Out_Of_Range)
       else case fix_parse (drop (fix_total_len p) buf) fix_clear of (ms, q, e) \<Rightarrow>
              (fix_message_of p buf # ms, q, shift_end (fix_total_len p) e))"
proof -
  have zero: "parse_messages q b k = (case parse_messages q b 0 of (ms, p, e) \<Rightarrow> (ms, p, shift_end k e))" for q b k
    using parse_messages_used[of q b k 0] by simp
  have clear: "fp_offset fix_clear = 0" by (simp add: fix_clear_def)
  show ?thesis
  proof (cases "parse_body_len buf")
    case (Head p)
    consider (stop) "length buf < fix_total_len p \<or> fix_wraps p"
      | (whole) "\<not> length buf < fix_total_len p" "\<not> fix_wraps p" by blast
    then show ?thesis
    proof cases
      case stop
      then show ?thesis by (auto simp: fix_parse_def clear Head parse_messages_stop)
    next
      case whole
      then show ?thesis
        by (auto simp: fix_parse_def clear Head parse_messages_next Let_def zero[of _ _ "fix_total_len p"] split: fix_head.split prod.split)
    qed
  qed (simp_all add: fix_parse_def clear)
qed

text \<open>A parser that waits goes on as a fresh one would from the bytes that are kept.\<close>

definition fix_waits :: "fix_parser \<Rightarrow> string \<Rightarrow> bool" where
  "fix_waits p buf \<longleftrightarrow> fix_parse buf fix_clear = ([], p, Fix_Used 0)"

lemma fix_waits_head: "fix_waits p buf \<Longrightarrow> p = fix_clear \<or> parse_body_len buf = Head p"
  unfolding fix_waits_def by (subst (asm) fresh_parse) (auto split: fix_head.splits if_splits prod.splits)

lemma waits_fresh: "fix_waits p buf \<Longrightarrow> fix_parse (buf @ t) p = fix_parse (buf @ t) fix_clear"
  using fix_waits_head[of p buf] parse_body_len_append(1)[of buf p t] head_offset[of buf p]
  by (auto simp: fix_parse_def fix_clear_def)

lemma fix_message_of_append:
  assumes "parse_body_len buf = Head p" and "\<not> fix_wraps p" and "fix_total_len p \<le> length buf"
  shows "fix_message_of p (buf @ t) = fix_message_of p buf"
  using assms head_offset[OF assms(1)] by (simp add: fix_message_of_def fix_total_len_eq nth_append)

lemma fresh_append:
  assumes "fix_parse buf fix_clear = (ms, p, e)"
  shows "case e of
     Fix_Used k \<Rightarrow> k \<le> length buf \<and> fix_waits p (drop k buf)
       \<and> fix_parse (buf @ t) fix_clear = (case fix_parse (drop k buf @ t) fix_clear of (ms', q, e) \<Rightarrow> (ms @ ms', q, shift_end k e))
   | _ \<Rightarrow> fix_parse (buf @ t) fix_clear = (ms, p, e)"
  using assms
proof (induction "length buf" arbitrary: buf ms p e rule: less_induct)
  case less
  note run = less.prems[unfolded fresh_parse[of buf]]
  have same: "(case r of (ms, q, e) \<Rightarrow> ([] @ ms, q, shift_end 0 e)) = r" for r :: "fix_msg list \<times> fix_parser \<times> fix_end"
    by (cases r) simp
  show ?case
  proof (cases "parse_body_len buf")
    case Head_Partial
    then show ?thesis using run same less.prems by (auto simp: fix_waits_def)
  next
    case Head_Invalid
    then show ?thesis using run by (auto simp: fresh_parse[of "buf @ t"] parse_body_len_append)
  next
    case (Head q)
    note more_bytes = parse_body_len_append(1)[OF Head, of t]
    consider (short) "length buf < fix_total_len q" | (wrap) "\<not> length buf < fix_total_len q" "fix_wraps q"
      | (whole) "\<not> length buf < fix_total_len q" "\<not> fix_wraps q" by blast
    then show ?thesis
    proof cases
      case short
      then show ?thesis using run same Head less.prems by (auto simp: fix_waits_def)
    next
      case wrap
      then show ?thesis using run Head by (auto simp: fresh_parse[of "buf @ t"] more_bytes)
    next
      case whole
      let ?rest = "drop (fix_total_len q) buf"
      obtain ms' p' e' where rest: "fix_parse ?rest fix_clear = (ms', p', e')" by (cases "fix_parse ?rest fix_clear")
      then have res: "ms = fix_message_of q buf # ms'" "p = p'" "e = shift_end (fix_total_len q) e'" using run Head whole by auto
      have msg: "fix_message_of q (buf @ t) = fix_message_of q buf" using fix_message_of_append[OF Head whole(2)] whole(1) by simp
      have step: "fix_parse (buf @ t) fix_clear = (case fix_parse (?rest @ t) fix_clear of (ms, q', e) \<Rightarrow>
          (fix_message_of q buf # ms, q', shift_end (fix_total_len q) e))"
        unfolding fresh_parse[of "buf @ t"] using whole by (simp add: more_bytes msg)
      have "length ?rest < length buf" using whole by (simp add: fix_total_len_eq)
      from less.hyps[OF this rest] show ?thesis unfolding step res using whole
        by (cases e') (auto simp: add.commute split: prod.splits)
    qed
  qed
qed

text \<open>So it makes no difference where the text is cut.\<close>

lemma feed_whole:
  assumes "fix_waits p pending"
  shows "feed p pending pieces = (case fix_parse (pending @ concat pieces) fix_clear of (ms, q, e) \<Rightarrow>
     (ms, q, case e of Fix_Used k \<Rightarrow> Waiting (drop k (pending @ concat pieces)) | _ \<Rightarrow> Failed e))"
  using assms
proof (induction pieces arbitrary: p pending)
  case Nil
  then show ?case by (simp add: fix_waits_def)
next
  case (Cons s pieces)
  let ?buf = "pending @ s" and ?t = "concat pieces"
  obtain ms q e where run: "fix_parse ?buf fix_clear = (ms, q, e)" by (cases "fix_parse ?buf fix_clear")
  have now: "fix_parse ?buf p = (ms, q, e)" using waits_fresh[OF Cons.prems] run by simp
  show ?case
  proof (cases e)
    case (Fix_Used k)
    with fresh_append[OF run, of ?t] have k: "k \<le> length ?buf" "fix_waits q (drop k ?buf)"
      and all: "fix_parse (?buf @ ?t) fix_clear = (case fix_parse (drop k ?buf @ ?t) fix_clear of (ms', q, e) \<Rightarrow> (ms @ ms', q, shift_end k e))"
      by simp_all
    have "drop k ?buf @ ?t = drop k (?buf @ ?t)" using k(1) by (simp del: append_assoc)
    then have cut: "drop j (drop k ?buf @ ?t) = drop (k + j) (?buf @ ?t)" for j by (simp only: drop_drop add.commute)
    have fed: "feed p pending (s # pieces) = (case feed q (drop k ?buf) pieces of (ms', q, e) \<Rightarrow> (ms @ ms', q, e))"
      by (simp add: now Fix_Used)
    obtain ms' q' e' where rest: "fix_parse (drop k ?buf @ ?t) fix_clear = (ms', q', e')"
      by (cases "fix_parse (drop k ?buf @ ?t) fix_clear")
    have "pending @ concat (s # pieces) = ?buf @ ?t" by simp
    then show ?thesis unfolding fed Cons.IH[OF k(2)]
      by (cases e') (simp_all only: all rest cut prod.case fix_end.case shift_end.simps)
  next
    case Fix_Invalid
    then show ?thesis using now fresh_append[OF run, of ?t] by simp
  next
    case Fix_Out_Of_Range
    then show ?thesis using now fresh_append[OF run, of ?t] by simp
  qed
qed

lemma feed_pieces: "feed fix_clear [] pieces = feed fix_clear [] [concat pieces]"
proof -
  have "fix_waits fix_clear []" by (simp add: fix_waits_def fix_parse_def parse_body_len_def fix_clear_def)
  then show ?thesis by (simp only: feed_whole concat.simps append_Nil append_Nil2)
qed

section \<open>Messages that were written\<close>

definition valid_version :: "fix_version \<Rightarrow> bool" where
  "valid_version ver \<longleftrightarrow> 0 \<le> fv_major ver \<and> fv_major ver < 10 \<and> 0 \<le> fv_minor ver \<and> fv_minor ver < 10"

lemma body_len_digits_run:
  assumes "\<forall>c\<in>set s. is_digit c"
  shows "body_len_digits n k (s @ soh # t) = Some (stou_digits n s, k + length s, soh)"
  using assms by (induction s arbitrary: n k) (simp_all add: soh_def is_digit_def code_of_def)

lemma zero_padded_digits: "\<forall>c\<in>set (zero_padded k n). is_digit c"
  using show_nat_digits[of n] by (auto simp: zero_padded_def is_digit_def code_of_def)

lemma stou_zero_padded: "stou_digits 0 (zero_padded k n) = (of_nat n :: 'a::len word)"
proof -
  have "stou_digits 0 (replicate j CHR ''0'' @ t) = (stou_digits 0 t :: 'a word)" for j t
    by (induction j) (simp_all add: is_digit_def code_of_def)
  then show ?thesis by (simp add: zero_padded_def stou_digits_show)
qed

lemma show_int_digit: "0 \<le> i \<Longrightarrow> i < 10 \<Longrightarrow> show_int i = [digit_char (nat i)]"
  unfolding show_int_def by (subst show_nat.simps) simp

lemma char_int_digit: "d < 10 \<Longrightarrow> char_int (digit_char d) - 48 = int d"
proof -
  assume "d < 10"
  then have "d = 0 \<or> d = 1 \<or> d = 2 \<or> d = 3 \<or> d = 4 \<or> d = 5 \<or> d = 6 \<or> d = 7 \<or> d = 8 \<or> d = 9" by presburger
  then show ?thesis by (elim disjE) (simp_all add: char_int_def)
qed

text \<open>A message is found in front of whatever follows it, whatever stands in the place of its checksum.\<close>

lemma parse_any_check_sum:
  assumes ver: "valid_version ver" and len: "length body < 10 ^ 4" and cs: "length cs = 7"
    and m_def: "m = begin_string ver @ ''9='' @ zero_padded 4 (length body) @ [soh] @ body @ cs"
  shows "fix_parse (m @ t) fix_clear = (case fix_parse t fix_clear of (ms, q, e) \<Rightarrow> ((ver, body) # ms, q, shift_end (length m) e))"
proof -
  define digits where "digits = zero_padded 4 (length body)"
  define a where "a = digit_char (nat (fv_major ver))"
  define b where "b = digit_char (nat (fv_minor ver))"
  have v: "show_int (fv_major ver) = [a]" "show_int (fv_minor ver) = [b]" "char_int a - 48 = fv_major ver" "char_int b - 48 = fv_minor ver"
    using ver show_int_digit char_int_digit[of "nat (fv_major ver)"] char_int_digit[of "nat (fv_minor ver)"]
    by (simp_all add: valid_version_def a_def b_def nat_less_iff)
  have cs: "m = ''8=FIX.'' @ [a, CHR ''.'', b, soh] @ ''9='' @ digits @ [soh] @ body @ cs" "length cs = 7"
    by (simp_all add: m_def begin_string_def v digits_def cs)
  let ?p = "\<lparr>fp_offset = 13 + length digits, fp_body_len = of_nat (length body)\<rparr>"
  have d: "drop 12 (m @ t) = digits @ soh # body @ cs @ t" by (simp add: cs)
  have dd: "length digits = 4" using show_nat_length[of 4 "length body"] len by (simp add: digits_def zero_padded_def)
  have head: "parse_body_len (m @ t) = Head ?p"
    using body_len_digits_run[OF zero_padded_digits[of 4 "length body"], of 0 0 "body @ cs @ t"] stou_zero_padded[of 4 "length body"]
    by (simp add: parse_body_len_def d digits_def[symmetric]) (simp add: cs)
  have n: "unat (of_nat (length body) :: 64 word) = length body" using len by (simp add: unat_of_nat)
  have wrap: "\<not> fix_wraps ?p" using len dd by (simp add: fix_wraps_def n)
  have total: "fix_total_len ?p = length m" using fix_total_len_eq[OF wrap] by (simp add: n cs)
  have "drop (13 + length digits) (m @ t) = drop (length digits + 1) (drop 12 (m @ t))" by (simp only: drop_drop) simp
  also have "\<dots> = body @ cs @ t" by (simp only: d) simp
  finally have nine: "drop (13 + length digits) (m @ t) = body @ cs @ t" .
  have "fix_message_of ?p (m @ t) = (ver, body)"
    unfolding fix_message_of_def using v(3,4) n nine by (simp add: cs)
  then show ?thesis by (subst fresh_parse) (simp add: head wrap total)
qed

lemma parse_message:
  assumes "valid_version ver" and "length body < 10 ^ 4"
  shows "fix_parse (fix_message ver body @ t) fix_clear = (case fix_parse t fix_clear of (ms, q, e) \<Rightarrow>
    ((ver, body) # ms, q, shift_end (length (fix_message ver body)) e))"
  using assms length_check_sum_field by (rule parse_any_check_sum) (simp add: fix_message_def Let_def)

lemma parse_written:
  assumes "\<forall>(ver, body)\<in>set ms. valid_version ver \<and> length body < 10 ^ 4"
  shows "fix_parse (concat (map (\<lambda>(ver, body). fix_message ver body) ms)) fix_clear
    = (ms, fix_clear, Fix_Used (length (concat (map (\<lambda>(ver, body). fix_message ver body) ms))))"
  using assms
proof (induction ms)
  case Nil
  show ?case by (simp add: fix_parse_def parse_body_len_def fix_clear_def)
next
  case (Cons m ms)
  then show ?case using parse_message[of "fst m" "snd m"] by (cases m) auto
qed

end
