(* ===== verification/Fix_Tokeniser.thy ===== *)
theory Fix_Tokeniser
  imports Fix_Stream
begin

text \<open>
  \<open>FixTokeniser\<close> and \<open>find_tag\<close> (\<open>fix/Tokeniser.hpp\<close>, \<open>fix/Tokeniser.cpp\<close>): the fields of the body of a FIX
  message, one by one or by tag. An iterator is the text from it on.
\<close>

section \<open>Fields one by one\<close>

record fix_tokeniser =
  ft_msg :: string
  ft_rest :: string

text \<open>
  Results of reading: a value, an exception, or no result, where the code reads behind the end or a
  signed integer overflows.
\<close>

datatype 'a fix_result = Fix_Ok 'a | Partial_Tag | Invalid_Tag | Fix_Undefined

definition make_fix_tokeniser :: "string \<Rightarrow> fix_tokeniser" where
  "make_fix_tokeniser msg = \<lparr>ft_msg = msg, ft_rest = msg\<rparr>"

definition ft_empty :: "fix_tokeniser \<Rightarrow> bool" where
  "ft_empty t \<longleftrightarrow> ft_rest t = []"

definition max_tag :: int where
  "max_tag = 2 ^ 31 - 1"

fun tag_digits :: "int \<Rightarrow> string \<Rightarrow> (int \<times> string) fix_result" where
  "tag_digits tag [] = Partial_Tag"
| "tag_digits tag (c # cs) =
     (if is_digit c
      then let tag = tag * 10 + int (code_of c - 48) in if tag > max_tag then Fix_Undefined else tag_digits tag cs
      else if c \<noteq> CHR ''='' then Invalid_Tag
      else Fix_Ok (tag, cs))"

definition ft_tag :: "string \<Rightarrow> (int \<times> string) fix_result" where
  "ft_tag it = (case it of
     [] \<Rightarrow> Fix_Undefined
   | c # cs \<Rightarrow>
       if is_digit c then tag_digits (int (code_of c - 48)) cs
       else if c \<noteq> CHR ''='' then Invalid_Tag
       else Fix_Ok (0, cs))"

definition ft_value :: "string \<Rightarrow> string \<times> string" where
  "ft_value it = (takeWhile (\<lambda>c. c \<noteq> soh) it, drop 1 (dropWhile (\<lambda>c. c \<noteq> soh) it))"

definition ft_next :: "fix_tokeniser \<Rightarrow> ((int \<times> string) \<times> fix_tokeniser) fix_result" where
  "ft_next t = (case ft_tag (ft_rest t) of
     Fix_Ok (tag, it) \<Rightarrow> (case ft_value it of (v, it) \<Rightarrow> Fix_Ok ((tag, v), t\<lparr>ft_rest := it\<rparr>))
   | Partial_Tag \<Rightarrow> Partial_Tag
   | Invalid_Tag \<Rightarrow> Invalid_Tag
   | Fix_Undefined \<Rightarrow> Fix_Undefined)"

text \<open>What a loop sees that takes fields until the tokeniser is empty.\<close>

lemma tag_digits_shorter: "tag_digits tag s = Fix_Ok (n, r) \<Longrightarrow> length r < length s"
  by (induction s arbitrary: tag) (fastforce simp: Let_def split: if_splits)+

lemma ft_next_shorter: "ft_next t = Fix_Ok (f, t') \<Longrightarrow> length (ft_rest t') < length (ft_rest t)"
proof -
  assume next_t: "ft_next t = Fix_Ok (f, t')"
  have drops: "length (drop 1 (dropWhile P s)) \<le> length s" for P and s :: string
    using length_dropWhile_le[of P s] by simp
  obtain n r where tag: "ft_tag (ft_rest t) = Fix_Ok (n, r)" using next_t by (auto simp: ft_next_def split: fix_result.splits)
  then have "length r < length (ft_rest t)"
    using tag_digits_shorter by (fastforce simp: ft_tag_def split: list.splits if_splits)
  moreover have "length (ft_rest t') \<le> length r"
    using next_t tag drops[of "\<lambda>c. c \<noteq> soh" r] by (auto simp: ft_next_def ft_value_def)
  ultimately show ?thesis by simp
qed

function fix_pairs :: "fix_tokeniser \<Rightarrow> (int \<times> string) list fix_result" where
  "fix_pairs t =
     (if ft_empty t then Fix_Ok []
      else case ft_next t of
        Fix_Ok (f, t) \<Rightarrow> (case fix_pairs t of
            Fix_Ok fs \<Rightarrow> Fix_Ok (f # fs) | Partial_Tag \<Rightarrow> Partial_Tag | Invalid_Tag \<Rightarrow> Invalid_Tag | Fix_Undefined \<Rightarrow> Fix_Undefined)
      | Partial_Tag \<Rightarrow> Partial_Tag
      | Invalid_Tag \<Rightarrow> Invalid_Tag
      | Fix_Undefined \<Rightarrow> Fix_Undefined)"
  by pat_completeness auto

termination
  by (relation "measure (\<lambda>t. length (ft_rest t))") (auto dest: ft_next_shorter)

declare fix_pairs.simps [simp del]

section \<open>A field by its tag\<close>

text \<open>
  The tag is written from the end into an array of twelve characters, of which the last one is not used:
  its equals sign is the eleventh, and a tag of ten digits fills the rest. The search for a later field
  puts another character in front, which is then outside of the array.
\<close>

fun find_sub :: "string \<Rightarrow> string \<Rightarrow> nat option" where
  "find_sub key [] = (if key = [] then Some 0 else None)"
| "find_sub key (c # cs) =
     (if take (length key) (c # cs) = key then Some 0 else map_option Suc (find_sub key cs))"

definition tag_room :: nat where
  "tag_room = 12 - 2"

definition find_tag :: "string \<Rightarrow> nat \<Rightarrow> (string \<times> bool) fix_result" where
  "find_tag msg tag =
     (if CHR ''='' \<notin> set msg then Fix_Ok ([], False)
      else let pos = length (takeWhile (\<lambda>c. c \<noteq> CHR ''='') msg) + 1;
               key = show_nat tag @ ''='';
               val = (\<lambda>pos. Fix_Ok (takeWhile (\<lambda>c. c \<noteq> soh) (drop pos msg), True))
           in if length key = pos \<and> take pos msg = key then val pos
              else if length (show_nat tag) \<ge> tag_room then Fix_Undefined
              else case find_sub (soh # key) (drop pos msg) of
                     None \<Rightarrow> Fix_Ok ([], False)
                   | Some i \<Rightarrow> val (pos + i + length (soh # key)))"

section \<open>Fields that were written\<close>

definition valid_field :: "int \<times> string \<Rightarrow> bool" where
  "valid_field f \<longleftrightarrow> 0 \<le> fst f \<and> fst f \<le> max_tag \<and> soh \<notin> set (snd f)"

lemma stoi_digits_mono: "0 \<le> n \<Longrightarrow> n \<le> stoi_digits n s"
proof (induction s arbitrary: n)
  case (Cons c s)
  have "n \<le> n * 10 + int (code_of c - 48)" using Cons.prems by simp
  moreover from this Cons have "n * 10 + int (code_of c - 48) \<le> stoi_digits (n * 10 + int (code_of c - 48)) s" by simp
  ultimately show ?case by simp
qed simp

lemma tag_digits_run:
  assumes "\<forall>c\<in>set s. is_digit c" and "0 \<le> n" and "stoi_digits n s \<le> max_tag"
  shows "tag_digits n (s @ CHR ''='' # r) = Fix_Ok (stoi_digits n s, r)"
  using assms
proof (induction s arbitrary: n)
  case Nil
  have "\<not> is_digit CHR ''=''" by (simp add: is_digit_def code_of_def)
  then show ?case by simp
next
  case (Cons c s)
  have "n * 10 + int (code_of c - 48) \<le> stoi_digits (n * 10 + int (code_of c - 48)) s"
    using Cons.prems(2) by (intro stoi_digits_mono) simp
  then show ?case using Cons by (simp add: Let_def)
qed

lemma ft_tag_run:
  assumes "0 \<le> n" and "n \<le> max_tag"
  shows "ft_tag (show_int n @ CHR ''='' # r) = Fix_Ok (n, r)"
proof -
  obtain c cs where s: "show_nat (nat n) = c # cs" by (cases "show_nat (nat n)") simp_all
  have d: "is_digit c" "\<forall>c\<in>set cs. is_digit c" using show_nat_digits[of "nat n"] by (simp_all add: s)
  have "stoi_digits (int (code_of c - 48)) cs = n" using stoi_digits_show[of "nat n"] assms(1) d(1) by (simp add: s)
  then show ?thesis using tag_digits_run[OF d(2), of "int (code_of c - 48)" r] assms d(1)
    by (simp add: show_int_def s ft_tag_def)
qed

lemma ft_next_field:
  assumes "valid_field f"
  shows "ft_next \<lparr>ft_msg = m, ft_rest = fix_field f @ r\<rparr> = Fix_Ok (f, \<lparr>ft_msg = m, ft_rest = r\<rparr>)"
proof -
  have "takeWhile (\<lambda>c. c \<noteq> soh) (snd f @ soh # r) = snd f" "dropWhile (\<lambda>c. c \<noteq> soh) (snd f @ soh # r) = soh # r"
    using assms by (subst takeWhile_append2 dropWhile_append2; auto simp: valid_field_def)+
  then show ?thesis
    using assms ft_tag_run[of "fst f" "snd f @ soh # r"] by (simp add: ft_next_def fix_field_def valid_field_def ft_value_def)
qed

lemma fix_pairs_fields:
  assumes "\<forall>f\<in>set fs. valid_field f"
  shows "fix_pairs \<lparr>ft_msg = m, ft_rest = fix_fields fs\<rparr> = Fix_Ok fs"
  using assms
proof (induction fs)
  case Nil
  show ?case by (subst fix_pairs.simps) (simp add: ft_empty_def fix_fields_def)
next
  case (Cons f fs)
  have "fix_fields (f # fs) = fix_field f @ fix_fields fs" by (simp add: fix_fields_def)
  moreover have "fix_field f \<noteq> []" by (simp add: fix_field_def)
  ultimately show ?case using Cons ft_next_field[of f m "fix_fields fs"]
    by (subst fix_pairs.simps) (simp add: ft_empty_def)
qed

text \<open>The search compares whole tags, since a tag ends at its equals sign.\<close>

lemma show_int_digits: "0 \<le> i \<Longrightarrow> \<forall>c\<in>set (show_int i). is_digit c"
  using show_nat_digits[of "nat i"] by (simp add: show_int_def)

lemma not_in_tag: "0 \<le> i \<Longrightarrow> CHR ''='' \<notin> set (show_int i) \<and> soh \<notin> set (show_int i)"
  using show_int_digits[of i] by (auto simp: is_digit_def code_of_def soh_def)

lemma show_int_inj: "show_int i = show_int j \<Longrightarrow> i = j"
  by (metis stoi_show)

lemma tag_prefix:
  assumes "0 \<le> i" and "0 \<le> j"
  shows "take (length (show_int i @ ''='')) (show_int j @ ''='' @ r) = show_int i @ ''='' \<longleftrightarrow> i = j"
proof
  assume prefix: "take (length (show_int i @ ''='')) (show_int j @ ''='' @ r) = show_int i @ ''=''"
  have "takeWhile (\<lambda>c. c \<noteq> CHR ''='') (show_int k @ CHR ''='' # t) = show_int k" if "0 \<le> k" for k t
    using not_in_tag[OF that] by (subst takeWhile_append2) auto
  note tag = this
  have "show_int j @ ''='' @ r = show_int i @ ''='' @ drop (length (show_int i @ ''='')) (show_int j @ ''='' @ r)"
    using prefix by (metis append_assoc append_take_drop_id)
  then have "show_int i = show_int j" using tag[of i] tag[of j] assms by (metis append_Cons append_Nil)
  then show "i = j" by (rule show_int_inj)
qed simp

lemma find_sub_skip:
  assumes "soh \<notin> set v"
  shows "find_sub (soh # key) (v @ t) = map_option ((+) (length v)) (find_sub (soh # key) t)"
  using assms
proof (induction v)
  case (Cons c v)
  then show ?case by (auto simp: option.map_comp comp_def)
qed (simp add: option.map_id0[unfolded id_def] plus_nat.add_0 [abs_def])

text \<open>Where the search finds a tag, the value of the first field with the tag begins.\<close>

lemma find_sub_fields:
  assumes "\<forall>f\<in>set fs. valid_field f" and "0 \<le> tag"
  shows "case find_sub (soh # show_int tag @ ''='') (soh # fix_fields fs) of
     None \<Rightarrow> map_of fs tag = None
   | Some i \<Rightarrow> \<exists>v. map_of fs tag = Some v
       \<and> takeWhile (\<lambda>c. c \<noteq> soh) (drop (i + length (soh # show_int tag @ ''='')) (soh # fix_fields fs)) = v"
  using assms
proof (induction fs)
  case Nil
  then show ?case by (simp add: fix_fields_def)
next
  case (Cons f fs)
  obtain t v where f: "f = (t, v)" by (cases f)
  have v: "0 \<le> t" "soh \<notin> set v" using Cons.prems by (simp_all add: f valid_field_def)
  have whole: "soh # fix_fields (f # fs) = soh # show_int t @ ''='' @ v @ soh # fix_fields fs" by (simp add: fix_fields_def fix_field_def f)
  show ?case
  proof (cases "t = tag")
    case True
    have "takeWhile (\<lambda>c. c \<noteq> soh) (v @ soh # fix_fields fs) = v" using v(2) by (subst takeWhile_append2) auto
    then show ?thesis unfolding whole by (simp add: True f)
  next
    case False
    define key where "key = soh # show_int tag @ ''=''"
    define w where "w = soh # show_int t @ ''='' @ v"
    define s where "s = soh # fix_fields fs"
    have "soh \<notin> set (show_int t @ ''='' @ v)" using v not_in_tag[OF v(1)] by (simp add: soh_def)
    from find_sub_skip[OF this, of "show_int tag @ ''=''" s]
    have skip: "find_sub key (w @ s) = map_option ((+) (length w)) (find_sub key s)"
      using False tag_prefix[OF Cons.prems(2) v(1), of "v @ s"] by (cases "find_sub key s") (simp_all add: key_def w_def)
    have "case find_sub key s of None \<Rightarrow> map_of fs tag = None
        | Some i \<Rightarrow> \<exists>v. map_of fs tag = Some v \<and> takeWhile (\<lambda>c. c \<noteq> soh) (drop (i + length key) s) = v"
      unfolding key_def s_def using Cons.prems by (intro Cons.IH) simp_all
    moreover have "soh # fix_fields (f # fs) = w @ s" by (simp add: whole w_def s_def)
    ultimately show ?thesis using False unfolding key_def[symmetric]
      by (cases "find_sub key s") (auto simp: f skip)
  qed
qed

lemma first_field:
  assumes "0 \<le> t"
  shows "length (show_nat tag @ ''='') = length (show_int t) + 1 \<and> take (length (show_int t) + 1) (show_int t @ ''='' @ r) = show_nat tag @ ''=''
    \<longleftrightarrow> t = int tag"
proof -
  have key: "show_nat tag = show_int (int tag)" by (simp add: show_int_def)
  show ?thesis using tag_prefix[of "int tag" t r] assms show_int_inj[of t "int tag"] by (auto simp: key)
qed

text \<open>The lookup by tag is the lookup in the list of the fields.\<close>

lemma find_tag_fields:
  assumes "\<forall>f\<in>set fs. valid_field f" and "tag < 10 ^ 9"
  shows "find_tag (fix_fields fs) tag = Fix_Ok (case map_of fs (int tag) of None \<Rightarrow> ([], False) | Some v \<Rightarrow> (v, True))"
proof (cases fs)
  case Nil
  then show ?thesis by (simp add: find_tag_def fix_fields_def)
next
  case (Cons f rest)
  obtain t v where f: "f = (t, v)" by (cases f)
  have t: "0 \<le> t" "soh \<notin> set v" using assms(1) by (simp_all add: Cons f valid_field_def)
  have msg: "fix_fields fs = show_int t @ ''='' @ v @ soh # fix_fields rest" by (simp add: Cons fix_fields_def fix_field_def f)
  have pos: "length (takeWhile (\<lambda>c. c \<noteq> CHR ''='') (fix_fields fs)) = length (show_int t)"
    using not_in_tag[OF t(1)] unfolding msg by (subst takeWhile_append2) auto
  have key: "show_nat tag = show_int (int tag)" by (simp add: show_int_def)
  have room: "length (show_nat tag) < tag_room" using show_nat_length[of 9 tag] assms(2) by (simp add: tag_room_def)
  have first: "length (show_nat tag @ ''='') = length (show_int t) + 1 \<and> take (length (show_int t) + 1) (fix_fields fs) = show_nat tag @ ''='' \<longleftrightarrow> t = int tag"
    unfolding msg using first_field[OF t(1)] by simp
  show ?thesis
  proof (cases "t = int tag")
    case True
    have "takeWhile (\<lambda>c. c \<noteq> soh) (v @ soh # fix_fields rest) = v" using t(2) by (subst takeWhile_append2) auto
    moreover have "map_of fs (int tag) = Some v" using True by (simp add: Cons f)
    moreover have "CHR ''='' \<in> set (fix_fields fs)" by (simp add: msg)
    moreover have "drop (length (show_int t) + 1) (fix_fields fs) = v @ soh # fix_fields rest" by (simp add: msg)
    moreover note first[unfolded eqTrueI[OF True], simplified]
    ultimately show ?thesis by (simp add: find_tag_def Let_def pos)
  next
    case False
    define s where "s = soh # fix_fields rest"
    define k where "k = soh # show_int (int tag) @ ''=''"
    have tail: "drop (length (show_int t) + 1) (fix_fields fs) = v @ s" by (simp add: msg s_def)
    have val: "drop (length (show_int t) + 1 + i + n) (fix_fields fs) = drop (i + n) (v @ s)" for i n
      unfolding tail[symmetric] by (simp add: ac_simps)
    have "find_tag (fix_fields fs) tag = (case find_sub k (v @ s) of None \<Rightarrow> Fix_Ok ([], False)
        | Some i \<Rightarrow> Fix_Ok (takeWhile (\<lambda>c. c \<noteq> soh) (drop (i + length k) (v @ s)), True))"
      using first False room
      by (simp only: find_tag_def pos tail val Let_def) (simp add: msg key k_def split: option.split)
    moreover have "find_sub k (v @ s) = map_option ((+) (length v)) (find_sub k s)" unfolding k_def by (rule find_sub_skip[OF t(2)])
    moreover have "case find_sub k s of None \<Rightarrow> map_of rest (int tag) = None
        | Some i \<Rightarrow> \<exists>v. map_of rest (int tag) = Some v \<and> takeWhile (\<lambda>c. c \<noteq> soh) (drop (i + length k) s) = v"
      unfolding k_def s_def using assms(1) Cons by (intro find_sub_fields) simp_all
    moreover have "map_of fs (int tag) = map_of rest (int tag)" using False by (simp add: Cons f)
    ultimately show ?thesis by (cases "find_sub k s") (auto simp: add.assoc)
  qed
qed

text \<open>A tag of ten digits does not fit where it is not that of the first field.\<close>

lemma find_tag_overrun:
  assumes "\<forall>f\<in>set fs. valid_field f" and "fs \<noteq> []" and "fst (hd fs) \<noteq> int tag" and "10 ^ 9 \<le> tag"
  shows "find_tag (fix_fields fs) tag = Fix_Undefined"
proof -
  obtain t v rest where fs: "fs = (t, v) # rest" using assms(2) by (cases fs) auto
  have t: "0 \<le> t" and ne: "t \<noteq> int tag" using assms(1,3) by (simp_all add: fs valid_field_def)
  have msg: "fix_fields fs = show_int t @ ''='' @ v @ soh # fix_fields rest" by (simp add: fs fix_fields_def fix_field_def)
  have pos: "length (takeWhile (\<lambda>c. c \<noteq> CHR ''='') (fix_fields fs)) = length (show_int t)"
    using not_in_tag[OF t] unfolding msg by (subst takeWhile_append2) auto
  have key: "show_nat tag = show_int (int tag)" by (simp add: show_int_def)
  have long: "k + 1 \<le> length (show_nat n)" if "10 ^ k \<le> n" for k n
    using that
  proof (induction k arbitrary: n)
    case 0
    then show ?case by (cases "show_nat n") simp_all
  next
    case (Suc k)
    then have "10 ^ k \<le> n div 10" by (simp add: less_eq_div_iff_mult_less_eq)
    moreover from this have "\<not> n < 10" using one_le_power[of "10::nat" k] by (cases "n < 10") simp_all
    ultimately show ?case using Suc.IH[of "n div 10"] by (subst show_nat.simps) simp
  qed
  then have "tag_room \<le> length (show_nat tag)" using assms(4) long[of 9 tag] by (simp add: tag_room_def)
  moreover have "\<not> (length (show_nat tag @ ''='') = length (show_int t) + 1 \<and> take (length (show_int t) + 1) (fix_fields fs) = show_nat tag @ ''='')"
    unfolding msg using first_field[OF t] ne by simp
  ultimately show ?thesis by (simp add: find_tag_def Let_def pos) (simp add: msg)
qed

end
