(* ===== verification/Fix_Props.thy ===== *)
theory Fix_Props
  imports Fix_Parser Fix_Tokeniser
begin

text \<open>
  What the FIX components promise together: the stream, the parser and the tokeniser agree on the format,
  and the network may cut the messages anywhere.
\<close>

section \<open>Examples\<close>

definition ex_fix_version :: fix_version where
  "ex_fix_version = \<lparr>fv_major = 4, fv_minor = 3\<rparr>"

definition ex_fix_fields :: "(int \<times> string) list" where
  "ex_fix_fields = [(35, ''D''), (108, [])]"

lemma ex_fix_valid: "valid_version ex_fix_version" "\<forall>f\<in>set ex_fix_fields. valid_field f" "length (fix_fields ex_fix_fields) < 10 ^ 4"
proof -
  have "length (show_int 35) \<le> 2" "length (show_int 108) \<le> 3"
    using show_nat_length[of 2 35] show_nat_length[of 3 108] by (simp_all add: show_int_def)
  then show "length (fix_fields ex_fix_fields) < 10 ^ 4" by (simp add: ex_fix_fields_def fix_fields_def fix_field_def)
qed (simp_all add: ex_fix_version_def ex_fix_fields_def valid_version_def valid_field_def soh_def max_tag_def)

section \<open>Properties\<close>

text \<open>
  C23. Messages that \<open>FixStream\<close> has written, with fields of any number whose values are free of the separator and
  whose bodies have at most four digits of length, are read back: whatever the pieces in which they
  arrive, \<open>BasicFixParser\<close> finds each message once and in order with its version, nothing is left over,
  and \<open>FixTokeniser\<close> gives the fields of each body.
\<close>

theorem fix_round_trip:
  assumes "\<forall>(ver, fs)\<in>set ms. valid_version ver \<and> (\<forall>f\<in>set fs. valid_field f) \<and> length (fix_fields fs) < 10 ^ 4"
    and "concat pieces = buf_data (fx_buf (fold write_message ms (make_fix_stream buf_new)))"
  shows "\<exists>bodies. feed fix_clear [] pieces = (bodies, fix_clear, Waiting [])
    \<and> map (\<lambda>(ver, body). (ver, fix_pairs (make_fix_tokeniser body))) bodies = map (\<lambda>(ver, fs). (ver, Fix_Ok fs)) ms"
proof (intro exI conjI)
  let ?bodies = "map (\<lambda>(ver, fs). (ver, fix_fields fs)) ms"
  have "buf_ok (fx_buf (make_fix_stream buf_new))" "buf_data (fx_buf (make_fix_stream buf_new)) = []"
    by (simp_all add: make_fix_stream_def buf_new_ok)
  then have "concat pieces = concat (map (\<lambda>(ver, fs). fix_message ver (fix_fields fs)) ms)"
    using assms write_messages by fastforce
  also have "\<dots> = concat (map (\<lambda>(ver, body). fix_message ver body) ?bodies)"
    by (simp add: comp_def case_prod_unfold)
  finally have run: "concat pieces = concat (map (\<lambda>(ver, body). fix_message ver body) ?bodies)" .
  have "fix_parse (concat pieces) fix_clear = (?bodies, fix_clear, Fix_Used (length (concat pieces)))"
    unfolding run using assms(1) by (intro parse_written) auto
  then show "feed fix_clear [] pieces = (?bodies, fix_clear, Waiting [])"
    unfolding feed_pieces[of pieces] by simp
  show "map (\<lambda>(ver, body). (ver, fix_pairs (make_fix_tokeniser body))) ?bodies = map (\<lambda>(ver, fs). (ver, Fix_Ok fs)) ms"
    using assms(1) fix_pairs_fields by (auto simp: make_fix_tokeniser_def)
qed

theorem fix_round_trip_witness:
  "\<exists>bodies. feed fix_clear [] [buf_data (fx_buf (fold write_message [(ex_fix_version, ex_fix_fields), (ex_fix_version, [])] (make_fix_stream buf_new)))]
      = (bodies, fix_clear, Waiting [])
    \<and> map (\<lambda>(ver, body). (ver, fix_pairs (make_fix_tokeniser body))) bodies = [(ex_fix_version, Fix_Ok ex_fix_fields), (ex_fix_version, Fix_Ok [])]"
  using fix_round_trip[of "[(ex_fix_version, ex_fix_fields), (ex_fix_version, [])]"
      "[buf_data (fx_buf (fold write_message [(ex_fix_version, ex_fix_fields), (ex_fix_version, [])] (make_fix_stream buf_new)))]"]
    ex_fix_valid by (simp add: fix_fields_def)

text \<open>
  C24. It makes no difference to \<open>BasicFixParser\<close> where the network cuts its input, valid or not: the messages, the state
  of the parser, the bytes that are left, and whether and how it fails are those for the whole text at
  once.
\<close>

theorem fix_pieces: "feed fix_clear [] pieces = feed fix_clear [] [concat pieces]"
  by (rule feed_pieces)

text \<open>
  \<open>find_tag\<close> on a body of valid fields is the lookup of the tag among the fields, in which the first one with
  the tag counts, for every tag of at most nine digits: no value and no longer tag is taken for it.
\<close>

lemma find_tag_lookup:
  assumes "\<forall>f\<in>set fs. valid_field f" and "tag < 10 ^ 9"
  shows "find_tag (fix_fields fs) tag = Fix_Ok (case map_of fs (int tag) of None \<Rightarrow> ([], False) | Some v \<Rightarrow> (v, True))"
  using assms by (rule find_tag_fields)

lemma find_tag_lookup_witness:
  "find_tag (fix_fields ex_fix_fields) 108 = Fix_Ok ([], True) \<and> find_tag (fix_fields ex_fix_fields) 8 = Fix_Ok ([], False)"
  using find_tag_lookup[OF ex_fix_valid(2), of 108] find_tag_lookup[OF ex_fix_valid(2), of 8]
  by (simp add: ex_fix_fields_def)

section \<open>What is not checked\<close>

text \<open>The checksum of a message is not compared: any seven bytes pass.\<close>

lemma check_sum_ignored:
  assumes "valid_version ver" and "length body < 10 ^ 4" and "length cs = 7"
    and m: "m = begin_string ver @ ''9='' @ zero_padded 4 (length body) @ [soh] @ body @ cs"
  shows "fix_parse m fix_clear = ([(ver, body)], fix_clear, Fix_Used (length m))"
proof -
  have "fix_parse [] fix_clear = ([], fix_clear, Fix_Used 0)" by (simp add: fix_parse_def parse_body_len_def fix_clear_def)
  then show ?thesis using parse_any_check_sum[OF assms, of "[]"] by simp
qed

text \<open>A length near 2^64 passes the check of the size of the buffer.\<close>

lemma huge_body_length:
  "fix_parse (''8=FIX.4.3'' @ [soh] @ ''9=18446744073709551600'' @ [soh]) fix_clear
    = ([], \<lparr>fp_offset = 33, fp_body_len = - 16\<rparr>, Fix_Out_Of_Range)"
  by (simp add: fresh_parse parse_body_len_def is_digit_def code_of_def soh_def fix_total_len_def fix_wraps_def)

end
