(* ===== verification/Rest_Query.thy ===== *)
theory Rest_Query
  imports Strings Basic_Types
begin

unbundle bit_operations_syntax

text \<open>
  What a URL selects: \<open>EntitySet\<close> (\<open>web/EntitySet.hpp\<close>, \<open>web/EntitySet.cpp\<close>), the kinds of object that a path names,
  and \<open>Page\<close> (\<open>web/Page.hpp\<close>, \<open>web/Page.cpp\<close>), the part of a list that a query asks for.
\<close>

section \<open>Entity sets\<close>

type_synonym entity_set = int

abbreviation EAsset :: entity_set where "EAsset \<equiv> 1"
abbreviation EInstr :: entity_set where "EInstr \<equiv> 2"
abbreviation EMarket :: entity_set where "EMarket \<equiv> 4"
abbreviation EOrder :: entity_set where "EOrder \<equiv> 8"
abbreviation EExec :: entity_set where "EExec \<equiv> 16"
abbreviation ETrade :: entity_set where "ETrade \<equiv> 32"
abbreviation EPosn :: entity_set where "EPosn \<equiv> 64"

definition rec_mask :: entity_set where
  "rec_mask = EAsset OR EInstr"

definition accnt_mask :: entity_set where
  "accnt_mask = EMarket OR EOrder OR EExec OR ETrade OR EPosn"

text \<open>\<open>bit\<close>: the kind with the name, in the singular or with one \<open>s\<close> behind it.\<close>

definition strip_plural :: "string \<Rightarrow> string" where
  "strip_plural sv = (if sv \<noteq> [] \<and> last sv = CHR ''s'' then butlast sv else sv)"

definition entity_bit :: "string \<Rightarrow> entity_set option" where
  "entity_bit sv =
     (let sv = strip_plural sv
      in if sv = ''asset'' then Some EAsset
         else if sv = ''instr'' then Some EInstr
         else if sv = ''market'' then Some EMarket
         else if sv = ''order'' then Some EOrder
         else if sv = ''exec'' then Some EExec
         else if sv = ''trade'' then Some ETrade
         else if sv = ''posn'' then Some EPosn
         else None)"

text \<open>\<open>EntitySet::parse\<close>. \<open>None\<close> is the exception for a name that is unknown.\<close>

fun parse_bits :: "entity_set \<Rightarrow> string list \<Rightarrow> entity_set option" where
  "parse_bits bs [] = Some bs"
| "parse_bits bs (tok # toks) = (case entity_bit tok of Some i \<Rightarrow> parse_bits (bs OR i) toks | None \<Rightarrow> None)"

definition entity_parse :: "string \<Rightarrow> entity_set option" where
  "entity_parse sv = parse_bits 0 (tokens (tok_reset sv '',''))"

definition es_top :: "entity_set \<Rightarrow> int" where
  "es_top bs = bs AND - bs"

definition es_many :: "entity_set \<Rightarrow> bool" where
  "es_many bs \<longleftrightarrow> bs AND (bs - 1) \<noteq> 0"

definition es_has :: "entity_set \<Rightarrow> entity_set \<Rightarrow> bool" where
  "es_has i bs \<longleftrightarrow> bs AND i \<noteq> 0"

definition only_rec :: "entity_set \<Rightarrow> bool" where
  "only_rec bs \<longleftrightarrow> bs AND NOT rec_mask = 0"

definition only_accnt :: "entity_set \<Rightarrow> bool" where
  "only_accnt bs \<longleftrightarrow> bs AND NOT accnt_mask = 0"

definition es_pop :: "entity_set \<Rightarrow> int \<times> entity_set" where
  "es_pop bs = (let i = es_top bs in (i, bs AND NOT i))"

section \<open>Pages\<close>

record page =
  pg_offset :: "64 word"
  pg_limit :: "64 word option"

definition page_arg :: "string \<Rightarrow> page \<Rightarrow> page" where
  "page_arg tok pg =
     (let (key, val) = split_pair tok CHR ''=''
      in if key = ''offset'' then pg\<lparr>pg_offset := stou64 val\<rparr>
         else if key = ''limit'' then pg\<lparr>pg_limit := Some (stou64 val)\<rparr>
         else pg)"

definition parse_query :: "string \<Rightarrow> page" where
  "parse_query query = fold page_arg (tokens (tok_reset query ''&;'')) \<lparr>pg_offset = 0, pg_limit = None\<rparr>"

section \<open>Facts\<close>

text \<open>The bits of a set that was parsed: those of the names in it.\<close>

definition entity_bits :: "entity_set list" where
  "entity_bits = [EAsset, EInstr, EMarket, EOrder, EExec, ETrade, EPosn]"

lemma entity_bit_in: "entity_bit tok = Some i \<Longrightarrow> i \<in> set entity_bits"
  by (auto simp: entity_bit_def entity_bits_def Let_def split: if_splits)

lemma entity_bit_cases:
  assumes "entity_bit tok = Some i"
  obtains "i = EAsset" | "i = EInstr" | "i = EMarket" | "i = EOrder" | "i = EExec" | "i = ETrade" | "i = EPosn"
  using entity_bit_in[OF assms] by (auto simp: entity_bits_def)

end
