(* ===== verification/Rest_App.thy ===== *)
theory Rest_App
  imports App_Step Json_Text Rest_Query
begin

text \<open>
  \<open>RestApp\<close> (\<open>web/RestApp.hpp\<close>, \<open>web/RestApp.cpp\<close>): the requests of the REST interface on the engine. An operation
  gives the text that it writes to the stream. Looking up a session makes it if there is none, also in
  the queries, whose C++ signature is \<open>const\<close>.
\<close>

section \<open>Lookups\<close>

text \<open>The identifier of a market from the symbol of its instrument and its settlement date.\<close>

definition market_id_of :: "symbol \<Rightarrow> iso_date \<Rightarrow> app \<Rightarrow> id64 app_result" where
  "market_id_of ins settl_date st =
     obind (app_instr ins st) (\<lambda>i st. Done (to_market_id_iso (i_id i) settl_date) st)"

definition sess_orders_json :: "app \<Rightarrow> sess \<Rightarrow> string" where
  "sess_orders_json st s = json_array (map (\<lambda>p. order_json (a_orders st p)) (s_orders s))"

text \<open>The executions of a page: \<open>first\<close> and \<open>last\<close> are iterators into the session's buffer.\<close>

definition page_of :: "page \<Rightarrow> 'a list \<Rightarrow> 'a list" where
  "page_of pg execs =
     (let size = length execs
      in if unat (pg_offset pg) < size
         then let first = drop (unat (pg_offset pg)) execs
              in (case pg_limit pg of
                    Some limit \<Rightarrow> if unat limit < size - unat (pg_offset pg) then take (unat limit) first else first
                  | None \<Rightarrow> first)
         else [])"

definition sess_execs_json :: "app \<Rightarrow> sess \<Rightarrow> page \<Rightarrow> string" where
  "sess_execs_json st s pg = json_array (map (\<lambda>e. exec_json (a_execs st e)) (page_of pg (s_execs s)))"

definition sess_trades_json :: "app \<Rightarrow> sess \<Rightarrow> string" where
  "sess_trades_json st s = json_array (map (\<lambda>e. exec_json (a_execs st e)) (s_trades s))"

definition sess_posns_json :: "app \<Rightarrow> sess \<Rightarrow> string" where
  "sess_posns_json st s = json_array (map (\<lambda>q. posn_json (a_posns st q)) (s_posns s))"

section \<open>Queries\<close>

definition rest_get_assets :: "app \<Rightarrow> string" where
  "rest_get_assets st = json_array (map asset_json (a_assets st))"

definition rest_get_asset :: "symbol \<Rightarrow> app \<Rightarrow> string app_result" where
  "rest_get_asset symb st = (case set_find as_symbol symb (a_assets st) of
     Some a \<Rightarrow> Done (asset_json a) st | None \<Rightarrow> Throw NotFound st)"

definition rest_get_instrs :: "app \<Rightarrow> string" where
  "rest_get_instrs st = json_array (map instr_json (a_instrs st))"

definition rest_get_instr :: "symbol \<Rightarrow> app \<Rightarrow> string app_result" where
  "rest_get_instr symb st = (case set_find i_symbol symb (a_instrs st) of
     Some i \<Rightarrow> Done (instr_json i) st | None \<Rightarrow> Throw NotFound st)"

definition rest_get_markets :: "app \<Rightarrow> string" where
  "rest_get_markets st = json_array (map market_json (a_markets st))"

definition rest_get_markets_of :: "symbol \<Rightarrow> app \<Rightarrow> string" where
  "rest_get_markets_of ins st = json_array (map market_json (filter (\<lambda>m. m_instr m = ins) (a_markets st)))"

definition rest_get_market :: "symbol \<Rightarrow> iso_date \<Rightarrow> app \<Rightarrow> string app_result" where
  "rest_get_market ins settl_date st =
     obind (market_id_of ins settl_date st) (\<lambda>mid st. obind (app_market mid st) (\<lambda>m st. Done (market_json m) st))"

text \<open>The members of an object, each with a comma in front unless it is the first.\<close>

definition add_member :: "bool \<Rightarrow> string \<Rightarrow> string \<Rightarrow> nat \<times> string \<Rightarrow> nat \<times> string" where
  "add_member wanted key value = (\<lambda>(i, out).
     if wanted then (i + 1, out @ (if i > 0 then '','' else []) @ ''\"'' @ key @ ''\":'' @ value) else (i, out))"

definition rest_get_ref_data :: "entity_set \<Rightarrow> app \<Rightarrow> string" where
  "rest_get_ref_data es st =
     (let z = (0, ''{'');
          z = add_member (es_has EAsset es) ''assets'' (rest_get_assets st) z;
          z = add_member (es_has EInstr es) ''instrs'' (rest_get_instrs st) z;
          z = add_member (es_has EMarket es) ''markets'' (rest_get_markets st) z
      in snd z @ ''}'')"

definition rest_get_sess :: "symbol \<Rightarrow> entity_set \<Rightarrow> page \<Rightarrow> app \<Rightarrow> string app_result" where
  "rest_get_sess accnt es pg st =
     (let (s, st) = app_sess accnt st;
          z = (0, ''{'');
          z = add_member (es_has EMarket es) ''markets'' (rest_get_markets st) z;
          z = add_member (es_has EOrder es) ''orders'' (sess_orders_json st s) z;
          z = add_member (es_has EExec es) ''execs'' (sess_execs_json st s pg) z;
          z = add_member (es_has ETrade es) ''trades'' (sess_trades_json st s) z;
          z = add_member (es_has EPosn es) ''posns'' (sess_posns_json st s) z
      in Done (snd z @ ''}'') st)"

definition rest_get_orders :: "symbol \<Rightarrow> app \<Rightarrow> string app_result" where
  "rest_get_orders accnt st = (let (s, st) = app_sess accnt st in Done (sess_orders_json st s) st)"

definition rest_get_orders_of :: "symbol \<Rightarrow> symbol \<Rightarrow> app \<Rightarrow> string app_result" where
  "rest_get_orders_of accnt ins st =
     (let (s, st) = app_sess accnt st
      in Done (json_array (map (\<lambda>p. order_json (a_orders st p))
           (filter (\<lambda>p. r_instr (a_orders st p) = ins) (s_orders s)))) st)"

definition rest_get_orders_at :: "symbol \<Rightarrow> symbol \<Rightarrow> iso_date \<Rightarrow> app \<Rightarrow> string app_result" where
  "rest_get_orders_at accnt ins settl_date st =
     (let (s, st) = app_sess accnt st
      in obind (market_id_of ins settl_date st) (\<lambda>mid st.
           Done (json_array (map (\<lambda>p. order_json (a_orders st p))
             (filter (\<lambda>p. r_market_id (a_orders st p) = mid) (s_orders s)))) st))"

definition rest_get_order :: "symbol \<Rightarrow> symbol \<Rightarrow> iso_date \<Rightarrow> id64 \<Rightarrow> app \<Rightarrow> string app_result" where
  "rest_get_order accnt ins settl_date oid st =
     (let (s, st) = app_sess accnt st
      in obind (market_id_of ins settl_date st) (\<lambda>mid st.
           case sess_order (a_orders st) mid oid s of
             Some p \<Rightarrow> Done (order_json (a_orders st p)) st | None \<Rightarrow> Throw OrderNotFound st))"

definition rest_get_execs :: "symbol \<Rightarrow> page \<Rightarrow> app \<Rightarrow> string app_result" where
  "rest_get_execs accnt pg st = (let (s, st) = app_sess accnt st in Done (sess_execs_json st s pg) st)"

definition rest_get_trades :: "symbol \<Rightarrow> app \<Rightarrow> string app_result" where
  "rest_get_trades accnt st = (let (s, st) = app_sess accnt st in Done (sess_trades_json st s) st)"

definition rest_get_trades_of :: "symbol \<Rightarrow> symbol \<Rightarrow> app \<Rightarrow> string app_result" where
  "rest_get_trades_of accnt ins st =
     (let (s, st) = app_sess accnt st
      in Done (json_array (map (\<lambda>e. exec_json (a_execs st e))
           (filter (\<lambda>e. r_instr (a_execs st e) = ins) (s_trades s)))) st)"

definition rest_get_trades_at :: "symbol \<Rightarrow> symbol \<Rightarrow> iso_date \<Rightarrow> app \<Rightarrow> string app_result" where
  "rest_get_trades_at accnt ins settl_date st =
     (let (s, st) = app_sess accnt st
      in obind (market_id_of ins settl_date st) (\<lambda>mid st.
           Done (json_array (map (\<lambda>e. exec_json (a_execs st e))
             (filter (\<lambda>e. r_market_id (a_execs st e) = mid) (s_trades s)))) st))"

definition rest_get_trade :: "symbol \<Rightarrow> symbol \<Rightarrow> iso_date \<Rightarrow> id64 \<Rightarrow> app \<Rightarrow> string app_result" where
  "rest_get_trade accnt ins settl_date tid st =
     (let (s, st) = app_sess accnt st
      in obind (market_id_of ins settl_date st) (\<lambda>mid st.
           case sess_trade (a_execs st) mid tid s of
             Some e \<Rightarrow> Done (exec_json (a_execs st e)) st | None \<Rightarrow> Throw NotFound st))"

definition rest_get_posns :: "symbol \<Rightarrow> app \<Rightarrow> string app_result" where
  "rest_get_posns accnt st = (let (s, st) = app_sess accnt st in Done (sess_posns_json st s) st)"

definition rest_get_posns_of :: "symbol \<Rightarrow> symbol \<Rightarrow> app \<Rightarrow> string app_result" where
  "rest_get_posns_of accnt ins st =
     (let (s, st) = app_sess accnt st
      in Done (json_array (map (\<lambda>q. posn_json (a_posns st q))
           (filter (\<lambda>q. p_instr (a_posns st q) = ins) (s_posns s)))) st)"

definition rest_get_posn :: "symbol \<Rightarrow> symbol \<Rightarrow> iso_date \<Rightarrow> app \<Rightarrow> string app_result" where
  "rest_get_posn accnt ins settl_date st =
     (let (s, st) = app_sess accnt st
      in obind (market_id_of ins settl_date st) (\<lambda>mid st.
           case set_find (posn_key (a_posns st)) mid (s_posns s) of
             Some q \<Rightarrow> Done (posn_json (a_posns st q)) st | None \<Rightarrow> Throw NotFound st))"

section \<open>Commands\<close>

text \<open>A call with a response, which is written when the call returns.\<close>

definition write_resp :: "(app \<times> response \<Rightarrow> unit resp_result) \<Rightarrow> app \<Rightarrow> string app_result" where
  "write_resp f st = (case f (st, no_resp) of
     Done _ (st, resp) \<Rightarrow> Done (response_json st resp) st
   | Throw e (st, _) \<Rightarrow> Throw e st
   | Undef \<Rightarrow> Undef)"

definition rest_post_market ::
    "(int \<Rightarrow> jday) \<Rightarrow> symbol \<Rightarrow> iso_date \<Rightarrow> mkt_state \<Rightarrow> nanos \<Rightarrow> app \<Rightarrow> string app_result" where
  "rest_post_market local_jd ins settl_date state now st =
     obind (app_instr ins st) (\<lambda>i st.
       obind (app_create_market local_jd i (maybe_iso_to_jd settl_date) state now st) (\<lambda>mid st.
         obind (app_market mid st) (\<lambda>m st. Done (market_json m) st)))"

definition rest_put_market :: "symbol \<Rightarrow> iso_date \<Rightarrow> mkt_state \<Rightarrow> nanos \<Rightarrow> app \<Rightarrow> string app_result" where
  "rest_put_market ins settl_date state now st =
     obind (market_id_of ins settl_date st) (\<lambda>mid st.
       obind (app_market mid st) (\<lambda>m st.
         obind (app_update_market (m_id m) state st) (\<lambda>_ st.
           obind (app_market mid st) (\<lambda>m st. Done (market_json m) st))))"

definition rest_post_order ::
    "(int \<Rightarrow> jday) \<Rightarrow> symbol \<Rightarrow> symbol \<Rightarrow> iso_date \<Rightarrow> string \<Rightarrow> side \<Rightarrow> lots \<Rightarrow> ticks \<Rightarrow> lots \<Rightarrow> nanos \<Rightarrow> app
      \<Rightarrow> string app_result" where
  "rest_post_order local_jd accnt ins settl_date ref sd lots ticks min_lots now st =
     (let (s, st) = app_sess accnt st
      in obind (market_id_of ins settl_date st) (\<lambda>mid st.
           obind (app_market mid st) (\<lambda>m st.
             write_resp (app_create_order local_jd (s_accnt s) (m_id m) ref sd lots ticks min_lots now) st)))"

definition rest_put_order ::
    "symbol \<Rightarrow> symbol \<Rightarrow> iso_date \<Rightarrow> id64 list \<Rightarrow> lots \<Rightarrow> nanos \<Rightarrow> app \<Rightarrow> string app_result" where
  "rest_put_order accnt ins settl_date ids lots now st =
     (let (s, st) = app_sess accnt st
      in obind (market_id_of ins settl_date st) (\<lambda>mid st.
           obind (app_market mid st) (\<lambda>m st.
             if lots > 0
             then if length ids = 1
                  then write_resp (revise_order_id (s_accnt s) (m_id m) (ids ! 0) lots now) st
                  else write_resp (revise_order_ids (s_accnt s) (m_id m) ids lots now) st
             else if length ids = 1
                  then write_resp (cancel_order_id (s_accnt s) (m_id m) (ids ! 0) now) st
                  else write_resp (cancel_order_ids (s_accnt s) (m_id m) ids now) st)))"

definition rest_post_trade ::
    "symbol \<Rightarrow> symbol \<Rightarrow> iso_date \<Rightarrow> string \<Rightarrow> side \<Rightarrow> lots \<Rightarrow> ticks \<Rightarrow> liq_ind \<Rightarrow> symbol \<Rightarrow> nanos \<Rightarrow> app
      \<Rightarrow> string app_result" where
  "rest_post_trade accnt ins settl_date ref sd lots ticks li cpty now st =
     (let (s, st) = app_sess accnt st
      in obind (market_id_of ins settl_date st) (\<lambda>mid st.
           obind (app_market mid st) (\<lambda>m st.
             obind (app_create_trade (s_accnt s) (m_id m) ref sd lots ticks li cpty now st) (\<lambda>(trade, opp) st.
               Done (''['' @ exec_json (a_execs st trade)
                 @ (case opp of Some e \<Rightarrow> '','' @ exec_json (a_execs st e) | None \<Rightarrow> [])
                 @ '']'') st))))"

definition rest_delete_trade :: "symbol \<Rightarrow> symbol \<Rightarrow> iso_date \<Rightarrow> id64 list \<Rightarrow> nanos \<Rightarrow> app \<Rightarrow> unit app_result" where
  "rest_delete_trade accnt ins settl_date ids now st =
     (let (s, st) = app_sess accnt st
      in obind (market_id_of ins settl_date st) (\<lambda>mid st. archive_trade_ids (s_accnt s) mid ids now st))"

end
