(* ===== verification/Rest_Body.thy ===== *)
theory Rest_Body
  imports Rest_Tables Basic_Types Date_Time
begin

unbundle bit_operations_syntax

text \<open>
  \<open>RestBody\<close> (\<open>web/RestBody.hpp\<close>, \<open>web/RestBody.cpp\<close>): the parser of the JSON object in the body of a
  request. A body arrives in pieces; \<open>parse\<close> takes the next piece and says whether the object is
  complete. A character is its signed code.

  The union of a number and a pointer to a string is a datatype with a case for each, and one for
  its state before the first write. Reading the member that is not there has no result.
\<close>

section \<open>The state\<close>

datatype text_field = FSymbol | FAccnt | FInstr | FRef | FCpty

datatype scratch = Unset | Num int "64 word" | Str text_field

record rest_body =
  b_cs :: nat
  b_scratch :: scratch
  b_fields :: "32 word"
  b_symbol :: "int list"
  b_accnt :: "int list"
  b_instr :: "int list"
  b_settl_date :: iso_date
  b_ref :: "int list"
  b_state :: mkt_state
  b_side :: side
  b_lots :: lots
  b_ticks :: ticks
  b_min_lots :: lots
  b_liq_ind :: liq_ind
  b_cpty :: "int list"

text \<open>The bits of \<open>fields\<close>.\<close>

abbreviation BSymbol :: "32 word" where "BSymbol \<equiv> 1"
abbreviation BAccnt :: "32 word" where "BAccnt \<equiv> 2"
abbreviation BInstr :: "32 word" where "BInstr \<equiv> 4"
abbreviation BSettlDate :: "32 word" where "BSettlDate \<equiv> 8"
abbreviation BRef :: "32 word" where "BRef \<equiv> 16"
abbreviation BState :: "32 word" where "BState \<equiv> 32"
abbreviation BSide :: "32 word" where "BSide \<equiv> 64"
abbreviation BLots :: "32 word" where "BLots \<equiv> 128"
abbreviation BTicks :: "32 word" where "BTicks \<equiv> 256"
abbreviation BMinLots :: "32 word" where "BMinLots \<equiv> 512"
abbreviation BLiqInd :: "32 word" where "BLiqInd \<equiv> 1024"
abbreviation BCpty :: "32 word" where "BCpty \<equiv> 2048"

definition set_bit_of :: "32 word \<Rightarrow> rest_body \<Rightarrow> rest_body" where
  "set_bit_of f b = b\<lparr>b_fields := b_fields b OR f\<rparr>"

definition clear_bit_of :: "32 word \<Rightarrow> rest_body \<Rightarrow> rest_body" where
  "clear_bit_of f b = b\<lparr>b_fields := b_fields b AND NOT f\<rparr>"

definition body_valid :: "32 word \<Rightarrow> 32 word \<Rightarrow> rest_body \<Rightarrow> bool" where
  "body_valid required optional b \<longleftrightarrow>
     b_fields b AND required = required \<and> b_fields b AND NOT (required OR optional) = 0"

definition body_reset :: "bool \<Rightarrow> rest_body \<Rightarrow> rest_body" where
  "body_reset clear b =
     (let b = b\<lparr>b_cs := json_start\<rparr>
      in if \<not> clear then b
         else b\<lparr>b_fields := 0, b_symbol := [], b_accnt := [], b_instr := [], b_settl_date := 0,
                b_ref := [], b_state := 0, b_side := NoSide, b_lots := 0, b_ticks := 0, b_min_lots := 0,
                b_liq_ind := NoLiq, b_cpty := []\<rparr>)"

text \<open>The string that the union points to.\<close>

definition text_max :: "text_field \<Rightarrow> nat" where
  "text_max f = (if f = FRef then 64 else 16)"

fun text_of :: "text_field \<Rightarrow> rest_body \<Rightarrow> int list" where
  "text_of FSymbol b = b_symbol b"
| "text_of FAccnt b = b_accnt b"
| "text_of FInstr b = b_instr b"
| "text_of FRef b = b_ref b"
| "text_of FCpty b = b_cpty b"

fun set_text :: "text_field \<Rightarrow> int list \<Rightarrow> rest_body \<Rightarrow> rest_body" where
  "set_text FSymbol s b = b\<lparr>b_symbol := s\<rparr>"
| "set_text FAccnt s b = b\<lparr>b_accnt := s\<rparr>"
| "set_text FInstr s b = b\<lparr>b_instr := s\<rparr>"
| "set_text FRef s b = b\<lparr>b_ref := s\<rparr>"
| "set_text FCpty s b = b\<lparr>b_cpty := s\<rparr>"

text \<open>\<open>num\<close>: a product in 64 bits, read as signed.\<close>

definition body_num :: "rest_body \<Rightarrow> int option" where
  "body_num b = (case b_scratch b of Num sign digits \<Rightarrow> Some (sint (word_of_int sign * digits)) | _ \<Rightarrow> None)"

section \<open>Actions\<close>

text \<open>An action leaves a body, a message for an error, and whether it jumps out of the loop.\<close>

type_synonym acted = "((rest_body \<times> string) \<times> bool) option"

definition act_value :: "nat \<Rightarrow> int \<Rightarrow> rest_body \<times> string \<Rightarrow> acted" where
  "act_value a c = (\<lambda>(b, msg).
     if a = 0 then Some ((b\<lparr>b_scratch := Num 1 0\<rparr>, msg), False)
     else if a = 1 then
       (case b_scratch b of Num _ d \<Rightarrow> Some ((b\<lparr>b_scratch := Num (-1) d\<rparr>, msg), False) | _ \<Rightarrow> None)
     else if a = 2 then
       (case b_scratch b of
          Num s d \<Rightarrow> Some ((b\<lparr>b_scratch := Num s (d * 10 + word_of_int (c - 48))\<rparr>, msg), False) | _ \<Rightarrow> None)
     else if a = 3 then
       (case b_scratch b of Str f \<Rightarrow> Some ((set_text f [] b, msg), False) | _ \<Rightarrow> None)
     else
       (case b_scratch b of
          Str f \<Rightarrow> if length (text_of f b) < text_max f
                   then Some ((set_text f (text_of f b @ [c]) b, msg), False)
                   else Some ((b\<lparr>b_cs := json_error\<rparr>, ''max length exceeded''), True)
        | _ \<Rightarrow> None))"

definition act_ident :: "nat \<Rightarrow> rest_body \<times> string \<Rightarrow> acted" where
  "act_ident a = (\<lambda>(b, msg).
     if a = 5 then Some (((clear_bit_of BSymbol b)\<lparr>b_symbol := []\<rparr>, msg), False)
     else if a = 6 then Some ((b\<lparr>b_scratch := Str FSymbol\<rparr>, msg), False)
     else if a = 7 then Some ((set_bit_of BSymbol b, msg), False)
     else if a = 8 then Some (((clear_bit_of BAccnt b)\<lparr>b_accnt := []\<rparr>, msg), False)
     else if a = 9 then Some ((b\<lparr>b_scratch := Str FAccnt\<rparr>, msg), False)
     else if a = 10 then Some ((set_bit_of BAccnt b, msg), False)
     else if a = 11 then Some (((clear_bit_of BInstr b)\<lparr>b_instr := []\<rparr>, msg), False)
     else if a = 12 then Some ((b\<lparr>b_scratch := Str FInstr\<rparr>, msg), False)
     else if a = 13 then Some ((set_bit_of BInstr b, msg), False)
     else if a = 14 then Some (((clear_bit_of BSettlDate b)\<lparr>b_settl_date := 0\<rparr>, msg), False)
     else if a = 15 then
       map_option (\<lambda>n. (((set_bit_of BSettlDate b)\<lparr>b_settl_date := int32 n\<rparr>, msg), False)) (body_num b)
     else if a = 16 then Some (((clear_bit_of BRef b)\<lparr>b_ref := []\<rparr>, msg), False)
     else if a = 17 then Some ((b\<lparr>b_scratch := Str FRef\<rparr>, msg), False)
     else Some ((set_bit_of BRef b, msg), False))"

definition act_order :: "nat \<Rightarrow> rest_body \<times> string \<Rightarrow> acted" where
  "act_order a = (\<lambda>(b, msg).
     if a = 19 then Some (((clear_bit_of BState b)\<lparr>b_state := 0\<rparr>, msg), False)
     else if a = 20 then
       (case b_scratch b of
          Num sign _ \<Rightarrow>
            if sign \<ge> 0
            then map_option (\<lambda>n. (((set_bit_of BState b)\<lparr>b_state := nat (take_bit 32 n)\<rparr>, msg), False)) (body_num b)
            else Some ((b\<lparr>b_cs := json_error\<rparr>, ''negative state field''), False)
        | _ \<Rightarrow> None)
     else if a = 21 then Some (((clear_bit_of BTicks b)\<lparr>b_ticks := 0\<rparr>, msg), False)
     else if a = 22 then map_option (\<lambda>n. (((set_bit_of BTicks b)\<lparr>b_ticks := n\<rparr>, msg), False)) (body_num b)
     else if a = 23 then Some (((set_bit_of BSide b)\<lparr>b_side := Buy\<rparr>, msg), False)
     else if a = 24 then Some (((set_bit_of BSide b)\<lparr>b_side := Sell\<rparr>, msg), False)
     else if a = 25 then Some (((clear_bit_of BLots b)\<lparr>b_lots := 0\<rparr>, msg), False)
     else if a = 26 then map_option (\<lambda>n. (((set_bit_of BLots b)\<lparr>b_lots := n\<rparr>, msg), False)) (body_num b)
     else if a = 27 then Some (((clear_bit_of BMinLots b)\<lparr>b_min_lots := 0\<rparr>, msg), False)
     else if a = 28 then map_option (\<lambda>n. (((set_bit_of BMinLots b)\<lparr>b_min_lots := n\<rparr>, msg), False)) (body_num b)
     else if a = 29 then Some (((clear_bit_of BLiqInd b)\<lparr>b_liq_ind := NoLiq\<rparr>, msg), False)
     else if a = 30 then Some (((set_bit_of BLiqInd b)\<lparr>b_liq_ind := Maker\<rparr>, msg), False)
     else if a = 31 then Some (((set_bit_of BLiqInd b)\<lparr>b_liq_ind := Taker\<rparr>, msg), False)
     else if a = 32 then Some (((clear_bit_of BCpty b)\<lparr>b_cpty := []\<rparr>, msg), False)
     else if a = 33 then Some ((b\<lparr>b_scratch := Str FCpty\<rparr>, msg), False)
     else Some ((set_bit_of BCpty b, msg), False))"

definition do_action :: "nat \<Rightarrow> int \<Rightarrow> rest_body \<times> string \<Rightarrow> acted" where
  "do_action a c z = (if a \<le> 4 then act_value a c z else if a \<le> 18 then act_ident a z
     else if a \<le> 34 then act_order a z else Some (z, False))"

fun run_actions :: "nat list \<Rightarrow> int \<Rightarrow> rest_body \<times> string \<Rightarrow> acted" where
  "run_actions [] c z = Some (z, False)"
| "run_actions (a # as) c z = (case do_action a c z of
     None \<Rightarrow> None | Some (z, out) \<Rightarrow> if out then Some (z, True) else run_actions as c z)"

section \<open>Transitions\<close>

text \<open>The binary searches for a key and for a range, in offsets from the state's first key.\<close>

function search_key :: "int \<Rightarrow> nat \<Rightarrow> int \<Rightarrow> int \<Rightarrow> int option" where
  "search_key c keys lower upper =
     (if upper < lower then None
      else let mid = lower + (upper - lower) div 2
           in if c < json_trans_keys ! nat (int keys + mid) then search_key c keys lower (mid - 1)
              else if c > json_trans_keys ! nat (int keys + mid) then search_key c keys (mid + 1) upper
              else Some mid)"
  by pat_completeness auto

termination
  by (relation "measure (\<lambda>(_, _, lower, upper). nat (upper - lower + 1))") auto

function search_range :: "int \<Rightarrow> nat \<Rightarrow> int \<Rightarrow> int \<Rightarrow> int option" where
  "search_range c keys lower upper =
     (if upper < lower then None
      else let mid = lower + (upper - lower) div 4 * 2
           in if c < json_trans_keys ! nat (int keys + mid) then search_range c keys lower (mid - 2)
              else if c > json_trans_keys ! nat (int keys + mid + 1) then search_range c keys (mid + 2) upper
              else Some mid)"
  by pat_completeness auto

termination
  by (relation "measure (\<lambda>(_, _, lower, upper). nat (upper - lower + 1))") auto

declare search_key.simps [simp del] search_range.simps [simp del]

text \<open>The transition of a state for a character.\<close>

definition transition :: "nat \<Rightarrow> int \<Rightarrow> nat" where
  "transition cs c =
     (let keys = json_key_offsets ! cs; base = json_index_offsets ! cs; klen = json_single_lengths ! cs
      in case search_key c keys 0 (int klen - 1) of
           Some i \<Rightarrow> base + nat i
         | None \<Rightarrow>
             (let keys = keys + klen; base = base + klen; klen = json_range_lengths ! cs
              in (case search_range c keys 0 (2 * int klen - 2) of
                    Some i \<Rightarrow> base + nat (i div 2)
                  | None \<Rightarrow> base + klen)))"

definition actions_at :: "nat \<Rightarrow> nat list" where
  "actions_at off = (if off = 0 then [] else take (json_actions ! off) (drop (off + 1) json_actions))"

text \<open>The loop over the characters of a piece.\<close>

fun parse_loop :: "int list \<Rightarrow> rest_body \<times> string \<Rightarrow> (rest_body \<times> string) option" where
  "parse_loop [] z = Some z"
| "parse_loop (c # cs) (b, msg) =
     (if b_cs b = json_error then Some (b, msg)
      else let t = transition (b_cs b) c
           in case run_actions (actions_at (json_trans_actions ! t)) c (b\<lparr>b_cs := json_trans_targs ! t\<rparr>, msg) of
                None \<Rightarrow> None
              | Some (z, out) \<Rightarrow> if out then Some z else parse_loop cs z)"

definition body_parse :: "int list \<Rightarrow> rest_body \<Rightarrow> (string, rest_body, bool) outcome" where
  "body_parse buf b = (case parse_loop buf (b, ''parse error'') of
     None \<Rightarrow> Undef
   | Some (b, msg) \<Rightarrow>
       if b_cs b = json_error then Throw msg b
       else if b_cs b < json_first_final then Done False b
       else Done True b)"

end
