(* ===== verification/Http_Request.thy ===== *)
theory Http_Request
  imports Rest_Body Strings
begin

text \<open>
  \<open>HttpRequest\<close> (\<open>web/Request.hpp\<close>) and \<open>BasicUrl\<close> (\<open>web/Url.hpp\<close>): a request as the HTTP parser's callbacks build
  it up. The URL and the header values are strings of bounded length: what does not fit is dropped.

  The vendored function \<open>http_parser_parse_url\<close> is the parameter \<open>parse_url\<close>: it gives the offset and the
  length of each part of a URL, or \<open>None\<close> for an invalid one.
\<close>

section \<open>Methods\<close>

datatype http_method =
    Delete | Get | Head | Post | Put | Connect | Options | Trace | Copy | Lock | MkCol | Move | PropFind
  | PropPatch | Search | Unlock | Bind | Rebind | Unbind | Acl | Report | MkActivity | Checkout | Merge
  | MSearch | Notify | Subscribe | Unsubscribe | Patch | Purge | MkCalendar | Link | Unlink | Source

section \<open>URLs\<close>

datatype url_part = UfSchema | UfHost | UfPort | UfPath | UfQuery | UfFragment | UfUserInfo

type_synonym url_fields = "url_part \<Rightarrow> nat \<times> nat"

definition url_init :: url_fields where
  "url_init = (\<lambda>_. (0, 0))"

definition url_substr :: "url_fields \<Rightarrow> url_part \<Rightarrow> string \<Rightarrow> string" where
  "url_substr uf part url = (let (off, len) = uf part in take len (drop off url))"

section \<open>Requests\<close>

text \<open>The header value that is being read: the pointer \<open>value_\<close>.\<close>

datatype header_slot = NoSlot | SlotAccnt | SlotPerm | SlotTime

record http_request =
  hr_method :: http_method
  hr_url :: string
  hr_field :: string
  hr_value :: header_slot
  hr_accnt :: string
  hr_perm :: string
  hr_time :: string
  hr_body :: rest_body
  hr_partial :: bool
  hr_fields :: url_fields

definition max_url :: nat where
  "max_url = 128"

definition max_field :: nat where
  "max_field = 16"

definition max_value :: nat where
  "max_value = 24"

definition request_clear :: "http_request \<Rightarrow> http_request" where
  "request_clear r = \<lparr>hr_method = Get, hr_url = [], hr_field = [], hr_value = NoSlot, hr_accnt = [], hr_perm = [],
     hr_time = [], hr_body = body_reset True (hr_body r), hr_partial = False, hr_fields = url_init\<rparr>"

text \<open>\<open>flush\<close>: the parts of the URL. An invalid URL is a \<open>ProtocolException\<close>.\<close>

definition request_flush :: "(string \<Rightarrow> url_fields option) \<Rightarrow> http_request \<Rightarrow> (err, http_request, unit) outcome" where
  "request_flush parse_url r = (case parse_url (hr_url r) of
     Some uf \<Rightarrow> Done () (r\<lparr>hr_fields := uf\<rparr>) | None \<Rightarrow> Throw ProtocolError r)"

definition request_path :: "http_request \<Rightarrow> string" where
  "request_path r = url_substr (hr_fields r) UfPath (hr_url r)"

definition request_query :: "http_request \<Rightarrow> string" where
  "request_query r = url_substr (hr_fields r) UfQuery (hr_url r)"

definition set_method :: "http_method \<Rightarrow> http_request \<Rightarrow> http_request" where
  "set_method m r = r\<lparr>hr_method := m\<rparr>"

definition append_url :: "string \<Rightarrow> http_request \<Rightarrow> http_request" where
  "append_url sv r = r\<lparr>hr_url := buf_append max_url (hr_url r) sv\<rparr>"

definition append_header_field :: "string \<Rightarrow> bool \<Rightarrow> http_request \<Rightarrow> http_request" where
  "append_header_field sv first r =
     (if first then r\<lparr>hr_field := buf_assign max_field sv\<rparr>
      else r\<lparr>hr_field := buf_append max_field (hr_field r) sv\<rparr>)"

definition slot_of :: "string \<Rightarrow> header_slot" where
  "slot_of field =
     (if field = ''Swirly-Accnt'' then SlotAccnt
      else if field = ''Swirly-Perm'' then SlotPerm
      else if field = ''Swirly-Time'' then SlotTime
      else NoSlot)"

definition append_header_value :: "string \<Rightarrow> bool \<Rightarrow> http_request \<Rightarrow> http_request" where
  "append_header_value sv first r =
     (let r = (if first then r\<lparr>hr_value := slot_of (hr_field r)\<rparr> else r)
      in case hr_value r of
           NoSlot \<Rightarrow> r
         | SlotAccnt \<Rightarrow> r\<lparr>hr_accnt := buf_append max_value (hr_accnt r) sv\<rparr>
         | SlotPerm \<Rightarrow> r\<lparr>hr_perm := buf_append max_value (hr_perm r) sv\<rparr>
         | SlotTime \<Rightarrow> r\<lparr>hr_time := buf_append max_value (hr_time r) sv\<rparr>)"

text \<open>A character of a body is a signed \<open>char\<close>.\<close>

definition signed_code :: "char \<Rightarrow> int" where
  "signed_code c = (if code_of c < 128 then int (code_of c) else int (code_of c) - 256)"

definition text_string :: "int list \<Rightarrow> string" where
  "text_string s = map (\<lambda>c. char_of (nat (c mod 256))) s"

text \<open>An error of the body's parser leaves \<open>partial\<close> as it was.\<close>

definition append_body :: "string \<Rightarrow> http_request \<Rightarrow> (string, http_request, unit) outcome" where
  "append_body sv r = (case body_parse (map signed_code sv) (hr_body r) of
     Done complete b \<Rightarrow> Done () (r\<lparr>hr_body := b, hr_partial := \<not> complete\<rparr>)
   | Throw msg b \<Rightarrow> Throw msg (r\<lparr>hr_body := b\<rparr>)
   | Undef \<Rightarrow> Undef)"

section \<open>Facts\<close>

text \<open>However a URL is cut into pieces, the request keeps its first 128 characters.\<close>

lemma append_url_pieces:
  "hr_url (fold append_url svs r) = take max_url (hr_url r @ concat svs)" if "length (hr_url r) \<le> max_url"
  using that
proof (induction svs arbitrary: r)
  case (Cons sv svs)
  have u: "hr_url (append_url sv r) = take max_url (hr_url r @ sv)" using Cons.prems by (simp add: append_url_def buf_append_def)
  then have "length (hr_url (append_url sv r)) \<le> max_url" by simp
  from Cons.IH[OF this] have "hr_url (fold append_url (sv # svs) r) = take max_url (take max_url (hr_url r @ sv) @ concat svs)"
    by (simp add: u)
  then show ?case by (simp add: min_def)
qed simp

lemma text_string_signed: "text_string (map signed_code s) = s"
proof (induction s)
  case (Cons c s)
  have "code_of c < 256" by (simp add: code_of_def)
  then have "nat (signed_code c mod 256) = code_of c"
    by (cases "code_of c < 128") (simp_all add: signed_code_def)
  then show ?case using Cons by (simp add: text_string_def code_of_def)
qed (simp add: text_string_def)

end
