(* ===== verification/Rest_Serv.thy ===== *)
theory Rest_Serv
  imports Rest_App Http_Request Http_Stream
begin

text \<open>
  \<open>RestServ\<close> (\<open>swirlyd/RestServ.hpp\<close>, \<open>swirlyd/RestServ.cpp\<close>): the path and the method of a request select an
  operation of \<open>RestApp\<close>. The account and its permissions come from the headers, the arguments from the
  path and the body. A handler gives the text that it writes; the two flags say whether the path and
  the method have been recognised.

  The vector \<open>ids_\<close>, which is cleared at the end of each use, is a local value. The text of an exception is
  the parameter \<open>what\<close>, the clock \<open>clock\<close>.
\<close>

section \<open>State\<close>

record rest_serv =
  rs_match_method :: bool
  rs_match_path :: bool
  rs_path :: tokeniser
  rs_app :: app

type_synonym 'a served = "(err, rest_serv, 'a) outcome"

definition path_matched :: "rest_serv \<Rightarrow> rest_serv" where
  "path_matched sv = sv\<lparr>rs_match_path := True\<rparr>"

definition method_matched :: "rest_serv \<Rightarrow> rest_serv" where
  "method_matched sv = sv\<lparr>rs_match_method := True\<rparr>"

definition path_empty :: "rest_serv \<Rightarrow> bool" where
  "path_empty sv \<longleftrightarrow> tok_empty (rs_path sv)"

definition path_top :: "rest_serv \<Rightarrow> string" where
  "path_top sv = tok_top (rs_path sv)"

definition path_pop :: "rest_serv \<Rightarrow> rest_serv" where
  "path_pop sv = sv\<lparr>rs_path := tok_pop (rs_path sv)\<rparr>"

text \<open>An operation of \<open>RestApp\<close>.\<close>

definition on_app :: "(app \<Rightarrow> 'a app_result) \<Rightarrow> rest_serv \<Rightarrow> 'a served" where
  "on_app f sv = (case f (rs_app sv) of
     Done x st \<Rightarrow> Done x (sv\<lparr>rs_app := st\<rparr>) | Throw e st \<Rightarrow> Throw e (sv\<lparr>rs_app := st\<rparr>) | Undef \<Rightarrow> Undef)"

definition query :: "(app \<Rightarrow> string) \<Rightarrow> rest_serv \<Rightarrow> string served" where
  "query f sv = Done (f (rs_app sv)) sv"

section \<open>Arguments\<close>

text \<open>\<open>ScopedIds\<close>: the identifiers in a token.\<close>

definition scoped_ids :: "string \<Rightarrow> id64 list" where
  "scoped_ids sv = map (\<lambda>tok. sint (stou64 tok)) (tokens (tok_reset sv '',''))"

definition iso_arg :: "string \<Rightarrow> iso_date" where
  "iso_arg tok = int32 (uint (stou64 tok))"

definition get_accnt :: "http_request \<Rightarrow> rest_serv \<Rightarrow> string served" where
  "get_accnt req sv = (if hr_accnt req = [] then Throw Unauthorized sv else Done (hr_accnt req) sv)"

definition get_perm :: "http_request \<Rightarrow> 32 word" where
  "get_perm req = stou32 (hr_perm req)"

definition get_time :: "nanos \<Rightarrow> http_request \<Rightarrow> nanos" where
  "get_time clock req = (if hr_time req = [] then clock else sint (stou64 (hr_time req)) * 1000000)"

definition get_admin :: "http_request \<Rightarrow> rest_serv \<Rightarrow> string served" where
  "get_admin req sv = obind (get_accnt req sv) (\<lambda>accnt sv.
     if get_perm req AND 0x1 = 0 then Throw Forbidden sv else Done accnt sv)"

definition get_trader :: "http_request \<Rightarrow> rest_serv \<Rightarrow> string served" where
  "get_trader req sv = obind (get_accnt req sv) (\<lambda>accnt sv.
     if get_perm req AND 0x2 = 0 then Throw Forbidden sv else Done accnt sv)"

text \<open>The body's members as the operations take them.\<close>

definition body_accnt :: "http_request \<Rightarrow> symbol" where
  "body_accnt req = make_symbol (text_string (b_accnt (hr_body req)))"

definition body_instr :: "http_request \<Rightarrow> symbol" where
  "body_instr req = make_symbol (text_string (b_instr (hr_body req)))"

definition body_cpty :: "http_request \<Rightarrow> symbol" where
  "body_cpty req = make_symbol (text_string (b_cpty (hr_body req)))"

definition body_ref :: "http_request \<Rightarrow> string" where
  "body_ref req = text_string (b_ref (hr_body req))"

definition check_body :: "32 word \<Rightarrow> 32 word \<Rightarrow> http_request \<Rightarrow> rest_serv \<Rightarrow> unit served" where
  "check_body required optional req sv =
     (if \<not> body_valid required optional (hr_body req) then Throw Invalid sv else Done () sv)"

section \<open>Reference data\<close>

definition asset_request :: "http_request \<Rightarrow> rest_serv \<Rightarrow> string served" where
  "asset_request req sv =
     (if path_empty sv then
        let sv = path_matched sv
        in if hr_method req = Get then query rest_get_assets (method_matched sv) else Done [] sv
      else
        let symb = make_symbol (path_top sv); sv = path_pop sv
        in if path_empty sv then
             let sv = path_matched sv
             in if hr_method req = Get then on_app (rest_get_asset symb) (method_matched sv) else Done [] sv
           else Done [] sv)"

definition instr_request :: "http_request \<Rightarrow> rest_serv \<Rightarrow> string served" where
  "instr_request req sv =
     (if path_empty sv then
        let sv = path_matched sv
        in if hr_method req = Get then query rest_get_instrs (method_matched sv) else Done [] sv
      else
        let symb = make_symbol (path_top sv); sv = path_pop sv
        in if path_empty sv then
             let sv = path_matched sv
             in if hr_method req = Get then on_app (rest_get_instr symb) (method_matched sv) else Done [] sv
           else Done [] sv)"

definition ref_data_request :: "http_request \<Rightarrow> rest_serv \<Rightarrow> string served" where
  "ref_data_request req sv =
     (if path_empty sv then
        let sv = path_matched sv
        in if hr_method req = Get
           then query (rest_get_ref_data (EAsset OR EInstr)) (method_matched sv) else Done [] sv
      else
        let tok = path_top sv; sv = path_pop sv
        in case entity_parse tok of
             None \<Rightarrow> Throw NotFound sv
           | Some es \<Rightarrow>
               if es_many es then
                 if path_empty sv then
                   let sv = path_matched sv
                   in if hr_method req = Get then query (rest_get_ref_data es) (method_matched sv) else Done [] sv
                 else Done [] sv
               else if es = EAsset then asset_request req sv
               else if es = EInstr then instr_request req sv
               else Done [] sv)"

section \<open>Markets\<close>

definition market_request :: "(int \<Rightarrow> jday) \<Rightarrow> http_request \<Rightarrow> nanos \<Rightarrow> rest_serv \<Rightarrow> string served" where
  "market_request local_jd req now sv =
     (if path_empty sv then
        let sv = path_matched sv
        in if hr_method req = Get then query rest_get_markets (method_matched sv)
           else if hr_method req = Post then
             obind (get_admin req (method_matched sv)) (\<lambda>_ sv.
               obind (check_body (BInstr OR BSettlDate) BState req sv) (\<lambda>_ sv.
                 on_app (rest_post_market local_jd (body_instr req) (b_settl_date (hr_body req))
                   (b_state (hr_body req)) now) sv))
           else Done [] sv
      else
        let ins = make_symbol (path_top sv); sv = path_pop sv
        in if path_empty sv then
             let sv = path_matched sv
             in if hr_method req = Get then query (rest_get_markets_of ins) (method_matched sv)
                else if hr_method req = Post then
                  obind (get_admin req (method_matched sv)) (\<lambda>_ sv.
                    obind (check_body BSettlDate BState req sv) (\<lambda>_ sv.
                      on_app (rest_post_market local_jd ins (b_settl_date (hr_body req))
                        (b_state (hr_body req)) now) sv))
                else Done [] sv
           else
             let settl_date = iso_arg (path_top sv); sv = path_pop sv
             in if path_empty sv then
                  let sv = path_matched sv
                  in if hr_method req = Get then on_app (rest_get_market ins settl_date) (method_matched sv)
                     else if hr_method req = Post then
                       obind (get_admin req (method_matched sv)) (\<lambda>_ sv.
                         obind (check_body 0 BState req sv) (\<lambda>_ sv.
                           on_app (rest_post_market local_jd ins settl_date (b_state (hr_body req)) now) sv))
                     else if hr_method req = Put then
                       obind (get_admin req (method_matched sv)) (\<lambda>_ sv.
                         obind (check_body BState 0 req sv) (\<lambda>_ sv.
                           on_app (rest_put_market ins settl_date (b_state (hr_body req)) now) sv))
                     else Done [] sv
                else Done [] sv)"

section \<open>Orders\<close>

text \<open>The body of \<open>POST\<close>, which the three paths share but for the fields they require.\<close>

definition post_order_body ::
    "(int \<Rightarrow> jday) \<Rightarrow> http_request \<Rightarrow> nanos \<Rightarrow> 32 word \<Rightarrow> symbol \<Rightarrow> iso_date \<Rightarrow> rest_serv \<Rightarrow> string served" where
  "post_order_body local_jd req now required ins settl_date sv =
     obind (get_trader req sv) (\<lambda>accnt sv.
       obind (check_body required (BRef OR BMinLots) req sv) (\<lambda>_ sv.
         on_app (rest_post_order local_jd (make_symbol accnt) ins settl_date (body_ref req) (b_side (hr_body req))
           (b_lots (hr_body req)) (b_ticks (hr_body req)) (b_min_lots (hr_body req)) now) sv))"

definition order_request :: "(int \<Rightarrow> jday) \<Rightarrow> http_request \<Rightarrow> nanos \<Rightarrow> rest_serv \<Rightarrow> string served" where
  "order_request local_jd req now sv =
     (if path_empty sv then
        let sv = path_matched sv
        in if hr_method req = Get then
             obind (get_trader req (method_matched sv)) (\<lambda>accnt. on_app (rest_get_orders (make_symbol accnt)))
           else if hr_method req = Post then
             post_order_body local_jd req now (BInstr OR BSettlDate OR BSide OR BLots OR BTicks)
               (body_instr req) (b_settl_date (hr_body req)) (method_matched sv)
           else Done [] sv
      else
        let ins = make_symbol (path_top sv); sv = path_pop sv
        in if path_empty sv then
             let sv = path_matched sv
             in if hr_method req = Get then
                  obind (get_trader req (method_matched sv)) (\<lambda>accnt. on_app (rest_get_orders_of (make_symbol accnt) ins))
                else if hr_method req = Post then
                  post_order_body local_jd req now (BSettlDate OR BSide OR BLots OR BTicks)
                    ins (b_settl_date (hr_body req)) (method_matched sv)
                else Done [] sv
           else
             let settl_date = iso_arg (path_top sv); sv = path_pop sv
             in if path_empty sv then
                  let sv = path_matched sv
                  in if hr_method req = Get then
                       obind (get_trader req (method_matched sv)) (\<lambda>accnt.
                         on_app (rest_get_orders_at (make_symbol accnt) ins settl_date))
                     else if hr_method req = Post then
                       post_order_body local_jd req now (BSide OR BLots OR BTicks) ins settl_date (method_matched sv)
                     else Done [] sv
                else
                  let ids = scoped_ids (path_top sv); sv = path_pop sv
                  in if path_empty sv then
                       let sv = path_matched sv
                       in if hr_method req = Get then
                            (if ids = [] then Undef
                             else obind (get_trader req (method_matched sv)) (\<lambda>accnt.
                               on_app (rest_get_order (make_symbol accnt) ins settl_date (ids ! 0))))
                          else if hr_method req = Put then
                            obind (get_trader req (method_matched sv)) (\<lambda>accnt sv.
                              if b_fields (hr_body req) \<noteq> BLots then Throw Invalid sv
                              else on_app (rest_put_order (make_symbol accnt) ins settl_date ids
                                     (b_lots (hr_body req)) now) sv)
                          else Done [] sv
                     else Done [] sv)"

section \<open>Executions, trades and positions\<close>

definition exec_request :: "http_request \<Rightarrow> rest_serv \<Rightarrow> string served" where
  "exec_request req sv =
     (if path_empty sv then
        let sv = path_matched sv
        in if hr_method req = Get then
             obind (get_trader req (method_matched sv)) (\<lambda>accnt.
               on_app (rest_get_execs (make_symbol accnt) (parse_query (request_query req))))
           else Done [] sv
      else Done [] sv)"

definition post_trade_body ::
    "http_request \<Rightarrow> nanos \<Rightarrow> 32 word \<Rightarrow> symbol \<Rightarrow> iso_date \<Rightarrow> rest_serv \<Rightarrow> string served" where
  "post_trade_body req now required ins settl_date sv =
     obind (get_admin req sv) (\<lambda>_ sv.
       obind (check_body required (BRef OR BTicks OR BLiqInd OR BCpty) req sv) (\<lambda>_ sv.
         on_app (rest_post_trade (body_accnt req) ins settl_date (body_ref req) (b_side (hr_body req))
           (b_lots (hr_body req)) (b_ticks (hr_body req)) (b_liq_ind (hr_body req)) (body_cpty req) now) sv))"

definition trade_request :: "http_request \<Rightarrow> nanos \<Rightarrow> rest_serv \<Rightarrow> string served" where
  "trade_request req now sv =
     (if path_empty sv then
        let sv = path_matched sv
        in if hr_method req = Get then
             obind (get_trader req (method_matched sv)) (\<lambda>accnt. on_app (rest_get_trades (make_symbol accnt)))
           else if hr_method req = Post then
             post_trade_body req now (BInstr OR BSettlDate OR BAccnt OR BSide OR BLots)
               (body_instr req) (b_settl_date (hr_body req)) (method_matched sv)
           else Done [] sv
      else
        let ins = make_symbol (path_top sv); sv = path_pop sv
        in if path_empty sv then
             let sv = path_matched sv
             in if hr_method req = Get then
                  obind (get_trader req (method_matched sv)) (\<lambda>accnt. on_app (rest_get_trades_of (make_symbol accnt) ins))
                else if hr_method req = Post then
                  post_trade_body req now (BSettlDate OR BAccnt OR BSide OR BLots)
                    ins (b_settl_date (hr_body req)) (method_matched sv)
                else Done [] sv
           else
             let settl_date = iso_arg (path_top sv); sv = path_pop sv
             in if path_empty sv then
                  let sv = path_matched sv
                  in if hr_method req = Get then
                       obind (get_trader req (method_matched sv)) (\<lambda>accnt.
                         on_app (rest_get_trades_at (make_symbol accnt) ins settl_date))
                     else if hr_method req = Post then
                       post_trade_body req now (BAccnt OR BSide OR BLots) ins settl_date (method_matched sv)
                     else Done [] sv
                else
                  let ids = scoped_ids (path_top sv); sv = path_pop sv
                  in if path_empty sv then
                       let sv = path_matched sv
                       in if hr_method req = Get then
                            (if ids = [] then Undef
                             else obind (get_trader req (method_matched sv)) (\<lambda>accnt.
                               on_app (rest_get_trade (make_symbol accnt) ins settl_date (ids ! 0))))
                          else if hr_method req = Delete then
                            obind (get_trader req (method_matched sv)) (\<lambda>accnt sv.
                              obind (on_app (rest_delete_trade (make_symbol accnt) ins settl_date ids now) sv) (\<lambda>_ sv.
                                Done [] sv))
                          else Done [] sv
                     else Done [] sv)"

definition posn_request :: "http_request \<Rightarrow> rest_serv \<Rightarrow> string served" where
  "posn_request req sv =
     (if path_empty sv then
        let sv = path_matched sv
        in if hr_method req = Get then
             obind (get_trader req (method_matched sv)) (\<lambda>accnt. on_app (rest_get_posns (make_symbol accnt)))
           else Done [] sv
      else
        let ins = make_symbol (path_top sv); sv = path_pop sv
        in if path_empty sv then
             let sv = path_matched sv
             in if hr_method req = Get then
                  obind (get_trader req (method_matched sv)) (\<lambda>accnt. on_app (rest_get_posns_of (make_symbol accnt) ins))
                else Done [] sv
           else
             let settl_date = iso_arg (path_top sv); sv = path_pop sv
             in if path_empty sv then
                  let sv = path_matched sv
                  in if hr_method req = Get then
                       obind (get_trader req (method_matched sv)) (\<lambda>accnt.
                         on_app (rest_get_posn (make_symbol accnt) ins settl_date))
                     else Done [] sv
                else Done [] sv)"

section \<open>Routing\<close>

definition sess_request :: "(int \<Rightarrow> jday) \<Rightarrow> http_request \<Rightarrow> nanos \<Rightarrow> rest_serv \<Rightarrow> string served" where
  "sess_request local_jd req now sv =
     (if path_empty sv then
        let sv = path_matched sv
        in if hr_method req = Get then
             obind (get_trader req (method_matched sv)) (\<lambda>accnt.
               on_app (rest_get_sess (make_symbol accnt) (EMarket OR EOrder OR EExec OR ETrade OR EPosn)
                 (parse_query (request_query req))))
           else Done [] sv
      else
        let tok = path_top sv; sv = path_pop sv
        in case entity_parse tok of
             None \<Rightarrow> Throw NotFound sv
           | Some es \<Rightarrow>
               if es_many es then
                 if path_empty sv then
                   let sv = path_matched sv
                   in if hr_method req = Get then
                        obind (get_trader req (method_matched sv)) (\<lambda>accnt.
                          on_app (rest_get_sess (make_symbol accnt) es (parse_query (request_query req))))
                      else Done [] sv
                 else Done [] sv
               else if es = EMarket then market_request local_jd req now sv
               else if es = EOrder then order_request local_jd req now sv
               else if es = EExec then exec_request req sv
               else if es = ETrade then trade_request req now sv
               else if es = EPosn then posn_request req sv
               else Done [] sv)"

definition rest_request :: "(int \<Rightarrow> jday) \<Rightarrow> http_request \<Rightarrow> nanos \<Rightarrow> rest_serv \<Rightarrow> string served" where
  "rest_request local_jd req now sv =
     (if path_empty sv then Done [] sv
      else
        let tok = path_top sv; sv = path_pop sv
        in if tok \<noteq> ''api'' then Done [] sv
           else
             let tok = path_top sv; sv = path_pop sv
             in if tok = ''refdata'' then ref_data_request req sv
                else if tok = ''sess'' then sess_request local_jd req now sv
                else if strip_plural tok = ''market'' then market_request local_jd req now sv
                else Done [] sv)"

text \<open>\<open>reset\<close>: whether the response may be cached. It reads the first character of the path unchecked.\<close>

definition serv_reset :: "http_request \<Rightarrow> rest_serv \<Rightarrow> (bool \<times> rest_serv) option" where
  "serv_reset req sv =
     (let sv = sv\<lparr>rs_match_method := False, rs_match_path := False\<rparr>; path = request_path req
      in if path = [] then None
         else
           let path = (if hd path = CHR ''/'' then tl path else path);
               sv = sv\<lparr>rs_path := tok_reset path ''/''\<rparr>
           in if hr_method req \<noteq> Get then Some (False, sv)
              else Some (path \<noteq> [] \<and> path_top sv = ''refdata'', sv))"

text \<open>The \<open>try\<close> block of \<open>handle_request\<close>.\<close>

definition serve :: "(int \<Rightarrow> jday) \<Rightarrow> http_request \<Rightarrow> nanos \<Rightarrow> rest_serv \<Rightarrow> string served" where
  "serve local_jd req now sv =
     (if hr_partial req then Throw BadRequest sv
      else obind (rest_request local_jd req now sv) (\<lambda>out sv.
        if \<not> rs_match_path sv then Throw NotFound sv
        else if \<not> rs_match_method sv then Throw MethodNotAllowed sv
        else Done out sv))"

definition handle_request ::
    "(int \<Rightarrow> jday) \<Rightarrow> (err \<Rightarrow> string) \<Rightarrow> nanos \<Rightarrow> http_request \<Rightarrow> rest_serv \<times> http_stream \<Rightarrow> (rest_serv \<times> http_stream) option" where
  "handle_request local_jd what clock req = (\<lambda>(sv, os).
     case serv_reset req sv of
       None \<Rightarrow> None
     | Some (cache, sv) \<Rightarrow>
         let now = get_time clock req;
             os = (if hr_method req \<noteq> Delete then http_reset 200 (http_reason 200) cache os
                   else http_reset 204 (http_reason 204) False os)
         in case serve local_jd req now sv of
              Done out sv \<Rightarrow> Some (sv, http_commit (http_xsputn out os))
            | Throw e sv \<Rightarrow>
                let status = http_status e; reason = http_reason status;
                    os = http_reset status reason False os;
                    os = http_xsputn (exception_json status reason (what e)) os
                in Some (sv, http_commit os)
            | Undef \<Rightarrow> None)"

end
