(* ===== verification/Http_Sess.thy ===== *)
theory Http_Sess
  imports Rest_Serv
begin

text \<open>
  \<open>HttpSess\<close> (\<open>swirlyd/HttpSess.hpp\<close>, \<open>swirlyd/HttpSess.cpp\<close>) and the callbacks of \<open>BasicHttpParser\<close>
  (\<open>web/Parser.hpp\<close>): a connection. The bytes that arrive are cut into events by the vendored HTTP parser; the events
  build up a request, which is handled when the message ends; the responses wait in the buffer until the
  socket takes them.

  The vendored parser is the parameter \<open>execute\<close>: it gives the events of some input, whether the input has been
  accepted, and its next state. A callback that fails stops it. The events carry what the callbacks read
  elsewhere: the method, and the clock. \<open>keep_alive\<close> is \<open>http_should_keep_alive\<close>. The bytes that the
  socket takes and gives are arguments, and \<open>None\<close> for a system call that throws.

  The vectors of events that \<open>epoll\<close> watches are the flag \<open>ss_out\<close>: writing is watched or not. A
  closed connection has been deleted.
\<close>

section \<open>State\<close>

datatype http_event =
    EvMessageBegin
  | EvUrl string
  | EvStatus string
  | EvHeaderField string
  | EvHeaderValue string
  | EvHeadersEnd http_method
  | EvBody string
  | EvMessageEnd nanos
  | EvChunkHeader nat
  | EvChunkEnd

datatype header_elem = NoElem | FieldElem | ValueElem

record 'p http_sess =
  ss_parser :: 'p
  ss_elem :: header_elem
  ss_deadline :: nanos
  ss_pending :: int
  ss_req :: http_request
  ss_os :: http_stream
  ss_out :: bool

datatype 'p conn = Open "'p http_sess" | Closed

definition idle_timeout :: nanos where
  "idle_timeout = 5000000000"

definition make_http_sess :: "'p \<Rightarrow> http_request \<Rightarrow> nanos \<Rightarrow> 'p http_sess" where
  "make_http_sess p req now = \<lparr>ss_parser = p, ss_elem = NoElem, ss_deadline = now + idle_timeout, ss_pending = 0,
     ss_req = request_clear req, ss_os = make_http_stream buf_new, ss_out = False\<rparr>"

abbreviation ss_buf :: "'p http_sess \<Rightarrow> buffer" where
  "ss_buf s \<equiv> hs_buf (ss_os s)"

section \<open>Callbacks\<close>

text \<open>A callback gives whether it succeeded, and has no result where the code has none.\<close>

definition on_request :: "(http_request \<Rightarrow> http_request) \<Rightarrow> 'p http_sess \<Rightarrow> 'p http_sess" where
  "on_request f s = s\<lparr>ss_req := f (ss_req s)\<rparr>"

definition on_url :: "string \<Rightarrow> 'p http_sess \<Rightarrow> bool \<times> 'p http_sess" where
  "on_url sv s = (True, on_request (append_url sv) s)"

definition on_header_field :: "string \<Rightarrow> 'p http_sess \<Rightarrow> bool \<times> 'p http_sess" where
  "on_header_field sv s =
     (let first = (ss_elem s \<noteq> FieldElem); s = s\<lparr>ss_elem := FieldElem\<rparr>
      in (True, on_request (append_header_field sv first) s))"

definition on_header_value :: "string \<Rightarrow> 'p http_sess \<Rightarrow> bool \<times> 'p http_sess" where
  "on_header_value sv s =
     (let first = (ss_elem s \<noteq> ValueElem); s = s\<lparr>ss_elem := ValueElem\<rparr>
      in (True, on_request (append_header_value sv first) s))"

definition on_body :: "string \<Rightarrow> 'p http_sess \<Rightarrow> (bool \<times> 'p http_sess) option" where
  "on_body sv s = (case append_body sv (ss_req s) of
     Done _ r \<Rightarrow> Some (True, s\<lparr>ss_req := r\<rparr>)
   | Throw _ r \<Rightarrow> Some (False, s\<lparr>ss_req := r\<rparr>)
   | Undef \<Rightarrow> None)"

definition on_message_end ::
    "(string \<Rightarrow> url_fields option) \<Rightarrow> (int \<Rightarrow> jday) \<Rightarrow> (err \<Rightarrow> string) \<Rightarrow> nanos \<Rightarrow> 'p http_sess \<times> rest_serv
      \<Rightarrow> (bool \<times> 'p http_sess \<times> rest_serv) option" where
  "on_message_end parse_url local_jd what clock = (\<lambda>(s, sv).
     let s = s\<lparr>ss_pending := ss_pending s - 1\<rparr>
     in case request_flush parse_url (ss_req s) of
          Done _ r \<Rightarrow>
            let was_empty = buf_empty (ss_buf s)
            in (case handle_request local_jd what clock r (sv, ss_os s) of
                  None \<Rightarrow> None
                | Some (sv, os) \<Rightarrow>
                    let s = s\<lparr>ss_os := os\<rparr>;
                        s = (if was_empty then s\<lparr>ss_out := True\<rparr> else s)
                    in Some (True, s\<lparr>ss_req := request_clear r\<rparr>, sv))
        | Throw _ r \<Rightarrow> Some (False, s\<lparr>ss_req := request_clear r\<rparr>, sv)
        | Undef \<Rightarrow> None)"

definition on_event ::
    "(string \<Rightarrow> url_fields option) \<Rightarrow> (int \<Rightarrow> jday) \<Rightarrow> (err \<Rightarrow> string) \<Rightarrow> http_event \<Rightarrow> 'p http_sess \<times> rest_serv
      \<Rightarrow> (bool \<times> 'p http_sess \<times> rest_serv) option" where
  "on_event parse_url local_jd what ev = (\<lambda>(s, sv).
     case ev of
       EvMessageBegin \<Rightarrow> Some (True, s\<lparr>ss_pending := ss_pending s + 1\<rparr>, sv)
     | EvUrl t \<Rightarrow> (case on_url t s of (ok, s) \<Rightarrow> Some (ok, s, sv))
     | EvStatus t \<Rightarrow> Some (False, s, sv)
     | EvHeaderField t \<Rightarrow> (case on_header_field t s of (ok, s) \<Rightarrow> Some (ok, s, sv))
     | EvHeaderValue t \<Rightarrow> (case on_header_value t s of (ok, s) \<Rightarrow> Some (ok, s, sv))
     | EvHeadersEnd m \<Rightarrow> Some (True, on_request (set_method m) s, sv)
     | EvBody t \<Rightarrow> (case on_body t s of None \<Rightarrow> None | Some (ok, s) \<Rightarrow> Some (ok, s, sv))
     | EvMessageEnd clock \<Rightarrow> on_message_end parse_url local_jd what clock (s, sv)
     | EvChunkHeader n \<Rightarrow> Some (True, s, sv)
     | EvChunkEnd \<Rightarrow> Some (True, s, sv))"

fun run_events ::
    "(string \<Rightarrow> url_fields option) \<Rightarrow> (int \<Rightarrow> jday) \<Rightarrow> (err \<Rightarrow> string) \<Rightarrow> http_event list \<Rightarrow> 'p http_sess \<times> rest_serv
      \<Rightarrow> (bool \<times> 'p http_sess \<times> rest_serv) option" where
  "run_events parse_url local_jd what [] z = Some (True, z)"
| "run_events parse_url local_jd what (ev # evs) z = (case on_event parse_url local_jd what ev z of
     None \<Rightarrow> None
   | Some (ok, z) \<Rightarrow> if ok then run_events parse_url local_jd what evs z else Some (False, z))"

text \<open>\<open>BasicHttpParser::parse\<close>: an error of the parser, or of a callback, is a \<open>ProtocolException\<close>.\<close>

definition sess_parse ::
    "('p \<Rightarrow> string \<Rightarrow> http_event list \<times> bool \<times> 'p) \<Rightarrow> (string \<Rightarrow> url_fields option) \<Rightarrow> (int \<Rightarrow> jday) \<Rightarrow> (err \<Rightarrow> string) \<Rightarrow> string
      \<Rightarrow> 'p http_sess \<times> rest_serv \<Rightarrow> (err, 'p http_sess \<times> rest_serv, unit) outcome" where
  "sess_parse execute parse_url local_jd what buf = (\<lambda>(s, sv).
     let (evs, accepted, p) = execute (ss_parser s) buf
     in case run_events parse_url local_jd what evs (s, sv) of
          None \<Rightarrow> Undef
        | Some (ok, s, sv) \<Rightarrow>
            let s = s\<lparr>ss_parser := p\<rparr>
            in if ok \<and> accepted then Done () (s, sv) else Throw ProtocolError (s, sv))"

section \<open>The connection\<close>

text \<open>The branch for writing: \<open>None\<close> where the system call throws.\<close>

definition on_writable :: "('p \<Rightarrow> bool) \<Rightarrow> nat option \<Rightarrow> 'p http_sess \<Rightarrow> 'p conn option" where
  "on_writable keep_alive written s = (case written of
     None \<Rightarrow> None
   | Some n \<Rightarrow>
       let s = s\<lparr>ss_os := (ss_os s)\<lparr>hs_buf := buf_consume n (ss_buf s)\<rparr>\<rparr>
       in if buf_empty (ss_buf s)
          then if keep_alive (ss_parser s) then Some (Open (s\<lparr>ss_out := False\<rparr>)) else Some Closed
          else Some (Open s))"

text \<open>The branch for reading, with the bytes that arrived.\<close>

definition on_readable ::
    "('p \<Rightarrow> string \<Rightarrow> http_event list \<times> bool \<times> 'p) \<Rightarrow> (string \<Rightarrow> url_fields option) \<Rightarrow> (int \<Rightarrow> jday) \<Rightarrow> (err \<Rightarrow> string)
      \<Rightarrow> string option \<Rightarrow> nanos \<Rightarrow> 'p http_sess \<times> rest_serv \<Rightarrow> ('p conn \<times> rest_serv) option" where
  "on_readable execute parse_url local_jd what received now = (\<lambda>(s, sv). case received of
     None \<Rightarrow> Some (Closed, sv)
   | Some buf \<Rightarrow>
       if buf = [] then Some (Closed, sv)
       else (case sess_parse execute parse_url local_jd what buf (s, sv) of
               Done _ (s, sv) \<Rightarrow> Some (Open (s\<lparr>ss_deadline := now + idle_timeout\<rparr>), sv)
             | Throw _ (s, sv) \<Rightarrow> Some (Closed, sv)
             | Undef \<Rightarrow> None))"

text \<open>
  \<open>on_io_event\<close>. Where the first branch closes the connection, the object is gone when the second
  reads from the socket and parses into it: there is no result.
\<close>

definition on_io_event ::
    "('p \<Rightarrow> bool) \<Rightarrow> ('p \<Rightarrow> string \<Rightarrow> http_event list \<times> bool \<times> 'p) \<Rightarrow> (string \<Rightarrow> url_fields option) \<Rightarrow> (int \<Rightarrow> jday) \<Rightarrow> (err \<Rightarrow> string)
      \<Rightarrow> bool \<Rightarrow> bool \<Rightarrow> nat option \<Rightarrow> string option \<Rightarrow> nanos \<Rightarrow> 'p http_sess \<times> rest_serv \<Rightarrow> ('p conn \<times> rest_serv) option" where
  "on_io_event keep_alive execute parse_url local_jd what event_out event_in written received now = (\<lambda>(s, sv).
     case (if event_out then on_writable keep_alive written s else Some (Open s)) of
       None \<Rightarrow> Some (Closed, sv)
     | Some Closed \<Rightarrow> if event_in then None else Some (Closed, sv)
     | Some (Open s) \<Rightarrow>
         if event_in then on_readable execute parse_url local_jd what received now (s, sv) else Some (Open s, sv))"

definition on_timer :: "'p http_sess \<Rightarrow> 'p conn" where
  "on_timer s = Closed"

end
