(* ===== verification/Rest_Route.thy ===== *)
theory Rest_Route
  imports Rest_Serv
begin

text \<open>
  The routing of requests as a table: which paths name a resource, and what each method does to it. The nested
  handlers of \<open>RestServ\<close> implement it (\<open>serve_routes\<close> of \<open>Rest_Refine\<close>), so that properties of requests
  are properties of the table and of the operations in it.
\<close>

section \<open>Operations\<close>

datatype rest_op =
    OpRefData entity_set | OpAssets | OpAsset symbol | OpInstrs | OpInstr symbol
  | OpMarkets | OpMarketsOf symbol | OpMarket symbol iso_date
  | OpSess symbol entity_set page
  | OpOrders symbol | OpOrdersOf symbol symbol | OpOrdersAt symbol symbol iso_date | OpOrder symbol symbol iso_date id64
  | OpExecs symbol page
  | OpTrades symbol | OpTradesOf symbol symbol | OpTradesAt symbol symbol iso_date | OpTrade symbol symbol iso_date id64
  | OpPosns symbol | OpPosnsOf symbol symbol | OpPosn symbol symbol iso_date
  | OpPostMarket symbol iso_date mkt_state
  | OpPutMarket symbol iso_date mkt_state
  | OpPostOrder symbol symbol iso_date string side lots ticks lots
  | OpPutOrder symbol symbol iso_date "id64 list" lots
  | OpPostTrade symbol symbol iso_date string side lots ticks liq_ind symbol
  | OpDeleteTrade symbol symbol iso_date "id64 list"

fun run_op :: "(int \<Rightarrow> jday) \<Rightarrow> nanos \<Rightarrow> rest_op \<Rightarrow> app \<Rightarrow> string app_result" where
  "run_op local_jd now (OpRefData es) st = Done (rest_get_ref_data es st) st"
| "run_op local_jd now OpAssets st = Done (rest_get_assets st) st"
| "run_op local_jd now (OpAsset symb) st = rest_get_asset symb st"
| "run_op local_jd now OpInstrs st = Done (rest_get_instrs st) st"
| "run_op local_jd now (OpInstr symb) st = rest_get_instr symb st"
| "run_op local_jd now OpMarkets st = Done (rest_get_markets st) st"
| "run_op local_jd now (OpMarketsOf ins) st = Done (rest_get_markets_of ins st) st"
| "run_op local_jd now (OpMarket ins d) st = rest_get_market ins d st"
| "run_op local_jd now (OpSess a es pg) st = rest_get_sess a es pg st"
| "run_op local_jd now (OpOrders a) st = rest_get_orders a st"
| "run_op local_jd now (OpOrdersOf a ins) st = rest_get_orders_of a ins st"
| "run_op local_jd now (OpOrdersAt a ins d) st = rest_get_orders_at a ins d st"
| "run_op local_jd now (OpOrder a ins d oid) st = rest_get_order a ins d oid st"
| "run_op local_jd now (OpExecs a pg) st = rest_get_execs a pg st"
| "run_op local_jd now (OpTrades a) st = rest_get_trades a st"
| "run_op local_jd now (OpTradesOf a ins) st = rest_get_trades_of a ins st"
| "run_op local_jd now (OpTradesAt a ins d) st = rest_get_trades_at a ins d st"
| "run_op local_jd now (OpTrade a ins d tid) st = rest_get_trade a ins d tid st"
| "run_op local_jd now (OpPosns a) st = rest_get_posns a st"
| "run_op local_jd now (OpPosnsOf a ins) st = rest_get_posns_of a ins st"
| "run_op local_jd now (OpPosn a ins d) st = rest_get_posn a ins d st"
| "run_op local_jd now (OpPostMarket ins d state) st = rest_post_market local_jd ins d state now st"
| "run_op local_jd now (OpPutMarket ins d state) st = rest_put_market ins d state now st"
| "run_op local_jd now (OpPostOrder a ins d ref sd lots ticks min_lots) st =
     rest_post_order local_jd a ins d ref sd lots ticks min_lots now st"
| "run_op local_jd now (OpPutOrder a ins d ids lots) st = rest_put_order a ins d ids lots now st"
| "run_op local_jd now (OpPostTrade a ins d ref sd lots ticks li cpty) st =
     rest_post_trade a ins d ref sd lots ticks li cpty now st"
| "run_op local_jd now (OpDeleteTrade a ins d ids) st =
     obind (rest_delete_trade a ins d ids now st) (\<lambda>_ st. Done [] st)"

section \<open>Resources\<close>

datatype resource =
    RRefData entity_set | RAssets | RAsset symbol | RInstrs | RInstr symbol
  | RMarkets | RMarketsOf symbol | RMarketAt symbol iso_date
  | RSess entity_set
  | ROrders | ROrdersOf symbol | ROrdersAt symbol iso_date | ROrderIds symbol iso_date "id64 list"
  | RExecs
  | RTrades | RTradesOf symbol | RTradesAt symbol iso_date | RTradeIds symbol iso_date "id64 list"
  | RPosns | RPosnsOf symbol | RPosnAt symbol iso_date

fun asset_path :: "string list \<Rightarrow> resource option" where
  "asset_path [] = Some RAssets"
| "asset_path [s] = Some (RAsset (make_symbol s))"
| "asset_path _ = None"

fun instr_path :: "string list \<Rightarrow> resource option" where
  "instr_path [] = Some RInstrs"
| "instr_path [s] = Some (RInstr (make_symbol s))"
| "instr_path _ = None"

fun market_path :: "string list \<Rightarrow> resource option" where
  "market_path [] = Some RMarkets"
| "market_path [i] = Some (RMarketsOf (make_symbol i))"
| "market_path [i, d] = Some (RMarketAt (make_symbol i) (iso_arg d))"
| "market_path _ = None"

fun order_path :: "string list \<Rightarrow> resource option" where
  "order_path [] = Some ROrders"
| "order_path [i] = Some (ROrdersOf (make_symbol i))"
| "order_path [i, d] = Some (ROrdersAt (make_symbol i) (iso_arg d))"
| "order_path [i, d, ids] = Some (ROrderIds (make_symbol i) (iso_arg d) (scoped_ids ids))"
| "order_path _ = None"

fun exec_path :: "string list \<Rightarrow> resource option" where
  "exec_path [] = Some RExecs"
| "exec_path _ = None"

fun trade_path :: "string list \<Rightarrow> resource option" where
  "trade_path [] = Some RTrades"
| "trade_path [i] = Some (RTradesOf (make_symbol i))"
| "trade_path [i, d] = Some (RTradesAt (make_symbol i) (iso_arg d))"
| "trade_path [i, d, ids] = Some (RTradeIds (make_symbol i) (iso_arg d) (scoped_ids ids))"
| "trade_path _ = None"

fun posn_path :: "string list \<Rightarrow> resource option" where
  "posn_path [] = Some RPosns"
| "posn_path [i] = Some (RPosnsOf (make_symbol i))"
| "posn_path [i, d] = Some (RPosnAt (make_symbol i) (iso_arg d))"
| "posn_path _ = None"

fun ref_data_path :: "string list \<Rightarrow> resource option" where
  "ref_data_path [] = Some (RRefData (EAsset OR EInstr))"
| "ref_data_path (e # ts) = (case entity_parse e of
     None \<Rightarrow> None
   | Some es \<Rightarrow> if es_many es then (if ts = [] then Some (RRefData es) else None)
       else if es = EAsset then asset_path ts else if es = EInstr then instr_path ts else None)"

fun sess_path :: "string list \<Rightarrow> resource option" where
  "sess_path [] = Some (RSess (EMarket OR EOrder OR EExec OR ETrade OR EPosn))"
| "sess_path (e # ts) = (case entity_parse e of
     None \<Rightarrow> None
   | Some es \<Rightarrow> if es_many es then (if ts = [] then Some (RSess es) else None)
       else if es = EMarket then market_path ts else if es = EOrder then order_path ts
       else if es = EExec then exec_path ts else if es = ETrade then trade_path ts
       else if es = EPosn then posn_path ts else None)"

fun resource_of :: "string list \<Rightarrow> resource option" where
  "resource_of (a # r # ts) =
     (if a \<noteq> ''api'' then None
      else if r = ''refdata'' then ref_data_path ts
      else if r = ''sess'' then sess_path ts
      else if strip_plural r = ''market'' then market_path ts
      else None)"
| "resource_of _ = None"

section \<open>Access\<close>

definition holder :: "32 word \<Rightarrow> http_request \<Rightarrow> err + symbol" where
  "holder perm req =
     (if hr_accnt req = [] then Inl Unauthorized
      else if get_perm req AND perm = 0 then Inl Forbidden
      else Inr (make_symbol (hr_accnt req)))"

definition sum_bind :: "'e + 'a \<Rightarrow> ('a \<Rightarrow> 'e + 'b) \<Rightarrow> 'e + 'b" where
  "sum_bind m f = (case m of Inl e \<Rightarrow> Inl e | Inr x \<Rightarrow> f x)"

text \<open>An operation on the trader's own account, and one of an administrator with a body.\<close>

definition own :: "http_request \<Rightarrow> (symbol \<Rightarrow> rest_op) \<Rightarrow> err + rest_op" where
  "own req f = sum_bind (holder 2 req) (\<lambda>a. Inr (f a))"

definition own_checked :: "http_request \<Rightarrow> 32 word \<Rightarrow> 32 word \<Rightarrow> (symbol \<Rightarrow> rest_op) \<Rightarrow> err + rest_op" where
  "own_checked req required optional f =
     sum_bind (holder 2 req) (\<lambda>a. if body_valid required optional (hr_body req) then Inr (f a) else Inl Invalid)"

definition admin_checked :: "http_request \<Rightarrow> 32 word \<Rightarrow> 32 word \<Rightarrow> rest_op \<Rightarrow> err + rest_op" where
  "admin_checked req required optional op =
     sum_bind (holder 1 req) (\<lambda>_. if body_valid required optional (hr_body req) then Inr op else Inl Invalid)"

definition post_order_op :: "http_request \<Rightarrow> symbol \<Rightarrow> iso_date \<Rightarrow> symbol \<Rightarrow> rest_op" where
  "post_order_op req ins d a = OpPostOrder a ins d (body_ref req) (b_side (hr_body req)) (b_lots (hr_body req))
     (b_ticks (hr_body req)) (b_min_lots (hr_body req))"

definition post_trade_op :: "http_request \<Rightarrow> symbol \<Rightarrow> iso_date \<Rightarrow> rest_op" where
  "post_trade_op req ins d = OpPostTrade (body_accnt req) ins d (body_ref req) (b_side (hr_body req)) (b_lots (hr_body req))
     (b_ticks (hr_body req)) (b_liq_ind (hr_body req)) (body_cpty req)"

section \<open>Methods\<close>

text \<open>
  What a method does to a resource: an error, an operation, or, for the first of no identifiers, nothing
  that is defined.
\<close>

definition only_get :: "http_request \<Rightarrow> (err + rest_op) \<Rightarrow> (err + rest_op) option" where
  "only_get req g = Some (if hr_method req = Get then g else Inl MethodNotAllowed)"

fun action_of :: "http_request \<Rightarrow> resource \<Rightarrow> (err + rest_op) option" where
  "action_of req (RRefData es) = only_get req (Inr (OpRefData es))"
| "action_of req RAssets = only_get req (Inr OpAssets)"
| "action_of req (RAsset s) = only_get req (Inr (OpAsset s))"
| "action_of req RInstrs = only_get req (Inr OpInstrs)"
| "action_of req (RInstr s) = only_get req (Inr (OpInstr s))"
| "action_of req (RSess es) = only_get req (own req (\<lambda>a. OpSess a es (parse_query (request_query req))))"
| "action_of req RExecs = only_get req (own req (\<lambda>a. OpExecs a (parse_query (request_query req))))"
| "action_of req RPosns = only_get req (own req OpPosns)"
| "action_of req (RPosnsOf i) = only_get req (own req (\<lambda>a. OpPosnsOf a i))"
| "action_of req (RPosnAt i d) = only_get req (own req (\<lambda>a. OpPosn a i d))"
| "action_of req RMarkets = Some
     (if hr_method req = Get then Inr OpMarkets
      else if hr_method req = Post then admin_checked req (BInstr OR BSettlDate) BState
        (OpPostMarket (body_instr req) (b_settl_date (hr_body req)) (b_state (hr_body req)))
      else Inl MethodNotAllowed)"
| "action_of req (RMarketsOf i) = Some
     (if hr_method req = Get then Inr (OpMarketsOf i)
      else if hr_method req = Post then admin_checked req BSettlDate BState
        (OpPostMarket i (b_settl_date (hr_body req)) (b_state (hr_body req)))
      else Inl MethodNotAllowed)"
| "action_of req (RMarketAt i d) = Some
     (if hr_method req = Get then Inr (OpMarket i d)
      else if hr_method req = Post then admin_checked req 0 BState (OpPostMarket i d (b_state (hr_body req)))
      else if hr_method req = Put then admin_checked req BState 0 (OpPutMarket i d (b_state (hr_body req)))
      else Inl MethodNotAllowed)"
| "action_of req ROrders = Some
     (if hr_method req = Get then own req OpOrders
      else if hr_method req = Post then own_checked req (BInstr OR BSettlDate OR BSide OR BLots OR BTicks) (BRef OR BMinLots)
        (post_order_op req (body_instr req) (b_settl_date (hr_body req)))
      else Inl MethodNotAllowed)"
| "action_of req (ROrdersOf i) = Some
     (if hr_method req = Get then own req (\<lambda>a. OpOrdersOf a i)
      else if hr_method req = Post then own_checked req (BSettlDate OR BSide OR BLots OR BTicks) (BRef OR BMinLots)
        (post_order_op req i (b_settl_date (hr_body req)))
      else Inl MethodNotAllowed)"
| "action_of req (ROrdersAt i d) = Some
     (if hr_method req = Get then own req (\<lambda>a. OpOrdersAt a i d)
      else if hr_method req = Post then own_checked req (BSide OR BLots OR BTicks) (BRef OR BMinLots) (post_order_op req i d)
      else Inl MethodNotAllowed)"
| "action_of req (ROrderIds i d ids) =
     (if hr_method req = Get then if ids = [] then None else Some (own req (\<lambda>a. OpOrder a i d (ids ! 0)))
      else if hr_method req = Put then Some (sum_bind (holder 2 req) (\<lambda>a.
        if b_fields (hr_body req) \<noteq> BLots then Inl Invalid else Inr (OpPutOrder a i d ids (b_lots (hr_body req)))))
      else Some (Inl MethodNotAllowed))"
| "action_of req RTrades = Some
     (if hr_method req = Get then own req OpTrades
      else if hr_method req = Post then admin_checked req (BInstr OR BSettlDate OR BAccnt OR BSide OR BLots)
        (BRef OR BTicks OR BLiqInd OR BCpty) (post_trade_op req (body_instr req) (b_settl_date (hr_body req)))
      else Inl MethodNotAllowed)"
| "action_of req (RTradesOf i) = Some
     (if hr_method req = Get then own req (\<lambda>a. OpTradesOf a i)
      else if hr_method req = Post then admin_checked req (BSettlDate OR BAccnt OR BSide OR BLots)
        (BRef OR BTicks OR BLiqInd OR BCpty) (post_trade_op req i (b_settl_date (hr_body req)))
      else Inl MethodNotAllowed)"
| "action_of req (RTradesAt i d) = Some
     (if hr_method req = Get then own req (\<lambda>a. OpTradesAt a i d)
      else if hr_method req = Post then admin_checked req (BAccnt OR BSide OR BLots)
        (BRef OR BTicks OR BLiqInd OR BCpty) (post_trade_op req i d)
      else Inl MethodNotAllowed)"
| "action_of req (RTradeIds i d ids) =
     (if hr_method req = Get then if ids = [] then None else Some (own req (\<lambda>a. OpTrade a i d (ids ! 0)))
      else if hr_method req = Delete then Some (own req (\<lambda>a. OpDeleteTrade a i d ids))
      else Some (Inl MethodNotAllowed))"

text \<open>A request by the table.\<close>

definition perform :: "(int \<Rightarrow> jday) \<Rightarrow> http_request \<Rightarrow> nanos \<Rightarrow> resource option \<Rightarrow> app \<Rightarrow> string app_result" where
  "perform local_jd req now res st = (case res of
     None \<Rightarrow> Throw NotFound st
   | Some r \<Rightarrow> (case action_of req r of
       None \<Rightarrow> Undef | Some (Inl e) \<Rightarrow> Throw e st | Some (Inr op) \<Rightarrow> run_op local_jd now op st))"

definition routed :: "(int \<Rightarrow> jday) \<Rightarrow> http_request \<Rightarrow> nanos \<Rightarrow> string list \<Rightarrow> app \<Rightarrow> string app_result" where
  "routed local_jd req now toks st =
     (if hr_partial req then Throw BadRequest st else perform local_jd req now (resource_of toks) st)"

end
