(* ===== verification/Rest_Refine.thy ===== *)
theory Rest_Refine
  imports Rest_Route
begin

text \<open>The handlers of \<open>RestServ\<close> implement the table of \<open>Rest_Route\<close>.\<close>

section \<open>Results on the engine\<close>

text \<open>A handler's result, with the engine as its only state.\<close>

definition forget :: "'a served \<Rightarrow> 'a app_result" where
  "forget r = (case r of Done x sv \<Rightarrow> Done x (rs_app sv) | Throw e sv \<Rightarrow> Throw e (rs_app sv) | Undef \<Rightarrow> Undef)"

text \<open>The checks of the flags behind the handlers.\<close>

definition conclude :: "string served \<Rightarrow> string served" where
  "conclude r = obind r (\<lambda>out sv.
     if \<not> rs_match_path sv then Throw NotFound sv
     else if \<not> rs_match_method sv then Throw MethodNotAllowed sv
     else Done out sv)"

lemma serve_conclude:
  "serve local_jd req now sv = (if hr_partial req then Throw BadRequest sv else conclude (rest_request local_jd req now sv))"
  by (simp add: serve_def conclude_def)

definition clean :: "rest_serv \<Rightarrow> bool" where
  "clean sv \<longleftrightarrow> \<not> rs_match_path sv \<and> \<not> rs_match_method sv"

definition toks :: "rest_serv \<Rightarrow> string list" where
  "toks sv = tokens (rs_path sv)"

lemma path_empty_toks: "path_empty sv \<longleftrightarrow> toks sv = []"
  by (simp add: path_empty_def toks_def tokens_empty_iff)

lemma path_toks: "toks sv = t # ts \<Longrightarrow> path_top sv = t" "toks sv = t # ts \<Longrightarrow> toks (path_pop sv) = ts"
  using tok_top_tokens[of "rs_path sv" t ts] by (simp_all add: toks_def path_top_def path_pop_def)

lemma path_toks_Nil: "toks sv = [] \<Longrightarrow> path_top sv = []" "toks sv = [] \<Longrightarrow> toks (path_pop sv) = []"
  using tok_empty_facts[of "rs_path sv"] by (simp_all add: toks_def path_top_def path_pop_def tokens_empty_iff)

lemma clean_pop [simp]: "clean (path_pop sv) = clean sv" "rs_app (path_pop sv) = rs_app sv"
  by (simp_all add: clean_def path_pop_def)

lemma toks_pop_cases: "toks (path_pop sv) = tl (toks sv)"
  using path_toks(2)[of sv] path_toks_Nil(2)[of sv] by (cases "toks sv") simp_all

section \<open>Leaves\<close>

text \<open>An operation that a permission guards, by the table.\<close>

lemma leaf_not_found: "clean sv \<Longrightarrow> forget (conclude (Done [] sv)) = Throw NotFound (rs_app sv)"
  by (simp add: forget_def conclude_def clean_def)

lemma leaf_throw: "forget (conclude (Throw e sv)) = Throw e (rs_app sv)"
  by (simp add: forget_def conclude_def)

lemma leaf_undef: "forget (conclude Undef) = Undef"
  by (simp add: forget_def conclude_def)

lemma leaf_not_allowed: "clean sv \<Longrightarrow> forget (conclude (Done [] (path_matched sv))) = Throw MethodNotAllowed (rs_app sv)"
  by (simp add: forget_def conclude_def clean_def path_matched_def)

lemma leaf_query: "forget (conclude (query f (method_matched (path_matched sv)))) = Done (f (rs_app sv)) (rs_app sv)"
  by (simp add: forget_def conclude_def query_def path_matched_def method_matched_def)

lemma leaf_app: "forget (conclude (on_app f (method_matched (path_matched sv)))) = f (rs_app sv)"
  by (simp add: forget_def conclude_def on_app_def path_matched_def method_matched_def split: outcome.split)

lemma leaf_app_unit:
  "forget (conclude (obind (on_app f (method_matched (path_matched sv))) (\<lambda>_. Done []))) =
     obind (f (rs_app sv)) (\<lambda>_. Done [])"
  by (cases "f (rs_app sv)") (simp_all add: forget_def conclude_def on_app_def path_matched_def method_matched_def)

text \<open>The guards.\<close>

lemma get_trader_holder:
  "obind (get_trader req sv) k = (case holder 2 req of Inl e \<Rightarrow> Throw e sv | Inr _ \<Rightarrow> k (hr_accnt req) sv)"
  by (simp add: get_trader_def get_accnt_def holder_def)

lemma get_admin_holder:
  "obind (get_admin req sv) k = (case holder 1 req of Inl e \<Rightarrow> Throw e sv | Inr _ \<Rightarrow> k (hr_accnt req) sv)"
  by (simp add: get_admin_def get_accnt_def holder_def)

lemma check_body_valid:
  "obind (check_body required optional req sv) k =
     (if body_valid required optional (hr_body req) then k () sv else Throw Invalid sv)"
  by (simp add: check_body_def)

lemma holder_cases: "(\<exists>e. holder perm req = Inl e) \<or> holder perm req = Inr (make_symbol (hr_accnt req))"
  by (simp add: holder_def)

lemma matched_app [simp]: "rs_app (method_matched (path_matched sv)) = rs_app sv"
  by (simp add: method_matched_def path_matched_def)

lemmas leaves = leaf_not_found leaf_throw leaf_undef leaf_not_allowed leaf_query leaf_app leaf_app_unit
  get_trader_holder get_admin_holder check_body_valid

section \<open>Handlers\<close>

lemmas route_simps = path_empty_toks path_toks toks_pop_cases Let_def perform_def only_get_def own_def sum_bind_def
  own_checked_def admin_checked_def post_order_op_def post_trade_op_def post_order_body_def post_trade_body_def

lemma asset_routes:
  assumes "clean sv"
  shows "forget (conclude (asset_request req sv)) = perform local_jd req now (asset_path (toks sv)) (rs_app sv)"
  using assms by (cases "toks sv" rule: asset_path.cases) (simp_all add: asset_request_def route_simps leaves)

lemma instr_routes:
  assumes "clean sv"
  shows "forget (conclude (instr_request req sv)) = perform local_jd req now (instr_path (toks sv)) (rs_app sv)"
  using assms by (cases "toks sv" rule: instr_path.cases) (simp_all add: instr_request_def route_simps leaves)

lemma market_routes:
  assumes "clean sv"
  shows "forget (conclude (market_request local_jd req now sv)) = perform local_jd req now (market_path (toks sv)) (rs_app sv)"
  using assms holder_cases[of 1 req]
  by (cases "toks sv" rule: market_path.cases; elim disjE exE) (simp_all add: market_request_def route_simps leaves)

lemma exec_routes:
  assumes "clean sv"
  shows "forget (conclude (exec_request req sv)) = perform local_jd req now (exec_path (toks sv)) (rs_app sv)"
  using assms holder_cases[of 2 req]
  by (cases "toks sv" rule: exec_path.cases; elim disjE exE) (simp_all add: exec_request_def route_simps leaves)

lemma posn_routes:
  assumes "clean sv"
  shows "forget (conclude (posn_request req sv)) = perform local_jd req now (posn_path (toks sv)) (rs_app sv)"
  using assms holder_cases[of 2 req]
  by (cases "toks sv" rule: posn_path.cases; elim disjE exE) (simp_all add: posn_request_def route_simps leaves)

lemma order_routes:
  assumes "clean sv"
  shows "forget (conclude (order_request local_jd req now sv)) = perform local_jd req now (order_path (toks sv)) (rs_app sv)"
  using assms holder_cases[of 2 req]
  by (cases "toks sv" rule: order_path.cases; elim disjE exE) (simp_all add: order_request_def route_simps leaves)

lemma trade_routes:
  assumes "clean sv"
  shows "forget (conclude (trade_request req now sv)) = perform local_jd req now (trade_path (toks sv)) (rs_app sv)"
  using assms holder_cases[of 2 req] holder_cases[of 1 req]
  by (cases "toks sv" rule: trade_path.cases; elim disjE exE) (simp_all add: trade_request_def route_simps leaves)

lemma matched_get:
  "clean sv \<Longrightarrow> forget (conclude (let sv = path_matched sv in if hr_method req = Get then query f (method_matched sv) else Done [] sv)) =
     (if hr_method req = Get then Done (f (rs_app sv)) (rs_app sv) else Throw MethodNotAllowed (rs_app sv))"
  by (simp add: Let_def leaves)

lemma ref_data_routes:
  assumes "clean sv"
  shows "forget (conclude (ref_data_request req sv)) = perform local_jd req now (ref_data_path (toks sv)) (rs_app sv)"
proof (cases "toks sv")
  case Nil
  then show ?thesis using assms by (simp add: ref_data_request_def path_empty_toks matched_get perform_def only_get_def)
next
  case (Cons e ts)
  note P = path_toks[OF Cons]
  show ?thesis
  proof (cases "entity_parse e")
    case None
    then show ?thesis using Cons P by (simp add: ref_data_request_def path_empty_toks Let_def leaves perform_def)
  next
    case (Some es)
    let ?sv = "path_pop sv"
    have run: "ref_data_request req sv =
        (if es_many es then
           if ts = [] then let sv = path_matched ?sv in if hr_method req = Get then query (rest_get_ref_data es) (method_matched sv) else Done [] sv
           else Done [] ?sv
         else if es = EAsset then asset_request req ?sv else if es = EInstr then instr_request req ?sv else Done [] ?sv)"
      using Cons P Some by (simp add: ref_data_request_def path_empty_toks Let_def)
    show ?thesis
      using assms asset_routes[of ?sv req local_jd now] instr_routes[of ?sv req local_jd now]
      by (simp add: run Cons Some P(2) matched_get leaf_not_found perform_def only_get_def)
  qed
qed

lemma matched_sess:
  "clean sv \<Longrightarrow> forget (conclude (let sv = path_matched sv in if hr_method req = Get then
        obind (get_trader req (method_matched sv)) (\<lambda>accnt. on_app (rest_get_sess (make_symbol accnt) es pg)) else Done [] sv)) =
     (if hr_method req = Get then case holder 2 req of Inl e \<Rightarrow> Throw e (rs_app sv) | Inr a \<Rightarrow> rest_get_sess a es pg (rs_app sv)
      else Throw MethodNotAllowed (rs_app sv))"
  using holder_cases[of 2 req] by (elim disjE exE) (simp_all add: Let_def leaves)

lemma sess_routes:
  assumes "clean sv"
  shows "forget (conclude (sess_request local_jd req now sv)) = perform local_jd req now (sess_path (toks sv)) (rs_app sv)"
proof (cases "toks sv")
  case Nil
  then have run: "sess_request local_jd req now sv = (let sv = path_matched sv in if hr_method req = Get then
      obind (get_trader req (method_matched sv)) (\<lambda>accnt. on_app (rest_get_sess (make_symbol accnt)
        (EMarket OR EOrder OR EExec OR ETrade OR EPosn) (parse_query (request_query req)))) else Done [] sv)"
    by (simp add: sess_request_def path_empty_toks)
  show ?thesis unfolding run matched_sess[OF assms] using Nil
    by (cases "holder 2 req") (simp_all add: perform_def only_get_def own_def sum_bind_def)
next
  case (Cons e ts)
  note P = path_toks[OF Cons]
  show ?thesis
  proof (cases "entity_parse e")
    case None
    then show ?thesis using Cons P by (simp add: sess_request_def path_empty_toks Let_def leaves perform_def)
  next
    case (Some es)
    let ?sv = "path_pop sv"
    have c: "clean ?sv" using assms by simp
    have run: "sess_request local_jd req now sv =
        (if es_many es then
           if ts = [] then (let sv = path_matched ?sv in if hr_method req = Get then
             obind (get_trader req (method_matched sv)) (\<lambda>accnt. on_app (rest_get_sess (make_symbol accnt) es
               (parse_query (request_query req)))) else Done [] sv)
           else Done [] ?sv
         else if es = EMarket then market_request local_jd req now ?sv else if es = EOrder then order_request local_jd req now ?sv
         else if es = EExec then exec_request req ?sv else if es = ETrade then trade_request req now ?sv
         else if es = EPosn then posn_request req ?sv else Done [] ?sv)"
      using Cons P Some by (simp add: sess_request_def path_empty_toks Let_def)
    have many: "forget (conclude (let sv = path_matched ?sv in if hr_method req = Get then
             obind (get_trader req (method_matched sv)) (\<lambda>accnt. on_app (rest_get_sess (make_symbol accnt) es
               (parse_query (request_query req)))) else Done [] sv)) = perform local_jd req now (Some (RSess es)) (rs_app sv)"
      unfolding matched_sess[OF c] by (cases "holder 2 req") (simp_all add: perform_def only_get_def own_def sum_bind_def)
    show ?thesis
      using c P(2) Cons Some many market_routes[OF c] order_routes[OF c] exec_routes[OF c] trade_routes[OF c] posn_routes[OF c]
        leaf_not_found[OF c]
      by (simp add: run perform_def[of _ _ _ None])
  qed
qed

lemma rest_routes:
  assumes "clean sv"
  shows "forget (conclude (rest_request local_jd req now sv)) = perform local_jd req now (resource_of (toks sv)) (rs_app sv)"
proof -
  let ?sv = "path_pop (path_pop sv)"
  have c: "clean sv" "clean (path_pop sv)" "clean ?sv" using assms by simp_all
  note R = market_routes[OF c(3)] ref_data_routes[OF c(3)] sess_routes[OF c(3)] leaf_not_found
  consider a r ts where "toks sv = a # r # ts" | "toks sv = []" | a where "toks sv = [a]"
    by (cases "toks sv" rule: resource_of.cases) auto
  then show ?thesis
  proof cases
    case (1 a r ts)
    have P: "path_top sv = a" "path_top (path_pop sv) = r" "toks ?sv = ts" using path_toks[OF 1] path_toks[OF path_toks(2)[OF 1]] by simp_all
    show ?thesis using R c P 1 by (simp add: rest_request_def path_empty_toks Let_def perform_def[of _ _ _ None])
  next
    case 2
    then show ?thesis using c by (simp add: rest_request_def path_empty_toks leaves perform_def)
  next
    case (3 a)
    have P: "path_top sv = a" "path_top (path_pop sv) = []" using path_toks[OF 3] path_toks_Nil(1) by simp_all
    have "strip_plural [] \<noteq> ''market''" by (simp add: strip_plural_def)
    then show ?thesis using c P 3 by (simp add: rest_request_def path_empty_toks Let_def leaves perform_def)
  qed
qed

lemma serve_routes:
  assumes "clean sv"
  shows "forget (serve local_jd req now sv) = routed local_jd req now (toks sv) (rs_app sv)"
  using rest_routes[OF assms] by (simp add: serve_conclude routed_def) (simp add: forget_def)

end
