(* ===== verification/Rest_Safe.thy ===== *)
theory Rest_Safe
  imports Rest_Refine
begin

text \<open>
  What requests do to the engine. An operation of the REST interface is a run of calls of the engine, so a
  request leads from a reachable state to a reachable one; a query at most makes a session; and what a
  request may do depends on its permissions.
\<close>

section \<open>Operations are runs of calls\<close>

definition reaches :: "(int \<Rightarrow> jday) \<Rightarrow> 'a app_result \<Rightarrow> bool" where
  "reaches local_jd r = (case r of Done _ st \<Rightarrow> reach local_jd st | Throw _ st \<Rightarrow> reach local_jd st | Undef \<Rightarrow> False)"

lemma reaches_simps [simp]:
  "reaches local_jd (Done x st) = reach local_jd st" "reaches local_jd (Throw e st) = reach local_jd st"
  "\<not> reaches local_jd Undef"
  by (simp_all add: reaches_def)

lemma reaches_obind:
  "reaches local_jd m \<Longrightarrow> (\<And>x st. m = Done x st \<Longrightarrow> reach local_jd st \<Longrightarrow> reaches local_jd (f x st)) \<Longrightarrow> reaches local_jd (obind m f)"
  by (cases m) simp_all

lemma reaches_call:
  assumes "reach local_jd st" and "call_ok st c"
  shows "reaches local_jd (do_call local_jd c st)"
proof -
  from call_safe[OF reach_inv[OF assms(1)] assms(2)] obtain st' where st': "left_by (do_call local_jd c st) = Some st'"
    using safe_left by blast
  then have "reach local_jd st'" using reach_step[OF assms(1) step_call[OF assms(2)]] by blast
  then show ?thesis using st' by (cases "do_call local_jd c st") (simp_all add: left_by_def)
qed

lemma reaches_plain: "reaches local_jd (plain r) = reaches local_jd r"
  by (cases r) (simp_all add: plain_def)

lemma reaches_write_resp: "reaches local_jd (with_resp f st) \<Longrightarrow> reaches local_jd (write_resp f st)"
  by (cases "f (st, no_resp)") (auto simp: with_resp_def write_resp_def)

text \<open>The lookups.\<close>

lemma app_sess_reach:
  assumes r: "reach local_jd st" and s: "app_sess a st = (s, st')"
  shows "reach local_jd st'" and "get_sess st' a = Some s" and "s_accnt s = a"
proof -
  have "reaches local_jd (do_call local_jd (FindSess a) st)" by (rule reaches_call[OF r]) simp
  then show "reach local_jd st'" using s by simp
  show g: "get_sess st' a = Some s"
  proof (cases "get_sess st a")
    case None
    then have "st' = st\<lparr>a_sesss := set_insert s_accnt (make_sess a (a_max_execs st)) (a_sesss st)\<rparr>" "s = make_sess a (a_max_execs st)"
      using s by (auto simp: app_sess_eq)
    then show ?thesis using app_inv_parts(8)[OF reach_inv[OF r]] None
      by (simp add: get_sess_def set_find_insert make_sess_def)
  qed (use s in \<open>simp add: app_sess_eq\<close>)
  show "s_accnt s = a"
    using get_sess_accnt[OF app_inv_parts(8)[OF reach_inv[OF \<open>reach local_jd st'\<close>]] g] .
qed

lemma app_instr_state: "app_instr ins st = Done i st' \<Longrightarrow> st' = st" "app_instr ins st = Throw e st' \<Longrightarrow> st' = st"
  "app_instr ins st \<noteq> Undef"
  by (auto simp: app_instr_def split: option.splits)

lemma reaches_market_id: "reach local_jd st \<Longrightarrow> (\<And>mid. reaches local_jd (f mid st)) \<Longrightarrow> reaches local_jd (obind (market_id_of ins d st) f)"
  by (auto simp: market_id_of_def app_instr_def split: option.splits)

lemma reaches_market:
  assumes "reach local_jd st" and "\<And>m. get_market st mid = Some m \<Longrightarrow> m_id m = mid \<Longrightarrow> reaches local_jd (f m st)"
  shows "reaches local_jd (obind (app_market mid st) f)"
  using assms book_id[OF app_inv_parts(1)[OF reach_inv[OF assms(1)]], of mid] by (auto simp: app_market_def split: option.splits)

section \<open>Commands\<close>

lemma known_I: "get_sess st a = Some s \<Longrightarrow> get_market st mid = Some m \<Longrightarrow> known st a mid"
  by (simp add: known_def)

lemma no_lots_create:
  "lots = 0 \<or> lots < min_lots \<Longrightarrow>
     app_create_order local_jd a mid ref sd lots ticks min_lots now z = app_create_order local_jd a mid ref sd 0 ticks 0 now z"
  by (cases z) (auto simp: app_create_order_def Let_def split: option.splits prod.splits)

lemma post_order_reaches:
  assumes r: "reach local_jd st" and sd: "sd \<noteq> NoSide" and lots: "0 \<le> lots \<or> lots < min_lots"
  shows "reaches local_jd (rest_post_order local_jd a ins d ref sd lots ticks min_lots now st)"
proof -
  obtain s st1 where s: "app_sess a st = (s, st1)" by fastforce
  note S = app_sess_reach[OF r s]
  have "reaches local_jd (write_resp (app_create_order local_jd (s_accnt s) (m_id m) ref sd lots ticks min_lots now) st1)"
    if m: "get_market st1 mid = Some m" "m_id m = mid" for mid m
  proof (rule reaches_write_resp)
    have k: "known st1 a mid" using S(2) m(1) by (rule known_I)
    show "reaches local_jd (with_resp (app_create_order local_jd (s_accnt s) (m_id m) ref sd lots ticks min_lots now) st1)"
    proof (cases "0 \<le> lots")
      case True
      then show ?thesis using reaches_call[OF S(1), of "CreateOrder a mid ref sd lots ticks min_lots now"] k sd m(2) S(3) by simp
    next
      case False
      have "app_create_order local_jd a mid ref sd lots ticks min_lots now = app_create_order local_jd a mid ref sd 0 ticks 0 now"
        by (rule ext, rule no_lots_create) (use lots False in linarith)
      then show ?thesis using reaches_call[OF S(1), of "CreateOrder a mid ref sd 0 ticks 0 now"] k sd m(2) S(3) by simp
    qed
  qed
  then show ?thesis unfolding rest_post_order_def Let_def s prod.case
    by (intro reaches_market_id[OF S(1)] reaches_market[OF S(1)])
qed

lemma put_order_reaches:
  assumes r: "reach local_jd st" and ids: "distinct ids"
  shows "reaches local_jd (rest_put_order a ins d ids lots now st)"
proof -
  obtain s st1 where s: "app_sess a st = (s, st1)" by fastforce
  note S = app_sess_reach[OF r s]
  have "reaches local_jd (if lots > 0
             then if length ids = 1 then write_resp (revise_order_id (s_accnt s) (m_id m) (ids ! 0) lots now) st1
                  else write_resp (revise_order_ids (s_accnt s) (m_id m) ids lots now) st1
             else if length ids = 1 then write_resp (cancel_order_id (s_accnt s) (m_id m) (ids ! 0) now) st1
                  else write_resp (cancel_order_ids (s_accnt s) (m_id m) ids now) st1)"
    if m: "get_market st1 mid = Some m" "m_id m = mid" for mid m
  proof -
    have k: "known st1 a mid" using S(2) m(1) by (rule known_I)
    note C = reaches_write_resp[OF reaches_call[OF S(1), of "ReviseOrderId a mid (ids ! 0) lots now", simplified]]
      reaches_write_resp[OF reaches_call[OF S(1), of "ReviseOrderIds a mid ids lots now", simplified]]
      reaches_write_resp[OF reaches_call[OF S(1), of "CancelOrderId a mid (ids ! 0) now", simplified]]
      reaches_write_resp[OF reaches_call[OF S(1), of "CancelOrderIds a mid ids now", simplified]]
    show ?thesis using C k ids m(2) S(3) by simp
  qed
  then show ?thesis unfolding rest_put_order_def Let_def s prod.case
    by (intro reaches_market_id[OF S(1)] reaches_market[OF S(1)])
qed

lemma post_trade_reaches:
  assumes r: "reach local_jd st"
  shows "reaches local_jd (rest_post_trade a ins d ref sd lots ticks li cpty now st)"
proof -
  obtain s st1 where s: "app_sess a st = (s, st1)" by fastforce
  note S = app_sess_reach[OF r s]
  have "reaches local_jd (app_create_trade (s_accnt s) (m_id m) ref sd lots ticks li cpty now st1)"
    if m: "get_market st1 mid = Some m" "m_id m = mid" for mid m
    using reaches_call[OF S(1), of "CreateTrade a mid ref sd lots ticks li cpty now"] known_I[OF S(2) m(1)] m(2) S(3)
    by (simp add: reaches_plain)
  then show ?thesis unfolding rest_post_trade_def Let_def s prod.case
    by (intro reaches_market_id[OF S(1)] reaches_market[OF S(1)] reaches_obind) (auto split: prod.split)
qed

lemma delete_trade_reaches:
  assumes r: "reach local_jd st" and ids: "distinct ids"
  shows "reaches local_jd (rest_delete_trade a ins d ids now st)"
proof -
  obtain s st1 where s: "app_sess a st = (s, st1)" by fastforce
  note S = app_sess_reach[OF r s]
  have "reaches local_jd (archive_trade_ids (s_accnt s) mid ids now st1)" for mid
    using reaches_call[OF S(1), of "ArchiveTradeIds a mid ids now"] S(2,3) ids by simp
  then show ?thesis unfolding rest_delete_trade_def Let_def s prod.case by (intro reaches_market_id[OF S(1)])
qed

lemma post_market_reaches:
  assumes r: "reach local_jd st"
  shows "reaches local_jd (rest_post_market local_jd ins d state now st)"
proof -
  have "reaches local_jd (app_create_market local_jd i day state now st)" for i day
    using reaches_call[OF r, of "CreateMarket i day state now"] by (simp add: reaches_plain)
  then show ?thesis unfolding rest_post_market_def
    by (intro reaches_obind) (auto simp: app_instr_def app_market_def r split: option.splits)
qed

lemma put_market_reaches:
  assumes r: "reach local_jd st"
  shows "reaches local_jd (rest_put_market ins d state now st)"
proof -
  have "reaches local_jd (app_update_market (m_id m) state st)" if "get_market st mid = Some m" "m_id m = mid" for mid m
    using reaches_call[OF r, of "UpdateMarket mid state"] that by simp
  then show ?thesis unfolding rest_put_market_def
    by (intro reaches_market_id[OF r] reaches_market[OF r] reaches_obind) (auto simp: app_market_def split: option.splits)
qed

section \<open>Queries\<close>

text \<open>A query changes nothing, or at most makes the session of its account.\<close>

fun is_query :: "rest_op \<Rightarrow> bool" where
  "is_query (OpPostMarket _ _ _) = False"
| "is_query (OpPutMarket _ _ _) = False"
| "is_query (OpPostOrder _ _ _ _ _ _ _ _) = False"
| "is_query (OpPutOrder _ _ _ _ _) = False"
| "is_query (OpPostTrade _ _ _ _ _ _ _ _ _) = False"
| "is_query (OpDeleteTrade _ _ _ _) = False"
| "is_query _ = True"

fun op_accnt :: "rest_op \<Rightarrow> symbol option" where
  "op_accnt (OpSess a _ _) = Some a" | "op_accnt (OpExecs a _) = Some a"
| "op_accnt (OpOrders a) = Some a" | "op_accnt (OpOrdersOf a _) = Some a" | "op_accnt (OpOrdersAt a _ _) = Some a"
| "op_accnt (OpOrder a _ _ _) = Some a"
| "op_accnt (OpTrades a) = Some a" | "op_accnt (OpTradesOf a _) = Some a" | "op_accnt (OpTradesAt a _ _) = Some a"
| "op_accnt (OpTrade a _ _ _) = Some a"
| "op_accnt (OpPosns a) = Some a" | "op_accnt (OpPosnsOf a _) = Some a" | "op_accnt (OpPosn a _ _) = Some a"
| "op_accnt (OpPostOrder a _ _ _ _ _ _ _) = Some a" | "op_accnt (OpPutOrder a _ _ _ _) = Some a"
| "op_accnt (OpDeleteTrade a _ _ _) = Some a"
| "op_accnt _ = None"

text \<open>The state behind a query, with a text or an exception.\<close>

definition query_state :: "rest_op \<Rightarrow> app \<Rightarrow> app" where
  "query_state op st = (case op_accnt op of Some a \<Rightarrow> snd (app_sess a st) | None \<Rightarrow> st)"

definition leaves_state :: "'a app_result \<Rightarrow> app \<Rightarrow> bool" where
  "leaves_state r st' \<longleftrightarrow> (case r of Done _ st \<Rightarrow> st = st' | Throw _ st \<Rightarrow> st = st' | Undef \<Rightarrow> False)"

lemma leaves_state_simps [simp]:
  "leaves_state (Done x st) st' \<longleftrightarrow> st = st'" "leaves_state (Throw e st) st' \<longleftrightarrow> st = st'" "\<not> leaves_state Undef st'"
  by (simp_all add: leaves_state_def)

lemma leaves_market_id:
  "(\<And>mid. leaves_state (f mid st) st) \<Longrightarrow> leaves_state (obind (market_id_of ins d st) f) st"
  by (auto simp: market_id_of_def app_instr_def split: option.splits)

lemma query_leaves:
  assumes "is_query op"
  shows "leaves_state (run_op local_jd now op st) (query_state op st)"
  using assms
  by (cases op) (auto simp: query_state_def rest_get_asset_def rest_get_instr_def rest_get_market_def rest_get_sess_def rest_get_orders_def
    rest_get_orders_of_def rest_get_orders_at_def rest_get_order_def rest_get_execs_def rest_get_trades_def rest_get_trades_of_def
    rest_get_trades_at_def rest_get_trade_def rest_get_posns_def rest_get_posns_of_def rest_get_posn_def Let_def app_market_def
    split: option.split prod.split intro!: leaves_market_id)

section \<open>What the table allows\<close>

lemma perm_bits: "p AND 3 = 0 \<Longrightarrow> p AND 1 = 0 \<and> p AND 2 = 0" for p :: "32 word"
proof -
  assume "p AND 3 = 0"
  then have "(p AND 3) AND 1 = 0" "(p AND 3) AND 2 = 0" by (simp_all only: zero_and_eq)
  then show ?thesis by (simp add: and.assoc)
qed

text \<open>Without an account or a permission there are only the public queries.\<close>

lemma action_public:
  assumes "hr_accnt req = [] \<or> get_perm req AND 3 = 0" and "action_of req r = Some (Inr op)"
  shows "is_query op \<and> op_accnt op = None"
proof -
  have "\<exists>e. holder 2 req = Inl e" "\<exists>e. holder 1 req = Inl e"
    using assms(1) perm_bits[of "get_perm req"] by (auto simp: holder_def)
  then show ?thesis using assms(2)
    by (cases r) (auto simp: only_get_def own_def own_checked_def admin_checked_def sum_bind_def split: if_splits)
qed

text \<open>Without the administrator's permission, what is left is on the caller's own account.\<close>

fun admin_op :: "rest_op \<Rightarrow> bool" where
  "admin_op (OpPostMarket _ _ _) = True"
| "admin_op (OpPutMarket _ _ _) = True"
| "admin_op (OpPostTrade _ _ _ _ _ _ _ _ _) = True"
| "admin_op _ = False"

lemma action_own:
  assumes "get_perm req AND 1 = 0" and "action_of req r = Some (Inr op)"
  shows "\<not> admin_op op \<and> (op_accnt op = None \<or> op_accnt op = Some (make_symbol (hr_accnt req)))"
proof -
  have "\<exists>e. holder 1 req = Inl e" using assms(1) by (auto simp: holder_def)
  then show ?thesis using assms(2) holder_cases[of 2 req]
    by (cases r) (auto simp: only_get_def own_def own_checked_def admin_checked_def sum_bind_def post_order_op_def split: if_splits)
qed

text \<open>A \<open>GET\<close> is a query, a \<open>DELETE\<close> archives trades.\<close>

lemma action_get:
  assumes "hr_method req = Get" and "action_of req r = Some (Inr op)"
  shows "is_query op \<and> (op_accnt op = None \<or> op_accnt op = Some (make_symbol (hr_accnt req)))"
  using assms holder_cases[of 2 req]
  by (cases r) (auto simp: only_get_def own_def sum_bind_def split: if_splits)

lemma action_delete:
  assumes "hr_method req = Delete" and "action_of req r = Some (Inr op)"
  shows "\<exists>a ins d ids. op = OpDeleteTrade a ins d ids"
  using assms by (cases r) (auto simp: only_get_def own_def sum_bind_def split: if_splits sum.splits)

section \<open>Requests that have a result\<close>

text \<open>A body with a side has one that is not \<open>None\<close>: this holds of what the parser makes.\<close>

definition sided :: "rest_body \<Rightarrow> bool" where
  "sided b \<longleftrightarrow> (b_fields b AND BSide \<noteq> 0 \<longrightarrow> b_side b \<noteq> NoSide)"

text \<open>
  The identifiers in a path are distinct, and there is one to get; the lots are not negative, unless a larger
  minimum rejects them.
\<close>

definition request_ok :: "http_request \<Rightarrow> string list \<Rightarrow> bool" where
  "request_ok req ts \<longleftrightarrow> sided (hr_body req) \<and> (0 \<le> b_lots (hr_body req) \<or> b_lots (hr_body req) < b_min_lots (hr_body req))
     \<and> (case resource_of ts of
          Some (ROrderIds _ _ ids) \<Rightarrow> ids \<noteq> [] \<and> distinct ids
        | Some (RTradeIds _ _ ids) \<Rightarrow> ids \<noteq> [] \<and> distinct ids
        | _ \<Rightarrow> True)"

lemma valid_sided:
  assumes "sided b" and "body_valid required optional b" and "required AND BSide = BSide"
  shows "b_side b \<noteq> NoSide"
proof -
  have "(b_fields b AND required) AND BSide = required AND BSide" using assms(2) by (simp only: body_valid_def)
  then have "b_fields b AND BSide = BSide" using assms(3) by (simp add: and.assoc)
  then show ?thesis using assms(1) by (simp add: sided_def)
qed

definition op_ok :: "rest_op \<Rightarrow> bool" where
  "op_ok op = (case op of
     OpPostOrder _ _ _ _ sd lots _ min_lots \<Rightarrow> sd \<noteq> NoSide \<and> (0 \<le> lots \<or> lots < min_lots)
   | OpPutOrder _ _ _ ids _ \<Rightarrow> distinct ids
   | OpDeleteTrade _ _ _ ids \<Rightarrow> distinct ids
   | _ \<Rightarrow> True)"

lemma action_ok:
  assumes "request_ok req ts" and "resource_of ts = Some r"
  shows "action_of req r \<noteq> None" and "action_of req r = Some (Inr op) \<Longrightarrow> op_ok op"
proof -
  note ok = assms(1)[unfolded request_ok_def assms(2) option.case]
  show "action_of req r \<noteq> None" using ok by (cases r) (auto simp: only_get_def)
  have sd: "body_valid required optional (hr_body req) \<Longrightarrow> required AND BSide = BSide \<Longrightarrow> b_side (hr_body req) \<noteq> NoSide" for required optional
    using ok valid_sided by blast
  show "op_ok op" if "action_of req r = Some (Inr op)"
    using that ok sd
    by (cases r) (auto simp: only_get_def own_def own_checked_def admin_checked_def sum_bind_def post_order_op_def post_trade_op_def
        op_ok_def split: if_splits sum.splits)
qed

lemma op_reaches:
  assumes r: "reach local_jd st" and op: "op_ok op"
  shows "reaches local_jd (run_op local_jd now op st)"
proof (cases "is_query op")
  case True
  have "reach local_jd (query_state op st)"
    using app_sess_reach(1)[OF r surjective_pairing] r by (auto simp: query_state_def split: option.split)
  then show ?thesis using query_leaves[OF True, of local_jd now st] by (cases "run_op local_jd now op st") simp_all
next
  case False
  then show ?thesis using op post_order_reaches[OF r] put_order_reaches[OF r] post_trade_reaches[OF r] delete_trade_reaches[OF r]
      post_market_reaches[OF r] put_market_reaches[OF r]
    by (cases op) (auto simp: op_ok_def intro!: reaches_obind)
qed

lemma routed_reaches:
  assumes "reach local_jd st" and "request_ok req ts"
  shows "reaches local_jd (routed local_jd req now ts st)"
proof (cases "resource_of ts")
  case (Some r)
  show ?thesis using assms action_ok[OF assms(2) Some] op_reaches[OF assms(1)]
    by (auto simp: routed_def perform_def Some split: option.split sum.split)
qed (use assms in \<open>simp add: routed_def perform_def\<close>)

end
