(* ===== verification/Rest_Guard.thy ===== *)
theory Rest_Guard
  imports Rest_Safe App_Charter
begin

text \<open>
  What stands between a request and the engine: the terms of the markets change only where an administrator
  changes them, the side in a body is one of the two, and \<open>handle_request\<close> gives the answer of the table
  of routes.
\<close>

section \<open>The terms of the markets\<close>

lemma keeps_market_id:
  assumes "chartered C st" and "\<And>mid. keeps C (f mid st)"
  shows "keeps C (obind (market_id_of ins d st) f)"
  using assms by (auto simp: market_id_of_def app_instr_def split: option.splits)

lemma keeps_market:
  assumes "chartered C st" and "\<And>m. keeps C (f m st)"
  shows "keeps C (obind (app_market mid st) f)"
  using assms by (auto simp: app_market_def split: option.splits)

lemma keeps_write_resp: "rkeeps C (f (st, no_resp)) \<Longrightarrow> keeps C (write_resp f st)"
  by (cases "f (st, no_resp)") (auto simp: write_resp_def)

lemma post_order_keeps:
  assumes "chartered C st"
  shows "keeps C (rest_post_order local_jd a ins d ref sd lots ticks min_lots now st)"
proof -
  obtain s st1 where s: "app_sess a st = (s, st1)" by fastforce
  have u: "chartered C st1" using assms under_alloc(4)[OF s] by simp
  show ?thesis unfolding rest_post_order_def s Let_def prod.case
    by (intro keeps_market_id keeps_market keeps_write_resp create_order_keeps u)
qed

lemma put_order_keeps:
  assumes "chartered C st"
  shows "keeps C (rest_put_order a ins d ids lots now st)"
proof -
  obtain s st1 where s: "app_sess a st = (s, st1)" by fastforce
  have u: "chartered C st1" using assms under_alloc(4)[OF s] by simp
  show ?thesis unfolding rest_put_order_def s Let_def prod.case
    by (intro keeps_market_id keeps_market u) (simp add: keeps_write_resp order_id_keeps order_ids_keeps u)
qed

lemma post_trade_keeps:
  assumes "chartered C st"
  shows "keeps C (rest_post_trade a ins d ref sd lots ticks li cpty now st)"
proof -
  obtain s st1 where s: "app_sess a st = (s, st1)" by fastforce
  have u: "chartered C st1" using assms under_alloc(4)[OF s] by simp
  show ?thesis unfolding rest_post_trade_def s Let_def prod.case
    by (intro keeps_market_id keeps_market keeps_obind create_trade_keeps u) (simp split: prod.split)
qed

lemma delete_trade_keeps:
  assumes "chartered C st"
  shows "keeps C (rest_delete_trade a ins d ids now st)"
proof -
  obtain s st1 where s: "app_sess a st = (s, st1)" by fastforce
  have u: "chartered C st1" using assms under_alloc(4)[OF s] by simp
  show ?thesis unfolding rest_delete_trade_def s Let_def prod.case by (intro keeps_market_id archive_keeps u)
qed

text \<open>Only \<open>POST\<close> and \<open>PUT\<close> of a market change the terms.\<close>

fun market_op :: "rest_op \<Rightarrow> bool" where
  "market_op (OpPostMarket _ _ _) = True"
| "market_op (OpPutMarket _ _ _) = True"
| "market_op _ = False"

lemma op_keeps:
  assumes u: "chartered C st" and op: "\<not> market_op op"
  shows "keeps C (run_op local_jd now op st)"
proof (cases "is_query op")
  case True
  have "chartered C (query_state op st)"
    using u under_alloc(4)[OF surjective_pairing] by (simp add: query_state_def split: option.split)
  then show ?thesis using query_leaves[OF True, of local_jd now st] by (cases "run_op local_jd now op st") simp_all
next
  case False
  then show ?thesis using op post_order_keeps[OF u] put_order_keeps[OF u] post_trade_keeps[OF u] delete_trade_keeps[OF u]
    by (cases op) (auto intro: keeps_obind)
qed

section \<open>The side in a body\<close>

lemma bit_facts:
  fixes x f g :: "'a::len word"
  assumes "f AND g = 0"
  shows "(x OR f) AND g = x AND g" and "(x AND NOT f) AND g \<noteq> 0 \<Longrightarrow> x AND g \<noteq> 0"
proof -
  show "(x OR f) AND g = x AND g" by (simp add: bit.conj_disj_distrib2 assms)
  have "(x AND NOT f) AND g = (x AND g) AND NOT f" by (simp only: and.assoc and.commute[of "NOT f" g])
  then show "(x AND NOT f) AND g \<noteq> 0 \<Longrightarrow> x AND g \<noteq> 0" by auto
qed

lemma sided_frame [simp]:
  "sided (b\<lparr>b_cs := n\<rparr>) = sided b" "sided (b\<lparr>b_scratch := sc\<rparr>) = sided b" "sided (set_text tf s b) = sided b"
  "sided (b\<lparr>b_symbol := s\<rparr>) = sided b" "sided (b\<lparr>b_accnt := s\<rparr>) = sided b" "sided (b\<lparr>b_instr := s\<rparr>) = sided b"
  "sided (b\<lparr>b_settl_date := d\<rparr>) = sided b" "sided (b\<lparr>b_ref := s\<rparr>) = sided b" "sided (b\<lparr>b_state := ms\<rparr>) = sided b"
  "sided (b\<lparr>b_lots := i\<rparr>) = sided b" "sided (b\<lparr>b_ticks := i\<rparr>) = sided b" "sided (b\<lparr>b_min_lots := i\<rparr>) = sided b"
  "sided (b\<lparr>b_liq_ind := li\<rparr>) = sided b" "sided (b\<lparr>b_cpty := s\<rparr>) = sided b"
  by (cases tf; simp add: sided_def)+

lemma sided_bits:
  "f AND BSide = 0 \<Longrightarrow> sided b \<Longrightarrow> sided (set_bit_of f b)" "f AND BSide = 0 \<Longrightarrow> sided b \<Longrightarrow> sided (clear_bit_of f b)"
  "sd \<noteq> NoSide \<Longrightarrow> sided ((set_bit_of f b)\<lparr>b_side := sd\<rparr>)"
  using bit_facts[of f BSide "b_fields b"] by (auto simp: sided_def set_bit_of_def clear_bit_of_def)

lemma do_action_sided: "do_action a c (b, msg) = Some ((b', msg'), out) \<Longrightarrow> sided b \<Longrightarrow> sided b'"
  unfolding do_action_def act_value_def act_ident_def act_order_def
  by (auto split: if_splits scratch.splits simp: sided_bits)

lemma run_actions_sided: "run_actions as c (b, msg) = Some ((b', msg'), out) \<Longrightarrow> sided b \<Longrightarrow> sided b'"
  by (induction as arbitrary: b msg) (auto split: option.splits if_splits dest: do_action_sided)

lemma parse_loop_sided: "parse_loop cs (b, msg) = Some (b', msg') \<Longrightarrow> sided b \<Longrightarrow> sided b'"
proof (induction cs arbitrary: b msg)
  case (Cons c cs)
  then show ?case
    by (auto simp: Let_def split: if_splits option.splits dest!: run_actions_sided)
qed simp

lemma body_parse_sided:
  "sided b \<Longrightarrow> (case body_parse buf b of Done _ b' \<Rightarrow> sided b' | Throw _ b' \<Rightarrow> sided b' | Undef \<Rightarrow> True)"
  by (auto simp: body_parse_def dest: parse_loop_sided split: option.split)

lemma body_reset_sided: "sided (body_reset True b)"
  by (simp add: sided_def body_reset_def)

section \<open>Answers\<close>

text \<open>The tokens of a request's path, behind the first slash.\<close>

definition path_tokens :: "http_request \<Rightarrow> string list" where
  "path_tokens req = (let path = request_path req
     in tokens (tok_reset (if hd path = CHR ''/'' then tl path else path) ''/''))"

lemma serv_reset_cases:
  obtains "request_path req = []" and "serv_reset req sv = None"
  | cache sv' where "request_path req \<noteq> []" and "serv_reset req sv = Some (cache, sv')" and "clean sv'"
      and "toks sv' = path_tokens req" and "rs_app sv' = rs_app sv"
proof (cases "request_path req = []")
  case True
  then show ?thesis using that(1) by (simp add: serv_reset_def Let_def)
next
  case False
  let ?p = "if hd (request_path req) = CHR ''/'' then tl (request_path req) else request_path req"
  let ?sv = "sv\<lparr>rs_match_method := False, rs_match_path := False, rs_path := tok_reset ?p ''/''\<rparr>"
  have "serv_reset req sv = Some (hr_method req = Get \<and> ?p \<noteq> [] \<and> path_top ?sv = ''refdata'', ?sv)"
    using False by (simp add: serv_reset_def Let_def)
  then show ?thesis by (rule that(2)[OF False]) (simp_all add: path_tokens_def clean_def toks_def)
qed

text \<open>
  A response: the status line and the header, then the text, of which the header has the length. The status of a success
  without a text is \<open>204\<close>, of one with a text \<open>200\<close>.
\<close>

definition message :: "nat \<Rightarrow> bool \<Rightarrow> string \<Rightarrow> string" where
  "message status cache out =
     (if with_body status
      then status_line status (http_reason status) cache @ content_head
        @ replicate (11 - length (show_nat (length out))) CHR '' '' @ show_nat (length out) @ crlf @ crlf @ out
      else status_line status (http_reason status) cache @ crlf @ crlf)"

definition error_text :: "(err \<Rightarrow> string) \<Rightarrow> err \<Rightarrow> string" where
  "error_text what e = exception_json (http_status e) (http_reason (http_status e)) (what e)"

text \<open>What \<open>handle_request\<close> writes, by the result of the table.\<close>

definition answer :: "(err \<Rightarrow> string) \<Rightarrow> http_request \<Rightarrow> string app_result \<Rightarrow> string" where
  "answer what req r = (case r of
     Done out _ \<Rightarrow> if hr_method req = Delete then message 204 False [] else message 200 False out
   | Throw e _ \<Rightarrow> message (http_status e) False (error_text what e)
   | Undef \<Rightarrow> [])"

definition state_of :: "app \<Rightarrow> 'a app_result \<Rightarrow> app" where
  "state_of st0 r = (case r of Done _ st \<Rightarrow> st | Throw _ st \<Rightarrow> st | Undef \<Rightarrow> st0)"

lemma status_facts: "with_body (http_status e)" "with_body 200" "\<not> with_body 204"
  by (cases e; simp add: with_body_def http_status_def)+

lemma http_reset_ok:
  assumes "buf_ok (hs_buf os)"
  shows "buf_ok (hs_buf (http_reset status reason cache os))"
proof -
  obtain t where "holds t (http_reset status reason cache os)" using http_reset_holds(1,2)[OF assms, of status reason cache] by blast
  then show ?thesis by (simp add: holds_def bb.written_def)
qed

lemma commit_message:
  assumes "buf_ok (hs_buf os)" and "length out < 10 ^ 11"
  shows "with_body status \<Longrightarrow> buf_ok (hs_buf (http_commit (http_xsputn out (http_reset status (http_reason status) cache os)))) \<and>
      buf_data (hs_buf (http_commit (http_xsputn out (http_reset status (http_reason status) cache os)))) =
        buf_data (hs_buf os) @ message status cache out"
    and "\<not> with_body status \<Longrightarrow> buf_ok (hs_buf (http_commit (http_xsputn [] (http_reset status (http_reason status) cache os)))) \<and>
      buf_data (hs_buf (http_commit (http_xsputn [] (http_reset status (http_reason status) cache os)))) =
        buf_data (hs_buf os) @ message status cache []"
proof -
  assume wb: "with_body status"
  show "buf_ok (hs_buf (http_commit (http_xsputn out (http_reset status (http_reason status) cache os)))) \<and>
      buf_data (hs_buf (http_commit (http_xsputn out (http_reset status (http_reason status) cache os)))) =
        buf_data (hs_buf os) @ message status cache out"
    using response_content[OF assms(1) wb _ refl, of "[out]" "http_reason status" cache] assms(2) wb by (simp add: message_def)
next
  assume wb: "\<not> with_body status"
  let ?h = "http_xsputn [] (http_reset status (http_reason status) cache os)"
  note R = http_reset_holds(2)[OF assms(1) wb, of "http_reason status" cache] http_reset_holds(3)[OF assms(1), of status "http_reason status" cache]
  note X = holds_xsputn[OF conjunct1[OF R(1)], of "[]"]
  have "holds (status_line status (http_reason status) cache @ crlf @ crlf) ?h" "hs_cloff ?h = 0" using X R(1) by simp_all
  from commit_plain[OF this] show "buf_ok (hs_buf (http_commit ?h)) \<and>
      buf_data (hs_buf (http_commit ?h)) = buf_data (hs_buf os) @ message status cache []"
    using X(2) R(2) wb by (simp add: message_def)
qed

text \<open>A response that succeeds is not cached, and one to a \<open>DELETE\<close> has no text.\<close>

lemma routed_done:
  assumes "routed local_jd req now ts st = Done out st'"
  shows "\<exists>ts'. ts = ''api'' # ts'" and "hr_method req = Delete \<Longrightarrow> out = []"
proof -
  obtain r op where r: "resource_of ts = Some r" "action_of req r = Some (Inr op)" "run_op local_jd now op st = Done out st'"
    using assms by (auto simp: routed_def perform_def split: if_splits option.splits sum.splits)
  show "\<exists>ts'. ts = ''api'' # ts'" using r(1) by (cases ts rule: resource_of.cases) (auto split: if_splits)
  assume "hr_method req = Delete"
  from action_delete[OF this r(2)] obtain a ins d ids where "op = OpDeleteTrade a ins d ids" by blast
  then show "out = []" using r(3) by (simp add: obind_Done_iff)
qed

lemma serv_reset_cache:
  "serv_reset req sv = Some (cache, sv') \<Longrightarrow> cache \<Longrightarrow> hr_method req = Get \<and> path_top sv' = ''refdata''"
  by (auto simp: serv_reset_def Let_def split: if_splits)

text \<open>The text of an answer has fewer than 10^11 characters: the room for the length has 11 digits.\<close>

definition fits :: "(err \<Rightarrow> string) \<Rightarrow> string app_result \<Rightarrow> bool" where
  "fits what r \<longleftrightarrow> (case r of
     Done out _ \<Rightarrow> length out < 10 ^ 11 | Throw e _ \<Rightarrow> length (error_text what e) < 10 ^ 11 | Undef \<Rightarrow> True)"

lemma handle_answer:
  assumes ok: "buf_ok (hs_buf os)" and fits: "fits what r"
    and r_def: "r = routed local_jd req (get_time clock req) (path_tokens req) (rs_app sv)"
  shows "if request_path req = [] \<or> r = Undef then handle_request local_jd what clock req (sv, os) = None
    else \<exists>sv' os'. handle_request local_jd what clock req (sv, os) = Some (sv', os') \<and> rs_app sv' = state_of (rs_app sv) r
      \<and> buf_ok (hs_buf os') \<and> buf_data (hs_buf os') = buf_data (hs_buf os) @ answer what req r"
proof (rule serv_reset_cases[of req sv])
  assume "request_path req = []" "serv_reset req sv = None"
  then show ?thesis by (simp add: handle_request_def)
next
  fix cache sv1
  assume p: "request_path req \<noteq> []" and s: "serv_reset req sv = Some (cache, sv1)" and c: "clean sv1"
    and t: "toks sv1 = path_tokens req" and a: "rs_app sv1 = rs_app sv"
  let ?now = "get_time clock req"
  let ?os = "if hr_method req \<noteq> Delete then http_reset 200 (http_reason 200) cache os else http_reset 204 (http_reason 204) False os"
  have ok1: "buf_ok (hs_buf ?os)" "buf_data (hs_buf ?os) = buf_data (hs_buf os)" using http_reset_ok[OF ok] http_reset_holds(3)[OF ok] by auto
  have f: "forget (serve local_jd req ?now sv1) = r" using serve_routes[OF c, of local_jd req ?now] by (simp add: r_def t a)
  show ?thesis
  proof (cases "serve local_jd req ?now sv1")
    case (Done out sv2)
    have r: "r = Done out (rs_app sv2)" using f Done by (simp add: forget_def)
    obtain ts' where "path_tokens req = ''api'' # ts'" using routed_done(1) r_def r by metis
    then have "path_top sv1 = ''api''" using path_toks(1) t by simp
    then have cache: "\<not> cache" using serv_reset_cache[OF s] by auto
    have del: "hr_method req = Delete \<Longrightarrow> out = []" using routed_done(2) r_def r by metis
    have run: "handle_request local_jd what clock req (sv, os) = Some (sv2, http_commit (http_xsputn out ?os))"
      by (simp add: handle_request_def s Done Let_def)
    have w: "buf_ok (hs_buf (http_commit (http_xsputn out ?os)))
        \<and> buf_data (hs_buf (http_commit (http_xsputn out ?os))) = buf_data (hs_buf os) @ answer what req r"
    proof (cases "hr_method req = Delete")
      case True
      then show ?thesis using commit_message(2)[OF ok, of "[]" 204 False] status_facts del r by (simp add: answer_def)
    next
      case False
      then show ?thesis using commit_message(1)[OF ok, of out 200 False] fits status_facts r cache by (simp add: answer_def fits_def)
    qed
    show ?thesis unfolding run r using w p r by (simp add: state_of_def)
  next
    case (Throw e sv2)
    have r: "r = Throw e (rs_app sv2)" using f Throw by (simp add: forget_def)
    let ?os' = "http_commit (http_xsputn (error_text what e) (http_reset (http_status e) (http_reason (http_status e)) False ?os))"
    have run: "handle_request local_jd what clock req (sv, os) = Some (sv2, ?os')"
      by (simp add: handle_request_def s Throw Let_def error_text_def)
    have w: "buf_ok (hs_buf ?os') \<and> buf_data (hs_buf ?os') = buf_data (hs_buf os) @ answer what req r"
      using commit_message(1)[OF ok1(1), of "error_text what e" "http_status e" False] fits status_facts(1) r ok1(2)
      by (simp add: answer_def fits_def)
    show ?thesis unfolding run r using w p r by (simp add: state_of_def)
  next
    case Undef
    then show ?thesis using f by (simp add: handle_request_def s forget_def Let_def)
  qed
qed

text \<open>The engine behind a request is the one that the table gives, whatever the texts.\<close>

lemma handle_engine:
  assumes r_def: "r = routed local_jd req (get_time clock req) (path_tokens req) (rs_app sv)"
  shows "handle_request local_jd what clock req (sv, os) = None \<longleftrightarrow> request_path req = [] \<or> r = Undef"
    and "handle_request local_jd what clock req (sv, os) = Some (sv', os') \<Longrightarrow> rs_app sv' = state_of (rs_app sv) r"
proof -
  have both: "(handle_request local_jd what clock req (sv, os) = None \<longleftrightarrow> request_path req = [] \<or> r = Undef)
    \<and> (handle_request local_jd what clock req (sv, os) = Some (sv', os') \<longrightarrow> rs_app sv' = state_of (rs_app sv) r)"
  proof (rule serv_reset_cases[of req sv])
    assume "request_path req = []" "serv_reset req sv = None"
    then show ?thesis by (simp add: handle_request_def)
  next
    fix cache sv1
    assume p: "request_path req \<noteq> []" and s: "serv_reset req sv = Some (cache, sv1)" and c: "clean sv1"
      and t: "toks sv1 = path_tokens req" and a: "rs_app sv1 = rs_app sv"
    have f: "forget (serve local_jd req (get_time clock req) sv1) = r" using serve_routes[OF c] by (simp add: r_def t a)
    then show ?thesis using p
      by (cases "serve local_jd req (get_time clock req) sv1") (auto simp: handle_request_def s Let_def forget_def state_of_def)
  qed
  then show "handle_request local_jd what clock req (sv, os) = None \<longleftrightarrow> request_path req = [] \<or> r = Undef"
    "handle_request local_jd what clock req (sv, os) = Some (sv', os') \<Longrightarrow> rs_app sv' = state_of (rs_app sv) r" by blast+
qed

text \<open>What the table runs: an error, or an operation.\<close>

lemma routed_cases:
  assumes "routed local_jd req now ts st \<noteq> Undef"
  obtains e where "routed local_jd req now ts st = Throw e st"
  | r op where "resource_of ts = Some r" and "action_of req r = Some (Inr op)" and "routed local_jd req now ts st = run_op local_jd now op st"
  using assms by (auto simp: routed_def perform_def split: if_splits option.splits sum.splits)

text \<open>Without an account or a permission.\<close>

lemma routed_public:
  assumes "hr_accnt req = [] \<or> get_perm req AND 3 = 0"
  shows "state_of st (routed local_jd req now ts st) = st"
proof (cases "routed local_jd req now ts st = Undef")
  case False
  then show ?thesis
  proof (cases rule: routed_cases)
    case (2 r op)
    have "is_query op" "op_accnt op = None" using action_public[OF assms 2(2)] by simp_all
    then show ?thesis using query_leaves[of op local_jd now st] 2(3)
      by (cases "run_op local_jd now op st") (simp_all add: query_state_def state_of_def)
  qed (simp add: state_of_def)
qed (simp add: state_of_def)

text \<open>Without the administrator's permission.\<close>

lemma routed_charter:
  assumes "set_ok m_id (a_markets st)" and "get_perm req AND 1 = 0"
  shows "charter (state_of st (routed local_jd req now ts st)) = charter st"
proof (cases "routed local_jd req now ts st = Undef")
  case False
  have u: "chartered (charter st) st" using assms(1) by (simp add: chartered_def)
  from False show ?thesis
  proof (cases rule: routed_cases)
    case (2 r op)
    have "\<not> market_op op" using action_own[OF assms(2) 2(2)] by (cases op) simp_all
    from op_keeps[OF u this, of local_jd now] 2(3) show ?thesis
      by (cases "run_op local_jd now op st") (simp_all add: state_of_def chartered_def)
  qed (simp add: state_of_def)
qed (simp add: state_of_def)

text \<open>A \<open>GET\<close>.\<close>

lemma routed_get:
  assumes "hr_method req = Get"
  shows "state_of st (routed local_jd req now ts st) \<in> {st, snd (app_sess (make_symbol (hr_accnt req)) st)}"
proof (cases "routed local_jd req now ts st = Undef")
  case False
  then show ?thesis
  proof (cases rule: routed_cases)
    case (2 r op)
    have q: "is_query op" "op_accnt op = None \<or> op_accnt op = Some (make_symbol (hr_accnt req))" using action_get[OF assms 2(2)] by simp_all
    then have "query_state op st \<in> {st, snd (app_sess (make_symbol (hr_accnt req)) st)}" by (auto simp: query_state_def)
    then show ?thesis using query_leaves[OF q(1), of local_jd now st] 2(3)
      by (cases "run_op local_jd now op st") (simp_all add: state_of_def)
  qed (simp add: state_of_def)
qed (simp add: state_of_def)

text \<open>A request that has an operation with a result.\<close>

lemma request_reaches:
  assumes "reach local_jd (rs_app sv)" and "request_ok req (path_tokens req)" and "request_path req \<noteq> []"
  shows "\<exists>sv' os'. handle_request local_jd what clock req (sv, os) = Some (sv', os') \<and> reach local_jd (rs_app sv')"
proof -
  define r where "r = routed local_jd req (get_time clock req) (path_tokens req) (rs_app sv)"
  have R: "reaches local_jd r" unfolding r_def by (rule routed_reaches[OF assms(1,2)])
  then have "r \<noteq> Undef" by auto
  with handle_engine(1)[OF r_def, of what os] assms(3) obtain sv' os' where
    h: "handle_request local_jd what clock req (sv, os) = Some (sv', os')" by fastforce
  have "rs_app sv' = state_of (rs_app sv) r" by (rule handle_engine(2)[OF r_def h])
  then have "reach local_jd (rs_app sv')" using R by (cases r) (simp_all add: state_of_def)
  then show ?thesis using h by blast
qed

end
