(* ===== verification/Rest_Search.thy ===== *)
theory Rest_Search
  imports Rest_Body
begin

text \<open>
  The transition table of the body parser, looked up by binary search. A check of the tables that
  the kernel evaluates (\<open>keys_walk\<close>) shows that the keys of every state are in ascending order; from
  that the binary search finds what a search from the front finds (\<open>transition_linear\<close>).
\<close>

section \<open>The keys\<close>

text \<open>
  The keys of the states follow each other in one array, the single keys of a state in ascending
  order and its ranges too.
\<close>

fun ascending :: "int list \<Rightarrow> bool" where
  "ascending (a # b # ks) \<longleftrightarrow> a < b \<and> ascending (b # ks)"
| "ascending _ \<longleftrightarrow> True"

fun walk_keys :: "nat list \<Rightarrow> nat list \<Rightarrow> nat list \<Rightarrow> int list \<Rightarrow> nat \<Rightarrow> bool" where
  "walk_keys (off # offs) (n # ns) (r # rs) ks pos \<longleftrightarrow> off = pos \<and> ascending (take n ks)
     \<and> ascending (take (2 * r) (drop n ks)) \<and> length (take (n + 2 * r) ks) = n + 2 * r
     \<and> walk_keys offs ns rs (drop (n + 2 * r) ks) (pos + n + 2 * r)"
| "walk_keys offs ns rs ks pos \<longleftrightarrow> offs = [] \<and> ns = [] \<and> rs = []"

lemma keys_walk: "walk_keys json_key_offsets json_single_lengths json_range_lengths json_trans_keys 0"
  by (simp add: json_tables)

lemma walk_keys_nth:
  "walk_keys offs ns rs ks pos \<Longrightarrow> s < length offs \<Longrightarrow>
     pos \<le> offs ! s \<and> ascending (take (ns ! s) (drop (offs ! s - pos) ks))
     \<and> ascending (take (2 * rs ! s) (drop (offs ! s - pos + ns ! s) ks))
     \<and> offs ! s - pos + ns ! s + 2 * rs ! s \<le> length ks"
proof (induction offs ns rs ks pos arbitrary: s rule: walk_keys.induct)
  case (1 off offs n ns r rs ks pos)
  show ?case
  proof (cases s)
    case 0
    with 1 show ?thesis by (auto simp: min_def split: if_splits)
  next
    case (Suc t)
    have w: "walk_keys offs ns rs (drop (n + 2 * r) ks) (pos + n + 2 * r)" and t: "t < length offs"
      and len: "n + 2 * r \<le> length ks"
      using 1(2,3) Suc by (auto simp: min_def split: if_splits)
    note IH = 1(1)[OF w t, unfolded drop_drop]
    have e: "offs ! t - (pos + n + 2 * r) + (n + 2 * r) = offs ! t - pos"
      "offs ! t - (pos + n + 2 * r) + ns ! t + (n + 2 * r) = offs ! t - pos + ns ! t" using IH by simp_all
    have "offs ! t - (pos + n + 2 * r) + ns ! t + 2 * rs ! t \<le> length (drop (n + 2 * r) ks)" "pos + n + 2 * r \<le> offs ! t"
      using IH by blast+
    then have "offs ! t - pos + ns ! t + 2 * rs ! t \<le> length ks" using len unfolding length_drop by linarith
    moreover have "ascending (take (ns ! t) (drop (offs ! t - pos) ks))"
      "ascending (take (2 * rs ! t) (drop (offs ! t - pos + ns ! t) ks))"
      using IH unfolding e by blast+
    ultimately show ?thesis using IH unfolding Suc by simp
  qed
qed simp_all

definition single_keys :: "nat \<Rightarrow> int list" where
  "single_keys s = take (json_single_lengths ! s) (drop (json_key_offsets ! s) json_trans_keys)"

definition range_keys :: "nat \<Rightarrow> int list" where
  "range_keys s = take (2 * json_range_lengths ! s) (drop (json_key_offsets ! s + json_single_lengths ! s) json_trans_keys)"

lemma length_key_offsets: "length json_key_offsets = 185"
  by (simp add: json_tables)

lemma keys_ok:
  assumes "s < 185"
  shows "ascending (single_keys s)" "ascending (range_keys s)"
    "length (single_keys s) = json_single_lengths ! s" "length (range_keys s) = 2 * json_range_lengths ! s"
    "json_key_offsets ! s + json_single_lengths ! s + 2 * json_range_lengths ! s \<le> length json_trans_keys"
  using walk_keys_nth[OF keys_walk, of s] assms
  by (auto simp: length_key_offsets single_keys_def range_keys_def min_def)

lemma single_key: "s < 185 \<Longrightarrow> i < json_single_lengths ! s \<Longrightarrow> json_trans_keys ! (json_key_offsets ! s + i) = single_keys s ! i"
  using keys_ok(5)[of s] by (simp add: single_keys_def)

lemma range_key: "s < 185 \<Longrightarrow> i < 2 * json_range_lengths ! s \<Longrightarrow>
    json_trans_keys ! (json_key_offsets ! s + json_single_lengths ! s + i) = range_keys s ! i"
  using keys_ok(5)[of s] by (simp add: range_keys_def)

lemma ascending_less: "ascending ks \<Longrightarrow> i < j \<Longrightarrow> j < length ks \<Longrightarrow> ks ! i < ks ! j"
proof (induction ks arbitrary: i j rule: ascending.induct)
  case (1 a b ks)
  show ?case
  proof (cases j)
    case 0 with 1 show ?thesis by simp
  next
    case (Suc j')
    show ?thesis
    proof (cases i)
      case 0
      have "b \<le> (b # ks) ! j'"
        using 1(1)[of 0 j'] 1(2-4) Suc by (cases j') auto
      with 0 Suc 1(2) show ?thesis by simp
    next
      case (Suc i')
      with 1 \<open>j = Suc j'\<close> show ?thesis by simp
    qed
  qed
qed simp_all

section \<open>Binary search\<close>

lemma search_key_Some:
  "search_key c keys lower upper = Some i \<Longrightarrow> 0 \<le> lower \<Longrightarrow>
     lower \<le> i \<and> i \<le> upper \<and> json_trans_keys ! nat (int keys + i) = c"
proof (induction c keys lower upper rule: search_key.induct)
  case (1 c keys lower upper)
  define mid where "mid = lower + (upper - lower) div 2"
  show ?case
  proof (cases "upper < lower")
    case False
    then have m: "lower \<le> mid" "mid \<le> upper" by (simp_all add: mid_def)
    consider "c < json_trans_keys ! nat (int keys + mid)" | "json_trans_keys ! nat (int keys + mid) < c"
      | "c = json_trans_keys ! nat (int keys + mid)" by linarith
    then show ?thesis
    proof cases
      case 1
      then have "search_key c keys lower (mid - 1) = Some i"
        using "1.prems"(1) False by (subst (asm) search_key.simps) (simp add: Let_def flip: mid_def)
      from "1.IH"(1)[OF False mid_def 1 this "1.prems"(2)] m show ?thesis by simp
    next
      case 2
      then have "search_key c keys (mid + 1) upper = Some i"
        using "1.prems"(1) False by (subst (asm) search_key.simps) (simp add: Let_def flip: mid_def)
      from "1.IH"(2)[OF False mid_def _ 2 this] 2 "1.prems"(2) m show ?thesis by simp
    next
      case 3
      then have "i = mid"
        using "1.prems"(1) False by (subst (asm) search_key.simps) (simp add: Let_def flip: mid_def)
      with 3 m show ?thesis by simp
    qed
  qed (use "1.prems" in \<open>simp add: search_key.simps\<close>)
qed

lemma search_key_None:
  assumes "\<forall>i j. 0 \<le> i \<longrightarrow> i < j \<longrightarrow> j < n \<longrightarrow> json_trans_keys ! nat (int keys + i) < json_trans_keys ! nat (int keys + j)"
  shows "search_key c keys lower upper = None \<Longrightarrow> 0 \<le> lower \<Longrightarrow> upper < n \<Longrightarrow> lower \<le> i \<Longrightarrow> i \<le> upper \<Longrightarrow>
    json_trans_keys ! nat (int keys + i) \<noteq> c"
  using assms
proof (induction c keys lower upper rule: search_key.induct)
  case (1 c keys lower upper)
  define mid where "mid = lower + (upper - lower) div 2"
  have ne: "\<not> upper < lower" using 1(6,7) by simp
  then have m: "lower \<le> mid" "mid \<le> upper" by (simp_all add: mid_def)
  let ?k = "\<lambda>i. json_trans_keys ! nat (int keys + i)"
  have mono: "?k a < ?k b" if "0 \<le> a" "a < b" "b < n" for a b using 1(8) that by blast
  consider "c < ?k mid" | "?k mid < c" | "c = ?k mid" by linarith
  then show ?case
  proof cases
    case 1
    then have r: "search_key c keys lower (mid - 1) = None"
      using "1.prems"(1) ne by (subst (asm) search_key.simps) (simp add: Let_def flip: mid_def)
    show ?thesis
    proof (cases "i \<le> mid - 1")
      case True
      then show ?thesis using "1.IH"(1)[OF ne mid_def 1 r "1.prems"(2) _ "1.prems"(4) True "1.prems"(6)] m "1.prems"(3) by simp
    next
      case False
      then have "?k mid < ?k i" if "i \<noteq> mid" using mono[of mid i] m that "1.prems"(2,3,5) by simp
      with 1 show ?thesis by fastforce
    qed
  next
    case 2
    then have r: "search_key c keys (mid + 1) upper = None"
      using "1.prems"(1) ne by (subst (asm) search_key.simps) (simp add: Let_def flip: mid_def)
    show ?thesis
    proof (cases "mid + 1 \<le> i")
      case True
      then show ?thesis using "1.IH"(2)[OF ne mid_def _ 2 r _ "1.prems"(3) True "1.prems"(5,6)] 2 m "1.prems"(2) by simp
    next
      case False
      then have "?k i < ?k mid" if "i \<noteq> mid" using mono[of i mid] m that "1.prems"(2,3,4) by simp
      with 2 show ?thesis by fastforce
    qed
  next
    case 3
    then show ?thesis
      using "1.prems"(1) ne by (subst (asm) search_key.simps) (simp add: Let_def flip: mid_def)
  qed
qed

lemma search_range_Some:
  "search_range c keys lower upper = Some i \<Longrightarrow> 0 \<le> lower \<Longrightarrow> even lower \<Longrightarrow> even upper \<Longrightarrow>
     lower \<le> i \<and> i \<le> upper \<and> even i \<and> json_trans_keys ! nat (int keys + i) \<le> c
     \<and> c \<le> json_trans_keys ! nat (int keys + i + 1)"
proof (induction c keys lower upper rule: search_range.induct)
  case (1 c keys lower upper)
  define mid where "mid = lower + (upper - lower) div 4 * 2"
  show ?case
  proof (cases "upper < lower")
    case False
    then have m: "lower \<le> mid" "mid \<le> upper" "even mid" using 1(5,6) by (auto simp: mid_def)
    consider "c < json_trans_keys ! nat (int keys + mid)" | "\<not> c < json_trans_keys ! nat (int keys + mid)" "json_trans_keys ! nat (int keys + mid + 1) < c"
      | "json_trans_keys ! nat (int keys + mid) \<le> c" "c \<le> json_trans_keys ! nat (int keys + mid + 1)" by linarith
    then show ?thesis
    proof cases
      case 1
      then have "search_range c keys lower (mid - 2) = Some i"
        using "1.prems"(1) False by (subst (asm) search_range.simps) (simp add: Let_def flip: mid_def)
      from "1.IH"(1)[OF False mid_def 1 this "1.prems"(2,3)] m show ?thesis by simp
    next
      case 2
      then have "search_range c keys (mid + 2) upper = Some i"
        using "1.prems"(1) False by (subst (asm) search_range.simps) (simp add: Let_def flip: mid_def)
      from "1.IH"(2)[OF False mid_def 2 this _ _ "1.prems"(4)] "1.prems"(2) m show ?thesis by simp
    next
      case 3
      then have "i = mid"
        using "1.prems"(1) False by (subst (asm) search_range.simps) (simp add: Let_def flip: mid_def)
      with 3 m show ?thesis by simp
    qed
  qed (use "1.prems" in \<open>simp add: search_range.simps\<close>)
qed

lemma search_range_None:
  assumes "\<forall>i j. 0 \<le> i \<longrightarrow> i < j \<longrightarrow> j < n \<longrightarrow> json_trans_keys ! nat (int keys + i) < json_trans_keys ! nat (int keys + j)"
  shows "search_range c keys lower upper = None \<Longrightarrow> 0 \<le> lower \<Longrightarrow> upper + 1 < n \<Longrightarrow> even lower \<Longrightarrow> even upper \<Longrightarrow>
    lower \<le> i \<Longrightarrow> i \<le> upper \<Longrightarrow> even i \<Longrightarrow>
    \<not> (json_trans_keys ! nat (int keys + i) \<le> c \<and> c \<le> json_trans_keys ! nat (int keys + i + 1))"
  using assms
proof (induction c keys lower upper rule: search_range.induct)
  case (1 c keys lower upper)
  define mid where "mid = lower + (upper - lower) div 4 * 2"
  have ne: "\<not> upper < lower" using "1.prems"(6,7) by simp
  then have m: "lower \<le> mid" "mid \<le> upper" "even mid" using "1.prems"(4,5) by (auto simp: mid_def)
  let ?k = "\<lambda>i. json_trans_keys ! nat (int keys + i)"
  have mono: "?k a < ?k b" if "0 \<le> a" "a < b" "b < n" for a b using "1.prems"(9) that by blast
  have k1: "?k (a + 1) = json_trans_keys ! nat (int keys + a + 1)" for a by (simp add: add.assoc)
  consider "c < ?k mid" | "\<not> c < ?k mid" "json_trans_keys ! nat (int keys + mid + 1) < c"
    | "?k mid \<le> c" "c \<le> json_trans_keys ! nat (int keys + mid + 1)" by linarith
  then show ?case
  proof cases
    case 1
    then have r: "search_range c keys lower (mid - 2) = None"
      using "1.prems"(1) ne by (subst (asm) search_range.simps) (simp add: Let_def flip: mid_def)
    show ?thesis
    proof (cases "i \<le> mid - 2")
      case True
      then show ?thesis
        using "1.IH"(1)[OF ne mid_def 1 r "1.prems"(2) _ "1.prems"(4) _ "1.prems"(6) True "1.prems"(8,9)] m "1.prems"(3) by simp
    next
      case False
      then have "mid \<le> i" using m(3) "1.prems"(8) by presburger
      then have "?k mid < ?k i" if "i \<noteq> mid" using mono[of mid i] m that "1.prems"(2,3,7) by simp
      with 1 show ?thesis by fastforce
    qed
  next
    case 2
    then have r: "search_range c keys (mid + 2) upper = None"
      using "1.prems"(1) ne by (subst (asm) search_range.simps) (simp add: Let_def flip: mid_def)
    show ?thesis
    proof (cases "mid + 2 \<le> i")
      case True
      then show ?thesis
        using "1.IH"(2)[OF ne mid_def 2 r _ "1.prems"(3) _ "1.prems"(5) True "1.prems"(7-9)] m "1.prems"(2) by simp
    next
      case False
      then have "i \<le> mid" using m(3) "1.prems"(8) by presburger
      then have "?k (i + 1) < ?k (mid + 1)" if "i \<noteq> mid" using mono[of "i + 1" "mid + 1"] m that "1.prems"(2,3,6) by simp
      with 2 show ?thesis unfolding k1 by fastforce
    qed
  next
    case 3
    then show ?thesis
      using "1.prems"(1) ne by (subst (asm) search_range.simps) (simp add: Let_def flip: mid_def)
  qed
qed

section \<open>The transition\<close>

text \<open>The first range that has a character, and the transition by a search from the front.\<close>

fun range_index :: "int \<Rightarrow> int list \<Rightarrow> nat" where
  "range_index c (a # b # ks) = (if a \<le> c \<and> c \<le> b then 0 else Suc (range_index c ks))"
| "range_index c _ = 0"

definition linear_transition :: "nat \<Rightarrow> int \<Rightarrow> nat" where
  "linear_transition cs c =
     json_index_offsets ! cs + (let ks = single_keys cs in
       if c \<in> set ks then length (takeWhile (\<lambda>k. k \<noteq> c) ks) else length ks + range_index c (range_keys cs))"

lemma takeWhile_index: "distinct ks \<Longrightarrow> i < length ks \<Longrightarrow> length (takeWhile (\<lambda>k. k \<noteq> ks ! i) ks) = i"
proof (induction ks arbitrary: i)
  case (Cons k ks)
  then show ?case by (cases i) auto
qed simp

lemma ascending_distinct: "ascending ks \<Longrightarrow> distinct ks"
  unfolding distinct_conv_nth using ascending_less by (metis less_irrefl linorder_neqE_nat)

lemma range_index_found:
  "ascending ks \<Longrightarrow> 2 * j + 1 < length ks \<Longrightarrow> ks ! (2 * j) \<le> c \<Longrightarrow> c \<le> ks ! (2 * j + 1) \<Longrightarrow> range_index c ks = j"
proof (induction c ks arbitrary: j rule: range_index.induct)
  case (1 c a b ks)
  show ?case
  proof (cases j)
    case 0
    with 1 show ?thesis by simp
  next
    case (Suc j')
    have "(a # b # ks) ! 1 < (a # b # ks) ! (2 * j)"
      using ascending_less[OF 1(2), of 1 "2 * j"] 1(3) Suc by simp
    then have "b < c" using 1(4) by simp
    moreover have "ascending ks" using 1(2) by (cases ks) auto
    ultimately show ?thesis using 1(1)[of j'] 1(3-5) Suc by auto
  qed
qed simp_all

lemma range_index_none:
  "\<forall>j. 2 * j + 1 < length ks \<longrightarrow> \<not> (ks ! (2 * j) \<le> c \<and> c \<le> ks ! (2 * j + 1)) \<Longrightarrow> range_index c ks = length ks div 2"
proof (induction c ks rule: range_index.induct)
  case (1 c a b ks)
  have "\<not> (a \<le> c \<and> c \<le> b)" using spec[OF 1(2), of 0] by simp
  moreover have "\<forall>j. 2 * j + 1 < length ks \<longrightarrow> \<not> (ks ! (2 * j) \<le> c \<and> c \<le> ks ! (2 * j + 1))"
  proof (intro allI impI)
    fix j assume "2 * j + 1 < length ks"
    then show "\<not> (ks ! (2 * j) \<le> c \<and> c \<le> ks ! (2 * j + 1))" using spec[OF 1(2), of "Suc j"] by simp
  qed
  ultimately show ?case using 1(1) by simp
qed simp_all

lemma search_key_linear:
  assumes s: "cs < 185"
  shows "search_key c (json_key_offsets ! cs) 0 (int (json_single_lengths ! cs) - 1) =
    (if c \<in> set (single_keys cs) then Some (int (length (takeWhile (\<lambda>k. k \<noteq> c) (single_keys cs)))) else None)"
proof -
  let ?keys = "json_key_offsets ! cs" and ?n = "json_single_lengths ! cs" and ?ks = "single_keys cs"
  have key: "json_trans_keys ! nat (int ?keys + i) = ?ks ! nat i" if "0 \<le> i" "i < int ?n" for i
    using single_key[OF s, of "nat i"] that by (simp add: nat_add_distrib)
  have len: "length ?ks = ?n" and asc: "ascending ?ks" using keys_ok[OF s] by simp_all
  have mono: "json_trans_keys ! nat (int ?keys + i) < json_trans_keys ! nat (int ?keys + j)" if "0 \<le> i" "i < j" "j < int ?n" for i j
    using key[of i] key[of j] ascending_less[OF asc, of "nat i" "nat j"] that len by simp
  then have mono': "\<forall>i j. 0 \<le> i \<longrightarrow> i < j \<longrightarrow> j < int ?n \<longrightarrow>
      json_trans_keys ! nat (int ?keys + i) < json_trans_keys ! nat (int ?keys + j)" by blast
  show ?thesis
  proof (cases "search_key c ?keys 0 (int ?n - 1)")
    case None
    have "c \<notin> set ?ks"
    proof
      assume "c \<in> set ?ks"
      then obtain i where i: "i < ?n" "?ks ! i = c" using len by (auto simp: in_set_conv_nth)
      then show False using search_key_None[OF mono' None, of "int i"] key[of "int i"] by simp
    qed
    with None show ?thesis by simp
  next
    case (Some i)
    then have i: "0 \<le> i" "i \<le> int ?n - 1" "json_trans_keys ! nat (int ?keys + i) = c"
      using search_key_Some[OF Some] by simp_all
    then have "?ks ! nat i = c" "nat i < length ?ks" using key[of i] len by simp_all
    then have "c \<in> set ?ks" "length (takeWhile (\<lambda>k. k \<noteq> c) ?ks) = nat i"
      using takeWhile_index[OF ascending_distinct[OF asc], of "nat i"] by auto
    with Some i show ?thesis by simp
  qed
qed

lemma search_range_linear:
  assumes s: "cs < 185"
  shows "(case search_range c (json_key_offsets ! cs + json_single_lengths ! cs) 0 (2 * int (json_range_lengths ! cs) - 2) of
      Some i \<Rightarrow> nat (i div 2) | None \<Rightarrow> json_range_lengths ! cs) = range_index c (range_keys cs)"
proof -
  let ?keys = "json_key_offsets ! cs + json_single_lengths ! cs" and ?n = "json_range_lengths ! cs" and ?ks = "range_keys cs"
  have key: "json_trans_keys ! nat (int ?keys + i) = ?ks ! nat i" if "0 \<le> i" "i < 2 * int ?n" for i
    using range_key[OF s, of "nat i"] that by (simp add: nat_add_distrib)
  have len: "length ?ks = 2 * ?n" and asc: "ascending ?ks" using keys_ok[OF s] by simp_all
  have mono: "json_trans_keys ! nat (int ?keys + i) < json_trans_keys ! nat (int ?keys + j)" if "0 \<le> i" "i < j" "j < 2 * int ?n" for i j
    using key[of i] key[of j] ascending_less[OF asc, of "nat i" "nat j"] that len by simp
  then have mono': "\<forall>i j. 0 \<le> i \<longrightarrow> i < j \<longrightarrow> j < 2 * int ?n \<longrightarrow>
      json_trans_keys ! nat (int ?keys + i) < json_trans_keys ! nat (int ?keys + j)" by blast
  have key1: "json_trans_keys ! nat (int ?keys + i + 1) = ?ks ! Suc (nat i)" if "0 \<le> i" "i + 1 < 2 * int ?n" for i
    using key[of "i + 1"] that by (simp add: add.assoc nat_add_distrib)
  show ?thesis
  proof (cases "search_range c ?keys 0 (2 * int ?n - 2)")
    case None
    have "\<forall>j. 2 * j + 1 < length ?ks \<longrightarrow> \<not> (?ks ! (2 * j) \<le> c \<and> c \<le> ?ks ! (2 * j + 1))"
    proof (intro allI impI)
      fix j assume "2 * j + 1 < length ?ks"
      then show "\<not> (?ks ! (2 * j) \<le> c \<and> c \<le> ?ks ! (2 * j + 1))"
        using search_range_None[OF mono' None, of "2 * int j"] key[of "2 * int j"] key1[of "2 * int j"] len
        by (simp add: nat_mult_distrib)
    qed
    then show ?thesis using None range_index_none[of ?ks c] len by simp
  next
    case (Some i)
    have i: "0 \<le> i" "i \<le> 2 * int ?n - 2" "even i" "json_trans_keys ! nat (int ?keys + i) \<le> c"
        "c \<le> json_trans_keys ! nat (int ?keys + i + 1)"
      using search_range_Some[OF Some] by simp_all
    obtain j where j: "i = 2 * int j" using i(1,3) by (metis evenE int_nat_eq mult_less_0_iff not_less zero_less_numeral)
    have "range_index c ?ks = j"
      using range_index_found[OF asc, of j c] i key[of i] key1[of i] len by (simp add: j nat_mult_distrib)
    with Some j show ?thesis by simp
  qed
qed

lemma transition_linear:
  assumes "cs < 185"
  shows "transition cs c = linear_transition cs c"
  using search_key_linear[OF assms, of c] search_range_linear[OF assms, of c] keys_ok(3)[OF assms]
  by (auto simp: transition_def linear_transition_def Let_def split: option.splits)

end
