(* ===== verification/Rest_Parse.thy ===== *)
theory Rest_Parse
  imports Rest_Search
begin

text \<open>
  What the body parser guarantees. It does not matter how a body is cut into pieces
  (\<open>body_parse_append\<close>); a string never outgrows its array, and the union of number and string is only
  read as it was last written, so that parsing always has a result (\<open>body_parse_ok\<close>). The latter rests on a
  check of the tables that the kernel evaluates (\<open>trans_walk\<close>).
\<close>

section \<open>The union\<close>

text \<open>What an action leaves in the union, and the states with a number or a string in it.\<close>

datatype tag = TAny | TNum | TStr

definition act_tag :: "nat \<Rightarrow> tag \<Rightarrow> tag option" where
  "act_tag a t =
     (if a = 0 then Some TNum
      else if a \<in> {1, 2, 15, 20, 22, 26, 28} then (if t = TNum then Some t else None)
      else if a \<in> {3, 4} then (if t = TStr then Some t else None)
      else if a \<in> {6, 9, 12, 17, 33} then Some TStr
      else Some t)"

fun acts_tag :: "nat list \<Rightarrow> tag \<Rightarrow> tag option" where
  "acts_tag [] t = Some t"
| "acts_tag (a # as) t = (case act_tag a t of None \<Rightarrow> None | Some t \<Rightarrow> acts_tag as t)"

definition state_tag :: "nat \<Rightarrow> tag" where
  "state_tag s =
     (if s \<in> {78, 79, 94, 95, 124, 125, 151, 152, 178, 179} then TNum
      else if s \<in> {11, 12, 15, 26, 27, 28, 40, 41, 42, 105, 106, 107, 164, 165, 166} then TStr
      else TAny)"

text \<open>The actions by their offset.\<close>

lemma actions_at_values:
  "actions_at 0 = []" "actions_at 1 = [0]" "actions_at 3 = [2]" "actions_at 5 = [4]"
  "actions_at 7 = [5]" "actions_at 9 = [7]" "actions_at 11 = [8]" "actions_at 13 = [10]"
  "actions_at 15 = [11]" "actions_at 17 = [13]" "actions_at 19 = [14]" "actions_at 21 = [15]"
  "actions_at 23 = [16]" "actions_at 25 = [18]" "actions_at 27 = [19]" "actions_at 29 = [20]"
  "actions_at 31 = [21]" "actions_at 33 = [22]" "actions_at 35 = [23]" "actions_at 37 = [24]"
  "actions_at 39 = [25]" "actions_at 41 = [26]" "actions_at 43 = [27]" "actions_at 45 = [28]"
  "actions_at 47 = [29]" "actions_at 49 = [30]" "actions_at 51 = [31]" "actions_at 53 = [32]"
  "actions_at 55 = [34]" "actions_at 57 = [0, 1]" "actions_at 60 = [0, 2]"
  "actions_at 63 = [6, 3]" "actions_at 66 = [9, 3]" "actions_at 69 = [12, 3]"
  "actions_at 72 = [17, 3]" "actions_at 75 = [33, 3]"
  by (simp_all add: actions_at_def json_actions_def)

text \<open>A transition of a state with the tag \<open>g\<close>, by its target and its actions.\<close>

definition trans_ok :: "tag \<Rightarrow> nat \<times> nat \<Rightarrow> bool" where
  "trans_ok g = (\<lambda>(targ, off). targ < 185 \<and>
     (case acts_tag (actions_at off) g of
        None \<Rightarrow> False
      | Some r \<Rightarrow> (let t = state_tag targ in t = TAny \<or> t = r)))"

fun walk_trans :: "nat list \<Rightarrow> nat list \<Rightarrow> nat list \<Rightarrow> (nat \<times> nat) list \<Rightarrow> nat \<Rightarrow> nat \<Rightarrow> bool" where
  "walk_trans (off # offs) (n # ns) (r # rs) ts pos st \<longleftrightarrow> off = pos \<and> list_all (trans_ok (state_tag st)) (take (n + r + 1) ts)
     \<and> length (take (n + r + 1) ts) = n + r + 1 \<and> walk_trans offs ns rs (drop (n + r + 1) ts) (pos + n + r + 1) (st + 1)"
| "walk_trans offs ns rs ts pos st \<longleftrightarrow> offs = [] \<and> ns = [] \<and> rs = []"

lemma trans_walk: "walk_trans (tl json_index_offsets) (tl json_single_lengths) (tl json_range_lengths)
    (zip json_trans_targs json_trans_actions) 0 1"
  by (simp add: json_tables trans_ok_def state_tag_def act_tag_def actions_at_values actions_at_values(2)[unfolded One_nat_def] Let_def)

lemma walk_trans_nth:
  "walk_trans offs ns rs ts pos st \<Longrightarrow> i < length offs \<Longrightarrow> k \<le> ns ! i + rs ! i \<Longrightarrow>
     pos \<le> offs ! i \<and> offs ! i - pos + k < length ts \<and> trans_ok (state_tag (st + i)) (ts ! (offs ! i - pos + k))"
proof (induction offs ns rs ts pos st arbitrary: i rule: walk_trans.induct)
  case (1 off offs n ns r rs ts pos st)
  have len: "n + r + 1 \<le> length ts" using 1(2) by (auto simp: min_def split: if_splits)
  show ?case
  proof (cases i)
    case 0
    have "ts ! k \<in> set (take (n + r + 1) ts)" using 1(4) 0 len by (auto simp: in_set_conv_nth intro!: exI[of _ k])
    then have "trans_ok (state_tag st) (ts ! k)" using 1(2) by (auto simp: list_all_iff)
    then show ?thesis using 1 0 len by simp
  next
    case (Suc j)
    have w: "walk_trans offs ns rs (drop (n + r + 1) ts) (pos + n + r + 1) (st + 1)" and j: "j < length offs"
      and k: "k \<le> ns ! j + rs ! j" using 1(2-4) Suc by simp_all
    note IH = 1(1)[OF w j k]
    have e: "n + r + 1 + (offs ! j - (pos + n + r + 1) + k) = offs ! j - pos + k"
      using conjunct1[OF IH] by linarith
    have "offs ! j - pos + k < length ts" using IH len unfolding length_drop by linarith
    moreover have "drop (n + r + 1) ts ! (offs ! j - (pos + n + r + 1) + k) = ts ! (offs ! j - pos + k)"
      using len by (subst nth_drop) (simp_all only: e)
    ultimately have "trans_ok (state_tag (st + 1 + j)) (ts ! (offs ! j - pos + k))" using IH by metis
    then show ?thesis using conjunct1[OF IH] \<open>offs ! j - pos + k < length ts\<close> Suc by simp
  qed
qed simp_all

lemma table_lengths: "length json_index_offsets = 185" "length json_single_lengths = 185" "length json_range_lengths = 185"
  "length json_trans_targs = 618" "length json_trans_actions = 618"
  by (simp_all add: json_tables)

lemma range_index_le: "range_index c ks \<le> length ks div 2"
  by (induction c ks rule: range_index.induct) auto

lemma transition_ok:
  assumes "cs \<noteq> 0" and "cs < 185"
  shows "trans_ok (state_tag cs) (json_trans_targs ! transition cs c, json_trans_actions ! transition cs c)"
proof -
  obtain k where t: "transition cs c = json_index_offsets ! cs + k" and k: "k \<le> json_single_lengths ! cs + json_range_lengths ! cs"
  proof
    let ?k = "let ks = single_keys cs in
       if c \<in> set ks then length (takeWhile (\<lambda>k. k \<noteq> c) ks) else length ks + range_index c (range_keys cs)"
    show "transition cs c = json_index_offsets ! cs + ?k"
      by (simp only: transition_linear[OF assms(2)] linear_transition_def)
    show "?k \<le> json_single_lengths ! cs + json_range_lengths ! cs"
      using range_index_le[of c "range_keys cs"] length_takeWhile_le[of "\<lambda>k. k \<noteq> c" "single_keys cs"] keys_ok(3,4)[OF assms(2)]
      by (auto simp: Let_def)
  qed
  obtain i where i: "cs = Suc i" using assms(1) by (cases cs) auto
  have tl: "tl xs ! i = xs ! cs" if "length xs = 185" for xs :: "nat list"
    using that assms(2) i by (simp add: nth_tl)
  have i': "i < length (tl json_index_offsets)" and k': "k \<le> tl json_single_lengths ! i + tl json_range_lengths ! i"
    using assms(2) i k by (simp_all add: table_lengths tl)
  note W = walk_trans_nth[OF trans_walk i' k']
  have w: "trans_ok (state_tag cs) (zip json_trans_targs json_trans_actions ! (json_index_offsets ! cs + k))"
    using conjunct2[OF conjunct2[OF W]] unfolding tl[OF table_lengths(1)] by (simp only: i plus_1_eq_Suc diff_zero)
  have w2: "json_index_offsets ! cs + k < 618"
    using conjunct1[OF conjunct2[OF W]] unfolding tl[OF table_lengths(1)] by (simp add: table_lengths)
  have "zip json_trans_targs json_trans_actions ! (json_index_offsets ! cs + k) =
      (json_trans_targs ! (json_index_offsets ! cs + k), json_trans_actions ! (json_index_offsets ! cs + k))"
    using w2 by (intro nth_zip) (simp_all add: table_lengths)
  with w show ?thesis by (simp only: t)
qed

section \<open>Steps of the parser\<close>

fun scratch_tag :: "scratch \<Rightarrow> tag" where
  "scratch_tag Unset = TAny"
| "scratch_tag (Num s d) = TNum"
| "scratch_tag (Str f) = TStr"

definition tag_ok :: "tag \<Rightarrow> rest_body \<Rightarrow> bool" where
  "tag_ok g b \<longleftrightarrow> g = TAny \<or> g = scratch_tag (b_scratch b)"

definition text_ok :: "rest_body \<Rightarrow> bool" where
  "text_ok b \<longleftrightarrow> (\<forall>f. length (text_of f b) \<le> text_max f)"

lemma text_ok_iff: "text_ok b \<longleftrightarrow> length (b_symbol b) \<le> 16 \<and> length (b_accnt b) \<le> 16 \<and> length (b_instr b) \<le> 16
    \<and> length (b_ref b) \<le> 64 \<and> length (b_cpty b) \<le> 16"
proof -
  have "(\<forall>f. P f) \<longleftrightarrow> P FSymbol \<and> P FAccnt \<and> P FInstr \<and> P FRef \<and> P FCpty" for P
    by (metis text_field.exhaust)
  then show ?thesis by (simp add: text_ok_def text_max_def)
qed

text \<open>What an action may do to a body.\<close>

definition acted_ok :: "tag \<Rightarrow> rest_body \<times> string \<Rightarrow> acted \<Rightarrow> bool" where
  "acted_ok r = (\<lambda>(b, msg) res. case res of None \<Rightarrow> False | Some ((b', msg'), out) \<Rightarrow> tag_ok r b'
     \<and> (b_cs b' = b_cs b \<or> b_cs b' = json_error) \<and> (out \<longrightarrow> b_cs b' = json_error)
     \<and> (msg' = msg \<or> b_cs b' = json_error) \<and> (text_ok b \<longrightarrow> text_ok b'))"

lemma tag_ok_frame: "b_scratch b' = b_scratch b \<Longrightarrow> tag_ok g b' = tag_ok g b"
  by (simp add: tag_ok_def)

lemma tag_okD:
  "tag_ok TNum b \<Longrightarrow> \<exists>s d. b_scratch b = Num s d" "tag_ok TStr b \<Longrightarrow> \<exists>f. b_scratch b = Str f"
  by (cases "b_scratch b"; simp add: tag_ok_def)+

lemma bits_frame [simp]:
  "b_scratch (set_bit_of m b) = b_scratch b" "b_cs (set_bit_of m b) = b_cs b" "text_of f (set_bit_of m b) = text_of f b"
  "b_scratch (clear_bit_of m b) = b_scratch b" "b_cs (clear_bit_of m b) = b_cs b" "text_of f (clear_bit_of m b) = text_of f b"
  by (cases f; simp add: set_bit_of_def clear_bit_of_def)+

lemma set_text_frame [simp]: "b_scratch (set_text f s b) = b_scratch b" "b_cs (set_text f s b) = b_cs b"
  by (cases f; simp)+

lemma text_of_set_text [simp]: "text_of g (set_text f s b) = (if g = f then s else text_of g b)"
  by (cases f; cases g; simp)

lemma text_of_cs [simp]: "text_of f (b\<lparr>b_cs := x\<rparr>) = text_of f b" "text_of f (b\<lparr>b_scratch := y\<rparr>) = text_of f b"
  by (cases f; simp)+

lemma act_value_ok:
  assumes "a \<le> 4" and "act_tag a g = Some r" and "tag_ok g b"
  shows "acted_ok r (b, msg) (act_value a c (b, msg))"
proof -
  have a: "a = 0 \<or> a = 1 \<or> a = 2 \<or> a = 3 \<or> a = 4" using assms(1) by linarith
  have num: "a = 1 \<or> a = 2 \<Longrightarrow> g = TNum \<and> r = TNum" and str: "a = 3 \<or> a = 4 \<Longrightarrow> g = TStr \<and> r = TStr" and zero: "a = 0 \<Longrightarrow> r = TNum"
    using assms(2) by (auto simp: act_tag_def split: if_splits)
  from a show ?thesis
  proof (elim disjE)
    assume "a = 0"
    with zero show ?thesis by (simp add: acted_ok_def act_value_def tag_ok_def text_ok_iff)
  next
    assume a: "a = 1"
    then obtain s d where "b_scratch b = Num s d" using num assms(3) tag_okD by blast
    with a num show ?thesis by (simp add: acted_ok_def act_value_def tag_ok_def text_ok_iff)
  next
    assume a: "a = 2"
    then obtain s d where "b_scratch b = Num s d" using num assms(3) tag_okD by blast
    with a num show ?thesis by (simp add: acted_ok_def act_value_def tag_ok_def text_ok_iff)
  next
    assume a: "a = 3"
    then obtain f where "b_scratch b = Str f" using str assms(3) tag_okD by blast
    with a str show ?thesis by (simp add: acted_ok_def act_value_def tag_ok_def text_ok_def)
  next
    assume a: "a = 4"
    then obtain f where "b_scratch b = Str f" using str assms(3) tag_okD by blast
    with a str show ?thesis by (auto simp: acted_ok_def act_value_def tag_ok_def text_ok_def)
  qed
qed

lemma body_num_tag: "tag_ok TNum b \<Longrightarrow> \<exists>n. body_num b = Some n"
  using tag_okD(1)[of b] by (auto simp: body_num_def)

lemma act_tag_plain: "act_tag a g = Some r \<Longrightarrow> a \<notin> {0, 6, 9, 12, 17, 33} \<Longrightarrow> r = g"
  by (auto simp: act_tag_def split: if_splits)

lemma act_ident_ok:
  assumes "act_tag a g = Some r" and "tag_ok g b" and "4 < a" "a \<le> 18"
  shows "acted_ok r (b, msg) (act_ident a (b, msg))"
proof -
  have "a = 5 \<or> a = 6 \<or> a = 7 \<or> a = 8 \<or> a = 9 \<or> a = 10 \<or> a = 11 \<or> a = 12 \<or> a = 13 \<or> a = 14 \<or> a = 15 \<or> a = 16 \<or> a = 17 \<or> a = 18" using assms(3,4) by presburger
  then consider "a \<in> {6, 9, 12, 17}" | "a = 15" | "a \<in> {5, 7, 8, 10, 11, 13, 14, 16, 18}" by fastforce
  then show ?thesis
  proof cases
    case 1
    then have "r = TStr" using assms(1) by (auto simp: act_tag_def)
    with 1 show ?thesis by (auto simp: acted_ok_def act_ident_def tag_ok_def text_ok_iff)
  next
    case 2
    then have g: "g = TNum" "r = TNum" using assms(1) by (auto simp: act_tag_def split: if_splits)
    then obtain n where "body_num b = Some n" using body_num_tag assms(2) by blast
    with 2 show ?thesis using assms(2) g
      by (simp add: acted_ok_def tag_ok_def act_ident_def text_ok_iff set_bit_of_def)
  next
    case 3
    then have "r = g" using assms(1) act_tag_plain by fastforce
    with 3 assms(2) show ?thesis
      by (elim insertE emptyE) (simp_all add: acted_ok_def tag_ok_def act_ident_def text_ok_iff set_bit_of_def clear_bit_of_def)
  qed
qed

lemma act_order_ok:
  assumes "act_tag a g = Some r" and "tag_ok g b" and "18 < a" "a \<le> 34"
  shows "acted_ok r (b, msg) (act_order a (b, msg))"
proof -
  have "a = 19 \<or> a = 20 \<or> a = 21 \<or> a = 22 \<or> a = 23 \<or> a = 24 \<or> a = 25 \<or> a = 26 \<or> a = 27 \<or> a = 28 \<or> a = 29 \<or> a = 30 \<or> a = 31 \<or> a = 32 \<or> a = 33 \<or> a = 34" using assms(3,4) by presburger
  then consider "a = 33" | "a = 20" | "a \<in> {22, 26, 28}" | "a \<in> {19, 21, 23, 24, 25, 27, 29, 30, 31, 32, 34}" by fastforce
  then show ?thesis
  proof cases
    case 1
    then have "r = TStr" using assms(1) by (auto simp: act_tag_def)
    with 1 show ?thesis by (simp add: acted_ok_def act_order_def tag_ok_def text_ok_iff)
  next
    case 2
    then have g: "g = TNum" "r = TNum" using assms(1) by (auto simp: act_tag_def split: if_splits)
    then obtain s d where "b_scratch b = Num s d" using tag_okD assms(2) by blast
    with 2 g show ?thesis by (auto simp: acted_ok_def act_order_def tag_ok_def text_ok_iff body_num_def set_bit_of_def)
  next
    case 3
    then have g: "g = TNum" "r = TNum" using assms(1) by (auto simp: act_tag_def split: if_splits)
    then obtain n where "body_num b = Some n" using body_num_tag assms(2) by blast
    with 3 show ?thesis using assms(2) g
      by (elim insertE emptyE) (simp_all add: acted_ok_def tag_ok_def act_order_def text_ok_iff set_bit_of_def)
  next
    case 4
    then have "r = g" using assms(1) act_tag_plain by fastforce
    with 4 assms(2) show ?thesis
      by (elim insertE emptyE) (simp_all add: acted_ok_def tag_ok_def act_order_def text_ok_iff set_bit_of_def clear_bit_of_def)
  qed
qed

lemma do_action_ok:
  assumes "act_tag a g = Some r" and "tag_ok g b"
  shows "acted_ok r (b, msg) (do_action a c (b, msg))"
proof -
  consider "a \<le> 4" | "4 < a" "a \<le> 18" | "18 < a" "a \<le> 34" | "34 < a" by linarith
  then show ?thesis
  proof cases
    case 4
    then have "r = g" using assms(1) act_tag_plain by fastforce
    with 4 assms(2) show ?thesis by (simp add: do_action_def acted_ok_def)
  qed (use act_value_ok[OF _ assms] act_ident_ok[OF assms] act_order_ok[OF assms] in \<open>simp_all add: do_action_def\<close>)
qed

lemma run_actions_ok:
  "acts_tag as g = Some r \<Longrightarrow> tag_ok g b \<Longrightarrow> \<exists>b' msg' out. run_actions as c (b, msg) = Some ((b', msg'), out)
     \<and> (tag_ok r b' \<or> b_cs b' = json_error) \<and> (b_cs b' = b_cs b \<or> b_cs b' = json_error) \<and> (out \<longrightarrow> b_cs b' = json_error)
     \<and> (msg' = msg \<or> b_cs b' = json_error) \<and> (text_ok b \<longrightarrow> text_ok b')"
proof (induction as arbitrary: g b msg)
  case Nil
  then show ?case by auto
next
  case (Cons a as)
  obtain q where q: "act_tag a g = Some q" "acts_tag as q = Some r" using Cons.prems(1) by (auto split: option.splits)
  obtain b1 msg1 out where A: "do_action a c (b, msg) = Some ((b1, msg1), out)" "tag_ok q b1"
      "b_cs b1 = b_cs b \<or> b_cs b1 = json_error" "out \<longrightarrow> b_cs b1 = json_error"
      "msg1 = msg \<or> b_cs b1 = json_error" "text_ok b \<longrightarrow> text_ok b1"
    using do_action_ok[OF q(1) Cons.prems(2), of msg c] by (auto simp: acted_ok_def split: option.splits prod.splits)
  show ?case
  proof (cases out)
    case True
    then show ?thesis using A by auto
  next
    case False
    then show ?thesis using A Cons.IH[OF q(2) A(2), of msg1] by auto
  qed
qed

text \<open>What holds between two pieces of a body.\<close>

definition body_ok :: "rest_body \<Rightarrow> bool" where
  "body_ok b \<longleftrightarrow> b_cs b < 185 \<and> tag_ok (state_tag (b_cs b)) b \<and> text_ok b"

lemma body_ok_reset: "body_ok (body_reset True b)"
  by (simp add: body_ok_def body_reset_def json_start_def state_tag_def tag_ok_def text_ok_iff)

lemma parse_step_ok:
  assumes ok: "body_ok b" and cs: "b_cs b \<noteq> json_error"
  shows "\<exists>b' msg' out. run_actions (actions_at (json_trans_actions ! transition (b_cs b) c)) c
        (b\<lparr>b_cs := json_trans_targs ! transition (b_cs b) c\<rparr>, msg) = Some ((b', msg'), out)
     \<and> body_ok b' \<and> (out \<longrightarrow> b_cs b' = json_error) \<and> (msg' = msg \<or> b_cs b' = json_error)"
proof -
  let ?t = "transition (b_cs b) c"
  have "trans_ok (state_tag (b_cs b)) (json_trans_targs ! ?t, json_trans_actions ! ?t)"
    using transition_ok ok cs by (simp add: body_ok_def json_error_def)
  then obtain r where r: "json_trans_targs ! ?t < 185" "acts_tag (actions_at (json_trans_actions ! ?t)) (state_tag (b_cs b)) = Some r"
      "state_tag (json_trans_targs ! ?t) = TAny \<or> state_tag (json_trans_targs ! ?t) = r"
    by (auto simp: trans_ok_def Let_def split: option.splits)
  have tag: "tag_ok (state_tag (b_cs b)) (b\<lparr>b_cs := json_trans_targs ! ?t\<rparr>)" and tx: "text_ok (b\<lparr>b_cs := json_trans_targs ! ?t\<rparr>)"
    using ok by (simp_all add: body_ok_def tag_ok_def text_ok_def)
  obtain b' msg' out where A: "run_actions (actions_at (json_trans_actions ! ?t)) c (b\<lparr>b_cs := json_trans_targs ! ?t\<rparr>, msg) = Some ((b', msg'), out)"
      "tag_ok r b' \<or> b_cs b' = json_error" "b_cs b' = json_trans_targs ! ?t \<or> b_cs b' = json_error"
      "out \<longrightarrow> b_cs b' = json_error" "msg' = msg \<or> b_cs b' = json_error" "text_ok b'"
    using run_actions_ok[OF r(2) tag, of c msg] tx by auto
  have e: "state_tag json_error = TAny" "json_error < 185" by (simp_all add: state_tag_def json_error_def)
  have any: "tag_ok TAny b'" by (simp add: tag_ok_def)
  have "body_ok b'"
    unfolding body_ok_def using A(2,3,6) r(1,3) e any by metis
  then show ?thesis using A by blast
qed

lemma parse_loop_ok:
  "body_ok b \<Longrightarrow> \<exists>b' msg'. parse_loop cs (b, msg) = Some (b', msg') \<and> body_ok b' \<and> (msg' = msg \<or> b_cs b' = json_error)"
proof (induction cs arbitrary: b msg)
  case (Cons c cs)
  show ?case
  proof (cases "b_cs b = json_error")
    case False
    obtain b1 msg1 out where A: "run_actions (actions_at (json_trans_actions ! transition (b_cs b) c)) c
        (b\<lparr>b_cs := json_trans_targs ! transition (b_cs b) c\<rparr>, msg) = Some ((b1, msg1), out)"
        "body_ok b1" "out \<longrightarrow> b_cs b1 = json_error" "msg1 = msg \<or> b_cs b1 = json_error"
      using parse_step_ok[OF Cons.prems False] by blast
    show ?thesis
    proof (cases "b_cs b1 = json_error")
      case True
      then have "parse_loop cs (b1, msg1) = Some (b1, msg1)" by (cases cs) simp_all
      then show ?thesis using A False True by (auto simp: Let_def)
    next
      case ne: False
      then show ?thesis using A Cons.IH[OF A(2), of msg1] False by (auto simp: Let_def)
    qed
  qed (use Cons.prems in simp)
qed simp

lemma parse_loop_error: "b_cs b = json_error \<Longrightarrow> parse_loop cs (b, msg) = Some (b, msg)"
  by (cases cs) simp_all

lemma parse_loop_append:
  "body_ok b \<Longrightarrow> parse_loop (xs @ ys) (b, msg) =
     (case parse_loop xs (b, msg) of None \<Rightarrow> None | Some z \<Rightarrow> parse_loop ys z)"
proof (induction xs arbitrary: b msg)
  case (Cons c cs)
  show ?case
  proof (cases "b_cs b = json_error")
    case False
    obtain b1 msg1 out where A: "run_actions (actions_at (json_trans_actions ! transition (b_cs b) c)) c
        (b\<lparr>b_cs := json_trans_targs ! transition (b_cs b) c\<rparr>, msg) = Some ((b1, msg1), out)"
        "body_ok b1" "out \<longrightarrow> b_cs b1 = json_error"
      using parse_step_ok[OF Cons.prems False] by blast
    then show ?thesis using False Cons.IH[OF A(2), of msg1] by (cases out) (simp_all add: Let_def parse_loop_error)
  qed (simp add: parse_loop_error)
qed simp

text \<open>Parsing has a result, the body stays consistent, and a string fits its array.\<close>

lemma body_parse_ok:
  assumes "body_ok b"
  shows "\<exists>b'. body_ok b' \<and> (body_parse buf b = Done (b_cs b' \<ge> json_first_final) b' \<and> b_cs b' \<noteq> json_error
    \<or> (\<exists>msg. body_parse buf b = Throw msg b') \<and> b_cs b' = json_error)"
proof -
  obtain b' msg' where "parse_loop buf (b, ''parse error'') = Some (b', msg')" "body_ok b'"
    using parse_loop_ok[OF assms, of buf "''parse error''"] by blast
  then show ?thesis by (intro exI[of _ b']) (auto simp: body_parse_def)
qed

text \<open>How a body is cut into pieces makes no difference.\<close>

lemma body_parse_append:
  assumes ok: "body_ok b"
  shows "body_parse (xs @ ys) b = (case body_parse xs b of
    Done _ b' \<Rightarrow> body_parse ys b' | Throw msg b' \<Rightarrow> Throw msg b' | Undef \<Rightarrow> Undef)"
proof -
  obtain b' msg' where p: "parse_loop xs (b, ''parse error'') = Some (b', msg')" "msg' = ''parse error'' \<or> b_cs b' = json_error"
    using parse_loop_ok[OF ok, of xs "''parse error''"] by blast
  then show ?thesis
    by (auto simp: body_parse_def parse_loop_append[OF ok] parse_loop_error)
qed

text \<open>After an error every further piece fails.\<close>

lemma body_parse_stays_bad: "b_cs b = json_error \<Longrightarrow> body_parse buf b = Throw ''parse error'' b"
  by (simp add: body_parse_def parse_loop_error)

end
