(* ===== verification/Http_Conn.thy ===== *)
theory Http_Conn
  imports Http_Sess Rest_Guard Rest_Parse
begin

text \<open>
  What a connection does with the bytes that arrive: it assembles requests from the parser's events and answers each in
  turn. The theory proves that \<open>HttpSess\<close> does, that its state is well-formed, and that it watches for
  writing while there is something to write.
\<close>

section \<open>What a connection does\<close>

text \<open>
  The requests in the events, as they are built up: each with the clock at its end. Behind a fault of the request that is
  being built there are no more; otherwise there is what has been built so far.
\<close>

definition build :: "http_event \<Rightarrow> header_elem \<times> http_request \<Rightarrow> (header_elem \<times> http_request) option" where
  "build ev = (\<lambda>(el, r). case ev of
     EvUrl t \<Rightarrow> Some (el, append_url t r)
   | EvStatus t \<Rightarrow> None
   | EvHeaderField t \<Rightarrow> Some (FieldElem, append_header_field t (el \<noteq> FieldElem) r)
   | EvHeaderValue t \<Rightarrow> Some (ValueElem, append_header_value t (el \<noteq> ValueElem) r)
   | EvHeadersEnd m \<Rightarrow> Some (el, set_method m r)
   | EvBody t \<Rightarrow> (case append_body t r of Done _ r \<Rightarrow> Some (el, r) | _ \<Rightarrow> None)
   | _ \<Rightarrow> Some (el, r))"

fun assemble ::
    "(string \<Rightarrow> url_fields option) \<Rightarrow> http_event list \<Rightarrow> header_elem \<times> http_request
      \<Rightarrow> (http_request \<times> nanos) list \<times> (header_elem \<times> http_request) option" where
  "assemble parse_url [] z = ([], Some z)"
| "assemble parse_url (EvMessageEnd clock # evs) z = (case parse_url (hr_url (snd z)) of
     None \<Rightarrow> ([], None)
   | Some uf \<Rightarrow>
       let r = (snd z)\<lparr>hr_fields := uf\<rparr>; (reqs, rest) = assemble parse_url evs (fst z, request_clear r)
       in ((r, clock) # reqs, rest))"
| "assemble parse_url (ev # evs) z = (case build ev z of None \<Rightarrow> ([], None) | Some z \<Rightarrow> assemble parse_url evs z)"

text \<open>
  The answers to requests in turn, and the engine behind them. There are none where a request has no
  result, or where the length of a text has no room.
\<close>

fun exchange ::
    "(int \<Rightarrow> jday) \<Rightarrow> (err \<Rightarrow> string) \<Rightarrow> (http_request \<times> nanos) list \<Rightarrow> app \<Rightarrow> (string \<times> app) option" where
  "exchange local_jd what [] st = Some ([], st)"
| "exchange local_jd what ((req, clock) # reqs) st =
     (let r = routed local_jd req (get_time clock req) (path_tokens req) st
      in if request_path req = [] \<or> r = Undef \<or> \<not> fits what r then None
         else (case exchange local_jd what reqs (state_of st r) of
                 None \<Rightarrow> None | Some (t, st') \<Rightarrow> Some (answer what req r @ t, st')))"

section \<open>The state of a connection\<close>

text \<open>A request as the callbacks leave it: its strings within their arrays, its body as the parser leaves it.\<close>

definition request_wf :: "http_request \<Rightarrow> bool" where
  "request_wf r \<longleftrightarrow> length (hr_url r) \<le> max_url \<and> length (hr_field r) \<le> max_field \<and> length (hr_accnt r) \<le> max_value
     \<and> length (hr_perm r) \<le> max_value \<and> length (hr_time r) \<le> max_value \<and> body_ok (hr_body r) \<and> sided (hr_body r)"

definition sess_inv :: "'p http_sess \<Rightarrow> bool" where
  "sess_inv s \<longleftrightarrow> buf_ok (ss_buf s) \<and> (buf_data (ss_buf s) \<noteq> [] \<longrightarrow> ss_out s) \<and> request_wf (ss_req s)"

lemma request_clear_wf: "request_wf (request_clear r)"
  by (simp add: request_wf_def request_clear_def body_ok_reset body_reset_sided)

lemma make_sess_inv: "sess_inv (make_http_sess p req now)"
  by (simp add: sess_inv_def make_http_sess_def make_http_stream_def buf_new_ok request_clear_wf)

lemma append_body_wf:
  assumes "request_wf r"
  shows "case append_body t r of Done _ r' \<Rightarrow> request_wf r' | Throw _ r' \<Rightarrow> request_wf r' | Undef \<Rightarrow> False"
proof -
  have b: "body_ok (hr_body r)" "sided (hr_body r)" using assms by (simp_all add: request_wf_def)
  obtain b' where "body_ok b'" "body_parse (map signed_code t) (hr_body r) = Done (b_cs b' \<ge> json_first_final) b'
      \<or> (\<exists>msg. body_parse (map signed_code t) (hr_body r) = Throw msg b')"
    using body_parse_ok[OF b(1), of "map signed_code t"] by blast
  with body_parse_sided[OF b(2), of "map signed_code t"] assms show ?thesis
    by (auto simp: append_body_def request_wf_def)
qed

lemma build_wf: "build ev (el, r) = Some (el', r') \<Longrightarrow> request_wf r \<Longrightarrow> request_wf r'"
proof (cases ev)
  case (EvBody t)
  assume "build ev (el, r) = Some (el', r')" "request_wf r"
  with EvBody append_body_wf[of r t] show ?thesis by (auto simp: build_def split: outcome.splits)
qed (auto simp: build_def request_wf_def append_url_def append_header_field_def append_header_value_def set_method_def
    buf_append_def buf_assign_def max_url_def max_field_def max_value_def Let_def split: header_slot.splits if_splits)

section \<open>Events\<close>

lemma buf_empty_iff: "buf_ok b \<Longrightarrow> buf_empty b \<longleftrightarrow> buf_data b = []"
  by (auto simp: buf_ok_def buf_empty_def buf_size_def buf_data_def)

text \<open>An event inside a message only changes the request that is being built.\<close>

definition same_output :: "'p http_sess \<Rightarrow> 'p http_sess \<Rightarrow> bool" where
  "same_output s s' \<longleftrightarrow> ss_os s' = ss_os s \<and> ss_out s' = ss_out s"

lemma on_event_build:
  assumes ev: "\<forall>clock. ev \<noteq> EvMessageEnd clock" and inv: "sess_inv s"
  shows "\<exists>s'. on_event parse_url local_jd what ev (s, sv) = Some (build ev (ss_elem s, ss_req s) \<noteq> None, s', sv)
    \<and> same_output s s' \<and> sess_inv s'
    \<and> (\<forall>z. build ev (ss_elem s, ss_req s) = Some z \<longrightarrow> z = (ss_elem s', ss_req s'))"
proof -
  have wf: "request_wf (ss_req s)" using inv by (simp add: sess_inv_def)
  have keep: "sess_inv s'" if "same_output s s'" "request_wf (ss_req s')" for s'
    using inv that by (simp add: sess_inv_def same_output_def)
  show ?thesis
  proof (cases ev)
    case (EvBody t)
    then show ?thesis using append_body_wf[OF wf, of t] keep
      by (auto simp: on_event_def build_def on_body_def same_output_def split: outcome.splits)
  next
    case (EvStatus t)
    then show ?thesis using inv by (auto simp: on_event_def build_def same_output_def)
  qed (use ev inv build_wf[of ev "ss_elem s" "ss_req s"] wf keep in \<open>auto simp: on_event_def build_def on_url_def
    on_header_field_def on_header_value_def on_request_def same_output_def sess_inv_def Let_def\<close>)
qed

lemma on_message_end_answer:
  assumes inv: "sess_inv s" and url: "parse_url (hr_url (ss_req s)) = Some uf" and req: "req = (ss_req s)\<lparr>hr_fields := uf\<rparr>"
    and r: "r = routed local_jd req (get_time clock req) (path_tokens req) (rs_app sv)"
    and ok: "request_path req \<noteq> []" "r \<noteq> Undef" "fits what r"
  shows "\<exists>s' sv'. on_message_end parse_url local_jd what clock (s, sv) = Some (True, s', sv') \<and> rs_app sv' = state_of (rs_app sv) r
    \<and> sess_inv s' \<and> buf_data (ss_buf s') = buf_data (ss_buf s) @ answer what req r
    \<and> ss_elem s' = ss_elem s \<and> ss_req s' = request_clear req"
proof -
  have b: "buf_ok (ss_buf s)" using inv by (simp add: sess_inv_def)
  from handle_answer[OF b ok(3) r] ok(1,2) obtain sv' os' where
    h: "handle_request local_jd what clock req (sv, ss_os s) = Some (sv', os')" "rs_app sv' = state_of (rs_app sv) r"
      "buf_ok (hs_buf os')" "buf_data (hs_buf os') = buf_data (ss_buf s) @ answer what req r" by auto
  have out: "\<not> buf_empty (ss_buf s) \<Longrightarrow> ss_out s" using inv by (simp add: sess_inv_def buf_empty_iff)
  show ?thesis
    using url h out by (auto simp: on_message_end_def request_flush_def req sess_inv_def request_clear_wf Let_def)
qed

lemma on_message_end_fault:
  assumes inv: "sess_inv s" and url: "parse_url (hr_url (ss_req s)) = None"
  shows "\<exists>s'. on_message_end parse_url local_jd what clock (s, sv) = Some (False, s', sv) \<and> same_output s s' \<and> sess_inv s'"
  using assms by (auto simp: on_message_end_def request_flush_def sess_inv_def same_output_def request_clear_wf)

text \<open>The events of some input: the requests in them are answered in turn, up to a fault.\<close>

lemma run_events_exchange:
  assumes "assemble parse_url evs (ss_elem s, ss_req s) = (reqs, rest)" and "exchange local_jd what reqs (rs_app sv) = Some (t, st')"
    and "sess_inv s"
  shows "\<exists>s' sv'. run_events parse_url local_jd what evs (s, sv) = Some (rest \<noteq> None, s', sv') \<and> rs_app sv' = st' \<and> sess_inv s'
    \<and> buf_data (ss_buf s') = buf_data (ss_buf s) @ t \<and> (\<forall>z. rest = Some z \<longrightarrow> z = (ss_elem s', ss_req s'))"
  using assms
proof (induction evs arbitrary: s sv reqs t)
  case Nil
  then show ?case by auto
next
  case (Cons ev evs)
  show ?case
  proof (cases "\<exists>clock. ev = EvMessageEnd clock")
    case True
    then obtain clock where ev: "ev = EvMessageEnd clock" by blast
    show ?thesis
    proof (cases "parse_url (hr_url (ss_req s))")
      case None
      then show ?thesis using Cons.prems on_message_end_fault[where s = s and parse_url = parse_url, OF Cons.prems(3) None, of local_jd what clock sv]
        by (auto simp: ev on_event_def same_output_def)
    next
      case (Some uf)
      define req where "req = (ss_req s)\<lparr>hr_fields := uf\<rparr>"
      define r where "r = routed local_jd req (get_time clock req) (path_tokens req) (rs_app sv)"
      obtain reqs' rest' where a: "assemble parse_url evs (ss_elem s, request_clear req) = (reqs', rest')" by fastforce
      have rs: "reqs = (req, clock) # reqs'" "rest = rest'" using Cons.prems(1) a by (simp_all add: ev Some Let_def req_def[symmetric])
      from Cons.prems(2) obtain t' where ok: "request_path req \<noteq> []" "r \<noteq> Undef" "fits what r"
        and e: "exchange local_jd what reqs' (state_of (rs_app sv) r) = Some (t', st')" and t: "t = answer what req r @ t'"
        by (auto simp: rs Let_def r_def[symmetric] split: if_splits option.splits prod.splits)
      from on_message_end_answer[where s = s and sv = sv and parse_url = parse_url, OF Cons.prems(3) Some req_def r_def ok] obtain s1 sv1 where
        m: "on_message_end parse_url local_jd what clock (s, sv) = Some (True, s1, sv1)" "rs_app sv1 = state_of (rs_app sv) r"
          "sess_inv s1" "buf_data (ss_buf s1) = buf_data (ss_buf s) @ answer what req r" "ss_elem s1 = ss_elem s"
          "ss_req s1 = request_clear req" by blast
      have "assemble parse_url evs (ss_elem s1, ss_req s1) = (reqs', rest)" "exchange local_jd what reqs' (rs_app sv1) = Some (t', st')"
        using a e m rs(2) by simp_all
      from Cons.IH[OF this m(3)] m(1,4) t show ?thesis by (auto simp: ev on_event_def)
    qed
  next
    case False
    then have no: "\<forall>clock. ev \<noteq> EvMessageEnd clock" by blast
    from on_event_build[OF no Cons.prems(3), of parse_url local_jd what sv] obtain s1 where
      o: "on_event parse_url local_jd what ev (s, sv) = Some (build ev (ss_elem s, ss_req s) \<noteq> None, s1, sv)" "same_output s s1" "sess_inv s1"
        "\<forall>z. build ev (ss_elem s, ss_req s) = Some z \<longrightarrow> z = (ss_elem s1, ss_req s1)" by blast
    have a: "assemble parse_url (ev # evs) (ss_elem s, ss_req s) = (case build ev (ss_elem s, ss_req s) of
        None \<Rightarrow> ([], None) | Some z \<Rightarrow> assemble parse_url evs z)" using no by (cases ev) simp_all
    show ?thesis
    proof (cases "build ev (ss_elem s, ss_req s)")
      case None
      then show ?thesis using Cons.prems(1,2) a o by (auto simp: same_output_def)
    next
      case (Some z)
      then have "assemble parse_url evs (ss_elem s1, ss_req s1) = (reqs, rest)" using Cons.prems(1) a o(4) by simp
      from Cons.IH[OF this Cons.prems(2) o(3)] o(1,2) Some show ?thesis by (auto simp: same_output_def)
    qed
  qed
qed

section \<open>Events in pieces\<close>

lemma assemble_append:
  "assemble parse_url (xs @ ys) z = (case assemble parse_url xs z of
     (rs, None) \<Rightarrow> (rs, None)
   | (rs, Some z') \<Rightarrow> (rs @ fst (assemble parse_url ys z'), snd (assemble parse_url ys z')))"
proof (induction xs arbitrary: z)
  case (Cons ev xs)
  show ?case
  proof (cases "\<exists>clock. ev = EvMessageEnd clock")
    case True
    then show ?thesis by (auto simp: Cons.IH Let_def split: option.split prod.split)
  next
    case False
    then have "assemble parse_url (ev # zs) z = (case build ev z of None \<Rightarrow> ([], None) | Some z \<Rightarrow> assemble parse_url zs z)" for zs
      by (cases ev) auto
    then show ?thesis by (simp add: Cons.IH split: option.split)
  qed
qed (simp add: surjective_pairing)

lemma assemble_wf:
  "assemble parse_url evs (el, r) = (reqs, Some (el', r')) \<Longrightarrow> request_wf r \<Longrightarrow> request_wf r'"
proof (induction evs arbitrary: el r reqs)
  case (Cons ev evs)
  show ?case
  proof (cases "\<exists>clock. ev = EvMessageEnd clock")
    case True
    then show ?thesis using Cons by (auto simp: Let_def request_clear_wf split: option.splits prod.splits)
  next
    case False
    then have a: "assemble parse_url (ev # evs) (el, r) = (case build ev (el, r) of None \<Rightarrow> ([], None) | Some z \<Rightarrow> assemble parse_url evs z)"
      by (cases ev) auto
    show ?thesis
    proof (cases "build ev (el, r)")
      case (Some z)
      obtain el1 r1 where z: "z = (el1, r1)" by fastforce
      have "request_wf r1" using build_wf Some z Cons.prems(2) by blast
      then show ?thesis using Cons.IH Cons.prems(1) a Some z by simp
    qed (use Cons.prems a in simp)
  qed
qed simp

text \<open>The parser may give a text in several events.\<close>

inductive cuts_event :: "http_event \<Rightarrow> http_event list \<Rightarrow> bool" where
  cut_url: "cuts_event (EvUrl (a @ b)) [EvUrl a, EvUrl b]"
| cut_field: "cuts_event (EvHeaderField (a @ b)) [EvHeaderField a, EvHeaderField b]"
| cut_value: "cuts_event (EvHeaderValue (a @ b)) [EvHeaderValue a, EvHeaderValue b]"
| cut_body: "cuts_event (EvBody (a @ b)) [EvBody a, EvBody b]"

inductive cuts :: "http_event list \<Rightarrow> http_event list \<Rightarrow> bool" where
  cuts_refl: "cuts evs evs"
| cuts_step: "cuts evs (xs @ ev # ys) \<Longrightarrow> cuts_event ev pieces \<Longrightarrow> cuts evs (xs @ pieces @ ys)"

lemma buf_append_append: "buf_append n (buf_append n s a) b = buf_append n s (a @ b)"
  by (simp add: buf_append_def take_append min_def)

lemma append_body_append:
  assumes "request_wf r"
  shows "append_body (a @ b) r = Done u r' \<longleftrightarrow> (\<exists>r1. append_body a r = Done () r1 \<and> append_body b r1 = Done () r')"
proof -
  have "body_ok (hr_body r)" using assms by (simp add: request_wf_def)
  from body_parse_append[OF this, of "map signed_code a" "map signed_code b"] show ?thesis
    by (cases "body_parse (map signed_code a) (hr_body r)") (auto simp: append_body_def split: outcome.splits)
qed

lemma cuts_event_build:
  assumes "cuts_event ev pieces" and wf: "request_wf r"
  shows "assemble parse_url [ev] (el, r) = assemble parse_url pieces (el, r)"
  using assms(1)
proof cases
  case (cut_url a b)
  then show ?thesis by (simp add: build_def append_url_def buf_append_append)
next
  case (cut_field a b)
  then show ?thesis by (simp add: build_def append_header_field_def buf_assign_def buf_append_def min_def)
next
  case (cut_value a b)
  then show ?thesis by (auto simp: build_def append_header_value_def Let_def buf_append_append split: header_slot.splits)
next
  case (cut_body a b)
  have "build (EvBody (a @ b)) (el, r) = (case build (EvBody a) (el, r) of None \<Rightarrow> None | Some z \<Rightarrow> build (EvBody b) z)"
  proof (cases "append_body (a @ b) r")
    case (Done u r')
    then show ?thesis using append_body_append[OF wf, of a b "()" r'] by (auto simp: build_def)
  next
    case (Throw e r')
    then show ?thesis using append_body_append[OF wf, of a b "()"] by (cases "append_body a r") (auto simp: build_def split: outcome.splits)
  next
    case Undef
    then show ?thesis using append_body_append[OF wf, of a b "()"] by (cases "append_body a r") (auto simp: build_def split: outcome.splits)
  qed
  then show ?thesis using cut_body by (auto split: option.split)
qed

lemma cuts_assemble:
  assumes "cuts evs evs'" and wf: "request_wf r"
  shows "assemble parse_url evs' (el, r) = assemble parse_url evs (el, r)"
  using assms(1)
proof induction
  case (cuts_step evs xs ev ys pieces)
  have "assemble parse_url (pieces @ ys) z = assemble parse_url ([ev] @ ys) z" if "assemble parse_url xs (el, r) = (rs, Some z)" for rs z
    using cuts_event_build[OF cuts_step(2), of "snd z" parse_url "fst z"] assemble_wf[of parse_url xs el r rs "fst z" "snd z"] that wf
    by (simp only: assemble_append prod.collapse)
  then show ?case unfolding cuts_step(3)[symmetric] assemble_append[of parse_url xs "pieces @ ys"]
      assemble_append[of parse_url xs "ev # ys"]
    by (auto split: prod.split option.split)
qed simp

section \<open>Reading and writing\<close>

lemma readable_answers:
  assumes "sess_inv s" and "buf \<noteq> []" and "execute (ss_parser s) buf = (evs, accepted, p)"
    and "assemble parse_url evs (ss_elem s, ss_req s) = (reqs, rest)" and "exchange local_jd what reqs (rs_app sv) = Some (t, st')"
  shows "\<exists>c sv'. on_readable execute parse_url local_jd what (Some buf) now (s, sv) = Some (c, sv') \<and> rs_app sv' = st'
    \<and> (if rest \<noteq> None \<and> accepted
       then \<exists>s'. c = Open s' \<and> sess_inv s' \<and> buf_data (ss_buf s') = buf_data (ss_buf s) @ t
         \<and> ss_parser s' = p \<and> rest = Some (ss_elem s', ss_req s') \<and> ss_deadline s' = now + 5000000000
       else c = Closed)"
proof -
  from run_events_exchange[OF assms(4,5,1)] obtain s' sv' where
    e: "run_events parse_url local_jd what evs (s, sv) = Some (rest \<noteq> None, s', sv')" "rs_app sv' = st'" "sess_inv s'"
      "buf_data (ss_buf s') = buf_data (ss_buf s) @ t" "\<forall>z. rest = Some z \<longrightarrow> z = (ss_elem s', ss_req s')" by blast
  show ?thesis
  proof (cases "rest \<noteq> None \<and> accepted")
    case True
    then show ?thesis using e assms(2,3)
      by (intro exI[of _ "Open (s'\<lparr>ss_parser := p, ss_deadline := now + 5000000000\<rparr>)"] exI[of _ sv'])
        (auto simp: on_readable_def sess_parse_def sess_inv_def idle_timeout_def)
  next
    case False
    then show ?thesis using e assms(2,3) by (intro exI[of _ Closed] exI[of _ sv']) (auto simp: on_readable_def sess_parse_def)
  qed
qed

lemma readable_safe:
  assumes "sess_inv s"
    and "\<forall>buf. received = Some buf \<longrightarrow>
      exchange local_jd what (fst (assemble parse_url (fst (execute (ss_parser s) buf)) (ss_elem s, ss_req s))) (rs_app sv) \<noteq> None"
  shows "on_readable execute parse_url local_jd what received now (s, sv) \<noteq> None
    \<and> (\<forall>s' sv'. on_readable execute parse_url local_jd what received now (s, sv) = Some (Open s', sv') \<longrightarrow> sess_inv s')"
proof (cases "received = None \<or> received = Some []")
  case False
  then obtain buf where b: "received = Some buf" "buf \<noteq> []" by (cases received) auto
  obtain evs accepted p where x: "execute (ss_parser s) buf = (evs, accepted, p)" using prod_cases3 by blast
  obtain reqs rest where a: "assemble parse_url evs (ss_elem s, ss_req s) = (reqs, rest)" by fastforce
  obtain t st' where e: "exchange local_jd what reqs (rs_app sv) = Some (t, st')" using assms(2) b(1) x a by auto
  show ?thesis using readable_answers[where s = s and sv = sv and now = now and execute = execute and parse_url = parse_url, OF assms(1) b(2) x a e] b(1) by (auto split: if_splits)
qed (auto simp: on_readable_def)

text \<open>What is sent of the data, and the connection behind it.\<close>

lemma writable_sent:
  assumes inv: "sess_inv s" and n: "n \<le> length (buf_data (ss_buf s))"
  shows "if n = length (buf_data (ss_buf s)) \<and> \<not> keep_alive (ss_parser s) then on_writable keep_alive (Some n) s = Some Closed
    else \<exists>s'. on_writable keep_alive (Some n) s = Some (Open s') \<and> sess_inv s' \<and> buf_data (ss_buf s') = drop n (buf_data (ss_buf s))
      \<and> ss_parser s' = ss_parser s \<and> ss_elem s' = ss_elem s \<and> ss_req s' = ss_req s"
proof -
  have b: "buf_ok (ss_buf s)" using inv by (simp add: sess_inv_def)
  note C = buf_consume_data[OF b n]
  have e: "buf_empty (buf_consume n (ss_buf s)) \<longleftrightarrow> n = length (buf_data (ss_buf s))"
    using buf_empty_iff[OF C(1)] C(2) n by auto
  show ?thesis using C e inv n by (auto simp: on_writable_def sess_inv_def)
qed

end
