(* ===== verification/Request_Props.thy ===== *)
theory Request_Props
  imports Engine_Props
begin

text \<open>
  The properties of the other calls: the revision and the cancellation of one order and of several, the
  trades that are entered by hand and their archiving, the creation and the update of a market.
\<close>

section \<open>One order\<close>

lemma by_id:
  assumes inv: "app_inv local_jd st" and s: "get_sess st accnt = Some s"
  shows "\<nexists>p. named accnt mid oid st p \<Longrightarrow> revise_order_id accnt mid oid lots now (st, resp) = Throw OrderNotFound (st, resp)
      \<and> cancel_order_id accnt mid oid now (st, resp) = Throw OrderNotFound (st, resp)"
    and "named accnt mid oid st p \<Longrightarrow>
      revise_order_id accnt mid oid lots now (st, resp) = do_revise_order accnt mid p lots now (st, resp)
      \<and> cancel_order_id accnt mid oid now (st, resp) = do_cancel_order accnt mid p now (st, resp)"
proof -
  note N = named_sess_order[OF app_inv_parts(2)[OF inv] s, of mid oid]
  show "revise_order_id accnt mid oid lots now (st, resp) = Throw OrderNotFound (st, resp)
      \<and> cancel_order_id accnt mid oid now (st, resp) = Throw OrderNotFound (st, resp)" if "\<nexists>p. named accnt mid oid st p"
  proof -
    have "sess_order (a_orders st) mid oid s = None" using N that by (metis option.exhaust)
    then show ?thesis by (simp add: revise_order_id_def cancel_order_id_def s)
  qed
  show "revise_order_id accnt mid oid lots now (st, resp) = do_revise_order accnt mid p lots now (st, resp)
      \<and> cancel_order_id accnt mid oid now (st, resp) = do_cancel_order accnt mid p now (st, resp)" if n: "named accnt mid oid st p"
  proof -
    have "\<not> order_done (a_orders st p)" using live_not_done[OF inv, of p] n by (simp add: named_def)
    then show ?thesis by (simp add: revise_order_id_def cancel_order_id_def s iffD2[OF N n])
  qed
qed

lemma revise_by_id_cases:
  assumes inv: "app_inv local_jd st" and s: "get_sess st accnt = Some s" and m: "get_market st mid = Some m"
  shows "(\<nexists>p. named accnt mid oid st p) \<Longrightarrow> revise_order_id accnt mid oid lots now (st, resp) = Throw OrderNotFound (st, resp)"
    and "named accnt mid oid st p \<Longrightarrow> invalid_revision lots (a_orders st p) \<Longrightarrow>
      revise_order_id accnt mid oid lots now (st, resp) = Throw InvalidLots (st, resp)"
    and "named accnt mid oid st p \<Longrightarrow> \<not> invalid_revision lots (a_orders st p) \<Longrightarrow> ring_reserve (a_mq st) = 0 \<Longrightarrow>
      \<exists>st' resp'. revise_order_id accnt mid oid lots now (st, resp) = Throw QueueFull (st', resp')
        \<and> live st' = live st \<and> a_orders st' = a_orders st \<and> a_mq st' = a_mq st"
    and "named accnt mid oid st p \<Longrightarrow> \<not> invalid_revision lots (a_orders st p) \<Longrightarrow> 0 < ring_reserve (a_mq st) \<Longrightarrow>
      \<exists>st' resp'. revise_order_id accnt mid oid lots now (st, resp) = Done () (st', resp')
        \<and> a_orders st' = (a_orders st)(p := revised_order lots now (a_orders st p))
        \<and> (\<forall>x. live st' x \<longleftrightarrow> live st x \<and> (x = p \<longrightarrow> o_exec_lots (a_orders st p) \<noteq> lots))
        \<and> ring_contents (a_mq st') = ring_contents (a_mq st)
            @ [exec_msg (exec_revise lots (new_exec (a_orders st p) (m_max_id m + 1) now))]
        \<and> (\<forall>k. k \<noteq> mid \<longrightarrow> get_market st' k = get_market st k)"
proof -
  note B = by_id[where mid = mid and oid = oid and lots = lots and now = now and resp = resp, OF inv s]
  show "revise_order_id accnt mid oid lots now (st, resp) = Throw OrderNotFound (st, resp)" if "\<nexists>p. named accnt mid oid st p"
    using B(1)[OF that] by blast
  assume n: "named accnt mid oid st p"
  note run = conjunct1[OF B(2)[OF n]]
  have acc: "r_accnt (a_orders st p) = accnt" using n by (simp add: named_def)
  note C = do_revise_order_cases[OF inv m s named_market[OF inv n m] acc, of lots now resp]
  show "revise_order_id accnt mid oid lots now (st, resp) = Throw InvalidLots (st, resp)" if "invalid_revision lots (a_orders st p)"
    unfolding run by (rule C(1)[OF that])
  assume v: "\<not> invalid_revision lots (a_orders st p)"
  show "\<exists>st' resp'. revise_order_id accnt mid oid lots now (st, resp) = Throw QueueFull (st', resp')
      \<and> live st' = live st \<and> a_orders st' = a_orders st \<and> a_mq st' = a_mq st" if "ring_reserve (a_mq st) = 0"
    using C(2)[OF v that] unfolding run by (elim exE conjE) (simp add: stage_facts)
  assume room: "0 < ring_reserve (a_mq st)"
  from C(3)[OF v room] obtain st' resp' where
    r: "do_revise_order accnt mid p lots now (st, resp) = Done () (st', resp')"
      "order_updated mid p (revised_order lots now (a_orders st p)) (o_exec_lots (a_orders st p) = lots)
         (exec_revise lots (new_exec (a_orders st p) (m_max_id m + 1) now)) st st'"
    by (elim exE conjE)
  show "\<exists>st' resp'. revise_order_id accnt mid oid lots now (st, resp) = Done () (st', resp')
        \<and> a_orders st' = (a_orders st)(p := revised_order lots now (a_orders st p))
        \<and> (\<forall>x. live st' x \<longleftrightarrow> live st x \<and> (x = p \<longrightarrow> o_exec_lots (a_orders st p) \<noteq> lots))
        \<and> ring_contents (a_mq st') = ring_contents (a_mq st)
            @ [exec_msg (exec_revise lots (new_exec (a_orders st p) (m_max_id m + 1) now))]
        \<and> (\<forall>k. k \<noteq> mid \<longrightarrow> get_market st' k = get_market st k)"
    unfolding run using r(1) r(2)[unfolded order_updated_def] by blast
qed

text \<open>
  C10. A revision by identifier: without a live order of the account with that identifier in that market
  it fails and changes nothing; lots of zero, above the order's, below what is executed or below
  the minimum fail and change nothing; where the queue is full no order changes; else the
  order has the new lots and keeps its place, is gone if all of them are executed, and the journal
  has one more execution.
\<close>

theorem revise_by_id:
  assumes inv: "app_inv local_jd st" and s: "get_sess st accnt = Some s" and m: "get_market st mid = Some m"
  shows "((\<nexists>p. named accnt mid oid st p) \<longrightarrow> revise_order_id accnt mid oid lots now (st, resp) = Throw OrderNotFound (st, resp))
    \<and> (named accnt mid oid st p \<longrightarrow> invalid_revision lots (a_orders st p) \<longrightarrow>
      revise_order_id accnt mid oid lots now (st, resp) = Throw InvalidLots (st, resp))
    \<and> (named accnt mid oid st p \<longrightarrow> \<not> invalid_revision lots (a_orders st p) \<longrightarrow> ring_reserve (a_mq st) = 0 \<longrightarrow>
      (\<exists>st' resp'. revise_order_id accnt mid oid lots now (st, resp) = Throw QueueFull (st', resp')
        \<and> live st' = live st \<and> a_orders st' = a_orders st \<and> a_mq st' = a_mq st))
    \<and> (named accnt mid oid st p \<longrightarrow> \<not> invalid_revision lots (a_orders st p) \<longrightarrow> 0 < ring_reserve (a_mq st) \<longrightarrow>
      (\<exists>st' resp'. revise_order_id accnt mid oid lots now (st, resp) = Done () (st', resp')
        \<and> a_orders st' = (a_orders st)(p := revised_order lots now (a_orders st p))
        \<and> (\<forall>x. live st' x \<longleftrightarrow> live st x \<and> (x = p \<longrightarrow> o_exec_lots (a_orders st p) \<noteq> lots))
        \<and> ring_contents (a_mq st') = ring_contents (a_mq st)
            @ [exec_msg (exec_revise lots (new_exec (a_orders st p) (m_max_id m + 1) now))]
        \<and> (\<forall>k. k \<noteq> mid \<longrightarrow> get_market st' k = get_market st k)))"
  by (intro conjI impI) (rule revise_by_id_cases[OF inv s m]; assumption)+

lemma ex_named: "named ''A'' ex_mid 1 ex_app 0"
  using ex_live by (simp add: named_def ex_facts ex_sell_def)

theorem revise_by_id_witness:
  "(\<exists>st' resp'. revise_order_id ''A'' ex_mid 1 5 3 (ex_app, no_resp) = Done () (st', resp') \<and> live st' 0)
     \<and> revise_order_id ''A'' ex_mid 1 11 3 (ex_app, no_resp) = Throw InvalidLots (ex_app, no_resp)"
proof -
  have v: "\<not> invalid_revision 5 (a_orders ex_app 0)" "invalid_revision 11 (a_orders ex_app 0)"
    and room: "0 < ring_reserve (a_mq ex_app)"
    by (simp_all add: ex_facts invalid_revision_def ex_sell_def)
  have "\<exists>st' resp'. revise_order_id ''A'' ex_mid 1 5 3 (ex_app, no_resp) = Done () (st', resp')
      \<and> (\<forall>x. live st' x \<longleftrightarrow> live ex_app x \<and> (x = 0 \<longrightarrow> o_exec_lots (a_orders ex_app 0) \<noteq> 5))"
    using revise_by_id[where oid = 1 and p = 0 and lots = 5 and now = 3 and resp = no_resp, OF reach_inv[OF ex_reach] ex_facts(2,1)]
      ex_named v(1) room by blast
  then obtain st' resp' where
    r: "revise_order_id ''A'' ex_mid 1 5 3 (ex_app, no_resp) = Done () (st', resp')"
      "\<forall>x. live st' x \<longleftrightarrow> live ex_app x \<and> (x = 0 \<longrightarrow> o_exec_lots (a_orders ex_app 0) \<noteq> 5)"
    by blast
  have "live st' 0" using r(2) ex_live by (simp add: ex_facts ex_sell_def)
  with r(1) show ?thesis
    using revise_by_id[where oid = 1 and p = 0 and lots = 11 and now = 3 and resp = no_resp, OF reach_inv[OF ex_reach] ex_facts(2,1)]
      ex_named v(2) by blast
qed

lemma cancel_by_id_cases:
  assumes inv: "app_inv local_jd st" and s: "get_sess st accnt = Some s" and m: "get_market st mid = Some m"
  shows "(\<nexists>p. named accnt mid oid st p) \<Longrightarrow> cancel_order_id accnt mid oid now (st, resp) = Throw OrderNotFound (st, resp)"
    and "named accnt mid oid st p \<Longrightarrow> ring_reserve (a_mq st) = 0 \<Longrightarrow>
      \<exists>st' resp'. cancel_order_id accnt mid oid now (st, resp) = Throw QueueFull (st', resp')
        \<and> live st' = live st \<and> a_orders st' = a_orders st \<and> a_mq st' = a_mq st"
    and "named accnt mid oid st p \<Longrightarrow> 0 < ring_reserve (a_mq st) \<Longrightarrow>
      \<exists>st' resp'. cancel_order_id accnt mid oid now (st, resp) = Done () (st', resp')
        \<and> a_orders st' = (a_orders st)(p := cancelled_order now (a_orders st p)) \<and> o_resd_lots (a_orders st' p) = 0
        \<and> (\<forall>x. live st' x \<longleftrightarrow> live st x \<and> x \<noteq> p)
        \<and> ring_contents (a_mq st') = ring_contents (a_mq st)
            @ [exec_msg (exec_cancel (new_exec (a_orders st p) (m_max_id m + 1) now))]
        \<and> (\<forall>k. k \<noteq> mid \<longrightarrow> get_market st' k = get_market st k)"
proof -
  note B = by_id[where mid = mid and oid = oid and now = now and resp = resp, OF inv s]
  show "cancel_order_id accnt mid oid now (st, resp) = Throw OrderNotFound (st, resp)" if "\<nexists>p. named accnt mid oid st p"
    using B(1)[OF that] by blast
  assume n: "named accnt mid oid st p"
  note run = conjunct2[OF B(2)[OF n]]
  have acc: "r_accnt (a_orders st p) = accnt" using n by (simp add: named_def)
  note C = do_cancel_order_cases[OF inv m s named_market[OF inv n m] acc, of now resp]
  show "\<exists>st' resp'. cancel_order_id accnt mid oid now (st, resp) = Throw QueueFull (st', resp')
      \<and> live st' = live st \<and> a_orders st' = a_orders st \<and> a_mq st' = a_mq st" if "ring_reserve (a_mq st) = 0"
    using C(1)[OF that] unfolding run by (elim exE conjE) (simp add: stage_facts)
  assume room: "0 < ring_reserve (a_mq st)"
  from C(2)[OF room] obtain st' resp' where
    r: "do_cancel_order accnt mid p now (st, resp) = Done () (st', resp')"
      "order_updated mid p (cancelled_order now (a_orders st p)) True
         (exec_cancel (new_exec (a_orders st p) (m_max_id m + 1) now)) st st'"
    by (elim exE conjE)
  have "o_resd_lots (a_orders st' p) = 0"
    using r(2) by (simp add: order_updated_def cancelled_order_def order_defs)
  with r(1) r(2)[unfolded order_updated_def]
  show "\<exists>st' resp'. cancel_order_id accnt mid oid now (st, resp) = Done () (st', resp')
        \<and> a_orders st' = (a_orders st)(p := cancelled_order now (a_orders st p)) \<and> o_resd_lots (a_orders st' p) = 0
        \<and> (\<forall>x. live st' x \<longleftrightarrow> live st x \<and> x \<noteq> p)
        \<and> ring_contents (a_mq st') = ring_contents (a_mq st)
            @ [exec_msg (exec_cancel (new_exec (a_orders st p) (m_max_id m + 1) now))]
        \<and> (\<forall>k. k \<noteq> mid \<longrightarrow> get_market st' k = get_market st k)"
    unfolding run by auto
qed

text \<open>
  C11. A cancellation by identifier: without such an order it fails and changes nothing; where the queue
  is full no order changes; else exactly that order leaves the book, with nothing open.
\<close>

theorem cancel_by_id:
  assumes inv: "app_inv local_jd st" and s: "get_sess st accnt = Some s" and m: "get_market st mid = Some m"
  shows "((\<nexists>p. named accnt mid oid st p) \<longrightarrow> cancel_order_id accnt mid oid now (st, resp) = Throw OrderNotFound (st, resp))
    \<and> (named accnt mid oid st p \<longrightarrow> ring_reserve (a_mq st) = 0 \<longrightarrow>
      (\<exists>st' resp'. cancel_order_id accnt mid oid now (st, resp) = Throw QueueFull (st', resp')
        \<and> live st' = live st \<and> a_orders st' = a_orders st \<and> a_mq st' = a_mq st))
    \<and> (named accnt mid oid st p \<longrightarrow> 0 < ring_reserve (a_mq st) \<longrightarrow>
      (\<exists>st' resp'. cancel_order_id accnt mid oid now (st, resp) = Done () (st', resp')
        \<and> a_orders st' = (a_orders st)(p := cancelled_order now (a_orders st p)) \<and> o_resd_lots (a_orders st' p) = 0
        \<and> (\<forall>x. live st' x \<longleftrightarrow> live st x \<and> x \<noteq> p)
        \<and> ring_contents (a_mq st') = ring_contents (a_mq st)
            @ [exec_msg (exec_cancel (new_exec (a_orders st p) (m_max_id m + 1) now))]
        \<and> (\<forall>k. k \<noteq> mid \<longrightarrow> get_market st' k = get_market st k)))"
  by (intro conjI impI) (rule cancel_by_id_cases[OF inv s m]; assumption)+

theorem cancel_by_id_witness:
  "\<exists>st' resp'. cancel_order_id ''A'' ex_mid 1 3 (ex_app, no_resp) = Done () (st', resp') \<and> \<not> live st' 0"
proof -
  have "0 < ring_reserve (a_mq ex_app)" by (simp add: ex_facts)
  then show ?thesis
    using cancel_by_id[where oid = 1 and p = 0 and now = 3 and resp = no_resp, OF reach_inv[OF ex_reach] ex_facts(2,1)] ex_named by blast
qed

section \<open>Several orders\<close>

lemma batch_spec: "batch_done k accnt mid ids f gone st st' \<Longrightarrow>
    (\<forall>x. a_orders st' x = (if named_in accnt mid ids st x then f (a_orders st x) else a_orders st x))
    \<and> (\<forall>x. live st' x \<longleftrightarrow> live st x \<and> \<not> (named_in accnt mid ids st x \<and> gone (a_orders st x)))
    \<and> (\<exists>es. ring_contents (a_mq st') = ring_contents (a_mq st) @ map exec_msg es
         \<and> map e_order_id es = ids \<and> (\<forall>e\<in>set es. r_accnt e = accnt \<and> e_state e = k))"
  by (simp add: batch_done_def)

lemma stage_untouched: "stage st st' \<Longrightarrow> live st' = live st \<and> a_orders st' = a_orders st \<and> a_mq st' = a_mq st"
  by (simp add: stage_facts)

text \<open>The checks and the queue refuse a list whether it names an order twice or not.\<close>

lemma cancel_order_ids_refused:
  assumes inv: "app_inv local_jd st" and m: "get_market st mid \<noteq> None" and s: "get_sess st accnt \<noteq> None"
    and resp: "resp_execs resp = []"
  shows "\<exists>oid\<in>set ids. \<nexists>p. named accnt mid oid st p \<Longrightarrow>
      \<exists>st' resp'. cancel_order_ids accnt mid ids now (st, resp) = Throw OrderNotFound (st', resp') \<and> stage st st'"
    and "\<forall>oid\<in>set ids. \<exists>p. named accnt mid oid st p \<Longrightarrow> ring_reserve (a_mq st) < length ids \<Longrightarrow>
      \<exists>st' resp'. cancel_order_ids accnt mid ids now (st, resp) = Throw QueueFull (st', resp') \<and> stage st st'"
proof -
  note V = cancel_validated[OF inv m s, of ids now resp]
  show "\<exists>st' resp'. cancel_order_ids accnt mid ids now (st, resp) = Throw OrderNotFound (st', resp') \<and> stage st st'"
    if "\<exists>oid\<in>set ids. \<nexists>p. named accnt mid oid st p"
  proof -
    have "find (\<lambda>oid. \<not> (\<exists>p. named accnt mid oid st p)) ids \<noteq> None" using that by (auto simp: find_None_iff)
    then show ?thesis using V by (auto simp: cancel_order_ids_def)
  qed
  assume all: "\<forall>oid\<in>set ids. \<exists>p. named accnt mid oid st p" and full: "ring_reserve (a_mq st) < length ids"
  have "find (\<lambda>oid. \<not> (\<exists>p. named accnt mid oid st p)) ids = None" using all by (auto simp: find_None_iff)
  then obtain st1 resp1 where r: "cancel_validate accnt mid ids now (st, resp_set_market mid resp) = Done () (st1, resp1)"
      "stage st st1" "requests Cancel accnt ids (resp_execs resp1) st1"
    using V resp by (auto simp: resp_set_market_def)
  have "length (resp_execs resp1) = length ids" using r(3) unfolding requests_def by (metis length_map)
  then have "mq_create_execs (map (a_execs st1) (resp_execs resp1)) (a_mq st1) = Throw QueueFull (a_mq st1)"
    by (intro mq_create_execs_full) (use full stage_facts[OF r(2)] in simp)
  then show "\<exists>st' resp'. cancel_order_ids accnt mid ids now (st, resp) = Throw QueueFull (st', resp') \<and> stage st st'"
    using r(1,2) by (simp add: cancel_order_ids_def on_mq_def)
qed

text \<open>
  C12. The cancellation of a list of identifiers. One that names no live order of the account in the
  market, or a queue without room for all of them, and no order changes. Else, if the identifiers
  are distinct, every order that is named leaves the book, no other does, and the journal has one
  execution for each, in order. A list that passes the checks and names an order twice has no defined result:
  the commit looks the order up again after it has left.
\<close>

theorem cancel_batch:
  assumes inv: "app_inv local_jd st" and m: "get_market st mid \<noteq> None" and s: "get_sess st accnt \<noteq> None"
    and resp: "resp_execs resp = []"
  shows "((\<exists>oid\<in>set ids. \<nexists>p. named accnt mid oid st p) \<longrightarrow>
      (\<exists>st' resp'. cancel_order_ids accnt mid ids now (st, resp) = Throw OrderNotFound (st', resp')
         \<and> live st' = live st \<and> a_orders st' = a_orders st \<and> a_mq st' = a_mq st))
    \<and> ((\<forall>oid\<in>set ids. \<exists>p. named accnt mid oid st p) \<longrightarrow> ring_reserve (a_mq st) < length ids \<longrightarrow>
      (\<exists>st' resp'. cancel_order_ids accnt mid ids now (st, resp) = Throw QueueFull (st', resp')
         \<and> live st' = live st \<and> a_orders st' = a_orders st \<and> a_mq st' = a_mq st))
    \<and> ((\<forall>oid\<in>set ids. \<exists>p. named accnt mid oid st p) \<longrightarrow> length ids \<le> ring_reserve (a_mq st) \<longrightarrow> distinct ids \<longrightarrow>
      (\<exists>st' resp'. cancel_order_ids accnt mid ids now (st, resp) = Done () (st', resp')
         \<and> (\<forall>x. a_orders st' x = (if named_in accnt mid ids st x then cancelled_order now (a_orders st x) else a_orders st x))
         \<and> (\<forall>x. live st' x \<longleftrightarrow> live st x \<and> \<not> named_in accnt mid ids st x)
         \<and> (\<exists>es. ring_contents (a_mq st') = ring_contents (a_mq st) @ map exec_msg es
              \<and> map e_order_id es = ids \<and> (\<forall>e\<in>set es. r_accnt e = accnt \<and> e_state e = Cancel))))
    \<and> ((\<forall>oid\<in>set ids. \<exists>p. named accnt mid oid st p) \<longrightarrow> length ids \<le> ring_reserve (a_mq st) \<longrightarrow> \<not> distinct ids \<longrightarrow>
      cancel_order_ids accnt mid ids now (st, resp) = Undef)"
proof (intro conjI impI)
  note R = cancel_order_ids_refused[OF inv m s resp, of ids now]
  show "\<exists>st' resp'. cancel_order_ids accnt mid ids now (st, resp) = Throw OrderNotFound (st', resp')
      \<and> live st' = live st \<and> a_orders st' = a_orders st \<and> a_mq st' = a_mq st" if "\<exists>oid\<in>set ids. \<nexists>p. named accnt mid oid st p"
    using R(1)[OF that] stage_untouched by blast
  assume a: "\<forall>oid\<in>set ids. \<exists>p. named accnt mid oid st p"
  show "\<exists>st' resp'. cancel_order_ids accnt mid ids now (st, resp) = Throw QueueFull (st', resp')
      \<and> live st' = live st \<and> a_orders st' = a_orders st \<and> a_mq st' = a_mq st" if f: "ring_reserve (a_mq st) < length ids"
    using R(2)[OF a f] stage_untouched by blast
  assume r: "length ids \<le> ring_reserve (a_mq st)"
  show "cancel_order_ids accnt mid ids now (st, resp) = Undef" if "\<not> distinct ids"
    by (rule cancel_order_ids_twice[OF inv m s resp a that r])
  show "\<exists>st' resp'. cancel_order_ids accnt mid ids now (st, resp) = Done () (st', resp')
         \<and> (\<forall>x. a_orders st' x = (if named_in accnt mid ids st x then cancelled_order now (a_orders st x) else a_orders st x))
         \<and> (\<forall>x. live st' x \<longleftrightarrow> live st x \<and> \<not> named_in accnt mid ids st x)
         \<and> (\<exists>es. ring_contents (a_mq st') = ring_contents (a_mq st) @ map exec_msg es
              \<and> map e_order_id es = ids \<and> (\<forall>e\<in>set es. r_accnt e = accnt \<and> e_state e = Cancel))"
    if d: "distinct ids"
  proof -
    from cancel_order_ids_cases(3)[OF inv m s resp d a r, of now] obtain st' resp' where
      d: "cancel_order_ids accnt mid ids now (st, resp) = Done () (st', resp')"
        "batch_done Cancel accnt mid ids (cancelled_order now) (\<lambda>_. True) st st'" by (elim exE conjE)
    show ?thesis by (intro exI) (rule conjI[OF d(1) batch_spec[OF d(2), unfolded simp_thms]])
  qed
qed

lemma ex_named_all: "\<forall>oid\<in>set [1]. \<exists>p. named ''A'' ex_mid oid ex_app p"
  using ex_named by auto

lemma ex_known: "get_market ex_app ex_mid \<noteq> None" "get_sess ex_app ''A'' \<noteq> None"
  by (simp_all add: ex_facts)

theorem cancel_batch_witness:
  "\<exists>st' resp'. cancel_order_ids ''A'' ex_mid [1] 3 (ex_app, no_resp) = Done () (st', resp')
     \<and> (\<forall>x. live st' x \<longleftrightarrow> live ex_app x \<and> \<not> named_in ''A'' ex_mid [1] ex_app x)"
proof -
  have d: "distinct [1 :: int]" "length [1 :: int] \<le> ring_reserve (a_mq ex_app)" by (simp_all add: ex_facts)
  show ?thesis
    using cancel_batch[OF reach_inv[OF ex_reach] ex_known no_resp_execs, of "[1]" 3] ex_named_all d by blast
qed

text \<open>
  The same for a revision of several distinct identifiers. The error is that of the first identifier that cannot
  be revised: no such order, or lots that the order does not allow.
\<close>

lemma revise_batch:
  assumes inv: "app_inv local_jd st" and m: "get_market st mid \<noteq> None" and s: "get_sess st accnt \<noteq> None"
    and resp: "resp_execs resp = []" and dist: "distinct ids"
  shows "(\<forall>oid. find (\<lambda>oid. \<not> revisable lots accnt mid st oid) ids = Some oid \<longrightarrow>
      (\<exists>st' resp'. revise_order_ids accnt mid ids lots now (st, resp) =
           Throw (if \<exists>p. named accnt mid oid st p then InvalidLots else OrderNotFound) (st', resp')
         \<and> live st' = live st \<and> a_orders st' = a_orders st \<and> a_mq st' = a_mq st))
    \<and> ((\<forall>oid\<in>set ids. revisable lots accnt mid st oid) \<longrightarrow> ring_reserve (a_mq st) < length ids \<longrightarrow>
      (\<exists>st' resp'. revise_order_ids accnt mid ids lots now (st, resp) = Throw QueueFull (st', resp')
         \<and> live st' = live st \<and> a_orders st' = a_orders st \<and> a_mq st' = a_mq st))
    \<and> ((\<forall>oid\<in>set ids. revisable lots accnt mid st oid) \<longrightarrow> length ids \<le> ring_reserve (a_mq st) \<longrightarrow>
      (\<exists>st' resp'. revise_order_ids accnt mid ids lots now (st, resp) = Done () (st', resp')
         \<and> (\<forall>x. a_orders st' x = (if named_in accnt mid ids st x then revised_order lots now (a_orders st x) else a_orders st x))
         \<and> (\<forall>x. live st' x \<longleftrightarrow> live st x \<and> \<not> (named_in accnt mid ids st x \<and> o_exec_lots (a_orders st x) = lots))
         \<and> (\<exists>es. ring_contents (a_mq st') = ring_contents (a_mq st) @ map exec_msg es
              \<and> map e_order_id es = ids \<and> (\<forall>e\<in>set es. r_accnt e = accnt \<and> e_state e = Revise))))"
proof (intro conjI impI allI)
  note C = revise_order_ids_cases[OF inv m s resp dist, where lots = lots and now = now]
  fix oid assume a: "find (\<lambda>oid. \<not> revisable lots accnt mid st oid) ids = Some oid"
  from C(1)[OF a] show "\<exists>st' resp'. revise_order_ids accnt mid ids lots now (st, resp) =
           Throw (if \<exists>p. named accnt mid oid st p then InvalidLots else OrderNotFound) (st', resp')
         \<and> live st' = live st \<and> a_orders st' = a_orders st \<and> a_mq st' = a_mq st"
    unfolding revise_error_def using stage_untouched by blast
next
  note C = revise_order_ids_cases[OF inv m s resp dist, where lots = lots and now = now]
  assume a: "\<forall>oid\<in>set ids. revisable lots accnt mid st oid"
  show "\<exists>st' resp'. revise_order_ids accnt mid ids lots now (st, resp) = Throw QueueFull (st', resp')
      \<and> live st' = live st \<and> a_orders st' = a_orders st \<and> a_mq st' = a_mq st" if f: "ring_reserve (a_mq st) < length ids"
    using C(2)[OF a f] stage_untouched by blast
  show "\<exists>st' resp'. revise_order_ids accnt mid ids lots now (st, resp) = Done () (st', resp')
         \<and> (\<forall>x. a_orders st' x = (if named_in accnt mid ids st x then revised_order lots now (a_orders st x) else a_orders st x))
         \<and> (\<forall>x. live st' x \<longleftrightarrow> live st x \<and> \<not> (named_in accnt mid ids st x \<and> o_exec_lots (a_orders st x) = lots))
         \<and> (\<exists>es. ring_contents (a_mq st') = ring_contents (a_mq st) @ map exec_msg es
              \<and> map e_order_id es = ids \<and> (\<forall>e\<in>set es. r_accnt e = accnt \<and> e_state e = Revise))"
    if r: "length ids \<le> ring_reserve (a_mq st)"
  proof -
    from C(3)[OF a r] obtain st' resp' where d: "revise_order_ids accnt mid ids lots now (st, resp) = Done () (st', resp')"
        "batch_done Revise accnt mid ids (revised_order lots now) (\<lambda>ord. o_exec_lots ord = lots) st st'" by (elim exE conjE)
    show ?thesis by (intro exI) (rule conjI[OF d(1) batch_spec[OF d(2)]])
  qed
qed

lemma revise_batch_witness:
  "\<exists>st' resp'. revise_order_ids ''A'' ex_mid [1] 5 3 (ex_app, no_resp) = Done () (st', resp')
     \<and> (\<forall>x. live st' x \<longleftrightarrow> live ex_app x \<and> \<not> (named_in ''A'' ex_mid [1] ex_app x \<and> o_exec_lots (a_orders ex_app x) = 5))"
proof -
  have d: "distinct [1 :: int]" "length [1 :: int] \<le> ring_reserve (a_mq ex_app)"
    and v: "\<forall>oid\<in>set [1]. revisable 5 ''A'' ex_mid ex_app oid"
    using ex_named by (auto simp: ex_facts revisable_def invalid_revision_def ex_sell_def)
  show ?thesis
    using revise_batch[where lots = 5 and now = 3, OF reach_inv[OF ex_reach] ex_known no_resp_execs d(1)] v d(2) by blast
qed

section \<open>Trades\<close>



text \<open>
  C14. Archiving a list of trades: with an identifier that names no trade of the session it fails and changes
  nothing; without room in the queue for all of its messages it changes nothing; else, if the identifiers
  are distinct, exactly those trades leave the session, the trades of other accounts and all executions
  and positions stay, and the journal has the identifiers in messages of at most 29, in order. A list that passes the
  checks and names a trade twice has no defined result: the commit looks the trade up again after it
  has left.
\<close>

theorem archive_trades_effect:
  assumes inv: "app_inv local_jd st" and s: "get_sess st a = Some s"
  shows "((\<exists>tid\<in>set ids. sess_trade (a_execs st) mid tid s = None) \<longrightarrow> archive_trade_ids a mid ids now st = Throw NotFound st)
    \<and> ((\<forall>tid\<in>set ids. sess_trade (a_execs st) mid tid s \<noteq> None) \<longrightarrow> ring_reserve (a_mq st) < length (chunks ids) \<longrightarrow>
        archive_trade_ids a mid ids now st = Throw QueueFull st)
    \<and> ((\<forall>tid\<in>set ids. sess_trade (a_execs st) mid tid s \<noteq> None) \<longrightarrow> length (chunks ids) \<le> ring_reserve (a_mq st) \<longrightarrow> distinct ids \<longrightarrow>
        (\<exists>st' s'. archive_trade_ids a mid ids now st = Done () st' \<and> live st' = live st \<and> a_orders st' = a_orders st
           \<and> a_execs st' = a_execs st \<and> execs_of st' = execs_of st \<and> posn_of st' = posn_of st
           \<and> (\<forall>b. b \<noteq> a \<longrightarrow> trades_of st' b = trades_of st b)
           \<and> ring_contents (a_mq st') = ring_contents (a_mq st) @ map (\<lambda>c. archive_msg mid c now) (chunks ids)
           \<and> get_sess st' a = Some s'
           \<and> set (s_trades s') = {t \<in> set (s_trades s). \<not> (r_market_id (a_execs st t) = mid \<and> r_id (a_execs st t) \<in> set ids)}))
    \<and> ((\<forall>tid\<in>set ids. sess_trade (a_execs st) mid tid s \<noteq> None) \<longrightarrow> length (chunks ids) \<le> ring_reserve (a_mq st) \<longrightarrow> \<not> distinct ids \<longrightarrow>
        archive_trade_ids a mid ids now st = Undef)"
proof (intro conjI impI)
  note A = archive_trade_ids_cases[OF inv s, of ids mid now]
  show "archive_trade_ids a mid ids now st = Throw NotFound st" if "\<exists>tid\<in>set ids. sess_trade (a_execs st) mid tid s = None"
    by (rule A(1)[OF that])
  assume all: "\<forall>tid\<in>set ids. sess_trade (a_execs st) mid tid s \<noteq> None"
  show "archive_trade_ids a mid ids now st = Throw QueueFull st" if "ring_reserve (a_mq st) < length (chunks ids)"
    by (rule A(2)[OF all that])
  assume room: "length (chunks ids) \<le> ring_reserve (a_mq st)"
  show "archive_trade_ids a mid ids now st = Undef" if "\<not> distinct ids" by (rule A(3)[OF all room that])
  show "\<exists>st' s'. archive_trade_ids a mid ids now st = Done () st' \<and> live st' = live st \<and> a_orders st' = a_orders st
           \<and> a_execs st' = a_execs st \<and> execs_of st' = execs_of st \<and> posn_of st' = posn_of st
           \<and> (\<forall>b. b \<noteq> a \<longrightarrow> trades_of st' b = trades_of st b)
           \<and> ring_contents (a_mq st') = ring_contents (a_mq st) @ map (\<lambda>c. archive_msg mid c now) (chunks ids)
           \<and> get_sess st' a = Some s'
           \<and> set (s_trades s') = {t \<in> set (s_trades s). \<not> (r_market_id (a_execs st t) = mid \<and> r_id (a_execs st t) \<in> set ids)}"
    if "distinct ids"
    using A(4)[OF all room that] unfolding quiet_def only_trades_def by blast
qed

theorem archive_trades_effect_witness:
  "\<exists>st' s'. archive_trade_ids ''B'' ex_mid [2] 4 ex_traded = Done () st' \<and> get_sess st' ''B'' = Some s' \<and> set (s_trades s') = {}"
proof -
  let ?s = "ex_B\<lparr>s_execs := [1], s_trades := [1], s_posns := [0]\<rparr>"
  have "\<forall>tid\<in>set [2]. sess_trade (a_execs ex_traded) ex_mid tid ?s \<noteq> None"
    using ex_traded_facts(2,3) by (simp add: sess_trade_def set_find_def lower_bound_def exec_id_key_def request_key_def)
  moreover have "length (chunks [2]) \<le> ring_reserve (a_mq ex_traded)" using ex_traded_facts(4) by (simp add: length_chunks)
  moreover have "distinct [2 :: int]" by simp
  ultimately have "\<exists>st' s'. archive_trade_ids ''B'' ex_mid [2] 4 ex_traded = Done () st' \<and> get_sess st' ''B'' = Some s'
      \<and> set (s_trades s') = {t \<in> set (s_trades ?s). \<not> (r_market_id (a_execs ex_traded t) = ex_mid \<and> r_id (a_execs ex_traded t) \<in> set [2])}"
    using archive_trades_effect[OF reach_inv[OF ex_traded_reach] ex_traded_facts(1), of "[2]" ex_mid 4] by blast
  moreover have "{t \<in> set (s_trades ?s). \<not> (r_market_id (a_execs ex_traded t) = ex_mid \<and> r_id (a_execs ex_traded t) \<in> set [2])} = {}"
    using ex_traded_facts(2,3) by auto
  ultimately show ?thesis by metis
qed

section \<open>Markets\<close>

text \<open>
  C15. A market is created unless its settlement day has passed, or there is one for the instrument and
  the day, or the queue is full: then the call fails with the error of the first of these, and the markets,
  the orders and the journal are as before. Else the new market is empty, it is found under its identifier,
  the other markets are as they were, and the journal has it.
\<close>

theorem create_market_effect:
  assumes inv: "app_inv local_jd st" and mid: "mid = to_market_id (i_id i) day"
  shows "\<exists>st'. app_inv local_jd st' \<and> live st' = live st \<and> a_orders st' = a_orders st \<and>
    (if settled local_jd day now st then app_create_market local_jd i day state now st = Throw Invalid st' \<and> get_market st' = get_market st \<and> a_mq st' = a_mq st
     else if get_market st mid \<noteq> None then app_create_market local_jd i day state now st = Throw AlreadyExists st' \<and> get_market st' = get_market st \<and> a_mq st' = a_mq st
     else if ring_reserve (a_mq st) = 0 then app_create_market local_jd i day state now st = Throw QueueFull st' \<and> get_market st' = get_market st \<and> a_mq st' = a_mq st
     else app_create_market local_jd i day state now st = Done mid st'
       \<and> (\<forall>k. get_market st' k = (if k = mid then Some (make_market mid (i_symbol i) day state) else get_market st k))
       \<and> ring_contents (a_mq st') = ring_contents (a_mq st) @ [MsgCreateMarket mid (i_symbol i) day state])"
proof -
  note C = app_create_market_cases[OF inv mid, where now = now and state = state]
  have K: "live st' = live st \<and> a_orders st' = a_orders st \<and> get_market st' = get_market st \<and> a_mq st' = a_mq st" if "only_cache st st'" for st'
    using only_cache_facts[OF that] by (simp add: get_market_def fun_eq_iff)
  consider "settled local_jd day now st" | "\<not> settled local_jd day now st" "get_market st mid \<noteq> None"
    | "\<not> settled local_jd day now st" "get_market st mid = None" "ring_reserve (a_mq st) = 0"
    | "\<not> settled local_jd day now st" "get_market st mid = None" "0 < ring_reserve (a_mq st)" by blast
  then show ?thesis
  proof cases
    case 1
    then show ?thesis using C(1)[OF 1] K by (simp only: if_True) blast
  next
    case 2
    then show ?thesis using C(2)[OF 2] K by (simp only: if_True if_False simp_thms) blast
  next
    case 3
    then show ?thesis using C(3)[OF 3] K by (simp only: if_True if_False simp_thms) blast
  next
    case 4
    then have "ring_reserve (a_mq st) \<noteq> 0" by simp
    with 4 show ?thesis using C(4)[OF 4] by (simp only: if_False simp_thms) blast
  qed
qed

theorem create_market_effect_witness:
  "\<exists>st'. app_create_market ex_jd ex_instr 0 0 1 ex_app = Throw AlreadyExists st' \<and> live st' = live ex_app"
proof -
  have "\<not> settled ex_jd 0 1 ex_app" by (simp add: settled_def)
  moreover have "ex_mid = to_market_id (i_id ex_instr) 0" by code_simp
  ultimately show ?thesis
    using create_market_effect[OF reach_inv[OF ex_reach], of ex_mid ex_instr 0 1 0] ex_facts(1) by auto
qed

end
