(* ===== verification/Http_Props.thy ===== *)
theory Http_Props
  imports Http_Conn Request_Props
begin

text \<open>
  The properties of the REST interface, from the bytes of a connection to the engine and back: how requests
  are assembled and answered, what a request may do, and where the code has no result.
\<close>

section \<open>An example\<close>

text \<open>A request, a server and an empty connection, on the engine of \<open>App_Example\<close> with one order.\<close>

definition ex_body :: rest_body where
  "ex_body = body_reset True \<lparr>b_cs = 0, b_scratch = Unset, b_fields = 0, b_symbol = [], b_accnt = [], b_instr = [],
     b_settl_date = 0, b_ref = [], b_state = 0, b_side = NoSide, b_lots = 0, b_ticks = 0, b_min_lots = 0,
     b_liq_ind = NoLiq, b_cpty = []\<rparr>"

definition ex_req :: "http_method \<Rightarrow> string \<Rightarrow> string \<Rightarrow> string \<Rightarrow> http_request" where
  "ex_req m path accnt perm = \<lparr>hr_method = m, hr_url = path, hr_field = [], hr_value = NoSlot, hr_accnt = accnt, hr_perm = perm,
     hr_time = ''5'', hr_body = ex_body, hr_partial = False, hr_fields = url_init(UfPath := (0, length path))\<rparr>"

definition ex_serv :: rest_serv where
  "ex_serv = \<lparr>rs_match_method = False, rs_match_path = False, rs_path = tok_reset [] ''/'', rs_app = ex_rest\<rparr>"

definition ex_what :: "err \<Rightarrow> string" where
  "ex_what e = ''not found''"

definition ex_stream :: http_stream where
  "ex_stream = make_http_stream buf_new"

lemma ex_stream_ok: "buf_ok (hs_buf ex_stream)" "buf_data (hs_buf ex_stream) = []"
  by (simp_all add: ex_stream_def make_http_stream_def buf_new_ok)

lemma ex_no_page: "path_tokens (ex_req m ''/api/none'' a p) = [''api'', ''none'']"
  by (simp add: ex_req_def path_tokens_def request_path_def url_substr_def) code_simp

lemma ex_no_page_routed: "routed ex_jd (ex_req m ''/api/none'' a p) now (path_tokens (ex_req m ''/api/none'' a p)) st = Throw NotFound st"
proof -
  have "resource_of [''api'', ''none''] = None" by code_simp
  then show ?thesis unfolding ex_no_page by (simp add: routed_def perform_def ex_req_def)
qed

section \<open>Requests and answers\<close>

text \<open>
  C16. The nested handlers of \<open>RestServ\<close> implement the table of routes: a request has the result of the
  operation that the table gives for its method and path, or the error. What is written is one message behind
  what waits to be sent, with the status of the result and the length of its text; a \<open>DELETE\<close> is answered with
  204 and no text, and no answer may be cached. Only an empty path and an operation without a result
  have none.
\<close>

theorem requests_follow_routes:
  assumes "buf_ok (hs_buf os)" and "r = routed local_jd req (get_time clock req) (path_tokens req) (rs_app sv)" and "fits what r"
  shows "if request_path req = [] \<or> r = Undef then handle_request local_jd what clock req (sv, os) = None
    else \<exists>sv' os'. handle_request local_jd what clock req (sv, os) = Some (sv', os') \<and> rs_app sv' = state_of (rs_app sv) r
      \<and> buf_ok (hs_buf os') \<and> buf_data (hs_buf os') = buf_data (hs_buf os) @ answer what req r"
  by (rule handle_answer[OF assms(1,3,2)])

theorem requests_follow_routes_witness:
  "\<exists>sv' os'. handle_request ex_jd ex_what 7 (ex_req Put ''/api/none'' ''A'' ''2'') (ex_serv, ex_stream) = Some (sv', os')
    \<and> buf_data (hs_buf os') = message 404 False ''{\"status\":404,\"reason\":\"Not Found\",\"detail\":\"not found\"}''"
proof -
  let ?req = "ex_req Put ''/api/none'' ''A'' ''2''"
  have r: "Throw NotFound (rs_app ex_serv) = routed ex_jd ?req (get_time 7 ?req) (path_tokens ?req) (rs_app ex_serv)"
    by (rule ex_no_page_routed[symmetric])
  have t: "error_text ex_what NotFound = ''{\"status\":404,\"reason\":\"Not Found\",\"detail\":\"not found\"}''" by code_simp
  have f: "fits ex_what (Throw NotFound (rs_app ex_serv))" unfolding fits_def outcome.case t by simp
  have p: "request_path ?req \<noteq> []" by (simp add: ex_req_def request_path_def url_substr_def)
  have a: "answer ex_what ?req (Throw NotFound (rs_app ex_serv)) = message 404 False ''{\"status\":404,\"reason\":\"Not Found\",\"detail\":\"not found\"}''"
    unfolding answer_def outcome.case t by (simp add: http_status_def)
  from requests_follow_routes[OF ex_stream_ok(1) r f] show ?thesis using p unfolding a ex_stream_ok(2) by auto
qed

section \<open>Connections\<close>

text \<open>A parser that gives the same events for any input, and one that takes a whole URL as its path.\<close>

definition ex_execute :: "http_event list \<Rightarrow> bool \<Rightarrow> unit \<Rightarrow> string \<Rightarrow> http_event list \<times> bool \<times> unit" where
  "ex_execute evs accepted p buf = (evs, accepted, p)"

definition ex_parse_url :: "string \<Rightarrow> url_fields option" where
  "ex_parse_url url = (if url = [] then None else Some (url_init(UfPath := (0, length url))))"

definition ex_sess :: "unit http_sess" where
  "ex_sess = make_http_sess () (ex_req Get [] [] []) 0"

definition ex_events :: "http_event list" where
  "ex_events = [EvMessageBegin, EvUrl ''/api/none'', EvHeadersEnd Get, EvMessageEnd 7]"

definition ex_built :: http_request where
  "ex_built = (set_method Get (append_url ''/api/none'' (request_clear (ex_req Get [] [] []))))
     \<lparr>hr_fields := url_init(UfPath := (0, length ''/api/none''))\<rparr>"

lemma ex_built_facts: "hr_url ex_built = ''/api/none''" "\<not> hr_partial ex_built" "hr_method ex_built = Get" "hr_time ex_built = []"
  "request_path ex_built = ''/api/none''" "path_tokens ex_built = [''api'', ''none'']"
proof -
  show "hr_url ex_built = ''/api/none''" "\<not> hr_partial ex_built" "hr_method ex_built = Get" "hr_time ex_built = []"
    by (simp_all add: ex_built_def request_clear_def append_url_def set_method_def buf_append_def max_url_def)
  then show p: "request_path ex_built = ''/api/none''" by (simp add: request_path_def url_substr_def) (simp add: ex_built_def)
  show "path_tokens ex_built = [''api'', ''none'']" unfolding path_tokens_def p by code_simp
qed

lemma ex_assembled: "assemble ex_parse_url ex_events (NoElem, request_clear (ex_req Get [] [] [])) =
    ([(ex_built, 7)], Some (NoElem, request_clear ex_built))"
  by (simp add: ex_events_def build_def ex_parse_url_def ex_built_def set_method_def append_url_def request_clear_def buf_append_def max_url_def)

lemma ex_exchange: "exchange ex_jd ex_what [(ex_built, 7)] st = Some (message 404 False (error_text ex_what NotFound), st)"
proof -
  have "resource_of [''api'', ''none''] = None" by code_simp
  then have r: "routed ex_jd ex_built now [''api'', ''none''] st = Throw NotFound st" for now
    by (simp add: routed_def perform_def ex_built_facts)
  have "error_text ex_what NotFound = ''{\"status\":404,\"reason\":\"Not Found\",\"detail\":\"not found\"}''" by code_simp
  then have f: "fits ex_what (Throw NotFound st)" by (simp add: fits_def)
  show ?thesis using f by (simp add: r Let_def ex_built_facts state_of_def answer_def http_status_def)
qed

text \<open>
  C17. The bytes that arrive on a connection are answered in order: each request that they complete is run on the
  engine that the one before it left, and the answers are written one behind the other. Without a fault the
  connection stays open for another five seconds with what is left of the next request. With a fault the
  connection is closed: the requests before it have been run, their answers are lost.
\<close>

theorem connection_answers_in_order:
  assumes "sess_inv s" and "buf \<noteq> []" and "execute (ss_parser s) buf = (evs, accepted, p)"
    and "assemble parse_url evs (ss_elem s, ss_req s) = (reqs, rest)" and "exchange local_jd what reqs (rs_app sv) = Some (t, st')"
  shows "\<exists>c sv'. on_readable execute parse_url local_jd what (Some buf) now (s, sv) = Some (c, sv') \<and> rs_app sv' = st'
    \<and> (if rest \<noteq> None \<and> accepted
       then \<exists>s'. c = Open s' \<and> sess_inv s' \<and> buf_data (ss_buf s') = buf_data (ss_buf s) @ t
         \<and> ss_parser s' = p \<and> rest = Some (ss_elem s', ss_req s') \<and> ss_deadline s' = now + 5000000000
       else c = Closed)"
  using assms by (rule readable_answers)

theorem connection_answers_in_order_witness:
  "\<exists>s' sv'. on_readable (ex_execute ex_events True) ex_parse_url ex_jd ex_what (Some ''GET'') 9 (ex_sess, ex_serv) = Some (Open s', sv')
    \<and> buf_data (ss_buf s') = message 404 False (error_text ex_what NotFound) \<and> rs_app sv' = ex_rest"
proof -
  have s: "ss_elem ex_sess = NoElem" "ss_req ex_sess = request_clear (ex_req Get [] [] [])" "buf_data (ss_buf ex_sess) = []"
    by (simp_all add: ex_sess_def make_http_sess_def make_http_stream_def buf_new_ok)
  have "sess_inv ex_sess" unfolding ex_sess_def by (rule make_sess_inv)
  from connection_answers_in_order[where buf = "''GET''" and execute = "ex_execute ex_events True" and accepted = True and p = "()" and sv = ex_serv and now = 9,
      OF this _ _ ex_assembled[folded s(1,2)] ex_exchange]
  show ?thesis unfolding s(3) by (auto simp: ex_execute_def ex_serv_def)
qed

text \<open>
  It makes no difference where the network cuts a URL, a header or a body into pieces: the parser's events for
  the pieces assemble to the same requests as those for the whole, faults included.
\<close>

lemma cut_requests:
  assumes "cuts evs evs'" and "request_wf r"
  shows "assemble parse_url evs' (el, r) = assemble parse_url evs (el, r)"
  by (rule cuts_assemble[OF assms])

lemma cut_requests_witness:
  "assemble ex_parse_url [EvMessageBegin, EvUrl ''/api'', EvUrl ''/none'', EvHeadersEnd Get, EvMessageEnd 7]
     (NoElem, request_clear (ex_req Get [] [] [])) = ([(ex_built, 7)], Some (NoElem, request_clear ex_built))"
proof -
  have "cuts ex_events ([EvMessageBegin] @ [EvUrl ''/api'', EvUrl ''/none''] @ [EvHeadersEnd Get, EvMessageEnd 7])"
    by (rule cuts_step[OF _ cut_url]) (simp add: ex_events_def cuts_refl)
  from cut_requests[OF this request_clear_wf, of ex_parse_url NoElem "ex_req Get [] [] []"] show ?thesis
    unfolding ex_assembled by (simp only: append.simps)
qed

text \<open>
  C22. What the callbacks build up stays within its arrays, whatever the events: the URL is the first 128
  characters of its pieces, the name of a header has at most 16 characters, a value at most 24; the parser of the
  body is consistent, and a side in the body is one of the two.
\<close>

theorem requests_well_formed:
  assumes "request_wf r" and "assemble parse_url evs (el, r) = (reqs, rest)"
  shows "(\<forall>(req, clock)\<in>set reqs. request_wf req) \<and> (\<forall>el' r'. rest = Some (el', r') \<longrightarrow> request_wf r')"
  using assms
proof (induction evs arbitrary: el r reqs)
  case (Cons ev evs)
  show ?case
  proof (cases "\<exists>clock. ev = EvMessageEnd clock")
    case True
    have "request_wf (r\<lparr>hr_fields := uf\<rparr>)" for uf using Cons.prems(1) by (simp add: request_wf_def)
    then show ?thesis using Cons.prems(2) True Cons.IH[OF request_clear_wf]
      by (auto simp: Let_def split: option.splits prod.splits) blast+
  next
    case False
    then have a: "assemble parse_url (ev # evs) (el, r) = (case build ev (el, r) of None \<Rightarrow> ([], None) | Some z \<Rightarrow> assemble parse_url evs z)"
      by (cases ev) auto
    show ?thesis
    proof (cases "build ev (el, r)")
      case None
      then show ?thesis using Cons.prems(2) a by simp
    next
      case (Some z)
      obtain el1 r1 where z: "z = (el1, r1)" by fastforce
      have "request_wf r1" using build_wf Some z Cons.prems(1) by blast
      with Cons.IH[of r1 el1 reqs] Cons.prems(2) a Some z show ?thesis by simp
    qed
  qed
qed auto

theorem requests_well_formed_witness: "length (hr_url ex_built) \<le> 128"
  using requests_well_formed[OF request_clear_wf ex_assembled] by (simp add: request_wf_def max_url_def)

text \<open>
  A URL of more than 128 characters is cut without an error: the request is that for its first 128 characters, so
  that a list of identifiers at its end is carried out in part.
\<close>

lemma long_url_is_cut:
  "assemble parse_url (map EvUrl svs @ evs) (el, request_clear r) =
     assemble parse_url (EvUrl (take 128 (concat svs)) # evs) (el, request_clear r)"
proof -
  have "assemble parse_url (map EvUrl svs @ evs) (el, r) = assemble parse_url evs (el, fold append_url svs r)" for r
    by (induction svs arbitrary: r) (simp_all add: build_def)
  moreover have "fold append_url svs (request_clear r) = append_url (take 128 (concat svs)) (request_clear r)"
  proof -
    have u: "fold append_url svs q = q\<lparr>hr_url := hr_url (fold append_url svs q)\<rparr>" for q
    proof (induction svs arbitrary: q)
      case (Cons sv svs)
      show ?case using Cons.IH[of "append_url sv q"] by (simp add: append_url_def)
    qed simp
    show ?thesis using append_url_pieces[of "request_clear r" svs] u[of "request_clear r"]
      by (simp add: append_url_def buf_append_def max_url_def request_clear_def)
  qed
  ultimately show ?thesis by (simp add: build_def)
qed

text \<open>
  C21. An event on a socket keeps the state of the connection consistent; in particular, writing is watched whenever
  something waits to be sent. It has no result in one case only, where the requests have one: writing sends the last
  bytes of a connection that is not kept alive, and reading is signalled in the same event. The code
  has deleted the connection then, and goes on to read into it.
\<close>

theorem io_event_outcome:
  assumes inv: "sess_inv s" and w: "\<forall>n. written = Some n \<longrightarrow> n \<le> length (buf_data (ss_buf s))"
    and run: "\<forall>buf. received = Some buf \<longrightarrow>
      exchange local_jd what (fst (assemble parse_url (fst (execute (ss_parser s) buf)) (ss_elem s, ss_req s))) (rs_app sv) \<noteq> None"
  shows "(on_io_event keep_alive execute parse_url local_jd what event_out event_in written received now (s, sv) = None \<longleftrightarrow>
      event_out \<and> event_in \<and> written = Some (length (buf_data (ss_buf s))) \<and> \<not> keep_alive (ss_parser s))
    \<and> (\<forall>s' sv'. on_io_event keep_alive execute parse_url local_jd what event_out event_in written received now (s, sv) = Some (Open s', sv')
      \<longrightarrow> sess_inv s')"
proof -
  have read: "on_readable execute parse_url local_jd what received now (s1, sv) \<noteq> None
      \<and> (\<forall>s' sv'. on_readable execute parse_url local_jd what received now (s1, sv) = Some (Open s', sv') \<longrightarrow> sess_inv s')"
    if "sess_inv s1" "ss_parser s1 = ss_parser s" "ss_elem s1 = ss_elem s" "ss_req s1 = ss_req s" for s1
    using readable_safe[OF that(1), of received local_jd what parse_url execute sv now] run that(2-4) by simp
  show ?thesis
  proof (cases event_out)
    case False
    then show ?thesis using read[of s] inv by (auto simp: on_io_event_def)
  next
    case True
    show ?thesis
    proof (cases written)
      case None
      then show ?thesis using True by (simp add: on_io_event_def on_writable_def)
    next
      case (Some n)
      note W = writable_sent[OF inv, of n keep_alive] w[rule_format, OF Some]
      show ?thesis
      proof (cases "n = length (buf_data (ss_buf s))")
        case sent: True
        show ?thesis
        proof (cases "keep_alive (ss_parser s)")
          case True
          then show ?thesis using W sent Some \<open>event_out\<close> read by (auto simp: on_io_event_def)
        next
          case False
          then show ?thesis using W sent Some \<open>event_out\<close> by (auto simp: on_io_event_def)
        qed
      next
        case False
        then show ?thesis using W Some \<open>event_out\<close> read by (auto simp: on_io_event_def)
      qed
    qed
  qed
qed

theorem io_event_outcome_witness:
  "on_io_event (\<lambda>_. False) (ex_execute ex_events True) ex_parse_url ex_jd ex_what True True (Some 0) None 9 (ex_sess, ex_serv) = None"
proof -
  have s: "sess_inv ex_sess" "buf_data (ss_buf ex_sess) = []"
    by (simp add: ex_sess_def make_sess_inv) (simp add: ex_sess_def make_http_sess_def make_http_stream_def buf_new_ok)
  from io_event_outcome[where s = ex_sess and received = None and written = "Some 0", OF s(1)] show ?thesis by (simp add: s(2))
qed

section \<open>What a request may do\<close>

text \<open>An order to buy, and a query, on the engine with one order to sell.\<close>

definition ex_post :: "string \<Rightarrow> string \<Rightarrow> http_request" where
  "ex_post accnt perm = (ex_req Post ''/api/sess/order/EURUSD/0'' accnt perm)
     \<lparr>hr_body := ex_body\<lparr>b_fields := BSide OR BLots OR BTicks, b_side := Buy, b_lots := 3, b_ticks := 99\<rparr>\<rparr>"

definition ex_get :: http_request where
  "ex_get = ex_req Get ''/api/sess/order'' ''C'' ''2''"

lemma ex_request_ok: "request_ok (ex_post accnt perm) (path_tokens (ex_post accnt perm))" "request_ok ex_get (path_tokens ex_get)"
  "request_path (ex_post accnt perm) \<noteq> []" "request_path ex_get \<noteq> []"
proof -
  have r: "path_tokens (ex_post accnt perm) = [''api'', ''sess'', ''order'', ''EURUSD'', ''0'']" "path_tokens ex_get = [''api'', ''sess'', ''order'']"
    by (simp_all add: ex_post_def ex_get_def ex_req_def path_tokens_def request_path_def url_substr_def) code_simp+
  have "resource_of [''api'', ''sess'', ''order'', ''EURUSD'', ''0''] = Some (ROrdersAt ''EURUSD'' 0)" "resource_of [''api'', ''sess'', ''order''] = Some ROrders"
    by code_simp+
  then show "request_ok (ex_post accnt perm) (path_tokens (ex_post accnt perm))" "request_ok ex_get (path_tokens ex_get)"
    unfolding r request_ok_def by (simp_all add: ex_post_def ex_get_def ex_req_def sided_def ex_body_def body_reset_def)
  show "request_path (ex_post accnt perm) \<noteq> []" "request_path ex_get \<noteq> []"
    by (simp_all add: ex_post_def ex_get_def ex_req_def request_path_def url_substr_def)
qed

lemma ex_serv_reach: "reach ex_jd (rs_app ex_serv)"
  by (simp add: ex_serv_def ex_rest_reach)

text \<open>
  C18. A request leaves a reachable engine in a reachable one, so that all that holds of reachable engines holds behind
  any requests. Its body must be one that the parser makes, its identifiers distinct (and one for a \<open>GET\<close>), and its lots not
  negative unless a larger minimum rejects them; then there is an answer, an error included.
\<close>

theorem requests_keep_engine:
  assumes "reach local_jd (rs_app sv)" and "request_ok req (path_tokens req)" and "request_path req \<noteq> []"
  shows "\<exists>sv' os'. handle_request local_jd what clock req (sv, os) = Some (sv', os') \<and> reach local_jd (rs_app sv')"
  by (rule request_reaches[OF assms])

theorem requests_keep_engine_witness:
  "\<exists>sv' os'. handle_request ex_jd ex_what 7 (ex_post ''B'' ''2'') (ex_serv, ex_stream) = Some (sv', os') \<and> reach ex_jd (rs_app sv')"
  by (rule requests_keep_engine[OF ex_serv_reach ex_request_ok(1,3)])

text \<open>
  C19. A request without an account, or without the permission of a trader or an administrator, changes nothing in the engine.
\<close>

theorem strangers_change_nothing:
  assumes "hr_accnt req = [] \<or> get_perm req AND 3 = 0" and "handle_request local_jd what clock req (sv, os) = Some (sv', os')"
  shows "rs_app sv' = rs_app sv"
  using handle_engine(2)[OF refl assms(2)] routed_public[OF assms(1)] by simp

theorem strangers_change_nothing_witness:
  "\<exists>sv' os'. handle_request ex_jd ex_what 7 (ex_post [] ''2'') (ex_serv, ex_stream) = Some (sv', os') \<and> rs_app sv' = ex_rest"
proof -
  from request_reaches[OF ex_serv_reach ex_request_ok(1,3)] obtain sv' os' where
    h: "handle_request ex_jd ex_what 7 (ex_post [] ''2'') (ex_serv, ex_stream) = Some (sv', os')" by blast
  have "hr_accnt (ex_post [] ''2'') = []" by (simp add: ex_post_def ex_req_def)
  with strangers_change_nothing[OF _ h] h show ?thesis by (simp add: ex_serv_def)
qed

text \<open>
  Without the administrator's permission a request does not change the terms of trading: the assets, the
  instruments, and of each market the identifier, instrument, settlement day and state.
\<close>

lemma traders_keep_terms:
  assumes "reach local_jd (rs_app sv)" and "get_perm req AND 1 = 0" and "handle_request local_jd what clock req (sv, os) = Some (sv', os')"
  shows "charter (rs_app sv') = charter (rs_app sv)"
  using handle_engine(2)[OF refl assms(3)] routed_charter[OF app_inv_parts(7)[OF reach_inv[OF assms(1)]] assms(2)] by simp

lemma traders_keep_terms_witness:
  "\<exists>sv' os'. handle_request ex_jd ex_what 7 (ex_post ''B'' ''2'') (ex_serv, ex_stream) = Some (sv', os')
    \<and> charter (rs_app sv') = charter ex_rest"
proof -
  from request_reaches[OF ex_serv_reach ex_request_ok(1,3)] obtain sv' os' where
    h: "handle_request ex_jd ex_what 7 (ex_post ''B'' ''2'') (ex_serv, ex_stream) = Some (sv', os')" by blast
  have "get_perm (ex_post ''B'' ''2'') AND 1 = 0" by (simp add: ex_post_def ex_req_def get_perm_def) code_simp
  with traders_keep_terms[OF ex_serv_reach _ h] h show ?thesis by (simp add: ex_serv_def)
qed

text \<open>
  C20. A \<open>GET\<close> is read-only, but for the session of the account in the header, which it makes where there is none.
\<close>

theorem gets_are_read_only:
  assumes "hr_method req = Get" and "handle_request local_jd what clock req (sv, os) = Some (sv', os')"
  shows "rs_app sv' \<in> {rs_app sv, snd (app_sess (make_symbol (hr_accnt req)) (rs_app sv))}"
  unfolding handle_engine(2)[OF refl assms(2)] by (rule routed_get[OF assms(1)])

theorem gets_are_read_only_witness:
  "\<exists>sv' os'. handle_request ex_jd ex_what 7 ex_get (ex_serv, ex_stream) = Some (sv', os')
    \<and> rs_app sv' \<in> {ex_rest, snd (app_sess (make_symbol ''C'') ex_rest)}"
proof -
  from request_reaches[OF ex_serv_reach ex_request_ok(2,4)] obtain sv' os' where
    h: "handle_request ex_jd ex_what 7 ex_get (ex_serv, ex_stream) = Some (sv', os')" by blast
  have "hr_method ex_get = Get" "hr_accnt ex_get = ''C''" by (simp_all add: ex_get_def ex_req_def)
  with gets_are_read_only[OF _ h] h show ?thesis by (simp add: ex_serv_def)
qed

section \<open>Where the code has no result\<close>

text \<open>
  A \<open>PUT\<close> of no lots with a list that names a live order of the account twice has no result: the path \<open>.../1,1\<close> is
  enough for a trader to make the server read through an iterator that is at the end.
\<close>

lemma repeated_id_undefined:
  assumes reach: "reach local_jd st" and sv: "rs_app sv = st" and req: "hr_method req = Put" "\<not> hr_partial req" "b_fields (hr_body req) = BLots"
      "b_lots (hr_body req) \<le> 0"
    and path: "resource_of (path_tokens req) = Some (ROrderIds ins d ids)" and a: "holder 2 req = Inr a"
    and m: "market_id_of ins d st = Done mid st" "get_market st mid \<noteq> None" and s: "get_sess st a \<noteq> None"
    and all: "\<forall>oid\<in>set ids. \<exists>p. named a mid oid st p" and twice: "\<not> distinct ids" and room: "length ids \<le> ring_reserve (a_mq st)"
  shows "handle_request local_jd what clock req (sv, os) = None"
proof -
  note inv = reach_inv[OF reach]
  obtain s' where s': "get_sess st a = Some s'" "s_accnt s' = a" using s get_sess_accnt[OF app_inv_parts(8)[OF inv]] by blast
  obtain m' where m': "get_market st mid = Some m'" "m_id m' = mid" using m(2) book_id[OF app_inv_parts(1)[OF inv]] by blast
  have len: "length ids \<noteq> 1" using twice by (cases ids rule: remdups_adj.cases) auto
  have c: "cancel_order_ids a mid ids now (st, no_resp) = Undef" for now
    by (rule cancel_order_ids_twice[OF inv m(2) s no_resp_execs all twice room])
  have "rest_put_order a ins d ids (b_lots (hr_body req)) now st = Undef" for now
    using s' m' len c req(4) m(1) by (simp add: rest_put_order_def app_sess_eq app_market_def write_resp_def)
  then have "routed local_jd req now (path_tokens req) st = Undef" for now
    using req path a by (simp add: routed_def perform_def sum_bind_def)
  then show ?thesis using handle_engine(1)[OF refl, of local_jd what clock req sv os] by (simp add: sv)
qed

text \<open>
  A \<open>GET\<close> of an order or a trade whose list of identifiers is empty, as in \<open>.../20170101//\<close>, has no result: the
  first of no identifiers is read. Nor has a request with an empty path.
\<close>

lemma no_id_undefined:
  assumes "request_path req = [] \<or> hr_method req = Get \<and> \<not> hr_partial req \<and>
    (\<exists>ins d. resource_of (path_tokens req) \<in> {Some (ROrderIds ins d []), Some (RTradeIds ins d [])})"
  shows "handle_request local_jd what clock req (sv, os) = None"
proof -
  have "request_path req \<noteq> [] \<Longrightarrow> routed local_jd req now (path_tokens req) (rs_app sv) = Undef" for now
    using assms by (auto simp: routed_def perform_def)
  then show ?thesis using handle_engine(1)[OF refl, of local_jd what clock req sv os] by blast
qed

lemma no_id_undefined_witness:
  "handle_request ex_jd ex_what 7 (ex_req Get ''/api/sess/order/EURUSD/20170101//'' ''A'' ''2'') (ex_serv, ex_stream) = None"
proof (rule no_id_undefined)
  let ?req = "ex_req Get ''/api/sess/order/EURUSD/20170101//'' ''A'' ''2''"
  have "path_tokens ?req = [''api'', ''sess'', ''order'', ''EURUSD'', ''20170101'', []]"
    by (simp add: ex_req_def path_tokens_def request_path_def url_substr_def) code_simp
  moreover have "resource_of [''api'', ''sess'', ''order'', ''EURUSD'', ''20170101'', []] = Some (ROrderIds ''EURUSD'' 20170101 [])"
    by code_simp
  ultimately show "request_path ?req = [] \<or> hr_method ?req = Get \<and> \<not> hr_partial ?req \<and>
    (\<exists>ins d. resource_of (path_tokens ?req) \<in> {Some (ROrderIds ins d []), Some (RTradeIds ins d [])})"
    by (simp add: ex_req_def)
qed

definition ex_repeat :: http_request where
  "ex_repeat = (ex_req Put ''/api/sess/order/EURUSD/0/1,1'' ''A'' ''2'')\<lparr>hr_body := ex_body\<lparr>b_fields := BLots\<rparr>\<rparr>"

lemma ex_rest_named: "named ''A'' ex_mid 1 ex_rest 0"
proof -
  have "live ex_rest 0" using ex_rest_facts(1) unfolding live_def by (rule exI[of _ ex_mid, OF exI[of _ ex_market, OF conjI]])
    (simp add: listed_def ex_market_def)
  then show ?thesis using ex_rest_facts(4) by (simp add: named_def ex_sell_def)
qed

lemma repeated_id_undefined_witness: "handle_request ex_jd ex_what 7 ex_repeat (ex_serv, ex_stream) = None"
proof (rule repeated_id_undefined[OF ex_rest_reach, where ids = "[1, 1]" and ins = "''EURUSD''" and d = 0 and mid = ex_mid and a = "''A''"])
  show "rs_app ex_serv = ex_rest" "hr_method ex_repeat = Put" "\<not> hr_partial ex_repeat" "b_fields (hr_body ex_repeat) = BLots"
    "b_lots (hr_body ex_repeat) \<le> 0"
    by (simp_all add: ex_serv_def ex_repeat_def ex_req_def ex_body_def body_reset_def)
  have "path_tokens ex_repeat = [''api'', ''sess'', ''order'', ''EURUSD'', ''0'', ''1,1'']"
    by (simp add: ex_repeat_def ex_req_def path_tokens_def request_path_def url_substr_def) code_simp
  moreover have "resource_of [''api'', ''sess'', ''order'', ''EURUSD'', ''0'', ''1,1''] = Some (ROrderIds ''EURUSD'' 0 [1, 1])" by code_simp
  ultimately show "resource_of (path_tokens ex_repeat) = Some (ROrderIds ''EURUSD'' 0 [1, 1])" by simp
  show "holder 2 ex_repeat = Inr ''A''" by code_simp
  have "set_find i_symbol ''EURUSD'' [ex_instr] = Some ex_instr" "to_market_id_iso (i_id ex_instr) 0 = ex_mid" by code_simp+
  then show "market_id_of ''EURUSD'' 0 ex_rest = Done ex_mid ex_rest" by (simp add: market_id_of_def app_instr_def ex_rest_facts(6))
  show "get_market ex_rest ex_mid \<noteq> None" "get_sess ex_rest ''A'' \<noteq> None" by (simp_all add: ex_rest_facts)
  show "\<forall>oid\<in>set [1, 1]. \<exists>p. named ''A'' ex_mid oid ex_rest p" using ex_rest_named by auto
  show "\<not> distinct [1, 1 :: int]" "length [1, 1 :: int] \<le> ring_reserve (a_mq ex_rest)" by (simp_all add: ex_rest_facts)
qed

section \<open>Round trips\<close>

text \<open>
  A list of identifiers that is written with commas between them is read back, up to 2^63; a larger number is read
  modulo 2^64, with a sign.
\<close>

lemma ids_round_trip: "scoped_ids (join_with CHR '','' (map show_nat ns)) = map (\<lambda>n. sint (of_nat n :: 64 word)) ns"
proof -
  have c: "CHR '','' \<notin> set (show_nat n)" for n
    using show_nat_digits[of n] by (auto simp: is_digit_def code_of_def)
  have "map show_nat ns = [] \<or> last (map show_nat ns) \<noteq> []"
    using show_nat_digits by (cases ns rule: rev_cases) auto
  then have "tokens (tok_reset (join_with CHR '','' (map show_nat ns)) '','') = map show_nat ns"
    using tokens_join[of "map show_nat ns" "CHR '',''"] c by auto
  then show ?thesis by (simp add: scoped_ids_def stou64_show)
qed

text \<open>
  A page of the executions, as the query of the URL names it, is the segment of that offset and length; past the end there
  is nothing.
\<close>

lemma page_is_segment:
  assumes "off < 2 ^ 64" and "lim < 2 ^ 64"
  shows "page_of (parse_query (''offset='' @ show_nat off @ ''&limit='' @ show_nat lim)) xs = take lim (drop off xs)"
proof -
  have d: "CHR ''&'' \<notin> set (show_nat n)" "CHR '';'' \<notin> set (show_nat n)" "CHR ''='' \<notin> set (show_nat n)" "show_nat n \<noteq> []" for n
    using show_nat_digits[of n] by (auto simp: is_digit_def code_of_def)
  let ?x = "''offset='' @ show_nat off" and ?y = "''limit='' @ show_nat lim"
  have x: "set ?x \<inter> set ''&;'' = {}" and y: "set ?y \<inter> set ''&;'' = {}" "?y \<noteq> []" using d by auto
  have "tokens (tok_reset (?x @ CHR ''&'' # ?y) ''&;'') = [?x, ?y]"
    by (subst tokens_Cons[OF x]) (simp_all only: tokens_last[OF y], simp_all)
  moreover have "split_pair ?x CHR ''='' = (''offset'', show_nat off)" "split_pair ?y CHR ''='' = (''limit'', show_nat lim)"
    by (simp_all add: split_pair_def)
  ultimately have p: "parse_query (''offset='' @ show_nat off @ ''&limit='' @ show_nat lim) = \<lparr>pg_offset = of_nat off, pg_limit = Some (of_nat lim)\<rparr>"
    by (simp add: parse_query_def page_arg_def stou64_show)
  have u: "unat (of_nat n :: 64 word) = n" if "n < 2 ^ 64" for n using that by (simp add: unat_of_nat take_bit_nat_eq_self)
  show ?thesis unfolding p using u[OF assms(1)] u[OF assms(2)] by (auto simp: page_of_def Let_def)
qed

lemma page_is_segment_witness: "page_of (parse_query (''offset='' @ show_nat 1 @ ''&limit='' @ show_nat 2)) [5, 6, 7, 8 :: nat] = [6, 7]"
  by (subst page_is_segment) simp_all

end
