(* ===== verification/Mem_Conc.thy ===== *)
theory Mem_Conc
  imports Mem_Queue "HOL-Library.Multiset"
begin

text \<open>
  \<open>MemQueue::post\<close> and \<open>MemQueue::fetch\<close> (\<open>app/MemQueue.hpp\<close>) run by any number of threads: a step is
  one atomic access, and the steps of the threads interleave in any order. A compare-and-exchange is weak, so
  it may fail although it finds what it expects. The theory takes the accesses to be sequentially
  consistent, which the acquire and release orders of the code are there to make harmless.

  The theory has the invariant of the queue while operations are under way, and what it means for the
  messages: each is delivered to at most one thread, in the order in which the positions were taken.
\<close>

section \<open>Threads\<close>

text \<open>Where a thread is in an operation, with the local variables it still needs.\<close>

datatype 'v pc =
    Idle
  | PostLoad 'v | PostCheck 'v nat | PostCas 'v nat | PostWrite 'v nat | PostCommit 'v nat
  | FetchLoad | FetchCheck nat | FetchCas nat | FetchRead nat | FetchCommit 'v nat

text \<open>
  The history is not part of the program: \<open>w_posted\<close> has the value for each position that was taken to
  write, and \<open>w_got\<close> the position and value of each fetch that is complete.
\<close>

record 'v world =
  w_ring :: "'v ring"
  w_pc :: "nat \<Rightarrow> 'v pc"
  w_posted :: "'v list"
  w_got :: "(nat \<times> 'v) list"

definition goto :: "nat \<Rightarrow> 'v pc \<Rightarrow> 'v world \<Rightarrow> 'v world" where
  "goto t c w = w\<lparr>w_pc := (w_pc w)(t := c)\<rparr>"

definition slot :: "'v ring \<Rightarrow> nat \<Rightarrow> nat" where
  "slot q p = p AND q_mask q"

definition seq_at :: "'v ring \<Rightarrow> nat \<Rightarrow> nat" where
  "seq_at q p = fst (q_elems q ! slot q p)"

definition val_at :: "'v ring \<Rightarrow> nat \<Rightarrow> 'v" where
  "val_at q p = snd (q_elems q ! slot q p)"

definition set_seq :: "nat \<Rightarrow> nat \<Rightarrow> 'v ring \<Rightarrow> 'v ring" where
  "set_seq p s q = q\<lparr>q_elems := (q_elems q)[slot q p := (s, val_at q p)]\<rparr>"

definition set_val :: "nat \<Rightarrow> 'v \<Rightarrow> 'v ring \<Rightarrow> 'v ring" where
  "set_val p v q = q\<lparr>q_elems := (q_elems q)[slot q p := (seq_at q p, v)]\<rparr>"

text \<open>The accesses of \<open>post\<close>. A failed exchange loads the position that it found.\<close>

inductive post_step :: "nat \<Rightarrow> 'v world \<Rightarrow> 'v world \<Rightarrow> bool" where
  post_call: "w_pc w t = Idle \<Longrightarrow> post_step t w (goto t (PostLoad v) w)"
| post_load: "w_pc w t = PostLoad v \<Longrightarrow> post_step t w (goto t (PostCheck v (q_wpos (w_ring w))) w)"
| post_free: "w_pc w t = PostCheck v p \<Longrightarrow> seq_at (w_ring w) p = p \<Longrightarrow> post_step t w (goto t (PostCas v p) w)"
| post_full: "w_pc w t = PostCheck v p \<Longrightarrow> seq_at (w_ring w) p < p \<Longrightarrow> post_step t w (goto t Idle w)"
| post_late: "w_pc w t = PostCheck v p \<Longrightarrow> p < seq_at (w_ring w) p \<Longrightarrow> post_step t w (goto t (PostLoad v) w)"
| post_take: "w_pc w t = PostCas v p \<Longrightarrow> q_wpos (w_ring w) = p \<Longrightarrow>
    post_step t w (goto t (PostWrite v p)
      (w\<lparr>w_ring := (w_ring w)\<lparr>q_wpos := p + 1\<rparr>, w_posted := w_posted w @ [v]\<rparr>))"
| post_miss: "w_pc w t = PostCas v p \<Longrightarrow> post_step t w (goto t (PostCheck v (q_wpos (w_ring w))) w)"
| post_write: "w_pc w t = PostWrite v p \<Longrightarrow>
    post_step t w (goto t (PostCommit v p) (w\<lparr>w_ring := set_val p v (w_ring w)\<rparr>))"
| post_commit: "w_pc w t = PostCommit v p \<Longrightarrow>
    post_step t w (goto t Idle (w\<lparr>w_ring := set_seq p (p + 1) (w_ring w)\<rparr>))"

text \<open>The accesses of \<open>fetch\<close>.\<close>

inductive fetch_step :: "nat \<Rightarrow> 'v world \<Rightarrow> 'v world \<Rightarrow> bool" where
  fetch_call: "w_pc w t = Idle \<Longrightarrow> fetch_step t w (goto t FetchLoad w)"
| fetch_load: "w_pc w t = FetchLoad \<Longrightarrow> fetch_step t w (goto t (FetchCheck (q_rpos (w_ring w))) w)"
| fetch_ready: "w_pc w t = FetchCheck p \<Longrightarrow> seq_at (w_ring w) p = p + 1 \<Longrightarrow> fetch_step t w (goto t (FetchCas p) w)"
| fetch_empty: "w_pc w t = FetchCheck p \<Longrightarrow> seq_at (w_ring w) p < p + 1 \<Longrightarrow> fetch_step t w (goto t Idle w)"
| fetch_late: "w_pc w t = FetchCheck p \<Longrightarrow> p + 1 < seq_at (w_ring w) p \<Longrightarrow> fetch_step t w (goto t FetchLoad w)"
| fetch_take: "w_pc w t = FetchCas p \<Longrightarrow> q_rpos (w_ring w) = p \<Longrightarrow>
    fetch_step t w (goto t (FetchRead p) (w\<lparr>w_ring := (w_ring w)\<lparr>q_rpos := p + 1\<rparr>\<rparr>))"
| fetch_miss: "w_pc w t = FetchCas p \<Longrightarrow> fetch_step t w (goto t (FetchCheck (q_rpos (w_ring w))) w)"
| fetch_read: "w_pc w t = FetchRead p \<Longrightarrow> fetch_step t w (goto t (FetchCommit (val_at (w_ring w) p) p) w)"
| fetch_commit: "w_pc w t = FetchCommit v p \<Longrightarrow>
    fetch_step t w (goto t Idle (w\<lparr>w_ring := set_seq p (p + q_capacity (w_ring w)) (w_ring w),
                                   w_got := w_got w @ [(p, v)]\<rparr>))"

definition world_start :: "'v \<Rightarrow> nat \<Rightarrow> 'v world" where
  "world_start zero capacity =
     \<lparr>w_ring = make_ring zero capacity, w_pc = (\<lambda>_. Idle), w_posted = [], w_got = []\<rparr>"

inductive runs :: "'v \<Rightarrow> nat \<Rightarrow> 'v world \<Rightarrow> bool" for zero capacity where
  start: "runs zero capacity (world_start zero capacity)"
| post: "runs zero capacity w \<Longrightarrow> post_step t w w' \<Longrightarrow> runs zero capacity w'"
| fetch: "runs zero capacity w \<Longrightarrow> fetch_step t w w' \<Longrightarrow> runs zero capacity w'"

section \<open>The invariant\<close>

text \<open>The position that a thread has taken and not yet committed.\<close>

fun writes :: "'v pc \<Rightarrow> nat \<Rightarrow> bool" where
  "writes (PostWrite v p) p' = (p' = p)"
| "writes (PostCommit v p) p' = (p' = p)"
| "writes _ p' = False"

fun reads :: "'v pc \<Rightarrow> nat \<Rightarrow> bool" where
  "reads (FetchRead p) p' = (p' = p)"
| "reads (FetchCommit v p) p' = (p' = p)"
| "reads _ p' = False"

definition writing :: "'v world \<Rightarrow> nat \<Rightarrow> bool" where
  "writing w p \<longleftrightarrow> (\<exists>t. writes (w_pc w t) p)"

definition reading :: "'v world \<Rightarrow> nat \<Rightarrow> bool" where
  "reading w p \<longleftrightarrow> (\<exists>t. reads (w_pc w t) p)"

definition shape_ok :: "'v ring \<Rightarrow> bool" where
  "shape_ok q \<longleftrightarrow> is_pow2 (q_capacity q) \<and> 2 \<le> q_capacity q \<and> q_mask q = q_capacity q - 1
     \<and> length (q_elems q) = q_capacity q \<and> q_rpos q \<le> q_wpos q \<and> q_wpos q \<le> q_rpos q + q_capacity q"

text \<open>The last position that was taken to write in its element.\<close>

definition recent :: "'v ring \<Rightarrow> nat \<Rightarrow> bool" where
  "recent q p \<longleftrightarrow> p < q_wpos q \<and> q_wpos q \<le> p + q_capacity q"

definition elems_ok :: "'v world \<Rightarrow> bool" where
  "elems_ok w \<longleftrightarrow> (let q = w_ring w in
     (\<forall>p. recent q p \<longrightarrow>
        seq_at q p = (if writing w p then p else if q_rpos q \<le> p \<or> reading w p then p + 1 else p + q_capacity q)
        \<and> (\<not> writing w p \<and> (q_rpos q \<le> p \<or> reading w p) \<longrightarrow> val_at q p = w_posted w ! p))
     \<and> (\<forall>p. q_wpos q \<le> p \<and> p < q_capacity q \<longrightarrow> seq_at q p = p))"

definition taken_ok :: "'v world \<Rightarrow> bool" where
  "taken_ok w \<longleftrightarrow> (let q = w_ring w in
     (\<forall>p. writing w p \<longrightarrow> q_rpos q \<le> p \<and> recent q p)
     \<and> (\<forall>p. reading w p \<longrightarrow> p < q_rpos q \<and> recent q p)
     \<and> (\<forall>t t' p. writes (w_pc w t) p \<and> writes (w_pc w t') p \<longrightarrow> t = t')
     \<and> (\<forall>t t' p. reads (w_pc w t) p \<and> reads (w_pc w t') p \<longrightarrow> t = t'))"

text \<open>What a thread knows at each place.\<close>

fun knows :: "'v world \<Rightarrow> 'v pc \<Rightarrow> bool" where
  "knows w (PostCheck v p) = (p \<le> q_wpos (w_ring w))"
| "knows w (PostCas v p) = (p \<le> q_wpos (w_ring w) \<and> (q_wpos (w_ring w) = p \<longrightarrow> seq_at (w_ring w) p = p))"
| "knows w (PostWrite v p) = (w_posted w ! p = v)"
| "knows w (PostCommit v p) = (w_posted w ! p = v \<and> val_at (w_ring w) p = v)"
| "knows w (FetchCheck p) = (p \<le> q_rpos (w_ring w))"
| "knows w (FetchCas p) = (p \<le> q_rpos (w_ring w) \<and> (q_rpos (w_ring w) = p \<longrightarrow> seq_at (w_ring w) p = p + 1))"
| "knows w (FetchCommit v p) = (w_posted w ! p = v)"
| "knows w _ = True"

definition history_ok :: "'v world \<Rightarrow> bool" where
  "history_ok w \<longleftrightarrow> length (w_posted w) = q_wpos (w_ring w) \<and> distinct (map fst (w_got w))
     \<and> (\<forall>p. p < q_rpos (w_ring w) \<longleftrightarrow> p \<in> fst ` set (w_got w) \<or> reading w p)
     \<and> (\<forall>(p, v)\<in>set (w_got w). \<not> reading w p \<and> w_posted w ! p = v)"

definition world_ok :: "'v world \<Rightarrow> bool" where
  "world_ok w \<longleftrightarrow> shape_ok (w_ring w) \<and> elems_ok w \<and> taken_ok w \<and> (\<forall>t. knows w (w_pc w t)) \<and> history_ok w"

section \<open>Elements and positions\<close>

lemma goto_simps [simp]:
  "w_ring (goto t c w) = w_ring w" "w_posted (goto t c w) = w_posted w" "w_got (goto t c w) = w_got w"
  "w_pc (goto t c w) = (w_pc w)(t := c)"
  by (simp_all add: goto_def)

lemma slot_mod: "shape_ok q \<Longrightarrow> slot q p = p mod q_capacity q"
  using and_mask_mod by (auto simp: slot_def shape_ok_def is_pow2_iff)

lemma slot_less: "shape_ok q \<Longrightarrow> slot q p < length (q_elems q)"
  by (simp add: slot_mod) (simp add: shape_ok_def)

lemma recent_slot:
  assumes "shape_ok q" and "recent q a" and "recent q b" and "slot q a = slot q b"
  shows "a = b"
  by (rule mod_window_inj[where n = "q_capacity q" and a = "q_wpos q - q_capacity q"])
    (use assms in \<open>simp add: slot_mod\<close>, use assms(2,3) in \<open>auto simp: recent_def\<close>)

lemma recent_slot_wpos:
  assumes "shape_ok q" and "recent q a" and "slot q a = slot q (q_wpos q)"
  shows "q_wpos q = a + q_capacity q"
  using mod_window_inj[of "a + q_capacity q" "q_capacity q" "q_wpos q" "q_wpos q"] assms
  by (simp add: slot_mod recent_def shape_ok_def)

lemma set_simps [simp]:
  "q_rpos (set_seq p s q) = q_rpos q" "q_wpos (set_seq p s q) = q_wpos q" "q_capacity (set_seq p s q) = q_capacity q"
  "q_rpos (set_val p v q) = q_rpos q" "q_wpos (set_val p v q) = q_wpos q" "q_capacity (set_val p v q) = q_capacity q"
  "slot (set_seq p s q) p' = slot q p'" "slot (set_val p v q) p' = slot q p'"
  "recent (set_seq p s q) p' = recent q p'" "recent (set_val p v q) p' = recent q p'"
  "shape_ok (set_seq p s q) = shape_ok q" "shape_ok (set_val p v q) = shape_ok q"
  by (simp_all add: set_seq_def set_val_def slot_def recent_def shape_ok_def)

lemma at_set_seq:
  assumes "shape_ok q"
  shows "seq_at (set_seq p s q) p' = (if slot q p' = slot q p then s else seq_at q p')"
    and "val_at (set_seq p s q) p' = val_at q p'"
  using slot_less[OF assms, of p]
  by (cases "slot q p' = slot q p"; simp add: seq_at_def val_at_def set_seq_def slot_def)+

lemma at_set_val:
  assumes "shape_ok q"
  shows "seq_at (set_val p v q) p' = seq_at q p'"
    and "val_at (set_val p v q) p' = (if slot q p' = slot q p then v else val_at q p')"
  using slot_less[OF assms, of p]
  by (cases "slot q p' = slot q p"; simp add: seq_at_def val_at_def set_val_def slot_def)+

lemma writing_goto: "writing (goto t c w) p \<longleftrightarrow> writes c p \<or> (\<exists>t'. t' \<noteq> t \<and> writes (w_pc w t') p)"
  unfolding writing_def goto_simps by (metis fun_upd_apply)

lemma reading_goto: "reading (goto t c w) p \<longleftrightarrow> reads c p \<or> (\<exists>t'. t' \<noteq> t \<and> reads (w_pc w t') p)"
  unfolding reading_def goto_simps by (metis fun_upd_apply)

lemma writing_same: "writes c = writes (w_pc w t) \<Longrightarrow> writing (goto t c w) = writing w"
  by (rule ext) (metis writing_goto writing_def)

lemma reading_same: "reads c = reads (w_pc w t) \<Longrightarrow> reading (goto t c w) = reading w"
  by (rule ext) (metis reading_goto reading_def)

lemma world_okD:
  assumes "world_ok w"
  shows "shape_ok (w_ring w)" and "elems_ok w" and "taken_ok w" and "knows w (w_pc w t)" and "history_ok w"
  using assms by (simp_all add: world_ok_def)

lemma elem_of_recent:
  assumes "world_ok w" and "recent (w_ring w) p"
  shows "seq_at (w_ring w) p = (if writing w p then p
      else if q_rpos (w_ring w) \<le> p \<or> reading w p then p + 1 else p + q_capacity (w_ring w))"
    and "\<not> writing w p \<Longrightarrow> q_rpos (w_ring w) \<le> p \<or> reading w p \<Longrightarrow> val_at (w_ring w) p = w_posted w ! p"
  using world_okD(2)[OF assms(1)] assms(2) by (auto simp: elems_ok_def Let_def)

lemma elem_of_new: "world_ok w \<Longrightarrow> q_wpos (w_ring w) \<le> p \<Longrightarrow> p < q_capacity (w_ring w) \<Longrightarrow> seq_at (w_ring w) p = p"
  using world_okD(2) by (auto simp: elems_ok_def Let_def)

lemma elems_okI:
  assumes "\<And>p. recent (w_ring w) p \<Longrightarrow> seq_at (w_ring w) p = (if writing w p then p
      else if q_rpos (w_ring w) \<le> p \<or> reading w p then p + 1 else p + q_capacity (w_ring w))"
    and "\<And>p. recent (w_ring w) p \<Longrightarrow> \<not> writing w p \<Longrightarrow> q_rpos (w_ring w) \<le> p \<or> reading w p \<Longrightarrow>
      val_at (w_ring w) p = w_posted w ! p"
    and "\<And>p. q_wpos (w_ring w) \<le> p \<Longrightarrow> p < q_capacity (w_ring w) \<Longrightarrow> seq_at (w_ring w) p = p"
  shows "elems_ok w"
  unfolding elems_ok_def Let_def using assms by blast

lemma taken:
  assumes "world_ok w"
  shows "writing w p \<Longrightarrow> q_rpos (w_ring w) \<le> p \<and> recent (w_ring w) p"
    and "reading w p \<Longrightarrow> p < q_rpos (w_ring w) \<and> recent (w_ring w) p"
    and "writes (w_pc w t) p \<Longrightarrow> writes (w_pc w t') p \<Longrightarrow> t = t'"
    and "reads (w_pc w t) p \<Longrightarrow> reads (w_pc w t') p \<Longrightarrow> t = t'"
  using world_okD(3)[OF assms] unfolding taken_ok_def Let_def by blast+

lemma got:
  assumes "world_ok w" and "(x, u) \<in> set (w_got w)"
  shows "x < q_rpos (w_ring w)" and "\<not> reading w x" and "w_posted w ! x = u"
proof -
  have "x \<in> fst ` set (w_got w)" using assms(2) by (rule rev_image_eqI) simp
  then show "x < q_rpos (w_ring w)" using world_okD(5)[OF assms(1)] by (simp add: history_ok_def)
  show "\<not> reading w x" "w_posted w ! x = u"
    using world_okD(5)[OF assms(1)] assms(2) by (auto simp: history_ok_def)
qed

lemma shape:
  assumes "world_ok w"
  shows "2 \<le> q_capacity (w_ring w)" and "q_rpos (w_ring w) \<le> q_wpos (w_ring w)"
    and "q_wpos (w_ring w) \<le> q_rpos (w_ring w) + q_capacity (w_ring w)"
  using world_okD(1)[OF assms] by (simp_all add: shape_ok_def)

text \<open>Where the element at the write position is free, the position before it in the element is done.\<close>

lemma free_at_wpos:
  assumes w: "world_ok w" and free: "seq_at (w_ring w) (q_wpos (w_ring w)) = q_wpos (w_ring w)"
    and old: "q_wpos (w_ring w) = a + q_capacity (w_ring w)"
  shows "a < q_rpos (w_ring w)" and "\<not> reading w a" and "\<not> writing w a"
proof -
  have r: "recent (w_ring w) a" using old shape[OF w] by (simp add: recent_def)
  have "slot (w_ring w) a = slot (w_ring w) (q_wpos (w_ring w))"
    using world_okD(1)[OF w] by (simp add: slot_mod old)
  then have "seq_at (w_ring w) a = a + q_capacity (w_ring w)" using free old by (simp add: seq_at_def)
  with elem_of_recent(1)[OF w r] shape(1)[OF w]
  show "a < q_rpos (w_ring w)" "\<not> reading w a" "\<not> writing w a" by (auto split: if_splits)
qed

text \<open>An element that can be read at the read position was taken to write, and written.\<close>

lemma ready_at_rpos:
  assumes w: "world_ok w" and ready: "seq_at (w_ring w) (q_rpos (w_ring w)) = q_rpos (w_ring w) + 1"
  shows "q_rpos (w_ring w) < q_wpos (w_ring w)" and "recent (w_ring w) (q_rpos (w_ring w))"
    and "\<not> writing w (q_rpos (w_ring w))"
proof -
  let ?q = "w_ring w" let ?r = "q_rpos (w_ring w)" let ?C = "q_capacity (w_ring w)"
  show lt: "?r < q_wpos ?q"
  proof (rule ccontr)
    assume "\<not> ?r < q_wpos ?q"
    then have eq: "q_wpos ?q = ?r" using shape(2)[OF w] by simp
    show False
    proof (cases "?r < ?C")
      case True
      then have "seq_at ?q ?r = ?r" using world_okD(2)[OF w] eq by (auto simp: elems_ok_def Let_def)
      with ready show False by simp
    next
      case False
      define a where "a = ?r - ?C"
      with False have a: "?r = a + ?C" by simp
      have r: "recent ?q a" using a eq shape(1)[OF w] by (simp add: recent_def)
      have "slot ?q a = slot ?q ?r" using world_okD(1)[OF w] a by (simp add: slot_mod)
      then have "seq_at ?q a = a + ?C + 1" using ready a by (simp add: seq_at_def)
      moreover have "seq_at ?q a = a \<or> seq_at ?q a = a + 1 \<or> seq_at ?q a = a + ?C"
        unfolding elem_of_recent(1)[OF w r] by simp
      ultimately show False using shape(1)[OF w] by linarith
    qed
  qed
  show r: "recent ?q ?r" using lt shape(3)[OF w] by (simp add: recent_def)
  show "\<not> writing w ?r"
  proof
    assume "writing w ?r"
    then have "seq_at ?q ?r = ?r" unfolding elem_of_recent(1)[OF w r] by simp
    with ready show False by simp
  qed
qed

section \<open>The steps keep the invariant\<close>

lemma knows_goto [simp]: "knows (goto t c w) = knows w"
  by (rule ext, rename_tac d, case_tac d) simp_all

lemma goto_ok:
  assumes w: "world_ok w" and same: "writes c = writes (w_pc w t)" "reads c = reads (w_pc w t)" and c: "knows w c"
  shows "world_ok (goto t c w)"
proof -
  have wr: "writing (goto t c w) = writing w" "reading (goto t c w) = reading w"
    using same writing_same reading_same by blast+
  have pcs: "writes (((w_pc w)(t := c)) t') = writes (w_pc w t')" "reads (((w_pc w)(t := c)) t') = reads (w_pc w t')" for t'
    using same by simp_all
  show ?thesis
    using w c unfolding world_ok_def elems_ok_def taken_ok_def history_ok_def wr goto_simps pcs knows_goto Let_def by simp
qed

text \<open>A thread that takes a position, or gives it back.\<close>

lemma writing_take: "\<forall>p'. \<not> writes (w_pc w t) p' \<Longrightarrow> writes c = (\<lambda>p'. p' = p) \<Longrightarrow>
    writing (goto t c w) p' \<longleftrightarrow> p' = p \<or> writing w p'"
  unfolding writing_goto by (auto simp: writing_def)

lemma reading_take: "\<forall>p'. \<not> reads (w_pc w t) p' \<Longrightarrow> reads c = (\<lambda>p'. p' = p) \<Longrightarrow>
    reading (goto t c w) p' \<longleftrightarrow> p' = p \<or> reading w p'"
  unfolding reading_goto by (auto simp: reading_def)

lemma writing_drop:
  assumes "world_ok w" and "w_pc w' = w_pc w" and c: "writes (w_pc w t) = (\<lambda>p'. p' = p)" "\<forall>p'. \<not> writes c p'"
  shows "writing (goto t c w') p' \<longleftrightarrow> p' \<noteq> p \<and> writing w p'"
proof -
  have "writes (w_pc w t') p' \<and> t' \<noteq> t \<longleftrightarrow> writes (w_pc w t') p' \<and> p' \<noteq> p" for t'
    using taken(3)[OF assms(1), of t p t'] fun_cong[OF c(1), of p'] by auto
  then show ?thesis unfolding writing_goto assms(2) using c(2) by (auto simp: writing_def)
qed

lemma reading_drop:
  assumes "world_ok w" and "w_pc w' = w_pc w" and c: "reads (w_pc w t) = (\<lambda>p'. p' = p)" "\<forall>p'. \<not> reads c p'"
  shows "reading (goto t c w') p' \<longleftrightarrow> p' \<noteq> p \<and> reading w p'"
proof -
  have "reads (w_pc w t') p' \<and> t' \<noteq> t \<longleftrightarrow> reads (w_pc w t') p' \<and> p' \<noteq> p" for t'
    using taken(4)[OF assms(1), of t p t'] fun_cong[OF c(1), of p'] by auto
  then show ?thesis unfolding reading_goto assms(2) using c(2) by (auto simp: reading_def)
qed

lemma writing_frame: "w_pc w' = w_pc w \<Longrightarrow> writing w' = writing w"
  by (rule ext) (simp add: writing_def)

lemma reading_frame: "w_pc w' = w_pc w \<Longrightarrow> reading w' = reading w"
  by (rule ext) (simp add: reading_def)

lemma post_take_ok:
  assumes w: "world_ok w" and pc: "w_pc w t = PostCas v p" and p: "q_wpos (w_ring w) = p"
  shows "world_ok (goto t (PostWrite v p)
      (w\<lparr>w_ring := (w_ring w)\<lparr>q_wpos := p + 1\<rparr>, w_posted := w_posted w @ [v]\<rparr>))" (is "world_ok (goto t ?c ?w)")
proof -
  note One_nat_def [simp del]
  let ?q = "w_ring w" let ?q' = "?q\<lparr>q_wpos := p + 1\<rparr>" let ?C = "q_capacity ?q"
  have free: "seq_at ?q p = p" using world_okD(4)[OF w, of t] pc p by simp
  note old = free_at_wpos[OF w, unfolded p, OF free]
  have len: "length (w_posted w) = p" using world_okD(5)[OF w] p by (simp add: history_ok_def)
  have at: "seq_at ?q' = seq_at ?q" "val_at ?q' = val_at ?q" by (simp_all add: fun_eq_iff seq_at_def val_at_def slot_def)
  have W: "writing (goto t ?c ?w) x \<longleftrightarrow> x = p \<or> writing w x" for x
    using writing_take[of ?w t ?c p x] writing_frame[of ?w w] pc by (simp add: fun_eq_iff)
  have R: "reading (goto t ?c ?w) x \<longleftrightarrow> reading w x" for x
    using reading_same[of ?c ?w t] reading_frame[of ?w w] pc by (simp add: fun_eq_iff)
  have gone: "p \<noteq> x + ?C" if "writing w x \<or> reading w x" for x using old that by blast
  have rec: "recent ?q' x \<longleftrightarrow> x = p \<or> recent ?q x \<and> p \<noteq> x + ?C" for x
    using shape(1)[OF w] p by (auto simp: recent_def)
  have room: "p + 1 \<le> q_rpos ?q + ?C"
  proof (cases "p < ?C")
    case False
    then show ?thesis using old(1)[of "p - ?C"] by simp
  qed simp
  have le: "q_rpos ?q \<le> p" using shape(2)[OF w] p by simp
  have "shape_ok ?q'" using world_okD(1)[OF w] room le by (simp add: shape_ok_def)
  moreover have "elems_ok (goto t ?c ?w)"
  proof (rule elems_okI)
    fix x assume x: "recent (w_ring (goto t ?c ?w)) x"
    then show "seq_at (w_ring (goto t ?c ?w)) x = (if writing (goto t ?c ?w) x then x
        else if q_rpos (w_ring (goto t ?c ?w)) \<le> x \<or> reading (goto t ?c ?w) x then x + 1
        else x + q_capacity (w_ring (goto t ?c ?w)))"
      unfolding W R using free elem_of_recent(1)[OF w, of x] by (auto simp: rec at)
    assume "\<not> writing (goto t ?c ?w) x" and "q_rpos (w_ring (goto t ?c ?w)) \<le> x \<or> reading (goto t ?c ?w) x"
    with x elem_of_recent(2)[OF w, of x] show "val_at (w_ring (goto t ?c ?w)) x = w_posted (goto t ?c ?w) ! x"
      unfolding W R by (auto simp: rec at nth_append len) (simp_all add: recent_def p)
  next
    fix x assume "q_wpos (w_ring (goto t ?c ?w)) \<le> x" and "x < q_capacity (w_ring (goto t ?c ?w))"
    then show "seq_at (w_ring (goto t ?c ?w)) x = x" using elem_of_new[OF w, of x] p by (simp add: at)
  qed
  moreover have "taken_ok (goto t ?c ?w)"
  proof -
    have "\<not> writing w p" using taken(1)[OF w, of p] p by (auto simp: recent_def)
    then have other: "\<not> writes (w_pc w t') p" for t' by (auto simp: writing_def)
    have "writing w x \<Longrightarrow> q_rpos ?q \<le> x \<and> recent ?q' x" "reading w x \<Longrightarrow> x < q_rpos ?q \<and> recent ?q' x" for x
      using taken(1,2)[OF w, of x] gone[of x] rec by auto
    then show ?thesis
      using le rec other taken(3,4)[OF w] by (auto simp: taken_ok_def Let_def W R)
  qed
  moreover have "knows (goto t ?c ?w) (w_pc (goto t ?c ?w) t')" for t'
  proof (cases "t' = t")
    case False
    have k: "knows w (w_pc w t')" by (rule world_okD(4)[OF w])
    have "x < p" if "writing w x \<or> reading w x" for x using taken(1,2)[OF w, of x] that p by (auto simp: recent_def)
    then have "writes (w_pc w t') x \<or> reads (w_pc w t') x \<Longrightarrow> x < p" for x by (auto simp: writing_def reading_def)
    with False k show ?thesis
      by (cases "w_pc w t'") (auto simp: p len at nth_append)
  qed (simp add: nth_append len)
  moreover have "history_ok (goto t ?c ?w)"
  proof -
    have "x < p" if "(x, u) \<in> set (w_got w)" for x u using got(1)[OF w that] le by simp
    then show ?thesis using world_okD(5)[OF w] p len by (auto simp: history_ok_def R nth_append)
  qed
  ultimately show ?thesis by (simp add: world_ok_def)
qed

lemma fetch_take_ok:
  assumes w: "world_ok w" and pc: "w_pc w t = FetchCas p" and p: "q_rpos (w_ring w) = p"
  shows "world_ok (goto t (FetchRead p) (w\<lparr>w_ring := (w_ring w)\<lparr>q_rpos := p + 1\<rparr>\<rparr>))"
    (is "world_ok (goto t ?c ?w)")
proof -
  note One_nat_def [simp del]
  let ?q = "w_ring w" let ?q' = "?q\<lparr>q_rpos := p + 1\<rparr>" let ?C = "q_capacity ?q"
  have "seq_at ?q p = p + 1" using world_okD(4)[OF w, of t] pc p by simp
  note ready = ready_at_rpos[OF w, unfolded p, OF this]
  have at: "seq_at ?q' = seq_at ?q" "val_at ?q' = val_at ?q" by (simp_all add: fun_eq_iff seq_at_def val_at_def slot_def)
  have rec: "recent ?q' = recent ?q" by (simp add: fun_eq_iff recent_def)
  have W: "writing (goto t ?c ?w) x \<longleftrightarrow> writing w x" for x
    using writing_same[of ?c ?w t] writing_frame[of ?w w] pc by (simp add: fun_eq_iff)
  have R: "reading (goto t ?c ?w) x \<longleftrightarrow> x = p \<or> reading w x" for x
    using reading_take[of ?w t ?c p x] reading_frame[of ?w w] pc by (simp add: fun_eq_iff)
  have "shape_ok ?q'" using world_okD(1)[OF w] ready(1) p by (simp add: shape_ok_def)
  moreover have "elems_ok (goto t ?c ?w)"
  proof (rule elems_okI)
    fix x assume x: "recent (w_ring (goto t ?c ?w)) x"
    then show "seq_at (w_ring (goto t ?c ?w)) x = (if writing (goto t ?c ?w) x then x
        else if q_rpos (w_ring (goto t ?c ?w)) \<le> x \<or> reading (goto t ?c ?w) x then x + 1
        else x + q_capacity (w_ring (goto t ?c ?w)))"
      unfolding W R using elem_of_recent(1)[OF w, of x] p by (auto simp: rec at)
    assume "\<not> writing (goto t ?c ?w) x" and "q_rpos (w_ring (goto t ?c ?w)) \<le> x \<or> reading (goto t ?c ?w) x"
    with x elem_of_recent(2)[OF w, of x] p show "val_at (w_ring (goto t ?c ?w)) x = w_posted (goto t ?c ?w) ! x"
      unfolding W R by (auto simp: rec at)
  next
    fix x assume "q_wpos (w_ring (goto t ?c ?w)) \<le> x" and "x < q_capacity (w_ring (goto t ?c ?w))"
    then show "seq_at (w_ring (goto t ?c ?w)) x = x" using elem_of_new[OF w, of x] by (simp add: at)
  qed
  moreover have "taken_ok (goto t ?c ?w)"
  proof -
    have "\<not> reading w p" using taken(2)[OF w, of p] p by auto
    then have other: "\<not> reads (w_pc w t') p" for t' by (auto simp: reading_def)
    have "writing w x \<Longrightarrow> p + 1 \<le> x \<and> recent ?q x" "reading w x \<Longrightarrow> x < p + 1 \<and> recent ?q x" for x
      using taken(1,2)[OF w, of x] ready(3) p by (cases "x = p"; auto)+
    then show ?thesis
      using ready(2) other taken(3,4)[OF w] by (auto simp: taken_ok_def Let_def W R rec)
  qed
  moreover have "knows (goto t ?c ?w) (w_pc (goto t ?c ?w) t')" for t'
    using world_okD(4)[OF w, of t'] by (cases "t' = t"; cases "w_pc w t'") (auto simp: p at)
  moreover have "history_ok (goto t ?c ?w)"
  proof -
    have "x \<noteq> p" if "(x, u) \<in> set (w_got w)" for x u using got(1)[OF w that] p by simp
    moreover have "x < p + 1 \<longleftrightarrow> x = p \<or> x < p" for x :: nat by linarith
    ultimately show ?thesis using world_okD(5)[OF w] p by (auto simp: history_ok_def R)
  qed
  ultimately show ?thesis by (simp add: world_ok_def)
qed

text \<open>A thread that writes, reads or commits changes only the element of its own position.\<close>

lemma other_element:
  assumes "world_ok w" and "recent (w_ring w) p" and "recent (w_ring w) x" and "x \<noteq> p"
  shows "slot (w_ring w) x \<noteq> slot (w_ring w) p"
  using recent_slot[OF world_okD(1)[OF assms(1)] assms(3,2)] assms(4) by blast

lemma new_element:
  assumes w: "world_ok w" and "recent (w_ring w) p" and "q_wpos (w_ring w) \<le> x" and "x < q_capacity (w_ring w)"
  shows "slot (w_ring w) x \<noteq> slot (w_ring w) p"
  using slot_mod[OF world_okD(1)[OF w]] assms by (auto simp: recent_def)

text \<open>What the other threads know is about elements that the step leaves alone.\<close>

lemma taken_recent:
  assumes "world_ok w"
  shows "writes (w_pc w t) p \<Longrightarrow> q_rpos (w_ring w) \<le> p \<and> recent (w_ring w) p \<and> writing w p"
    and "reads (w_pc w t) p \<Longrightarrow> p < q_rpos (w_ring w) \<and> recent (w_ring w) p \<and> reading w p"
  using taken(1,2)[OF assms, of p] by (auto simp: writing_def reading_def)

lemma post_write_ok:
  assumes w: "world_ok w" and pc: "w_pc w t = PostWrite v p"
  shows "world_ok (goto t (PostCommit v p) (w\<lparr>w_ring := set_val p v (w_ring w)\<rparr>))" (is "world_ok (goto t ?c ?w)")
proof -
  let ?q = "w_ring w" let ?q' = "set_val p v ?q"
  have me: "q_rpos ?q \<le> p \<and> recent ?q p \<and> writing w p" using taken_recent(1)[OF w, of t p] pc by simp
  note at = at_set_val[OF world_okD(1)[OF w]]
  have W: "writing (goto t ?c ?w) x \<longleftrightarrow> writing w x" for x
    using writing_same[of ?c ?w t] writing_frame[of ?w w] pc by (simp add: fun_eq_iff)
  have R: "reading (goto t ?c ?w) x \<longleftrightarrow> reading w x" for x
    using reading_same[of ?c ?w t] reading_frame[of ?w w] pc by (simp add: fun_eq_iff)
  have "shape_ok ?q'" using world_okD(1)[OF w] by simp
  moreover have "elems_ok (goto t ?c ?w)"
  proof (rule elems_okI)
    fix x assume "recent (w_ring (goto t ?c ?w)) x"
    then have x: "recent ?q x" by simp
    then show "seq_at (w_ring (goto t ?c ?w)) x = (if writing (goto t ?c ?w) x then x
        else if q_rpos (w_ring (goto t ?c ?w)) \<le> x \<or> reading (goto t ?c ?w) x then x + 1
        else x + q_capacity (w_ring (goto t ?c ?w)))"
      using elem_of_recent(1)[OF w x] by (simp add: W R at)
    assume n: "\<not> writing (goto t ?c ?w) x" and "q_rpos (w_ring (goto t ?c ?w)) \<le> x \<or> reading (goto t ?c ?w) x"
    moreover from n have "x \<noteq> p" using me W by blast
    ultimately show "val_at (w_ring (goto t ?c ?w)) x = w_posted (goto t ?c ?w) ! x"
      using elem_of_recent(2)[OF w x] other_element[OF w _ x, of p] me by (simp add: W R at)
  next
    fix x assume "q_wpos (w_ring (goto t ?c ?w)) \<le> x" and "x < q_capacity (w_ring (goto t ?c ?w))"
    then show "seq_at (w_ring (goto t ?c ?w)) x = x" using elem_of_new[OF w, of x] by (simp add: at)
  qed
  moreover have "taken_ok (goto t ?c ?w)"
    using world_okD(3)[OF w] pc by (auto simp: taken_ok_def Let_def W R)
  moreover have "knows (goto t ?c ?w) (w_pc (goto t ?c ?w) t')" for t'
  proof (cases "t' = t")
    case True
    then show ?thesis using world_okD(4)[OF w, of t] pc by (simp add: at)
  next
    case False
    have "x \<noteq> p" if "writes (w_pc w t') x" for x using taken(3)[OF w, of t' p t] False that pc by auto
    then have "slot ?q x \<noteq> slot ?q p" if "writes (w_pc w t') x" for x
      using other_element[OF w, of p x] taken_recent(1)[OF w that] me that by blast
    then show ?thesis using world_okD(4)[OF w, of t'] False by (cases "w_pc w t'") (auto simp: at)
  qed
  moreover have "history_ok (goto t ?c ?w)" using world_okD(5)[OF w] by (simp add: history_ok_def R)
  ultimately show ?thesis by (simp add: world_ok_def)
qed

lemma post_commit_ok:
  assumes w: "world_ok w" and pc: "w_pc w t = PostCommit v p"
  shows "world_ok (goto t Idle (w\<lparr>w_ring := set_seq p (p + 1) (w_ring w)\<rparr>))" (is "world_ok (goto t ?c ?w)")
proof -
  note One_nat_def [simp del]
  let ?q = "w_ring w" let ?q' = "set_seq p (p + 1) ?q"
  have me: "q_rpos ?q \<le> p \<and> recent ?q p \<and> writing w p" using taken_recent(1)[OF w, of t p] pc by simp
  have val: "w_posted w ! p = v" "val_at ?q p = v" using world_okD(4)[OF w, of t] pc by simp_all
  note at = at_set_seq[OF world_okD(1)[OF w]]
  have W: "writing (goto t ?c ?w) x \<longleftrightarrow> x \<noteq> p \<and> writing w x" for x
    by (rule writing_drop[OF w]) (simp_all add: pc fun_eq_iff)
  have R: "reading (goto t ?c ?w) x \<longleftrightarrow> reading w x" for x
    using reading_same[of ?c ?w t] reading_frame[of ?w w] pc by (simp add: fun_eq_iff)
  have "shape_ok ?q'" using world_okD(1)[OF w] by simp
  moreover have "elems_ok (goto t ?c ?w)"
  proof (rule elems_okI)
    fix x assume "recent (w_ring (goto t ?c ?w)) x"
    then have x: "recent ?q x" by simp
    show "seq_at (w_ring (goto t ?c ?w)) x = (if writing (goto t ?c ?w) x then x
        else if q_rpos (w_ring (goto t ?c ?w)) \<le> x \<or> reading (goto t ?c ?w) x then x + 1
        else x + q_capacity (w_ring (goto t ?c ?w)))"
      using elem_of_recent(1)[OF w x] other_element[OF w _ x, of p] me by (cases "x = p") (simp_all add: W R at)
    assume "\<not> writing (goto t ?c ?w) x" and "q_rpos (w_ring (goto t ?c ?w)) \<le> x \<or> reading (goto t ?c ?w) x"
    then show "val_at (w_ring (goto t ?c ?w)) x = w_posted (goto t ?c ?w) ! x"
      using elem_of_recent(2)[OF w x] val by (cases "x = p") (simp_all add: W R at)
  next
    fix x assume "q_wpos (w_ring (goto t ?c ?w)) \<le> x" and "x < q_capacity (w_ring (goto t ?c ?w))"
    then show "seq_at (w_ring (goto t ?c ?w)) x = x"
      using elem_of_new[OF w, of x] new_element[OF w, of p x] me by (simp add: at)
  qed
  moreover have "taken_ok (goto t ?c ?w)"
    using world_okD(3)[OF w] by (auto simp: taken_ok_def Let_def W R)
  moreover have "knows (goto t ?c ?w) (w_pc (goto t ?c ?w) t')" for t'
  proof -
    have k: "knows w (w_pc w t')" by (rule world_okD(4)[OF w])
    have "slot ?q x \<noteq> slot ?q p" if "q_wpos ?q = x" "seq_at ?q x = x" for x
      using recent_slot_wpos[OF world_okD(1)[OF w], of p] free_at_wpos(3)[OF w, of p] me that by metis
    moreover have "slot ?q x \<noteq> slot ?q p" if "q_rpos ?q = x" "seq_at ?q x = x + 1" for x
      using ready_at_rpos(2,3)[OF w] other_element[OF w, of p x] me that by auto
    ultimately show ?thesis using k by (cases "t' = t"; cases "w_pc w t'") (auto simp: at)
  qed
  moreover have "history_ok (goto t ?c ?w)" using world_okD(5)[OF w] by (simp add: history_ok_def R)
  ultimately show ?thesis by (simp add: world_ok_def)
qed

lemma fetch_commit_ok:
  assumes w: "world_ok w" and pc: "w_pc w t = FetchCommit v p"
  shows "world_ok (goto t Idle (w\<lparr>w_ring := set_seq p (p + q_capacity (w_ring w)) (w_ring w),
                                  w_got := w_got w @ [(p, v)]\<rparr>))" (is "world_ok (goto t ?c ?w)")
proof -
  note One_nat_def [simp del]
  let ?q = "w_ring w" let ?q' = "set_seq p (p + q_capacity ?q) ?q"
  have me: "p < q_rpos ?q \<and> recent ?q p \<and> reading w p" using taken_recent(2)[OF w, of t p] pc by simp
  have val: "w_posted w ! p = v" using world_okD(4)[OF w, of t] pc by simp
  note at = at_set_seq[OF world_okD(1)[OF w]]
  have W: "writing (goto t ?c ?w) x \<longleftrightarrow> writing w x" for x
    using writing_same[of ?c ?w t] writing_frame[of ?w w] pc by (simp add: fun_eq_iff)
  have R: "reading (goto t ?c ?w) x \<longleftrightarrow> x \<noteq> p \<and> reading w x" for x
    by (rule reading_drop[OF w]) (simp_all add: pc fun_eq_iff)
  have nw: "\<not> writing w p" using taken(1)[OF w, of p] me by auto
  have "shape_ok ?q'" using world_okD(1)[OF w] by simp
  moreover have "elems_ok (goto t ?c ?w)"
  proof (rule elems_okI)
    fix x assume "recent (w_ring (goto t ?c ?w)) x"
    then have x: "recent ?q x" by simp
    show "seq_at (w_ring (goto t ?c ?w)) x = (if writing (goto t ?c ?w) x then x
        else if q_rpos (w_ring (goto t ?c ?w)) \<le> x \<or> reading (goto t ?c ?w) x then x + 1
        else x + q_capacity (w_ring (goto t ?c ?w)))"
      using elem_of_recent(1)[OF w x] other_element[OF w _ x, of p] me nw by (cases "x = p") (simp_all add: W R at)
    assume "\<not> writing (goto t ?c ?w) x" and "q_rpos (w_ring (goto t ?c ?w)) \<le> x \<or> reading (goto t ?c ?w) x"
    then show "val_at (w_ring (goto t ?c ?w)) x = w_posted (goto t ?c ?w) ! x"
      using elem_of_recent(2)[OF w x] by (auto simp: W R at)
  next
    fix x assume "q_wpos (w_ring (goto t ?c ?w)) \<le> x" and "x < q_capacity (w_ring (goto t ?c ?w))"
    then show "seq_at (w_ring (goto t ?c ?w)) x = x"
      using elem_of_new[OF w, of x] new_element[OF w, of p x] me by (simp add: at)
  qed
  moreover have "taken_ok (goto t ?c ?w)"
    using world_okD(3)[OF w] by (auto simp: taken_ok_def Let_def W R)
  moreover have "knows (goto t ?c ?w) (w_pc (goto t ?c ?w) t')" for t'
  proof -
    have k: "knows w (w_pc w t')" by (rule world_okD(4)[OF w])
    have "slot ?q x \<noteq> slot ?q p" if "q_wpos ?q = x" "seq_at ?q x = x" for x
      using recent_slot_wpos[OF world_okD(1)[OF w], of p] free_at_wpos(2)[OF w, of p] me that by metis
    moreover have "slot ?q x \<noteq> slot ?q p" if "q_rpos ?q = x" "seq_at ?q x = x + 1" for x
      using ready_at_rpos(2)[OF w] other_element[OF w, of p x] me that by auto
    ultimately show ?thesis using k by (cases "t' = t"; cases "w_pc w t'") (auto simp: at)
  qed
  moreover have "history_ok (goto t ?c ?w)"
  proof -
    have "p \<notin> fst ` set (w_got w)" using got(2)[OF w] me by auto
    then show ?thesis using world_okD(5)[OF w] me val by (auto simp: history_ok_def R)
  qed
  ultimately show ?thesis by (simp add: world_ok_def)
qed

lemma post_step_ok:
  assumes "post_step t w w'" and w: "world_ok w"
  shows "world_ok w'"
  using assms(1)
proof cases
  case (post_take v p)
  then show ?thesis using post_take_ok[OF w, of t v p] by simp
next
  case (post_write v p)
  then show ?thesis using post_write_ok[OF w, of t v p] by simp
next
  case (post_commit v p)
  then show ?thesis using post_commit_ok[OF w, of t v p] by simp
qed (use world_okD(4)[OF w, of t] in \<open>auto intro!: goto_ok[OF w]\<close>)

lemma fetch_step_ok:
  assumes "fetch_step t w w'" and w: "world_ok w"
  shows "world_ok w'"
  using assms(1)
proof cases
  case (fetch_take p)
  then show ?thesis using fetch_take_ok[OF w, of t p] by simp
next
  case (fetch_read p)
  have me: "p < q_rpos (w_ring w) \<and> recent (w_ring w) p \<and> reading w p"
    using taken_recent(2)[OF w, of t p] fetch_read by simp
  then have "\<not> writing w p" using taken(1)[OF w, of p] by auto
  then have "val_at (w_ring w) p = w_posted w ! p" using elem_of_recent(2)[OF w, of p] me by blast
  then show ?thesis unfolding fetch_read by (intro goto_ok[OF w]) (simp_all add: fetch_read fun_eq_iff)
next
  case (fetch_commit v p)
  then show ?thesis using fetch_commit_ok[OF w, of t v p] by simp
qed (use world_okD(4)[OF w, of t] in \<open>auto intro!: goto_ok[OF w]\<close>)

text \<open>A queue at rest is a queue as \<open>Mem_Queue\<close> has it.\<close>

lemma world_start_ok:
  assumes "is_pow2 capacity" and "2 \<le> capacity"
  shows "world_ok (world_start zero capacity)"
proof -
  let ?q = "make_ring zero capacity"
  have ok: "ring_ok ?q" and r: "q_rpos ?q = 0" "q_wpos ?q = 0"
    using make_ring_ok[OF assms] by (simp_all add: make_ring_def)
  then have shape: "shape_ok ?q" by (simp add: shape_ok_def ring_ok_def)
  have "seq_at ?q x = x" if "x < q_capacity ?q" for x
    using ok that r by (simp add: ring_ok_def seq_at_def slot_mod[OF shape])
  then show ?thesis
    using shape r
    by (simp add: world_ok_def world_start_def elems_ok_def taken_ok_def history_ok_def recent_def writing_def reading_def)
qed

lemma runs_ok: "runs zero capacity w \<Longrightarrow> is_pow2 capacity \<Longrightarrow> 2 \<le> capacity \<Longrightarrow> world_ok w"
  by (induction rule: runs.induct) (auto intro: world_start_ok post_step_ok fetch_step_ok)

lemma at_rest:
  assumes w: "world_ok w" and idle: "\<forall>t. w_pc w t = Idle"
  shows "ring_ok (w_ring w)" and "ring_contents (w_ring w) = drop (q_rpos (w_ring w)) (w_posted w)"
    and "set (map fst (w_got w)) = {..<q_rpos (w_ring w)}"
proof -
  let ?q = "w_ring w" let ?C = "q_capacity ?q"
  have no: "\<not> writing w x" "\<not> reading w x" for x using idle by (simp_all add: writing_def reading_def)
  note sh = world_okD(1)[OF w] and mod = slot_mod[OF world_okD(1)[OF w]]
  have len: "length (w_posted w) = q_wpos ?q" using world_okD(5)[OF w] by (simp add: history_ok_def)
  have full: "seq_at ?q i = i + 1" "val_at ?q i = w_posted w ! i" if "q_rpos ?q \<le> i" "i < q_wpos ?q" for i
    using elem_of_recent[OF w, of i] that no shape[OF w] by (simp_all add: recent_def)
  have free: "seq_at ?q i = i" if "q_wpos ?q \<le> i" "i < q_rpos ?q + ?C" for i
  proof (cases "i < ?C")
    case True
    then show ?thesis using elem_of_new[OF w] that by simp
  next
    case False
    define a where "a = i - ?C"
    with False have a: "i = a + ?C" by simp
    have "slot ?q i = slot ?q a" by (simp add: mod a)
    then have "seq_at ?q i = seq_at ?q a" by (simp add: seq_at_def)
    also have "\<dots> = i" using elem_of_recent(1)[OF w, of a] a that no shape[OF w] by (simp add: recent_def)
    finally show ?thesis .
  qed
  show "ring_ok ?q"
    using sh full(1) free by (simp add: ring_ok_def shape_ok_def seq_at_def mod)
  show "ring_contents ?q = drop (q_rpos ?q) (w_posted w)"
    by (rule nth_equalityI) (use full(2) len in \<open>simp_all add: ring_contents_def val_at_def mod\<close>)
  show "set (map fst (w_got w)) = {..<q_rpos ?q}"
    using world_okD(5)[OF w] no by (auto simp: history_ok_def)
qed

section \<open>What the queue promises\<close>

text \<open>The last position that was taken to write in the element of \<open>p\<close>.\<close>

lemma last_in_element:
  assumes w: "world_ok w" and p: "p < q_wpos (w_ring w)"
  obtains b where "recent (w_ring w) b" and "p \<le> b" and "seq_at (w_ring w) b = seq_at (w_ring w) p"
proof -
  let ?C = "q_capacity (w_ring w)" let ?n = "q_wpos (w_ring w) - 1 - p"
  define b where "b = p + ?C * (?n div ?C)"
  have C: "0 < ?C" using shape(1)[OF w] by simp
  have n: "q_wpos (w_ring w) - 1 = p + ?n" using p by simp
  have "?n = ?C * (?n div ?C) + ?n mod ?C" by simp
  with n have "q_wpos (w_ring w) - 1 = b + ?n mod ?C" unfolding b_def by linarith
  then have "recent (w_ring w) b" using mod_less_divisor[OF C, of ?n] p unfolding recent_def by linarith
  moreover have "slot (w_ring w) b = slot (w_ring w) p"
    by (simp add: slot_mod[OF world_okD(1)[OF w]] b_def)
  ultimately show thesis using that[of b] by (simp add: b_def seq_at_def)
qed

lemma full_when_refused:
  assumes w: "world_ok w" and p: "p \<le> q_wpos (w_ring w)" and less: "seq_at (w_ring w) p < p"
  shows "ring_size (w_ring w) = q_capacity (w_ring w)
      \<or> (\<exists>a. reading w a \<and> q_wpos (w_ring w) = a + q_capacity (w_ring w))"
proof -
  let ?q = "w_ring w" let ?C = "q_capacity ?q"
  have eq: "q_wpos ?q = p"
  proof (rule ccontr)
    assume "q_wpos ?q \<noteq> p"
    with p have "p < q_wpos ?q" by simp
    from last_in_element[OF w this] obtain b where b: "recent ?q b" "p \<le> b" "seq_at ?q b = seq_at ?q p" .
    have "b \<le> seq_at ?q b" unfolding elem_of_recent(1)[OF w b(1)] by simp
    with b less show False by simp
  qed
  have "\<not> p < ?C" using elem_of_new[OF w, of p] eq less by auto
  then obtain a where a: "p = a + ?C" by (metis le_add_diff_inverse2 not_less)
  have r: "recent ?q a" using a eq shape(1)[OF w] by (simp add: recent_def)
  have "seq_at ?q a = seq_at ?q p" by (simp add: seq_at_def slot_mod[OF world_okD(1)[OF w]] a)
  then have "seq_at ?q a < a + ?C" using less a by simp
  then have "writing w a \<or> q_rpos ?q \<le> a \<or> reading w a" using elem_of_recent(1)[OF w r] by (auto split: if_splits)
  then have "q_rpos ?q \<le> a \<or> reading w a" using taken(1)[OF w] by blast
  then show ?thesis using shape[OF w] eq a by (auto simp: ring_size_def)
qed

lemma empty_when_refused:
  assumes w: "world_ok w" and p: "p \<le> q_rpos (w_ring w)" and less: "seq_at (w_ring w) p < p + 1"
  shows "ring_empty (w_ring w) \<or> writing w (q_rpos (w_ring w))"
proof (cases "p = q_wpos (w_ring w)")
  case True
  then show ?thesis using p shape(2)[OF w] by (simp add: ring_empty_def)
next
  case False
  let ?q = "w_ring w"
  from False have "p < q_wpos ?q" using p shape(2)[OF w] by simp
  from last_in_element[OF w this] obtain b where b: "recent ?q b" "p \<le> b" "seq_at ?q b = seq_at ?q p" .
  have "b \<le> seq_at ?q b" unfolding elem_of_recent(1)[OF w b(1)] by simp
  with b less have "b = p" "seq_at ?q b = b" by linarith+
  then have "writing w p" using elem_of_recent(1)[OF w b(1)] shape(1)[OF w] by (auto split: if_splits)
  then have "p = q_rpos ?q" using taken(1)[OF w, of p] p by simp
  with \<open>writing w p\<close> show ?thesis by simp
qed

lemma got_values:
  assumes "distinct (map fst gs)" and "set (map fst gs) = {..<n}" and "\<forall>(p, v)\<in>set gs. ps ! p = v" and "n \<le> length ps"
  shows "mset (map snd gs) = mset (take n ps)" and "length gs = n"
proof -
  have ms: "mset (map fst gs) = mset [0..<n]"
    using assms(1,2) by (intro set_eq_iff_mset_eq_distinct[THEN iffD1]) auto
  then have "length (map fst gs) = length [0..<n]" by (rule mset_eq_length)
  then show "length gs = n" by simp
  have "map snd gs = map (\<lambda>p. ps ! p) (map fst gs)" using assms(3) by auto
  then have "mset (map snd gs) = image_mset (\<lambda>p. ps ! p) (mset (map fst gs))" by (simp only: mset_map)
  also have "\<dots> = mset (map (\<lambda>p. ps ! p) [0..<n])" unfolding ms by (simp only: mset_map)
  also have "map (\<lambda>p. ps ! p) [0..<n] = take n ps" using assms(4) by (simp add: list_eq_iff_nth_eq)
  finally show "mset (map snd gs) = mset (take n ps)" .
qed

text \<open>A schedule that names the thread of each step; an exchange succeeds where it can.\<close>

definition post_next :: "'v \<Rightarrow> nat \<Rightarrow> 'v world \<Rightarrow> 'v world" where
  "post_next v0 t w = (case w_pc w t of
     Idle \<Rightarrow> goto t (PostLoad v0) w
   | PostLoad v \<Rightarrow> goto t (PostCheck v (q_wpos (w_ring w))) w
   | PostCheck v p \<Rightarrow> (let s = seq_at (w_ring w) p in
       if s = p then goto t (PostCas v p) w else if s < p then goto t Idle w else goto t (PostLoad v) w)
   | PostCas v p \<Rightarrow> (if q_wpos (w_ring w) = p
       then goto t (PostWrite v p) (w\<lparr>w_ring := (w_ring w)\<lparr>q_wpos := p + 1\<rparr>, w_posted := w_posted w @ [v]\<rparr>)
       else goto t (PostCheck v (q_wpos (w_ring w))) w)
   | PostWrite v p \<Rightarrow> goto t (PostCommit v p) (w\<lparr>w_ring := set_val p v (w_ring w)\<rparr>)
   | PostCommit v p \<Rightarrow> goto t Idle (w\<lparr>w_ring := set_seq p (p + 1) (w_ring w)\<rparr>)
   | _ \<Rightarrow> w)"

definition fetch_next :: "nat \<Rightarrow> 'v world \<Rightarrow> 'v world" where
  "fetch_next t w = (case w_pc w t of
     Idle \<Rightarrow> goto t FetchLoad w
   | FetchLoad \<Rightarrow> goto t (FetchCheck (q_rpos (w_ring w))) w
   | FetchCheck p \<Rightarrow> (let s = seq_at (w_ring w) p in
       if s = p + 1 then goto t (FetchCas p) w else if s < p + 1 then goto t Idle w else goto t FetchLoad w)
   | FetchCas p \<Rightarrow> (if q_rpos (w_ring w) = p
       then goto t (FetchRead p) (w\<lparr>w_ring := (w_ring w)\<lparr>q_rpos := p + 1\<rparr>\<rparr>)
       else goto t (FetchCheck (q_rpos (w_ring w))) w)
   | FetchRead p \<Rightarrow> goto t (FetchCommit (val_at (w_ring w) p) p) w
   | FetchCommit v p \<Rightarrow> goto t Idle (w\<lparr>w_ring := set_seq p (p + q_capacity (w_ring w)) (w_ring w),
                                    w_got := w_got w @ [(p, v)]\<rparr>)
   | _ \<Rightarrow> w)"

text \<open>A turn is of a thread that posts a value, or of one that fetches.\<close>

fun next_turn :: "nat \<times> 'v option \<Rightarrow> 'v world \<Rightarrow> 'v world" where
  "next_turn (t, Some v) w = post_next v t w"
| "next_turn (t, None) w = fetch_next t w"

lemma post_next_runs: "runs zero capacity w \<Longrightarrow> runs zero capacity (post_next v t w)"
  by (cases "w_pc w t") (auto simp: post_next_def Let_def nat_neq_iff simp del: One_nat_def intro: runs.post post_step.intros)

lemma fetch_next_runs: "runs zero capacity w \<Longrightarrow> runs zero capacity (fetch_next t w)"
  by (cases "w_pc w t") (auto simp: fetch_next_def Let_def nat_neq_iff simp del: One_nat_def intro: runs.fetch fetch_step.intros)

lemma next_turn_runs: "runs zero capacity w \<Longrightarrow> runs zero capacity (next_turn a w)"
  by (cases "(a, w)" rule: next_turn.cases) (simp_all add: post_next_runs fetch_next_runs)

lemma turns_run: "runs zero capacity (fold next_turn ts (world_start zero capacity))"
proof -
  have "runs zero capacity w \<Longrightarrow> runs zero capacity (fold next_turn ts w)" for w
    by (induction ts arbitrary: w) (simp_all add: next_turn_runs)
  then show ?thesis by (simp add: runs.start)
qed

lemma next_turn_other: "t' \<noteq> fst a \<Longrightarrow> w_pc (next_turn a w) t' = w_pc w t'"
  by (cases "(a, w)" rule: next_turn.cases) (auto simp: post_next_def fetch_next_def Let_def split: pc.split)

lemma turns_idle: "\<forall>a\<in>set ts. fst a < n \<Longrightarrow> n \<le> t \<Longrightarrow> w_pc (fold next_turn ts w) t = w_pc w t"
  by (induction ts arbitrary: w) (auto simp: next_turn_other simp del: next_turn.simps)

text \<open>
  C38. Any number of threads post to a queue, whose capacity is a power of two and at least two, and fetch from it, their atomic accesses interleaved in any
  order: no position is delivered twice, and what is delivered for a position is what was posted to it.
  When no operation is under way, the positions delivered are exactly the first ones, the queue holds the
  messages that were posted after them in the order in which they were posted, and together they are the
  messages that were posted: none is lost, and none is made up.
\<close>

theorem queue_delivers_once:
  assumes run: "runs zero capacity w" and "is_pow2 capacity" and "2 \<le> capacity"
  shows "distinct (map fst (w_got w)) \<and> (\<forall>(p, v)\<in>set (w_got w). p < length (w_posted w) \<and> v = w_posted w ! p)
    \<and> ((\<forall>t. w_pc w t = Idle) \<longrightarrow>
        ring_ok (w_ring w) \<and> set (map fst (w_got w)) = {..<length (w_got w)}
        \<and> ring_contents (w_ring w) = drop (length (w_got w)) (w_posted w)
        \<and> mset (map snd (w_got w)) + mset (ring_contents (w_ring w)) = mset (w_posted w))"
proof -
  have w: "world_ok w" by (rule runs_ok[OF assms])
  have d: "distinct (map fst (w_got w))" and len: "length (w_posted w) = q_wpos (w_ring w)"
    using world_okD(5)[OF w] by (simp_all add: history_ok_def)
  have g: "p < length (w_posted w) \<and> w_posted w ! p = v" if "(p, v) \<in> set (w_got w)" for p v
    using got[OF w that] shape(2)[OF w] len by simp
  have rest: "ring_ok (w_ring w) \<and> set (map fst (w_got w)) = {..<length (w_got w)}
        \<and> ring_contents (w_ring w) = drop (length (w_got w)) (w_posted w)
        \<and> mset (map snd (w_got w)) + mset (ring_contents (w_ring w)) = mset (w_posted w)"
    if idle: "\<forall>t. w_pc w t = Idle"
  proof -
    note rest = at_rest[OF w idle]
    have le: "q_rpos (w_ring w) \<le> length (w_posted w)" unfolding len by (rule shape(2)[OF w])
    have "mset (map snd (w_got w)) = mset (take (q_rpos (w_ring w)) (w_posted w))"
        "length (w_got w) = q_rpos (w_ring w)"
      by (rule got_values[OF d rest(3) _ le]; use g in auto)+
    then show ?thesis using rest by (metis append_take_drop_id mset_append)
  qed
  show ?thesis using d g rest by auto
qed

text \<open>
  Two threads post and one fetches: the second to start takes the first position, the first thread commits
  before it, and the fetch that finds the first position not yet committed gives up.
\<close>

definition contended :: "(nat \<times> int option) list" where
  "contended = replicate 3 (0, Some 7) @ replicate 4 (1, Some 8) @ replicate 5 (0, Some 7)
     @ replicate 3 (2, None) @ replicate 2 (1, Some 8) @ replicate 6 (2, None)"

abbreviation contended_world :: "int world" where
  "contended_world \<equiv> fold next_turn contended (world_start 0 2)"

lemma contended_idle: "w_pc contended_world t = Idle"
proof -
  have "fst a < 3" if "a \<in> set contended" for a using that by (auto simp: contended_def)
  then have "3 \<le> t \<Longrightarrow> ?thesis" using turns_idle[of contended 3 t "world_start 0 2"] by (simp add: world_start_def)
  moreover have "w_pc contended_world 0 = Idle \<and> w_pc contended_world 1 = Idle \<and> w_pc contended_world 2 = Idle" by code_simp
  moreover have "t = 0 \<or> t = 1 \<or> t = 2 \<or> 3 \<le> t" by linarith
  ultimately show ?thesis by blast
qed

theorem queue_delivers_once_witness:
  "w_posted contended_world = [8, 7] \<and> w_got contended_world = [(0, 8)] \<and> (\<forall>t. w_pc contended_world t = Idle)
     \<and> ring_contents (w_ring contended_world) = drop 1 [8, 7]"
proof -
  have h: "w_posted contended_world = [8, 7] \<and> w_got contended_world = [(0, 8)]" by code_simp
  have "is_pow2 (2::nat)" by code_simp
  from queue_delivers_once[OF turns_run[of 0 2 contended] this] contended_idle h show ?thesis by simp
qed

text \<open>An operation that returns false.\<close>

definition post_refused :: "nat \<Rightarrow> 'v world \<Rightarrow> 'v world \<Rightarrow> bool" where
  "post_refused t w w' \<longleftrightarrow> post_step t w w' \<and> (\<exists>v p. w_pc w t = PostCheck v p) \<and> w_pc w' t = Idle"

definition fetch_refused :: "nat \<Rightarrow> 'v world \<Rightarrow> 'v world \<Rightarrow> bool" where
  "fetch_refused t w w' \<longleftrightarrow> fetch_step t w w' \<and> (\<exists>p. w_pc w t = FetchCheck p) \<and> w_pc w' t = Idle"

text \<open>
  C39. In a queue whose capacity is a power of two and at least two, a post that returns false finds the queue full, or finds another thread still in the fetch that will
  free the element; a fetch that returns false finds the queue empty, or finds another thread still in the
  post that took the next position to read. No other interleaving makes either give up.
\<close>

theorem queue_refuses_honestly:
  assumes run: "runs zero capacity w" and "is_pow2 capacity" and "2 \<le> capacity"
  shows "(post_refused t w w' \<longrightarrow> ring_size (w_ring w) = q_capacity (w_ring w)
        \<or> (\<exists>a. reading w a \<and> q_wpos (w_ring w) = a + q_capacity (w_ring w)))
    \<and> (fetch_refused t w w' \<longrightarrow> ring_empty (w_ring w) \<or> writing w (q_rpos (w_ring w)))"
proof -
  have w: "world_ok w" by (rule runs_ok[OF assms])
  note k = world_okD(4)[OF w, of t]
  have "ring_size (w_ring w) = q_capacity (w_ring w)
      \<or> (\<exists>a. reading w a \<and> q_wpos (w_ring w) = a + q_capacity (w_ring w))" if r: "post_refused t w w'"
  proof -
    from r obtain v p where p: "w_pc w t = PostCheck v p" "post_step t w w'" "w_pc w' t = Idle"
      by (auto simp: post_refused_def)
    from p(2,1,3) have "seq_at (w_ring w) p < p" by cases simp_all
    with full_when_refused[OF w] k p show ?thesis by simp
  qed
  moreover have "ring_empty (w_ring w) \<or> writing w (q_rpos (w_ring w))" if r: "fetch_refused t w w'"
  proof -
    from r obtain p where p: "w_pc w t = FetchCheck p" "fetch_step t w w'" "w_pc w' t = Idle"
      by (auto simp: fetch_refused_def)
    from p(2,1,3) have "seq_at (w_ring w) p < p + 1" by cases simp_all
    with empty_when_refused[OF w] k p show ?thesis by simp
  qed
  ultimately show ?thesis by blast
qed

text \<open>In the run above, the fetch that gives up does so before the thread that took position 0 has written.\<close>

theorem queue_refuses_honestly_witness:
  "let w = fold next_turn (take 14 contended) (world_start 0 2) in
     fetch_refused 2 w (goto 2 Idle w) \<and> \<not> ring_empty (w_ring w) \<and> writing w (q_rpos (w_ring w))"
proof -
  let ?w = "fold next_turn (take 14 contended) (world_start 0 2)"
  have h: "w_pc ?w 2 = FetchCheck 0" "seq_at (w_ring ?w) 0 < 0 + 1" "\<not> ring_empty (w_ring ?w)" by code_simp+
  have "fetch_refused 2 ?w (goto 2 Idle ?w)"
    using fetch_step.fetch_empty[OF h(1,2)] h(1) by (simp add: fetch_refused_def)
  moreover have "is_pow2 (2::nat)" by code_simp
  ultimately show ?thesis
    using queue_refuses_honestly[OF turns_run[of 0 2 "take 14 contended"]] h(3) unfolding Let_def by blast
qed

end
