(* ===== verification/Mem_Pool.thy ===== *)
theory Mem_Pool
  imports Mem_Queue "HOL-Library.Word"
begin

text \<open>
  The memory pool: \<open>MemCtx::alloc\<close> and \<open>MemCtx::dealloc\<close> (\<open>app/MemCtx.cpp\<close>) over the lock-free lists of free
  blocks (\<open>app/MemPool.hpp\<close>), run by any number of threads. A step is one access to shared memory, and the
  steps of the threads interleave in any order, with the accesses sequentially consistent. A pointer is an
  offset into the pool.

  The theory shows that blocks that are held never overlap, whatever the holders write into them: the tag in
  a link makes a list that was changed and changed back fail the exchange.
\<close>

unbundle bit_operations_syntax

section \<open>Links\<close>

type_synonym mem_size = "32 word"
type_synonym mem_tag = "32 word"
type_synonym mem_link = "64 word"

definition link_to_offset :: "mem_link \<Rightarrow> mem_size" where
  "link_to_offset link = ucast (link AND 0xffffffff)"

definition make_link :: "mem_tag \<Rightarrow> mem_size \<Rightarrow> mem_link" where
  "make_link tag offset = push_bit 32 (ucast tag) OR ucast offset"

definition link_tag :: "mem_link \<Rightarrow> mem_tag" where
  "link_tag link = ucast (drop_bit 32 link)"

lemma link_to_offset_make [simp]: "link_to_offset (make_link tag offset) = offset"
proof -
  have m: "(0xffffffff :: 64 word) = mask 32" by (simp add: mask_eq_exp_minus_1)
  show ?thesis unfolding link_to_offset_def make_link_def m by (rule bit_word_eqI) (auto simp: bit_simps)
qed

lemma link_tag_make [simp]: "link_tag (make_link tag offset) = tag"
  unfolding link_tag_def make_link_def by (rule bit_word_eqI) (auto simp: bit_simps dest: bit_imp_le_length)

lemma make_link_eq [simp]: "make_link tag offset = make_link tag' offset' \<longleftrightarrow> tag = tag' \<and> offset = offset'"
  by (metis link_to_offset_make link_tag_make)

lemma make_link_zero: "tag \<noteq> 0 \<Longrightarrow> make_link tag offset \<noteq> 0"
  using link_tag_make[of tag offset] by (auto simp: link_tag_def)

section \<open>Sizes\<close>

text \<open>The number of cache lines in the blocks of the list, for a number of lines.\<close>

definition size_class :: "nat \<Rightarrow> nat option" where
  "size_class cache_lines = (let n = next_pow2 cache_lines in
     if n = 1 then Some 1 else if n = 2 then Some 2
     else if n = 4 then (if cache_lines = 3 then Some 3 else Some 4)
     else if n = 8 then Some 8 else if n = 16 then Some 16 else if n = 32 then Some 32 else None)"

text \<open>An allocation rounds up, a deallocation rounds down.\<close>

definition alloc_class :: "nat \<Rightarrow> nat option" where
  "alloc_class sz = size_class ((sz + 63) div 64)"

definition dealloc_class :: "nat \<Rightarrow> nat option" where
  "dealloc_class sz = size_class (sz div 64)"

lemma size_class_eq: "size_class n = (if n \<le> 1 then Some 1 else if n \<le> 4 then Some n
     else if n \<le> 8 then Some 8 else if n \<le> 16 then Some 16 else if n \<le> 32 then Some 32 else None)"
proof (cases "n \<le> 32")
  case True
  have "list_all (\<lambda>n. size_class n = (if n \<le> 1 then Some 1 else if n \<le> 4 then Some n
     else if n \<le> 8 then Some 8 else if n \<le> 16 then Some 16 else if n \<le> 32 then Some 32 else None)) [0..<33]"
    by code_simp
  with True show ?thesis unfolding list_all_iff by simp
next
  case False
  then have "32 < next_pow2 n" using next_pow2_bounds[of n] by simp
  with False show ?thesis by (simp add: size_class_def)
qed

lemma class_sizes:
  assumes "alloc_class sz = Some c"
  shows "0 < c" and "c \<le> 32" and "sz \<le> 64 * c" and "\<exists>d. dealloc_class sz = Some d \<and> 0 < d \<and> d \<le> c"
proof -
  have le: "sz div 64 \<le> (sz + 63) div 64" by (simp add: div_le_mono)
  have c: "0 < c \<and> c \<le> 32 \<and> (sz + 63) div 64 \<le> c \<and> (sz + 63) div 64 \<le> 32"
    using assms by (auto simp: alloc_class_def size_class_eq split: if_splits)
  then show "0 < c" "c \<le> 32" by simp_all
  have "sz \<le> 64 * ((sz + 63) div 64)" by linarith
  with c show "sz \<le> 64 * c" by linarith
  have "dealloc_class sz \<noteq> None \<and> 0 < the (dealloc_class sz) \<and> the (dealloc_class sz) \<le> c"
    using le c assms unfolding dealloc_class_def alloc_class_def size_class_eq
    by (simp split: if_splits; linarith)
  then show "\<exists>d. dealloc_class sz = Some d \<and> 0 < d \<and> d \<le> c" by auto
qed

text \<open>A size that is not a multiple of a line is given to another list than it is taken from.\<close>

lemma freed_block_not_reused: "alloc_class 80 = Some 2" "dealloc_class 80 = Some 1"
    "alloc_class 320 = Some 8" "alloc_class 300 = Some 8" "dealloc_class 300 = Some 4"
  by code_simp+

section \<open>The pool and its threads\<close>

text \<open>
  Who has a block: an allocation by number, of a size; a thread that gives the block back; a list, at a link.
  Which blocks are owned, what is on the lists, and how many blocks were pushed is not part of the program.
\<close>

datatype place = Held nat nat | Given nat | Listed nat mem_link

text \<open>Where a thread is in an operation, with the local variables it still needs.\<close>

datatype pc =
    Idle
  | PopLoad nat | PopTest nat mem_link | PopRead nat mem_link | PopCas nat mem_link mem_link
  | ResLoad nat | ResTest nat mem_size | ResCas nat mem_size mem_size
  | PushTag nat mem_size | PushLoad nat mem_size mem_link | PushLink nat mem_size mem_link mem_link
  | PushCas nat mem_size mem_link mem_link

record pool =
  p_head :: "nat \<Rightarrow> mem_link"
  p_tag :: "nat \<Rightarrow> mem_tag"
  p_offset :: mem_size
  p_next :: "mem_size \<Rightarrow> mem_link"
  p_pc :: "nat \<Rightarrow> pc"
  p_own :: "place \<Rightarrow> (nat \<times> nat) option"
  p_list :: "nat \<Rightarrow> mem_link list"
  p_pushes :: "nat \<Rightarrow> nat"

definition goto :: "nat \<Rightarrow> pc \<Rightarrow> pool \<Rightarrow> pool" where
  "goto t c w = w\<lparr>p_pc := (p_pc w)(t := c)\<rparr>"

definition own :: "place \<Rightarrow> (nat \<times> nat) option \<Rightarrow> pool \<Rightarrow> pool" where
  "own x b w = w\<lparr>p_own := (p_own w)(x := b)\<rparr>"

text \<open>
  \<open>alloc\<close>: \<open>pop\<close>, and \<open>reserve\<close> where the list is empty. The loop of an exchange that fails starts again with
  the value that was found.
\<close>

inductive alloc_step :: "mem_size \<Rightarrow> nat \<Rightarrow> pool \<Rightarrow> pool \<Rightarrow> bool" for max_size where
  alloc_call: "p_pc w t = Idle \<Longrightarrow> alloc_class sz = Some c \<Longrightarrow> alloc_step max_size t w (goto t (PopLoad sz) w)"
| alloc_throw: "p_pc w t = Idle \<Longrightarrow> alloc_class sz = None \<Longrightarrow> alloc_step max_size t w w"
| pop_load: "p_pc w t = PopLoad sz \<Longrightarrow> alloc_class sz = Some c \<Longrightarrow>
    alloc_step max_size t w (goto t (PopTest sz (p_head w c)) w)"
| pop_some: "p_pc w t = PopTest sz old \<Longrightarrow> old \<noteq> 0 \<Longrightarrow> alloc_step max_size t w (goto t (PopRead sz old) w)"
| pop_none: "p_pc w t = PopTest sz old \<Longrightarrow> old = 0 \<Longrightarrow> alloc_step max_size t w (goto t (ResLoad sz) w)"
| pop_read: "p_pc w t = PopRead sz old \<Longrightarrow>
    alloc_step max_size t w (goto t (PopCas sz old (p_next w (link_to_offset old))) w)"
| pop_take: "p_pc w t = PopCas sz old new \<Longrightarrow> alloc_class sz = Some c \<Longrightarrow> p_head w c = old \<Longrightarrow>
    p_own w (Held k sz) = None \<Longrightarrow>
    alloc_step max_size t w (goto t Idle (own (Held k sz) (p_own w (Listed c old)) (own (Listed c old) None
      (w\<lparr>p_head := (p_head w)(c := new), p_list := (p_list w)(c := tl (p_list w c))\<rparr>))))"
| pop_miss: "p_pc w t = PopCas sz old new \<Longrightarrow> alloc_class sz = Some c \<Longrightarrow>
    alloc_step max_size t w (goto t (PopTest sz (p_head w c)) w)"
| res_load: "p_pc w t = ResLoad sz \<Longrightarrow> alloc_step max_size t w (goto t (ResTest sz (p_offset w)) w)"
| res_room: "p_pc w t = ResTest sz old \<Longrightarrow> alloc_class sz = Some c \<Longrightarrow> new = old + of_nat (64 * c) \<Longrightarrow> \<not> max_size < new \<Longrightarrow>
    alloc_step max_size t w (goto t (ResCas sz old new) w)"
| res_throw: "p_pc w t = ResTest sz old \<Longrightarrow> alloc_class sz = Some c \<Longrightarrow> new = old + of_nat (64 * c) \<Longrightarrow> max_size < new \<Longrightarrow>
    alloc_step max_size t w (goto t Idle w)"
| res_take: "p_pc w t = ResCas sz old new \<Longrightarrow> alloc_class sz = Some c \<Longrightarrow> p_offset w = old \<Longrightarrow>
    p_own w (Held k sz) = None \<Longrightarrow>
    alloc_step max_size t w (goto t Idle (own (Held k sz) (Some (unat old, 64 * c)) (w\<lparr>p_offset := new\<rparr>)))"
| res_miss: "p_pc w t = ResCas sz old new \<Longrightarrow> alloc_step max_size t w (goto t (ResTest sz (p_offset w)) w)"

text \<open>\<open>dealloc\<close> of a block with the size that it was allocated with: \<open>push\<close>.\<close>

inductive dealloc_step :: "nat \<Rightarrow> pool \<Rightarrow> pool \<Rightarrow> bool" where
  dealloc_call: "p_pc w t = Idle \<Longrightarrow> p_own w (Held k sz) = Some (unat offset, n) \<Longrightarrow> dealloc_class sz = Some c \<Longrightarrow>
    dealloc_step t w (goto t (PushTag c offset) (own (Given t) (Some (unat offset, 64 * c)) (own (Held k sz) None w)))"
| push_tag: "p_pc w t = PushTag c offset \<Longrightarrow> tag = p_tag w c + 1 \<Longrightarrow>
    dealloc_step t w (goto t (PushLoad c offset (make_link tag offset))
      (w\<lparr>p_tag := (p_tag w)(c := tag), p_pushes := (p_pushes w)(c := p_pushes w c + 1)\<rparr>))"
| push_load: "p_pc w t = PushLoad c offset new \<Longrightarrow> dealloc_step t w (goto t (PushLink c offset new (p_head w c)) w)"
| push_link: "p_pc w t = PushLink c offset new old \<Longrightarrow>
    dealloc_step t w (goto t (PushCas c offset new old) (w\<lparr>p_next := (p_next w)(offset := old)\<rparr>))"
| push_take: "p_pc w t = PushCas c offset new old \<Longrightarrow> p_head w c = old \<Longrightarrow>
    dealloc_step t w (goto t Idle (own (Listed c new) (p_own w (Given t)) (own (Given t) None
      (w\<lparr>p_head := (p_head w)(c := new), p_list := (p_list w)(c := new # p_list w c)\<rparr>))))"
| push_miss: "p_pc w t = PushCas c offset new old \<Longrightarrow> dealloc_step t w (goto t (PushLink c offset new (p_head w c)) w)"

text \<open>The holder of a block may write anything anywhere in it.\<close>

inductive holder_step :: "pool \<Rightarrow> pool \<Rightarrow> bool" where
  holder_write: "p_own w (Held k sz) = Some (a, n) \<Longrightarrow> a \<le> unat offset \<Longrightarrow> unat offset < a + n \<Longrightarrow>
    holder_step w (w\<lparr>p_next := (p_next w)(offset := v)\<rparr>)"

definition pool_start :: pool where
  "pool_start = \<lparr>p_head = (\<lambda>_. 0), p_tag = (\<lambda>_. 0), p_offset = 0, p_next = (\<lambda>_. 0), p_pc = (\<lambda>_. Idle),
     p_own = (\<lambda>_. None), p_list = (\<lambda>_. []), p_pushes = (\<lambda>_. 0)\<rparr>"

inductive pool_runs :: "mem_size \<Rightarrow> pool \<Rightarrow> bool" for max_size where
  start: "pool_runs max_size pool_start"
| alloc: "pool_runs max_size w \<Longrightarrow> alloc_step max_size t w w' \<Longrightarrow> pool_runs max_size w'"
| dealloc: "pool_runs max_size w \<Longrightarrow> dealloc_step t w w' \<Longrightarrow> pool_runs max_size w'"
| holder: "pool_runs max_size w \<Longrightarrow> holder_step w w' \<Longrightarrow> pool_runs max_size w'"

section \<open>The invariant\<close>

definition apart :: "nat \<times> nat \<Rightarrow> nat \<times> nat \<Rightarrow> bool" where
  "apart a b \<longleftrightarrow> fst a + snd a \<le> fst b \<or> fst b + snd b \<le> fst a"

definition blocks_ok :: "mem_size \<Rightarrow> (place \<Rightarrow> (nat \<times> nat) option) \<Rightarrow> bool" where
  "blocks_ok offset m \<longleftrightarrow>
     (\<forall>x a n. m x = Some (a, n) \<longrightarrow> 0 < n \<and> a + n \<le> unat offset)
   \<and> (\<forall>x y a b. x \<noteq> y \<longrightarrow> m x = Some a \<longrightarrow> m y = Some b \<longrightarrow> apart a b)
   \<and> (\<forall>k sz a n. m (Held k sz) = Some (a, n) \<longrightarrow> (\<exists>c. alloc_class sz = Some c \<and> n = 64 * c))"

text \<open>A link that was made for a list.\<close>

definition made :: "pool \<Rightarrow> nat \<Rightarrow> mem_link \<Rightarrow> bool" where
  "made w c l \<longleftrightarrow> (\<exists>k offset. 1 \<le> k \<and> k \<le> p_pushes w c \<and> l = make_link (of_nat k) offset)"

fun new_link :: "pc \<Rightarrow> nat \<Rightarrow> mem_link \<Rightarrow> bool" where
  "new_link (PushLoad c offset new) c' l = (c' = c \<and> l = new)"
| "new_link (PushLink c offset new old) c' l = (c' = c \<and> l = new)"
| "new_link (PushCas c offset new old) c' l = (c' = c \<and> l = new)"
| "new_link _ c' l = False"

text \<open>A link that is on its list, or never will be again.\<close>

definition past :: "pool \<Rightarrow> nat \<Rightarrow> mem_link \<Rightarrow> bool" where
  "past w c l \<longleftrightarrow> made w c l \<and> (\<forall>t. \<not> new_link (p_pc w t) c l)"

fun linked :: "(mem_size \<Rightarrow> mem_link) \<Rightarrow> mem_link \<Rightarrow> mem_link list \<Rightarrow> bool" where
  "linked nx h [] = (h = 0)"
| "linked nx h (l # ls) = (h = l \<and> linked nx (nx (link_to_offset l)) ls)"

definition lists_ok :: "pool \<Rightarrow> bool" where
  "lists_ok w \<longleftrightarrow> (\<forall>c. linked (p_next w) (p_head w c) (p_list w c) \<and> distinct (p_list w c)
     \<and> p_tag w c = of_nat (p_pushes w c)
     \<and> (\<forall>l. if l \<in> set (p_list w c) then past w c l \<and> p_own w (Listed c l) = Some (unat (link_to_offset l), 64 * c)
            else p_own w (Listed c l) = None))"

definition news_ok :: "pool \<Rightarrow> bool" where
  "news_ok w \<longleftrightarrow> (\<forall>t t' c l. new_link (p_pc w t) c l \<and> new_link (p_pc w t') c l \<longrightarrow> t = t')"

text \<open>What a thread knows at each place.\<close>

fun given :: "pc \<Rightarrow> (nat \<times> nat) option" where
  "given (PushTag c offset) = Some (unat offset, 64 * c)"
| "given (PushLoad c offset new) = Some (unat offset, 64 * c)"
| "given (PushLink c offset new old) = Some (unat offset, 64 * c)"
| "given (PushCas c offset new old) = Some (unat offset, 64 * c)"
| "given _ = None"

fun knows :: "mem_size \<Rightarrow> pool \<Rightarrow> pc \<Rightarrow> bool" where
  "knows max_size w (PopTest sz old) = (\<exists>c. alloc_class sz = Some c \<and> (old \<noteq> 0 \<longrightarrow> past w c old))"
| "knows max_size w (PopRead sz old) = (\<exists>c. alloc_class sz = Some c \<and> old \<noteq> 0 \<and> past w c old)"
| "knows max_size w (PopCas sz old new) = (\<exists>c. alloc_class sz = Some c \<and> old \<noteq> 0 \<and> past w c old
     \<and> (old \<in> set (p_list w c) \<longrightarrow> new = p_next w (link_to_offset old)))"
| "knows max_size w (ResTest sz old) = (old \<le> p_offset w)"
| "knows max_size w (ResCas sz old new) = (old \<le> p_offset w \<and> new \<le> max_size
     \<and> (\<exists>c. alloc_class sz = Some c \<and> unat new = unat old + 64 * c))"
| "knows max_size w (PushLoad c offset new) = (made w c new \<and> link_to_offset new = offset)"
| "knows max_size w (PushLink c offset new old) = (made w c new \<and> link_to_offset new = offset)"
| "knows max_size w (PushCas c offset new old) = (made w c new \<and> link_to_offset new = offset \<and> p_next w offset = old)"
| "knows max_size w _ = True"

definition pool_ok :: "mem_size \<Rightarrow> pool \<Rightarrow> bool" where
  "pool_ok max_size w \<longleftrightarrow> p_offset w \<le> max_size \<and> blocks_ok (p_offset w) (p_own w) \<and> lists_ok w \<and> news_ok w
     \<and> (\<forall>t. knows max_size w (p_pc w t) \<and> p_own w (Given t) = given (p_pc w t))"

section \<open>Blocks\<close>

lemma blocks_okD:
  assumes "blocks_ok offset m"
  shows "m x = Some (a, n) \<Longrightarrow> 0 < n \<and> a + n \<le> unat offset"
    and "x \<noteq> y \<Longrightarrow> m x = Some a' \<Longrightarrow> m y = Some b' \<Longrightarrow> apart a' b'"
    and "m (Held k sz) = Some (a, n) \<Longrightarrow> \<exists>c. alloc_class sz = Some c \<and> n = 64 * c"
  using assms unfolding blocks_ok_def by blast+

lemma apart_sym: "apart a b \<Longrightarrow> apart b a"
  by (auto simp: apart_def)

text \<open>An address in one block does not start another.\<close>

lemma apart_neq:
  assumes ok: "blocks_ok offset m" and "m x = Some (a, n)" "m y = Some (b, k)" "x \<noteq> y" and "a \<le> u" "u < a + n"
  shows "u \<noteq> b"
  using blocks_okD(2)[OF ok assms(4,2,3)] blocks_okD(1)[OF ok assms(3)] assms(5,6) by (auto simp: apart_def)

lemma blocks_drop: "blocks_ok offset m \<Longrightarrow> blocks_ok offset (m(x := None))"
  unfolding blocks_ok_def by (simp split: if_splits)

lemma blocks_add:
  assumes ok: "blocks_ok offset m" and le: "unat offset \<le> unat offset'" and n: "0 < n" "a + n \<le> unat offset'"
    and new: "\<And>x b. x \<noteq> y \<Longrightarrow> m x = Some b \<Longrightarrow> apart b (a, n)"
    and held: "\<And>k sz. y = Held k sz \<Longrightarrow> \<exists>c. alloc_class sz = Some c \<and> n = 64 * c"
  shows "blocks_ok offset' (m(y := Some (a, n)))"
  unfolding blocks_ok_def
proof (intro conjI allI impI)
  fix x b k assume "(m(y := Some (a, n))) x = Some (b, k)"
  then show "0 < k" "b + k \<le> unat offset'"
    using n le blocks_okD(1)[OF ok, of x b k] by (auto split: if_splits)
next
  fix x z b b' assume "x \<noteq> z" "(m(y := Some (a, n))) x = Some b" "(m(y := Some (a, n))) z = Some b'"
  then show "apart b b'"
    using blocks_okD(2)[OF ok, of x z b b'] new[of x b] new[of z b'] apart_sym by (auto split: if_splits)
next
  fix k sz b i assume "(m(y := Some (a, n))) (Held k sz) = Some (b, i)"
  then show "\<exists>c. alloc_class sz = Some c \<and> i = 64 * c"
    using held blocks_okD(3)[OF ok, of k sz b i] by (auto split: if_splits)
qed

text \<open>A block that changes hands, whole or in part.\<close>

lemma blocks_move:
  assumes ok: "blocks_ok offset m" and x: "m x = Some (a, n)" and y: "0 < n'" "n' \<le> n"
    and held: "\<And>k sz. y = Held k sz \<Longrightarrow> \<exists>c. alloc_class sz = Some c \<and> n' = 64 * c"
  shows "blocks_ok offset (m(x := None, y := Some (a, n')))"
proof (rule blocks_add[OF blocks_drop[OF ok, of x]])
  show "a + n' \<le> unat offset" using blocks_okD(1)[OF ok x] y by simp
  fix z b assume "(m(x := None)) z = Some b"
  then have "z \<noteq> x" "m z = Some b" by (auto split: if_splits)
  then show "apart b (a, n')" using blocks_okD(2)[OF ok, of z x b "(a, n)"] x y by (auto simp: apart_def)
qed (use y held in auto)

section \<open>The steps keep the invariant\<close>

lemma pool_goto_simps [simp]:
  "p_head (goto t c w) = p_head w" "p_tag (goto t c w) = p_tag w" "p_offset (goto t c w) = p_offset w"
  "p_next (goto t c w) = p_next w" "p_own (goto t c w) = p_own w" "p_list (goto t c w) = p_list w"
  "p_pushes (goto t c w) = p_pushes w" "p_pc (goto t c w) = (p_pc w)(t := c)"
  by (simp_all add: goto_def)

lemma own_simps [simp]:
  "p_head (own x b w) = p_head w" "p_tag (own x b w) = p_tag w" "p_offset (own x b w) = p_offset w"
  "p_next (own x b w) = p_next w" "p_own (own x b w) = (p_own w)(x := b)" "p_list (own x b w) = p_list w"
  "p_pushes (own x b w) = p_pushes w" "p_pc (own x b w) = p_pc w"
  by (simp_all add: own_def)

lemma pool_okD:
  assumes "pool_ok max_size w"
  shows "p_offset w \<le> max_size" and "blocks_ok (p_offset w) (p_own w)" and "lists_ok w" and "news_ok w"
    and "knows max_size w (p_pc w t)" and "p_own w (Given t) = given (p_pc w t)"
  using assms by (simp_all add: pool_ok_def)

lemma list_okD:
  assumes "lists_ok w"
  shows "linked (p_next w) (p_head w c) (p_list w c)" and "distinct (p_list w c)" and "p_tag w c = of_nat (p_pushes w c)"
    and "l \<in> set (p_list w c) \<Longrightarrow> past w c l \<and> p_own w (Listed c l) = Some (unat (link_to_offset l), 64 * c)"
    and "l \<notin> set (p_list w c) \<Longrightarrow> p_own w (Listed c l) = None"
  using assms unfolding lists_ok_def by (presburger | metis)+

text \<open>What another thread knows stays true.\<close>

lemma knows_keep:
  assumes "knows max_size w d" and past: "\<And>c l. past w c l \<Longrightarrow> past w' c l" and made: "\<And>c l. made w c l \<Longrightarrow> made w' c l"
    and "p_offset w \<le> p_offset w'"
    and list: "\<And>c l. past w c l \<Longrightarrow> l \<in> set (p_list w' c) \<Longrightarrow>
      l \<in> set (p_list w c) \<and> p_next w' (link_to_offset l) = p_next w (link_to_offset l)"
    and link: "\<And>offset n. given d = Some (unat offset, n) \<Longrightarrow> p_next w' offset = p_next w offset"
  shows "knows max_size w' d"
  using assms(1,4)
proof (cases d)
  case (PopCas sz old new)
  with assms(1) obtain c where c: "alloc_class sz = Some c" "old \<noteq> 0" "past w c old"
      "old \<in> set (p_list w c) \<longrightarrow> new = p_next w (link_to_offset old)" by auto
  then show ?thesis using PopCas past[of c old] list[of c old] by auto
next
  case (PushCas c offset new old)
  then show ?thesis using assms(1) link[of offset "64 * c"] made[of c new] by simp
qed (auto dest: past made order_trans)

lemma past_same: "(\<And>c l. made w c l = made w' c l) \<Longrightarrow> (\<And>t c l. new_link (p_pc w t) c l = new_link (p_pc w' t) c l) \<Longrightarrow>
    past w c l = past w' c l"
  by (simp add: past_def)

lemma made_same: "p_pushes w' = p_pushes w \<Longrightarrow> made w' = made w"
  by (simp add: made_def fun_eq_iff)

lemma pool_goto_ok:
  assumes w: "pool_ok max_size w" and same: "new_link c = new_link (p_pc w t)" "given c = given (p_pc w t)"
    and c: "knows max_size w c"
  shows "pool_ok max_size (goto t c w)"
proof -
  have made: "made (goto t c w) = made w" by (rule made_same) simp
  have new: "new_link (((p_pc w)(t := c)) t') = new_link (p_pc w t')" for t' using same by simp
  have past: "past (goto t c w) = past w" unfolding fun_eq_iff past_def made pool_goto_simps new by simp
  have kn: "knows max_size (goto t c w) = knows max_size w"
    by (rule ext, rename_tac d, case_tac d) (simp_all add: past made)
  show ?thesis
    using w c same unfolding pool_ok_def lists_ok_def news_ok_def pool_goto_simps new past kn by simp
qed

text \<open>A write into a block that is held, or that is on its way to a list.\<close>

lemma linked_frame: "\<forall>l\<in>set ls. nx' (link_to_offset l) = nx (link_to_offset l) \<Longrightarrow> linked nx' h ls = linked nx h ls"
  by (induction ls arbitrary: h) simp_all

lemma write_ok:
  assumes w: "pool_ok max_size w" and x: "p_own w x = Some (a, n)" and u: "a \<le> unat u" "unat u < a + n"
    and who: "\<And>c l. x \<noteq> Listed c l" and pc: "\<And>t c offset new old. x = Given t \<Longrightarrow> p_pc w t \<noteq> PushCas c offset new old"
  shows "pool_ok max_size (w\<lparr>p_next := (p_next w)(u := v)\<rparr>)" (is "pool_ok _ ?w")
proof -
  have made: "made ?w = made w" by (rule made_same) simp
  have past: "past ?w = past w" by (simp add: fun_eq_iff past_def made)
  have far: "link_to_offset l \<noteq> u" if "l \<in> set (p_list w c)" for c l
    using apart_neq[OF pool_okD(2)[OF w] x, of "Listed c l" "unat (link_to_offset l)" "64 * c" "unat u"]
      list_okD(4)[OF pool_okD(3)[OF w] that] who u by auto
  have lists: "lists_ok ?w"
    using pool_okD(3)[OF w] far linked_frame[of _ "(p_next w)(u := v)" "p_next w"] unfolding lists_ok_def past by simp
  have "knows max_size ?w (p_pc w t)" for t
  proof (cases "x = Given t")
    case True
    then have "given (p_pc w t) \<noteq> None" using pool_okD(6)[OF w, of t] x by simp
    then show ?thesis
    proof (cases "p_pc w t")
      case (PushCas c offset new old)
      then show ?thesis using pc[OF True] by blast
    qed (use pool_okD(5)[OF w, of t] in \<open>simp_all add: made\<close>)
  next
    case False
    show ?thesis
    proof (rule knows_keep[OF pool_okD(5)[OF w, of t]])
      fix offset :: mem_size and i assume g: "given (p_pc w t) = Some (unat offset, i)"
      have "unat u \<noteq> unat offset"
        using apart_neq[OF pool_okD(2)[OF w] x, of "Given t" "unat offset" i "unat u"] pool_okD(6)[OF w, of t] g False u
        by auto
      then show "p_next ?w offset = p_next w offset" by auto
    qed (use far in \<open>auto simp: past made\<close>)
  qed
  then show ?thesis using w lists by (simp add: pool_ok_def news_ok_def)
qed

lemma holder_step_ok:
  assumes "holder_step w w'" and w: "pool_ok max_size w"
  shows "pool_ok max_size w'"
  using assms(1)
proof cases
  case (holder_write k sz a n offset v)
  then show ?thesis using write_ok[OF w, of "Held k sz" a n offset v] by simp
qed

lemma push_link_ok:
  assumes w: "pool_ok max_size w" and pc: "p_pc w t = PushLink c offset new old"
  shows "pool_ok max_size (goto t (PushCas c offset new old) (w\<lparr>p_next := (p_next w)(offset := old)\<rparr>))"
proof -
  have g: "p_own w (Given t) = Some (unat offset, 64 * c)" using pool_okD(6)[OF w, of t] pc by simp
  have "0 < 64 * c" using blocks_okD(1)[OF pool_okD(2)[OF w] g] by simp
  with g have "pool_ok max_size (w\<lparr>p_next := (p_next w)(offset := old)\<rparr>)"
    by (intro write_ok[OF w g]) (auto simp: pc)
  moreover have "made (w\<lparr>p_next := (p_next w)(offset := old)\<rparr>) = made w" by (rule made_same) simp
  ultimately show ?thesis
    using pool_okD(5)[OF w, of t] pc by (intro pool_goto_ok) (simp_all add: fun_eq_iff)
qed

text \<open>Links that are on their way to a list.\<close>

lemma new_made: "pool_ok max_size w \<Longrightarrow> new_link (p_pc w t) c l \<Longrightarrow> made w c l"
  using pool_okD(5)[of max_size w t] by (cases "p_pc w t") auto

lemma listed_past: "pool_ok max_size w \<Longrightarrow> l \<in> set (p_list w c) \<Longrightarrow> past w c l"
  using list_okD(4)[OF pool_okD(3)] by blast

lemma head_past: "pool_ok max_size w \<Longrightarrow> p_head w c \<noteq> 0 \<Longrightarrow> past w c (p_head w c)"
  using list_okD(1)[OF pool_okD(3), of max_size w c] listed_past[of max_size w "p_head w c" c]
  by (cases "p_list w c") auto

lemma pop_take_ok:
  assumes w: "pool_ok max_size w" and pc: "p_pc w t = PopCas sz old new" and c: "alloc_class sz = Some c"
    and head: "p_head w c = old" and free: "p_own w (Held k sz) = None"
  shows "pool_ok max_size (goto t Idle (own (Held k sz) (p_own w (Listed c old)) (own (Listed c old) None
      (w\<lparr>p_head := (p_head w)(c := new), p_list := (p_list w)(c := tl (p_list w c))\<rparr>))))" (is "pool_ok _ ?w")
proof -
  have kn: "old \<noteq> 0" "old \<in> set (p_list w c) \<Longrightarrow> new = p_next w (link_to_offset old)"
    using pool_okD(5)[OF w, of t] pc c by auto
  note L = list_okD[OF pool_okD(3)[OF w]]
  obtain ls where ls: "p_list w c = old # ls" using L(1)[of c] head kn(1) by (cases "p_list w c") auto
  then have new: "linked (p_next w) new ls" "old \<notin> set ls" "distinct ls" using L(1,2)[of c] kn(2) by auto
  have b: "p_own w (Listed c old) = Some (unat (link_to_offset old), 64 * c)" using L(4)[of old c] ls by simp
  have made: "made ?w = made w" by (rule made_same) simp
  have nl: "new_link (p_pc ?w t') = new_link (p_pc w t')" for t' by (simp add: pc fun_eq_iff)
  have past: "past ?w = past w" unfolding fun_eq_iff past_def made nl by simp
  have "blocks_ok (p_offset ?w) (p_own ?w)"
    using blocks_move[OF pool_okD(2)[OF w] b, of "64 * c" "Held k sz"] class_sizes(1)[OF c] c b by simp
  moreover have "lists_ok ?w"
    unfolding lists_ok_def
  proof (intro allI conjI)
    fix c'
    show "linked (p_next ?w) (p_head ?w c') (p_list ?w c')" "distinct (p_list ?w c')" "p_tag ?w c' = of_nat (p_pushes ?w c')"
      using L(1-3)[of c'] new ls by simp_all
    fix l
    show "if l \<in> set (p_list ?w c') then past ?w c' l \<and> p_own ?w (Listed c' l) = Some (unat (link_to_offset l), 64 * c')
        else p_own ?w (Listed c' l) = None"
      using L(4,5)[of l c'] new(2) ls unfolding past by auto
  qed
  moreover have "news_ok ?w" using pool_okD(4)[OF w] unfolding news_ok_def nl .
  moreover have "knows max_size ?w (p_pc ?w t')" for t'
  proof (cases "t' = t")
    case False
    have "knows max_size ?w (p_pc w t')"
      by (rule knows_keep[OF pool_okD(5)[OF w]], unfold past made) (auto simp: ls split: if_splits)
    with False show ?thesis by simp
  qed simp
  moreover have "p_own ?w (Given t') = given (p_pc ?w t')" for t'
    using pool_okD(6)[OF w, of t'] pc by simp
  ultimately show ?thesis using pool_okD(1)[OF w] by (simp add: pool_ok_def)
qed

lemma res_take_ok:
  assumes w: "pool_ok max_size w" and pc: "p_pc w t = ResCas sz old new" and c: "alloc_class sz = Some c"
    and old: "p_offset w = old" and free: "p_own w (Held k sz) = None"
  shows "pool_ok max_size (goto t Idle (own (Held k sz) (Some (unat old, 64 * c)) (w\<lparr>p_offset := new\<rparr>)))" (is "pool_ok _ ?w")
proof -
  have kn: "new \<le> max_size" "unat new = unat old + 64 * c" using pool_okD(5)[OF w, of t] pc c by auto
  have made: "made ?w = made w" by (rule made_same) simp
  have nl: "new_link (p_pc ?w t') = new_link (p_pc w t')" for t' by (simp add: pc fun_eq_iff)
  have past: "past ?w = past w" unfolding fun_eq_iff past_def made nl by simp
  have le: "p_offset w \<le> new" unfolding old word_le_nat_alt using kn by simp
  have "blocks_ok new ((p_own w)(Held k sz := Some (unat old, 64 * c)))"
  proof (rule blocks_add[OF pool_okD(2)[OF w]])
    fix x b assume "p_own w x = Some b"
    then show "apart b (unat old, 64 * c)" using blocks_okD(1)[OF pool_okD(2)[OF w], of x "fst b" "snd b"] old by (simp add: apart_def)
  qed (use kn le class_sizes(1)[OF c] c in \<open>auto simp: word_le_nat_alt\<close>)
  moreover have "lists_ok ?w"
    using pool_okD(3)[OF w] unfolding lists_ok_def past by simp
  moreover have "news_ok ?w" using pool_okD(4)[OF w] unfolding news_ok_def nl .
  moreover have "knows max_size ?w (p_pc ?w t')" for t'
  proof (cases "t' = t")
    case False
    have "knows max_size ?w (p_pc w t')"
      by (rule knows_keep[OF pool_okD(5)[OF w]], unfold past made) (use le in auto)
    with False show ?thesis by simp
  qed simp
  moreover have "p_own ?w (Given t') = given (p_pc ?w t')" for t'
    using pool_okD(6)[OF w, of t'] pc by simp
  ultimately show ?thesis using kn(1) by (simp add: pool_ok_def)
qed

lemma dealloc_call_ok:
  assumes w: "pool_ok max_size w" and pc: "p_pc w t = Idle" and b: "p_own w (Held k sz) = Some (unat offset, n)"
    and d: "dealloc_class sz = Some d"
  shows "pool_ok max_size (goto t (PushTag d offset)
      (own (Given t) (Some (unat offset, 64 * d)) (own (Held k sz) None w)))" (is "pool_ok _ ?w")
proof -
  obtain c where c: "alloc_class sz = Some c" "n = 64 * c" using blocks_okD(3)[OF pool_okD(2)[OF w] b] by blast
  have d2: "0 < d" "d \<le> c" using class_sizes(4)[OF c(1)] d by auto
  have made: "made ?w = made w" by (rule made_same) simp
  have nl: "new_link (p_pc ?w t') = new_link (p_pc w t')" for t' by (simp add: pc fun_eq_iff)
  have past: "past ?w = past w" unfolding fun_eq_iff past_def made nl by simp
  have "blocks_ok (p_offset ?w) (p_own ?w)"
    using blocks_move[OF pool_okD(2)[OF w] b, of "64 * d" "Given t"] d2 c(2) by simp
  moreover have "lists_ok ?w" using pool_okD(3)[OF w] unfolding lists_ok_def past by simp
  moreover have "news_ok ?w" using pool_okD(4)[OF w] unfolding news_ok_def nl .
  moreover have "knows max_size ?w (p_pc ?w t')" for t'
  proof (cases "t' = t")
    case False
    have "knows max_size ?w (p_pc w t')"
      by (rule knows_keep[OF pool_okD(5)[OF w]], unfold past made) auto
    with False show ?thesis by simp
  qed simp
  moreover have "p_own ?w (Given t') = given (p_pc ?w t')" for t'
    using pool_okD(6)[OF w, of t'] by simp
  ultimately show ?thesis using pool_okD(1)[OF w] by (simp add: pool_ok_def)
qed

text \<open>Fewer than \<open>2 ^ 32\<close> pushes: the new tag is in no link that was made.\<close>

lemma push_tag_ok:
  assumes w: "pool_ok max_size w" and pc: "p_pc w t = PushTag c offset" and few: "p_pushes w c + 1 < 2 ^ 32"
  shows "pool_ok max_size (goto t (PushLoad c offset (make_link (p_tag w c + 1) offset))
      (w\<lparr>p_tag := (p_tag w)(c := p_tag w c + 1), p_pushes := (p_pushes w)(c := p_pushes w c + 1)\<rparr>))"
    (is "pool_ok _ ?w")
proof -
  let ?l = "make_link (p_tag w c + 1) offset"
  have tag: "p_tag w c + 1 = of_nat (p_pushes w c + 1)" using list_okD(3)[OF pool_okD(3)[OF w], of c] by simp
  have fresh: "\<not> made w c ?l"
  proof
    assume "made w c ?l"
    then obtain k where k: "k \<le> p_pushes w c" "(of_nat (p_pushes w c + 1) :: 32 word) = of_nat k"
      unfolding made_def tag by auto
    have self: "unat (of_nat m :: 32 word) = m" if "m < 2 ^ 32" for m
      using that by (simp add: unat_of_nat take_bit_nat_eq_self)
    from k(2) have "unat (of_nat (p_pushes w c + 1) :: 32 word) = unat (of_nat k :: 32 word)" by (rule arg_cong)
    then have "p_pushes w c + 1 = k" using few k(1) self[of "p_pushes w c + 1"] self[of k] by simp
    with k(1) show False by simp
  qed
  have made: "made ?w c' l" if "made w c' l" for c' l
    using that by (auto simp: made_def)
  have mine: "made ?w c ?l" unfolding made_def tag by (auto intro!: exI[of _ "p_pushes w c + 1"])
  have nl: "new_link (p_pc ?w t') c' l \<longleftrightarrow> new_link (p_pc w t') c' l \<or> t' = t \<and> c' = c \<and> l = ?l" for t' c' l
    by (auto simp: pc)
  have past: "past ?w c' l" if "past w c' l" for c' l
    unfolding past_def nl using that fresh made by (auto simp: past_def)
  have "lists_ok ?w"
    unfolding lists_ok_def
  proof (intro allI conjI)
    fix c'
    show "linked (p_next ?w) (p_head ?w c') (p_list ?w c')" "distinct (p_list ?w c')" "p_tag ?w c' = of_nat (p_pushes ?w c')"
      using list_okD(1-3)[OF pool_okD(3)[OF w], of c'] tag by simp_all
    fix l
    show "if l \<in> set (p_list ?w c') then past ?w c' l \<and> p_own ?w (Listed c' l) = Some (unat (link_to_offset l), 64 * c')
        else p_own ?w (Listed c' l) = None"
      using list_okD(4,5)[OF pool_okD(3)[OF w], of l c'] past by simp
  qed
  moreover have "news_ok ?w"
    using pool_okD(4)[OF w] new_made[OF w] fresh pc unfolding news_ok_def nl by (metis new_link.simps(9-10))
  moreover have "knows max_size ?w (p_pc ?w t')" for t'
  proof (cases "t' = t")
    case False
    have "knows max_size ?w (p_pc w t')"
      by (rule knows_keep[OF pool_okD(5)[OF w]]) (use past made in auto)
    with False show ?thesis by simp
  qed (use mine in simp)
  moreover have "p_own ?w (Given t') = given (p_pc ?w t')" for t'
    using pool_okD(6)[OF w, of t'] pc by simp
  moreover have "blocks_ok (p_offset ?w) (p_own ?w)" using pool_okD(2)[OF w] by simp
  ultimately show ?thesis using pool_okD(1)[OF w] by (simp add: pool_ok_def)
qed

lemma push_take_ok:
  assumes w: "pool_ok max_size w" and pc: "p_pc w t = PushCas c offset new old" and head: "p_head w c = old"
  shows "pool_ok max_size (goto t Idle (own (Listed c new) (p_own w (Given t)) (own (Given t) None
      (w\<lparr>p_head := (p_head w)(c := new), p_list := (p_list w)(c := new # p_list w c)\<rparr>))))" (is "pool_ok _ ?w")
proof -
  have kn: "made w c new" "link_to_offset new = offset" "p_next w offset = old"
    and b: "p_own w (Given t) = Some (unat offset, 64 * c)"
    using pool_okD(5,6)[OF w, of t] pc by auto
  note L = list_okD[OF pool_okD(3)[OF w]]
  have mine: "new_link (p_pc w t) c new" by (simp add: pc)
  then have out: "new \<notin> set (p_list w c)" "\<not> past w c new" using listed_past[OF w, of new c] by (auto simp: past_def)
  have made: "made ?w = made w" by (rule made_same) simp
  have nl: "new_link (p_pc ?w t') c' l \<longleftrightarrow> new_link (p_pc w t') c' l \<and> t' \<noteq> t" for t' c' l
    by (auto simp: pc)
  have past: "past ?w c' l" if "past w c' l" for c' l
    unfolding past_def nl made using that by (auto simp: past_def)
  have past_new: "past ?w c new"
    unfolding past_def nl made using kn(1) mine pool_okD(4)[OF w] unfolding news_ok_def by blast
  have "blocks_ok (p_offset ?w) (p_own ?w)"
    using blocks_move[OF pool_okD(2)[OF w] b, of "64 * c" "Listed c new"] blocks_okD(1)[OF pool_okD(2)[OF w] b] b by simp
  moreover have "lists_ok ?w"
    unfolding lists_ok_def
  proof (intro allI conjI)
    fix c'
    show "linked (p_next ?w) (p_head ?w c') (p_list ?w c')" "distinct (p_list ?w c')" "p_tag ?w c' = of_nat (p_pushes ?w c')"
      using L(1-3)[of c'] L(1,2)[of c] out kn head by simp_all
    fix l
    show "if l \<in> set (p_list ?w c') then past ?w c' l \<and> p_own ?w (Listed c' l) = Some (unat (link_to_offset l), 64 * c')
        else p_own ?w (Listed c' l) = None"
      using L(4,5)[of l c'] past past_new kn(2) b by auto
  qed
  moreover have "news_ok ?w" using pool_okD(4)[OF w] unfolding news_ok_def nl by blast
  moreover have "knows max_size ?w (p_pc ?w t')" for t'
  proof (cases "t' = t")
    case False
    have "knows max_size ?w (p_pc w t')"
      by (rule knows_keep[OF pool_okD(5)[OF w]], rule past, assumption, unfold made) (use out in \<open>auto split: if_splits\<close>)
    with False show ?thesis by simp
  qed simp
  moreover have "p_own ?w (Given t') = given (p_pc ?w t')" for t'
    using pool_okD(6)[OF w, of t'] by simp
  ultimately show ?thesis using pool_okD(1)[OF w] by (simp add: pool_ok_def)
qed

lemma alloc_step_ok:
  assumes "alloc_step max_size t w w'" and w: "pool_ok max_size w" and room: "unat max_size + 2048 < 2 ^ 32"
  shows "pool_ok max_size w'"
  using assms(1)
proof cases
  case (pop_load sz c)
  then show ?thesis using head_past[OF w, of c] by (auto intro!: pool_goto_ok[OF w] simp: fun_eq_iff)
next
  case (pop_take sz old new c k)
  then show ?thesis using pop_take_ok[OF w, of t sz old new c k] by simp
next
  case (pop_miss sz old new c)
  then show ?thesis using head_past[OF w, of c] by (auto intro!: pool_goto_ok[OF w] simp: fun_eq_iff)
next
  case (res_room sz old c new)
  have "old \<le> p_offset w" using pool_okD(5)[OF w, of t] res_room by simp
  then have "unat old \<le> unat max_size" using pool_okD(1)[OF w] by (simp add: word_le_nat_alt)
  moreover have "64 * c \<le> 2048" using class_sizes(2)[of sz c] res_room by simp
  ultimately have "unat old + 64 * c < 2 ^ 32" using room by simp
  then have "unat new = unat old + 64 * c"
    unfolding res_room(4) by (simp add: unat_word_ariths unat_of_nat take_bit_nat_eq_self)
  then show ?thesis
    using res_room \<open>old \<le> p_offset w\<close> by (auto intro!: pool_goto_ok[OF w] simp: fun_eq_iff)
next
  case (res_take sz old new c k)
  then show ?thesis using res_take_ok[OF w, of t sz old new c k] by simp
qed (use w pool_okD(5)[OF w, of t] in \<open>auto intro!: pool_goto_ok[OF w] simp: fun_eq_iff\<close>)

lemma dealloc_step_ok:
  assumes "dealloc_step t w w'" and w: "pool_ok max_size w" and few: "\<forall>c. p_pushes w' c < 2 ^ 32"
  shows "pool_ok max_size w'"
  using assms(1)
proof cases
  case (dealloc_call k sz offset n c)
  then show ?thesis using dealloc_call_ok[OF w, of t k sz offset n c] by simp
next
  case (push_tag c offset tag)
  then show ?thesis using push_tag_ok[OF w, of t c offset] few[rule_format, of c] by simp
next
  case (push_link c offset new old)
  then show ?thesis using push_link_ok[OF w, of t c offset new old] by simp
next
  case (push_take c offset new old)
  then show ?thesis using push_take_ok[OF w, of t c offset new old] by simp
qed (use pool_okD(5)[OF w, of t] in \<open>auto intro!: pool_goto_ok[OF w] simp: fun_eq_iff\<close>)

lemma pushes_mono: "alloc_step max_size t w w' \<Longrightarrow> p_pushes w' = p_pushes w"
    "dealloc_step t w w' \<Longrightarrow> p_pushes w c \<le> p_pushes w' c" "holder_step w w' \<Longrightarrow> p_pushes w' = p_pushes w"
  by (auto elim!: alloc_step.cases dealloc_step.cases holder_step.cases)

lemma pool_start_ok: "pool_ok max_size pool_start"
  by (auto simp: pool_ok_def pool_start_def blocks_ok_def lists_ok_def news_ok_def)

lemma pool_runs_ok:
  assumes "pool_runs max_size w" and "\<forall>c. p_pushes w c < 2 ^ 32" and "unat max_size + 2048 < 2 ^ 32"
  shows "pool_ok max_size w"
  using assms(1,2)
proof induction
  case start
  then show ?case by (simp add: pool_start_ok)
next
  case (alloc w t w')
  then show ?case using pushes_mono(1)[OF alloc(2)] alloc_step_ok[OF alloc(2) _ assms(3)] by simp
next
  case (dealloc w t w')
  have "\<forall>c. p_pushes w c < 2 ^ 32" using pushes_mono(2)[OF dealloc(2)] dealloc(4) by (meson order_le_less_trans)
  then show ?case using dealloc dealloc_step_ok by blast
next
  case (holder w w')
  then show ?case using pushes_mono(3)[OF holder(2)] holder_step_ok[OF holder(2)] by simp
qed

section \<open>What the pool promises\<close>

text \<open>
  C35. Any number of threads allocate and free blocks, their accesses interleaved in any order, and the holders
  write anything into their blocks: two blocks that are held never overlap, a block is as large as what was
  asked for, and it is within the pool, as long as no list sees \<open>2 ^ 32\<close> blocks freed.
\<close>

theorem held_blocks_are_apart:
  assumes "pool_runs max_size w" and "\<forall>c. p_pushes w c < 2 ^ 32" and "unat max_size + 2048 < 2 ^ 32"
    and "p_own w (Held k sz) = Some (a, n)"
  shows "sz \<le> n \<and> 0 < n \<and> a + n \<le> unat max_size
    \<and> (\<forall>k' sz' a' n'. (k', sz') \<noteq> (k, sz) \<and> p_own w (Held k' sz') = Some (a', n') \<longrightarrow> a + n \<le> a' \<or> a' + n' \<le> a)"
proof -
  have w: "pool_ok max_size w" by (rule pool_runs_ok[OF assms(1-3)])
  note B = pool_okD(2)[OF w]
  obtain c where c: "alloc_class sz = Some c" "n = 64 * c" using blocks_okD(3)[OF B assms(4)] by blast
  have "sz \<le> n" using class_sizes(3)[OF c(1)] c(2) by simp
  moreover have "0 < n \<and> a + n \<le> unat max_size"
    using blocks_okD(1)[OF B assms(4)] pool_okD(1)[OF w] by (simp add: word_le_nat_alt)
  moreover have "a + n \<le> a' \<or> a' + n' \<le> a" if "(k', sz') \<noteq> (k, sz)" "p_own w (Held k' sz') = Some (a', n')" for k' sz' a' n'
    using blocks_okD(2)[OF B, of "Held k sz" "Held k' sz'" "(a, n)" "(a', n')"] assms(4) that by (auto simp: apart_def)
  ultimately show ?thesis by blast
qed

text \<open>A schedule that names the thread of each step; an exchange succeeds where it can.\<close>

definition alloc_next :: "mem_size \<Rightarrow> nat \<Rightarrow> nat \<Rightarrow> nat \<Rightarrow> pool \<Rightarrow> pool" where
  "alloc_next max_size k sz0 t w = (case p_pc w t of
     Idle \<Rightarrow> (case alloc_class sz0 of None \<Rightarrow> w | Some c \<Rightarrow> goto t (PopLoad sz0) w)
   | PopLoad sz \<Rightarrow> (case alloc_class sz of None \<Rightarrow> w | Some c \<Rightarrow> goto t (PopTest sz (p_head w c)) w)
   | PopTest sz old \<Rightarrow> if old = 0 then goto t (ResLoad sz) w else goto t (PopRead sz old) w
   | PopRead sz old \<Rightarrow> goto t (PopCas sz old (p_next w (link_to_offset old))) w
   | PopCas sz old new \<Rightarrow> (case alloc_class sz of None \<Rightarrow> w | Some c \<Rightarrow>
       if p_head w c = old \<and> p_own w (Held k sz) = None
       then goto t Idle (own (Held k sz) (p_own w (Listed c old)) (own (Listed c old) None
         (w\<lparr>p_head := (p_head w)(c := new), p_list := (p_list w)(c := tl (p_list w c))\<rparr>)))
       else goto t (PopTest sz (p_head w c)) w)
   | ResLoad sz \<Rightarrow> goto t (ResTest sz (p_offset w)) w
   | ResTest sz old \<Rightarrow> (case alloc_class sz of None \<Rightarrow> w | Some c \<Rightarrow>
       let new = old + of_nat (64 * c) in if max_size < new then goto t Idle w else goto t (ResCas sz old new) w)
   | ResCas sz old new \<Rightarrow> (case alloc_class sz of None \<Rightarrow> w | Some c \<Rightarrow>
       if p_offset w = old \<and> p_own w (Held k sz) = None
       then goto t Idle (own (Held k sz) (Some (unat old, 64 * c)) (w\<lparr>p_offset := new\<rparr>))
       else goto t (ResTest sz (p_offset w)) w)
   | _ \<Rightarrow> w)"

definition dealloc_next :: "nat \<Rightarrow> nat \<Rightarrow> nat \<Rightarrow> pool \<Rightarrow> pool" where
  "dealloc_next k sz t w = (case p_pc w t of
     Idle \<Rightarrow> (case p_own w (Held k sz) of None \<Rightarrow> w | Some (a, n) \<Rightarrow>
       (case dealloc_class sz of None \<Rightarrow> w | Some c \<Rightarrow>
         let offset = of_nat a in if unat offset \<noteq> a then w
         else goto t (PushTag c offset) (own (Given t) (Some (unat offset, 64 * c)) (own (Held k sz) None w))))
   | PushTag c offset \<Rightarrow> let tag = p_tag w c + 1 in goto t (PushLoad c offset (make_link tag offset))
       (w\<lparr>p_tag := (p_tag w)(c := tag), p_pushes := (p_pushes w)(c := p_pushes w c + 1)\<rparr>)
   | PushLoad c offset new \<Rightarrow> goto t (PushLink c offset new (p_head w c)) w
   | PushLink c offset new old \<Rightarrow> goto t (PushCas c offset new old) (w\<lparr>p_next := (p_next w)(offset := old)\<rparr>)
   | PushCas c offset new old \<Rightarrow> if p_head w c = old
       then goto t Idle (own (Listed c new) (p_own w (Given t)) (own (Given t) None
         (w\<lparr>p_head := (p_head w)(c := new), p_list := (p_list w)(c := new # p_list w c)\<rparr>)))
       else goto t (PushLink c offset new (p_head w c)) w
   | _ \<Rightarrow> w)"

datatype turn = Alloc nat nat nat | Dealloc nat nat nat

fun next_turn :: "mem_size \<Rightarrow> turn \<Rightarrow> pool \<Rightarrow> pool" where
  "next_turn max_size (Alloc t k sz) w = alloc_next max_size k sz t w"
| "next_turn max_size (Dealloc t k sz) w = dealloc_next k sz t w"

lemma alloc_next_runs: "pool_runs max_size w \<Longrightarrow> pool_runs max_size (alloc_next max_size k sz t w)"
  by (cases "p_pc w t")
    (auto simp: alloc_next_def Let_def simp del: of_nat_mult split: option.split intro: pool_runs.alloc alloc_step.intros)

lemma dealloc_at: "p_pc w t = Idle \<Longrightarrow> p_own w (Held k sz) = Some (a, n) \<Longrightarrow> dealloc_class sz = Some c \<Longrightarrow>
    unat (of_nat a :: mem_size) = a \<Longrightarrow>
    dealloc_step t w (goto t (PushTag c (of_nat a)) (own (Given t) (Some (a, 64 * c)) (own (Held k sz) None w)))"
  using dealloc_step.dealloc_call[of w t k sz "of_nat a" n c] by simp

lemma dealloc_next_runs: "pool_runs max_size w \<Longrightarrow> pool_runs max_size (dealloc_next k sz t w)"
  by (cases "p_pc w t")
    (auto simp: dealloc_next_def Let_def simp del: One_nat_def split: option.split intro: pool_runs.dealloc dealloc_at dealloc_step.intros)

lemma pool_turns_run: "pool_runs max_size w \<Longrightarrow> pool_runs max_size (fold (next_turn max_size) ts w)"
proof (induction ts arbitrary: w)
  case (Cons x ts)
  then show ?case by (cases x) (simp_all add: alloc_next_runs dealloc_next_runs)
qed simp

text \<open>
  Thread 0 is about to take block 1 off the list and has read that block 0 follows. Thread 1 takes both and
  gives block 1 back. The exchange of thread 0 finds the same block with another tag, and starts again.
\<close>

definition changed_back :: "turn list" where
  "changed_back = replicate 6 (Alloc 0 0 64) @ replicate 6 (Alloc 0 1 64) @ replicate 5 (Dealloc 0 0 64)
     @ replicate 5 (Dealloc 0 1 64) @ replicate 4 (Alloc 0 4 64) @ replicate 5 (Alloc 1 2 64) @ replicate 5 (Alloc 1 3 64)
     @ replicate 5 (Dealloc 1 2 64) @ replicate 4 (Alloc 0 4 64)"

abbreviation changed_pool :: pool where
  "changed_pool \<equiv> fold (next_turn 4096) changed_back pool_start"

lemma changed_pool_held: "p_own changed_pool (Held 3 64) = Some (0, 64)" "p_own changed_pool (Held 4 64) = Some (64, 64)"
  by code_simp+

lemma next_turn_pushes: "p_pushes (next_turn max_size x w) c \<le> p_pushes w c + 1"
  by (cases "(max_size, x, w)" rule: next_turn.cases)
    (auto simp: alloc_next_def dealloc_next_def Let_def split: pc.split option.split)

lemma turns_pushes: "p_pushes (fold (next_turn max_size) ts w) c \<le> p_pushes w c + length ts"
proof (induction ts arbitrary: w)
  case (Cons x ts)
  show ?case using Cons[of "next_turn max_size x w"] next_turn_pushes[of max_size x w c] by simp
qed simp

lemma changed_pool_pushes: "p_pushes changed_pool c < 2 ^ 32"
proof -
  have "p_pushes changed_pool c \<le> length changed_back"
    using turns_pushes[of 4096 changed_back pool_start c] by (simp add: pool_start_def)
  moreover have "length changed_back = 45" by (simp add: changed_back_def)
  ultimately show ?thesis by simp
qed

theorem held_blocks_are_apart_witness:
  "pool_runs 4096 changed_pool \<and> p_own changed_pool (Held 3 64) = Some (0, 64)
     \<and> p_own changed_pool (Held 4 64) = Some (64, 64) \<and> (0 + 64 \<le> (64::nat) \<or> 64 + 64 \<le> (0::nat))"
proof -
  have run: "pool_runs 4096 changed_pool" by (rule pool_turns_run[OF pool_runs.start])
  have "64 \<le> (64::nat) \<and> 0 < (64::nat) \<and> 0 + 64 \<le> unat (4096 :: mem_size) \<and>
      (\<forall>k' sz' a' n'. (k', sz') \<noteq> (3, 64) \<and> p_own changed_pool (Held k' sz') = Some (a', n') \<longrightarrow> 0 + 64 \<le> a' \<or> a' + n' \<le> 0)"
    by (rule held_blocks_are_apart[OF run allI[OF changed_pool_pushes] _ changed_pool_held(1)]) simp
  then show ?thesis using changed_pool_held run by fastforce
qed

text \<open>
  The largest size is cut to 32 bits: a pool of \<open>2 ^ 32\<close> bytes, 4096 in the configuration, has no room at all.
\<close>

lemma four_gigabytes_are_none:
  "word_of_nat (2 ^ 32) = (0 :: mem_size)" "alloc_class sz = Some c \<Longrightarrow> p_pc w t = ResTest sz 0 \<Longrightarrow> alloc_step 0 t w (goto t Idle w)"
proof -
  show "word_of_nat (2 ^ 32) = (0 :: mem_size)" by simp
  assume c: "alloc_class sz = Some c" and pc: "p_pc w t = ResTest sz 0"
  have "unat (of_nat (64 * c) :: mem_size) = 64 * c"
    using class_sizes(2)[OF c] by (simp add: unat_of_nat take_bit_nat_eq_self del: of_nat_mult)
  then have "0 < (0 :: mem_size) + of_nat (64 * c)" using class_sizes(1)[OF c] by (simp add: word_less_nat_alt)
  then show "alloc_step 0 t w (goto t Idle w)" using alloc_step.res_throw[OF pc c refl] by simp
qed

end
