(* ===== verification/Rest_Fields.thy ===== *)
theory Rest_Fields
  imports Rest_Parse
begin

text \<open>
  Whole bodies with one field: a string with any characters but the quote and the backslash, and a number
  with any digits. The states along the way are those of the tables.
\<close>

section \<open>Steps\<close>

text \<open>The next state and the actions of a character.\<close>

definition next_step :: "nat \<Rightarrow> int \<Rightarrow> nat \<times> nat list" where
  "next_step s c = (json_trans_targs ! transition s c, actions_at (json_trans_actions ! transition s c))"

lemma parse_loop_step:
  assumes "b_cs b = s" and "s \<noteq> json_error" and "next_step s c = (s', as)"
  shows "parse_loop (c # cs) (b, msg) = (case run_actions as c (b\<lparr>b_cs := s'\<rparr>, msg) of
    None \<Rightarrow> None | Some (z, out) \<Rightarrow> if out then Some z else parse_loop cs z)"
  using assms by (simp add: next_step_def Let_def)

text \<open>A step without actions.\<close>

lemma parse_loop_move:
  assumes "b_cs b = s" and "s \<noteq> json_error" and "next_step s c = (s', [])"
  shows "parse_loop (c # cs) (b, msg) = parse_loop cs (b\<lparr>b_cs := s'\<rparr>, msg)"
  using parse_loop_step[OF assms] by simp

text \<open>The code of a text.\<close>

definition codes :: "string \<Rightarrow> int list" where
  "codes s = map (\<lambda>c. int (of_char c)) s"

lemmas step_simps = next_step_def transition_linear linear_transition_def single_keys_def range_keys_def json_tables actions_at_values
  actions_at_values(2)[unfolded One_nat_def]

lemma open_steps: "next_step 1 123 = (2, [])" "next_step 2 34 = (3, [])"
  by (simp_all add: step_simps)

lemma lots_steps: "next_step 3 108 = (47, [])" "next_step 47 111 = (73, [])" "next_step 73 116 = (74, [])" "next_step 74 115 = (75, [])"
  "next_step 75 34 = (76, [])" "next_step 76 58 = (77, [])" "next_step 79 125 = (184, [26])"
  by (simp_all add: step_simps)

lemma digit_steps:
  assumes "48 \<le> c" and "c \<le> 57"
  shows "next_step 77 c = (79, [0, 2])" and "next_step 79 c = (79, [2])"
  using assms by (simp_all add: step_simps)

lemma symbol_steps: "next_step 3 115 = (112, [])" "next_step 112 121 = (157, [])" "next_step 157 109 = (158, [])" "next_step 158 98 = (159, [])"
  "next_step 159 111 = (160, [])" "next_step 160 108 = (161, [])" "next_step 161 34 = (162, [])" "next_step 162 58 = (163, [])"
  "next_step 163 34 = (164, [6, 3])" "next_step 164 34 = (165, [])" "next_step 165 125 = (184, [7])"
  by (simp_all add: step_simps)

lemma text_step: "c \<noteq> 34 \<Longrightarrow> c \<noteq> 92 \<Longrightarrow> next_step 164 c = (164, [4])"
  by (simp add: step_simps)

lemma final_state: "json_first_final = 184" "json_error = 0" "json_start = 1"
  by (simp_all add: json_first_final_def json_error_def json_start_def)

section \<open>A string\<close>

lemma text_loop:
  "b_cs b = 164 \<Longrightarrow> b_scratch b = Str FSymbol \<Longrightarrow> \<forall>c\<in>set s. c \<noteq> 34 \<and> c \<noteq> 92 \<Longrightarrow> length (b_symbol b) + length s \<le> 16 \<Longrightarrow>
     parse_loop (s @ rest) (b, msg) = parse_loop rest (b\<lparr>b_symbol := b_symbol b @ s\<rparr>, msg)"
proof (induction s arbitrary: b)
  case (Cons c s)
  have "run_actions [4] c (b\<lparr>b_cs := 164\<rparr>, msg) = Some ((b\<lparr>b_symbol := b_symbol b @ [c]\<rparr>, msg), False)"
    using Cons.prems by (simp add: do_action_def act_value_def text_max_def)
  then have "parse_loop ((c # s) @ rest) (b, msg) = parse_loop (s @ rest) (b\<lparr>b_symbol := b_symbol b @ [c]\<rparr>, msg)"
    using Cons.prems parse_loop_step[OF Cons.prems(1) _ text_step, of c] by (simp add: final_state)
  then show ?case using Cons.prems Cons.IH[of "b\<lparr>b_symbol := b_symbol b @ [c]\<rparr>"] by simp
qed simp

text \<open>The seventeenth character of a string ends the parsing.\<close>

lemma text_overflow:
  assumes "b_cs b = 164" and "b_scratch b = Str FSymbol" and "c \<noteq> 34" "c \<noteq> 92" and "length (b_symbol b) = 16"
  shows "parse_loop (c # rest) (b, msg) = Some (b\<lparr>b_cs := json_error\<rparr>, ''max length exceeded'')"
  using assms parse_loop_step[OF assms(1) _ text_step[OF assms(3,4)]]
  by (simp add: final_state do_action_def act_value_def text_max_def)

lemma symbol_open:
  "parse_loop (codes ''{\"symbol\":\"'' @ rest) (body_reset True b, msg) =
     parse_loop rest ((body_reset True b)\<lparr>b_scratch := Str FSymbol, b_cs := 164\<rparr>, msg)"
  by (cases b) (simp add: codes_def parse_loop_move[OF _ _ open_steps(1)] parse_loop_move[OF _ _ open_steps(2)]
      parse_loop_move[OF _ _ symbol_steps(1)] parse_loop_move[OF _ _ symbol_steps(2)] parse_loop_move[OF _ _ symbol_steps(3)]
      parse_loop_move[OF _ _ symbol_steps(4)] parse_loop_move[OF _ _ symbol_steps(5)] parse_loop_move[OF _ _ symbol_steps(6)]
      parse_loop_move[OF _ _ symbol_steps(7)] parse_loop_move[OF _ _ symbol_steps(8)] parse_loop_step[OF _ _ symbol_steps(9)]
      final_state body_reset_def Let_def do_action_def act_ident_def act_value_def del: parse_loop.simps(2))

section \<open>A number\<close>

definition digits_value :: "int list \<Rightarrow> int" where
  "digits_value ds = fold (\<lambda>c v. v * 10 + (c - 48)) ds 0"

lemma fold_digits: "fold (\<lambda>c d. d * 10 + word_of_int (c - 48)) ds (word_of_int v) = (word_of_int (fold (\<lambda>c v. v * 10 + (c - 48)) ds v) :: 64 word)"
proof (induction ds arbitrary: v)
  case (Cons a ds)
  show ?case using Cons[of "v * 10 + (a - 48)"] by simp
qed simp

lemma scratch_id: "b_scratch b = x \<Longrightarrow> b\<lparr>b_scratch := x\<rparr> = b"
  by (cases b) simp

lemma digits_loop:
  "b_cs b = 79 \<Longrightarrow> b_scratch b = Num sg d \<Longrightarrow> \<forall>c\<in>set ds. 48 \<le> c \<and> c \<le> 57 \<Longrightarrow>
     parse_loop (ds @ rest) (b, msg) = parse_loop rest (b\<lparr>b_scratch := Num sg (fold (\<lambda>c d. d * 10 + word_of_int (c - 48)) ds d)\<rparr>, msg)"
proof (induction ds arbitrary: b d)
  case (Cons c ds)
  have c: "48 \<le> c" "c \<le> 57" using Cons.prems(3) by simp_all
  let ?b = "b\<lparr>b_scratch := Num sg (d * 10 + word_of_int (c - 48))\<rparr>"
  have "run_actions [2] c (b\<lparr>b_cs := 79\<rparr>, msg) = Some ((?b, msg), False)"
    using Cons.prems by (simp add: do_action_def act_value_def)
  then have "parse_loop ((c # ds) @ rest) (b, msg) = parse_loop (ds @ rest) (?b, msg)"
    using Cons.prems parse_loop_step[OF Cons.prems(1) _ digit_steps(2)[OF c]] by (simp add: final_state)
  then show ?case using Cons.prems Cons.IH[of ?b "d * 10 + word_of_int (c - 48)"] by simp
qed (simp add: scratch_id)

lemma lots_open:
  assumes "48 \<le> c" and "c \<le> 57"
  shows "parse_loop (codes ''{\"lots\":'' @ c # rest) (body_reset True b, msg) =
     parse_loop rest ((body_reset True b)\<lparr>b_scratch := Num 1 (word_of_int (c - 48)), b_cs := 79\<rparr>, msg)"
  by (cases b) (simp add: codes_def parse_loop_move[OF _ _ open_steps(1)] parse_loop_move[OF _ _ open_steps(2)]
      parse_loop_move[OF _ _ lots_steps(1)] parse_loop_move[OF _ _ lots_steps(2)] parse_loop_move[OF _ _ lots_steps(3)]
      parse_loop_move[OF _ _ lots_steps(4)] parse_loop_move[OF _ _ lots_steps(5)] parse_loop_move[OF _ _ lots_steps(6)]
      parse_loop_step[OF _ _ digit_steps(1)[OF assms]] final_state body_reset_def Let_def do_action_def act_value_def
      del: parse_loop.simps(2))

end
