(* ===== verification/Rest_Props.thy ===== *)
theory Rest_Props
  imports Rest_Fields
begin

text \<open>
  The properties of the body parser: parsing always ends with a verdict and never reads the wrong
  member of the union, pieces make no difference, the binary search is a linear one, and
  what a body with a string or a number is parsed to.
\<close>

text \<open>A parser before its reset.\<close>

definition old_body :: rest_body where
  "old_body = \<lparr>b_cs = 0, b_scratch = Unset, b_fields = 7, b_symbol = [], b_accnt = [], b_instr = [],
     b_settl_date = 0, b_ref = [], b_state = 0, b_side = NoSide, b_lots = 5, b_ticks = 0, b_min_lots = 0,
     b_liq_ind = NoLiq, b_cpty = []\<rparr>"

text \<open>
  C40. Whatever the characters, a piece is parsed to an end: an incomplete object, a complete one or an
  error. The union of number and string is only read as it was last written, no string
  outgrows its array, and the state stays within the tables.
\<close>

theorem parsing_ends:
  assumes "body_ok b"
  shows "\<exists>b'. body_ok b' \<and> (body_parse buf b = Done (b_cs b' \<ge> json_first_final) b' \<and> b_cs b' \<noteq> json_error
    \<or> (\<exists>msg. body_parse buf b = Throw msg b') \<and> b_cs b' = json_error)"
  by (rule body_parse_ok[OF assms])

theorem parsing_ends_witness: "body_parse (codes ''{\"lots\":x'') (body_reset True old_body) \<noteq> Undef"
  using parsing_ends[OF body_ok_reset, of "codes ''{\"lots\":x''" old_body] by auto

text \<open>
  It makes no difference how the network cuts a body into pieces: parsing two pieces in turn is
  parsing them together, errors included.
\<close>

lemma pieces_make_no_difference:
  assumes "body_ok b"
  shows "body_parse (xs @ ys) b = (case body_parse xs b of
    Done _ b' \<Rightarrow> body_parse ys b' | Throw msg b' \<Rightarrow> Throw msg b' | Undef \<Rightarrow> Undef)"
  by (rule body_parse_append[OF assms])

lemma pieces_make_no_difference_witness:
  "body_parse (codes ''{\"lots'' @ codes ''\":1}'') (body_reset True old_body) = (case body_parse (codes ''{\"lots'') (body_reset True old_body) of
    Done _ b' \<Rightarrow> body_parse (codes ''\":1}'') b' | Throw msg b' \<Rightarrow> Throw msg b' | Undef \<Rightarrow> Undef)"
  by (rule pieces_make_no_difference[OF body_ok_reset])

text \<open>
  The two binary searches of the generated code find the transition that a search from the front
  finds, in every state and for every character.
\<close>

lemma binary_search_is_linear:
  assumes "cs < 185"
  shows "transition cs c = linear_transition cs c"
  by (rule transition_linear[OF assms])

lemma binary_search_is_linear_witness: "transition 79 50 = linear_transition 79 50"
  by (rule binary_search_is_linear) simp

text \<open>
  A body with a symbol of any characters but the quote and the backslash is accepted if it has at most
  16, and the symbol is those characters; the field and no other is marked as present. A longer one
  is an error.
\<close>

lemma symbol_body:
  assumes "\<forall>c\<in>set s. c \<noteq> 34 \<and> c \<noteq> 92"
  shows "(length s \<le> 16 \<longrightarrow> (\<exists>b'. body_parse (codes ''{\"symbol\":\"'' @ s @ codes ''\"}'') (body_reset True b) = Done True b'
      \<and> b_symbol b' = s \<and> b_fields b' = BSymbol))
    \<and> (16 < length s \<longrightarrow> (\<exists>b'. body_parse (codes ''{\"symbol\":\"'' @ s @ codes ''\"}'') (body_reset True b) =
         Throw ''max length exceeded'' b'))"
proof (intro conjI impI)
  let ?b = "(body_reset True b)\<lparr>b_scratch := Str FSymbol, b_cs := 164\<rparr>"
  have b: "b_cs ?b = 164" "b_scratch ?b = Str FSymbol" "b_symbol ?b = []" "b_fields (body_reset True b) = 0" by (simp_all add: body_reset_def)
  assume len: "length s \<le> 16"
  have "parse_loop (s @ codes ''\"}'') (?b, ''parse error'') = parse_loop (codes ''\"}'') (?b\<lparr>b_symbol := [] @ s\<rparr>, ''parse error'')"
    using text_loop[OF b(1,2) assms, of "codes ''\"}''" "''parse error''"] len b(3) by simp
  also have "\<dots> = Some (set_bit_of BSymbol (?b\<lparr>b_symbol := s, b_cs := 184\<rparr>), ''parse error'')"
    by (simp add: codes_def parse_loop_move[OF _ _ symbol_steps(10)] parse_loop_step[OF _ _ symbol_steps(11)] final_state
        do_action_def act_ident_def del: parse_loop.simps(2))
  finally show "\<exists>b'. body_parse (codes ''{\"symbol\":\"'' @ s @ codes ''\"}'') (body_reset True b) = Done True b'
      \<and> b_symbol b' = s \<and> b_fields b' = BSymbol"
    by (simp add: body_parse_def symbol_open final_state set_bit_of_def b(4))
next
  let ?b = "(body_reset True b)\<lparr>b_scratch := Str FSymbol, b_cs := 164\<rparr>"
  have b: "b_cs ?b = 164" "b_scratch ?b = Str FSymbol" "b_symbol ?b = []" by (simp_all add: body_reset_def)
  assume len: "16 < length s"
  define h t where "h = take 16 s" and "t = drop 16 s"
  obtain c cs where t: "t = c # cs" using len by (cases t) (simp_all add: t_def)
  have "s = h @ t" unfolding h_def t_def by (rule append_take_drop_id[symmetric])
  then have s: "s = h @ c # cs" unfolding t .
  have h1: "length h = 16" using len by (simp add: h_def)
  have h2: "\<forall>c\<in>set h. c \<noteq> 34 \<and> c \<noteq> 92" "c \<noteq> 34" "c \<noteq> 92" using assms unfolding s by simp_all
  note h = h1 h2
  have "parse_loop (s @ codes ''\"}'') (?b, ''parse error'') = parse_loop (c # cs @ codes ''\"}'') (?b\<lparr>b_symbol := [] @ h\<rparr>, ''parse error'')"
    using text_loop[OF b(1,2) h(2), of "c # cs @ codes ''\"}''" "''parse error''"] h(1) b(3) by (simp add: s)
  also have "\<dots> = Some (?b\<lparr>b_symbol := h, b_cs := json_error\<rparr>, ''max length exceeded'')"
    by (subst text_overflow[OF _ _ h(3,4)]) (simp_all add: h(1))
  finally show "\<exists>b'. body_parse (codes ''{\"symbol\":\"'' @ s @ codes ''\"}'') (body_reset True b) = Throw ''max length exceeded'' b'"
    by (simp add: body_parse_def symbol_open)
qed

lemma symbol_body_witness:
  "\<exists>b'. body_parse (codes ''{\"symbol\":\"'' @ codes ''EURUSD'' @ codes ''\"}'') (body_reset True old_body) = Done True b' \<and> b_symbol b' = codes ''EURUSD''"
  using symbol_body[of "codes ''EURUSD''" old_body] by (auto simp: codes_def)

text \<open>
  A body with a number of any digits is accepted, and the number is the value of the digits modulo
  2^64, read as a signed number: a number below 2^63 is exact, a longer one wraps without an error.
\<close>

lemma number_body:
  assumes "\<forall>c\<in>set ds. 48 \<le> c \<and> c \<le> 57" and "ds \<noteq> []"
  shows "\<exists>b'. body_parse (codes ''{\"lots\":'' @ ds @ codes ''}'') (body_reset True b) = Done True b'
    \<and> b_lots b' = sint (word_of_int (digits_value ds) :: 64 word) \<and> b_fields b' = BLots
    \<and> (digits_value ds < 2 ^ 63 \<longrightarrow> b_lots b' = digits_value ds)"
proof -
  obtain c cs where ds: "ds = c # cs" using assms(2) by (cases ds) auto
  have c: "48 \<le> c" "c \<le> 57" and cs: "\<forall>c\<in>set cs. 48 \<le> c \<and> c \<le> 57" using assms(1) ds by simp_all
  let ?b = "(body_reset True b)\<lparr>b_scratch := Num 1 (word_of_int (c - 48)), b_cs := 79\<rparr>"
  have b: "b_cs ?b = 79" "b_scratch ?b = Num 1 (word_of_int (c - 48))" "b_fields (body_reset True b) = 0" by (simp_all add: body_reset_def)
  have v: "digits_value ds = fold (\<lambda>c v. v * 10 + (c - 48)) cs (c - 48)" by (simp add: digits_value_def ds)
  have "parse_loop (cs @ codes ''}'') (?b, ''parse error'') =
      parse_loop (codes ''}'') (?b\<lparr>b_scratch := Num 1 (word_of_int (digits_value ds))\<rparr>, ''parse error'')"
    using digits_loop[OF b(1,2) cs, of "codes ''}''" "''parse error''"] unfolding fold_digits v .
  also have "\<dots> = Some ((set_bit_of BLots (?b\<lparr>b_scratch := Num 1 (word_of_int (digits_value ds)), b_cs := 184\<rparr>))
      \<lparr>b_lots := sint (word_of_int (digits_value ds) :: 64 word)\<rparr>, ''parse error'')"
    by (simp add: codes_def parse_loop_step[OF _ _ lots_steps(7)] final_state do_action_def act_order_def body_num_def del: parse_loop.simps(2))
  finally have r: "\<exists>b'. body_parse (codes ''{\"lots\":'' @ ds @ codes ''}'') (body_reset True b) = Done True b'
      \<and> b_lots b' = sint (word_of_int (digits_value ds) :: 64 word) \<and> b_fields b' = BLots"
    by (simp add: body_parse_def ds lots_open[OF c] final_state set_bit_of_def b(3))
  have pos: "0 \<le> fold (\<lambda>c v. v * 10 + (c - 48)) cs v" if "0 \<le> v" for v :: int
    using cs that by (induction cs arbitrary: v) auto
  have "0 \<le> digits_value ds" unfolding v using pos[of "c - 48"] c by simp
  then have "digits_value ds < 2 ^ 63 \<longrightarrow> sint (word_of_int (digits_value ds) :: 64 word) = digits_value ds"
    by (simp add: int_word_sint)
  with r show ?thesis by auto
qed

lemma number_body_witness:
  "\<exists>b'. body_parse (codes ''{\"lots\":'' @ codes ''18446744073709551617'' @ codes ''}'') (body_reset True old_body) = Done True b' \<and> b_lots b' = 1"
proof -
  have "\<forall>c\<in>set (codes ''18446744073709551617''). 48 \<le> c \<and> c \<le> 57" "codes ''18446744073709551617'' \<noteq> []"
    "digits_value (codes ''18446744073709551617'') = 18446744073709551617" by (simp_all add: codes_def digits_value_def)
  with number_body[of "codes ''18446744073709551617''" old_body] show ?thesis by auto
qed

end
