(* ===== verification/Timer_Queue.thy ===== *)
theory Timer_Queue
  imports Prelude "HOL-Library.Multiset"
begin

text \<open>
  \<open>Timer\<close> and \<open>TimerQueue\<close> (\<open>sys/Timer.hpp\<close>, \<open>sys/Timer.cpp\<close>): timers that call back when they expire. Their memory is
  counted by references and used again. A timer whose slot is empty is not pending: it was cancelled, has
  fired, or has lost the last reference outside of the queue; it leaves the heap later.
\<close>

section \<open>The heap\<close>

text \<open>
  Of \<open>push_heap\<close>, \<open>pop_heap\<close> and \<open>make_heap\<close> the queue uses that the front has the least key. The order of the others is that of
  no specified algorithm, and the laws of \<open>min_heap\<close> do not tell it, but that a new element only moves up.
\<close>

definition is_heap :: "('a \<Rightarrow> int) \<Rightarrow> 'a list \<Rightarrow> bool" where
  "is_heap k xs \<longleftrightarrow> (case xs of [] \<Rightarrow> True | x # ys \<Rightarrow> list_all (\<lambda>y. k x \<le> k y) ys)"

fun make_heap :: "('a \<Rightarrow> int) \<Rightarrow> 'a list \<Rightarrow> 'a list" where
  "make_heap k [] = []"
| "make_heap k (x # xs) = (case make_heap k xs of [] \<Rightarrow> [x] | y # ys \<Rightarrow> if k y < k x then y # x # ys else x # y # ys)"

definition push_heap :: "('a \<Rightarrow> int) \<Rightarrow> 'a \<Rightarrow> 'a list \<Rightarrow> 'a list" where
  "push_heap k x xs = (case xs of [] \<Rightarrow> [x] | y # ys \<Rightarrow> if k x < k y then x # y # ys else y # ys @ [x])"

definition pop_heap :: "('a \<Rightarrow> int) \<Rightarrow> 'a list \<Rightarrow> 'a list" where
  "pop_heap k xs = make_heap k (tl xs)"

locale min_heap =
  fixes heap :: "('a \<Rightarrow> int) \<Rightarrow> 'a list \<Rightarrow> bool" and push :: "('a \<Rightarrow> int) \<Rightarrow> 'a \<Rightarrow> 'a list \<Rightarrow> 'a list"
    and pop :: "('a \<Rightarrow> int) \<Rightarrow> 'a list \<Rightarrow> 'a list" and make :: "('a \<Rightarrow> int) \<Rightarrow> 'a list \<Rightarrow> 'a list"
  assumes front_least: "heap k xs \<Longrightarrow> x \<in> set xs \<Longrightarrow> k (hd xs) \<le> k x"
    and heap_cong: "(\<And>x. x \<in> set xs \<Longrightarrow> k x = l x) \<Longrightarrow> heap k xs = heap l xs"
    and heap_Nil: "heap k []"
    and push_front: "heap k xs \<Longrightarrow> hd (push k x xs) = x \<or> xs \<noteq> [] \<and> hd (push k x xs) = hd xs"
    and push: "heap k xs \<Longrightarrow> heap k (push k x xs) \<and> mset (push k x xs) = add_mset x (mset xs)"
    and pop: "heap k xs \<Longrightarrow> xs \<noteq> [] \<Longrightarrow> heap k (pop k xs) \<and> add_mset (hd xs) (mset (pop k xs)) = mset xs"
    and make: "heap k (make k xs) \<and> mset (make k xs) = mset xs"
begin

lemma push_set: "heap k xs \<Longrightarrow> set (push k x xs) = insert x (set xs)"
  using push by (metis set_mset_add_mset_insert set_mset_mset)

lemma push_distinct: "heap k xs \<Longrightarrow> distinct xs \<Longrightarrow> x \<notin> set xs \<Longrightarrow> distinct (push k x xs)"
  using push[of k xs x] by (metis distinct.simps(2) mset.simps(2) mset_eq_imp_distinct_iff)

lemma pop_set: "heap k xs \<Longrightarrow> distinct xs \<Longrightarrow> xs \<noteq> [] \<Longrightarrow> set (pop k xs) = set xs - {hd xs} \<and> distinct (pop k xs)"
  using pop[of k xs] by (metis distinct.simps(2) list.set(2) mset.simps(2) mset_eq_imp_distinct_iff mset_eq_setD Diff_insert_absorb)

lemma pop_length: "heap k xs \<Longrightarrow> xs \<noteq> [] \<Longrightarrow> Suc (length (pop k xs)) = length xs"
  using pop[of k xs] by (metis size_add_mset size_mset)

lemma make_set: "set (make k xs) = set xs" and make_distinct: "distinct (make k xs) = distinct xs" and make_length: "length (make k xs) = length xs"
  using make[of k xs] by (metis mset_eq_setD, metis mset_eq_imp_distinct_iff, metis size_mset)

lemma filter_push: "heap k xs \<Longrightarrow> length (filter P (push k x xs)) = length (filter P xs) + (if P x then 1 else 0)"
proof -
  assume "heap k xs"
  then have "mset (filter P (push k x xs)) = (if P x then add_mset x (mset (filter P xs)) else mset (filter P xs))" using push by simp
  from arg_cong[OF this, of size] show ?thesis by (simp split: if_splits flip: mset_filter)
qed

lemma filter_pop: "heap k xs \<Longrightarrow> xs \<noteq> [] \<Longrightarrow> length (filter P (pop k xs)) + (if P (hd xs) then 1 else 0) = length (filter P xs)"
proof -
  assume "heap k xs" "xs \<noteq> []"
  then have "filter_mset P (mset xs) = (if P (hd xs) then add_mset (hd xs) (mset (filter P (pop k xs))) else mset (filter P (pop k xs)))"
    using pop[of k xs] by (metis filter_mset_add_mset mset_filter)
  from arg_cong[OF this, of size] show ?thesis by (simp flip: mset_filter)
qed

end

lemma make_heap_facts: "is_heap k (make_heap k xs) \<and> mset (make_heap k xs) = mset xs"
  by (induction xs) (auto simp: is_heap_def list_all_iff split: list.splits)

interpretation mh: min_heap is_heap push_heap pop_heap make_heap
proof (unfold_locales, goal_cases)
  case (1 k xs x)
  then show ?case by (cases xs) (auto simp: is_heap_def list_all_iff)
next
  case (2 xs k l)
  then show ?case by (cases xs) (auto simp: is_heap_def list_all_iff)
next
  case (3 k)
  show ?case by (simp add: is_heap_def)
next
  case (4 k xs x)
  then show ?case by (cases xs) (auto simp: push_heap_def)
next
  case (5 k xs x)
  then show ?case by (cases xs) (auto simp: is_heap_def push_heap_def list_all_iff)
next
  case (6 k xs)
  then show ?case using make_heap_facts[of k "tl xs"] by (cases xs) (auto simp: pop_heap_def)
next
  case (7 k xs)
  show ?case by (rule make_heap_facts)
qed

section \<open>Timers and their queue\<close>

text \<open>
  The slot, when it is not empty, is a number that stands for the bound function. Times are nanoseconds.
  Free timers are a list that is linked through the timers themselves; the addresses of slabs are given out in turn.
\<close>

record timer =
  tm_refs :: int
  tm_id :: int
  tm_expiry :: int
  tm_interval :: int
  tm_slot :: "nat option"

record timer_queue =
  tq_mem :: "nat \<Rightarrow> timer"
  tq_end :: nat
  tq_free :: "nat list"
  tq_max_id :: int
  tq_cancelled :: int
  tq_heap :: "nat list"

definition slab_size :: nat where
  "slab_size = (4096 - 16) div 8"

definition blank_timer :: timer where
  "blank_timer = \<lparr>tm_refs = 0, tm_id = 0, tm_expiry = 0, tm_interval = 0, tm_slot = None\<rparr>"

definition on_timer_at :: "nat \<Rightarrow> (timer \<Rightarrow> timer) \<Rightarrow> 'a timer_queue_scheme \<Rightarrow> 'a timer_queue_scheme" where
  "on_timer_at a f q = q\<lparr>tq_mem := (tq_mem q)(a := f (tq_mem q a))\<rparr>"

definition tm_pending :: "'a timer_queue_scheme \<Rightarrow> nat \<Rightarrow> bool" where
  "tm_pending q a \<longleftrightarrow> tm_slot (tq_mem q a) \<noteq> None"

definition expiry_of :: "'a timer_queue_scheme \<Rightarrow> nat \<Rightarrow> int" where
  "expiry_of q a = tm_expiry (tq_mem q a)"

definition tq_size :: "'a timer_queue_scheme \<Rightarrow> int" where
  "tq_size q = int (length (tq_heap q)) - tq_cancelled q"

text \<open>\<open>TimerQueue::alloc\<close>: from the free list, or the first of a new slab.\<close>

definition tq_alloc :: "int \<Rightarrow> int \<Rightarrow> nat \<Rightarrow> 'a timer_queue_scheme \<Rightarrow> nat \<times> 'a timer_queue_scheme" where
  "tq_alloc expiry interval slot q =
     (let (a, q) = (case tq_free q of
            a # free \<Rightarrow> (a, q\<lparr>tq_free := free\<rparr>)
          | [] \<Rightarrow> (tq_end q, q\<lparr>tq_free := rev [tq_end q + 1..<tq_end q + slab_size], tq_end := tq_end q + slab_size\<rparr>));
          id = tq_max_id q + 1
      in (a, (on_timer_at a (\<lambda>_. \<lparr>tm_refs = 1, tm_id = id, tm_expiry = expiry, tm_interval = interval, tm_slot = Some slot\<rparr>) q)
             \<lparr>tq_max_id := id\<rparr>))"

definition add_ref :: "nat \<Rightarrow> 'a timer_queue_scheme \<Rightarrow> 'a timer_queue_scheme" where
  "add_ref a q = on_timer_at a (\<lambda>t. t\<lparr>tm_refs := tm_refs t + 1\<rparr>) q"

definition tq_push :: "nat \<Rightarrow> 'a timer_queue_scheme \<Rightarrow> 'a timer_queue_scheme" where
  "tq_push a q = (let q = add_ref a q in q\<lparr>tq_heap := push_heap (expiry_of q) a (tq_heap q)\<rparr>)"

definition tq_insert :: "int \<Rightarrow> int \<Rightarrow> nat \<Rightarrow> 'a timer_queue_scheme \<Rightarrow> nat \<times> 'a timer_queue_scheme" where
  "tq_insert expiry interval slot q = (let (a, q) = tq_alloc expiry interval slot q in (a, tq_push a q))"

text \<open>\<open>intrusive_ptr_release\<close> on a timer with an empty slot.\<close>

definition drop_ref :: "nat \<Rightarrow> 'a timer_queue_scheme \<Rightarrow> 'a timer_queue_scheme" where
  "drop_ref a q =
     (let q = on_timer_at a (\<lambda>t. t\<lparr>tm_refs := tm_refs t - 1\<rparr>) q
      in if tm_refs (tq_mem q a) = 0 then q\<lparr>tq_free := a # tq_free q\<rparr> else q)"

text \<open>\<open>pop\<close> of a front with an empty slot: the reference of the heap goes, and the returned one with it.\<close>

definition pop_dead :: "'a timer_queue_scheme \<Rightarrow> 'a timer_queue_scheme" where
  "pop_dead q =
     (let a = hd (tq_heap q);
          q = add_ref a q;
          q = q\<lparr>tq_heap := pop_heap (expiry_of q) (tq_heap q)\<rparr>;
          q = drop_ref a q;
          q = drop_ref a q
      in q\<lparr>tq_cancelled := tq_cancelled q - 1\<rparr>)"

definition tq_gc :: "'a timer_queue_scheme \<Rightarrow> 'a timer_queue_scheme" where
  "tq_gc q =
     (if tq_cancelled q > int (length (tq_heap q) div 2)
      then let dead = filter (\<lambda>a. \<not> tm_pending q a) (tq_heap q);
               q = q\<lparr>tq_heap := make_heap (expiry_of q) (filter (tm_pending q) (tq_heap q))\<rparr>;
               q = fold drop_ref dead q
           in q\<lparr>tq_cancelled := 0\<rparr>
      else q)"

lemma length_pop_heap: "length (pop_heap k xs) = length xs - 1"
proof -
  have "mset (make_heap k (tl xs)) = mset (tl xs)" by (simp add: make_heap_facts)
  from arg_cong[OF this, of size] show ?thesis by (simp add: pop_heap_def)
qed

lemma pop_dead_heap: "tq_heap (pop_dead q) = pop_heap (expiry_of (add_ref (hd (tq_heap q)) q)) (tq_heap q)"
  by (simp add: pop_dead_def drop_ref_def add_ref_def on_timer_at_def Let_def)

function pop_all_dead :: "'a timer_queue_scheme \<Rightarrow> 'a timer_queue_scheme" where
  "pop_all_dead q = (if tq_heap q \<noteq> [] \<and> \<not> tm_pending q (hd (tq_heap q)) then pop_all_dead (pop_dead q) else q)"
  by pat_completeness auto

termination
  by (relation "measure (\<lambda>q. length (tq_heap q))") (auto simp: pop_dead_heap length_pop_heap)

declare pop_all_dead.simps [simp del]

definition tq_cancel :: "'a timer_queue_scheme \<Rightarrow> 'a timer_queue_scheme" where
  "tq_cancel q = tq_gc (pop_all_dead (q\<lparr>tq_cancelled := tq_cancelled q + 1\<rparr>))"

definition reset_slot :: "nat \<Rightarrow> 'a timer_queue_scheme \<Rightarrow> 'a timer_queue_scheme" where
  "reset_slot a q = on_timer_at a (\<lambda>t. t\<lparr>tm_slot := None\<rparr>) q"

text \<open>\<open>Timer::cancel\<close>, and \<open>intrusive_ptr_release\<close> on any timer.\<close>

definition cancel_timer :: "nat \<Rightarrow> 'a timer_queue_scheme \<Rightarrow> 'a timer_queue_scheme" where
  "cancel_timer a q = (if tm_pending q a then tq_cancel (reset_slot a q) else q)"

definition release_ref :: "nat \<Rightarrow> 'a timer_queue_scheme \<Rightarrow> 'a timer_queue_scheme" where
  "release_ref a q =
     (let q = on_timer_at a (\<lambda>t. t\<lparr>tm_refs := tm_refs t - 1\<rparr>) q
      in if tm_refs (tq_mem q a) = 1
         then if tm_pending q a then tq_cancel (reset_slot a q) else q
         else if tm_refs (tq_mem q a) = 0 then q\<lparr>tq_free := a # tq_free q\<rparr>
         else q)"

text \<open>\<open>pop\<close> of any front; the returned reference is still held.\<close>

definition tq_pop :: "'a timer_queue_scheme \<Rightarrow> 'a timer_queue_scheme" where
  "tq_pop q =
     (let a = hd (tq_heap q);
          q = add_ref a q;
          q = q\<lparr>tq_heap := pop_heap (expiry_of q) (tq_heap q)\<rparr>
      in release_ref a q)"

section \<open>Users\<close>

text \<open>
  Who uses the queue holds references (\<open>Timer\<close> objects), and is called back with one that the queue holds for
  the time of the call. The environment keeps account of both. It also has what the callbacks write down for
  themselves, as the slot, the timer and the time of a call: their own memory, which the queue does not see.
\<close>

record timer_env = timer_queue +
  te_held :: "nat list"
  te_local :: "nat list"
  te_notes :: "(nat \<times> nat \<times> int) list"

definition timer_start :: timer_env where
  "timer_start = \<lparr>tq_mem = (\<lambda>_. blank_timer), tq_end = 0, tq_free = [], tq_max_id = 0, tq_cancelled = 0, tq_heap = [],
     te_held = [], te_local = [], te_notes = []\<rparr>"

text \<open>What a user can do, with a condition on the expiry of the timers that are inserted.\<close>

inductive timer_act :: "(int \<Rightarrow> bool) \<Rightarrow> timer_env \<Rightarrow> timer_env \<Rightarrow> bool" for ok where
  act_insert: "ok expiry \<Longrightarrow> tq_insert expiry interval slot e = (a, e') \<Longrightarrow> timer_act ok e (e'\<lparr>te_held := a # te_held e'\<rparr>)"
| act_cancel: "a \<in> set (te_held e) \<union> set (te_local e) \<Longrightarrow> timer_act ok e (cancel_timer a e)"
| act_copy: "a \<in> set (te_held e) \<union> set (te_local e) \<Longrightarrow> timer_act ok e ((add_ref a e)\<lparr>te_held := a # te_held e\<rparr>)"
| act_release: "a \<in> set (te_held e) \<Longrightarrow> timer_act ok e (release_ref a (e\<lparr>te_held := remove1 a (te_held e)\<rparr>))"
| act_interval: "a \<in> set (te_held e) \<union> set (te_local e) \<Longrightarrow> timer_act ok e (on_timer_at a (\<lambda>t. t\<lparr>tm_interval := i\<rparr>) e)"
| act_note: "timer_act ok e (e\<lparr>te_notes := ns\<rparr>)"

text \<open>
  Callbacks are a parameter, from the slot, the timer, the time and the environment to what it becomes. An
  exception ends the callback and is caught.
\<close>

type_synonym timer_user = "nat \<Rightarrow> nat \<Rightarrow> int \<Rightarrow> timer_env \<Rightarrow> timer_env"

definition acts_only :: "(int \<Rightarrow> int \<Rightarrow> bool) \<Rightarrow> timer_user \<Rightarrow> bool" where
  "acts_only ok user \<longleftrightarrow> (\<forall>s a now e. (timer_act (ok now))\<^sup>*\<^sup>* e (user s a now e))"

section \<open>Dispatching\<close>

definition tq_expire :: "timer_user \<Rightarrow> int \<Rightarrow> timer_env \<Rightarrow> timer_env" where
  "tq_expire user now e =
     (let a = hd (tq_heap e);
          e = tq_pop (e\<lparr>te_local := a # te_local e\<rparr>);
          e = (case tm_slot (tq_mem e a) of Some s \<Rightarrow> user s a now e | None \<Rightarrow> e);
          e = (if tm_pending e a
               then if tm_interval (tq_mem e a) > 0
                    then tq_push a (on_timer_at a (\<lambda>t. t\<lparr>tm_expiry := max (tm_expiry t + tm_interval t) (now + 1)\<rparr>) e)
                    else reset_slot a e
               else e)
      in release_ref a (e\<lparr>te_local := remove1 a (te_local e)\<rparr>))"

partial_function (option) dispatch_loop :: "timer_user \<Rightarrow> int \<Rightarrow> timer_env \<Rightarrow> int \<Rightarrow> (int \<times> timer_env) option" where
  "dispatch_loop user now e n =
     (if tq_heap e = [] then Some (n, e)
      else if \<not> tm_pending e (hd (tq_heap e)) then dispatch_loop user now (pop_dead e) n
      else if expiry_of e (hd (tq_heap e)) \<le> now then dispatch_loop user now (tq_expire user now e) (n + 1)
      else Some (n, e))"

definition tq_dispatch :: "timer_user \<Rightarrow> int \<Rightarrow> timer_env \<Rightarrow> (int \<times> timer_env) option" where
  "tq_dispatch user now e = (case dispatch_loop user now e 0 of None \<Rightarrow> None | Some (n, e) \<Rightarrow> Some (n, tq_gc e))"

end
