(* ===== verification/Timer_Inv.thy ===== *)
theory Timer_Inv
  imports Timer_Queue
begin

text \<open>
  The invariant of the timer queue: references are counted, no timer is free that is still referred to, the
  front of the heap is the first to expire, a pending timer waits in the heap with another reference
  outside, and at least as many cancellations are counted as there are cancelled timers in the heap.
\<close>

section \<open>The invariant\<close>

text \<open>The references to a timer: that of the heap, and those outside of it.\<close>

definition refs_to :: "(nat \<Rightarrow> nat) \<Rightarrow> 'a timer_queue_scheme \<Rightarrow> nat \<Rightarrow> nat" where
  "refs_to w q a = (if a \<in> set (tq_heap q) then 1 else 0) + w a"

definition dead_count :: "'a timer_queue_scheme \<Rightarrow> nat" where
  "dead_count q = length (filter (\<lambda>a. \<not> tm_pending q a) (tq_heap q))"

definition tq_inv :: "(nat \<Rightarrow> nat) \<Rightarrow> nat set \<Rightarrow> 'a timer_queue_scheme \<Rightarrow> bool" where
  "tq_inv w called q \<longleftrightarrow>
     distinct (tq_heap q) \<and> is_heap (expiry_of q) (tq_heap q)
     \<and> distinct (tq_free q) \<and> set (tq_free q) = {a. a < tq_end q \<and> refs_to w q a = 0}
     \<and> (\<forall>a. 0 < refs_to w q a \<longrightarrow> a < tq_end q \<and> tm_refs (tq_mem q a) = int (refs_to w q a))
     \<and> (\<forall>a. 0 < refs_to w q a \<longrightarrow> tm_pending q a \<longrightarrow> 2 \<le> refs_to w q a \<and> (a \<in> set (tq_heap q) \<or> a \<in> called))
     \<and> int (dead_count q) \<le> tq_cancelled q"

text \<open>What the steps do to the fields.\<close>

lemma add_ref_simps [simp]:
  "tq_heap (add_ref a q) = tq_heap q" "tq_free (add_ref a q) = tq_free q" "tq_end (add_ref a q) = tq_end q"
  "tq_cancelled (add_ref a q) = tq_cancelled q" "tm_pending (add_ref a q) = tm_pending q" "expiry_of (add_ref a q) = expiry_of q"
  "tm_refs (tq_mem (add_ref a q) b) = tm_refs (tq_mem q b) + (if b = a then 1 else 0)"
  by (auto simp: add_ref_def on_timer_at_def tm_pending_def expiry_of_def fun_eq_iff)

lemma drop_ref_simps [simp]:
  "tq_heap (drop_ref a q) = tq_heap q" "tq_end (drop_ref a q) = tq_end q"
  "tq_free (drop_ref a q) = (if tm_refs (tq_mem q a) = 1 then a # tq_free q else tq_free q)"
  "tq_cancelled (drop_ref a q) = tq_cancelled q" "tm_pending (drop_ref a q) = tm_pending q" "expiry_of (drop_ref a q) = expiry_of q"
  "tm_refs (tq_mem (drop_ref a q) b) = tm_refs (tq_mem q b) - (if b = a then 1 else 0)"
  by (auto simp: drop_ref_def on_timer_at_def tm_pending_def expiry_of_def Let_def fun_eq_iff)

lemma reset_slot_simps [simp]:
  "tq_heap (reset_slot a q) = tq_heap q" "tq_free (reset_slot a q) = tq_free q" "tq_end (reset_slot a q) = tq_end q"
  "tq_cancelled (reset_slot a q) = tq_cancelled q" "tm_pending (reset_slot a q) b = (b \<noteq> a \<and> tm_pending q b)"
  "expiry_of (reset_slot a q) = expiry_of q" "tm_refs (tq_mem (reset_slot a q) b) = tm_refs (tq_mem q b)"
  by (auto simp: reset_slot_def on_timer_at_def tm_pending_def expiry_of_def fun_eq_iff)

lemma update_simps [simp]:
  "tm_pending (q\<lparr>tq_heap := h\<rparr>) = tm_pending q" "expiry_of (q\<lparr>tq_heap := h\<rparr>) = expiry_of q"
  "tm_pending (q\<lparr>tq_cancelled := n\<rparr>) = tm_pending q" "expiry_of (q\<lparr>tq_cancelled := n\<rparr>) = expiry_of q"
  by (auto simp: tm_pending_def expiry_of_def fun_eq_iff)

lemma length_filter_subset:
  assumes "distinct xs" and "distinct ys" and "set xs \<subseteq> set ys"
  shows "length (filter P xs) \<le> length (filter P ys)"
proof -
  have "card ({x. P x} \<inter> set xs) \<le> card ({x. P x} \<inter> set ys)" using assms(3) by (intro card_mono) auto
  then show ?thesis using assms(1,2) by (simp add: distinct_length_filter)
qed

lemma length_filter_or_one:
  assumes "distinct xs"
  shows "length (filter (\<lambda>x. x = a \<or> P x) xs) \<le> Suc (length (filter P xs))"
proof -
  have "card ({x. x = a \<or> P x} \<inter> set xs) \<le> card (insert a ({x. P x} \<inter> set xs))" by (intro card_mono) auto
  also have "\<dots> \<le> Suc (card ({x. P x} \<inter> set xs))" by (rule card_insert_le_m1) simp_all
  finally show ?thesis using assms by (simp add: distinct_length_filter)
qed

lemma refs_counted: "tq_inv w called q \<Longrightarrow> 0 < refs_to w q a \<Longrightarrow> tm_refs (tq_mem q a) = int (refs_to w q a)"
  by (simp add: tq_inv_def)

lemma refs_below: "tq_inv w called q \<Longrightarrow> 0 < refs_to w q a \<Longrightarrow> a < tq_end q"
  by (simp add: tq_inv_def)

section \<open>The steps keep it\<close>

lemma add_ref_inv:
  assumes "tq_inv w called q" and "0 < refs_to w q a"
  shows "tq_inv (w(a := w a + 1)) called (add_ref a q)"
proof -
  have "refs_to (w(a := w a + 1)) (add_ref a q) b = refs_to w q b + (if b = a then 1 else 0)" for b
    by (simp add: refs_to_def)
  then show ?thesis using assms by (auto simp: tq_inv_def dead_count_def)
qed

lemma drop_ref_inv:
  assumes inv: "tq_inv w called q" and "0 < w a" and "\<not> tm_pending q a \<or> 3 \<le> refs_to w q a"
  shows "tq_inv (w(a := w a - 1)) called (drop_ref a q)"
proof -
  have r: "refs_to (w(a := w a - 1)) (drop_ref a q) b = refs_to w q b - (if b = a then 1 else 0)" for b
    using assms(2) by (simp add: refs_to_def)
  have a: "0 < refs_to w q a" using assms(2) by (simp add: refs_to_def)
  then have refs: "tm_refs (tq_mem q a) = int (refs_to w q a)" "a < tq_end q" "a \<notin> set (tq_free q)" using inv by (auto simp: tq_inv_def)
  show ?thesis using inv a refs assms(3) unfolding tq_inv_def r by (auto simp: dead_count_def split: if_splits)
qed

text \<open>A timer without a slot leaves the heap, or one that is to be called; the reference is still to be dropped.\<close>

lemma leave_heap_inv:
  assumes inv: "tq_inv w called q" and heap: "is_heap (expiry_of q) h" "set h = set (tq_heap q) - dead" "distinct h"
    and dead: "dead \<subseteq> set (tq_heap q)" "\<forall>a\<in>dead. \<not> tm_pending q a \<or> a \<in> called"
  shows "tq_inv (\<lambda>a. w a + (if a \<in> dead then 1 else 0)) called (q\<lparr>tq_heap := h\<rparr>)"
proof -
  have r: "refs_to (\<lambda>a. w a + (if a \<in> dead then 1 else 0)) (q\<lparr>tq_heap := h\<rparr>) b = refs_to w q b" for b
    using heap(2) dead(1) by (auto simp: refs_to_def)
  have "dead_count (q\<lparr>tq_heap := h\<rparr>) \<le> dead_count q"
    using inv heap(2,3) length_filter_subset[of h "tq_heap q"] by (simp add: tq_inv_def dead_count_def)
  then show ?thesis using inv heap dead unfolding tq_inv_def r by auto blast
qed

lemma cancelled_inv: "tq_inv w called q \<Longrightarrow> int (dead_count q) \<le> n \<Longrightarrow> tq_inv w called (q\<lparr>tq_cancelled := n\<rparr>)"
  by (simp add: tq_inv_def dead_count_def refs_to_def)

lemma reset_slot_inv:
  assumes "tq_inv w called q"
  shows "tq_inv w called ((reset_slot a q)\<lparr>tq_cancelled := tq_cancelled q + 1\<rparr>)"
proof -
  let ?q = "reset_slot a q"
  have "dead_count ?q \<le> dead_count q + 1"
    using assms length_filter_or_one[of "tq_heap q" a] by (simp add: tq_inv_def dead_count_def)
  then show ?thesis using assms by (auto simp: tq_inv_def dead_count_def refs_to_def)
qed

section \<open>Clearing the heap\<close>

text \<open>What clearing does not change: only timers without a slot leave the heap.\<close>

definition clears :: "'a timer_queue_scheme \<Rightarrow> 'a timer_queue_scheme \<Rightarrow> bool" where
  "clears q q' \<longleftrightarrow> tm_pending q' = tm_pending q \<and> expiry_of q' = expiry_of q \<and> timer_queue.more q' = timer_queue.more q
     \<and> set (tq_heap q') \<subseteq> set (tq_heap q) \<and> (\<forall>a\<in>set (tq_heap q). tm_pending q a \<longrightarrow> a \<in> set (tq_heap q'))
     \<and> (\<forall>a. tm_interval (tq_mem q' a) = tm_interval (tq_mem q a) \<and> tm_slot (tq_mem q' a) = tm_slot (tq_mem q a))
     \<and> tq_end q' = tq_end q"

lemma clears_refl: "clears q q"
  by (simp add: clears_def)

lemma clears_trans: "clears q r \<Longrightarrow> clears r s \<Longrightarrow> clears q s"
  by (auto simp: clears_def)

lemma clears_drop_ref: "clears q (drop_ref a q)"
  by (auto simp: clears_def drop_ref_def on_timer_at_def tm_pending_def expiry_of_def Let_def fun_eq_iff)

lemma clears_add_ref: "clears q (add_ref a q)"
  by (auto simp: clears_def add_ref_def on_timer_at_def tm_pending_def expiry_of_def Let_def fun_eq_iff)

lemma clears_cancelled: "clears q (q\<lparr>tq_cancelled := n\<rparr>)"
  by (simp add: clears_def)

lemma pop_dead_inv:
  assumes inv: "tq_inv w called q" and heap: "tq_heap q \<noteq> []" "\<not> tm_pending q (hd (tq_heap q))"
  shows "tq_inv w called (pop_dead q) \<and> clears q (pop_dead q)"
proof -
  define a where "a = hd (tq_heap q)"
  have a: "a \<in> set (tq_heap q)" "\<not> tm_pending q a" using heap by (simp_all add: a_def)
  have parts: "distinct (tq_heap q)" "is_heap (expiry_of q) (tq_heap q)" "int (dead_count q) \<le> tq_cancelled q"
    using inv by (simp_all add: tq_inv_def)
  let ?h = "pop_heap (expiry_of q) (tq_heap q)"
  have h: "set ?h = set (tq_heap q) - {a}" "distinct ?h" "is_heap (expiry_of q) ?h"
    using mh.pop_set[OF parts(2,1) heap(1)] mh.pop[OF parts(2) heap(1)] by (simp_all add: a_def)
  define q1 where "q1 = add_ref a q"
  have "0 < refs_to w q a" using a(1) by (simp add: refs_to_def)
  from add_ref_inv[OF inv this] have i1: "tq_inv (w(a := w a + 1)) called q1" by (simp add: q1_def)
  define q2 where "q2 = q1\<lparr>tq_heap := ?h\<rparr>"
  have "tq_inv (\<lambda>b. (w(a := w a + 1)) b + (if b \<in> {a} then 1 else 0)) called q2"
    unfolding q2_def by (rule leave_heap_inv[OF i1]) (use h a in \<open>simp_all add: q1_def\<close>)
  moreover have "(\<lambda>b. (w(a := w a + 1)) b + (if b \<in> {a} then 1 else 0)) = w(a := w a + 2)" by auto
  ultimately have i2: "tq_inv (w(a := w a + 2)) called q2" by simp
  have q2: "\<not> tm_pending q2 a" "dead_count q2 + 1 = dead_count q" "tq_cancelled q2 = tq_cancelled q"
    using a(2) mh.filter_pop[OF parts(2) heap(1), of "\<lambda>a. \<not> tm_pending q a"] by (simp_all add: q2_def q1_def dead_count_def a_def)
  from drop_ref_inv[OF i2, of a] q2(1) have i3: "tq_inv (w(a := w a + 1)) called (drop_ref a q2)" by simp
  from drop_ref_inv[OF i3, of a] q2(1) have i4: "tq_inv w called (drop_ref a (drop_ref a q2))" by simp
  have run: "pop_dead q = (drop_ref a (drop_ref a q2))\<lparr>tq_cancelled := tq_cancelled q - 1\<rparr>"
    by (simp add: pop_dead_def Let_def a_def[symmetric] q2_def q1_def)
  have "tq_inv w called (pop_dead q)" unfolding run using i4 q2(2) parts(3) by (intro cancelled_inv) (simp_all add: dead_count_def)
  moreover have "clears q q2" using clears_add_ref[of q a] h(1) a(2) by (auto simp: clears_def q2_def q1_def)
  from clears_trans[OF clears_trans[OF clears_trans[OF this clears_drop_ref] clears_drop_ref] clears_cancelled]
  have "clears q (pop_dead q)" unfolding run .
  ultimately show ?thesis by simp
qed

lemma pop_all_dead_inv:
  assumes "tq_inv w called q"
  shows "tq_inv w called (pop_all_dead q) \<and> clears q (pop_all_dead q)
    \<and> (tq_heap (pop_all_dead q) = [] \<or> tm_pending (pop_all_dead q) (hd (tq_heap (pop_all_dead q))))"
  using assms
proof (induction q rule: pop_all_dead.induct)
  case (1 q)
  show ?case
  proof (cases "tq_heap q \<noteq> [] \<and> \<not> tm_pending q (hd (tq_heap q))")
    case True
    note step = pop_dead_inv[OF 1(2)] True
    have "pop_all_dead q = pop_all_dead (pop_dead q)" using True by (subst pop_all_dead.simps) simp
    then show ?thesis using 1(1)[OF True] step clears_trans by metis
  next
    case False
    then have "pop_all_dead q = q" by (subst pop_all_dead.simps) auto
    then show ?thesis using 1(2) False clears_refl by auto
  qed
qed

lemma fold_drop_ref_inv:
  assumes "tq_inv (\<lambda>a. w a + (if a \<in> set xs then 1 else 0)) called q" and "distinct xs" and "\<forall>a\<in>set xs. \<not> tm_pending q a"
  shows "tq_inv w called (fold drop_ref xs q) \<and> clears q (fold drop_ref xs q) \<and> tq_heap (fold drop_ref xs q) = tq_heap q"
  using assms
proof (induction xs arbitrary: q)
  case Nil
  then show ?case by (simp add: clears_refl)
next
  case (Cons x xs)
  let ?w = "\<lambda>a. w a + (if a \<in> set (x # xs) then 1 else 0)"
  have "tq_inv (?w(x := ?w x - 1)) called (drop_ref x q)" using Cons.prems by (intro drop_ref_inv) simp_all
  moreover have "?w(x := ?w x - 1) = (\<lambda>a. w a + (if a \<in> set xs then 1 else 0))" using Cons.prems(2) by (auto simp: fun_eq_iff)
  ultimately show ?case using Cons.IH[of "drop_ref x q"] Cons.prems(2,3) clears_drop_ref clears_trans by fastforce
qed

lemma tq_gc_inv:
  assumes inv: "tq_inv w called q"
  shows "tq_inv w called (tq_gc q) \<and> clears q (tq_gc q)
    \<and> tq_cancelled (tq_gc q) \<le> int (length (tq_heap (tq_gc q)) div 2)
    \<and> (tq_heap q = [] \<or> tm_pending q (hd (tq_heap q)) \<longrightarrow> tq_heap (tq_gc q) = [] \<or> tm_pending (tq_gc q) (hd (tq_heap (tq_gc q))))"
proof (cases "tq_cancelled q > int (length (tq_heap q) div 2)")
  case False
  then show ?thesis using inv clears_refl by (auto simp: tq_gc_def)
next
  case True
  define dead where "dead = filter (\<lambda>a. \<not> tm_pending q a) (tq_heap q)"
  define h where "h = make_heap (expiry_of q) (filter (tm_pending q) (tq_heap q))"
  have parts: "distinct (tq_heap q)" using inv by (simp add: tq_inv_def)
  have h: "set h = set (tq_heap q) - set dead" "distinct h" "is_heap (expiry_of q) h" "\<forall>a\<in>set h. tm_pending q a"
    using parts mh.make[of "expiry_of q"] by (auto simp: h_def dead_def mh.make_set mh.make_distinct)
  have i1: "tq_inv (\<lambda>a. w a + (if a \<in> set dead then 1 else 0)) called (q\<lparr>tq_heap := h\<rparr>)"
    using inv h by (intro leave_heap_inv) (auto simp: dead_def)
  have F: "tq_inv w called (fold drop_ref dead (q\<lparr>tq_heap := h\<rparr>)) \<and> clears (q\<lparr>tq_heap := h\<rparr>) (fold drop_ref dead (q\<lparr>tq_heap := h\<rparr>))
      \<and> tq_heap (fold drop_ref dead (q\<lparr>tq_heap := h\<rparr>)) = h"
    using fold_drop_ref_inv[OF i1] parts by (simp add: dead_def)
  have run: "tq_gc q = (fold drop_ref dead (q\<lparr>tq_heap := h\<rparr>))\<lparr>tq_cancelled := 0\<rparr>"
    using True by (simp add: tq_gc_def Let_def dead_def h_def)
  have pend: "tm_pending (fold drop_ref dead (q\<lparr>tq_heap := h\<rparr>)) = tm_pending q" using F by (simp add: clears_def)
  then have "dead_count (fold drop_ref dead (q\<lparr>tq_heap := h\<rparr>)) = 0" using F h(4) by (simp add: dead_count_def)
  then have "tq_inv w called (tq_gc q)" unfolding run using F by (intro cancelled_inv) simp_all
  moreover have "clears q (q\<lparr>tq_heap := h\<rparr>)" using h(1) by (auto simp: clears_def dead_def)
  from clears_trans[OF clears_trans[OF this conjunct1[OF conjunct2[OF F]]] clears_cancelled]
  have "clears q (tq_gc q)" unfolding run .
  moreover have "h \<noteq> [] \<longrightarrow> tm_pending q (hd h)" using h(4) by simp
  ultimately show ?thesis using F pend by (auto simp: run)
qed

text \<open>A cancellation: afterwards the front is pending, and no more than half is counted as cancelled.\<close>

definition tq_tidy :: "'a timer_queue_scheme \<Rightarrow> bool" where
  "tq_tidy q \<longleftrightarrow> tq_cancelled q \<le> int (length (tq_heap q) div 2) \<and> (tq_heap q = [] \<or> tm_pending q (hd (tq_heap q)))"

lemma tq_cancel_inv:
  assumes "tq_inv w called (q\<lparr>tq_cancelled := tq_cancelled q + 1\<rparr>)"
  shows "tq_inv w called (tq_cancel q) \<and> clears q (tq_cancel q) \<and> tq_tidy (tq_cancel q)"
proof -
  note P = pop_all_dead_inv[OF assms]
  note G = tq_gc_inv[OF conjunct1[OF P]]
  from clears_trans[OF clears_trans[OF clears_cancelled conjunct1[OF conjunct2[OF P]]] conjunct1[OF conjunct2[OF G]]]
  show ?thesis using G P unfolding tq_cancel_def tq_tidy_def by simp
qed

section \<open>Operations\<close>

lemma called_inv:
  assumes "tq_inv w called q" and "\<And>a. tm_pending q a \<Longrightarrow> a \<in> called \<Longrightarrow> a \<in> set (tq_heap q) \<or> a \<in> called'"
  shows "tq_inv w called' q"
  using assms unfolding tq_inv_def by blast

lemma reset_slot_id: "\<not> tm_pending q a \<Longrightarrow> reset_slot a q = q"
  by (cases q, cases "tq_mem q a") (auto simp: reset_slot_def on_timer_at_def tm_pending_def fun_eq_iff)

lemma cancel_timer_inv:
  assumes inv: "tq_inv w called q"
  shows "tq_inv w called (cancel_timer a q) \<and> clears (reset_slot a q) (cancel_timer a q) \<and> (tm_pending q a \<or> tq_tidy q \<longrightarrow> tq_tidy (cancel_timer a q))"
proof (cases "tm_pending q a")
  case True
  from tq_cancel_inv[of w called "reset_slot a q"] reset_slot_inv[OF inv, of a] show ?thesis by (simp add: cancel_timer_def True)
next
  case False
  from reset_slot_id[OF this] show ?thesis using False inv by (simp add: cancel_timer_def clears_refl)
qed

lemma release_ref_inv:
  assumes inv: "tq_inv w called q" and "0 < w a"
  shows "tq_inv (w(a := w a - 1)) called (release_ref a q)
    \<and> clears (if refs_to w q a = 2 then reset_slot a q else q) (release_ref a q)
    \<and> (tm_pending q a \<and> refs_to w q a = 2 \<or> tq_tidy q \<longrightarrow> tq_tidy (release_ref a q))"
proof -
  have T: "0 < refs_to w q a" using assms(2) by (simp add: refs_to_def)
  then have refs: "tm_refs (tq_mem q a) = int (refs_to w q a)" using inv by (auto simp: tq_inv_def)
  show ?thesis
  proof (cases "tm_pending q a \<and> refs_to w q a = 2")
    case True
    let ?r = "(reset_slot a q)\<lparr>tq_cancelled := tq_cancelled q + 1\<rparr>"
    let ?d = "on_timer_at a (\<lambda>t. t\<lparr>tm_refs := tm_refs t - 1\<rparr>) q"
    have d: "(reset_slot a ?d)\<lparr>tq_cancelled := tq_cancelled (reset_slot a ?d) + 1\<rparr> = drop_ref a ?r"
      using True refs by (simp add: drop_ref_def reset_slot_def on_timer_at_def Let_def) (intro timer_queue.equality; cases "tq_mem q a"; simp)
    have "tq_inv (w(a := w a - 1)) called (drop_ref a ?r)"
      using reset_slot_inv[OF inv, of a] assms(2) by (intro drop_ref_inv) simp_all
    from tq_cancel_inv[OF this[folded d]]
    have C: "tq_inv (w(a := w a - 1)) called (tq_cancel (reset_slot a ?d)) \<and> clears (reset_slot a ?d) (tq_cancel (reset_slot a ?d)) \<and> tq_tidy (tq_cancel (reset_slot a ?d))" .
    have "release_ref a q = tq_cancel (reset_slot a ?d)"
      using True refs by (simp add: release_ref_def Let_def on_timer_at_def tm_pending_def)
    moreover have "clears (reset_slot a q) (reset_slot a ?d)"
      by (auto simp: clears_def reset_slot_def on_timer_at_def tm_pending_def expiry_of_def fun_eq_iff)
    note clears_trans[OF this conjunct1[OF conjunct2[OF C]]]
    ultimately show ?thesis using C True by simp
  next
    case False
    have pend: "2 \<le> refs_to w q a" if "tm_pending q a" using inv T that by (auto simp: tq_inv_def)
    have run: "release_ref a q = drop_ref a q"
      using False refs pend by (auto simp: release_ref_def drop_ref_def Let_def on_timer_at_def tm_pending_def)
    have "\<not> tm_pending q a \<or> 3 \<le> refs_to w q a" using False pend by fastforce
    note D = drop_ref_inv[OF inv assms(2) this]
    show ?thesis using D False reset_slot_id[of q a] clears_drop_ref[of q a] by (auto simp: run tq_tidy_def)
  qed
qed

text \<open>A timer joins the heap.\<close>

lemma tq_push_inv:
  assumes inv: "tq_inv w called q" and "0 < w a" and "a \<notin> set (tq_heap q)" and "tm_pending q a"
  shows "tq_inv w called (tq_push a q) \<and> set (tq_heap (tq_push a q)) = insert a (set (tq_heap q))
    \<and> tm_pending (tq_push a q) = tm_pending q \<and> expiry_of (tq_push a q) = expiry_of q
    \<and> (tq_tidy q \<longrightarrow> tq_tidy (tq_push a q))"
proof -
  let ?h = "push_heap (expiry_of q) a (tq_heap q)"
  have parts: "distinct (tq_heap q)" "is_heap (expiry_of q) (tq_heap q)" "int (dead_count q) \<le> tq_cancelled q" using inv by (simp_all add: tq_inv_def)
  have run: "tq_push a q = (add_ref a q)\<lparr>tq_heap := ?h\<rparr>" by (simp add: tq_push_def Let_def)
  have h: "set ?h = insert a (set (tq_heap q))" "distinct ?h" "is_heap (expiry_of q) ?h" "length ?h = Suc (length (tq_heap q))"
    using mh.push_set[OF parts(2)] mh.push_distinct[OF parts(2,1) assms(3)] mh.push[OF parts(2)] mh.filter_push[OF parts(2), of "\<lambda>_. True"] by simp_all
  have r: "refs_to w (tq_push a q) b = refs_to w q b + (if b = a then 1 else 0)" for b
    using assms(3) h(1) by (auto simp: run refs_to_def)
  have "0 < refs_to w q a" using assms(2) by (simp add: refs_to_def)
  moreover have "dead_count (tq_push a q) = dead_count q"
    using mh.filter_push[OF parts(2), of "\<lambda>a. \<not> tm_pending q a"] assms(4) by (simp add: run dead_count_def)
  ultimately have "tq_inv w called (tq_push a q)" using inv h unfolding tq_inv_def r by (auto simp: run)
  moreover have "tq_tidy q \<longrightarrow> tq_tidy (tq_push a q)"
    using mh.push_front[OF parts(2), of a] assms(4) h(4) by (auto simp: run tq_tidy_def)
  ultimately show ?thesis using h(1) by (simp add: run)
qed

text \<open>The front leaves the heap to be called.\<close>

lemma tq_pop_inv:
  assumes inv: "tq_inv w called q" and heap: "tq_heap q \<noteq> []" "tm_pending q (hd (tq_heap q))"
  defines "a \<equiv> hd (tq_heap q)"
  shows "tq_inv (w(a := w a + 1)) (insert a called) (tq_pop q) \<and> set (tq_heap (tq_pop q)) = set (tq_heap q) - {a}
    \<and> tm_pending (tq_pop q) = tm_pending q \<and> expiry_of (tq_pop q) = expiry_of q
    \<and> (\<forall>b. tm_slot (tq_mem (tq_pop q) b) = tm_slot (tq_mem q b) \<and> tm_interval (tq_mem (tq_pop q) b) = tm_interval (tq_mem q b))
    \<and> timer_queue.more (tq_pop q) = timer_queue.more q"
proof -
  have a: "a \<in> set (tq_heap q)" "tm_pending q a" using heap by (simp_all add: a_def)
  have parts: "distinct (tq_heap q)" "is_heap (expiry_of q) (tq_heap q)" using inv by (simp_all add: tq_inv_def)
  let ?h = "pop_heap (expiry_of q) (tq_heap q)"
  have h: "set ?h = set (tq_heap q) - {a}" "distinct ?h" "is_heap (expiry_of q) ?h"
    using mh.pop_set[OF parts(2,1) heap(1)] mh.pop[OF parts(2) heap(1)] by (simp_all add: a_def)
  have T: "0 < refs_to w q a" using a(1) by (simp add: refs_to_def)
  then have "2 \<le> refs_to w q a" using inv a(2) unfolding tq_inv_def by blast
  then have wa: "0 < w a" by (simp add: refs_to_def split: if_splits)
  have "tq_inv w (insert a called) q" by (rule called_inv[OF inv]) simp
  from add_ref_inv[OF this T] have i1: "tq_inv (w(a := w a + 1)) (insert a called) (add_ref a q)" .
  let ?q2 = "(add_ref a q)\<lparr>tq_heap := ?h\<rparr>"
  have "tq_inv (\<lambda>b. (w(a := w a + 1)) b + (if b \<in> {a} then 1 else 0)) (insert a called) ?q2"
    by (rule leave_heap_inv[OF i1]) (use h a in simp_all)
  moreover have "(\<lambda>b. (w(a := w a + 1)) b + (if b \<in> {a} then 1 else 0)) = w(a := w a + 2)" by auto
  ultimately have i2: "tq_inv (w(a := w a + 2)) (insert a called) ?q2" by simp
  have "refs_to (w(a := w a + 2)) ?q2 a \<noteq> 2" using wa h(1) by (simp add: refs_to_def)
  then have R: "tq_inv (w(a := w a + 1)) (insert a called) (release_ref a ?q2) \<and> clears ?q2 (release_ref a ?q2)"
    using release_ref_inv[OF i2, of a] by simp
  have "set (tq_heap (release_ref a ?q2)) = set ?h"
  proof -
    have "refs_to (w(a := w a + 2)) ?q2 a = w a + 2" using h(1) by (simp add: refs_to_def)
    then have "tm_refs (tq_mem ?q2 a) = int (w a + 2)" using refs_counted[OF i2, of a] by simp
    then show ?thesis using wa by (simp add: release_ref_def on_timer_at_def Let_def)
  qed
  moreover have "tq_pop q = release_ref a ?q2" by (simp add: tq_pop_def Let_def a_def)
  ultimately show ?thesis using R h(1) by (simp add: clears_def) (simp add: add_ref_def on_timer_at_def)
qed

lemma set_expiry_inv:
  assumes "tq_inv w called q" and "a \<notin> set (tq_heap q)"
  shows "tq_inv w called (on_timer_at a (\<lambda>t. t\<lparr>tm_expiry := x\<rparr>) q)"
proof -
  let ?q = "on_timer_at a (\<lambda>t. t\<lparr>tm_expiry := x\<rparr>) q"
  have p: "tm_pending ?q = tm_pending q" "tq_heap ?q = tq_heap q" "tq_free ?q = tq_free q" "tq_end ?q = tq_end q"
      "tq_cancelled ?q = tq_cancelled q" "\<And>b. tm_refs (tq_mem ?q b) = tm_refs (tq_mem q b)" "refs_to w ?q = refs_to w q"
    by (auto simp: on_timer_at_def tm_pending_def fun_eq_iff refs_to_def)
  have "is_heap (expiry_of ?q) (tq_heap q) = is_heap (expiry_of q) (tq_heap q)"
    using assms(2) by (intro mh.heap_cong) (auto simp: expiry_of_def on_timer_at_def)
  then show ?thesis using assms(1) unfolding tq_inv_def dead_count_def p by simp
qed

lemma on_interval_inv: "tq_inv w called q \<Longrightarrow> tq_inv w called (on_timer_at a (\<lambda>t. t\<lparr>tm_interval := i\<rparr>) q)"
proof -
  let ?q = "on_timer_at a (\<lambda>t. t\<lparr>tm_interval := i\<rparr>) q"
  have "tm_pending ?q = tm_pending q" "tq_heap ?q = tq_heap q" "tq_free ?q = tq_free q" "tq_end ?q = tq_end q" "expiry_of ?q = expiry_of q"
      "tq_cancelled ?q = tq_cancelled q" "\<And>b. tm_refs (tq_mem ?q b) = tm_refs (tq_mem q b)" "refs_to w ?q = refs_to w q"
    by (auto simp: on_timer_at_def tm_pending_def fun_eq_iff refs_to_def expiry_of_def)
  note p = this
  assume "tq_inv w called q"
  then show ?thesis unfolding tq_inv_def dead_count_def p .
qed

section \<open>Insertion\<close>

lemma free_list: "tq_inv w called q \<Longrightarrow> distinct (tq_free q) \<and> set (tq_free q) = {a. a < tq_end q \<and> refs_to w q a = 0}"
  by (simp add: tq_inv_def)

lemma tq_alloc_facts:
  assumes inv: "tq_inv w called q" and run: "tq_alloc expiry interval slot q = (a, q')"
  shows "a < tq_end q'" and "refs_to w q a = 0" and "distinct (tq_free q')"
    and "set (tq_free q') = {b. b < tq_end q' \<and> refs_to w q b = 0} - {a}"
    and "tq_heap q' = tq_heap q" and "tq_cancelled q' = tq_cancelled q" and "tq_end q \<le> tq_end q'" and "timer_queue.more q' = timer_queue.more q"
    and "tq_mem q' = (tq_mem q)(a := \<lparr>tm_refs = 1, tm_id = tq_max_id q + 1, tm_expiry = expiry, tm_interval = interval, tm_slot = Some slot\<rparr>)"
proof -
  note free = free_list[OF inv]
  have small: "b < tq_end q" if "0 < refs_to w q b" for b using inv that by (simp add: tq_inv_def)
  have zero: "refs_to w q b = 0" if "tq_end q \<le> b" for b using small[of b] that by (cases "refs_to w q b") auto
  have "a < tq_end q' \<and> refs_to w q a = 0 \<and> distinct (tq_free q') \<and> set (tq_free q') = {b. b < tq_end q' \<and> refs_to w q b = 0} - {a}
      \<and> tq_heap q' = tq_heap q \<and> tq_cancelled q' = tq_cancelled q \<and> tq_end q \<le> tq_end q' \<and> timer_queue.more q' = timer_queue.more q
      \<and> tq_mem q' = (tq_mem q)(a := \<lparr>tm_refs = 1, tm_id = tq_max_id q + 1, tm_expiry = expiry, tm_interval = interval, tm_slot = Some slot\<rparr>)"
  proof (cases "tq_free q")
    case Nil
    have a: "a = tq_end q" "q' = (on_timer_at a (\<lambda>_. \<lparr>tm_refs = 1, tm_id = tq_max_id q + 1, tm_expiry = expiry, tm_interval = interval, tm_slot = Some slot\<rparr>)
        (q\<lparr>tq_free := rev [tq_end q + 1..<tq_end q + slab_size], tq_end := tq_end q + slab_size\<rparr>))\<lparr>tq_max_id := tq_max_id q + 1\<rparr>"
      using run by (auto simp: tq_alloc_def Nil Let_def)
    have "refs_to w q b \<noteq> 0" if "b < tq_end q" for b using free that by (auto simp: Nil)
    then have "b \<in> {b. b < tq_end q + slab_size \<and> refs_to w q b = 0} - {tq_end q} \<longleftrightarrow> b \<in> {tq_end q + 1..<tq_end q + slab_size}" for b
      using zero[of b] by (cases "b < tq_end q") auto
    then have "{b. b < tq_end q + slab_size \<and> refs_to w q b = 0} - {tq_end q} = {tq_end q + 1..<tq_end q + slab_size}" by blast
    then show ?thesis using zero by (simp add: a on_timer_at_def slab_size_def)
  next
    case (Cons b bs)
    have "a = b" "q' = (on_timer_at b (\<lambda>_. \<lparr>tm_refs = 1, tm_id = tq_max_id q + 1, tm_expiry = expiry, tm_interval = interval, tm_slot = Some slot\<rparr>)
        (q\<lparr>tq_free := bs\<rparr>))\<lparr>tq_max_id := tq_max_id q + 1\<rparr>"
      using run by (auto simp: tq_alloc_def Cons Let_def)
    then show ?thesis using free by (auto simp: Cons on_timer_at_def)
  qed
  then show "a < tq_end q'" "refs_to w q a = 0" "distinct (tq_free q')" "set (tq_free q') = {b. b < tq_end q' \<and> refs_to w q b = 0} - {a}"
    "tq_heap q' = tq_heap q" "tq_cancelled q' = tq_cancelled q" "tq_end q \<le> tq_end q'" "timer_queue.more q' = timer_queue.more q"
    "tq_mem q' = (tq_mem q)(a := \<lparr>tm_refs = 1, tm_id = tq_max_id q + 1, tm_expiry = expiry, tm_interval = interval, tm_slot = Some slot\<rparr>)"
    by blast+
qed

lemma tq_insert_inv:
  assumes inv: "tq_inv w called q" and run: "tq_insert expiry interval slot q = (a, q')"
  shows "tq_inv (w(a := 1)) called q'" and "w a = 0" and "a \<notin> set (tq_heap q)"
    and "set (tq_heap q') = insert a (set (tq_heap q))" and "tm_pending q' = (tm_pending q)(a := True)"
    and "expiry_of q' = (expiry_of q)(a := expiry)" and "tq_tidy q \<Longrightarrow> tq_tidy q'" and "timer_queue.more q' = timer_queue.more q"
proof -
  obtain q1 where alloc: "tq_alloc expiry interval slot q = (a, q1)" and q': "q' = tq_push a q1"
    using run by (auto simp: tq_insert_def split: prod.splits)
  note A = tq_alloc_facts[OF inv alloc]
  have a: "a \<notin> set (tq_heap q)" "w a = 0" using A(2) by (auto simp: refs_to_def split: if_splits)
  have pend: "tm_pending q1 = (tm_pending q)(a := True)" "expiry_of q1 = (expiry_of q)(a := expiry)"
    by (auto simp: tm_pending_def expiry_of_def A(9) fun_eq_iff)
  have dist: "distinct (tq_heap q1)" using inv A(5) by (simp add: tq_inv_def)
  have "is_heap (expiry_of q1) (tq_heap q1) = is_heap (expiry_of q) (tq_heap q)"
    unfolding A(5) using a(1) by (intro mh.heap_cong) (auto simp: pend)
  then have heap: "is_heap (expiry_of q1) (tq_heap q1)" using inv by (simp add: tq_inv_def)
  let ?h = "push_heap (expiry_of q1) a (tq_heap q1)"
  have h: "set ?h = insert a (set (tq_heap q))" "distinct ?h" "is_heap (expiry_of q1) ?h" "length ?h = Suc (length (tq_heap q))"
    using mh.push_set[OF heap] mh.push_distinct[OF heap dist] mh.push[OF heap] mh.filter_push[OF heap, of "\<lambda>_. True"] a(1) by (simp_all add: A(5))
  have run: "q' = (add_ref a q1)\<lparr>tq_heap := ?h\<rparr>" by (simp add: q' tq_push_def Let_def)
  have "filter (\<lambda>b. \<not> tm_pending q1 b) (tq_heap q) = filter (\<lambda>b. \<not> tm_pending q b) (tq_heap q)"
    using a(1) by (intro filter_cong) (auto simp: pend)
  then have dead: "dead_count q' = dead_count q"
    using mh.filter_push[OF heap, of "\<lambda>b. \<not> tm_pending q1 b" a] by (simp add: run dead_count_def A(5)) (simp add: pend)
  have r: "refs_to (w(a := 1)) q' b = (if b = a then 2 else refs_to w q b)" for b
    using h(1) by (simp add: run refs_to_def)
  have fields: "tq_end q' = tq_end q1" "tq_free q' = tq_free q1" "tq_cancelled q' = tq_cancelled q" "tq_heap q' = ?h"
    "tm_pending q' = tm_pending q1" "expiry_of q' = expiry_of q1" by (simp_all add: run A(6))
  have mem: "tm_refs (tq_mem q' b) = (if b = a then 2 else tm_refs (tq_mem q b))" for b by (simp add: run A(9))
  show "tq_inv (w(a := 1)) called q'"
    unfolding tq_inv_def
  proof (intro conjI allI impI)
    show "set (tq_free q') = {b. b < tq_end q' \<and> refs_to (w(a := 1)) q' b = 0}" by (auto simp: fields A(4) r simp del: One_nat_def)
    show "int (dead_count q') \<le> tq_cancelled q'" using inv dead by (simp add: fields tq_inv_def)
    fix b assume b: "0 < refs_to (w(a := 1)) q' b"
    show "b < tq_end q'" using b A(1,7) refs_below[OF inv, of b] by (auto simp: fields r tq_inv_def simp del: One_nat_def split: if_splits)
    show "tm_refs (tq_mem q' b) = int (refs_to (w(a := 1)) q' b)"
      using b refs_counted[OF inv, of b] by (simp add: r mem del: One_nat_def split: if_splits)
    assume "tm_pending q' b"
    then have "b = a \<or> (2 \<le> refs_to w q b \<and> (b \<in> set (tq_heap q) \<or> b \<in> called))"
      using b inv by (auto simp: fields pend r tq_inv_def simp del: One_nat_def split: if_splits)
    then show "2 \<le> refs_to (w(a := 1)) q' b" "b \<in> set (tq_heap q') \<or> b \<in> called" using h(1) by (auto simp: r fields simp del: One_nat_def)
  qed (use h A(3) in \<open>simp_all add: fields\<close>)
  show "w a = 0" "a \<notin> set (tq_heap q)" by (simp_all add: a)
  show "set (tq_heap q') = insert a (set (tq_heap q))" using h(1) by (simp add: fields)
  show "tm_pending q' = (tm_pending q)(a := True)" "expiry_of q' = (expiry_of q)(a := expiry)" by (simp_all add: fields pend)
  show "timer_queue.more q' = timer_queue.more q" using A(8) by (simp add: run add_ref_def on_timer_at_def)
  show "tq_tidy q'" if "tq_tidy q"
    using that mh.push_front[OF heap, of a] h(4) by (auto simp: tq_tidy_def fields pend A(5))
qed

section \<open>The environment\<close>

definition outside :: "timer_env \<Rightarrow> nat \<Rightarrow> nat" where
  "outside e a = count_list (te_held e) a + count_list (te_local e) a"

definition timer_inv :: "timer_env \<Rightarrow> bool" where
  "timer_inv e \<longleftrightarrow> tq_inv (outside e) (set (te_local e)) e \<and> distinct (te_local e) \<and> set (te_local e) \<inter> set (tq_heap e) = {}"

lemma env_update [simp]:
  "tm_pending (e\<lparr>te_held := h\<rparr>) = tm_pending e" "tm_pending (e\<lparr>te_local := l\<rparr>) = tm_pending e"
  "tm_pending (e\<lparr>te_notes := ns\<rparr>) = tm_pending e"
  "expiry_of (e\<lparr>te_held := h\<rparr>) = expiry_of e" "expiry_of (e\<lparr>te_local := l\<rparr>) = expiry_of e"
  "expiry_of (e\<lparr>te_notes := ns\<rparr>) = expiry_of e"
  by (auto simp: tm_pending_def expiry_of_def fun_eq_iff)

lemma tq_inv_env [simp]:
  "tq_inv w called (e\<lparr>te_held := h\<rparr>) = tq_inv w called e" "tq_inv w called (e\<lparr>te_local := l\<rparr>) = tq_inv w called e"
  "tq_inv w called (e\<lparr>te_notes := ns\<rparr>) = tq_inv w called e" "tq_tidy (e\<lparr>te_notes := ns\<rparr>) = tq_tidy e"
  "tq_tidy (e\<lparr>te_held := h\<rparr>) = tq_tidy e" "tq_tidy (e\<lparr>te_local := l\<rparr>) = tq_tidy e"
  "refs_to w (e\<lparr>te_held := h\<rparr>) = refs_to w e" "refs_to w (e\<lparr>te_local := l\<rparr>) = refs_to w e"
  by (auto simp: tq_inv_def dead_count_def refs_to_def tq_tidy_def fun_eq_iff)

lemma same_more: "timer_queue.more e' = timer_queue.more e \<Longrightarrow> te_held e' = te_held e \<and> te_local e' = te_local e \<and> te_notes e' = te_notes e"
  for e e' :: timer_env
  by (cases e, cases e') simp

lemma count_list_pos: "0 < count_list xs a \<longleftrightarrow> a \<in> set xs"
  by (metis count_list_0_iff neq0_conv)

lemma outside_pos: "a \<in> set (te_held e) \<union> set (te_local e) \<Longrightarrow> 0 < outside e a"
  by (auto simp: outside_def count_list_pos)

lemma refs_pos: "0 < w a \<Longrightarrow> 0 < refs_to w q a"
  by (simp add: refs_to_def)

lemma count_remove1: "a \<in> set xs \<Longrightarrow> count_list (remove1 a xs) b = count_list xs b - (if b = a then 1 else 0)"
  by (induction xs) (auto simp: count_list_0_iff Suc_diff_Suc neq0_conv[symmetric] simp del: neq0_conv)

text \<open>The timers of the heap that are due.\<close>

definition due_set :: "int \<Rightarrow> 'a timer_queue_scheme \<Rightarrow> nat set" where
  "due_set now q = {a \<in> set (tq_heap q). expiry_of q a \<le> now}"

lemma clears_due: "clears q q' \<Longrightarrow> due_set now q' \<subseteq> due_set now q"
  by (auto simp: clears_def due_set_def)

lemma reset_due [simp]: "due_set now (reset_slot a q) = due_set now q"
  by (simp add: due_set_def)

lemma reset_more [simp]: "timer_queue.more (reset_slot a q) = timer_queue.more q"
  by (simp add: reset_slot_def on_timer_at_def)

lemma clears_env: "clears e e' \<Longrightarrow> te_held e' = te_held e \<and> te_local e' = te_local e \<and> te_notes e' = te_notes e" for e e' :: timer_env
  by (intro same_more) (simp add: clears_def)

lemma notes_inv [simp]: "timer_inv (e\<lparr>te_notes := ns\<rparr>) = timer_inv e"
proof -
  have "outside (e\<lparr>te_notes := ns\<rparr>) = outside e" by (simp add: outside_def fun_eq_iff)
  then show ?thesis by (simp add: timer_inv_def)
qed

lemma timer_act_inv:
  assumes "timer_act ok e e'" and "timer_inv e"
  shows "timer_inv e' \<and> te_local e' = te_local e \<and> (tq_tidy e \<longrightarrow> tq_tidy e') \<and> ((\<forall>x. ok x \<longrightarrow> now < x) \<longrightarrow> due_set now e' \<subseteq> due_set now e)"
  using assms
proof (induction rule: timer_act.induct)
  case (act_insert expiry interval slot e a e')
  note I = tq_insert_inv[OF act_insert(3)[unfolded timer_inv_def, THEN conjunct1] act_insert(2)]
  have env: "te_held e' = te_held e" "te_local e' = te_local e" using same_more[OF I(8)] by simp_all
  have "outside (e'\<lparr>te_held := a # te_held e'\<rparr>) = (outside e)(a := 1)" using I(2) by (auto simp: outside_def env fun_eq_iff)
  moreover have "a \<notin> set (te_local e)" using I(2) by (auto simp: outside_def simp flip: count_list_pos)
  ultimately show ?case using I(1,4,6,7) act_insert(1,3) by (auto simp: timer_inv_def env due_set_def)
next
  case (act_cancel a e)
  note C = cancel_timer_inv[OF act_cancel(2)[unfolded timer_inv_def, THEN conjunct1], of a]
  have "te_held (cancel_timer a e) = te_held e" "te_local (cancel_timer a e) = te_local e"
    using clears_env[OF conjunct1[OF conjunct2[OF C]]] same_more[of "reset_slot a e" e] by simp_all
  moreover from this have "outside (cancel_timer a e) = outside e" by (simp add: outside_def fun_eq_iff)
  moreover have "set (tq_heap (cancel_timer a e)) \<subseteq> set (tq_heap e)" using C by (auto simp: clears_def)
  ultimately show ?case using C clears_due[OF conjunct1[OF conjunct2[OF C]]] act_cancel(2) by (auto simp: timer_inv_def)
next
  case (act_copy a e)
  let ?e = "(add_ref a e)\<lparr>te_held := a # te_held e\<rparr>"
  have l: "te_local (add_ref a e) = te_local e" by (simp add: add_ref_def on_timer_at_def)
  have "outside ?e = (outside e)(a := outside e a + 1)" by (auto simp: outside_def l fun_eq_iff)
  then show ?case using act_copy(2) add_ref_inv[OF act_copy(2)[unfolded timer_inv_def, THEN conjunct1] refs_pos[of "outside e" a e, OF outside_pos[OF act_copy(1)]]]
    by (auto simp: timer_inv_def l due_set_def tq_tidy_def)
next
  case (act_release a e)
  let ?e = "e\<lparr>te_held := remove1 a (te_held e)\<rparr>"
  have pos: "0 < outside e a" using outside_pos act_release(1) by blast
  have "tq_inv (outside e) (set (te_local e)) ?e" using act_release(2) by (simp add: timer_inv_def)
  note R = release_ref_inv[OF this pos]
  have env: "te_held (release_ref a ?e) = remove1 a (te_held e)" "te_local (release_ref a ?e) = te_local e"
    using clears_env[OF conjunct1[OF conjunct2[OF R]]] same_more[of "reset_slot a ?e" ?e] by (simp_all split: if_splits)
  have "outside (release_ref a ?e) = (outside e)(a := outside e a - 1)"
    using act_release(1) count_list_pos[of "te_held e" a] by (auto simp: outside_def env count_remove1 fun_eq_iff)
  moreover have "due_set now ?e = due_set now e" by (simp add: due_set_def)
  moreover have "set (tq_heap (release_ref a ?e)) \<subseteq> set (tq_heap e)" using R by (auto simp: clears_def split: if_splits)
  ultimately show ?case using act_release(2) R clears_due[OF conjunct1[OF conjunct2[OF R]], of now] by (auto simp: timer_inv_def env split: if_splits)
next
  case (act_interval a e i)
  let ?e = "on_timer_at a (\<lambda>t. t\<lparr>tm_interval := i\<rparr>) e"
  have "tq_heap ?e = tq_heap e" "tm_pending ?e = tm_pending e" "expiry_of ?e = expiry_of e" "tq_cancelled ?e = tq_cancelled e"
      "te_held ?e = te_held e" "te_local ?e = te_local e"
    by (auto simp: on_timer_at_def tm_pending_def expiry_of_def fun_eq_iff)
  moreover from this have "outside ?e = outside e" by (simp add: outside_def fun_eq_iff)
  ultimately show ?case using on_interval_inv[OF act_interval(2)[unfolded timer_inv_def, THEN conjunct1]] act_interval(2) by (simp add: timer_inv_def tq_tidy_def due_set_def)
next
  case (act_note e ns)
  then show ?case by (simp add: due_set_def)
qed

lemma timer_acts_inv:
  assumes "(timer_act ok)\<^sup>*\<^sup>* e e'" and "timer_inv e"
  shows "timer_inv e' \<and> te_local e' = te_local e \<and> (tq_tidy e \<longrightarrow> tq_tidy e') \<and> ((\<forall>x. ok x \<longrightarrow> now < x) \<longrightarrow> due_set now e' \<subseteq> due_set now e)"
  using assms
proof (induction rule: rtranclp_induct)
  case (step e1 e2)
  then show ?case using timer_act_inv[of ok e1 e2 now] by auto
qed simp

section \<open>Dispatching\<close>

text \<open>What becomes of the timer that was called: it joins the heap again, or loses its slot.\<close>

definition rearm :: "int \<Rightarrow> nat \<Rightarrow> timer_env \<Rightarrow> timer_env" where
  "rearm now a e =
     (if tm_pending e a
      then if tm_interval (tq_mem e a) > 0
           then tq_push a (on_timer_at a (\<lambda>t. t\<lparr>tm_expiry := max (tm_expiry t + tm_interval t) (now + 1)\<rparr>) e)
           else reset_slot a e
      else e)"

lemma tq_expire_alt:
  "tq_expire user now e =
     (let a = hd (tq_heap e);
          e = tq_pop (e\<lparr>te_local := a # te_local e\<rparr>);
          e = rearm now a (case tm_slot (tq_mem e a) of Some s \<Rightarrow> user s a now e | None \<Rightarrow> e)
      in release_ref a (e\<lparr>te_local := remove1 a (te_local e)\<rparr>))"
  by (simp add: tq_expire_def rearm_def Let_def)

lemma pop_env:
  assumes inv: "timer_inv e" and heap: "tq_heap e \<noteq> []" "tm_pending e (hd (tq_heap e))"
  defines "a \<equiv> hd (tq_heap e)"
  defines "e1 \<equiv> tq_pop (e\<lparr>te_local := a # te_local e\<rparr>)"
  shows "timer_inv e1" and "te_held e1 = te_held e" and "te_local e1 = a # te_local e" and "set (tq_heap e1) = set (tq_heap e) - {a}"
    and "tm_pending e1 = tm_pending e" and "expiry_of e1 = expiry_of e"
    and "tm_slot (tq_mem e1 b) = tm_slot (tq_mem e b)" and "tm_interval (tq_mem e1 b) = tm_interval (tq_mem e b)"
    and "te_notes e1 = te_notes e"
proof -
  let ?e = "e\<lparr>te_local := a # te_local e\<rparr>"
  have i: "tq_inv (outside e) (set (te_local e)) ?e" using inv by (simp add: timer_inv_def)
  have P: "tq_inv ((outside e)(a := outside e a + 1)) (insert a (set (te_local e))) e1 \<and> set (tq_heap e1) = set (tq_heap e) - {a}
      \<and> tm_pending e1 = tm_pending e \<and> expiry_of e1 = expiry_of e
      \<and> (\<forall>b. tm_slot (tq_mem e1 b) = tm_slot (tq_mem e b) \<and> tm_interval (tq_mem e1 b) = tm_interval (tq_mem e b))
      \<and> timer_queue.more e1 = timer_queue.more ?e"
    using tq_pop_inv[OF i] heap by (simp add: e1_def a_def)
  then show env: "te_held e1 = te_held e" "te_local e1 = a # te_local e" "te_notes e1 = te_notes e" using same_more[of e1 ?e] by simp_all
  have "outside e1 = (outside e)(a := outside e a + 1)" by (auto simp: outside_def env fun_eq_iff)
  then show "timer_inv e1" using P inv heap(1) by (auto simp: timer_inv_def env a_def)
  show "set (tq_heap e1) = set (tq_heap e) - {a}" "tm_pending e1 = tm_pending e" "expiry_of e1 = expiry_of e"
    "tm_slot (tq_mem e1 b) = tm_slot (tq_mem e b)" "tm_interval (tq_mem e1 b) = tm_interval (tq_mem e b)"
    using P by simp_all
qed

lemma rearm_inv:
  assumes inv: "tq_inv w called e" and "0 < w a" and "a \<notin> set (tq_heap e)"
  shows "tq_inv w called (rearm now a e)" and "te_held (rearm now a e) = te_held e" and "te_local (rearm now a e) = te_local e"
    and "tm_pending (rearm now a e) a \<Longrightarrow> a \<in> set (tq_heap (rearm now a e))"
    and "set (tq_heap (rearm now a e)) - {a} = set (tq_heap e)"
    and "tm_pending (rearm now a e) = (tm_pending e)(a := tm_pending e a \<and> tm_interval (tq_mem e a) > 0)"
    and "expiry_of (rearm now a e) = (if tm_pending e a \<and> tm_interval (tq_mem e a) > 0
       then (expiry_of e)(a := max (expiry_of e a + tm_interval (tq_mem e a)) (now + 1)) else expiry_of e)"
proof -
  have "tq_inv w called (rearm now a e) \<and> te_held (rearm now a e) = te_held e \<and> te_local (rearm now a e) = te_local e
    \<and> (tm_pending (rearm now a e) a \<longrightarrow> a \<in> set (tq_heap (rearm now a e)))
    \<and> set (tq_heap (rearm now a e)) - {a} = set (tq_heap e)
    \<and> tm_pending (rearm now a e) = (tm_pending e)(a := tm_pending e a \<and> tm_interval (tq_mem e a) > 0)
    \<and> expiry_of (rearm now a e) = (if tm_pending e a \<and> tm_interval (tq_mem e a) > 0
       then (expiry_of e)(a := max (expiry_of e a + tm_interval (tq_mem e a)) (now + 1)) else expiry_of e)"
  proof (cases "tm_pending e a \<and> tm_interval (tq_mem e a) > 0")
    case True
    let ?x = "max (tm_expiry (tq_mem e a) + tm_interval (tq_mem e a)) (now + 1)"
    let ?e = "on_timer_at a (\<lambda>t. t\<lparr>tm_expiry := ?x\<rparr>) e"
    have same: "on_timer_at a (\<lambda>t. t\<lparr>tm_expiry := max (tm_expiry t + tm_interval t) (now + 1)\<rparr>) e = ?e" by (simp add: on_timer_at_def)
    have run: "rearm now a e = tq_push a ?e" unfolding rearm_def same using True by simp
    have f: "tq_heap ?e = tq_heap e" "tm_pending ?e = tm_pending e" "expiry_of ?e = (expiry_of e)(a := ?x)" "te_held ?e = te_held e" "te_local ?e = te_local e"
      by (auto simp: on_timer_at_def tm_pending_def expiry_of_def fun_eq_iff)
    note P = tq_push_inv[OF set_expiry_inv[OF inv assms(3), of ?x] assms(2), unfolded f, OF assms(3) conjunct1[OF True]]
    have "te_held (tq_push a ?e) = te_held e" "te_local (tq_push a ?e) = te_local e"
      using f(4,5) by (simp_all add: tq_push_def add_ref_def Let_def) (simp_all add: on_timer_at_def)
    then show ?thesis using P True assms(3) by (auto simp: run expiry_of_def fun_eq_iff)
  next
    case False
    show ?thesis
    proof (cases "tm_pending e a")
      case True
      then have run: "rearm now a e = reset_slot a e" using False by (simp add: rearm_def)
      have "dead_count (reset_slot a e) = dead_count e"
        unfolding dead_count_def by (intro arg_cong[of _ _ length] filter_cong) (use assms(3) in auto)
      then have "tq_inv w called (reset_slot a e)" using inv by (auto simp: tq_inv_def refs_to_def)
      moreover have "te_held (reset_slot a e) = te_held e" "te_local (reset_slot a e) = te_local e" by (simp_all add: reset_slot_def on_timer_at_def)
      ultimately show ?thesis using False assms(3) True by (auto simp: run fun_eq_iff)
    next
      case nopend: False
      then have run: "rearm now a e = e" by (simp add: rearm_def)
      show ?thesis using nopend inv assms(3) by (auto simp: run fun_eq_iff)
    qed
  qed
  then show "tq_inv w called (rearm now a e)" "te_held (rearm now a e) = te_held e" "te_local (rearm now a e) = te_local e"
    "tm_pending (rearm now a e) a \<Longrightarrow> a \<in> set (tq_heap (rearm now a e))"
    "set (tq_heap (rearm now a e)) - {a} = set (tq_heap e)"
    "tm_pending (rearm now a e) = (tm_pending e)(a := tm_pending e a \<and> tm_interval (tq_mem e a) > 0)"
    "expiry_of (rearm now a e) = (if tm_pending e a \<and> tm_interval (tq_mem e a) > 0
       then (expiry_of e)(a := max (expiry_of e a + tm_interval (tq_mem e a)) (now + 1)) else expiry_of e)" by blast+
qed

lemma rearm_frame: "te_notes (rearm now a e) = te_notes e"
  "b \<noteq> a \<Longrightarrow> tm_slot (tq_mem (rearm now a e) b) = tm_slot (tq_mem e b)"
  by (simp_all add: rearm_def tq_push_def Let_def add_ref_def reset_slot_def on_timer_at_def)

lemma end_call:
  assumes inv: "timer_inv e" and loc: "te_local e = a # l"
    and e'_def: "e' = release_ref a ((rearm now a e)\<lparr>te_local := l\<rparr>)"
  shows "timer_inv e'" and "te_held e' = te_held e" and "te_local e' = l"
    and "due_set now e' \<subseteq> due_set now e"
    and "tm_pending e a \<Longrightarrow> clears ((rearm now a e)\<lparr>te_local := l\<rparr>) e'"
proof -
  have a: "0 < outside e a" "a \<notin> set (tq_heap e)" "a \<notin> set l" using inv by (auto simp: outside_def loc timer_inv_def)
  have i: "tq_inv (outside e) (set (te_local e)) e" using inv by (simp add: timer_inv_def)
  note M = rearm_inv[OF i a(1,2), of now]
  let ?r = "(rearm now a e)\<lparr>te_local := l\<rparr>"
  have "tq_inv (outside e) (set l) ?r"
    unfolding tq_inv_env by (rule called_inv[OF M(1)]) (use M(4) in \<open>auto simp: loc\<close>)
  note R = release_ref_inv[OF this a(1), folded e'_def]
  show env: "te_held e' = te_held e" "te_local e' = l"
    using clears_env[OF conjunct1[OF conjunct2[OF R]]] same_more[of "reset_slot a ?r" ?r] M(2) by (simp_all split: if_splits)
  have "outside e' = (outside e)(a := outside e a - 1)" using a(3) by (auto simp: outside_def env loc fun_eq_iff)
  moreover have heap: "set (tq_heap e') \<subseteq> insert a (set (tq_heap e))"
    using R M(5) by (auto simp: clears_def split: if_splits)
  ultimately show "timer_inv e'" using R inv a(3) by (auto simp: timer_inv_def env loc)
  have "due_set now (rearm now a e) \<subseteq> due_set now e"
  proof (cases "tm_pending (rearm now a e) a")
    case True
    then have "expiry_of (rearm now a e) = (expiry_of e)(a := max (expiry_of e a + tm_interval (tq_mem e a)) (now + 1))" using M(6,7) by simp
    note ex = this
    have "x \<in> due_set now e" if "x \<in> due_set now (rearm now a e)" for x
    proof -
      have "x \<noteq> a" using that by (auto simp: due_set_def ex)
      then show ?thesis using that M(5) by (auto simp: due_set_def ex)
    qed
    then show ?thesis by blast
  next
    case False
    then have "a \<notin> set (tq_heap (rearm now a e))"
      using a(2) M(6) by (auto simp: rearm_def split: if_splits)
    then show ?thesis using M(5-7) False by (auto simp: due_set_def split: if_splits)
  qed
  moreover have "due_set now e' \<subseteq> due_set now ?r" using clears_due[OF conjunct1[OF conjunct2[OF R]], of now] by (simp split: if_splits)
  moreover have "due_set now ?r = due_set now (rearm now a e)" by (simp add: due_set_def)
  ultimately show "due_set now e' \<subseteq> due_set now e" by simp
  show "clears ((rearm now a e)\<lparr>te_local := l\<rparr>) e'" if pend: "tm_pending e a"
  proof -
    have two: "2 \<le> refs_to (outside e) e a" using i a(1) pend by (auto simp: tq_inv_def refs_to_def)
    show "clears ?r e'"
    proof (cases "tm_pending (rearm now a e) a")
      case True
      then have "refs_to (outside e) ?r a \<noteq> 2" using two a(2) M(4) by (simp add: refs_to_def)
      then show ?thesis using R by simp
    next
      case False
      then have "reset_slot a ?r = ?r" by (intro reset_slot_id) simp
      then show ?thesis using R by (auto split: if_splits)
    qed
  qed
qed

lemma tq_expire_inv:
  assumes inv: "timer_inv e" and heap: "tq_heap e \<noteq> []" "tm_pending e (hd (tq_heap e))" and user: "acts_only ok user"
  shows "timer_inv (tq_expire user now e) \<and> te_local (tq_expire user now e) = te_local e
    \<and> ((\<forall>x. ok now x \<longrightarrow> now < x) \<longrightarrow> due_set now (tq_expire user now e) \<subseteq> due_set now e - {hd (tq_heap e)})"
proof -
  define a where "a = hd (tq_heap e)"
  define e1 where "e1 = tq_pop (e\<lparr>te_local := a # te_local e\<rparr>)"
  note P = pop_env[OF inv heap, folded a_def, folded e1_def]
  define e2 where "e2 = (case tm_slot (tq_mem e1 a) of Some s \<Rightarrow> user s a now e1 | None \<Rightarrow> e1)"
  have "(timer_act (ok now))\<^sup>*\<^sup>* e1 e2" using user by (auto simp: e2_def acts_only_def split: option.split)
  note U = timer_acts_inv[OF this P(1), of now]
  have loc: "te_local e2 = a # te_local e" using U P(3) by simp
  have run: "tq_expire user now e = release_ref a ((rearm now a e2)\<lparr>te_local := te_local e\<rparr>)"
  proof -
    have "tq_inv (outside e2) (set (te_local e2)) e2" "0 < outside e2 a" "a \<notin> set (tq_heap e2)"
      using conjunct1[OF U] loc by (auto simp: timer_inv_def outside_def)
    from rearm_inv(3)[OF this, of now] have "te_local (rearm now a e2) = a # te_local e" using loc by simp
    then show ?thesis unfolding tq_expire_alt Let_def a_def[symmetric] e1_def[symmetric] e2_def[symmetric] by simp
  qed
  note E = end_call[OF conjunct1[OF U] loc run]
  have "due_set now e1 \<subseteq> due_set now e - {a}" using P(4,6) by (auto simp: due_set_def)
  then show ?thesis using E(1,3,4) U by (auto simp: a_def)
qed

lemma pop_dead_env:
  assumes inv: "timer_inv e" and heap: "tq_heap e \<noteq> []" "\<not> tm_pending e (hd (tq_heap e))"
  shows "timer_inv (pop_dead e)" and "clears e (pop_dead e)"
proof -
  note P = pop_dead_inv[OF inv[unfolded timer_inv_def, THEN conjunct1] heap]
  have "te_held (pop_dead e) = te_held e" "te_local (pop_dead e) = te_local e" using clears_env[OF conjunct2[OF P]] by simp_all
  moreover from this have "outside (pop_dead e) = outside e" by (simp add: outside_def fun_eq_iff)
  moreover have "set (tq_heap (pop_dead e)) \<subseteq> set (tq_heap e)" using P by (auto simp: clears_def)
  ultimately show "timer_inv (pop_dead e)" "clears e (pop_dead e)" using P inv by (auto simp: timer_inv_def)
qed

lemma tq_gc_env:
  assumes inv: "timer_inv e"
  shows "timer_inv (tq_gc e)" and "clears e (tq_gc e)"
    and "tq_heap e = [] \<or> tm_pending e (hd (tq_heap e)) \<Longrightarrow> tq_tidy (tq_gc e)"
proof -
  note P = tq_gc_inv[OF inv[unfolded timer_inv_def, THEN conjunct1]]
  have c: "clears e (tq_gc e)" using P by simp
  have "te_held (tq_gc e) = te_held e" "te_local (tq_gc e) = te_local e" using clears_env[OF c] by simp_all
  moreover from this have "outside (tq_gc e) = outside e" by (simp add: outside_def fun_eq_iff)
  moreover have "set (tq_heap (tq_gc e)) \<subseteq> set (tq_heap e)" using c by (auto simp: clears_def)
  ultimately show "timer_inv (tq_gc e)" "clears e (tq_gc e)" using P inv by (auto simp: timer_inv_def)
  show "tq_tidy (tq_gc e)" if "tq_heap e = [] \<or> tm_pending e (hd (tq_heap e))" using P that by (simp add: tq_tidy_def)
qed

text \<open>Every result of the loop keeps the invariant, and its front is pending and not due.\<close>

definition loop_post :: "int \<Rightarrow> timer_env \<Rightarrow> timer_env \<Rightarrow> bool" where
  "loop_post now e e' \<longleftrightarrow> timer_inv e' \<and> te_local e' = te_local e
     \<and> (tq_heap e' = [] \<or> tm_pending e' (hd (tq_heap e')) \<and> now < expiry_of e' (hd (tq_heap e')))"

lemma dispatch_loop_inv:
  assumes "dispatch_loop user now e n = Some r" and "acts_only ok user" and "timer_inv e"
  shows "loop_post now e (snd r)"
  using assms
proof (induction rule: dispatch_loop.raw_induct[rotated 1, consumes 1, case_names step])
  case (step loop user now e n r)
  consider (empty) "tq_heap e = []" | (dead) "tq_heap e \<noteq> []" "\<not> tm_pending e (hd (tq_heap e))"
    | (due) "tq_heap e \<noteq> []" "tm_pending e (hd (tq_heap e))" "expiry_of e (hd (tq_heap e)) \<le> now"
    | (done_) "tq_heap e \<noteq> []" "tm_pending e (hd (tq_heap e))" "now < expiry_of e (hd (tq_heap e))" by linarith
  then show ?case
  proof cases
    case empty
    then show ?thesis using step.hyps step.prems by (auto simp: loop_post_def)
  next
    case dead
    then have "loop user now (pop_dead e) n = Some r" using step.hyps by simp
    from step.IH[OF this step.prems(1) pop_dead_env(1)[OF step.prems(2) dead]]
    show ?thesis using clears_env[OF pop_dead_env(2)[OF step.prems(2) dead]] by (simp add: loop_post_def)
  next
    case due
    then have "loop user now (tq_expire user now e) (n + 1) = Some r" using step.hyps by simp
    from step.IH[OF this step.prems(1)] tq_expire_inv[OF step.prems(2) due(1,2) step.prems(1), of now]
    show ?thesis by (simp add: loop_post_def)
  next
    case done_
    then show ?thesis using step.hyps step.prems by (auto simp: loop_post_def)
  qed
qed

text \<open>The loop ends when callbacks only insert timers that are not due yet.\<close>

lemma dispatch_loop_ends:
  assumes "acts_only (\<lambda>now x. now < x) user" and "timer_inv e"
  shows "\<exists>r. dispatch_loop user now e n = Some r"
  using assms(2)
proof (induction e arbitrary: n rule: wf_induct_rule[OF wf_measures[of "[\<lambda>e. card (due_set now e), \<lambda>e. length (tq_heap e)]"]])
  case (1 e)
  have fin: "finite (due_set now e)" by (simp add: due_set_def)
  consider (empty) "tq_heap e = []" | (dead) "tq_heap e \<noteq> []" "\<not> tm_pending e (hd (tq_heap e))"
    | (due) "tq_heap e \<noteq> []" "tm_pending e (hd (tq_heap e))" "expiry_of e (hd (tq_heap e)) \<le> now"
    | (done_) "tq_heap e \<noteq> []" "tm_pending e (hd (tq_heap e))" "now < expiry_of e (hd (tq_heap e))" by linarith
  then show ?case
  proof cases
    case dead
    note D = pop_dead_env[OF 1(2) dead]
    have "card (due_set now (pop_dead e)) < card (due_set now e) \<or> card (due_set now (pop_dead e)) = card (due_set now e)"
      using card_mono[OF fin clears_due[OF D(2)]] by linarith
    moreover have "length (tq_heap (pop_dead e)) < length (tq_heap e)" using dead by (simp add: pop_dead_heap length_pop_heap)
    ultimately show ?thesis using 1(1)[of "pop_dead e" n] D(1) dead by (subst dispatch_loop.simps) auto
  next
    case due
    note E = tq_expire_inv[OF 1(2) due(1,2) assms(1), of now]
    have "hd (tq_heap e) \<in> due_set now e" using due by (simp add: due_set_def)
    moreover have "due_set now (tq_expire user now e) \<subseteq> due_set now e - {hd (tq_heap e)}" using E by simp
    ultimately have "due_set now (tq_expire user now e) \<subset> due_set now e" by blast
    then have "card (due_set now (tq_expire user now e)) < card (due_set now e)" using psubset_card_mono[OF fin] by blast
    then show ?thesis using 1(1)[of "tq_expire user now e" "n + 1"] E due by (subst dispatch_loop.simps) auto
  qed (subst dispatch_loop.simps, simp)+
qed

text \<open>Callbacks that leave the queue alone: those that do nothing, and those that write down that they were called.\<close>

definition silent :: timer_user where
  "silent s a now e = e"

lemma silent_acts: "acts_only ok silent"
  by (simp add: acts_only_def silent_def)

definition noting :: timer_user where
  "noting s a now e = e\<lparr>te_notes := te_notes e @ [(s, a, now)]\<rparr>"

lemma noting_acts: "acts_only ok noting"
  unfolding acts_only_def noting_def by (blast intro: act_note)

definition fires :: "int \<Rightarrow> 'a timer_queue_scheme \<Rightarrow> nat set" where
  "fires now q = {a \<in> set (tq_heap q). tm_pending q a \<and> expiry_of q a \<le> now}"

definition periodic :: "'a timer_queue_scheme \<Rightarrow> nat \<Rightarrow> bool" where
  "periodic q a \<longleftrightarrow> tm_interval (tq_mem q a) > 0"

definition next_expiry :: "int \<Rightarrow> 'a timer_queue_scheme \<Rightarrow> nat \<Rightarrow> int" where
  "next_expiry now q a = max (expiry_of q a + tm_interval (tq_mem q a)) (now + 1)"

definition slot_of :: "'a timer_queue_scheme \<Rightarrow> nat \<Rightarrow> nat" where
  "slot_of q a = the (tm_slot (tq_mem q a))"

lemma rearm_interval: "tm_interval (tq_mem (rearm now a e) b) = tm_interval (tq_mem e b)"
  by (simp add: rearm_def tq_push_def Let_def add_ref_def reset_slot_def on_timer_at_def)

lemma noting_expire:
  assumes inv: "timer_inv e" and heap: "tq_heap e \<noteq> []" "tm_pending e (hd (tq_heap e))"
  defines "a \<equiv> hd (tq_heap e)"
  shows "tm_pending (tq_expire noting now e) = (tm_pending e)(a := periodic e a)"
    and "expiry_of (tq_expire noting now e) = (if periodic e a then (expiry_of e)(a := next_expiry now e a) else expiry_of e)"
    and "tm_interval (tq_mem (tq_expire noting now e) b) = tm_interval (tq_mem e b)"
    and "te_held (tq_expire noting now e) = te_held e"
    and "fires now (tq_expire noting now e) = fires now e - {a}"
    and "te_notes (tq_expire noting now e) = te_notes e @ [(slot_of e a, a, now)]"
    and "b \<noteq> a \<Longrightarrow> slot_of (tq_expire noting now e) b = slot_of e b"
proof -
  define e0 where "e0 = tq_pop (e\<lparr>te_local := a # te_local e\<rparr>)"
  note P0 = pop_env[OF inv heap, folded a_def, folded e0_def]
  define e1 where "e1 = e0\<lparr>te_notes := te_notes e @ [(slot_of e a, a, now)]\<rparr>"
  have P: "timer_inv e1" "te_held e1 = te_held e" "te_local e1 = a # te_local e" "set (tq_heap e1) = set (tq_heap e) - {a}"
    "tm_pending e1 = tm_pending e" "expiry_of e1 = expiry_of e" "te_notes e1 = te_notes e @ [(slot_of e a, a, now)]"
    using P0 by (simp_all add: e1_def)
  have mem: "tm_interval (tq_mem e1 b) = tm_interval (tq_mem e b)" "tm_slot (tq_mem e1 b) = tm_slot (tq_mem e b)" for b
    using P0(7,8)[of b] by (simp_all add: e1_def)
  have i: "tq_inv (outside e1) (set (te_local e1)) e1" "0 < outside e1 a" "a \<notin> set (tq_heap e1)"
    using P(1,3) by (auto simp: timer_inv_def outside_def)
  note M = rearm_inv[OF i, of now]
  have "tm_slot (tq_mem e0 a) = Some (slot_of e a)" using P0(7)[of a] heap(2) by (auto simp: slot_of_def a_def tm_pending_def)
  then have "(case tm_slot (tq_mem e0 a) of None \<Rightarrow> e0 | Some s \<Rightarrow> noting s a now e0) = e1" using P0(9) by (simp add: noting_def e1_def)
  then have run: "tq_expire noting now e = release_ref a ((rearm now a e1)\<lparr>te_local := te_local e\<rparr>)"
    unfolding tq_expire_alt Let_def a_def[symmetric] e0_def[symmetric] using M(3) P(3) by simp
  have pend: "tm_pending e1 a" using heap(2) by (simp add: P(5) a_def)
  note E = end_call[OF P(1,3) run]
  note C = E(5)[OF pend, unfolded clears_def]
  show pd: "tm_pending (tq_expire noting now e) = (tm_pending e)(a := periodic e a)"
    using C M(6) pend P(5) mem by (simp add: periodic_def)
  show ex: "expiry_of (tq_expire noting now e) = (if periodic e a then (expiry_of e)(a := next_expiry now e a) else expiry_of e)"
    using C M(7) pend P(5,6) mem by (simp add: periodic_def next_expiry_def)
  show "tm_interval (tq_mem (tq_expire noting now e) b) = tm_interval (tq_mem e b)"
    using C mem by (simp add: rearm_interval)
  show "te_held (tq_expire noting now e) = te_held e" using E(2) P(2) by simp
  show "te_notes (tq_expire noting now e) = te_notes e @ [(slot_of e a, a, now)]"
    using clears_env[OF E(5)[OF pend]] P(7) by (simp add: rearm_frame)
  show "slot_of (tq_expire noting now e) b = slot_of e b" if "b \<noteq> a"
    using C rearm_frame(2)[OF that] mem by (simp add: slot_of_def)
  have sub: "set (tq_heap (tq_expire noting now e)) \<subseteq> insert a (set (tq_heap e))" using C M(5) P(4) by auto
  have keep: "b \<in> set (tq_heap (tq_expire noting now e))" if "b \<in> set (tq_heap e)" "b \<noteq> a" "tm_pending e b" for b
  proof -
    have "b \<in> set (tq_heap (rearm now a e1))" using M(5) P(4) that by auto
    moreover have "tm_pending (rearm now a e1) b" using M(6) P(5) that by simp
    ultimately show ?thesis using C by simp
  qed
  have late: "periodic e a \<Longrightarrow> now < next_expiry now e a" by (simp add: next_expiry_def)
  show "fires now (tq_expire noting now e) = fires now e - {a}"
  proof (rule set_eqI)
    fix b show "b \<in> fires now (tq_expire noting now e) \<longleftrightarrow> b \<in> fires now e - {a}"
      using sub keep[of b] late by (cases "b = a") (auto simp: fires_def pd ex split: if_splits)
  qed
qed

lemma clears_fires: "clears q q' \<Longrightarrow> fires now q' = fires now q"
  by (auto simp: clears_def fires_def)

text \<open>The calls of a dispatch: the timers that are due, in the order in which they expire.\<close>

definition calls_due :: "int \<Rightarrow> 'a timer_queue_scheme \<Rightarrow> nat list \<Rightarrow> bool" where
  "calls_due now q as \<longleftrightarrow> distinct as \<and> set as = fires now q \<and> sorted (map (expiry_of q) as)"

definition call_notes :: "int \<Rightarrow> 'a timer_queue_scheme \<Rightarrow> nat list \<Rightarrow> (nat \<times> nat \<times> int) list" where
  "call_notes now q as = map (\<lambda>a. (slot_of q a, a, now)) as"

lemma noting_loop:
  assumes "timer_inv e"
  shows "\<exists>e' as. dispatch_loop noting now e n = Some (n + int (length as), e') \<and> te_held e' = te_held e
    \<and> calls_due now e as \<and> te_notes e' = te_notes e @ call_notes now e as
    \<and> (\<forall>a. tm_pending e' a \<longleftrightarrow> tm_pending e a \<and> (a \<in> fires now e \<longrightarrow> periodic e a))
    \<and> (\<forall>a. expiry_of e' a = (if a \<in> fires now e \<and> periodic e a then next_expiry now e a else expiry_of e a))"
  using assms
proof (induction e arbitrary: n rule: wf_induct_rule[OF wf_measures[of "[\<lambda>e. card (due_set now e), \<lambda>e. length (tq_heap e)]"]])
  case (1 e)
  have fin: "finite (due_set now e)" "finite (fires now e)" by (simp_all add: due_set_def fires_def)
  have heap: "is_heap (expiry_of e) (tq_heap e)" using 1(2) by (simp add: timer_inv_def tq_inv_def)
  have none: ?case if "dispatch_loop noting now e n = Some (n, e)" "fires now e = {}"
    using that by (intro exI[of _ e] exI[of _ "[]"]) (simp add: calls_due_def call_notes_def)
  consider (empty) "tq_heap e = []" | (dead) "tq_heap e \<noteq> []" "\<not> tm_pending e (hd (tq_heap e))"
    | (due) "tq_heap e \<noteq> []" "tm_pending e (hd (tq_heap e))" "expiry_of e (hd (tq_heap e)) \<le> now"
    | (done_) "tq_heap e \<noteq> []" "tm_pending e (hd (tq_heap e))" "now < expiry_of e (hd (tq_heap e))" by linarith
  then show ?case
  proof cases
    case empty
    show ?thesis by (rule none) (subst dispatch_loop.simps, use empty in \<open>simp_all add: fires_def\<close>)
  next
    case done_
    have "\<forall>a\<in>set (tq_heap e). now < expiry_of e a" using mh.front_least[OF heap] done_(3) by fastforce
    then have "fires now e = {}" unfolding fires_def by force
    moreover have "dispatch_loop noting now e n = Some (n, e)" using done_ by (subst dispatch_loop.simps) simp
    ultimately show ?thesis by (intro none)
  next
    case dead
    note D = pop_dead_env[OF 1(2) dead]
    have "card (due_set now (pop_dead e)) < card (due_set now e) \<or> card (due_set now (pop_dead e)) = card (due_set now e)"
      using card_mono[OF fin(1) clears_due[OF D(2)]] by linarith
    moreover have "length (tq_heap (pop_dead e)) < length (tq_heap e)" using dead by (simp add: pop_dead_heap length_pop_heap)
    moreover have "dispatch_loop noting now e n = dispatch_loop noting now (pop_dead e) n" using dead by (subst dispatch_loop.simps) simp
    moreover have "tm_pending (pop_dead e) = tm_pending e" "expiry_of (pop_dead e) = expiry_of e" "te_held (pop_dead e) = te_held e"
        "periodic (pop_dead e) = periodic e" "next_expiry now (pop_dead e) = next_expiry now e" "te_notes (pop_dead e) = te_notes e"
        "call_notes now (pop_dead e) = call_notes now e"
      using D(2) clears_env[OF D(2)] by (auto simp: clears_def periodic_def next_expiry_def call_notes_def slot_of_def fun_eq_iff)
    moreover have "calls_due now (pop_dead e) = calls_due now e"
      using D(2) clears_fires[OF D(2), of now] by (intro ext) (simp add: clears_def calls_due_def)
    ultimately show ?thesis using 1(1)[of "pop_dead e" n] D(1) clears_fires[OF D(2), of now] by auto
  next
    case due
    let ?a = "hd (tq_heap e)" and ?e = "tq_expire noting now e"
    note E = tq_expire_inv[OF 1(2) due(1,2) noting_acts[of "\<lambda>now x. now < x"], of now]
    note X = noting_expire[OF 1(2) due(1,2)]
    have a: "?a \<in> due_set now e" "?a \<in> fires now e" using due by (simp_all add: due_set_def fires_def)
    have "due_set now ?e \<subset> due_set now e" using E a(1) by blast
    then have "card (due_set now ?e) < card (due_set now e)" using psubset_card_mono[OF fin(1)] by blast
    then obtain e' as where e': "dispatch_loop noting now ?e (n + 1) = Some (n + 1 + int (length as), e')" "te_held e' = te_held ?e"
        "\<forall>b. tm_pending e' b \<longleftrightarrow> tm_pending ?e b \<and> (b \<in> fires now ?e \<longrightarrow> periodic ?e b)"
        "\<forall>b. expiry_of e' b = (if b \<in> fires now ?e \<and> periodic ?e b then next_expiry now ?e b else expiry_of ?e b)"
        "calls_due now ?e as" "te_notes e' = te_notes ?e @ call_notes now ?e as"
      using 1(1)[of ?e "n + 1"] E by auto
    have same: "periodic ?e b = periodic e b" "b \<noteq> ?a \<Longrightarrow> next_expiry now ?e b = next_expiry now e b" for b
      using X(2,3) by (simp_all add: periodic_def next_expiry_def)
    have as: "distinct as" "set as = fires now e - {?a}" "sorted (map (expiry_of ?e) as)"
      using e'(5) by (simp_all add: calls_due_def X(5))
    have old: "map (expiry_of ?e) as = map (expiry_of e) as" "call_notes now ?e as = call_notes now e as"
      using as(2) X(7)[of _ now] by (auto simp: X(2) call_notes_def)
    have least: "expiry_of e ?a \<le> expiry_of e b" if "b \<in> set as" for b
      using mh.front_least[OF heap, of b] that as(2) by (simp add: fires_def)
    have cs: "calls_due now e (?a # as)"
      using as(1,2) as(3)[unfolded old(1)] least a(2) by (auto simp: calls_due_def)
    have ns: "te_notes e' = te_notes e @ call_notes now e (?a # as)"
      using e'(6) X(6) old(2) by (simp add: call_notes_def)
    have "dispatch_loop noting now e n = dispatch_loop noting now ?e (n + 1)" using due by (subst dispatch_loop.simps) simp
    then have run: "dispatch_loop noting now e n = Some (n + int (length (?a # as)), e')" using e'(1) by simp
    have p: "tm_pending e' b \<longleftrightarrow> tm_pending e b \<and> (b \<in> fires now e \<longrightarrow> periodic e b)" for b
      using e'(3) a(2) due(2) by (cases "b = ?a") (auto simp: X(1,5) same)
    have x: "expiry_of e' b = (if b \<in> fires now e \<and> periodic e b then next_expiry now e b else expiry_of e b)" for b
      using e'(4) a(2) by (cases "b = ?a") (auto simp: X(2,5) same)
    show ?thesis using run p x e'(2) X(4) cs ns by (intro exI[of _ e'] exI[of _ "?a # as"]) simp
  qed
qed

end
