(* ===== verification/Timer_Props.thy ===== *)
theory Timer_Props
  imports Timer_Inv
begin

text \<open>What the timer queue promises to its users, and a miscount.\<close>

section \<open>Reachable queues\<close>

text \<open>The users act between dispatches and in callbacks; callbacks do not dispatch.\<close>

inductive timer_reach :: "timer_env \<Rightarrow> bool" where
  reach_start: "timer_reach timer_start"
| reach_act: "timer_reach e \<Longrightarrow> timer_act (\<lambda>_. True) e e' \<Longrightarrow> timer_reach e'"
| reach_dispatch: "timer_reach e \<Longrightarrow> acts_only (\<lambda>_ _. True) user \<Longrightarrow> tq_dispatch user now e = Some (n, e') \<Longrightarrow> timer_reach e'"

lemma timer_start_inv: "timer_inv timer_start"
  by (simp add: timer_inv_def timer_start_def tq_inv_def refs_to_def outside_def dead_count_def is_heap_def)

lemma tq_dispatch_inv:
  assumes run: "tq_dispatch user now e = Some (n, e')" and user: "acts_only ok user" and inv: "timer_inv e"
  shows "timer_inv e'" and "te_local e' = te_local e" and "tq_tidy e'" and "\<forall>a\<in>set (tq_heap e'). tm_pending e' a \<longrightarrow> now < expiry_of e' a"
proof -
  obtain e1 where loop: "dispatch_loop user now e 0 = Some (n, e1)" and e': "e' = tq_gc e1"
    using run by (auto simp: tq_dispatch_def split: option.splits prod.splits)
  have L: "timer_inv e1" "te_local e1 = te_local e" "tq_heap e1 = [] \<or> tm_pending e1 (hd (tq_heap e1)) \<and> now < expiry_of e1 (hd (tq_heap e1))"
    using dispatch_loop_inv[OF loop user inv] by (simp_all add: loop_post_def)
  note G = tq_gc_env[OF L(1), folded e']
  show "timer_inv e'" "tq_tidy e'" "te_local e' = te_local e" using G L(2,3) clears_env[OF G(2)] by auto
  have heap: "is_heap (expiry_of e1) (tq_heap e1)" using L(1) by (simp add: timer_inv_def tq_inv_def)
  have "now < expiry_of e1 a" if "a \<in> set (tq_heap e1)" for a
    using L(3) mh.front_least[OF heap that] that by (cases "tq_heap e1") auto
  then show "\<forall>a\<in>set (tq_heap e'). tm_pending e' a \<longrightarrow> now < expiry_of e' a" using G(2) by (auto simp: clears_def)
qed

lemma timer_reach_inv: "timer_reach e \<Longrightarrow> timer_inv e \<and> te_local e = [] \<and> tq_tidy e"
proof (induction rule: timer_reach.induct)
  case reach_start
  show ?case by (simp add: timer_start_inv) (simp add: timer_start_def tq_tidy_def)
next
  case (reach_act e e')
  then show ?case using timer_act_inv[OF reach_act(2), of 0] by simp
next
  case (reach_dispatch e user now n e')
  then show ?case using tq_dispatch_inv[OF reach_dispatch(3,2)] by simp
qed

text \<open>A pending timer that someone holds waits in the heap.\<close>

lemma held_waits:
  assumes "timer_reach e" and "a \<in> set (te_held e)" and "tm_pending e a"
  shows "a \<in> set (tq_heap e)"
proof -
  have "timer_inv e" "te_local e = []" using timer_reach_inv[OF assms(1)] by simp_all
  then have inv: "tq_inv (outside e) {} e" using timer_inv_def[of e] by simp
  have "0 < refs_to (outside e) e a" using assms(2) by (simp add: refs_pos outside_pos)
  then show ?thesis using inv assms(3) by (auto simp: tq_inv_def)
qed

section \<open>Examples\<close>

definition ex_timers :: timer_env where
  "ex_timers = (let (a, e) = tq_insert 5 0 7 timer_start; e = e\<lparr>te_held := a # te_held e\<rparr>;
       (b, e) = tq_insert 3 10 8 e in e\<lparr>te_held := b # te_held e\<rparr>)"

lemma ex_timers_reach: "timer_reach ex_timers"
proof -
  obtain a e1 where 1: "tq_insert 5 0 7 timer_start = (a, e1)" by (cases "tq_insert 5 0 7 timer_start")
  obtain b e2 where 2: "tq_insert 3 10 8 (e1\<lparr>te_held := a # te_held e1\<rparr>) = (b, e2)" by (cases "tq_insert 3 10 8 (e1\<lparr>te_held := a # te_held e1\<rparr>)")
  have "timer_reach (e1\<lparr>te_held := a # te_held e1\<rparr>)" by (rule timer_reach.reach_act[OF timer_reach.reach_start act_insert[OF TrueI 1]])
  from timer_reach.reach_act[OF this act_insert[OF TrueI 2]] show ?thesis by (simp add: ex_timers_def 1 2)
qed

lemma ex_slab: "rev [Suc 0..<510] = 509 # rev [Suc 0..<509]"
  using upt_Suc[of 1 509] by simp

lemmas ex_timers_eval = ex_slab ex_timers_def tq_insert_def tq_alloc_def tq_push_def push_heap_def timer_start_def on_timer_at_def add_ref_def
  expiry_of_def tm_pending_def slab_size_def

lemma ex_timers_facts: "te_held ex_timers = [509, 0]" "tq_heap ex_timers = [509, 0]" "tm_pending ex_timers 509" "tm_pending ex_timers 0"
  "expiry_of ex_timers 509 = 3" "expiry_of ex_timers 0 = 5" "tm_interval (tq_mem ex_timers 509) = 10" "tm_interval (tq_mem ex_timers 0) = 0"
  "tm_slot (tq_mem ex_timers 509) = Some 8" "te_notes ex_timers = []"
  by (simp_all add: ex_timers_eval Let_def)

section \<open>Properties\<close>

text \<open>
  C25. In every queue that its users can reach, by insertions, cancellations, copies and releases of timers, between
  dispatches and in callbacks, the references are counted: a timer that is held or waits in the heap is never free
  for another use. Unless the heap is empty its front is a timer that is pending and expires no later than any other pending one,
  so that it tells how long to sleep. The count of cancelled timers is never less than those in the heap,
  and at most half of its size.
\<close>

theorem timers_invariant:
  assumes "timer_reach e"
  shows "(\<forall>a\<in>set (te_held e) \<union> set (tq_heap e). a \<notin> set (tq_free e)
        \<and> tm_refs (tq_mem e a) = int (count_list (te_held e) a + (if a \<in> set (tq_heap e) then 1 else 0)))
    \<and> (tq_heap e \<noteq> [] \<longrightarrow> tm_pending e (hd (tq_heap e)))
    \<and> (\<forall>a\<in>set (te_held e). tm_pending e a \<longrightarrow> tq_heap e \<noteq> [] \<and> expiry_of e (hd (tq_heap e)) \<le> expiry_of e a)
    \<and> tq_size e \<le> int (length (filter (tm_pending e) (tq_heap e)))
    \<and> tq_cancelled e \<le> int (length (tq_heap e) div 2)"
proof -
  have R: "timer_inv e" "te_local e = []" "tq_tidy e" using timer_reach_inv[OF assms] by simp_all
  have inv: "tq_inv (outside e) {} e" using R(1) by (simp add: timer_inv_def R(2))
  have out: "outside e = count_list (te_held e)" by (simp add: outside_def R(2) fun_eq_iff)
  have ref: "0 < refs_to (outside e) e a" if "a \<in> set (te_held e) \<union> set (tq_heap e)" for a
    using that by (auto simp: refs_to_def out count_list_pos)
  have "a \<notin> set (tq_free e) \<and> tm_refs (tq_mem e a) = int (count_list (te_held e) a + (if a \<in> set (tq_heap e) then 1 else 0))"
    if "a \<in> set (te_held e) \<union> set (tq_heap e)" for a
    using ref[OF that] refs_counted[OF inv ref[OF that]] free_list[OF inv] by (auto simp: refs_to_def out)
  moreover have "tq_heap e \<noteq> [] \<and> expiry_of e (hd (tq_heap e)) \<le> expiry_of e a" if "a \<in> set (te_held e)" "tm_pending e a" for a
  proof -
    have "is_heap (expiry_of e) (tq_heap e)" using inv by (simp add: tq_inv_def)
    then show ?thesis using held_waits[OF assms that] mh.front_least by fastforce
  qed
  moreover have "tq_size e \<le> int (length (filter (tm_pending e) (tq_heap e)))"
    using inv sum_length_filter_compl[of "tm_pending e" "tq_heap e"] by (simp add: tq_inv_def dead_count_def tq_size_def)
  ultimately show ?thesis using R(3) by (auto simp: tq_tidy_def)
qed

theorem timers_invariant_witness:
  "tm_refs (tq_mem ex_timers 509) = 2 \<and> tq_cancelled ex_timers \<le> 1 \<and> expiry_of ex_timers (hd (tq_heap ex_timers)) \<le> 5"
  using timers_invariant[OF ex_timers_reach] by (simp add: ex_timers_facts)

text \<open>
  C26. As long as callbacks insert no timer that is already due, a dispatch ends, whatever else they do, and then no
  timer that someone holds is pending and due.
\<close>

theorem dispatch_catches_up:
  assumes "timer_reach e" and "acts_only (\<lambda>now x. now < x) user"
  shows "\<exists>n e'. tq_dispatch user now e = Some (n, e') \<and> (\<forall>a\<in>set (te_held e'). tm_pending e' a \<longrightarrow> now < expiry_of e' a)"
proof -
  have inv: "timer_inv e" using timer_reach_inv[OF assms(1)] by simp
  obtain n e' where run: "tq_dispatch user now e = Some (n, e')"
    using dispatch_loop_ends[OF assms(2) inv, of now 0] by (auto simp: tq_dispatch_def)
  have "timer_act (\<lambda>x. now < x) e1 e2 \<Longrightarrow> timer_act (\<lambda>_. True) e1 e2" for now e1 e2
    by (induction rule: timer_act.induct) (auto intro: timer_act.intros)
  then have "acts_only (\<lambda>_ _. True) user"
    using assms(2) unfolding acts_only_def by (meson mono_rtranclp)
  from timer_reach.reach_dispatch[OF assms(1) this run] have "timer_reach e'" .
  then show ?thesis using run tq_dispatch_inv(4)[OF run assms(2) inv] held_waits by blast
qed

theorem dispatch_catches_up_witness:
  "\<exists>n e'. tq_dispatch silent 4 ex_timers = Some (n, e') \<and> (\<forall>a\<in>set (te_held e'). tm_pending e' a \<longrightarrow> 4 < expiry_of e' a)"
  using dispatch_catches_up[OF ex_timers_reach silent_acts] by blast

text \<open>
  C27. A dispatch with callbacks that leave the queue alone and only write down that they were called: it makes one call for each
  pending timer that is due, with its slot, the timer and the time of the dispatch, in the order in which they expire, and no other
  call, so none for a timer that was cancelled. A periodic one goes on an interval after it was due, or just after
  now if that is past; the others that were called are no longer pending, and the rest are as they were.
\<close>

theorem due_timers_fire:
  assumes "timer_reach e"
  shows "\<exists>e' as. tq_dispatch noting now e = Some (int (length as), e') \<and> te_held e' = te_held e
    \<and> distinct as \<and> set as = {a \<in> set (tq_heap e). tm_pending e a \<and> expiry_of e a \<le> now} \<and> sorted (map (expiry_of e) as)
    \<and> te_notes e' = te_notes e @ map (\<lambda>a. (the (tm_slot (tq_mem e a)), a, now)) as
    \<and> (\<forall>a. tm_pending e' a \<longleftrightarrow> tm_pending e a \<and> (a \<in> set as \<longrightarrow> periodic e a))
    \<and> (\<forall>a. expiry_of e' a = (if a \<in> set as \<and> periodic e a then next_expiry now e a else expiry_of e a))"
proof -
  have inv: "timer_inv e" using timer_reach_inv[OF assms] by simp
  obtain e1 as where L: "dispatch_loop noting now e 0 = Some (int (length as), e1)" "te_held e1 = te_held e"
      "calls_due now e as" "te_notes e1 = te_notes e @ call_notes now e as"
      "\<forall>a. tm_pending e1 a \<longleftrightarrow> tm_pending e a \<and> (a \<in> fires now e \<longrightarrow> periodic e a)"
      "\<forall>a. expiry_of e1 a = (if a \<in> fires now e \<and> periodic e a then next_expiry now e a else expiry_of e a)"
    using noting_loop[OF inv, of now 0] by auto
  have "timer_inv e1" using dispatch_loop_inv[OF L(1) noting_acts inv] by (simp add: loop_post_def)
  from tq_gc_env(2)[OF this] have "tm_pending (tq_gc e1) = tm_pending e1" "expiry_of (tq_gc e1) = expiry_of e1" "te_held (tq_gc e1) = te_held e1"
      "te_notes (tq_gc e1) = te_notes e1"
    using clears_env[of e1 "tq_gc e1"] by (simp_all add: clears_def)
  moreover have "set as = fires now e" using L(3) by (simp add: calls_due_def)
  ultimately show ?thesis
    using L(1,2,4-6) L(3)[unfolded calls_due_def] unfolding fires_def[symmetric] slot_of_def[symmetric] call_notes_def[symmetric]
    by (intro exI[of _ "tq_gc e1"] exI[of _ as]) (simp add: tq_dispatch_def)
qed

theorem due_timers_fire_witness:
  "\<exists>e'. tq_dispatch noting 4 ex_timers = Some (1, e') \<and> te_notes e' = [(8, 509, 4)] \<and> expiry_of e' 509 = 13 \<and> tm_pending e' 0"
proof -
  obtain e' as where d: "tq_dispatch noting 4 ex_timers = Some (int (length as), e')" "distinct as"
      "set as = {a \<in> set (tq_heap ex_timers). tm_pending ex_timers a \<and> expiry_of ex_timers a \<le> 4}"
      "te_notes e' = te_notes ex_timers @ map (\<lambda>a. (the (tm_slot (tq_mem ex_timers a)), a, 4)) as"
      "\<forall>a. tm_pending e' a \<longleftrightarrow> tm_pending ex_timers a \<and> (a \<in> set as \<longrightarrow> periodic ex_timers a)"
      "\<forall>a. expiry_of e' a = (if a \<in> set as \<and> periodic ex_timers a then next_expiry 4 ex_timers a else expiry_of ex_timers a)"
    using due_timers_fire[OF ex_timers_reach, of 4] by blast
  have s: "set as = {509}" unfolding d(3) by (auto simp: ex_timers_facts)
  then have "as = [509]" using d(2) by (cases as; cases "tl as") auto
  moreover have "periodic ex_timers 509" "next_expiry 4 ex_timers 509 = 13" by (simp_all add: periodic_def next_expiry_def ex_timers_facts)
  ultimately show ?thesis using d by (auto simp: ex_timers_facts)
qed

section \<open>A miscount\<close>

text \<open>A timer that is cancelled in its own callback is counted as one in the heap, where it is not.\<close>

lemma cancel_called_miscounts:
  assumes "timer_inv e" and "a \<in> set (te_local e)" and "tm_pending e a" and "tq_cancelled e = 0" and "2 \<le> length (tq_heap e)"
  shows "tq_size (cancel_timer a e) = int (length (tq_heap e)) - 1 \<and> tq_heap (cancel_timer a e) = tq_heap e
    \<and> (\<forall>b\<in>set (tq_heap e). tm_pending (cancel_timer a e) b)"
proof -
  have "dead_count e = 0" using assms(1,4) by (simp add: timer_inv_def tq_inv_def)
  then have pend: "\<forall>b\<in>set (tq_heap e). tm_pending e b" by (auto simp: dead_count_def filter_empty_conv)
  have a: "a \<notin> set (tq_heap e)" using assms(1,2) by (auto simp: timer_inv_def)
  let ?e = "(reset_slot a e)\<lparr>tq_cancelled := 1\<rparr>"
  have hd: "hd (tq_heap e) \<in> set (tq_heap e)" using assms(5) by (intro list.set_sel) auto
  then have "hd (tq_heap e) \<noteq> a" using a by auto
  then have "pop_all_dead ?e = ?e" using pend hd by (subst pop_all_dead.simps) simp
  moreover have "tq_gc ?e = ?e" using assms(5) by (simp add: tq_gc_def)
  ultimately have "cancel_timer a e = ?e" by (simp add: cancel_timer_def tq_cancel_def assms(3,4))
  then show ?thesis using pend a by (auto simp: tq_size_def)
qed

end
