(* ===== verification/Spec2Isabelle.thy ===== *)
theory Spec2Isabelle
  imports App_Batch App_Charter App_Create App_Cross App_Example App_Inv App_Ledger App_Match App_Ops App_Refuse App_Revise App_State App_Step App_Trade Basic_Types Byte_Buffer Component_Props Config_File Date_Time Db_Model Db_Posn Db_Readers Db_Restart Db_Schema Dsv_Model Engine_Props Fix_Parser Fix_Props Fix_Stream Fix_Tokeniser Http_Conn Http_Props Http_Request Http_Sess Http_Stream Journ Json_Text Keyed_Set Market Market_Side Mem_Conc Mem_Pool Mem_Queue Msg_Queue Order_Exec Posn Prelude Request_Props Rest_App Rest_Body Rest_Fields Rest_Guard Rest_Parse Rest_Props Rest_Query Rest_Refine Rest_Route Rest_Safe Rest_Search Rest_Serv Rest_Tables Sess Strings Timer_Inv Timer_Props Timer_Queue Var_Sub
begin

text \<open>
  A verification development for Swirly, an order book and matching engine in C++
  (\<open>src/swirly\<close>). It models the engine of \<open>lob/App.cpp\<close> with everything below it, and the REST interface above
  it, from the events of the HTTP parser to the bytes of the response.

  THE PROGRAM. A market (\<open>fin/Market.cpp\<close>) has two sides (\<open>fin/MarketSide.cpp\<close>), each with its
  orders in price-time priority and its price levels. A session (\<open>lob/Sess.cpp\<close>) has the orders, recent
  executions, trades and positions of an account. The engine (\<open>App::Impl\<close> of \<open>lob/App.cpp\<close>) has the
  markets and the sessions, changes them by the calls of its interface, and writes each change
  to a queue of messages (\<open>fin/MsgQueue.cpp\<close> over \<open>app/MemQueue.hpp\<close>) that the journal's thread reads. A
  call first prepares, then writes to the queue, which may throw because the queue is full, and then
  commits, which must not fail. A connection (\<open>swirlyd/HttpSess.cpp\<close>) builds up requests from what it reads
  (\<open>web/Request.hpp\<close>), whose bodies a state machine parses that Ragel generated (\<open>web/RestBody.cpp\<close>). The server
  (\<open>swirlyd/RestServ.cpp\<close>) routes a request by its path and method to an operation (\<open>web/RestApp.cpp\<close>) that calls the
  engine and writes JSON; the response is framed in the connection's buffer (\<open>web/Stream.cpp\<close>, \<open>sys/Buffer.cpp\<close>).
  The journal's thread writes the messages to a database (\<open>db/SqliteJourn.cpp\<close>, \<open>db/MySqlJourn.cpp\<close>), whose triggers keep
  the orders; at the start the engine loads from it what a model reads (\<open>db/SqliteModel.cpp\<close>, \<open>db/MySqlModel.cpp\<close>, or
  \<open>fin/DsvModel.cpp\<close> from files).

  THE MODEL. One theory per component, in the order of their dependencies:
    \<^item> \<open>Prelude\<close>: results, names of quantities, facts on lists. \<open>Basic_Types\<close>: enumerations, comparison, cost,
      error codes. \<open>Keyed_Set\<close>: the ordered sets of \<open>util/Set.hpp\<close>.
    \<^item> \<open>Order_Exec\<close>: requests, orders, executions. \<open>Market_Side\<close> and \<open>Market\<close>: the book. \<open>Posn\<close>: positions.
      \<open>Sess\<close>: sessions and responses.
    \<^item> \<open>Mem_Queue\<close> and \<open>Msg_Queue\<close>: the ring with its sequence numbers, and the messages. \<open>Mem_Conc\<close>: the ring
      with any number of threads that post and fetch at the same time, one atomic access a step, and the invariant
      that says which thread owns an element. \<open>Date_Time\<close>: dates, the business-day cache, market identifiers.
    \<^item> \<open>Mem_Pool\<close>: the allocator of orders, executions and levels (\<open>app/MemCtx.cpp\<close>, \<open>app/MemPool.hpp\<close>) with any number of
      threads. \<open>Var_Sub\<close> and \<open>Config_File\<close>: the configuration file and what the daemon reads from it.
    \<^item> \<open>App_State\<close> and \<open>App_Ops\<close>: the state of the engine and its operations, in the order of \<open>lob/App.cpp\<close>.
    \<^item> \<open>Rest_Tables\<close> and \<open>Rest_Body\<close>: the generated tables, as they are in the source, and the parser over them.
    \<^item> \<open>Strings\<close>: numbers in text, tokens, bounded strings (\<open>util/String.cpp\<close>, \<open>util/Tokeniser.hpp\<close>, \<open>util/StringBuf.hpp\<close>).
      \<open>Byte_Buffer\<close> and \<open>Http_Stream\<close>: the buffer and the responses in it. \<open>Json_Text\<close>: \<open>to_json\<close> and \<open>to_dsv\<close> of every object.
    \<^item> \<open>Rest_Query\<close>, \<open>Http_Request\<close>, \<open>Rest_App\<close>, \<open>Rest_Serv\<close>, \<open>Http_Sess\<close>: entities and pages, requests, the operations of the
      REST interface, the server, a connection.
    \<^item> \<open>Fix_Stream\<close>, \<open>Fix_Parser\<close>, \<open>Fix_Tokeniser\<close>: FIX messages as they are written, found in the input and split into fields
      (\<open>src/swirly/fix\<close>), a component that the engine does not use yet.
    \<^item> \<open>Timer_Queue\<close>: the timers of \<open>sys/Timer.cpp\<close>, which end idle connections.
    \<^item> \<open>Journ\<close>: both journals. \<open>Db_Schema\<close>: the statements of \<open>db/Sql.hxx\<close> on the tables and triggers of \<open>etc/sql/schema.sqlite\<close>.
      \<open>Db_Model\<close>: both models on a database. \<open>Dsv_Model\<close>: the model on delimited files.

  How the state corresponds to the code:
    \<^item> An operation that can throw is a function into \<open>outcome\<close>: \<open>Done\<close> with value and state, \<open>Throw\<close> with the
      error and the state that the exception leaves behind, \<open>Undef\<close> where the C++ code has no
      defined result: it dereferences an iterator that it does not compare with \<open>end()\<close>, uses an order in a
      market that is not its own, or spins for ever. Assertions are not checks, as in a release build; what they
      assert follows from the invariants.
    \<^item> Orders, executions and positions are shared by pointers (\<open>boost::intrusive_ptr\<close>), so they are in
      heaps, functions from addresses, with the next free address. Addresses are not reused; memory
      that runs out is not modelled.
    \<^item> Intrusive sets are lists sorted by a key; intrusive lists and circular buffers are lists. Markets,
      sessions and levels are values in such sets, and a pointer to one is its key.
    \<^item> Quantities are mathematical integers: signed overflow is undefined in C++. Arithmetic that wraps in the
      code, in market identifiers and in the numbers of a request body, is on 32 or 64 bits.
    \<^item> The time zone is the parameter \<open>local_jd\<close>: it gives the Julian day of a time in seconds. What a \<open>Model\<close>
      reads from a database is the record \<open>model\<close>.
    \<^item> A database is the parameter \<open>run\<close> of the journals, from a statement and its values to success or failure and a new state, and
      the result of a query for the models, rows or a failure. \<open>sqlite_run fault\<close> is the database with the schema of the
      repository, in which the calls that \<open>fault\<close> names fail, also the begin, the commit and the rollback of a transaction. The parameter \<open>nv\<close> is the text that \<open>string_view\<close> makes of a null
      pointer, if that is defined.
    \<^item> The vendored HTTP parser is the parameter \<open>execute\<close>, from its state and some input to the events that it
      calls back with; \<open>parse_url\<close> is its function for URLs, \<open>keep_alive\<close> its test. The texts of exceptions are the parameter
      \<open>what\<close>; the clock and the results of system calls are arguments.
    \<^item> What a handler writes to the stream is the string that it gives. An exception drops it, as the code
      starts the response anew.

  THE PROOFS.
    \<^item> \<open>App_Inv\<close> states the invariant of the engine in parts, each with a lemma for the members it does not
      read. \<open>App_Match\<close>, \<open>App_Create\<close>, \<open>App_Revise\<close>, \<open>App_Batch\<close> and \<open>App_Trade\<close> show, for each operation, its outcomes and
      that each keeps the invariant; the preparation of a call only goes through states that a
      relation \<open>stage\<close> connects, which is why a full queue undoes nothing but the insertion of a new order.
      \<open>App_Cross\<close> shows that no call leaves a market crossed. \<open>App_Ledger\<close> has the trades, recent executions and positions of each
      account as a reader sees them, what booking a trade does to them, and that what an operation does before it posts to the queue
      leaves them; \<open>App_Refuse\<close> shows the latter for a whole matching.
    \<^item> \<open>App_Step\<close> has the engine as a transition system over its calls and the fetches of the journal's thread,
      and the invariants of its reachable states; \<open>App_Example\<close> has states to evaluate properties on.
    \<^item> \<open>Rest_Search\<close> shows that the binary searches of the parser are linear ones, \<open>Rest_Parse\<close> that parsing has a
      result and does not depend on how a body is cut, by a check of all transitions of the
      tables; \<open>Rest_Fields\<close> computes whole bodies.
    \<^item> \<open>Rest_Route\<close> is the abstract specification of the REST interface, a table from paths and methods to operations;
      \<open>Rest_Refine\<close> shows that the nested handlers implement it. \<open>Rest_Safe\<close> shows that each operation is a run of calls of the
      engine, and what its permissions allow; \<open>App_Charter\<close> what a trader's calls leave as it is; \<open>Rest_Guard\<close> puts both
      together for a whole request and its response.
    \<^item> \<open>Http_Conn\<close> specifies a connection as the assembly of requests from events (\<open>assemble\<close>) and their answers in
      turn (\<open>exchange\<close>), and shows that \<open>HttpSess\<close> implements it.
    \<^item> The FIX theories show the bytes of a message (\<open>fix_message\<close>), that the parser finds it in front of anything, that a parser which
      waits goes on as a fresh one would, and that the search for a tag is a lookup; \<open>Fix_Props\<close> puts them together.
    \<^item> \<open>Timer_Inv\<close> has the invariant of the timers relative to the references that are outside of the queue, what each operation does
      to it, and the loop of a dispatch, which may not end; \<open>Timer_Props\<close> has the reachable queues.
      Callbacks are any changes that a user may make; the member \<open>te_notes\<close>, which the program does not have, is where a callback
      can write down that it was called.
    \<^item> \<open>Mem_Conc\<close> and \<open>Mem_Pool\<close> have one invariant each over the shared memory and what every thread knows at its place; a
      variable that the program does not have records what was posted, and who has which block. \<open>Var_Sub\<close> shows that
      references without a cycle are expanded, by induction on their rank; \<open>Config_File\<close> has the files around them.
    \<^item> \<open>Db_Readers\<close> compares the two journals and the two models, and reads an execution back; \<open>Db_Restart\<close> shows that the table
      of executions refines a log of the messages, and what is loaded of it; \<open>Db_Posn\<close> has the positions that are loaded.
    \<^item> The properties are in \<open>Market_Side\<close>, \<open>Engine_Props\<close>, \<open>Request_Props\<close>, \<open>Component_Props\<close>, \<open>Rest_Props\<close>, \<open>Http_Props\<close>, \<open>Fix_Props\<close>,
      \<open>Timer_Props\<close>, \<open>Db_Readers\<close>, \<open>Db_Restart\<close>, \<open>Db_Posn\<close>, \<open>Dsv_Model\<close>, \<open>Mem_Conc\<close>,
      \<open>Mem_Pool\<close> and \<open>Config_File\<close>.
    \<^item> Interfaces are locales: \<open>keyed_set\<close>, interpreted on the sorted lists, \<open>bounded_queue\<close>, interpreted on the
      ring, on which the lemmas of the journal rest, \<open>min_heap\<close>, interpreted on lists whose first element is the least, on which those of the timers rest,
      \<open>byte_buffer\<close>, interpreted on the buffer, on which those of
      the responses and of the FIX messages rest, and \<open>transactional\<close>, interpreted on the database with the schema, on which those
      of the journals' transactions rest.

  BOUNDS. No fuel is used: every loop of the code is a structural recursion or has a measure, but for the dispatch of timers, which callbacks can keep
  busy for ever (\<open>dispatch_catches_up\<close> says when not), and the substitution of variables, whose value is \<open>None\<close> where it does
  not end (\<open>self_reference_never_ends\<close>). The tags of the memory pool are unique up to \<open>2 ^ 32\<close> blocks freed to a list. The properties of
  the queue hold for a capacity that is a power of two, at least two; another capacity gets stuck
  (\<open>queue_gets_stuck\<close>). ISO dates are read back from Julian day \<open>jd_min\<close> on. The properties of \<open>App\<close> are for
  states that are reached from an engine that has nothing but reference data. The length of a response's text is
  below 10^11, for which the header has room, and that of the body of a FIX message below 10^4. The numbers of reference data in
  files are read on 32 bits. A list that names an order or a trade twice makes the commit of a cancellation, a revision or an archiving
  undefined (\<open>Undef\<close>), so that what these do is stated for distinct identifiers.

  NOT MODELLED. The memory orders of the queue's atomics (the accesses are sequentially consistent in \<open>Mem_Conc\<close>;
  the engine uses the queue one call at a time), the client libraries of the databases and the connections to them, foreign keys, the view of positions and the MySQL schema,
  system calls, the vendored HTTP parser, the graphical client, the tools. A failure to
  allocate memory, or of the system call that changes the watched events, is not modelled. Of what the repository
  computes itself, the reactor's table of sockets, the logger and the wrappers of integers are left out.
\<close>

end
